(* ===== verification/VW_Prelude.thy ===== *)
theory VW_Prelude
  imports Main "HOL-Library.Word" "HOL-Library.Monad_Syntax"
begin

text \<open>
  Shared vocabulary of the development: the machine types of the C sources, the
  little-endian byte images that \<^verbatim>\<open>memcpy\<close> produces, C strings in fixed arrays,
  the ring-buffer slice every queue of the program is an instance of, and the
  interface locales that the components implement.

  Conventions.  Unsigned C integers are words of their width.  Signed 64-bit time
  stamps (\<^verbatim>\<open>int64_t\<close>) are \<open>int\<close>s; \<open>in_i64\<close> is their C type, signed overflow being
  undefined in C rather than a value.  A \<^verbatim>\<open>size_t\<close> that counts objects in memory is a
  \<open>nat\<close>.  A \<^verbatim>\<open>char*\<close> that may be \<^verbatim>\<open>NULL\<close> is an \<open>option\<close>; reading a C string behind
  its last byte yields the terminating \<open>0\<close>.
\<close>

unbundle bit_operations_syntax

section \<open>Machine types\<close>

type_synonym u8 = "8 word"
type_synonym u16 = "16 word"
type_synonym u32 = "32 word"
type_synonym u64 = "64 word"
type_synonym i64 = int
type_synonym bytes = "u8 list"

named_theorems wf_defs \<open>definitions of the C types of structs and arrays\<close>
named_theorems codec_simps \<open>equations that evaluate encoders and decoders\<close>
named_theorems ring_simps \<open>facts on ring-buffer slices\<close>

definition INT64_MAX :: int where
  "INT64_MAX = 9223372036854775807"

definition INT64_MIN :: int where
  "INT64_MIN = - 9223372036854775808"

definition in_i64 :: "int \<Rightarrow> bool" where
  "in_i64 x \<longleftrightarrow> INT64_MIN \<le> x \<and> x \<le> INT64_MAX"

lemma in_i64_iff: "in_i64 x \<longleftrightarrow> - (2 ^ 63) \<le> x \<and> x < 2 ^ 63"
  by (auto simp: in_i64_def INT64_MIN_def INT64_MAX_def)

lemma in_i64_sint [simp]: "in_i64 (sint (w :: u64))"
  using sint_range_size[of w] by (simp add: in_i64_iff word_size)

lemma sint_word_of_int_i64: "in_i64 x \<Longrightarrow> sint (word_of_int x :: u64) = x"
  by (simp add: in_i64_iff signed_take_bit_int_eq_self sint_sbintrunc')

section \<open>Little-endian byte images\<close>

primrec le_bytes :: "nat \<Rightarrow> nat \<Rightarrow> bytes" where
  "le_bytes 0 v = []"
| "le_bytes (Suc n) v = of_nat (v mod 256) # le_bytes n (v div 256)"

primrec le_nat :: "bytes \<Rightarrow> nat" where
  "le_nat [] = 0"
| "le_nat (b # bs) = unat b + 256 * le_nat bs"

lemma length_le_bytes [simp]: "length (le_bytes n v) = n"
  by (induction n arbitrary: v) auto

lemma unat_u8_lt [simp]: "unat (b :: u8) < 256"
  using unsigned_less[of b] by simp

lemma unat_of_nat_u8 [simp]: "unat (of_nat (v mod 256) :: u8) = v mod 256"
  by (simp add: unat_of_nat)

lemma le_nat_le_bytes: "le_nat (le_bytes n v) = v mod 256 ^ n"
proof (induction n arbitrary: v)
  case 0
  then show ?case by simp
next
  case (Suc n)
  have "le_nat (le_bytes (Suc n) v) = v mod 256 + 256 * (v div 256 mod 256 ^ n)"
    by (simp add: Suc.IH)
  also have "\<dots> = v mod (256 * 256 ^ n)"
    by (simp add: mod_mult2_eq)
  finally show ?case by simp
qed

lemma le_nat_bound: "le_nat bs < 256 ^ length bs"
proof (induction bs)
  case Nil
  then show ?case by simp
next
  case (Cons b bs)
  have "unat b < 256" by simp
  with Cons.IH have "unat b + 256 * le_nat bs < 256 + 256 * (256 ^ length bs - 1)"
    by (intro add_less_le_mono) auto
  also have "\<dots> = 256 ^ length (b # bs)"
    by (simp add: algebra_simps)
  finally show ?case by simp
qed

lemma le_bytes_le_nat [simp]: "le_bytes (length bs) (le_nat bs) = bs"
proof (induction bs)
  case Nil
  then show ?case by simp
next
  case (Cons b bs)
  have "(unat b + 256 * le_nat bs) mod 256 = unat b"
    by simp
  moreover have "(unat b + 256 * le_nat bs) div 256 = le_nat bs"
    by simp
  ultimately show ?case using Cons.IH by simp
qed

text \<open>The images of the scalar field types.\<close>

definition enc_u8 :: "u8 \<Rightarrow> bytes" where "enc_u8 w = le_bytes 1 (unat w)"
definition enc_u16 :: "u16 \<Rightarrow> bytes" where "enc_u16 w = le_bytes 2 (unat w)"
definition enc_u32 :: "u32 \<Rightarrow> bytes" where "enc_u32 w = le_bytes 4 (unat w)"
definition enc_u64 :: "u64 \<Rightarrow> bytes" where "enc_u64 w = le_bytes 8 (unat w)"
definition enc_i64 :: "i64 \<Rightarrow> bytes" where "enc_i64 x = enc_u64 (word_of_int x)"
definition enc_bool :: "bool \<Rightarrow> bytes" where "enc_bool b = enc_u8 (if b then 1 else 0)"

definition dec_u8 :: "bytes \<Rightarrow> u8" where "dec_u8 bs = of_nat (le_nat bs)"
definition dec_u16 :: "bytes \<Rightarrow> u16" where "dec_u16 bs = of_nat (le_nat bs)"
definition dec_u32 :: "bytes \<Rightarrow> u32" where "dec_u32 bs = of_nat (le_nat bs)"
definition dec_u64 :: "bytes \<Rightarrow> u64" where "dec_u64 bs = of_nat (le_nat bs)"
definition dec_i64 :: "bytes \<Rightarrow> i64" where "dec_i64 bs = sint (dec_u64 bs)"
definition dec_bool :: "bytes \<Rightarrow> bool" where "dec_bool bs \<longleftrightarrow> dec_u8 bs \<noteq> 0"

lemma length_enc [simp]:
  "length (enc_u8 a) = 1" "length (enc_u16 b) = 2" "length (enc_u32 c) = 4"
  "length (enc_u64 d) = 8" "length (enc_i64 e) = 8" "length (enc_bool f) = 1"
  by (simp_all add: enc_u8_def enc_u16_def enc_u32_def enc_u64_def enc_i64_def enc_bool_def)

lemma unat_mod_self:
  "unat (a :: u8) mod 256 = unat a" "unat (b :: u16) mod 65536 = unat b"
  "unat (c :: u32) mod 4294967296 = unat c"
  "unat (d :: u64) mod 18446744073709551616 = unat d"
proof -
  have "unat b < 2 ^ LENGTH(16)" "unat c < 2 ^ LENGTH(32)" "unat d < 2 ^ LENGTH(64)"
    by (rule unsigned_less)+
  then show "unat a mod 256 = unat a" "unat b mod 65536 = unat b"
    "unat c mod 4294967296 = unat c" "unat d mod 18446744073709551616 = unat d"
    by simp_all
qed

lemma dec_enc [simp]:
  "dec_u8 (enc_u8 a) = a" "dec_u16 (enc_u16 b) = b" "dec_u32 (enc_u32 c) = c"
  "dec_u64 (enc_u64 d) = d" "dec_bool (enc_bool f) = f"
  by (simp_all add: dec_u8_def enc_u8_def dec_u16_def enc_u16_def dec_u32_def enc_u32_def
      dec_u64_def enc_u64_def dec_bool_def enc_bool_def le_nat_le_bytes unat_mod_self)

lemma dec_enc_i64 [simp]: "in_i64 x \<Longrightarrow> dec_i64 (enc_i64 x) = x"
  by (simp add: dec_i64_def enc_i64_def sint_word_of_int_i64)

lemma in_i64_dec [simp]: "in_i64 (dec_i64 bs)"
  by (simp add: dec_i64_def)

lemma enc_dec:
  "length bs = 1 \<Longrightarrow> enc_u8 (dec_u8 bs) = bs" "length bs = 2 \<Longrightarrow> enc_u16 (dec_u16 bs) = bs"
  "length bs = 4 \<Longrightarrow> enc_u32 (dec_u32 bs) = bs" "length bs = 8 \<Longrightarrow> enc_u64 (dec_u64 bs) = bs"
  "length bs = 8 \<Longrightarrow> enc_i64 (dec_i64 bs) = bs"
proof -
  have img: "le_bytes n (le_nat bs mod 256 ^ n) = bs" if "length bs = n" for n
    using that le_nat_bound[of bs] le_bytes_le_nat[of bs] by simp
  show "length bs = 1 \<Longrightarrow> enc_u8 (dec_u8 bs) = bs"
    using img[of 1] by (simp add: enc_u8_def dec_u8_def unat_of_nat)
  show "length bs = 2 \<Longrightarrow> enc_u16 (dec_u16 bs) = bs"
    using img[of 2] by (simp add: enc_u16_def dec_u16_def unat_of_nat)
  show "length bs = 4 \<Longrightarrow> enc_u32 (dec_u32 bs) = bs"
    using img[of 4] by (simp add: enc_u32_def dec_u32_def unat_of_nat)
  show u64: "length bs = 8 \<Longrightarrow> enc_u64 (dec_u64 bs) = bs"
    using img[of 8] by (simp add: enc_u64_def dec_u64_def unat_of_nat)
  then show "length bs = 8 \<Longrightarrow> enc_i64 (dec_i64 bs) = bs"
    by (simp add: enc_i64_def dec_i64_def)
qed

section \<open>C strings in fixed arrays\<close>

text \<open>
  \<open>c_get s i\<close> is the byte a C program reads at \<^verbatim>\<open>s[i]\<close> of a NUL-terminated string whose
  bytes before the terminator are \<open>s\<close>.  \<open>strnlen\<close> and \<open>strlen\<close> are the library functions
  on an array.
\<close>

definition ascii :: "string \<Rightarrow> bytes" where
  "ascii s = map of_char s"

definition c_get :: "bytes \<Rightarrow> nat \<Rightarrow> u8" where
  "c_get s i = (if i < length s then s ! i else 0)"

definition strnlen :: "bytes \<Rightarrow> nat \<Rightarrow> nat" where
  "strnlen s n = length (takeWhile (\<lambda>c. c \<noteq> 0) (take n s))"

definition strlen :: "bytes \<Rightarrow> nat" where
  "strlen s = length (takeWhile (\<lambda>c. c \<noteq> 0) s)"

text \<open>\<^verbatim>\<open>ctype.h\<close> in the C locale.\<close>

definition isspace :: "u8 \<Rightarrow> bool" where
  "isspace c \<longleftrightarrow> c = 0x20 \<or> (0x09 \<le> c \<and> c \<le> 0x0D)"

definition tolower :: "u8 \<Rightarrow> u8" where
  "tolower c = (if 0x41 \<le> c \<and> c \<le> 0x5A then c + 0x20 else c)"

text \<open>The digits that \<^verbatim>\<open>strtol\<close> and \<^verbatim>\<open>strtoul\<close> read.\<close>

definition hex_digit :: "u8 \<Rightarrow> nat option" where
  "hex_digit c = (if 0x30 \<le> c \<and> c \<le> 0x39 then Some (unat c - 0x30)
     else if 0x61 \<le> c \<and> c \<le> 0x66 then Some (unat c - 0x61 + 10)
     else if 0x41 \<le> c \<and> c \<le> 0x46 then Some (unat c - 0x41 + 10) else None)"

definition base_digit :: "nat \<Rightarrow> u8 \<Rightarrow> nat option" where
  "base_digit base c = (case hex_digit c of Some d \<Rightarrow> if d < base then Some d else None | None \<Rightarrow> None)"

fun digits_value :: "nat \<Rightarrow> nat \<Rightarrow> bytes \<Rightarrow> nat \<times> bytes" where
  "digits_value base v [] = (v, [])"
| "digits_value base v (c # s) =
     (case base_digit base c of Some d \<Rightarrow> digits_value base (v * base + d) s | None \<Rightarrow> (v, c # s))"

text \<open>\<^verbatim>\<open>snprintf\<close> into a buffer of \<open>n\<close> bytes, for callers that use the text only when it fits.\<close>

definition snprintf :: "nat \<Rightarrow> bytes \<Rightarrow> bytes option" where
  "snprintf n s = (if length s < n then Some s else None)"

text \<open>The text that \<^verbatim>\<open>snprintf\<close> leaves in a buffer of \<open>n\<close> bytes, cut when it is too long.\<close>

definition snprintf_cut :: "nat \<Rightarrow> bytes \<Rightarrow> bytes" where
  "snprintf_cut n s = take (n - 1) s"

text \<open>The C string that starts at a pointer.\<close>

definition c_str :: "bytes \<Rightarrow> bytes" where
  "c_str s = take (strlen s) s"

definition nul_pad :: "nat \<Rightarrow> bytes \<Rightarrow> bytes" where
  "nul_pad n s = s @ replicate (n - length s) 0"

definition nul_padded :: "nat \<Rightarrow> bytes \<Rightarrow> bool" where
  "nul_padded n a \<longleftrightarrow> length a = n \<and> strnlen a n < n \<and> a = nul_pad n (take (strnlen a n) a)"

lemma c_str_takeWhile: "c_str s = takeWhile (\<lambda>c. c \<noteq> 0) s"
  unfolding c_str_def strlen_def by (rule takeWhile_eq_take [symmetric])

lemma length_c_str [simp]: "length (c_str s) = strlen s"
  by (simp add: c_str_takeWhile strlen_def)

lemma c_str_nonzero: "0 \<notin> set (c_str s)"
  unfolding c_str_takeWhile using set_takeWhileD by fastforce

lemma c_str_id: "0 \<notin> set s \<Longrightarrow> c_str s = s"
  unfolding c_str_takeWhile by (rule takeWhile_eq_all_conv [THEN iffD2]) auto

lemma length_nul_pad [simp]: "length s \<le> n \<Longrightarrow> length (nul_pad n s) = n"
  by (simp add: nul_pad_def)

lemma strnlen_le: "strnlen s n \<le> n"
  using length_takeWhile_le[of "\<lambda>c. c \<noteq> 0" "take n s"] by (simp add: strnlen_def)

lemma strnlen_le_length: "strnlen s n \<le> length s"
  using length_takeWhile_le[of "\<lambda>c. c \<noteq> 0" "take n s"] by (simp add: strnlen_def)

lemma takeWhile_nz_nul_pad:
  "0 \<notin> set s \<Longrightarrow> takeWhile (\<lambda>c. c \<noteq> (0::u8)) (s @ replicate k 0) = s"
  by (induction s) (cases k; simp)+

lemma strnlen_nul_pad:
  assumes "0 \<notin> set s" "length s < n"
  shows "strnlen (nul_pad n s) n = length s"
  using assms by (simp add: strnlen_def nul_pad_def takeWhile_nz_nul_pad)

lemma nul_padded_nul_pad: "0 \<notin> set s \<Longrightarrow> length s < n \<Longrightarrow> nul_padded n (nul_pad n s)"
  by (simp add: nul_padded_def strnlen_nul_pad) (simp add: nul_pad_def)

lemma take_strnlen_nonzero: "0 \<notin> set (take (strnlen s n) s)"
proof -
  have "take (strnlen s n) s = take (strnlen s n) (take n s)"
    using strnlen_le[of s n] by (simp add: min_absorb1)
  also have "\<dots> = takeWhile (\<lambda>c. c \<noteq> 0) (take n s)"
    unfolding strnlen_def by (rule takeWhile_eq_take [symmetric])
  finally have "take (strnlen s n) s = takeWhile (\<lambda>c. c \<noteq> 0) (take n s)" .
  then show ?thesis
    using set_takeWhileD by fastforce
qed

section \<open>Decimal numbers\<close>

text \<open>The conversions \<^verbatim>\<open>%llu\<close> and \<^verbatim>\<open>%0<k>llu\<close> of \<^verbatim>\<open>printf\<close>, and reading the digits back.\<close>

fun dec_digits :: "nat \<Rightarrow> bytes" where
  "dec_digits n = (if n < 10 then [of_nat (48 + n)] else dec_digits (n div 10) @ [of_nat (48 + n mod 10)])"

declare dec_digits.simps [simp del]

definition pad0 :: "nat \<Rightarrow> bytes \<Rightarrow> bytes" where
  "pad0 k s = replicate (k - length s) 48 @ s"

definition of_digits :: "bytes \<Rightarrow> nat" where
  "of_digits s = foldl (\<lambda>a c. 10 * a + (unat c - 48)) 0 s"

definition is_digit :: "u8 \<Rightarrow> bool" where
  "is_digit c \<longleftrightarrow> 48 \<le> unat c \<and> unat c \<le> 57"

lemma unat_digit: "d < 10 \<Longrightarrow> unat (of_nat (48 + d) :: u8) = 48 + d"
  by (simp only: unat_of_nat) simp

lemma of_digits_snoc: "of_digits (s @ [c]) = 10 * of_digits s + (unat c - 48)"
  by (simp add: of_digits_def)

lemma of_digits_dec_digits: "of_digits (dec_digits n) = n"
proof (induction n rule: dec_digits.induct)
  case (1 n)
  show ?case
  proof (cases "n < 10")
    case True
    then show ?thesis by (simp add: dec_digits.simps of_digits_def unat_digit del: of_nat_add)
  next
    case False
    have "unat (of_nat (48 + n mod 10) :: u8) = 48 + n mod 10" by (rule unat_digit) simp
    with False 1 show ?thesis by (subst dec_digits.simps) (simp add: of_digits_snoc del: of_nat_add)
  qed
qed

lemma dec_digits_are_digits: "list_all is_digit (dec_digits n)"
proof (induction n rule: dec_digits.induct)
  case (1 n)
  have "is_digit (of_nat (48 + d))" if "d < 10" for d
    unfolding is_digit_def unat_digit[OF that] using that by simp
  then show ?case using 1 by (subst dec_digits.simps) (simp del: of_nat_add)
qed

lemma length_dec_digits: "n < 10 ^ k \<Longrightarrow> 0 < k \<Longrightarrow> length (dec_digits n) \<le> k"
proof (induction k arbitrary: n)
  case 0
  then show ?case by simp
next
  case (Suc k)
  show ?case
  proof (cases "n < 10")
    case True
    then show ?thesis by (simp add: dec_digits.simps)
  next
    case False
    then have "n div 10 < 10 ^ k" using Suc.prems(1) by (simp add: less_mult_imp_div_less mult.commute)
    moreover have "0 < k" using False Suc.prems(1) by (cases k) auto
    ultimately show ?thesis using False Suc.IH[of "n div 10"] by (subst dec_digits.simps) simp
  qed
qed

lemma of_digits_pad0: "of_digits (pad0 k s) = of_digits s"
proof -
  have "foldl (\<lambda>a c. 10 * a + (unat c - 48)) 0 (replicate m (48 :: u8)) = (0 :: nat)" for m
    by (induction m) simp_all
  then show ?thesis by (simp add: of_digits_def pad0_def)
qed

lemma length_pad0: "length s \<le> k \<Longrightarrow> length (pad0 k s) = k"
  by (simp add: pad0_def)

section \<open>Ring-buffer slices\<close>

text \<open>
  \<open>ring_slice buf start n\<close> lists the \<open>n\<close> slots of a ring from index \<open>start\<close> on, wrapping
  at the end of the array: the abstract contents of every queue of the program.
\<close>

definition ring_slice :: "'a list \<Rightarrow> nat \<Rightarrow> nat \<Rightarrow> 'a list" where
  "ring_slice buf start n = map (\<lambda>i. buf ! ((start + i) mod length buf)) [0..<n]"

lemma length_ring_slice [simp]: "length (ring_slice buf start n) = n"
  by (simp add: ring_slice_def)

lemma ring_slice_0 [simp]: "ring_slice buf start 0 = []"
  by (simp add: ring_slice_def)

lemma nth_ring_slice [simp]:
  "i < n \<Longrightarrow> ring_slice buf start n ! i = buf ! ((start + i) mod length buf)"
  by (simp add: ring_slice_def)

lemma ring_slice_mod [ring_simps]: "ring_slice buf (start mod length buf) n = ring_slice buf start n"
  by (simp add: ring_slice_def mod_add_left_eq)

lemma ring_slice_Suc [ring_simps]:
  "ring_slice buf start (Suc n) = buf ! (start mod length buf) # ring_slice buf (Suc start) n"
  by (rule nth_equalityI) (auto simp: nth_Cons split: nat.split)

lemma ring_slice_Suc_last:
  "ring_slice buf start (Suc n) = ring_slice buf start n @ [buf ! ((start + n) mod length buf)]"
  by (simp add: ring_slice_def)

lemma ring_slice_drop [ring_simps]:
  "k \<le> n \<Longrightarrow> ring_slice buf (start + k) (n - k) = drop k (ring_slice buf start n)"
  by (rule nth_equalityI) (auto simp: add.assoc)

lemma ring_slot_neq:
  assumes "i < n" "j < n" "i \<noteq> j"
  shows "(start + i) mod n \<noteq> (start + j) mod (n :: nat)"
proof
  assume eq: "(start + i) mod n = (start + j) mod n"
  have *: "i = j" if "i \<le> j" "j < n" "(start + i) mod n = (start + j) mod n" for i j
  proof -
    have "n dvd (start + j) - (start + i)"
      using that by (intro mod_eq_dvd_iff_nat [THEN iffD1]) auto
    then have "n dvd j - i" by simp
    moreover have "j - i < n" using that by simp
    ultimately have "j - i = 0" using nat_dvd_not_less[of "j - i" n] by auto
    with that show ?thesis by simp
  qed
  show False
  proof (cases "i \<le> j")
    case True
    with *[of i j] assms eq show False by simp
  next
    case False
    with *[of j i] assms eq show False by simp
  qed
qed

lemma ring_slice_update_other:
  assumes "n \<le> m" "m < length buf"
  shows "ring_slice (buf[(start + m) mod length buf := x]) start n = ring_slice buf start n"
proof (rule nth_equalityI)
  fix i assume "i < length (ring_slice (buf[(start + m) mod length buf := x]) start n)"
  then have i: "i < n" by simp
  with assms have "(start + i) mod length buf \<noteq> (start + m) mod length buf"
    by (intro ring_slot_neq) auto
  with i show "ring_slice (buf[(start + m) mod length buf := x]) start n ! i = ring_slice buf start n ! i"
    by simp
qed simp

lemma ring_slice_write [ring_simps]:
  assumes "n < length buf"
  shows "ring_slice (buf[(start + n) mod length buf := x]) start (Suc n) = ring_slice buf start n @ [x]"
  using assms by (subst ring_slice_Suc_last)
    (simp add: ring_slice_update_other, metis length_0_conv mod_less_divisor neq0_conv not_less_zero nth_list_update_eq)

lemma ring_slice_overwrite [ring_simps]:
  assumes "buf \<noteq> []"
  shows "ring_slice (buf[start mod length buf := x]) (Suc start) (length buf)
    = tl (ring_slice buf start (length buf)) @ [x]"
proof -
  obtain m where m: "length buf = Suc m" using assms by (cases buf) auto
  have "(Suc start + m) mod length buf = start mod length buf"
    using m by (metis add_Suc_shift mod_add_self2)
  moreover have "m < length buf" using m by simp
  ultimately have "ring_slice (buf[start mod length buf := x]) (Suc start) (Suc m)
      = ring_slice buf (Suc start) m @ [x]"
    using ring_slice_write[of m buf "Suc start" x] by simp
  also have "ring_slice buf (Suc start) m = tl (ring_slice buf start (Suc m))"
    by (simp add: ring_slice_Suc)
  finally show ?thesis using m by simp
qed

text \<open>A ring that keeps its write index and its fill count, as two of the buffers do.\<close>

lemma ring_head_write:
  assumes "length buf = n" "h < n" "c < n"
  shows "ring_slice (buf[h := v]) (Suc h mod n + n - Suc c) (Suc c) = ring_slice buf (h + n - c) c @ [v]"
proof -
  let ?s = "h + n - c"
  have "(Suc h mod n + n - Suc c) mod n = ?s mod n"
  proof (cases "Suc h = n")
    case True
    then have "?s = (n - Suc c) + n" using assms(3) by simp
    then have "?s mod n = (n - Suc c) mod n" by (metis mod_add_self2)
    moreover have "Suc h mod n + n - Suc c = n - Suc c" using True by simp
    ultimately show ?thesis by simp
  next
    case False
    then have "Suc h mod n = Suc h" using assms(2) by simp
    then show ?thesis using assms(3) by simp
  qed
  then have "ring_slice (buf[h := v]) (Suc h mod n + n - Suc c) (Suc c) = ring_slice (buf[h := v]) ?s (Suc c)"
    using assms(1) by (metis length_list_update ring_slice_mod)
  moreover have "h = (?s + c) mod length buf" using assms by simp
  ultimately show ?thesis using ring_slice_write[of c buf ?s v] assms by metis
qed

section \<open>Queue interfaces\<close>

text \<open>
  \<open>drain\<close> is the consumer loop \<^verbatim>\<open>while (pop(q, &x)) ...\<close> of the callers, with an explicit
  bound on the number of iterations; \<open>fifo_run\<close> runs an arbitrary sequence of calls and
  records what was accepted and what was delivered.
\<close>

fun drain :: "('q \<Rightarrow> ('a \<times> 'q) option) \<Rightarrow> nat \<Rightarrow> 'q \<Rightarrow> 'a list \<times> 'q" where
  "drain pop 0 q = ([], q)"
| "drain pop (Suc n) q =
     (case pop q of None \<Rightarrow> ([], q)
      | Some (x, q') \<Rightarrow> (case drain pop n q' of (xs, q'') \<Rightarrow> (x # xs, q'')))"

datatype 'a fifo_op = Push 'a | Pop

fun fifo_run :: "('q \<Rightarrow> 'a \<Rightarrow> bool \<times> 'q) \<Rightarrow> ('q \<Rightarrow> ('a \<times> 'q) option) \<Rightarrow> 'q \<Rightarrow> 'a fifo_op list
    \<Rightarrow> 'q \<times> 'a list \<times> 'a list" where
  "fifo_run push pop q [] = (q, [], [])"
| "fifo_run push pop q (Push x # ops) =
     (case push q x of (ok, q') \<Rightarrow>
      case fifo_run push pop q' ops of (q'', acc, del) \<Rightarrow>
        (q'', (if ok then x # acc else acc), del))"
| "fifo_run push pop q (Pop # ops) =
     (case pop q of None \<Rightarrow> fifo_run push pop q ops
      | Some (x, q') \<Rightarrow> (case fifo_run push pop q' ops of (q'', acc, del) \<Rightarrow> (q'', acc, x # del)))"

text \<open>What a consumer relies on.\<close>

locale fifo_source =
  fixes inv :: "'q \<Rightarrow> bool"
    and contents :: "'q \<Rightarrow> 'a list"
    and pop :: "'q \<Rightarrow> ('a \<times> 'q) option"
  assumes pop_empty: "inv q \<Longrightarrow> contents q = [] \<Longrightarrow> pop q = None"
    and pop_head: "inv q \<Longrightarrow> contents q = x # xs \<Longrightarrow>
      \<exists>q'. pop q = Some (x, q') \<and> inv q' \<and> contents q' = xs"
begin

lemma pop_None_iff: "inv q \<Longrightarrow> pop q = None \<longleftrightarrow> contents q = []"
  by (cases "contents q") (use pop_empty pop_head in force)+

lemma pop_SomeD:
  assumes "inv q" "pop q = Some (x, q')"
  shows "contents q = x # contents q'" and "inv q'"
proof -
  obtain y ys where c: "contents q = y # ys"
    using assms pop_empty by (cases "contents q") auto
  from pop_head[OF assms(1) c] assms(2) c
  show "contents q = x # contents q'" and "inv q'" by auto
qed

lemma drain_all:
  "inv q \<Longrightarrow> length (contents q) \<le> n \<Longrightarrow>
    fst (drain pop n q) = contents q \<and> contents (snd (drain pop n q)) = [] \<and> inv (snd (drain pop n q))"
proof (induction n arbitrary: q)
  case 0
  then show ?case by simp
next
  case (Suc n)
  show ?case
  proof (cases "contents q")
    case Nil
    with Suc.prems pop_empty show ?thesis by simp
  next
    case (Cons x xs)
    from pop_head[OF Suc.prems(1) Cons] obtain q' where
      q': "pop q = Some (x, q')" "inv q'" "contents q' = xs" by blast
    with Suc.prems(2) Cons Suc.IH[of q'] show ?thesis
      by (auto split: prod.splits)
  qed
qed

end

text \<open>A bounded queue that refuses the newest element when it is full.\<close>

locale bounded_fifo = fifo_source inv contents pop
  for inv :: "'q \<Rightarrow> bool" and contents :: "'q \<Rightarrow> 'a list" and pop :: "'q \<Rightarrow> ('a \<times> 'q) option" +
  fixes capacity :: "'q \<Rightarrow> nat"
    and push :: "'q \<Rightarrow> 'a \<Rightarrow> bool \<times> 'q"
  assumes push_inv: "inv q \<Longrightarrow> inv (snd (push q x))"
    and push_room: "inv q \<Longrightarrow> length (contents q) < capacity q \<Longrightarrow>
      fst (push q x) \<and> contents (snd (push q x)) = contents q @ [x]"
    and push_full: "inv q \<Longrightarrow> length (contents q) \<ge> capacity q \<Longrightarrow>
      \<not> fst (push q x) \<and> contents (snd (push q x)) = contents q"
begin

lemma push_contents:
  "inv q \<Longrightarrow> contents (snd (push q x)) = contents q @ (if fst (push q x) then [x] else [])"
  by (cases "length (contents q) < capacity q") (simp_all add: push_room push_full not_less)

lemma run_history:
  assumes "inv q" "fifo_run push pop q ops = (q', acc, del)"
  shows "inv q' \<and> contents q @ acc = del @ contents q'"
  using assms
proof (induction ops arbitrary: q q' acc del)
  case Nil
  then show ?case by simp
next
  case (Cons op ops)
  show ?case
  proof (cases op)
    case (Push x)
    obtain q1 acc1 where q1: "fifo_run push pop (snd (push q x)) ops = (q1, acc1, del)"
      and eqs: "q' = q1" "acc = (if fst (push q x) then x # acc1 else acc1)"
      using Cons.prems(2) Push by (auto split: prod.splits)
    from Cons.IH[OF push_inv[OF Cons.prems(1)] q1] push_contents[OF Cons.prems(1), of x] eqs
    show ?thesis by (auto split: if_splits)
  next
    case Pop
    show ?thesis
    proof (cases "pop q")
      case None
      with Cons.prems Pop Cons.IH[of q] show ?thesis by simp
    next
      case (Some r)
      obtain x q1 where r: "r = (x, q1)" by force
      with Some Cons.prems(2) Pop obtain del1 where
        d: "fifo_run push pop q1 ops = (q', acc, del1)" "del = x # del1"
        by (auto split: prod.splits)
      from pop_SomeD[OF Cons.prems(1) Some[unfolded r]] Cons.IH[OF _ d(1)] d(2)
      show ?thesis by simp
    qed
  qed
qed

end

end
