(* ===== verification/VW_Types.thy ===== *)
theory VW_Types
  imports VW_Prelude
begin

text \<open>
  The wire protocol's data (\<^verbatim>\<open>protocol/include/vw_protocol_types.h\<close>): message types, error
  codes, the frame header and one record per payload struct.  Fields keep the source's
  names behind a prefix per struct.  A fixed array \<^verbatim>\<open>char f[n]\<close> is a byte list whose
  length \<open>n\<close> is part of the well-formedness predicate of the struct; a pointer with a
  separate length is an \<open>option\<close> of the bytes behind it.
\<close>

section \<open>Limits and codes\<close>

definition VW_PROTOCOL_MAGIC :: u32 where "VW_PROTOCOL_MAGIC = 0x564C4357"
definition VW_PROTOCOL_VERSION_MAJOR :: u16 where "VW_PROTOCOL_VERSION_MAJOR = 1"
definition VW_MAX_PAYLOAD_BYTES :: nat where "VW_MAX_PAYLOAD_BYTES = 1048576"
definition VW_MAX_ERROR_MSG_BYTES :: nat where "VW_MAX_ERROR_MSG_BYTES = 256"
definition VW_MAX_MODEL_ID_BYTES :: nat where "VW_MAX_MODEL_ID_BYTES = 64"
definition VW_MAX_SOURCE_URL_BYTES :: nat where "VW_MAX_SOURCE_URL_BYTES = 1024"
definition VW_AUTH_TOKEN_BYTES :: nat where "VW_AUTH_TOKEN_BYTES = 32"
definition VW_SESSION_ID_BYTES :: nat where "VW_SESSION_ID_BYTES = 16"
definition VW_MAX_TEXT_BYTES :: nat where "VW_MAX_TEXT_BYTES = 1024"
definition VW_PATH_MAX_BYTES :: nat where "VW_PATH_MAX_BYTES = 4096"
definition VW_ERROR_MAX :: nat where "VW_ERROR_MAX = 15"
definition VW_MSG_MODEL_CTRL_PAYLOAD_BYTES :: nat where "VW_MSG_MODEL_CTRL_PAYLOAD_BYTES = 49"
definition VW_MSG_MODEL_PROGRESS_PAYLOAD_BYTES :: nat where
  "VW_MSG_MODEL_PROGRESS_PAYLOAD_BYTES = 66"
definition VW_MSG_TRANSLATE_CTRL_PAYLOAD_BYTES :: nat where
  "VW_MSG_TRANSLATE_CTRL_PAYLOAD_BYTES = 50"
definition VW_MSG_STARTED_PAYLOAD_BYTES :: nat where
  "VW_MSG_STARTED_PAYLOAD_BYTES = VW_SESSION_ID_BYTES + 1"
definition VW_CAPTION_SEGMENT_FIXED_BYTES :: nat where "VW_CAPTION_SEGMENT_FIXED_BYTES = 43"

definition VW_PROTOCOL_VERSION_MINOR :: u16 where "VW_PROTOCOL_VERSION_MINOR = 6"
definition VW_CAPABILITY_PCM_S16LE_16K_MONO :: u32 where "VW_CAPABILITY_PCM_S16LE_16K_MONO = 1"
definition VW_CAPABILITY_SOURCE_MODE :: u32 where "VW_CAPABILITY_SOURCE_MODE = 8"
definition VW_CAPABILITY_TRANSLATION :: u32 where "VW_CAPABILITY_TRANSLATION = 16"
definition VW_POSITION_FLAG_SEEK :: u32 where "VW_POSITION_FLAG_SEEK = 1"
definition VW_POSITION_FLAG_PAUSED :: u32 where "VW_POSITION_FLAG_PAUSED = 2"
definition VW_CTRL_REASON_USER_STOP :: u16 where "VW_CTRL_REASON_USER_STOP = 1"
definition VW_CTRL_REASON_SEEK_DISCONTINUITY :: u16 where "VW_CTRL_REASON_SEEK_DISCONTINUITY = 2"
definition VW_CTRL_REASON_MEDIA_END :: u16 where "VW_CTRL_REASON_MEDIA_END = 3"

lemmas vw_codes =
  VW_PROTOCOL_VERSION_MINOR_def VW_CAPABILITY_PCM_S16LE_16K_MONO_def VW_CAPABILITY_SOURCE_MODE_def
  VW_CAPABILITY_TRANSLATION_def VW_POSITION_FLAG_SEEK_def VW_POSITION_FLAG_PAUSED_def
  VW_CTRL_REASON_USER_STOP_def VW_CTRL_REASON_SEEK_DISCONTINUITY_def VW_CTRL_REASON_MEDIA_END_def

lemmas vw_limits =
  VW_PROTOCOL_MAGIC_def VW_PROTOCOL_VERSION_MAJOR_def VW_MAX_PAYLOAD_BYTES_def
  VW_MAX_ERROR_MSG_BYTES_def VW_MAX_MODEL_ID_BYTES_def VW_MAX_SOURCE_URL_BYTES_def
  VW_AUTH_TOKEN_BYTES_def VW_SESSION_ID_BYTES_def VW_MAX_TEXT_BYTES_def VW_ERROR_MAX_def
  VW_MSG_MODEL_CTRL_PAYLOAD_BYTES_def VW_MSG_MODEL_PROGRESS_PAYLOAD_BYTES_def
  VW_MSG_TRANSLATE_CTRL_PAYLOAD_BYTES_def VW_MSG_STARTED_PAYLOAD_BYTES_def
  VW_CAPTION_SEGMENT_FIXED_BYTES_def VW_PATH_MAX_BYTES_def

text \<open>\<^verbatim>\<open>vw_error_code_t\<close>.\<close>

definition E_PROTOCOL_VERSION :: u32 where "E_PROTOCOL_VERSION = 1"
definition E_MODEL_MISSING :: u32 where "E_MODEL_MISSING = 3"
definition E_AUDIO_FORMAT :: u32 where "E_AUDIO_FORMAT = 5"
definition E_INTERNAL :: u32 where "E_INTERNAL = 9"
definition E_SOURCE_OPEN :: u32 where "E_SOURCE_OPEN = 10"
definition E_TRANSLATION_PROVIDER :: u32 where "E_TRANSLATION_PROVIDER = 11"
definition E_TRANSLATION_TRANSPORT :: u32 where "E_TRANSLATION_TRANSPORT = 12"
definition E_TRANSLATION_PARSE :: u32 where "E_TRANSLATION_PARSE = 13"
definition E_TRANSLATION_DEADLINE :: u32 where "E_TRANSLATION_DEADLINE = 14"
definition E_TRANSLATION_LOCAL :: u32 where "E_TRANSLATION_LOCAL = 15"

lemmas vw_error_codes =
  E_PROTOCOL_VERSION_def E_MODEL_MISSING_def E_AUDIO_FORMAT_def E_INTERNAL_def E_SOURCE_OPEN_def
  E_TRANSLATION_PROVIDER_def E_TRANSLATION_TRANSPORT_def E_TRANSLATION_PARSE_def
  E_TRANSLATION_DEADLINE_def E_TRANSLATION_LOCAL_def

datatype vw_message_type =
    VW_MSG_HELLO | VW_MSG_HELLO_ACK | VW_MSG_START_SESSION | VW_MSG_AUDIO_PCM
  | VW_MSG_PAUSE | VW_MSG_RESUME | VW_MSG_STOP_SESSION | VW_MSG_CAPTION_SEGMENT
  | VW_MSG_STATUS | VW_MSG_ERROR | VW_MSG_SHUTDOWN | VW_MSG_STARTED
  | VW_MSG_POSITION | VW_MSG_MODEL_CTRL | VW_MSG_MODEL_PROGRESS | VW_MSG_TRANSLATE_CTRL

fun msg_code :: "vw_message_type \<Rightarrow> u16" where
  "msg_code VW_MSG_HELLO = 1"
| "msg_code VW_MSG_HELLO_ACK = 2"
| "msg_code VW_MSG_START_SESSION = 3"
| "msg_code VW_MSG_AUDIO_PCM = 4"
| "msg_code VW_MSG_PAUSE = 5"
| "msg_code VW_MSG_RESUME = 6"
| "msg_code VW_MSG_STOP_SESSION = 7"
| "msg_code VW_MSG_CAPTION_SEGMENT = 8"
| "msg_code VW_MSG_STATUS = 9"
| "msg_code VW_MSG_ERROR = 10"
| "msg_code VW_MSG_SHUTDOWN = 11"
| "msg_code VW_MSG_STARTED = 12"
| "msg_code VW_MSG_POSITION = 13"
| "msg_code VW_MSG_MODEL_CTRL = 14"
| "msg_code VW_MSG_MODEL_PROGRESS = 15"
| "msg_code VW_MSG_TRANSLATE_CTRL = 16"

definition all_message_types :: "vw_message_type list" where
  "all_message_types =
     [VW_MSG_HELLO, VW_MSG_HELLO_ACK, VW_MSG_START_SESSION, VW_MSG_AUDIO_PCM, VW_MSG_PAUSE,
      VW_MSG_RESUME, VW_MSG_STOP_SESSION, VW_MSG_CAPTION_SEGMENT, VW_MSG_STATUS, VW_MSG_ERROR,
      VW_MSG_SHUTDOWN, VW_MSG_STARTED, VW_MSG_POSITION, VW_MSG_MODEL_CTRL,
      VW_MSG_MODEL_PROGRESS, VW_MSG_TRANSLATE_CTRL]"

text \<open>The \<^verbatim>\<open>switch (type)\<close> of the codec: the case a code selects, \<open>None\<close> for \<^verbatim>\<open>default\<close>.\<close>

definition msg_type_of :: "u16 \<Rightarrow> vw_message_type option" where
  "msg_type_of c = List.find (\<lambda>t. msg_code t = c) all_message_types"

lemma msg_type_of_code [simp]: "msg_type_of (msg_code t) = Some t"
  by (cases t) (simp_all add: msg_type_of_def all_message_types_def)

lemma msg_code_inject [simp]: "msg_code s = msg_code t \<longleftrightarrow> s = t"
  by (metis msg_type_of_code option.inject)

lemma msg_type_of_SomeD: "msg_type_of c = Some t \<Longrightarrow> msg_code t = c"
  unfolding msg_type_of_def by (metis (mono_tags, lifting) find_Some_iff)

declare msg_code.simps [simp del]

section \<open>Frame header and payload structs\<close>

record vw_frame_header =
  fh_magic :: u32
  fh_major :: u16
  fh_type :: u16
  fh_payload_length :: u32
  fh_sequence :: u64

type_synonym vw_session_id = bytes

record vw_msg_hello =
  he_min_major :: u16
  he_max_major :: u16
  he_auth_token :: bytes
  he_client_version_length :: u16
  he_client_version :: "bytes option"

record vw_msg_hello_ack =
  ha_selected_major :: u16
  ha_selected_minor :: u16
  ha_capability_flags :: u32
  ha_worker_version_length :: u16
  ha_worker_version :: "bytes option"

record vw_msg_start =
  st_session_id :: vw_session_id
  st_timeline_origin_pts_us :: i64
  st_sample_rate :: u32
  st_channels :: u16
  st_sample_format :: u16
  st_model_id :: bytes
  st_language :: bytes
  st_source_kind :: u16
  st_source_url_len :: u16
  st_source_url :: bytes

record vw_msg_started =
  sd_session_id :: vw_session_id
  sd_source_active :: u8

text \<open>The playback rate is the bit pattern of its IEEE binary32 value.\<close>

record vw_msg_position =
  po_session_id :: vw_session_id
  po_current_pts_us :: i64
  po_input_time_us :: i64
  po_playback_rate :: u32
  po_flags :: u32

record vw_msg_audio =
  au_session_id :: vw_session_id
  au_start_pts_us :: i64
  au_duration_us :: i64
  au_pcm_bytes :: u32
  au_pcm_data :: "bytes option"

record vw_msg_control =
  ct_session_id :: vw_session_id
  ct_reason :: u16

record vw_msg_status =
  ss_session_id :: vw_session_id
  ss_state :: u32
  ss_queued_audio_us :: i64
  ss_inference_us :: i64
  ss_dropped_audio_us :: i64
  ss_resolved_backend :: bytes

record vw_msg_model_ctrl =
  mc_session_id :: vw_session_id
  mc_action :: u8
  mc_model_id :: bytes

record vw_msg_model_progress =
  mp_session_id :: vw_session_id
  mp_stage :: u8
  mp_pct :: u8
  mp_bytes_done :: u64
  mp_bytes_total :: u64
  mp_model_id :: bytes

record vw_msg_translate_ctrl =
  tc_session_id :: vw_session_id
  tc_enabled :: u8
  tc_source_lang :: bytes
  tc_target_lang :: bytes
  tc_mode :: u8

record vw_msg_error =
  er_session_id :: vw_session_id
  er_error_code :: u32
  er_recoverable :: u8
  er_message :: bytes

record vw_caption_segment =
  cs_session_id :: vw_session_id
  cs_segment_id :: u64
  cs_start_pts_us :: i64
  cs_end_pts_us :: i64
  cs_is_final :: bool
  cs_text_utf8 :: "bytes option"
  cs_text_bytes :: u16
  cs_translated_text_utf8 :: "bytes option"
  cs_translated_text_bytes :: u16
  cs_translation_attempted :: bool
  cs_translation_latency_us :: u32
  cs_translation_tier :: u8

text \<open>What a \<^verbatim>\<open>void* payload\<close> points to.\<close>

datatype vw_payload =
    P_HELLO vw_msg_hello
  | P_HELLO_ACK vw_msg_hello_ack
  | P_START vw_msg_start
  | P_STARTED vw_msg_started
  | P_POSITION vw_msg_position
  | P_AUDIO vw_msg_audio
  | P_CONTROL vw_msg_control
  | P_CAPTION vw_caption_segment
  | P_TRANSLATE_CTRL vw_msg_translate_ctrl
  | P_STATUS vw_msg_status
  | P_MODEL_CTRL vw_msg_model_ctrl
  | P_MODEL_PROGRESS vw_msg_model_progress
  | P_ERROR vw_msg_error

section \<open>The C types of the structs\<close>

text \<open>
  \<open>ptr_ok p n\<close>: the pointer is \<^verbatim>\<open>NULL\<close> or points to at least \<open>n\<close> bytes, so that the \<open>n\<close>
  bytes the codec copies are there.  \<open>wf_payload\<close> is the static type of the payloads:
  array lengths and the range of the signed fields.
\<close>

definition ptr_ok :: "bytes option \<Rightarrow> nat \<Rightarrow> bool" where
  "ptr_ok p n \<longleftrightarrow> (case p of None \<Rightarrow> True | Some bs \<Rightarrow> n \<le> length bs)"

lemma ptr_ok_simps [simp]: "ptr_ok None n" "ptr_ok (Some bs) n \<longleftrightarrow> n \<le> length bs"
  by (simp_all add: ptr_ok_def)

fun wf_payload :: "vw_payload \<Rightarrow> bool" where
  "wf_payload (P_HELLO p) \<longleftrightarrow> length (he_auth_token p) = VW_AUTH_TOKEN_BYTES
     \<and> ptr_ok (he_client_version p) (unat (he_client_version_length p))"
| "wf_payload (P_HELLO_ACK p) \<longleftrightarrow> ptr_ok (ha_worker_version p) (unat (ha_worker_version_length p))"
| "wf_payload (P_START p) \<longleftrightarrow> length (st_session_id p) = VW_SESSION_ID_BYTES
     \<and> in_i64 (st_timeline_origin_pts_us p) \<and> length (st_model_id p) = VW_MAX_MODEL_ID_BYTES
     \<and> length (st_language p) = 16 \<and> length (st_source_url p) = VW_MAX_SOURCE_URL_BYTES"
| "wf_payload (P_STARTED p) \<longleftrightarrow> length (sd_session_id p) = VW_SESSION_ID_BYTES"
| "wf_payload (P_POSITION p) \<longleftrightarrow> length (po_session_id p) = VW_SESSION_ID_BYTES
     \<and> in_i64 (po_current_pts_us p) \<and> in_i64 (po_input_time_us p)"
| "wf_payload (P_AUDIO p) \<longleftrightarrow> length (au_session_id p) = VW_SESSION_ID_BYTES
     \<and> in_i64 (au_start_pts_us p) \<and> in_i64 (au_duration_us p)
     \<and> ptr_ok (au_pcm_data p) (unat (au_pcm_bytes p))"
| "wf_payload (P_CONTROL p) \<longleftrightarrow> length (ct_session_id p) = VW_SESSION_ID_BYTES"
| "wf_payload (P_CAPTION p) \<longleftrightarrow> length (cs_session_id p) = VW_SESSION_ID_BYTES
     \<and> in_i64 (cs_start_pts_us p) \<and> in_i64 (cs_end_pts_us p)
     \<and> ptr_ok (cs_text_utf8 p) (unat (cs_text_bytes p))
     \<and> ptr_ok (cs_translated_text_utf8 p) (unat (cs_translated_text_bytes p))"
| "wf_payload (P_TRANSLATE_CTRL p) \<longleftrightarrow> length (tc_session_id p) = VW_SESSION_ID_BYTES
     \<and> length (tc_source_lang p) = 16 \<and> length (tc_target_lang p) = 16"
| "wf_payload (P_STATUS p) \<longleftrightarrow> length (ss_session_id p) = VW_SESSION_ID_BYTES
     \<and> in_i64 (ss_queued_audio_us p) \<and> in_i64 (ss_inference_us p)
     \<and> in_i64 (ss_dropped_audio_us p) \<and> length (ss_resolved_backend p) = 16"
| "wf_payload (P_MODEL_CTRL p) \<longleftrightarrow> length (mc_session_id p) = VW_SESSION_ID_BYTES
     \<and> length (mc_model_id p) = 32"
| "wf_payload (P_MODEL_PROGRESS p) \<longleftrightarrow> length (mp_session_id p) = VW_SESSION_ID_BYTES
     \<and> length (mp_model_id p) = 32"
| "wf_payload (P_ERROR p) \<longleftrightarrow> length (er_session_id p) = VW_SESSION_ID_BYTES
     \<and> length (er_message p) = VW_MAX_ERROR_MSG_BYTES"

end
