(* ===== verification/VW_Util.thy ===== *)
theory VW_Util
  imports VW_Types
begin

text \<open>
  \<^verbatim>\<open>protocol/include/vw_protocol_util.h\<close> and the UTF-8 checker of
  \<^verbatim>\<open>protocol/src/vw_protocol_validate.c\<close>: saturating 64-bit arithmetic, the longest valid
  UTF-8 prefix of a string and the UTF-8 validity test, with the Unicode encoding form
  (RFC 3629) as their specification.
\<close>

section \<open>Saturating arithmetic\<close>

text \<open>
  \<^verbatim>\<open>__builtin_add_overflow\<close> reports whether the exact sum leaves the range of \<^verbatim>\<open>int64_t\<close>.
\<close>

definition vw_saturating_add_i64 :: "i64 \<Rightarrow> i64 \<Rightarrow> i64" where
  "vw_saturating_add_i64 a b =
     (if \<not> in_i64 (a + b) then (if b > 0 then INT64_MAX else INT64_MIN) else a + b)"

definition vw_saturating_sub_i64 :: "i64 \<Rightarrow> i64 \<Rightarrow> i64" where
  "vw_saturating_sub_i64 a b =
     (if \<not> in_i64 (a - b) then (if b < 0 then INT64_MAX else INT64_MIN) else a - b)"

section \<open>UTF-8 decoding steps\<close>

text \<open>
  The lead-byte cascade, the continuation-byte loop and the code-point checks occur
  identically in \<^verbatim>\<open>vw_utf8_safe_len\<close> and \<^verbatim>\<open>is_valid_utf8\<close>.  \<open>utf8_lead c\<close> is
  \<^verbatim>\<open>(extra, code_point, min_cp)\<close>, \<open>None\<close> for an invalid lead byte.
\<close>

definition utf8_lead :: "u8 \<Rightarrow> (nat \<times> u32 \<times> u32) option" where
  "utf8_lead c =
     (if c AND 0xE0 = 0xC0 then Some (1, ucast (c AND 0x1F), 0x80)
      else if c AND 0xF0 = 0xE0 then Some (2, ucast (c AND 0x0F), 0x800)
      else if c AND 0xF8 = 0xF0 then Some (3, ucast (c AND 0x07), 0x10000)
      else None)"

fun utf8_cont :: "u32 \<Rightarrow> bytes \<Rightarrow> u32 option" where
  "utf8_cont cp [] = Some cp"
| "utf8_cont cp (b # bs) =
     (if b AND 0xC0 \<noteq> 0x80 then None
      else utf8_cont (push_bit 6 cp OR ucast (b AND 0x3F)) bs)"

definition utf8_cp_ok :: "u32 \<Rightarrow> u32 \<Rightarrow> bool" where
  "utf8_cp_ok min_cp cp \<longleftrightarrow>
     \<not> cp < min_cp \<and> \<not> (cp \<ge> 0xD800 \<and> cp \<le> 0xDFFF) \<and> \<not> cp > 0x10FFFF"

text \<open>\<open>is_valid_utf8 s\<close> is \<^verbatim>\<open>is_valid_utf8(str, len)\<close> for the \<^verbatim>\<open>len\<close> bytes \<open>s\<close>.\<close>

fun is_valid_utf8 :: "bytes \<Rightarrow> bool" where
  "is_valid_utf8 [] = True"
| "is_valid_utf8 (c # s) =
     (if c \<le> 0x7F then is_valid_utf8 s
      else case utf8_lead c of
          None \<Rightarrow> False
        | Some (extra, code_point, min_cp) \<Rightarrow>
            if length s < extra then False
            else case utf8_cont code_point (take extra s) of
                None \<Rightarrow> False
              | Some cp \<Rightarrow> utf8_cp_ok min_cp cp \<and> is_valid_utf8 (drop extra s))"

function utf8_safe_loop :: "bytes \<Rightarrow> nat \<Rightarrow> nat \<Rightarrow> nat" where
  "utf8_safe_loop s max_bytes len =
     (if len < max_bytes \<and> c_get s len \<noteq> 0 then
        (if c_get s len \<le> 0x7F then utf8_safe_loop s max_bytes (len + 1)
         else case utf8_lead (c_get s len) of
             None \<Rightarrow> len
           | Some (extra, code_point, min_cp) \<Rightarrow>
               if len + 1 + extra > max_bytes then len
               else case utf8_cont code_point (map (\<lambda>k. c_get s (len + k)) [1..<extra + 1]) of
                   None \<Rightarrow> len
                 | Some cp \<Rightarrow>
                     if utf8_cp_ok min_cp cp then utf8_safe_loop s max_bytes (len + (1 + extra))
                     else len)
      else len)"
  by pat_completeness auto
termination
  by (relation "measure (\<lambda>(s, m, l). m - l)") auto

declare utf8_safe_loop.simps [simp del]

definition vw_utf8_safe_len :: "bytes option \<Rightarrow> nat \<Rightarrow> nat" where
  "vw_utf8_safe_len s max_bytes =
     (case s of None \<Rightarrow> 0
      | Some p \<Rightarrow> if max_bytes = 0 then 0 else utf8_safe_loop p max_bytes 0)"

section \<open>The Unicode encoding form\<close>

definition utf8_scalar :: "nat \<Rightarrow> bool" where
  "utf8_scalar n \<longleftrightarrow> n \<le> 0x10FFFF \<and> \<not> (0xD800 \<le> n \<and> n \<le> 0xDFFF)"

definition utf8_encode :: "nat \<Rightarrow> bytes" where
  "utf8_encode n = map of_nat
     (if n < 0x80 then [n]
      else if n < 0x800 then [0xC0 + n div 64, 0x80 + n mod 64]
      else if n < 0x10000 then [0xE0 + n div 4096, 0x80 + n div 64 mod 64, 0x80 + n mod 64]
      else [0xF0 + n div 262144, 0x80 + n div 4096 mod 64, 0x80 + n div 64 mod 64, 0x80 + n mod 64])"

lemma and_not_mask_eq: "(c :: 'a::len word) AND NOT (mask n) = push_bit n (drop_bit n c)"
  by (rule bit_word_eqI) (auto simp: bit_simps)

lemma high_mask_iff:
  assumes "m = NOT (mask n)" "v = push_bit n d" "drop_bit n v = d"
  shows "(c :: u8) AND m = v \<longleftrightarrow> unat c div 2 ^ n = unat d"
proof -
  have dp: "drop_bit n (push_bit n (drop_bit n c)) = drop_bit n c"
    by (rule bit_word_eqI) (auto simp: bit_simps dest: bit_imp_le_length)
  have "c AND m = v \<longleftrightarrow> drop_bit n c = d"
    unfolding assms(1) and_not_mask_eq using assms(2,3) dp by metis
  also have "\<dots> \<longleftrightarrow> unat c div 2 ^ n = unat d"
    by (subst word_unat_eq_iff, subst unat_drop_bit_eq) (simp only: drop_bit_eq_div)
  finally show ?thesis .
qed

lemma and_masks_iff:
  "c AND 0xE0 = 0xC0 \<longleftrightarrow> 192 \<le> unat (c :: u8) \<and> unat c < 224"
  "c AND 0xF0 = 0xE0 \<longleftrightarrow> 224 \<le> unat c \<and> unat c < 240"
  "c AND 0xF8 = 0xF0 \<longleftrightarrow> 240 \<le> unat c \<and> unat c < 248"
  "c AND 0xC0 = 0x80 \<longleftrightarrow> 128 \<le> unat c \<and> unat c < 192"
proof -
  show "c AND 0xE0 = 0xC0 \<longleftrightarrow> 192 \<le> unat c \<and> unat c < 224"
    using high_mask_iff[of "0xE0" 5 "0xC0" 6 c] by (simp add: mask_eq_exp_minus_1) arith
  show "c AND 0xF0 = 0xE0 \<longleftrightarrow> 224 \<le> unat c \<and> unat c < 240"
    using high_mask_iff[of "0xF0" 4 "0xE0" 14 c] by (simp add: mask_eq_exp_minus_1) arith
  show "c AND 0xF8 = 0xF0 \<longleftrightarrow> 240 \<le> unat c \<and> unat c < 248"
    using high_mask_iff[of "0xF8" 3 "0xF0" 30 c] by (simp add: mask_eq_exp_minus_1) arith
  show "c AND 0xC0 = 0x80 \<longleftrightarrow> 128 \<le> unat c \<and> unat c < 192"
    using high_mask_iff[of "0xC0" 6 "0x80" 2 c] by (simp add: mask_eq_exp_minus_1) arith
qed

lemma unat_and_low:
  "unat ((c :: u8) AND 0x1F) = unat c mod 32" "unat (c AND 0x0F) = unat c mod 16"
  "unat (c AND 0x07) = unat c mod 8" "unat (c AND 0x3F) = unat c mod 64"
proof -
  have *: "unat (c AND mask n) = unat c mod 2 ^ n" for n
    by (simp only: take_bit_eq_mask [symmetric] unsigned_take_bit_eq) (simp only: take_bit_eq_mod)
  show "unat ((c :: u8) AND 0x1F) = unat c mod 32" "unat (c AND 0x0F) = unat c mod 16"
  "unat (c AND 0x07) = unat c mod 8" "unat (c AND 0x3F) = unat c mod 64"
    using *[of 5] *[of 4] *[of 3] *[of 6] by (simp_all add: mask_eq_exp_minus_1)
qed

lemma unat_ucast_u8 [simp]: "unat (ucast (c::u8) :: u32) = unat c"
proof -
  have "unat c < 4294967296" using unat_u8_lt[of c] by linarith
  then show ?thesis by (simp only: unsigned_ucast_eq) (simp add: take_bit_eq_mod)
qed

lemma unat_shift_or:
  assumes "unat (cp :: u32) < 2 ^ 26"
  shows "unat (push_bit 6 cp OR ucast (b AND 0x3F)) = unat cp * 64 + unat (b :: u8) mod 64"
proof -
  have m: "b AND 0x3F = take_bit 6 b" by (simp add: take_bit_eq_mask mask_eq_exp_minus_1)
  have "push_bit 6 cp OR (ucast (take_bit 6 b) :: u32) = push_bit 6 cp + ucast (take_bit 6 b)"
    by (rule disjunctive_add [symmetric]) (auto simp: bit_simps)
  moreover have "unat (push_bit 6 cp) = unat cp * 64"
    using assms by (simp only: unsigned_push_bit_eq) (simp add: take_bit_eq_mod push_bit_eq_mult)
  moreover have "unat (ucast (take_bit 6 b) :: u32) = unat b mod 64"
    by (simp only: unat_ucast_u8 unsigned_take_bit_eq) (simp add: take_bit_eq_mod)
  ultimately show ?thesis
    using assms unfolding m by (simp add: unat_word_ariths)
qed

lemma utf8_lead_cases:
  assumes "utf8_lead c = Some (extra, cp, mn)"
  obtains
    (two) "extra = 1" "192 \<le> unat c" "unat c < 224" "unat cp = unat c mod 32" "mn = 0x80"
  | (three) "extra = 2" "224 \<le> unat c" "unat c < 240" "unat cp = unat c mod 16" "mn = 0x800"
  | (four) "extra = 3" "240 \<le> unat c" "unat c < 248" "unat cp = unat c mod 8" "mn = 0x10000"
  using assms by (auto simp: utf8_lead_def and_masks_iff unat_and_low split: if_splits)

lemma utf8_cont_step:
  assumes "unat cp < 2 ^ 26" "utf8_cont cp (b # bs) = Some r"
  obtains cp' where "128 \<le> unat b" "unat b < 192" "unat cp' = unat cp * 64 + unat b mod 64"
    "utf8_cont cp' bs = Some r"
  using assms unat_shift_or[OF assms(1), of b]
  by (auto simp: and_masks_iff split: if_splits)

lemma u8_eq_of_nat: "unat (c :: u8) = n \<Longrightarrow> c = of_nat n"
  by auto

lemma u8_high_low:
  assumes "k * m \<le> unat (c :: u8)" "unat c < k * m + k"
  shows "c = of_nat (k * m + unat c mod k)"
proof (rule u8_eq_of_nat)
  from assms obtain r where r: "unat c = k * m + r" "r < k"
    by (metis add_less_cancel_left le_iff_add)
  then show "unat c = k * m + unat c mod k" by simp
qed

lemma u8_lead_split:
  "192 \<le> unat c \<Longrightarrow> unat c < 224 \<Longrightarrow> (c :: u8) = of_nat (192 + unat c mod 32)"
  "224 \<le> unat c \<Longrightarrow> unat c < 240 \<Longrightarrow> c = of_nat (224 + unat c mod 16)"
  "240 \<le> unat c \<Longrightarrow> unat c < 248 \<Longrightarrow> c = of_nat (240 + unat c mod 8)"
  "128 \<le> unat c \<Longrightarrow> unat c < 192 \<Longrightarrow> c = of_nat (128 + unat c mod 64)"
  using u8_high_low[of 32 6 c] u8_high_low[of 16 14 c] u8_high_low[of 8 30 c] u8_high_low[of 64 2 c]
  by (simp_all del: of_nat_add)

lemma div_4096_262144:
  "n div 4096 = n div 64 div 64" "n div 262144 = n div 64 div 64 div (64 :: nat)"
  by (simp_all add: div_mult2_eq [symmetric])

lemma base64_digits:
  "b < 64 \<Longrightarrow> (a * 64 + b) div 64 = a" "b < 64 \<Longrightarrow> (a * 64 + b) mod 64 = (b :: nat)"
  by simp_all

lemma mod_block:
  fixes x :: nat
  shows "x < 32 \<Longrightarrow> (192 + x) mod 32 = x" "x < 16 \<Longrightarrow> (224 + x) mod 16 = x"
    "x < 8 \<Longrightarrow> (240 + x) mod 8 = x" "x < 64 \<Longrightarrow> (128 + x) mod 64 = x"
  using mod_mult_self4[of 32 6 x] mod_mult_self4[of 16 14 x] mod_mult_self4[of 8 30 x]
    mod_mult_self4[of 64 2 x] by simp_all

lemma base64_bound:
  fixes a b d :: nat
  assumes "b < 64" "d < 64"
  shows "a < 32 \<Longrightarrow> a * 64 + b < 0x800" "a < 16 \<Longrightarrow> (a * 64 + b) * 64 + d < 0x10000"
  using assms by simp_all

lemma utf8_cp_ok_nat:
  "utf8_cp_ok mn cp \<longleftrightarrow> unat mn \<le> unat cp \<and> utf8_scalar (unat cp)"
  by (auto simp: utf8_cp_ok_def utf8_scalar_def word_less_nat_alt word_le_nat_alt)

lemma list_len_cases:
  "length s \<ge> 1 \<Longrightarrow> \<exists>a. take 1 s = [a]"
  "length s \<ge> 2 \<Longrightarrow> \<exists>a b. take 2 s = [a, b]"
  "length s \<ge> 3 \<Longrightarrow> \<exists>a b c. take 3 s = [a, b, c]"
  by (auto simp: numeral_eq_Suc Suc_le_length_iff)

lemma utf8_step_sound:
  assumes lead: "utf8_lead c = Some (extra, cp, mn)" and len: "extra \<le> length s"
    and cont: "utf8_cont cp (take extra s) = Some r" and ok: "utf8_cp_ok mn r"
  shows "utf8_scalar (unat r) \<and> c # take extra s = utf8_encode (unat r)"
  using lead
proof (cases rule: utf8_lead_cases)
  case two
  then obtain b where t: "take extra s = [b]" using len list_len_cases(1)[of s] by auto
  have "unat cp < 2 ^ 26" using two by simp
  from utf8_cont_step[OF this cont[unfolded t]] obtain x where
    x: "128 \<le> unat b" "unat b < 192" "unat x = unat cp * 64 + unat b mod 64" "x = r"
    by auto
  have n: "unat r = (unat c mod 32) * 64 + unat b mod 64" using x two by simp
  have "unat r < 0x800" unfolding n by (rule base64_bound(1)[of _ 0]) simp_all
  moreover have "0x80 \<le> unat r" using ok two by (simp add: utf8_cp_ok_nat)
  moreover have "unat r div 64 = unat c mod 32" "unat r mod 64 = unat b mod 64"
    unfolding n by (simp_all only: div_4096_262144 base64_digits mod_less_divisor zero_less_numeral)
  moreover note u8_lead_split(1)[OF two(2,3)] u8_lead_split(4)[OF x(1,2)]
  ultimately show ?thesis using ok t by (simp add: utf8_encode_def utf8_cp_ok_nat)
next
  case three
  then obtain b d where t: "take extra s = [b, d]" using len list_len_cases(2)[of s] by auto
  have "unat cp < 2 ^ 26" using three by simp
  from utf8_cont_step[OF this cont[unfolded t]] obtain x where
    x: "128 \<le> unat b" "unat b < 192" "unat x = unat cp * 64 + unat b mod 64"
      "utf8_cont x [d] = Some r" by auto
  have "unat x < 2 ^ 26" using x three by simp
  from utf8_cont_step[OF this x(4)] obtain y where
    y: "128 \<le> unat d" "unat d < 192" "unat y = unat x * 64 + unat d mod 64" "y = r"
    by auto
  have n: "unat r = ((unat c mod 16) * 64 + unat b mod 64) * 64 + unat d mod 64" using x y three by simp
  have "unat r < 0x10000" unfolding n by (rule base64_bound) simp_all
  moreover have "0x800 \<le> unat r" using ok three by (simp add: utf8_cp_ok_nat)
  moreover have "unat r div 4096 = unat c mod 16" "unat r div 64 mod 64 = unat b mod 64" "unat r mod 64 = unat d mod 64"
    unfolding n by (simp_all only: div_4096_262144 base64_digits mod_less_divisor zero_less_numeral)
  moreover note u8_lead_split(2)[OF three(2,3)] u8_lead_split(4)[OF x(1,2)] u8_lead_split(4)[OF y(1,2)]
  ultimately show ?thesis using ok t by (simp add: utf8_encode_def utf8_cp_ok_nat)
next
  case four
  then obtain b d e where t: "take extra s = [b, d, e]" using len list_len_cases(3)[of s] by auto
  have "unat cp < 2 ^ 26" using four by simp
  from utf8_cont_step[OF this cont[unfolded t]] obtain x where
    x: "128 \<le> unat b" "unat b < 192" "unat x = unat cp * 64 + unat b mod 64"
      "utf8_cont x [d, e] = Some r" by auto
  have "unat x < 2 ^ 26" using x four by simp
  from utf8_cont_step[OF this x(4)] obtain y where
    y: "128 \<le> unat d" "unat d < 192" "unat y = unat x * 64 + unat d mod 64" "utf8_cont y [e] = Some r"
    by auto
  have "unat y < 2 ^ 26" using x y four by simp
  from utf8_cont_step[OF this y(4)] obtain z where
    z: "128 \<le> unat e" "unat e < 192" "unat z = unat y * 64 + unat e mod 64" "z = r"
    by auto
  have n: "unat r = (((unat c mod 8) * 64 + unat b mod 64) * 64 + unat d mod 64) * 64 + unat e mod 64"
    using x y z four by simp
  have "0x10000 \<le> unat r" using ok four by (simp add: utf8_cp_ok_nat)
  moreover have "unat r div 262144 = unat c mod 8" "unat r div 4096 mod 64 = unat b mod 64"
    "unat r div 64 mod 64 = unat d mod 64" "unat r mod 64 = unat e mod 64"
    unfolding n by (simp_all only: div_4096_262144 base64_digits mod_less_divisor zero_less_numeral)
  moreover note u8_lead_split(3)[OF four(2,3)] u8_lead_split(4)[OF x(1,2)] u8_lead_split(4)[OF y(1,2)]
    u8_lead_split(4)[OF z(1,2)]
  ultimately show ?thesis using ok t by (simp add: utf8_encode_def utf8_cp_ok_nat)
qed

lemma utf8_lead_of_nat:
  "x < 32 \<Longrightarrow> utf8_lead (of_nat (192 + x)) = Some (1, of_nat x, 0x80)"
  "x < 16 \<Longrightarrow> utf8_lead (of_nat (224 + x)) = Some (2, of_nat x, 0x800)"
  "x < 8 \<Longrightarrow> utf8_lead (of_nat (240 + x)) = Some (3, of_nat x, 0x10000)"
proof -
  have u: "unat (of_nat k :: u8) = k" if "k < 256" for k
    using that by (simp add: unat_of_nat)
  have w: "w = of_nat k" if "unat (w :: u32) = k" for w k using that by auto
  show "x < 32 \<Longrightarrow> utf8_lead (of_nat (192 + x)) = Some (1, of_nat x, 0x80)"
    by (auto simp: utf8_lead_def and_masks_iff unat_and_low u mod_block simp del: of_nat_add intro!: w)
  show "x < 16 \<Longrightarrow> utf8_lead (of_nat (224 + x)) = Some (2, of_nat x, 0x800)"
    by (auto simp: utf8_lead_def and_masks_iff unat_and_low u mod_block simp del: of_nat_add intro!: w)
  show "x < 8 \<Longrightarrow> utf8_lead (of_nat (240 + x)) = Some (3, of_nat x, 0x10000)"
    by (auto simp: utf8_lead_def and_masks_iff unat_and_low u mod_block simp del: of_nat_add intro!: w)
qed

lemma of_nat_unat_u32: "of_nat (unat w) = (w :: u32)"
  by simp

lemma utf8_cont_of_nat:
  assumes "x < 2 ^ 26" "b < 64"
  shows "utf8_cont (of_nat x) (of_nat (128 + b) # bs) = utf8_cont (of_nat (x * 64 + b)) bs"
proof -
  have ub: "unat (of_nat (128 + b) :: u8) = 128 + b"
    using assms by (simp add: unat_of_nat del: of_nat_add)
  have ux: "unat (of_nat x :: u32) = x" using assms by (simp add: unat_of_nat)
  have "push_bit 6 (of_nat x :: u32) OR ucast (of_nat (128 + b) AND (0x3F :: u8)) = of_nat (x * 64 + b)"
  proof -
    have "unat (push_bit 6 (of_nat x :: u32) OR ucast (of_nat (128 + b) AND (0x3F :: u8))) = x * 64 + (128 + b) mod 64"
      using unat_shift_or[of "of_nat x" "of_nat (128 + b)"] assms ub ux by (simp del: of_nat_add)
    moreover have "(128 + b) mod 64 = b" using assms(2) by (rule mod_block)
    ultimately show ?thesis by (metis of_nat_unat_u32)
  qed
  then show ?thesis using ub assms by (simp add: and_masks_iff del: of_nat_add)
qed

lemma utf8_step_complete:
  assumes "utf8_scalar n" "0x80 \<le> n"
  obtains c bs cp mn where "utf8_encode n = c # bs" "\<not> c \<le> 0x7F"
    "utf8_lead c = Some (length bs, cp, mn)" "utf8_cont cp bs = Some (of_nat n)"
    "utf8_cp_ok mn (of_nat n)"
proof -
  have nb: "n \<le> 0x10FFFF" using assms(1) by (simp add: utf8_scalar_def)
  have un: "unat (of_nat n :: u32) = n" using nb by (simp add: unat_of_nat)
  have big: "\<not> (of_nat k :: u8) \<le> 0x7F" if "128 \<le> k" "k < 256" for k
    using that by (simp add: word_le_nat_alt unat_of_nat)
  have split64: "k div 64 * 64 + k mod 64 = k" for k :: nat by simp
  have m64: "k mod 64 < (64 :: nat)" for k by simp
  have ok: "utf8_cp_ok mn (of_nat n)" if "unat mn \<le> n" for mn
    using that assms(1) un by (simp add: utf8_cp_ok_nat)
  have small: "n div 64 < 2 ^ 26" "n div 4096 < 2 ^ 26" "n div 262144 < 8"
    using nb by (simp_all add: div_less_iff_less_mult)
  have last: "utf8_cont (of_nat (n div 64)) [of_nat (128 + n mod 64)] = Some (of_nat n)"
    using utf8_cont_of_nat[OF small(1) m64, of n "[]"] by (simp only: split64 utf8_cont.simps)
  have "n div 4096 * 64 + n div 64 mod 64 = n div 64" by (simp only: div_4096_262144 split64)
  then have last2: "utf8_cont (of_nat (n div 4096)) [of_nat (128 + n div 64 mod 64), of_nat (128 + n mod 64)]
      = Some (of_nat n)"
    using utf8_cont_of_nat[OF small(2) m64, of "n div 64" "[of_nat (128 + n mod 64)]"] last by (simp only:)
  have "n div 262144 * 64 + n div 4096 mod 64 = n div 4096" by (simp only: div_4096_262144 split64)
  moreover have "n div 262144 < 2 ^ 26" using small(3) by simp
  ultimately have last3: "utf8_cont (of_nat (n div 262144))
      [of_nat (128 + n div 4096 mod 64), of_nat (128 + n div 64 mod 64), of_nat (128 + n mod 64)] = Some (of_nat n)"
    using utf8_cont_of_nat[of "n div 262144" "n div 4096 mod 64"] last2 m64 by (simp only:)
  consider "n < 0x800" | "0x800 \<le> n" "n < 0x10000" | "0x10000 \<le> n" by linarith
  then show thesis
  proof cases
    case 1
    then have k: "n div 64 < 32" by (simp add: div_less_iff_less_mult)
    from 1 assms(2) have "utf8_encode n = of_nat (192 + n div 64) # [of_nat (128 + n mod 64)]"
      by (simp add: utf8_encode_def del: of_nat_add)
    moreover have "\<not> (of_nat (192 + n div 64) :: u8) \<le> 0x7F" using k by (intro big) simp_all
    ultimately show thesis
      using that[OF _ _ _ last ok[of "0x80"]] utf8_lead_of_nat(1)[OF k] assms(2)
      by (simp del: of_nat_add utf8_cont.simps)
  next
    case 2
    then have k: "n div 4096 < 16" by (simp add: div_less_iff_less_mult)
    from 2 have "utf8_encode n = of_nat (224 + n div 4096) # [of_nat (128 + n div 64 mod 64), of_nat (128 + n mod 64)]"
      by (simp add: utf8_encode_def del: of_nat_add)
    moreover have "\<not> (of_nat (224 + n div 4096) :: u8) \<le> 0x7F" using k by (intro big) simp_all
    moreover have "utf8_cp_ok 0x800 (of_nat n)" by (rule ok) (use 2 in simp)
    ultimately show thesis using that[OF _ _ _ last2] utf8_lead_of_nat(2)[OF k]
      by (simp del: of_nat_add utf8_cont.simps add: numeral_2_eq_2 [symmetric])
  next
    case 3
    then have "utf8_encode n = of_nat (240 + n div 262144)
        # [of_nat (128 + n div 4096 mod 64), of_nat (128 + n div 64 mod 64), of_nat (128 + n mod 64)]"
      by (simp add: utf8_encode_def del: of_nat_add)
    moreover have "\<not> (of_nat (240 + n div 262144) :: u8) \<le> 0x7F" using small(3) by (intro big) simp_all
    moreover have "utf8_cp_ok 0x10000 (of_nat n)" by (rule ok) (use 3 in simp)
    ultimately show thesis using that[OF _ _ _ last3] utf8_lead_of_nat(3)[OF small(3)]
      by (simp del: of_nat_add utf8_cont.simps add: numeral_3_eq_3 [symmetric])
  qed
qed

lemma is_valid_utf8_encode_append:
  assumes "utf8_scalar n"
  shows "is_valid_utf8 (utf8_encode n @ s) = is_valid_utf8 s"
proof (cases "n < 0x80")
  case True
  then have "(of_nat n :: u8) \<le> 0x7F" by (simp add: word_le_nat_alt unat_of_nat)
  with True show ?thesis by (simp add: utf8_encode_def)
next
  case False
  then obtain c bs cp mn where "utf8_encode n = c # bs" "\<not> c \<le> 0x7F"
    "utf8_lead c = Some (length bs, cp, mn)" "utf8_cont cp bs = Some (of_nat n)"
    "utf8_cp_ok mn (of_nat n)"
    using utf8_step_complete[OF assms] by (metis not_less)
  then show ?thesis by simp
qed

lemma is_valid_utf8_multi:
  assumes "is_valid_utf8 (c # s)" "\<not> c \<le> 0x7F"
  obtains extra cp mn r where "utf8_lead c = Some (extra, cp, mn)" "extra \<le> length s"
    "utf8_cont cp (take extra s) = Some r" "utf8_cp_ok mn r" "is_valid_utf8 (drop extra s)"
  using assms
  by (auto split: option.splits if_splits prod.splits simp del: utf8_cont.simps) fastforce

lemma is_valid_utf8_step:
  assumes "is_valid_utf8 (c # s)"
  obtains n k where "utf8_scalar n" "c # take k s = utf8_encode n" "k \<le> length s"
    "is_valid_utf8 (drop k s)"
proof (cases "c \<le> 0x7F")
  case True
  then have "unat c \<le> 127" by (simp add: word_le_nat_alt)
  with True assms that[of "unat c" 0] show thesis
    by (simp add: utf8_scalar_def utf8_encode_def)
next
  case False
  with assms obtain extra cp mn r where *: "utf8_lead c = Some (extra, cp, mn)" "extra \<le> length s"
    "utf8_cont cp (take extra s) = Some r" "utf8_cp_ok mn r" "is_valid_utf8 (drop extra s)"
    by (rule is_valid_utf8_multi)
  with utf8_step_sound[OF *(1-4)] that[of "unat r" extra] show thesis by blast
qed

lemma is_valid_utf8_iff_scalars:
  "is_valid_utf8 bs \<longleftrightarrow> (\<exists>cps. (\<forall>n \<in> set cps. utf8_scalar n) \<and> bs = concat (map utf8_encode cps))"
proof
  show "\<exists>cps. (\<forall>n \<in> set cps. utf8_scalar n) \<and> bs = concat (map utf8_encode cps)" if "is_valid_utf8 bs"
    using that
  proof (induction "length bs" arbitrary: bs rule: less_induct)
    case less
    show ?case
    proof (cases bs)
      case Nil
      then show ?thesis by (intro exI[of _ "[]"]) simp
    next
      case (Cons c s)
      with less.prems is_valid_utf8_step[of c s] obtain n k where
        n: "utf8_scalar n" "c # take k s = utf8_encode n" "is_valid_utf8 (drop k s)" by metis
      have "length (drop k s) < length bs" using Cons by simp
      from less.hyps[OF this n(3)] obtain cps where
        "\<forall>n \<in> set cps. utf8_scalar n" "drop k s = concat (map utf8_encode cps)" by auto
      moreover have "bs = (c # take k s) @ drop k s" using Cons by simp
      ultimately show ?thesis using n by (intro exI[of _ "n # cps"]) simp
    qed
  qed
next
  have "is_valid_utf8 (concat (map utf8_encode cps))" if "\<forall>n \<in> set cps. utf8_scalar n" for cps
    using that by (induction cps) (auto simp: is_valid_utf8_encode_append)
  then show "\<exists>cps. (\<forall>n \<in> set cps. utf8_scalar n) \<and> bs = concat (map utf8_encode cps) \<Longrightarrow> is_valid_utf8 bs"
    by blast
qed

lemma is_valid_utf8_append:
  assumes "is_valid_utf8 a"
  shows "is_valid_utf8 (a @ b) = is_valid_utf8 b"
proof -
  from assms obtain cps where "\<forall>n \<in> set cps. utf8_scalar n" "a = concat (map utf8_encode cps)"
    by (auto simp: is_valid_utf8_iff_scalars)
  then show ?thesis
    by (induction cps arbitrary: a) (auto simp: is_valid_utf8_encode_append)
qed

lemma c_get_map_slice:
  "len + 1 + k \<le> length s \<Longrightarrow> map (\<lambda>j. c_get s (len + j)) [1..<k + 1] = take k (drop (len + 1) s)"
  by (rule nth_equalityI) (auto simp: c_get_def simp del: upt_Suc)
lemma utf8_cont_no_nul: "utf8_cont cp bs = Some r \<Longrightarrow> 0 \<notin> set bs"
  by (induction bs arbitrary: cp) (auto split: if_splits)

lemma utf8_lead_extra: "utf8_lead c = Some (extra, cp, mn) \<Longrightarrow> 0 < extra"
  by (auto simp: utf8_lead_def split: if_splits)

lemma utf8_cont_in_range:
  assumes "utf8_cont cp (map (\<lambda>k. c_get s (len + k)) [1..<extra + 1]) = Some r" "0 < extra"
  shows "len + 1 + extra \<le> length s"
proof -
  have "c_get s (len + extra) \<in> set (map (\<lambda>k. c_get s (len + k)) [1..<extra + 1])"
    using assms(2) by auto
  with utf8_cont_no_nul[OF assms(1)] have "c_get s (len + extra) \<noteq> 0" by metis
  then show ?thesis by (auto simp: c_get_def split: if_splits)
qed

lemma utf8_safe_loop_step:
  "utf8_safe_loop s m len = len \<or>
    (\<exists>k > 0. len + k \<le> m \<and> len + k \<le> length s \<and> is_valid_utf8 (take k (drop len s))
      \<and> 0 \<notin> set (take k (drop len s)) \<and> utf8_safe_loop s m len = utf8_safe_loop s m (len + k))"
proof (cases "len < m \<and> c_get s len \<noteq> 0")
  case False
  then show ?thesis by (auto simp: utf8_safe_loop.simps[of s m len])
next
  case True
  then have l: "len < length s" and c: "c_get s len = s ! len" by (auto simp: c_get_def split: if_splits)
  have d: "drop len s = s ! len # drop (len + 1) s" using l by (simp add: Cons_nth_drop_Suc)
  show ?thesis
  proof (cases "c_get s len \<le> 0x7F")
    case asc: True
    have "utf8_safe_loop s m len = utf8_safe_loop s m (len + 1)"
      using True asc by (simp add: utf8_safe_loop.simps[of s m len])
    moreover have "take 1 (drop len s) = [s ! len]" using d by simp
    ultimately show ?thesis using True asc l c by (intro disjI2 exI[of _ 1]) simp
  next
    case hi: False
    show ?thesis
    proof (cases "utf8_safe_loop s m len = len")
      case False
      with True hi obtain extra cp mn r where *: "utf8_lead (c_get s len) = Some (extra, cp, mn)"
        "len + 1 + extra \<le> m" "utf8_cont cp (map (\<lambda>k. c_get s (len + k)) [1..<extra + 1]) = Some r"
        "utf8_cp_ok mn r" "utf8_safe_loop s m len = utf8_safe_loop s m (len + (1 + extra))"
        using utf8_safe_loop.simps[of s m len]
        by (auto split: if_splits option.splits simp del: upt_Suc)
      have rng: "len + 1 + extra \<le> length s"
        using utf8_cont_in_range[OF *(3) utf8_lead_extra[OF *(1)]] .
      have t: "take (1 + extra) (drop len s) = s ! len # take extra (drop (len + 1) s)"
        using d by simp
      have cont: "utf8_cont cp (take extra (drop (len + 1) s)) = Some r"
        using *(3) c_get_map_slice[OF rng] by simp
      have "is_valid_utf8 (take (1 + extra) (drop len s))"
        using t * cont hi c rng by simp
      moreover have "0 \<notin> set (take (1 + extra) (drop len s))"
        using t utf8_cont_no_nul[OF cont] True c by simp
      ultimately show ?thesis using * rng by (intro disjI2 exI[of _ "1 + extra"]) simp
    qed simp
  qed
qed

lemma utf8_safe_loop_progress:
  assumes v: "is_valid_utf8 (take j (drop len s))" and j: "0 < j" "len + j \<le> m" "len + j \<le> length s"
    and nz: "0 \<notin> set (take j (drop len s))"
  shows "\<exists>k. 0 < k \<and> k \<le> j \<and> is_valid_utf8 (take (j - k) (drop (len + k) s))
    \<and> utf8_safe_loop s m len = utf8_safe_loop s m (len + k)"
proof -
  have d: "drop len s = s ! len # drop (len + 1) s" using j by (simp add: Cons_nth_drop_Suc)
  then have t: "take j (drop len s) = s ! len # take (j - 1) (drop (len + 1) s)"
    using j(1) by (cases j) simp_all
  have c: "c_get s len = s ! len" "s ! len \<noteq> 0" using j nz t by (auto simp: c_get_def)
  show ?thesis
  proof (cases "s ! len \<le> 0x7F")
    case True
    then have "utf8_safe_loop s m len = utf8_safe_loop s m (len + 1)"
      using c j by (simp add: utf8_safe_loop.simps[of s m len])
    with True v t j show ?thesis by (intro exI[of _ 1]) simp
  next
    case False
    obtain extra cp mn r where *: "utf8_lead (s ! len) = Some (extra, cp, mn)"
      "extra \<le> j - 1" "utf8_cont cp (take extra (take (j - 1) (drop (len + 1) s))) = Some r"
      "utf8_cp_ok mn r" "is_valid_utf8 (drop extra (take (j - 1) (drop (len + 1) s)))"
      by (rule is_valid_utf8_multi[OF v[unfolded t] False]) simp
    have "utf8_cont cp (map (\<lambda>k. c_get s (len + k)) [1..<extra + 1]) = Some r"
      using *(2,3) j c_get_map_slice[of len extra s] by (simp add: min_def)
    moreover have "len + 1 + extra \<le> m" using *(2) j by linarith
    ultimately have "utf8_safe_loop s m len = utf8_safe_loop s m (len + (1 + extra))"
      using c j * False by (subst utf8_safe_loop.simps) (simp del: upt_Suc)
    moreover have "take (j - (1 + extra)) (drop (len + (1 + extra)) s) = drop extra (take (j - 1) (drop (len + 1) s))"
      by (simp add: drop_take add.commute add.left_commute)
    ultimately show ?thesis using * j by (intro exI[of _ "1 + extra"]) simp
  qed
qed

lemma utf8_safe_loop_prefix:
  "len \<le> m \<Longrightarrow> len \<le> length s \<Longrightarrow>
    (let r = utf8_safe_loop s m len in len \<le> r \<and> r \<le> m \<and> r \<le> length s
      \<and> is_valid_utf8 (take (r - len) (drop len s)) \<and> 0 \<notin> set (take (r - len) (drop len s)))"
proof (induction "m - len" arbitrary: len rule: less_induct)
  case less
  show ?case
  proof (cases "utf8_safe_loop s m len = len")
    case True
    with less.prems show ?thesis by simp
  next
    case False
    with utf8_safe_loop_step[of s m len] obtain k where k: "0 < k" "len + k \<le> m" "len + k \<le> length s"
      "is_valid_utf8 (take k (drop len s))" "0 \<notin> set (take k (drop len s))"
      "utf8_safe_loop s m len = utf8_safe_loop s m (len + k)" by blast
    let ?r = "utf8_safe_loop s m (len + k)"
    have "m - (len + k) < m - len" using k by simp
    from less.hyps[OF this k(2,3)] have ih: "len + k \<le> ?r" "?r \<le> m" "?r \<le> length s"
      "is_valid_utf8 (take (?r - (len + k)) (drop (len + k) s))"
      "0 \<notin> set (take (?r - (len + k)) (drop (len + k) s))" by (auto simp: Let_def)
    have "take (?r - len) (drop len s) = take k (drop len s) @ take (?r - (len + k)) (drop (len + k) s)"
      using ih(1) take_add[of k "?r - (len + k)" "drop len s"] by (simp add: add.commute)
    with k ih show ?thesis by (simp add: Let_def is_valid_utf8_append)
  qed
qed

lemma utf8_safe_loop_maximal:
  "len + j \<le> m \<Longrightarrow> len + j \<le> length s \<Longrightarrow> is_valid_utf8 (take j (drop len s)) \<Longrightarrow>
    0 \<notin> set (take j (drop len s)) \<Longrightarrow> len + j \<le> utf8_safe_loop s m len"
proof (induction j arbitrary: len rule: less_induct)
  case (less j)
  show ?case
  proof (cases "j = 0")
    case True
    then show ?thesis using utf8_safe_loop_prefix[of len m s] less.prems by (simp add: Let_def)
  next
    case False
    with utf8_safe_loop_progress[OF less.prems(3) _ less.prems(1,2,4)] obtain k where
      k: "0 < k" "k \<le> j" "is_valid_utf8 (take (j - k) (drop (len + k) s))"
        "utf8_safe_loop s m len = utf8_safe_loop s m (len + k)" by auto
    have "take (j - k) (drop (len + k) s) = drop k (take j (drop len s))"
      by (simp add: drop_take add.commute)
    then have "0 \<notin> set (take (j - k) (drop (len + k) s))"
      using less.prems(4) by (metis in_set_dropD)
    with less.IH[of "j - k" "len + k"] k less.prems(1,2) show ?thesis by simp
  qed
qed

section \<open>Correctness\<close>

text \<open>
  Property C40.  \<^verbatim>\<open>is_valid_utf8\<close> accepts exactly the byte strings that encode a sequence of
  Unicode scalar values in UTF-8: no overlong form, no surrogate, nothing above U+10FFFF,
  no truncated sequence.
\<close>
theorem is_valid_utf8_correct:
  "is_valid_utf8 bs \<longleftrightarrow> (\<exists>cps. list_all utf8_scalar cps \<and> bs = concat (map utf8_encode cps))"
  by (simp add: is_valid_utf8_iff_scalars list_all_iff)

text \<open>
  Property.  \<^verbatim>\<open>vw_utf8_safe_len\<close> returns the length of the longest prefix of the C string
  that fits into \<^verbatim>\<open>max_bytes\<close> and is valid UTF-8, as judged by \<^verbatim>\<open>is_valid_utf8\<close>: a caption is
  never cut inside a code point and never shorter than it has to be.
\<close>
theorem vw_utf8_safe_len_longest:
  "vw_utf8_safe_len (Some s) m =
    Max {k. k \<le> m \<and> k \<le> length s \<and> 0 \<notin> set (take k s) \<and> is_valid_utf8 (take k s)}"
proof -
  let ?S = "{k. k \<le> m \<and> k \<le> length s \<and> 0 \<notin> set (take k s) \<and> is_valid_utf8 (take k s)}"
  let ?r = "utf8_safe_loop s m 0"
  have "vw_utf8_safe_len (Some s) m = ?r"
    by (simp add: vw_utf8_safe_len_def utf8_safe_loop.simps[of s 0])
  moreover have "?r = Max ?S"
  proof (rule Max_eqI [symmetric])
    show "finite ?S" by (rule finite_subset[of _ "{..m}"]) auto
    show "k \<le> ?r" if "k \<in> ?S" for k
      using that utf8_safe_loop_maximal[of 0 k m s] by simp
    show "?r \<in> ?S" using utf8_safe_loop_prefix[of 0 m s] by (simp add: Let_def)
  qed
  ultimately show ?thesis by simp
qed

lemma vw_utf8_safe_len_le: "vw_utf8_safe_len (Some s) m \<le> m" "vw_utf8_safe_len (Some s) m \<le> length s"
  using utf8_safe_loop_prefix[of 0 m s] by (auto simp: vw_utf8_safe_len_def Let_def)

lemma vw_utf8_safe_len_valid:
  "is_valid_utf8 (take (vw_utf8_safe_len (Some s) m) s)" "0 \<notin> set (take (vw_utf8_safe_len (Some s) m) s)"
  using utf8_safe_loop_prefix[of 0 m s] by (auto simp: vw_utf8_safe_len_def Let_def)

lemma vw_utf8_safe_len_all:
  "is_valid_utf8 s \<Longrightarrow> 0 \<notin> set s \<Longrightarrow> length s \<le> m \<Longrightarrow> vw_utf8_safe_len (Some s) m = length s"
  using utf8_safe_loop_maximal[of 0 "length s" m s] utf8_safe_loop_prefix[of 0 m s]
  by (auto simp: vw_utf8_safe_len_def Let_def)

lemma saturating_in_i64:
  "in_i64 (vw_saturating_add_i64 a b)" "in_i64 (vw_saturating_sub_i64 a b)"
  by (auto simp: vw_saturating_add_i64_def vw_saturating_sub_i64_def in_i64_def INT64_MAX_def INT64_MIN_def)

text \<open>
  Property.  On \<^verbatim>\<open>int64_t\<close> arguments the saturating helpers return the exact sum and
  difference clamped to the range of \<^verbatim>\<open>int64_t\<close>.
\<close>
theorem vw_saturating_clamp:
  assumes "in_i64 a" "in_i64 b"
  shows "vw_saturating_add_i64 a b = max INT64_MIN (min INT64_MAX (a + b))
    \<and> vw_saturating_sub_i64 a b = max INT64_MIN (min INT64_MAX (a - b))"
  using assms
  by (auto simp: vw_saturating_add_i64_def vw_saturating_sub_i64_def in_i64_def INT64_MAX_def INT64_MIN_def)

theorem vw_saturating_clamp_witness:
  "in_i64 INT64_MAX \<and> in_i64 7 \<and> vw_saturating_add_i64 INT64_MAX 7 = INT64_MAX
    \<and> vw_saturating_sub_i64 INT64_MAX 7 = 9223372036854775800"
proof -
  have h: "in_i64 INT64_MAX" "in_i64 7" by (simp_all add: in_i64_def INT64_MAX_def INT64_MIN_def)
  from vw_saturating_clamp[OF h] h show ?thesis by (simp add: INT64_MAX_def INT64_MIN_def)
qed

end
