(* ===== verification/VW_Ieee.thy ===== *)
theory VW_Ieee
  imports Complex_Main VW_Prelude
begin

text \<open>
  The part of IEEE 754 the sources use.  A \<^verbatim>\<open>float\<close> is its 32-bit pattern; \<open>f32_val\<close> is the
  rational value of a finite one, so C comparisons of finite floats are comparisons of
  values.  \<open>rne p x\<close> rounds to \<open>p\<close> significant bits, ties to even: the result of one
  operation in binary32 (\<open>p = 24\<close>) or binary64 (\<open>p = 53\<close>) whose exact result is \<open>x\<close> and
  lies in the normal range.  \<open>trunc0\<close> is the conversion to an integer type.
\<close>

definition f32_sign :: "u32 \<Rightarrow> bool" where
  "f32_sign b \<longleftrightarrow> bit b 31"

definition f32_exp :: "u32 \<Rightarrow> nat" where
  "f32_exp b = unat (drop_bit 23 b) mod 256"

definition f32_man :: "u32 \<Rightarrow> nat" where
  "f32_man b = unat b mod 8388608"

definition f32_finite :: "u32 \<Rightarrow> bool" where
  "f32_finite b \<longleftrightarrow> f32_exp b \<noteq> 255"

definition f32_nan :: "u32 \<Rightarrow> bool" where
  "f32_nan b \<longleftrightarrow> f32_exp b = 255 \<and> f32_man b \<noteq> 0"

definition pow2 :: "int \<Rightarrow> rat" where
  "pow2 k = (if 0 \<le> k then 2 ^ nat k else 1 / 2 ^ nat (- k))"

definition f32_val :: "u32 \<Rightarrow> rat" where
  "f32_val b = (if f32_sign b then - 1 else 1) *
     (if f32_exp b = 0 then of_nat (f32_man b) * pow2 (- 149)
      else of_nat (8388608 + f32_man b) * pow2 (int (f32_exp b) - 150))"

definition round_even :: "rat \<Rightarrow> int" where
  "round_even x =
     (let f = \<lfloor>x\<rfloor>; d = x - of_int f in
      if d < 1 / 2 then f else if d > 1 / 2 then f + 1 else if even f then f else f + 1)"

fun ilog2_nat :: "nat \<Rightarrow> nat" where
  "ilog2_nat n = (if n < 2 then 0 else Suc (ilog2_nat (n div 2)))"

declare ilog2_nat.simps [simp del]

text \<open>\<open>ilog2 x\<close>: the exponent of the binade of a positive \<open>x\<close>.\<close>

definition ilog2 :: "rat \<Rightarrow> int" where
  "ilog2 x = (case quotient_of x of (n, d) \<Rightarrow>
     let k = int (ilog2_nat (nat n)) - int (ilog2_nat (nat d))
     in if pow2 k \<le> x then k else k - 1)"

definition rne :: "nat \<Rightarrow> rat \<Rightarrow> rat" where
  "rne p x = (if x = 0 then 0
     else let k = ilog2 \<bar>x\<bar> - int p + 1 in of_int (round_even (x / pow2 k)) * pow2 k)"

definition trunc0 :: "rat \<Rightarrow> int" where
  "trunc0 x = (if 0 \<le> x then \<lfloor>x\<rfloor> else - \<lfloor>- x\<rfloor>)"

section \<open>Rounding keeps an integer bound\<close>

lemma round_even_le: "x \<le> of_int n \<Longrightarrow> round_even x \<le> n"
proof -
  assume a: "x \<le> of_int n"
  then have f: "\<lfloor>x\<rfloor> \<le> n" by (simp add: floor_le_iff)
  show ?thesis
  proof (cases "\<lfloor>x\<rfloor> = n")
    case True
    with a have "x = of_int n" by linarith
    then show ?thesis by (simp add: round_even_def)
  next
    case False
    with f show ?thesis by (simp add: round_even_def Let_def)
  qed
qed

lemma round_even_ge: "of_int n \<le> x \<Longrightarrow> n \<le> round_even x"
proof -
  assume "of_int n \<le> x"
  then have "n \<le> \<lfloor>x\<rfloor>" by (simp add: le_floor_iff)
  then show ?thesis by (simp add: round_even_def Let_def)
qed

lemma pow2_pos [simp]: "0 < pow2 k"
  by (simp add: pow2_def)

lemma pow2_powr: "real_of_rat (pow2 k) = 2 powr real_of_int k"
proof (cases "0 \<le> k")
  case True
  then show ?thesis by (simp add: pow2_def of_rat_power powr_realpow [symmetric])
next
  case False
  then have "2 powr real_of_int k = 1 / 2 powr real_of_int (- k)" by (simp add: powr_minus_divide)
  with False show ?thesis
    by (simp add: pow2_def of_rat_divide of_rat_power powr_realpow [symmetric])
qed

lemma pow2_le_iff: "pow2 a \<le> pow2 b \<longleftrightarrow> a \<le> b"
proof -
  have "pow2 a \<le> pow2 b \<longleftrightarrow> real_of_rat (pow2 a) \<le> real_of_rat (pow2 b)" by (simp add: of_rat_less_eq)
  then show ?thesis by (simp add: pow2_powr)
qed

lemma ilog2_nat_bounds: "0 < n \<Longrightarrow> 2 ^ ilog2_nat n \<le> n \<and> n < 2 * 2 ^ ilog2_nat n"
proof (induction n rule: ilog2_nat.induct)
  case (1 n)
  show ?case
  proof (cases "n < 2")
    case True
    with 1(2) show ?thesis by (simp add: ilog2_nat.simps)
  next
    case False
    then have "2 ^ ilog2_nat (n div 2) \<le> n div 2 \<and> n div 2 < 2 * 2 ^ ilog2_nat (n div 2)" using 1 by simp
    then have "2 * 2 ^ ilog2_nat (n div 2) \<le> n \<and> n < 2 * (2 * 2 ^ ilog2_nat (n div 2))" by linarith
    with False show ?thesis by (simp add: ilog2_nat.simps[of n])
  qed
qed

lemma ilog2_le: "0 < x \<Longrightarrow> pow2 (ilog2 x) \<le> x"
proof -
  assume x: "0 < x"
  obtain n d where nd: "quotient_of x = (n, d)" by force
  have d: "0 < d" using quotient_of_denom_pos[OF nd] .
  have eq: "x = of_int n / of_int d" using quotient_of_div[OF nd] .
  with x d have n: "0 < n" by (simp add: zero_less_divide_iff)
  let ?a = "ilog2_nat (nat n)" and ?b = "ilog2_nat (nat d)"
  have "2 ^ ?a \<le> nat n" "nat d < 2 * 2 ^ ?b"
    using ilog2_nat_bounds[of "nat n"] ilog2_nat_bounds[of "nat d"] n d by auto
  then have "int (2 ^ ?a) \<le> n" "d < int (2 * 2 ^ ?b)"
    using n d by (simp_all only: le_nat_iff nat_less_iff less_imp_le)
  then have i: "(2 :: int) ^ ?a \<le> n" "d < 2 * 2 ^ ?b" by simp_all
  have "real_of_rat (pow2 (int ?a - int ?b - 1)) \<le> real_of_rat x"
  proof -
    have "real_of_rat (pow2 (int ?a - int ?b - 1)) = 2 ^ ?a / (2 * 2 ^ ?b)"
      by (simp add: pow2_powr powr_diff powr_realpow)
    also have "\<dots> \<le> real_of_int n / real_of_int d"
    proof (rule frac_le)
      have "real_of_int (2 ^ ?a) \<le> real_of_int n" using i(1) by (simp only: of_int_le_iff)
      then show "2 ^ ?a \<le> real_of_int n" by simp
      have "real_of_int d \<le> real_of_int (2 * 2 ^ ?b)" using i(2) by (simp only: of_int_le_iff less_imp_le)
      then show "real_of_int d \<le> 2 * 2 ^ ?b" by simp
    qed (use n d in auto)
    also have "\<dots> = real_of_rat x" by (simp add: eq of_rat_divide)
    finally show ?thesis .
  qed
  then have "pow2 (int ?a - int ?b - 1) \<le> x" by (simp add: of_rat_less_eq)
  then show ?thesis by (simp add: ilog2_def nd Let_def)
qed

lemma pow2_minus_nat: "1 / pow2 (- int j) = 2 ^ j"
  by (cases "j = 0") (simp_all add: pow2_def)

lemma rne_bound:
  assumes "\<bar>x\<bar> \<le> of_nat m" "m < 2 ^ p" "0 < p"
  shows "\<bar>rne p x\<bar> \<le> of_nat m"
proof (cases "x = 0")
  case True
  then show ?thesis by (simp add: rne_def)
next
  case False
  define k where "k = ilog2 \<bar>x\<bar> - int p + 1"
  have "pow2 (ilog2 \<bar>x\<bar>) \<le> \<bar>x\<bar>" using False by (intro ilog2_le) simp
  also have "\<dots> \<le> of_nat m" by (rule assms(1))
  also have "\<dots> < pow2 (int p)"
  proof -
    have "(of_nat m :: rat) < of_nat (2 ^ p)" using assms(2) of_nat_less_iff by blast
    then show ?thesis by (simp add: pow2_def)
  qed
  finally have "ilog2 \<bar>x\<bar> < int p" using pow2_le_iff by (metis not_le)
  then have "k \<le> 0" by (simp add: k_def)
  then obtain j where j: "k = - int j" by (metis nonneg_int_cases neg_0_le_iff_le minus_minus)
  have scaled: "x / pow2 k = x * 2 ^ j"
    unfolding j using pow2_minus_nat[of j] by (metis divide_inverse inverse_eq_divide)
  have le: "x / pow2 k \<le> of_int (int m * 2 ^ j)" "of_int (- (int m * 2 ^ j)) \<le> x / pow2 k"
    unfolding scaled using assms(1) by (simp_all add: abs_le_iff minus_le_iff flip: mult_minus_left)
  have "\<bar>round_even (x / pow2 k)\<bar> \<le> int m * 2 ^ j"
    using round_even_le[OF le(1)] round_even_ge[OF le(2)] by linarith
  then have "of_int \<bar>round_even (x / pow2 k)\<bar> \<le> (of_int (int m * 2 ^ j) :: rat)"
    by (simp only: of_int_le_iff)
  then have r: "\<bar>of_int (round_even (x / pow2 k))\<bar> \<le> (of_nat m * 2 ^ j :: rat)" by simp
  have "pow2 k * 2 ^ j = 1" using pow2_minus_nat[of j] pow2_pos[of k] unfolding j by (simp add: field_simps)
  have "\<bar>rne p x\<bar> = \<bar>of_int (round_even (x / pow2 k))\<bar> * pow2 k"
    using False pow2_pos[of k] by (simp add: rne_def Let_def k_def [symmetric] abs_mult del: pow2_pos)
  also have "\<dots> \<le> of_nat m * 2 ^ j * pow2 k"
    using r by (intro mult_right_mono) (simp_all add: less_imp_le)
  also have "\<dots> = of_nat m" using \<open>pow2 k * 2 ^ j = 1\<close> by (metis mult.assoc mult.commute mult.right_neutral)
  finally show ?thesis .
qed

lemma trunc0_bound: "\<bar>x\<bar> \<le> of_nat m \<Longrightarrow> \<bar>trunc0 x\<bar> \<le> int m"
  by (auto simp: trunc0_def abs_le_iff floor_le_iff le_floor_iff; linarith)

section \<open>Rounding error\<close>

lemma round_even_error: "\<bar>of_int (round_even x) - x\<bar> \<le> 1 / 2"
proof -
  have "of_int \<lfloor>x\<rfloor> \<le> x" "x < of_int \<lfloor>x\<rfloor> + 1" by linarith+
  then show ?thesis by (auto simp: round_even_def Let_def abs_le_iff)
qed

lemma pow2_Suc: "pow2 (k + 1) = 2 * pow2 k"
proof -
  have "real_of_rat (pow2 (k + 1)) = real_of_rat (2 * pow2 k)"
    by (simp add: pow2_powr of_rat_mult powr_add)
  then show ?thesis by (simp only: of_rat_eq_iff)
qed

lemma pow2_diff: "pow2 (k - int p) = pow2 k / 2 ^ p"
proof -
  have "real_of_rat (pow2 (k - int p)) = real_of_rat (pow2 k / 2 ^ p)"
    by (simp add: pow2_powr of_rat_divide of_rat_power powr_diff powr_realpow)
  then show ?thesis by (simp only: of_rat_eq_iff)
qed

text \<open>One rounding changes a value by at most one part in \<open>2 ^ p\<close>.\<close>

lemma rne_error: "\<bar>rne p x - x\<bar> \<le> \<bar>x\<bar> / 2 ^ p"
proof (cases "x = 0")
  case True
  then show ?thesis by (simp add: rne_def)
next
  case False
  define k where "k = ilog2 \<bar>x\<bar> - int p + 1"
  have "rne p x - x = (of_int (round_even (x / pow2 k)) - x / pow2 k) * pow2 k"
    using False pow2_pos[of k] by (simp add: rne_def Let_def k_def [symmetric] left_diff_distrib del: pow2_pos)
  then have "\<bar>rne p x - x\<bar> = \<bar>of_int (round_even (x / pow2 k)) - x / pow2 k\<bar> * pow2 k"
    by (simp add: abs_mult less_imp_le)
  also have "\<dots> \<le> 1 / 2 * pow2 k" by (intro mult_right_mono round_even_error) (simp add: less_imp_le)
  also have "\<dots> = pow2 (ilog2 \<bar>x\<bar>) / 2 ^ p"
    unfolding k_def pow2_Suc pow2_diff by simp
  also have "\<dots> \<le> \<bar>x\<bar> / 2 ^ p" using False by (intro divide_right_mono ilog2_le) simp_all
  finally show ?thesis .
qed

lemma rne_lower: "0 \<le> x \<Longrightarrow> x * (1 - 1 / 2 ^ p) \<le> rne p x"
  using rne_error[of p x] by (simp add: abs_le_iff algebra_simps)

lemma rne_upper: "0 \<le> x \<Longrightarrow> rne p x \<le> x * (1 + 1 / 2 ^ p)"
  using rne_error[of p x] by (simp add: abs_le_iff algebra_simps)

lemma trunc0_lower: "x - 1 < of_int (trunc0 x)"
  by (simp add: trunc0_def; linarith)

lemma trunc0_nonneg: "0 \<le> x \<Longrightarrow> 0 \<le> trunc0 x \<and> of_int (trunc0 x) \<le> x"
  by (simp add: trunc0_def)

end
