(* ===== verification/VW_Validate.thy ===== *)
theory VW_Validate
  imports VW_Util VW_Ieee
begin

text \<open>
  \<^verbatim>\<open>protocol/src/vw_protocol_validate.c\<close>: the checks a frame header and a decoded payload
  pass before any component acts on them.
\<close>

definition vw_protocol_validate_header :: "vw_frame_header option \<Rightarrow> bool" where
  "vw_protocol_validate_header header =
     (case header of None \<Rightarrow> False
      | Some h \<Rightarrow>
          if fh_magic h \<noteq> VW_PROTOCOL_MAGIC then False
          else if fh_major h \<noteq> VW_PROTOCOL_VERSION_MAJOR then False
          else if unat (fh_payload_length h) > VW_MAX_PAYLOAD_BYTES then False
          else if fh_type h < msg_code VW_MSG_HELLO \<or> fh_type h > msg_code VW_MSG_TRANSLATE_CTRL
          then False
          else True)"

definition ascii_alpha :: "u8 \<Rightarrow> bool" where
  "ascii_alpha c \<longleftrightarrow> (0x41 \<le> c \<and> c \<le> 0x5A) \<or> (0x61 \<le> c \<and> c \<le> 0x7A)"

definition str_auto :: bytes where
  "str_auto = [0x61, 0x75, 0x74, 0x6F]"

definition is_valid_language_code :: "bytes \<Rightarrow> bool \<Rightarrow> bool" where
  "is_valid_language_code code allow_auto =
     (let len = strnlen code 16; s = take len code in
      if len = 0 \<or> len \<ge> 16 then False
      else if allow_auto \<and> s = str_auto then True
      else
        let primary = takeWhile (\<lambda>c. c \<noteq> 0x2D) s; primary_length = length primary in
        if \<not> list_all ascii_alpha primary then False
        else if primary_length < 2 \<or> primary_length > 3 then False
        else if primary_length = len then True
        else
          let subtag_length = len - primary_length - 1 in
          if subtag_length < 2 \<or> subtag_length > 8 then False
          else list_all ascii_alpha (drop (primary_length + 1) s))"

definition is_ws :: "u8 \<Rightarrow> bool" where
  "is_ws c \<longleftrightarrow> c = 0x20 \<or> c = 0x0A \<or> c = 0x0D \<or> c = 0x09"

definition is_empty_or_whitespace :: "bytes \<Rightarrow> bool" where
  "is_empty_or_whitespace s \<longleftrightarrow> s = [] \<or> list_all is_ws s"

definition vw_bounded_string_length :: "bytes \<Rightarrow> nat \<Rightarrow> nat option" where
  "vw_bounded_string_length text capacity =
     (if capacity = 0 then None
      else let len = strnlen text capacity in if len = capacity then None else Some len)"

text \<open>The control-character loop over a caption text.\<close>

definition no_control_chars :: "bytes \<Rightarrow> bool" where
  "no_control_chars s \<longleftrightarrow> list_all (\<lambda>c. \<not> (c < 0x20 \<and> c \<noteq> 0x0A \<and> c \<noteq> 0x20)) s"

text \<open>The bytes \<^verbatim>\<open>ptr[0..len)\<close> behind a pointer.\<close>

definition ptr_bytes :: "bytes option \<Rightarrow> nat \<Rightarrow> bytes" where
  "ptr_bytes p n = (case p of None \<Rightarrow> [] | Some bs \<Rightarrow> take n bs)"

definition validate_start :: "vw_msg_start \<Rightarrow> bool" where
  "validate_start p =
     (if st_sample_rate p \<noteq> 16000 \<or> st_channels p \<noteq> 1 \<or> st_sample_format p \<noteq> 1 then False
      else if \<not> is_valid_language_code (st_language p) False then False
      else case vw_bounded_string_length (st_model_id p) VW_MAX_MODEL_ID_BYTES of
          None \<Rightarrow> False
        | Some model_id_length \<Rightarrow>
            if model_id_length = 0 then False
            else case vw_bounded_string_length (st_source_url p) VW_MAX_SOURCE_URL_BYTES of
                None \<Rightarrow> False
              | Some source_url_length \<Rightarrow>
                  if unat (st_source_url_len p) \<noteq> source_url_length then False
                  else if st_source_kind p = 0 then source_url_length = 0
                  else if st_source_kind p = 1 then source_url_length > 0
                  else False)"

definition validate_audio :: "vw_msg_audio \<Rightarrow> bool" where
  "validate_audio p =
     (if au_duration_us p \<le> 0 \<or> au_duration_us p > 30000000 then False
      else if au_pcm_bytes p mod 2 \<noteq> 0 then False
      else
        let expected_bytes = (word_of_int (au_duration_us p * 32 div 1000) :: u32) in
        if au_pcm_bytes p + 1 < expected_bytes \<or> au_pcm_bytes p > expected_bytes + 1 then False
        else if au_pcm_bytes p > 0 \<and> au_pcm_data p = None then False
        else True)"

definition validate_position :: "vw_msg_position \<Rightarrow> bool" where
  "validate_position p =
     (if po_current_pts_us p < - 10000000 \<or> po_current_pts_us p > 315360000000000 then False
      else if po_input_time_us p < - 1 \<or> po_input_time_us p > 315360000000000 then False
      else if \<not> f32_finite (po_playback_rate p) \<or> f32_val (po_playback_rate p) \<le> 0
        \<or> f32_val (po_playback_rate p) > 16 then False
      else if po_flags p AND NOT (1 OR 2) \<noteq> 0 then False
      else True)"

definition validate_caption :: "vw_caption_segment \<Rightarrow> bool" where
  "validate_caption p =
     (let text = ptr_bytes (cs_text_utf8 p) (unat (cs_text_bytes p));
          trans = ptr_bytes (cs_translated_text_utf8 p) (unat (cs_translated_text_bytes p)) in
      if cs_end_pts_us p \<le> cs_start_pts_us p then False
      else if unat (cs_text_bytes p) > VW_MAX_TEXT_BYTES then False
      else if cs_text_bytes p > 0 \<and> cs_text_utf8 p = None then False
      else if is_empty_or_whitespace text then False
      else if \<not> is_valid_utf8 text then False
      else if \<not> no_control_chars text then False
      else if cs_translated_text_bytes p > 0 \<and>
        (unat (cs_translated_text_bytes p) > VW_MAX_TEXT_BYTES \<or> cs_translated_text_utf8 p = None
         \<or> is_empty_or_whitespace trans \<or> \<not> is_valid_utf8 trans \<or> \<not> no_control_chars trans) then False
      else if \<not> cs_translated_text_bytes p > 0 \<and> cs_translated_text_utf8 p \<noteq> None then False
      else if \<not> cs_translation_attempted p \<and>
        (cs_translated_text_bytes p > 0 \<or> cs_translation_latency_us p > 0 \<or> cs_translation_tier p > 0)
      then False
      else if cs_translation_tier p > 3 then False
      else if cs_translated_text_bytes p > 0 \<and> cs_translation_tier p = 0 then False
      else if cs_translated_text_bytes p = 0 \<and> cs_translation_tier p \<noteq> 0 then False
      else True)"

definition validate_translate_ctrl :: "vw_msg_translate_ctrl \<Rightarrow> bool" where
  "validate_translate_ctrl p =
     (if tc_enabled p > 1 then False
      else if tc_mode p > 1 then False
      else if \<not> is_valid_language_code (tc_source_lang p) True then False
      else if \<not> is_valid_language_code (tc_target_lang p) False then False
      else True)"

definition validate_model_progress :: "vw_msg_model_progress \<Rightarrow> bool" where
  "validate_model_progress p =
     (if mp_stage p > 5 then False
      else if mp_pct p > 100 then False
      else if mp_bytes_total p = 0 \<and> mp_stage p \<noteq> 0 \<and> mp_stage p \<noteq> 4 then False
      else True)"

text \<open>
  The dispatch.  A payload struct that does not belong to the message type has no meaning in
  C (the cast would read another struct); the model rejects it.
\<close>

definition vw_protocol_validate_payload :: "u16 \<Rightarrow> vw_payload option \<Rightarrow> bool" where
  "vw_protocol_validate_payload type payload =
     (case msg_type_of type of
        None \<Rightarrow> False
      | Some t \<Rightarrow>
          (case (t, payload) of
             (VW_MSG_SHUTDOWN, _) \<Rightarrow> True
           | (_, None) \<Rightarrow> False
           | (VW_MSG_HELLO, Some (P_HELLO p)) \<Rightarrow>
               \<not> (he_client_version_length p > 0 \<and> he_client_version p = None)
           | (VW_MSG_HELLO_ACK, Some (P_HELLO_ACK p)) \<Rightarrow>
               \<not> (ha_worker_version_length p > 0 \<and> ha_worker_version p = None)
           | (VW_MSG_START_SESSION, Some (P_START p)) \<Rightarrow> validate_start p
           | (VW_MSG_AUDIO_PCM, Some (P_AUDIO p)) \<Rightarrow> validate_audio p
           | (VW_MSG_PAUSE, Some (P_CONTROL p)) \<Rightarrow> ct_reason p = 1
           | (VW_MSG_RESUME, Some (P_CONTROL p)) \<Rightarrow> ct_reason p = 1
           | (VW_MSG_STOP_SESSION, Some (P_CONTROL p)) \<Rightarrow>
               ct_reason p = 1 \<or> ct_reason p = 2 \<or> ct_reason p = 3
           | (VW_MSG_STATUS, Some (P_STATUS p)) \<Rightarrow> True
           | (VW_MSG_ERROR, Some (P_ERROR p)) \<Rightarrow>
               1 \<le> er_error_code p \<and> unat (er_error_code p) \<le> VW_ERROR_MAX
           | (VW_MSG_STARTED, Some (P_STARTED p)) \<Rightarrow>
               \<not> (sd_source_active p \<noteq> 0 \<and> sd_source_active p \<noteq> 1)
           | (VW_MSG_POSITION, Some (P_POSITION p)) \<Rightarrow> validate_position p
           | (VW_MSG_CAPTION_SEGMENT, Some (P_CAPTION p)) \<Rightarrow> validate_caption p
           | (VW_MSG_TRANSLATE_CTRL, Some (P_TRANSLATE_CTRL p)) \<Rightarrow> validate_translate_ctrl p
           | (VW_MSG_MODEL_CTRL, Some (P_MODEL_CTRL p)) \<Rightarrow>
               \<not> (mc_action p \<noteq> 1 \<and> mc_action p \<noteq> 2)
           | (VW_MSG_MODEL_PROGRESS, Some (P_MODEL_PROGRESS p)) \<Rightarrow> validate_model_progress p
           | _ \<Rightarrow> False))"

section \<open>Language tags\<close>

text \<open>The accepted tags: a primary subtag of two or three letters and at most one further
  subtag of two to eight letters.\<close>

definition language_tag :: "bytes \<Rightarrow> bool" where
  "language_tag s \<longleftrightarrow> (\<exists>p. list_all ascii_alpha p \<and> length p \<in> {2, 3} \<and>
     (s = p \<or> (\<exists>q. s = p @ 0x2D # q \<and> list_all ascii_alpha q \<and> length q \<in> {2..8})))"

lemma ascii_alpha_not_dash: "ascii_alpha c \<Longrightarrow> c \<noteq> 0x2D"
  by (auto simp: ascii_alpha_def)

lemma takeWhile_primary:
  "list_all ascii_alpha p \<Longrightarrow> takeWhile (\<lambda>c. c \<noteq> 0x2D) (p @ 0x2D # q) = p"
  "list_all ascii_alpha p \<Longrightarrow> takeWhile (\<lambda>c. c \<noteq> 0x2D) p = p"
  by (induction p) (auto dest: ascii_alpha_not_dash)

lemma language_tag_split:
  "language_tag s \<longleftrightarrow>
    (let p = takeWhile (\<lambda>c. c \<noteq> 0x2D) s in list_all ascii_alpha p \<and> length p \<in> {2, 3} \<and>
      (length p = length s \<or>
        (length s - length p - 1 \<in> {2..8} \<and> list_all ascii_alpha (drop (length p + 1) s))))"
  (is "_ \<longleftrightarrow> (let p = ?tw in ?R p)")
proof -
  have "?R (takeWhile (\<lambda>c. c \<noteq> 0x2D) s)" if "language_tag s"
    using that unfolding language_tag_def
    by (elim exE conjE disjE) (simp_all add: takeWhile_primary)
  moreover have "language_tag s" if R: "?R (takeWhile (\<lambda>c. c \<noteq> 0x2D) s)"
  proof (cases "length ?tw = length s")
    case True
    then have "?tw = s"
      by (metis takeWhile_eq_take take_all order_refl)
    with R show ?thesis unfolding language_tag_def by metis
  next
    case False
    then have lt: "length ?tw < length s"
      by (meson length_takeWhile_le order_le_neq_trans)
    have "s = ?tw @ drop (length ?tw) s"
      by (metis append_take_drop_id takeWhile_eq_take)
    moreover have "drop (length ?tw) s = s ! length ?tw # drop (length ?tw + 1) s"
      using lt by (simp add: Cons_nth_drop_Suc)
    moreover have "s ! length ?tw = 0x2D"
      using nth_length_takeWhile[OF lt] by simp
    ultimately have "s = ?tw @ 0x2D # drop (length ?tw + 1) s" by simp
    moreover have "length (drop (length ?tw + 1) s) \<in> {2..8}"
      using R False by simp
    ultimately show ?thesis
      using R False unfolding language_tag_def by blast
  qed
  ultimately show ?thesis unfolding Let_def by blast
qed

lemma language_tag_short: "language_tag s \<Longrightarrow> 0 < length s \<and> length s \<le> 12"
  unfolding language_tag_def by auto

text \<open>The nest of early returns as one condition.\<close>

lemma language_branches:
  "(if n = 0 \<or> n \<ge> 16 then False else if A then True else if \<not> P then False
    else if k < 2 \<or> k > 3 then False else if k = n then True
    else if m < 2 \<or> m > 8 then False else Q) \<longleftrightarrow>
   n \<noteq> 0 \<and> n < 16 \<and> (A \<or> P \<and> k \<in> {2, 3} \<and> (k = n \<or> m \<in> {2..8} \<and> Q))"
  for k m n :: nat
proof -
  have "(k < 2 \<or> k > 3) \<longleftrightarrow> k \<notin> {2, 3}" by auto
  moreover have "(m < 2 \<or> m > 8) \<longleftrightarrow> m \<notin> {2..8}" by auto
  ultimately show ?thesis by auto
qed

lemma is_valid_language_code_iff:
  "is_valid_language_code code allow_auto \<longleftrightarrow>
    (let s = take (strnlen code 16) code in
     strnlen code 16 < 16 \<and> (allow_auto \<and> s = str_auto \<or> language_tag s))"
proof -
  define s where "s = take (strnlen code 16) code"
  have len: "length s = strnlen code 16"
    using strnlen_le_length[of code 16] by (simp add: s_def)
  have "length str_auto = 4" by (simp add: str_auto_def)
  with len language_tag_short[of s] have pos: "s = str_auto \<or> language_tag s \<Longrightarrow> 0 < strnlen code 16"
    by auto
  have "is_valid_language_code code allow_auto \<longleftrightarrow>
      strnlen code 16 \<noteq> 0 \<and> strnlen code 16 < 16 \<and> (allow_auto \<and> s = str_auto \<or> language_tag s)"
    unfolding is_valid_language_code_def language_tag_split Let_def s_def [symmetric]
      len language_branches ..
  with pos show ?thesis unfolding Let_def s_def [symmetric] by auto
qed

text \<open>
  Property.  A language field is accepted exactly when its 16 bytes hold, in front of a
  terminating NUL, a tag of the grammar above, or the word \<open>auto\<close> where that is allowed.
\<close>
theorem is_valid_language_code_correct:
  "is_valid_language_code code allow_auto \<longleftrightarrow>
    (\<exists>s. 0 \<notin> set s \<and> take (length s) code = s \<and> length s < 16 \<and> strnlen code 16 = length s
      \<and> (allow_auto \<and> s = str_auto \<or> language_tag s))"
proof -
  define s where "s = take (strnlen code 16) code"
  have "length s = strnlen code 16" "0 \<notin> set s"
    using strnlen_le_length[of code 16] take_strnlen_nonzero[of code 16] by (simp_all add: s_def)
  moreover have "t = s" if "take (length t) code = t" "strnlen code 16 = length t" for t
    using that by (simp add: s_def)
  ultimately show ?thesis
    unfolding is_valid_language_code_iff Let_def s_def [symmetric] by (metis s_def)
qed

section \<open>Audio messages\<close>

lemma validate_audio_iff:
  "validate_audio p \<longleftrightarrow>
    0 < au_duration_us p \<and> au_duration_us p \<le> 30000000 \<and> even (unat (au_pcm_bytes p))
    \<and> \<bar>int (unat (au_pcm_bytes p)) - au_duration_us p * 32 div 1000\<bar> \<le> 1
    \<and> \<not> (au_pcm_bytes p > 0 \<and> au_pcm_data p = None)"
proof (cases "0 < au_duration_us p \<and> au_duration_us p \<le> 30000000")
  case False
  then show ?thesis by (auto simp: validate_audio_def)
next
  case True
  define e where "e = au_duration_us p * 32 div 1000"
  define n where "n = unat (au_pcm_bytes p)"
  have e: "0 \<le> e" "e \<le> 960000" using True by (auto simp: e_def)
  have n: "n < 4294967296" using unsigned_less[of "au_pcm_bytes p"] by (simp add: n_def)
  have ew: "unat (word_of_int e :: u32) = nat e"
    using e by (simp add: unsigned_of_int take_bit_int_eq_self flip: take_bit_nat_eq) 
  have even: "au_pcm_bytes p mod 2 = 0 \<longleftrightarrow> even n"
    by (simp add: n_def word_unat_eq_iff unat_mod even_iff_mod_2_eq_zero)
  have up: "unat (word_of_int e + 1 :: u32) = nat e + 1"
    using e ew by (simp add: unat_word_ariths)
  have lo: "unat (au_pcm_bytes p + 1) = n + 1" if "even n"
  proof -
    have "n \<noteq> 4294967295" using that by auto
    with n show ?thesis by (simp add: unat_word_ariths n_def [symmetric])
  qed
  show ?thesis
    using True e even lo
    by (auto simp: validate_audio_def Let_def e_def [symmetric] n_def [symmetric]
        word_less_nat_alt up ew split: if_splits)
qed

lemma validate_audio_bytes:
  assumes "validate_audio p"
  shows "unat (au_pcm_bytes p) \<le> 960001"
proof -
  have "\<bar>int (unat (au_pcm_bytes p)) - au_duration_us p * 32 div 1000\<bar> \<le> 1"
    "au_duration_us p \<le> 30000000"
    using assms unfolding validate_audio_iff by blast+
  then show ?thesis by linarith
qed

text \<open>
  Property.  An accepted audio message carries whole samples, at most 30 s of them, and
  its byte count agrees with its duration to within one 16-bit sample of 16 kHz audio
  (62.5 us), so it fits a frame.
\<close>
theorem validate_audio_consistent:
  assumes "validate_audio p"
  shows "even (unat (au_pcm_bytes p))
    \<and> \<bar>int (unat (au_pcm_bytes p)) * 1000 - au_duration_us p * 32\<bar> < 2000
    \<and> unat (au_pcm_bytes p) \<le> 960000
    \<and> unat (au_pcm_bytes p) + 36 \<le> VW_MAX_PAYLOAD_BYTES"
proof -
  define n where "n = int (unat (au_pcm_bytes p))"
  have d: "0 < au_duration_us p" "au_duration_us p \<le> 30000000" "even n"
    "\<bar>n - au_duration_us p * 32 div 1000\<bar> \<le> 1"
    using assms unfolding validate_audio_iff n_def even_of_nat by blast+
  then have "\<bar>n * 1000 - au_duration_us p * 32\<bar> < 2000" "n \<le> 960001" by linarith+
  moreover from this d(3) have "n \<le> 960000" by (cases "n = 960001") auto
  ultimately show ?thesis
    using d(3) unfolding n_def vw_limits even_of_nat by linarith
qed

theorem validate_audio_consistent_witness:
  "validate_audio \<lparr>au_session_id = replicate 16 0, au_start_pts_us = 0, au_duration_us = 62,
      au_pcm_bytes = 2, au_pcm_data = Some [1, 2]\<rparr>
   \<and> \<bar>int (unat (2 :: u32)) * 1000 - 62 * 32\<bar> < 2000"
proof -
  have v: "validate_audio \<lparr>au_session_id = replicate 16 0, au_start_pts_us = 0, au_duration_us = 62,
      au_pcm_bytes = 2, au_pcm_data = Some [1, 2]\<rparr>"
    by (simp add: validate_audio_def)
  with validate_audio_consistent[OF v] show ?thesis by simp
qed

end
