(* ===== verification/VW_Codec.thy ===== *)
theory VW_Codec
  imports VW_Validate
begin

text \<open>
  \<^verbatim>\<open>protocol/src/vw_protocol_codec.c\<close>: the wire format.  Encoding appends to the bytes
  written so far and fails when the caller's buffer is too small (\<^verbatim>\<open>ENC_FIELD\<close>,
  \<^verbatim>\<open>ENC_BYTES\<close>); the result is the written prefix of the buffer (\<^verbatim>\<open>*out_written\<close> is its
  length), \<open>None\<close> is \<^verbatim>\<open>return false\<close>.  Decoding consumes the remaining bytes
  (\<^verbatim>\<open>DEC_FIELD\<close>, \<^verbatim>\<open>DEC_BYTES\<close>, \<^verbatim>\<open>DEC_PTR\<close>): \<^verbatim>\<open>read_pos\<close> is the length consumed, so
  \<^verbatim>\<open>read_pos < buffer_size\<close> says that some bytes remain.  Multi-byte scalars are copied with
  \<^verbatim>\<open>memcpy\<close> on a little-endian host.
\<close>

section \<open>The macros\<close>

definition ENC_BYTES :: "nat \<Rightarrow> bytes \<Rightarrow> bytes \<Rightarrow> bytes option" where
  "ENC_BYTES buffer_size bs written =
     (if length written + length bs > buffer_size then None else Some (written @ bs))"

definition DEC_BYTES :: "nat \<Rightarrow> bytes \<Rightarrow> (bytes \<times> bytes) option" where
  "DEC_BYTES len rest = (if len > length rest then None else Some (take len rest, drop len rest))"

definition DEC_FIELD :: "nat \<Rightarrow> (bytes \<Rightarrow> 'a) \<Rightarrow> bytes \<Rightarrow> ('a \<times> bytes) option" where
  "DEC_FIELD n dec rest = do { (bs, rest') \<leftarrow> DEC_BYTES n rest; Some (dec bs, rest') }"

text \<open>A sequence of \<^verbatim>\<open>ENC_\<close> steps.\<close>

fun enc_all :: "nat \<Rightarrow> bytes list \<Rightarrow> bytes \<Rightarrow> bytes option" where
  "enc_all sz [] w = Some w"
| "enc_all sz (bs # bss) w = do { w' \<leftarrow> ENC_BYTES sz bs w; enc_all sz bss w' }"

section \<open>Header\<close>

definition header_image :: "vw_frame_header \<Rightarrow> bytes" where
  "header_image h = enc_u32 (fh_magic h) @ enc_u16 (fh_major h) @ enc_u16 (fh_type h)
     @ enc_u32 (fh_payload_length h) @ enc_u64 (fh_sequence h)"

definition header_of_image :: "bytes \<Rightarrow> vw_frame_header" where
  "header_of_image b = \<lparr>
     fh_magic = dec_u32 (take 4 b),
     fh_major = dec_u16 (take 2 (drop 4 b)),
     fh_type = dec_u16 (take 2 (drop 6 b)),
     fh_payload_length = dec_u32 (take 4 (drop 8 b)),
     fh_sequence = dec_u64 (take 8 (drop 12 b))\<rparr>"

definition vw_protocol_encode_header :: "vw_frame_header option \<Rightarrow> nat \<Rightarrow> bytes option" where
  "vw_protocol_encode_header header buffer_size =
     (case header of None \<Rightarrow> None
      | Some h \<Rightarrow> if buffer_size < 20 then None else Some (header_image h))"

definition vw_protocol_decode_header :: "bytes \<Rightarrow> vw_frame_header option" where
  "vw_protocol_decode_header buffer =
     (if length buffer < 20 then None
      else let h = header_of_image (take 20 buffer)
           in if vw_protocol_validate_header (Some h) then Some h else None)"

section \<open>Payload encoders\<close>

definition encode_hello :: "nat \<Rightarrow> vw_msg_hello \<Rightarrow> bytes option" where
  "encode_hello sz p =
     (if he_client_version_length p > 0 \<and> he_client_version p = None then None
      else enc_all sz [enc_u16 (he_min_major p), enc_u16 (he_max_major p), he_auth_token p,
        enc_u16 (he_client_version_length p),
        ptr_bytes (he_client_version p) (unat (he_client_version_length p))] [])"

definition encode_hello_ack :: "nat \<Rightarrow> vw_msg_hello_ack \<Rightarrow> bytes option" where
  "encode_hello_ack sz p =
     (if ha_worker_version_length p > 0 \<and> ha_worker_version p = None then None
      else enc_all sz [enc_u16 (ha_selected_major p), enc_u16 (ha_selected_minor p),
        enc_u32 (ha_capability_flags p), enc_u16 (ha_worker_version_length p),
        ptr_bytes (ha_worker_version p) (unat (ha_worker_version_length p))] [])"

definition encode_start :: "nat \<Rightarrow> vw_msg_start \<Rightarrow> bytes option" where
  "encode_start sz p =
     (let n1 = strnlen (st_model_id p) VW_MAX_MODEL_ID_BYTES;
          model_id_len = (if n1 \<ge> VW_MAX_MODEL_ID_BYTES then VW_MAX_MODEL_ID_BYTES - 1 else n1);
          n2 = strnlen (st_language p) 16;
          lang_len = (if n2 \<ge> 16 then 15 else n2);
          n3 = (if st_source_url_len p > 0 then unat (st_source_url_len p)
                else strnlen (st_source_url p) VW_MAX_SOURCE_URL_BYTES);
          url_len = (if n3 \<ge> VW_MAX_SOURCE_URL_BYTES then VW_MAX_SOURCE_URL_BYTES - 1 else n3)
      in enc_all sz ([st_session_id p, enc_i64 (st_timeline_origin_pts_us p),
           enc_u32 (st_sample_rate p), enc_u16 (st_channels p), enc_u16 (st_sample_format p),
           enc_u16 (of_nat model_id_len), take model_id_len (st_model_id p),
           enc_u16 (of_nat lang_len), take lang_len (st_language p),
           enc_u16 (st_source_kind p), enc_u16 (of_nat url_len)]
           @ (if url_len > 0 then [take url_len (st_source_url p)] else [])) [])"

definition encode_position :: "nat \<Rightarrow> vw_msg_position \<Rightarrow> bytes option" where
  "encode_position sz p =
     enc_all sz [po_session_id p, enc_i64 (po_current_pts_us p), enc_i64 (po_input_time_us p),
       enc_u32 (po_playback_rate p), enc_u32 (po_flags p)] []"

definition encode_audio :: "nat \<Rightarrow> vw_msg_audio \<Rightarrow> bytes option" where
  "encode_audio sz p =
     (if au_pcm_bytes p > 0 \<and> au_pcm_data p = None then None
      else enc_all sz [au_session_id p, enc_i64 (au_start_pts_us p), enc_i64 (au_duration_us p),
        enc_u32 (au_pcm_bytes p), ptr_bytes (au_pcm_data p) (unat (au_pcm_bytes p))] [])"

definition encode_control :: "nat \<Rightarrow> vw_msg_control \<Rightarrow> bytes option" where
  "encode_control sz p = enc_all sz [ct_session_id p, enc_u16 (ct_reason p)] []"

definition encode_caption :: "nat \<Rightarrow> vw_caption_segment \<Rightarrow> bytes option" where
  "encode_caption sz p =
     (if cs_text_bytes p > 0 \<and> cs_text_utf8 p = None then None
      else do {
        w \<leftarrow> enc_all sz [cs_session_id p, enc_u64 (cs_segment_id p), enc_i64 (cs_start_pts_us p),
          enc_i64 (cs_end_pts_us p), enc_bool (cs_is_final p), enc_u16 (cs_text_bytes p),
          ptr_bytes (cs_text_utf8 p) (unat (cs_text_bytes p))] [];
        if cs_translated_text_bytes p > 0 \<and> cs_translated_text_utf8 p = None then None
        else if cs_translation_attempted p \<or> cs_translated_text_bytes p > 0 then
          enc_all sz [enc_u16 (cs_translated_text_bytes p),
            ptr_bytes (cs_translated_text_utf8 p) (unat (cs_translated_text_bytes p)),
            enc_u32 (cs_translation_latency_us p), enc_u8 (cs_translation_tier p)] w
        else Some w
      })"

definition encode_translate_ctrl :: "nat \<Rightarrow> vw_msg_translate_ctrl \<Rightarrow> bytes option" where
  "encode_translate_ctrl sz p =
     enc_all sz [tc_session_id p, enc_u8 (tc_enabled p), take 16 (tc_source_lang p),
       take 16 (tc_target_lang p), enc_u8 (tc_mode p)] []"

definition encode_status :: "nat \<Rightarrow> vw_msg_status \<Rightarrow> bytes option" where
  "encode_status sz p =
     enc_all sz [ss_session_id p, enc_u32 (ss_state p), enc_i64 (ss_queued_audio_us p),
       enc_i64 (ss_inference_us p), enc_i64 (ss_dropped_audio_us p),
       take 16 (ss_resolved_backend p)] []"

definition encode_model_ctrl :: "nat \<Rightarrow> vw_msg_model_ctrl \<Rightarrow> bytes option" where
  "encode_model_ctrl sz p =
     enc_all sz [mc_session_id p, enc_u8 (mc_action p), take 32 (mc_model_id p)] []"

definition encode_model_progress :: "nat \<Rightarrow> vw_msg_model_progress \<Rightarrow> bytes option" where
  "encode_model_progress sz p =
     enc_all sz [mp_session_id p, enc_u8 (mp_stage p), enc_u8 (mp_pct p), enc_u64 (mp_bytes_done p),
       enc_u64 (mp_bytes_total p), take 32 (mp_model_id p)] []"

definition encode_error :: "nat \<Rightarrow> vw_msg_error \<Rightarrow> bytes option" where
  "encode_error sz p = do {
     w \<leftarrow> enc_all sz [er_session_id p, enc_u32 (er_error_code p), enc_u8 (er_recoverable p)] [];
     if strnlen (er_message p) VW_MAX_ERROR_MSG_BYTES \<ge> VW_MAX_ERROR_MSG_BYTES then None
     else enc_all sz [take VW_MAX_ERROR_MSG_BYTES (er_message p)] w
   }"

definition encode_started :: "nat \<Rightarrow> vw_msg_started \<Rightarrow> bytes option" where
  "encode_started sz p = enc_all sz [sd_session_id p, enc_u8 (sd_source_active p)] []"

definition vw_protocol_encode_payload :: "u16 \<Rightarrow> vw_payload option \<Rightarrow> nat \<Rightarrow> bytes option" where
  "vw_protocol_encode_payload type payload buffer_size =
     (case msg_type_of type of
        None \<Rightarrow> None
      | Some t \<Rightarrow>
          (case (t, payload) of
             (VW_MSG_SHUTDOWN, _) \<Rightarrow> Some []
           | (_, None) \<Rightarrow> None
           | (VW_MSG_HELLO, Some (P_HELLO p)) \<Rightarrow> encode_hello buffer_size p
           | (VW_MSG_HELLO_ACK, Some (P_HELLO_ACK p)) \<Rightarrow> encode_hello_ack buffer_size p
           | (VW_MSG_START_SESSION, Some (P_START p)) \<Rightarrow> encode_start buffer_size p
           | (VW_MSG_POSITION, Some (P_POSITION p)) \<Rightarrow> encode_position buffer_size p
           | (VW_MSG_AUDIO_PCM, Some (P_AUDIO p)) \<Rightarrow> encode_audio buffer_size p
           | (VW_MSG_PAUSE, Some (P_CONTROL p)) \<Rightarrow> encode_control buffer_size p
           | (VW_MSG_RESUME, Some (P_CONTROL p)) \<Rightarrow> encode_control buffer_size p
           | (VW_MSG_STOP_SESSION, Some (P_CONTROL p)) \<Rightarrow> encode_control buffer_size p
           | (VW_MSG_CAPTION_SEGMENT, Some (P_CAPTION p)) \<Rightarrow> encode_caption buffer_size p
           | (VW_MSG_TRANSLATE_CTRL, Some (P_TRANSLATE_CTRL p)) \<Rightarrow> encode_translate_ctrl buffer_size p
           | (VW_MSG_STATUS, Some (P_STATUS p)) \<Rightarrow> encode_status buffer_size p
           | (VW_MSG_MODEL_CTRL, Some (P_MODEL_CTRL p)) \<Rightarrow> encode_model_ctrl buffer_size p
           | (VW_MSG_MODEL_PROGRESS, Some (P_MODEL_PROGRESS p)) \<Rightarrow> encode_model_progress buffer_size p
           | (VW_MSG_ERROR, Some (P_ERROR p)) \<Rightarrow> encode_error buffer_size p
           | (VW_MSG_STARTED, Some (P_STARTED p)) \<Rightarrow> encode_started buffer_size p
           | _ \<Rightarrow> None))"

section \<open>Payload decoders\<close>

definition decode_hello :: "bytes \<Rightarrow> (vw_msg_hello \<times> bytes) option" where
  "decode_hello b = do {
     (mn, b) \<leftarrow> DEC_FIELD 2 dec_u16 b;
     (mx, b) \<leftarrow> DEC_FIELD 2 dec_u16 b;
     (tok, b) \<leftarrow> DEC_BYTES VW_AUTH_TOKEN_BYTES b;
     (len, b) \<leftarrow> DEC_FIELD 2 dec_u16 b;
     (ver, b) \<leftarrow> DEC_BYTES (unat len) b;
     Some (\<lparr>he_min_major = mn, he_max_major = mx, he_auth_token = tok,
       he_client_version_length = len, he_client_version = Some ver\<rparr>, b)
   }"

definition decode_hello_ack :: "bytes \<Rightarrow> (vw_msg_hello_ack \<times> bytes) option" where
  "decode_hello_ack b = do {
     (mj, b) \<leftarrow> DEC_FIELD 2 dec_u16 b;
     (mi, b) \<leftarrow> DEC_FIELD 2 dec_u16 b;
     (fl, b) \<leftarrow> DEC_FIELD 4 dec_u32 b;
     (len, b) \<leftarrow> DEC_FIELD 2 dec_u16 b;
     (ver, b) \<leftarrow> DEC_BYTES (unat len) b;
     Some (\<lparr>ha_selected_major = mj, ha_selected_minor = mi, ha_capability_flags = fl,
       ha_worker_version_length = len, ha_worker_version = Some ver\<rparr>, b)
   }"

text \<open>The struct is zeroed first, so a decoded string is NUL-padded to its array.\<close>

definition decode_start :: "bytes \<Rightarrow> (vw_msg_start \<times> bytes) option" where
  "decode_start b = do {
     (sid, b) \<leftarrow> DEC_BYTES VW_SESSION_ID_BYTES b;
     (org, b) \<leftarrow> DEC_FIELD 8 dec_i64 b;
     (rate, b) \<leftarrow> DEC_FIELD 4 dec_u32 b;
     (ch, b) \<leftarrow> DEC_FIELD 2 dec_u16 b;
     (fmt, b) \<leftarrow> DEC_FIELD 2 dec_u16 b;
     (mlen, b) \<leftarrow> DEC_FIELD 2 dec_u16 b;
     if unat mlen \<ge> VW_MAX_MODEL_ID_BYTES then None else do {
     (model, b) \<leftarrow> DEC_BYTES (unat mlen) b;
     (llen, b) \<leftarrow> DEC_FIELD 2 dec_u16 b;
     if unat llen \<ge> 16 then None else do {
     (lang, b) \<leftarrow> DEC_BYTES (unat llen) b;
     (kind, b) \<leftarrow> DEC_FIELD 2 dec_u16 b;
     let p = \<lparr>st_session_id = sid, st_timeline_origin_pts_us = org, st_sample_rate = rate,
       st_channels = ch, st_sample_format = fmt, st_model_id = nul_pad VW_MAX_MODEL_ID_BYTES model,
       st_language = nul_pad 16 lang, st_source_kind = kind, st_source_url_len = 0,
       st_source_url = nul_pad VW_MAX_SOURCE_URL_BYTES []\<rparr>;
     if b \<noteq> [] then do {
       (ulen, b) \<leftarrow> DEC_FIELD 2 dec_u16 b;
       if unat ulen \<ge> VW_MAX_SOURCE_URL_BYTES then None else do {
       (url, b) \<leftarrow> DEC_BYTES (unat ulen) b;
       Some (p\<lparr>st_source_url_len := ulen, st_source_url := nul_pad VW_MAX_SOURCE_URL_BYTES url\<rparr>, b)
       }
     } else Some (p, b)
     }}
   }"

definition decode_position :: "bytes \<Rightarrow> (vw_msg_position \<times> bytes) option" where
  "decode_position b = do {
     (sid, b) \<leftarrow> DEC_BYTES VW_SESSION_ID_BYTES b;
     (cur, b) \<leftarrow> DEC_FIELD 8 dec_i64 b;
     (inp, b) \<leftarrow> DEC_FIELD 8 dec_i64 b;
     (rate, b) \<leftarrow> DEC_FIELD 4 dec_u32 b;
     (fl, b) \<leftarrow> DEC_FIELD 4 dec_u32 b;
     Some (\<lparr>po_session_id = sid, po_current_pts_us = cur, po_input_time_us = inp,
       po_playback_rate = rate, po_flags = fl\<rparr>, b)
   }"

definition decode_audio :: "bytes \<Rightarrow> (vw_msg_audio \<times> bytes) option" where
  "decode_audio b = do {
     (sid, b) \<leftarrow> DEC_BYTES VW_SESSION_ID_BYTES b;
     (start, b) \<leftarrow> DEC_FIELD 8 dec_i64 b;
     (dur, b) \<leftarrow> DEC_FIELD 8 dec_i64 b;
     (len, b) \<leftarrow> DEC_FIELD 4 dec_u32 b;
     (pcm, b) \<leftarrow> DEC_BYTES (unat len) b;
     Some (\<lparr>au_session_id = sid, au_start_pts_us = start, au_duration_us = dur,
       au_pcm_bytes = len, au_pcm_data = Some pcm\<rparr>, b)
   }"

definition decode_control :: "bytes \<Rightarrow> (vw_msg_control \<times> bytes) option" where
  "decode_control b = do {
     (sid, b) \<leftarrow> DEC_BYTES VW_SESSION_ID_BYTES b;
     (r, b) \<leftarrow> DEC_FIELD 2 dec_u16 b;
     Some (\<lparr>ct_session_id = sid, ct_reason = r\<rparr>, b)
   }"

definition decode_caption :: "bytes \<Rightarrow> (vw_caption_segment \<times> bytes) option" where
  "decode_caption b = do {
     (sid, b) \<leftarrow> DEC_BYTES VW_SESSION_ID_BYTES b;
     (seg, b) \<leftarrow> DEC_FIELD 8 dec_u64 b;
     (start, b) \<leftarrow> DEC_FIELD 8 dec_i64 b;
     (stop, b) \<leftarrow> DEC_FIELD 8 dec_i64 b;
     (fin, b) \<leftarrow> DEC_FIELD 1 dec_bool b;
     (len, b) \<leftarrow> DEC_FIELD 2 dec_u16 b;
     (text, b) \<leftarrow> DEC_BYTES (unat len) b;
     let p = \<lparr>cs_session_id = sid, cs_segment_id = seg, cs_start_pts_us = start, cs_end_pts_us = stop,
       cs_is_final = fin, cs_text_utf8 = Some text, cs_text_bytes = len,
       cs_translated_text_utf8 = None, cs_translated_text_bytes = 0,
       cs_translation_attempted = False, cs_translation_latency_us = 0, cs_translation_tier = 0\<rparr>;
     if b \<noteq> [] then
       if length b < 7 then None else do {
       (tlen, b) \<leftarrow> DEC_FIELD 2 dec_u16 b;
       (trans, b) \<leftarrow> (if tlen > 0 then do { (t, b) \<leftarrow> DEC_BYTES (unat tlen) b; Some (Some t, b) }
                    else Some (None, b));
       if length b \<noteq> 5 then None else do {
       (lat, b) \<leftarrow> DEC_FIELD 4 dec_u32 b;
       (tier, b) \<leftarrow> DEC_FIELD 1 dec_u8 b;
       Some (p\<lparr>cs_translated_text_utf8 := trans, cs_translated_text_bytes := tlen,
         cs_translation_attempted := True, cs_translation_latency_us := lat,
         cs_translation_tier := tier\<rparr>, b)
       }}
     else Some (p, b)
   }"

definition decode_translate_ctrl :: "bytes \<Rightarrow> (vw_msg_translate_ctrl \<times> bytes) option" where
  "decode_translate_ctrl b =
     (if length b \<noteq> VW_MSG_TRANSLATE_CTRL_PAYLOAD_BYTES then None else do {
     (sid, b) \<leftarrow> DEC_BYTES VW_SESSION_ID_BYTES b;
     (en, b) \<leftarrow> DEC_FIELD 1 dec_u8 b;
     (src, b) \<leftarrow> DEC_BYTES 16 b;
     (tgt, b) \<leftarrow> DEC_BYTES 16 b;
     (mode, b) \<leftarrow> DEC_FIELD 1 dec_u8 b;
     Some (\<lparr>tc_session_id = sid, tc_enabled = en, tc_source_lang = src[15 := 0],
       tc_target_lang = tgt[15 := 0], tc_mode = mode\<rparr>, b)
   })"

definition decode_status :: "bytes \<Rightarrow> (vw_msg_status \<times> bytes) option" where
  "decode_status buf =
     (if length buf \<ge> 60 then do {
        (sid, b) \<leftarrow> DEC_BYTES VW_SESSION_ID_BYTES buf;
        (st, b) \<leftarrow> DEC_FIELD 4 dec_u32 b;
        (q, b) \<leftarrow> DEC_FIELD 8 dec_i64 b;
        (i, b) \<leftarrow> DEC_FIELD 8 dec_i64 b;
        (d, b) \<leftarrow> DEC_FIELD 8 dec_i64 b;
        (be, b) \<leftarrow> DEC_BYTES 16 b;
        Some (\<lparr>ss_session_id = sid, ss_state = st, ss_queued_audio_us = q, ss_inference_us = i,
          ss_dropped_audio_us = d, ss_resolved_backend = be[15 := 0]\<rparr>, b)
      } else if length buf < 44 then None else do {
        (sid, b) \<leftarrow> DEC_BYTES VW_SESSION_ID_BYTES buf;
        (st, b) \<leftarrow> DEC_FIELD 4 dec_u32 b;
        (q, b) \<leftarrow> DEC_FIELD 8 dec_i64 b;
        (i, b) \<leftarrow> DEC_FIELD 8 dec_i64 b;
        (d, b) \<leftarrow> DEC_FIELD 8 dec_i64 b;
        Some (\<lparr>ss_session_id = sid, ss_state = st, ss_queued_audio_us = q, ss_inference_us = i,
          ss_dropped_audio_us = d, ss_resolved_backend = nul_pad 16 []\<rparr>, b)
      })"

definition decode_model_ctrl :: "bytes \<Rightarrow> (vw_msg_model_ctrl \<times> bytes) option" where
  "decode_model_ctrl b =
     (if length b \<noteq> VW_MSG_MODEL_CTRL_PAYLOAD_BYTES then None else do {
     (sid, b) \<leftarrow> DEC_BYTES VW_SESSION_ID_BYTES b;
     (act, b) \<leftarrow> DEC_FIELD 1 dec_u8 b;
     (mid, b) \<leftarrow> DEC_BYTES 32 b;
     Some (\<lparr>mc_session_id = sid, mc_action = act, mc_model_id = mid[31 := 0]\<rparr>, b)
   })"

definition decode_model_progress :: "bytes \<Rightarrow> (vw_msg_model_progress \<times> bytes) option" where
  "decode_model_progress b =
     (if length b \<noteq> VW_MSG_MODEL_PROGRESS_PAYLOAD_BYTES then None else do {
     (sid, b) \<leftarrow> DEC_BYTES VW_SESSION_ID_BYTES b;
     (stage, b) \<leftarrow> DEC_FIELD 1 dec_u8 b;
     (pct, b) \<leftarrow> DEC_FIELD 1 dec_u8 b;
     (done, b) \<leftarrow> DEC_FIELD 8 dec_u64 b;
     (total, b) \<leftarrow> DEC_FIELD 8 dec_u64 b;
     (mid, b) \<leftarrow> DEC_BYTES 32 b;
     Some (\<lparr>mp_session_id = sid, mp_stage = stage, mp_pct = pct, mp_bytes_done = done,
       mp_bytes_total = total, mp_model_id = mid[31 := 0]\<rparr>, b)
   })"

definition decode_error :: "bytes \<Rightarrow> (vw_msg_error \<times> bytes) option" where
  "decode_error b = do {
     (sid, b) \<leftarrow> DEC_BYTES VW_SESSION_ID_BYTES b;
     (code, b) \<leftarrow> DEC_FIELD 4 dec_u32 b;
     (rec, b) \<leftarrow> DEC_FIELD 1 dec_u8 b;
     (msg, b) \<leftarrow> DEC_BYTES VW_MAX_ERROR_MSG_BYTES b;
     Some (\<lparr>er_session_id = sid, er_error_code = code, er_recoverable = rec,
       er_message = (if 0 \<in> set msg then msg else msg[VW_MAX_ERROR_MSG_BYTES - 1 := 0])\<rparr>, b)
   }"

definition decode_started :: "bytes \<Rightarrow> (vw_msg_started \<times> bytes) option" where
  "decode_started buf =
     (if length buf = 1 then do {
        (act, b) \<leftarrow> DEC_FIELD 1 dec_u8 buf;
        Some (\<lparr>sd_session_id = replicate VW_SESSION_ID_BYTES 0, sd_source_active = act\<rparr>, b)
      } else do {
        (sid, b) \<leftarrow> DEC_BYTES VW_SESSION_ID_BYTES buf;
        (act, b) \<leftarrow> DEC_FIELD 1 dec_u8 b;
        Some (\<lparr>sd_session_id = sid, sd_source_active = act\<rparr>, b)
      })"

text \<open>The final \<^verbatim>\<open>if (read_pos != buffer_size) return false\<close>.\<close>

definition finish :: "('a \<Rightarrow> vw_payload) \<Rightarrow> ('a \<times> bytes) option \<Rightarrow> vw_payload option option" where
  "finish con r = (case r of None \<Rightarrow> None
     | Some (p, rest) \<Rightarrow> if rest \<noteq> [] then None else Some (Some (con p)))"

text \<open>
  The outer \<open>option\<close> is the Boolean result; the inner one is the decoded struct, absent for
  the zero-payload \<^verbatim>\<open>VW_MSG_SHUTDOWN\<close>.
\<close>

definition vw_protocol_decode_payload :: "u16 \<Rightarrow> bytes \<Rightarrow> vw_payload option option" where
  "vw_protocol_decode_payload type buf =
     (case msg_type_of type of
        None \<Rightarrow> None
      | Some t \<Rightarrow>
          (case t of
             VW_MSG_HELLO \<Rightarrow> finish P_HELLO (decode_hello buf)
           | VW_MSG_HELLO_ACK \<Rightarrow> finish P_HELLO_ACK (decode_hello_ack buf)
           | VW_MSG_START_SESSION \<Rightarrow> finish P_START (decode_start buf)
           | VW_MSG_POSITION \<Rightarrow> finish P_POSITION (decode_position buf)
           | VW_MSG_AUDIO_PCM \<Rightarrow> finish P_AUDIO (decode_audio buf)
           | VW_MSG_PAUSE \<Rightarrow> finish P_CONTROL (decode_control buf)
           | VW_MSG_RESUME \<Rightarrow> finish P_CONTROL (decode_control buf)
           | VW_MSG_STOP_SESSION \<Rightarrow> finish P_CONTROL (decode_control buf)
           | VW_MSG_CAPTION_SEGMENT \<Rightarrow> finish P_CAPTION (decode_caption buf)
           | VW_MSG_TRANSLATE_CTRL \<Rightarrow> finish P_TRANSLATE_CTRL (decode_translate_ctrl buf)
           | VW_MSG_STATUS \<Rightarrow> finish P_STATUS (decode_status buf)
           | VW_MSG_MODEL_CTRL \<Rightarrow> finish P_MODEL_CTRL (decode_model_ctrl buf)
           | VW_MSG_MODEL_PROGRESS \<Rightarrow> finish P_MODEL_PROGRESS (decode_model_progress buf)
           | VW_MSG_ERROR \<Rightarrow> finish P_ERROR (decode_error buf)
           | VW_MSG_STARTED \<Rightarrow> finish P_STARTED (decode_started buf)
           | VW_MSG_SHUTDOWN \<Rightarrow> if buf \<noteq> [] then None else Some None))"

section \<open>Evaluating the macros\<close>

lemma enc_all_eq:
  "length w \<le> sz \<Longrightarrow> enc_all sz bss w =
    (if length w + length (concat bss) \<le> sz then Some (w @ concat bss) else None)"
  by (induction bss arbitrary: w) (auto simp: ENC_BYTES_def)

lemma enc_all_Some:
  "enc_all sz bss [] = Some bs \<longleftrightarrow> bs = concat bss \<and> length bs \<le> sz"
  by (auto simp: enc_all_eq)

declare enc_all.simps [simp del]

lemma DEC_BYTES_append [codec_simps]: "length bs = n \<Longrightarrow> DEC_BYTES n (bs @ rest) = Some (bs, rest)"
  by (simp add: DEC_BYTES_def)

lemma DEC_BYTES_exact [codec_simps]: "length bs = n \<Longrightarrow> DEC_BYTES n bs = Some (bs, [])"
  by (simp add: DEC_BYTES_def)

lemma DEC_FIELD_append [codec_simps]:
  "DEC_FIELD 1 dec_u8 (enc_u8 a @ rest) = Some (a, rest)"
  "DEC_FIELD (Suc 0) dec_u8 (enc_u8 a @ rest) = Some (a, rest)"
  "DEC_FIELD 1 dec_bool (enc_bool x @ rest) = Some (x, rest)"
  "DEC_FIELD (Suc 0) dec_bool (enc_bool x @ rest) = Some (x, rest)"
  "DEC_FIELD 2 dec_u16 (enc_u16 b @ rest) = Some (b, rest)"
  "DEC_FIELD 4 dec_u32 (enc_u32 c @ rest) = Some (c, rest)"
  "DEC_FIELD 8 dec_u64 (enc_u64 d @ rest) = Some (d, rest)"
  "in_i64 e \<Longrightarrow> DEC_FIELD 8 dec_i64 (enc_i64 e @ rest) = Some (e, rest)"
  by (simp_all add: DEC_FIELD_def DEC_BYTES_append)

lemma DEC_FIELD_exact [codec_simps]:
  "DEC_FIELD (Suc 0) dec_u8 (enc_u8 a) = Some (a, [])"
  "DEC_FIELD 2 dec_u16 (enc_u16 b) = Some (b, [])"
  "DEC_FIELD 4 dec_u32 (enc_u32 c) = Some (c, [])"
  by (simp_all add: DEC_FIELD_def DEC_BYTES_exact)

lemma DEC_BYTES_SomeD: "DEC_BYTES n b = Some (x, b') \<Longrightarrow> length x = n \<and> length b' + n = length b"
  by (auto simp: DEC_BYTES_def split: if_splits)

lemma DEC_FIELD_SomeD:
  "DEC_FIELD n f b = Some (x, b') \<Longrightarrow> (\<exists>y. x = f y \<and> length y = n) \<and> length b' + n = length b"
  by (auto simp: DEC_FIELD_def DEC_BYTES_def split: if_splits)

lemma ptr_bytes_simps [simp]: "ptr_bytes (Some bs) n = take n bs" "ptr_bytes None n = []"
  by (simp_all add: ptr_bytes_def)

section \<open>Canonical payloads\<close>

text \<open>
  The payloads whose in-memory form is determined by their wire form: strings are
  NUL-padded, a pointer covers exactly the announced bytes, and translation fields are
  absent unless a translation was attempted.
\<close>

fun canonical_payload :: "vw_payload \<Rightarrow> bool" where
  "canonical_payload (P_HELLO p) \<longleftrightarrow>
     (\<exists>v. he_client_version p = Some v \<and> length v = unat (he_client_version_length p))"
| "canonical_payload (P_HELLO_ACK p) \<longleftrightarrow>
     (\<exists>v. ha_worker_version p = Some v \<and> length v = unat (ha_worker_version_length p))"
| "canonical_payload (P_START p) \<longleftrightarrow> nul_padded VW_MAX_MODEL_ID_BYTES (st_model_id p)
     \<and> nul_padded 16 (st_language p) \<and> nul_padded VW_MAX_SOURCE_URL_BYTES (st_source_url p)
     \<and> unat (st_source_url_len p) = strnlen (st_source_url p) VW_MAX_SOURCE_URL_BYTES"
| "canonical_payload (P_AUDIO p) \<longleftrightarrow>
     (\<exists>v. au_pcm_data p = Some v \<and> length v = unat (au_pcm_bytes p))"
| "canonical_payload (P_CAPTION p) \<longleftrightarrow>
     (\<exists>v. cs_text_utf8 p = Some v \<and> length v = unat (cs_text_bytes p))
     \<and> (if cs_translated_text_bytes p = 0 then cs_translated_text_utf8 p = None
        else \<exists>v. cs_translated_text_utf8 p = Some v \<and> length v = unat (cs_translated_text_bytes p))
     \<and> (\<not> cs_translation_attempted p \<longrightarrow> cs_translated_text_bytes p = 0
        \<and> cs_translation_latency_us p = 0 \<and> cs_translation_tier p = 0)"
| "canonical_payload (P_TRANSLATE_CTRL p) \<longleftrightarrow> tc_source_lang p ! 15 = 0 \<and> tc_target_lang p ! 15 = 0"
| "canonical_payload (P_STATUS p) \<longleftrightarrow> ss_resolved_backend p ! 15 = 0"
| "canonical_payload (P_MODEL_CTRL p) \<longleftrightarrow> mc_model_id p ! 31 = 0"
| "canonical_payload (P_MODEL_PROGRESS p) \<longleftrightarrow> mp_model_id p ! 31 = 0"
| "canonical_payload _ \<longleftrightarrow> True"

lemma list_update_same [simp]: "xs ! i = x \<Longrightarrow> xs[i := x] = xs"
  by auto

lemma decode_encode_hello:
  assumes "encode_hello sz p = Some bs" "wf_payload (P_HELLO p)" "canonical_payload (P_HELLO p)"
  shows "decode_hello bs = Some (p, [])"
  using assms
  by (auto simp: encode_hello_def decode_hello_def enc_all_Some codec_simps vw_limits split: if_splits)

lemma decode_encode_hello_ack:
  assumes "encode_hello_ack sz p = Some bs" "canonical_payload (P_HELLO_ACK p)"
  shows "decode_hello_ack bs = Some (p, [])"
  using assms
  by (auto simp: encode_hello_ack_def decode_hello_ack_def enc_all_Some codec_simps vw_limits split: if_splits)

lemma decode_encode_position:
  assumes "encode_position sz p = Some bs" "wf_payload (P_POSITION p)"
  shows "decode_position bs = Some (p, [])"
  using assms
  by (auto simp: encode_position_def decode_position_def enc_all_Some codec_simps vw_limits)

lemma decode_encode_audio:
  assumes "encode_audio sz p = Some bs" "wf_payload (P_AUDIO p)" "canonical_payload (P_AUDIO p)"
  shows "decode_audio bs = Some (p, [])"
  using assms
  by (auto simp: encode_audio_def decode_audio_def enc_all_Some codec_simps vw_limits split: if_splits)

lemma decode_encode_control:
  assumes "encode_control sz p = Some bs" "wf_payload (P_CONTROL p)"
  shows "decode_control bs = Some (p, [])"
  using assms
  by (auto simp: encode_control_def decode_control_def enc_all_Some codec_simps vw_limits)

lemma decode_encode_translate_ctrl:
  assumes "encode_translate_ctrl sz p = Some bs" "wf_payload (P_TRANSLATE_CTRL p)"
    "canonical_payload (P_TRANSLATE_CTRL p)"
  shows "decode_translate_ctrl bs = Some (p, [])"
  using assms
  by (auto simp: encode_translate_ctrl_def decode_translate_ctrl_def enc_all_Some codec_simps vw_limits)

lemma decode_encode_status:
  assumes "encode_status sz p = Some bs" "wf_payload (P_STATUS p)" "canonical_payload (P_STATUS p)"
  shows "decode_status bs = Some (p, [])"
  using assms
  by (auto simp: encode_status_def decode_status_def enc_all_Some codec_simps vw_limits)

lemma decode_encode_model_ctrl:
  assumes "encode_model_ctrl sz p = Some bs" "wf_payload (P_MODEL_CTRL p)"
    "canonical_payload (P_MODEL_CTRL p)"
  shows "decode_model_ctrl bs = Some (p, [])"
  using assms
  by (auto simp: encode_model_ctrl_def decode_model_ctrl_def enc_all_Some codec_simps vw_limits)

lemma decode_encode_model_progress:
  assumes "encode_model_progress sz p = Some bs" "wf_payload (P_MODEL_PROGRESS p)"
    "canonical_payload (P_MODEL_PROGRESS p)"
  shows "decode_model_progress bs = Some (p, [])"
  using assms
  by (auto simp: encode_model_progress_def decode_model_progress_def enc_all_Some codec_simps vw_limits)

lemma strnlen_lt_mem: "strnlen s n < n \<Longrightarrow> n \<le> length s \<Longrightarrow> 0 \<in> set (take n s)"
proof (rule ccontr)
  assume *: "strnlen s n < n" "n \<le> length s" "0 \<notin> set (take n s)"
  then have "takeWhile (\<lambda>c. c \<noteq> 0) (take n s) = take n s"
    by (auto simp: takeWhile_eq_all_conv)
  with * show False by (simp add: strnlen_def)
qed

lemma decode_encode_error:
  assumes "encode_error sz p = Some bs" "wf_payload (P_ERROR p)"
  shows "decode_error bs = Some (p, [])"
  using assms strnlen_lt_mem[of "er_message p" 256]
  by (auto simp: encode_error_def decode_error_def enc_all_eq codec_simps vw_limits
      split: if_splits Option.bind_splits)

lemma decode_encode_started:
  assumes "encode_started sz p = Some bs" "wf_payload (P_STARTED p)"
  shows "decode_started bs = Some (p, [])"
  using assms
  by (auto simp: encode_started_def decode_started_def enc_all_Some codec_simps vw_limits)

lemma le_bytes_numeral:
  "le_bytes (numeral k) v = of_nat (v mod 256) # le_bytes (pred_numeral k) (v div 256)"
  by (simp only: numeral_eq_Suc [of k] le_bytes.simps)

lemma of_nat_u16: "n < 65536 \<Longrightarrow> unat (of_nat n :: u16) = n"
  by (simp add: unat_of_nat)

lemma enc_u16_not_Nil [simp]: "enc_u16 x \<noteq> []"
  by (metis length_0_conv length_enc(2) zero_neq_numeral)

lemma decode_encode_start:
  assumes "encode_start sz p = Some bs" "wf_payload (P_START p)" "canonical_payload (P_START p)"
  shows "decode_start bs = Some (p, [])"
proof -
  let ?m = "strnlen (st_model_id p) 64" and ?l = "strnlen (st_language p) 16"
    and ?u = "strnlen (st_source_url p) 1024"
  have pad: "?m < 64" "?l < 16" "?u < 1024"
    "nul_pad 64 (take ?m (st_model_id p)) = st_model_id p"
    "nul_pad 16 (take ?l (st_language p)) = st_language p"
    "nul_pad 1024 (take ?u (st_source_url p)) = st_source_url p"
    and wf: "length (st_session_id p) = 16" "in_i64 (st_timeline_origin_pts_us p)"
    "length (st_model_id p) = 64" "length (st_language p) = 16" "length (st_source_url p) = 1024"
    and ul: "unat (st_source_url_len p) = ?u"
    using assms(2,3) by (simp_all add: nul_padded_def vw_limits)
  have ul': "st_source_url_len p > 0 \<longleftrightarrow> ?u > 0" "st_source_url_len p = of_nat ?u"
    unfolding ul [symmetric] by (simp_all add: word_less_nat_alt)
  have u: "unat (of_nat ?m :: u16) = ?m" "unat (of_nat ?l :: u16) = ?l" "unat (of_nat ?u :: u16) = ?u"
    using pad by (simp_all add: of_nat_u16)
  have bs: "bs = st_session_id p @ enc_i64 (st_timeline_origin_pts_us p) @ enc_u32 (st_sample_rate p)
      @ enc_u16 (st_channels p) @ enc_u16 (st_sample_format p) @ enc_u16 (of_nat ?m)
      @ take ?m (st_model_id p) @ enc_u16 (of_nat ?l) @ take ?l (st_language p)
      @ enc_u16 (st_source_kind p) @ enc_u16 (of_nat ?u) @ take ?u (st_source_url p)"
    using assms(1) pad ul ul'
    by (auto simp: encode_start_def enc_all_Some vw_limits Let_def split: if_splits)
  show ?thesis
    unfolding bs decode_start_def
    using pad wf u by (simp add: codec_simps vw_limits Let_def ul'(2) [symmetric])
qed

lemma decode_encode_caption:
  assumes "encode_caption sz p = Some bs" "wf_payload (P_CAPTION p)" "canonical_payload (P_CAPTION p)"
  shows "decode_caption bs = Some (p, [])"
proof -
  obtain v where v: "cs_text_utf8 p = Some v" "length v = unat (cs_text_bytes p)"
    using assms(3) by auto
  let ?fixed = "cs_session_id p @ enc_u64 (cs_segment_id p) @ enc_i64 (cs_start_pts_us p)
      @ enc_i64 (cs_end_pts_us p) @ enc_bool (cs_is_final p) @ enc_u16 (cs_text_bytes p)"
  have wf: "length (cs_session_id p) = 16" "in_i64 (cs_start_pts_us p)" "in_i64 (cs_end_pts_us p)"
    using assms(2) by (simp_all add: vw_limits)
  show ?thesis
  proof (cases "cs_translation_attempted p")
    case False
    with assms(3) have t: "cs_translated_text_bytes p = 0" "cs_translated_text_utf8 p = None"
      "cs_translation_latency_us p = 0" "cs_translation_tier p = 0" by auto
    have "bs = ?fixed @ v"
      using assms(1) False t v by (auto simp: encode_caption_def enc_all_Some split: if_splits Option.bind_splits)
    with wf v t False show ?thesis
      by (simp add: decode_caption_def codec_simps vw_limits)
  next
    case True
    let ?t = "ptr_bytes (cs_translated_text_utf8 p) (unat (cs_translated_text_bytes p))"
    have "bs = ?fixed @ v @ enc_u16 (cs_translated_text_bytes p) @ ?t
        @ enc_u32 (cs_translation_latency_us p) @ enc_u8 (cs_translation_tier p)"
      using assms(1) True v wf
      by (auto simp: encode_caption_def enc_all_Some enc_all_eq split: if_splits Option.bind_splits)
    then show ?thesis
      using wf v True assms(3)
      by (cases "cs_translated_text_bytes p = 0")
        (auto simp: decode_caption_def codec_simps vw_limits word_neq_0_conv)
  qed
qed

section \<open>Round trip\<close>

lemmas decode_encode_struct =
  decode_encode_hello decode_encode_hello_ack decode_encode_start decode_encode_position
  decode_encode_audio decode_encode_control decode_encode_caption decode_encode_translate_ctrl
  decode_encode_status decode_encode_model_ctrl decode_encode_model_progress decode_encode_error
  decode_encode_started

lemma decode_encode_payload:
  assumes "wf_payload p" "canonical_payload p" "msg_type_of type \<noteq> Some VW_MSG_SHUTDOWN"
    "vw_protocol_encode_payload type (Some p) sz = Some bs"
  shows "vw_protocol_decode_payload type bs = Some (Some p)"
proof -
  obtain t where t: "msg_type_of type = Some t" "t \<noteq> VW_MSG_SHUTDOWN"
    using assms(3,4) by (cases "msg_type_of type") (auto simp: vw_protocol_encode_payload_def)
  then have c: "vw_protocol_encode_payload (msg_code t) (Some p) sz = Some bs"
    using assms(4) msg_type_of_SomeD by blast
  have "vw_protocol_decode_payload (msg_code t) bs = Some (Some p)"
    using c t(2) assms(1,2)
    by (cases t; cases p)
      (simp_all add: vw_protocol_encode_payload_def vw_protocol_decode_payload_def finish_def
        decode_encode_struct del: wf_payload.simps canonical_payload.simps)
  then show ?thesis using t(1) msg_type_of_SomeD by blast
qed

section \<open>Type safety of the decoder\<close>

lemma bind_Some_iff: "Option.bind m f = Some r \<longleftrightarrow> (\<exists>x. m = Some x \<and> f x = Some r)"
  by (cases m) auto

lemmas decode_inv = bind_Some_iff DEC_FIELD_def DEC_BYTES_def vw_limits

lemma decode_struct_wf:
  "decode_hello b = Some (p1, r) \<Longrightarrow> wf_payload (P_HELLO p1)"
  "decode_hello_ack b = Some (p2, r) \<Longrightarrow> wf_payload (P_HELLO_ACK p2)"
  "decode_position b = Some (p4, r) \<Longrightarrow> wf_payload (P_POSITION p4)"
  "decode_audio b = Some (p5, r) \<Longrightarrow> wf_payload (P_AUDIO p5)"
  "decode_control b = Some (p6, r) \<Longrightarrow> wf_payload (P_CONTROL p6)"
  "decode_translate_ctrl b = Some (p8, r) \<Longrightarrow> wf_payload (P_TRANSLATE_CTRL p8)"
  "decode_status b = Some (p9, r) \<Longrightarrow> wf_payload (P_STATUS p9)"
  "decode_model_ctrl b = Some (p10, r) \<Longrightarrow> wf_payload (P_MODEL_CTRL p10)"
  "decode_model_progress b = Some (p11, r) \<Longrightarrow> wf_payload (P_MODEL_PROGRESS p11)"
  "decode_error b = Some (p12, r) \<Longrightarrow> wf_payload (P_ERROR p12)"
  "decode_started b = Some (p13, r) \<Longrightarrow> wf_payload (P_STARTED p13)"
  subgoal by (auto simp: decode_hello_def decode_inv split: if_splits prod.splits)
  subgoal by (auto simp: decode_hello_ack_def decode_inv split: if_splits prod.splits)
  subgoal by (auto simp: decode_position_def decode_inv split: if_splits prod.splits)
  subgoal by (auto simp: decode_audio_def decode_inv split: if_splits prod.splits)
  subgoal by (auto simp: decode_control_def decode_inv split: if_splits prod.splits)
  subgoal by (auto simp: decode_translate_ctrl_def decode_inv split: if_splits prod.splits)
  subgoal by (auto simp: decode_status_def decode_inv split: if_splits prod.splits)
  subgoal by (auto simp: decode_model_ctrl_def decode_inv split: if_splits prod.splits)
  subgoal by (auto simp: decode_model_progress_def decode_inv split: if_splits prod.splits)
  subgoal by (auto simp: decode_error_def decode_inv split: if_splits prod.splits)
  subgoal by (auto simp: decode_started_def decode_inv split: if_splits prod.splits)
  done

lemma DEC_FIELD_i64: "DEC_FIELD n dec_i64 b = Some (x, b') \<Longrightarrow> in_i64 x"
  by (auto dest!: DEC_FIELD_SomeD)

lemma decode_start_wf: "decode_start b = Some (p, r) \<Longrightarrow> wf_payload (P_START p)"
  by (auto simp: decode_start_def bind_Some_iff Let_def vw_limits split: if_splits prod.splits
      dest!: DEC_BYTES_SomeD DEC_FIELD_i64)

lemma decode_caption_wf: "decode_caption b = Some (p, r) \<Longrightarrow> wf_payload (P_CAPTION p)"
  by (auto simp: decode_caption_def bind_Some_iff Let_def vw_limits split: if_splits prod.splits
      dest!: DEC_BYTES_SomeD DEC_FIELD_i64)



text \<open>
  Property C1.  Round trip: a well-formed canonical payload that was encoded for a message
  type decodes, under that type, to exactly the payload that was sent.
\<close>
theorem vw_protocol_payload_roundtrip:
  assumes "wf_payload p" "canonical_payload p" "msg_type_of type \<noteq> Some VW_MSG_SHUTDOWN"
    "vw_protocol_encode_payload type (Some p) sz = Some bs"
  shows "vw_protocol_decode_payload type bs = Some (Some p)"
  using assms by (rule decode_encode_payload)

definition sample_caption :: vw_caption_segment where
  "sample_caption = \<lparr>cs_session_id = replicate 16 9, cs_segment_id = 3, cs_start_pts_us = - 5,
     cs_end_pts_us = 70000, cs_is_final = True, cs_text_utf8 = Some [0x48, 0x69],
     cs_text_bytes = 2, cs_translated_text_utf8 = Some [0x43, 0x69, 0x61, 0x6F],
     cs_translated_text_bytes = 4, cs_translation_attempted = True,
     cs_translation_latency_us = 1200, cs_translation_tier = 1\<rparr>"

definition sample_caption_wire :: bytes where
  "sample_caption_wire = replicate 16 9 @ [3, 0, 0, 0, 0, 0, 0, 0] @ [0xFB, 0xFF, 0xFF, 0xFF, 0xFF, 0xFF, 0xFF, 0xFF]
     @ [0x70, 0x11, 1, 0, 0, 0, 0, 0] @ [1] @ [2, 0] @ [0x48, 0x69] @ [4, 0]
     @ [0x43, 0x69, 0x61, 0x6F] @ [0xB0, 4, 0, 0] @ [1]"

theorem vw_protocol_payload_roundtrip_witness:
  "wf_payload (P_CAPTION sample_caption) \<and> canonical_payload (P_CAPTION sample_caption)
   \<and> msg_type_of 8 \<noteq> Some VW_MSG_SHUTDOWN
   \<and> vw_protocol_encode_payload 8 (Some (P_CAPTION sample_caption)) 64 = Some sample_caption_wire
   \<and> vw_protocol_decode_payload 8 sample_caption_wire = Some (Some (P_CAPTION sample_caption))"
proof -
  have w: "wf_payload (P_CAPTION sample_caption)" "canonical_payload (P_CAPTION sample_caption)"
    by (simp_all add: sample_caption_def vw_limits in_i64_def INT64_MIN_def INT64_MAX_def)
  have t: "msg_type_of 8 \<noteq> Some VW_MSG_SHUTDOWN" by code_simp
  have m: "msg_type_of 8 = Some VW_MSG_CAPTION_SEGMENT" by code_simp
  have "encode_caption 64 sample_caption = Some sample_caption_wire"
    by (simp add: encode_caption_def sample_caption_def sample_caption_wire_def enc_all_eq ENC_BYTES_def
        enc_i64_def enc_u64_def enc_u16_def enc_bool_def enc_u8_def enc_u32_def vw_limits
        le_bytes_numeral ptr_bytes_def unat_word_ariths)
  then have e: "vw_protocol_encode_payload 8 (Some (P_CAPTION sample_caption)) 64 = Some sample_caption_wire"
    by (simp add: vw_protocol_encode_payload_def m)
  from vw_protocol_payload_roundtrip[OF w t e] w t e show ?thesis by blast
qed

section \<open>Header round trip\<close>

lemma length_header_image [simp]: "length (header_image h) = 20"
  by (simp add: header_image_def)

lemma header_of_header_image: "header_of_image (header_image h) = h"
  by (simp add: header_of_image_def header_image_def)

lemma header_image_of_bytes:
  assumes "length b = 20"
  shows "header_image (header_of_image b) = b"
proof -
  have "take 4 b @ take 2 (drop 4 b) @ take 2 (drop 6 b) @ take 4 (drop 8 b) @ take 8 (drop 12 b) = b"
    using assms by (simp add: take_add [symmetric] flip: append_assoc take_add)
  then show ?thesis
    using assms by (simp add: header_image_def header_of_image_def enc_dec)
qed

text \<open>
  Property.  A header is accepted from the wire exactly when it validates and the first 20
  bytes are its image: what one side encodes is what the other side reads, and nothing else
  decodes to it.
\<close>
theorem vw_protocol_header_wire:
  "vw_protocol_decode_header b = Some h \<longleftrightarrow>
    20 \<le> length b \<and> vw_protocol_validate_header (Some h)
    \<and> vw_protocol_encode_header (Some h) 20 = Some (take 20 b)"
proof (cases "20 \<le> length b")
  case True
  then have "header_image (header_of_image (take 20 b)) = take 20 b"
    by (simp add: header_image_of_bytes)
  then have "header_image h = take 20 b \<longleftrightarrow> h = header_of_image (take 20 b)"
    using header_of_header_image by metis
  with True show ?thesis
    by (auto simp: vw_protocol_decode_header_def vw_protocol_encode_header_def Let_def)
next
  case False
  then show ?thesis by (simp add: vw_protocol_decode_header_def)
qed

section \<open>Sizes on the wire\<close>

lemma length_ptr_bytes: "length (ptr_bytes p n) \<le> n"
  by (simp add: ptr_bytes_def split: option.splits)

lemma enc_all_length: "enc_all sz bss w = Some bs \<Longrightarrow> length w \<le> sz \<Longrightarrow>
    length bs = length w + length (concat bss) \<and> length bs \<le> sz"
  by (auto simp: enc_all_eq split: if_splits)

lemma u16_lt: "unat (x :: u16) < 65536"
  using unsigned_less[of x] by simp

lemma encode_caption_length:
  assumes "encode_caption sz p = Some bs" "length (cs_session_id p) = 16"
  shows "length bs \<le> sz \<and> length bs \<le> 50 + unat (cs_text_bytes p) + unat (cs_translated_text_bytes p)"
proof -
  note t = length_ptr_bytes[of "cs_text_utf8 p" "unat (cs_text_bytes p)"]
    length_ptr_bytes[of "cs_translated_text_utf8 p" "unat (cs_translated_text_bytes p)"]
  from assms(1) obtain w where
    w: "enc_all sz [cs_session_id p, enc_u64 (cs_segment_id p), enc_i64 (cs_start_pts_us p),
          enc_i64 (cs_end_pts_us p), enc_bool (cs_is_final p), enc_u16 (cs_text_bytes p),
          ptr_bytes (cs_text_utf8 p) (unat (cs_text_bytes p))] [] = Some w"
    and b: "bs = w \<or> enc_all sz [enc_u16 (cs_translated_text_bytes p),
            ptr_bytes (cs_translated_text_utf8 p) (unat (cs_translated_text_bytes p)),
            enc_u32 (cs_translation_latency_us p), enc_u8 (cs_translation_tier p)] w = Some bs"
    unfolding encode_caption_def by (auto simp: bind_Some_iff split: if_splits)
  from enc_all_length[OF w] have lw: "length w \<le> 43 + unat (cs_text_bytes p)" "length w \<le> sz"
    using t assms(2) by simp_all
  from b show ?thesis
  proof
    assume "bs = w" with lw show ?thesis by simp
  next
    assume e: "enc_all sz [enc_u16 (cs_translated_text_bytes p),
            ptr_bytes (cs_translated_text_utf8 p) (unat (cs_translated_text_bytes p)),
            enc_u32 (cs_translation_latency_us p), enc_u8 (cs_translation_tier p)] w = Some bs"
    from enc_all_length[OF e] lw t show ?thesis by simp
  qed
qed

lemma encode_start_length:
  assumes "encode_start sz p = Some bs" "length (st_session_id p) = 16"
  shows "length bs \<le> sz \<and> length bs \<le> 2048"
proof -
  have e: "\<exists>m l u. m \<le> 63 \<and> l \<le> 15 \<and> u \<le> 1023 \<and>
      enc_all sz ([st_session_id p, enc_i64 (st_timeline_origin_pts_us p),
           enc_u32 (st_sample_rate p), enc_u16 (st_channels p), enc_u16 (st_sample_format p),
           enc_u16 (of_nat m), take m (st_model_id p),
           enc_u16 (of_nat l), take l (st_language p),
           enc_u16 (st_source_kind p), enc_u16 (of_nat u)]
           @ (if u > 0 then [take u (st_source_url p)] else [])) [] = Some bs"
    using assms(1) unfolding encode_start_def Let_def vw_limits
    by (intro exI conjI, assumption?) (auto simp: min_def)
  then obtain m l u where mlu: "m \<le> 63" "l \<le> 15" "u \<le> 1023" and
    e: "enc_all sz ([st_session_id p, enc_i64 (st_timeline_origin_pts_us p),
           enc_u32 (st_sample_rate p), enc_u16 (st_channels p), enc_u16 (st_sample_format p),
           enc_u16 (of_nat m), take m (st_model_id p),
           enc_u16 (of_nat l), take l (st_language p),
           enc_u16 (st_source_kind p), enc_u16 (of_nat u)]
           @ (if u > 0 then [take u (st_source_url p)] else [])) [] = Some bs"
    by blast
  from enc_all_length[OF e] mlu assms(2) show ?thesis by (simp split: if_splits)
qed

text \<open>The messages of fixed size.\<close>

lemma encode_fixed_length:
  "encode_position sz a = Some bs \<Longrightarrow> wf_payload (P_POSITION a) \<Longrightarrow> length bs = 40 \<and> length bs \<le> sz"
  "encode_control sz b = Some bs \<Longrightarrow> wf_payload (P_CONTROL b) \<Longrightarrow> length bs = 18 \<and> length bs \<le> sz"
  "encode_translate_ctrl sz c = Some bs \<Longrightarrow> wf_payload (P_TRANSLATE_CTRL c) \<Longrightarrow>
     length bs = VW_MSG_TRANSLATE_CTRL_PAYLOAD_BYTES \<and> length bs \<le> sz"
  "encode_status sz d = Some bs \<Longrightarrow> wf_payload (P_STATUS d) \<Longrightarrow> length bs = 60 \<and> length bs \<le> sz"
  "encode_model_ctrl sz e = Some bs \<Longrightarrow> wf_payload (P_MODEL_CTRL e) \<Longrightarrow>
     length bs = VW_MSG_MODEL_CTRL_PAYLOAD_BYTES \<and> length bs \<le> sz"
  "encode_model_progress sz f = Some bs \<Longrightarrow> wf_payload (P_MODEL_PROGRESS f) \<Longrightarrow>
     length bs = VW_MSG_MODEL_PROGRESS_PAYLOAD_BYTES \<and> length bs \<le> sz"
  "encode_started sz g = Some bs \<Longrightarrow> wf_payload (P_STARTED g) \<Longrightarrow>
     length bs = VW_MSG_STARTED_PAYLOAD_BYTES \<and> length bs \<le> sz"
  by (auto simp: encode_position_def encode_control_def encode_translate_ctrl_def encode_status_def
      encode_model_ctrl_def encode_model_progress_def encode_started_def vw_limits enc_all_eq
      split: if_splits)

lemma encode_error_length:
  "encode_error sz p = Some bs \<Longrightarrow> wf_payload (P_ERROR p) \<Longrightarrow> length bs = 277 \<and> length bs \<le> sz"
  by (auto simp: encode_error_def vw_limits enc_all_eq bind_Some_iff split: if_splits)

text \<open>Which encoder a successful call went through.\<close>

lemma encode_payload_cases:
  assumes "vw_protocol_encode_payload type (Some p) sz = Some bs"
  shows "bs = [] \<or> (\<exists>q. p = P_HELLO q \<and> encode_hello sz q = Some bs)
    \<or> (\<exists>q. p = P_HELLO_ACK q \<and> encode_hello_ack sz q = Some bs)
    \<or> (\<exists>q. p = P_START q \<and> encode_start sz q = Some bs)
    \<or> (\<exists>q. p = P_POSITION q \<and> encode_position sz q = Some bs)
    \<or> (\<exists>q. p = P_AUDIO q \<and> encode_audio sz q = Some bs \<and> msg_type_of type = Some VW_MSG_AUDIO_PCM)
    \<or> (\<exists>q. p = P_CONTROL q \<and> encode_control sz q = Some bs)
    \<or> (\<exists>q. p = P_CAPTION q \<and> encode_caption sz q = Some bs)
    \<or> (\<exists>q. p = P_TRANSLATE_CTRL q \<and> encode_translate_ctrl sz q = Some bs)
    \<or> (\<exists>q. p = P_STATUS q \<and> encode_status sz q = Some bs)
    \<or> (\<exists>q. p = P_MODEL_CTRL q \<and> encode_model_ctrl sz q = Some bs)
    \<or> (\<exists>q. p = P_MODEL_PROGRESS q \<and> encode_model_progress sz q = Some bs)
    \<or> (\<exists>q. p = P_ERROR q \<and> encode_error sz q = Some bs)
    \<or> (\<exists>q. p = P_STARTED q \<and> encode_started sz q = Some bs)"
proof -
  obtain t where "msg_type_of type = Some t"
    using assms by (cases "msg_type_of type") (auto simp: vw_protocol_encode_payload_def)
  with assms show ?thesis
    by (cases t; cases p) (simp_all add: vw_protocol_encode_payload_def)
qed

text \<open>
  Property.  Every valid message fits a frame: what the encoder writes stays inside the
  caller's buffer and within the 1 MiB the header validator accepts.
\<close>
theorem vw_protocol_encode_payload_fits:
  assumes "wf_payload p" "vw_protocol_validate_payload type (Some p)"
    "vw_protocol_encode_payload type (Some p) sz = Some bs"
  shows "length bs \<le> sz \<and> length bs \<le> VW_MAX_PAYLOAD_BYTES"
proof -
  have hello: ?thesis if "encode_hello sz q = Some bs" "p = P_HELLO q" for q
    using that assms(1) enc_all_length[of sz _ "[]" bs]
      length_ptr_bytes[of "he_client_version q" "unat (he_client_version_length q)"]
      u16_lt[of "he_client_version_length q"]
    by (force simp: encode_hello_def vw_limits split: if_splits)
  have ack: ?thesis if "encode_hello_ack sz q = Some bs" "p = P_HELLO_ACK q" for q
    using that enc_all_length[of sz _ "[]" bs]
      length_ptr_bytes[of "ha_worker_version q" "unat (ha_worker_version_length q)"]
      u16_lt[of "ha_worker_version_length q"]
    by (force simp: encode_hello_ack_def vw_limits split: if_splits)
  have audio: ?thesis if "encode_audio sz q = Some bs" "p = P_AUDIO q" "msg_type_of type = Some VW_MSG_AUDIO_PCM" for q
    using that assms(1) enc_all_length[of sz _ "[]" bs]
      length_ptr_bytes[of "au_pcm_data q" "unat (au_pcm_bytes q)"] validate_audio_bytes[of q] assms(2)
    by (force simp: vw_protocol_validate_payload_def encode_audio_def vw_limits split: if_splits)
  have caption: ?thesis if "encode_caption sz q = Some bs" "p = P_CAPTION q" for q
    using encode_caption_length[OF that(1)] that(2) assms(1)
      u16_lt[of "cs_text_bytes q"] u16_lt[of "cs_translated_text_bytes q"]
    by (simp add: vw_limits)
  have start: ?thesis if "encode_start sz q = Some bs" "p = P_START q" for q
    using encode_start_length[OF that(1)] that(2) assms(1) by (simp add: vw_limits)
  from encode_payload_cases[OF assms(3)] assms(1) show ?thesis
    by (elim disjE exE conjE)
      (auto simp: vw_limits simp del: wf_payload.simps
        dest: hello ack audio caption start encode_fixed_length encode_error_length)
qed

definition sample_audio :: vw_msg_audio where
  "sample_audio = \<lparr>au_session_id = replicate 16 0, au_start_pts_us = 0, au_duration_us = 62,
     au_pcm_bytes = 2, au_pcm_data = Some [1, 2]\<rparr>"

theorem vw_protocol_encode_payload_fits_witness:
  "vw_protocol_validate_payload 4 (Some (P_AUDIO sample_audio))
   \<and> (\<exists>bs. vw_protocol_encode_payload 4 (Some (P_AUDIO sample_audio)) 64 = Some bs \<and> length bs = 38
        \<and> length bs \<le> VW_MAX_PAYLOAD_BYTES)"
proof -
  have m: "msg_type_of 4 = Some VW_MSG_AUDIO_PCM" by code_simp
  have w: "wf_payload (P_AUDIO sample_audio)"
    by (simp add: sample_audio_def vw_limits in_i64_def INT64_MIN_def INT64_MAX_def)
  have v: "vw_protocol_validate_payload 4 (Some (P_AUDIO sample_audio))"
    by (simp add: vw_protocol_validate_payload_def m validate_audio_def sample_audio_def)
  obtain bs where e: "vw_protocol_encode_payload 4 (Some (P_AUDIO sample_audio)) 64 = Some bs" "length bs = 38"
    by (simp add: vw_protocol_encode_payload_def m encode_audio_def sample_audio_def enc_all_eq ptr_bytes_def)
  from vw_protocol_encode_payload_fits[OF w v e(1)] v e show ?thesis by blast
qed

end
