(* ===== verification/VW_Spsc_Queue.thy ===== *)
theory VW_Spsc_Queue
  imports VW_Prelude
begin

text \<open>
  \<^verbatim>\<open>plugin/src/vw_queue.c\<close>: the single-producer single-consumer ring between the VLC audio
  callback and the sender thread.  The first part models the operations as atomic calls and
  shows that they implement a bounded queue that drops the newest chunk.  The second part
  splits them at their atomic accesses and runs producer and consumer concurrently: each
  atomic index is its modification order, and an acquire load returns some value of that
  order which is no older than what the thread has already seen.
\<close>

section \<open>State\<close>

text \<open>
  A chunk (\<^verbatim>\<open>vw_audio_chunk_t\<close>).  \<open>ch_pcm\<close> are the 16-bit samples in the first \<^verbatim>\<open>bytes\<close>
  bytes of \<^verbatim>\<open>pcm_data\<close>; the array behind them is never read.
\<close>

record vw_audio_chunk =
  ch_start_pts_us :: i64
  ch_duration_us :: i64
  ch_sample_rate :: u32
  ch_channels :: u32
  ch_bytes :: u32
  ch_pcm :: "int list"

definition zero_chunk :: vw_audio_chunk where
  "zero_chunk = \<lparr>ch_start_pts_us = 0, ch_duration_us = 0, ch_sample_rate = 0, ch_channels = 0,
     ch_bytes = 0, ch_pcm = []\<rparr>"

record vw_spsc_queue =
  sq_ring_buffer :: "vw_audio_chunk list"
  sq_capacity_chunks :: nat
  sq_head :: nat
  sq_tail :: nat
  sq_audio_dropped_us :: u64

section \<open>Operations\<close>

text \<open>The Booleans say whether the two calls of \<^verbatim>\<open>calloc\<close> succeed.\<close>

definition vw_spsc_queue_create :: "bool \<Rightarrow> bool \<Rightarrow> nat \<Rightarrow> vw_spsc_queue option" where
  "vw_spsc_queue_create q_alloc ring_alloc capacity_chunks =
     (if capacity_chunks = 0 then None
      else if \<not> q_alloc then None
      else if \<not> ring_alloc then None
      else Some \<lparr>sq_ring_buffer = replicate (capacity_chunks + 1) zero_chunk,
        sq_capacity_chunks = capacity_chunks, sq_head = 0, sq_tail = 0, sq_audio_dropped_us = 0\<rparr>)"

definition spsc_push :: "vw_spsc_queue \<Rightarrow> vw_audio_chunk \<Rightarrow> bool \<times> vw_spsc_queue" where
  "spsc_push q chunk =
     (let curr_head = sq_head q;
          next_head = (curr_head + 1) mod (sq_capacity_chunks q + 1)
      in if next_head = sq_tail q
         then (False, q\<lparr>sq_audio_dropped_us := sq_audio_dropped_us q + word_of_int (ch_duration_us chunk)\<rparr>)
         else (True, q\<lparr>sq_ring_buffer := (sq_ring_buffer q)[curr_head := chunk],
                       sq_head := next_head\<rparr>))"

definition spsc_pop :: "vw_spsc_queue \<Rightarrow> (vw_audio_chunk \<times> vw_spsc_queue) option" where
  "spsc_pop q =
     (let curr_tail = sq_tail q
      in if curr_tail = sq_head q then None
         else let chunk = sq_ring_buffer q ! curr_tail;
                  next_tail = (curr_tail + 1) mod (sq_capacity_chunks q + 1)
              in Some (chunk, q\<lparr>sq_tail := next_tail\<rparr>))"

text \<open>The exported functions with their \<^verbatim>\<open>NULL\<close> guards.\<close>

definition vw_spsc_queue_push ::
  "vw_spsc_queue option \<Rightarrow> vw_audio_chunk option \<Rightarrow> bool \<times> vw_spsc_queue option" where
  "vw_spsc_queue_push queue chunk =
     (case (queue, chunk) of
        (Some q, Some c) \<Rightarrow> (case spsc_push q c of (ok, q') \<Rightarrow> (ok, Some q'))
      | _ \<Rightarrow> (False, queue))"

definition vw_spsc_queue_pop ::
  "vw_spsc_queue option \<Rightarrow> bool \<Rightarrow> vw_audio_chunk option \<times> vw_spsc_queue option" where
  "vw_spsc_queue_pop queue chunk_nonnull =
     (case queue of
        None \<Rightarrow> (None, None)
      | Some q \<Rightarrow>
          if \<not> chunk_nonnull then (None, queue)
          else (case spsc_pop q of None \<Rightarrow> (None, queue) | Some (c, q') \<Rightarrow> (Some c, Some q')))"

definition vw_spsc_queue_get_dropped_microseconds :: "vw_spsc_queue option \<Rightarrow> u64" where
  "vw_spsc_queue_get_dropped_microseconds queue =
     (case queue of None \<Rightarrow> 0 | Some q \<Rightarrow> sq_audio_dropped_us q)"

section \<open>A bounded queue\<close>

definition spsc_len :: "vw_spsc_queue \<Rightarrow> nat" where
  "spsc_len q = (sq_head q + (sq_capacity_chunks q + 1) - sq_tail q) mod (sq_capacity_chunks q + 1)"

definition spsc_contents :: "vw_spsc_queue \<Rightarrow> vw_audio_chunk list" where
  "spsc_contents q = ring_slice (sq_ring_buffer q) (sq_tail q) (spsc_len q)"

definition spsc_inv :: "vw_spsc_queue \<Rightarrow> bool" where
  "spsc_inv q \<longleftrightarrow> 0 < sq_capacity_chunks q \<and> length (sq_ring_buffer q) = sq_capacity_chunks q + 1
     \<and> sq_head q \<le> sq_capacity_chunks q \<and> sq_tail q \<le> sq_capacity_chunks q"

lemma spsc_create_inv:
  "vw_spsc_queue_create a b n = Some q \<Longrightarrow>
    spsc_inv q \<and> spsc_contents q = [] \<and> sq_capacity_chunks q = n \<and> sq_audio_dropped_us q = 0"
  by (auto simp: vw_spsc_queue_create_def spsc_inv_def spsc_contents_def spsc_len_def split: if_splits)

lemma spsc_len_le: "spsc_len q \<le> sq_capacity_chunks q"
  by (simp add: spsc_len_def less_Suc_eq_le[symmetric])

lemma spsc_len_cases:
  assumes "spsc_inv q"
  shows "spsc_len q = (if sq_tail q \<le> sq_head q then sq_head q - sq_tail q
    else sq_head q + (sq_capacity_chunks q + 1) - sq_tail q)"
proof (cases "sq_tail q \<le> sq_head q")
  case True
  then have "sq_head q + (sq_capacity_chunks q + 1) - sq_tail q
      = (sq_head q - sq_tail q) + (sq_capacity_chunks q + 1)" by simp
  moreover have "sq_head q - sq_tail q < sq_capacity_chunks q + 1"
    using assms unfolding spsc_inv_def by linarith
  ultimately show ?thesis using True unfolding spsc_len_def by (simp only: mod_add_self2 mod_less if_True)
next
  case False
  then show ?thesis using assms by (simp add: spsc_len_def spsc_inv_def)
qed

lemma spsc_head_slot:
  assumes "spsc_inv q"
  shows "sq_head q = (sq_tail q + spsc_len q) mod length (sq_ring_buffer q)"
proof (cases "sq_tail q \<le> sq_head q")
  case True
  then show ?thesis using assms spsc_len_cases[OF assms] by (simp add: spsc_inv_def)
next
  case False
  then have "sq_tail q + spsc_len q = sq_head q + length (sq_ring_buffer q)"
    using assms spsc_len_cases[OF assms] by (simp add: spsc_inv_def)
  moreover have "sq_head q < length (sq_ring_buffer q)" using assms by (simp add: spsc_inv_def)
  ultimately show ?thesis by simp
qed

lemma spsc_full_iff:
  assumes "spsc_inv q"
  shows "(sq_head q + 1) mod (sq_capacity_chunks q + 1) = sq_tail q \<longleftrightarrow> spsc_len q = sq_capacity_chunks q"
proof (cases "sq_head q = sq_capacity_chunks q")
  case True
  then show ?thesis using assms spsc_len_cases[OF assms] by (auto simp: spsc_inv_def)
next
  case False
  then have "(sq_head q + 1) mod (sq_capacity_chunks q + 1) = sq_head q + 1"
    using assms by (simp add: spsc_inv_def)
  then show ?thesis using assms False spsc_len_cases[OF assms] by (auto simp: spsc_inv_def)
qed

lemma spsc_empty_iff: "spsc_inv q \<Longrightarrow> sq_tail q = sq_head q \<longleftrightarrow> spsc_len q = 0"
  using spsc_len_cases[of q] by (auto simp: spsc_inv_def)

lemma spsc_push_inv: "spsc_inv q \<Longrightarrow> spsc_inv (snd (spsc_push q c))"
  using less_Suc_eq_le by (auto simp: spsc_push_def spsc_inv_def Let_def)

lemma spsc_push_full:
  assumes "spsc_inv q" "length (spsc_contents q) \<ge> sq_capacity_chunks q"
  shows "spsc_push q c = (False, q\<lparr>sq_audio_dropped_us := sq_audio_dropped_us q + word_of_int (ch_duration_us c)\<rparr>)"
  using assms spsc_full_iff[OF assms(1)] spsc_len_le[of q]
  by (auto simp: spsc_push_def Let_def spsc_contents_def)

lemma spsc_len_push:
  assumes "spsc_inv q" "spsc_len q < sq_capacity_chunks q"
  shows "spsc_len (snd (spsc_push q c)) = Suc (spsc_len q)"
proof -
  let ?N = "sq_capacity_chunks q + 1"
  have nf: "(sq_head q + 1) mod ?N \<noteq> sq_tail q" using assms spsc_full_iff by auto
  then have h: "sq_head (snd (spsc_push q c)) = (sq_head q + 1) mod ?N"
    "sq_tail (snd (spsc_push q c)) = sq_tail q"
    "sq_capacity_chunks (snd (spsc_push q c)) = sq_capacity_chunks q"
    by (simp_all add: spsc_push_def Let_def)
  have i': "spsc_inv (snd (spsc_push q c))" using assms(1) by (rule spsc_push_inv)
  show ?thesis
  proof (cases "sq_head q = sq_capacity_chunks q")
    case True
    then show ?thesis
      using assms h nf spsc_len_cases[OF i'] spsc_len_cases[OF assms(1)]
      by (auto simp: spsc_inv_def split: if_splits)
  next
    case False
    then have "(sq_head q + 1) mod ?N = sq_head q + 1" using assms(1) by (simp add: spsc_inv_def)
    with False show ?thesis
      using assms h nf spsc_len_cases[OF i'] spsc_len_cases[OF assms(1)]
      by (auto simp: spsc_inv_def split: if_splits)
  qed
qed

lemma spsc_push_room:
  assumes "spsc_inv q" "length (spsc_contents q) < sq_capacity_chunks q"
  shows "fst (spsc_push q c)" "spsc_contents (snd (spsc_push q c)) = spsc_contents q @ [c]"
    "sq_audio_dropped_us (snd (spsc_push q c)) = sq_audio_dropped_us q"
proof -
  have l: "spsc_len q < sq_capacity_chunks q" using assms(2) by (simp add: spsc_contents_def)
  then have nf: "(sq_head q + 1) mod (sq_capacity_chunks q + 1) \<noteq> sq_tail q"
    using assms(1) spsc_full_iff by auto
  then show "fst (spsc_push q c)" "sq_audio_dropped_us (snd (spsc_push q c)) = sq_audio_dropped_us q"
    by (simp_all add: spsc_push_def Let_def)
  have "spsc_len q < length (sq_ring_buffer q)" using l assms(1) by (simp add: spsc_inv_def)
  from ring_slice_write[OF this, of "sq_tail q" c] nf
  show "spsc_contents (snd (spsc_push q c)) = spsc_contents q @ [c]"
    unfolding spsc_contents_def spsc_len_push[OF assms(1) l]
    by (simp add: spsc_push_def Let_def spsc_head_slot[OF assms(1)])
qed

lemma spsc_pop_cases:
  assumes "spsc_inv q" "spsc_contents q = x # xs"
  shows "\<exists>q'. spsc_pop q = Some (x, q') \<and> spsc_inv q' \<and> spsc_contents q' = xs"
proof -
  let ?N = "sq_capacity_chunks q + 1"
  obtain n where n: "spsc_len q = Suc n"
    using assms(2) by (cases "spsc_len q") (auto simp: spsc_contents_def)
  have ne: "sq_tail q \<noteq> sq_head q" using spsc_empty_iff[OF assms(1)] n by simp
  have len: "length (sq_ring_buffer q) = ?N" "sq_tail q < ?N" using assms(1) by (simp_all add: spsc_inv_def)
  define q' where "q' = q\<lparr>sq_tail := (sq_tail q + 1) mod ?N\<rparr>"
  have i': "spsc_inv q'" using assms(1) less_Suc_eq_le by (auto simp: spsc_inv_def q'_def)
  have l': "spsc_len q' = n"
  proof (cases "sq_tail q = sq_capacity_chunks q")
    case True
    then show ?thesis using n ne assms(1) spsc_len_cases[OF assms(1)] spsc_len_cases[OF i']
      by (auto simp: spsc_inv_def q'_def split: if_splits)
  next
    case False
    then have "(sq_tail q + 1) mod ?N = sq_tail q + 1" using assms(1) by (simp add: spsc_inv_def)
    then show ?thesis using n ne assms(1) spsc_len_cases[OF assms(1)] spsc_len_cases[OF i']
      by (auto simp: spsc_inv_def q'_def split: if_splits)
  qed
  have "ring_slice (sq_ring_buffer q) (sq_tail q) (Suc n) = x # xs"
    using assms(2) n by (simp add: spsc_contents_def)
  then have "sq_ring_buffer q ! sq_tail q = x" "ring_slice (sq_ring_buffer q) (Suc (sq_tail q)) n = xs"
    using len by (simp_all add: ring_slice_Suc)
  moreover have "spsc_contents q' = ring_slice (sq_ring_buffer q) (Suc (sq_tail q)) n"
    using len ring_slice_mod[of "sq_ring_buffer q" "Suc (sq_tail q)" n]
    by (simp add: spsc_contents_def l') (simp add: q'_def)
  ultimately show ?thesis using ne i' by (simp add: spsc_pop_def Let_def q'_def)
qed

interpretation spsc: bounded_fifo spsc_inv spsc_contents spsc_pop sq_capacity_chunks spsc_push
proof
  show "spsc_pop q = None" if "spsc_inv q" "spsc_contents q = []" for q
  proof -
    have "spsc_len q = 0" using that(2) unfolding spsc_contents_def by (metis length_ring_slice list.size(3))
    then show ?thesis using spsc_empty_iff[OF that(1)] by (simp add: spsc_pop_def)
  qed
  show "\<exists>q'. spsc_pop q = Some (x, q') \<and> spsc_inv q' \<and> spsc_contents q' = xs"
    if "spsc_inv q" "spsc_contents q = x # xs" for q x xs
    using that by (rule spsc_pop_cases)
  show "spsc_inv (snd (spsc_push q x))" if "spsc_inv q" for q x
    using that by (rule spsc_push_inv)
  show "fst (spsc_push q x) \<and> spsc_contents (snd (spsc_push q x)) = spsc_contents q @ [x]"
    if "spsc_inv q" "length (spsc_contents q) < sq_capacity_chunks q" for q x
    using spsc_push_room[OF that] by blast
  show "\<not> fst (spsc_push q x) \<and> spsc_contents (snd (spsc_push q x)) = spsc_contents q"
    if "spsc_inv q" "length (spsc_contents q) \<ge> sq_capacity_chunks q" for q x
    using spsc_push_full[OF that] by (simp add: spsc_contents_def spsc_len_def)
qed

text \<open>
  Property.  A push succeeds exactly when fewer than \<^verbatim>\<open>capacity_chunks\<close> chunks are queued;
  then the chunk goes to the end of the queue.  Otherwise the queue is unchanged and the
  chunk's duration is added (modulo 2^64) to the drop counter.
\<close>
theorem vw_spsc_queue_push_spec:
  assumes "spsc_inv q"
  shows "case vw_spsc_queue_push (Some q) (Some c) of (ok, r) \<Rightarrow>
    \<exists>q'. r = Some q' \<and> spsc_inv q' \<and> ok = (length (spsc_contents q) < sq_capacity_chunks q)
      \<and> spsc_contents q' = spsc_contents q @ (if ok then [c] else [])
      \<and> vw_spsc_queue_get_dropped_microseconds r
          = vw_spsc_queue_get_dropped_microseconds (Some q)
            + (if ok then 0 else word_of_int (ch_duration_us c))"
proof (cases "length (spsc_contents q) < sq_capacity_chunks q")
  case True
  with spsc_push_room[OF assms True, of c] spsc_push_inv[OF assms, of c] show ?thesis
    by (auto simp: vw_spsc_queue_push_def vw_spsc_queue_get_dropped_microseconds_def split: prod.splits)
next
  case False
  then have f: "sq_capacity_chunks q \<le> length (spsc_contents q)" by simp
  have "spsc_contents (q\<lparr>sq_audio_dropped_us := d\<rparr>) = spsc_contents q" for d
    by (simp add: spsc_contents_def spsc_len_def)
  with False spsc_push_full[OF assms f, of c] spsc_push_inv[OF assms, of c] show ?thesis
    by (auto simp: vw_spsc_queue_push_def vw_spsc_queue_get_dropped_microseconds_def split: prod.splits)
qed

definition sample_queue :: vw_spsc_queue where
  "sample_queue = \<lparr>sq_ring_buffer = replicate 3 zero_chunk, sq_capacity_chunks = 2, sq_head = 1,
     sq_tail = 2, sq_audio_dropped_us = 5\<rparr>"

theorem vw_spsc_queue_push_spec_witness:
  "spsc_inv sample_queue \<and> length (spsc_contents sample_queue) = 2 \<and>
    (\<exists>q'. vw_spsc_queue_push (Some sample_queue) (Some (zero_chunk\<lparr>ch_duration_us := 7\<rparr>)) = (False, Some q')
      \<and> vw_spsc_queue_get_dropped_microseconds (Some q') = 12)"
proof -
  have i: "spsc_inv sample_queue" by (simp add: spsc_inv_def sample_queue_def)
  have l: "length (spsc_contents sample_queue) = 2" "sq_capacity_chunks sample_queue = 2"
    by (simp_all add: spsc_contents_def spsc_len_def sample_queue_def)
  have d: "vw_spsc_queue_get_dropped_microseconds (Some sample_queue) = 5"
    by (simp add: vw_spsc_queue_get_dropped_microseconds_def sample_queue_def)
  from vw_spsc_queue_push_spec[OF i, of "zero_chunk\<lparr>ch_duration_us := 7\<rparr>"] i l d show ?thesis
    by (auto split: prod.splits)
qed

lemma spsc_capacity_const:
  "sq_capacity_chunks (snd (spsc_push q c)) = sq_capacity_chunks q"
  "spsc_pop q = Some (d, q') \<Longrightarrow> sq_capacity_chunks q' = sq_capacity_chunks q"
  by (auto simp: spsc_push_def spsc_pop_def Let_def split: if_splits)

lemma fifo_run_capacity:
  "sq_capacity_chunks (fst (fifo_run spsc_push spsc_pop q ops)) = sq_capacity_chunks q"
proof (induction ops arbitrary: q)
  case Nil
  then show ?case by simp
next
  case (Cons op ops)
  show ?case
  proof (cases op)
    case (Push c)
    with Cons.IH[of "snd (spsc_push q c)"] spsc_capacity_const(1)[of q c] show ?thesis
      by (cases "spsc_push q c") (auto split: prod.splits)
  next
    case Pop
    show ?thesis
    proof (cases "spsc_pop q")
      case None
      with Pop Cons.IH show ?thesis by simp
    next
      case (Some r)
      obtain c q1 where r: "r = (c, q1)" by force
      with Some Pop Cons.IH[of q1] spsc_capacity_const(2)[of q c q1] show ?thesis
        by (auto split: prod.splits)
    qed
  qed
qed

text \<open>
  Property.  Any sequence of pushes and pops on a fresh queue delivers the accepted chunks
  in order: what was accepted is what was delivered followed by what is still queued, and
  draining the queue returns exactly that rest.
\<close>
theorem vw_spsc_queue_fifo:
  assumes "vw_spsc_queue_create a b n = Some q" "fifo_run spsc_push spsc_pop q ops = (q', acc, del)"
  shows "acc = del @ spsc_contents q' \<and> length (spsc_contents q') \<le> n
    \<and> fst (drain spsc_pop n q') = spsc_contents q'"
proof -
  have q: "spsc_inv q" "spsc_contents q = []" "sq_capacity_chunks q = n"
    using spsc_create_inv[OF assms(1)] by auto
  have "spsc_inv q' \<and> acc = del @ spsc_contents q'"
    using spsc.run_history[OF q(1) assms(2)] q(2) by simp
  moreover have "length (spsc_contents q') \<le> n"
    using spsc_len_le[of q'] fifo_run_capacity[of q ops] q(3) assms(2) by (simp add: spsc_contents_def)
  ultimately show ?thesis using spsc.drain_all[of q' n] by blast
qed

theorem vw_spsc_queue_fifo_witness:
  "\<exists>q q' acc. vw_spsc_queue_create True True 1 = Some q
    \<and> fifo_run spsc_push spsc_pop q [Push zero_chunk, Push (zero_chunk\<lparr>ch_bytes := 2\<rparr>), Pop,
        Push (zero_chunk\<lparr>ch_bytes := 4\<rparr>)] = (q', acc, [zero_chunk])
    \<and> acc = [zero_chunk] @ spsc_contents q' \<and> acc = [zero_chunk, zero_chunk\<lparr>ch_bytes := 4\<rparr>]"
proof -
  obtain q where q: "vw_spsc_queue_create True True 1 = Some q"
    by (simp add: vw_spsc_queue_create_def)
  let ?c = "zero_chunk\<lparr>ch_bytes := 2\<rparr>" and ?d = "zero_chunk\<lparr>ch_bytes := 4\<rparr>"
  have q0: "q = \<lparr>sq_ring_buffer = [zero_chunk, zero_chunk], sq_capacity_chunks = 1, sq_head = 0,
      sq_tail = 0, sq_audio_dropped_us = 0\<rparr>"
    using q by (simp add: vw_spsc_queue_create_def numeral_2_eq_2)
  obtain q' where r: "fifo_run spsc_push spsc_pop q [Push zero_chunk, Push ?c, Pop, Push ?d]
      = (q', [zero_chunk, ?d], [zero_chunk])"
    unfolding q0 by (simp add: spsc_push_def spsc_pop_def Let_def)
  from vw_spsc_queue_fifo[OF q r] q r show ?thesis by blast
qed

section \<open>Producer and consumer running concurrently\<close>

text \<open>
  Program counters between the atomic accesses of \<^verbatim>\<open>vw_spsc_queue_push\<close> and
  \<^verbatim>\<open>vw_spsc_queue_pop\<close>.  The producer has computed \<^verbatim>\<open>next_head\<close> and is about to load the
  tail (\<open>P_Check\<close>), about to write the slot (\<open>P_Write\<close>) or about to store the head
  (\<open>P_Publish\<close>); the consumer is about to load the head, to read the slot, or to store the tail.
\<close>

datatype producer_pc =
    P_Idle
  | P_Check vw_audio_chunk nat nat
  | P_Write vw_audio_chunk nat nat
  | P_Publish vw_audio_chunk nat

datatype consumer_pc =
    C_Idle
  | C_Check nat
  | C_Read nat
  | C_Advance nat vw_audio_chunk

text \<open>
  \<open>cq_head_mo\<close> and \<open>cq_tail_mo\<close> are the modification orders of the two atomic indices, the
  current value last; \<open>cq_tail_seen\<close> and \<open>cq_head_seen\<close> are the positions in them that producer
  and consumer have read so far.  \<open>cq_accepted\<close> and \<open>cq_delivered\<close> are history variables.
\<close>

record spsc_conc =
  cq_ring :: "vw_audio_chunk list"
  cq_capacity :: nat
  cq_head_mo :: "nat list"
  cq_tail_mo :: "nat list"
  cq_dropped_us :: u64
  cq_tail_seen :: nat
  cq_head_seen :: nat
  cq_prod :: producer_pc
  cq_cons :: consumer_pc
  cq_accepted :: "vw_audio_chunk list"
  cq_delivered :: "vw_audio_chunk list"

definition spsc_conc_init :: "nat \<Rightarrow> spsc_conc" where
  "spsc_conc_init cap = \<lparr>cq_ring = replicate (cap + 1) zero_chunk, cq_capacity = cap,
     cq_head_mo = [0], cq_tail_mo = [0], cq_dropped_us = 0, cq_tail_seen = 0, cq_head_seen = 0,
     cq_prod = P_Idle, cq_cons = C_Idle, cq_accepted = [], cq_delivered = []\<rparr>"

inductive spsc_step :: "spsc_conc \<Rightarrow> spsc_conc \<Rightarrow> bool" where
  push_begin: "cq_prod s = P_Idle \<Longrightarrow> h = last (cq_head_mo s) \<Longrightarrow>
    spsc_step s (s\<lparr>cq_prod := P_Check c h ((h + 1) mod (cq_capacity s + 1))\<rparr>)"
| push_full: "cq_prod s = P_Check c h n \<Longrightarrow> cq_tail_seen s \<le> i \<Longrightarrow> i < length (cq_tail_mo s) \<Longrightarrow>
    n = cq_tail_mo s ! i \<Longrightarrow>
    spsc_step s (s\<lparr>cq_prod := P_Idle, cq_tail_seen := i,
      cq_dropped_us := cq_dropped_us s + word_of_int (ch_duration_us c)\<rparr>)"
| push_room: "cq_prod s = P_Check c h n \<Longrightarrow> cq_tail_seen s \<le> i \<Longrightarrow> i < length (cq_tail_mo s) \<Longrightarrow>
    n \<noteq> cq_tail_mo s ! i \<Longrightarrow>
    spsc_step s (s\<lparr>cq_prod := P_Write c h n, cq_tail_seen := i\<rparr>)"
| push_write: "cq_prod s = P_Write c h n \<Longrightarrow>
    spsc_step s (s\<lparr>cq_ring := (cq_ring s)[h := c], cq_prod := P_Publish c n\<rparr>)"
| push_publish: "cq_prod s = P_Publish c n \<Longrightarrow>
    spsc_step s (s\<lparr>cq_head_mo := cq_head_mo s @ [n], cq_prod := P_Idle,
      cq_accepted := cq_accepted s @ [c]\<rparr>)"
| pop_begin: "cq_cons s = C_Idle \<Longrightarrow>
    spsc_step s (s\<lparr>cq_cons := C_Check (last (cq_tail_mo s))\<rparr>)"
| pop_empty: "cq_cons s = C_Check t \<Longrightarrow> cq_head_seen s \<le> i \<Longrightarrow> i < length (cq_head_mo s) \<Longrightarrow>
    t = cq_head_mo s ! i \<Longrightarrow>
    spsc_step s (s\<lparr>cq_cons := C_Idle, cq_head_seen := i\<rparr>)"
| pop_some: "cq_cons s = C_Check t \<Longrightarrow> cq_head_seen s \<le> i \<Longrightarrow> i < length (cq_head_mo s) \<Longrightarrow>
    t \<noteq> cq_head_mo s ! i \<Longrightarrow>
    spsc_step s (s\<lparr>cq_cons := C_Read t, cq_head_seen := i\<rparr>)"
| pop_read: "cq_cons s = C_Read t \<Longrightarrow>
    spsc_step s (s\<lparr>cq_cons := C_Advance t (cq_ring s ! t)\<rparr>)"
| pop_advance: "cq_cons s = C_Advance t c \<Longrightarrow>
    spsc_step s (s\<lparr>cq_tail_mo := cq_tail_mo s @ [(t + 1) mod (cq_capacity s + 1)], cq_cons := C_Idle,
      cq_delivered := cq_delivered s @ [c]\<rparr>)"

text \<open>
  The invariant, over the numbers \<open>H\<close> of published and \<open>T\<close> of consumed chunks: the indices
  are these counters modulo the ring size, and neither side ever relies on a slot the other
  may still touch.
\<close>

definition mo_upto :: "nat \<Rightarrow> nat \<Rightarrow> nat list" where
  "mo_upto N k = map (\<lambda>i. i mod N) [0..<Suc k]"

fun prod_ok :: "nat \<Rightarrow> nat \<Rightarrow> nat \<Rightarrow> vw_audio_chunk list \<Rightarrow> producer_pc \<Rightarrow> bool" where
  "prod_ok N H lim ring P_Idle = True"
| "prod_ok N H lim ring (P_Check c h n) = (h = H mod N \<and> n = Suc H mod N)"
| "prod_ok N H lim ring (P_Write c h n) = (h = H mod N \<and> n = Suc H mod N \<and> H < lim)"
| "prod_ok N H lim ring (P_Publish c n) = (n = Suc H mod N \<and> H < lim \<and> ring ! (H mod N) = c)"

fun cons_ok :: "nat \<Rightarrow> nat \<Rightarrow> nat \<Rightarrow> vw_audio_chunk list \<Rightarrow> consumer_pc \<Rightarrow> bool" where
  "cons_ok N T seen acc C_Idle = True"
| "cons_ok N T seen acc (C_Check t) = (t = T mod N)"
| "cons_ok N T seen acc (C_Read t) = (t = T mod N \<and> T < seen)"
| "cons_ok N T seen acc (C_Advance t c) = (t = T mod N \<and> T < seen \<and> c = acc ! T)"

definition spsc_conc_inv :: "spsc_conc \<Rightarrow> bool" where
  "spsc_conc_inv s \<longleftrightarrow>
     (let N = Suc (cq_capacity s); H = length (cq_accepted s); T = length (cq_delivered s) in
      length (cq_ring s) = N \<and> cq_head_mo s = mo_upto N H \<and> cq_tail_mo s = mo_upto N T
      \<and> cq_tail_seen s \<le> T \<and> T \<le> cq_head_seen s \<and> cq_head_seen s \<le> H
      \<and> H \<le> cq_tail_seen s + cq_capacity s
      \<and> cq_delivered s = take T (cq_accepted s)
      \<and> (\<forall>k. T \<le> k \<and> k < H \<longrightarrow> cq_ring s ! (k mod N) = cq_accepted s ! k)
      \<and> prod_ok N H (cq_tail_seen s + cq_capacity s) (cq_ring s) (cq_prod s)
      \<and> cons_ok N T (cq_head_seen s) (cq_accepted s) (cq_cons s))"

lemma mo_upto_simps [simp]:
  "length (mo_upto N k) = Suc k" "i \<le> k \<Longrightarrow> mo_upto N k ! i = i mod N"
  "last (mo_upto N k) = k mod N" "mo_upto N k @ [Suc k mod N] = mo_upto N (Suc k)"
  by (simp_all add: mo_upto_def del: upt_Suc) (simp_all add: nth_append)

lemma mod_window:
  assumes "a mod N = b mod N" "a \<le> b" "b < a + N"
  shows "a = (b :: nat)"
proof -
  have "N dvd b - a" using assms(1,2) by (simp add: mod_eq_dvd_iff_nat [THEN iffD1])
  moreover have "b - a < N" using assms by linarith
  ultimately have "b - a = 0" using nat_dvd_not_less[of "b - a" N] by auto
  with assms(2) show ?thesis by simp
qed

lemma spsc_conc_inv_init: "0 < cap \<Longrightarrow> spsc_conc_inv (spsc_conc_init cap)"
  by (simp add: spsc_conc_inv_def spsc_conc_init_def mo_upto_def)

lemma spsc_conc_invD:
  assumes "spsc_conc_inv s"
  defines "N \<equiv> Suc (cq_capacity s)" and "H \<equiv> length (cq_accepted s)" and "T \<equiv> length (cq_delivered s)"
  shows "length (cq_ring s) = N" "cq_head_mo s = mo_upto N H" "cq_tail_mo s = mo_upto N T"
    "cq_tail_seen s \<le> T" "T \<le> cq_head_seen s" "cq_head_seen s \<le> H"
    "H \<le> cq_tail_seen s + cq_capacity s" "cq_delivered s = take T (cq_accepted s)"
    "\<And>k. T \<le> k \<Longrightarrow> k < H \<Longrightarrow> cq_ring s ! (k mod N) = cq_accepted s ! k"
    "prod_ok N H (cq_tail_seen s + cq_capacity s) (cq_ring s) (cq_prod s)"
    "cons_ok N T (cq_head_seen s) (cq_accepted s) (cq_cons s)"
  using assms unfolding spsc_conc_inv_def Let_def by blast+

lemma cons_ok_append: "cons_ok N T seen acc pc \<Longrightarrow> seen \<le> length acc \<Longrightarrow> cons_ok N T seen (acc @ ys) pc"
  by (cases pc) (auto simp: nth_append)

lemma spsc_step_inv:
  assumes "spsc_step s s'" "spsc_conc_inv s"
  shows "spsc_conc_inv s'"
  using assms(1)
proof cases
  case (push_begin h c)
  with spsc_conc_invD[OF assms(2)] show ?thesis
    by (simp add: spsc_conc_inv_def Let_def mod_Suc_eq)
next
  case (push_full c h n i)
  with spsc_conc_invD[OF assms(2)] show ?thesis
    by (simp add: spsc_conc_inv_def Let_def)
next
  case (push_room c h n i)
  note inv = spsc_conc_invD[OF assms(2)]
  let ?N = "Suc (cq_capacity s)" and ?H = "length (cq_accepted s)"
  have i: "i \<le> length (cq_delivered s)" using push_room(4) inv(3) by simp
  have "?H \<noteq> i + cq_capacity s"
  proof
    assume "?H = i + cq_capacity s"
    then have "Suc ?H mod ?N = i mod ?N" by (metis add_Suc_right mod_add_self2)
    then show False using push_room inv(3,10) i by simp
  qed
  then have "?H < i + cq_capacity s" using inv(7) push_room(3) by linarith
  with inv i push_room show ?thesis by (simp add: spsc_conc_inv_def Let_def)
next
  case (push_write c h n)
  note inv = spsc_conc_invD[OF assms(2)]
  let ?N = "Suc (cq_capacity s)" and ?H = "length (cq_accepted s)" and ?T = "length (cq_delivered s)"
  have p: "h = ?H mod ?N" "n = Suc ?H mod ?N" "?H < cq_tail_seen s + cq_capacity s"
    using inv(10) push_write by simp_all
  have slot: "k mod ?N \<noteq> h" if "?T \<le> k" "k < ?H" for k
    using mod_window[of k ?N ?H] that p inv(4) by auto
  then have ring: "(cq_ring s)[h := c] ! (k mod ?N) = cq_accepted s ! k" if "?T \<le> k" "k < ?H" for k
    using inv(9)[OF that] that by (metis nth_list_update_neq)
  have "h < length (cq_ring s)" using inv(1) p(1) by simp
  then have "(cq_ring s)[h := c] ! h = c" by simp
  with inv push_write p ring show ?thesis
    by (simp add: spsc_conc_inv_def Let_def)
next
  case (push_publish c n)
  note inv = spsc_conc_invD[OF assms(2)]
  have p: "n = Suc (length (cq_accepted s)) mod Suc (cq_capacity s)"
    "length (cq_accepted s) < cq_tail_seen s + cq_capacity s"
    "cq_ring s ! (length (cq_accepted s) mod Suc (cq_capacity s)) = c"
    using inv(10) push_publish by simp_all
  have "cons_ok (Suc (cq_capacity s)) (length (cq_delivered s)) (cq_head_seen s) (cq_accepted s @ [c]) (cq_cons s)"
    using inv(6,11) by (rule cons_ok_append [rotated])
  with inv push_publish p show ?thesis
    by (auto simp: spsc_conc_inv_def Let_def nth_append less_Suc_eq)
next
  case pop_begin
  with spsc_conc_invD[OF assms(2)] show ?thesis
    by (simp add: spsc_conc_inv_def Let_def)
next
  case (pop_empty t i)
  with spsc_conc_invD[OF assms(2)] show ?thesis
    by (simp add: spsc_conc_inv_def Let_def)
next
  case (pop_some t i)
  note inv = spsc_conc_invD[OF assms(2)]
  have i: "i \<le> length (cq_accepted s)" using pop_some(4) inv(2) by simp
  have "length (cq_delivered s) \<noteq> i" using pop_some inv(2,11) i by auto
  with inv i pop_some show ?thesis by (simp add: spsc_conc_inv_def Let_def)
next
  case (pop_read t)
  with spsc_conc_invD[OF assms(2)] show ?thesis
    by (simp add: spsc_conc_inv_def Let_def)
next
  case (pop_advance t c)
  note inv = spsc_conc_invD[OF assms(2)]
  have p: "t = length (cq_delivered s) mod Suc (cq_capacity s)" "length (cq_delivered s) < cq_head_seen s"
    "c = cq_accepted s ! length (cq_delivered s)"
    using inv(11) pop_advance by simp_all
  have "cq_delivered s @ [c] = take (Suc (length (cq_delivered s))) (cq_accepted s)"
    using inv(6,8) p by (simp add: take_Suc_conv_app_nth)
  with inv pop_advance p show ?thesis
    by (simp add: spsc_conc_inv_def Let_def mod_Suc_eq)
qed

lemma spsc_reachable_inv:
  assumes "spsc_step\<^sup>*\<^sup>* (spsc_conc_init cap) s" "0 < cap"
  shows "spsc_conc_inv s \<and> cq_capacity s = cap"
  using assms
proof (induction rule: rtranclp_induct)
  case base
  then show ?case by (simp add: spsc_conc_inv_init) (simp add: spsc_conc_init_def)
next
  case (step s s')
  then have "cq_capacity s' = cq_capacity s" by (auto elim: spsc_step.cases)
  with step spsc_step_inv[of s s'] show ?case by simp
qed

text \<open>
  Property C2.  Under every interleaving of the atomic accesses of one producer and one
  consumer, stale index loads included: the accepted chunks are the delivered ones, in
  order and uncorrupted, followed by the chunks in the ring, of which there are at most
  \<^verbatim>\<open>capacity_chunks\<close>; and the producer never writes the slot that the consumer is reading.
\<close>
theorem spsc_concurrent_safe:
  assumes "0 < cap" "spsc_step\<^sup>*\<^sup>* (spsc_conc_init cap) s"
  shows "cq_accepted s = cq_delivered s
      @ ring_slice (cq_ring s) (last (cq_tail_mo s)) (length (cq_accepted s) - length (cq_delivered s))
    \<and> length (cq_accepted s) - length (cq_delivered s) \<le> cap
    \<and> (\<forall>c h n t. cq_prod s = P_Write c h n \<and> cq_cons s = C_Read t \<longrightarrow> h \<noteq> t)"
proof -
  have "spsc_conc_inv s" and cap: "cq_capacity s = cap"
    using spsc_reachable_inv[OF assms(2,1)] by blast+
  note inv = spsc_conc_invD[OF this(1)]
  let ?N = "Suc (cq_capacity s)" and ?H = "length (cq_accepted s)" and ?T = "length (cq_delivered s)"
  have "ring_slice (cq_ring s) (last (cq_tail_mo s)) (?H - ?T) = drop ?T (cq_accepted s)"
    using inv(1,3,9) by (intro nth_equalityI) (auto simp: mod_add_left_eq)
  moreover have "?H - ?T \<le> cap" using inv(4,7) cap by linarith
  moreover have "h \<noteq> t" if "cq_prod s = P_Write c h n" "cq_cons s = C_Read t" for c h n t
    using that inv(4,6,10,11) mod_window[of ?T ?N ?H] by auto
  ultimately show ?thesis
    using inv(8) by (metis append_take_drop_id)
qed

theorem spsc_concurrent_safe_witness:
  "\<exists>s. spsc_step\<^sup>*\<^sup>* (spsc_conc_init 1) s \<and> cq_accepted s = [zero_chunk]
    \<and> cq_accepted s = cq_delivered s
      @ ring_slice (cq_ring s) (last (cq_tail_mo s)) (length (cq_accepted s) - length (cq_delivered s))"
proof -
  define s0 where "s0 = spsc_conc_init 1"
  define s1 where "s1 = s0\<lparr>cq_prod := P_Check zero_chunk 0 1\<rparr>"
  define s2 where "s2 = s0\<lparr>cq_prod := P_Write zero_chunk 0 1\<rparr>"
  define s3 where "s3 = s0\<lparr>cq_prod := P_Publish zero_chunk 1\<rparr>"
  define s4 where "s4 = s0\<lparr>cq_head_mo := [0, 1], cq_accepted := [zero_chunk]\<rparr>"
  note d = spsc_conc_init_def s0_def s1_def s2_def s3_def s4_def
  have "spsc_step s0 s1" using push_begin[of s0 0 zero_chunk] by (simp add: d)
  moreover have "spsc_step s1 s2" using push_room[of s1 zero_chunk 0 1 0] by (simp add: d)
  moreover have "spsc_step s2 s3" using push_write[of s2 zero_chunk 0 1] by (simp add: d)
  moreover have "spsc_step s3 s4" using push_publish[of s3 zero_chunk 1] by (simp add: d)
  ultimately have r: "spsc_step\<^sup>*\<^sup>* (spsc_conc_init 1) s4"
    unfolding s0_def [symmetric] by (meson converse_rtranclp_into_rtranclp rtranclp.rtrancl_refl)
  have "cq_accepted s4 = [zero_chunk]" by (simp add: s4_def)
  with spsc_concurrent_safe[OF zero_less_one r] r show ?thesis by blast
qed

end
