(* ===== verification/VW_Audio_Capture.thy ===== *)
theory VW_Audio_Capture
  imports VW_Ieee VW_Spsc_Queue
begin

text \<open>
  \<^verbatim>\<open>plugin/src/vw_audio_capture.c\<close>: the realtime callback that downmixes a block to mono,
  resamples it to the target rate with an integer accumulator and cuts it into chunks for
  the ring of \<open>VW_Spsc_Queue\<close>.

  The loops are modelled as the code has them; the second half shows that they compute the
  same as a pipeline of three list functions (resample, cut, push).  \<open>None\<close> as the outer
  result is undefined behaviour in C: a conversion of NaN to an integer, a read past the
  sample array, an overflow of the 32-bit sum.
\<close>

section \<open>State\<close>

definition VW_AUDIO_TARGET_RATE :: u32 where "VW_AUDIO_TARGET_RATE = 16000"
definition MAX_OUT_FRAMES :: nat where "MAX_OUT_FRAMES = 16384 div 2"

text \<open>
  \<^verbatim>\<open>reset_pending\<close> and \<^verbatim>\<open>playback_rate\<close> are pointers to atomics that may be \<^verbatim>\<open>NULL\<close>; the
  rate is a binary32 pattern.
\<close>

record vw_audio_capture =
  ac_target_sample_rate :: u32
  ac_target_channels :: u32
  ac_sample_remainder :: u32
  ac_last_pts_us :: i64
  ac_total_samples_processed :: u64
  ac_total_input_frames :: u64
  ac_resample_acc :: u32
  ac_resample_source_rate :: u32
  ac_reset_pending :: "bool option"
  ac_queue :: "vw_spsc_queue option"
  ac_playback_rate :: "u32 option"

datatype vw_audio_format = VW_AUDIO_FORMAT_S16 | VW_AUDIO_FORMAT_S32 | VW_AUDIO_FORMAT_FL32

text \<open>\<open>ai_pcm_data\<close> holds one 32-bit pattern per sample; a 16-bit sample is its low half.\<close>

record vw_audio_input =
  ai_pcm_data :: "u32 list option"
  ai_frame_count :: nat
  ai_pts_us :: i64
  ai_format :: vw_audio_format
  ai_sample_rate :: u32
  ai_channels :: u32

section \<open>One output sample\<close>

definition in_i32 :: "int \<Rightarrow> bool" where
  "in_i32 x \<longleftrightarrow> - 2147483648 \<le> x \<and> x \<le> 2147483647"

text \<open>The contribution of one channel: clamp and scale, take as is, or shift by 16.\<close>

definition f32_to_pcm :: "u32 \<Rightarrow> int option" where
  "f32_to_pcm sample =
     (if f32_nan sample then None
      else let v = f32_val sample;
               v = (if v > 1 then 1 else v);
               v = (if v < - 1 then - 1 else v)
           in Some (trunc0 (rne 24 (v * 32767))))"

definition sample_value :: "vw_audio_format \<Rightarrow> u32 \<Rightarrow> int option" where
  "sample_value fmt w =
     (case fmt of
        VW_AUDIO_FORMAT_FL32 \<Rightarrow> f32_to_pcm w
      | VW_AUDIO_FORMAT_S16 \<Rightarrow> Some (sint (ucast w :: 16 word))
      | VW_AUDIO_FORMAT_S32 \<Rightarrow> Some (sint w div 65536))"

fun sum_channels :: "vw_audio_format \<Rightarrow> u32 list \<Rightarrow> int \<Rightarrow> int option" where
  "sum_channels fmt [] s = Some s"
| "sum_channels fmt (w # ws) s =
     (case sample_value fmt w of None \<Rightarrow> None
      | Some x \<Rightarrow> if in_i32 (s + x) then sum_channels fmt ws (s + x) else None)"

text \<open>C division truncates towards zero.\<close>

definition c_div :: "int \<Rightarrow> int \<Rightarrow> int" where
  "c_div a b = (if (0 \<le> a) = (0 < b) then \<bar>a\<bar> div \<bar>b\<bar> else - (\<bar>a\<bar> div \<bar>b\<bar>))"

definition clamp_s16 :: "int \<Rightarrow> int" where
  "clamp_s16 x = (let x = (if x > 32767 then 32767 else x) in if x < - 32768 then - 32768 else x)"

definition frame_samples :: "vw_audio_input \<Rightarrow> nat \<Rightarrow> u32 list option" where
  "frame_samples input in_idx =
     (case ai_pcm_data input of None \<Rightarrow> None
      | Some pcm \<Rightarrow>
          let n = unat (ai_channels input) in
          if (in_idx + 1) * n \<le> length pcm then Some (take n (drop (in_idx * n) pcm)) else None)"

definition mono_sample :: "vw_audio_input \<Rightarrow> nat \<Rightarrow> int option" where
  "mono_sample input in_idx = do {
     ws \<leftarrow> frame_samples input in_idx;
     s \<leftarrow> sum_channels (ai_format input) ws 0;
     Some (clamp_s16 (c_div s (sint (ai_channels input))))
   }"

section \<open>The conversion loop\<close>

text \<open>
  The locals of the loop: the open chunk (its samples so far, \<^verbatim>\<open>chunk_frames\<close> being their
  number, and its start), the running time stamp and the emitted count.
\<close>

record capture_loop =
  cl_pcm :: "int list"
  cl_start_pts_us :: i64
  cl_current_pts_us :: i64
  cl_total_emitted :: nat
  cl_queue :: vw_spsc_queue

definition chunk_duration :: "u32 \<Rightarrow> nat \<Rightarrow> i64" where
  "chunk_duration target_rate frames =
     (int frames * 1000000 + uint target_rate - 1) div uint target_rate"

definition make_chunk :: "u32 \<Rightarrow> i64 \<Rightarrow> int list \<Rightarrow> vw_audio_chunk" where
  "make_chunk target_rate start pcm = \<lparr>ch_start_pts_us = start,
     ch_duration_us = chunk_duration target_rate (length pcm), ch_sample_rate = target_rate,
     ch_channels = 1, ch_bytes = of_nat (length pcm * 2), ch_pcm = pcm\<rparr>"

text \<open>The body of the \<^verbatim>\<open>while\<close> after the accumulator step: append a sample, push a full chunk.\<close>

definition emit_sample :: "u32 \<Rightarrow> int \<Rightarrow> capture_loop \<Rightarrow> capture_loop" where
  "emit_sample target_rate m st =
     (let pcm = cl_pcm st @ [m];
          st = st\<lparr>cl_pcm := pcm, cl_total_emitted := cl_total_emitted st + 1\<rparr>
      in if length pcm = MAX_OUT_FRAMES then
           let current = cl_current_pts_us st + chunk_duration target_rate (length pcm)
           in st\<lparr>cl_pcm := [], cl_start_pts_us := current, cl_current_pts_us := current,
                cl_queue := snd (spsc_push (cl_queue st)
                  (make_chunk target_rate (cl_start_pts_us st) pcm))\<rparr>
         else st)"

fun emit_while :: "vw_audio_input \<Rightarrow> u32 \<Rightarrow> nat \<Rightarrow> nat \<Rightarrow> capture_loop \<Rightarrow> (nat \<times> capture_loop) option" where
  "emit_while input target_rate in_idx acc st =
     (if 0 < unat (ai_sample_rate input) \<and> unat (ai_sample_rate input) \<le> acc then
        (case mono_sample input in_idx of
           None \<Rightarrow> None
         | Some m \<Rightarrow> emit_while input target_rate in_idx (acc - unat (ai_sample_rate input))
             (emit_sample target_rate m st))
      else Some (acc, st))"

declare emit_while.simps [simp del]

fun frame_loop :: "vw_audio_input \<Rightarrow> u32 \<Rightarrow> nat list \<Rightarrow> nat \<Rightarrow> capture_loop \<Rightarrow> (nat \<times> capture_loop) option" where
  "frame_loop input target_rate [] acc st = Some (acc, st)"
| "frame_loop input target_rate (i # is) acc st =
     (case emit_while input target_rate i (acc + unat target_rate) st of
        None \<Rightarrow> None
      | Some (acc', st') \<Rightarrow> frame_loop input target_rate is acc' st')"

section \<open>The callback\<close>

definition f32_above_4 :: "u32 \<Rightarrow> bool" where
  "f32_above_4 r \<longleftrightarrow> \<not> f32_nan r \<and> f32_val r > 4"

definition apply_reset :: "vw_audio_capture \<Rightarrow> vw_audio_capture" where
  "apply_reset cap =
     (if ac_reset_pending cap = Some True then
        cap\<lparr>ac_resample_acc := 0, ac_sample_remainder := 0, ac_total_input_frames := 0,
          ac_resample_source_rate := 0, ac_last_pts_us := 0, ac_reset_pending := Some False\<rparr>
      else cap)"

definition apply_source_rate :: "u32 \<Rightarrow> u32 \<Rightarrow> vw_audio_capture \<Rightarrow> vw_audio_capture" where
  "apply_source_rate sample_rate target_rate cap =
     (if ac_resample_source_rate cap \<noteq> sample_rate then
        cap\<lparr>ac_resample_source_rate := sample_rate,
          ac_resample_acc := (if sample_rate > target_rate then sample_rate - target_rate else 0)\<rparr>
      else cap)"

definition convert_block :: "vw_audio_input \<Rightarrow> u32 \<Rightarrow> vw_spsc_queue \<Rightarrow> vw_audio_capture \<Rightarrow> vw_audio_capture option" where
  "convert_block input target_rate q cap = do {
     (acc, st) \<leftarrow> frame_loop input target_rate [0..<ai_frame_count input]
       (unat (ac_resample_acc cap))
       \<lparr>cl_pcm = [], cl_start_pts_us = ai_pts_us input, cl_current_pts_us = ai_pts_us input,
         cl_total_emitted = 0, cl_queue = q\<rparr>;
     let (current, q') =
       (if length (cl_pcm st) > 0 then
          (cl_current_pts_us st + chunk_duration target_rate (length (cl_pcm st)),
           snd (spsc_push (cl_queue st) (make_chunk target_rate (cl_start_pts_us st) (cl_pcm st))))
        else (cl_current_pts_us st, cl_queue st));
     Some (cap\<lparr>ac_resample_acc := of_nat acc, ac_sample_remainder := of_nat acc,
       ac_total_input_frames := ac_total_input_frames cap + of_nat (ai_frame_count input),
       ac_last_pts_us := current,
       ac_total_samples_processed := ac_total_samples_processed cap + of_nat (cl_total_emitted st),
       ac_queue := Some q'\<rparr>)
   }"

definition vw_audio_capture_process_block ::
  "vw_audio_capture option \<Rightarrow> vw_audio_input option \<Rightarrow> (bool \<times> vw_audio_capture option) option" where
  "vw_audio_capture_process_block cap_opt input_opt =
     (case (cap_opt, input_opt) of
        (Some cap, Some input) \<Rightarrow>
          (case ac_queue cap of
             None \<Rightarrow> Some (False, cap_opt)
           | Some q \<Rightarrow>
               if ai_pcm_data input = None \<or> ai_frame_count input = 0 then Some (False, cap_opt)
               else if ai_sample_rate input = 0 \<or> ai_channels input = 0 then Some (False, cap_opt)
               else
                 let target_rate = (if ac_target_sample_rate cap \<noteq> 0 then ac_target_sample_rate cap
                                    else VW_AUDIO_TARGET_RATE) in
                 if target_rate = 0 then Some (False, cap_opt)
                 else
                   let cap = apply_reset cap in
                   if (case ac_playback_rate cap of None \<Rightarrow> False | Some r \<Rightarrow> f32_above_4 r) then
                     Some (True, Some (cap\<lparr>
                       ac_total_input_frames := ac_total_input_frames cap + of_nat (ai_frame_count input),
                       ac_last_pts_us := ai_pts_us input\<rparr>))
                   else
                     (case convert_block input target_rate q
                        (apply_source_rate (ai_sample_rate input) target_rate cap) of
                        None \<Rightarrow> None
                      | Some cap' \<Rightarrow> Some (True, Some cap')))
      | _ \<Rightarrow> Some (False, cap_opt))"

section \<open>The pipeline as list functions\<close>

text \<open>
  \<open>resample\<close>: input frame \<open>i\<close> is emitted once for every multiple of the source rate that the
  accumulator crosses in its step.  \<open>cut_chunks\<close>: blocks of \<^verbatim>\<open>max_out_frames_per_chunk\<close>
  samples, each starting where the previous one ends.
\<close>

definition resample :: "nat \<Rightarrow> nat \<Rightarrow> (nat \<Rightarrow> int) \<Rightarrow> nat \<Rightarrow> nat \<Rightarrow> int list" where
  "resample r t mix acc n =
     concat (map (\<lambda>i. replicate ((acc + Suc i * t) div r - (acc + i * t) div r) (mix i)) [0..<n])"

function cut_chunks :: "u32 \<Rightarrow> i64 \<Rightarrow> int list \<Rightarrow> vw_audio_chunk list" where
  "cut_chunks tr start xs =
     (if xs = [] then []
      else let c = take MAX_OUT_FRAMES xs
           in make_chunk tr start c
              # cut_chunks tr (start + chunk_duration tr (length c)) (drop MAX_OUT_FRAMES xs))"
  by pat_completeness auto
termination
  by (relation "measure (\<lambda>(_, _, xs). length xs)") (auto simp: MAX_OUT_FRAMES_def)

declare cut_chunks.simps [simp del]

definition push_all :: "vw_spsc_queue \<Rightarrow> vw_audio_chunk list \<Rightarrow> vw_spsc_queue" where
  "push_all q cs = foldl (\<lambda>q c. snd (spsc_push q c)) q cs"

lemma length_resample:
  "length (resample r t mix acc n) = (acc + n * t) div r - acc div r"
proof (induction n)
  case 0
  then show ?case by (simp add: resample_def)
next
  case (Suc n)
  have "acc div r \<le> (acc + n * t) div r" "(acc + n * t) div r \<le> (acc + Suc n * t) div r"
    by (simp_all add: div_le_mono)
  then show ?case using Suc by (simp add: resample_def)
qed

lemma resample_Suc:
  "resample r t mix acc (Suc n) = resample r t mix acc n
    @ replicate ((acc + Suc n * t) div r - (acc + n * t) div r) (mix n)"
  by (simp add: resample_def)

lemma resample_shift:
  assumes "0 < r"
  shows "resample r t mix (acc + k * r) n = resample r t mix acc n"
proof -
  have "(acc + k * r + x) div r = (acc + x) div r + k" for x
  proof -
    have "acc + k * r + x = (acc + x) + k * r" by simp
    then have "(acc + k * r + x) div r = ((acc + x) + k * r) div r" by (simp only:)
    also have "\<dots> = (acc + x) div r + k" using assms by simp
    finally show ?thesis .
  qed
  then show ?thesis by (simp only: resample_def diff_add_inverse2 diff_cancel2)
qed

text \<open>Cutting the input into blocks does not change the output: the phase is carried exactly.\<close>

lemma resample_append:
  assumes "0 < r"
  shows "resample r t mix acc (n + m) =
    resample r t mix acc n @ resample r t (\<lambda>i. mix (n + i)) ((acc + n * t) mod r) m"
proof -
  have "acc + n * t = (acc + n * t) mod r + (acc + n * t) div r * r" by simp
  then have "resample r t (\<lambda>i. mix (n + i)) (acc + n * t) m
      = resample r t (\<lambda>i. mix (n + i)) ((acc + n * t) mod r) m"
    using resample_shift[OF assms] by metis
  moreover have "resample r t mix acc (n + m) =
      resample r t mix acc n @ resample r t (\<lambda>i. mix (n + i)) (acc + n * t) m"
    by (induction m) (simp_all add: resample_Suc algebra_simps, simp add: resample_def)
  ultimately show ?thesis by simp
qed

section \<open>The loops compute the pipeline\<close>

abbreviation emit_all :: "u32 \<Rightarrow> capture_loop \<Rightarrow> int list \<Rightarrow> capture_loop" where
  "emit_all tr \<equiv> foldl (\<lambda>st m. emit_sample tr m st)"

lemma emit_while_eq:
  assumes "0 < unat (ai_sample_rate input)" "mono_sample input i = Some m"
  shows "emit_while input tr i acc st =
    Some (acc mod unat (ai_sample_rate input),
          emit_all tr st (replicate (acc div unat (ai_sample_rate input)) m))"
proof (induction acc arbitrary: st rule: less_induct)
  case (less acc)
  let ?r = "unat (ai_sample_rate input)"
  show ?case
  proof (cases "?r \<le> acc")
    case True
    then have "emit_while input tr i acc st = emit_while input tr i (acc - ?r) (emit_sample tr m st)"
      using assms by (subst emit_while.simps) simp
    also have "\<dots> = Some ((acc - ?r) mod ?r,
        emit_all tr (emit_sample tr m st) (replicate ((acc - ?r) div ?r) m))"
      using less True assms(1) by simp
    also have "\<dots> = Some (acc mod ?r, emit_all tr st (replicate (acc div ?r) m))"
      using True assms(1) by (simp add: le_mod_geq le_div_geq)
    finally show ?thesis .
  next
    case False
    then show ?thesis by (subst emit_while.simps) simp
  qed
qed

lemma frame_loop_eq:
  assumes r: "0 < unat (ai_sample_rate input)"
    and mix: "\<And>i. i < n \<Longrightarrow> mono_sample input i = Some (mix i)"
    and acc: "acc < unat (ai_sample_rate input)"
  shows "frame_loop input tr [0..<n] acc st =
    Some ((acc + n * unat tr) mod unat (ai_sample_rate input),
          emit_all tr st (resample (unat (ai_sample_rate input)) (unat tr) mix acc n))"
proof -
  let ?r = "unat (ai_sample_rate input)" and ?t = "unat tr"
  have append: "frame_loop input tr (is @ js) a s =
      (case frame_loop input tr is a s of None \<Rightarrow> None
       | Some (a', s') \<Rightarrow> frame_loop input tr js a' s')" for "is" js a s
    by (induction "is" arbitrary: a s) (auto split: option.splits)
  show ?thesis
    using mix
  proof (induction n)
    case 0
    then show ?case using acc by (simp add: resample_def)
  next
    case (Suc n)
    let ?b = "acc + n * ?t"
    have "frame_loop input tr [0..<n] acc st =
        Some (?b mod ?r, emit_all tr st (resample ?r ?t mix acc n))"
      using Suc by simp
    moreover have "emit_while input tr n (?b mod ?r + ?t) s =
        Some ((?b mod ?r + ?t) mod ?r, emit_all tr s (replicate ((?b mod ?r + ?t) div ?r) (mix n)))" for s
      using emit_while_eq[OF r] Suc.prems by blast
    moreover have "(?b mod ?r + ?t) mod ?r = (acc + Suc n * ?t) mod ?r"
    proof -
      have "acc + Suc n * ?t = ?b + ?t" by simp
      then show ?thesis by (simp only: mod_add_left_eq)
    qed
    moreover have "(?b mod ?r + ?t) div ?r = (acc + Suc n * ?t) div ?r - ?b div ?r"
    proof -
      have "acc + Suc n * ?t = (?b mod ?r + ?t) + ?b div ?r * ?r" by (simp add: algebra_simps)
      then have "(acc + Suc n * ?t) div ?r = (?b mod ?r + ?t) div ?r + ?b div ?r"
        using r by (metis add.commute div_mult_self1 less_not_refl)
      then show ?thesis by simp
    qed
    ultimately show ?case by (simp add: append resample_Suc)
  qed
qed

lemma emit_all_short:
  "length (cl_pcm st) + length xs < MAX_OUT_FRAMES \<Longrightarrow>
    emit_all tr st xs = st\<lparr>cl_pcm := cl_pcm st @ xs, cl_total_emitted := cl_total_emitted st + length xs\<rparr>"
  by (induction xs arbitrary: st) (simp_all add: emit_sample_def)

definition finish_loop :: "u32 \<Rightarrow> capture_loop \<Rightarrow> i64 \<times> vw_spsc_queue" where
  "finish_loop tr st =
     (if length (cl_pcm st) > 0 then
        (cl_current_pts_us st + chunk_duration tr (length (cl_pcm st)),
         snd (spsc_push (cl_queue st) (make_chunk tr (cl_start_pts_us st) (cl_pcm st))))
      else (cl_current_pts_us st, cl_queue st))"

lemma emit_all_full:
  assumes "cl_pcm st = []" "length xs = MAX_OUT_FRAMES"
  shows "emit_all tr st xs =
    st\<lparr>cl_pcm := [], cl_total_emitted := cl_total_emitted st + MAX_OUT_FRAMES,
      cl_start_pts_us := cl_current_pts_us st + chunk_duration tr MAX_OUT_FRAMES,
      cl_current_pts_us := cl_current_pts_us st + chunk_duration tr MAX_OUT_FRAMES,
      cl_queue := snd (spsc_push (cl_queue st) (make_chunk tr (cl_start_pts_us st) xs))\<rparr>"
proof -
  obtain ys m where xs: "xs = ys @ [m]"
    using assms(2) by (cases xs rule: rev_cases) (auto simp: MAX_OUT_FRAMES_def)
  then have "emit_all tr st ys = st\<lparr>cl_pcm := ys, cl_total_emitted := cl_total_emitted st + length ys\<rparr>"
    using emit_all_short[of st ys tr] assms by simp
  then show ?thesis using assms(2) xs by (simp add: emit_sample_def Let_def)
qed

lemma finish_emit_all:
  assumes "cl_pcm st = []" "cl_start_pts_us st = cl_current_pts_us st"
  shows "finish_loop tr (emit_all tr st xs) =
      (cl_current_pts_us st + sum_list (map ch_duration_us (cut_chunks tr (cl_current_pts_us st) xs)),
       push_all (cl_queue st) (cut_chunks tr (cl_current_pts_us st) xs))
    \<and> cl_total_emitted (emit_all tr st xs) = cl_total_emitted st + length xs"
  using assms
proof (induction tr "cl_current_pts_us st" xs arbitrary: st rule: cut_chunks.induct)
  case (1 tr xs st)
  show ?case
  proof (cases "length xs < MAX_OUT_FRAMES")
    case True
    then have "drop MAX_OUT_FRAMES xs = []" "take MAX_OUT_FRAMES xs = xs" by simp_all
    with True 1(2,3) emit_all_short[of st xs tr] show ?thesis
      by (auto simp: finish_loop_def push_all_def make_chunk_def cut_chunks.simps[of _ _ xs]
          cut_chunks.simps[of _ _ "[]"])
  next
    case False
    then have ne: "xs \<noteq> []" by (auto simp: MAX_OUT_FRAMES_def)
    let ?c = "take MAX_OUT_FRAMES xs" and ?d = "drop MAX_OUT_FRAMES xs"
    have len: "length ?c = MAX_OUT_FRAMES" using False by simp
    define st' where "st' = emit_all tr st ?c"
    note full = emit_all_full[OF 1(2) len, of tr, folded st'_def]
    have "emit_all tr st xs = emit_all tr st' ?d"
      unfolding st'_def by (metis append_take_drop_id foldl_append)
    with 1(1)[OF ne refl, of st'] full len 1(2,3) False show ?thesis
      by (simp add: cut_chunks.simps[of _ _ xs] ne push_all_def Let_def make_chunk_def)
  qed
qed

section \<open>Samples\<close>

lemma f32_to_pcm_bound: "f32_to_pcm w = Some x \<Longrightarrow> \<bar>x\<bar> \<le> 32767"
proof -
  assume a: "f32_to_pcm w = Some x"
  define v where "v = (let v = f32_val w; v = (if v > 1 then 1 else v) in if v < - 1 then - 1 else v)"
  have v: "\<bar>v\<bar> \<le> 1" by (simp add: v_def Let_def abs_le_iff)
  then have "\<bar>v * 32767\<bar> \<le> of_nat 32767" by (simp add: abs_mult)
  from trunc0_bound[OF rne_bound[OF this, of 24]] a show ?thesis
    by (simp add: f32_to_pcm_def v_def Let_def split: if_splits)
qed

lemma sample_value_bound: "sample_value fmt w = Some x \<Longrightarrow> - 32768 \<le> x \<and> x \<le> 32767"
proof (cases fmt)
  case VW_AUDIO_FORMAT_S16
  assume "sample_value fmt w = Some x"
  with VW_AUDIO_FORMAT_S16 sint_range_size[of "ucast w :: 16 word"] show ?thesis
    by (simp add: sample_value_def word_size)
next
  case VW_AUDIO_FORMAT_S32
  assume "sample_value fmt w = Some x"
  then have "x = sint w div 65536" using VW_AUDIO_FORMAT_S32 by (simp add: sample_value_def)
  moreover have "- 2147483648 \<le> sint w" "sint w \<le> 2147483647"
    using sint_range_size[of w] by (simp_all add: word_size)
  ultimately show ?thesis by linarith
next
  case VW_AUDIO_FORMAT_FL32
  assume "sample_value fmt w = Some x"
  with VW_AUDIO_FORMAT_FL32 f32_to_pcm_bound[of w x] show ?thesis
    by (simp add: sample_value_def abs_le_iff)
qed

lemma sample_value_None: "sample_value fmt w = None \<longleftrightarrow> fmt = VW_AUDIO_FORMAT_FL32 \<and> f32_nan w"
  by (cases fmt) (simp_all add: sample_value_def f32_to_pcm_def Let_def)

lemma sum_channels_defined:
  assumes "list_all (\<lambda>w. sample_value fmt w \<noteq> None) ws" "\<bar>s\<bar> \<le> 32768 * int k" "k + length ws \<le> 65535"
  shows "\<exists>s'. sum_channels fmt ws s = Some s' \<and> \<bar>s'\<bar> \<le> 32768 * int (k + length ws)"
  using assms
proof (induction ws arbitrary: s k)
  case Nil
  then show ?case by simp
next
  case (Cons w ws)
  then obtain x where x: "sample_value fmt w = Some x" by auto
  then have "\<bar>x\<bar> \<le> 32768" using sample_value_bound[OF x] by auto
  then have s: "\<bar>s + x\<bar> \<le> 32768 * int (Suc k)" using Cons.prems(2) by auto
  moreover have "Suc k \<le> 65535" using Cons.prems(3) by simp
  ultimately have "in_i32 (s + x)" by (simp add: in_i32_def) linarith
  with Cons.IH[OF _ s] Cons.prems x show ?case by simp
qed

lemma clamp_s16_range: "- 32768 \<le> clamp_s16 x \<and> clamp_s16 x \<le> 32767"
  by (simp add: clamp_s16_def Let_def)

text \<open>
  Property.  Downmixing is total and never leaves the 16-bit range: with up to 65535
  channels and the frame inside the buffer, it yields a sample unless a float sample is
  NaN (whose integer conversion is undefined in C); it is then undefined.
\<close>
theorem mono_sample_defined:
  assumes "ai_pcm_data input = Some pcm" "(i + 1) * unat (ai_channels input) \<le> length pcm"
    "0 < unat (ai_channels input)" "unat (ai_channels input) \<le> 65535"
  shows "(mono_sample input i = None \<longleftrightarrow>
      ai_format input = VW_AUDIO_FORMAT_FL32
      \<and> list_ex f32_nan (take (unat (ai_channels input)) (drop (i * unat (ai_channels input)) pcm)))
    \<and> (\<forall>m. mono_sample input i = Some m \<longrightarrow> - 32768 \<le> m \<and> m \<le> 32767)"
proof -
  let ?n = "unat (ai_channels input)"
  let ?ws = "take ?n (drop (i * ?n) pcm)"
  have ws: "frame_samples input i = Some ?ws" using assms(1,2) by (simp add: frame_samples_def Let_def)
  have none: "sum_channels fmt ws s = None" if "list_ex (\<lambda>w. sample_value fmt w = None) ws" for fmt ws s
    using that by (induction ws arbitrary: s) (auto split: option.splits)
  have "sum_channels (ai_format input) ?ws 0 = None \<longleftrightarrow>
      list_ex (\<lambda>w. sample_value (ai_format input) w = None) ?ws"
  proof
    assume s: "sum_channels (ai_format input) ?ws 0 = None"
    show "list_ex (\<lambda>w. sample_value (ai_format input) w = None) ?ws"
    proof (rule ccontr)
      assume "\<not> ?thesis"
      then have "list_all (\<lambda>w. sample_value (ai_format input) w \<noteq> None) ?ws"
        by (simp add: list_all_iff list_ex_iff)
      moreover have "0 + length ?ws \<le> 65535" using assms(4) by simp
      ultimately show False using sum_channels_defined[of "ai_format input" ?ws 0 0] s by auto
    qed
  qed (rule none)
  then have "mono_sample input i = None \<longleftrightarrow> list_ex (\<lambda>w. sample_value (ai_format input) w = None) ?ws"
    unfolding mono_sample_def ws by (auto simp: bind_eq_None_conv)
  moreover have "list_ex (\<lambda>w. sample_value (ai_format input) w = None) ?ws \<longleftrightarrow>
      ai_format input = VW_AUDIO_FORMAT_FL32 \<and> list_ex f32_nan ?ws"
    unfolding sample_value_None by (auto simp: list_ex_iff)
  moreover have "- 32768 \<le> m \<and> m \<le> 32767" if "mono_sample input i = Some m" for m
    using that clamp_s16_range unfolding mono_sample_def ws by (auto simp: bind_eq_Some_conv)
  ultimately show ?thesis by blast
qed

definition sample_input :: vw_audio_input where
  "sample_input = \<lparr>ai_pcm_data = Some [100, 0xFFFFFFF6, 7, 8], ai_frame_count = 2, ai_pts_us = 5000,
     ai_format = VW_AUDIO_FORMAT_S16, ai_sample_rate = 32000, ai_channels = 2\<rparr>"

theorem mono_sample_defined_witness:
  "\<exists>m. mono_sample sample_input 0 = Some m \<and> - 32768 \<le> m \<and> m \<le> 32767"
proof -
  have p: "ai_pcm_data sample_input = Some [100, 0xFFFFFFF6, 7, 8]"
    "(0 + 1) * unat (ai_channels sample_input) \<le> length [100, 0xFFFFFFF6, 7, 8 :: u32]"
    "0 < unat (ai_channels sample_input)" "unat (ai_channels sample_input) \<le> 65535"
    by (simp_all add: sample_input_def)
  have "ai_format sample_input \<noteq> VW_AUDIO_FORMAT_FL32" by (simp add: sample_input_def)
  with mono_sample_defined[OF p] show ?thesis by blast
qed

section \<open>The callback\<close>

text \<open>
  \<open>capture_ok\<close>: the accumulator is the remainder of a division by the current source rate.
\<close>

definition capture_ok :: "vw_audio_capture \<Rightarrow> bool" where
  "capture_ok cap \<longleftrightarrow> ac_resample_source_rate cap = 0 \<or> ac_resample_acc cap < ac_resample_source_rate cap"

definition effective_rate :: "vw_audio_capture \<Rightarrow> u32" where
  "effective_rate cap = (if ac_target_sample_rate cap \<noteq> 0 then ac_target_sample_rate cap else VW_AUDIO_TARGET_RATE)"

text \<open>The accumulator the conversion of a block starts from.\<close>

definition start_acc :: "vw_audio_capture \<Rightarrow> vw_audio_input \<Rightarrow> nat" where
  "start_acc cap input =
     unat (ac_resample_acc (apply_source_rate (ai_sample_rate input) (effective_rate cap) (apply_reset cap)))"

definition throttled :: "vw_audio_capture \<Rightarrow> bool" where
  "throttled cap \<longleftrightarrow> (case ac_playback_rate cap of None \<Rightarrow> False | Some r \<Rightarrow> f32_above_4 r)"

definition block_accepted :: "vw_audio_capture \<Rightarrow> vw_audio_input \<Rightarrow> bool" where
  "block_accepted cap input \<longleftrightarrow> ac_queue cap \<noteq> None \<and> ai_pcm_data input \<noteq> None \<and> 0 < ai_frame_count input
     \<and> ai_sample_rate input \<noteq> 0 \<and> ai_channels input \<noteq> 0"

lemma effective_rate_pos: "0 < effective_rate cap"
  by (simp add: effective_rate_def VW_AUDIO_TARGET_RATE_def word_neq_0_conv)

lemma start_acc_less:
  assumes "capture_ok cap" "ai_sample_rate input \<noteq> 0"
  shows "start_acc cap input < unat (ai_sample_rate input)"
proof -
  have t: "0 < effective_rate cap" by (rule effective_rate_pos)
  have "ai_sample_rate input - effective_rate cap < ai_sample_rate input"
    if "effective_rate cap < ai_sample_rate input"
    using that t by (simp add: word_less_nat_alt unat_sub_if')
  then show ?thesis
    using assms t unfolding start_acc_def word_less_nat_alt [symmetric]
    by (auto simp: apply_source_rate_def apply_reset_def capture_ok_def word_neq_0_conv)
qed

lemma convert_block_eq:
  fixes tr :: u32 and cap :: vw_audio_capture
  assumes r: "ai_sample_rate input \<noteq> 0"
    and acc: "unat (ac_resample_acc cap) < unat (ai_sample_rate input)"
    and mix: "\<And>i. i < ai_frame_count input \<Longrightarrow> mono_sample input i = Some (mix i)"
  defines "a \<equiv> unat (ac_resample_acc cap) + ai_frame_count input * unat tr"
    and "xs \<equiv> resample (unat (ai_sample_rate input)) (unat tr) mix (unat (ac_resample_acc cap)) (ai_frame_count input)"
  shows "convert_block input tr q cap = Some (cap\<lparr>
      ac_resample_acc := of_nat (a mod unat (ai_sample_rate input)),
      ac_sample_remainder := of_nat (a mod unat (ai_sample_rate input)),
      ac_total_input_frames := ac_total_input_frames cap + of_nat (ai_frame_count input),
      ac_last_pts_us := ai_pts_us input + sum_list (map ch_duration_us (cut_chunks tr (ai_pts_us input) xs)),
      ac_total_samples_processed := ac_total_samples_processed cap + of_nat (length xs),
      ac_queue := Some (push_all q (cut_chunks tr (ai_pts_us input) xs))\<rparr>)"
proof -
  define st where "st = \<lparr>cl_pcm = [], cl_start_pts_us = ai_pts_us input, cl_current_pts_us = ai_pts_us input,
         cl_total_emitted = 0, cl_queue = q\<rparr>"
  have "0 < unat (ai_sample_rate input)" using r by (simp add: unat_gt_0)
  from frame_loop_eq[OF this mix acc, where tr = tr and st = st]
  have "frame_loop input tr [0..<ai_frame_count input] (unat (ac_resample_acc cap)) st =
      Some (a mod unat (ai_sample_rate input), emit_all tr st xs)" by (simp add: a_def xs_def)
  moreover have "finish_loop tr (emit_all tr st xs) =
      (ai_pts_us input + sum_list (map ch_duration_us (cut_chunks tr (ai_pts_us input) xs)),
       push_all q (cut_chunks tr (ai_pts_us input) xs))"
    "cl_total_emitted (emit_all tr st xs) = length xs"
    using finish_emit_all[of st tr xs] by (simp_all add: st_def)
  ultimately show ?thesis
    unfolding convert_block_def st_def [symmetric] by (auto simp: finish_loop_def split: if_splits)
qed

text \<open>
  Property C31.  The callback implements the exact rational resampler: an accepted block of
  \<open>n\<close> frames at source rate \<open>r\<close> emits \<open>(acc + n * t) div r\<close> samples, the remainder stays in
  the accumulator for the next block (so no drift accumulates), and the samples go to the
  ring as consecutive chunks in order.
\<close>
theorem vw_audio_capture_converts:
  assumes "capture_ok cap" "block_accepted cap input" "ac_queue cap = Some q" "\<not> throttled cap"
    "\<forall>i < ai_frame_count input. mono_sample input i = Some (mix i)"
  defines "t \<equiv> effective_rate cap" and "r \<equiv> unat (ai_sample_rate input)" and "n \<equiv> ai_frame_count input"
    and "acc \<equiv> start_acc cap input"
  defines "xs \<equiv> resample r (unat t) mix acc n"
  shows "\<exists>cap'. vw_audio_capture_process_block (Some cap) (Some input) = Some (True, Some cap')
    \<and> capture_ok cap' \<and> length xs = (acc + n * unat t) div r
    \<and> unat (ac_resample_acc cap') = (acc + n * unat t) mod r
    \<and> ac_total_samples_processed cap' = ac_total_samples_processed cap + of_nat (length xs)
    \<and> ac_queue cap' = Some (push_all q (cut_chunks t (ai_pts_us input) xs))
    \<and> ac_last_pts_us cap' = ai_pts_us input + sum_list (map ch_duration_us (cut_chunks t (ai_pts_us input) xs))"
proof -
  define c where "c = apply_source_rate (ai_sample_rate input) t (apply_reset cap)"
  have keep: "ac_queue c = ac_queue cap" "ac_total_samples_processed c = ac_total_samples_processed cap"
    "ac_resample_source_rate c = ai_sample_rate input"
    "ac_playback_rate (apply_reset cap) = ac_playback_rate cap"
    by (auto simp: c_def apply_source_rate_def apply_reset_def)
  have r: "ai_sample_rate input \<noteq> 0" using assms(2) by (simp add: block_accepted_def)
  have a: "acc < r" using start_acc_less[OF assms(1) r] by (simp add: acc_def r_def)
  have ca: "unat (ac_resample_acc c) = acc" by (simp add: acc_def start_acc_def c_def t_def)
  have lt: "(acc + n * unat t) mod r < r" using a by simp
  also have "r < 2 ^ 32" using unsigned_less[of "ai_sample_rate input"] by (simp add: r_def)
  finally have un: "unat (of_nat ((acc + n * unat t) mod r) :: u32) = (acc + n * unat t) mod r"
    by (simp add: unat_of_nat)
  note conv = convert_block_eq[of input c mix t q, unfolded ca, folded r_def n_def, folded xs_def]
  have eq: "vw_audio_capture_process_block (Some cap) (Some input) =
      (case convert_block input t q c of None \<Rightarrow> None | Some cap' \<Rightarrow> Some (True, Some cap'))"
  proof -
    have "effective_rate cap \<noteq> 0" using effective_rate_pos[of cap] by auto
    with assms(2,3,4) keep(4) show ?thesis
      unfolding vw_audio_capture_process_block_def block_accepted_def throttled_def c_def t_def
      by (auto simp: effective_rate_def [symmetric] Let_def)
  qed
  show ?thesis
    unfolding eq using conv r a assms(5) lt un keep
    by (simp add: n_def capture_ok_def length_resample xs_def word_less_nat_alt r_def)
qed

theorem vw_audio_capture_converts_witness:
  "\<exists>cap'. vw_audio_capture_process_block
      (Some \<lparr>ac_target_sample_rate = 16000, ac_target_channels = 1, ac_sample_remainder = 0,
        ac_last_pts_us = 0, ac_total_samples_processed = 0, ac_total_input_frames = 0,
        ac_resample_acc = 0, ac_resample_source_rate = 0, ac_reset_pending = None,
        ac_queue = Some sample_queue, ac_playback_rate = None\<rparr>) (Some sample_input)
      = Some (True, Some cap') \<and> ac_total_samples_processed cap' = 1"
    (is "\<exists>cap'. vw_audio_capture_process_block (Some ?cap) _ = _ \<and> _")
proof -
  have ok: "capture_ok ?cap" "\<not> throttled ?cap" by (simp_all add: capture_ok_def throttled_def)
  have acc: "block_accepted ?cap sample_input" by (simp add: block_accepted_def sample_input_def)
  have q: "ac_queue ?cap = Some sample_queue" by simp
  have mix: "\<forall>i < ai_frame_count sample_input. mono_sample sample_input i = Some (the (mono_sample sample_input i))"
  proof -
    have "mono_sample sample_input 0 = Some 45" "mono_sample sample_input 1 = Some 7" by code_simp+
    then show ?thesis by (auto simp: sample_input_def less_2_cases_iff)
  qed
  have e: "effective_rate ?cap = 16000" "ai_frame_count sample_input = 2" "ai_sample_rate sample_input = 32000"
    by (simp_all add: effective_rate_def sample_input_def)
  have s: "start_acc ?cap sample_input = 16000"
    by (simp add: start_acc_def e apply_source_rate_def apply_reset_def sample_input_def)
  from vw_audio_capture_converts[OF ok(1) acc q ok(2) mix, unfolded e s] show ?thesis
    by (auto simp: s)
qed

section \<open>Chunks\<close>

lemma cut_chunks_concat: "concat (map ch_pcm (cut_chunks tr start xs)) = xs"
proof (induction tr start xs rule: cut_chunks.induct)
  case (1 tr start xs)
  then show ?case by (simp add: cut_chunks.simps[of tr start xs] Let_def make_chunk_def)
qed

lemma cut_chunks_shape:
  "c \<in> set (cut_chunks tr start xs) \<Longrightarrow>
    0 < length (ch_pcm c) \<and> length (ch_pcm c) \<le> MAX_OUT_FRAMES \<and> c = make_chunk tr (ch_start_pts_us c) (ch_pcm c)"
proof (induction tr start xs rule: cut_chunks.induct)
  case (1 tr start xs)
  show ?case
  proof (cases "xs = []")
    case True
    with 1(2) show ?thesis by (simp add: cut_chunks.simps)
  next
    case False
    with 1(2) consider "c = make_chunk tr start (take MAX_OUT_FRAMES xs)"
      | "c \<in> set (cut_chunks tr (start + chunk_duration tr (length (take MAX_OUT_FRAMES xs))) (drop MAX_OUT_FRAMES xs))"
      by (auto simp: cut_chunks.simps[of tr start xs] Let_def)
    then show ?thesis
    proof cases
      case 1
      with False show ?thesis by (simp add: make_chunk_def MAX_OUT_FRAMES_def)
    next
      case 2
      then show ?thesis using "1.IH"[OF False refl] by blast
    qed
  qed
qed

end
