(* ===== verification/VW_Caption_Presenter.thy ===== *)
theory VW_Caption_Presenter
  imports VW_Types VW_Util VW_Ieee "HOL-Library.Multiset"
begin

text \<open>
  \<^verbatim>\<open>plugin/src/vw_caption_presenter.c\<close> and \<^verbatim>\<open>plugin/include/vw_paused_preview_policy.h\<close>.
  VLC is a parameter: \<open>vlc_env\<close> is what the VLC calls of one operation answer, and every VLC
  call with an effect is an event of the list the operation returns.  Video outputs and
  objects are known by their address.  The buffered cue and its two text buffers are the
  field \<open>pr_pending_segment\<close>, whose text pointers always point to those buffers.
  A rate read from VLC is the rational value of a finite \<^verbatim>\<open>float\<close>.
\<close>

section \<open>VLC\<close>

record vlc_object =
  ob_addr :: nat
  ob_type :: "string option"
  ob_input_vout :: "nat option"
  ob_rate :: "rat option"

text \<open>An object of the parent chain, with the list \<^verbatim>\<open>vlc_list_children\<close> returns for it.\<close>

record vlc_node =
  nd_self :: vlc_object
  nd_children :: "vlc_object option list option"

record vlc_env =
  ve_chain :: "vlc_node list"
  ve_register :: "nat \<Rightarrow> int"
  ve_mdate :: i64
  ve_translate_mode :: int
  ve_subpicture_New :: bool
  ve_region_New :: bool
  ve_text_segment_New :: bool

datatype spu_align = SUBPICTURE_ALIGN_TOP | SUBPICTURE_ALIGN_BOTTOM

record subpicture =
  sp_channel :: int
  sp_text :: bytes
  sp_align :: spu_align
  sp_y :: int
  sp_start :: i64
  sp_stop :: i64
  sp_ephemer :: bool

datatype vlc_event =
    Hold nat
  | Release nat
  | Register nat int
  | Flush_Channel nat int
  | Put_Subpicture nat subpicture
  | OSD_Text nat i64 bytes
  | List_Children nat
  | List_Release nat

section \<open>State\<close>

definition VW_CAPTION_MIN_DISPLAY_DURATION_US :: int where "VW_CAPTION_MIN_DISPLAY_DURATION_US = 1000000"
definition VW_MODEL_PROGRESS_DISPLAY_DURATION_US :: int where "VW_MODEL_PROGRESS_DISPLAY_DURATION_US = 2000000"
definition VW_PRESENTER_MAX_TEXT_BYTES :: nat where "VW_PRESENTER_MAX_TEXT_BYTES = VW_MAX_TEXT_BYTES + 1"
definition VW_OSD_BLANK_DURATION_US :: int where "VW_OSD_BLANK_DURATION_US = 1000"

record vw_caption_presenter =
  pr_filter_ctx :: bool
  pr_held_vout :: "nat option"
  pr_spu_channel_id :: int
  pr_spu_channel_registered :: bool
  pr_model_progress_held_vout :: "nat option"
  pr_model_progress_channel_id :: int
  pr_model_progress_channel_registered :: bool
  pr_has_pending :: bool
  pr_pending_segment :: vw_caption_segment

type_synonym 'a presenter_result = "'a \<times> vw_caption_presenter \<times> vlc_event list"

section \<open>Walking the object tree\<close>

fun find_in_children :: "vlc_object option list \<Rightarrow> nat option" where
  "find_in_children [] = None"
| "find_in_children (None # cs) = find_in_children cs"
| "find_in_children (Some c # cs) =
     (if ob_type c = Some ''input'' then
        (case ob_input_vout c of Some v \<Rightarrow> Some v | None \<Rightarrow> find_in_children cs)
      else if ob_type c = Some ''vout'' then Some (ob_addr c)
      else find_in_children cs)"

text \<open>Both \<^verbatim>\<open>input_GetVout\<close> and \<^verbatim>\<open>vlc_object_hold\<close> give the caller a reference.\<close>

fun vw_caption_presenter_find_vout :: "vlc_node list \<Rightarrow> nat option \<times> vlc_event list" where
  "vw_caption_presenter_find_vout [] = (None, [])"
| "vw_caption_presenter_find_vout (n # ns) =
     (let cur = nd_self n; a = ob_addr cur in
      if ob_type cur = None then vw_caption_presenter_find_vout ns
      else if ob_type cur = Some ''input'' \<and> ob_input_vout cur \<noteq> None then
        (ob_input_vout cur, [Hold (the (ob_input_vout cur))])
      else if ob_type cur = Some ''vout'' then (Some a, [Hold a])
      else case nd_children n of
          None \<Rightarrow> vw_caption_presenter_find_vout ns
        | Some cs \<Rightarrow>
            (case find_in_children cs of
               Some v \<Rightarrow> (Some v, [List_Children a, Hold v, List_Release a])
             | None \<Rightarrow>
                 (case vw_caption_presenter_find_vout ns of (r, es) \<Rightarrow>
                   (r, [List_Children a, List_Release a] @ es))))"

text \<open>The constant \<^verbatim>\<open>0.05f\<close>.\<close>

definition rate_usable :: "rat option \<Rightarrow> bool" where
  "rate_usable r = (case r of None \<Rightarrow> False | Some x \<Rightarrow> x > 13421773 / 268435456)"

fun rate_in_children :: "vlc_object option list \<Rightarrow> rat option" where
  "rate_in_children [] = None"
| "rate_in_children (None # cs) = rate_in_children cs"
| "rate_in_children (Some c # cs) = (if rate_usable (ob_rate c) then ob_rate c else rate_in_children cs)"

fun rate_walk :: "vlc_node list \<Rightarrow> rat \<times> vlc_event list" where
  "rate_walk [] = (1, [])"
| "rate_walk (n # ns) =
     (let a = ob_addr (nd_self n) in
      if rate_usable (ob_rate (nd_self n)) then (the (ob_rate (nd_self n)), [])
      else case nd_children n of
          None \<Rightarrow> rate_walk ns
        | Some cs \<Rightarrow>
            (case rate_in_children cs of
               Some r \<Rightarrow> (r, [List_Children a, List_Release a])
             | None \<Rightarrow> (case rate_walk ns of (r, es) \<Rightarrow> (r, [List_Children a, List_Release a] @ es))))"

definition vw_caption_presenter_get_rate :: "vlc_env \<Rightarrow> vw_caption_presenter \<Rightarrow> rat \<times> vlc_event list" where
  "vw_caption_presenter_get_rate env p = (if \<not> pr_filter_ctx p then (1, []) else rate_walk (ve_chain env))"

section \<open>Rendering\<close>

definition vw_caption_presenter_render_spu ::
  "vlc_env \<Rightarrow> nat \<Rightarrow> int \<Rightarrow> bytes \<Rightarrow> spu_align \<Rightarrow> int \<Rightarrow> i64 \<Rightarrow> i64 \<Rightarrow> bool \<Rightarrow> bool \<Rightarrow> bool \<times> vlc_event list" where
  "vw_caption_presenter_render_spu env vout channel_id txt alignment y start_tick stop_tick replace_existing persistent =
     (if channel_id < 0 then (False, [])
      else if \<not> ve_subpicture_New env then (False, [])
      else if \<not> ve_region_New env then (False, [])
      else if \<not> ve_text_segment_New env then (False, [])
      else
        let stop_tick = (if stop_tick \<le> start_tick
                         then vw_saturating_add_i64 start_tick VW_CAPTION_MIN_DISPLAY_DURATION_US else stop_tick);
            subpic = \<lparr>sp_channel = channel_id, sp_text = txt, sp_align = alignment, sp_y = y,
                      sp_start = start_tick, sp_stop = stop_tick, sp_ephemer = persistent\<rparr>
        in (True, (if replace_existing then [Flush_Channel vout channel_id] else []) @ [Put_Subpicture vout subpic]))"

definition vw_caption_presenter_register_model_progress_channel ::
  "vlc_env \<Rightarrow> vw_caption_presenter \<Rightarrow> nat \<Rightarrow> bool presenter_result" where
  "vw_caption_presenter_register_model_progress_channel env p vout =
     (if pr_model_progress_channel_registered p \<and> pr_model_progress_held_vout p = Some vout then (True, p, [])
      else
        let drop_old = (case pr_model_progress_held_vout p of
              None \<Rightarrow> []
            | Some w \<Rightarrow> (if pr_model_progress_channel_registered p \<and> pr_model_progress_channel_id p \<ge> 0
                        then [Flush_Channel w (pr_model_progress_channel_id p)] else []) @ [Release w]);
            p = p\<lparr>pr_model_progress_held_vout := None\<rparr>;
            channel_id = ve_register env vout
        in if channel_id < 0 then
             (False, p\<lparr>pr_model_progress_channel_id := - 1, pr_model_progress_channel_registered := False\<rparr>,
              drop_old @ [Register vout channel_id])
           else
             (True, p\<lparr>pr_model_progress_held_vout := Some vout, pr_model_progress_channel_id := channel_id,
                pr_model_progress_channel_registered := True\<rparr>,
              drop_old @ [Register vout channel_id, Hold vout]))"

definition stage_name :: "u8 \<Rightarrow> string" where
  "stage_name stage =
     (if stage = 1 then ''downloading'' else if stage = 2 then ''verifying'' else if stage = 3 then ''done''
      else if stage = 4 then ''failed'' else if stage = 5 then ''aborting'' else ''idle'')"

definition vw_caption_presenter_show_model_progress ::
  "vlc_env \<Rightarrow> vw_caption_presenter \<Rightarrow> vw_msg_model_progress \<Rightarrow> bool presenter_result" where
  "vw_caption_presenter_show_model_progress env p progress =
     (if \<not> pr_filter_ctx p then (False, p, [])
      else case vw_caption_presenter_find_vout (ve_chain env) of
          (None, es) \<Rightarrow> (False, p, es)
        | (Some vout, es) \<Rightarrow>
            (case vw_caption_presenter_register_model_progress_channel env p vout of
               (False, p, es') \<Rightarrow> (False, p, es @ es' @ [Release vout])
             | (True, p, es') \<Rightarrow>
                 let pct = (if unat (mp_pct progress) > 100 then 100 else unat (mp_pct progress));
                     progress_text = take 127 (ascii ''Model '' @ c_str (mp_model_id progress) @ ascii '': ''
                       @ ascii (stage_name (mp_stage progress)) @ ascii '' ('' @ dec_digits pct @ ascii ''%)'');
                     start_tick = ve_mdate env;
                     (rendered, es'') = vw_caption_presenter_render_spu env vout (pr_model_progress_channel_id p)
                       progress_text SUBPICTURE_ALIGN_TOP 20 start_tick
                       (vw_saturating_add_i64 start_tick VW_MODEL_PROGRESS_DISPLAY_DURATION_US) True False
                 in (rendered, p, es @ es' @ es'' @ [Release vout])))"

definition vw_caption_presenter_clear_model_progress :: "vw_caption_presenter \<Rightarrow> unit presenter_result" where
  "vw_caption_presenter_clear_model_progress p =
     ((),
      p\<lparr>pr_model_progress_held_vout := None, pr_model_progress_channel_id := - 1,
        pr_model_progress_channel_registered := False\<rparr>,
      case pr_model_progress_held_vout p of
        None \<Rightarrow> []
      | Some w \<Rightarrow> (if pr_model_progress_channel_registered p \<and> pr_model_progress_channel_id p \<ge> 0
                  then [Flush_Channel w (pr_model_progress_channel_id p)] else []) @ [Release w])"

definition vw_caption_presenter_render_text :: "vlc_env \<Rightarrow> bytes \<Rightarrow> i64 \<Rightarrow> bool \<times> vlc_event list" where
  "vw_caption_presenter_render_text env txt duration_us =
     (case vw_caption_presenter_find_vout (ve_chain env) of
        (None, es) \<Rightarrow> (False, es)
      | (Some vout, es) \<Rightarrow> (True, es @ [OSD_Text vout duration_us txt, Release vout]))"

text \<open>\<open>filter\<close>: the VLC environment of the filter, or \<open>None\<close> for a \<^verbatim>\<open>NULL\<close> filter.\<close>

definition vw_caption_presenter_display :: "vlc_env option \<Rightarrow> bytes option \<Rightarrow> i64 \<Rightarrow> bool \<times> vlc_event list" where
  "vw_caption_presenter_display fil txt duration_us =
     (case txt of None \<Rightarrow> (False, [])
      | Some s \<Rightarrow>
          if duration_us \<le> 0 then (False, [])
          else
            let duration_us = (if duration_us < VW_CAPTION_MIN_DISPLAY_DURATION_US
                               then VW_CAPTION_MIN_DISPLAY_DURATION_US else duration_us)
            in case fil of None \<Rightarrow> (True, [])
               | Some env \<Rightarrow> vw_caption_presenter_render_text env s duration_us)"

text \<open>The text of a cue: the source, the translation, or both on two lines.\<close>

definition text_to_render :: "vlc_env \<Rightarrow> vw_caption_presenter \<Rightarrow> vw_caption_segment \<Rightarrow> bytes \<Rightarrow> bytes" where
  "text_to_render env p segment s =
     (case cs_translated_text_utf8 segment of
        None \<Rightarrow> c_str s
      | Some t \<Rightarrow>
          if cs_translated_text_bytes segment > 0 \<and> c_get t 0 \<noteq> 0 then
            (if (if pr_filter_ctx p then ve_translate_mode env else 1) = 0 then c_str t
             else take (VW_PRESENTER_MAX_TEXT_BYTES * 2 + 8 - 1) (c_str s @ [0x0A] @ c_str t))
          else c_str s)"

text \<open>\<^verbatim>\<open>(int64_t)((double)x / (double)rate)\<close> and \<^verbatim>\<open>(int64_t)((double)x * (double)rate)\<close>.\<close>

definition over_rate :: "i64 \<Rightarrow> rat \<Rightarrow> i64" where
  "over_rate x rate = trunc0 (rne 53 (rne 53 (of_int x) / rate))"

definition times_rate :: "i64 \<Rightarrow> rat \<Rightarrow> i64" where
  "times_rate x rate = trunc0 (rne 53 (rne 53 (of_int x) * rate))"

text \<open>The first part of \<^verbatim>\<open>vw_render\<close> on a live filter: the caption channel of the current output.\<close>

definition register_spu_channel ::
  "vlc_env \<Rightarrow> vw_caption_presenter \<Rightarrow> nat \<Rightarrow> vw_caption_presenter \<times> vlc_event list" where
  "register_spu_channel env p vout =
     (if \<not> pr_spu_channel_registered p \<or> pr_held_vout p \<noteq> Some vout \<or> pr_spu_channel_id p < 0 then
        let drop_old = (case pr_held_vout p of
              None \<Rightarrow> []
            | Some w \<Rightarrow> (if pr_spu_channel_id p \<ge> 0 then [Flush_Channel w (pr_spu_channel_id p)] else []) @ [Release w]);
            channel_id = ve_register env vout
        in if channel_id \<ge> 0 then
             (p\<lparr>pr_held_vout := Some vout, pr_spu_channel_id := channel_id, pr_spu_channel_registered := True\<rparr>,
              drop_old @ [Register vout channel_id, Hold vout])
           else
             (p\<lparr>pr_held_vout := None, pr_spu_channel_id := - 1, pr_spu_channel_registered := False\<rparr>,
              drop_old @ [Register vout channel_id])
      else (p, []))"

text \<open>How far ahead of the clock a source-mode cue starts, capped at sixty seconds.\<close>

definition lead_time :: "vw_caption_segment \<Rightarrow> i64 \<Rightarrow> bool \<Rightarrow> rat \<Rightarrow> i64" where
  "lead_time segment input_time_us media_timeline rate =
     (if media_timeline \<and> input_time_us \<ge> 0 \<and> cs_start_pts_us segment > input_time_us then
        let lead_us = over_rate (vw_saturating_sub_i64 (cs_start_pts_us segment) input_time_us) rate
        in if lead_us > 60000000 then 60000000 else lead_us
      else 0)"

definition vw_render ::
  "vlc_env \<Rightarrow> vw_caption_presenter \<Rightarrow> vw_caption_segment \<Rightarrow> i64 \<Rightarrow> i64 \<Rightarrow> bool \<Rightarrow> bool \<Rightarrow> bool presenter_result" where
  "vw_render env p segment duration_us input_time_us media_timeline persistent =
     (case cs_text_utf8 segment of
        None \<Rightarrow> (False, p, [])
      | Some s \<Rightarrow>
          let txt = text_to_render env p segment s;
              (rate, es0) = vw_caption_presenter_get_rate env p
          in if \<not> pr_filter_ctx p then
               (case vw_caption_presenter_display None (Some txt) duration_us of (ok, es) \<Rightarrow> (ok, p, es0 @ es))
             else case vw_caption_presenter_find_vout (ve_chain env) of
                 (None, es1) \<Rightarrow> (False, p, es0 @ es1)
               | (Some vout, es1) \<Rightarrow>
                   let (p, es2) = register_spu_channel env p vout;
                       dur_wallclock_us = over_rate duration_us rate;
                       start_tick = vw_saturating_add_i64 (ve_mdate env)
                         (lead_time segment input_time_us media_timeline rate);
                       stop_tick = vw_saturating_add_i64 start_tick dur_wallclock_us;
                       (rendered, es3) =
                         (if pr_spu_channel_registered p \<and> pr_spu_channel_id p \<ge> 0 then
                            vw_caption_presenter_render_spu env vout (pr_spu_channel_id p) txt SUBPICTURE_ALIGN_BOTTOM 20
                              start_tick stop_tick (\<not> media_timeline \<or> persistent) persistent
                          else (False, []));
                       es4 = (if \<not> rendered then [OSD_Text vout dur_wallclock_us txt] else [])
                   in (True, p, es0 @ es1 @ es2 @ es3 @ es4 @ [Release vout]))"

section \<open>Operations\<close>

text \<open>
  The media duration given to a buffered cue when its successor arrives, and the one given
  to it when no successor came; \<open>min_floor\<close> is the rate-scaled readability floor.
\<close>

definition dispatch_duration :: "i64 \<Rightarrow> i64 \<Rightarrow> i64 \<Rightarrow> i64 \<Rightarrow> i64" where
  "dispatch_duration min_floor pend_start pend_end next_start =
     (let raw = pend_end - pend_start;
          target_dur = (if raw \<le> 0 then 2000000 else if raw < min_floor then min_floor else raw);
          target_end = pend_start + target_dur;
          clipped_end =
            (if next_start > pend_start \<and> target_end > next_start then
               (if next_start - pend_start \<ge> min_floor then next_start else pend_start + min_floor)
             else target_end);
          dur = clipped_end - pend_start;
          dur = (if dur \<le> 0 then
                   (let d = (if raw > 0 then raw else 2000000) in if d < min_floor then min_floor else d)
                 else dur)
      in if dur < min_floor then min_floor else dur)"

definition flush_duration :: "i64 \<Rightarrow> i64 \<Rightarrow> i64 \<Rightarrow> i64" where
  "flush_duration min_floor pend_start pend_end =
     (let raw = pend_end - pend_start
      in if raw \<le> 0 then 2000000 else if raw < min_floor then min_floor else raw)"

text \<open>The copy of a cue into the presenter's own buffers, cut at a character boundary.\<close>

definition copy_text :: "bytes \<Rightarrow> nat \<Rightarrow> bytes" where
  "copy_text s raw_len = take (vw_utf8_safe_len (Some s) (min raw_len VW_MAX_TEXT_BYTES)) s"

definition buffer_segment :: "vw_caption_segment \<Rightarrow> bytes \<Rightarrow> vw_caption_segment" where
  "buffer_segment segment s =
     (let src = copy_text s (if cs_text_bytes segment \<noteq> 0 then unat (cs_text_bytes segment) else strlen s);
          seg = segment\<lparr>cs_text_utf8 := Some src, cs_text_bytes := of_nat (length src)\<rparr>
      in case cs_translated_text_utf8 segment of
          Some t \<Rightarrow>
            if cs_translated_text_bytes segment > 0 then
              let tr = copy_text t (unat (cs_translated_text_bytes segment))
              in seg\<lparr>cs_translated_text_utf8 := Some tr, cs_translated_text_bytes := of_nat (length tr)\<rparr>
            else seg\<lparr>cs_translated_text_utf8 := None, cs_translated_text_bytes := 0\<rparr>
        | None \<Rightarrow> seg\<lparr>cs_translated_text_utf8 := None, cs_translated_text_bytes := 0\<rparr>)"

text \<open>\<open>env\<close> answers the first reading of the rate, \<open>env'\<close> the calls made while rendering.\<close>

definition vw_caption_presenter_show_segment ::
  "vlc_env \<Rightarrow> vlc_env \<Rightarrow> vw_caption_presenter \<Rightarrow> vw_caption_segment \<Rightarrow> i64 \<Rightarrow> bool \<Rightarrow> bool presenter_result" where
  "vw_caption_presenter_show_segment env env' p segment input_time_us media_timeline =
     (case cs_text_utf8 segment of
        None \<Rightarrow> (False, p, [])
      | Some s \<Rightarrow>
          let (rate, es0) = vw_caption_presenter_get_rate env p;
              min_floor = times_rate VW_CAPTION_MIN_DISPLAY_DURATION_US rate;
              (p, es1) =
                (if pr_has_pending p then
                   let pend = pr_pending_segment p;
                       duration_us = dispatch_duration min_floor (cs_start_pts_us pend) (cs_end_pts_us pend)
                         (cs_start_pts_us segment)
                   in case vw_render env' p pend duration_us input_time_us media_timeline False of
                       (_, p, es) \<Rightarrow> (p\<lparr>pr_has_pending := False\<rparr>, es)
                 else (p, []))
          in (True, p\<lparr>pr_has_pending := True, pr_pending_segment := buffer_segment segment s\<rparr>, es0 @ es1))"

definition vw_caption_presenter_flush ::
  "vlc_env \<Rightarrow> vlc_env \<Rightarrow> vw_caption_presenter \<Rightarrow> i64 \<Rightarrow> bool \<Rightarrow> bool presenter_result" where
  "vw_caption_presenter_flush env env' p input_time_us media_timeline =
     (if \<not> pr_has_pending p then (False, p, [])
      else
        let (rate, es0) = vw_caption_presenter_get_rate env p;
            min_floor = times_rate VW_CAPTION_MIN_DISPLAY_DURATION_US rate;
            pend = pr_pending_segment p;
            duration_us = flush_duration min_floor (cs_start_pts_us pend) (cs_end_pts_us pend);
            (rendered, p, es1) = vw_render env' p pend duration_us input_time_us media_timeline False
        in (rendered, p\<lparr>pr_has_pending := False\<rparr>, es0 @ es1))"

definition vw_caption_presenter_show_paused ::
  "vlc_env \<Rightarrow> vw_caption_presenter \<Rightarrow> vw_caption_segment \<Rightarrow> bool presenter_result" where
  "vw_caption_presenter_show_paused env p segment =
     (if cs_text_utf8 segment = None then (False, p, [])
      else
        let p = p\<lparr>pr_has_pending := False\<rparr>;
            d = cs_end_pts_us segment - cs_start_pts_us segment;
            duration_us = (if d < VW_CAPTION_MIN_DISPLAY_DURATION_US then VW_CAPTION_MIN_DISPLAY_DURATION_US else d)
        in vw_render env p segment duration_us (- 1) False True)"

definition vw_caption_presenter_blank :: "vlc_env \<Rightarrow> vw_caption_presenter \<Rightarrow> unit presenter_result" where
  "vw_caption_presenter_blank env p =
     (let p = p\<lparr>pr_has_pending := False\<rparr>; ch = pr_spu_channel_id p
      in if \<not> pr_filter_ctx p then ((), p, [])
         else if pr_spu_channel_registered p \<and> ch \<ge> 0 \<and> pr_held_vout p \<noteq> None then
           ((), p, [Flush_Channel (the (pr_held_vout p)) ch])
         else case vw_caption_presenter_find_vout (ve_chain env) of
             (None, es) \<Rightarrow> ((), p, es)
           | (Some vout, es) \<Rightarrow>
               ((), p, es @
                 (if pr_spu_channel_registered p \<and> ch \<ge> 0 then [Flush_Channel vout ch]
                  else [Flush_Channel vout 1, OSD_Text vout VW_OSD_BLANK_DURATION_US []])
                 @ [Release vout]))"

definition vw_caption_presenter_clear :: "vlc_env \<Rightarrow> vw_caption_presenter \<Rightarrow> unit presenter_result" where
  "vw_caption_presenter_clear env p =
     (let (_, p, es1) = vw_caption_presenter_clear_model_progress p;
          (_, p, es2) = vw_caption_presenter_blank env p
      in ((), p\<lparr>pr_has_pending := False, pr_held_vout := None, pr_filter_ctx := False, pr_spu_channel_id := - 1,
            pr_spu_channel_registered := False\<rparr>,
          es1 @ es2 @ (case pr_held_vout p of None \<Rightarrow> [] | Some w \<Rightarrow> [Release w])))"

section \<open>Paused preview policy\<close>

record vw_paused_preview_state =
  pp_pending :: bool

definition vw_paused_preview_state_init :: "vw_paused_preview_state \<Rightarrow> vw_paused_preview_state" where
  "vw_paused_preview_state_init st = st\<lparr>pp_pending := False\<rparr>"

definition vw_paused_preview_state_reset_session :: "vw_paused_preview_state \<Rightarrow> vw_paused_preview_state" where
  "vw_paused_preview_state_reset_session st = st\<lparr>pp_pending := False\<rparr>"

definition vw_paused_preview_capture_target :: "bool \<Rightarrow> i64 \<Rightarrow> i64 option" where
  "vw_paused_preview_capture_target source_preview sampled_position_us =
     (if \<not> source_preview \<or> sampled_position_us < 0 then None else Some sampled_position_us)"

definition vw_paused_preview_arm :: "vw_paused_preview_state \<Rightarrow> vw_paused_preview_state" where
  "vw_paused_preview_arm st = st\<lparr>pp_pending := True\<rparr>"

definition vw_paused_preview_take :: "vw_paused_preview_state \<Rightarrow> bool \<times> vw_paused_preview_state" where
  "vw_paused_preview_take st = (if \<not> pp_pending st then (False, st) else (True, st\<lparr>pp_pending := False\<rparr>))"

definition vw_paused_preview_seek_flags :: "bool \<Rightarrow> bool \<Rightarrow> u8" where
  "vw_paused_preview_seek_flags paused preview_after_paused_seek =
     (let flags = 1 in if paused \<and> \<not> preview_after_paused_seek then or flags 2 else flags)"

section \<open>Reference and channel discipline\<close>

text \<open>
  An observer of the VLC calls: the references held, the child lists not yet released, and
  the channels registered on an output since it was last without a reference.  A call on an
  output without a reference, on a channel the output did not register (the shared OSD
  channel 1 apart), and a release too many are errors.
\<close>

type_synonym tracker = "nat multiset \<times> nat multiset \<times> (nat \<times> int) set"

fun track :: "tracker \<Rightarrow> vlc_event \<Rightarrow> tracker option" where
  "track (h, l, r) (Hold v) = Some (add_mset v h, l, r)"
| "track (h, l, r) (Release v) =
     (if v \<in># h then Some (h - {#v#}, l, if v \<in># h - {#v#} then r else {x \<in> r. fst x \<noteq> v}) else None)"
| "track (h, l, r) (Register v ch) =
     (if v \<in># h then Some (h, l, if ch \<ge> 0 then insert (v, ch) r else r) else None)"
| "track (h, l, r) (Flush_Channel v ch) =
     (if v \<in># h \<and> ((v, ch) \<in> r \<or> ch = 1) then Some (h, l, r) else None)"
| "track (h, l, r) (Put_Subpicture v sp) =
     (if v \<in># h \<and> (v, sp_channel sp) \<in> r then Some (h, l, r) else None)"
| "track (h, l, r) (OSD_Text v d s) = (if v \<in># h then Some (h, l, r) else None)"
| "track (h, l, r) (List_Children a) = Some (h, add_mset a l, r)"
| "track (h, l, r) (List_Release a) = (if a \<in># l then Some (h, l - {#a#}, r) else None)"

fun track_all :: "tracker \<Rightarrow> vlc_event list \<Rightarrow> tracker option" where
  "track_all t [] = Some t"
| "track_all t (e # es) = (case track t e of None \<Rightarrow> None | Some t' \<Rightarrow> track_all t' es)"

lemma track_all_append:
  "track_all t (es @ fs) = (case track_all t es of None \<Rightarrow> None | Some t' \<Rightarrow> track_all t' fs)"
  by (induction es arbitrary: t) (auto split: option.splits)

lemma track_all_appendI:
  "track_all t es = Some t' \<Longrightarrow> track_all t' fs = r \<Longrightarrow> track_all t (es @ fs) = r"
  by (simp add: track_all_append)

definition opt_refs :: "nat option \<Rightarrow> nat multiset" where
  "opt_refs v = (case v of None \<Rightarrow> {#} | Some v \<Rightarrow> {#v#})"

lemma opt_refs_simps [simp]: "opt_refs None = {#}" "opt_refs (Some v) = {#v#}"
  by (simp_all add: opt_refs_def)

definition held_refs :: "vw_caption_presenter \<Rightarrow> nat multiset" where
  "held_refs p = opt_refs (pr_held_vout p) + opt_refs (pr_model_progress_held_vout p)"

text \<open>A channel is remembered exactly while the output that registered it is held.\<close>

definition slot_ok :: "nat option \<Rightarrow> bool \<Rightarrow> int \<Rightarrow> (nat \<times> int) set \<Rightarrow> bool" where
  "slot_ok held registered ch r =
     (case held of None \<Rightarrow> \<not> registered | Some v \<Rightarrow> registered \<and> ch \<ge> 0 \<and> (v, ch) \<in> r)"

definition chan_ok :: "vw_caption_presenter \<Rightarrow> (nat \<times> int) set \<Rightarrow> bool" where
  "chan_ok p r \<longleftrightarrow>
     slot_ok (pr_held_vout p) (pr_spu_channel_registered p) (pr_spu_channel_id p) r
     \<and> slot_ok (pr_model_progress_held_vout p) (pr_model_progress_channel_registered p)
         (pr_model_progress_channel_id p) r"

lemma slot_ok_simps [simp]:
  "slot_ok None reg ch r \<longleftrightarrow> \<not> reg"
  "slot_ok (Some v) reg ch r \<longleftrightarrow> reg \<and> ch \<ge> 0 \<and> (v, ch) \<in> r"
  by (simp_all add: slot_ok_def)

lemma slot_ok_mono: "slot_ok h g c r \<Longrightarrow> r \<subseteq> r' \<Longrightarrow> slot_ok h g c r'"
  by (cases h) auto

lemma slot_ok_filter: "slot_ok h g c r \<Longrightarrow> h \<noteq> Some v \<Longrightarrow> slot_ok h g c {x \<in> r. fst x \<noteq> v}"
  by (cases h) auto

text \<open>Dropping the caller's own reference leaves the presenter's channels in order.\<close>

lemma track_release:
  assumes "chan_ok p r"
  shows "\<exists>r'. track_all (add_mset v (held_refs p), l, r) [Release v] = Some (held_refs p, l, r') \<and> chan_ok p r'"
proof (cases "v \<in># held_refs p")
  case True
  then show ?thesis using assms by auto
next
  case False
  then have "pr_held_vout p \<noteq> Some v" "pr_model_progress_held_vout p \<noteq> Some v" by (auto simp: held_refs_def)
  with assms have "chan_ok p {x \<in> r. fst x \<noteq> v}" by (simp add: chan_ok_def slot_ok_filter)
  with False show ?thesis by simp
qed

lemma track_find_vout:
  "vw_caption_presenter_find_vout ns = (v, es) \<Longrightarrow>
    track_all (h, l, r) es = Some (opt_refs v + h, l, r)"
proof (induction ns arbitrary: v es)
  case Nil
  then show ?case by auto
next
  case (Cons n ns)
  obtain v' es' where w: "vw_caption_presenter_find_vout ns = (v', es')" by force
  note ih = Cons.IH[OF w]
  show ?case using Cons.prems w ih
    by (auto simp: Let_def opt_refs_def split: if_splits option.splits)
qed

lemma track_rate_walk: "rate_walk ns = (x, es) \<Longrightarrow> track_all (h, l, r) es = Some (h, l, r)"
proof (induction ns arbitrary: x es)
  case Nil
  then show ?case by simp
next
  case (Cons n ns)
  obtain x' es' where w: "rate_walk ns = (x', es')" by force
  note ih = Cons.IH[OF w]
  show ?case using Cons.prems w ih by (auto simp: Let_def split: if_splits option.splits)
qed

lemma track_get_rate:
  "vw_caption_presenter_get_rate env p = (x, es) \<Longrightarrow> track_all (h, l, r) es = Some (h, l, r)"
  by (auto simp: vw_caption_presenter_get_rate_def track_rate_walk split: if_splits)

lemma track_render_spu:
  assumes "vw_caption_presenter_render_spu env v ch s a y t u replace pers = (ok, es)" "v \<in># h" "(v, ch) \<in> r"
  shows "track_all (h, l, r) es = Some (h, l, r)"
  using assms by (auto simp: vw_caption_presenter_render_spu_def Let_def split: if_splits)

text \<open>Giving up a held output: flush its channel, then release it.\<close>

lemma track_drop:
  assumes "w \<in># h" "(w, ch) \<in> r"
  shows "track_all (h, l, r) [Flush_Channel w ch, Release w]
    = Some (h - {#w#}, l, if w \<in># h - {#w#} then r else {x \<in> r. fst x \<noteq> w})"
  using assms by simp

lemma register_spu_track:
  assumes "chan_ok p r" "register_spu_channel env p v = (p', es)"
  shows "\<exists>r'. track_all (add_mset v (held_refs p), l, r) es = Some (add_mset v (held_refs p'), l, r') \<and> chan_ok p' r'
    \<and> (pr_spu_channel_registered p' \<longrightarrow> pr_held_vout p' = Some v \<and> (v, pr_spu_channel_id p') \<in> r')
    \<and> pr_filter_ctx p' = pr_filter_ctx p \<and> pr_has_pending p' = pr_has_pending p"
proof (cases "pr_held_vout p")
  case None
  with assms show ?thesis
    by (auto simp: register_spu_channel_def chan_ok_def held_refs_def Let_def intro: slot_ok_mono split: if_splits)
next
  case (Some w)
  show ?thesis
  proof (cases "w = v")
    case True
    with assms Some show ?thesis by (auto simp: register_spu_channel_def chan_ok_def)
  next
    case False
    let ?m = "opt_refs (pr_model_progress_held_vout p)"
    let ?r = "if w \<in># ?m then r else {x \<in> r. fst x \<noteq> w}"
    have id: "pr_spu_channel_id p \<ge> 0" "(w, pr_spu_channel_id p) \<in> r" using assms(1) Some by (simp_all add: chan_ok_def)
    have h: "add_mset v (held_refs p) = add_mset w (add_mset v ?m)" using Some by (simp add: held_refs_def add_mset_commute)
    have m: "slot_ok (pr_model_progress_held_vout p) (pr_model_progress_channel_registered p) (pr_model_progress_channel_id p) ?r"
      using assms(1) by (cases "pr_model_progress_held_vout p") (auto simp: chan_ok_def)
    have d: "track_all (add_mset v (held_refs p), l, r) [Flush_Channel w (pr_spu_channel_id p), Release w]
        = Some (add_mset v ?m, l, ?r)"
      unfolding h using id(2) False by (subst track_drop) auto
    have es: "es = [Flush_Channel w (pr_spu_channel_id p), Release w]
        @ (if ve_register env v \<ge> 0 then [Register v (ve_register env v), Hold v] else [Register v (ve_register env v)])"
      using assms(2) Some False id(1) by (auto simp: register_spu_channel_def Let_def)
    have p': "p' = (if ve_register env v \<ge> 0
        then p\<lparr>pr_held_vout := Some v, pr_spu_channel_id := ve_register env v, pr_spu_channel_registered := True\<rparr>
        else p\<lparr>pr_held_vout := None, pr_spu_channel_id := - 1, pr_spu_channel_registered := False\<rparr>)"
      using assms(2) Some False by (auto simp: register_spu_channel_def Let_def)
    show ?thesis
    proof (cases "ve_register env v \<ge> 0")
      case True
      have "track_all (add_mset v (held_refs p), l, r) es = Some (add_mset v (held_refs p'), l, insert (v, ve_register env v) ?r)"
        unfolding es using True by (intro track_all_appendI[OF d]) (simp add: p' held_refs_def)
      moreover have "chan_ok p' (insert (v, ve_register env v) ?r)"
        using True m by (auto simp: p' chan_ok_def intro: slot_ok_mono)
      ultimately show ?thesis using True by (auto simp: p')
    next
      case False
      have "track_all (add_mset v (held_refs p), l, r) es = Some (add_mset v (held_refs p'), l, ?r)"
        unfolding es using False by (intro track_all_appendI[OF d]) (simp add: p' held_refs_def)
      moreover have "chan_ok p' ?r" using False m by (simp add: p' chan_ok_def)
      ultimately show ?thesis using False by (auto simp: p')
    qed
  qed
qed


text \<open>What \<^verbatim>\<open>vw_render\<close> does on a live filter with a video output.\<close>

definition spu_part ::
  "vlc_env \<Rightarrow> vw_caption_presenter \<Rightarrow> nat \<Rightarrow> bytes \<Rightarrow> i64 \<Rightarrow> i64 \<Rightarrow> bool \<Rightarrow> bool \<Rightarrow> bool \<times> vlc_event list" where
  "spu_part env p v txt start dur m pers =
     (if pr_spu_channel_registered p \<and> pr_spu_channel_id p \<ge> 0 then
        vw_caption_presenter_render_spu env v (pr_spu_channel_id p) txt SUBPICTURE_ALIGN_BOTTOM 20
          start (vw_saturating_add_i64 start dur) (\<not> m \<or> pers) pers
      else (False, []))"

lemma vw_render_live:
  assumes "cs_text_utf8 seg = Some s" "pr_filter_ctx p" "vw_caption_presenter_get_rate env p = (rate, es0)"
    "vw_caption_presenter_find_vout (ve_chain env) = (Some v, es1)" "register_spu_channel env p v = (p1, es2)"
  shows "vw_render env p seg d t m pers =
    (let txt = text_to_render env p seg s; dur = over_rate d rate;
         spu = spu_part env p1 v txt (vw_saturating_add_i64 (ve_mdate env) (lead_time seg t m rate)) dur m pers
     in (True, p1, es0 @ es1 @ es2 @ snd spu @ (if \<not> fst spu then [OSD_Text v dur txt] else []) @ [Release v]))"
  using assms by (simp add: vw_render_def spu_part_def Let_def case_prod_unfold cong: if_cong)

lemma render_track:
  assumes "chan_ok p r" "vw_render env p seg d t m pers = (ok, p', es)"
  shows "\<exists>r'. track_all (held_refs p, l, r) es = Some (held_refs p', l, r') \<and> chan_ok p' r'
    \<and> pr_filter_ctx p' = pr_filter_ctx p \<and> pr_has_pending p' = pr_has_pending p"
proof (cases "cs_text_utf8 seg")
  case None
  with assms show ?thesis by (auto simp: vw_render_def)
next
  case (Some s)
  obtain rate es0 where g: "vw_caption_presenter_get_rate env p = (rate, es0)" by force
  obtain vo es1 where f: "vw_caption_presenter_find_vout (ve_chain env) = (vo, es1)" by force
  note tg = track_get_rate[OF g] and tf = track_find_vout[OF f]
  show ?thesis
  proof (cases "\<not> pr_filter_ctx p \<or> vo = None")
    case True
    with assms Some g f tg tf show ?thesis
      by (auto simp: vw_render_def vw_caption_presenter_display_def Let_def track_all_append split: if_splits)
  next
    case False
    then obtain v where v: "vo = Some v" and ctx: "pr_filter_ctx p" by auto
    obtain p1 es2 where reg: "register_spu_channel env p v = (p1, es2)" by force
    from register_spu_track[OF assms(1) reg, of l] obtain r1 where
      r1: "track_all (add_mset v (held_refs p), l, r) es2 = Some (add_mset v (held_refs p1), l, r1)" "chan_ok p1 r1"
      "pr_spu_channel_registered p1 \<longrightarrow> pr_held_vout p1 = Some v \<and> (v, pr_spu_channel_id p1) \<in> r1"
      "pr_filter_ctx p1 = pr_filter_ctx p" "pr_has_pending p1 = pr_has_pending p" by blast
    define spu where "spu = spu_part env p1 v (text_to_render env p seg s)
        (vw_saturating_add_i64 (ve_mdate env) (lead_time seg t m rate)) (over_rate d rate) m pers"
    define es4 where "es4 = (if \<not> fst spu then [OSD_Text v (over_rate d rate) (text_to_render env p seg s)] else [])"
    have res: "p' = p1" "es = es0 @ es1 @ es2 @ snd spu @ es4 @ [Release v]"
      using assms(2) vw_render_live[OF Some ctx g f[unfolded v] reg, of d t m pers]
      by (auto simp: Let_def spu_def es4_def)
    have t3: "track_all (add_mset v (held_refs p1), l, r1) (snd spu) = Some (add_mset v (held_refs p1), l, r1)"
      using r1(3) track_render_spu[OF surjective_pairing] by (simp add: spu_def spu_part_def)
    have t4: "track_all (add_mset v (held_refs p1), l, r1) es4 = Some (add_mset v (held_refs p1), l, r1)"
      by (simp add: es4_def)
    from track_release[OF r1(2), of v l] obtain r2 where
      r2: "track_all (add_mset v (held_refs p1), l, r1) [Release v] = Some (held_refs p1, l, r2)" "chan_ok p1 r2" by blast
    have "track_all (held_refs p, l, r) es = Some (held_refs p', l, r2)"
      unfolding res using tg[of "held_refs p" l r] tf[of "held_refs p" l r] r1(1) t3 t4 r2(1) v
      by (simp only: track_all_append opt_refs_simps add_mset_add_single [symmetric] option.case
          add.commute[of "{#v#}"])
    with r2(2) r1(4,5) res show ?thesis by blast
  qed
qed

lemma register_mp_track:
  assumes "chan_ok p r" "vw_caption_presenter_register_model_progress_channel env p v = (ok, p', es)"
  shows "\<exists>r'. track_all (add_mset v (held_refs p), l, r) es = Some (add_mset v (held_refs p'), l, r') \<and> chan_ok p' r'
    \<and> (ok \<longrightarrow> (v, pr_model_progress_channel_id p') \<in> r') \<and> pr_filter_ctx p' = pr_filter_ctx p"
proof (cases "pr_model_progress_held_vout p")
  case None
  with assms show ?thesis
    by (auto simp: vw_caption_presenter_register_model_progress_channel_def chan_ok_def held_refs_def Let_def
        intro: slot_ok_mono split: if_splits)
next
  case (Some w)
  show ?thesis
  proof (cases "w = v")
    case True
    with assms Some show ?thesis
      by (auto simp: vw_caption_presenter_register_model_progress_channel_def chan_ok_def)
  next
    case False
    let ?m = "opt_refs (pr_held_vout p)" and ?id = "pr_model_progress_channel_id p" and ?ch = "ve_register env v"
    let ?r = "if w \<in># ?m then r else {x \<in> r. fst x \<noteq> w}"
    have id: "?id \<ge> 0" "(w, ?id) \<in> r" "pr_model_progress_channel_registered p"
      using assms(1) Some by (simp_all add: chan_ok_def)
    have h: "add_mset v (held_refs p) = add_mset w (add_mset v ?m)" using Some by (simp add: held_refs_def add_mset_commute)
    have m: "slot_ok (pr_held_vout p) (pr_spu_channel_registered p) (pr_spu_channel_id p) ?r"
      using assms(1) by (cases "pr_held_vout p") (auto simp: chan_ok_def)
    have d: "track_all (add_mset v (held_refs p), l, r) [Flush_Channel w ?id, Release w] = Some (add_mset v ?m, l, ?r)"
      unfolding h using id(2) False by (subst track_drop) auto
    have es: "es = [Flush_Channel w ?id, Release w] @ (if ?ch < 0 then [Register v ?ch] else [Register v ?ch, Hold v])"
      and ok: "ok = (\<not> ?ch < 0)"
      and p': "p' = (if ?ch < 0
        then p\<lparr>pr_model_progress_held_vout := None, pr_model_progress_channel_id := - 1, pr_model_progress_channel_registered := False\<rparr>
        else p\<lparr>pr_model_progress_held_vout := Some v, pr_model_progress_channel_id := ?ch, pr_model_progress_channel_registered := True\<rparr>)"
      using assms(2) Some False id(1,3)
      by (auto simp: vw_caption_presenter_register_model_progress_channel_def Let_def split: if_splits)
    let ?r' = "if ?ch < 0 then ?r else insert (v, ?ch) ?r"
    have "track_all (add_mset v (held_refs p), l, r) es = Some (add_mset v (held_refs p'), l, ?r')"
      unfolding es by (intro track_all_appendI[OF d]) (simp add: p' held_refs_def)
    moreover have "chan_ok p' ?r'" using m by (auto simp: p' chan_ok_def intro: slot_ok_mono)
    ultimately show ?thesis using p' ok by auto
  qed
qed


section \<open>Any sequence of operations\<close>

datatype presenter_op =
    Show_Segment vlc_env vlc_env vw_caption_segment i64 bool
  | Flush_Pending vlc_env vlc_env i64 bool
  | Show_Paused vlc_env vw_caption_segment
  | Show_Progress vlc_env vw_msg_model_progress
  | Clear_Progress
  | Blank vlc_env
  | Clear vlc_env

fun presenter_step :: "vw_caption_presenter \<Rightarrow> presenter_op \<Rightarrow> vw_caption_presenter \<times> vlc_event list" where
  "presenter_step p (Show_Segment env env' seg t m) = snd (vw_caption_presenter_show_segment env env' p seg t m)"
| "presenter_step p (Flush_Pending env env' t m) = snd (vw_caption_presenter_flush env env' p t m)"
| "presenter_step p (Show_Paused env seg) = snd (vw_caption_presenter_show_paused env p seg)"
| "presenter_step p (Show_Progress env pr) = snd (vw_caption_presenter_show_model_progress env p pr)"
| "presenter_step p Clear_Progress = snd (vw_caption_presenter_clear_model_progress p)"
| "presenter_step p (Blank env) = snd (vw_caption_presenter_blank env p)"
| "presenter_step p (Clear env) = snd (vw_caption_presenter_clear env p)"

fun presenter_run :: "vw_caption_presenter \<Rightarrow> presenter_op list \<Rightarrow> vw_caption_presenter \<times> vlc_event list" where
  "presenter_run p [] = (p, [])"
| "presenter_run p (x # xs) =
     (case presenter_step p x of (p', es) \<Rightarrow> case presenter_run p' xs of (p'', fs) \<Rightarrow> (p'', es @ fs))"

lemma presenter_frame [simp]:
  "held_refs (p\<lparr>pr_has_pending := b\<rparr>) = held_refs p" "chan_ok (p\<lparr>pr_has_pending := b\<rparr>) r = chan_ok p r"
  "held_refs (p\<lparr>pr_pending_segment := s\<rparr>) = held_refs p" "chan_ok (p\<lparr>pr_pending_segment := s\<rparr>) r = chan_ok p r"
  by (simp_all add: held_refs_def chan_ok_def)

lemma show_segment_track:
  assumes "chan_ok p r" "snd (vw_caption_presenter_show_segment env env' p seg t m) = (p', es)"
  shows "\<exists>r'. track_all (held_refs p, l, r) es = Some (held_refs p', l, r') \<and> chan_ok p' r'"
proof (cases "cs_text_utf8 seg")
  case None
  with assms show ?thesis by (auto simp: vw_caption_presenter_show_segment_def)
next
  case (Some s)
  obtain rate es0 where g: "vw_caption_presenter_get_rate env p = (rate, es0)" by force
  note tg = track_get_rate[OF g]
  show ?thesis
  proof (cases "pr_has_pending p")
    case False
    with assms Some g tg show ?thesis by (auto simp: vw_caption_presenter_show_segment_def)
  next
    case True
    define pend where "pend = pr_pending_segment p"
    define d where "d = dispatch_duration (times_rate VW_CAPTION_MIN_DISPLAY_DURATION_US rate)
      (cs_start_pts_us pend) (cs_end_pts_us pend) (cs_start_pts_us seg)"
    obtain ok p1 es1 where rn: "vw_render env' p pend d t m False = (ok, p1, es1)" by (metis prod_cases3)
    have res: "p' = p1\<lparr>pr_has_pending := True, pr_pending_segment := buffer_segment seg s\<rparr>" "es = es0 @ es1"
      using assms(2) Some g True rn unfolding vw_caption_presenter_show_segment_def pend_def [symmetric]
      by (auto simp: Let_def d_def)
    from render_track[OF assms(1) rn, of l] obtain r' where
      "track_all (held_refs p, l, r) es1 = Some (held_refs p1, l, r')" "chan_ok p1 r'" by blast
    with tg[of "held_refs p" l r] show ?thesis unfolding res by (auto simp: track_all_append)
  qed
qed

lemma flush_track:
  assumes "chan_ok p r" "snd (vw_caption_presenter_flush env env' p t m) = (p', es)"
  shows "\<exists>r'. track_all (held_refs p, l, r) es = Some (held_refs p', l, r') \<and> chan_ok p' r'"
proof (cases "pr_has_pending p")
  case False
  with assms show ?thesis by (auto simp: vw_caption_presenter_flush_def)
next
  case True
  obtain rate es0 where g: "vw_caption_presenter_get_rate env p = (rate, es0)" by force
  define pend where "pend = pr_pending_segment p"
  define d where "d = flush_duration (times_rate VW_CAPTION_MIN_DISPLAY_DURATION_US rate)
    (cs_start_pts_us pend) (cs_end_pts_us pend)"
  obtain ok p1 es1 where rn: "vw_render env' p pend d t m False = (ok, p1, es1)" by (metis prod_cases3)
  have res: "p' = p1\<lparr>pr_has_pending := False\<rparr>" "es = es0 @ es1"
    using assms(2) g True rn unfolding vw_caption_presenter_flush_def pend_def [symmetric]
    by (auto simp: Let_def d_def)
  from render_track[OF assms(1) rn, of l] obtain r' where
    "track_all (held_refs p, l, r) es1 = Some (held_refs p1, l, r')" "chan_ok p1 r'" by blast
  with track_get_rate[OF g, of "held_refs p" l r] show ?thesis unfolding res by (auto simp: track_all_append)
qed

lemma show_paused_track:
  assumes "chan_ok p r" "snd (vw_caption_presenter_show_paused env p seg) = (p', es)"
  shows "\<exists>r'. track_all (held_refs p, l, r) es = Some (held_refs p', l, r') \<and> chan_ok p' r'"
proof (cases "cs_text_utf8 seg = None")
  case True
  with assms show ?thesis by (auto simp: vw_caption_presenter_show_paused_def)
next
  case False
  let ?p = "p\<lparr>pr_has_pending := False\<rparr>"
  let ?d0 = "cs_end_pts_us seg - cs_start_pts_us seg"
  let ?d = "if ?d0 < VW_CAPTION_MIN_DISPLAY_DURATION_US then VW_CAPTION_MIN_DISPLAY_DURATION_US else ?d0"
  have "snd (vw_render env ?p seg ?d (- 1) False True) = (p', es)"
    using False assms(2) by (simp only: vw_caption_presenter_show_paused_def Let_def if_False)
  then have "vw_render env ?p seg ?d (- 1) False True = (fst (vw_render env ?p seg ?d (- 1) False True), p', es)"
    by (metis prod.collapse)
  from render_track[OF _ this, of r l] assms(1) show ?thesis by simp blast
qed

lemma show_progress_track:
  assumes "chan_ok p r" "snd (vw_caption_presenter_show_model_progress env p prog) = (p', es)"
  shows "\<exists>r'. track_all (held_refs p, l, r) es = Some (held_refs p', l, r') \<and> chan_ok p' r'"
proof (cases "pr_filter_ctx p")
  case False
  with assms show ?thesis by (auto simp: vw_caption_presenter_show_model_progress_def)
next
  case True
  obtain vo es1 where f: "vw_caption_presenter_find_vout (ve_chain env) = (vo, es1)" by force
  note tf = track_find_vout[OF f]
  show ?thesis
  proof (cases vo)
    case None
    with assms True f tf show ?thesis by (auto simp: vw_caption_presenter_show_model_progress_def)
  next
    case (Some v)
    obtain ok p1 es2 where reg: "vw_caption_presenter_register_model_progress_channel env p v = (ok, p1, es2)"
      by (metis prod_cases3)
    from register_mp_track[OF assms(1) reg, of l] obtain r1 where
      r1: "track_all (add_mset v (held_refs p), l, r) es2 = Some (add_mset v (held_refs p1), l, r1)" "chan_ok p1 r1"
      "ok \<longrightarrow> (v, pr_model_progress_channel_id p1) \<in> r1" by blast
    obtain es3 where res: "p' = p1" "es = es1 @ es2 @ es3 @ [Release v]"
      and t3: "track_all (add_mset v (held_refs p1), l, r1) es3 = Some (add_mset v (held_refs p1), l, r1)"
    proof (cases ok)
      case False
      show thesis by (rule that[of "[]"])
        (use assms(2) True f Some reg False in \<open>auto simp: vw_caption_presenter_show_model_progress_def\<close>)
    next
      case ok: True
      show thesis
        by (rule that[OF _ _ track_render_spu[OF surjective_pairing]])
          (use assms(2) True f Some reg ok r1(3) in
            \<open>auto simp: vw_caption_presenter_show_model_progress_def Let_def case_prod_unfold\<close>)
    qed
    from track_release[OF r1(2), of v l] obtain r2 where
      r2: "track_all (add_mset v (held_refs p1), l, r1) [Release v] = Some (held_refs p1, l, r2)" "chan_ok p1 r2" by blast
    have "track_all (held_refs p, l, r) es = Some (held_refs p', l, r2)"
      unfolding res using tf[of "held_refs p" l r] r1(1) t3 r2(1) Some
      by (simp only: track_all_append opt_refs_simps add_mset_add_single [symmetric] option.case
          add.commute[of "{#v#}"])
    with r2(2) res show ?thesis by blast
  qed
qed


lemma clear_progress_track:
  assumes "chan_ok p r" "snd (vw_caption_presenter_clear_model_progress p) = (p', es)"
  shows "\<exists>r'. track_all (held_refs p, l, r) es = Some (held_refs p', l, r') \<and> chan_ok p' r'"
proof (cases "pr_model_progress_held_vout p")
  case None
  with assms show ?thesis by (auto simp: vw_caption_presenter_clear_model_progress_def chan_ok_def held_refs_def)
next
  case (Some w)
  let ?q = "p\<lparr>pr_model_progress_held_vout := None, pr_model_progress_channel_id := - 1,
    pr_model_progress_channel_registered := False\<rparr>"
  have q: "chan_ok ?q r" "held_refs p = add_mset w (held_refs ?q)" "(w, pr_model_progress_channel_id p) \<in> r"
    using assms(1) Some by (simp_all add: chan_ok_def held_refs_def)
  have "es = [Flush_Channel w (pr_model_progress_channel_id p)] @ [Release w]" "p' = ?q"
    using assms Some by (auto simp: vw_caption_presenter_clear_model_progress_def chan_ok_def)
  then show ?thesis using track_release[OF q(1), of w l] q(2,3) by (simp add: track_all_append)
qed

lemma blank_track:
  assumes "chan_ok p r" "snd (vw_caption_presenter_blank env p) = (p', es)"
  shows "\<exists>r'. track_all (held_refs p, l, r) es = Some (held_refs p', l, r') \<and> chan_ok p' r'
    \<and> p' = p\<lparr>pr_has_pending := False\<rparr>"
proof -
  obtain vo es1 where f: "vw_caption_presenter_find_vout (ve_chain env) = (vo, es1)" by force
  note tf = track_find_vout[OF f]
  show ?thesis
  proof (cases "\<not> pr_filter_ctx p \<or> pr_held_vout p \<noteq> None \<or> vo = None")
    case True
    with assms f tf show ?thesis
      by (auto simp: vw_caption_presenter_blank_def Let_def chan_ok_def held_refs_def split: if_splits)
  next
    case False
    then obtain v where v: "vo = Some v" by auto
    have "\<not> pr_spu_channel_registered p" using assms(1) False by (auto simp: chan_ok_def)
    then have es: "es = es1 @ [Flush_Channel v 1, OSD_Text v VW_OSD_BLANK_DURATION_US []] @ [Release v]"
      and p': "p' = p\<lparr>pr_has_pending := False\<rparr>"
      using assms(2) False f v by (auto simp: vw_caption_presenter_blank_def Let_def)
    from track_release[OF assms(1), of v l] tf[of "held_refs p" l r] v show ?thesis
      unfolding es p' using assms(1) by (simp add: track_all_append)
  qed
qed

lemma clear_track:
  assumes "chan_ok p r" "snd (vw_caption_presenter_clear env p) = (p', es)"
  shows "\<exists>r'. track_all (held_refs p, l, r) es = Some (held_refs p', l, r') \<and> chan_ok p' r' \<and> held_refs p' = {#}"
proof -
  obtain p1 es1 where c: "vw_caption_presenter_clear_model_progress p = ((), p1, es1)" by (metis prod_cases3 unit.exhaust)
  obtain p2 es2 where b: "vw_caption_presenter_blank env p1 = ((), p2, es2)" by (metis prod_cases3 unit.exhaust)
  from clear_progress_track[OF assms(1), of p1 es1 l] c obtain r1 where
    r1: "track_all (held_refs p, l, r) es1 = Some (held_refs p1, l, r1)" "chan_ok p1 r1" by auto
  from blank_track[OF r1(2), of env p2 es2 l] b obtain r2 where
    r2: "track_all (held_refs p1, l, r1) es2 = Some (held_refs p2, l, r2)" "chan_ok p2 r2"
    and p2: "p2 = p1\<lparr>pr_has_pending := False\<rparr>" by auto
  have mp: "pr_model_progress_held_vout p2 = None" "\<not> pr_model_progress_channel_registered p2"
    using c p2 by (auto simp: vw_caption_presenter_clear_model_progress_def)
  have res: "p' = p2\<lparr>pr_has_pending := False, pr_held_vout := None, pr_filter_ctx := False, pr_spu_channel_id := - 1,
      pr_spu_channel_registered := False\<rparr>"
    "es = es1 @ es2 @ (case pr_held_vout p2 of None \<Rightarrow> [] | Some w \<Rightarrow> [Release w])"
    using assms(2) c b by (auto simp: vw_caption_presenter_clear_def)
  have h: "held_refs p' = {#}" "chan_ok p' q" for q using mp by (simp_all add: res(1) held_refs_def chan_ok_def)
  have "\<exists>r'. track_all (held_refs p2, l, r2) (case pr_held_vout p2 of None \<Rightarrow> [] | Some w \<Rightarrow> [Release w]) = Some ({#}, l, r')"
    using mp by (cases "pr_held_vout p2") (simp_all add: held_refs_def)
  with h r1(1) r2(1) show ?thesis unfolding res(2) by (auto simp: track_all_append)
qed

lemma presenter_step_track:
  assumes "chan_ok p r" "presenter_step p x = (p', es)"
  shows "\<exists>r'. track_all (held_refs p, l, r) es = Some (held_refs p', l, r') \<and> chan_ok p' r'"
proof (cases x)
  case (Show_Segment env env' seg t m)
  with assms show ?thesis by (intro show_segment_track) auto
next
  case (Flush_Pending env env' t m)
  with assms show ?thesis by (intro flush_track) auto
next
  case (Show_Paused env seg)
  with assms show ?thesis by (intro show_paused_track) auto
next
  case (Show_Progress env pr)
  with assms show ?thesis by (intro show_progress_track) auto
next
  case Clear_Progress
  with assms show ?thesis by (intro clear_progress_track) auto
next
  case (Blank env)
  with blank_track[OF assms(1), of env p' es l] assms show ?thesis by auto
next
  case (Clear env)
  with clear_track[OF assms(1), of env p' es l] assms show ?thesis by auto
qed

lemma presenter_run_track:
  assumes "chan_ok p r" "presenter_run p xs = (p', es)"
  shows "\<exists>r'. track_all (held_refs p, l, r) es = Some (held_refs p', l, r') \<and> chan_ok p' r'"
  using assms
proof (induction xs arbitrary: p r es)
  case Nil
  then show ?case by auto
next
  case (Cons x xs)
  obtain p1 es1 where s: "presenter_step p x = (p1, es1)" by force
  obtain es2 where q: "presenter_run p1 xs = (p', es2)" "es = es1 @ es2"
    using Cons.prems(2) s by (auto split: prod.splits)
  from presenter_step_track[OF Cons.prems(1) s, of l] obtain r1 where
    r1: "track_all (held_refs p, l, r) es1 = Some (held_refs p1, l, r1)" "chan_ok p1 r1" by blast
  from Cons.IH[OF r1(2) q(1)] r1(1) show ?case unfolding q(2) by (auto simp: track_all_append)
qed

text \<open>The presenter as \<^verbatim>\<open>calloc\<close> and the plugin's \<^verbatim>\<open>open\<close> leave it.\<close>

definition idle_presenter :: "vw_caption_presenter \<Rightarrow> bool" where
  "idle_presenter p \<longleftrightarrow> pr_held_vout p = None \<and> \<not> pr_spu_channel_registered p
     \<and> pr_model_progress_held_vout p = None \<and> \<not> pr_model_progress_channel_registered p"

text \<open>
  Property C3.  Whatever the operations and whatever VLC answers: every call the presenter
  makes on a video output happens while it holds a reference to it, every channel it uses
  was registered on that same output and the output was held ever since, no reference is
  released twice, child lists are always released; and after the final \<^verbatim>\<open>clear\<close> no
  reference is left.
\<close>

theorem vw_caption_presenter_references:
  assumes "idle_presenter p" "presenter_run p xs = (p', es)" "snd (vw_caption_presenter_clear env p') = (p'', fs)"
  shows "(\<exists>r. track_all ({#}, {#}, {}) es = Some (held_refs p', {#}, r))
    \<and> (\<exists>r. track_all ({#}, {#}, {}) (es @ fs) = Some ({#}, {#}, r))"
proof -
  have p: "chan_ok p {}" "held_refs p = {#}" using assms(1) by (auto simp: idle_presenter_def chan_ok_def held_refs_def)
  from presenter_run_track[OF p(1) assms(2), of "{#}"] obtain r where
    r: "track_all ({#}, {#}, {}) es = Some (held_refs p', {#}, r)" "chan_ok p' r" unfolding p(2) by blast
  from clear_track[OF r(2) assms(3), of "{#}"] r(1) show ?thesis by (auto simp: track_all_append)
qed

theorem vw_caption_presenter_references_witness:
  fixes p :: vw_caption_presenter and env :: vlc_env and xs :: "presenter_op list"
  defines "env \<equiv> \<lparr>ve_chain = [\<lparr>nd_self = \<lparr>ob_addr = 5, ob_type = Some ''audio filter'', ob_input_vout = None, ob_rate = None\<rparr>,
        nd_children = Some [None, Some \<lparr>ob_addr = 6, ob_type = Some ''vout'', ob_input_vout = None, ob_rate = None\<rparr>]\<rparr>],
      ve_register = (\<lambda>_. 3), ve_mdate = 100, ve_translate_mode = 1, ve_subpicture_New = True, ve_region_New = True,
      ve_text_segment_New = True\<rparr>"
    and "p \<equiv> \<lparr>pr_filter_ctx = True, pr_held_vout = None, pr_spu_channel_id = - 1, pr_spu_channel_registered = False,
      pr_model_progress_held_vout = None, pr_model_progress_channel_id = - 1,
      pr_model_progress_channel_registered = False, pr_has_pending = False,
      pr_pending_segment = \<lparr>cs_session_id = [], cs_segment_id = 0, cs_start_pts_us = 0, cs_end_pts_us = 0,
        cs_is_final = False, cs_text_utf8 = None, cs_text_bytes = 0, cs_translated_text_utf8 = None,
        cs_translated_text_bytes = 0, cs_translation_attempted = False, cs_translation_latency_us = 0,
        cs_translation_tier = 0\<rparr>\<rparr>"
    and "xs \<equiv> [Show_Progress env \<lparr>mp_session_id = [], mp_stage = 1, mp_pct = 5, mp_bytes_done = 1, mp_bytes_total = 20,
        mp_model_id = ascii ''tiny''\<rparr>, Blank env]"
  shows "idle_presenter p \<and> Register 6 3 \<in> set (snd (presenter_run p xs))
    \<and> (\<exists>r. track_all ({#}, {#}, {}) (snd (presenter_run p xs)
        @ snd (snd (vw_caption_presenter_clear env (fst (presenter_run p xs))))) = Some ({#}, {#}, r))"
proof (intro conjI)
  show i: "idle_presenter p" by (simp add: idle_presenter_def p_def)
  show "\<exists>r. track_all ({#}, {#}, {}) (snd (presenter_run p xs)
        @ snd (snd (vw_caption_presenter_clear env (fst (presenter_run p xs))))) = Some ({#}, {#}, r)"
    using vw_caption_presenter_references[OF i surjective_pairing surjective_pairing, of xs env] by blast
  show "Register 6 3 \<in> set (snd (presenter_run p xs))"
    unfolding xs_def p_def env_def by code_simp
qed

section \<open>The readability floor\<close>

text \<open>Whatever the rate, a cue given at least the scaled floor stays on screen for a second, up to 21 microseconds.\<close>

lemma floor_readable:
  assumes "rate_usable (Some r)" "times_rate VW_CAPTION_MIN_DISPLAY_DURATION_US r \<le> d"
  shows "999978 < over_rate d r"
proof -
  let ?e = "1 - 1 / 2 ^ 53 :: rat"
  have r: "13421773 / 268435456 < r" using assms(1) by (simp add: rate_usable_def)
  then have rpos: "0 < r" by (rule less_trans[rotated]) simp
  have a: "1000000 * ?e \<le> rne 53 1000000" using rne_lower[of 1000000 53] by simp
  have b: "1000000 * ?e * r * ?e \<le> rne 53 (rne 53 1000000 * r)"
  proof -
    have n: "0 \<le> rne 53 1000000 * r" using a rpos by (intro mult_nonneg_nonneg) (auto intro: order_trans[rotated])
    have "1000000 * ?e * r * ?e \<le> rne 53 1000000 * r * ?e" using a rpos by (intro mult_right_mono) auto
    also have "\<dots> \<le> rne 53 (rne 53 1000000 * r)" by (rule rne_lower[OF n])
    finally show ?thesis .
  qed
  have c: "1000000 * ?e * r * ?e - 1 \<le> of_int d"
  proof -
    have "rne 53 (rne 53 1000000 * r) - 1 < of_int (times_rate VW_CAPTION_MIN_DISPLAY_DURATION_US r)"
      using trunc0_lower by (simp add: times_rate_def VW_CAPTION_MIN_DISPLAY_DURATION_US_def)
    also have "\<dots> \<le> of_int d" using assms(2) by simp
    finally show ?thesis using b by linarith
  qed
  have dpos: "0 \<le> (of_int d :: rat)"
  proof -
    have "1000000 * ?e * (13421773 / 268435456) * ?e \<le> 1000000 * ?e * r * ?e" using r by (intro mult_right_mono mult_left_mono) auto
    then show ?thesis using c by simp
  qed
  have s: "of_int d * ?e \<le> rne 53 (of_int d)" by (rule rne_lower[OF dpos])
  have q: "of_int d * ?e / r * ?e \<le> rne 53 (rne 53 (of_int d) / r)"
  proof -
    have n: "0 \<le> rne 53 (of_int d) / r" using s dpos rpos by (intro divide_nonneg_pos) (auto intro: order_trans[rotated])
    have "of_int d * ?e / r * ?e \<le> rne 53 (of_int d) / r * ?e" using s rpos by (intro mult_right_mono divide_right_mono) auto
    also have "\<dots> \<le> rne 53 (rne 53 (of_int d) / r)" by (rule rne_lower[OF n])
    finally show ?thesis .
  qed
  have "(1000000 * ?e * ?e - 20) * ?e * ?e \<le> of_int d / r * ?e * ?e"
  proof (intro mult_right_mono)
    have "1 \<le> 20 * r" using r by simp
    then have "(1000000 * ?e * ?e - 20) * r \<le> 1000000 * ?e * r * ?e - 1" by (simp add: algebra_simps)
    also have "\<dots> \<le> of_int d" by (rule c)
    finally show "1000000 * ?e * ?e - 20 \<le> of_int d / r" using rpos by (simp add: pos_le_divide_eq)
  qed auto
  also have "\<dots> = of_int d * ?e / r * ?e" by simp
  also note q
  also have "rne 53 (rne 53 (of_int d) / r) < of_int (over_rate d r) + 1"
    using trunc0_lower[of "rne 53 (rne 53 (of_int d) / r)"] by (simp add: over_rate_def)
  finally have "(999978 :: rat) < of_int (over_rate d r)" by simp
  then show ?thesis by (metis of_int_less_iff of_int_numeral)
qed


lemma floor_positive:
  assumes "rate_usable (Some r)"
  shows "0 < times_rate VW_CAPTION_MIN_DISPLAY_DURATION_US r"
proof (rule ccontr)
  assume "\<not> ?thesis"
  then have "999978 < over_rate 0 r" using floor_readable[OF assms, of 0] by simp
  then show False by (simp add: over_rate_def rne_def trunc0_def)
qed

lemma dispatch_bounds:
  assumes "0 < f"
  shows "f \<le> dispatch_duration f s e n" "s < n \<Longrightarrow> dispatch_duration f s e n \<le> max (n - s) f"
  using assms by (auto simp: dispatch_duration_def Let_def)

text \<open>Every rate the presenter works with is usable.\<close>

lemma rate_in_children_usable: "rate_in_children cs = Some r \<Longrightarrow> rate_usable (Some r)"
  by (induction cs rule: rate_in_children.induct) (auto split: if_splits)

lemma rate_walk_usable: "rate_usable (Some (fst (rate_walk ns)))"
proof (induction ns)
  case Nil
  then show ?case by (simp add: rate_usable_def)
next
  case (Cons n ns)
  have "rate_usable (Some (the r))" if "rate_usable r" for r using that by (cases r) (auto simp: rate_usable_def)
  with Cons show ?case by (auto simp: Let_def case_prod_unfold split: option.splits dest: rate_in_children_usable)
qed

lemma get_rate_usable: "rate_usable (Some (fst (vw_caption_presenter_get_rate env p)))"
  using rate_walk_usable by (simp add: vw_caption_presenter_get_rate_def rate_usable_def)

text \<open>The cue a live render puts on the caption channel.\<close>

definition spu_ready :: "vlc_env \<Rightarrow> vw_caption_presenter \<Rightarrow> nat \<Rightarrow> bool" where
  "spu_ready env p v \<longleftrightarrow> pr_filter_ctx p \<and> fst (vw_caption_presenter_find_vout (ve_chain env)) = Some v
     \<and> 0 \<le> ve_register env v \<and> ve_subpicture_New env \<and> ve_region_New env \<and> ve_text_segment_New env"

lemma register_ready:
  "0 \<le> ve_register env v \<Longrightarrow>
    pr_spu_channel_registered (fst (register_spu_channel env p v)) \<and> 0 \<le> pr_spu_channel_id (fst (register_spu_channel env p v))"
  by (auto simp: register_spu_channel_def Let_def)

lemma render_puts:
  assumes "spu_ready env p v" "cs_text_utf8 seg = Some s" "rate = fst (vw_caption_presenter_get_rate env p)"
    and "start = vw_saturating_add_i64 (ve_mdate env) (lead_time seg t m rate)"
    and "0 < over_rate d rate" "start < INT64_MAX"
  shows "\<exists>sp. Put_Subpicture v sp \<in> set (snd (snd (vw_render env p seg d t m pers)))
    \<and> sp_text sp = text_to_render env p seg s \<and> sp_start sp = start
    \<and> sp_stop sp = vw_saturating_add_i64 start (over_rate d rate)"
proof -
  obtain p1 es2 where reg: "register_spu_channel env p v = (p1, es2)" by force
  obtain es1 where f: "vw_caption_presenter_find_vout (ve_chain env) = (Some v, es1)"
    using assms(1) by (metis prod.collapse spu_ready_def)
  obtain es0 where g: "vw_caption_presenter_get_rate env p = (rate, es0)" using assms(3) by (metis prod.collapse)
  have "pr_spu_channel_registered p1 \<and> 0 \<le> pr_spu_channel_id p1"
    using register_ready[of env v p] assms(1) reg by (simp add: spu_ready_def)
  moreover have "\<not> vw_saturating_add_i64 start (over_rate d rate) \<le> start"
    using assms(4,5,6) saturating_in_i64(1)[of "ve_mdate env"]
    by (auto simp: vw_saturating_add_i64_def in_i64_def INT64_MAX_def INT64_MIN_def split: if_splits)
  ultimately have "Put_Subpicture v \<lparr>sp_channel = pr_spu_channel_id p1, sp_text = text_to_render env p seg s,
      sp_align = SUBPICTURE_ALIGN_BOTTOM, sp_y = 20, sp_start = start,
      sp_stop = vw_saturating_add_i64 start (over_rate d rate), sp_ephemer = pers\<rparr>
      \<in> set (snd (spu_part env p1 v (text_to_render env p seg s) start (over_rate d rate) m pers))"
    using assms(1) by (simp add: spu_part_def vw_caption_presenter_render_spu_def spu_ready_def)
  then show ?thesis
    using vw_render_live[OF assms(2) _ g f reg, of d t m pers] assms(1,4)
    by (intro exI[of _ "\<lparr>sp_channel = pr_spu_channel_id p1, sp_text = text_to_render env p seg s,
      sp_align = SUBPICTURE_ALIGN_BOTTOM, sp_y = 20, sp_start = start,
      sp_stop = vw_saturating_add_i64 start (over_rate d rate), sp_ephemer = pers\<rparr>"])
      (simp add: spu_ready_def Let_def)
qed

text \<open>
  Property C38.  When a successor arrives, the buffered cue is put on the caption channel with
  its own text for a media time that never falls below the rate-scaled floor and passes the
  successor's start only as far as the floor requires; on the clock it is visible for a
  second, up to 21 microseconds of rounding, at every playback rate.
\<close>

theorem vw_caption_presenter_show_segment_readable:
  assumes "pr_has_pending p" "cs_text_utf8 (pr_pending_segment p) = Some s" "cs_text_utf8 seg = Some s'"
    and "spu_ready env' p v" "vw_caption_presenter_get_rate env p = (rate, es0)"
      "vw_caption_presenter_get_rate env' p = (rate, es0')"
    and "in_i64 (ve_mdate env')" "ve_mdate env' + 60000000 < INT64_MAX"
  defines "pend \<equiv> pr_pending_segment p"
  shows "\<exists>d sp. Put_Subpicture v sp \<in> set (snd (snd (vw_caption_presenter_show_segment env env' p seg t m)))
    \<and> sp_text sp = text_to_render env' p pend s
    \<and> times_rate VW_CAPTION_MIN_DISPLAY_DURATION_US rate \<le> d
    \<and> (cs_start_pts_us pend < cs_start_pts_us seg \<longrightarrow>
         d \<le> max (cs_start_pts_us seg - cs_start_pts_us pend) (times_rate VW_CAPTION_MIN_DISPLAY_DURATION_US rate))
    \<and> sp_stop sp = vw_saturating_add_i64 (sp_start sp) (over_rate d rate)
    \<and> (sp_stop sp = INT64_MAX \<or> 999978 < sp_stop sp - sp_start sp)"
proof -
  let ?f = "times_rate VW_CAPTION_MIN_DISPLAY_DURATION_US rate"
  let ?d = "dispatch_duration ?f (cs_start_pts_us pend) (cs_end_pts_us pend) (cs_start_pts_us seg)"
  let ?start = "vw_saturating_add_i64 (ve_mdate env') (lead_time pend t m rate)"
  have u: "rate_usable (Some rate)" using get_rate_usable[of env p] assms(5) by simp
  note fp = floor_positive[OF u]
  note db = dispatch_bounds[OF fp]
  have vis: "999978 < over_rate ?d rate" by (rule floor_readable[OF u db(1)])
  have "lead_time pend t m rate \<le> 60000000" by (simp add: lead_time_def Let_def)
  then have st: "?start < INT64_MAX" using assms(7,8)
    by (auto simp: vw_saturating_add_i64_def in_i64_def INT64_MAX_def INT64_MIN_def)
  have tx: "cs_text_utf8 pend = Some s" using assms(2) by (simp add: pend_def)
  obtain sp where sp: "Put_Subpicture v sp \<in> set (snd (snd (vw_render env' p pend ?d t m False)))"
    "sp_text sp = text_to_render env' p pend s" "sp_start sp = ?start"
    "sp_stop sp = vw_saturating_add_i64 ?start (over_rate ?d rate)"
    using render_puts[OF assms(4) tx, where rate = rate and start = ?start and d = ?d and pers = False and t = t and m = m]
      assms(6) vis st by auto
  have "set (snd (snd (vw_render env' p pend ?d t m False)))
      \<subseteq> set (snd (snd (vw_caption_presenter_show_segment env env' p seg t m)))"
    using assms(1,3,5) by (auto simp: vw_caption_presenter_show_segment_def Let_def pend_def case_prod_unfold)
  moreover have "sp_stop sp = INT64_MAX \<or> 999978 < sp_stop sp - sp_start sp"
    using vis sp(3,4) by (auto simp: vw_saturating_add_i64_def)
  ultimately show ?thesis using sp db by (intro exI[of _ ?d] exI[of _ sp]) auto
qed


theorem vw_caption_presenter_show_segment_readable_witness:
  fixes p :: vw_caption_presenter and seg :: vw_caption_segment and env :: vlc_env
  defines "seg \<equiv> \<lparr>cs_session_id = [], cs_segment_id = 1, cs_start_pts_us = 0, cs_end_pts_us = 1500000, cs_is_final = True,
      cs_text_utf8 = Some (ascii ''hi''), cs_text_bytes = 2, cs_translated_text_utf8 = None,
      cs_translated_text_bytes = 0, cs_translation_attempted = False, cs_translation_latency_us = 0,
      cs_translation_tier = 0\<rparr>"
    and "env \<equiv> \<lparr>ve_chain = [\<lparr>nd_self = \<lparr>ob_addr = 5, ob_type = Some ''input'', ob_input_vout = Some 6, ob_rate = Some 2\<rparr>,
        nd_children = None\<rparr>], ve_register = (\<lambda>_. 3), ve_mdate = 100, ve_translate_mode = 1, ve_subpicture_New = True,
        ve_region_New = True, ve_text_segment_New = True\<rparr>"
    and "p \<equiv> \<lparr>pr_filter_ctx = True, pr_held_vout = None, pr_spu_channel_id = - 1, pr_spu_channel_registered = False,
      pr_model_progress_held_vout = None, pr_model_progress_channel_id = - 1,
      pr_model_progress_channel_registered = False, pr_has_pending = True, pr_pending_segment = seg\<rparr>"
  shows "\<exists>sp. Put_Subpicture 6 sp \<in> set (snd (snd (vw_caption_presenter_show_segment env env p
        (seg\<lparr>cs_start_pts_us := 300000\<rparr>) 0 True))) \<and> sp_text sp = ascii ''hi''
      \<and> (sp_stop sp = INT64_MAX \<or> 999978 < sp_stop sp - sp_start sp)"
proof -
  have g: "vw_caption_presenter_get_rate env p = (2, [])"
    by (simp add: vw_caption_presenter_get_rate_def env_def p_def rate_usable_def)
  have h: "pr_has_pending p" "cs_text_utf8 (pr_pending_segment p) = Some (ascii ''hi'')"
    "cs_text_utf8 (seg\<lparr>cs_start_pts_us := 300000\<rparr>) = Some (ascii ''hi'')" "spu_ready env p 6"
    "in_i64 (ve_mdate env)" "ve_mdate env + 60000000 < INT64_MAX"
    by (simp_all add: p_def seg_def env_def spu_ready_def in_i64_def INT64_MAX_def INT64_MIN_def)
  have "text_to_render env p (pr_pending_segment p) (ascii ''hi'') = ascii ''hi''"
    by (simp add: text_to_render_def p_def seg_def c_str_def strlen_def ascii_def)
  with vw_caption_presenter_show_segment_readable[OF h(1-4) g g h(5,6), of 0 True] show ?thesis by metis
qed

text \<open>
  \<^verbatim>\<open>vw_caption_presenter_flush\<close> gives a cue without positive length two seconds of media
  time whatever the rate, so at four times the normal speed it stays for half a second.
\<close>

lemma flush_default_ignores_floor:
  "flush_duration (4 * VW_CAPTION_MIN_DISPLAY_DURATION_US) 7 7 = 2000000
    \<and> flush_duration (4 * VW_CAPTION_MIN_DISPLAY_DURATION_US) 7 7 < 4 * VW_CAPTION_MIN_DISPLAY_DURATION_US"
  by (simp add: flush_duration_def VW_CAPTION_MIN_DISPLAY_DURATION_US_def)

section \<open>The preview token\<close>

datatype preview_op = Arm | Reset_Session | Take

fun preview_run :: "vw_paused_preview_state \<Rightarrow> preview_op list \<Rightarrow> vw_paused_preview_state \<times> bool list" where
  "preview_run st [] = (st, [])"
| "preview_run st (Arm # xs) = preview_run (vw_paused_preview_arm st) xs"
| "preview_run st (Reset_Session # xs) = preview_run (vw_paused_preview_state_reset_session st) xs"
| "preview_run st (Take # xs) =
     (case vw_paused_preview_take st of (ok, st') \<Rightarrow> case preview_run st' xs of (st'', oks) \<Rightarrow> (st'', ok # oks))"

lemma preview_takes_le:
  "preview_run st xs = (st', oks) \<Longrightarrow>
    length (filter id oks) + (if pp_pending st' then 1 else 0)
    \<le> length (filter (\<lambda>x. x = Arm) xs) + (if pp_pending st then 1 else 0)"
proof (induction xs arbitrary: st oks)
  case Nil
  then show ?case by simp
next
  case (Cons x xs)
  show ?case
  proof (cases x)
    case Arm
    with Cons.IH[of "vw_paused_preview_arm st"] Cons.prems show ?thesis by (simp add: vw_paused_preview_arm_def split: if_splits)
  next
    case Reset_Session
    with Cons.IH[of "vw_paused_preview_state_reset_session st"] Cons.prems show ?thesis
      by (simp add: vw_paused_preview_state_reset_session_def split: if_splits)
  next
    case Take
    with Cons.prems obtain oks' where "preview_run (snd (vw_paused_preview_take st)) xs = (st', oks')"
      "oks = fst (vw_paused_preview_take st) # oks'" by (auto split: prod.splits)
    with Cons.IH[of "snd (vw_paused_preview_take st)" oks'] Take show ?thesis
      by (auto simp: vw_paused_preview_take_def split: if_splits)
  qed
qed

end
