(* ===== verification/VW_Benchmark.thy ===== *)
theory VW_Benchmark
  imports VW_Types VW_Ieee "HOL-Library.Multiset"
begin

text \<open>
  \<^verbatim>\<open>plugin/src/vw_benchmark.c\<close>: the session metrics of the plugin and the report rendered from
  them.  Counters are 64-bit words; the fixed sample arrays are the lists of their used
  entries.  The file system is a parameter: \<open>report_env\<close> answers the queries of the path
  resolution (POSIX branch), and two Booleans say whether staging, and then writing and
  renaming the report succeeded.
\<close>

section \<open>Number formats\<close>

text \<open>The magnitude is computed without overflow, also for the smallest value.\<close>

definition vw_benchmark_i64_magnitude :: "i64 \<Rightarrow> u64" where
  "vw_benchmark_i64_magnitude value =
     (if value \<ge> 0 then word_of_int value else word_of_int (- (value + 1)) + 1)"

definition thousandths :: "nat \<Rightarrow> nat \<Rightarrow> bytes" where
  "thousandths whole rest = dec_digits whole @ [0x2E] @ pad0 3 (dec_digits rest)"

definition vw_benchmark_format_ms :: "nat \<Rightarrow> i64 \<Rightarrow> bytes option" where
  "vw_benchmark_format_ms sz duration_us =
     (let magnitude = unat (vw_benchmark_i64_magnitude duration_us) in
      snprintf sz ((if duration_us < 0 then [0x2D] else []) @ thousandths (magnitude div 1000) (magnitude mod 1000)))"

definition round_ms :: "nat \<Rightarrow> nat" where
  "round_ms us = us div 1000 + (if us mod 1000 \<ge> 500 then 1 else 0)"

definition vw_benchmark_format_s :: "nat \<Rightarrow> i64 \<Rightarrow> bytes option" where
  "vw_benchmark_format_s sz duration_us =
     (let total_ms = round_ms (unat (vw_benchmark_i64_magnitude duration_us)) in
      snprintf sz ((if duration_us < 0 then [0x2D] else []) @ thousandths (total_ms div 1000) (total_ms mod 1000)))"

definition vw_benchmark_format_u64_ms :: "nat \<Rightarrow> u64 \<Rightarrow> bytes option" where
  "vw_benchmark_format_u64_ms sz duration_us =
     snprintf sz (thousandths (unat duration_us div 1000) (unat duration_us mod 1000))"

definition vw_benchmark_format_u64_s :: "nat \<Rightarrow> u64 \<Rightarrow> bytes option" where
  "vw_benchmark_format_u64_s sz duration_us =
     (let total_ms = round_ms (unat duration_us) in
      snprintf sz (thousandths (total_ms div 1000) (total_ms mod 1000)))"

text \<open>\<^verbatim>\<open>long double\<close> has a 64-bit significand.\<close>

definition vw_benchmark_format_ratio :: "nat \<Rightarrow> u64 \<Rightarrow> u64 \<Rightarrow> bytes option" where
  "vw_benchmark_format_ratio sz numerator denominator =
     (if denominator = 0 then Some (take (sz - 1) (ascii ''0.000000''))
      else
        let ratio = rne 64 (of_nat (unat numerator) / of_nat (unat denominator));
            whole = nat (trunc0 ratio);
            fractional = nat (trunc0 (rne 64 (rne 64 (rne 64 (ratio - of_nat whole) * 1000000) + 1 / 2)));
            (whole, fractional) = (if fractional = 1000000 \<and> whole < 2 ^ 64 - 1 then (whole + 1, 0) else (whole, fractional))
        in snprintf sz (dec_digits whole @ [0x2E] @ pad0 6 (dec_digits fractional)))"

section \<open>State\<close>

definition VW_BENCHMARK_MAX_LATENCY_SAMPLES :: nat where "VW_BENCHMARK_MAX_LATENCY_SAMPLES = 1024"

record vw_benchmark =
  be_active :: bool
  be_finalized :: bool
  be_started_us :: i64
  be_ended_us :: i64
  be_last_flush_us :: i64
  be_report_path :: bytes
  be_model_id :: bytes
  be_backend :: bytes
  be_audio_chunks_sent :: u64
  be_audio_duration_us :: u64
  be_worker_frames_received :: u64
  be_captions_received :: u64
  be_captions_sent :: u64
  be_captions_filtered :: u64
  be_captions_paused :: u64
  be_captions_stale :: u64
  be_captions_presenter_rejected :: u64
  be_segment_audio_duration_us :: u64
  be_segment_text_bytes :: u64
  be_inference_us :: u64
  be_dropped_audio_us :: u64
  be_last_worker_inference_us :: u64
  be_last_worker_dropped_audio_us :: u64
  be_latency_samples_dropped :: u64
  be_last_segment_id :: u64
  be_last_segment_start_pts_us :: i64
  be_last_segment_end_pts_us :: i64
  be_first_caption_elapsed_us :: i64
  be_live_pts_to_monotonic_us :: i64
  be_latency_samples :: "i64 list"
  be_translation_requests_sent :: u64
  be_translation_success_count :: u64
  be_translation_tier1_count :: u64
  be_translation_tier2_count :: u64
  be_translation_tier3_count :: u64
  be_translation_failure_count :: u64
  be_translation_provider_failure_count :: u64
  be_translation_transport_failure_count :: u64
  be_translation_parse_failure_count :: u64
  be_translation_timeout_count :: u64
  be_translation_duration_us :: u64
  be_translation_latency_samples :: "i64 list"
  be_first_caption_recorded :: bool
  be_live_clock_valid :: bool

definition zero_benchmark :: vw_benchmark where
  "zero_benchmark = \<lparr>be_active = False, be_finalized = False, be_started_us = 0, be_ended_us = 0,
     be_last_flush_us = 0, be_report_path = [], be_model_id = [], be_backend = [],
     be_audio_chunks_sent = 0, be_audio_duration_us = 0, be_worker_frames_received = 0,
     be_captions_received = 0, be_captions_sent = 0, be_captions_filtered = 0, be_captions_paused = 0,
     be_captions_stale = 0, be_captions_presenter_rejected = 0, be_segment_audio_duration_us = 0,
     be_segment_text_bytes = 0, be_inference_us = 0, be_dropped_audio_us = 0,
     be_last_worker_inference_us = 0, be_last_worker_dropped_audio_us = 0, be_latency_samples_dropped = 0,
     be_last_segment_id = 0, be_last_segment_start_pts_us = 0, be_last_segment_end_pts_us = 0,
     be_first_caption_elapsed_us = 0, be_live_pts_to_monotonic_us = 0, be_latency_samples = [],
     be_translation_requests_sent = 0, be_translation_success_count = 0, be_translation_tier1_count = 0,
     be_translation_tier2_count = 0, be_translation_tier3_count = 0, be_translation_failure_count = 0,
     be_translation_provider_failure_count = 0, be_translation_transport_failure_count = 0,
     be_translation_parse_failure_count = 0, be_translation_timeout_count = 0,
     be_translation_duration_us = 0, be_translation_latency_samples = [],
     be_first_caption_recorded = False, be_live_clock_valid = False\<rparr>"

section \<open>Report path\<close>

text \<open>
  What the POSIX branch asks the system: the two environment variables, \<^verbatim>\<open>getuid\<close>, and the
  answers of \<^verbatim>\<open>stat\<close>, \<^verbatim>\<open>lstat\<close>, \<^verbatim>\<open>access(W_OK | X_OK)\<close>, \<^verbatim>\<open>mkdir(0700)\<close> and
  \<^verbatim>\<open>chmod(0700)\<close> for a path.
\<close>

record file_stat =
  st_is_dir :: bool
  st_uid :: nat
  st_mode :: u32

datatype mkdir_result = Mkdir_Ok | Mkdir_Exists | Mkdir_Failed

record report_env =
  re_xdg_runtime_dir :: "bytes option"
  re_tmpdir :: "bytes option"
  re_uid :: nat
  re_stat :: "bytes \<Rightarrow> file_stat option"
  re_lstat :: "bytes \<Rightarrow> file_stat option"
  re_access :: "bytes \<Rightarrow> bool"
  re_mkdir :: "bytes \<Rightarrow> mkdir_result"
  re_chmod :: "bytes \<Rightarrow> bool"

text \<open>\<^verbatim>\<open>S_IRWXG | S_IRWXO\<close> is octal 077.\<close>

definition group_or_other_access :: "file_stat \<Rightarrow> bool" where
  "group_or_other_access info \<longleftrightarrow> and (st_mode info) 63 \<noteq> 0"

definition vw_benchmark_directory_is_usable :: "report_env \<Rightarrow> bytes option \<Rightarrow> bool" where
  "vw_benchmark_directory_is_usable env path =
     (case path of None \<Rightarrow> False
      | Some p \<Rightarrow> p \<noteq> [] \<and> (case re_stat env p of None \<Rightarrow> False | Some info \<Rightarrow> st_is_dir info) \<and> re_access env p)"

definition vw_benchmark_directory_is_private_runtime :: "report_env \<Rightarrow> bytes option \<Rightarrow> bool" where
  "vw_benchmark_directory_is_private_runtime env path =
     (if \<not> vw_benchmark_directory_is_usable env path then False
      else case re_stat env (the path) of None \<Rightarrow> False
         | Some info \<Rightarrow> st_uid info = re_uid env \<and> \<not> group_or_other_access info)"

definition vw_benchmark_resolve_private_fallback :: "report_env \<Rightarrow> bytes \<Rightarrow> bytes option" where
  "vw_benchmark_resolve_private_fallback env base_dir =
     (case snprintf VW_PATH_MAX_BYTES (base_dir @ ascii ''/vlc-whisper-'' @ dec_digits (re_uid env)) of
        None \<Rightarrow> None
      | Some path \<Rightarrow>
          (case re_mkdir env path of
             Mkdir_Ok \<Rightarrow> Some path
           | Mkdir_Failed \<Rightarrow> None
           | Mkdir_Exists \<Rightarrow>
               (case re_lstat env path of None \<Rightarrow> None
                | Some info \<Rightarrow>
                    if \<not> st_is_dir info \<or> st_uid info \<noteq> re_uid env then None
                    else if group_or_other_access info \<and> \<not> re_chmod env path then None
                    else if re_access env path then Some path else None)))"

definition vw_benchmark_resolve_report_path :: "report_env \<Rightarrow> bytes option" where
  "vw_benchmark_resolve_report_path env =
     (let temp_dir =
        (if vw_benchmark_directory_is_private_runtime env (re_xdg_runtime_dir env) then re_xdg_runtime_dir env
         else
           let base_dir = (if vw_benchmark_directory_is_usable env (re_tmpdir env) then the (re_tmpdir env)
                           else ascii ''/tmp'')
           in case vw_benchmark_resolve_private_fallback env base_dir of
               Some d \<Rightarrow> Some d
             | None \<Rightarrow> if base_dir = ascii ''/tmp'' then None
                 else vw_benchmark_resolve_private_fallback env (ascii ''/tmp''))
      in case temp_dir of None \<Rightarrow> None
         | Some d \<Rightarrow> snprintf VW_PATH_MAX_BYTES (d @ ascii ''/vlc-whisper-benchmark.txt''))"

text \<open>
  The staging file: its name must fit the path buffer; \<open>io_ok\<close> says that creating it, making
  it private and opening it as a stream all succeeded.
\<close>

definition vw_benchmark_open_staging_report :: "bool \<Rightarrow> bytes \<Rightarrow> bytes option" where
  "vw_benchmark_open_staging_report io_ok report_path =
     (case snprintf VW_PATH_MAX_BYTES (report_path @ ascii ''.XXXXXX'') of
        None \<Rightarrow> None
      | Some staging_path \<Rightarrow> if io_ok then Some staging_path else None)"

section \<open>Percentiles\<close>

text \<open>\<^verbatim>\<open>qsort\<close> with \<^verbatim>\<open>vw_benchmark_compare_i64\<close> sorts in increasing order.\<close>

definition vw_benchmark_compare_i64 :: "i64 \<Rightarrow> i64 \<Rightarrow> int" where
  "vw_benchmark_compare_i64 left right = (if left < right then - 1 else if left > right then 1 else 0)"

definition percentile_of :: "i64 list \<Rightarrow> nat \<Rightarrow> i64" where
  "percentile_of samples percentile =
     (if samples = [] then 0
      else sort samples ! ((percentile * (length samples - 1) + 99) div 100))"

definition vw_benchmark_percentile :: "vw_benchmark \<Rightarrow> nat \<Rightarrow> i64" where
  "vw_benchmark_percentile b percentile = percentile_of (be_latency_samples b) percentile"

definition vw_benchmark_trans_percentile :: "vw_benchmark \<Rightarrow> nat \<Rightarrow> i64" where
  "vw_benchmark_trans_percentile b percentile = percentile_of (be_translation_latency_samples b) percentile"

section \<open>The report\<close>

text \<open>A line \<^verbatim>\<open>key=value\<close>; a value that does not fit its buffer suppresses the line.\<close>

definition line :: "string \<Rightarrow> bytes \<Rightarrow> bytes" where
  "line key val = ascii key @ [0x3D] @ val @ [0x0A]"

definition count_line :: "string \<Rightarrow> u64 \<Rightarrow> bytes" where
  "count_line key n = line key (dec_digits (unat n))"

definition opt_line :: "string \<Rightarrow> bytes option \<Rightarrow> bytes" where
  "opt_line key val = (case val of None \<Rightarrow> [] | Some v \<Rightarrow> line key v)"

definition or_unknown :: "bytes \<Rightarrow> bytes" where
  "or_unknown s = (if s = [] then ascii ''unknown'' else s)"

definition report_lines :: "vw_benchmark \<Rightarrow> bool \<Rightarrow> i64 \<Rightarrow> bytes list" where
  "report_lines b finalized end_us =
     (let processing_audio_us = (if be_audio_duration_us b = 0 then be_segment_audio_duration_us b
                                 else be_audio_duration_us b);
          duration_us = (if end_us > be_started_us b then end_us - be_started_us b else 0)
      in [line ''report_version'' (ascii ''2''),
          line ''state'' (ascii (if finalized then ''finalized'' else ''active'')),
          line ''model'' (or_unknown (be_model_id b)),
          line ''backend'' (or_unknown (be_backend b)),
          opt_line ''session_duration_sec'' (vw_benchmark_format_s 64 duration_us),
          count_line ''audio_chunks_sent'' (be_audio_chunks_sent b),
          opt_line ''audio_duration_sec'' (vw_benchmark_format_u64_s 64 (be_audio_duration_us b)),
          count_line ''worker_frames_received'' (be_worker_frames_received b),
          count_line ''captions_received'' (be_captions_received b),
          count_line ''captions_sent'' (be_captions_sent b),
          count_line ''captions_filtered'' (be_captions_filtered b),
          count_line ''captions_paused'' (be_captions_paused b),
          count_line ''captions_stale'' (be_captions_stale b),
          count_line ''captions_presenter_rejected'' (be_captions_presenter_rejected b),
          count_line ''segment_count'' (be_captions_received b),
          opt_line ''segment_audio_duration_sec'' (vw_benchmark_format_u64_s 64 (be_segment_audio_duration_us b)),
          count_line ''segment_text_bytes'' (be_segment_text_bytes b),
          opt_line ''segment_transcription_duration_sec'' (vw_benchmark_format_u64_s 64 (be_inference_us b)),
          opt_line ''inference_processing_duration_sec'' (vw_benchmark_format_u64_s 64 (be_inference_us b)),
          opt_line ''processing_audio_duration_sec'' (vw_benchmark_format_u64_s 64 processing_audio_us),
          opt_line ''real_time_factor'' (vw_benchmark_format_ratio 64 (be_inference_us b) processing_audio_us),
          opt_line ''processing_speed_ratio'' (vw_benchmark_format_ratio 64 processing_audio_us (be_inference_us b)),
          opt_line ''first_sent_caption_elapsed_ms'' (vw_benchmark_format_ms 64
            (if be_first_caption_recorded b then be_first_caption_elapsed_us b else 0)),
          line ''utterance_latency_samples'' (dec_digits (length (be_latency_samples b))),
          count_line ''utterance_latency_samples_dropped'' (be_latency_samples_dropped b),
          opt_line ''utterance_latency_min_ms'' (vw_benchmark_format_ms 64 (vw_benchmark_percentile b 0)),
          opt_line ''utterance_latency_p50_ms'' (vw_benchmark_format_ms 64 (vw_benchmark_percentile b 50)),
          opt_line ''utterance_latency_p95_ms'' (vw_benchmark_format_ms 64 (vw_benchmark_percentile b 95)),
          opt_line ''utterance_latency_max_ms'' (vw_benchmark_format_ms 64 (vw_benchmark_percentile b 100)),
          opt_line ''queue_audio_dropped_ms'' (vw_benchmark_format_u64_ms 64 (be_dropped_audio_us b)),
          count_line ''translation_requests_sent'' (be_translation_requests_sent b),
          count_line ''translation_success_count'' (be_translation_success_count b),
          count_line ''translation_tier1_count'' (be_translation_tier1_count b),
          count_line ''translation_tier2_count'' (be_translation_tier2_count b),
          count_line ''translation_tier3_count'' (be_translation_tier3_count b),
          count_line ''translation_failure_count'' (be_translation_failure_count b),
          count_line ''translation_provider_failure_count'' (be_translation_provider_failure_count b),
          count_line ''translation_transport_failure_count'' (be_translation_transport_failure_count b),
          count_line ''translation_parse_failure_count'' (be_translation_parse_failure_count b),
          count_line ''translation_timeout_count'' (be_translation_timeout_count b),
          opt_line ''translation_duration_sec'' (vw_benchmark_format_u64_s 64 (be_translation_duration_us b)),
          line ''translation_latency_samples'' (dec_digits (length (be_translation_latency_samples b))),
          opt_line ''translation_latency_min_ms'' (vw_benchmark_format_ms 64 (vw_benchmark_trans_percentile b 0)),
          opt_line ''translation_latency_p50_ms'' (vw_benchmark_format_ms 64 (vw_benchmark_trans_percentile b 50)),
          opt_line ''translation_latency_p95_ms'' (vw_benchmark_format_ms 64 (vw_benchmark_trans_percentile b 95)),
          opt_line ''translation_latency_max_ms'' (vw_benchmark_format_ms 64 (vw_benchmark_trans_percentile b 100)),
          line ''latency_clock'' (ascii ''live_pts_to_monotonic_only''),
          line ''post_filtering_included_in_speed'' (ascii ''false'')])"

text \<open>
  \<open>io\<close>: whether the staging file could be opened, and whether flushing, closing and renaming
  it succeeded.  The second result is the new content of the report file.
\<close>

definition vw_benchmark_write :: "(bool \<times> bool) \<Rightarrow> vw_benchmark \<Rightarrow> bool \<Rightarrow> i64 \<Rightarrow> bool \<times> bytes option" where
  "vw_benchmark_write io b finalized end_us =
     (if \<not> be_active b \<or> be_report_path b = [] then (False, None)
      else case vw_benchmark_open_staging_report (fst io) (be_report_path b) of
          None \<Rightarrow> (False, None)
        | Some _ \<Rightarrow>
            if \<not> snd io then (False, None)
            else (True, Some (concat (report_lines b finalized end_us))))"

section \<open>Recording\<close>

definition vw_benchmark_begin ::
  "report_env \<Rightarrow> (bool \<times> bool) \<Rightarrow> bytes option \<Rightarrow> bytes option \<Rightarrow> i64 \<Rightarrow> vw_benchmark \<Rightarrow> bool \<times> vw_benchmark" where
  "vw_benchmark_begin env io model_id backend now_us b =
     (if now_us < 0 then (False, b)
      else case vw_benchmark_resolve_report_path env of
          None \<Rightarrow> (False, zero_benchmark)
        | Some path \<Rightarrow>
            let b = zero_benchmark\<lparr>be_report_path := path, be_active := True, be_started_us := now_us,
                  be_model_id := (case model_id of None \<Rightarrow> [] | Some m \<Rightarrow> take (VW_MAX_MODEL_ID_BYTES - 1) m),
                  be_backend := (case backend of None \<Rightarrow> [] | Some m \<Rightarrow> take 15 m)\<rparr>
            in if \<not> fst (vw_benchmark_write io b False now_us) then (False, zero_benchmark)
               else (True, b\<lparr>be_last_flush_us := now_us\<rparr>))"

definition vw_benchmark_record_audio :: "vw_benchmark \<Rightarrow> i64 \<Rightarrow> i64 \<Rightarrow> i64 \<Rightarrow> vw_benchmark" where
  "vw_benchmark_record_audio b start_pts_us duration_us now_us =
     (if \<not> be_active b \<or> duration_us \<le> 0 then b
      else
        let b = b\<lparr>be_audio_chunks_sent := be_audio_chunks_sent b + 1,
              be_audio_duration_us := be_audio_duration_us b + word_of_int duration_us\<rparr>
        in if \<not> be_live_clock_valid b
           then b\<lparr>be_live_pts_to_monotonic_us := now_us - start_pts_us, be_live_clock_valid := True\<rparr> else b)"

definition vw_benchmark_record_frame :: "vw_benchmark \<Rightarrow> vw_benchmark" where
  "vw_benchmark_record_frame b =
     (if be_active b then b\<lparr>be_worker_frames_received := be_worker_frames_received b + 1\<rparr> else b)"

definition vw_benchmark_reset_live_clock :: "vw_benchmark \<Rightarrow> vw_benchmark" where
  "vw_benchmark_reset_live_clock b = b\<lparr>be_live_clock_valid := False\<rparr>"

definition vw_benchmark_record_caption_received ::
  "vw_benchmark \<Rightarrow> vw_caption_segment \<Rightarrow> i64 \<Rightarrow> bool \<Rightarrow> vw_benchmark" where
  "vw_benchmark_record_caption_received b segment now_us source_mode =
     (let b = b\<lparr>be_last_segment_id := cs_segment_id segment, be_last_segment_start_pts_us := cs_start_pts_us segment,
            be_last_segment_end_pts_us := cs_end_pts_us segment\<rparr>
      in if \<not> be_active b then b
         else
           let b = b\<lparr>be_captions_received := be_captions_received b + 1,
                 be_segment_audio_duration_us := be_segment_audio_duration_us b +
                   (if cs_end_pts_us segment > cs_start_pts_us segment
                    then word_of_int (cs_end_pts_us segment - cs_start_pts_us segment) else 0),
                 be_segment_text_bytes := be_segment_text_bytes b + ucast (cs_text_bytes segment)\<rparr>
           in if \<not> source_mode \<and> be_live_clock_valid b then
                let segment_end_monotonic_us = cs_end_pts_us segment + be_live_pts_to_monotonic_us b
                in if length (be_latency_samples b) < VW_BENCHMARK_MAX_LATENCY_SAMPLES
                   then b\<lparr>be_latency_samples := be_latency_samples b @ [now_us - segment_end_monotonic_us]\<rparr>
                   else b\<lparr>be_latency_samples_dropped := be_latency_samples_dropped b + 1\<rparr>
              else b)"

definition vw_benchmark_record_caption_filtered :: "vw_benchmark \<Rightarrow> bool \<Rightarrow> bool \<Rightarrow> bool \<Rightarrow> vw_benchmark" where
  "vw_benchmark_record_caption_filtered b paused stale presenter_rejected =
     (if \<not> be_active b then b
      else b\<lparr>be_captions_filtered := be_captions_filtered b + 1,
        be_captions_paused := be_captions_paused b + (if paused then 1 else 0),
        be_captions_stale := be_captions_stale b + (if stale then 1 else 0),
        be_captions_presenter_rejected := be_captions_presenter_rejected b + (if presenter_rejected then 1 else 0)\<rparr>)"

definition vw_benchmark_record_translation :: "vw_benchmark \<Rightarrow> u8 \<Rightarrow> u32 \<Rightarrow> bool \<Rightarrow> vw_benchmark" where
  "vw_benchmark_record_translation b tier latency_us success =
     (if \<not> be_active b then b
      else
        let b = b\<lparr>be_translation_requests_sent := be_translation_requests_sent b + 1,
              be_translation_duration_us := be_translation_duration_us b + ucast latency_us\<rparr>;
            b = (if latency_us > 0 \<and> length (be_translation_latency_samples b) < VW_BENCHMARK_MAX_LATENCY_SAMPLES
                 then b\<lparr>be_translation_latency_samples := be_translation_latency_samples b @ [uint latency_us]\<rparr> else b)
        in if success then
             let b = b\<lparr>be_translation_success_count := be_translation_success_count b + 1\<rparr>
             in if tier = 1 then b\<lparr>be_translation_tier1_count := be_translation_tier1_count b + 1\<rparr>
                else if tier = 2 then b\<lparr>be_translation_tier2_count := be_translation_tier2_count b + 1\<rparr>
                else if tier = 3 then b\<lparr>be_translation_tier3_count := be_translation_tier3_count b + 1\<rparr>
                else b
           else b\<lparr>be_translation_failure_count := be_translation_failure_count b + 1\<rparr>)"

text \<open>The log line the call writes is part of the result.\<close>

definition vw_benchmark_record_translation_failure ::
  "vw_benchmark \<Rightarrow> u32 \<Rightarrow> bytes option \<Rightarrow> bytes \<times> vw_benchmark" where
  "vw_benchmark_record_translation_failure b error_code detail =
     (let message = (case detail of Some d \<Rightarrow> if d \<noteq> [] then d else ascii ''cause=unknown''
                     | None \<Rightarrow> ascii ''cause=unknown'')
      in (message,
          if \<not> be_active b then b
          else if error_code = 11 then b\<lparr>be_translation_provider_failure_count := be_translation_provider_failure_count b + 1\<rparr>
          else if error_code = 12 then b\<lparr>be_translation_transport_failure_count := be_translation_transport_failure_count b + 1\<rparr>
          else if error_code = 13 then b\<lparr>be_translation_parse_failure_count := be_translation_parse_failure_count b + 1\<rparr>
          else if error_code = 14 then b\<lparr>be_translation_timeout_count := be_translation_timeout_count b + 1\<rparr>
          else b))"

definition vw_benchmark_record_caption_sent :: "vw_benchmark \<Rightarrow> i64 \<Rightarrow> vw_benchmark" where
  "vw_benchmark_record_caption_sent b now_us =
     (if \<not> be_active b then b
      else
        let b = b\<lparr>be_captions_sent := be_captions_sent b + 1\<rparr>
        in if \<not> be_first_caption_recorded b
           then b\<lparr>be_first_caption_recorded := True, be_first_caption_elapsed_us := now_us - be_started_us b\<rparr> else b)"

definition counter_delta :: "u64 \<Rightarrow> u64 \<Rightarrow> u64" where
  "counter_delta current last_seen = (if current \<ge> last_seen then current - last_seen else current)"

definition vw_benchmark_update_status :: "vw_benchmark \<Rightarrow> vw_msg_status \<Rightarrow> vw_benchmark" where
  "vw_benchmark_update_status b status =
     (if \<not> be_active b then b
      else
        let b = (if ss_inference_us status \<ge> 0 then
                   let current = word_of_int (ss_inference_us status)
                   in b\<lparr>be_inference_us := be_inference_us b + counter_delta current (be_last_worker_inference_us b),
                        be_last_worker_inference_us := current\<rparr>
                 else b);
            b = (if ss_dropped_audio_us status \<ge> 0 then
                   let current = word_of_int (ss_dropped_audio_us status)
                   in b\<lparr>be_dropped_audio_us := be_dropped_audio_us b
                          + counter_delta current (be_last_worker_dropped_audio_us b),
                        be_last_worker_dropped_audio_us := current\<rparr>
                 else b);
            backend = take (strlen (ss_resolved_backend status)) (ss_resolved_backend status)
        in if backend \<noteq> [] then b\<lparr>be_backend := take 15 backend\<rparr> else b)"

definition vw_benchmark_finalize :: "(bool \<times> bool) \<Rightarrow> vw_benchmark \<Rightarrow> i64 \<Rightarrow> vw_benchmark \<times> bytes option" where
  "vw_benchmark_finalize io b now_us =
     (if \<not> be_active b \<or> be_finalized b then (b, None)
      else
        let b = b\<lparr>be_ended_us := now_us\<rparr>
        in case vw_benchmark_write io b True now_us of
            (True, report) \<Rightarrow> (b\<lparr>be_finalized := True\<rparr>, report)
          | (False, _) \<Rightarrow> (b, None))"

definition vw_benchmark_flush_if_due :: "(bool \<times> bool) \<Rightarrow> vw_benchmark \<Rightarrow> i64 \<Rightarrow> vw_benchmark \<times> bytes option" where
  "vw_benchmark_flush_if_due io b now_us =
     (if \<not> be_active b \<or> be_finalized b then (b, None)
      else if now_us - be_last_flush_us b < 1000000 then (b, None)
      else case vw_benchmark_write io b False now_us of
          (True, report) \<Rightarrow> (b\<lparr>be_last_flush_us := now_us\<rparr>, report)
        | (False, _) \<Rightarrow> (b, None))"

section \<open>The formatted numbers read back\<close>

text \<open>Readers of the report: a decimal with a fixed number of fraction digits, in units of the last digit.\<close>

definition parse_scaled :: "nat \<Rightarrow> bytes \<Rightarrow> nat" where
  "parse_scaled scale s =
     of_digits (takeWhile (\<lambda>c. c \<noteq> 0x2E) s) * scale + of_digits (drop 1 (dropWhile (\<lambda>c. c \<noteq> 0x2E) s))"

definition parse_ms :: "bytes \<Rightarrow> i64" where
  "parse_ms s = (if take 1 s = [0x2D] then - int (parse_scaled 1000 (drop 1 s)) else int (parse_scaled 1000 s))"

lemma digits_no_dot: "\<forall>c \<in> set (dec_digits n). c \<noteq> 0x2E"
  using dec_digits_are_digits[of n] by (auto simp: list_all_iff is_digit_def)

lemma dec_digits_nonempty: "dec_digits n \<noteq> []"
  by (subst dec_digits.simps) simp

lemma digits_no_minus: "take 1 (dec_digits n @ s) \<noteq> [0x2D]"
proof -
  obtain d ds where d: "dec_digits n = d # ds" using dec_digits_nonempty by (cases "dec_digits n") auto
  with dec_digits_are_digits[of n] have "is_digit d" by simp
  then have "d \<noteq> 0x2D" by (auto simp: is_digit_def)
  with d show ?thesis by simp
qed

lemma parse_thousandths: "parse_scaled 1000 (thousandths w f) = w * 1000 + f"
proof -
  have "takeWhile (\<lambda>c. c \<noteq> 0x2E) (thousandths w f) = dec_digits w"
    using digits_no_dot[of w] by (simp add: thousandths_def takeWhile_append2)
  moreover have "dropWhile (\<lambda>c. c \<noteq> 0x2E) (thousandths w f) = 0x2E # pad0 3 (dec_digits f)"
    using digits_no_dot[of w] by (simp add: thousandths_def dropWhile_append2)
  ultimately show ?thesis by (simp add: parse_scaled_def of_digits_dec_digits of_digits_pad0)
qed

lemma length_thousandths:
  assumes "w < 10 ^ 20" "f < 1000"
  shows "length (thousandths w f) \<le> 24"
proof -
  have "length (dec_digits w) \<le> 20" by (rule length_dec_digits[OF assms(1)]) simp
  moreover have "length (dec_digits f) \<le> 3" by (rule length_dec_digits) (use assms(2) in simp_all)
  then have "length (pad0 3 (dec_digits f)) = 3" by (rule length_pad0)
  ultimately show ?thesis by (simp add: thousandths_def)
qed

lemma magnitude_abs:
  assumes "in_i64 d"
  shows "int (unat (vw_benchmark_i64_magnitude d)) = \<bar>d\<bar>"
proof (cases "d \<ge> 0")
  case True
  then have "uint (word_of_int d :: u64) = d"
    using assms by (simp add: in_i64_iff uint_word_of_int take_bit_int_eq_self)
  with True show ?thesis by (simp add: vw_benchmark_i64_magnitude_def)
next
  case False
  then have "word_of_int (- (d + 1)) + 1 = (word_of_int (- d) :: u64)" by simp
  moreover have "uint (word_of_int (- d) :: u64) = - d"
    using assms False by (simp add: in_i64_iff uint_word_of_int take_bit_int_eq_self del: of_int_minus)
  ultimately show ?thesis using False unfolding vw_benchmark_i64_magnitude_def by simp
qed

lemma magnitude_less: "unat (vw_benchmark_i64_magnitude d) < 2 ^ 64"
  using unsigned_less[of "vw_benchmark_i64_magnitude d"] by simp

text \<open>
  Property.  A duration printed in milliseconds always fits its buffer and reads back as
  the same number of microseconds, for every \<^verbatim>\<open>int64_t\<close> including the smallest one.
\<close>

theorem vw_benchmark_format_ms_roundtrip:
  assumes "in_i64 d"
  shows "\<exists>s. vw_benchmark_format_ms 64 d = Some s \<and> parse_ms s = d"
proof -
  define m where "m = unat (vw_benchmark_i64_magnitude d)"
  have m: "int m = \<bar>d\<bar>" using magnitude_abs[OF assms] by (simp add: m_def)
  have "m div 1000 < 10 ^ 20" using magnitude_less[of d] by (simp add: m_def)
  then have len: "length (thousandths (m div 1000) (m mod 1000)) \<le> 24" by (rule length_thousandths) simp
  have val: "parse_scaled 1000 (thousandths (m div 1000) (m mod 1000)) = m" by (simp add: parse_thousandths)
  let ?t = "thousandths (m div 1000) (m mod 1000)"
  have "vw_benchmark_format_ms 64 d = Some ((if d < 0 then [0x2D] else []) @ ?t)"
    using len by (auto simp: vw_benchmark_format_ms_def Let_def m_def [symmetric] snprintf_def)
  moreover have "parse_ms ((if d < 0 then [0x2D] else []) @ ?t) = d"
  proof (cases "d < 0")
    case True
    then show ?thesis using val m by (simp add: parse_ms_def)
  next
    case False
    then show ?thesis using val m digits_no_minus[of "m div 1000"] by (simp add: parse_ms_def thousandths_def)
  qed
  ultimately show ?thesis by blast
qed

theorem vw_benchmark_format_ms_roundtrip_witness:
  "in_i64 INT64_MIN \<and> (\<exists>s. vw_benchmark_format_ms 64 INT64_MIN = Some s \<and> parse_ms s = INT64_MIN)"
proof -
  have "in_i64 INT64_MIN" by (simp add: in_i64_def INT64_MIN_def INT64_MAX_def)
  with vw_benchmark_format_ms_roundtrip[of INT64_MIN] show ?thesis by blast
qed

section \<open>Percentiles\<close>

lemma sort_head_Min: "xs \<noteq> [] \<Longrightarrow> sort xs ! 0 = Min (set (xs :: int list))"
proof -
  assume a: "xs \<noteq> []"
  have "sort xs ! 0 \<le> y" if "y \<in> set xs" for y
  proof -
    from that obtain i where "i < length xs" "y = sort xs ! i"
      by (metis in_set_conv_nth length_sort set_sort)
    then show ?thesis using sorted_nth_mono[OF sorted_sort, of 0 i xs] by simp
  qed
  moreover have "sort xs ! 0 \<in> set xs" using a by (metis length_greater_0_conv length_sort nth_mem set_sort)
  ultimately show ?thesis by (intro Min_eqI [symmetric]) auto
qed

lemma sort_last_Max: "xs \<noteq> [] \<Longrightarrow> sort xs ! (length xs - 1) = Max (set (xs :: int list))"
proof -
  assume a: "xs \<noteq> []"
  have "y \<le> sort xs ! (length xs - 1)" if "y \<in> set xs" for y
  proof -
    from that obtain i where "i < length xs" "y = sort xs ! i"
      by (metis in_set_conv_nth length_sort set_sort)
    then show ?thesis using sorted_nth_mono[OF sorted_sort, of i "length xs - 1" xs] by simp
  qed
  moreover have "sort xs ! (length xs - 1) \<in> set xs"
    using a by (metis diff_less length_greater_0_conv length_sort nth_mem set_sort zero_less_one)
  ultimately show ?thesis by (intro Max_eqI [symmetric]) auto
qed

lemma count_le_sorted:
  assumes "k < length xs"
  shows "Suc k \<le> length (filter (\<lambda>x. x \<le> sort xs ! k) (xs :: int list))"
proof -
  have "length (filter (\<lambda>x. x \<le> sort xs ! k) xs) = length (filter (\<lambda>x. x \<le> sort xs ! k) (sort xs))"
    by (metis mset_filter mset_sort size_mset)
  also have "filter (\<lambda>x. x \<le> sort xs ! k) (sort xs)
      = filter (\<lambda>x. x \<le> sort xs ! k) (take (Suc k) (sort xs)) @ filter (\<lambda>x. x \<le> sort xs ! k) (drop (Suc k) (sort xs))"
    by (metis append_take_drop_id filter_append)
  also have "filter (\<lambda>x. x \<le> sort xs ! k) (take (Suc k) (sort xs)) = take (Suc k) (sort xs)"
    using assms by (intro filter_True) (auto simp: in_set_conv_nth intro!: sorted_nth_mono)
  finally show ?thesis using assms by simp
qed

lemma rank_index: "p \<le> 100 \<Longrightarrow> n > 0 \<Longrightarrow> (p * (n - 1) + 99) div 100 < (n :: nat)"
proof -
  assume "p \<le> 100" "n > 0"
  then have "p * (n - 1) + 99 \<le> 100 * (n - 1) + 99" by (intro add_right_mono mult_right_mono) simp_all
  then have "(p * (n - 1) + 99) div 100 \<le> (100 * (n - 1) + 99) div 100" by (rule div_le_mono)
  also have "\<dots> = n - 1" by simp
  finally show ?thesis using \<open>n > 0\<close> by simp
qed

text \<open>
  Property.  A reported percentile is one of the samples, is bounded below by the
  required share of them (nearest rank, rounded up), and percentiles are monotone; 0 and
  100 are the minimum and the maximum.
\<close>

theorem vw_benchmark_percentile_correct:
  assumes "be_latency_samples b \<noteq> []" "p \<le> q" "q \<le> 100"
  defines "xs \<equiv> be_latency_samples b"
  shows "vw_benchmark_percentile b p \<in> set xs
    \<and> p * (length xs - 1) + 100 \<le> 100 * length (filter (\<lambda>x. x \<le> vw_benchmark_percentile b p) xs)
    \<and> vw_benchmark_percentile b p \<le> vw_benchmark_percentile b q
    \<and> vw_benchmark_percentile b 0 = Min (set xs) \<and> vw_benchmark_percentile b 100 = Max (set xs)"
proof -
  let ?i = "\<lambda>p. (p * (length xs - 1) + 99) div 100"
  have ne: "xs \<noteq> []" and n: "0 < length xs" using assms by auto
  have val: "vw_benchmark_percentile b p = sort xs ! ?i p" for p
    using ne by (simp add: vw_benchmark_percentile_def percentile_of_def xs_def)
  have ip: "?i p < length xs" and iq: "?i q < length xs" using rank_index n assms by simp_all
  have "vw_benchmark_percentile b p \<in> set xs" using ip by (metis val length_sort nth_mem set_sort)
  moreover have "p * (length xs - 1) + 100 \<le> 100 * length (filter (\<lambda>x. x \<le> vw_benchmark_percentile b p) xs)"
  proof -
    have "m + 100 \<le> 100 * Suc ((m + 99) div 100)" for m :: nat
      using div_mult_mod_eq[of "m + 99" 100] mod_less_divisor[of 100 "m + 99"] by simp
    from this[of "p * (length xs - 1)"] have "p * (length xs - 1) + 100 \<le> 100 * Suc (?i p)" .
    with count_le_sorted[OF ip] show ?thesis unfolding val by linarith
  qed
  moreover have "vw_benchmark_percentile b p \<le> vw_benchmark_percentile b q"
    unfolding val using iq by (intro sorted_nth_mono div_le_mono add_right_mono mult_right_mono assms(2)) simp_all
  moreover have "vw_benchmark_percentile b 0 = Min (set xs)" using sort_head_Min[OF ne] by (simp add: val)
  moreover have "vw_benchmark_percentile b 100 = Max (set xs)"
  proof -
    have "?i 100 = length xs - 1" by simp
    then show ?thesis using sort_last_Max[OF ne] by (simp only: val)
  qed
  ultimately show ?thesis by blast
qed

theorem vw_benchmark_percentile_correct_witness:
  fixes b :: vw_benchmark
  defines "b \<equiv> zero_benchmark\<lparr>be_latency_samples := [30, -5, 12, 7]\<rparr>"
  shows "be_latency_samples b \<noteq> [] \<and> vw_benchmark_percentile b 50 \<in> {30, -5, 12, 7}
    \<and> vw_benchmark_percentile b 50 \<le> vw_benchmark_percentile b 95
    \<and> vw_benchmark_percentile b 0 = - 5 \<and> vw_benchmark_percentile b 100 = 30"
  using vw_benchmark_percentile_correct[of b 50 95] by (simp add: b_def)

section \<open>Worker counters across respawns\<close>

text \<open>
  The worker reports cumulative counters that restart at zero with the process.
  \<open>epochs_ok\<close>: within one worker life the counter never decreases, and each new life
  reports first a value below the last one of its predecessor.
\<close>

fun epochs_ok :: "int list list \<Rightarrow> bool" where
  "epochs_ok [] \<longleftrightarrow> True"
| "epochs_ok [e] \<longleftrightarrow> e \<noteq> [] \<and> sorted e"
| "epochs_ok (e # f # es) \<longleftrightarrow> e \<noteq> [] \<and> sorted e \<and> f \<noteq> [] \<and> hd f < last e \<and> epochs_ok (f # es)"

abbreviation feed_status :: "vw_benchmark \<Rightarrow> vw_msg_status list \<Rightarrow> vw_benchmark" where
  "feed_status b ss \<equiv> foldl vw_benchmark_update_status b ss"

lemma update_status_inference:
  assumes "be_active b" "0 \<le> ss_inference_us s"
  shows "be_active (vw_benchmark_update_status b s)"
    and "be_inference_us (vw_benchmark_update_status b s) = be_inference_us b
      + counter_delta (word_of_int (ss_inference_us s)) (be_last_worker_inference_us b)"
    and "be_last_worker_inference_us (vw_benchmark_update_status b s) = word_of_int (ss_inference_us s)"
  using assms by (simp_all add: vw_benchmark_update_status_def Let_def)

lemma word_of_int_le:
  "0 \<le> x \<Longrightarrow> in_i64 x \<Longrightarrow> 0 \<le> y \<Longrightarrow> in_i64 y \<Longrightarrow> (word_of_int x :: u64) \<le> word_of_int y \<longleftrightarrow> x \<le> y"
  by (simp add: word_le_def uint_word_of_int in_i64_iff take_bit_int_eq_self)

text \<open>A rising run adds the difference to what was last seen.\<close>

lemma feed_rising:
  assumes "be_active b" "sorted (c # map ss_inference_us ss)" "0 \<le> c"
    "list_all (\<lambda>s. in_i64 (ss_inference_us s)) ss" "in_i64 c" "be_last_worker_inference_us b = word_of_int c"
  shows "be_active (feed_status b ss)
    \<and> be_last_worker_inference_us (feed_status b ss) = word_of_int (last (c # map ss_inference_us ss))
    \<and> be_inference_us (feed_status b ss) = be_inference_us b + word_of_int (last (c # map ss_inference_us ss) - c)"
  using assms
proof (induction ss arbitrary: b c)
  case Nil
  then show ?case by simp
next
  case (Cons s ss)
  let ?x = "ss_inference_us s" and ?b = "vw_benchmark_update_status b s"
  have x: "c \<le> ?x" "0 \<le> ?x" "in_i64 ?x" using Cons.prems by auto
  note u = update_status_inference[OF Cons.prems(1) x(2)]
  have d: "be_inference_us ?b = be_inference_us b + word_of_int (?x - c)"
    unfolding u(2) Cons.prems(6) counter_delta_def using word_of_int_le Cons.prems(3,5) x by simp
  have "sorted (?x # map ss_inference_us ss)" "list_all (\<lambda>s. in_i64 (ss_inference_us s)) ss"
    using Cons.prems by simp_all
  from Cons.IH[OF u(1) this(1) x(2) this(2) x(3) u(3)] d show ?case
    by (auto simp flip: of_int_add)
qed

lemma feed_epoch:
  assumes "be_active b" "ss \<noteq> []" "sorted (map ss_inference_us ss)"
    "list_all (\<lambda>s. 0 \<le> ss_inference_us s \<and> in_i64 (ss_inference_us s)) ss"
    "0 \<le> c" "in_i64 c" "be_last_worker_inference_us b = word_of_int c" "c = 0 \<or> ss_inference_us (hd ss) < c"
  shows "be_active (feed_status b ss)
    \<and> be_last_worker_inference_us (feed_status b ss) = word_of_int (ss_inference_us (last ss))
    \<and> be_inference_us (feed_status b ss) = be_inference_us b + word_of_int (ss_inference_us (last ss))"
proof -
  obtain s rest where ss: "ss = s # rest" using assms(2) by (cases ss) auto
  let ?x = "ss_inference_us s" and ?b = "vw_benchmark_update_status b s"
  have x: "0 \<le> ?x" "in_i64 ?x" using assms(4) ss by auto
  note u = update_status_inference[OF assms(1) x(1)]
  have d: "be_inference_us ?b = be_inference_us b + word_of_int ?x"
    unfolding u(2) assms(7) counter_delta_def using word_of_int_le[of c ?x] assms(5,6,8) x ss by auto
  have r: "sorted (?x # map ss_inference_us rest)" "list_all (\<lambda>s. in_i64 (ss_inference_us s)) rest"
    using assms(3,4) ss by (auto simp: list_all_iff)
  have l: "last (?x # map ss_inference_us rest) = ss_inference_us (last ss)"
    by (simp add: ss last_map)
  from feed_rising[OF u(1) r(1) x(1) r(2) x(2) u(3)] d show ?thesis unfolding l
    by (simp add: ss)
qed

text \<open>
  Property.  Fed with the status messages of any number of worker lives, the benchmark's
  inference time is the sum of the final totals of those lives.
\<close>

theorem vw_benchmark_update_status_respawns:
  assumes "be_active b" "be_last_worker_inference_us b = 0" "be_inference_us b = 0"
    and "epochs_ok (map (map ss_inference_us) lives)"
    and "\<forall>life \<in> set lives. \<forall>s \<in> set life. 0 \<le> ss_inference_us s \<and> in_i64 (ss_inference_us s)"
  shows "be_inference_us (feed_status b (concat lives))
    = word_of_int (\<Sum>life \<leftarrow> lives. ss_inference_us (last life))"
proof -
  have gen: "be_inference_us (feed_status b (concat lives))
      = be_inference_us b + word_of_int (\<Sum>life \<leftarrow> lives. ss_inference_us (last life))"
    if "be_active b" "be_last_worker_inference_us b = word_of_int c" "0 \<le> c" "in_i64 c"
      "epochs_ok (map (map ss_inference_us) lives)"
      "lives \<noteq> [] \<longrightarrow> hd lives \<noteq> [] \<longrightarrow> c = 0 \<or> ss_inference_us (hd (hd lives)) < c"
      "\<forall>life \<in> set lives. \<forall>s \<in> set life. 0 \<le> ss_inference_us s \<and> in_i64 (ss_inference_us s)"
    for b c lives
    using that
  proof (induction lives arbitrary: b c)
    case Nil
    then show ?case by simp
  next
    case (Cons e es)
    have e: "e \<noteq> []" "sorted (map ss_inference_us e)" "epochs_ok (map (map ss_inference_us) es)"
      using Cons.prems(5) by (cases es; simp)+
    have wf: "list_all (\<lambda>s. 0 \<le> ss_inference_us s \<and> in_i64 (ss_inference_us s)) e"
      using Cons.prems(7) by (simp add: list_all_iff)
    have hd: "c = 0 \<or> ss_inference_us (hd e) < c" using Cons.prems(6) e(1) by simp
    note f = feed_epoch[OF Cons.prems(1) e(1,2) wf Cons.prems(3,4,2) hd]
    have l: "0 \<le> ss_inference_us (last e)" "in_i64 (ss_inference_us (last e))"
      using Cons.prems(7) e(1) by simp_all
    have nx: "es \<noteq> [] \<longrightarrow> hd es \<noteq> [] \<longrightarrow>
        ss_inference_us (last e) = 0 \<or> ss_inference_us (hd (hd es)) < ss_inference_us (last e)"
      using Cons.prems(5) e(1) by (cases es) (auto simp: hd_map last_map)
    have "be_inference_us (feed_status (feed_status b e) (concat es))
        = be_inference_us (feed_status b e) + word_of_int (\<Sum>life \<leftarrow> es. ss_inference_us (last life))"
      by (rule Cons.IH[of _ "ss_inference_us (last e)"]) (use f l e nx Cons.prems(7) in auto)
    then show ?case using f by simp
  qed
  from gen[of b 0 lives] assms show ?thesis by (simp add: in_i64_iff)
qed


theorem vw_benchmark_update_status_respawns_witness:
  fixes b :: vw_benchmark and st :: "int \<Rightarrow> vw_msg_status"
  defines "b \<equiv> zero_benchmark\<lparr>be_active := True\<rparr>"
    and "st \<equiv> \<lambda>i. \<lparr>ss_session_id = [], ss_state = 0, ss_queued_audio_us = 0, ss_inference_us = i,
                  ss_dropped_audio_us = 0, ss_resolved_backend = []\<rparr>"
  shows "be_inference_us (feed_status b (concat [[st 10, st 400], [st 0, st 25], [st 5]])) = 430"
proof -
  have "be_active b" "be_last_worker_inference_us b = 0" "be_inference_us b = 0"
    by (simp_all add: b_def zero_benchmark_def)
  moreover have "epochs_ok (map (map ss_inference_us) [[st 10, st 400], [st 0, st 25], [st 5]])"
    by (simp add: st_def)
  moreover have "\<forall>life \<in> set [[st 10, st 400], [st 0, st 25], [st 5]]. \<forall>s \<in> set life.
      0 \<le> ss_inference_us s \<and> in_i64 (ss_inference_us s)"
    by (simp add: st_def in_i64_iff)
  ultimately have "be_inference_us (feed_status b (concat [[st 10, st 400], [st 0, st 25], [st 5]]))
      = word_of_int (\<Sum>life \<leftarrow> [[st 10, st 400], [st 0, st 25], [st 5]]. ss_inference_us (last life))"
    by (rule vw_benchmark_update_status_respawns)
  then show ?thesis by (simp add: st_def)
qed

section \<open>Where the report goes\<close>

definition private_dir :: "report_env \<Rightarrow> bytes \<Rightarrow> bool" where
  "private_dir env d \<longleftrightarrow>
     (\<exists>info. re_stat env d = Some info \<and> st_is_dir info \<and> st_uid info = re_uid env \<and> \<not> group_or_other_access info)
     \<or> re_mkdir env d = Mkdir_Ok
     \<or> (\<exists>info. re_lstat env d = Some info \<and> st_is_dir info \<and> st_uid info = re_uid env
          \<and> (\<not> group_or_other_access info \<or> re_chmod env d))"

lemma private_fallback:
  "vw_benchmark_resolve_private_fallback env base = Some d \<Longrightarrow> private_dir env d"
  by (auto simp: vw_benchmark_resolve_private_fallback_def private_dir_def
      split: option.splits mkdir_result.splits if_splits)

lemma private_runtime:
  "vw_benchmark_directory_is_private_runtime env p \<Longrightarrow> \<exists>d. p = Some d \<and> private_dir env d"
  by (auto simp: vw_benchmark_directory_is_private_runtime_def vw_benchmark_directory_is_usable_def private_dir_def
      split: option.splits if_splits)

text \<open>
  Property.  The report is only ever written into a directory that is the user's own and
  closed to group and others: it was just created so, or was found so, or was an own
  directory (not a symbolic link) that could be closed; its path fits the buffer.
\<close>

theorem vw_benchmark_report_path_private:
  assumes "vw_benchmark_resolve_report_path env = Some path"
  shows "length path < VW_PATH_MAX_BYTES
    \<and> (\<exists>d. path = d @ ascii ''/vlc-whisper-benchmark.txt'' \<and> private_dir env d)"
proof -
  obtain d where d: "path = d @ ascii ''/vlc-whisper-benchmark.txt''" "length path < VW_PATH_MAX_BYTES"
    and src: "vw_benchmark_directory_is_private_runtime env (Some d)
      \<or> (\<exists>base. vw_benchmark_resolve_private_fallback env base = Some d)"
    using assms unfolding vw_benchmark_resolve_report_path_def
    by (auto simp: Let_def snprintf_def split: option.splits if_splits)
  from src have "private_dir env d" using private_fallback private_runtime by blast
  with d show ?thesis by blast
qed

theorem vw_benchmark_report_path_private_witness:
  fixes env :: report_env
  defines "env \<equiv> \<lparr>re_xdg_runtime_dir = None, re_tmpdir = Some (ascii ''/var/tmp''), re_uid = 1000,
     re_stat = (\<lambda>_. Some \<lparr>st_is_dir = True, st_uid = 0, st_mode = 511\<rparr>),
     re_lstat = (\<lambda>_. Some \<lparr>st_is_dir = True, st_uid = 1000, st_mode = 509\<rparr>),
     re_access = (\<lambda>_. True), re_mkdir = (\<lambda>_. Mkdir_Exists), re_chmod = (\<lambda>_. True)\<rparr>"
  shows "\<exists>path. vw_benchmark_resolve_report_path env = Some path
    \<and> length path < VW_PATH_MAX_BYTES \<and> (\<exists>d. path = d @ ascii ''/vlc-whisper-benchmark.txt'' \<and> private_dir env d)"
proof -
  have d: "dec_digits 1000 = [49, 48, 48, 48]" by (simp add: dec_digits.simps)
  have "\<exists>path. vw_benchmark_resolve_report_path env = Some path"
    by (simp add: vw_benchmark_resolve_report_path_def vw_benchmark_directory_is_private_runtime_def
        vw_benchmark_directory_is_usable_def vw_benchmark_resolve_private_fallback_def snprintf_def
        VW_PATH_MAX_BYTES_def env_def d ascii_def)
  then obtain path where "vw_benchmark_resolve_report_path env = Some path" ..
  with vw_benchmark_report_path_private[OF this] show ?thesis by blast
qed

section \<open>A whole session\<close>

text \<open>Every call the sender thread can make between \<^verbatim>\<open>begin\<close> and the end of the session.\<close>

datatype bench_event =
    Ev_Audio i64 i64 i64
  | Ev_Frame
  | Ev_Reset_Clock
  | Ev_Received vw_caption_segment i64 bool
  | Ev_Filtered bool bool bool
  | Ev_Translation u8 u32 bool
  | Ev_Translation_Failure u32 "bytes option"
  | Ev_Sent i64
  | Ev_Status vw_msg_status
  | Ev_Flush "bool \<times> bool" i64
  | Ev_Finalize "bool \<times> bool" i64

fun bench_step :: "vw_benchmark \<Rightarrow> bench_event \<Rightarrow> vw_benchmark \<times> bytes option" where
  "bench_step b (Ev_Audio s d n) = (vw_benchmark_record_audio b s d n, None)"
| "bench_step b Ev_Frame = (vw_benchmark_record_frame b, None)"
| "bench_step b Ev_Reset_Clock = (vw_benchmark_reset_live_clock b, None)"
| "bench_step b (Ev_Received s n m) = (vw_benchmark_record_caption_received b s n m, None)"
| "bench_step b (Ev_Filtered p s r) = (vw_benchmark_record_caption_filtered b p s r, None)"
| "bench_step b (Ev_Translation t l ok) = (vw_benchmark_record_translation b t l ok, None)"
| "bench_step b (Ev_Translation_Failure c d) = (snd (vw_benchmark_record_translation_failure b c d), None)"
| "bench_step b (Ev_Sent n) = (vw_benchmark_record_caption_sent b n, None)"
| "bench_step b (Ev_Status s) = (vw_benchmark_update_status b s, None)"
| "bench_step b (Ev_Flush io n) = vw_benchmark_flush_if_due io b n"
| "bench_step b (Ev_Finalize io n) = vw_benchmark_finalize io b n"

abbreviation bench_run :: "vw_benchmark \<Rightarrow> bench_event list \<Rightarrow> vw_benchmark" where
  "bench_run b evs \<equiv> foldl (\<lambda>b e. fst (bench_step b e)) b evs"

lemmas bench_defs = vw_benchmark_record_audio_def vw_benchmark_record_frame_def vw_benchmark_reset_live_clock_def
  vw_benchmark_record_caption_received_def vw_benchmark_record_caption_filtered_def
  vw_benchmark_record_translation_def vw_benchmark_record_translation_failure_def
  vw_benchmark_record_caption_sent_def vw_benchmark_update_status_def vw_benchmark_flush_if_due_def
  vw_benchmark_finalize_def

definition is_translation :: "bench_event \<Rightarrow> bool" where
  "is_translation e = (case e of Ev_Translation _ _ _ \<Rightarrow> True | _ \<Rightarrow> False)"

definition is_received :: "bench_event \<Rightarrow> bool" where
  "is_received e = (case e of Ev_Received _ _ _ \<Rightarrow> True | _ \<Rightarrow> False)"

text \<open>One step keeps the session active, its counters consistent and its sample arrays bounded.\<close>

lemma bench_step_active: "be_active (fst (bench_step b e)) = be_active b"
  by (cases e) (auto simp: bench_defs Let_def split: prod.splits bool.splits)

lemma bench_step_translation:
  "be_active b \<Longrightarrow>
    be_translation_requests_sent (fst (bench_step b e)) = be_translation_requests_sent b + (if is_translation e then 1 else 0)
    \<and> be_translation_success_count (fst (bench_step b e)) + be_translation_failure_count (fst (bench_step b e))
      = be_translation_success_count b + be_translation_failure_count b + (if is_translation e then 1 else 0)"
  by (cases e) (auto simp: bench_defs Let_def is_translation_def split: prod.splits bool.splits)

lemma bench_step_received:
  "be_active b \<Longrightarrow> be_captions_received (fst (bench_step b e)) = be_captions_received b + (if is_received e then 1 else 0)"
  by (cases e) (auto simp: bench_defs Let_def is_received_def split: prod.splits bool.splits)

lemma bench_step_samples:
  "length (be_latency_samples b) \<le> VW_BENCHMARK_MAX_LATENCY_SAMPLES \<Longrightarrow>
    length (be_latency_samples (fst (bench_step b e))) \<le> VW_BENCHMARK_MAX_LATENCY_SAMPLES"
  "length (be_translation_latency_samples b) \<le> VW_BENCHMARK_MAX_LATENCY_SAMPLES \<Longrightarrow>
    length (be_translation_latency_samples (fst (bench_step b e))) \<le> VW_BENCHMARK_MAX_LATENCY_SAMPLES"
  by (cases e; auto simp: bench_defs Let_def split: prod.splits bool.splits)+

lemma begin_fresh:
  assumes "vw_benchmark_begin env io model backend now b0 = (True, b)"
  shows "be_active b \<and> \<not> be_finalized b \<and> be_last_flush_us b = now \<and> be_latency_samples b = []
    \<and> be_translation_latency_samples b = [] \<and> be_translation_requests_sent b = 0
    \<and> be_translation_success_count b = 0 \<and> be_translation_failure_count b = 0 \<and> be_captions_received b = 0"
  using assms by (auto simp: vw_benchmark_begin_def Let_def zero_benchmark_def split: if_splits option.splits)

text \<open>
  Property.  After a session has begun, whatever calls follow: the translation requests
  are the translation results seen, each counted as a success or as a failure; the caption
  count is the number of captions received; neither sample array is ever overrun.
\<close>

theorem vw_benchmark_accounting:
  assumes "vw_benchmark_begin env io model backend now b0 = (True, b)"
  shows "be_translation_requests_sent (bench_run b evs) = of_nat (length (filter is_translation evs))
    \<and> be_translation_success_count (bench_run b evs) + be_translation_failure_count (bench_run b evs)
      = be_translation_requests_sent (bench_run b evs)
    \<and> be_captions_received (bench_run b evs) = of_nat (length (filter is_received evs))
    \<and> length (be_latency_samples (bench_run b evs)) \<le> VW_BENCHMARK_MAX_LATENCY_SAMPLES
    \<and> length (be_translation_latency_samples (bench_run b evs)) \<le> VW_BENCHMARK_MAX_LATENCY_SAMPLES"
proof -
  note f = begin_fresh[OF assms]
  have "be_active (bench_run b evs) \<and> be_translation_requests_sent (bench_run b evs) = of_nat (length (filter is_translation evs))
    \<and> be_translation_success_count (bench_run b evs) + be_translation_failure_count (bench_run b evs)
      = be_translation_requests_sent (bench_run b evs)
    \<and> be_captions_received (bench_run b evs) = of_nat (length (filter is_received evs))
    \<and> length (be_latency_samples (bench_run b evs)) \<le> VW_BENCHMARK_MAX_LATENCY_SAMPLES
    \<and> length (be_translation_latency_samples (bench_run b evs)) \<le> VW_BENCHMARK_MAX_LATENCY_SAMPLES"
  proof (induction evs rule: rev_induct)
    case Nil
    then show ?case using f by simp
  next
    case (snoc e evs)
    then show ?case
      using bench_step_active[of "bench_run b evs" e] bench_step_translation[of "bench_run b evs" e]
        bench_step_received[of "bench_run b evs" e] bench_step_samples[of "bench_run b evs" e]
      by auto
  qed
  then show ?thesis by blast
qed

theorem vw_benchmark_accounting_witness:
  fixes env :: report_env and evs :: "bench_event list"
  defines "env \<equiv> \<lparr>re_xdg_runtime_dir = Some (ascii ''/run''), re_tmpdir = None, re_uid = 7,
     re_stat = (\<lambda>_. Some \<lparr>st_is_dir = True, st_uid = 7, st_mode = 448\<rparr>), re_lstat = (\<lambda>_. None),
     re_access = (\<lambda>_. True), re_mkdir = (\<lambda>_. Mkdir_Failed), re_chmod = (\<lambda>_. False)\<rparr>"
    and "evs \<equiv> [Ev_Translation 1 250 True, Ev_Frame, Ev_Translation 0 0 False]"
  shows "\<exists>b. vw_benchmark_begin env (True, True) None None 5 zero_benchmark = (True, b)
    \<and> be_translation_requests_sent (bench_run b evs) = 2
    \<and> be_translation_success_count (bench_run b evs) + be_translation_failure_count (bench_run b evs) = 2"
proof -
  have "fst (vw_benchmark_begin env (True, True) None None 5 zero_benchmark)"
    by (simp add: vw_benchmark_begin_def vw_benchmark_write_def vw_benchmark_open_staging_report_def
        vw_benchmark_resolve_report_path_def vw_benchmark_directory_is_private_runtime_def
        vw_benchmark_directory_is_usable_def snprintf_def group_or_other_access_def
        VW_PATH_MAX_BYTES_def env_def ascii_def Let_def zero_benchmark_def)
  then obtain b where b: "vw_benchmark_begin env (True, True) None None 5 zero_benchmark = (True, b)"
    by (metis prod.collapse)
  have "length (filter is_translation evs) = 2" by (simp add: evs_def is_translation_def)
  with b vw_benchmark_accounting[OF b, of evs] show ?thesis by simp
qed

section \<open>Report writes\<close>

text \<open>When a report was written: the time of the call, and whether it was the final one.\<close>

fun report_time :: "bench_event \<Rightarrow> (bool \<times> i64)" where
  "report_time (Ev_Flush _ n) = (False, n)"
| "report_time (Ev_Finalize _ n) = (True, n)"
| "report_time _ = (False, 0)"

fun report_log :: "vw_benchmark \<Rightarrow> bench_event list \<Rightarrow> (bool \<times> i64) list" where
  "report_log b [] = []"
| "report_log b (e # evs) =
     (case bench_step b e of (b', r) \<Rightarrow> (if r = None then [] else [report_time e]) @ report_log b' evs)"

lemma step_finalized:
  "be_finalized b \<Longrightarrow> be_finalized (fst (bench_step b e)) \<and> snd (bench_step b e) = None"
  by (cases e) (auto simp: bench_defs Let_def)

lemma log_finalized: "be_finalized b \<Longrightarrow> report_log b evs = []"
proof (induction evs arbitrary: b)
  case (Cons e evs)
  with step_finalized[OF Cons.prems, of e] show ?case by (cases "bench_step b e") simp
qed simp

lemma step_flush_time:
  "be_last_flush_us (fst (bench_step b e)) =
     (if \<not> fst (report_time e) \<and> snd (bench_step b e) \<noteq> None then snd (report_time e) else be_last_flush_us b)"
  by (cases e) (auto simp: bench_defs vw_benchmark_write_def Let_def split: prod.splits bool.splits option.splits if_splits)

lemma step_write:
  "snd (bench_step b e) \<noteq> None \<Longrightarrow>
     (if fst (report_time e) then be_finalized (fst (bench_step b e))
      else be_last_flush_us b + 1000000 \<le> snd (report_time e))"
  by (cases e) (auto simp: bench_defs vw_benchmark_write_def Let_def split: prod.splits bool.splits option.splits if_splits)

fun spaced :: "i64 \<Rightarrow> (bool \<times> i64) list \<Rightarrow> bool" where
  "spaced prev [] \<longleftrightarrow> True"
| "spaced prev ((final, t) # ws) \<longleftrightarrow> (if final then ws = [] else prev + 1000000 \<le> t \<and> spaced t ws)"

text \<open>
  Property.  Reports are rewritten at least one second apart, and once the final report
  is written nothing replaces it.
\<close>

theorem vw_benchmark_reports_spaced:
  "spaced (be_last_flush_us b) (report_log b evs)"
proof (induction evs arbitrary: b)
  case Nil
  then show ?case by simp
next
  case (Cons e evs)
  obtain b' r where s: "bench_step b e = (b', r)" by force
  show ?case
  proof (cases "r = None")
    case True
    then show ?thesis using Cons[of b'] step_flush_time[of b e] s by simp
  next
    case False
    obtain final t where ft: "report_time e = (final, t)" by force
    show ?thesis
      using step_write[of b e] step_flush_time[of b e] Cons[of b'] log_finalized[of b' evs] s ft False
      by (auto split: if_splits)
  qed
qed

end
