(* ===== verification/VW_Audio_Buffer.thy ===== *)
theory VW_Audio_Buffer
  imports Complex_Main VW_Prelude
begin

text \<open>
  \<^verbatim>\<open>worker/src/vw_audio_buffer.c\<close>: the worker's ring of 16 kHz samples with the media time
  of its oldest sample.  A sample lasts 62.5 us, so the code carries half microseconds in
  \<^verbatim>\<open>start_pts_frac_us\<close>; the abstract buffer is a time stamp in half microseconds together
  with the list of samples.  A normalised sample \<^verbatim>\<open>pcm / 32768.0f\<close> is exact in binary32 and
  is kept as a rational.
\<close>

section \<open>State and operations\<close>

record vw_audio_buffer =
  ab_samples :: "rat list"
  ab_max_samples :: nat
  ab_head :: nat
  ab_count :: nat
  ab_start_pts_us :: i64
  ab_start_pts_frac_us :: i64
  ab_dropped_samples :: u64

text \<open>The Booleans say whether the two calls of \<^verbatim>\<open>calloc\<close> succeed.\<close>

definition vw_audio_buffer_create :: "bool \<Rightarrow> bool \<Rightarrow> nat \<Rightarrow> vw_audio_buffer option" where
  "vw_audio_buffer_create buf_alloc samples_alloc max_samples =
     (if max_samples = 0 then None
      else if \<not> buf_alloc then None
      else if \<not> samples_alloc then None
      else Some \<lparr>ab_samples = replicate max_samples 0, ab_max_samples = max_samples, ab_head = 0,
        ab_count = 0, ab_start_pts_us = - 1, ab_start_pts_frac_us = 0, ab_dropped_samples = 0\<rparr>)"

text \<open>The fraction is never negative, so C's \<^verbatim>\<open>/\<close> and \<^verbatim>\<open>%\<close> are \<open>div\<close> and \<open>mod\<close>.\<close>

definition vw_audio_buffer_advance_pts :: "vw_audio_buffer \<Rightarrow> int \<Rightarrow> vw_audio_buffer" where
  "vw_audio_buffer_advance_pts buf samples =
     (let buf = buf\<lparr>ab_start_pts_us := ab_start_pts_us buf + samples * 62\<rparr>;
          buf = buf\<lparr>ab_start_pts_frac_us := ab_start_pts_frac_us buf + samples\<rparr>;
          buf = buf\<lparr>ab_start_pts_us := ab_start_pts_us buf + ab_start_pts_frac_us buf div 2\<rparr>
      in buf\<lparr>ab_start_pts_frac_us := ab_start_pts_frac_us buf mod 2\<rparr>)"

definition vw_audio_buffer_clear :: "vw_audio_buffer \<Rightarrow> vw_audio_buffer" where
  "vw_audio_buffer_clear buf =
     buf\<lparr>ab_head := 0, ab_count := 0, ab_start_pts_us := - 1, ab_start_pts_frac_us := 0\<rparr>"

text \<open>One iteration of the copy loop.\<close>

definition append_sample :: "int \<Rightarrow> vw_audio_buffer \<Rightarrow> vw_audio_buffer" where
  "append_sample pcm buf =
     (let norm = of_int pcm / 32768;
          buf = buf\<lparr>ab_samples := (ab_samples buf)[ab_head buf := norm],
                    ab_head := (ab_head buf + 1) mod ab_max_samples buf\<rparr>
      in if ab_count buf < ab_max_samples buf then buf\<lparr>ab_count := ab_count buf + 1\<rparr>
         else vw_audio_buffer_advance_pts (buf\<lparr>ab_dropped_samples := ab_dropped_samples buf + 1\<rparr>) 1)"

definition prepare_append :: "vw_audio_buffer \<Rightarrow> i64 \<Rightarrow> vw_audio_buffer" where
  "prepare_append buf pts_us =
     (let buf = (if ab_count buf > 0 then
                   let expected_pts_us = ab_start_pts_us buf
                         + (int (ab_count buf) * 125 + ab_start_pts_frac_us buf) div 2;
                       pts_delta_us = pts_us - expected_pts_us
                   in if pts_delta_us < - 63 \<or> pts_delta_us > 63 then vw_audio_buffer_clear buf else buf
                 else buf)
      in if ab_count buf = 0 then buf\<lparr>ab_start_pts_us := pts_us, ab_start_pts_frac_us := 0\<rparr> else buf)"

definition vw_audio_buffer_append_s16le ::
  "vw_audio_buffer option \<Rightarrow> int list option \<Rightarrow> nat \<Rightarrow> i64 \<Rightarrow> bool \<times> vw_audio_buffer option" where
  "vw_audio_buffer_append_s16le buf_opt pcm16 sample_count pts_us =
     (case (buf_opt, pcm16) of
        (Some buf, Some pcm) \<Rightarrow>
          if sample_count = 0 then (False, buf_opt)
          else (True, Some (fold append_sample (take sample_count pcm) (prepare_append buf pts_us)))
      | _ \<Rightarrow> (False, buf_opt))"

definition vw_audio_buffer_get_count :: "vw_audio_buffer option \<Rightarrow> nat" where
  "vw_audio_buffer_get_count buf = (case buf of None \<Rightarrow> 0 | Some b \<Rightarrow> ab_count b)"

definition vw_audio_buffer_get_available :: "vw_audio_buffer option \<Rightarrow> nat" where
  "vw_audio_buffer_get_available buf = vw_audio_buffer_get_count buf"

text \<open>The copied samples and, when any were copied, the time stamp written to \<^verbatim>\<open>*out_pts_us\<close>.\<close>

definition vw_audio_buffer_get_samples :: "vw_audio_buffer \<Rightarrow> nat \<Rightarrow> rat list \<times> i64 option" where
  "vw_audio_buffer_get_samples buf max_out =
     (if max_out = 0 \<or> ab_count buf = 0 then ([], None)
      else let to_copy = (if ab_count buf < max_out then ab_count buf else max_out);
               tail = (ab_head buf + ab_max_samples buf - ab_count buf) mod ab_max_samples buf
           in (map (\<lambda>i. ab_samples buf ! ((tail + i) mod ab_max_samples buf)) [0..<to_copy],
               Some (ab_start_pts_us buf)))"

definition vw_audio_buffer_drain :: "vw_audio_buffer \<Rightarrow> nat \<Rightarrow> vw_audio_buffer" where
  "vw_audio_buffer_drain buf sample_count =
     (if sample_count = 0 \<or> ab_count buf = 0 then buf
      else let drained = (if sample_count < ab_count buf then sample_count else ab_count buf);
               buf = vw_audio_buffer_advance_pts (buf\<lparr>ab_count := ab_count buf - drained\<rparr>) (int drained)
           in if ab_count buf = 0
              then buf\<lparr>ab_head := 0, ab_start_pts_us := - 1, ab_start_pts_frac_us := 0\<rparr> else buf)"

section \<open>The abstract timeline\<close>

text \<open>
  \<open>(s, xs)\<close>: the samples \<open>xs\<close>, the \<open>i\<close>-th of which is played at \<open>s + 125 * i\<close> half
  microseconds.  Appending re-anchors when the incoming time stamp is more than 63 us away
  from the end of the line, and drops the oldest samples beyond the capacity.
\<close>

type_synonym timeline = "int \<times> rat list"

definition tl_end_us :: "timeline \<Rightarrow> int" where
  "tl_end_us tm = (fst tm + 125 * int (length (snd tm))) div 2"

definition tl_trim :: "nat \<Rightarrow> timeline \<Rightarrow> timeline" where
  "tl_trim cap tm = (let d = length (snd tm) - cap in (fst tm + 125 * int d, drop d (snd tm)))"

definition tl_anchor :: "timeline \<Rightarrow> i64 \<Rightarrow> timeline" where
  "tl_anchor tm pts =
     (if snd tm = [] \<or> \<bar>pts - tl_end_us tm\<bar> > 63 then (2 * pts, []) else tm)"

definition tl_append :: "nat \<Rightarrow> timeline \<Rightarrow> rat list \<Rightarrow> i64 \<Rightarrow> timeline" where
  "tl_append cap tm ys pts = tl_trim cap (fst (tl_anchor tm pts), snd (tl_anchor tm pts) @ ys)"

definition ab_line :: "vw_audio_buffer \<Rightarrow> timeline" where
  "ab_line buf = (2 * ab_start_pts_us buf + ab_start_pts_frac_us buf,
     ring_slice (ab_samples buf) (ab_head buf + ab_max_samples buf - ab_count buf) (ab_count buf))"

definition ab_inv :: "vw_audio_buffer \<Rightarrow> bool" where
  "ab_inv buf \<longleftrightarrow> 0 < ab_max_samples buf \<and> length (ab_samples buf) = ab_max_samples buf
     \<and> ab_head buf < ab_max_samples buf \<and> ab_count buf \<le> ab_max_samples buf
     \<and> (ab_start_pts_frac_us buf = 0 \<or> ab_start_pts_frac_us buf = 1)"

lemma ab_create_inv:
  "vw_audio_buffer_create a b n = Some buf \<Longrightarrow> ab_inv buf \<and> snd (ab_line buf) = [] \<and> ab_max_samples buf = n"
  by (auto simp: vw_audio_buffer_create_def ab_inv_def ab_line_def split: if_splits)

lemma advance_pts_line:
  "2 * ab_start_pts_us (vw_audio_buffer_advance_pts buf n) + ab_start_pts_frac_us (vw_audio_buffer_advance_pts buf n)
    = 2 * ab_start_pts_us buf + ab_start_pts_frac_us buf + 125 * n"
  by (simp add: vw_audio_buffer_advance_pts_def Let_def)

lemma advance_pts_keeps [simp]:
  "ab_samples (vw_audio_buffer_advance_pts buf n) = ab_samples buf"
  "ab_max_samples (vw_audio_buffer_advance_pts buf n) = ab_max_samples buf"
  "ab_head (vw_audio_buffer_advance_pts buf n) = ab_head buf"
  "ab_count (vw_audio_buffer_advance_pts buf n) = ab_count buf"
  "ab_dropped_samples (vw_audio_buffer_advance_pts buf n) = ab_dropped_samples buf"
  by (simp_all add: vw_audio_buffer_advance_pts_def Let_def)

lemma advance_pts_frac:
  "ab_start_pts_frac_us (vw_audio_buffer_advance_pts buf n) = 0 \<or> ab_start_pts_frac_us (vw_audio_buffer_advance_pts buf n) = 1"
  by (simp add: vw_audio_buffer_advance_pts_def Let_def) presburger

lemma tl_end_us_eq:
  "ab_start_pts_us buf + (int (ab_count buf) * 125 + ab_start_pts_frac_us buf) div 2 = tl_end_us (ab_line buf)"
  by (simp add: tl_end_us_def ab_line_def)

lemma length_ab_line [simp]: "length (snd (ab_line buf)) = ab_count buf"
  by (simp add: ab_line_def)

lemma clear_line: "ab_line (vw_audio_buffer_clear buf) = (- 2, [])"
  by (simp add: ab_line_def vw_audio_buffer_clear_def)

lemma clear_inv: "ab_inv buf \<Longrightarrow> ab_inv (vw_audio_buffer_clear buf)"
  by (simp add: ab_inv_def vw_audio_buffer_clear_def)

lemma prepare_append_line:
  assumes "ab_inv buf"
  shows "ab_line (prepare_append buf pts) = tl_anchor (ab_line buf) pts"
    and "ab_inv (prepare_append buf pts)"
    and "ab_max_samples (prepare_append buf pts) = ab_max_samples buf"
proof -
  have empty: "snd (ab_line buf) = [] \<longleftrightarrow> ab_count buf = 0" by (simp add: ab_line_def flip: length_0_conv)
  have far: "x < - 63 \<or> x > 63 \<longleftrightarrow> \<bar>x\<bar> > (63 :: int)" for x by auto
  have anchored: "ab_line (b\<lparr>ab_start_pts_us := pts, ab_start_pts_frac_us := 0\<rparr>) = (2 * pts, [])"
    if "ab_count b = 0" for b using that by (simp add: ab_line_def)
  show "ab_line (prepare_append buf pts) = tl_anchor (ab_line buf) pts"
    unfolding prepare_append_def Let_def tl_end_us_eq far tl_anchor_def empty
    by (auto simp: anchored) (simp_all add: vw_audio_buffer_clear_def anchored)
  show "ab_inv (prepare_append buf pts)" "ab_max_samples (prepare_append buf pts) = ab_max_samples buf"
    using assms by (auto simp: prepare_append_def Let_def ab_inv_def vw_audio_buffer_clear_def)
qed

lemma append_sample_inv: "ab_inv buf \<Longrightarrow> ab_inv (append_sample x buf)"
  using advance_pts_frac by (auto simp: ab_inv_def append_sample_def Let_def)

lemma append_sample_max [simp]: "ab_max_samples (append_sample x buf) = ab_max_samples buf"
  by (simp add: append_sample_def Let_def)

text \<open>One sample: append it and drop the oldest one when the ring is full.\<close>

lemma append_sample_line:
  assumes "ab_inv buf"
  shows "ab_line (append_sample x buf) =
    tl_trim (ab_max_samples buf) (fst (ab_line buf), snd (ab_line buf) @ [of_int x / 32768])"
proof -
  let ?n = "ab_max_samples buf" and ?h = "ab_head buf" and ?c = "ab_count buf" and ?v = "of_int x / 32768 :: rat"
  have i: "0 < ?n" "length (ab_samples buf) = ?n" "?h < ?n" "?c \<le> ?n" using assms by (simp_all add: ab_inv_def)
  show ?thesis
  proof (cases "?c < ?n")
    case True
    have "ring_slice ((ab_samples buf)[?h := ?v]) (Suc ?h mod ?n + ?n - Suc ?c) (Suc ?c)
        = ring_slice (ab_samples buf) (?h + ?n - ?c) ?c @ [?v]"
      using True i by (intro ring_head_write)
    then show ?thesis using True
      by (simp add: append_sample_def Let_def ab_line_def tl_trim_def)
  next
    case False
    then have c: "?c = ?n" using i by simp
    define b where "b = buf\<lparr>ab_samples := (ab_samples buf)[?h := ?v], ab_head := (?h + 1) mod ?n,
      ab_dropped_samples := ab_dropped_samples buf + 1\<rparr>"
    have e: "append_sample x buf = vw_audio_buffer_advance_pts b 1"
      using False by (simp add: append_sample_def Let_def b_def)
    have "ring_slice ((ab_samples buf)[?h := ?v]) (Suc ?h) ?n = tl (ring_slice (ab_samples buf) ?h ?n) @ [?v]"
    proof -
      have "ab_samples buf \<noteq> []" using i by auto
      from ring_slice_overwrite[OF this, of ?h ?v] i show ?thesis by simp
    qed
    moreover have "ring_slice ((ab_samples buf)[?h := ?v]) (Suc ?h mod ?n) ?n
        = ring_slice ((ab_samples buf)[?h := ?v]) (Suc ?h) ?n"
      using i(2) by (metis length_list_update ring_slice_mod)
    ultimately have s: "snd (ab_line (append_sample x buf)) = drop 1 (snd (ab_line buf)) @ [?v]"
      unfolding e by (simp add: ab_line_def b_def c drop_Suc)
    have f: "fst (ab_line (append_sample x buf)) = fst (ab_line buf) + 125"
      unfolding e ab_line_def by (simp add: advance_pts_line) (simp add: b_def)
    have l: "length (snd (ab_line buf)) = ?n" using c by simp
    show ?thesis using s f l i(1) by (intro prod_eqI) (simp_all add: tl_trim_def)
  qed
qed

lemma tl_trim_trim_append:
  "tl_trim cap (fst (tl_trim cap (s, xs)), snd (tl_trim cap (s, xs)) @ ys) = tl_trim cap (s, xs @ ys)"
  if "0 < cap"
proof -
  have "drop (length xs - cap + k) (xs @ ys) = drop k (drop (length xs - cap) xs @ ys)" for k
    by (simp add: drop_append add.commute)
  moreover have "length (drop (length xs - cap) xs @ ys) - cap + (length xs - cap) = length (xs @ ys) - cap"
    by auto
  ultimately show ?thesis
    by (simp add: tl_trim_def Let_def drop_append add.commute)
qed

lemma append_samples_line:
  assumes "ab_inv buf"
  shows "ab_line (fold append_sample ys buf) =
      tl_trim (ab_max_samples buf) (fst (ab_line buf), snd (ab_line buf) @ map (\<lambda>x. of_int x / 32768) ys)
    \<and> ab_inv (fold append_sample ys buf)"
  using assms
proof (induction ys arbitrary: buf)
  case Nil
  then show ?case by (simp add: tl_trim_def ab_inv_def)
next
  case (Cons y ys)
  have pos: "0 < ab_max_samples buf" using Cons.prems by (simp add: ab_inv_def)
  from Cons.IH[OF append_sample_inv[OF Cons.prems, of y]] append_sample_line[OF Cons.prems, of y]
    tl_trim_trim_append[OF pos, of "fst (ab_line buf)" "snd (ab_line buf) @ [of_int y / 32768]"]
  show ?case by simp
qed

section \<open>Reading\<close>

lemma get_samples_line:
  assumes "ab_inv buf"
  shows "vw_audio_buffer_get_samples buf n =
    (take n (snd (ab_line buf)), if n = 0 \<or> snd (ab_line buf) = [] then None else Some (fst (ab_line buf) div 2))"
proof -
  have pts: "fst (ab_line buf) div 2 = ab_start_pts_us buf"
    using assms by (auto simp: ab_line_def ab_inv_def)
  have empty: "snd (ab_line buf) = [] \<longleftrightarrow> ab_count buf = 0" by (simp add: ab_line_def flip: length_0_conv)
  show ?thesis
  proof (cases "n = 0 \<or> ab_count buf = 0")
    case True
    then show ?thesis by (auto simp: vw_audio_buffer_get_samples_def empty)
  next
    case False
    have "map (\<lambda>i. ab_samples buf ! (((ab_head buf + ab_max_samples buf - ab_count buf) mod ab_max_samples buf + i)
          mod ab_max_samples buf)) [0..<(if ab_count buf < n then ab_count buf else n)]
        = take n (snd (ab_line buf))"
      using assms by (intro nth_equalityI) (auto simp: ab_line_def ab_inv_def mod_add_left_eq split: if_splits)
    with False show ?thesis by (simp add: vw_audio_buffer_get_samples_def Let_def empty pts)
  qed
qed

lemma drain_line:
  assumes "ab_inv buf"
  shows "ab_inv (vw_audio_buffer_drain buf k)"
    and "k < length (snd (ab_line buf)) \<Longrightarrow>
      ab_line (vw_audio_buffer_drain buf k) = (fst (ab_line buf) + 125 * int k, drop k (snd (ab_line buf)))"
    and "length (snd (ab_line buf)) \<le> k \<Longrightarrow> snd (ab_line (vw_audio_buffer_drain buf k)) = []"
    and "ab_max_samples (vw_audio_buffer_drain buf k) = ab_max_samples buf"
proof -
  show "ab_inv (vw_audio_buffer_drain buf k)" "ab_max_samples (vw_audio_buffer_drain buf k) = ab_max_samples buf"
    using assms advance_pts_frac by (auto simp: vw_audio_buffer_drain_def Let_def ab_inv_def)
  show "snd (ab_line (vw_audio_buffer_drain buf k)) = []" if "length (snd (ab_line buf)) \<le> k"
    using that by (auto simp: vw_audio_buffer_drain_def Let_def ab_line_def)
  show "ab_line (vw_audio_buffer_drain buf k) = (fst (ab_line buf) + 125 * int k, drop k (snd (ab_line buf)))"
    if k: "k < length (snd (ab_line buf))"
  proof (cases "k = 0")
    case True
    then show ?thesis by (simp add: vw_audio_buffer_drain_def)
  next
    case False
    let ?b = "buf\<lparr>ab_count := ab_count buf - k\<rparr>" and ?s = "ab_head buf + ab_max_samples buf - ab_count buf"
    have d: "vw_audio_buffer_drain buf k = vw_audio_buffer_advance_pts ?b (int k)"
      using k False by (auto simp: vw_audio_buffer_drain_def Let_def)
    have "ab_count buf \<le> ab_max_samples buf" using assms by (simp add: ab_inv_def)
    then have "ab_head buf + ab_max_samples buf - (ab_count buf - k) = ?s + k" using k by simp
    then have "ring_slice (ab_samples buf) (ab_head buf + ab_max_samples buf - (ab_count buf - k)) (ab_count buf - k)
        = drop k (snd (ab_line buf))"
      using ring_slice_drop[of k "ab_count buf" "ab_samples buf" ?s] k by (simp add: ab_line_def)
    moreover have "2 * ab_start_pts_us (vw_audio_buffer_drain buf k) + ab_start_pts_frac_us (vw_audio_buffer_drain buf k)
        = fst (ab_line buf) + 125 * int k"
      unfolding d advance_pts_line by (simp add: ab_line_def)
    ultimately show ?thesis by (simp add: ab_line_def [of "vw_audio_buffer_drain buf k"]) (simp add: d)
  qed
qed

text \<open>
  What a consumer of timed samples relies on, and the loop it runs: read a window of \<open>n\<close>
  samples, drain it, until nothing is left.
\<close>

fun read_windows :: "('b \<Rightarrow> nat \<Rightarrow> 'a list \<times> int option) \<Rightarrow> ('b \<Rightarrow> nat \<Rightarrow> 'b) \<Rightarrow> nat \<Rightarrow> nat \<Rightarrow> 'b
    \<Rightarrow> (int \<times> 'a list) list" where
  "read_windows get advance n 0 b = []"
| "read_windows get advance n (Suc fuel) b =
     (case get b n of (xs, None) \<Rightarrow> [] | (xs, Some pts) \<Rightarrow> (pts, xs) # read_windows get advance n fuel (advance b n))"

locale timed_source =
  fixes inv :: "'b \<Rightarrow> bool"
    and line :: "'b \<Rightarrow> int \<times> 'a list"
    and get :: "'b \<Rightarrow> nat \<Rightarrow> 'a list \<times> int option"
    and advance :: "'b \<Rightarrow> nat \<Rightarrow> 'b"
  assumes get_line: "inv b \<Longrightarrow> get b n =
      (take n (snd (line b)), if n = 0 \<or> snd (line b) = [] then None else Some (fst (line b) div 2))"
    and drain_inv: "inv b \<Longrightarrow> inv (advance b k)"
    and drain_some: "inv b \<Longrightarrow> k < length (snd (line b)) \<Longrightarrow>
      line (advance b k) = (fst (line b) + 125 * int k, drop k (snd (line b)))"
    and drain_all: "inv b \<Longrightarrow> length (snd (line b)) \<le> k \<Longrightarrow> snd (line (advance b k)) = []"
begin

lemma read_windows_empty: "inv b \<Longrightarrow> snd (line b) = [] \<Longrightarrow> read_windows get advance n fuel b = []"
  by (cases fuel) (simp_all add: get_line)

lemma read_windows_complete:
  assumes "inv b" "0 < n" "length (snd (line b)) \<le> fuel"
  shows "concat (map snd (read_windows get advance n fuel b)) = snd (line b)
    \<and> (\<forall>i < length (read_windows get advance n fuel b).
         fst (read_windows get advance n fuel b ! i) = (fst (line b) + 125 * int (n * i)) div 2)"
  using assms
proof (induction fuel arbitrary: b)
  case 0
  then show ?case by simp
next
  case (Suc fuel)
  show ?case
  proof (cases "snd (line b) = []")
    case True
    with read_windows_empty[OF Suc.prems(1)] show ?thesis by (simp del: read_windows.simps)
  next
    case False
    let ?d = "advance b n" and ?ws = "read_windows get advance n fuel (advance b n)"
    have ws: "read_windows get advance n (Suc fuel) b = (fst (line b) div 2, take n (snd (line b))) # ?ws"
      using False Suc.prems get_line[of b n] by simp
    show ?thesis
    proof (cases "n < length (snd (line b))")
      case True
      have l: "line ?d = (fst (line b) + 125 * int n, drop n (snd (line b)))"
        using drain_some[OF Suc.prems(1) True] .
      have "length (snd (line ?d)) \<le> fuel" using l Suc.prems by simp
      from Suc.IH[OF drain_inv[OF Suc.prems(1)] Suc.prems(2) this]
      have c: "concat (map snd ?ws) = drop n (snd (line b))"
        and p: "i < length ?ws \<Longrightarrow> fst (?ws ! i) = (fst (line b) + 125 * int n + 125 * int (n * i)) div 2" for i
        using l by simp_all
      have "fst (((fst (line b) div 2, take n (snd (line b))) # ?ws) ! i)
          = (fst (line b) + 125 * int (n * i)) div 2" if "i < Suc (length ?ws)" for i
        using that p[of "i - 1"] by (cases i) (simp_all add: algebra_simps)
      with c show ?thesis unfolding ws by simp
    next
      case False
      then have "?ws = []"
        using drain_all[OF Suc.prems(1), of n] drain_inv[OF Suc.prems(1)] read_windows_empty by simp
      with False show ?thesis unfolding ws by simp
    qed
  qed
qed

end

interpretation audio: timed_source ab_inv ab_line vw_audio_buffer_get_samples vw_audio_buffer_drain
  using get_samples_line drain_line by unfold_locales blast+

text \<open>
  Property.  Appending implements the abstract timeline: samples join the line when their
  time stamp lies within 63 us of its end (one sample of resampling jitter) and start a new
  one otherwise; beyond the capacity the oldest samples leave and the start advances by
  exactly 62.5 us for each.
\<close>
theorem vw_audio_buffer_append_refines:
  assumes "ab_inv buf" "0 < n"
  shows "\<exists>buf'. vw_audio_buffer_append_s16le (Some buf) (Some pcm) n pts = (True, Some buf')
    \<and> ab_inv buf' \<and> ab_max_samples buf' = ab_max_samples buf
    \<and> ab_line buf' = tl_append (ab_max_samples buf) (ab_line buf) (map (\<lambda>x. of_int x / 32768) (take n pcm)) pts"
proof -
  have max: "ab_max_samples (fold append_sample ys b) = ab_max_samples b" for ys b
    by (induction ys arbitrary: b) simp_all
  from prepare_append_line[OF assms(1), of pts] append_samples_line[of "prepare_append buf pts" "take n pcm"]
    assms(2) max show ?thesis
    by (simp add: vw_audio_buffer_append_s16le_def tl_append_def)
qed

definition sample_buffer :: vw_audio_buffer where
  "sample_buffer = \<lparr>ab_samples = [1, 2, 3], ab_max_samples = 3, ab_head = 1, ab_count = 2,
     ab_start_pts_us = 1000, ab_start_pts_frac_us = 1, ab_dropped_samples = 0\<rparr>"

theorem vw_audio_buffer_append_refines_witness:
  "ab_inv sample_buffer \<and> (\<exists>buf'. vw_audio_buffer_append_s16le (Some sample_buffer) (Some [32767, - 32768]) 2 1100
      = (True, Some buf') \<and> ab_line buf' = (2126, [1, 32767 / 32768, - 1]))"
proof -
  have i: "ab_inv sample_buffer" by (simp add: ab_inv_def sample_buffer_def)
  have l: "ab_line sample_buffer = (2001, [3, 1])" "ab_max_samples sample_buffer = 3"
    by (simp_all add: ab_line_def sample_buffer_def ring_slice_def numeral_2_eq_2)
  from vw_audio_buffer_append_refines[OF i, of 2 "[32767, - 32768]" 1100] i show ?thesis
    by (auto simp: l tl_append_def tl_anchor_def tl_end_us_def tl_trim_def)
qed

text \<open>
  Property.  Reading the buffer window by window returns every sample once and in order, and
  window \<open>i\<close> of \<open>n\<close> samples is stamped with the exact media time of its first sample, so no
  drift accumulates over repeated drains.
\<close>
theorem vw_audio_buffer_windows_exact:
  assumes "ab_inv buf" "0 < n"
  defines "ws \<equiv> read_windows vw_audio_buffer_get_samples vw_audio_buffer_drain n (ab_count buf) buf"
  shows "concat (map snd ws) = snd (ab_line buf)
    \<and> (\<forall>i < length ws. fst (ws ! i) = (fst (ab_line buf) + 125 * int (n * i)) div 2)"
  using audio.read_windows_complete[OF assms(1,2), of "ab_count buf"] by (simp add: ws_def)

theorem vw_audio_buffer_windows_exact_witness:
  "ab_inv sample_buffer \<and>
   concat (map snd (read_windows vw_audio_buffer_get_samples vw_audio_buffer_drain 1 2 sample_buffer)) = [3, 1]"
proof -
  have i: "ab_inv sample_buffer" by (simp add: ab_inv_def sample_buffer_def)
  have l: "ab_line sample_buffer = (2001, [3, 1])" "ab_count sample_buffer = 2"
    by (simp_all add: ab_line_def sample_buffer_def ring_slice_def numeral_2_eq_2)
  from vw_audio_buffer_windows_exact[OF i, of 1] i show ?thesis by (simp add: l)
qed

end
