(* ===== verification/VW_Worker_Queue.thy ===== *)
theory VW_Worker_Queue
  imports VW_Codec
begin

text \<open>
  \<^verbatim>\<open>worker/src/vw_worker_queue.c\<close>: the worker's bounded queue of inbound frames.  On overflow
  it evicts the oldest audio frame; when it holds only control frames it evicts one that the
  incoming frame supersedes.  Each operation runs under the queue's mutex and is one step of
  the model; the indices \<^verbatim>\<open>head\<close> and \<^verbatim>\<open>tail\<close> are unbounded and reduced on access, and the
  two counters are 64-bit words.
\<close>

section \<open>State\<close>

record vw_worker_frame =
  wf_type :: u16
  wf_payload_len :: u32
  wf_payload :: "bytes option"

record vw_worker_queue =
  wq_slots :: "vw_worker_frame list"
  wq_capacity :: nat
  wq_head :: nat
  wq_tail :: nat
  wq_dropped_audio_us :: u64
  wq_queued_audio_us :: u64

text \<open>The Booleans say whether the two allocations and the mutex initialisation succeed.\<close>

definition vw_worker_queue_create :: "bool \<Rightarrow> bool \<Rightarrow> bool \<Rightarrow> nat \<Rightarrow> vw_worker_queue option" where
  "vw_worker_queue_create q_alloc slots_alloc mutex_init capacity =
     (if capacity = 0 then None
      else if \<not> q_alloc then None
      else if \<not> slots_alloc then None
      else if \<not> mutex_init then None
      else Some \<lparr>wq_slots = replicate capacity \<lparr>wf_type = 0, wf_payload_len = 0, wf_payload = None\<rparr>,
        wq_capacity = capacity, wq_head = 0, wq_tail = 0, wq_dropped_audio_us = 0,
        wq_queued_audio_us = 0\<rparr>)"

section \<open>Operations\<close>

definition vw_worker_queue_audio_duration_us :: "bytes option \<Rightarrow> u32 \<Rightarrow> u64" where
  "vw_worker_queue_audio_duration_us payload payload_len =
     (case payload of
        None \<Rightarrow> 0
      | Some bs \<Rightarrow>
          (case vw_protocol_decode_payload (msg_code VW_MSG_AUDIO_PCM) (take (unat payload_len) bs) of
             Some (Some (P_AUDIO audio)) \<Rightarrow>
               if au_duration_us audio > 0 then word_of_int (au_duration_us audio) else 0
           | _ \<Rightarrow> 0))"

definition vw_worker_queue_frame_audio_duration_us :: "vw_worker_frame \<Rightarrow> u64" where
  "vw_worker_queue_frame_audio_duration_us f =
     (if wf_type f = msg_code VW_MSG_AUDIO_PCM
      then vw_worker_queue_audio_duration_us (wf_payload f) (wf_payload_len f) else 0)"

text \<open>The search loops: the first index from \<^verbatim>\<open>tail\<close> on whose slot has the property.\<close>

definition first_slot :: "(vw_worker_frame \<Rightarrow> bool) \<Rightarrow> vw_worker_queue \<Rightarrow> nat option" where
  "first_slot P q = List.find (\<lambda>i. P (wq_slots q ! (i mod wq_capacity q))) [wq_tail q..<wq_head q]"

text \<open>The loop \<^verbatim>\<open>for (i = evict; i + 1 < head; i++) slots[i % cap] = slots[(i + 1) % cap]\<close>.\<close>

function shift_slots :: "nat \<Rightarrow> nat \<Rightarrow> nat \<Rightarrow> 'a list \<Rightarrow> 'a list" where
  "shift_slots cap head i slots =
     (if i + 1 < head
      then shift_slots cap head (i + 1) (slots[i mod cap := slots ! ((i + 1) mod cap)])
      else slots)"
  by pat_completeness auto
termination
  by (relation "measure (\<lambda>(cap, head, i, slots). head - i)") auto

declare shift_slots.simps [simp del]

text \<open>Write a frame into the slot at \<^verbatim>\<open>head\<close> and advance \<^verbatim>\<open>head\<close>.\<close>

definition put_frame :: "vw_worker_frame \<Rightarrow> vw_worker_queue \<Rightarrow> vw_worker_queue" where
  "put_frame f q = q\<lparr>wq_slots := (wq_slots q)[wq_head q mod wq_capacity q := f], wq_head := wq_head q + 1\<rparr>"

definition remove_slot :: "nat \<Rightarrow> vw_worker_queue \<Rightarrow> vw_worker_queue" where
  "remove_slot i q =
     q\<lparr>wq_slots := shift_slots (wq_capacity q) (wq_head q) i (wq_slots q), wq_head := wq_head q - 1\<rparr>"

definition is_audio :: "vw_worker_frame \<Rightarrow> bool" where
  "is_audio f \<longleftrightarrow> wf_type f = msg_code VW_MSG_AUDIO_PCM"

definition is_shutdown :: "vw_worker_frame \<Rightarrow> bool" where
  "is_shutdown f \<longleftrightarrow> wf_type f = msg_code VW_MSG_SHUTDOWN"

definition evictable_by :: "u16 \<Rightarrow> vw_worker_frame \<Rightarrow> bool" where
  "evictable_by type f \<longleftrightarrow> wf_type f = msg_code VW_MSG_PAUSE \<or> wf_type f = msg_code VW_MSG_RESUME
     \<or> wf_type f = type"

definition is_required :: "u16 \<Rightarrow> bool" where
  "is_required type \<longleftrightarrow> type = msg_code VW_MSG_START_SESSION \<or> type = msg_code VW_MSG_STOP_SESSION"

text \<open>The choice of the control frame to evict.\<close>

definition control_victim :: "u16 \<Rightarrow> vw_worker_queue \<Rightarrow> nat option" where
  "control_victim type q =
     (if type = msg_code VW_MSG_SHUTDOWN then Some (wq_tail q)
      else case first_slot (evictable_by type) q of
          Some i \<Rightarrow> Some i
        | None \<Rightarrow> if is_required type then first_slot (\<lambda>f. \<not> is_shutdown f) q else None)"

definition worker_push :: "vw_worker_queue \<Rightarrow> vw_worker_frame \<Rightarrow> bool \<times> vw_worker_queue" where
  "worker_push q f =
     (let incoming_audio_us = vw_worker_queue_frame_audio_duration_us f in
      if wq_head q - wq_tail q < wq_capacity q then
        (True, (put_frame f q)\<lparr>wq_queued_audio_us := wq_queued_audio_us q + incoming_audio_us\<rparr>)
      else case first_slot is_audio q of
          Some evict \<Rightarrow>
            let victim = wq_slots q ! (evict mod wq_capacity q);
                victim_audio_us = vw_worker_queue_audio_duration_us (wf_payload victim) (wf_payload_len victim)
            in (True, (put_frame f (remove_slot evict q))\<lparr>
                  wq_dropped_audio_us := wq_dropped_audio_us q + victim_audio_us,
                  wq_queued_audio_us := wq_queued_audio_us q - victim_audio_us + incoming_audio_us\<rparr>)
        | None \<Rightarrow>
            if wf_type f = msg_code VW_MSG_AUDIO_PCM then
              (False, q\<lparr>wq_dropped_audio_us := wq_dropped_audio_us q + incoming_audio_us\<rparr>)
            else case control_victim (wf_type f) q of
                None \<Rightarrow> (False, q)
              | Some evict \<Rightarrow>
                  let victim_audio_us = vw_worker_queue_frame_audio_duration_us (wq_slots q ! (evict mod wq_capacity q))
                  in (True, (put_frame f (remove_slot evict q))\<lparr>
                        wq_dropped_audio_us := wq_dropped_audio_us q + victim_audio_us,
                        wq_queued_audio_us := wq_queued_audio_us q - victim_audio_us\<rparr>))"

definition worker_pop :: "vw_worker_queue \<Rightarrow> (vw_worker_frame \<times> vw_worker_queue) option" where
  "worker_pop q =
     (if wq_head q = wq_tail q then None
      else let out = wq_slots q ! (wq_tail q mod wq_capacity q)
           in Some (out, q\<lparr>wq_tail := wq_tail q + 1,
                wq_queued_audio_us := wq_queued_audio_us q - vw_worker_queue_frame_audio_duration_us out\<rparr>))"

text \<open>The exported functions with their \<^verbatim>\<open>NULL\<close> guards.\<close>

definition vw_worker_queue_push ::
  "vw_worker_queue option \<Rightarrow> u16 \<Rightarrow> bytes option \<Rightarrow> u32 \<Rightarrow> bool \<times> vw_worker_queue option" where
  "vw_worker_queue_push q_opt type payload payload_len =
     (case q_opt of
        None \<Rightarrow> (False, None)
      | Some q \<Rightarrow>
          (case worker_push q \<lparr>wf_type = type, wf_payload_len = payload_len, wf_payload = payload\<rparr> of
             (ok, q') \<Rightarrow> (ok, Some q')))"

definition vw_worker_queue_pop ::
  "vw_worker_queue option \<Rightarrow> bool \<Rightarrow> vw_worker_frame option \<times> vw_worker_queue option" where
  "vw_worker_queue_pop q_opt out_nonnull =
     (case q_opt of
        None \<Rightarrow> (None, None)
      | Some q \<Rightarrow> if \<not> out_nonnull then (None, q_opt)
          else (case worker_pop q of None \<Rightarrow> (None, q_opt) | Some (f, q') \<Rightarrow> (Some f, Some q')))"

definition vw_worker_queue_get_dropped_audio_us :: "vw_worker_queue option \<Rightarrow> u64" where
  "vw_worker_queue_get_dropped_audio_us q = (case q of None \<Rightarrow> 0 | Some q \<Rightarrow> wq_dropped_audio_us q)"

definition vw_worker_queue_get_queued_audio_us :: "vw_worker_queue option \<Rightarrow> u64" where
  "vw_worker_queue_get_queued_audio_us q = (case q of None \<Rightarrow> 0 | Some q \<Rightarrow> wq_queued_audio_us q)"

section \<open>The queue as a list\<close>

definition wq_contents :: "vw_worker_queue \<Rightarrow> vw_worker_frame list" where
  "wq_contents q = ring_slice (wq_slots q) (wq_tail q) (wq_head q - wq_tail q)"

abbreviation frame_us :: "vw_worker_frame \<Rightarrow> u64" where
  "frame_us \<equiv> vw_worker_queue_frame_audio_duration_us"

text \<open>The queued counter is the total duration of the queued audio frames.\<close>

definition wq_inv :: "vw_worker_queue \<Rightarrow> bool" where
  "wq_inv q \<longleftrightarrow> 0 < wq_capacity q \<and> length (wq_slots q) = wq_capacity q \<and> wq_tail q \<le> wq_head q
     \<and> wq_head q \<le> wq_tail q + wq_capacity q
     \<and> wq_queued_audio_us q = sum_list (map frame_us (wq_contents q))"

lemma wq_create_inv:
  "vw_worker_queue_create a b c n = Some q \<Longrightarrow>
    wq_inv q \<and> wq_contents q = [] \<and> wq_capacity q = n \<and> wq_dropped_audio_us q = 0"
  by (auto simp: vw_worker_queue_create_def wq_inv_def wq_contents_def split: if_splits)

definition remove_nth :: "nat \<Rightarrow> 'a list \<Rightarrow> 'a list" where
  "remove_nth i xs = take i xs @ drop (Suc i) xs"

definition find_index :: "('a \<Rightarrow> bool) \<Rightarrow> 'a list \<Rightarrow> nat option" where
  "find_index P xs = List.find (\<lambda>i. P (xs ! i)) [0..<length xs]"

text \<open>Which element a push into a full queue evicts.\<close>

definition victim :: "vw_worker_frame list \<Rightarrow> u16 \<Rightarrow> nat option" where
  "victim fs type =
     (case find_index is_audio fs of
        Some i \<Rightarrow> Some i
      | None \<Rightarrow>
          if type = msg_code VW_MSG_AUDIO_PCM then None
          else if type = msg_code VW_MSG_SHUTDOWN then Some 0
          else case find_index (evictable_by type) fs of
              Some i \<Rightarrow> Some i
            | None \<Rightarrow> if is_required type then find_index (\<lambda>f. \<not> is_shutdown f) fs else None)"

definition push_spec :: "nat \<Rightarrow> vw_worker_frame list \<Rightarrow> vw_worker_frame \<Rightarrow> bool \<times> vw_worker_frame list" where
  "push_spec cap fs f =
     (if length fs < cap then (True, fs @ [f])
      else case victim fs (wf_type f) of
          None \<Rightarrow> (False, fs)
        | Some i \<Rightarrow> (True, remove_nth i fs @ [f]))"

lemma find_index_Some:
  "find_index P xs = Some i \<longleftrightarrow> i < length xs \<and> P (xs ! i) \<and> (\<forall>j < i. \<not> P (xs ! j))"
  unfolding find_index_def by (auto simp: find_Some_iff)

lemma find_index_None: "find_index P xs = None \<longleftrightarrow> list_all (\<lambda>x. \<not> P x) xs"
  unfolding find_index_def by (auto simp: find_None_iff list_all_length)

lemma first_slot_find_index:
  assumes "wq_inv q"
  shows "first_slot P q = map_option (\<lambda>i. wq_tail q + i) (find_index P (wq_contents q))"
proof -
  have l: "length (wq_slots q) = wq_capacity q" "wq_tail q \<le> wq_head q" using assms by (simp_all add: wq_inv_def)
  have "[wq_tail q..<wq_head q] = map (\<lambda>i. wq_tail q + i) [0..<wq_head q - wq_tail q]"
    using map_add_upt[of "wq_tail q" "wq_head q - wq_tail q"] l(2) by (simp add: add.commute)
  moreover have "List.find Q (map g xs) = map_option g (List.find (Q \<circ> g) xs)" for Q and g :: "nat \<Rightarrow> nat" and xs
    by (induction xs) simp_all
  moreover have "List.find (\<lambda>i. P (wq_slots q ! ((wq_tail q + i) mod wq_capacity q))) [0..<wq_head q - wq_tail q]
      = find_index P (wq_contents q)"
    unfolding find_index_def using l(1)
    by (intro find_cong) (auto simp: wq_contents_def)
  ultimately show ?thesis by (simp add: first_slot_def comp_def)
qed

lemma length_shift_slots [simp]: "length (shift_slots cap head i slots) = length slots"
  by (induction cap head i slots rule: shift_slots.induct) (subst shift_slots.simps, simp)

lemma nth_shift_slots:
  assumes "length slots = cap" "t0 \<le> i" "head \<le> t0 + cap" "t0 \<le> k" "k + 1 < head"
  shows "shift_slots cap head i slots ! (k mod cap) =
    (if k < i then slots ! (k mod cap) else slots ! ((k + 1) mod cap))"
  using assms
proof (induction cap head i slots rule: shift_slots.induct)
  case (1 cap head i slots)
  show ?case
  proof (cases "i + 1 < head")
    case False
    with 1(6) show ?thesis by (subst shift_slots.simps) simp
  next
    case True
    let ?s = "slots[i mod cap := slots ! ((i + 1) mod cap)]"
    have pos: "0 < cap" using 1(3-6) by linarith
    have neq: "a mod cap \<noteq> b mod cap" if "t0 \<le> a" "a < b" "b < head" for a b
      using ring_slot_neq[of "a - t0" cap "b - t0" t0] that 1(4) by simp
    have "shift_slots cap head i slots ! (k mod cap) = shift_slots cap head (i + 1) ?s ! (k mod cap)"
      using True by (subst shift_slots.simps) simp
    also have "\<dots> = (if k < i + 1 then ?s ! (k mod cap) else ?s ! ((k + 1) mod cap))"
      using 1(1)[OF True] 1(2-6) by simp
    also have "\<dots> = (if k < i then slots ! (k mod cap) else slots ! ((k + 1) mod cap))"
      using neq[of k i] neq[of i "k + 1"] 1(2-6) True pos by (auto simp: nth_list_update less_Suc_eq)
    finally show ?thesis .
  qed
qed

lemma remove_slot_contents:
  assumes "wq_inv q" "i < length (wq_contents q)"
  shows "ring_slice (wq_slots (remove_slot (wq_tail q + i) q)) (wq_tail q) (wq_head q - 1 - wq_tail q)
    = remove_nth i (wq_contents q)"
proof -
  let ?c = "wq_capacity q" and ?n = "wq_head q - wq_tail q"
  have l: "length (wq_slots q) = ?c" "wq_head q \<le> wq_tail q + ?c" "wq_tail q \<le> wq_head q"
    using assms(1) by (simp_all add: wq_inv_def)
  have i: "i < ?n" using assms(2) by (simp add: wq_contents_def)
  show ?thesis
  proof (rule nth_equalityI)
    show "length (ring_slice (wq_slots (remove_slot (wq_tail q + i) q)) (wq_tail q) (wq_head q - 1 - wq_tail q))
        = length (remove_nth i (wq_contents q))"
      using i by (simp add: remove_nth_def wq_contents_def)
  next
    fix k
    assume "k < length (ring_slice (wq_slots (remove_slot (wq_tail q + i) q)) (wq_tail q) (wq_head q - 1 - wq_tail q))"
    then have k: "wq_tail q + k + 1 < wq_head q" by simp
    have "ring_slice (wq_slots (remove_slot (wq_tail q + i) q)) (wq_tail q) (wq_head q - 1 - wq_tail q) ! k
        = shift_slots ?c (wq_head q) (wq_tail q + i) (wq_slots q) ! ((wq_tail q + k) mod ?c)"
      using k l(1) by (simp add: remove_slot_def)
    also have "\<dots> = (if k < i then wq_slots q ! ((wq_tail q + k) mod ?c) else wq_slots q ! ((wq_tail q + k + 1) mod ?c))"
      using nth_shift_slots[OF l(1), of "wq_tail q" "wq_tail q + i" "wq_head q" "wq_tail q + k"] l k by simp
    also have "\<dots> = remove_nth i (wq_contents q) ! k"
      using k i l(1) by (auto simp: remove_nth_def wq_contents_def nth_append min_def)
    finally show "ring_slice (wq_slots (remove_slot (wq_tail q + i) q)) (wq_tail q) (wq_head q - 1 - wq_tail q) ! k
        = remove_nth i (wq_contents q) ! k" .
  qed
qed

lemma put_frame_contents:
  assumes "length (wq_slots q) = wq_capacity q" "wq_tail q \<le> wq_head q" "wq_head q < wq_tail q + wq_capacity q"
  shows "wq_contents (put_frame f q) = wq_contents q @ [f]"
proof -
  have "wq_head q = wq_tail q + (wq_head q - wq_tail q)" using assms(2) by simp
  then show ?thesis
    using ring_slice_write[of "wq_head q - wq_tail q" "wq_slots q" "wq_tail q" f] assms
    by (simp add: wq_contents_def put_frame_def Suc_diff_le)
qed

lemma evict_put_contents:
  assumes "wq_inv q" "i < length (wq_contents q)"
  shows "wq_contents (put_frame f (remove_slot (wq_tail q + i) q)) = remove_nth i (wq_contents q) @ [f]"
proof -
  have i: "i < wq_head q - wq_tail q" using assms(2) by (simp add: wq_contents_def)
  have "wq_contents (remove_slot (wq_tail q + i) q) = remove_nth i (wq_contents q)"
    using remove_slot_contents[OF assms] by (simp add: wq_contents_def [of "remove_slot _ _"]) (simp add: remove_slot_def)
  moreover have "wq_contents (put_frame f (remove_slot (wq_tail q + i) q))
      = wq_contents (remove_slot (wq_tail q + i) q) @ [f]"
    using assms(1) i by (intro put_frame_contents) (auto simp: remove_slot_def wq_inv_def)
  ultimately show ?thesis by simp
qed

lemma wq_contents_counters [simp]:
  "wq_contents (q\<lparr>wq_queued_audio_us := a\<rparr>) = wq_contents q"
  "wq_contents (q\<lparr>wq_dropped_audio_us := b\<rparr>) = wq_contents q"
  by (simp_all add: wq_contents_def)

lemma sum_remove_nth:
  "i < length xs \<Longrightarrow> sum_list (map g (remove_nth i xs)) = sum_list (map g xs) - (g (xs ! i) :: u64)"
  by (subst (2) id_take_nth_drop[of i xs]) (simp_all add: remove_nth_def)

section \<open>Refinement of push and pop\<close>

text \<open>The duration lost by a push: that of the evicted frame, or of the refused one.\<close>

definition lost_us :: "nat \<Rightarrow> vw_worker_frame list \<Rightarrow> vw_worker_frame \<Rightarrow> u64" where
  "lost_us cap fs f =
     (if length fs < cap then 0
      else case victim fs (wf_type f) of None \<Rightarrow> frame_us f | Some i \<Rightarrow> frame_us (fs ! i))"

lemma length_wq_contents: "length (wq_contents q) = wq_head q - wq_tail q"
  by (simp add: wq_contents_def)

lemma frame_us_not_audio: "\<not> is_audio f \<Longrightarrow> frame_us f = 0"
  by (simp add: is_audio_def vw_worker_queue_frame_audio_duration_us_def)

lemma frame_us_audio:
  "is_audio f \<Longrightarrow> vw_worker_queue_audio_duration_us (wf_payload f) (wf_payload_len f) = frame_us f"
  by (simp add: is_audio_def vw_worker_queue_frame_audio_duration_us_def)

lemma slot_contents:
  "wq_inv q \<Longrightarrow> i < length (wq_contents q) \<Longrightarrow>
    wq_slots q ! ((wq_tail q + i) mod wq_capacity q) = wq_contents q ! i"
  by (simp add: wq_contents_def wq_inv_def)

lemma control_victim_eq:
  assumes "wq_inv q" "find_index is_audio (wq_contents q) = None" "type \<noteq> msg_code VW_MSG_AUDIO_PCM"
    "wq_contents q \<noteq> []"
  shows "control_victim type q = map_option (\<lambda>i. wq_tail q + i) (victim (wq_contents q) type)"
  using assms by (auto simp: control_victim_def victim_def first_slot_find_index split: option.splits)

lemma victim_less: "victim fs type = Some i \<Longrightarrow> fs \<noteq> [] \<Longrightarrow> i < length fs"
  by (auto simp: victim_def find_index_Some split: option.splits if_splits)

text \<open>What the two eviction branches leave behind.\<close>

lemma evicted_state:
  fixes f :: vw_worker_frame
  assumes "wq_inv q" "length (wq_contents q) \<ge> wq_capacity q" "i < length (wq_contents q)"
  defines "q' \<equiv> (put_frame f (remove_slot (wq_tail q + i) q))\<lparr>
      wq_dropped_audio_us := wq_dropped_audio_us q + frame_us (wq_contents q ! i),
      wq_queued_audio_us := wq_queued_audio_us q - frame_us (wq_contents q ! i) + frame_us f\<rparr>"
  shows "wq_inv q'" "wq_contents q' = remove_nth i (wq_contents q) @ [f]" "wq_capacity q' = wq_capacity q"
proof -
  show c: "wq_contents q' = remove_nth i (wq_contents q) @ [f]"
    using evict_put_contents[OF assms(1,3), of f] by (simp add: q'_def)
  show "wq_capacity q' = wq_capacity q" by (simp add: q'_def put_frame_def remove_slot_def)
  have "wq_queued_audio_us q' = sum_list (map frame_us (wq_contents q'))"
    unfolding c using assms(1,3) by (simp add: sum_remove_nth wq_inv_def) (simp add: q'_def)
  then show "wq_inv q'"
    using assms(1-3) unfolding wq_inv_def length_wq_contents
    by (simp add: q'_def put_frame_def remove_slot_def)
qed

lemma worker_push_refines:
  assumes "wq_inv q"
  shows "wq_inv (snd (worker_push q f))
    \<and> (fst (worker_push q f), wq_contents (snd (worker_push q f))) = push_spec (wq_capacity q) (wq_contents q) f
    \<and> wq_dropped_audio_us (snd (worker_push q f)) = wq_dropped_audio_us q + lost_us (wq_capacity q) (wq_contents q) f
    \<and> wq_capacity (snd (worker_push q f)) = wq_capacity q"
proof (cases "wq_head q - wq_tail q < wq_capacity q")
  case True
  have c: "wq_contents (put_frame f q) = wq_contents q @ [f]"
    using assms True by (intro put_frame_contents) (auto simp: wq_inv_def)
  show ?thesis
    using True assms unfolding worker_push_def push_spec_def lost_us_def length_wq_contents Let_def
    by (simp add: c wq_inv_def) (simp add: put_frame_def)
next
  case False
  have full: "\<not> length (wq_contents q) < wq_capacity q" and ge: "length (wq_contents q) \<ge> wq_capacity q"
    using False by (simp_all add: length_wq_contents)
  have ne: "wq_contents q \<noteq> []" using assms full by (auto simp: wq_inv_def)
  show ?thesis
  proof (cases "find_index is_audio (wq_contents q)")
    case (Some i)
    then have i: "i < length (wq_contents q)" "is_audio (wq_contents q ! i)" by (simp_all add: find_index_Some)
    have v: "victim (wq_contents q) (wf_type f) = Some i" by (simp add: victim_def Some)
    have "worker_push q f = (True, (put_frame f (remove_slot (wq_tail q + i) q))\<lparr>
        wq_dropped_audio_us := wq_dropped_audio_us q + frame_us (wq_contents q ! i),
        wq_queued_audio_us := wq_queued_audio_us q - frame_us (wq_contents q ! i) + frame_us f\<rparr>)"
      using False Some i
      by (simp add: worker_push_def first_slot_find_index[OF assms] slot_contents[OF assms] frame_us_audio Let_def)
    with evicted_state[OF assms ge i(1), of f] full v show ?thesis
      by (simp add: push_spec_def lost_us_def)
  next
    case None
    note na = None
    show ?thesis
    proof (cases "is_audio f")
      case True
      then have "victim (wq_contents q) (wf_type f) = None" by (simp add: victim_def None is_audio_def)
      with False None True assms full show ?thesis
        by (simp add: worker_push_def first_slot_find_index push_spec_def lost_us_def is_audio_def wq_inv_def)
    next
      case False
      then have t: "wf_type f \<noteq> msg_code VW_MSG_AUDIO_PCM" by (simp add: is_audio_def)
      note cv = control_victim_eq[OF assms None t ne]
      have push: "worker_push q f = (case control_victim (wf_type f) q of
                None \<Rightarrow> (False, q)
              | Some evict \<Rightarrow>
                  let victim_audio_us = frame_us (wq_slots q ! (evict mod wq_capacity q))
                  in (True, (put_frame f (remove_slot evict q))\<lparr>
                        wq_dropped_audio_us := wq_dropped_audio_us q + victim_audio_us,
                        wq_queued_audio_us := wq_queued_audio_us q - victim_audio_us\<rparr>))"
        using \<open>\<not> wq_head q - wq_tail q < wq_capacity q\<close> None t
        by (simp add: worker_push_def first_slot_find_index[OF assms])
      show ?thesis
      proof (cases "victim (wq_contents q) (wf_type f)")
        case None
        with push cv full assms frame_us_not_audio[OF False] show ?thesis
          by (simp add: push_spec_def lost_us_def)
      next
        case (Some i)
        have i: "i < length (wq_contents q)" using victim_less[OF Some ne] .
        with push cv Some slot_contents[OF assms i] evicted_state[OF assms ge i, of f] full frame_us_not_audio[OF False]
        show ?thesis by (simp add: push_spec_def lost_us_def Let_def)
      qed
    qed
  qed
qed

lemma worker_pop_refines:
  assumes "wq_inv q" "wq_contents q = f # fs"
  shows "\<exists>q'. worker_pop q = Some (f, q') \<and> wq_inv q' \<and> wq_contents q' = fs
    \<and> wq_dropped_audio_us q' = wq_dropped_audio_us q \<and> wq_capacity q' = wq_capacity q"
proof -
  obtain n where n: "wq_head q - wq_tail q = Suc n"
    using assms(2) by (cases "wq_head q - wq_tail q") (simp_all add: wq_contents_def)
  have c: "wq_capacity q = length (wq_slots q)" using assms(1) by (simp add: wq_inv_def)
  have fs: "f = wq_slots q ! (wq_tail q mod wq_capacity q)" "fs = ring_slice (wq_slots q) (Suc (wq_tail q)) n"
    using assms(2) n c by (simp_all add: wq_contents_def ring_slice_Suc)
  define q' where "q' = q\<lparr>wq_tail := wq_tail q + 1, wq_queued_audio_us := wq_queued_audio_us q - frame_us f\<rparr>"
  have "wq_head q - Suc (wq_tail q) = n" using n by simp
  then have c': "wq_contents q' = fs" by (simp add: wq_contents_def q'_def fs(2))
  have "wq_queued_audio_us q' = sum_list (map frame_us fs)"
    using assms by (simp add: q'_def wq_inv_def)
  with c' n assms(1) have "wq_inv q'" by (auto simp: wq_inv_def q'_def)
  moreover have "worker_pop q = Some (f, q')" using n fs(1) by (auto simp: worker_pop_def q'_def Let_def)
  ultimately show ?thesis using c' by (simp add: q'_def)
qed

interpretation wq: fifo_source wq_inv wq_contents worker_pop
proof
  show "worker_pop q = None" if "wq_inv q" "wq_contents q = []" for q
  proof -
    have "wq_head q - wq_tail q = 0" using that(2) by (metis length_wq_contents list.size(3))
    then show ?thesis using that(1) by (simp add: worker_pop_def wq_inv_def)
  qed
  show "\<exists>q'. worker_pop q = Some (x, q') \<and> wq_inv q' \<and> wq_contents q' = xs"
    if "wq_inv q" "wq_contents q = x # xs" for q x xs
    using worker_pop_refines[OF that] by blast
qed

section \<open>Properties\<close>

definition mk_frame :: "vw_message_type \<Rightarrow> vw_worker_frame" where
  "mk_frame t = \<lparr>wf_type = msg_code t, wf_payload_len = 0, wf_payload = None\<rparr>"

text \<open>A full queue of three control frames.\<close>

definition sample_wq :: vw_worker_queue where
  "sample_wq = \<lparr>wq_slots = [mk_frame VW_MSG_STATUS, mk_frame VW_MSG_SHUTDOWN, mk_frame VW_MSG_PAUSE],
     wq_capacity = 3, wq_head = 4, wq_tail = 1, wq_dropped_audio_us = 0, wq_queued_audio_us = 0\<rparr>"

lemma sample_wq_facts:
  "wq_contents sample_wq = [mk_frame VW_MSG_SHUTDOWN, mk_frame VW_MSG_PAUSE, mk_frame VW_MSG_STATUS]"
  "wq_inv sample_wq"
proof -
  show c: "wq_contents sample_wq = [mk_frame VW_MSG_SHUTDOWN, mk_frame VW_MSG_PAUSE, mk_frame VW_MSG_STATUS]"
    by (simp add: wq_contents_def sample_wq_def ring_slice_def upt_rec)
  show "wq_inv sample_wq"
    unfolding wq_inv_def c by (simp add: sample_wq_def mk_frame_def vw_worker_queue_frame_audio_duration_us_def)
qed

text \<open>
  Property C30.  A push implements the overflow policy on lists: with room the frame is appended;
  otherwise the oldest audio frame makes room, else (never for an incoming audio frame) the
  control frame that the incoming one supersedes, and the frame is refused when there is
  none.  The duration of whatever audio is lost goes to the drop counter, and the queued
  counter stays the total duration of the queued audio (part of the invariant).
\<close>
theorem vw_worker_queue_push_refines:
  fixes type :: u16 and len :: u32 and payload :: "bytes option"
  assumes "wq_inv q"
  defines "f \<equiv> \<lparr>wf_type = type, wf_payload_len = len, wf_payload = payload\<rparr>"
  shows "\<exists>ok q'. vw_worker_queue_push (Some q) type payload len = (ok, Some q') \<and> wq_inv q'
    \<and> (ok, wq_contents q') = push_spec (wq_capacity q) (wq_contents q) f
    \<and> vw_worker_queue_get_dropped_audio_us (Some q')
        = vw_worker_queue_get_dropped_audio_us (Some q) + lost_us (wq_capacity q) (wq_contents q) f
    \<and> vw_worker_queue_get_queued_audio_us (Some q') = sum_list (map frame_us (wq_contents q'))"
proof -
  obtain ok q' where p: "worker_push q f = (ok, q')" by force
  from worker_push_refines[OF assms(1), of f] p have "wq_inv q'"
    "(ok, wq_contents q') = push_spec (wq_capacity q) (wq_contents q) f"
    "wq_dropped_audio_us q' = wq_dropped_audio_us q + lost_us (wq_capacity q) (wq_contents q) f"
    by simp_all
  then show ?thesis
    using p unfolding vw_worker_queue_push_def f_def [symmetric]
    by (simp add: vw_worker_queue_get_dropped_audio_us_def vw_worker_queue_get_queued_audio_us_def wq_inv_def)
qed

theorem vw_worker_queue_push_refines_witness:
  "wq_inv sample_wq \<and> (\<exists>q'. vw_worker_queue_push (Some sample_wq) (msg_code VW_MSG_STOP_SESSION) None 0 = (True, Some q')
     \<and> wq_contents q' = [mk_frame VW_MSG_SHUTDOWN, mk_frame VW_MSG_STATUS, mk_frame VW_MSG_STOP_SESSION])"
proof -
  let ?fs = "[mk_frame VW_MSG_SHUTDOWN, mk_frame VW_MSG_PAUSE, mk_frame VW_MSG_STATUS]"
  have a: "find_index is_audio ?fs = None"
    by (simp add: find_index_None is_audio_def mk_frame_def)
  have e: "find_index (evictable_by (msg_code VW_MSG_STOP_SESSION)) ?fs = Some 1"
    by (simp add: find_index_Some evictable_by_def mk_frame_def)
  have v: "victim ?fs (msg_code VW_MSG_STOP_SESSION) = Some 1" by (simp add: victim_def a e)
  have "wq_capacity sample_wq = 3" by (simp add: sample_wq_def)
  with vw_worker_queue_push_refines[OF sample_wq_facts(2), of "msg_code VW_MSG_STOP_SESSION" None 0] sample_wq_facts v
  show ?thesis by (auto simp: push_spec_def remove_nth_def mk_frame_def)
qed

lemma filter_remove_nth: "i < length xs \<Longrightarrow> \<not> P (xs ! i) \<Longrightarrow> filter P (remove_nth i xs) = filter P xs"
  by (subst (2) id_take_nth_drop[of i xs]) (simp_all add: remove_nth_def)

lemma victim_not_shutdown:
  "victim fs type = Some i \<Longrightarrow> type \<noteq> msg_code VW_MSG_SHUTDOWN \<Longrightarrow> \<not> is_shutdown (fs ! i)"
  by (auto simp: victim_def find_index_Some is_audio_def is_shutdown_def evictable_by_def
      split: option.splits if_splits)

lemma victim_audio_only:
  "victim fs (msg_code VW_MSG_AUDIO_PCM) = Some i \<Longrightarrow> is_audio (fs ! i)"
  by (auto simp: victim_def find_index_Some split: option.splits)

lemma push_spec_keeps:
  assumes "push_spec cap fs f = (ok, fs')" "0 < cap" "\<not> P f"
    "\<And>i. victim fs (wf_type f) = Some i \<Longrightarrow> \<not> P (fs ! i)"
  shows "filter P fs' = filter P fs"
proof (cases "length fs < cap")
  case True
  with assms show ?thesis by (auto simp: push_spec_def)
next
  case False
  then have "fs \<noteq> []" using assms(2) by auto
  with False assms victim_less[of fs "wf_type f"] show ?thesis
    by (auto simp: push_spec_def filter_remove_nth split: option.splits)
qed

text \<open>
  Property C29.  Control frames are safe: audio never displaces one; a queued SHUTDOWN is only
  displaced by another SHUTDOWN, and an incoming SHUTDOWN is always queued; START and STOP
  are refused only by a queue that holds nothing but SHUTDOWN frames.
\<close>
theorem vw_worker_queue_control_safe:
  assumes "wq_inv q" "vw_worker_queue_push (Some q) type payload len = (ok, Some q')"
  shows "(type = msg_code VW_MSG_AUDIO_PCM \<longrightarrow>
      filter (\<lambda>f. \<not> is_audio f) (wq_contents q') = filter (\<lambda>f. \<not> is_audio f) (wq_contents q))
    \<and> (type \<noteq> msg_code VW_MSG_SHUTDOWN \<longrightarrow>
      filter is_shutdown (wq_contents q') = filter is_shutdown (wq_contents q))
    \<and> (type = msg_code VW_MSG_SHUTDOWN \<longrightarrow> ok \<and> list_ex is_shutdown (wq_contents q'))
    \<and> (is_required type \<longrightarrow> ok \<or> list_all is_shutdown (wq_contents q))"
proof -
  define f where "f = \<lparr>wf_type = type, wf_payload_len = len, wf_payload = payload\<rparr>"
  have p: "worker_push q f = (ok, q')"
    using assms(2) by (auto simp: vw_worker_queue_push_def f_def split: prod.splits)
  with worker_push_refines[OF assms(1), of f]
  have spec: "push_spec (wq_capacity q) (wq_contents q) f = (ok, wq_contents q')" by simp
  have cap: "0 < wq_capacity q" using assms(1) by (simp add: wq_inv_def)
  have t: "wf_type f = type" by (simp add: f_def)
  have "filter (\<lambda>f. \<not> is_audio f) (wq_contents q') = filter (\<lambda>f. \<not> is_audio f) (wq_contents q)"
    if "type = msg_code VW_MSG_AUDIO_PCM"
    using push_spec_keeps[OF spec cap, of "\<lambda>f. \<not> is_audio f"] victim_audio_only that t
    by (simp add: is_audio_def)
  moreover have "filter is_shutdown (wq_contents q') = filter is_shutdown (wq_contents q)"
    if "type \<noteq> msg_code VW_MSG_SHUTDOWN"
    using push_spec_keeps[OF spec cap, of is_shutdown] victim_not_shutdown that t
    by (simp add: is_shutdown_def)
  moreover have "ok \<and> list_ex is_shutdown (wq_contents q')" if "type = msg_code VW_MSG_SHUTDOWN"
  proof -
    have "victim (wq_contents q) type \<noteq> None" using that by (simp add: victim_def split: option.splits)
    moreover have "is_shutdown f" using that t by (simp add: is_shutdown_def)
    moreover from calculation(1) have "\<exists>ys. wq_contents q' = ys @ [f] \<and> ok"
      using spec t by (auto simp: push_spec_def split: if_splits option.splits dest: sym)
    ultimately show ?thesis by auto
  qed
  moreover have "ok \<or> list_all is_shutdown (wq_contents q)" if "is_required type"
  proof -
    have nt: "type \<noteq> msg_code VW_MSG_AUDIO_PCM" "type \<noteq> msg_code VW_MSG_SHUTDOWN"
      using that by (auto simp: is_required_def)
    have "list_all is_shutdown (wq_contents q)" if "victim (wq_contents q) type = None"
      using that nt \<open>is_required type\<close>
      by (auto simp: victim_def find_index_None list_all_iff split: option.splits if_splits)
    then show ?thesis using spec t by (auto simp: push_spec_def split: if_splits option.splits)
  qed
  ultimately show ?thesis by blast
qed

theorem vw_worker_queue_control_safe_witness:
  "\<exists>ok q'. wq_inv sample_wq \<and> vw_worker_queue_push (Some sample_wq) (msg_code VW_MSG_POSITION) None 0 = (ok, Some q')
     \<and> filter is_shutdown (wq_contents q') = [mk_frame VW_MSG_SHUTDOWN]"
proof -
  obtain ok q' where p: "vw_worker_queue_push (Some sample_wq) (msg_code VW_MSG_POSITION) None 0 = (ok, Some q')"
    by (cases "worker_push sample_wq \<lparr>wf_type = msg_code VW_MSG_POSITION, wf_payload_len = 0, wf_payload = None\<rparr>")
      (simp add: vw_worker_queue_push_def)
  have "filter is_shutdown (wq_contents sample_wq) = [mk_frame VW_MSG_SHUTDOWN]"
    by (simp add: sample_wq_facts is_shutdown_def mk_frame_def)
  with vw_worker_queue_control_safe[OF sample_wq_facts(2) p] p sample_wq_facts(2) show ?thesis by auto
qed

section \<open>Conservation of audio\<close>

primrec pushed :: "'a fifo_op list \<Rightarrow> 'a list" where
  "pushed [] = []"
| "pushed (op # ops) = (case op of Push x \<Rightarrow> x # pushed ops | Pop \<Rightarrow> pushed ops)"

lemma push_conserves:
  assumes "wq_inv q"
  shows "wq_queued_audio_us (snd (worker_push q f)) + wq_dropped_audio_us (snd (worker_push q f))
    = wq_queued_audio_us q + wq_dropped_audio_us q + frame_us f"
proof -
  let ?q' = "snd (worker_push q f)" and ?fs = "wq_contents q"
  note r = worker_push_refines[OF assms, of f]
  have sums: "wq_queued_audio_us ?q' = sum_list (map frame_us (snd (push_spec (wq_capacity q) ?fs f)))"
    "wq_queued_audio_us q = sum_list (map frame_us ?fs)"
    using r assms by (auto simp: wq_inv_def dest: arg_cong[where f = snd])
  have ne: "?fs \<noteq> []" if "\<not> length ?fs < wq_capacity q" using that assms by (auto simp: wq_inv_def)
  have "sum_list (map frame_us (snd (push_spec (wq_capacity q) ?fs f))) + lost_us (wq_capacity q) ?fs f
      = sum_list (map frame_us ?fs) + frame_us f"
    using victim_less[of ?fs "wf_type f"] ne
    by (auto simp: push_spec_def lost_us_def sum_remove_nth split: option.splits)
  with r sums show ?thesis by (simp add: algebra_simps)
qed

text \<open>
  Property.  No audio is lost track of: over any sequence of pushes and pops on a fresh queue,
  the duration pushed equals the duration delivered plus the queued and the dropped
  counters (modulo 2^64).
\<close>
theorem vw_worker_queue_conservation:
  assumes "vw_worker_queue_create a b c n = Some q" "fifo_run worker_push worker_pop q ops = (q', acc, del)"
  shows "sum_list (map frame_us (pushed ops)) = sum_list (map frame_us del)
    + vw_worker_queue_get_queued_audio_us (Some q') + vw_worker_queue_get_dropped_audio_us (Some q')"
proof -
  have "sum_list (map frame_us (pushed ops)) + wq_queued_audio_us q + wq_dropped_audio_us q =
      sum_list (map frame_us del) + wq_queued_audio_us q' + wq_dropped_audio_us q'"
    if "wq_inv q" "fifo_run worker_push worker_pop q ops = (q', acc, del)" for q q' acc del ops
    using that
  proof (induction ops arbitrary: q q' acc del)
    case Nil
    then show ?case by simp
  next
    case (Cons op ops)
    show ?case
    proof (cases op)
      case (Push f)
      obtain acc1 where r: "fifo_run worker_push worker_pop (snd (worker_push q f)) ops = (q', acc1, del)"
        using Cons.prems(2) Push by (auto split: prod.splits)
      from worker_push_refines[OF Cons.prems(1), of f] Cons.IH[OF _ r] push_conserves[OF Cons.prems(1), of f] Push
      show ?thesis by (simp add: algebra_simps)
    next
      case Pop
      show ?thesis
      proof (cases "worker_pop q")
        case None
        with Pop Cons show ?thesis by simp
      next
        case (Some r)
        obtain f q1 where r: "worker_pop q = Some (f, q1)" using Some by (cases r) auto
        then obtain del1 where d: "fifo_run worker_push worker_pop q1 ops = (q', acc, del1)" "del = f # del1"
          using Cons.prems(2) Pop by (auto split: prod.splits)
        have "wq_contents q = f # wq_contents q1" "wq_inv q1" using wq.pop_SomeD[OF Cons.prems(1) r] .
        moreover have "wq_queued_audio_us q = wq_queued_audio_us q1 + frame_us f"
          "wq_dropped_audio_us q1 = wq_dropped_audio_us q"
          using r by (auto simp: worker_pop_def Let_def split: if_splits)
        ultimately show ?thesis using Cons.IH[OF _ d(1)] Pop d(2) by (simp add: ac_simps)
      qed
    qed
  qed
  from this[OF _ assms(2)] wq_create_inv[OF assms(1)] show ?thesis
    by (simp add: vw_worker_queue_get_queued_audio_us_def vw_worker_queue_get_dropped_audio_us_def wq_inv_def)
qed

theorem vw_worker_queue_conservation_witness:
  "\<exists>q q' acc del. vw_worker_queue_create True True True 1 = Some q
    \<and> fifo_run worker_push worker_pop q [Push (mk_frame VW_MSG_PAUSE), Pop] = (q', acc, del)
    \<and> sum_list (map frame_us [mk_frame VW_MSG_PAUSE]) = sum_list (map frame_us del)
      + vw_worker_queue_get_queued_audio_us (Some q') + vw_worker_queue_get_dropped_audio_us (Some q')"
proof -
  obtain q where q: "vw_worker_queue_create True True True 1 = Some q" by (simp add: vw_worker_queue_create_def)
  obtain q' acc del where r: "fifo_run worker_push worker_pop q [Push (mk_frame VW_MSG_PAUSE), Pop] = (q', acc, del)"
    by (metis prod_cases3)
  from vw_worker_queue_conservation[OF q r] q r show ?thesis by auto
qed

end
