(* ===== verification/VW_Sha256.thy ===== *)
theory VW_Sha256
  imports VW_Prelude
begin

text \<open>
  \<^verbatim>\<open>worker/src/vw_sha256.c\<close>: the streaming SHA-256 that checks downloaded models.  The first
  part follows the code (buffer, bit counter, in-place padding); the second states the hash
  of FIPS 180-4 on whole messages (schedule and round functions, padding rule, fold over
  blocks) and shows that the code computes it for every way of feeding the message.
\<close>

section \<open>The code\<close>

record vw_sha256_context =
  sc_state :: "u32 list"
  sc_bitlen :: u64
  sc_data :: bytes
  sc_datalen :: nat

definition VW_SHA256_ROTR :: "u32 \<Rightarrow> nat \<Rightarrow> u32" where
  "VW_SHA256_ROTR x n = drop_bit n x OR push_bit (32 - n) x"

text \<open>The table, row by row as the source lays it out.\<close>

definition kVW_SHA256_K :: "u32 list" where
  "kVW_SHA256_K = concat [
    [0x428a2f98, 0x71374491, 0xb5c0fbcf, 0xe9b5dba5, 0x3956c25b, 0x59f111f1, 0x923f82a4, 0xab1c5ed5],
    [0xd807aa98, 0x12835b01, 0x243185be, 0x550c7dc3, 0x72be5d74, 0x80deb1fe, 0x9bdc06a7, 0xc19bf174],
    [0xe49b69c1, 0xefbe4786, 0x0fc19dc6, 0x240ca1cc, 0x2de92c6f, 0x4a7484aa, 0x5cb0a9dc, 0x76f988da],
    [0x983e5152, 0xa831c66d, 0xb00327c8, 0xbf597fc7, 0xc6e00bf3, 0xd5a79147, 0x06ca6351, 0x14292967],
    [0x27b70a85, 0x2e1b2138, 0x4d2c6dfc, 0x53380d13, 0x650a7354, 0x766a0abb, 0x81c2c92e, 0x92722c85],
    [0xa2bfe8a1, 0xa81a664b, 0xc24b8b70, 0xc76c51a3, 0xd192e819, 0xd6990624, 0xf40e3585, 0x106aa070],
    [0x19a4c116, 0x1e376c08, 0x2748774c, 0x34b0bcb5, 0x391c0cb3, 0x4ed8aa4a, 0x5b9cca4f, 0x682e6ff3],
    [0x748f82ee, 0x78a5636f, 0x84c87814, 0x8cc70208, 0x90befffa, 0xa4506ceb, 0xbef9a3f7, 0xc67178f2]]"

definition be_word :: "bytes \<Rightarrow> nat \<Rightarrow> u32" where
  "be_word data i =
     push_bit 24 (ucast (data ! (i * 4))) OR push_bit 16 (ucast (data ! (i * 4 + 1)))
     OR push_bit 8 (ucast (data ! (i * 4 + 2))) OR ucast (data ! (i * 4 + 3))"

text \<open>The two loops that fill \<^verbatim>\<open>w\<close>.\<close>

definition schedule_step :: "u32 list \<Rightarrow> u32 list" where
  "schedule_step w =
     (let i = length w;
          s0 = VW_SHA256_ROTR (w ! (i - 15)) 7 XOR VW_SHA256_ROTR (w ! (i - 15)) 18 XOR drop_bit 3 (w ! (i - 15));
          s1 = VW_SHA256_ROTR (w ! (i - 2)) 17 XOR VW_SHA256_ROTR (w ! (i - 2)) 19 XOR drop_bit 10 (w ! (i - 2))
      in w @ [w ! (i - 16) + s0 + w ! (i - 7) + s1])"

definition schedule :: "bytes \<Rightarrow> u32 list" where
  "schedule data = (schedule_step ^^ 48) (map (be_word data) [0..<16])"

type_synonym sha_vars = "u32 \<times> u32 \<times> u32 \<times> u32 \<times> u32 \<times> u32 \<times> u32 \<times> u32"

fun sha_round :: "u32 \<Rightarrow> u32 \<Rightarrow> sha_vars \<Rightarrow> sha_vars" where
  "sha_round k w (a, b, c, d, e, f, g, h) =
     (let S1 = VW_SHA256_ROTR e 6 XOR VW_SHA256_ROTR e 11 XOR VW_SHA256_ROTR e 25;
          ch = (e AND f) XOR (NOT e AND g);
          temp1 = h + S1 + ch + k + w;
          S0 = VW_SHA256_ROTR a 2 XOR VW_SHA256_ROTR a 13 XOR VW_SHA256_ROTR a 22;
          maj = (a AND b) XOR (a AND c) XOR (b AND c);
          temp2 = S0 + maj
      in (temp1 + temp2, a, b, c, d + temp1, e, f, g))"

definition sha_vars_of :: "u32 list \<Rightarrow> sha_vars" where
  "sha_vars_of s = (s ! 0, s ! 1, s ! 2, s ! 3, s ! 4, s ! 5, s ! 6, s ! 7)"

definition add_vars :: "u32 list \<Rightarrow> sha_vars \<Rightarrow> u32 list" where
  "add_vars s v = (case v of (a, b, c, d, e, f, g, h) \<Rightarrow>
     [s ! 0 + a, s ! 1 + b, s ! 2 + c, s ! 3 + d, s ! 4 + e, s ! 5 + f, s ! 6 + g, s ! 7 + h])"

definition compress :: "u32 list \<Rightarrow> bytes \<Rightarrow> u32 list" where
  "compress s data =
     add_vars s (fold (\<lambda>(k, w) v. sha_round k w v) (zip kVW_SHA256_K (schedule data)) (sha_vars_of s))"

definition vw_sha256_transform :: "vw_sha256_context \<Rightarrow> bytes \<Rightarrow> vw_sha256_context" where
  "vw_sha256_transform ctx data = ctx\<lparr>sc_state := compress (sc_state ctx) data\<rparr>"

definition sha_H0 :: "u32 list" where
  "sha_H0 = [0x6a09e667, 0xbb67ae85, 0x3c6ef372, 0xa54ff53a, 0x510e527f, 0x9b05688c, 0x1f83d9ab, 0x5be0cd19]"

text \<open>\<^verbatim>\<open>init\<close> leaves the buffer \<^verbatim>\<open>data\<close> as it is: in C it is uninitialised memory.\<close>

definition vw_sha256_init :: "vw_sha256_context \<Rightarrow> vw_sha256_context" where
  "vw_sha256_init ctx = ctx\<lparr>sc_datalen := 0, sc_bitlen := 0, sc_state := sha_H0\<rparr>"

definition update_byte :: "u8 \<Rightarrow> vw_sha256_context \<Rightarrow> vw_sha256_context" where
  "update_byte b ctx =
     (let ctx = ctx\<lparr>sc_data := (sc_data ctx)[sc_datalen ctx := b], sc_datalen := sc_datalen ctx + 1\<rparr>
      in if sc_datalen ctx = 64
         then (vw_sha256_transform ctx (sc_data ctx))\<lparr>sc_bitlen := sc_bitlen ctx + 512, sc_datalen := 0\<rparr>
         else ctx)"

definition vw_sha256_update :: "vw_sha256_context \<Rightarrow> bytes \<Rightarrow> vw_sha256_context" where
  "vw_sha256_update ctx data = fold update_byte data ctx"

definition be64 :: "u64 \<Rightarrow> bytes" where
  "be64 v = [ucast (drop_bit 56 v), ucast (drop_bit 48 v), ucast (drop_bit 40 v), ucast (drop_bit 32 v),
     ucast (drop_bit 24 v), ucast (drop_bit 16 v), ucast (drop_bit 8 v), ucast v]"

text \<open>The buffer after \<^verbatim>\<open>data[i++] = 0x80; while (i < n) data[i++] = 0\<close>.\<close>

definition pad_to :: "nat \<Rightarrow> nat \<Rightarrow> bytes \<Rightarrow> bytes" where
  "pad_to n i data = take i data @ [0x80] @ replicate (n - (i + 1)) 0 @ drop (max n (i + 1)) data"

definition digest_bytes :: "u32 list \<Rightarrow> bytes" where
  "digest_bytes s =
     concat (map (\<lambda>x. [ucast (drop_bit 24 x AND 0xFF), ucast (drop_bit 16 x AND 0xFF),
       ucast (drop_bit 8 x AND 0xFF), ucast (x AND 0xFF)]) s)"

definition vw_sha256_final :: "vw_sha256_context \<Rightarrow> bytes" where
  "vw_sha256_final ctx =
     (let i = sc_datalen ctx;
          ctx1 = (if sc_datalen ctx < 56 then ctx\<lparr>sc_data := pad_to 56 i (sc_data ctx)\<rparr>
                  else let c = ctx\<lparr>sc_data := pad_to 64 i (sc_data ctx)\<rparr>;
                           c = vw_sha256_transform c (sc_data c)
                       in c\<lparr>sc_data := replicate 56 0 @ drop 56 (sc_data c)\<rparr>);
          ctx2 = ctx1\<lparr>sc_bitlen := sc_bitlen ctx1 + of_nat (sc_datalen ctx1) * 8\<rparr>;
          ctx3 = ctx2\<lparr>sc_data := take 56 (sc_data ctx2) @ be64 (sc_bitlen ctx2)\<rparr>
      in digest_bytes (sc_state (vw_sha256_transform ctx3 (sc_data ctx3))))"

text \<open>The local \<^verbatim>\<open>ctx\<close> of the one-shot function is uninitialised: any context will do.\<close>

definition vw_sha256 :: "vw_sha256_context \<Rightarrow> bytes \<Rightarrow> bytes" where
  "vw_sha256 ctx data = vw_sha256_final (vw_sha256_update (vw_sha256_init ctx) data)"

definition kHex :: bytes where
  "kHex = [0x30, 0x31, 0x32, 0x33, 0x34, 0x35, 0x36, 0x37, 0x38, 0x39, 0x61, 0x62, 0x63, 0x64, 0x65, 0x66]"

definition vw_sha256_to_hex :: "bytes \<Rightarrow> bytes" where
  "vw_sha256_to_hex hash =
     concat (map (\<lambda>b. [kHex ! unat (drop_bit 4 b AND 0xF), kHex ! unat (b AND 0xF)]) hash) @ [0]"

section \<open>FIPS 180-4\<close>

definition sigma0 :: "u32 \<Rightarrow> u32" where "sigma0 x = word_rotr 7 x XOR word_rotr 18 x XOR drop_bit 3 x"
definition sigma1 :: "u32 \<Rightarrow> u32" where "sigma1 x = word_rotr 17 x XOR word_rotr 19 x XOR drop_bit 10 x"
definition Sigma0 :: "u32 \<Rightarrow> u32" where "Sigma0 x = word_rotr 2 x XOR word_rotr 13 x XOR word_rotr 22 x"
definition Sigma1 :: "u32 \<Rightarrow> u32" where "Sigma1 x = word_rotr 6 x XOR word_rotr 11 x XOR word_rotr 25 x"
definition Ch :: "u32 \<Rightarrow> u32 \<Rightarrow> u32 \<Rightarrow> u32" where "Ch x y z = (x AND y) XOR (NOT x AND z)"
definition Maj :: "u32 \<Rightarrow> u32 \<Rightarrow> u32 \<Rightarrow> u32" where "Maj x y z = (x AND y) XOR (x AND z) XOR (y AND z)"

text \<open>The message schedule by its recurrence; a big-endian word is its value in base 256.\<close>

definition fips_word :: "bytes \<Rightarrow> nat \<Rightarrow> u32" where
  "fips_word M t = of_nat (le_nat (rev (take 4 (drop (4 * t) M))))"

fun fips_W :: "bytes \<Rightarrow> nat \<Rightarrow> u32" where
  "fips_W M t = (if t < 16 then fips_word M t
     else sigma1 (fips_W M (t - 2)) + fips_W M (t - 7) + sigma0 (fips_W M (t - 15)) + fips_W M (t - 16))"

declare fips_W.simps [simp del]

fun fips_round :: "bytes \<Rightarrow> nat \<Rightarrow> sha_vars \<Rightarrow> sha_vars" where
  "fips_round M t (a, b, c, d, e, f, g, h) =
     (let T1 = h + Sigma1 e + Ch e f g + kVW_SHA256_K ! t + fips_W M t;
          T2 = Sigma0 a + Maj a b c
      in (T1 + T2, a, b, c, d + T1, e, f, g))"

definition fips_compress :: "u32 list \<Rightarrow> bytes \<Rightarrow> u32 list" where
  "fips_compress H M = add_vars H (fold (fips_round M) [0..<64] (sha_vars_of H))"

text \<open>Padding: a one bit, the fewest zeros that leave room for the 64-bit length, the length in bits.\<close>

definition fips_pad :: "bytes \<Rightarrow> bytes" where
  "fips_pad m = m @ [0x80] @ replicate ((119 - length m mod 64) mod 64) 0 @ be64 (of_nat (8 * length m))"

definition blocks :: "bytes \<Rightarrow> bytes list" where
  "blocks m = map (\<lambda>i. take 64 (drop (64 * i) m)) [0..<length m div 64]"

definition fips_sha256 :: "bytes \<Rightarrow> bytes" where
  "fips_sha256 m = digest_bytes (foldl fips_compress sha_H0 (blocks (fips_pad m)))"

section \<open>The compression function\<close>

lemma ROTR_word_rotr: "0 < n \<Longrightarrow> n < 32 \<Longrightarrow> VW_SHA256_ROTR x n = word_rotr n x"
proof (rule bit_word_eqI)
  fix i assume n: "0 < n" "n < 32" and "i < LENGTH(32)"
  then have i: "i < 32" by simp
  show "bit (VW_SHA256_ROTR x n) i = bit (word_rotr n x) i"
  proof (cases "i + n < 32")
    case True
    then have "\<not> 32 - n \<le> i" by simp
    with True i n show ?thesis
      by (simp add: VW_SHA256_ROTR_def bit_or_iff bit_drop_bit_eq bit_push_bit_iff bit_word_rotr_iff add.commute)
  next
    case False
    then have m: "(i + n) mod 32 = i - (32 - n)" using i n by (simp add: mod_if)
    have "\<not> bit x (n + i)" using False by (simp add: bit_word.rep_eq)
    moreover have "32 - n \<le> i" using False by simp
    ultimately show ?thesis using False i n m
      by (simp add: VW_SHA256_ROTR_def bit_or_iff bit_drop_bit_eq bit_push_bit_iff bit_word_rotr_iff)
  qed
qed

lemma or_disjoint:
  "(x :: u32) AND y = 0 \<Longrightarrow> x OR y = x + y"
  by (metis disjunctive_add bit_and_iff bit_0_eq bot_apply bot_bool_def)

lemma be_word_sum:
  fixes a b c d :: u8
  shows "push_bit 24 (ucast a :: u32) OR push_bit 16 (ucast b) OR push_bit 8 (ucast c) OR ucast d
    = of_nat (unat d + 256 * (unat c + 256 * (unat b + 256 * unat a)))"
proof -
  have hi: "bit (ucast z :: u32) i \<Longrightarrow> i < 8" for z :: u8 and i
    by (auto simp: bit_ucast_iff dest: bit_imp_le_length)
  have "push_bit 8 (ucast c :: u32) OR ucast d = push_bit 8 (ucast c) + ucast d"
    by (intro or_disjoint bit_eqI) (auto simp: bit_and_iff bit_push_bit_iff dest: hi)
  moreover have "push_bit 16 (ucast b :: u32) OR (push_bit 8 (ucast c) OR ucast d)
      = push_bit 16 (ucast b) + (push_bit 8 (ucast c) OR ucast d)"
    by (intro or_disjoint bit_eqI) (auto simp: bit_and_iff bit_or_iff bit_push_bit_iff dest: hi)
  moreover have "push_bit 24 (ucast a :: u32) OR (push_bit 16 (ucast b) OR (push_bit 8 (ucast c) OR ucast d))
      = push_bit 24 (ucast a) + (push_bit 16 (ucast b) OR (push_bit 8 (ucast c) OR ucast d))"
    by (intro or_disjoint bit_eqI) (auto simp: bit_and_iff bit_or_iff bit_push_bit_iff dest: hi)
  ultimately show ?thesis
    by (simp add: or.assoc push_bit_eq_mult algebra_simps)
qed

lemma be_word_fips:
  assumes "length M = 64" "t < 16"
  shows "be_word M t = fips_word M t"
proof -
  have "take 4 (drop (4 * t) M) = [M ! (t * 4), M ! (t * 4 + 1), M ! (t * 4 + 2), M ! (t * 4 + 3)]"
    using assms by (intro nth_equalityI) (auto simp: less_Suc_eq numeral_eq_Suc mult.commute)
  then show ?thesis
    unfolding be_word_def fips_word_def be_word_sum by simp
qed

lemma schedule_fips:
  assumes "length M = 64"
  shows "(schedule_step ^^ k) (map (be_word M) [0..<16]) = map (fips_W M) [0..<16 + k]"
proof (induction k)
  case 0
  have "be_word M t = fips_W M t" if "t < 16" for t
    using be_word_fips[OF assms that] that by (simp add: fips_W.simps[of M t])
  then show ?case by simp
next
  case (Suc k)
  let ?w = "map (fips_W M) [0..<16 + k]"
  have "schedule_step ?w = ?w @ [fips_W M (16 + k)]"
    unfolding schedule_step_def Let_def
    by (subst fips_W.simps[of M "16 + k"])
      (simp add: sigma0_def sigma1_def ROTR_word_rotr add.commute add.left_commute)
  moreover have "[0..<16 + Suc k] = [0..<16 + k] @ [16 + k]" using upt_Suc_append[of 0 "16 + k"] by simp
  ultimately show ?case using Suc by (simp del: upt_Suc)
qed

lemma fold_zip_nth:
  "length xs = n \<Longrightarrow> length ys = n \<Longrightarrow>
    fold (\<lambda>(x, y) s. f x y s) (zip xs ys) s = fold (\<lambda>i s. f (xs ! i) (ys ! i) s) [0..<n] s"
proof (induction n arbitrary: xs ys)
  case 0
  then show ?case by simp
next
  case (Suc n)
  then obtain xs' x ys' y where "xs = xs' @ [x]" "ys = ys' @ [y]" "length xs' = n" "length ys' = n"
    by (metis length_Suc_conv_rev)
  moreover have "fold (\<lambda>i s. f ((xs' @ [x]) ! i) ((ys' @ [y]) ! i) s) [0..<n] s
      = fold (\<lambda>i s. f (xs' ! i) (ys' ! i) s) [0..<n] s"
    using calculation by (intro fold_cong) (auto simp: nth_append)
  ultimately show ?case using Suc.IH[of xs' ys'] by (simp add: nth_append)
qed

text \<open>The code's transform is the FIPS compression of a block.\<close>

lemma compress_fips:
  assumes "length M = 64"
  shows "compress s M = fips_compress s M"
proof -
  have sch: "schedule M = map (fips_W M) [0..<64]"
    using schedule_fips[OF assms, of 48] by (simp add: schedule_def)
  have k: "length kVW_SHA256_K = 64" by (simp add: kVW_SHA256_K_def)
  have "sha_round (kVW_SHA256_K ! t) (fips_W M t) v = fips_round M t v" for t v
  proof -
    obtain a b c d e f g h where "v = (a, b, c, d, e, f, g, h)" by (cases v) auto
    then show ?thesis by (simp add: Sigma0_def Sigma1_def Ch_def Maj_def ROTR_word_rotr Let_def)
  qed
  moreover have "fold (\<lambda>(k, w) v. sha_round k w v) (zip kVW_SHA256_K (schedule M)) (sha_vars_of s)
      = fold (\<lambda>t v. sha_round (kVW_SHA256_K ! t) (schedule M ! t) v) [0..<64] (sha_vars_of s)"
    by (rule fold_zip_nth) (simp_all add: k sch)
  moreover have "fold (\<lambda>t v. sha_round (kVW_SHA256_K ! t) (schedule M ! t) v) [0..<64] (sha_vars_of s)
      = fold (\<lambda>t v. sha_round (kVW_SHA256_K ! t) (fips_W M t) v) [0..<64] (sha_vars_of s)"
    by (intro fold_cong) (auto simp: sch)
  ultimately show ?thesis by (simp add: compress_def fips_compress_def)
qed

section \<open>Streaming\<close>

text \<open>
  The contract of an incremental hash, and what a client gets from it: the digest does not
  depend on how the message is cut into calls.
\<close>

locale streaming_hash =
  fixes inv :: "bytes \<Rightarrow> 'c \<Rightarrow> bool"
    and init :: 'c
    and update :: "'c \<Rightarrow> bytes \<Rightarrow> 'c"
    and final :: "'c \<Rightarrow> bytes"
    and digest :: "bytes \<Rightarrow> bytes"
  assumes inv_init: "inv [] init"
    and inv_update: "inv m c \<Longrightarrow> inv (m @ d) (update c d)"
    and final_digest: "inv m c \<Longrightarrow> final c = digest m"
begin

lemma chunks_digest: "final (foldl update init ds) = digest (concat ds)"
proof -
  have "inv m c \<Longrightarrow> inv (m @ concat ds) (foldl update c ds)" for m c
    by (induction ds arbitrary: m c) (use inv_update in fastforce)+
  from this[OF inv_init] show ?thesis by (simp add: final_digest)
qed

end

definition sha_inv :: "bytes \<Rightarrow> vw_sha256_context \<Rightarrow> bool" where
  "sha_inv m ctx \<longleftrightarrow> length (sc_data ctx) = 64 \<and> sc_datalen ctx = length m mod 64
     \<and> sc_state ctx = foldl fips_compress sha_H0 (blocks m)
     \<and> take (sc_datalen ctx) (sc_data ctx) = drop (64 * (length m div 64)) m
     \<and> sc_bitlen ctx = of_nat (512 * (length m div 64))"

lemma blocks_append_block:
  assumes "length m = 64 * k" "length b = 64"
  shows "blocks (m @ b) = blocks m @ [b]"
proof -
  have "blocks (m @ b) = map (\<lambda>i. take 64 (drop (64 * i) (m @ b))) ([0..<k] @ [k])"
    using assms by (simp add: blocks_def)
  moreover have "map (\<lambda>i. take 64 (drop (64 * i) (m @ b))) [0..<k] = blocks m"
    using assms by (auto simp: blocks_def)
  ultimately show ?thesis using assms by simp
qed

lemma blocks_partial:
  assumes "length r < 64" "length m = 64 * k"
  shows "blocks (m @ r) = blocks m"
proof -
  have "(64 * k + length r) div 64 = k" using assms(1) by simp
  then show ?thesis using assms by (auto simp: blocks_def)
qed

lemma sha_inv_byte:
  assumes "sha_inv m ctx"
  shows "sha_inv (m @ [b]) (update_byte b ctx)"
proof -
  define k where "k = length m div 64"
  define r where "r = drop (64 * k) m"
  define p where "p = take (64 * k) m"
  have lr: "length r = length m mod 64" by (simp add: r_def k_def minus_mult_div_eq_mod)
  have lr64: "length r < 64" unfolding lr by simp
  have m: "m = p @ r" by (simp add: p_def r_def)
  have lp: "length p = 64 * k" by (simp add: p_def k_def)
  have i: "length (sc_data ctx) = 64" "sc_datalen ctx = length r" "take (length r) (sc_data ctx) = r"
    "sc_state ctx = foldl fips_compress sha_H0 (blocks p)" "sc_bitlen ctx = of_nat (512 * k)"
  proof -
    have "blocks m = blocks p" using blocks_partial[OF lr64 lp] m by simp
    then show "length (sc_data ctx) = 64" "sc_datalen ctx = length r" "take (length r) (sc_data ctx) = r"
        "sc_state ctx = foldl fips_compress sha_H0 (blocks p)" "sc_bitlen ctx = of_nat (512 * k)"
      using assms unfolding sha_inv_def k_def [symmetric] r_def [symmetric] lr [symmetric] by auto
  qed
  let ?d = "(sc_data ctx)[length r := b]"
  have d: "take (Suc (length r)) ?d = r @ [b]"
    using i lr64 by (simp add: take_Suc_conv_app_nth)
  have lm: "length (m @ [b]) = 64 * k + Suc (length r)" using lp m by simp
  show ?thesis
  proof (cases "Suc (length r) = 64")
    case True
    then have dd: "?d = r @ [b]" using d i(1) by simp
    have l: "length (m @ [b]) div 64 = Suc k" "length (m @ [b]) mod 64 = 0"
      unfolding lm True by simp_all
    have "update_byte b ctx = ctx\<lparr>sc_data := ?d, sc_datalen := 0, sc_bitlen := sc_bitlen ctx + 512,
        sc_state := compress (sc_state ctx) ?d\<rparr>"
      using True i(2) by (simp add: update_byte_def Let_def vw_sha256_transform_def)
    moreover have "blocks (m @ [b]) = blocks p @ [r @ [b]]"
      using blocks_append_block[OF lp, of "r @ [b]"] True m by simp
    moreover have "compress s ?d = fips_compress s ?d" for s
      using compress_fips i(1) by simp
    moreover have "drop (64 * Suc k) (m @ [b]) = []" using lm True by simp
    moreover have "length (r @ [b]) = 64" using True by simp
    ultimately show ?thesis
      using i l by (simp add: sha_inv_def dd del: length_append drop_append)
  next
    case False
    then have lt: "Suc (length r) < 64" using lr64 by simp
    then have l: "length (m @ [b]) div 64 = k" "length (m @ [b]) mod 64 = Suc (length r)"
      unfolding lm by simp_all
    have "update_byte b ctx = ctx\<lparr>sc_data := ?d, sc_datalen := Suc (length r)\<rparr>"
      using False i(2) by (simp add: update_byte_def Let_def)
    moreover have "blocks (m @ [b]) = blocks p"
      using blocks_partial[OF _ lp, of "r @ [b]"] lt m by simp
    moreover have "drop (64 * k) (m @ [b]) = r @ [b]" using m lp by simp
    ultimately show ?thesis
      using i l d by (simp add: sha_inv_def del: length_append)
  qed
qed

lemma length_be64 [simp]: "length (be64 v) = 8"
  by (simp add: be64_def)

lemma sha_final_fips:
  assumes "sha_inv m ctx"
  shows "vw_sha256_final ctx = fips_sha256 m"
proof -
  define k where "k = length m div 64"
  define r where "r = drop (64 * k) m"
  define p where "p = take (64 * k) m"
  define n where "n = length r"
  have nm: "n = length m mod 64" by (simp add: n_def r_def k_def minus_mult_div_eq_mod)
  have n64: "n < 64" unfolding nm by simp
  have m: "m = p @ r" by (simp add: p_def r_def)
  have lp: "length p = 64 * k" by (simp add: p_def k_def)
  have "blocks m = blocks p" using blocks_partial[OF _ lp, of r] n64 m by (simp add: n_def)
  then have i: "length (sc_data ctx) = 64" "sc_datalen ctx = n" "take n (sc_data ctx) = r"
      "sc_state ctx = foldl fips_compress sha_H0 (blocks p)" "sc_bitlen ctx = of_nat (512 * k)"
    using assms unfolding sha_inv_def k_def [symmetric] r_def [symmetric] nm [symmetric] by auto
  define L where "L = be64 (of_nat (8 * length m))"
  have lL: "length L = 8" by (simp add: L_def)
  have "8 * length m = 512 * k + n * 8" using m lp by (simp add: n_def)
  then have L: "be64 (sc_bitlen ctx + of_nat n * 8) = L" unfolding L_def i(5) by simp
  have pad: "fips_pad m = p @ r @ [0x80] @ replicate ((119 - n) mod 64) 0 @ L"
    unfolding fips_pad_def nm [symmetric] L_def [symmetric] using m by simp
  show ?thesis
  proof (cases "n < 56")
    case True
    let ?b = "r @ [0x80] @ replicate (55 - n) 0 @ L"
    have "(119 - n) mod 64 = 55 - n" using True by (simp add: mod_if)
    then have "fips_pad m = p @ ?b" unfolding pad by simp
    moreover have lb: "length ?b = 64" using True lL by (simp add: n_def)
    ultimately have f: "blocks (fips_pad m) = blocks p @ [?b]" using blocks_append_block[OF lp] by simp
    have "take 56 (pad_to 56 n (sc_data ctx)) @ L = ?b"
    proof -
      have "pad_to 56 n (sc_data ctx) = (r @ [0x80] @ replicate (55 - n) 0) @ drop 56 (sc_data ctx)"
      proof -
        have "max 56 (n + 1) = 56" using True by simp
        then show ?thesis unfolding pad_to_def i(3) by simp
      qed
      moreover have "length (r @ [0x80] @ replicate (55 - n) (0 :: u8)) = 56" using True by (simp add: n_def)
      ultimately have "take 56 (pad_to 56 n (sc_data ctx)) = r @ [0x80] @ replicate (55 - n) 0"
        by (metis append_eq_conv_conj)
      then show ?thesis by simp
    qed
    then have "vw_sha256_final ctx = digest_bytes (compress (sc_state ctx) ?b)"
      using True i(2) L by (simp add: vw_sha256_final_def Let_def vw_sha256_transform_def)
    then show ?thesis unfolding fips_sha256_def f using compress_fips[OF lb] i(4) by simp
  next
    case False
    let ?b1 = "r @ [0x80] @ replicate (63 - n) 0" and ?b2 = "replicate 56 0 @ L"
    have "(119 - n) mod 64 = (63 - n) + 56" using False n64 by (simp add: mod_if)
    then have "fips_pad m = p @ ?b1 @ ?b2"
      unfolding pad by (simp only: replicate_add append_assoc)
    moreover have lb1: "length ?b1 = 64" using n64 by (simp add: n_def)
    moreover have lb2: "length ?b2 = 64" using lL by simp
    moreover have "length (p @ ?b1) = 64 * Suc k" using lp lb1 by simp
    ultimately have f: "blocks (fips_pad m) = blocks p @ [?b1, ?b2]"
      using blocks_append_block[OF lp lb1] blocks_append_block[of "p @ ?b1" "Suc k" ?b2] by simp
    have "pad_to 64 n (sc_data ctx) = ?b1" using n64 i(1,3) by (simp add: pad_to_def)
    then have "vw_sha256_final ctx = digest_bytes (compress (compress (sc_state ctx) ?b1) ?b2)"
      using False i(2) L lb1 by (simp add: vw_sha256_final_def Let_def vw_sha256_transform_def)
    then show ?thesis unfolding fips_sha256_def f using compress_fips[OF lb1] compress_fips[OF lb2] i(4) by simp
  qed
qed

lemma sha_inv_init: "length (sc_data ctx) = 64 \<Longrightarrow> sha_inv [] (vw_sha256_init ctx)"
  by (simp add: sha_inv_def vw_sha256_init_def blocks_def)

lemma sha_inv_update: "sha_inv m ctx \<Longrightarrow> sha_inv (m @ d) (vw_sha256_update ctx d)"
  unfolding vw_sha256_update_def
proof (induction d arbitrary: m ctx)
  case Nil
  then show ?case by simp
next
  case (Cons b d)
  from Cons.IH[OF sha_inv_byte[OF Cons.prems, of b]] show ?case by simp
qed

definition zero_ctx :: vw_sha256_context where
  "zero_ctx = \<lparr>sc_state = replicate 8 0, sc_bitlen = 0, sc_data = replicate 64 0, sc_datalen = 0\<rparr>"

interpretation sha: streaming_hash sha_inv "vw_sha256_init zero_ctx" vw_sha256_update vw_sha256_final fips_sha256
  by unfold_locales (use sha_inv_init[of zero_ctx] sha_inv_update sha_final_fips in \<open>auto simp: zero_ctx_def\<close>)



text \<open>
  Property.  Streaming is independent of the cuts: feeding a file in any sequence of chunks
  gives the digest of the whole file.
\<close>
theorem vw_sha256_streaming:
  "vw_sha256_final (foldl vw_sha256_update (vw_sha256_init zero_ctx) ds) = fips_sha256 (concat ds)"
  by (rule sha.chunks_digest)

section \<open>Hexadecimal\<close>

definition hex_val :: "u8 \<Rightarrow> nat" where
  "hex_val c = length (takeWhile (\<lambda>x. x \<noteq> c) kHex)"

fun of_hex :: "bytes \<Rightarrow> bytes" where
  "of_hex (a # b # cs) = of_nat (16 * hex_val a + hex_val b) # of_hex cs"
| "of_hex _ = []"

lemma hex_val_kHex: "n < 16 \<Longrightarrow> hex_val (kHex ! n) = n"
proof -
  have "\<forall>n \<in> set [0..<16]. hex_val (kHex ! n) = n" by code_simp
  then show "n < 16 \<Longrightarrow> hex_val (kHex ! n) = n" by simp
qed

lemma unat_low_nibble: "unat ((b :: u8) AND 0xF) = unat b mod 16"
proof -
  have "b AND 0xF = take_bit 4 b" by (simp add: take_bit_eq_mask mask_eq_exp_minus_1)
  then show ?thesis by (simp only: unsigned_take_bit_eq) (simp add: take_bit_eq_mod)
qed

text \<open>
  Property.  The hexadecimal text of a digest is 64 digits and a NUL, and determines the
  digest: decoding it gives the 32 bytes back.
\<close>
theorem vw_sha256_to_hex_roundtrip:
  "length (vw_sha256_to_hex hash) = 2 * length hash + 1 \<and> of_hex (vw_sha256_to_hex hash) = hash"
proof (induction hash)
  case Nil
  then show ?case by (simp add: vw_sha256_to_hex_def)
next
  case (Cons b bs)
  have hi: "unat (drop_bit 4 b AND 0xF) = unat b div 16"
  proof -
    have "unat b div 16 < 16" by (simp add: less_mult_imp_div_less)
    then show ?thesis by (simp only: unat_low_nibble unat_drop_bit_eq) (simp add: drop_bit_eq_div)
  qed
  have "unat b div 16 < 16" by (simp add: less_mult_imp_div_less)
  then have "16 * hex_val (kHex ! unat (drop_bit 4 b AND 0xF)) + hex_val (kHex ! unat (b AND 0xF)) = unat b"
    unfolding hi by (simp add: unat_low_nibble hex_val_kHex)
  then show ?case using Cons by (simp add: vw_sha256_to_hex_def)
qed

end
