(* ===== verification/VW_Hallucination.thy ===== *)
theory VW_Hallucination
  imports VW_Prelude
begin

text \<open>
  \<^verbatim>\<open>worker/src/vw_hallucination_filter.c\<close>: the textual filter that suppresses captions without
  speech.  Texts are the bytes before the terminating NUL; \<^verbatim>\<open>isspace\<close> and \<^verbatim>\<open>tolower\<close> are those
  of the C locale.
\<close>

section \<open>The code\<close>

definition is_alnum_ascii :: "u8 \<Rightarrow> bool" where
  "is_alnum_ascii c \<longleftrightarrow> (0x61 \<le> c \<and> c \<le> 0x7A) \<or> (0x41 \<le> c \<and> c \<le> 0x5A) \<or> (0x30 \<le> c \<and> c \<le> 0x39)"

fun punct_loop :: "bytes \<Rightarrow> bool" where
  "punct_loop [] = True"
| "punct_loop (c # cs) = (if is_alnum_ascii c then False else if c \<ge> 0x80 then False else punct_loop cs)"

definition vw_hallucination_is_isolated_punctuation :: "bytes option \<Rightarrow> bool" where
  "vw_hallucination_is_isolated_punctuation text =
     (case text of None \<Rightarrow> True | Some s \<Rightarrow> if s = [] then True else punct_loop s)"

fun case_equals :: "bytes \<Rightarrow> bytes \<Rightarrow> bool" where
  "case_equals (a # s1) (b # s2) = (if tolower a \<noteq> tolower b then False else case_equals s1 s2)"
| "case_equals s1 s2 = (s1 = [] \<and> s2 = [])"

definition is_filler :: "u8 \<Rightarrow> bool" where
  "is_filler c \<longleftrightarrow> isspace c \<or> c = 0x5B \<or> c = 0x5D \<or> c = 0x28 \<or> c = 0x29 \<or> c = 0x2D \<or> c = 0x2A \<or> c = 0x7E"

definition is_note :: "bytes \<Rightarrow> bool" where
  "is_note t \<longleftrightarrow> length t = 3 \<and> t ! 0 = 0xE2 \<and> t ! 1 = 0x99 \<and> 0xA9 \<le> t ! 2 \<and> t ! 2 \<le> 0xAC"

function notes_loop :: "bytes \<Rightarrow> bool \<Rightarrow> bool" where
  "notes_loop p has_note =
     (case p of
        [] \<Rightarrow> has_note
      | c # cs \<Rightarrow>
          if is_filler c then notes_loop cs has_note
          else if is_note (take 3 p) then notes_loop (drop 3 p) True
          else False)"
  by pat_completeness auto
termination
  by (relation "measure (\<lambda>(p, _). length p)") auto

declare notes_loop.simps [simp del]

definition is_only_musical_notes :: "bytes \<Rightarrow> bool" where
  "is_only_musical_notes s = (if s = [] then False else notes_loop s False)"

definition k_inner_tags :: "bytes list" where
  "k_inner_tags = map ascii
     [''music'', ''applause'', ''laughter'', ''silence'', ''cheering'', ''screaming'', ''gasp'',
      ''sigh'', ''coughing'', ''sneezing'', ''blank_audio'', ''snicker'', ''groan'', ''yawn'',
      ''pant'', ''whispering'', ''applause cheering'', ''music playing'']"

definition strip_with :: "(u8 \<Rightarrow> bool) \<Rightarrow> bytes \<Rightarrow> bytes" where
  "strip_with P s = rev (dropWhile P (rev (dropWhile P s)))"

definition is_bracket_pair :: "u8 \<Rightarrow> u8 \<Rightarrow> bool" where
  "is_bracket_pair opening closing \<longleftrightarrow>
     (opening = 0x5B \<and> closing = 0x5D) \<or> (opening = 0x28 \<and> closing = 0x29) \<or> (opening = 0x2A \<and> closing = 0x2A)"

text \<open>
  A one-byte text has both brackets at the same place; there \<^verbatim>\<open>inner_len\<close> is \<^verbatim>\<open>(size_t)-1\<close>
  and fails the length test.
\<close>

definition vw_hallucination_is_non_speech_tag :: "bytes option \<Rightarrow> bool" where
  "vw_hallucination_is_non_speech_tag text =
     (case text of
        None \<Rightarrow> True
      | Some s \<Rightarrow>
          if s = [] then True
          else if dropWhile isspace s = [] then True
          else
            let trimmed = strip_with isspace s; len = length trimmed in
            if len > 128 then False
            else if is_only_musical_notes trimmed then True
            else if is_bracket_pair (hd trimmed) (last trimmed) \<and> len \<noteq> 1 then
              let inner = strip_with isspace (butlast (tl trimmed)) in
              length inner > 0 \<and> length inner \<le> 64 \<and> list_ex (\<lambda>tag. case_equals inner tag) k_inner_tags
            else False)"

definition vw_hallucination_is_phantom_text :: "bytes option \<Rightarrow> bool" where
  "vw_hallucination_is_phantom_text text =
     (case text of
        None \<Rightarrow> True
      | Some s \<Rightarrow>
          if s = [] then True
          else if vw_hallucination_is_isolated_punctuation text then True
          else if vw_hallucination_is_non_speech_tag text then True
          else False)"

section \<open>What is suppressed\<close>

text \<open>
  A text of notes is a sequence of fillers and of the three-byte note characters U+2669 to
  U+266C with at least one note; a sound tag is one of the listed words, in any case,
  padded by white space inside a pair of brackets.
\<close>

definition note_text :: "bytes \<Rightarrow> bool" where
  "note_text s \<longleftrightarrow> (\<exists>toks. s = concat toks \<and> list_ex is_note toks
     \<and> list_all (\<lambda>t. is_note t \<or> (\<exists>c. t = [c] \<and> is_filler c)) toks)"

definition sound_tag :: "bytes \<Rightarrow> bool" where
  "sound_tag s \<longleftrightarrow> (\<exists>a w1 t w2 b. s = a # w1 @ t @ w2 @ [b] \<and> is_bracket_pair a b
     \<and> list_all isspace w1 \<and> list_all isspace w2 \<and> map tolower t \<in> set k_inner_tags)"

lemma punct_loop_iff: "punct_loop s \<longleftrightarrow> list_all (\<lambda>c. \<not> is_alnum_ascii c \<and> c < 0x80) s"
  by (induction s) (auto simp: not_le)

lemma case_equals_iff: "case_equals a b \<longleftrightarrow> map tolower a = map tolower b"
  by (induction a b rule: case_equals.induct) auto

lemma is_note_hd: "is_note (c # cs) \<Longrightarrow> c = 0xE2"
  by (simp add: is_note_def)

lemma is_filler_not_note: "is_filler c \<Longrightarrow> c \<noteq> 0xE2"
  by (auto simp: is_filler_def isspace_def)

lemma notes_loop_iff:
  "notes_loop s h \<longleftrightarrow> (\<exists>toks. s = concat toks \<and> (h \<or> list_ex is_note toks)
     \<and> list_all (\<lambda>t. is_note t \<or> (\<exists>c. t = [c] \<and> is_filler c)) toks)"
  (is "_ \<longleftrightarrow> (\<exists>toks. ?T s h toks)")
proof (induction s h rule: notes_loop.induct)
  case (1 s h)
  have nil: "toks = []" if "?T [] h toks" for toks
  proof (cases toks)
    case (Cons t ts)
    with that show ?thesis by (auto simp: is_note_def)
  qed simp
  show ?case
  proof (cases s)
    case Nil
    have "(\<exists>toks. ?T [] h toks) \<longleftrightarrow> h"
    proof
      assume "\<exists>toks. ?T [] h toks"
      then obtain toks where t: "?T [] h toks" by blast
      with nil[OF t] show h by simp
    next
      assume h
      then show "\<exists>toks. ?T [] h toks" by (intro exI[of _ "[]"]) simp
    qed
    with Nil show ?thesis by (simp add: notes_loop.simps)
  next
    case (Cons c cs)
    show ?thesis
    proof (cases "is_filler c")
      case True
      have "notes_loop s h = notes_loop cs h" unfolding Cons by (subst notes_loop.simps) (simp add: True)
      also have "\<dots> \<longleftrightarrow> (\<exists>toks. ?T cs h toks)" using "1.IH"(1)[OF Cons True] .
      also have "\<dots> \<longleftrightarrow> (\<exists>toks. ?T s h toks)"
      proof
        assume "\<exists>toks. ?T cs h toks"
        then obtain toks where "?T cs h toks" by blast
        with Cons True show "\<exists>toks. ?T s h toks" by (intro exI[of _ "[c] # toks"]) auto
      next
        assume "\<exists>toks. ?T s h toks"
        then obtain toks where t: "?T s h toks" by blast
        then obtain t ts where ts: "toks = t # ts" using Cons by (cases toks) auto
        have "\<not> is_note t"
        proof
          assume "is_note t"
          moreover from this obtain d ds where "t = d # ds" by (cases t) (auto simp: is_note_def)
          ultimately show False using t ts Cons is_note_hd is_filler_not_note[OF True] by auto
        qed
        with t ts Cons show "\<exists>toks. ?T cs h toks" by (intro exI[of _ ts]) auto
      qed
      finally show ?thesis .
    next
      case False
      show ?thesis
      proof (cases "is_note (take 3 s)")
        case True
        have "notes_loop s h = notes_loop (drop 3 s) True" using False True unfolding Cons by (subst notes_loop.simps) simp
        also have "\<dots> \<longleftrightarrow> (\<exists>toks. ?T (drop 3 s) True toks)" using "1.IH"(2)[OF Cons False] True Cons by simp
        also have "\<dots> \<longleftrightarrow> (\<exists>toks. ?T s h toks)"
        proof
          assume "\<exists>toks. ?T (drop 3 s) True toks"
          then obtain toks where t: "?T (drop 3 s) True toks" by blast
          then have "s = concat (take 3 s # toks)" by (metis append_take_drop_id concat.simps(2))
          moreover have "list_ex is_note (take 3 s # toks)" using True by simp
          moreover have "list_all (\<lambda>t. is_note t \<or> (\<exists>c. t = [c] \<and> is_filler c)) (take 3 s # toks)"
            using True t by simp
          ultimately show "\<exists>toks. ?T s h toks" by blast
        next
          assume "\<exists>toks. ?T s h toks"
          then obtain toks where t: "?T s h toks" by blast
          then obtain t ts where ts: "toks = t # ts" using Cons by (cases toks) auto
          have "is_note t" using t ts Cons False by auto
          then have "length t = 3" by (simp add: is_note_def)
          then have "drop 3 s = concat ts" using t ts by simp
          with t ts show "\<exists>toks. ?T (drop 3 s) True toks" by (intro exI[of _ ts]) auto
        qed
        finally show ?thesis .
      next
        case no_note: False
        have "\<not> ?T s h toks" for toks
        proof
          assume t: "?T s h toks"
          then obtain t ts where ts: "toks = t # ts" using Cons by (cases toks) auto
          have "is_note t" using t ts Cons False by auto
          then have "take 3 s = t" using t ts by (simp add: is_note_def)
          with \<open>is_note t\<close> no_note show False by simp
        qed
        moreover have "\<not> notes_loop s h" using False no_note unfolding Cons by (subst notes_loop.simps) simp
        ultimately show ?thesis by blast
      qed
    qed
  qed
qed

lemma is_only_musical_notes_iff: "is_only_musical_notes s \<longleftrightarrow> note_text s"
proof -
  have "s \<noteq> []" if "note_text s"
    using that by (force simp: note_text_def list_ex_iff is_note_def)
  then show ?thesis
    unfolding is_only_musical_notes_def notes_loop_iff by (auto simp: note_text_def [symmetric])
qed

lemma strip_with_decompose:
  "\<exists>u v. s = u @ strip_with P s @ v \<and> list_all P u \<and> list_all P v"
proof -
  let ?d = "dropWhile P s"
  have "?d = rev (takeWhile P (rev ?d) @ dropWhile P (rev ?d))" by simp
  then have "?d = strip_with P s @ rev (takeWhile P (rev ?d))" unfolding strip_with_def by (metis rev_append)
  then have "s = takeWhile P s @ strip_with P s @ rev (takeWhile P (rev ?d))" by (metis takeWhile_dropWhile_id)
  moreover have "list_all P (takeWhile P xs)" for xs by (auto simp: list_all_iff dest: set_takeWhileD)
  ultimately show ?thesis by (metis list_all_rev)
qed

lemma strip_with_pad:
  assumes "list_all P u" "list_all P v" "t \<noteq> []" "\<not> P (hd t)" "\<not> P (last t)"
  shows "strip_with P (u @ t @ v) = t"
proof -
  have "dropWhile P (u @ t @ v) = t @ v"
    using assms by (cases t) (auto simp: list_all_iff dropWhile_append)
  moreover have "dropWhile P (rev (t @ v)) = rev t"
    using assms by (cases t rule: rev_cases) (auto simp: list_all_iff dropWhile_append)
  ultimately show ?thesis by (simp add: strip_with_def)
qed

lemma k_inner_tags_shape:
  assumes "t \<in> set k_inner_tags"
  shows "t \<noteq> []" "length t \<le> 17" "\<not> isspace (hd t)" "\<not> isspace (last t)" "map tolower t = t"
proof -
  have "list_all (\<lambda>t. t \<noteq> [] \<and> length t \<le> 17 \<and> \<not> isspace (hd t) \<and> \<not> isspace (last t) \<and> map tolower t = t) k_inner_tags"
    by code_simp
  with assms show "t \<noteq> []" "length t \<le> 17" "\<not> isspace (hd t)" "\<not> isspace (last t)" "map tolower t = t"
    by (auto simp: list_all_iff)
qed

lemma isspace_tolower: "isspace (tolower c) \<longleftrightarrow> isspace c"
proof (cases "0x41 \<le> c \<and> c \<le> 0x5A")
  case True
  then have "unat c \<ge> 65" "unat c \<le> 90" by (simp_all add: word_le_nat_alt)
  then have "unat (c + 0x20) = unat c + 32" by (simp add: unat_word_ariths)
  with True show ?thesis
    by (auto simp: isspace_def tolower_def word_le_nat_alt word_unat_eq_iff)
next
  case False
  then have "tolower c = c" unfolding tolower_def by (rule if_not_P)
  then show ?thesis by simp
qed

lemma bracket_inner_iff:
  assumes "is_bracket_pair (hd s) (last s)" "s \<noteq> []" "length s \<noteq> 1"
  shows "(let inner = strip_with isspace (butlast (tl s)) in
      length inner > 0 \<and> length inner \<le> 64 \<and> list_ex (\<lambda>tag. case_equals inner tag) k_inner_tags) \<longleftrightarrow> sound_tag s"
proof -
  let ?in = "strip_with isspace (butlast (tl s))"
  obtain x y ys where "s = x # y # ys" using assms(2,3) by (cases s; cases "tl s") auto
  then have s: "s = hd s # butlast (tl s) @ [last s]" by simp
  have eq: "length ?in > 0 \<and> length ?in \<le> 64 \<and> list_ex (\<lambda>tag. case_equals ?in tag) k_inner_tags \<longleftrightarrow>
      map tolower ?in \<in> set k_inner_tags"
  proof -
    have "list_ex (\<lambda>tag. case_equals ?in tag) k_inner_tags \<longleftrightarrow> map tolower ?in \<in> set k_inner_tags"
      using k_inner_tags_shape(5) by (auto simp: list_ex_iff case_equals_iff)
    moreover have "length ?in > 0 \<and> length ?in \<le> 64" if "map tolower ?in \<in> set k_inner_tags"
      using k_inner_tags_shape(1,2)[OF that] by auto
    ultimately show ?thesis by blast
  qed
  have "map tolower ?in \<in> set k_inner_tags \<longleftrightarrow> sound_tag s"
  proof
    assume a: "map tolower ?in \<in> set k_inner_tags"
    obtain u v where uv: "butlast (tl s) = u @ ?in @ v" "list_all isspace u" "list_all isspace v"
      using strip_with_decompose by blast
    have "s = hd s # u @ ?in @ v @ [last s]" using s uv(1) by (metis append_assoc)
    with a uv(2,3) assms(1) show "sound_tag s" unfolding sound_tag_def by blast
  next
    assume "sound_tag s"
    then obtain a w1 t w2 b where t: "s = a # w1 @ t @ w2 @ [b]" "list_all isspace w1" "list_all isspace w2"
      "map tolower t \<in> set k_inner_tags" unfolding sound_tag_def by blast
    have ne: "t \<noteq> []" using k_inner_tags_shape(1)[OF t(4)] by auto
    have "\<not> isspace (hd t)" "\<not> isspace (last t)"
      using k_inner_tags_shape(3,4)[OF t(4)] ne by (simp_all add: hd_map last_map isspace_tolower)
    moreover have "butlast (tl s) = w1 @ t @ w2" using t(1) by (simp add: butlast_append)
    ultimately have "?in = t" using strip_with_pad[OF t(2,3) ne] by simp
    with t(4) show "map tolower ?in \<in> set k_inner_tags" by simp
  qed
  with eq show ?thesis by (simp add: Let_def)
qed

text \<open>
  Property.  A candidate caption is suppressed exactly when it has no ASCII letter or digit and
  no byte outside ASCII, or when, without the surrounding white space, it is at most 128
  bytes long and is either a sequence of musical notes or a bracketed sound descriptor.
  Every other text, speech in particular, passes.
\<close>
theorem vw_hallucination_is_phantom_text_correct:
  "vw_hallucination_is_phantom_text (Some s) \<longleftrightarrow>
     list_all (\<lambda>c. \<not> is_alnum_ascii c \<and> c < 0x80) s
     \<or> length (strip_with isspace s) \<le> 128
       \<and> (note_text (strip_with isspace s) \<or> sound_tag (strip_with isspace s))"
proof (cases "dropWhile isspace s = []")
  case True
  then have "list_all isspace s" by (simp add: list_all_iff dropWhile_eq_Nil_conv)
  then have "list_all (\<lambda>c. \<not> is_alnum_ascii c \<and> c < 0x80) s"
    by (auto simp: list_all_iff isspace_def is_alnum_ascii_def word_le_nat_alt word_less_nat_alt)
  then show ?thesis
    by (simp add: vw_hallucination_is_phantom_text_def vw_hallucination_is_isolated_punctuation_def punct_loop_iff)
next
  case False
  let ?t = "strip_with isspace s"
  have ne: "?t \<noteq> []"
  proof
    assume "?t = []"
    then have "\<forall>x \<in> set (dropWhile isspace s). isspace x"
      unfolding strip_with_def by (metis Nil_is_rev_conv dropWhile_eq_Nil_conv set_rev)
    with hd_dropWhile[OF False] hd_in_set[OF False] show False by blast
  qed
  have one: "\<not> sound_tag ?t" if "length ?t = 1" using that by (auto simp: sound_tag_def)
  have "is_bracket_pair (hd ?t) (last ?t)" if "sound_tag ?t" using that by (auto simp: sound_tag_def)
  then have tag: "vw_hallucination_is_non_speech_tag (Some s) \<longleftrightarrow> length ?t \<le> 128 \<and> (note_text ?t \<or> sound_tag ?t)"
    using False ne one bracket_inner_iff[of ?t] unfolding vw_hallucination_is_non_speech_tag_def Let_def
    by (auto simp: is_only_musical_notes_iff)
  show ?thesis
    using tag by (simp add: vw_hallucination_is_phantom_text_def vw_hallucination_is_isolated_punctuation_def punct_loop_iff)
qed

end
