(* ===== verification/VW_Segment_Builder.thy ===== *)
theory VW_Segment_Builder
  imports VW_Types VW_Util VW_Hallucination
begin

text \<open>
  \<^verbatim>\<open>worker/src/vw_segment_builder.c\<close>: turns phrase hypotheses of overlapping recognition windows
  into final, non-repeating caption cues.  Texts are the bytes before the NUL.  Every
  \<^verbatim>\<open>malloc\<close> and \<^verbatim>\<open>calloc\<close> takes its outcome from a list of Booleans that is threaded through
  the calls (beyond its end, allocation succeeds), so each failure path is in the model.
\<close>

section \<open>State\<close>

definition VW_SEGMENT_BUILDER_INITIAL_CAPACITY :: nat where "VW_SEGMENT_BUILDER_INITIAL_CAPACITY = 32"
definition VW_SEGMENT_HISTORY_CAPACITY :: nat where "VW_SEGMENT_HISTORY_CAPACITY = 16"
definition VW_SEGMENT_BUILDER_MAX_TEXT_BYTES :: nat where "VW_SEGMENT_BUILDER_MAX_TEXT_BYTES = 1024"
definition VW_DEDUP_TIME_TOLERANCE_US :: int where "VW_DEDUP_TIME_TOLERANCE_US = 500000"

lemmas sb_limits = VW_SEGMENT_BUILDER_INITIAL_CAPACITY_def VW_SEGMENT_HISTORY_CAPACITY_def
  VW_SEGMENT_BUILDER_MAX_TEXT_BYTES_def VW_DEDUP_TIME_TOLERANCE_US_def

record vw_history_entry =
  hi_start_pts_us :: i64
  hi_end_pts_us :: i64
  hi_text :: bytes

record vw_segment_builder =
  sb_next_segment_id :: u64
  sb_segment_queue :: "vw_caption_segment list"
  sb_capacity :: nat
  sb_head :: nat
  sb_count :: nat
  sb_history :: "vw_history_entry list"
  sb_history_head :: nat
  sb_history_count :: nat
  sb_covered_end_us :: i64

definition zero_segment :: vw_caption_segment where
  "zero_segment = \<lparr>cs_session_id = replicate 16 0, cs_segment_id = 0, cs_start_pts_us = 0, cs_end_pts_us = 0,
     cs_is_final = False, cs_text_utf8 = None, cs_text_bytes = 0, cs_translated_text_utf8 = None,
     cs_translated_text_bytes = 0, cs_translation_attempted = False, cs_translation_latency_us = 0,
     cs_translation_tier = 0\<rparr>"

definition zero_history :: "vw_history_entry list" where
  "zero_history = replicate VW_SEGMENT_HISTORY_CAPACITY \<lparr>hi_start_pts_us = 0, hi_end_pts_us = 0, hi_text = []\<rparr>"

fun next_alloc :: "bool list \<Rightarrow> bool \<times> bool list" where
  "next_alloc [] = (True, [])"
| "next_alloc (b # bs) = (b, bs)"

section \<open>Creation and reset\<close>

definition vw_segment_builder_create :: "bool \<Rightarrow> bool \<Rightarrow> vw_segment_builder option" where
  "vw_segment_builder_create b_alloc q_alloc =
     (if \<not> b_alloc then None
      else if \<not> q_alloc then None
      else Some \<lparr>sb_next_segment_id = 1,
        sb_segment_queue = replicate VW_SEGMENT_BUILDER_INITIAL_CAPACITY zero_segment,
        sb_capacity = VW_SEGMENT_BUILDER_INITIAL_CAPACITY, sb_head = 0, sb_count = 0,
        sb_history = zero_history, sb_history_head = 0, sb_history_count = 0, sb_covered_end_us = - 1\<rparr>)"

definition vw_segment_builder_clear :: "vw_segment_builder \<Rightarrow> vw_segment_builder" where
  "vw_segment_builder_clear b =
     b\<lparr>sb_segment_queue := map (\<lambda>s. s\<lparr>cs_text_utf8 := None\<rparr>) (sb_segment_queue b), sb_head := 0,
       sb_count := 0, sb_history_head := 0, sb_history_count := 0, sb_covered_end_us := - 1,
       sb_history := zero_history\<rparr>"

definition vw_segment_builder_get_last_segment :: "vw_segment_builder \<Rightarrow> vw_caption_segment option" where
  "vw_segment_builder_get_last_segment b =
     (if sb_count b = 0 \<or> sb_capacity b = 0 then None
      else Some (sb_segment_queue b ! ((sb_head b + sb_capacity b - 1) mod sb_capacity b)))"

section \<open>Queue and history\<close>

definition grow_queue :: "vw_segment_builder \<Rightarrow> vw_segment_builder" where
  "grow_queue b =
     (let new_cap = sb_capacity b * 2 in
      b\<lparr>sb_segment_queue := map (\<lambda>i. sb_segment_queue b !
            ((sb_head b + sb_capacity b - sb_count b + i) mod sb_capacity b)) [0..<sb_count b]
          @ replicate (new_cap - sb_count b) zero_segment,
        sb_head := sb_count b, sb_capacity := new_cap\<rparr>)"

definition put_segment :: "vw_segment_builder \<Rightarrow> bytes \<Rightarrow> i64 \<Rightarrow> i64 \<Rightarrow> vw_segment_builder" where
  "put_segment b text start stop =
     (let slot = sb_head b;
          seg = (sb_segment_queue b ! slot)\<lparr>cs_segment_id := sb_next_segment_id b, cs_start_pts_us := start,
            cs_end_pts_us := stop, cs_is_final := True, cs_text_utf8 := Some text,
            cs_text_bytes := of_nat (length text)\<rparr>
      in b\<lparr>sb_segment_queue := (sb_segment_queue b)[slot := seg], sb_next_segment_id := sb_next_segment_id b + 1,
           sb_head := (sb_head b + 1) mod sb_capacity b, sb_count := sb_count b + 1\<rparr>)"

definition vw_segment_builder_enqueue ::
  "vw_segment_builder \<Rightarrow> bool list \<Rightarrow> bytes \<Rightarrow> i64 \<Rightarrow> i64 \<Rightarrow> bool \<times> vw_segment_builder \<times> bool list" where
  "vw_segment_builder_enqueue b al text start stop =
     (if sb_capacity b = 0 then (False, b, al)
      else case next_alloc al of
          (False, al) \<Rightarrow> (False, b, al)
        | (True, al) \<Rightarrow>
            if sb_count b = sb_capacity b then
              (case next_alloc al of
                 (False, al) \<Rightarrow> (False, b, al)
               | (True, al) \<Rightarrow> (True, put_segment (grow_queue b) text start stop, al))
            else (True, put_segment b text start stop, al))"

definition vw_segment_builder_commit_history ::
  "vw_segment_builder \<Rightarrow> bytes \<Rightarrow> i64 \<Rightarrow> i64 \<Rightarrow> vw_segment_builder" where
  "vw_segment_builder_commit_history b text start stop =
     (let copy_len = vw_utf8_safe_len (Some text) (VW_SEGMENT_BUILDER_MAX_TEXT_BYTES - 1);
          b = b\<lparr>sb_history := (sb_history b)[sb_history_head b :=
            \<lparr>hi_start_pts_us = start, hi_end_pts_us = stop, hi_text = take copy_len text\<rparr>]\<rparr>;
          b = (if stop > sb_covered_end_us b then b\<lparr>sb_covered_end_us := stop\<rparr> else b);
          b = b\<lparr>sb_history_head := (sb_history_head b + 1) mod VW_SEGMENT_HISTORY_CAPACITY\<rparr>
      in if sb_history_count b < VW_SEGMENT_HISTORY_CAPACITY
         then b\<lparr>sb_history_count := sb_history_count b + 1\<rparr> else b)"

section \<open>Overlap with an earlier cue\<close>

definition is_blank :: "u8 \<Rightarrow> bool" where
  "is_blank c \<longleftrightarrow> c = 0x20 \<or> c = 0x09 \<or> c = 0x0A \<or> c = 0x0D"

definition count_words :: "bytes \<Rightarrow> nat \<Rightarrow> nat" where
  "count_words cand be =
     length (filter (\<lambda>k. \<not> is_blank (cand ! k) \<and> (k = 0 \<or> is_blank (cand ! (k - 1)))) [0..<be])"

text \<open>The conditions the loop body checks for a prefix length \<^verbatim>\<open>be\<close> of the candidate.\<close>

definition tail_prefix_at :: "bytes \<Rightarrow> bytes \<Rightarrow> nat \<Rightarrow> bool" where
  "tail_prefix_at cue cand be \<longleftrightarrow>
     \<not> (be < length cand \<and> \<not> is_blank (cand ! be))
     \<and> \<not> is_blank (cand ! (be - 1))
     \<and> be \<le> length cue \<and> drop (length cue - be) cue = take be cand
     \<and> (length cue - be = 0 \<or> is_blank (cue ! (length cue - be - 1)))
     \<and> count_words cand be \<ge> 2"

definition vw_segment_builder_tail_prefix_len :: "bytes \<Rightarrow> bytes \<Rightarrow> nat" where
  "vw_segment_builder_tail_prefix_len cue cand =
     (if cue = [] \<or> cand = [] then 0
      else case List.find (tail_prefix_at cue cand) (rev [1..<length cand + 1]) of
          None \<Rightarrow> 0 | Some be \<Rightarrow> be)"

definition near_cue :: "i64 \<Rightarrow> i64 \<Rightarrow> i64 \<Rightarrow> i64 \<Rightarrow> bool" where
  "near_cue start_pts end_pts cue_start cue_end \<longleftrightarrow>
     (end_pts > cue_start \<and> start_pts < cue_end)
     \<or> (start_pts \<ge> cue_end - VW_DEDUP_TIME_TOLERANCE_US \<and> start_pts \<le> cue_end + VW_DEDUP_TIME_TOLERANCE_US)"

text \<open>
  The result: \<open>None\<close> when the trim does not apply (or an allocation failed), \<open>Some dropped\<close>
  when it handled the candidate.
\<close>

definition vw_segment_builder_apply_tail_trim ::
  "vw_segment_builder \<Rightarrow> bool list \<Rightarrow> bytes \<Rightarrow> i64 \<Rightarrow> i64 \<Rightarrow> bytes option \<Rightarrow> i64 \<Rightarrow> i64
    \<Rightarrow> bool option \<times> vw_segment_builder \<times> bool list" where
  "vw_segment_builder_apply_tail_trim b al text start_pts end_pts cue_text cue_start cue_end =
     (case cue_text of
        None \<Rightarrow> (None, b, al)
      | Some cue \<Rightarrow>
          if \<not> near_cue start_pts end_pts cue_start cue_end then (None, b, al)
          else
            let m = vw_segment_builder_tail_prefix_len cue text in
            if m = 0 then (None, b, al)
            else if m = length text \<or> cue_end \<ge> end_pts then (Some True, b, al)
            else
              let rest = dropWhile is_blank (drop m text) in
              if rest = [] then (Some True, b, al)
              else (case next_alloc al of
                  (False, al) \<Rightarrow> (None, b, al)
                | (True, al) \<Rightarrow>
                    (case vw_segment_builder_enqueue b al rest cue_end end_pts of
                       (False, b, al) \<Rightarrow> (None, b, al)
                     | (True, b, al) \<Rightarrow>
                         (Some False, vw_segment_builder_commit_history b rest cue_end end_pts, al))))"

definition strstr_found :: "bytes \<Rightarrow> bytes \<Rightarrow> bool" where
  "strstr_found hay needle \<longleftrightarrow> list_ex (\<lambda>i. take (length needle) (drop i hay) = needle) [0..<length hay + 1]"

definition time_matches :: "i64 \<Rightarrow> i64 \<Rightarrow> i64 \<Rightarrow> i64 \<Rightarrow> bool" where
  "time_matches start_pts end_pts cue_start cue_end \<longleftrightarrow>
     (if start_pts \<ge> cue_start then start_pts - cue_start else cue_start - start_pts) \<le> VW_DEDUP_TIME_TOLERANCE_US
     \<or> (end_pts > cue_start \<and> start_pts < cue_end)"

section \<open>Pushing a hypothesis\<close>

text \<open>Step 1, against the last queued cue: \<open>Some r\<close> is an early return of \<open>r\<close>.\<close>

definition check_pending ::
  "vw_segment_builder \<Rightarrow> bool list \<Rightarrow> bytes \<Rightarrow> i64 \<Rightarrow> i64 \<Rightarrow> bool option \<times> vw_segment_builder \<times> bool list" where
  "check_pending b al clean start_pts end_pts =
     (case vw_segment_builder_get_last_segment b of
        None \<Rightarrow> (None, b, al)
      | Some lst \<Rightarrow>
          (case cs_text_utf8 lst of
             None \<Rightarrow> (None, b, al)
           | Some ltext \<Rightarrow>
               let tm = time_matches start_pts end_pts (cs_start_pts_us lst) (cs_end_pts_us lst) in
               if tm \<and> (ltext = clean \<or> strstr_found ltext clean) then (Some False, b, al)
               else (case vw_segment_builder_apply_tail_trim b al clean start_pts end_pts (Some ltext)
                       (cs_start_pts_us lst) (cs_end_pts_us lst) of
                   (Some dropped, b, al) \<Rightarrow> (Some (\<not> dropped), b, al)
                 | (None, b, al) \<Rightarrow>
                     if tm \<and> strstr_found clean ltext then (Some False, b, al) else (None, b, al))))"

text \<open>Step 2, against the committed history, newest first.\<close>

fun check_history ::
  "nat list \<Rightarrow> vw_segment_builder \<Rightarrow> bool list \<Rightarrow> bytes \<Rightarrow> i64 \<Rightarrow> i64
    \<Rightarrow> bool option \<times> vw_segment_builder \<times> bool list" where
  "check_history [] b al clean start_pts end_pts = (None, b, al)"
| "check_history (i # is) b al clean start_pts end_pts =
     (let hist = sb_history b !
            ((sb_history_head b + VW_SEGMENT_HISTORY_CAPACITY - 1 - i) mod VW_SEGMENT_HISTORY_CAPACITY)
      in if \<not> time_matches start_pts end_pts (hi_start_pts_us hist) (hi_end_pts_us hist)
         then check_history is b al clean start_pts end_pts
         else if hi_text hist = clean \<or> strstr_found (hi_text hist) clean then (Some False, b, al)
         else (case vw_segment_builder_apply_tail_trim b al clean start_pts end_pts (Some (hi_text hist))
                 (hi_start_pts_us hist) (hi_end_pts_us hist) of
             (Some dropped, b, al) \<Rightarrow> (Some (\<not> dropped), b, al)
           | (None, b, al) \<Rightarrow>
               if strstr_found clean (hi_text hist) then (Some False, b, al)
               else check_history is b al clean start_pts end_pts))"

definition clean_text :: "bytes \<Rightarrow> bytes" where
  "clean_text text = strip_with is_blank text"

definition re_covers :: "vw_segment_builder \<Rightarrow> i64 \<Rightarrow> i64 \<Rightarrow> bool" where
  "re_covers b start_pts end_pts \<longleftrightarrow>
     sb_covered_end_us b \<ge> 0 \<and> start_pts < sb_covered_end_us b
     \<and> end_pts \<le> sb_covered_end_us b + VW_DEDUP_TIME_TOLERANCE_US"

definition vw_segment_builder_push_hypothesis ::
  "vw_segment_builder \<Rightarrow> bool list \<Rightarrow> bytes option \<Rightarrow> i64 \<Rightarrow> i64 \<Rightarrow> bool \<times> vw_segment_builder \<times> bool list" where
  "vw_segment_builder_push_hypothesis b al text_opt start_pts end_pts =
     (case text_opt of
        None \<Rightarrow> (False, b, al)
      | Some text \<Rightarrow>
          if start_pts < 0 \<or> end_pts \<le> start_pts then (False, b, al)
          else
            let clean = clean_text text; len = length clean in
            if len = 0 \<or> len \<ge> VW_SEGMENT_BUILDER_MAX_TEXT_BYTES then (False, b, al)
            else if vw_hallucination_is_phantom_text (Some clean) then (False, b, al)
            else if re_covers b start_pts end_pts then (False, b, al)
            else (case check_pending b al clean start_pts end_pts of
                (Some r, b, al) \<Rightarrow> (r, b, al)
              | (None, b, al) \<Rightarrow>
                  (case check_history [0..<sb_history_count b] b al clean start_pts end_pts of
                     (Some r, b, al) \<Rightarrow> (r, b, al)
                   | (None, b, al) \<Rightarrow>
                       let emit_start = (if sb_covered_end_us b > start_pts then sb_covered_end_us b else start_pts) in
                       if emit_start \<ge> end_pts then (False, b, al)
                       else (case vw_segment_builder_enqueue b al clean emit_start end_pts of
                           (False, b, al) \<Rightarrow> (False, b, al)
                         | (True, b, al) \<Rightarrow>
                             (True, vw_segment_builder_commit_history b clean emit_start end_pts, al)))))"

definition vw_segment_builder_pop :: "vw_segment_builder \<Rightarrow> (vw_caption_segment \<times> vw_segment_builder) option" where
  "vw_segment_builder_pop b =
     (if sb_count b = 0 \<or> sb_capacity b = 0 then None
      else let tail = (sb_head b + sb_capacity b - sb_count b) mod sb_capacity b
           in Some (sb_segment_queue b ! tail,
                b\<lparr>sb_segment_queue := (sb_segment_queue b)[tail := zero_segment], sb_count := sb_count b - 1\<rparr>))"

section \<open>The pending queue\<close>

definition sb_contents :: "vw_segment_builder \<Rightarrow> vw_caption_segment list" where
  "sb_contents b = ring_slice (sb_segment_queue b) (sb_head b + sb_capacity b - sb_count b) (sb_count b)"

text \<open>Pending cues carry consecutive identifiers that end just below the next one.\<close>

definition sb_inv :: "vw_segment_builder \<Rightarrow> bool" where
  "sb_inv b \<longleftrightarrow> 0 < sb_capacity b \<and> length (sb_segment_queue b) = sb_capacity b \<and> sb_head b < sb_capacity b
     \<and> sb_count b \<le> sb_capacity b \<and> length (sb_history b) = VW_SEGMENT_HISTORY_CAPACITY
     \<and> sb_history_head b < VW_SEGMENT_HISTORY_CAPACITY \<and> sb_history_count b \<le> VW_SEGMENT_HISTORY_CAPACITY
     \<and> (\<forall>i < sb_count b. cs_segment_id (sb_contents b ! i)
          = sb_next_segment_id b - of_nat (sb_count b) + of_nat i)"

lemma length_sb_contents [simp]: "length (sb_contents b) = sb_count b"
  by (simp add: sb_contents_def)

lemma sb_create_inv: "vw_segment_builder_create x y = Some b \<Longrightarrow> sb_inv b \<and> sb_contents b = [] \<and> sb_covered_end_us b = - 1"
  by (auto simp: vw_segment_builder_create_def sb_inv_def sb_contents_def sb_limits zero_history_def split: if_splits)

lemma sb_clear_inv:
  "sb_inv b \<Longrightarrow> sb_inv (vw_segment_builder_clear b) \<and> sb_contents (vw_segment_builder_clear b) = []
    \<and> sb_covered_end_us (vw_segment_builder_clear b) = - 1
    \<and> sb_next_segment_id (vw_segment_builder_clear b) = sb_next_segment_id b"
  by (auto simp: vw_segment_builder_clear_def sb_inv_def sb_contents_def sb_limits zero_history_def)

lemma grow_queue_facts:
  assumes "sb_inv b" "sb_count b = sb_capacity b"
  shows "sb_inv (grow_queue b)" "sb_contents (grow_queue b) = sb_contents b"
    "sb_count (grow_queue b) < sb_capacity (grow_queue b)"
    "sb_next_segment_id (grow_queue b) = sb_next_segment_id b" "sb_covered_end_us (grow_queue b) = sb_covered_end_us b"
    "sb_history (grow_queue b) = sb_history b" "sb_history_head (grow_queue b) = sb_history_head b"
    "sb_history_count (grow_queue b) = sb_history_count b"
proof -
  have i: "0 < sb_capacity b" "length (sb_segment_queue b) = sb_capacity b" using assms(1) by (simp_all add: sb_inv_def)
  show c: "sb_contents (grow_queue b) = sb_contents b"
  proof -
    have "(sb_capacity b + sb_capacity b + k) mod (sb_capacity b + sb_capacity b) = k" if "k < sb_capacity b" for k
      using that by simp
    then show ?thesis
      unfolding sb_contents_def using i assms(2)
      by (intro nth_equalityI) (simp_all add: grow_queue_def Let_def nth_append mult_2)
  qed
  have "sb_count (grow_queue b) = sb_count b" by (simp add: grow_queue_def Let_def)
  then show "sb_inv (grow_queue b)"
    using assms unfolding sb_inv_def c by (simp add: grow_queue_def Let_def)
qed (use assms in \<open>simp_all add: grow_queue_def Let_def sb_inv_def\<close>)

text \<open>
  What a successful call adds: one final cue at the end of the queue, with the next
  identifier, and the coverage frontier moved to its end.
\<close>

definition queued_cue :: "vw_segment_builder \<Rightarrow> vw_segment_builder \<Rightarrow> bytes \<Rightarrow> i64 \<Rightarrow> i64 \<Rightarrow> bool" where
  "queued_cue b b' tx start stop \<longleftrightarrow> sb_inv b' \<and> sb_next_segment_id b' = sb_next_segment_id b + 1
     \<and> (\<exists>seg. sb_contents b' = sb_contents b @ [seg] \<and> cs_segment_id seg = sb_next_segment_id b
          \<and> cs_start_pts_us seg = start \<and> cs_end_pts_us seg = stop \<and> cs_is_final seg
          \<and> cs_text_utf8 seg = Some tx \<and> cs_text_bytes seg = of_nat (length tx))"

lemma put_segment_queued:
  assumes "sb_inv b" "sb_count b < sb_capacity b"
  shows "queued_cue b (put_segment b tx start stop) tx start stop"
    and "sb_covered_end_us (put_segment b tx start stop) = sb_covered_end_us b"
proof -
  let ?b = "put_segment b tx start stop" and ?h = "sb_head b" and ?n = "sb_capacity b" and ?c = "sb_count b"
  have i: "length (sb_segment_queue b) = ?n" "?h < ?n" using assms(1) by (simp_all add: sb_inv_def)
  define seg where "seg = (sb_segment_queue b ! ?h)\<lparr>cs_segment_id := sb_next_segment_id b, cs_start_pts_us := start,
            cs_end_pts_us := stop, cs_is_final := True, cs_text_utf8 := Some tx,
            cs_text_bytes := of_nat (length tx)\<rparr>"
  have c: "sb_contents ?b = sb_contents b @ [seg]"
    using ring_head_write[OF i assms(2), of seg]
    by (simp add: sb_contents_def put_segment_def Let_def seg_def)
  have ids: "cs_segment_id (sb_contents ?b ! k) = sb_next_segment_id ?b - of_nat (sb_count ?b) + of_nat k"
    if "k < sb_count ?b" for k
  proof (cases "k < ?c")
    case True
    then have "cs_segment_id (sb_contents b ! k) = sb_next_segment_id b - of_nat ?c + of_nat k"
      using assms(1) by (simp add: sb_inv_def)
    with True show ?thesis unfolding c by (simp add: nth_append put_segment_def Let_def)
  next
    case False
    then have "k = ?c" using that by (simp add: put_segment_def Let_def)
    then show ?thesis unfolding c by (simp add: nth_append put_segment_def Let_def seg_def)
  qed
  have "sb_inv ?b"
    using assms ids unfolding sb_inv_def by (simp add: put_segment_def Let_def)
  then show "queued_cue b ?b tx start stop"
    unfolding queued_cue_def c by (simp add: seg_def) (simp add: put_segment_def Let_def)
  show "sb_covered_end_us ?b = sb_covered_end_us b" by (simp add: put_segment_def Let_def)
qed

lemma enqueue_cases:
  assumes "sb_inv b" "vw_segment_builder_enqueue b al tx start stop = (r, b', al')"
  shows "if r then queued_cue b b' tx start stop \<and> sb_covered_end_us b' = sb_covered_end_us b else b' = b"
proof -
  obtain ok al1 where a: "next_alloc al = (ok, al1)" by force
  obtain ok2 al2 where a2: "next_alloc al1 = (ok2, al2)" by force
  show ?thesis
  proof (cases "sb_count b = sb_capacity b")
    case True
    note g = grow_queue_facts[OF assms(1) True]
    from put_segment_queued[OF g(1,3), of tx start stop] g(2,4,5)
    have "queued_cue b (put_segment (grow_queue b) tx start stop) tx start stop"
      "sb_covered_end_us (put_segment (grow_queue b) tx start stop) = sb_covered_end_us b"
      by (simp_all add: queued_cue_def)
    with assms True a a2 show ?thesis
      by (cases ok; cases ok2) (auto simp: vw_segment_builder_enqueue_def sb_inv_def)
  next
    case False
    then have "sb_count b < sb_capacity b" using assms(1) by (simp add: sb_inv_def)
    from put_segment_queued[OF assms(1) this, of tx start stop] assms False a show ?thesis
      by (cases ok) (auto simp: vw_segment_builder_enqueue_def sb_inv_def)
  qed
qed

lemma commit_history_queued:
  assumes "queued_cue b b1 tx start stop" "sb_covered_end_us b1 = sb_covered_end_us b"
  defines "b' \<equiv> vw_segment_builder_commit_history b1 tx start stop"
  shows "queued_cue b b' tx start stop" "sb_covered_end_us b' = max (sb_covered_end_us b) stop"
proof -
  have same: "sb_contents b' = sb_contents b1" "sb_count b' = sb_count b1" "sb_next_segment_id b' = sb_next_segment_id b1"
    "sb_capacity b' = sb_capacity b1" "sb_head b' = sb_head b1" "sb_segment_queue b' = sb_segment_queue b1"
    by (auto simp: b'_def vw_segment_builder_commit_history_def Let_def sb_contents_def)
  have "sb_inv b1" using assms(1) by (simp add: queued_cue_def)
  moreover have "length (sb_history b') = length (sb_history b1)" "sb_history_head b' < VW_SEGMENT_HISTORY_CAPACITY"
    "sb_history_count b1 \<le> VW_SEGMENT_HISTORY_CAPACITY \<Longrightarrow> sb_history_count b' \<le> VW_SEGMENT_HISTORY_CAPACITY"
    by (auto simp: b'_def vw_segment_builder_commit_history_def Let_def sb_limits)
  ultimately have "sb_inv b'" unfolding sb_inv_def same by simp
  with assms(1) show "queued_cue b b' tx start stop" unfolding queued_cue_def same by blast
  show "sb_covered_end_us b' = max (sb_covered_end_us b) stop"
    using assms(2) by (auto simp: b'_def vw_segment_builder_commit_history_def Let_def)
qed

section \<open>Pushing\<close>

text \<open>
  \<open>accepted\<close>: a cue whose tx is the tail of the cleaned candidate was queued, it has a positive
  duration and ends where the candidate ends.
\<close>

definition accepted :: "vw_segment_builder \<Rightarrow> vw_segment_builder \<Rightarrow> bytes \<Rightarrow> i64 \<Rightarrow> bool" where
  "accepted b b' clean stop \<longleftrightarrow> sb_covered_end_us b' = max (sb_covered_end_us b) stop
     \<and> (\<exists>k start. drop k clean \<noteq> [] \<and> start < stop \<and> queued_cue b b' (drop k clean) start stop)"

lemma apply_tail_trim_cases:
  assumes "sb_inv b"
    "vw_segment_builder_apply_tail_trim b al tx s e cue cs ce = (r, b', al')"
  shows "if r = Some False then accepted b b' tx e else b' = b"
proof -
  consider "b' = b" "r \<noteq> Some False"
    | rest al1 al2 where "rest = dropWhile is_blank (drop (vw_segment_builder_tail_prefix_len (the cue) tx) tx)"
      "rest \<noteq> []" "ce < e" "r = None" "vw_segment_builder_enqueue b al1 rest ce e = (False, b', al2)"
    | rest al1 al2 b1 where "rest = dropWhile is_blank (drop (vw_segment_builder_tail_prefix_len (the cue) tx) tx)"
      "rest \<noteq> []" "ce < e" "r = Some False" "vw_segment_builder_enqueue b al1 rest ce e = (True, b1, al2)"
      "b' = vw_segment_builder_commit_history b1 rest ce e"
    using assms(2) unfolding vw_segment_builder_apply_tail_trim_def Let_def
    by (auto split: option.splits if_splits prod.splits bool.splits)
  then show ?thesis
  proof cases
    case 1
    then show ?thesis by simp
  next
    case 2
    with enqueue_cases[OF assms(1) 2(5)] show ?thesis by simp
  next
    case 3
    have q: "queued_cue b b1 rest ce e" "sb_covered_end_us b1 = sb_covered_end_us b"
      using enqueue_cases[OF assms(1) 3(5)] by simp_all
    obtain k where k: "rest = drop k tx"
      unfolding 3(1) dropWhile_eq_drop by (simp add: drop_drop)
    have "accepted b b' tx e"
      using commit_history_queued[OF q] 3(2,3,6) unfolding accepted_def k by blast
    with 3(4) show ?thesis by simp
  qed
qed

lemma check_pending_cases:
  assumes "sb_inv b" "check_pending b al clean s e = (r, b', al')"
  shows "if r = Some True then accepted b b' clean e else b' = b"
  using assms unfolding check_pending_def Let_def
  by (auto split: option.splits if_splits prod.splits dest!: apply_tail_trim_cases)

lemma check_history_cases:
  assumes "sb_inv b" "check_history is b al clean s e = (r, b', al')"
  shows "if r = Some True then accepted b b' clean e else b' = b"
  using assms
proof (induction "is" b al clean s e arbitrary: r b' al' rule: check_history.induct)
  case 1
  then show ?case by simp
next
  case (2 i "is" b al clean s e)
  define hist where "hist = sb_history b !
      ((sb_history_head b + VW_SEGMENT_HISTORY_CAPACITY - 1 - i) mod VW_SEGMENT_HISTORY_CAPACITY)"
  obtain r0 b0 al0 where t: "vw_segment_builder_apply_tail_trim b al clean s e (Some (hi_text hist))
      (hi_start_pts_us hist) (hi_end_pts_us hist) = (r0, b0, al0)" by (metis prod_cases3)
  note trim = apply_tail_trim_cases[OF "2.prems"(1) t]
  note step = "2.prems"(2)[unfolded check_history.simps Let_def hist_def [symmetric] t]
  show ?case
  proof (cases "\<not> time_matches s e (hi_start_pts_us hist) (hi_end_pts_us hist)")
    case True
    with "2.IH"(1)[OF hist_def True "2.prems"(1)] step show ?thesis by simp
  next
    case near: False
    show ?thesis
    proof (cases "hi_text hist = clean \<or> strstr_found (hi_text hist) clean")
      case True
      with near step show ?thesis by auto
    next
      case far: False
      show ?thesis
      proof (cases r0)
        case None
        then have "b0 = b" using trim by simp
        with "2.IH"(2)[OF hist_def near far t[symmetric] None refl] "2.prems"(1) near far step None
        show ?thesis by (auto split: if_splits)
      next
        case (Some d)
        with trim near far step show ?thesis by (auto split: if_splits)
      qed
    qed
  qed
qed

lemma push_cases:
  assumes "sb_inv b" "vw_segment_builder_push_hypothesis b al (Some s) st en = (r, b', al')"
  shows "if r then accepted b b' (clean_text s) en else b' = b"
proof (cases "st < 0 \<or> en \<le> st \<or> length (clean_text s) = 0
    \<or> length (clean_text s) \<ge> VW_SEGMENT_BUILDER_MAX_TEXT_BYTES
    \<or> vw_hallucination_is_phantom_text (Some (clean_text s)) \<or> re_covers b st en")
  case True
  with assms(2) show ?thesis
    by (auto simp: vw_segment_builder_push_hypothesis_def Let_def split: if_splits)
next
  case False
  obtain r1 b1 al1 where p: "check_pending b al (clean_text s) st en = (r1, b1, al1)" by (metis prod_cases3)
  note pend = check_pending_cases[OF assms(1) p]
  have eq: "vw_segment_builder_push_hypothesis b al (Some s) st en =
     (case (r1, b1, al1) of
         (Some r, b, al) \<Rightarrow> (r, b, al)
       | (None, b, al) \<Rightarrow>
           (case check_history [0..<sb_history_count b] b al (clean_text s) st en of
              (Some r, b, al) \<Rightarrow> (r, b, al)
            | (None, b, al) \<Rightarrow>
                let emit_start = (if sb_covered_end_us b > st then sb_covered_end_us b else st) in
                if emit_start \<ge> en then (False, b, al)
                else (case vw_segment_builder_enqueue b al (clean_text s) emit_start en of
                    (False, b, al) \<Rightarrow> (False, b, al)
                  | (True, b, al) \<Rightarrow>
                      (True, vw_segment_builder_commit_history b (clean_text s) emit_start en, al))))"
    using False p by (simp add: vw_segment_builder_push_hypothesis_def Let_def)
  show ?thesis
  proof (cases r1)
    case (Some x)
    with eq assms(2) pend show ?thesis by auto
  next
    case None
    then have b1: "b1 = b" using pend by simp
    obtain r2 b2 al2 where h: "check_history [0..<sb_history_count b] b al1 (clean_text s) st en = (r2, b2, al2)"
      by (metis prod_cases3)
    note hist = check_history_cases[OF assms(1) h]
    show ?thesis
    proof (cases r2)
      case (Some x)
      with eq assms(2) hist h None b1 show ?thesis by auto
    next
      case None2: None
      then have b2: "b2 = b" using hist by simp
      let ?st = "if sb_covered_end_us b > st then sb_covered_end_us b else st"
      obtain ok b3 al3 where e: "vw_segment_builder_enqueue b al2 (clean_text s) ?st en = (ok, b3, al3)"
        by (metis prod_cases3)
      note enq = enqueue_cases[OF assms(1) e]
      have res: "(r, b', al') = (if ?st \<ge> en then (False, b, al2)
          else if ok then (True, vw_segment_builder_commit_history b3 (clean_text s) ?st en, al3) else (False, b3, al3))"
        using eq assms(2) None b1 h None2 b2 e by (simp split: bool.splits)
      show ?thesis
      proof (cases "?st \<ge> en \<or> \<not> ok")
        case True
        with res enq show ?thesis by (auto split: if_splits)
      next
        case go: False
        then have r: "r" "b' = vw_segment_builder_commit_history b3 (clean_text s) ?st en" using res by auto
        have q: "queued_cue b b3 (clean_text s) ?st en" "sb_covered_end_us b3 = sb_covered_end_us b"
          using enq go by simp_all
        have "drop 0 (clean_text s) \<noteq> []" using False by auto
        then have "accepted b b' (clean_text s) en"
          using commit_history_queued[OF q] go unfolding accepted_def r(2) by (metis drop0 not_le)
        with r(1) show ?thesis by simp
      qed
    qed
  qed
qed

text \<open>
  Property.  A hypothesis is all or nothing: a call that returns false leaves the builder
  untouched, also when an allocation fails half-way; a call that returns true queues
  exactly one final cue, with the next identifier, a positive duration, the end of the
  hypothesis and a non-empty tail of its cleaned text, and moves the coverage frontier to
  at least that end.
\<close>
theorem vw_segment_builder_push_atomic:
  assumes "sb_inv b" "vw_segment_builder_push_hypothesis b al (Some s) st en = (r, b', al')"
  shows "if r then \<exists>k seg. sb_inv b' \<and> sb_contents b' = sb_contents b @ [seg]
        \<and> cs_segment_id seg = sb_next_segment_id b \<and> sb_next_segment_id b' = sb_next_segment_id b + 1
        \<and> cs_is_final seg \<and> cs_start_pts_us seg < cs_end_pts_us seg \<and> cs_end_pts_us seg = en
        \<and> cs_text_utf8 seg = Some (drop k (clean_text s)) \<and> drop k (clean_text s) \<noteq> []
        \<and> sb_covered_end_us b' = max (sb_covered_end_us b) en
      else b' = b"
proof (cases r)
  case True
  then have a: "accepted b b' (clean_text s) en" using push_cases[OF assms] by simp
  then obtain k start where k: "drop k (clean_text s) \<noteq> []" "start < en"
    and q: "queued_cue b b' (drop k (clean_text s)) start en" unfolding accepted_def by blast
  from q obtain seg where "sb_contents b' = sb_contents b @ [seg]" "cs_segment_id seg = sb_next_segment_id b"
    "cs_start_pts_us seg = start" "cs_end_pts_us seg = en" "cs_is_final seg"
    "cs_text_utf8 seg = Some (drop k (clean_text s))"
    "sb_inv b'" "sb_next_segment_id b' = sb_next_segment_id b + 1"
    unfolding queued_cue_def by blast
  with True k a show ?thesis unfolding accepted_def by auto
next
  case False
  then show ?thesis using push_cases[OF assms] by simp
qed

text \<open>
  Property C32.  Re-transcriptions are dropped: once a hypothesis was accepted, any hypothesis
  that starts before its end and ends no later than half a second after it is refused,
  whatever its text; in particular pushing the same hypothesis twice queues one cue.
\<close>
theorem vw_segment_builder_no_recover:
  assumes "sb_inv b" "vw_segment_builder_push_hypothesis b al (Some s) st en = (True, b', al')"
    "st' < en" "en' \<le> en + 500000" "0 \<le> en"
  shows "vw_segment_builder_push_hypothesis b' al2 t st' en' = (False, b', al2)"
proof -
  have "accepted b b' (clean_text s) en" using push_cases[OF assms(1,2)] by simp
  then have "en \<le> sb_covered_end_us b'" unfolding accepted_def by simp
  then have "re_covers b' st' en'" using assms(3-5) by (simp add: re_covers_def sb_limits)
  then show ?thesis
    by (auto simp: vw_segment_builder_push_hypothesis_def Let_def split: option.splits)
qed

section \<open>Popping\<close>

lemma sb_pop_cases:
  assumes "sb_inv b" "sb_contents b = x # xs"
  shows "\<exists>b'. vw_segment_builder_pop b = Some (x, b') \<and> sb_inv b' \<and> sb_contents b' = xs"
proof -
  let ?n = "sb_capacity b" and ?c = "sb_count b"
  let ?t = "sb_head b + ?n - ?c"
  have i: "0 < ?n" "length (sb_segment_queue b) = ?n" "sb_head b < ?n" "?c \<le> ?n" using assms(1) by (simp_all add: sb_inv_def)
  obtain m where m: "?c = Suc m" using assms(2) by (metis length_Cons length_sb_contents)
  define b' where "b' = b\<lparr>sb_segment_queue := (sb_segment_queue b)[?t mod ?n := zero_segment], sb_count := m\<rparr>"
  have sl: "x = sb_segment_queue b ! (?t mod ?n)" "xs = ring_slice (sb_segment_queue b) (Suc ?t) m"
    using assms(2) i(2) unfolding sb_contents_def m ring_slice_Suc by simp_all
  have p: "vw_segment_builder_pop b = Some (x, b')"
    using i(1) m by (simp add: vw_segment_builder_pop_def b'_def sl(1) Let_def)
  have start: "sb_head b + ?n - m = Suc ?t" using m i by simp
  have other: "ring_slice ((sb_segment_queue b)[?t mod ?n := zero_segment]) (Suc ?t) m
      = ring_slice (sb_segment_queue b) (Suc ?t) m"
  proof (rule nth_equalityI)
    fix k assume "k < length (ring_slice ((sb_segment_queue b)[?t mod ?n := zero_segment]) (Suc ?t) m)"
    then have k: "Suc k < Suc m" by simp
    then have "(?t + Suc k) mod ?n \<noteq> (?t + 0) mod ?n" using m i by (intro ring_slot_neq) auto
    then show "ring_slice ((sb_segment_queue b)[?t mod ?n := zero_segment]) (Suc ?t) m ! k
        = ring_slice (sb_segment_queue b) (Suc ?t) m ! k"
      using k i by simp
  qed simp
  have c: "sb_contents b' = xs" unfolding sb_contents_def b'_def by (simp add: start other sl(2))
  have "cs_segment_id (xs ! j) = sb_next_segment_id b - of_nat m + of_nat j" if "j < m" for j
  proof -
    have "cs_segment_id (sb_contents b ! Suc j) = sb_next_segment_id b - of_nat (Suc m) + of_nat (Suc j)"
      using assms(1) m that by (simp add: sb_inv_def)
    then show ?thesis using assms(2) by simp
  qed
  then have "sb_inv b'" using assms(1) m unfolding sb_inv_def c by (simp add: b'_def)
  with p c show ?thesis by blast
qed

interpretation sb: fifo_source sb_inv sb_contents vw_segment_builder_pop
proof
  show "vw_segment_builder_pop b = None" if "sb_inv b" "sb_contents b = []" for b
  proof -
    have "sb_count b = 0" using that(2) by (metis length_sb_contents list.size(3))
    then show ?thesis by (simp add: vw_segment_builder_pop_def)
  qed
  show "\<exists>b'. vw_segment_builder_pop b = Some (x, b') \<and> sb_inv b' \<and> sb_contents b' = xs"
    if "sb_inv b" "sb_contents b = x # xs" for b x xs using that by (rule sb_pop_cases)
qed

text \<open>
  Property.  The worker's loop that pops until the queue is empty delivers every pending cue,
  oldest first, with consecutive identifiers.
\<close>
theorem vw_segment_builder_drain:
  assumes "sb_inv b"
  defines "cues \<equiv> fst (drain vw_segment_builder_pop (sb_count b) b)"
  shows "cues = sb_contents b
    \<and> map cs_segment_id cues = map (\<lambda>i. sb_next_segment_id b - of_nat (sb_count b) + of_nat i) [0..<sb_count b]
    \<and> vw_segment_builder_pop (snd (drain vw_segment_builder_pop (sb_count b) b)) = None"
proof -
  have d: "cues = sb_contents b" "sb_contents (snd (drain vw_segment_builder_pop (sb_count b) b)) = []"
    "sb_inv (snd (drain vw_segment_builder_pop (sb_count b) b))"
    using sb.drain_all[OF assms(1), of "sb_count b"] by (simp_all add: cues_def)
  have "map cs_segment_id cues = map (\<lambda>i. sb_next_segment_id b - of_nat (sb_count b) + of_nat i) [0..<sb_count b]"
    unfolding d(1) using assms(1) by (intro nth_equalityI) (auto simp: sb_inv_def)
  with d sb.pop_None_iff show ?thesis by blast
qed

text \<open>An empty builder with room for two cues.\<close>

definition sample_builder :: vw_segment_builder where
  "sample_builder = \<lparr>sb_next_segment_id = 7, sb_segment_queue = [zero_segment, zero_segment], sb_capacity = 2,
     sb_head = 0, sb_count = 0, sb_history = zero_history, sb_history_head = 0, sb_history_count = 0,
     sb_covered_end_us = - 1\<rparr>"

lemma sample_builder_inv: "sb_inv sample_builder"
  by (simp add: sb_inv_def sample_builder_def zero_history_def sb_limits)

lemma sample_push: "fst (vw_segment_builder_push_hypothesis sample_builder [] (Some [0x20, 0x48, 0x69]) 0 1000000)"
  by code_simp

theorem vw_segment_builder_push_atomic_witness:
  "\<exists>b' al' seg k. vw_segment_builder_push_hypothesis sample_builder [] (Some [0x20, 0x48, 0x69]) 0 1000000 = (True, b', al')
    \<and> sb_contents b' = sb_contents sample_builder @ [seg] \<and> cs_segment_id seg = 7 \<and> cs_end_pts_us seg = 1000000
    \<and> cs_text_utf8 seg = Some (drop k (clean_text [0x20, 0x48, 0x69]))"
proof -
  obtain b' al' where p: "vw_segment_builder_push_hypothesis sample_builder [] (Some [0x20, 0x48, 0x69]) 0 1000000 = (True, b', al')"
    using sample_push by (metis fst_conv prod_cases3)
  have "sb_next_segment_id sample_builder = 7" by (simp add: sample_builder_def)
  with vw_segment_builder_push_atomic[OF sample_builder_inv p] p show ?thesis by auto
qed

theorem vw_segment_builder_no_recover_witness:
  "\<exists>b' al'. vw_segment_builder_push_hypothesis sample_builder [] (Some [0x20, 0x48, 0x69]) 0 1000000 = (True, b', al')
    \<and> vw_segment_builder_push_hypothesis b' [] (Some [0x48, 0x6F]) 500000 1400000 = (False, b', [])"
proof -
  obtain b' al' where p: "vw_segment_builder_push_hypothesis sample_builder [] (Some [0x20, 0x48, 0x69]) 0 1000000 = (True, b', al')"
    using sample_push by (metis fst_conv prod_cases3)
  from vw_segment_builder_no_recover[OF sample_builder_inv p, of 500000 1400000 "[]" "Some [0x48, 0x6F]"] p
  show ?thesis by auto
qed

theorem vw_segment_builder_drain_witness:
  "\<exists>b' al' seg. vw_segment_builder_push_hypothesis sample_builder [] (Some [0x20, 0x48, 0x69]) 0 1000000 = (True, b', al')
    \<and> sb_inv b' \<and> fst (drain vw_segment_builder_pop (sb_count b') b') = [seg] \<and> cs_segment_id seg = 7"
proof -
  obtain b' al' where p: "vw_segment_builder_push_hypothesis sample_builder [] (Some [0x20, 0x48, 0x69]) 0 1000000 = (True, b', al')"
    using sample_push by (metis fst_conv prod_cases3)
  have "sb_contents sample_builder = []" "sb_next_segment_id sample_builder = 7"
    by (simp_all add: sb_contents_def sample_builder_def)
  with push_cases[OF sample_builder_inv p] obtain seg where
    "sb_inv b'" "sb_contents b' = [seg]" "cs_segment_id seg = 7"
    unfolding accepted_def queued_cue_def by auto
  with vw_segment_builder_drain[of b'] p show ?thesis by auto
qed

text \<open>
  Property.  A trim against an older cue of the history starts the remainder at the end of that cue, not
  at the coverage frontier, so the new cue may overlap a newer one: the phrases ``hello
  there'' at 0 to 2 s and ``foo bar'' at 2 to 4 s, then ``hello there general kenobi'' at
  1.5 to 5 s, give a third cue at 2 to 5 s.
\<close>
theorem tail_trim_overlaps_newer_cue:
  "(let (r1, b1, a1) = vw_segment_builder_push_hypothesis sample_builder [] (Some (ascii ''hello there'')) 0 2000000;
        (r2, b2, a2) = vw_segment_builder_push_hypothesis b1 [] (Some (ascii ''foo bar'')) 2000000 4000000;
        (r3, b3, a3) = vw_segment_builder_push_hypothesis b2 [] (Some (ascii ''hello there general kenobi'')) 1500000 5000000
    in map (\<lambda>c. (cs_start_pts_us c, cs_end_pts_us c)) (sb_contents b3))
   = [(0, 2000000), (2000000, 4000000), (2000000, 5000000)]"
  by code_simp

end
