(* ===== verification/VW_Vad.thy ===== *)
theory VW_Vad
  imports VW_Ieee
begin

text \<open>
  \<^verbatim>\<open>worker/src/vw_vad.c\<close>: where the worker cuts the buffered audio into recognition chunks.
  The Silero detector of whisper.cpp is not part of the repository: it is a parameter
  \<open>vad\<close>, absent when no context is loaded, that maps the samples to the success of
  \<^verbatim>\<open>whisper_vad_detect_speech\<close> and to the segment list (\<open>None\<close> for a \<^verbatim>\<open>NULL\<close> list), each
  segment a pair of binary32 times in centiseconds.  Samples are the rational values of the
  finite floats that the audio buffer holds; sample counts stay far below 2^64.
\<close>

section \<open>Energy detector\<close>

type_synonym vad_segment = "u32 \<times> u32"
type_synonym silero = "rat list \<Rightarrow> bool \<times> vad_segment list option"

text \<open>\<^verbatim>\<open>0.01f\<close> as a bit pattern.\<close>

definition VW_VAD_ENERGY_THRESHOLD :: u32 where "VW_VAD_ENERGY_THRESHOLD = 0x3C23D70A"
definition VW_CHUNK_MIN_SAMPLES :: nat where "VW_CHUNK_MIN_SAMPLES = 96000"
definition VW_CHUNK_MAX_SAMPLES :: nat where "VW_CHUNK_MAX_SAMPLES = 384000"
definition VW_CHUNK_PAD_SAMPLES :: nat where "VW_CHUNK_PAD_SAMPLES = 2400"
definition VW_CHUNK_MIN_SILENCE_GAP :: nat where "VW_CHUNK_MIN_SILENCE_GAP = 4800"
definition VW_VAD_MAX_TRAILING_SILENCE_SAMPLES :: nat where "VW_VAD_MAX_TRAILING_SILENCE_SAMPLES = 4800"

lemmas vad_limits = VW_CHUNK_MIN_SAMPLES_def VW_CHUNK_MAX_SAMPLES_def VW_CHUNK_PAD_SAMPLES_def
  VW_CHUNK_MIN_SILENCE_GAP_def VW_VAD_MAX_TRAILING_SILENCE_SAMPLES_def

text \<open>
  A product of two floats is exact in binary64; each addition, the division and the two
  conversions to \<^verbatim>\<open>float\<close> round once.
\<close>

definition sum_squares :: "rat list \<Rightarrow> rat" where
  "sum_squares pcm = fold (\<lambda>x s. rne 53 (s + x * x)) pcm 0"

definition vw_vad_detect_speech_energy :: "rat list \<Rightarrow> rat \<Rightarrow> bool" where
  "vw_vad_detect_speech_energy pcm threshold =
     (if pcm = [] \<or> threshold < 0 then False
      else let mean_square = rne 24 (rne 53 (sum_squares pcm / of_nat (length pcm)));
               threshold_sq = rne 24 (threshold * threshold)
           in mean_square > threshold_sq)"

definition vw_vad_detect_speech :: "silero option \<Rightarrow> rat list \<Rightarrow> bool" where
  "vw_vad_detect_speech vctx pcm =
     (if pcm = [] then False
      else case vctx of
          Some vad \<Rightarrow>
            (case vad pcm of
               (False, _) \<Rightarrow> False
             | (True, None) \<Rightarrow> False
             | (True, Some segments) \<Rightarrow> length segments > 0)
        | None \<Rightarrow> vw_vad_detect_speech_energy pcm (f32_val VW_VAD_ENERGY_THRESHOLD))"

section \<open>Chunk boundary\<close>

text \<open>\<^verbatim>\<open>(size_t)(t * 160.0f)\<close>.\<close>

definition cs_to_sample :: "u32 \<Rightarrow> nat" where
  "cs_to_sample t = nat (trunc0 (rne 24 (f32_val t * 160)))"

text \<open>Progressive silence drain: all at the end of the stream, else keep 150 ms.\<close>

definition silence_drain :: "nat \<Rightarrow> bool \<Rightarrow> nat" where
  "silence_drain sample_count is_eof =
     (if is_eof \<or> sample_count \<le> VW_CHUNK_PAD_SAMPLES then sample_count else sample_count - VW_CHUNK_PAD_SAMPLES)"

text \<open>The loop of case C over the segments (start and end in samples); \<open>0\<close> when no cut was chosen.\<close>

fun gap_cut :: "nat \<Rightarrow> bool \<Rightarrow> (nat \<times> nat) list \<Rightarrow> nat" where
  "gap_cut sample_count is_eof [] = 0"
| "gap_cut sample_count is_eof ((seg_start, raw_seg_end) # rest) =
     (let seg_end_sample = raw_seg_end + VW_CHUNK_PAD_SAMPLES in
      if seg_end_sample \<ge> VW_CHUNK_MIN_SAMPLES \<and> seg_end_sample \<le> VW_CHUNK_MAX_SAMPLES then
        (case rest of
           (next_start_sample, next_end) # more \<Rightarrow>
             if next_start_sample \<ge> raw_seg_end + VW_CHUNK_MIN_SILENCE_GAP then
               let next_padded_start = (if next_start_sample > VW_CHUNK_PAD_SAMPLES
                                        then next_start_sample - VW_CHUNK_PAD_SAMPLES else next_start_sample);
                   chosen_cut = (seg_end_sample + next_padded_start) div 2
               in if chosen_cut < seg_end_sample then seg_end_sample else chosen_cut
             else gap_cut sample_count is_eof rest
         | [] \<Rightarrow>
             if sample_count \<ge> raw_seg_end + VW_CHUNK_MIN_SILENCE_GAP \<or> is_eof then
               let max_cut = raw_seg_end + VW_VAD_MAX_TRAILING_SILENCE_SAMPLES;
                   chosen_cut = (seg_end_sample + sample_count) div 2;
                   chosen_cut = (if chosen_cut > max_cut then max_cut else chosen_cut);
                   chosen_cut = (if chosen_cut > sample_count then sample_count else chosen_cut)
               in if chosen_cut < seg_end_sample then seg_end_sample else chosen_cut
             else 0)
      else gap_cut sample_count is_eof rest)"

text \<open>The forced cut: the last segment end in range, else the maximum.\<close>

definition forced_cut :: "(nat \<times> nat) list \<Rightarrow> nat" where
  "forced_cut segs =
     (case List.find (\<lambda>e. e \<le> VW_CHUNK_MAX_SAMPLES \<and> e \<ge> VW_CHUNK_MIN_SAMPLES)
        (map (\<lambda>(s, e). e + VW_CHUNK_PAD_SAMPLES) (rev segs)) of
        Some e \<Rightarrow> e
      | None \<Rightarrow> VW_CHUNK_MAX_SAMPLES)"

text \<open>
  \<open>Some (cut, drain)\<close> is a return of \<^verbatim>\<open>true\<close> with \<^verbatim>\<open>*out_cut_samples\<close> and \<^verbatim>\<open>*out_silence_drain\<close>;
  \<open>None\<close> is \<^verbatim>\<open>false\<close>, with both outputs 0.
\<close>

definition silero_boundary :: "nat \<Rightarrow> bool \<Rightarrow> (nat \<times> nat) list \<Rightarrow> (nat \<times> nat) option" where
  "silero_boundary sample_count is_eof segs =
     (if segs = [] then
        (if sample_count \<ge> VW_CHUNK_MIN_SAMPLES \<or> is_eof then Some (0, silence_drain sample_count is_eof) else None)
      else
        let first_speech_sample = fst (hd segs) in
        if first_speech_sample > 16000 + VW_CHUNK_PAD_SAMPLES then Some (0, first_speech_sample - VW_CHUNK_PAD_SAMPLES)
        else
          let chosen_cut = gap_cut sample_count is_eof segs;
              chosen_cut = (if chosen_cut = 0 \<and> sample_count \<ge> VW_CHUNK_MAX_SAMPLES then forced_cut segs
                            else if chosen_cut = 0 \<and> is_eof then sample_count else chosen_cut)
          in if chosen_cut > 0 then Some ((if chosen_cut > sample_count then sample_count else chosen_cut), 0)
             else None)"

definition energy_boundary :: "rat list \<Rightarrow> bool \<Rightarrow> (nat \<times> nat) option" where
  "energy_boundary pcm is_eof =
     (let sample_count = length pcm in
      if \<not> vw_vad_detect_speech_energy pcm (f32_val VW_VAD_ENERGY_THRESHOLD) then
        (if sample_count \<ge> VW_CHUNK_MIN_SAMPLES \<or> is_eof then Some (0, silence_drain sample_count is_eof) else None)
      else
        let target_samples = (VW_CHUNK_MIN_SAMPLES + VW_CHUNK_MAX_SAMPLES) div 2 in
        if sample_count \<ge> target_samples \<or> is_eof
        then Some ((if sample_count > target_samples then target_samples else sample_count), 0) else None)"

definition vw_vad_find_chunk_boundary :: "silero option \<Rightarrow> rat list \<Rightarrow> bool \<Rightarrow> (nat \<times> nat) option" where
  "vw_vad_find_chunk_boundary vctx pcm is_eof =
     (if pcm = [] then None
      else case vctx of
          None \<Rightarrow> energy_boundary pcm is_eof
        | Some vad \<Rightarrow>
            (case vad pcm of
               (True, Some segments) \<Rightarrow>
                 silero_boundary (length pcm) is_eof (map (\<lambda>(t0, t1). (cs_to_sample t0, cs_to_sample t1)) segments)
             | _ \<Rightarrow> energy_boundary pcm is_eof))"

section \<open>Properties\<close>

text \<open>
  What is assumed of the detector: a segment lies in the audio it was computed from (its
  times are offsets into that audio).
\<close>

definition silero_within :: "silero option \<Rightarrow> rat list \<Rightarrow> bool" where
  "silero_within vctx pcm \<longleftrightarrow>
     (case vctx of None \<Rightarrow> True
      | Some vad \<Rightarrow> (case snd (vad pcm) of None \<Rightarrow> True
          | Some segs \<Rightarrow> list_all (\<lambda>(t0, t1). cs_to_sample t0 \<le> length pcm \<and> cs_to_sample t1 \<le> length pcm) segs))"

lemma silence_drain_bounds: "0 < n \<Longrightarrow> 0 < silence_drain n eof \<and> silence_drain n eof \<le> n"
  by (auto simp: silence_drain_def)

lemma forced_cut_bounds: "VW_CHUNK_MIN_SAMPLES \<le> forced_cut segs \<and> forced_cut segs \<le> VW_CHUNK_MAX_SAMPLES"
  by (auto simp: forced_cut_def find_Some_iff vad_limits split: option.splits)

text \<open>
  A cut \<open>c\<close> lies in the pause behind segment \<open>i\<close>: past its padded end, and before the next
  segment or at most 300 ms after the last one.
\<close>

definition cut_in_pause :: "nat \<Rightarrow> bool \<Rightarrow> (nat \<times> nat) list \<Rightarrow> nat \<Rightarrow> nat \<Rightarrow> bool" where
  "cut_in_pause n eof segs c i \<longleftrightarrow> i < length segs \<and> snd (segs ! i) + VW_CHUNK_PAD_SAMPLES \<le> c
     \<and> VW_CHUNK_MIN_SAMPLES \<le> snd (segs ! i) + VW_CHUNK_PAD_SAMPLES
     \<and> (Suc i < length segs \<longrightarrow> c \<le> fst (segs ! Suc i)
          \<and> snd (segs ! i) + VW_CHUNK_MIN_SILENCE_GAP \<le> fst (segs ! Suc i))
     \<and> (Suc i = length segs \<longrightarrow> c \<le> snd (segs ! i) + VW_VAD_MAX_TRAILING_SILENCE_SAMPLES
          \<and> (snd (segs ! i) + VW_CHUNK_MIN_SILENCE_GAP \<le> n \<or> eof))"

lemma cut_in_pause_Cons: "cut_in_pause n eof segs c i \<Longrightarrow> cut_in_pause n eof (x # segs) c (Suc i)"
  by (simp add: cut_in_pause_def) (metis nth_Cons_Suc)

lemma gap_cut_pause:
  "gap_cut n eof segs \<noteq> 0 \<Longrightarrow> \<exists>i. cut_in_pause n eof segs (gap_cut n eof segs) i"
proof (induction n eof segs rule: gap_cut.induct)
  case (1 n eof)
  then show ?case by simp
next
  case (2 n eof s e rest)
  let ?se = "e + VW_CHUNK_PAD_SAMPLES"
  have later: ?case if "gap_cut n eof ((s, e) # rest) = gap_cut n eof rest"
      "gap_cut n eof rest \<noteq> 0 \<Longrightarrow> \<exists>i. cut_in_pause n eof rest (gap_cut n eof rest) i"
    using that "2.prems" cut_in_pause_Cons by metis
  show ?case
  proof (cases "VW_CHUNK_MIN_SAMPLES \<le> ?se \<and> ?se \<le> VW_CHUNK_MAX_SAMPLES")
    case False
    with "2.IH"(2) show ?thesis by (intro later) auto
  next
    case True
    show ?thesis
    proof (cases rest)
      case Nil
      have "n \<ge> e + VW_CHUNK_MIN_SILENCE_GAP \<or> eof"
        using Nil True "2.prems" by (auto simp: Let_def split: if_splits)
      moreover have "?se \<le> gap_cut n eof ((s, e) # rest)
          \<and> gap_cut n eof ((s, e) # rest) \<le> e + VW_VAD_MAX_TRAILING_SILENCE_SAMPLES"
        using Nil True calculation by (auto simp: Let_def vad_limits)
      ultimately show ?thesis using Nil True by (intro exI[of _ 0]) (simp add: cut_in_pause_def)
    next
      case (Cons r more)
      obtain ns ne where r: "r = (ns, ne)" by force
      show ?thesis
      proof (cases "e + VW_CHUNK_MIN_SILENCE_GAP \<le> ns")
        case gap: True
        then have "gap_cut n eof ((s, e) # rest) \<le> ns" "?se \<le> gap_cut n eof ((s, e) # rest)"
          using True Cons r by (auto simp: Let_def vad_limits)
        with gap True Cons r show ?thesis
          by (intro exI[of _ 0]) (simp add: cut_in_pause_def del: gap_cut.simps)
      next
        case gap: False
        with True Cons r "2.IH"(1) show ?thesis by (intro later) auto
      qed
    qed
  qed
qed

lemma energy_boundary_bounds:
  "pcm \<noteq> [] \<Longrightarrow> energy_boundary pcm eof = Some (ct, drn) \<Longrightarrow>
    ct \<le> length pcm \<and> drn \<le> length pcm \<and> 0 < ct + drn \<and> (ct = 0 \<or> drn = 0)"
  using silence_drain_bounds[of "length pcm" eof]
  by (auto simp: energy_boundary_def Let_def vad_limits split: if_splits)

lemma silero_boundary_bounds:
  assumes "0 < n" "silero_boundary n eof segs = Some (ct, drn)" "list_all (\<lambda>(s, e). s \<le> n \<and> e \<le> n) segs"
  shows "ct \<le> n \<and> drn \<le> n \<and> 0 < ct + drn \<and> (ct = 0 \<or> drn = 0)"
proof -
  have "fst (hd segs) \<le> n" if "segs \<noteq> []" using assms(3) that by (cases segs) auto
  with assms(1,2) silence_drain_bounds[of n eof] show ?thesis
    by (auto simp: silero_boundary_def Let_def vad_limits split: if_splits)
qed

lemma silero_within_segs:
  "silero_within (Some vad) pcm \<Longrightarrow> vad pcm = (True, Some segments) \<Longrightarrow>
    list_all (\<lambda>(s, e). s \<le> length pcm \<and> e \<le> length pcm)
      (map (\<lambda>(t0, t1). (cs_to_sample t0, cs_to_sample t1)) segments)"
  by (auto simp: silero_within_def list_all_iff)

text \<open>
  Property.  Whatever the detector reports, a boundary lies in the buffer and makes progress:
  it either cuts a chunk or drains silence, never both, at least one sample and at most
  what is buffered.
\<close>
theorem vw_vad_find_chunk_boundary_progress:
  assumes "silero_within vctx pcm" "vw_vad_find_chunk_boundary vctx pcm eof = Some (ct, drn)"
  shows "ct \<le> length pcm \<and> drn \<le> length pcm \<and> 0 < ct + drn \<and> (ct = 0 \<or> drn = 0)"
proof -
  have ne: "pcm \<noteq> []" using assms(2) by (auto simp: vw_vad_find_chunk_boundary_def)
  consider "energy_boundary pcm eof = Some (ct, drn)"
    | vad segments where "vctx = Some vad" "vad pcm = (True, Some segments)"
      "silero_boundary (length pcm) eof (map (\<lambda>(t0, t1). (cs_to_sample t0, cs_to_sample t1)) segments) = Some (ct, drn)"
    using assms(2) ne unfolding vw_vad_find_chunk_boundary_def
    by (auto split: option.splits prod.splits bool.splits)
  then show ?thesis
  proof cases
    case 1
    with ne energy_boundary_bounds show ?thesis by blast
  next
    case 2
    with assms(1) ne silero_boundary_bounds[OF _ 2(3) silero_within_segs] show ?thesis by auto
  qed
qed

text \<open>
  Property C37.  The buffer cannot grow without bound: at the end of the stream, and as soon as
  24 s are buffered, a boundary is always found.
\<close>
theorem vw_vad_find_chunk_boundary_total:
  assumes "pcm \<noteq> []" "eof \<or> VW_CHUNK_MAX_SAMPLES \<le> length pcm"
  shows "\<exists>ct drn. vw_vad_find_chunk_boundary vctx pcm eof = Some (ct, drn)"
proof -
  have e: "energy_boundary pcm eof \<noteq> None"
    using assms by (auto simp: energy_boundary_def Let_def vad_limits)
  have s: "silero_boundary (length pcm) eof segs \<noteq> None" for segs
    using assms forced_cut_bounds[of segs] by (auto simp: silero_boundary_def Let_def vad_limits)
  show ?thesis
    using e s assms(1) unfolding vw_vad_find_chunk_boundary_def
    by (auto split: option.splits prod.splits bool.splits)
qed

text \<open>
  Property.  In a running stream with less than 24 s buffered, a chunk is only ct in a pause
  of at least 300 ms, behind the padded end of a speech segment and before the next one,
  and has at least 6 s: no word is clipped.
\<close>
theorem vw_vad_cut_in_pause:
  assumes "silero_within (Some vad) pcm" "vad pcm = (True, Some segments)" "length pcm < VW_CHUNK_MAX_SAMPLES"
    "vw_vad_find_chunk_boundary (Some vad) pcm False = Some (ct, drn)" "0 < ct"
  defines "segs \<equiv> map (\<lambda>(t0, t1). (cs_to_sample t0, cs_to_sample t1)) segments"
  shows "VW_CHUNK_MIN_SAMPLES \<le> ct \<and> (\<exists>i. cut_in_pause (length pcm) False segs ct i)"
proof -
  let ?n = "length pcm"
  have w: "list_all (\<lambda>(s, e). s \<le> ?n \<and> e \<le> ?n) segs"
    using silero_within_segs[OF assms(1,2)] by (simp add: segs_def)
  have b: "silero_boundary ?n False segs = Some (ct, drn)"
    using assms(2,4) by (auto simp: vw_vad_find_chunk_boundary_def segs_def split: if_splits)
  define g where "g = gap_cut ?n False segs"
  have g0: "g \<noteq> 0" and ct: "ct = (if g > ?n then ?n else g)"
    using b assms(3,5) by (auto simp: silero_boundary_def Let_def g_def [symmetric] split: if_splits)
  obtain i where i: "cut_in_pause ?n False segs g i" using gap_cut_pause[of ?n False segs] g0 g_def by auto
  have "g \<le> ?n"
  proof (cases "Suc i < length segs")
    case True
    then have "fst (segs ! Suc i) \<le> ?n" using w by (cases "segs ! Suc i") (auto simp: list_all_length)
    with True i show ?thesis by (simp add: cut_in_pause_def)
  next
    case False
    with i have "Suc i = length segs" by (simp add: cut_in_pause_def)
    with i show ?thesis by (simp add: cut_in_pause_def vad_limits)
  qed
  then have "ct = g" using ct by simp
  moreover have "VW_CHUNK_MIN_SAMPLES \<le> g" using i by (simp add: cut_in_pause_def)
  ultimately show ?thesis using i by blast
qed

text \<open>Witnesses: 101000 silent samples; a detector that reports one segment from 0 to 6 s.\<close>

definition six_seconds :: silero where
  "six_seconds pcm = (True, Some [(0, 0x44160000)])"

lemma six_seconds_samples: "cs_to_sample 0x44160000 = 96000" "cs_to_sample 0 = 0"
proof -
  have v: "f32_val 0x44160000 = 600" "f32_val 0 = 0"
    by (simp_all add: f32_val_def f32_sign_def f32_exp_def f32_man_def pow2_def)
  have "ilog2 96000 = 16" by (simp add: ilog2_def ilog2_nat.simps pow2_def)
  then have "rne 24 96000 = 96000" by (simp add: rne_def round_even_def pow2_def)
  then show "cs_to_sample 0x44160000 = 96000" "cs_to_sample 0 = 0"
    by (simp_all add: cs_to_sample_def v trunc0_def rne_def)
qed

definition long_pcm :: "rat list" where "long_pcm = replicate 101000 0"

lemma six_seconds_boundary: "vw_vad_find_chunk_boundary (Some six_seconds) long_pcm False = Some (99700, 0)"
  by (simp add: vw_vad_find_chunk_boundary_def six_seconds_def six_seconds_samples long_pcm_def
      silero_boundary_def Let_def vad_limits)

lemma six_seconds_within: "silero_within (Some six_seconds) long_pcm"
  by (simp add: silero_within_def six_seconds_def six_seconds_samples long_pcm_def)

theorem vw_vad_find_chunk_boundary_progress_witness:
  "silero_within (Some six_seconds) long_pcm
    \<and> vw_vad_find_chunk_boundary (Some six_seconds) long_pcm False = Some (99700, 0)
    \<and> 99700 \<le> length long_pcm"
  using vw_vad_find_chunk_boundary_progress[OF six_seconds_within six_seconds_boundary]
    six_seconds_within six_seconds_boundary by blast

theorem vw_vad_find_chunk_boundary_total_witness:
  "\<exists>ct drn. vw_vad_find_chunk_boundary None [0] True = Some (ct, drn)"
  using vw_vad_find_chunk_boundary_total[of "[0]" True None] by simp

theorem vw_vad_cut_in_pause_witness:
  "vw_vad_find_chunk_boundary (Some six_seconds) long_pcm False = Some (99700, 0)
    \<and> (\<exists>i. cut_in_pause (length long_pcm) False [(0, 96000)] 99700 i)"
proof -
  have v: "six_seconds long_pcm = (True, Some [(0, 0x44160000)])" by (simp add: six_seconds_def)
  have l: "length long_pcm < VW_CHUNK_MAX_SAMPLES" by (simp add: long_pcm_def vad_limits)
  from vw_vad_cut_in_pause[OF six_seconds_within v l six_seconds_boundary] six_seconds_boundary
  show ?thesis by (simp add: six_seconds_samples)
qed

text \<open>
  Property.  The pause behind a segment may be longer than the 24 s limit: two segments, at 0 to 20 s and
  from 40 s on, of a 42 s buffer give a chunk of about 30 s.
\<close>
theorem gap_cut_may_exceed_max:
  "silero_boundary 672000 False [(0, 320000), (640000, 672000)] = Some (480000, 0)
   \<and> VW_CHUNK_MAX_SAMPLES < 480000"
  by (simp add: silero_boundary_def Let_def vad_limits)

end
