(* ===== verification/VW_Translate_Types.thy ===== *)
theory VW_Translate_Types
  imports VW_Types
begin

text \<open>\<^verbatim>\<open>worker/include/vw_translate.h\<close>: the limits of the translator and its failure report.\<close>

definition VW_TRANSLATE_MAX_TEXT_BYTES :: nat where "VW_TRANSLATE_MAX_TEXT_BYTES = 1024"
definition VW_TRANSLATE_MAX_URL_BYTES :: nat where "VW_TRANSLATE_MAX_URL_BYTES = 4096"
definition VW_TRANSLATE_MAX_RESPONSE_BYTES :: nat where "VW_TRANSLATE_MAX_RESPONSE_BYTES = 65536"
definition VW_TRANSLATE_TIMEOUT_MS :: nat where "VW_TRANSLATE_TIMEOUT_MS = 800"

abbreviation (input) VW_TRANSLATE_TIER_NONE :: u8 where "VW_TRANSLATE_TIER_NONE \<equiv> 0"
abbreviation (input) VW_TRANSLATE_TIER_WEB_RPC :: u8 where "VW_TRANSLATE_TIER_WEB_RPC \<equiv> 1"
abbreviation (input) VW_TRANSLATE_TIER_GTX :: u8 where "VW_TRANSLATE_TIER_GTX \<equiv> 2"
abbreviation (input) VW_TRANSLATE_TIER_MOBILE_SCRAPE :: u8 where "VW_TRANSLATE_TIER_MOBILE_SCRAPE \<equiv> 3"

datatype vw_translate_failure_cause =
    VW_TRANSLATE_FAILURE_NONE
  | VW_TRANSLATE_FAILURE_PROVIDER
  | VW_TRANSLATE_FAILURE_TRANSPORT
  | VW_TRANSLATE_FAILURE_PARSE
  | VW_TRANSLATE_FAILURE_DEADLINE
  | VW_TRANSLATE_FAILURE_LOCAL

record vw_translate_failure =
  tf_cause :: vw_translate_failure_cause
  tf_terminal_tier :: u8
  tf_attempted_tiers :: u8
  tf_provider_status :: u16

definition zero_failure :: vw_translate_failure where
  "zero_failure = \<lparr>tf_cause = VW_TRANSLATE_FAILURE_NONE, tf_terminal_tier = 0, tf_attempted_tiers = 0,
     tf_provider_status = 0\<rparr>"

end
