(* ===== verification/VW_Translate_Async.thy ===== *)
theory VW_Translate_Async
  imports VW_Translate_Types "HOL-Library.Multiset"
begin

text \<open>
  \<^verbatim>\<open>worker/src/vw_translate_async.c\<close>: the translation pipeline.  The worker loop submits cues
  and pops completions; four threads take jobs, translate them without the lock and put
  back completions.  Every critical section is one function on the shared record; a job
  between the two sections of a thread is an element of the thread list of the system.
  The outcome of a translation is an argument of the step that completes it.
\<close>

definition VW_TRANSLATE_ASYNC_ACTIVE_BUDGET :: nat where "VW_TRANSLATE_ASYNC_ACTIVE_BUDGET = 4"
definition VW_TRANSLATE_ASYNC_QUEUE_CAPACITY :: nat where "VW_TRANSLATE_ASYNC_QUEUE_CAPACITY = 32"
definition VW_TRANSLATE_ASYNC_RESULT_CAPACITY :: nat where
  "VW_TRANSLATE_ASYNC_RESULT_CAPACITY = VW_TRANSLATE_ASYNC_QUEUE_CAPACITY + 2"

lemmas async_limits = VW_TRANSLATE_ASYNC_ACTIVE_BUDGET_def VW_TRANSLATE_ASYNC_QUEUE_CAPACITY_def
  VW_TRANSLATE_ASYNC_RESULT_CAPACITY_def

section \<open>State\<close>

record vw_translate_job =
  tj_epoch :: u64
  tj_ordinal :: u64
  tj_segment :: vw_caption_segment
  tj_source_text :: bytes
  tj_source_lang :: bytes
  tj_target_lang :: bytes
  tj_skip_translation :: bool

record vw_translate_async_result =
  tr_epoch :: u64
  tr_segment :: vw_caption_segment
  tr_source_text :: bytes
  tr_translated_text :: bytes
  tr_failure :: vw_translate_failure
  tr_attempted :: bool
  tr_success :: bool

record vw_translate_async_completion =
  co_ordinal :: u64
  co_result :: vw_translate_async_result

record vw_translate_async =
  ta_stopping :: bool
  ta_epoch :: u64
  ta_next_submit_ordinal :: u64
  ta_next_result_ordinal :: u64
  ta_jobs :: "vw_translate_job list"
  ta_job_head :: nat
  ta_job_tail :: nat
  ta_job_count :: nat
  ta_inflight_count :: nat
  ta_active_translation_count :: nat
  ta_results :: "vw_translate_async_completion list"
  ta_result_head :: nat
  ta_result_tail :: nat
  ta_result_count :: nat

definition zero_cue :: vw_caption_segment where
  "zero_cue = \<lparr>cs_session_id = replicate 16 0, cs_segment_id = 0, cs_start_pts_us = 0, cs_end_pts_us = 0,
     cs_is_final = False, cs_text_utf8 = None, cs_text_bytes = 0, cs_translated_text_utf8 = None,
     cs_translated_text_bytes = 0, cs_translation_attempted = False, cs_translation_latency_us = 0,
     cs_translation_tier = 0\<rparr>"

definition zero_job :: vw_translate_job where
  "zero_job = \<lparr>tj_epoch = 0, tj_ordinal = 0, tj_segment = zero_cue, tj_source_text = [], tj_source_lang = [],
     tj_target_lang = [], tj_skip_translation = False\<rparr>"

definition zero_result :: vw_translate_async_result where
  "zero_result = \<lparr>tr_epoch = 0, tr_segment = zero_cue, tr_source_text = [], tr_translated_text = [],
     tr_failure = zero_failure, tr_attempted = False, tr_success = False\<rparr>"

section \<open>The completion ring\<close>

definition vw_translate_async_next_ordinal :: "u64 \<Rightarrow> u64" where
  "vw_translate_async_next_ordinal ordinal = (if ordinal = - 1 then 1 else ordinal + 1)"

definition vw_translate_async_push_result_locked ::
  "vw_translate_async \<Rightarrow> u64 \<Rightarrow> vw_translate_async_result \<Rightarrow> vw_translate_async" where
  "vw_translate_async_push_result_locked a ordinal result =
     (if ta_result_count a \<ge> VW_TRANSLATE_ASYNC_RESULT_CAPACITY then a
      else a\<lparr>ta_results := (ta_results a)[ta_result_head a := \<lparr>co_ordinal = ordinal, co_result = result\<rparr>],
             ta_result_head := (ta_result_head a + 1) mod VW_TRANSLATE_ASYNC_RESULT_CAPACITY,
             ta_result_count := ta_result_count a + 1\<rparr>)"

fun find_result_loop :: "vw_translate_async_completion list \<Rightarrow> u64 \<Rightarrow> nat \<Rightarrow> nat \<Rightarrow> nat option" where
  "find_result_loop results next_ordinal index 0 = None"
| "find_result_loop results next_ordinal index (Suc n) =
     (if co_ordinal (results ! index) = next_ordinal then Some index
      else find_result_loop results next_ordinal ((index + 1) mod VW_TRANSLATE_ASYNC_RESULT_CAPACITY) n)"

definition vw_translate_async_find_next_result_locked :: "vw_translate_async \<Rightarrow> nat option" where
  "vw_translate_async_find_next_result_locked a =
     find_result_loop (ta_results a) (ta_next_result_ordinal a) (ta_result_tail a) (ta_result_count a)"

text \<open>
  The loop that closes the gap.  It stops when the next index reaches the head, which takes
  fewer iterations than the ring has slots: the first argument bounds them.
\<close>

fun shift_results ::
  "nat \<Rightarrow> vw_translate_async_completion list \<Rightarrow> nat \<Rightarrow> nat \<Rightarrow> vw_translate_async_completion list" where
  "shift_results 0 results move_index head = results"
| "shift_results (Suc fuel) results move_index head =
     (let next_index = (move_index + 1) mod VW_TRANSLATE_ASYNC_RESULT_CAPACITY in
      if next_index \<noteq> head then shift_results fuel (results[move_index := results ! next_index]) next_index head
      else results)"

definition vw_translate_async_remove_result_locked :: "vw_translate_async \<Rightarrow> nat \<Rightarrow> vw_translate_async" where
  "vw_translate_async_remove_result_locked a completion_index =
     a\<lparr>ta_results := shift_results VW_TRANSLATE_ASYNC_RESULT_CAPACITY (ta_results a) completion_index (ta_result_head a),
       ta_result_head := (ta_result_head a + VW_TRANSLATE_ASYNC_RESULT_CAPACITY - 1) mod VW_TRANSLATE_ASYNC_RESULT_CAPACITY,
       ta_result_count := ta_result_count a - 1,
       ta_next_result_ordinal := vw_translate_async_next_ordinal (ta_next_result_ordinal a)\<rparr>"

definition vw_translate_async_bind_result_text :: "vw_translate_async_result \<Rightarrow> vw_translate_async_result" where
  "vw_translate_async_bind_result_text r =
     (let seg = (tr_segment r)\<lparr>cs_text_utf8 := Some (tr_source_text r), cs_translation_attempted := tr_attempted r\<rparr>
      in r\<lparr>tr_segment :=
           (if tr_success r \<and> c_get (tr_translated_text r) 0 \<noteq> 0 then
              seg\<lparr>cs_translated_text_utf8 := Some (tr_translated_text r),
                  cs_translated_text_bytes := of_nat (strlen (tr_translated_text r))\<rparr>
            else seg\<lparr>cs_translated_text_utf8 := None, cs_translated_text_bytes := 0,
                  cs_translation_tier := VW_TRANSLATE_TIER_NONE\<rparr>)\<rparr>)"

section \<open>The worker threads\<close>

text \<open>First critical section: \<open>None\<close> when there is no job, and the thread waits or leaves.\<close>

definition take_job :: "vw_translate_async \<Rightarrow> (vw_translate_job \<times> vw_translate_async) option" where
  "take_job a =
     (if ta_job_count a = 0 then None
      else Some (ta_jobs a ! ta_job_tail a,
        a\<lparr>ta_job_tail := (ta_job_tail a + 1) mod VW_TRANSLATE_ASYNC_QUEUE_CAPACITY,
          ta_job_count := ta_job_count a - 1,
          ta_inflight_count := ta_inflight_count a + 1\<rparr>))"

text \<open>What \<^verbatim>\<open>vw_translate_text_detailed\<close> returned.\<close>

record translate_outcome =
  to_success :: bool
  to_text :: bytes
  to_tier :: u8
  to_latency_us :: u32
  to_failure :: vw_translate_failure

text \<open>Between the critical sections.\<close>

definition run_job :: "vw_translate_job \<Rightarrow> translate_outcome \<Rightarrow> vw_translate_async_result" where
  "run_job job out =
     (let result = zero_result\<lparr>tr_epoch := tj_epoch job,
            tr_segment := (tj_segment job)\<lparr>cs_text_utf8 := Some (tj_source_text job), cs_translated_text_utf8 := None,
              cs_translated_text_bytes := 0, cs_translation_tier := VW_TRANSLATE_TIER_NONE,
              cs_translation_latency_us := 0\<rparr>,
            tr_source_text := tj_source_text job, tr_attempted := True\<rparr>
      in if tj_skip_translation job then
           vw_translate_async_bind_result_text
             (result\<lparr>tr_success := False,
                tr_failure := (tr_failure result)\<lparr>tf_cause := VW_TRANSLATE_FAILURE_LOCAL\<rparr>\<rparr>)
         else
           vw_translate_async_bind_result_text
             (result\<lparr>tr_success := to_success out, tr_translated_text := to_text out, tr_failure := to_failure out,
                tr_segment := (tr_segment result)\<lparr>cs_translation_latency_us := to_latency_us out,
                  cs_translation_tier := (if to_success out then to_tier out else VW_TRANSLATE_TIER_NONE)\<rparr>\<rparr>))"

text \<open>Second critical section.\<close>

definition complete_job ::
  "vw_translate_async \<Rightarrow> vw_translate_job \<Rightarrow> vw_translate_async_result \<Rightarrow> vw_translate_async" where
  "complete_job a job result =
     (let a = (if \<not> tj_skip_translation job \<and> tj_epoch job = ta_epoch a \<and> ta_active_translation_count a > 0
               then a\<lparr>ta_active_translation_count := ta_active_translation_count a - 1\<rparr> else a);
          a = (if \<not> ta_stopping a \<and> tr_epoch result = ta_epoch a
               then vw_translate_async_push_result_locked a (tj_ordinal job) result else a)
      in a\<lparr>ta_inflight_count := ta_inflight_count a - 1\<rparr>)"

section \<open>The worker loop\<close>

text \<open>\<open>ok\<close>: the mutex, the condition variable and the threads could be created.\<close>

definition vw_translate_async_create :: "bool \<Rightarrow> vw_translate_async option" where
  "vw_translate_async_create ok =
     (if \<not> ok then None
      else Some \<lparr>ta_stopping = False, ta_epoch = 1, ta_next_submit_ordinal = 1, ta_next_result_ordinal = 1,
        ta_jobs = replicate VW_TRANSLATE_ASYNC_QUEUE_CAPACITY zero_job, ta_job_head = 0, ta_job_tail = 0,
        ta_job_count = 0, ta_inflight_count = 0, ta_active_translation_count = 0,
        ta_results = replicate VW_TRANSLATE_ASYNC_RESULT_CAPACITY \<lparr>co_ordinal = 0, co_result = zero_result\<rparr>,
        ta_result_head = 0, ta_result_tail = 0, ta_result_count = 0\<rparr>)"

text \<open>The state the threads see while they are being joined.\<close>

definition vw_translate_async_destroy :: "vw_translate_async \<Rightarrow> vw_translate_async" where
  "vw_translate_async_destroy a =
     a\<lparr>ta_stopping := True, ta_job_head := 0, ta_job_tail := 0, ta_job_count := 0,
       ta_active_translation_count := 0, ta_result_head := 0, ta_result_tail := 0, ta_result_count := 0\<rparr>"

definition vw_translate_async_invalidate :: "vw_translate_async \<Rightarrow> vw_translate_async" where
  "vw_translate_async_invalidate a =
     a\<lparr>ta_epoch := (if ta_epoch a = - 1 then 1 else ta_epoch a + 1),
       ta_next_submit_ordinal := 1, ta_next_result_ordinal := 1,
       ta_job_head := 0, ta_job_tail := 0, ta_job_count := 0,
       ta_result_head := 0, ta_result_tail := 0, ta_result_count := 0,
       ta_active_translation_count := 0\<rparr>"

text \<open>The oldest waiting job completes as source text.\<close>

definition evicted_result :: "vw_translate_job \<Rightarrow> vw_translate_async_result" where
  "evicted_result oldest =
     vw_translate_async_bind_result_text
       (zero_result\<lparr>tr_epoch := tj_epoch oldest,
          tr_segment := (tj_segment oldest)\<lparr>cs_text_utf8 := Some (tj_source_text oldest)\<rparr>,
          tr_source_text := tj_source_text oldest, tr_attempted := True, tr_success := False,
          tr_failure := zero_failure\<lparr>tf_cause := VW_TRANSLATE_FAILURE_LOCAL\<rparr>\<rparr>)"

definition evict_oldest :: "vw_translate_async \<Rightarrow> vw_translate_async" where
  "evict_oldest a =
     (let oldest = ta_jobs a ! ta_job_tail a;
          a = a\<lparr>ta_job_tail := (ta_job_tail a + 1) mod VW_TRANSLATE_ASYNC_QUEUE_CAPACITY,
                ta_job_count := ta_job_count a - 1\<rparr>;
          a = (if \<not> tj_skip_translation oldest \<and> ta_active_translation_count a > 0
               then a\<lparr>ta_active_translation_count := ta_active_translation_count a - 1\<rparr> else a)
      in vw_translate_async_push_result_locked a (tj_ordinal oldest) (evicted_result oldest))"

definition lang_or :: "bytes option \<Rightarrow> string \<Rightarrow> bytes" where
  "lang_or lang dflt = take 15 (case lang of Some l \<Rightarrow> if c_get l 0 \<noteq> 0 then c_str l else ascii dflt | None \<Rightarrow> ascii dflt)"

definition make_job ::
  "vw_translate_async \<Rightarrow> vw_caption_segment \<Rightarrow> bytes \<Rightarrow> bytes option \<Rightarrow> bytes option \<Rightarrow> bool \<Rightarrow> vw_translate_job" where
  "make_job a segment s source_lang target_lang skip =
     zero_job\<lparr>tj_epoch := ta_epoch a, tj_ordinal := ta_next_submit_ordinal a,
       tj_segment := segment\<lparr>cs_text_utf8 := Some (c_str s), cs_text_bytes := of_nat (strlen s),
         cs_translated_text_utf8 := None, cs_translated_text_bytes := 0\<rparr>,
       tj_skip_translation := skip, tj_source_text := c_str s,
       tj_source_lang := lang_or source_lang ''auto'', tj_target_lang := lang_or target_lang ''en''\<rparr>"

definition enqueue_job :: "vw_translate_async \<Rightarrow> vw_translate_job \<Rightarrow> vw_translate_async" where
  "enqueue_job a job =
     a\<lparr>ta_jobs := (ta_jobs a)[ta_job_head a := job],
       ta_next_submit_ordinal := vw_translate_async_next_ordinal (ta_next_submit_ordinal a),
       ta_active_translation_count := ta_active_translation_count a + (if tj_skip_translation job then 0 else 1),
       ta_job_head := (ta_job_head a + 1) mod VW_TRANSLATE_ASYNC_QUEUE_CAPACITY,
       ta_job_count := ta_job_count a + 1\<rparr>"

definition vw_translate_async_submit ::
  "vw_translate_async \<Rightarrow> vw_caption_segment \<Rightarrow> bytes option \<Rightarrow> bytes option \<Rightarrow> bool \<times> vw_translate_async" where
  "vw_translate_async_submit a segment source_lang target_lang =
     (case cs_text_utf8 segment of
        None \<Rightarrow> (False, a)
      | Some s \<Rightarrow>
          if c_get s 0 = 0 then (False, a)
          else if strlen s = 0 \<or> strlen s > VW_MAX_TEXT_BYTES then (False, a)
          else if ta_stopping a then (False, a)
          else if ta_job_count a + ta_inflight_count a + ta_result_count a \<ge> VW_TRANSLATE_ASYNC_RESULT_CAPACITY
            then (False, a)
          else
            let skip = (ta_active_translation_count a \<ge> VW_TRANSLATE_ASYNC_ACTIVE_BUDGET);
                a = (if ta_job_count a \<ge> VW_TRANSLATE_ASYNC_QUEUE_CAPACITY then evict_oldest a else a)
            in (True, enqueue_job a (make_job a segment s source_lang target_lang skip)))"

definition vw_translate_async_has_result :: "vw_translate_async \<Rightarrow> bool" where
  "vw_translate_async_has_result a \<longleftrightarrow> vw_translate_async_find_next_result_locked a \<noteq> None"

definition vw_translate_async_has_pending :: "vw_translate_async \<Rightarrow> bool" where
  "vw_translate_async_has_pending a \<longleftrightarrow> ta_job_count a \<noteq> 0 \<or> ta_inflight_count a \<noteq> 0 \<or> ta_result_count a \<noteq> 0"

definition vw_translate_async_try_pop ::
  "vw_translate_async \<Rightarrow> (vw_translate_async_result \<times> vw_translate_async) option" where
  "vw_translate_async_try_pop a =
     (if ta_result_count a = 0 then None
      else case vw_translate_async_find_next_result_locked a of
          None \<Rightarrow> None
        | Some i \<Rightarrow> Some (vw_translate_async_bind_result_text (co_result (ta_results a ! i)),
                        vw_translate_async_remove_result_locked a i))"

text \<open>The first component is what was handed to the callback.\<close>

definition vw_translate_async_try_deliver ::
  "vw_translate_async \<Rightarrow> vw_translate_async_result option \<times> vw_translate_async" where
  "vw_translate_async_try_deliver a =
     (case vw_translate_async_find_next_result_locked a of
        None \<Rightarrow> (None, a)
      | Some i \<Rightarrow>
          let result = co_result (ta_results a ! i)
          in if tr_epoch result \<noteq> ta_epoch a then (None, vw_translate_async_remove_result_locked a i)
             else (Some (vw_translate_async_bind_result_text result), vw_translate_async_remove_result_locked a i))"

section \<open>The rings as lists\<close>

definition job_list :: "vw_translate_async \<Rightarrow> vw_translate_job list" where
  "job_list a = ring_slice (ta_jobs a) (ta_job_tail a) (ta_job_count a)"

definition result_list :: "vw_translate_async \<Rightarrow> vw_translate_async_completion list" where
  "result_list a = ring_slice (ta_results a) (ta_result_tail a) (ta_result_count a)"

definition ring_ok :: "nat \<Rightarrow> 'a list \<Rightarrow> nat \<Rightarrow> nat \<Rightarrow> nat \<Rightarrow> bool" where
  "ring_ok n buf head tail cnt \<longleftrightarrow> 0 < n \<and> length buf = n \<and> tail < n \<and> cnt \<le> n \<and> head = (tail + cnt) mod n"

definition rings_ok :: "vw_translate_async \<Rightarrow> bool" where
  "rings_ok a \<longleftrightarrow>
     ring_ok VW_TRANSLATE_ASYNC_QUEUE_CAPACITY (ta_jobs a) (ta_job_head a) (ta_job_tail a) (ta_job_count a)
     \<and> ring_ok VW_TRANSLATE_ASYNC_RESULT_CAPACITY (ta_results a) (ta_result_head a) (ta_result_tail a) (ta_result_count a)"

lemma ring_ok_push:
  assumes "ring_ok n buf head tail cnt" "cnt < n"
  shows "ring_ok n (buf[head := x]) ((head + 1) mod n) tail (cnt + 1)"
    and "ring_slice (buf[head := x]) tail (cnt + 1) = ring_slice buf tail cnt @ [x]"
  using assms ring_slice_write[of cnt buf tail x] by (auto simp: ring_ok_def mod_Suc_eq)

lemma ring_ok_pop:
  assumes "ring_ok n buf head tail cnt" "0 < cnt"
  shows "ring_ok n buf head ((tail + 1) mod n) (cnt - 1)"
    and "ring_slice buf tail cnt = buf ! tail # ring_slice buf ((tail + 1) mod n) (cnt - 1)"
proof -
  obtain c where c: "cnt = Suc c" using assms(2) by (cases cnt) auto
  show "ring_ok n buf head ((tail + 1) mod n) (cnt - 1)"
    using assms c by (auto simp: ring_ok_def mod_add_left_eq)
  show "ring_slice buf tail cnt = buf ! tail # ring_slice buf ((tail + 1) mod n) (cnt - 1)"
    using assms c ring_slice_Suc[of buf tail c] ring_slice_mod[of buf "Suc tail" c] by (auto simp: ring_ok_def)
qed

lemma ring_slice_update:
  assumes "k < cnt" "cnt \<le> length buf"
  shows "ring_slice (buf[(start + k) mod length buf := x]) start cnt = (ring_slice buf start cnt)[k := x]"
proof (rule nth_equalityI)
  fix i assume "i < length (ring_slice (buf[(start + k) mod length buf := x]) start cnt)"
  then have i: "i < cnt" by simp
  show "ring_slice (buf[(start + k) mod length buf := x]) start cnt ! i = (ring_slice buf start cnt)[k := x] ! i"
  proof (cases "i = k")
    case True
    moreover have "(start + k) mod length buf < length buf" using assms by (intro mod_less_divisor) linarith
    ultimately show ?thesis using i by simp
  next
    case False
    then have "(start + i) mod length buf \<noteq> (start + k) mod length buf"
      using i assms by (intro ring_slot_neq) auto
    with False i show ?thesis by simp
  qed
qed simp

section \<open>Searching and removing completions\<close>

lemma find_result_Some:
  assumes "find_result_loop buf ordinal (start mod VW_TRANSLATE_ASYNC_RESULT_CAPACITY) n = Some i"
    "length buf = VW_TRANSLATE_ASYNC_RESULT_CAPACITY"
  shows "\<exists>k < n. i = (start + k) mod VW_TRANSLATE_ASYNC_RESULT_CAPACITY \<and> co_ordinal (ring_slice buf start n ! k) = ordinal"
  using assms(1)
proof (induction n arbitrary: start)
  case 0
  then show ?case by simp
next
  case (Suc n)
  show ?case
  proof (cases "co_ordinal (buf ! (start mod VW_TRANSLATE_ASYNC_RESULT_CAPACITY)) = ordinal")
    case True
    with Suc.prems assms(2) show ?thesis by (intro exI[of _ 0]) simp
  next
    case False
    with Suc.prems have "find_result_loop buf ordinal (Suc start mod VW_TRANSLATE_ASYNC_RESULT_CAPACITY) n = Some i"
      by (simp add: mod_Suc_eq)
    from Suc.IH[OF this] obtain k where "k < n" "i = (Suc start + k) mod VW_TRANSLATE_ASYNC_RESULT_CAPACITY"
      "co_ordinal (ring_slice buf (Suc start) n ! k) = ordinal" by blast
    then show ?thesis by (intro exI[of _ "Suc k"]) simp
  qed
qed

lemma find_result_None:
  assumes "find_result_loop buf ordinal (start mod VW_TRANSLATE_ASYNC_RESULT_CAPACITY) n = None"
    "length buf = VW_TRANSLATE_ASYNC_RESULT_CAPACITY"
  shows "ordinal \<notin> co_ordinal ` set (ring_slice buf start n)"
  using assms(1)
proof (induction n arbitrary: start)
  case 0
  then show ?case by simp
next
  case (Suc n)
  then have ne: "co_ordinal (buf ! (start mod VW_TRANSLATE_ASYNC_RESULT_CAPACITY)) \<noteq> ordinal"
    and "find_result_loop buf ordinal (Suc start mod VW_TRANSLATE_ASYNC_RESULT_CAPACITY) n = None"
    by (auto simp: mod_Suc_eq split: if_splits)
  with Suc.IH[of "Suc start"] assms(2) show ?case by (auto simp: ring_slice_Suc)
qed

lemma shift_results_removes:
  assumes "length buf = VW_TRANSLATE_ASYNC_RESULT_CAPACITY" "cnt \<le> VW_TRANSLATE_ASYNC_RESULT_CAPACITY" "k < cnt"
    "cnt - Suc k \<le> fuel"
  shows "length (shift_results fuel buf ((start + k) mod VW_TRANSLATE_ASYNC_RESULT_CAPACITY)
        ((start + cnt) mod VW_TRANSLATE_ASYNC_RESULT_CAPACITY)) = VW_TRANSLATE_ASYNC_RESULT_CAPACITY
    \<and> ring_slice (shift_results fuel buf ((start + k) mod VW_TRANSLATE_ASYNC_RESULT_CAPACITY)
        ((start + cnt) mod VW_TRANSLATE_ASYNC_RESULT_CAPACITY)) start (cnt - 1)
      = take k (ring_slice buf start cnt) @ drop (Suc k) (ring_slice buf start cnt)"
  using assms
proof (induction fuel arbitrary: buf k)
  case 0
  then have "cnt = Suc k" by simp
  with 0 show ?case by (simp add: ring_slice_Suc_last)
next
  case (Suc fuel)
  let ?n = VW_TRANSLATE_ASYNC_RESULT_CAPACITY
  have next_index: "((start + k) mod ?n + 1) mod ?n = (start + Suc k) mod ?n" by (simp add: mod_Suc_eq)
  show ?case
  proof (cases "Suc k = cnt")
    case True
    then have "take k (ring_slice buf start cnt) = ring_slice buf start k"
      using ring_slice_Suc_last[of buf start k] by simp
    with True Suc.prems show ?thesis using next_index by (simp add: Let_def del: add_Suc_right) auto
  next
    case False
    then have lt: "Suc k < cnt" using Suc.prems by simp
    have ne: "(start + Suc k) mod ?n \<noteq> (start + cnt) mod ?n"
    proof (cases "cnt = ?n")
      case True
      then have "(start + cnt) mod ?n = (start + 0) mod ?n" by simp
      moreover have "(start + Suc k) mod ?n \<noteq> (start + 0) mod ?n" using lt True by (intro ring_slot_neq) auto
      ultimately show ?thesis by simp
    next
      case False
      then show ?thesis using lt Suc.prems(2) by (intro ring_slot_neq) auto
    qed
    let ?x = "buf ! ((start + Suc k) mod ?n)"
    let ?buf = "buf[(start + k) mod ?n := ?x]"
    have sl: "ring_slice ?buf start cnt = (ring_slice buf start cnt)[k := ?x]"
      using ring_slice_update[of k cnt buf start ?x] Suc.prems by simp
    have x: "?x = ring_slice buf start cnt ! Suc k" using lt Suc.prems(1) by simp
    have step: "shift_results (Suc fuel) buf ((start + k) mod ?n) ((start + cnt) mod ?n)
        = shift_results fuel ?buf ((start + Suc k) mod ?n) ((start + cnt) mod ?n)"
      using ne by (simp only: shift_results.simps Let_def next_index not_False_eq_True if_True)
    have ih: "ring_slice (shift_results fuel ?buf ((start + Suc k) mod ?n) ((start + cnt) mod ?n)) start (cnt - 1)
        = take (Suc k) (ring_slice ?buf start cnt) @ drop (Suc (Suc k)) (ring_slice ?buf start cnt)"
      "length (shift_results fuel ?buf ((start + Suc k) mod ?n) ((start + cnt) mod ?n)) = ?n"
      using Suc.IH[of ?buf "Suc k"] Suc.prems lt by simp_all
    have "take (Suc k) ((ring_slice buf start cnt)[k := ?x]) = take k (ring_slice buf start cnt) @ [?x]"
      using lt by (simp add: take_Suc_conv_app_nth take_update_cancel)
    moreover have "drop (Suc k) (ring_slice buf start cnt) = ?x # drop (Suc (Suc k)) (ring_slice buf start cnt)"
      unfolding x using lt by (intro Cons_nth_drop_Suc[symmetric]) simp
    ultimately show ?thesis unfolding step using ih unfolding sl by simp
  qed
qed

lemma remove_result_list:
  assumes "rings_ok a" "k < ta_result_count a" "i = (ta_result_tail a + k) mod VW_TRANSLATE_ASYNC_RESULT_CAPACITY"
  defines "a' \<equiv> vw_translate_async_remove_result_locked a i"
  shows "rings_ok a'" and "job_list a' = job_list a"
    and "result_list a' = take k (result_list a) @ drop (Suc k) (result_list a)"
proof -
  let ?n = VW_TRANSLATE_ASYNC_RESULT_CAPACITY
  have ok: "ring_ok ?n (ta_results a) (ta_result_head a) (ta_result_tail a) (ta_result_count a)"
    using assms(1) by (simp add: rings_ok_def)
  have "ta_result_count a - Suc k \<le> ?n" using ok unfolding ring_ok_def by linarith
  note sh = shift_results_removes[OF _ _ assms(2) this, of "ta_results a" "ta_result_tail a"]
  have hd: "(ta_result_head a + ?n - 1) mod ?n = (ta_result_tail a + (ta_result_count a - 1)) mod ?n"
  proof -
    have "0 < ?n" by (simp add: async_limits)
    then have "ta_result_head a + ?n - 1 = (ta_result_tail a + ta_result_count a) mod ?n + (?n - 1)"
      using ok by (simp add: ring_ok_def)
    then have "(ta_result_head a + ?n - 1) mod ?n = (ta_result_tail a + ta_result_count a + (?n - 1)) mod ?n"
      by (simp add: mod_add_left_eq)
    also have "ta_result_tail a + ta_result_count a + (?n - 1) = ta_result_tail a + (ta_result_count a - 1) + ?n"
      using assms(2) \<open>0 < ?n\<close> by simp
    finally show ?thesis by (simp only: mod_add_self2)
  qed
  show "rings_ok a'"
    using assms(1) sh ok hd assms(3)
    by (auto simp: a'_def rings_ok_def vw_translate_async_remove_result_locked_def ring_ok_def)
  show "job_list a' = job_list a" by (simp add: a'_def job_list_def vw_translate_async_remove_result_locked_def)
  show "result_list a' = take k (result_list a) @ drop (Suc k) (result_list a)"
    using sh ok assms(3) by (simp add: a'_def result_list_def vw_translate_async_remove_result_locked_def ring_ok_def)
qed

lemma push_result_list:
  fixes ordinal :: u64 and res :: vw_translate_async_result
  assumes "rings_ok a" "ta_result_count a < VW_TRANSLATE_ASYNC_RESULT_CAPACITY"
  defines "a' \<equiv> vw_translate_async_push_result_locked a ordinal res"
  shows "rings_ok a'" and "job_list a' = job_list a"
    and "result_list a' = result_list a @ [\<lparr>co_ordinal = ordinal, co_result = res\<rparr>]"
    and "ta_result_count a' = ta_result_count a + 1"
proof -
  have ok: "ring_ok VW_TRANSLATE_ASYNC_RESULT_CAPACITY (ta_results a) (ta_result_head a) (ta_result_tail a) (ta_result_count a)"
    using assms(1) by (simp add: rings_ok_def)
  note p = ring_ok_push[OF ok assms(2)]
  show "rings_ok a'" "job_list a' = job_list a" "ta_result_count a' = ta_result_count a + 1"
    "result_list a' = result_list a @ [\<lparr>co_ordinal = ordinal, co_result = res\<rparr>]"
    using assms(1,2) p
    by (simp_all add: a'_def vw_translate_async_push_result_locked_def rings_ok_def job_list_def result_list_def)
qed


lemma take_job_list:
  assumes "rings_ok a" "take_job a = Some (j, a')"
  shows "rings_ok a'" and "job_list a = j # job_list a'" and "result_list a' = result_list a"
    and "ta_job_count a' = ta_job_count a - 1" and "ta_job_count a > 0"
proof -
  have ok: "ring_ok VW_TRANSLATE_ASYNC_QUEUE_CAPACITY (ta_jobs a) (ta_job_head a) (ta_job_tail a) (ta_job_count a)"
    using assms(1) by (simp add: rings_ok_def)
  have pos: "0 < ta_job_count a" using assms(2) by (auto simp: take_job_def split: if_splits)
  note p = ring_ok_pop[OF ok pos]
  show "rings_ok a'" "job_list a = j # job_list a'" "result_list a' = result_list a"
    "ta_job_count a' = ta_job_count a - 1" "ta_job_count a > 0"
    using assms p pos by (auto simp: take_job_def rings_ok_def job_list_def result_list_def)
qed

lemma enqueue_job_list:
  assumes "rings_ok a" "ta_job_count a < VW_TRANSLATE_ASYNC_QUEUE_CAPACITY"
  shows "rings_ok (enqueue_job a j)" and "job_list (enqueue_job a j) = job_list a @ [j]"
    and "result_list (enqueue_job a j) = result_list a"
proof -
  have ok: "ring_ok VW_TRANSLATE_ASYNC_QUEUE_CAPACITY (ta_jobs a) (ta_job_head a) (ta_job_tail a) (ta_job_count a)"
    using assms(1) by (simp add: rings_ok_def)
  note p = ring_ok_push[OF ok assms(2)]
  show "rings_ok (enqueue_job a j)" "job_list (enqueue_job a j) = job_list a @ [j]"
    "result_list (enqueue_job a j) = result_list a"
    using assms(1) p by (simp_all add: enqueue_job_def rings_ok_def job_list_def result_list_def)
qed

section \<open>Ordinals\<close>

text \<open>The \<open>k\<close>-th ordinal handed out; zero is skipped when the counter wraps.\<close>

definition ord :: "nat \<Rightarrow> u64" where
  "ord k = of_nat (k mod (2 ^ 64 - 1) + 1)"

lemma unat_ord: "unat (ord k) = k mod (2 ^ 64 - 1) + 1"
proof -
  have "k mod (2 ^ 64 - 1) < 2 ^ 64 - 1" by (rule mod_less_divisor) simp
  then show ?thesis unfolding ord_def unat_of_nat by simp
qed

lemma unat_u64_max: "unat (- 1 :: u64) = 2 ^ 64 - 1"
  by (simp add: unsigned_minus_1_eq_mask mask_eq_exp_minus_1)

lemma ord_0: "ord 0 = 1"
  by (simp add: ord_def)

lemma ord_Suc: "vw_translate_async_next_ordinal (ord k) = ord (Suc k)"
proof (cases "Suc (k mod (2 ^ 64 - 1)) = 2 ^ 64 - 1")
  case True
  then have "unat (ord k) = unat (- 1 :: u64)" by (simp add: unat_ord unat_u64_max)
  then have "ord k = - 1" by (rule unsigned_word_eqI)
  moreover have "ord (Suc k) = 1" using True by (simp add: ord_def mod_Suc)
  ultimately show ?thesis by (simp add: vw_translate_async_next_ordinal_def)
next
  case False
  then have s: "Suc k mod (2 ^ 64 - 1) = Suc (k mod (2 ^ 64 - 1))" by (simp add: mod_Suc)
  have "ord k \<noteq> - 1"
  proof
    assume "ord k = - 1"
    then have "unat (ord k) = 2 ^ 64 - 1" by (simp add: unat_u64_max)
    with False show False by (simp add: unat_ord)
  qed
  moreover have "ord k + 1 = ord (Suc k)" unfolding ord_def s by simp
  ultimately show ?thesis by (simp add: vw_translate_async_next_ordinal_def)
qed

lemma ord_inj:
  assumes "ord i = ord j" "m \<le> i" "m \<le> j" "i < m + (2 ^ 64 - 1)" "j < m + (2 ^ 64 - 1)"
  shows "i = j"
proof -
  have "i mod (2 ^ 64 - 1) = j mod (2 ^ 64 - 1)" using assms(1) unat_ord by (metis add_right_imp_eq)
  then have "(m + (i - m)) mod (2 ^ 64 - 1) = (m + (j - m)) mod (2 ^ 64 - 1)" using assms(2,3) by simp
  moreover have "i - m < 2 ^ 64 - 1" "j - m < 2 ^ 64 - 1" using assms by simp_all
  ultimately have "i - m = j - m" using ring_slot_neq[of "i - m" "2 ^ 64 - 1" "j - m" m] by blast
  then show ?thesis using assms(2,3) by simp
qed

section \<open>The pipeline as a system of threads\<close>

text \<open>
  Jobs between the critical sections of a thread are in flight.  The ghost fields record
  the cues accepted and the results handed out since the last invalidation.
\<close>

type_synonym cue_key = "u64 \<times> i64 \<times> i64 \<times> bytes"

definition cue_key :: "vw_caption_segment \<Rightarrow> bytes \<Rightarrow> cue_key" where
  "cue_key seg s = (cs_segment_id seg, cs_start_pts_us seg, cs_end_pts_us seg, s)"

definition job_key :: "vw_translate_job \<Rightarrow> cue_key" where
  "job_key j = cue_key (tj_segment j) (tj_source_text j)"

definition result_key :: "vw_translate_async_result \<Rightarrow> cue_key" where
  "result_key r = cue_key (tr_segment r) (tr_source_text r)"

record async_system =
  sy_async :: vw_translate_async
  sy_flight :: "vw_translate_job list"
  sy_accepted :: "cue_key list"
  sy_delivered :: "vw_translate_async_result list"

definition remove_at :: "nat \<Rightarrow> 'a list \<Rightarrow> 'a list" where
  "remove_at i xs = take i xs @ drop (Suc i) xs"

text \<open>Steps that need no new input: the threads work and the worker loop fetches results.\<close>

inductive async_work :: "async_system \<Rightarrow> async_system \<Rightarrow> bool" where
  work_take: "take_job (sy_async s) = Some (j, a) \<Longrightarrow> length (sy_flight s) < VW_TRANSLATE_ASYNC_ACTIVE_BUDGET \<Longrightarrow>
    async_work s (s\<lparr>sy_async := a, sy_flight := sy_flight s @ [j]\<rparr>)"
| work_complete: "i < length (sy_flight s) \<Longrightarrow>
    a = complete_job (sy_async s) (sy_flight s ! i) (run_job (sy_flight s ! i) out) \<Longrightarrow>
    async_work s (s\<lparr>sy_async := a, sy_flight := remove_at i (sy_flight s)\<rparr>)"
| work_pop: "vw_translate_async_try_pop (sy_async s) = Some (r, a) \<Longrightarrow>
    async_work s (s\<lparr>sy_async := a, sy_delivered := sy_delivered s @ [r]\<rparr>)"
| work_deliver: "vw_translate_async_try_deliver (sy_async s) = (Some r, a) \<Longrightarrow>
    async_work s (s\<lparr>sy_async := a, sy_delivered := sy_delivered s @ [r]\<rparr>)"

text \<open>
  The epoch counter has 64 bits; a request is not in flight while the worker invalidates
  the pipeline so often that its epoch comes round again.
\<close>

inductive async_step :: "async_system \<Rightarrow> async_system \<Rightarrow> bool" where
  step_work: "async_work s s' \<Longrightarrow> async_step s s'"
| step_submit: "vw_translate_async_submit (sy_async s) seg src dst = (True, a) \<Longrightarrow> cs_text_utf8 seg = Some t \<Longrightarrow>
    async_step s (s\<lparr>sy_async := a, sy_accepted := sy_accepted s @ [cue_key seg (c_str t)]\<rparr>)"
| step_refuse: "vw_translate_async_submit (sy_async s) seg src dst = (False, a) \<Longrightarrow>
    async_step s (s\<lparr>sy_async := a\<rparr>)"
| step_drop: "vw_translate_async_try_deliver (sy_async s) = (None, a) \<Longrightarrow>
    async_step s (s\<lparr>sy_async := a\<rparr>)"
| step_invalidate: "a = vw_translate_async_invalidate (sy_async s) \<Longrightarrow>
    ta_epoch a \<notin> tj_epoch ` set (sy_flight s) \<Longrightarrow>
    async_step s (s\<lparr>sy_async := a, sy_accepted := [], sy_delivered := []\<rparr>)"

inductive async_reachable :: "async_system \<Rightarrow> bool" where
  init: "vw_translate_async_create True = Some a \<Longrightarrow>
    async_reachable \<lparr>sy_async = a, sy_flight = [], sy_accepted = [], sy_delivered = []\<rparr>"
| step: "async_reachable s \<Longrightarrow> async_step s s' \<Longrightarrow> async_reachable s'"

subsection \<open>The invariant\<close>

definition current_flight :: "async_system \<Rightarrow> vw_translate_job list" where
  "current_flight s = filter (\<lambda>j. tj_epoch j = ta_epoch (sy_async s)) (sy_flight s)"

definition owed :: "async_system \<Rightarrow> (u64 \<times> cue_key) multiset" where
  "owed s = mset (map (\<lambda>k. (ord k, sy_accepted s ! k)) [length (sy_delivered s)..<length (sy_accepted s)])"

definition held :: "async_system \<Rightarrow> (u64 \<times> cue_key) multiset" where
  "held s = mset (map (\<lambda>j. (tj_ordinal j, job_key j)) (job_list (sy_async s) @ current_flight s))
     + mset (map (\<lambda>c. (co_ordinal c, result_key (co_result c))) (result_list (sy_async s)))"

definition budgeted :: "async_system \<Rightarrow> nat" where
  "budgeted s = length (filter (\<lambda>j. \<not> tj_skip_translation j) (job_list (sy_async s) @ current_flight s))"

definition async_inv :: "async_system \<Rightarrow> bool" where
  "async_inv s \<longleftrightarrow>
     rings_ok (sy_async s) \<and> \<not> ta_stopping (sy_async s)
     \<and> ta_inflight_count (sy_async s) = length (sy_flight s)
     \<and> ta_job_count (sy_async s) + length (sy_flight s) + ta_result_count (sy_async s) \<le> VW_TRANSLATE_ASYNC_RESULT_CAPACITY
     \<and> ta_next_submit_ordinal (sy_async s) = ord (length (sy_accepted s))
     \<and> ta_next_result_ordinal (sy_async s) = ord (length (sy_delivered s))
     \<and> (\<forall>j \<in> set (job_list (sy_async s)). tj_epoch j = ta_epoch (sy_async s))
     \<and> (\<forall>c \<in> set (result_list (sy_async s)). tr_epoch (co_result c) = ta_epoch (sy_async s))
     \<and> map result_key (sy_delivered s) = take (length (sy_delivered s)) (sy_accepted s)
     \<and> held s = owed s
     \<and> ta_active_translation_count (sy_async s) = budgeted s \<and> budgeted s \<le> VW_TRANSLATE_ASYNC_ACTIVE_BUDGET"

lemma length_job_list [simp]: "length (job_list a) = ta_job_count a"
  by (simp add: job_list_def)

lemma length_result_list [simp]: "length (result_list a) = ta_result_count a"
  by (simp add: result_list_def)

lemma mset_remove_at: "i < length xs \<Longrightarrow> add_mset (xs ! i) (mset (remove_at i xs)) = mset xs"
  by (metis id_take_nth_drop mset.simps(2) mset_append remove_at_def union_mset_add_mset_right)

lemma result_key_run_job [simp]: "result_key (run_job j out) = job_key j"
  by (simp add: run_job_def Let_def result_key_def job_key_def cue_key_def vw_translate_async_bind_result_text_def)

lemma result_key_bind [simp]: "result_key (vw_translate_async_bind_result_text r) = result_key r"
  by (simp add: result_key_def cue_key_def vw_translate_async_bind_result_text_def Let_def)

lemma tr_epoch_bind [simp]: "tr_epoch (vw_translate_async_bind_result_text r) = tr_epoch r"
  by (simp add: vw_translate_async_bind_result_text_def Let_def)

lemma tr_epoch_run_job [simp]: "tr_epoch (run_job j out) = tj_epoch j"
  by (simp add: run_job_def Let_def)

lemma evicted_result_keeps [simp]: "result_key (evicted_result j) = job_key j" "tr_epoch (evicted_result j) = tj_epoch j"
  by (simp_all add: evicted_result_def) (simp add: result_key_def job_key_def cue_key_def)

lemma make_job_fields [simp]:
  "job_key (make_job a seg s src dst skip) = cue_key seg (c_str s)" "tj_epoch (make_job a seg s src dst skip) = ta_epoch a"
  "tj_ordinal (make_job a seg s src dst skip) = ta_next_submit_ordinal a" "tj_skip_translation (make_job a seg s src dst skip) = skip"
  by (simp_all add: make_job_def job_key_def cue_key_def)

lemma delivered_le: "async_inv s \<Longrightarrow> length (sy_delivered s) \<le> length (sy_accepted s)"
  unfolding async_inv_def by (metis length_map length_take min.cobounded1 min_def)

lemma owed_size:
  assumes "async_inv s"
  shows "length (sy_accepted s) - length (sy_delivered s)
      = ta_job_count (sy_async s) + length (current_flight s) + ta_result_count (sy_async s)"
proof -
  have "size (owed s) = size (held s)" using assms by (simp add: async_inv_def)
  then show ?thesis by (simp add: owed_def held_def)
qed

lemma current_flight_le: "length (current_flight s) \<le> length (sy_flight s)"
  by (simp add: current_flight_def)

lemma owed_head:
  assumes "length (sy_delivered s) < length (sy_accepted s)"
  shows "owed s = add_mset (ord (length (sy_delivered s)), sy_accepted s ! length (sy_delivered s))
    (mset (map (\<lambda>k. (ord k, sy_accepted s ! k)) [Suc (length (sy_delivered s))..<length (sy_accepted s)]))"
  using assms by (simp add: owed_def upt_conv_Cons)

text \<open>A held entry with the next ordinal is the next accepted cue.\<close>

lemma held_next:
  assumes "async_inv s" "(ord (length (sy_delivered s)), key) \<in># held s"
  shows "length (sy_delivered s) < length (sy_accepted s)" and "key = sy_accepted s ! length (sy_delivered s)"
proof -
  let ?m = "length (sy_delivered s)" and ?n = "length (sy_accepted s)"
  have "(ord ?m, key) \<in># owed s" using assms by (simp add: async_inv_def)
  then obtain k where k: "?m \<le> k" "k < ?n" "ord ?m = ord k" "key = sy_accepted s ! k"
    by (auto simp: owed_def)
  have "?n - ?m \<le> VW_TRANSLATE_ASYNC_RESULT_CAPACITY"
    using owed_size[OF assms(1)] current_flight_le[of s] assms(1) by (auto simp: async_inv_def)
  then have "k < ?m + (2 ^ 64 - 1)" using k by (simp add: async_limits)
  then have "?m = k" using ord_inj[of ?m k ?m] k by simp
  then show "?m < ?n" "key = sy_accepted s ! ?m" using k by simp_all
qed

subsection \<open>Fetching a result\<close>

lemma find_next_result:
  assumes "rings_ok a" "vw_translate_async_find_next_result_locked a = Some i"
  obtains k where "k < ta_result_count a" "i = (ta_result_tail a + k) mod VW_TRANSLATE_ASYNC_RESULT_CAPACITY"
    "ta_results a ! i = result_list a ! k" "co_ordinal (result_list a ! k) = ta_next_result_ordinal a"
proof -
  have ok: "length (ta_results a) = VW_TRANSLATE_ASYNC_RESULT_CAPACITY" "ta_result_tail a < VW_TRANSLATE_ASYNC_RESULT_CAPACITY"
    using assms(1) by (simp_all add: rings_ok_def ring_ok_def)
  then have "find_result_loop (ta_results a) (ta_next_result_ordinal a)
      (ta_result_tail a mod VW_TRANSLATE_ASYNC_RESULT_CAPACITY) (ta_result_count a) = Some i"
    using assms(2) by (simp add: vw_translate_async_find_next_result_locked_def)
  from find_result_Some[OF this ok(1)] show thesis
    using that ok(1) by (auto simp: result_list_def)
qed

lemma fetch_inv:
  assumes inv: "async_inv s" and i: "vw_translate_async_find_next_result_locked (sy_async s) = Some i"
    and r: "r = vw_translate_async_bind_result_text (co_result (ta_results (sy_async s) ! i))"
  shows "async_inv (s\<lparr>sy_async := vw_translate_async_remove_result_locked (sy_async s) i, sy_delivered := sy_delivered s @ [r]\<rparr>)"
    and "tr_epoch r = ta_epoch (sy_async s)"
proof -
  let ?a = "sy_async s" and ?m = "length (sy_delivered s)"
  have rings: "rings_ok ?a" using inv by (simp add: async_inv_def)
  obtain k where k: "k < ta_result_count ?a" "i = (ta_result_tail ?a + k) mod VW_TRANSLATE_ASYNC_RESULT_CAPACITY"
    "ta_results ?a ! i = result_list ?a ! k" "co_ordinal (result_list ?a ! k) = ta_next_result_ordinal ?a"
    using find_next_result[OF rings i] by blast
  note rm = remove_result_list[OF rings k(1,2)]
  let ?c = "result_list ?a ! k"
  have c: "?c \<in> set (result_list ?a)" using k(1) by simp
  then show "tr_epoch r = ta_epoch ?a" using inv r k(3) by (simp add: async_inv_def)
  have key: "result_key r = result_key (co_result ?c)" using r k(3) by simp
  have ordinal: "co_ordinal ?c = ord ?m" using inv k(4) by (simp add: async_inv_def)
  have "(ord ?m, result_key r) \<in># held s"
    using c ordinal key by (force simp: held_def)
  note nxt = held_next[OF inv this]
  let ?s' = "s\<lparr>sy_async := vw_translate_async_remove_result_locked ?a i, sy_delivered := sy_delivered s @ [r]\<rparr>"
  have keep: "job_list (sy_async ?s') = job_list ?a" "current_flight ?s' = current_flight s"
    "result_list (sy_async ?s') = remove_at k (result_list ?a)"
    using rm by (simp_all add: current_flight_def remove_at_def vw_translate_async_remove_result_locked_def)
  have "mset (result_list ?a) = add_mset ?c (mset (remove_at k (result_list ?a)))"
    using mset_remove_at[of k "result_list ?a"] k(1) by simp
  then have "held s = add_mset (ord ?m, result_key r) (held ?s')"
    unfolding held_def keep using ordinal key by simp
  moreover have "owed s = add_mset (ord ?m, result_key r) (owed ?s')"
    using owed_head[OF nxt(1)] nxt(2) by (simp add: owed_def)
  ultimately have held: "held ?s' = owed ?s'" using inv by (simp add: async_inv_def)
  have "take (Suc ?m) (sy_accepted s) = take ?m (sy_accepted s) @ [sy_accepted s ! ?m]"
    using nxt(1) by (rule take_Suc_conv_app_nth)
  moreover have "set (remove_at k (result_list ?a)) \<subseteq> set (result_list ?a)"
    unfolding remove_at_def using set_take_subset set_drop_subset by fastforce
  moreover have "budgeted ?s' = budgeted s" unfolding budgeted_def keep ..
  ultimately show "async_inv ?s'"
    using inv held rm(1) nxt keep ord_Suc[of ?m]
    by (auto simp: async_inv_def vw_translate_async_remove_result_locked_def remove_at_def)
qed

subsection \<open>Every step keeps the invariant\<close>

lemma take_inv:
  assumes inv: "async_inv s" and t: "take_job (sy_async s) = Some (j, a)"
  shows "async_inv (s\<lparr>sy_async := a, sy_flight := sy_flight s @ [j]\<rparr>)"
proof -
  let ?s' = "s\<lparr>sy_async := a, sy_flight := sy_flight s @ [j]\<rparr>"
  have rings: "rings_ok (sy_async s)" using inv by (simp add: async_inv_def)
  note tk = take_job_list[OF rings t]
  have f: "ta_epoch a = ta_epoch (sy_async s)" "ta_stopping a = ta_stopping (sy_async s)"
    "ta_inflight_count a = ta_inflight_count (sy_async s) + 1" "ta_result_count a = ta_result_count (sy_async s)"
    "ta_next_submit_ordinal a = ta_next_submit_ordinal (sy_async s)"
    "ta_next_result_ordinal a = ta_next_result_ordinal (sy_async s)"
    "ta_active_translation_count a = ta_active_translation_count (sy_async s)"
    using t by (auto simp: take_job_def split: if_splits)
  have "tj_epoch j = ta_epoch (sy_async s)" using inv tk(2) by (simp add: async_inv_def)
  then have cf: "current_flight ?s' = current_flight s @ [j]" using f by (simp add: current_flight_def)
  have "held ?s' = held s" "budgeted ?s' = budgeted s"
    unfolding held_def budgeted_def cf by (simp_all add: tk(2,3))
  then show ?thesis using inv tk f by (auto simp: async_inv_def owed_def)
qed

lemma filter_remove_at:
  assumes "i < length xs"
  shows "mset (filter P xs) = (if P (xs ! i) then {#xs ! i#} else {#}) + mset (filter P (remove_at i xs))"
  using mset_remove_at[OF assms] by (metis (full_types) add_mset_add_single empty_neutral(1) filter_mset_add_mset mset_filter union_commute)

lemma complete_inv:
  assumes inv: "async_inv s" and i: "i < length (sy_flight s)"
    and a: "a = complete_job (sy_async s) (sy_flight s ! i) (run_job (sy_flight s ! i) out)"
  shows "async_inv (s\<lparr>sy_async := a, sy_flight := remove_at i (sy_flight s)\<rparr>)"
proof -
  let ?s' = "s\<lparr>sy_async := a, sy_flight := remove_at i (sy_flight s)\<rparr>"
  let ?j = "sy_flight s ! i" and ?a = "sy_async s"
  have ep: "ta_epoch a = ta_epoch ?a" unfolding a complete_job_def Let_def vw_translate_async_push_result_locked_def by simp
  have len: "length (sy_flight s) = Suc (length (remove_at i (sy_flight s)))"
    using i by (simp add: remove_at_def)
  have cf: "mset (current_flight s) = (if tj_epoch ?j = ta_epoch ?a then {#?j#} else {#}) + mset (current_flight ?s')"
    using filter_remove_at[OF i] ep by (simp add: current_flight_def)
  have rings: "rings_ok ?a" and stop: "\<not> ta_stopping ?a" and act: "ta_active_translation_count ?a = budgeted s"
    using inv by (simp_all add: async_inv_def)
  have b: "budgeted u = size (filter_mset (\<lambda>j. \<not> tj_skip_translation j) (mset (job_list (sy_async u)) + mset (current_flight u)))" for u
    unfolding budgeted_def by (metis mset_append mset_filter size_mset)
  show ?thesis
  proof (cases "tj_epoch ?j = ta_epoch ?a")
    case False
    then have same: "a = ?a\<lparr>ta_inflight_count := ta_inflight_count ?a - 1\<rparr>" unfolding a complete_job_def Let_def by simp
    from same have lists: "job_list a = job_list ?a" "result_list a = result_list ?a" "rings_ok a"
      using rings by (simp_all add: job_list_def result_list_def rings_ok_def)
    have "held ?s' = held s" "budgeted ?s' = budgeted s" using cf False lists by (simp_all add: held_def b)
    with inv len lists same show ?thesis by (auto simp: async_inv_def owed_def)
  next
    case True
    let ?k = "ta_active_translation_count ?a - (if tj_skip_translation ?j then 0 else 1)"
    let ?r = "run_job ?j out"
    let ?a1 = "?a\<lparr>ta_active_translation_count := ?k\<rparr>"
    have room: "ta_result_count ?a < VW_TRANSLATE_ASYNC_RESULT_CAPACITY" using inv len by (simp add: async_inv_def)
    have a1: "rings_ok ?a1" "job_list ?a1 = job_list ?a" "result_list ?a1 = result_list ?a" "ta_result_count ?a1 = ta_result_count ?a"
      using rings by (simp_all add: job_list_def result_list_def rings_ok_def)
    let ?p = "vw_translate_async_push_result_locked ?a1 (tj_ordinal ?j) ?r"
    note p = push_result_list[of ?a1 "tj_ordinal ?j" ?r, unfolded a1(4), OF a1(1) room]
    have "(if \<not> tj_skip_translation ?j \<and> tj_epoch ?j = ta_epoch ?a \<and> ta_active_translation_count ?a > 0
        then ?a\<lparr>ta_active_translation_count := ta_active_translation_count ?a - 1\<rparr> else ?a) = ?a1"
      using True by simp
    then have aeq: "a = ?p\<lparr>ta_inflight_count := ta_inflight_count ?a - 1\<rparr>"
      unfolding a complete_job_def Let_def using True stop by (simp add: vw_translate_async_push_result_locked_def)
    have lists: "job_list a = job_list ?a" "result_list a = result_list ?a @ [\<lparr>co_ordinal = tj_ordinal ?j, co_result = ?r\<rparr>]"
      "rings_ok a" "ta_result_count a = ta_result_count ?a + 1"
      using p a1 by (simp_all add: aeq job_list_def result_list_def rings_ok_def)
    have f: "ta_stopping a = ta_stopping ?a" "ta_inflight_count a = ta_inflight_count ?a - 1" "ta_job_count a = ta_job_count ?a"
      "ta_next_submit_ordinal a = ta_next_submit_ordinal ?a" "ta_next_result_ordinal a = ta_next_result_ordinal ?a"
      "ta_active_translation_count a = ?k"
      by (simp_all add: aeq vw_translate_async_push_result_locked_def)
    have "held ?s' = held s" using cf True lists by (simp add: held_def)
    moreover have "budgeted ?s' = ?k" using cf True lists(1) act by (simp add: b)
    moreover have "?k \<le> budgeted s" using act by simp
    ultimately show ?thesis using inv lists f ep True len by (auto simp: async_inv_def owed_def)
  qed
qed

lemma rings_ok_invalidate:
  "rings_ok a \<Longrightarrow> rings_ok (vw_translate_async_invalidate a)"
  "job_list (vw_translate_async_invalidate a) = []" "result_list (vw_translate_async_invalidate a) = []"
  by (simp_all add: vw_translate_async_invalidate_def rings_ok_def ring_ok_def job_list_def result_list_def)

lemma invalidate_inv:
  assumes "async_inv s" "a = vw_translate_async_invalidate (sy_async s)" "ta_epoch a \<notin> tj_epoch ` set (sy_flight s)"
  shows "async_inv (s\<lparr>sy_async := a, sy_accepted := [], sy_delivered := []\<rparr>)"
proof -
  let ?s' = "s\<lparr>sy_async := a, sy_accepted := [], sy_delivered := []\<rparr>"
  have cf: "current_flight ?s' = []" using assms(3) by (force simp: current_flight_def filter_empty_conv)
  have "rings_ok a" "job_list a = []" "result_list a = []"
    using rings_ok_invalidate assms(1,2) by (auto simp: async_inv_def)
  moreover from this have "held ?s' = owed ?s'" "budgeted ?s' = 0"
    using cf by (simp_all add: held_def owed_def budgeted_def)
  moreover have "ta_inflight_count a = ta_inflight_count (sy_async s)" "ta_job_count a = 0" "ta_result_count a = 0"
    "ta_stopping a = ta_stopping (sy_async s)" "ta_next_submit_ordinal a = ord 0" "ta_next_result_ordinal a = ord 0"
    "ta_active_translation_count a = 0"
    using assms(2) by (simp_all add: vw_translate_async_invalidate_def ord_0)
  ultimately show ?thesis using assms(1) by (simp add: async_inv_def)
qed

lemma evict_inv:
  assumes inv: "async_inv s" and full: "0 < ta_job_count (sy_async s)"
  shows "async_inv (s\<lparr>sy_async := evict_oldest (sy_async s)\<rparr>)"
    and "ta_job_count (evict_oldest (sy_async s)) = ta_job_count (sy_async s) - 1"
    and "ta_result_count (evict_oldest (sy_async s)) = ta_result_count (sy_async s) + 1"
    and "ta_inflight_count (evict_oldest (sy_async s)) = ta_inflight_count (sy_async s)"
    and "budgeted (s\<lparr>sy_async := evict_oldest (sy_async s)\<rparr>) \<le> budgeted s"
proof -
  let ?a = "sy_async s"
  let ?j = "ta_jobs ?a ! ta_job_tail ?a"
  let ?k = "ta_active_translation_count ?a - (if tj_skip_translation ?j then 0 else 1)"
  let ?a1 = "?a\<lparr>ta_job_tail := (ta_job_tail ?a + 1) mod VW_TRANSLATE_ASYNC_QUEUE_CAPACITY,
    ta_job_count := ta_job_count ?a - 1, ta_active_translation_count := ?k\<rparr>"
  have aeq: "evict_oldest ?a = vw_translate_async_push_result_locked ?a1 (tj_ordinal ?j) (evicted_result ?j)"
    by (cases ?a) (simp add: evict_oldest_def Let_def)
  have rings: "rings_ok ?a" using inv by (simp add: async_inv_def)
  let ?t = "?a\<lparr>ta_job_tail := (ta_job_tail ?a + 1) mod VW_TRANSLATE_ASYNC_QUEUE_CAPACITY,
    ta_job_count := ta_job_count ?a - 1, ta_inflight_count := ta_inflight_count ?a + 1\<rparr>"
  have "take_job ?a = Some (?j, ?t)" using full by (simp add: take_job_def)
  note tk = take_job_list[OF rings this]
  have a1: "rings_ok ?a1" "job_list ?a = ?j # job_list ?a1" "result_list ?a1 = result_list ?a" "ta_result_count ?a1 = ta_result_count ?a"
    using tk by (simp_all add: rings_ok_def job_list_def result_list_def)
  have room: "ta_result_count ?a < VW_TRANSLATE_ASYNC_RESULT_CAPACITY" using inv full by (simp add: async_inv_def)
  note p = push_result_list[of ?a1 "tj_ordinal ?j" "evicted_result ?j", unfolded a1(3,4), OF a1(1) room, folded aeq]
  let ?e = "evict_oldest ?a" and ?s' = "s\<lparr>sy_async := evict_oldest ?a\<rparr>"
  have f: "ta_epoch ?e = ta_epoch ?a" "ta_stopping ?e = ta_stopping ?a" "ta_inflight_count ?e = ta_inflight_count ?a"
    "ta_job_count ?e = ta_job_count ?a - 1" "ta_next_submit_ordinal ?e = ta_next_submit_ordinal ?a"
    "ta_next_result_ordinal ?e = ta_next_result_ordinal ?a" "ta_active_translation_count ?e = ?k"
    by (simp_all add: aeq vw_translate_async_push_result_locked_def)
  show "ta_job_count ?e = ta_job_count ?a - 1" "ta_result_count ?e = ta_result_count ?a + 1"
    "ta_inflight_count ?e = ta_inflight_count ?a"
    using f p by simp_all
  have cf: "current_flight ?s' = current_flight s" using f by (simp add: current_flight_def)
  have jl: "job_list ?a = ?j # job_list ?e" and je: "tj_epoch ?j = ta_epoch ?a"
    using a1 p inv by (simp_all add: async_inv_def)
  have "held ?s' = held s" unfolding held_def cf using p a1 by (simp add: jl)
  moreover have bud: "budgeted ?s' = ?k" using inv cf by (simp add: budgeted_def jl async_inv_def)
  moreover have "budgeted s = ta_active_translation_count ?a" using inv by (simp add: async_inv_def)
  ultimately show "async_inv ?s'" using inv f p jl je full by (auto simp: async_inv_def owed_def)
  show "budgeted ?s' \<le> budgeted s" unfolding bud using \<open>budgeted s = _\<close> by simp
qed


lemma enqueue_inv:
  fixes seg :: vw_caption_segment and t :: bytes and src dst :: "bytes option"
  assumes inv: "async_inv s" and room: "ta_job_count (sy_async s) < VW_TRANSLATE_ASYNC_QUEUE_CAPACITY"
    "ta_job_count (sy_async s) + ta_inflight_count (sy_async s) + ta_result_count (sy_async s) < VW_TRANSLATE_ASYNC_RESULT_CAPACITY"
    and skip: "\<not> skip \<Longrightarrow> budgeted s < VW_TRANSLATE_ASYNC_ACTIVE_BUDGET"
  defines "j \<equiv> make_job (sy_async s) seg t src dst skip"
  shows "async_inv (s\<lparr>sy_async := enqueue_job (sy_async s) j, sy_accepted := sy_accepted s @ [cue_key seg (c_str t)]\<rparr>)"
proof -
  let ?a = "sy_async s" and ?e = "enqueue_job (sy_async s) j"
  let ?s' = "s\<lparr>sy_async := ?e, sy_accepted := sy_accepted s @ [cue_key seg (c_str t)]\<rparr>"
  have rings: "rings_ok ?a" using inv by (simp add: async_inv_def)
  note q = enqueue_job_list[OF rings room(1), of j]
  have f: "ta_epoch ?e = ta_epoch ?a" "ta_stopping ?e = ta_stopping ?a" "ta_inflight_count ?e = ta_inflight_count ?a"
    "ta_job_count ?e = ta_job_count ?a + 1" "ta_result_count ?e = ta_result_count ?a"
    "ta_next_submit_ordinal ?e = vw_translate_async_next_ordinal (ta_next_submit_ordinal ?a)"
    "ta_next_result_ordinal ?e = ta_next_result_ordinal ?a"
    "ta_active_translation_count ?e = ta_active_translation_count ?a + (if skip then 0 else 1)"
    by (simp_all add: enqueue_job_def j_def)
  have cf: "current_flight ?s' = current_flight s" using f by (simp add: current_flight_def)
  have ordinal: "tj_ordinal j = ord (length (sy_accepted s))" "job_key j = cue_key seg (c_str t)" "tj_epoch j = ta_epoch ?a"
    "tj_skip_translation j = skip"
    using inv by (simp_all add: j_def async_inv_def)
  have "held ?s' = add_mset (ord (length (sy_accepted s)), cue_key seg (c_str t)) (held s)"
    unfolding held_def cf using q ordinal by simp
  moreover have "owed ?s' = add_mset (ord (length (sy_accepted s)), cue_key seg (c_str t)) (owed s)"
  proof -
    have m: "map (\<lambda>k. (ord k, (sy_accepted s @ [cue_key seg (c_str t)]) ! k)) [length (sy_delivered s)..<length (sy_accepted s)]
      = map (\<lambda>k. (ord k, sy_accepted s ! k)) [length (sy_delivered s)..<length (sy_accepted s)]"
      by (simp add: nth_append)
    show ?thesis using delivered_le[OF inv] by (simp add: owed_def m del: mset_map map_eq_conv)
  qed
  moreover have "budgeted ?s' = budgeted s + (if skip then 0 else 1)"
    unfolding budgeted_def cf using q ordinal by simp
  moreover have "take (length (sy_delivered s)) (sy_accepted s @ [cue_key seg (c_str t)]) = take (length (sy_delivered s)) (sy_accepted s)"
    using delivered_le[OF inv] by simp
  ultimately show ?thesis using inv f q room ordinal skip ord_Suc[of "length (sy_accepted s)"]
    by (auto simp: async_inv_def)
qed

lemma submit_inv:
  assumes inv: "async_inv s" and sub: "vw_translate_async_submit (sy_async s) seg src dst = (True, a)"
    and t: "cs_text_utf8 seg = Some t"
  shows "async_inv (s\<lparr>sy_async := a, sy_accepted := sy_accepted s @ [cue_key seg (c_str t)]\<rparr>)"
proof -
  let ?a = "sy_async s"
  let ?skip = "ta_active_translation_count ?a \<ge> VW_TRANSLATE_ASYNC_ACTIVE_BUDGET"
  let ?full = "ta_job_count ?a \<ge> VW_TRANSLATE_ASYNC_QUEUE_CAPACITY"
  let ?b = "if ?full then evict_oldest ?a else ?a"
  have room: "ta_job_count ?a + ta_inflight_count ?a + ta_result_count ?a < VW_TRANSLATE_ASYNC_RESULT_CAPACITY"
    and a: "a = enqueue_job ?b (make_job ?b seg t src dst ?skip)"
    using sub t by (auto simp: vw_translate_async_submit_def Let_def split: if_splits)
  have cnt: "ta_job_count ?a \<le> VW_TRANSLATE_ASYNC_QUEUE_CAPACITY" and act: "ta_active_translation_count ?a = budgeted s"
    using inv by (simp_all add: async_inv_def rings_ok_def ring_ok_def)
  have pos: "?full \<Longrightarrow> 0 < ta_job_count ?a" by (simp add: async_limits)
  note ev = evict_inv[OF inv]
  have inv': "async_inv (s\<lparr>sy_async := ?b\<rparr>)" using inv ev(1) pos by simp
  have "ta_job_count ?b < VW_TRANSLATE_ASYNC_QUEUE_CAPACITY"
    "ta_job_count ?b + ta_inflight_count ?b + ta_result_count ?b < VW_TRANSLATE_ASYNC_RESULT_CAPACITY"
    "budgeted (s\<lparr>sy_async := ?b\<rparr>) \<le> budgeted s"
    using ev(2-5) pos cnt room by (auto simp: not_le)
  then show ?thesis
    using enqueue_inv[OF inv', of ?skip seg t src dst] act unfolding a by simp
qed

lemma submit_refused: "vw_translate_async_submit a seg src dst = (False, a') \<Longrightarrow> a' = a"
  by (auto simp: vw_translate_async_submit_def Let_def split: option.splits if_splits)

lemma async_work_inv:
  assumes "async_work s s'" "async_inv s"
  shows "async_inv s'"
  using assms
proof cases
  case (work_pop r a)
  then obtain i where "vw_translate_async_find_next_result_locked (sy_async s) = Some i"
    "r = vw_translate_async_bind_result_text (co_result (ta_results (sy_async s) ! i))"
    "a = vw_translate_async_remove_result_locked (sy_async s) i"
    by (auto simp: vw_translate_async_try_pop_def split: if_splits option.splits)
  with fetch_inv(1)[OF assms(2)] work_pop show ?thesis by simp
next
  case (work_deliver r a)
  then obtain i where "vw_translate_async_find_next_result_locked (sy_async s) = Some i"
    "r = vw_translate_async_bind_result_text (co_result (ta_results (sy_async s) ! i))"
    "a = vw_translate_async_remove_result_locked (sy_async s) i"
    by (auto simp: vw_translate_async_try_deliver_def Let_def split: if_splits option.splits)
  with fetch_inv(1)[OF assms(2)] work_deliver show ?thesis by simp
qed (use assms take_inv complete_inv in auto)

text \<open>A completion of an older epoch is never found.\<close>

lemma deliver_none:
  assumes "async_inv s" "vw_translate_async_try_deliver (sy_async s) = (None, a)"
  shows "a = sy_async s"
  using assms fetch_inv(2)[OF assms(1) _ refl]
  by (auto simp: vw_translate_async_try_deliver_def Let_def split: if_splits option.splits)

lemma async_step_inv: "async_step s s' \<Longrightarrow> async_inv s \<Longrightarrow> async_inv s'"
proof (induction rule: async_step.cases)
  case (step_refuse s seg src dst a)
  then show ?case using submit_refused by force
next
  case (step_drop s a)
  then show ?case using deliver_none by force
qed (auto intro: async_work_inv submit_inv invalidate_inv)

lemma async_reachable_inv: "async_reachable s \<Longrightarrow> async_inv s"
proof (induction rule: async_reachable.induct)
  case (init a)
  then have a: "a = \<lparr>ta_stopping = False, ta_epoch = 1, ta_next_submit_ordinal = 1, ta_next_result_ordinal = 1,
        ta_jobs = replicate VW_TRANSLATE_ASYNC_QUEUE_CAPACITY zero_job, ta_job_head = 0, ta_job_tail = 0,
        ta_job_count = 0, ta_inflight_count = 0, ta_active_translation_count = 0,
        ta_results = replicate VW_TRANSLATE_ASYNC_RESULT_CAPACITY \<lparr>co_ordinal = 0, co_result = zero_result\<rparr>,
        ta_result_head = 0, ta_result_tail = 0, ta_result_count = 0\<rparr>"
    by (simp add: vw_translate_async_create_def)
  show ?case unfolding a
    by (simp add: async_inv_def rings_ok_def ring_ok_def job_list_def result_list_def held_def owed_def
        current_flight_def budgeted_def ord_0 async_limits)
next
  case (step s s')
  then show ?case by (blast intro: async_step_inv)
qed

subsection \<open>Progress\<close>

definition work_left :: "async_system \<Rightarrow> nat" where
  "work_left s = 3 * ta_job_count (sy_async s) + 2 * length (sy_flight s) + ta_result_count (sy_async s)"

lemma fetch_counts:
  assumes "async_inv s" "vw_translate_async_find_next_result_locked (sy_async s) = Some i"
  shows "0 < ta_result_count (sy_async s)"
  using assms by (cases "ta_result_count (sy_async s)") (auto simp: vw_translate_async_find_next_result_locked_def)

lemma complete_job_counts:
  "ta_job_count (complete_job a j r) = ta_job_count a" "ta_result_count (complete_job a j r) \<le> ta_result_count a + 1"
  by (simp_all add: complete_job_def Let_def vw_translate_async_push_result_locked_def)

lemma work_decreases:
  assumes "async_work s s'" "async_inv s"
  shows "work_left s' < work_left s \<and> sy_accepted s' = sy_accepted s"
  using assms
proof cases
  case (work_take j a)
  moreover have "ta_job_count a = ta_job_count (sy_async s) - 1" "0 < ta_job_count (sy_async s)"
    "ta_result_count a = ta_result_count (sy_async s)"
    using work_take by (auto simp: take_job_def split: if_splits)
  ultimately show ?thesis by (simp add: work_left_def)
next
  case (work_complete i a out)
  then have "length (sy_flight s) = Suc (length (remove_at i (sy_flight s)))" by (simp add: remove_at_def)
  with work_complete complete_job_counts[of "sy_async s" "sy_flight s ! i" "run_job (sy_flight s ! i) out"]
  show ?thesis by (simp add: work_left_def)
next
  case (work_pop r a)
  then have "ta_job_count a = ta_job_count (sy_async s)" "ta_result_count a = ta_result_count (sy_async s) - 1" "0 < ta_result_count (sy_async s)"
    by (auto simp: vw_translate_async_try_pop_def vw_translate_async_remove_result_locked_def split: if_splits option.splits)
  with work_pop show ?thesis by (simp add: work_left_def)
next
  case (work_deliver r a)
  then have "ta_job_count a = ta_job_count (sy_async s)" "ta_result_count a = ta_result_count (sy_async s) - 1" "0 < ta_result_count (sy_async s)"
    using fetch_counts[OF assms(2)]
    by (auto simp: vw_translate_async_try_deliver_def Let_def vw_translate_async_remove_result_locked_def split: if_splits option.splits)
  with work_deliver show ?thesis by (simp add: work_left_def)
qed

lemma work_run:
  assumes "(async_work ^^ n) s s'" "async_inv s"
  shows "async_inv s' \<and> work_left s' + n \<le> work_left s \<and> sy_accepted s' = sy_accepted s"
  using assms
proof (induction n arbitrary: s')
  case (Suc n)
  then obtain u where u: "(async_work ^^ n) s u" "async_work u s'" by auto
  with Suc have "async_inv u \<and> work_left u + n \<le> work_left s \<and> sy_accepted u = sy_accepted s" by blast
  with u(2) work_decreases[of u s'] async_work_inv[of u s'] show ?case by simp
qed simp

lemma quiescent_delivered:
  assumes inv: "async_inv s" and q: "\<nexists>s'. async_work s s'"
  shows "map result_key (sy_delivered s) = sy_accepted s"
proof -
  let ?a = "sy_async s"
  have "sy_flight s = []" using q work_complete[of 0 s _ undefined] by (metis length_greater_0_conv)
  moreover from this have "ta_job_count ?a = 0"
    using q work_take[of s, unfolded take_job_def] by (cases "ta_job_count ?a") (auto simp: async_limits)
  ultimately have held: "held s = mset (map (\<lambda>c. (co_ordinal c, result_key (co_result c))) (result_list ?a))"
    by (simp add: held_def current_flight_def job_list_def)
  have "length (sy_accepted s) \<le> length (sy_delivered s)"
  proof (rule ccontr)
    assume "\<not> ?thesis"
    then have "(ord (length (sy_delivered s)), sy_accepted s ! length (sy_delivered s)) \<in># held s"
      using inv by (auto simp: owed_def async_inv_def)
    then have "ta_next_result_ordinal ?a \<in> co_ordinal ` set (ring_slice (ta_results a) (ta_result_tail ?a) (ta_result_count ?a))"
      if "a = ?a" for a
      using inv that unfolding held by (auto simp: async_inv_def result_list_def)
    then have "vw_translate_async_find_next_result_locked ?a \<noteq> None"
      using find_result_None[of "ta_results ?a" "ta_next_result_ordinal ?a" "ta_result_tail ?a" "ta_result_count ?a"] inv
      by (auto simp: vw_translate_async_find_next_result_locked_def async_inv_def rings_ok_def ring_ok_def)
    then obtain r a where "vw_translate_async_try_pop ?a = Some (r, a)"
      using fetch_counts[OF inv] by (auto simp: vw_translate_async_try_pop_def)
    with q work_pop show False by blast
  qed
  then show ?thesis using inv by (simp add: async_inv_def)
qed

section \<open>Properties\<close>

text \<open>
  Property C24. Whatever the threads, the network and the worker loop do, the results handed
  out since the last invalidation are those of the accepted cues, in the order of their
  submission, none skipped or repeated; at most 34 accepted cues are undelivered and at
  most four translations of the current epoch are queued or on the network.
\<close>

theorem vw_translate_async_ordered:
  assumes "async_reachable s"
  shows "map result_key (sy_delivered s) = take (length (sy_delivered s)) (sy_accepted s)
    \<and> length (sy_accepted s) - length (sy_delivered s) \<le> VW_TRANSLATE_ASYNC_RESULT_CAPACITY
    \<and> length (filter (\<lambda>j. \<not> tj_skip_translation j) (job_list (sy_async s) @ current_flight s)) \<le> VW_TRANSLATE_ASYNC_ACTIVE_BUDGET"
  using async_reachable_inv[OF assms] owed_size[OF async_reachable_inv[OF assms]] current_flight_le[of s]
  by (auto simp: async_inv_def budgeted_def)

text \<open>One cue submitted, translated and fetched.\<close>

definition demo_cue :: vw_caption_segment where
  "demo_cue = zero_cue\<lparr>cs_segment_id := 7, cs_end_pts_us := 1000, cs_text_utf8 := Some [104, 105, 0]\<rparr>"

definition demo_outcome :: translate_outcome where
  "demo_outcome = \<lparr>to_success = True, to_text = [111, 107, 0], to_tier = 1, to_latency_us = 5, to_failure = zero_failure\<rparr>"

definition demo_submitted :: async_system where
  "demo_submitted = \<lparr>sy_async = snd (vw_translate_async_submit (the (vw_translate_async_create True)) demo_cue None None),
     sy_flight = [], sy_accepted = [cue_key demo_cue (c_str [104, 105, 0])], sy_delivered = []\<rparr>"

definition demo_taken :: async_system where
  "demo_taken = demo_submitted\<lparr>sy_async := snd (the (take_job (sy_async demo_submitted))),
     sy_flight := [fst (the (take_job (sy_async demo_submitted)))]\<rparr>"

definition demo_done :: async_system where
  "demo_done = demo_taken\<lparr>sy_async := complete_job (sy_async demo_taken) (sy_flight demo_taken ! 0)
       (run_job (sy_flight demo_taken ! 0) demo_outcome), sy_flight := []\<rparr>"

definition demo_fetched :: async_system where
  "demo_fetched = demo_done\<lparr>sy_async := snd (the (vw_translate_async_try_pop (sy_async demo_done))),
     sy_delivered := [fst (the (vw_translate_async_try_pop (sy_async demo_done)))]\<rparr>"

lemma demo_accepts: "fst (vw_translate_async_submit (the (vw_translate_async_create True)) demo_cue None None)"
  by code_simp

lemma demo_accepts_twice: "cs_text_utf8 demo_cue = Some [104, 105, 0]" "0 < strlen [104, 105, 0]" "strlen [104, 105, 0] \<le> VW_MAX_TEXT_BYTES"
  "ta_job_count (sy_async demo_submitted) + length (sy_flight demo_submitted) + ta_result_count (sy_async demo_submitted)
    < VW_TRANSLATE_ASYNC_RESULT_CAPACITY"
  by code_simp+

lemma demo_takes: "take_job (sy_async demo_submitted) \<noteq> None"
  by code_simp

lemma demo_pops: "vw_translate_async_try_pop (sy_async demo_done) \<noteq> None"
  by code_simp

lemma demo_submitted_reachable: "async_reachable demo_submitted"
proof -
  let ?a = "the (vw_translate_async_create True)"
  have "async_reachable \<lparr>sy_async = ?a, sy_flight = [], sy_accepted = [], sy_delivered = []\<rparr>"
    by (rule async_reachable.init) (simp add: vw_translate_async_create_def)
  moreover have "async_step \<lparr>sy_async = ?a, sy_flight = [], sy_accepted = [], sy_delivered = []\<rparr> demo_submitted"
    using step_submit[of "\<lparr>sy_async = ?a, sy_flight = [], sy_accepted = [], sy_delivered = []\<rparr>" demo_cue None None _ "[104, 105, 0]"]
      demo_accepts by (simp add: demo_submitted_def demo_cue_def prod_eq_iff)
  ultimately show ?thesis by (rule async_reachable.step)
qed

lemma demo_work: "(async_work ^^ 3) demo_submitted demo_fetched"
proof -
  have "async_work demo_submitted demo_taken"
    using work_take[of demo_submitted "fst (the (take_job (sy_async demo_submitted)))" "snd (the (take_job (sy_async demo_submitted)))"]
      demo_takes by (simp add: demo_taken_def demo_submitted_def async_limits)
  moreover have "async_work demo_taken demo_done"
    using work_complete[of 0 demo_taken _ demo_outcome] by (simp add: demo_done_def demo_taken_def remove_at_def)
  moreover have "async_work demo_done demo_fetched"
    using work_pop[of demo_done "fst (the (vw_translate_async_try_pop (sy_async demo_done)))"
        "snd (the (vw_translate_async_try_pop (sy_async demo_done)))"] demo_pops
    by (simp add: demo_fetched_def demo_done_def demo_taken_def demo_submitted_def)
  ultimately show ?thesis by (auto simp: numeral_3_eq_3)
qed

lemma work_reachable: "(async_work ^^ n) s s' \<Longrightarrow> async_reachable s \<Longrightarrow> async_reachable s'"
  by (induction n arbitrary: s') (auto intro: async_reachable.step step_work)

theorem vw_translate_async_ordered_witness:
  "map result_key (sy_delivered demo_fetched) = take (length (sy_delivered demo_fetched)) (sy_accepted demo_fetched)
    \<and> length (sy_delivered demo_fetched) = 1"
  using vw_translate_async_ordered[OF work_reachable[OF demo_work demo_submitted_reachable]]
  by (simp add: demo_fetched_def)

text \<open>
  Property C25. Without new input the pipeline comes to rest: from any reachable state the
  threads and the worker loop can only make a bounded number of steps, and when none is
  possible any more every accepted cue has been delivered, whatever the translations
  returned.
\<close>

theorem vw_translate_async_drains:
  assumes "async_reachable s" "(async_work ^^ n) s s'"
  shows "n \<le> work_left s \<and> ((\<nexists>s''. async_work s' s'') \<longrightarrow> map result_key (sy_delivered s') = sy_accepted s)"
  using work_run[OF assms(2) async_reachable_inv[OF assms(1)]] quiescent_delivered[of s'] by auto

theorem vw_translate_async_drains_witness:
  "3 \<le> work_left demo_submitted"
  using vw_translate_async_drains[OF demo_submitted_reachable demo_work] by blast

text \<open>
  Property. A cue with text is refused only when its text is longer than a message can
  carry or 34 cues are pending, and a refusal leaves the pipeline as it is.
\<close>

theorem vw_translate_async_submit_accepts:
  assumes "async_reachable s" "cs_text_utf8 seg = Some t" "0 < strlen t"
  shows "(fst (vw_translate_async_submit (sy_async s) seg src dst)
      \<longleftrightarrow> strlen t \<le> VW_MAX_TEXT_BYTES
        \<and> ta_job_count (sy_async s) + length (sy_flight s) + ta_result_count (sy_async s) < VW_TRANSLATE_ASYNC_RESULT_CAPACITY)
    \<and> (\<not> fst (vw_translate_async_submit (sy_async s) seg src dst)
      \<longrightarrow> snd (vw_translate_async_submit (sy_async s) seg src dst) = sy_async s)"
  using async_reachable_inv[OF assms(1)] assms(2,3)
  by (cases t; auto simp: async_inv_def vw_translate_async_submit_def Let_def strlen_def c_get_def split: if_splits)

theorem vw_translate_async_submit_accepts_witness:
  "fst (vw_translate_async_submit (sy_async demo_submitted) demo_cue None None)"
  using vw_translate_async_submit_accepts[OF demo_submitted_reachable, of demo_cue "[104, 105, 0]" None None]
    demo_accepts_twice by simp

end
