(* ===== verification/VW_Text_Codec.thy ===== *)
theory VW_Text_Codec
  imports VW_Util VW_Translate_Types
begin

unbundle bit_operations_syntax

text \<open>
  The text codecs of \<^verbatim>\<open>worker/src/vw_translate.c\<close>: percent encoding, HTML entities, JSON
  strings.  A destination buffer is its size and the list of bytes written so far; \<open>None\<close>
  is the result \<open>false\<close>, after which no caller reads the buffer.  The sources are C strings
  and the loops run over their characters.
\<close>

section \<open>The code\<close>

definition k_hex :: bytes where "k_hex = ascii ''0123456789ABCDEF''"

subsection \<open>Percent encoding\<close>

definition url_unreserved :: "u8 \<Rightarrow> bool" where
  "url_unreserved c \<longleftrightarrow> (0x61 \<le> c \<and> c \<le> 0x7A) \<or> (0x41 \<le> c \<and> c \<le> 0x5A) \<or> (0x30 \<le> c \<and> c \<le> 0x39)
     \<or> c = 0x2D \<or> c = 0x5F \<or> c = 0x2E \<or> c = 0x7E"

fun url_loop :: "bytes \<Rightarrow> nat \<Rightarrow> bytes \<Rightarrow> bytes option" where
  "url_loop [] dst_size dst = Some dst"
| "url_loop (c # src) dst_size dst =
     (if url_unreserved c then
        if length dst + 1 \<ge> dst_size then None else url_loop src dst_size (dst @ [c])
      else if length dst + 3 \<ge> dst_size then None
      else url_loop src dst_size (dst @ [0x25, k_hex ! unat (drop_bit 4 c), k_hex ! unat (c AND 0x0F)]))"

definition vw_url_encode :: "bytes \<Rightarrow> nat \<Rightarrow> bytes option" where
  "vw_url_encode src dst_size = (if dst_size = 0 then None else url_loop (c_str src) dst_size [])"

subsection \<open>Code points\<close>

definition append_utf8_scalar :: "u32 \<Rightarrow> nat \<Rightarrow> bytes \<Rightarrow> bytes option" where
  "append_utf8_scalar code dst_size dst =
     (if code = 0 \<or> code > 0x10FFFF \<or> (code \<ge> 0xD800 \<and> code \<le> 0xDFFF) then None
      else let need = (if code \<le> 0x7F then 1 else if code \<le> 0x7FF then 2 else if code \<le> 0xFFFF then 3 else 4 :: nat) in
      if length dst + need \<ge> dst_size then None
      else Some (dst @
        (if need = 1 then [ucast code]
         else if need = 2 then [ucast (0xC0 OR drop_bit 6 code), ucast (0x80 OR (code AND 0x3F))]
         else if need = 3 then
           [ucast (0xE0 OR drop_bit 12 code), ucast (0x80 OR (drop_bit 6 code AND 0x3F)), ucast (0x80 OR (code AND 0x3F))]
         else [ucast (0xF0 OR drop_bit 18 code), ucast (0x80 OR (drop_bit 12 code AND 0x3F)),
           ucast (0x80 OR (drop_bit 6 code AND 0x3F)), ucast (0x80 OR (code AND 0x3F))])))"

subsection \<open>HTML entities\<close>

definition named_entities :: "(bytes \<times> u8) list" where
  "named_entities = [(ascii ''&quot;'', 0x22), (ascii ''&#39;'', 0x27), (ascii ''&#039;'', 0x27), (ascii ''&amp;'', 0x26),
     (ascii ''&lt;'', 0x3C), (ascii ''&gt;'', 0x3E), (ascii ''&nbsp;'', 0x20)]"

text \<open>
  \<^verbatim>\<open>strtoul\<close>: white space, a sign, for base 16 a prefix, digits.  The result is the value as
  an \<^verbatim>\<open>unsigned long\<close> and what is left; without digits nothing is consumed.
\<close>

definition strip_prefix_0x :: "nat \<Rightarrow> bytes \<Rightarrow> bytes" where
  "strip_prefix_0x base s =
     (case s of c # x # d # r \<Rightarrow>
        if base = 16 \<and> c = 0x30 \<and> (x = 0x78 \<or> x = 0x58) \<and> hex_digit d \<noteq> None then d # r else s
      | _ \<Rightarrow> s)"

definition strtoul :: "bytes \<Rightarrow> nat \<Rightarrow> u64 \<times> bytes" where
  "strtoul s base =
     (let t = dropWhile isspace s;
          neg = (t \<noteq> [] \<and> hd t = 0x2D);
          u = (if t \<noteq> [] \<and> (hd t = 0x2D \<or> hd t = 0x2B) then tl t else t);
          w = strip_prefix_0x base u
      in case w of [] \<Rightarrow> (0, s)
         | c # _ \<Rightarrow> if base_digit base c = None then (0, s)
             else let (v, r) = digits_value base 0 w;
                      n = (if v \<ge> 2 ^ 64 then - 1 else if neg then - of_nat v else of_nat v)
                  in (n, r))"

text \<open>
  A numeric entity at the start of \<open>s\<close>: its code point and length, when the code would
  replace it.
\<close>

definition numeric_entity :: "bytes \<Rightarrow> (u32 \<times> nat) option" where
  "numeric_entity s =
     (if c_get s 1 \<noteq> 0x23 then None
      else let k = length (takeWhile (\<lambda>c. c \<noteq> 0x3B) (take 10 (drop 2 s))); end_idx = k + 2 in
      if c_get s end_idx \<noteq> 0x3B then None
      else let hex = (c_get s 2 = 0x78 \<or> c_get s 2 = 0x58);
               digits = (if hex then 3 else 2);
               digit_count = end_idx - digits in
      if \<not> (digit_count > 0 \<and> digit_count < 9) then None
      else case strtoul (take digit_count (drop digits s)) (if hex then 16 else 10) of
          (code, rest) \<Rightarrow>
            if rest = [] \<and> \<not> (code > 0x10FFFF \<or> (code \<ge> 0xD800 \<and> code \<le> 0xDFFF) \<or> code = 0)
            then Some (ucast code, end_idx + 1) else None)"

definition named_entity :: "bytes \<Rightarrow> (u8 \<times> nat) option" where
  "named_entity s =
     (case find (\<lambda>(e, v). take (length e) s = e) named_entities of
        None \<Rightarrow> None | Some (e, v) \<Rightarrow> Some (v, length e))"

lemma named_entity_Some:
  assumes "named_entity s = Some (v, n)"
  obtains e where "(e, v) \<in> set named_entities" "take (length e) s = e" "n = length e"
proof -
  obtain e where "find (\<lambda>(e, v). take (length e) s = e) named_entities = Some (e, v)" and n: "n = length e"
    using assms by (auto simp: named_entity_def split: option.splits)
  then have "(e, v) \<in> set named_entities" "take (length e) s = e" by (auto simp: find_Some_iff in_set_conv_nth)
  then show thesis using n by (rule that)
qed

lemma named_entity_len: "named_entity s = Some (v, n) \<Longrightarrow> 3 < n \<and> n \<le> length s"
proof (elim named_entity_Some)
  fix e assume "(e, v) \<in> set named_entities" and e: "take (length e) s = e" "n = length e"
  then have "3 < length e" by (auto simp: named_entities_def ascii_def)
  moreover have "length e \<le> length s" using e(1) by (metis length_take min.cobounded1)
  ultimately show ?thesis using e(2) by simp
qed

function html_loop :: "bytes \<Rightarrow> bool \<Rightarrow> nat \<Rightarrow> bytes \<Rightarrow> bytes option" where
  "html_loop [] in_tag dst_size dst = Some dst"
| "html_loop (c # src) in_tag dst_size dst =
     (if c = 0x3C then html_loop src True dst_size dst
      else if c = 0x3E then html_loop src False dst_size dst
      else if in_tag then html_loop src in_tag dst_size dst
      else case (if c = 0x26 then named_entity (c # src) else None) of
          Some (v, n) \<Rightarrow>
            if length dst + 1 \<ge> dst_size then None
            else html_loop (drop n (c # src)) in_tag dst_size (dst @ [v])
        | None \<Rightarrow>
            (case (if c = 0x26 then numeric_entity (c # src) else None) of
               Some (code, n) \<Rightarrow>
                 (case append_utf8_scalar code dst_size dst of
                    None \<Rightarrow> None
                  | Some dst' \<Rightarrow> html_loop (drop n (c # src)) in_tag dst_size dst')
             | None \<Rightarrow>
                 if length dst + 1 \<ge> dst_size then None
                 else html_loop src in_tag dst_size (dst @ [c])))"
  by pat_completeness auto

lemma numeric_entity_len: "numeric_entity s = Some (code, n) \<Longrightarrow> 3 \<le> n"
  by (auto simp: numeric_entity_def Let_def split: if_splits prod.splits)

termination html_loop
  by (relation "measure (\<lambda>(s, _, _, _). length s)")
    (auto dest: named_entity_len numeric_entity_len split: if_splits)

definition vw_html_unescape :: "bytes \<Rightarrow> nat \<Rightarrow> bytes option" where
  "vw_html_unescape src dst_size = (if dst_size = 0 then None else html_loop (c_str src) False dst_size [])"

subsection \<open>JSON strings\<close>

fun hex4_loop :: "bytes \<Rightarrow> u32 \<Rightarrow> u32 option" where
  "hex4_loop [] value = Some value"
| "hex4_loop (c # s) value =
     (case hex_digit c of None \<Rightarrow> None | Some d \<Rightarrow> hex4_loop s (push_bit 4 value OR of_nat d))"

definition parse_hex4 :: "bytes \<Rightarrow> u32 option" where
  "parse_hex4 src = hex4_loop (take 4 src) 0"

definition simple_escape :: "u8 \<Rightarrow> u8 option" where
  "simple_escape c =
     (if c = 0x22 \<or> c = 0x5C \<or> c = 0x2F then Some c
      else if c = 0x62 then Some 0x08 else if c = 0x66 then Some 0x0C else if c = 0x6E then Some 0x0A
      else if c = 0x72 then Some 0x0D else if c = 0x74 then Some 0x09 else None)"

text \<open>The code point of \<open>\u\<close>, given what follows the letter, and the number of characters used.\<close>

definition unicode_escape :: "bytes \<Rightarrow> (u32 \<times> nat) option" where
  "unicode_escape s =
     (if length s < 4 then None
      else case parse_hex4 s of
          None \<Rightarrow> None
        | Some code \<Rightarrow>
            if code \<ge> 0xD800 \<and> code \<le> 0xDBFF then
              if length s < 10 \<or> s ! 4 \<noteq> 0x5C \<or> s ! 5 \<noteq> 0x75 then None
              else (case parse_hex4 (drop 6 s) of
                  None \<Rightarrow> None
                | Some low \<Rightarrow>
                    if low < 0xDC00 \<or> low > 0xDFFF then None
                    else Some (0x10000 + push_bit 10 (code - 0xD800) + (low - 0xDC00), 10))
            else if code \<ge> 0xDC00 \<and> code \<le> 0xDFFF then None
            else Some (code, 4))"

function json_unescape_loop :: "bytes \<Rightarrow> nat \<Rightarrow> bytes \<Rightarrow> bytes option" where
  "json_unescape_loop [] dst_size dst = Some dst"
| "json_unescape_loop (raw # src) dst_size dst =
     (if raw < 0x20 then None
      else if raw \<noteq> 0x5C then
        if length dst + 1 \<ge> dst_size then None else json_unescape_loop src dst_size (dst @ [raw])
      else case src of
          [] \<Rightarrow> None
        | c # rest \<Rightarrow>
            (case simple_escape c of
               Some decoded \<Rightarrow>
                 if length dst + 1 \<ge> dst_size then None else json_unescape_loop rest dst_size (dst @ [decoded])
             | None \<Rightarrow>
                 if c = 0x75 then
                   (case unicode_escape rest of
                      None \<Rightarrow> None
                    | Some (code, n) \<Rightarrow>
                        (case append_utf8_scalar code dst_size dst of
                           None \<Rightarrow> None
                         | Some dst' \<Rightarrow> json_unescape_loop (drop n rest) dst_size dst'))
                 else None))"
  by pat_completeness auto
termination
  by (relation "measure (\<lambda>(s, _, _). length s)") auto

definition json_unescape_string :: "bytes \<Rightarrow> nat \<Rightarrow> nat \<Rightarrow> bytes option" where
  "json_unescape_string src src_len dst_size =
     (if dst_size = 0 then None else json_unescape_loop (take src_len src) dst_size [])"

fun slashes_before :: "bytes \<Rightarrow> nat \<Rightarrow> nat" where
  "slashes_before start 0 = 0"
| "slashes_before start (Suc q) = (if start ! q = 0x5C then Suc (slashes_before start q) else 0)"

function string_end_loop :: "bytes \<Rightarrow> nat \<Rightarrow> nat option" where
  "string_end_loop start p =
     (if p \<ge> length start \<or> start ! p = 0 then None
      else if start ! p = 0x22 \<and> even (slashes_before start p) then Some p
      else string_end_loop start (p + 1))"
  by pat_completeness auto
termination
  by (relation "measure (\<lambda>(s, p). length s - p)") auto

declare string_end_loop.simps [simp del]

definition json_string_end :: "bytes \<Rightarrow> nat option" where
  "json_string_end start = string_end_loop start 0"

definition two_char_escape :: "u8 \<Rightarrow> bytes option" where
  "two_char_escape c =
     (if c = 0x22 then Some [0x5C, 0x22] else if c = 0x5C then Some [0x5C, 0x5C]
      else if c = 0x08 then Some [0x5C, 0x62] else if c = 0x0C then Some [0x5C, 0x66]
      else if c = 0x0A then Some [0x5C, 0x6E] else if c = 0x0D then Some [0x5C, 0x72]
      else if c = 0x09 then Some [0x5C, 0x74] else None)"

fun json_escape_loop :: "bytes \<Rightarrow> nat \<Rightarrow> bytes \<Rightarrow> bytes option" where
  "json_escape_loop [] dst_size dst = Some dst"
| "json_escape_loop (c # src) dst_size dst =
     (case two_char_escape c of
        Some two \<Rightarrow> if length dst + 2 \<ge> dst_size then None else json_escape_loop src dst_size (dst @ two)
      | None \<Rightarrow>
          if c < 0x20 then
            if length dst + 6 \<ge> dst_size then None
            else json_escape_loop src dst_size
              (dst @ [0x5C, 0x75, 0x30, 0x30, k_hex ! unat (drop_bit 4 c), k_hex ! unat (c AND 0x0F)])
          else if length dst + 1 \<ge> dst_size then None
          else json_escape_loop src dst_size (dst @ [c]))"

definition json_escape_string :: "bytes \<Rightarrow> nat \<Rightarrow> bytes option" where
  "json_escape_string src dst_size = (if dst_size = 0 then None else json_escape_loop (c_str src) dst_size [])"

section \<open>Digits\<close>

lemma k_hex_length [simp]: "length k_hex = 16"
  by (simp add: k_hex_def ascii_def)

lemma hex_digit_k_hex: "n < 16 \<Longrightarrow> hex_digit (k_hex ! n) = Some n"
proof -
  have "\<forall>n \<in> set [0..<16]. hex_digit (k_hex ! n) = Some n" by code_simp
  then show "n < 16 \<Longrightarrow> hex_digit (k_hex ! n) = Some n" by simp
qed

lemma nibbles: "unat (drop_bit 4 (c :: u8)) < 16" "unat (c AND 0x0F) < 16"
  "16 * unat (drop_bit 4 c) + unat (c AND 0x0F) = unat c"
proof -
  have hi: "unat (drop_bit 4 c) = unat c div 16" by (subst unat_drop_bit_eq) (simp add: drop_bit_eq_div)
  have lt: "unat c < 256" by (rule order_less_le_trans[OF unsigned_less]) simp
  have low: "c AND 0x0F = take_bit 4 c" by (simp add: take_bit_eq_mask mask_eq_exp_minus_1)
  have lo: "unat (c AND 0x0F) = unat c mod 16" unfolding low unsigned_take_bit_eq by (simp add: take_bit_eq_mod)
  show "unat (drop_bit 4 c) < 16" "unat (c AND 0x0F) < 16" "16 * unat (drop_bit 4 c) + unat (c AND 0x0F) = unat c"
    using lt unfolding hi lo by presburger+
qed

section \<open>Percent encoding\<close>

text \<open>A decoder of percent-encoded text as RFC 3986 describes it.\<close>

fun url_decode :: "bytes \<Rightarrow> bytes option" where
  "url_decode [] = Some []"
| "url_decode (c # s) =
     (if c = 0x25 then
        (case s of a # b # r \<Rightarrow>
           (case (hex_digit a, hex_digit b) of
              (Some x, Some y) \<Rightarrow> map_option ((#) (of_nat (16 * x + y))) (url_decode r)
            | _ \<Rightarrow> None)
         | _ \<Rightarrow> None)
      else map_option ((#) c) (url_decode s))"

definition url_enc1 :: "u8 \<Rightarrow> bytes" where
  "url_enc1 c = (if url_unreserved c then [c] else [0x25, k_hex ! unat (drop_bit 4 c), k_hex ! unat (c AND 0x0F)])"

lemma url_loop_eq:
  "length dst < n \<Longrightarrow> url_loop s n dst =
     (if length dst + length (concat (map url_enc1 s)) < n then Some (dst @ concat (map url_enc1 s)) else None)"
  by (induction s arbitrary: dst) (auto simp: url_enc1_def)

lemma vw_url_encode_eq:
  "vw_url_encode s n =
     (if length (concat (map url_enc1 (c_str s))) < n then Some (concat (map url_enc1 (c_str s))) else None)"
  by (auto simp: vw_url_encode_def url_loop_eq)

lemma url_decode_enc1: "url_decode (url_enc1 c @ s) = map_option ((#) c) (url_decode s)"
  using nibbles[of c] by (auto simp: url_enc1_def hex_digit_k_hex url_unreserved_def simp flip: of_nat_add of_nat_mult)

lemma url_decode_enc: "url_decode (concat (map url_enc1 s) @ r) = map_option ((@) s) (url_decode r)"
  by (induction s) (auto simp: url_decode_enc1 option.map_comp comp_def option.map_ident)

lemma url_enc1_length: "length (url_enc1 c) \<le> 3" "url_unreserved c \<Longrightarrow> length (url_enc1 c) = 1"
  by (simp_all add: url_enc1_def)

lemma length_concat_map_le:
  "(\<And>x. x \<in> set xs \<Longrightarrow> length (f x) \<le> k) \<Longrightarrow> length (concat (map f xs)) \<le> k * length xs"
proof (induction xs)
  case (Cons x xs)
  then have "length (f x) \<le> k" "length (concat (map f xs)) \<le> k * length xs" by auto
  then show ?case by simp
qed simp

lemma url_chars: "x \<in> set (concat (map url_enc1 s)) \<Longrightarrow> url_unreserved x \<or> x = 0x25"
proof -
  have "\<forall>n \<in> set [0..<16]. url_unreserved (k_hex ! n)" by code_simp
  then have "n < 16 \<Longrightarrow> url_unreserved (k_hex ! n)" for n by simp
  then show "x \<in> set (concat (map url_enc1 s)) \<Longrightarrow> url_unreserved x \<or> x = 0x25"
    using nibbles by (auto simp: url_enc1_def split: if_splits)
qed

text \<open>
  Property. Percent encoding succeeds whenever three bytes per character fit, its output
  has only unreserved characters and escapes, and decoding it gives the text back: nothing
  in a cue can leave the query parameter it is put in.
\<close>

theorem vw_url_encode_roundtrip:
  "(3 * strlen s < n \<longrightarrow> vw_url_encode s n \<noteq> None)
    \<and> (vw_url_encode s n = Some e \<longrightarrow> length e < n \<and> url_decode e = Some (c_str s)
        \<and> (\<forall>c \<in> set e. url_unreserved c \<or> c = 0x25))"
proof -
  have "length (concat (map url_enc1 (c_str s))) \<le> 3 * strlen s"
    using length_concat_map_le[of "c_str s" url_enc1 3] url_enc1_length by simp
  then show ?thesis
    using url_decode_enc[of "c_str s" "[]"] url_chars[of _ "c_str s"]
    by (auto simp: vw_url_encode_eq simp del: set_concat split: if_splits)
qed

theorem vw_url_encode_roundtrip_witness:
  "url_decode (the (vw_url_encode (ascii ''a b&c=%'') 40)) = Some (ascii ''a b&c=%'')"
proof -
  have "vw_url_encode (ascii ''a b&c=%'') 40 = Some (ascii ''a%20b%26c%3D%25'')" by code_simp
  moreover have "c_str (ascii ''a b&c=%'') = ascii ''a b&c=%''" by code_simp
  ultimately show ?thesis using vw_url_encode_roundtrip[of "ascii ''a b&c=%''" 40 "ascii ''a%20b%26c%3D%25''"] by simp
qed

section \<open>Where a JSON string ends\<close>

text \<open>A forward scan that skips the character after a backslash.\<close>

fun scan_string :: "bytes \<Rightarrow> nat option" where
  "scan_string [] = None"
| "scan_string (c # s) =
     (if c = 0 then None
      else if c = 0x22 then Some 0
      else if c = 0x5C then
        (case s of [] \<Rightarrow> None
         | d # r \<Rightarrow> if d = 0 then None else map_option (\<lambda>k. k + 2) (scan_string r))
      else map_option Suc (scan_string s))"

lemma string_end_scan:
  "even (slashes_before s p) \<Longrightarrow> string_end_loop s p = map_option (\<lambda>k. p + k) (scan_string (drop p s))"
proof (induction "length s - p" arbitrary: p rule: less_induct)
  case less
  note simps = string_end_loop.simps[of s p]
  show ?case
  proof (cases "p < length s")
    case False
    then show ?thesis using simps by simp
  next
    case True
    then have d: "drop p s = s ! p # drop (Suc p) s" by (simp add: Cons_nth_drop_Suc)
    consider "s ! p = 0 \<or> s ! p = 0x22" | "s ! p = 0x5C" | "s ! p \<noteq> 0" "s ! p \<noteq> 0x22" "s ! p \<noteq> 0x5C" by blast
    then show ?thesis
    proof cases
      case 1
      then show ?thesis using simps True less.prems by (auto simp: d)
    next
      case 3
      then have "string_end_loop s (Suc p) = map_option (\<lambda>k. Suc p + k) (scan_string (drop (Suc p) s))"
        using True by (intro less.hyps) auto
      then show ?thesis using simps True 3 by (auto simp: d option.map_comp comp_def)
    next
      case 2
      then have step: "string_end_loop s p = string_end_loop s (Suc p)" using simps True by simp
      have odd: "odd (slashes_before s (Suc p))" using 2 less.prems by simp
      note simps2 = string_end_loop.simps[of s "Suc p"]
      show ?thesis
      proof (cases "Suc p < length s")
        case False
        then show ?thesis using step simps2 2 by (simp add: d)
      next
        case True
        then have d2: "drop (Suc p) s = s ! Suc p # drop (p + 2) s" by (metis Cons_nth_drop_Suc add_2_eq_Suc')
        show ?thesis
        proof (cases "s ! Suc p = 0")
          case True
          then show ?thesis using step simps2 2 by (simp add: d d2)
        next
          case False
          then have "string_end_loop s (Suc p) = string_end_loop s (p + 2)" using simps2 True odd by simp
          moreover have "even (slashes_before s (p + 2))" using odd by simp
          then have "string_end_loop s (p + 2) = map_option (\<lambda>k. p + 2 + k) (scan_string (drop (p + 2) s))"
            using True by (intro less.hyps) auto
          ultimately show ?thesis using step 2 False by (auto simp: d d2 option.map_comp comp_def)
        qed
      qed
    qed
  qed
qed

text \<open>
  Property. Counting the backslashes before each quote finds the same closing quote as a
  forward scan that skips escaped characters.
\<close>

theorem json_string_end_correct: "json_string_end s = scan_string s"
  using string_end_scan[of s 0] by (simp add: json_string_end_def option.map_ident)

section \<open>Code points\<close>

lemma ucast_or_low:
  assumes "unat x < 2 ^ m" "v = push_bit m d" "unat (v :: u32) + unat x < 2 ^ 32"
  shows "(ucast (v OR x) :: u8) = of_nat (unat v + unat x)"
proof -
  have "take_bit m x = x"
    by (rule unsigned_word_eqI[where ?'a = nat]) (simp add: unsigned_take_bit_eq take_bit_nat_eq_self assms(1))
  then have "\<not> bit x n" if "m \<le> n" for n using that by (metis bit_take_bit_iff not_le)
  then have "v OR x = v + x"
    unfolding assms(2) by (intro disjunctive_add [symmetric]) (auto simp: bit_simps)
  moreover have "unat (v + x) = unat v + unat x" using assms(3) by (simp add: unat_word_ariths(1))
  ultimately show ?thesis by (metis of_nat_unat)
qed

lemma unat_low6: "unat (w AND 0x3F :: u32) = unat w mod 64"
proof -
  have low: "w AND 0x3F = take_bit 6 w" by (simp add: take_bit_eq_mask mask_eq_exp_minus_1)
  show ?thesis unfolding low unsigned_take_bit_eq by (simp add: take_bit_eq_mod)
qed

lemma unat_shift: "unat (drop_bit k (w :: u32)) = unat w div 2 ^ k"
  by (subst unat_drop_bit_eq) (simp add: drop_bit_eq_div)

lemma cont_byte: "(ucast (0x80 OR (w AND 0x3F) :: u32) :: u8) = of_nat (0x80 + unat w mod 64)"
proof -
  have "unat w mod 64 < 64" by simp
  then show ?thesis
    using ucast_or_low[of "w AND 0x3F" 6 "0x80" 2] by (simp add: unat_low6)
qed

lemma append_utf8_scalar_eq:
  "append_utf8_scalar code n dst =
     (if code \<noteq> 0 \<and> utf8_scalar (unat code) \<and> length dst + length (utf8_encode (unat code)) < n
      then Some (dst @ utf8_encode (unat code)) else None)"
proof (cases "code \<noteq> 0 \<and> utf8_scalar (unat code)")
  case False
  then show ?thesis
    by (auto simp: append_utf8_scalar_def utf8_scalar_def word_le_nat_alt word_less_nat_alt unat_eq_zero)
next
  case True
  then have lim: "unat code \<le> 0x10FFFF" "code \<noteq> 0" by (simp_all add: utf8_scalar_def)
  have guard: "\<not> (code = 0 \<or> code > 0x10FFFF \<or> (code \<ge> 0xD800 \<and> code \<le> 0xDFFF))"
    using True by (auto simp: utf8_scalar_def word_le_nat_alt word_less_nat_alt)
  have c1: "(ucast code :: u8) = of_nat (unat code)" by (metis of_nat_unat)
  have c2: "unat code < 0x800 \<Longrightarrow> (ucast (0xC0 OR drop_bit 6 code) :: u8) = of_nat (0xC0 + unat code div 64)"
    using ucast_or_low[of "drop_bit 6 code" 5 "0xC0" 6] by (simp add: unat_shift)
  have c3: "unat code < 0x10000 \<Longrightarrow> (ucast (0xE0 OR drop_bit 12 code) :: u8) = of_nat (0xE0 + unat code div 4096)"
    using ucast_or_low[of "drop_bit 12 code" 4 "0xE0" 14] by (simp add: unat_shift)
  have c4: "(ucast (0xF0 OR drop_bit 18 code) :: u8) = of_nat (0xF0 + unat code div 262144)"
    using ucast_or_low[of "drop_bit 18 code" 3 "0xF0" 30] lim by (simp add: unat_shift)
  show ?thesis
    using True guard c1 c2 c3 c4 cont_byte[of code] cont_byte[of "drop_bit 6 code"] cont_byte[of "drop_bit 12 code"]
    unfolding append_utf8_scalar_def utf8_encode_def Let_def word_le_nat_alt
    by (simp add: unat_shift)
qed

section \<open>Escaped JSON strings\<close>

definition json_esc1 :: "u8 \<Rightarrow> bytes" where
  "json_esc1 c = (case two_char_escape c of Some two \<Rightarrow> two
     | None \<Rightarrow> if c < 0x20 then [0x5C, 0x75, 0x30, 0x30, k_hex ! unat (drop_bit 4 c), k_hex ! unat (c AND 0x0F)] else [c])"

abbreviation json_esc :: "bytes \<Rightarrow> bytes" where "json_esc s \<equiv> concat (map json_esc1 s)"

lemma two_char_length: "two_char_escape c = Some two \<Longrightarrow> length two = 2"
  by (auto simp: two_char_escape_def split: if_splits)

lemma json_escape_loop_eq:
  "length dst < n \<Longrightarrow> json_escape_loop s n dst = (if length dst + length (json_esc s) < n then Some (dst @ json_esc s) else None)"
  by (induction s arbitrary: dst) (auto simp: json_esc1_def dest: two_char_length split: option.splits)

lemma json_escape_string_eq:
  "json_escape_string s n = (if length (json_esc (c_str s)) < n then Some (json_esc (c_str s)) else None)"
  by (auto simp: json_escape_string_def json_escape_loop_eq)

lemma json_esc1_length: "length (json_esc1 c) \<le> 6" "0x20 \<le> c \<Longrightarrow> length (json_esc1 c) \<le> 2"
  by (auto simp: json_esc1_def dest: two_char_length split: option.splits)

lemma control_escape:
  fixes c :: u8
  assumes "c < 0x20"
  shows "unicode_escape ([0x30, 0x30, k_hex ! unat (drop_bit 4 c), k_hex ! unat (c AND 0x0F)] @ s) = Some (ucast c, 4)"
proof -
  let ?h = "\<lambda>c :: u8. [0x30, 0x30, k_hex ! unat (drop_bit 4 c), k_hex ! unat (c AND 0x0F)]"
  have "\<forall>n \<in> set [0..<32]. parse_hex4 (?h (of_nat n)) = Some (ucast (of_nat n :: u8))
      \<and> \<not> 0xD800 \<le> (ucast (of_nat n :: u8) :: u32) \<and> \<not> 0xDC00 \<le> (ucast (of_nat n :: u8) :: u32)" by code_simp
  moreover have "c = of_nat (unat c)" "unat c \<in> set [0..<32]" using assms by (simp_all add: word_less_nat_alt)
  ultimately have "parse_hex4 (?h c) = Some (ucast c) \<and> \<not> 0xD800 \<le> (ucast c :: u32) \<and> \<not> 0xDC00 \<le> (ucast c :: u32)"
    by metis
  moreover have "parse_hex4 (?h c @ s) = parse_hex4 (?h c)" by (simp add: parse_hex4_def)
  ultimately show ?thesis by (simp add: unicode_escape_def)
qed

lemma utf8_encode_ascii: "n < 0x80 \<Longrightarrow> utf8_encode n = [of_nat n]"
  by (simp add: utf8_encode_def)

lemma json_unescape_esc1:
  assumes "c \<noteq> 0"
  shows "json_unescape_loop (json_esc1 c @ s) n dst = (if length dst + 1 < n then json_unescape_loop s n (dst @ [c]) else None)"
proof (cases "two_char_escape c")
  case (Some two)
  then show ?thesis
    by (auto simp: json_esc1_def two_char_escape_def simple_escape_def split: if_splits)
next
  case None
  show ?thesis
  proof (cases "c < 0x20")
    case True
    then have sc: "unat c < 32" by (simp add: word_less_nat_alt)
    have nz: "(ucast c :: u32) \<noteq> 0" using assms by transfer simp
    have "append_utf8_scalar (ucast c) n dst = (if length dst + 1 < n then Some (dst @ [c]) else None)"
      using nz assms sc by (auto simp: append_utf8_scalar_eq utf8_encode_ascii utf8_scalar_def unsigned_ucast_eq unat_eq_zero)
    then show ?thesis
      using None True control_escape[OF True, of s] by (simp add: json_esc1_def simple_escape_def)
  next
    case False
    moreover have "c \<noteq> 0x5C" using None by (auto simp: two_char_escape_def)
    ultimately show ?thesis using None by (simp add: json_esc1_def)
  qed
qed

lemma json_unescape_esc:
  "0 \<notin> set s \<Longrightarrow> json_unescape_loop (json_esc s @ r) n dst
     = (if s = [] \<or> length dst + length s < n then json_unescape_loop r n (dst @ s) else None)"
proof (induction s arbitrary: dst)
  case (Cons c s)
  then show ?case by (auto simp: json_unescape_esc1)
qed simp

lemma scan_string_esc1: "c \<noteq> 0 \<Longrightarrow> scan_string (json_esc1 c @ s) = map_option (\<lambda>k. k + length (json_esc1 c)) (scan_string s)"
proof -
  assume c: "c \<noteq> 0"
  have "\<forall>n \<in> set [0..<16]. k_hex ! n \<notin> {0, 0x22, 0x5C}" by code_simp
  then have "n < 16 \<Longrightarrow> k_hex ! n \<notin> {0, 0x22, 0x5C}" for n by simp
  from this[OF nibbles(1)[of c]] this[OF nibbles(2)[of c]] c show ?thesis
    by (cases "scan_string s") (auto simp: json_esc1_def two_char_escape_def)
qed

lemma scan_string_esc: "0 \<notin> set s \<Longrightarrow> scan_string (json_esc s @ r) = map_option (\<lambda>k. k + length (json_esc s)) (scan_string r)"
proof (induction s)
  case Nil
  then show ?case by (cases "scan_string r") auto
next
  case (Cons c s)
  then show ?case by (cases "scan_string r") (auto simp: scan_string_esc1)
qed

lemma json_string_end_esc: "0 \<notin> set s \<Longrightarrow> json_string_end (json_esc s @ 0x22 # r) = Some (length (json_esc s))"
  using string_end_scan[of "json_esc s @ 0x22 # r" 0] scan_string_esc[of s "0x22 # r"] by (simp add: json_string_end_def option.map_ident)

text \<open>
  Property. A text escaped for JSON fits when six bytes per character do; put between
  quotes, the string ends where the text ends, whatever the text, and unescaping gives the
  text back.
\<close>

theorem json_escape_roundtrip:
  assumes "json_escape_string s n = Some e"
  shows "length e < n \<and> json_string_end (e @ 0x22 # r) = Some (length e)
    \<and> (\<forall>m > strlen s. json_unescape_string (e @ 0x22 # r) (length e) m = Some (c_str s))
    \<and> (\<forall>m > 6 * strlen s. json_escape_string s m = Some e)"
proof -
  have e: "e = json_esc (c_str s)" "length e < n" using assms by (auto simp: json_escape_string_eq split: if_splits)
  have "length e \<le> 6 * strlen s"
    unfolding e using length_concat_map_le[of "c_str s" json_esc1 6] json_esc1_length by simp
  then show ?thesis
    using e json_string_end_esc[OF c_str_nonzero] json_unescape_esc[OF c_str_nonzero, of s "[]"]
    by (auto simp: json_unescape_string_def json_escape_string_eq)
qed

theorem json_escape_roundtrip_witness:
  "json_unescape_string [0x61, 0x5C, 0x22, 0x5C, 0x6E, 0x22] 5 4 = Some [0x61, 0x22, 0x0A]"
proof -
  have e: "json_escape_string [0x61, 0x22, 0x0A] 20 = Some [0x61, 0x5C, 0x22, 0x5C, 0x6E]"
    and s: "c_str [0x61, 0x22, 0x0A] = [0x61, 0x22, 0x0A]" "strlen [0x61, 0x22, 0x0A] = 3" by code_simp+
  show ?thesis using json_escape_roundtrip[OF e, of "[]"] s by (simp add: eval_nat_numeral)
qed

section \<open>HTML entities\<close>

lemma length_utf8_encode: "length (utf8_encode n) \<le> 4"
  by (simp add: utf8_encode_def)

lemma numeric_entity_Some:
  assumes "numeric_entity s = Some (code, n)"
  shows "4 \<le> n" "n \<le> length s" "code \<noteq> 0" "utf8_scalar (unat code)"
proof -
  let ?k = "length (takeWhile (\<lambda>c. c \<noteq> 0x3B) (take 10 (drop 2 s)))"
  obtain w where w: "n = ?k + 3" "c_get s (?k + 2) = 0x3B" "code = ucast (w :: u64)"
      "\<not> (w > 0x10FFFF \<or> (w \<ge> 0xD800 \<and> w \<le> 0xDFFF) \<or> w = 0)"
      "0 < ?k + 2 - (if c_get s 2 = 0x78 \<or> c_get s 2 = 0x58 then 3 else 2)"
    using assms by (auto simp: numeric_entity_def Let_def split: if_splits prod.splits)
  have "(2 :: nat) \<le> (if c_get s 2 = 0x78 \<or> c_get s 2 = 0x58 then 3 else 2)" by simp
  then show "4 \<le> n" using w(1,5) by linarith
  have "c_get s (?k + 2) \<noteq> 0" using w(2) by simp
  then have "?k + 2 < length s" unfolding c_get_def by presburger
  then show "n \<le> length s" using w(1) by simp
  have le: "unat w \<le> 0x10FFFF" using w(4) by (simp add: word_less_nat_alt)
  then have u: "unat code = unat w" unfolding w(3) by (simp add: unsigned_ucast_eq take_bit_nat_eq_self)
  show "utf8_scalar (unat code)"
    using w(4) le unfolding u by (simp add: utf8_scalar_def word_le_nat_alt)
  show "code \<noteq> 0" using w(4) u by (metis unat_eq_zero)
qed

lemma html_loop_fits:
  "length dst + length s < n \<Longrightarrow> \<exists>r. html_loop s in_tag n dst = Some r \<and> length r \<le> length dst + length s"
proof (induction s in_tag n dst rule: html_loop.induct)
  case (2 c src in_tag n dst)
  show ?case
  proof (cases "c = 0x3C \<or> c = 0x3E \<or> in_tag")
    case True
    define tag where "tag = (if c = 0x3C then True else if c = 0x3E then False else in_tag)"
    have eq: "html_loop (c # src) in_tag n dst = html_loop src tag n dst" using True by (elim disjE) (simp_all add: tag_def)
    have "length dst + length src < n" using 2(7) by simp
    then have "\<exists>r. html_loop src tag n dst = Some r \<and> length r \<le> length dst + length src"
      using True 2(1-3) unfolding tag_def by (cases "c = 0x3C"; cases "c = 0x3E") simp_all
    then show ?thesis unfolding eq by auto
  next
    case plain: False
    consider (named) v k where "c = 0x26" "named_entity (c # src) = Some (v, k)"
      | (numeric) code k where "c = 0x26" "named_entity (c # src) = None" "numeric_entity (c # src) = Some (code, k)"
      | (other) "(if c = 0x26 then named_entity (c # src) else None) = None" "(if c = 0x26 then numeric_entity (c # src) else None) = None"
      by (cases "c = 0x26"; cases "named_entity (c # src)"; cases "numeric_entity (c # src)") auto
    then show ?thesis
    proof cases
      case named
      note k = named_entity_len[OF named(2)]
      have "\<exists>r. html_loop (drop k (c # src)) in_tag n (dst @ [v]) = Some r
          \<and> length r \<le> length (dst @ [v]) + length (drop k (c # src))"
        using 2(6)[of "(v, k)" v k] plain named k 2(7) by auto
      then show ?thesis using named plain k 2(7) by auto
    next
      case numeric
      note k = numeric_entity_Some[OF numeric(3)]
      note len = length_utf8_encode[of "unat code"]
      have a: "append_utf8_scalar code n dst = Some (dst @ utf8_encode (unat code))"
        using k len 2(7) by (auto simp: append_utf8_scalar_eq)
      have "\<exists>r. html_loop (drop k (c # src)) in_tag n (dst @ utf8_encode (unat code)) = Some r
          \<and> length r \<le> length (dst @ utf8_encode (unat code)) + length (drop k (c # src))"
        using 2(5)[of "(code, k)" code k] plain numeric a k len 2(7) by auto
      then show ?thesis using numeric plain a k len by auto
    next
      case other
      have "\<exists>r. html_loop src in_tag n (dst @ [c]) = Some r \<and> length r \<le> length (dst @ [c]) + length src"
        using 2(4,7) plain other by auto
      then show ?thesis using other plain 2(7) by auto
    qed
  qed
qed simp

text \<open>The usual escaping of text in an HTML document.\<close>

definition html_esc1 :: "u8 \<Rightarrow> bytes" where
  "html_esc1 c = (if c = 0x26 then ascii ''&amp;'' else if c = 0x3C then ascii ''&lt;'' else if c = 0x3E then ascii ''&gt;''
     else if c = 0x22 then ascii ''&quot;'' else if c = 0x27 then ascii ''&#39;'' else [c])"

lemma html_loop_esc1:
  "html_loop (html_esc1 c @ s) False n dst = (if length dst + 1 < n then html_loop s False n (dst @ [c]) else None)"
  by (auto simp: html_esc1_def named_entity_def named_entities_def ascii_def)

lemma html_loop_esc:
  "html_loop (concat (map html_esc1 t) @ s) False n dst
     = (if t = [] \<or> length dst + length t < n then html_loop s False n (dst @ t) else None)"
  by (induction t arbitrary: dst) (auto simp: html_loop_esc1)

lemma html_esc_nonzero: "0 \<notin> set t \<Longrightarrow> 0 \<notin> set (concat (map html_esc1 t))"
  by (auto simp: html_esc1_def ascii_def split: if_splits)

text \<open>
  Property. Unescaping never lengthens a text, so a buffer as large as the input always
  suffices; and text that was escaped for HTML comes back unchanged.
\<close>

theorem vw_html_unescape_roundtrip:
  "(\<exists>r. vw_html_unescape s (strlen s + 1) = Some r \<and> length r \<le> strlen s)
    \<and> (strlen t < n \<longrightarrow> vw_html_unescape (concat (map html_esc1 (c_str t))) n = Some (c_str t))"
proof -
  have "c_str (concat (map html_esc1 (c_str t))) = concat (map html_esc1 (c_str t))"
    by (intro c_str_id html_esc_nonzero c_str_nonzero)
  then show ?thesis
    using html_loop_fits[of "[]" "c_str s" "strlen s + 1" False] html_loop_esc[of "c_str t" "[]" n "[]"]
    by (auto simp: vw_html_unescape_def)
qed

theorem vw_html_unescape_roundtrip_witness:
  "vw_html_unescape (ascii ''&lt;i&gt;Tom &amp; Ann&#39;s'') 20 = Some (ascii ''<i>Tom & Ann'' @ [0x27, 0x73])"
proof -
  let ?t = "ascii ''<i>Tom & Ann'' @ [0x27, 0x73]"
  have "concat (map html_esc1 (c_str ?t)) = ascii ''&lt;i&gt;Tom &amp; Ann&#39;s''" "strlen ?t < 20" "c_str ?t = ?t"
    by code_simp+
  then show ?thesis using vw_html_unescape_roundtrip[of "[]" ?t 20] by simp
qed

end
