(* ===== verification/VW_Translate.thy ===== *)
theory VW_Translate
  imports VW_Text_Codec
begin

unbundle bit_operations_syntax

text \<open>
  \<^verbatim>\<open>worker/src/vw_translate.c\<close>: the parsers of the three response formats, the request
  through a curl process and the translation with its fallback tiers.  A pointer into a C
  string is the rest of the string; \<open>None\<close> is a null pointer or the result \<open>false\<close>.  \<open>mem\<close>
  says whether the allocations of a function succeed.
\<close>

section \<open>The parsers\<close>

fun strstr :: "bytes \<Rightarrow> bytes \<Rightarrow> bytes option" where
  "strstr [] needle = (if needle = [] then Some [] else None)"
| "strstr (c # s) needle = (if take (length needle) (c # s) = needle then Some (c # s) else strstr s needle)"

definition strchr :: "bytes \<Rightarrow> u8 \<Rightarrow> bytes option" where
  "strchr s c = (case dropWhile (\<lambda>x. x \<noteq> c) s of [] \<Rightarrow> None | t \<Rightarrow> Some t)"

abbreviation skip_space :: "bytes \<Rightarrow> bytes" where "skip_space p \<equiv> dropWhile isspace p"

definition trim_right :: "bytes \<Rightarrow> bytes" where
  "trim_right s = rev (dropWhile isspace (rev s))"

definition result_container :: "bytes \<Rightarrow> bytes option" where
  "result_container raw =
     (case strstr raw (ascii ''class='' @ [0x22] @ ascii ''result-container'' @ [0x22]) of
        Some start \<Rightarrow> Some start
      | None \<Rightarrow> strstr raw (ascii ''class='' @ [0x27] @ ascii ''result-container'' @ [0x27]))"

definition vw_translate_parse_mobile_response :: "bool \<Rightarrow> bytes \<Rightarrow> nat \<Rightarrow> bytes option" where
  "vw_translate_parse_mobile_response mem raw out_size =
     (if out_size = 0 then None
      else case result_container (c_str raw) of
          None \<Rightarrow> None
        | Some start \<Rightarrow>
            (case strchr start 0x3E of
               None \<Rightarrow> None
             | Some gt \<Rightarrow>
                 (case strstr (tl gt) (ascii ''</div>'') of
                    None \<Rightarrow> None
                  | Some e \<Rightarrow>
                      if \<not> mem then None
                      else (case vw_html_unescape (take (length (tl gt) - length e) (tl gt)) out_size of
                          None \<Rightarrow> None
                        | Some out \<Rightarrow> if trim_right out \<noteq> [] then Some (trim_right out) else None))))"

definition skip_json_string :: "bytes \<Rightarrow> bytes option" where
  "skip_json_string quote =
     (case quote of
        [] \<Rightarrow> None
      | c # s \<Rightarrow> if c \<noteq> 0x22 then None
          else (case json_string_end s of None \<Rightarrow> None | Some k \<Rightarrow> Some (drop (k + 1) s)))"

fun skip_segment_array :: "bytes \<Rightarrow> bool \<Rightarrow> bool \<Rightarrow> nat \<Rightarrow> bytes option" where
  "skip_segment_array [] in_string escaped depth = None"
| "skip_segment_array (c # p) in_string escaped depth =
     (if in_string then
        if escaped then skip_segment_array p in_string False depth
        else if c = 0x5C then skip_segment_array p in_string True depth
        else if c = 0x22 then skip_segment_array p False escaped depth
        else skip_segment_array p in_string escaped depth
      else if c = 0x22 then skip_segment_array p True escaped depth
      else if c = 0x5B then skip_segment_array p in_string escaped (depth + 1)
      else if c = 0x5D then
        if depth = 0 then Some p else skip_segment_array p in_string escaped (depth - 1)
      else skip_segment_array p in_string escaped depth)"

fun skip_bracketed :: "bytes \<Rightarrow> u8 \<Rightarrow> u8 \<Rightarrow> bool \<Rightarrow> bool \<Rightarrow> int \<Rightarrow> bytes option" where
  "skip_bracketed [] opn cls in_str esc depth = None"
| "skip_bracketed (c # p) opn cls in_str esc depth =
     (if in_str then
        if esc then skip_bracketed p opn cls in_str False depth
        else if c = 0x5C then skip_bracketed p opn cls in_str True depth
        else if c = 0x22 then skip_bracketed p opn cls False esc depth
        else skip_bracketed p opn cls in_str esc depth
      else if c = 0x22 then skip_bracketed p opn cls True esc depth
      else if c = opn then skip_bracketed p opn cls in_str esc (depth + 1)
      else if c = cls then
        if depth - 1 = 0 then Some p else skip_bracketed p opn cls in_str esc (depth - 1)
      else skip_bracketed p opn cls in_str esc depth)"

definition ends_primitive :: "u8 \<Rightarrow> bool" where
  "ends_primitive c \<longleftrightarrow> c = 0x2C \<or> c = 0x5D \<or> c = 0x7D \<or> isspace c"

definition skip_json_value :: "bytes \<Rightarrow> bytes option" where
  "skip_json_value p =
     (let p = skip_space p; c = c_get p 0 in
      if c = 0x22 then skip_json_string p
      else if c = 0x5B \<or> c = 0x7B then skip_bracketed p c (if c = 0x5B then 0x5D else 0x7D) False False 0
      else Some (dropWhile (\<lambda>c. \<not> ends_primitive c) p))"

text \<open>The last argument is the number of elements still to be skipped.\<close>

fun array_loop :: "bytes \<Rightarrow> nat \<Rightarrow> bytes option" where
  "array_loop arr 0 = (let arr = skip_space arr in if arr = [] \<or> hd arr = 0x5D then None else Some arr)"
| "array_loop arr (Suc n) =
     (let arr = skip_space arr in
      if arr = [] \<or> hd arr = 0x5D then None
      else case skip_json_value arr of
          None \<Rightarrow> None
        | Some rest \<Rightarrow>
            let rest = skip_space rest in
            if c_get rest 0 = 0x2C then array_loop (tl rest) n
            else if c_get rest 0 = 0x5D then None
            else array_loop rest n)"

definition get_json_array_element :: "bytes \<Rightarrow> nat \<Rightarrow> bytes option" where
  "get_json_array_element arr target_index =
     (let arr = skip_space arr in if c_get arr 0 \<noteq> 0x5B then None else array_loop (tl arr) target_index)"

lemma skip_segment_array_shorter: "skip_segment_array p i e d = Some q \<Longrightarrow> length q < length p"
  by (induction p i e d rule: skip_segment_array.induct) (auto split: if_splits)

function segments_loop :: "bytes \<Rightarrow> nat \<Rightarrow> bytes \<Rightarrow> bytes option" where
  "segments_loop p out_size out =
     (let p1 = skip_space p in
      if c_get p1 0 \<noteq> 0x5B then Some out
      else let p2 = skip_space (tl p1) in
      if c_get p2 0 \<noteq> 0x22 then None
      else case json_string_end (tl p2) of
          None \<Rightarrow> None
        | Some k \<Rightarrow>
            (case json_unescape_string (tl p2) k (VW_TRANSLATE_MAX_TEXT_BYTES + 1) of
               None \<Rightarrow> None
             | Some chunk \<Rightarrow>
                 if length out + length chunk \<ge> out_size then None
                 else (case skip_segment_array (drop (k + 1) (tl p2)) False False 0 of
                     None \<Rightarrow> None
                   | Some after \<Rightarrow>
                       let p3 = skip_space after in
                       if c_get p3 0 = 0x2C then segments_loop (tl p3) out_size (out @ chunk)
                       else Some (out @ chunk))))"
  by pat_completeness auto

termination segments_loop
proof (relation "measure (\<lambda>(p, _, _). length p)", goal_cases)
  case (2 p out_size out p1 p2 k chunk after p3)
  have le: "length (skip_space s) \<le> length s" for s by (rule length_dropWhile_le)
  have "length after < length p2" using skip_segment_array_shorter[OF 2(8)] by simp
  moreover have "length p2 \<le> length p" unfolding 2(1,3) using le[of p] le[of "tl (skip_space p)"] by simp
  moreover have "length p3 \<le> length after" unfolding 2(9) by (rule le)
  ultimately show ?case by simp
qed simp

declare segments_loop.simps [simp del]

definition parse_segments_list :: "bytes \<Rightarrow> nat \<Rightarrow> bytes option" where
  "parse_segments_list p out_size =
     (let p = skip_space p in
      if c_get p 0 \<noteq> 0x5B then None
      else case segments_loop (tl p) out_size [] of
          None \<Rightarrow> None
        | Some out \<Rightarrow> if length out > 0 then Some out else None)"

definition vw_translate_parse_gtx_response :: "bytes \<Rightarrow> nat \<Rightarrow> bytes option" where
  "vw_translate_parse_gtx_response raw out_size =
     (if out_size = 0 then None
      else let p = skip_space (c_str raw) in
      if c_get p 0 \<noteq> 0x5B then None else parse_segments_list (skip_space (tl p)) out_size)"

text \<open>The canonical shape \<open>result[1][0][0][5]\<close>.\<close>

definition rpc_canonical :: "bytes \<Rightarrow> nat \<Rightarrow> bytes option" where
  "rpc_canonical unescaped out_size =
     (case get_json_array_element unescaped 1 of None \<Rightarrow> None | Some elem1 \<Rightarrow>
      case get_json_array_element elem1 0 of None \<Rightarrow> None | Some elem1_0 \<Rightarrow>
      case get_json_array_element elem1_0 0 of None \<Rightarrow> None | Some elem1_0_0 \<Rightarrow>
      case get_json_array_element elem1_0_0 5 of None \<Rightarrow> None | Some elem1_0_0_5 \<Rightarrow>
      parse_segments_list elem1_0_0_5 out_size)"

definition rpc_pattern :: "bytes \<Rightarrow> nat \<Rightarrow> bytes option" where
  "rpc_pattern unescaped out_size =
     (case strstr unescaped (ascii ''null,null,null,null,null,'') of None \<Rightarrow> None | Some nulls \<Rightarrow>
      case strchr nulls 0x5B of None \<Rightarrow> None | Some segs \<Rightarrow> parse_segments_list segs out_size)"

definition rpc_segments :: "bytes \<Rightarrow> nat \<Rightarrow> bytes option" where
  "rpc_segments unescaped out_size =
     (case rpc_canonical unescaped out_size of
        Some out \<Rightarrow> Some out
      | None \<Rightarrow> (case rpc_pattern unescaped out_size of
            Some out \<Rightarrow> Some out
          | None \<Rightarrow> vw_translate_parse_gtx_response unescaped out_size))"

text \<open>The payload string after the marker and the optional RPC id.\<close>

definition rpc_payload :: "bytes \<Rightarrow> bytes option" where
  "rpc_payload raw =
     (case strstr raw ([0x22] @ ascii ''wrb.fr'' @ [0x22]) of None \<Rightarrow> None | Some marker \<Rightarrow>
      case strchr marker 0x2C of None \<Rightarrow> None | Some comma \<Rightarrow>
      let p = skip_space (tl comma) in
      case (if c_get p 0 = 0x22 then
              (case skip_json_string p of None \<Rightarrow> None
               | Some q \<Rightarrow> let q = skip_space q in if c_get q 0 \<noteq> 0x2C then None else Some (tl q))
            else Some p) of
          None \<Rightarrow> None
        | Some q \<Rightarrow> let q = skip_space q in if c_get q 0 \<noteq> 0x22 then None else Some (tl q))"

definition vw_translate_parse_rpc_response :: "bool \<Rightarrow> bytes \<Rightarrow> nat \<Rightarrow> bytes option" where
  "vw_translate_parse_rpc_response mem raw out_size =
     (if out_size = 0 then None
      else case rpc_payload (c_str raw) of
          None \<Rightarrow> None
        | Some payload \<Rightarrow>
            (case json_string_end payload of
               None \<Rightarrow> None
             | Some payload_len \<Rightarrow>
                 if \<not> mem then None
                 else (case json_unescape_string payload payload_len (payload_len + 1) of
                     None \<Rightarrow> None
                   | Some unescaped \<Rightarrow>
                       (case rpc_segments unescaped out_size of
                          None \<Rightarrow> None
                        | Some out \<Rightarrow> if c_get out 0 \<noteq> 0 then Some out else None))))"

section \<open>Requests\<close>

definition VW_TRANSLATE_RPC_JSON_BYTES :: nat where
  "VW_TRANSLATE_RPC_JSON_BYTES = VW_TRANSLATE_MAX_TEXT_BYTES * 8 + 512"

definition VW_TRANSLATE_RPC_BODY_BYTES :: nat where "VW_TRANSLATE_RPC_BODY_BYTES = 65536"

lemmas translate_limits = VW_TRANSLATE_RPC_JSON_BYTES_def VW_TRANSLATE_RPC_BODY_BYTES_def
  VW_TRANSLATE_MAX_TEXT_BYTES_def VW_TRANSLATE_MAX_URL_BYTES_def VW_TRANSLATE_MAX_RESPONSE_BYTES_def
  VW_TRANSLATE_TIMEOUT_MS_def

definition rpc_inner :: "bytes \<Rightarrow> bytes \<Rightarrow> bytes \<Rightarrow> bytes" where
  "rpc_inner escaped_text escaped_src escaped_dst =
     ascii ''[['' @ [0x22] @ escaped_text @ [0x22, 0x2C, 0x22] @ escaped_src @ [0x22, 0x2C, 0x22] @ escaped_dst
       @ [0x22] @ ascii '',true],[null]]''"

definition rpc_outer :: "bytes \<Rightarrow> bytes" where
  "rpc_outer escaped_inner =
     ascii ''[[['' @ [0x22] @ ascii ''MkEWBc'' @ [0x22, 0x2C, 0x22] @ escaped_inner @ [0x22] @ ascii '',null,''
       @ [0x22] @ ascii ''generic'' @ [0x22] @ ascii '']]]''"

definition build_rpc_body :: "bool \<Rightarrow> bytes \<Rightarrow> bytes \<Rightarrow> bytes \<Rightarrow> nat \<Rightarrow> bytes option" where
  "build_rpc_body mem t src_lang dst_lang out_size =
     (if out_size = 0 \<or> \<not> mem then None
      else do {
        escaped_text \<leftarrow> json_escape_string t (VW_TRANSLATE_MAX_TEXT_BYTES * 6 + 1);
        escaped_src \<leftarrow> json_escape_string src_lang 128;
        escaped_dst \<leftarrow> json_escape_string dst_lang 128;
        inner \<leftarrow> snprintf VW_TRANSLATE_RPC_JSON_BYTES (rpc_inner escaped_text escaped_src escaped_dst);
        escaped_inner \<leftarrow> json_escape_string inner (VW_TRANSLATE_RPC_JSON_BYTES * 2);
        rpc \<leftarrow> snprintf (VW_TRANSLATE_RPC_JSON_BYTES * 2 + 128) (rpc_outer escaped_inner);
        encoded \<leftarrow> vw_url_encode rpc (VW_TRANSLATE_RPC_BODY_BYTES - 16);
        snprintf out_size (ascii ''f.req='' @ encoded)
      })"

subsection \<open>The clock\<close>

definition elapsed_to_u32 :: "i64 \<Rightarrow> i64 \<Rightarrow> u32" where
  "elapsed_to_u32 now started_us =
     (let elapsed = now - started_us in
      if elapsed \<le> 0 then 0 else if elapsed > 2 ^ 32 - 1 then - 1 else word_of_int elapsed)"

definition remaining_timeout_ms :: "i64 \<Rightarrow> i64 \<Rightarrow> u32" where
  "remaining_timeout_ms now deadline_us =
     (let remaining_us = deadline_us - now in
      if remaining_us \<le> 0 then 0
      else let rounded_ms = (remaining_us + 999) div 1000 in
      if rounded_ms > 2 ^ 32 - 1 then - 1 else if rounded_ms \<noteq> 0 then word_of_int rounded_ms else 1)"

subsection \<open>The curl process\<close>

text \<open>What a call of \<^verbatim>\<open>read\<close>, \<^verbatim>\<open>write\<close>, \<^verbatim>\<open>poll\<close> and \<^verbatim>\<open>waitpid\<close> can give.\<close>

datatype read_result = Read_Data bytes | Read_Eof | Read_Intr | Read_Again | Read_Error

datatype write_result = Write_Count nat | Write_Intr | Write_Again | Write_Error

datatype poll_result =
    Poll_Intr
  | Poll_Error
  | Poll_Timeout
  | Poll_Ready "read_result list option" "write_result list option" bool

datatype wait_result = Wait_Exited int | Wait_Signaled | Wait_Failed

text \<open>
  The answers of the system to one request: whether the pipes, their flags, the spawn
  and the switch to non-blocking mode succeed; for each turn of the loop the clock and the
  result of \<^verbatim>\<open>poll\<close>, with the results of the reads and writes it leads to (the flag: the
  input pipe reports an error or hangup); the exit status and the two readings of the clock
  after the loop.
\<close>

record curl_run =
  cr_setup_ok :: bool
  cr_polls :: "(i64 \<times> poll_result) list"
  cr_wait :: wait_result
  cr_ok_us :: i64
  cr_failed_us :: i64

record curl_io =
  io_in_open :: bool
  io_out_open :: bool
  io_written :: nat
  io_write_failed :: bool
  io_overflow :: bool
  io_buf :: bytes

text \<open>A read into the rest of the buffer, or of one extra byte when the buffer is full.\<close>

fun read_loop :: "nat \<Rightarrow> read_result list \<Rightarrow> curl_io \<Rightarrow> curl_io" where
  "read_loop buf_size [] io = io"
| "read_loop buf_size (r # rs) io =
     (if \<not> io_out_open io then io
      else case r of
          Read_Data bs \<Rightarrow>
            (let full = (length (io_buf io) + 1 \<ge> buf_size);
                 capacity = (if full then 1 else buf_size - 1 - length (io_buf io));
                 got = take capacity bs
             in if got = [] then io\<lparr>io_out_open := False\<rparr>
                else if full then read_loop buf_size rs (io\<lparr>io_overflow := True\<rparr>)
                else read_loop buf_size rs (io\<lparr>io_buf := io_buf io @ got\<rparr>))
        | Read_Eof \<Rightarrow> io\<lparr>io_out_open := False\<rparr>
        | Read_Intr \<Rightarrow> read_loop buf_size rs io
        | Read_Again \<Rightarrow> io
        | Read_Error \<Rightarrow> io\<lparr>io_out_open := False\<rparr>)"

fun write_loop :: "nat \<Rightarrow> write_result list \<Rightarrow> curl_io \<Rightarrow> curl_io" where
  "write_loop payload_len [] io = io"
| "write_loop payload_len (w # ws) io =
     (if \<not> (io_in_open io \<and> io_written io < payload_len) then io
      else case w of
          Write_Count n \<Rightarrow>
            (let n = min n (payload_len - io_written io);
                 io' = io\<lparr>io_written := io_written io + n\<rparr>
             in if n > 0 \<and> io_written io' \<ge> payload_len then io'\<lparr>io_in_open := False\<rparr>
                else write_loop payload_len ws io')
        | Write_Intr \<Rightarrow> write_loop payload_len ws io
        | Write_Again \<Rightarrow> io
        | Write_Error \<Rightarrow> io\<lparr>io_write_failed := True, io_in_open := False\<rparr>)"

definition poll_in :: "nat \<Rightarrow> write_result list option \<Rightarrow> bool \<Rightarrow> curl_io \<Rightarrow> curl_io" where
  "poll_in payload_len writes hup io =
     (if \<not> io_in_open io then io
      else if hup then io\<lparr>io_in_open := False, io_write_failed := io_write_failed io \<or> io_written io < payload_len\<rparr>
      else case writes of None \<Rightarrow> io | Some ws \<Rightarrow> write_loop payload_len ws io)"

fun poll_loop :: "i64 \<Rightarrow> nat \<Rightarrow> nat \<Rightarrow> (i64 \<times> poll_result) list \<Rightarrow> curl_io \<Rightarrow> curl_io" where
  "poll_loop deadline_us buf_size payload_len [] io = io"
| "poll_loop deadline_us buf_size payload_len ((now_us, r) # polls) io =
     (if \<not> (io_in_open io \<or> io_out_open io) then io
      else if now_us > deadline_us \<or> (deadline_us - now_us) div 1000 \<le> 0 then io
      else case r of
          Poll_Intr \<Rightarrow> poll_loop deadline_us buf_size payload_len polls io
        | Poll_Error \<Rightarrow> io
        | Poll_Timeout \<Rightarrow> poll_loop deadline_us buf_size payload_len polls io
        | Poll_Ready reads writes hup \<Rightarrow>
            let io1 = (case reads of None \<Rightarrow> io | Some rs \<Rightarrow> if io_out_open io then read_loop buf_size rs io else io)
            in poll_loop deadline_us buf_size payload_len polls (poll_in payload_len writes hup io1))"

text \<open>The arguments of the process; the timeout is printed in seconds with three decimals.\<close>

definition curl_argv :: "bytes \<Rightarrow> u32 \<Rightarrow> bytes option \<Rightarrow> bytes option \<Rightarrow> bytes option \<Rightarrow> bytes \<Rightarrow> bytes list" where
  "curl_argv curl timeout_ms content_type post_body query_text base_url =
     [curl, ascii ''--disable'', ascii ''-f'', ascii ''-sS'', ascii ''--proto'', ascii ''=https'', ascii ''-m'',
      dec_digits (unat timeout_ms div 1000) @ [0x2E] @ pad0 3 (dec_digits (unat timeout_ms mod 1000)),
      ascii ''-A'', ascii ''Mozilla/5.0 (Windows NT 10.0; Win64; x64) AppleWebKit/537.36 (KHTML, like Gecko) Chrome/124.0.0.0 Safari/537.36'']
     @ (case content_type of None \<Rightarrow> [] | Some ct \<Rightarrow> [ascii ''-H'', ascii ''Content-Type: '' @ ct])
     @ (if post_body \<noteq> None then [ascii ''-X'', ascii ''POST'', ascii ''--data-binary'', ascii ''@-'']
        else if query_text \<noteq> None then [ascii ''--get'', ascii ''--data-urlencode'', ascii ''q@-'']
        else [])
     @ [ascii ''-w'', [0x0A] @ ascii ''%{response_code}'', base_url]"

text \<open>The trailer \<open>\n%{response_code}\<close> that curl was asked to write.\<close>

definition split_status :: "bytes \<Rightarrow> bytes \<times> u16 option" where
  "split_status buf =
     (let n = length buf in
      if n \<ge> 4 \<and> buf ! (n - 4) = 0x0A \<and> is_digit (buf ! (n - 3)) \<and> is_digit (buf ! (n - 2)) \<and> is_digit (buf ! (n - 1))
      then (take (n - 4) buf,
            Some (of_nat ((unat (buf ! (n - 3)) - 48) * 100 + (unat (buf ! (n - 2)) - 48) * 10 + (unat (buf ! (n - 1)) - 48))))
      else (buf, None))"

record http_outcome =
  ho_ok :: bool
  ho_response :: bytes
  ho_cause :: vw_translate_failure_cause
  ho_status :: u16

definition http_failed :: "vw_translate_failure_cause \<Rightarrow> http_outcome" where
  "http_failed cause = \<lparr>ho_ok = False, ho_response = [], ho_cause = cause, ho_status = 0\<rparr>"

type_synonym curl_system = "bytes list \<Rightarrow> bytes option \<Rightarrow> curl_run"

definition posix_http_request ::
  "bytes \<Rightarrow> i64 \<Rightarrow> curl_system \<Rightarrow> bytes \<Rightarrow> bytes option \<Rightarrow> bytes option \<Rightarrow> bytes option \<Rightarrow> nat \<Rightarrow> i64 \<Rightarrow> http_outcome" where
  "posix_http_request curl now sys base_url post_body query_text content_type buf_size deadline_us =
     (let timeout_ms = remaining_timeout_ms now deadline_us;
          input_payload = (case post_body of Some b \<Rightarrow> Some b | None \<Rightarrow> query_text);
          run = sys (curl_argv curl timeout_ms content_type post_body query_text base_url) input_payload in
      if buf_size < 2 then http_failed VW_TRANSLATE_FAILURE_LOCAL
      else if timeout_ms = 0 then http_failed VW_TRANSLATE_FAILURE_DEADLINE
      else if (case content_type of None \<Rightarrow> False | Some ct \<Rightarrow> snprintf 256 (ascii ''Content-Type: '' @ ct) = None)
        then http_failed VW_TRANSLATE_FAILURE_LOCAL
      else if \<not> cr_setup_ok run then http_failed VW_TRANSLATE_FAILURE_LOCAL
      else
        let payload_len = (case input_payload of None \<Rightarrow> 0 | Some p \<Rightarrow> strlen p);
            io = poll_loop deadline_us buf_size payload_len (cr_polls run)
              \<lparr>io_in_open = (input_payload \<noteq> None \<and> payload_len \<noteq> 0), io_out_open = True, io_written = 0,
                io_write_failed = False, io_overflow = False, io_buf = []\<rparr>;
            (body, status) = split_status (io_buf io);
            ok = (\<not> io_overflow io \<and> \<not> io_write_failed io \<and> body \<noteq> [] \<and> status \<noteq> None
              \<and> the status \<ge> 200 \<and> the status < 300 \<and> cr_wait run = Wait_Exited 0 \<and> cr_ok_us run \<le> deadline_us);
            cause = (if remaining_timeout_ms (cr_failed_us run) deadline_us = 0 \<or> cr_wait run = Wait_Exited 28
                       then VW_TRANSLATE_FAILURE_DEADLINE
                     else if status \<noteq> None \<and> (the status < 200 \<or> the status \<ge> 300) then VW_TRANSLATE_FAILURE_PROVIDER
                     else if cr_wait run = Wait_Exited 22 then VW_TRANSLATE_FAILURE_PROVIDER
                     else VW_TRANSLATE_FAILURE_TRANSPORT)
        in \<lparr>ho_ok = ok, ho_response = body, ho_cause = (if ok then VW_TRANSLATE_FAILURE_TRANSPORT else cause),
             ho_status = (case status of None \<Rightarrow> 0 | Some s \<Rightarrow> s)\<rparr>)"

definition http_request ::
  "bytes \<Rightarrow> i64 \<Rightarrow> i64 \<Rightarrow> curl_system \<Rightarrow> bytes \<Rightarrow> bytes \<Rightarrow> bytes option \<Rightarrow> bytes option \<Rightarrow> bytes option \<Rightarrow> nat \<Rightarrow> i64
    \<Rightarrow> http_outcome" where
  "http_request curl now1 now2 sys host path body query_text content_type buf_size deadline_us =
     (if remaining_timeout_ms now1 deadline_us = 0 then http_failed VW_TRANSLATE_FAILURE_DEADLINE
      else case snprintf VW_TRANSLATE_MAX_URL_BYTES (ascii ''https://'' @ host @ path) of
          None \<Rightarrow> http_failed VW_TRANSLATE_FAILURE_LOCAL
        | Some full_url \<Rightarrow>
            posix_http_request curl now2 sys full_url body query_text content_type buf_size deadline_us)"

section \<open>Translation\<close>

definition is_tag_char :: "u8 \<Rightarrow> bool" where
  "is_tag_char c \<longleftrightarrow> (0x61 \<le> c \<and> c \<le> 0x7A) \<or> (0x41 \<le> c \<and> c \<le> 0x5A) \<or> (0x30 \<le> c \<and> c \<le> 0x39) \<or> c = 0x2D"

definition is_valid_lang_tag :: "bytes option \<Rightarrow> bool \<Rightarrow> bool" where
  "is_valid_lang_tag lang allow_auto =
     (case lang of
        None \<Rightarrow> False
      | Some l \<Rightarrow>
          if c_get l 0 = 0 then False
          else if allow_auto \<and> c_str l = ascii ''auto'' then True
          else if strlen l < 2 \<or> strlen l > 15 then False
          else list_all is_tag_char (c_str l))"

text \<open>
  The readings of the clock around one tier: before the request and in it, after the
  response, after parsing, before the next tier; and how the system answers the request.
\<close>

record tier_env =
  te_request_us :: i64
  te_spawn_us :: i64
  te_response_us :: i64
  te_parsed_us :: i64
  te_next_us :: i64
  te_system :: curl_system

text \<open>
  One tier: the outcome is the translation, or the cause of the failure with the status of
  the provider.
\<close>

definition run_tier ::
  "bytes \<Rightarrow> tier_env \<Rightarrow> bytes \<Rightarrow> bytes option \<Rightarrow> bytes option \<Rightarrow> bytes option \<Rightarrow> bytes option
    \<Rightarrow> (bytes \<Rightarrow> bytes option) \<Rightarrow> i64 \<Rightarrow> bytes + vw_translate_failure_cause \<times> u16" where
  "run_tier curl env host path body query_text content_type parse deadline_us =
     (case path of
        None \<Rightarrow> Inr (VW_TRANSLATE_FAILURE_LOCAL, 0)
      | Some p \<Rightarrow>
          let r = http_request curl (te_request_us env) (te_spawn_us env) (te_system env) host p body query_text content_type
                VW_TRANSLATE_MAX_RESPONSE_BYTES deadline_us in
          if \<not> ho_ok r then Inr (ho_cause r, ho_status r)
          else if te_response_us env > deadline_us then Inr (VW_TRANSLATE_FAILURE_DEADLINE, 0)
          else case parse (ho_response r) of
              None \<Rightarrow> Inr (VW_TRANSLATE_FAILURE_PARSE, 0)
            | Some out \<Rightarrow>
                if te_parsed_us env > deadline_us then Inr (VW_TRANSLATE_FAILURE_DEADLINE, 0) else Inl out)"

definition rpc_path :: bytes where
  "rpc_path = ascii ''/_/TranslateWebserverUi/data/batchexecute?rpcids=MkEWBc&bl=boq_translate-webserver_20221005.09_p0&soc-app=1&'' @ ascii ''soc-platform=1&soc-device=1&rt=c''"

text \<open>Whether the translator gives up after a failed tier.\<close>

definition out_of_time :: "vw_translate_failure_cause \<Rightarrow> tier_env \<Rightarrow> i64 \<Rightarrow> bool" where
  "out_of_time cause env deadline_us \<longleftrightarrow>
     cause = VW_TRANSLATE_FAILURE_DEADLINE \<or> remaining_timeout_ms (te_next_us env) deadline_us = 0"

record translation =
  tn_translated :: bool
  tn_text :: bytes
  tn_tier :: u8
  tn_latency_us :: u32
  tn_failure :: vw_translate_failure

definition translation_done :: "bytes \<Rightarrow> u8 \<Rightarrow> u32 \<Rightarrow> translation" where
  "translation_done out tier latency =
     \<lparr>tn_translated = True, tn_text = out, tn_tier = tier, tn_latency_us = latency, tn_failure = zero_failure\<rparr>"

definition translation_failed :: "vw_translate_failure_cause \<Rightarrow> u8 \<Rightarrow> u8 \<Rightarrow> u16 \<Rightarrow> u32 \<Rightarrow> translation" where
  "translation_failed cause tier attempted status latency =
     \<lparr>tn_translated = False, tn_text = [], tn_tier = VW_TRANSLATE_TIER_NONE, tn_latency_us = latency,
       tn_failure = \<lparr>tf_cause = cause, tf_terminal_tier = tier, tf_attempted_tiers = attempted, tf_provider_status = status\<rparr>\<rparr>"

text \<open>The places where memory is allocated; an argument says which allocations succeed.\<close>

datatype alloc = Alloc_Buffers | Alloc_Body | Alloc_Payload | Alloc_Mobile

definition tier_mobile ::
  "bytes \<Rightarrow> (alloc \<Rightarrow> bool) \<Rightarrow> tier_env \<Rightarrow> bytes \<Rightarrow> bytes \<Rightarrow> bytes \<Rightarrow> nat \<Rightarrow> i64 \<Rightarrow> u32 \<Rightarrow> translation" where
  "tier_mobile curl mem env t enc_sl enc_tl out_size deadline_us latency =
     (case run_tier curl env (ascii ''translate.google.com'')
             (snprintf VW_TRANSLATE_MAX_URL_BYTES (ascii ''/m?sl='' @ enc_sl @ ascii ''&tl='' @ enc_tl))
             None (Some t) None (\<lambda>raw. vw_translate_parse_mobile_response (mem Alloc_Mobile) raw out_size) deadline_us of
        Inl out \<Rightarrow> translation_done out VW_TRANSLATE_TIER_MOBILE_SCRAPE latency
      | Inr (cause, status) \<Rightarrow> translation_failed cause VW_TRANSLATE_TIER_MOBILE_SCRAPE 7 status latency)"

definition tier_gtx ::
  "bytes \<Rightarrow> (alloc \<Rightarrow> bool) \<Rightarrow> tier_env \<Rightarrow> tier_env \<Rightarrow> bytes \<Rightarrow> bytes \<Rightarrow> bytes \<Rightarrow> nat \<Rightarrow> i64 \<Rightarrow> u32 \<Rightarrow> translation" where
  "tier_gtx curl mem env env_mobile t enc_sl enc_tl out_size deadline_us latency =
     (case run_tier curl env (ascii ''translate.googleapis.com'')
             (snprintf VW_TRANSLATE_MAX_URL_BYTES
                (ascii ''/translate_a/single?client=gtx&sl='' @ enc_sl @ ascii ''&tl='' @ enc_tl @ ascii ''&dt=t''))
             None (Some t) None (\<lambda>raw. vw_translate_parse_gtx_response raw out_size) deadline_us of
        Inl out \<Rightarrow> translation_done out VW_TRANSLATE_TIER_GTX latency
      | Inr (cause, status) \<Rightarrow>
          if out_of_time cause env deadline_us
          then translation_failed VW_TRANSLATE_FAILURE_DEADLINE VW_TRANSLATE_TIER_GTX 3 status latency
          else tier_mobile curl mem env_mobile t enc_sl enc_tl out_size deadline_us latency)"

definition tier_rpc ::
  "bytes \<Rightarrow> (alloc \<Rightarrow> bool) \<Rightarrow> tier_env \<Rightarrow> bytes \<Rightarrow> bytes \<Rightarrow> bytes \<Rightarrow> nat \<Rightarrow> i64 \<Rightarrow> bytes + vw_translate_failure_cause \<times> u16" where
  "tier_rpc curl mem env t sl tl_lang out_size deadline_us =
     (case build_rpc_body (mem Alloc_Body) t sl tl_lang VW_TRANSLATE_RPC_BODY_BYTES of
        None \<Rightarrow> Inr (VW_TRANSLATE_FAILURE_LOCAL, 0)
      | Some rpc_body \<Rightarrow>
          run_tier curl env (ascii ''translate.google.com'') (Some rpc_path) (Some rpc_body) None
            (Some (ascii ''application/x-www-form-urlencoded;charset=UTF-8''))
            (\<lambda>raw. vw_translate_parse_rpc_response (mem Alloc_Payload) raw out_size) deadline_us)"

text \<open>\<open>started_us\<close> and \<open>ended_us\<close> are the first and the last reading of the clock.\<close>

definition vw_translate_text_detailed ::
  "bytes \<Rightarrow> (alloc \<Rightarrow> bool) \<Rightarrow> i64 \<Rightarrow> i64 \<Rightarrow> tier_env \<Rightarrow> tier_env \<Rightarrow> tier_env \<Rightarrow> bytes \<Rightarrow> bytes option \<Rightarrow> bytes option \<Rightarrow> nat \<Rightarrow> translation" where
  "vw_translate_text_detailed curl mem started_us ended_us env_rpc env_gtx env_mobile t src_lang dst_lang out_size =
     (if out_size = 0 then translation_failed VW_TRANSLATE_FAILURE_LOCAL VW_TRANSLATE_TIER_NONE 0 0 0
      else if c_get t 0 = 0 then translation_done [] VW_TRANSLATE_TIER_NONE 0
      else if strlen t > VW_TRANSLATE_MAX_TEXT_BYTES
        then translation_failed VW_TRANSLATE_FAILURE_LOCAL VW_TRANSLATE_TIER_NONE 0 0 0
      else
        let sl = (if is_valid_lang_tag src_lang True then the src_lang else ascii ''auto'');
            tl_lang = (if is_valid_lang_tag dst_lang False then the dst_lang else ascii ''en'');
            deadline_us = started_us + int VW_TRANSLATE_TIMEOUT_MS * 1000;
            latency = elapsed_to_u32 ended_us started_us
        in case (vw_url_encode sl 32, vw_url_encode tl_lang 32) of
            (Some enc_sl, Some enc_tl) \<Rightarrow>
              if \<not> mem Alloc_Buffers then translation_failed VW_TRANSLATE_FAILURE_LOCAL VW_TRANSLATE_TIER_NONE 0 0 latency
              else (case tier_rpc curl mem env_rpc t sl tl_lang out_size deadline_us of
                  Inl out \<Rightarrow> translation_done out VW_TRANSLATE_TIER_WEB_RPC latency
                | Inr (cause, status) \<Rightarrow>
                    if out_of_time cause env_rpc deadline_us
                    then translation_failed VW_TRANSLATE_FAILURE_DEADLINE VW_TRANSLATE_TIER_WEB_RPC 1 status latency
                    else tier_gtx curl mem env_gtx env_mobile t enc_sl enc_tl out_size deadline_us latency)
          | _ \<Rightarrow> translation_failed VW_TRANSLATE_FAILURE_LOCAL VW_TRANSLATE_TIER_NONE 0 0 latency)"

section \<open>JSON documents\<close>

text \<open>Documents as a server prints them, without white space between tokens.\<close>

datatype json = JPrim bytes | JStr bytes | JArr "json list" | JObj "(bytes \<times> json) list"

fun commas :: "bytes list \<Rightarrow> bytes" where
  "commas [] = []"
| "commas [x] = x"
| "commas (x # y # xs) = x @ 0x2C # commas (y # xs)"

definition quoted :: "bytes \<Rightarrow> bytes" where
  "quoted s = 0x22 # json_esc s @ [0x22]"

fun print_json :: "json \<Rightarrow> bytes" where
  "print_json (JPrim w) = w"
| "print_json (JStr s) = quoted s"
| "print_json (JArr vs) = 0x5B # commas (map print_json vs) @ [0x5D]"
| "print_json (JObj kvs) = 0x7B # commas (map (\<lambda>(k, v). quoted k @ 0x3A # print_json v) kvs) @ [0x7D]"

definition prim_char :: "u8 \<Rightarrow> bool" where
  "prim_char c \<longleftrightarrow> c \<notin> {0, 0x22, 0x2C, 0x5B, 0x5D, 0x7B, 0x7D} \<and> \<not> isspace c"

fun json_ok :: "json \<Rightarrow> bool" where
  "json_ok (JPrim w) \<longleftrightarrow> w \<noteq> [] \<and> list_all prim_char w"
| "json_ok (JStr s) \<longleftrightarrow> 0 \<notin> set s"
| "json_ok (JArr vs) \<longleftrightarrow> list_all json_ok vs"
| "json_ok (JObj kvs) \<longleftrightarrow> list_all (\<lambda>(k, v). 0 \<notin> set k \<and> json_ok v) kvs"

subsection \<open>Skipping\<close>

lemma skip_segment_array_bracketed:
  "skip_segment_array p i e d = skip_bracketed p 0x5B 0x5D i e (int d + 1)"
  by (induction p arbitrary: i e d) (simp_all add: of_nat_diff Suc_le_eq algebra_simps split: if_split)

text \<open>Text that a bracket counter passes without a change of its depth.\<close>

definition neutral :: "u8 \<Rightarrow> u8 \<Rightarrow> bytes \<Rightarrow> bool" where
  "neutral opn cls p \<longleftrightarrow>
     (\<forall>d \<ge> 1. \<forall>rest. skip_bracketed (p @ rest) opn cls False False d = skip_bracketed rest opn cls False False d)"

definition brackets :: "(u8 \<times> u8) set" where
  "brackets = {(0x5B, 0x5D), (0x7B, 0x7D)}"

lemma neutral_Nil [simp]: "neutral opn cls []"
  by (simp add: neutral_def)

lemma neutral_append: "neutral opn cls p \<Longrightarrow> neutral opn cls q \<Longrightarrow> neutral opn cls (p @ q)"
  by (simp add: neutral_def)

lemma neutral_char: "c \<notin> {0x22, opn, cls} \<Longrightarrow> neutral opn cls [c]"
  by (simp add: neutral_def)

lemma neutral_Cons: "neutral opn cls [c] \<Longrightarrow> neutral opn cls p \<Longrightarrow> neutral opn cls (c # p)"
  using neutral_append[of opn cls "[c]" p] by simp

lemma neutral_nested:
  assumes "neutral opn cls p" "opn \<noteq> cls" "opn \<noteq> 0x22" "cls \<noteq> 0x22"
  shows "neutral opn cls (opn # p @ [cls])"
  using assms by (simp add: neutral_def)

lemma skip_in_string_esc1:
  assumes "c \<noteq> 0"
  shows "skip_bracketed (json_esc1 c @ rest) opn cls True False d = skip_bracketed rest opn cls True False d"
proof -
  have "\<forall>n \<in> set [0..<16]. k_hex ! n \<notin> {0, 0x22, 0x5C}" by code_simp
  then have "n < 16 \<Longrightarrow> k_hex ! n \<notin> {0, 0x22, 0x5C}" for n by simp
  from this[OF nibbles(1)[of c]] this[OF nibbles(2)[of c]] assms show ?thesis
    by (auto simp: json_esc1_def two_char_escape_def)
qed

lemma skip_in_string_esc:
  "0 \<notin> set s \<Longrightarrow> skip_bracketed (json_esc s @ rest) opn cls True False d = skip_bracketed rest opn cls True False d"
  by (induction s) (auto simp: skip_in_string_esc1)

lemma neutral_quoted: "0 \<notin> set s \<Longrightarrow> neutral opn cls (quoted s)"
  by (simp add: neutral_def quoted_def skip_in_string_esc)

lemma neutral_prim: "list_all prim_char w \<Longrightarrow> (opn, cls) \<in> brackets \<Longrightarrow> neutral opn cls w"
  by (induction w) (auto simp: prim_char_def brackets_def intro!: neutral_Cons neutral_char)

lemma neutral_commas:
  "(\<And>x. x \<in> set xs \<Longrightarrow> neutral opn cls x) \<Longrightarrow> (opn, cls) \<in> brackets \<Longrightarrow> neutral opn cls (commas xs)"
  by (induction xs rule: commas.induct) (auto simp: brackets_def intro!: neutral_append neutral_Cons neutral_char)

lemma neutral_wrapped:
  assumes "(opn, cls) \<in> brackets" "(a, b) \<in> brackets" "neutral opn cls p"
  shows "neutral opn cls (a # p @ [b])"
proof (cases "a = opn")
  case True
  then have "b = cls" using assms by (auto simp: brackets_def)
  with True assms show ?thesis by (auto simp: brackets_def intro: neutral_nested)
next
  case False
  with assms show ?thesis
    by (auto simp: brackets_def intro!: neutral_Cons neutral_append neutral_char)
qed

lemma neutral_json: "json_ok v \<Longrightarrow> (opn, cls) \<in> brackets \<Longrightarrow> neutral opn cls (print_json v)"
proof (induction v rule: print_json.induct)
  case (3 vs)
  then have "neutral opn cls (commas (map print_json vs))"
    by (intro neutral_commas) (auto simp: list_all_iff)
  with 3 show ?case using neutral_wrapped[where opn = opn and cls = cls and a = "0x5B" and b = "0x5D"] by (simp add: brackets_def)
next
  case (4 kvs)
  have "neutral opn cls (commas (map (\<lambda>(k, v). quoted k @ 0x3A # print_json v) kvs))"
  proof (intro neutral_commas)
    fix x assume "x \<in> set (map (\<lambda>(k, v). quoted k @ 0x3A # print_json v) kvs)"
    then obtain k v where kv: "(k, v) \<in> set kvs" "x = quoted k @ 0x3A # print_json v" by auto
    moreover have "0 \<notin> set k" "neutral opn cls (print_json v)" using 4 kv(1) by (auto simp: list_all_iff)
    moreover have "neutral opn cls [0x3A]" using 4(3) by (intro neutral_char) (auto simp: brackets_def)
    ultimately show "neutral opn cls x" by (auto intro!: neutral_append neutral_quoted neutral_Cons)
  qed (use 4 in auto)
  with 4 show ?case using neutral_wrapped[where opn = opn and cls = cls and a = "0x7B" and b = "0x7D"] by (simp add: brackets_def)
qed (simp_all add: neutral_prim neutral_quoted)

lemma json_first:
  assumes "json_ok v"
  obtains c p where "print_json v = c # p" "\<not> isspace c" "c \<noteq> 0x5D" "c \<noteq> 0" "c \<noteq> 0x2C"
  using assms by (cases v; cases "print_json v") (auto simp: prim_char_def quoted_def isspace_def)

lemma skip_space_json: "json_ok v \<Longrightarrow> skip_space (print_json v @ rest) = print_json v @ rest"
  by (metis append_Cons dropWhile.simps(2) json_first)

lemma skip_json_value_print:
  assumes "json_ok v" "rest = [] \<or> ends_primitive (hd rest)"
  shows "skip_json_value (print_json v @ rest) = Some rest"
proof (cases v)
  case (JPrim w)
  then obtain c p where w: "w = c # p" "list_all prim_char w" using assms by (cases w) auto
  have "\<not> ends_primitive x" if "x \<in> set w" for x
    using w(2) that by (auto simp: list_all_iff prim_char_def ends_primitive_def)
  then have "dropWhile (\<lambda>c. \<not> ends_primitive c) (w @ rest) = rest"
    using assms(2) by (cases rest) (auto simp: dropWhile_append2)
  then show ?thesis
    using skip_space_json[OF assms(1), of rest] JPrim w by (auto simp: skip_json_value_def Let_def c_get_def prim_char_def)
next
  case (JStr s)
  then show ?thesis
    using skip_space_json[OF assms(1), of rest] assms(1) json_string_end_esc[of s rest]
    by (simp add: skip_json_value_def Let_def c_get_def quoted_def skip_json_string_def)
next
  case (JArr vs)
  have "neutral 0x5B 0x5D (commas (map print_json vs))"
    using assms(1) JArr by (intro neutral_commas) (auto simp: brackets_def list_all_iff intro!: neutral_json)
  then show ?thesis
    using skip_space_json[OF assms(1), of rest] JArr by (simp add: skip_json_value_def Let_def c_get_def neutral_def)
next
  case (JObj kvs)
  have "neutral 0x7B 0x7D (print_json v)" by (rule neutral_json[OF assms(1)]) (simp add: brackets_def)
  have "neutral 0x7B 0x7D (commas (map (\<lambda>(k, v). quoted k @ 0x3A # print_json v) kvs))"
    using assms(1) JObj
    by (intro neutral_commas)
      (auto simp: brackets_def list_all_iff intro!: neutral_append neutral_quoted neutral_Cons[of _ _ "0x3A"] neutral_char neutral_json)
  then show ?thesis
    using skip_space_json[OF assms(1), of rest] JObj by (simp add: skip_json_value_def Let_def c_get_def neutral_def)
qed

subsection \<open>Elements of an array\<close>

lemma commas_Cons: "xs \<noteq> [] \<Longrightarrow> commas (x # xs) = x @ 0x2C # commas xs"
  by (cases xs) auto

lemma commas_json_first:
  assumes "list_all json_ok (v # vs)"
  obtains p where "commas (map print_json (v # vs)) @ rest = print_json v @ p"
  using assms by (cases vs) auto

lemma skip_space_commas:
  assumes "list_all json_ok (v # vs)"
  shows "skip_space (commas (map print_json (v # vs)) @ rest) = commas (map print_json (v # vs)) @ rest"
proof -
  have "json_ok v" using assms by simp
  moreover obtain p where "commas (map print_json (v # vs)) @ rest = print_json v @ p"
    using commas_json_first[OF assms] by blast
  ultimately show ?thesis using skip_space_json by metis
qed

lemma array_loop_nth:
  assumes "list_all json_ok vs" "i < length vs"
  shows "\<exists>rest'. array_loop (commas (map print_json vs) @ 0x5D # rest) i = Some (print_json (vs ! i) @ rest')"
  using assms
proof (induction vs arbitrary: i)
  case (Cons v vs)
  let ?p = "commas (map print_json (v # vs)) @ 0x5D # rest"
  note sp = skip_space_commas[OF Cons.prems(1), of "0x5D # rest"]
  obtain p where p: "?p = print_json v @ p" using commas_json_first[OF Cons.prems(1)] by blast
  obtain c q where c: "print_json v = c # q" "c \<noteq> 0x5D" using json_first[of v] Cons.prems(1) by (metis list.pred_inject(2))
  then have ne: "?p \<noteq> []" "hd ?p \<noteq> 0x5D" unfolding p by simp_all
  show ?case
  proof (cases i)
    case 0
    then show ?thesis using sp ne p by (auto simp: Let_def)
  next
    case (Suc j)
    then have vs: "vs \<noteq> []" "j < length vs" using Cons.prems by auto
    then have cm: "?p = print_json v @ 0x2C # commas (map print_json vs) @ 0x5D # rest" by (simp add: commas_Cons)
    have sk: "skip_json_value ?p = Some (0x2C # commas (map print_json vs) @ 0x5D # rest)"
      unfolding cm using Cons.prems by (intro skip_json_value_print) (auto simp: ends_primitive_def)
    have "array_loop ?p i = array_loop (commas (map print_json vs) @ 0x5D # rest) j"
      unfolding Suc array_loop.simps(2) sp using ne sk by (simp add: Let_def isspace_def c_get_def)
    then show ?thesis using Cons.IH[of j] Cons.prems vs Suc by auto
  qed
qed simp

lemma get_json_array_element_nth:
  assumes "json_ok (JArr vs)" "i < length vs"
  shows "\<exists>rest'. get_json_array_element (print_json (JArr vs) @ rest) i = Some (print_json (vs ! i) @ rest')"
  using array_loop_nth[of vs i rest] assms
  by (simp add: get_json_array_element_def Let_def isspace_def c_get_def)

subsection \<open>Segments\<close>

text \<open>One segment of a translation: its text and whatever the server adds.\<close>

definition segment :: "bytes \<times> json list \<Rightarrow> json" where
  "segment x = JArr (JStr (fst x) # snd x)"

definition segments_ok :: "(bytes \<times> json list) list \<Rightarrow> bool" where
  "segments_ok xs \<longleftrightarrow>
     list_all (\<lambda>(t, extra). 0 \<notin> set t \<and> length t \<le> VW_TRANSLATE_MAX_TEXT_BYTES \<and> list_all json_ok extra) xs"

definition segment_text :: "(bytes \<times> json list) list \<Rightarrow> bytes" where
  "segment_text xs = concat (map fst xs)"

lemma skip_rest_of_segment:
  assumes "list_all json_ok extra"
  shows "skip_segment_array ((if extra = [] then [] else 0x2C # commas (map print_json extra)) @ 0x5D # rest) False False 0 = Some rest"
proof -
  have "neutral 0x5B 0x5D (commas (map print_json extra))"
    using assms by (intro neutral_commas) (auto simp: brackets_def list_all_iff intro!: neutral_json)
  then show ?thesis by (auto simp: skip_segment_array_bracketed neutral_def)
qed

lemma print_segment:
  "print_json (segment (t, extra)) = 0x5B # 0x22 # json_esc t @ 0x22 # (if extra = [] then [] else 0x2C # commas (map print_json extra)) @ [0x5D]"
  by (simp add: segment_def quoted_def commas_Cons)

lemma segments_loop_step:
  assumes "0 \<notin> set t" "length t \<le> VW_TRANSLATE_MAX_TEXT_BYTES" "list_all json_ok extra" "length out + length t < n"
  shows "segments_loop (print_json (segment (t, extra)) @ rest) n out =
    (let p3 = skip_space rest in if c_get p3 0 = 0x2C then segments_loop (tl p3) n (out @ t) else Some (out @ t))"
proof -
  let ?e = "if extra = [] then [] else 0x2C # commas (map print_json extra)"
  let ?q = "json_esc t @ 0x22 # ?e @ 0x5D # rest"
  have u: "json_unescape_string ?q (length (json_esc t)) (VW_TRANSLATE_MAX_TEXT_BYTES + 1) = Some t"
    using json_unescape_esc[OF assms(1), of "[]" "VW_TRANSLATE_MAX_TEXT_BYTES + 1" "[]"] assms(2)
    by (simp add: json_unescape_string_def)
  have e: "json_string_end ?q = Some (length (json_esc t))" by (rule json_string_end_esc[OF assms(1)])
  have d: "skip_segment_array (drop (length (json_esc t) + 1) ?q) False False 0 = Some rest"
    using skip_rest_of_segment[OF assms(3)] by simp
  have p: "print_json (segment (t, extra)) @ rest = 0x5B # 0x22 # ?q" by (simp add: print_segment)
  show ?thesis
    unfolding p using u e d assms(4)
    by (subst segments_loop.simps) (simp add: Let_def isspace_def c_get_def del: append.simps)
qed

lemma segments_loop_print:
  assumes "segments_ok xs" "xs \<noteq> []" "length out + length (segment_text xs) < n"
  shows "segments_loop (commas (map (print_json \<circ> segment) xs) @ 0x5D # rest) n out = Some (out @ segment_text xs)"
  using assms
proof (induction xs arbitrary: out)
  case (Cons x xs)
  obtain t extra where x: "x = (t, extra)" by (cases x)
  have ok: "0 \<notin> set t" "length t \<le> VW_TRANSLATE_MAX_TEXT_BYTES" "list_all json_ok extra" "length out + length t < n"
    using Cons.prems by (auto simp: segments_ok_def segment_text_def x)
  show ?case
  proof (cases "xs = []")
    case True
    then show ?thesis using segments_loop_step[OF ok, of "0x5D # rest"]
      by (simp add: x isspace_def c_get_def segment_text_def Let_def)
  next
    case False
    have "segments_ok xs" "length (out @ t) + length (segment_text xs) < n"
      using Cons.prems by (auto simp: segments_ok_def segment_text_def x)
    from Cons.IH[OF this(1) False this(2)] False show ?thesis
      using segments_loop_step[OF ok, of "0x2C # commas (map (print_json \<circ> segment) xs) @ 0x5D # rest"]
      by (simp add: x isspace_def c_get_def segment_text_def Let_def commas_Cons comp_def)
  qed
qed simp

lemma parse_segments_list_print:
  assumes "segments_ok xs" "segment_text xs \<noteq> []" "length (segment_text xs) < n"
  shows "parse_segments_list (print_json (JArr (map segment xs)) @ rest) n = Some (segment_text xs)"
proof -
  have "xs \<noteq> []" using assms(2) by (auto simp: segment_text_def)
  then show ?thesis
    using segments_loop_print[OF assms(1), of "[]" n rest] assms
    by (simp add: parse_segments_list_def Let_def isspace_def c_get_def comp_def)
qed

subsection \<open>Responses\<close>

lemma commas_set: "set (commas xs) \<subseteq> insert 0x2C (\<Union>x \<in> set xs. set x)"
  by (induction xs rule: commas.induct) auto

lemma json_esc1_set: "c \<noteq> 0 \<Longrightarrow> 0 \<notin> set (json_esc1 c)"
proof -
  assume c: "c \<noteq> 0"
  have "\<forall>n \<in> set [0..<16]. k_hex ! n \<noteq> 0" by code_simp
  then have "n < 16 \<Longrightarrow> k_hex ! n \<noteq> 0" for n by simp
  from this[OF nibbles(1)[of c]] this[OF nibbles(2)[of c]] c show ?thesis
    by (auto simp: json_esc1_def two_char_escape_def split: if_splits)
qed

lemma quoted_nonzero: "0 \<notin> set s \<Longrightarrow> 0 \<notin> set (quoted s)"
proof -
  assume "0 \<notin> set s"
  then have "0 \<notin> set (json_esc1 c)" if "c \<in> set s" for c using that json_esc1_set[of c] by metis
  then show ?thesis by (auto simp: quoted_def)
qed

lemma print_json_nonzero: "json_ok v \<Longrightarrow> 0 \<notin> set (print_json v)"
proof (induction v rule: print_json.induct)
  case (3 vs)
  then have "0 \<notin> set (commas (map print_json vs))"
    using commas_set[of "map print_json vs"] by (auto simp: list_all_iff)
  then show ?case by simp
next
  case (4 kvs)
  have "0 \<notin> set (commas (map (\<lambda>(k, v). quoted k @ 0x3A # print_json v) kvs))"
  proof
    assume "0 \<in> set (commas (map (\<lambda>(k, v). quoted k @ 0x3A # print_json v) kvs))"
    then obtain k v where kv: "(k, v) \<in> set kvs" "0 \<in> set (quoted k @ 0x3A # print_json v)"
      using commas_set[of "map (\<lambda>(k, v). quoted k @ 0x3A # print_json v) kvs"] by force
    then have "0 \<notin> set k" "json_ok v" using 4 by (auto simp: list_all_iff)
    then show False using kv 4(1)[OF kv(1) refl] quoted_nonzero by auto
  qed
  then show ?case by simp
qed (auto simp: list_all_iff prim_char_def quoted_nonzero)

lemma segments_json_ok: "segments_ok xs \<Longrightarrow> json_ok (JArr (map segment xs))"
  by (auto simp: segments_ok_def segment_def list_all_iff)

lemma segment_text_nonzero: "segments_ok xs \<Longrightarrow> 0 \<notin> set (segment_text xs)"
  by (auto simp: segments_ok_def segment_text_def list_all_iff)

lemma print_array_Cons: "\<exists>p. print_json (JArr (v # vs)) @ rest = 0x5B # print_json v @ p"
  by (cases vs) auto

text \<open>
  Property. The GTX parser returns the translation of every response of that shape: the
  first element of the document is a list of segments, each with its text first, and
  whatever the server adds after the texts and after the list, the result is the
  concatenation of the texts.
\<close>

theorem vw_translate_parse_gtx_response_correct:
  assumes "segments_ok xs" "list_all json_ok extras" "segment_text xs \<noteq> []" "length (segment_text xs) < n"
  shows "vw_translate_parse_gtx_response (print_json (JArr (JArr (map segment xs) # extras))) n = Some (segment_text xs)"
proof -
  let ?v = "JArr (map segment xs)"
  have ok: "json_ok (JArr (?v # extras))" using segments_json_ok[OF assms(1)] assms(2) by simp
  then have s: "c_str (print_json (JArr (?v # extras))) = print_json (JArr (?v # extras))"
    by (intro c_str_id print_json_nonzero)
  obtain p where p: "print_json (JArr (?v # extras)) = 0x5B # print_json ?v @ p"
    using print_array_Cons[of ?v extras "[]"] by auto
  have "skip_space (print_json ?v @ p) = print_json ?v @ p" using ok by (intro skip_space_json) simp
  then show ?thesis
    using parse_segments_list_print[OF assms(1,3,4), of p] assms(4) unfolding vw_translate_parse_gtx_response_def s unfolding p
    by (simp add: Let_def isspace_def c_get_def del: print_json.simps)
qed

theorem vw_translate_parse_gtx_response_correct_witness:
  "vw_translate_parse_gtx_response
     (print_json (JArr [JArr (map segment [([0x48, 0x69, 0x22], [JStr [0x41], JPrim (ascii ''null'')]), ([0x21], [])]), JPrim (ascii ''null'')])) 10
   = Some [0x48, 0x69, 0x22, 0x21]"
proof -
  let ?xs = "[([0x48, 0x69, 0x22], [JStr [0x41], JPrim (ascii ''null'')]), ([0x21], [])] :: (bytes \<times> json list) list"
  have "segments_ok ?xs" "list_all json_ok [JPrim (ascii ''null'')]" "segment_text ?xs = [0x48, 0x69, 0x22, 0x21]"
    by (simp_all add: segments_ok_def segment_text_def translate_limits ascii_def prim_char_def isspace_def)
  then show ?thesis using vw_translate_parse_gtx_response_correct[of ?xs "[JPrim (ascii ''null'')]" 10] by simp
qed

lemma strstr_first:
  assumes "c \<notin> set pre"
  shows "strstr (pre @ (c # needle) @ rest) (c # needle) = Some ((c # needle) @ rest)"
  using assms by (induction pre) auto

lemma json_esc_length: "length s \<le> length (json_esc s)"
proof (induction s)
  case (Cons c s)
  have "1 \<le> length (json_esc1 c)" by (auto simp: json_esc1_def two_char_escape_def split: option.splits if_splits)
  with Cons show ?case by simp
qed simp

lemma rpc_payload_found:
  assumes "0x22 \<notin> set pre" "0 \<notin> set rpc_id"
  shows "rpc_payload (pre @ [0x22] @ ascii ''wrb.fr'' @ [0x22, 0x2C] @ quoted rpc_id @ 0x2C # 0x22 # payload) = Some payload"
proof -
  let ?m = "0x22 # ascii ''wrb.fr'' @ [0x22]"
  let ?rest = "0x2C # quoted rpc_id @ 0x2C # 0x22 # payload"
  have "strstr (pre @ [0x22] @ ascii ''wrb.fr'' @ [0x22, 0x2C] @ quoted rpc_id @ 0x2C # 0x22 # payload) ?m = Some (?m @ ?rest)"
    using strstr_first[OF assms(1), of "ascii ''wrb.fr'' @ [0x22]" ?rest] by simp
  moreover have "strchr (?m @ ?rest) 0x2C = Some ?rest" by (simp add: strchr_def ascii_def)
  moreover have "skip_json_string (quoted rpc_id @ 0x2C # 0x22 # payload) = Some (0x2C # 0x22 # payload)"
    using json_string_end_esc[OF assms(2), of "0x2C # 0x22 # payload"] by (simp add: skip_json_string_def quoted_def)
  ultimately show ?thesis
    by (simp add: rpc_payload_def Let_def isspace_def c_get_def quoted_def)
qed

lemma rpc_canonical_print:
  assumes "json_ok (JArr (a # JArr (JArr (JArr inner # d1) # d2) # d3))" "5 < length inner" "inner ! 5 = JArr (map segment xs)"
    "segments_ok xs" "segment_text xs \<noteq> []" "length (segment_text xs) < n"
  shows "rpc_canonical (print_json (JArr (a # JArr (JArr (JArr inner # d1) # d2) # d3))) n = Some (segment_text xs)"
proof -
  let ?v3 = "JArr inner" let ?v2 = "JArr (?v3 # d1)" let ?v1 = "JArr (?v2 # d2)"
  obtain r1 where 1: "get_json_array_element (print_json (JArr (a # ?v1 # d3)) @ []) 1 = Some (print_json ?v1 @ r1)"
    using get_json_array_element_nth[OF assms(1), of 1 "[]"] by auto
  obtain r2 where 2: "get_json_array_element (print_json ?v1 @ r1) 0 = Some (print_json ?v2 @ r2)"
    using get_json_array_element_nth[of "?v2 # d2" 0 r1] assms(1) by auto
  obtain r3 where 3: "get_json_array_element (print_json ?v2 @ r2) 0 = Some (print_json ?v3 @ r3)"
    using get_json_array_element_nth[of "?v3 # d1" 0 r2] assms(1) by auto
  obtain r4 where 4: "get_json_array_element (print_json ?v3 @ r3) 5 = Some (print_json (JArr (map segment xs)) @ r4)"
    using get_json_array_element_nth[of inner 5 r3] assms(1-3) by auto
  show ?thesis
    unfolding rpc_canonical_def using 1 2 3 4 parse_segments_list_print[OF assms(4-6), of r4]
    by (simp del: print_json.simps)
qed

text \<open>
  Property C35. The web RPC parser returns the translation of every canonical response: after
  the marker and the RPC id comes a string that holds a second document, whose element
  [1][0][0][5] is the list of segments.
\<close>

theorem vw_translate_parse_rpc_response_correct:
  assumes "0x22 \<notin> set pre" "0 \<notin> set pre" "0 \<notin> set rpc_id" "0 \<notin> set post"
    and "doc = JArr (a # JArr (JArr (JArr inner # d1) # d2) # d3)" "json_ok doc"
    and "5 < length inner" "inner ! 5 = JArr (map segment xs)"
    and "segments_ok xs" "segment_text xs \<noteq> []" "length (segment_text xs) < n"
  shows "vw_translate_parse_rpc_response True
      (pre @ [0x22] @ ascii ''wrb.fr'' @ [0x22, 0x2C] @ quoted rpc_id @ 0x2C # quoted (print_json doc) @ post) n
    = Some (segment_text xs)"
proof -
  let ?d = "print_json doc"
  let ?payload = "json_esc ?d @ 0x22 # post"
  let ?raw = "pre @ [0x22] @ ascii ''wrb.fr'' @ [0x22, 0x2C] @ quoted rpc_id @ 0x2C # quoted ?d @ post"
  have dz: "0 \<notin> set ?d" using print_json_nonzero[OF assms(6)] .
  have "0 \<notin> set ?raw"
    using assms(2,4) quoted_nonzero[OF assms(3)] quoted_nonzero[OF dz] by (auto simp: ascii_def)
  then have raw: "c_str ?raw = ?raw" by (rule c_str_id)
  have pl: "rpc_payload ?raw = Some ?payload"
    using rpc_payload_found[OF assms(1,3), of ?payload] by (simp add: quoted_def)
  have u: "json_unescape_string ?payload (length (json_esc ?d)) (length (json_esc ?d) + 1) = Some ?d"
    using json_unescape_esc[OF dz, of "[]"] json_esc_length[of ?d] by (simp add: json_unescape_string_def)
  have "rpc_canonical ?d n = Some (segment_text xs)"
    using rpc_canonical_print assms(5-11) by blast
  moreover have "c_get (segment_text xs) 0 \<noteq> 0"
    using segment_text_nonzero[OF assms(9)] assms(10) by (cases "segment_text xs") (auto simp: c_get_def)
  ultimately show ?thesis
    unfolding vw_translate_parse_rpc_response_def raw pl using json_string_end_esc[OF dz] u assms(11)
    by (simp add: rpc_segments_def)
qed

theorem vw_translate_parse_rpc_response_correct_witness:
  "vw_translate_parse_rpc_response True
      (ascii ''12 [['' @ [0x22] @ ascii ''wrb.fr'' @ [0x22, 0x2C] @ quoted (ascii ''MkEWBc'') @ 0x2C #
        quoted (print_json (JArr [JPrim (ascii ''null''),
          JArr [JArr [JArr (replicate 5 (JPrim (ascii ''null'')) @ [JArr (map segment [([0x48, 0x69], [])])])]]])) @ ascii '',null]'') 10
    = Some [0x48, 0x69]"
proof -
  let ?null = "JPrim (ascii ''null'')"
  let ?xs = "[([0x48, 0x69], [])] :: (bytes \<times> json list) list"
  let ?inner = "replicate 5 ?null @ [JArr (map segment ?xs)]"
  have ok: "json_ok ?null" by (simp add: ascii_def prim_char_def isspace_def)
  have xs: "segments_ok ?xs" by (simp add: segments_ok_def translate_limits)
  have doc: "json_ok (JArr [?null, JArr [JArr [JArr ?inner]]])"
    using ok segments_json_ok[OF xs] by (simp add: eval_nat_numeral)
  have tx: "segment_text ?xs = [0x48, 0x69]" by (simp add: segment_text_def)
  show ?thesis
    using vw_translate_parse_rpc_response_correct[of "ascii ''12 [[''" "ascii ''MkEWBc''" "ascii '',null]''"
        "JArr [?null, JArr [JArr [JArr ?inner]]]" ?null ?inner "[]" "[]" "[]" ?xs 10] doc xs tx
    by (simp add: ascii_def nth_append del: print_json.simps)
qed

section \<open>Requests\<close>

lemma lang_tag_chars:
  assumes "is_valid_lang_tag lang allow_auto"
  obtains l where "lang = Some l" "0 < strlen l" "strlen l \<le> 15" "list_all is_tag_char (c_str l)"
proof -
  obtain l where l: "lang = Some l" using assms by (auto simp: is_valid_lang_tag_def split: option.splits)
  have "strlen l = 4 \<and> list_all is_tag_char (c_str l)" if "c_str l = ascii ''auto''"
    using length_c_str[of l] unfolding that by (simp add: ascii_def is_tag_char_def)
  then show thesis
    using that[OF l] assms by (auto simp: is_valid_lang_tag_def l split: if_splits)
qed

lemma tag_char_escapes: "is_tag_char c \<Longrightarrow> json_esc1 c = [c] \<and> url_enc1 c = [c]"
  by (auto simp: is_tag_char_def json_esc1_def two_char_escape_def url_enc1_def url_unreserved_def word_le_nat_alt word_less_nat_alt)

lemma tag_escapes: "list_all is_tag_char s \<Longrightarrow> json_esc s = s \<and> concat (map url_enc1 s) = s"
  by (induction s) (auto simp: tag_char_escapes)

definition lang_ok :: "bytes \<Rightarrow> bool" where
  "lang_ok l \<longleftrightarrow> 0 < strlen l \<and> strlen l \<le> 15 \<and> list_all is_tag_char (c_str l)"

lemma json_esc_printable: "(\<And>c. c \<in> set s \<Longrightarrow> 0x20 \<le> c) \<Longrightarrow> length (json_esc s) \<le> 2 * length s"
  by (rule length_concat_map_le) (rule json_esc1_length(2))

lemma json_esc1_printable: "x \<in> set (json_esc1 c) \<Longrightarrow> 0x20 \<le> x"
proof -
  have "\<forall>n \<in> set [0..<16]. 0x20 \<le> k_hex ! n" by code_simp
  then have "n < 16 \<Longrightarrow> 0x20 \<le> k_hex ! n" for n by simp
  from this[OF nibbles(1)[of c]] this[OF nibbles(2)[of c]] show "x \<in> set (json_esc1 c) \<Longrightarrow> 0x20 \<le> x"
    by (auto simp: json_esc1_def two_char_escape_def not_less split: if_splits)
qed

lemma rpc_inner_printable: "x \<in> set (rpc_inner (json_esc a) (json_esc b) (json_esc c)) \<Longrightarrow> 0x20 \<le> x"
  by (auto simp: rpc_inner_def ascii_def json_esc1_printable)

lemma printable_nonzero: "(\<And>c. c \<in> set s \<Longrightarrow> (0x20 :: u8) \<le> c) \<Longrightarrow> 0 \<notin> set s"
  by force

text \<open>
  Property C34. For every text of at most 1024 bytes and valid language tags all the buffers of
  the request body are large enough, and decoding the body leads back to the text: the
  form value is a document whose payload string is a document that carries exactly the
  text and the two languages.
\<close>

theorem build_rpc_body_correct:
  assumes "strlen t \<le> VW_TRANSLATE_MAX_TEXT_BYTES" "lang_ok sl" "lang_ok dl"
  shows "\<exists>encoded inner_esc inner text_esc. build_rpc_body True t sl dl VW_TRANSLATE_RPC_BODY_BYTES = Some (ascii ''f.req='' @ encoded)
    \<and> url_decode encoded = Some (rpc_outer inner_esc)
    \<and> json_unescape_string inner_esc (length inner_esc) (length inner_esc + 1) = Some inner
    \<and> inner = rpc_inner text_esc (c_str sl) (c_str dl)
    \<and> json_unescape_string text_esc (length text_esc) (length text_esc + 1) = Some (c_str t)"
proof -
  let ?te = "json_esc (c_str t)" and ?s = "c_str sl" and ?d = "c_str dl"
  have sl: "json_esc ?s = ?s" "length ?s \<le> 15" and dl: "json_esc ?d = ?d" "length ?d \<le> 15"
    using assms(2,3) tag_escapes by (auto simp: lang_ok_def)
  have te: "length ?te \<le> 6144"
    using length_concat_map_le[of "c_str t" json_esc1 6] json_esc1_length(1) assms(1) by (simp add: translate_limits)
  let ?inner = "rpc_inner ?te ?s ?d"
  have inner_len: "length ?inner \<le> 6200" using te sl dl by (simp add: rpc_inner_def ascii_def)
  have pr: "x \<in> set ?inner \<Longrightarrow> 0x20 \<le> x" for x
    using rpc_inner_printable[of x "c_str t" ?s ?d] sl dl by simp
  let ?ie = "json_esc ?inner"
  have ie: "length ?ie \<le> 12400" using json_esc_printable[of ?inner] pr inner_len by simp
  have iz: "0 \<notin> set ?inner" using pr by (rule printable_nonzero)
  have ipr: "x \<in> set ?ie \<Longrightarrow> 0x20 \<le> x" for x using json_esc1_printable by auto
  let ?rpc = "rpc_outer ?ie"
  have rpc_len: "length ?rpc \<le> 12440" using ie by (simp add: rpc_outer_def ascii_def)
  have "x \<in> set ?rpc \<Longrightarrow> 0x20 \<le> x" for x using ipr by (auto simp: rpc_outer_def ascii_def simp del: set_concat)
  then have rz: "c_str ?rpc = ?rpc" by (intro c_str_id printable_nonzero)
  let ?enc = "concat (map url_enc1 ?rpc)"
  have enc: "length ?enc \<le> 3 * 12440"
    using length_concat_map_le[of ?rpc url_enc1 3] url_enc1_length(1) rpc_len by fastforce
  have body: "build_rpc_body True t sl dl VW_TRANSLATE_RPC_BODY_BYTES = Some (ascii ''f.req='' @ ?enc)"
    using te sl dl inner_len ie rpc_len enc c_str_id[OF iz] rz
    unfolding build_rpc_body_def
    by (simp add: translate_limits json_escape_string_eq snprintf_def vw_url_encode_eq ascii_def del: length_concat)
  have u1: "json_unescape_string ?ie (length ?ie) (length ?ie + 1) = Some ?inner"
    using json_unescape_esc[OF iz, of "[]"] json_esc_length[of ?inner] by (simp add: json_unescape_string_def)
  have u2: "json_unescape_string ?te (length ?te) (length ?te + 1) = Some (c_str t)"
    using json_unescape_esc[OF c_str_nonzero, of t "[]"] json_esc_length[of "c_str t"] by (simp add: json_unescape_string_def)
  have d: "url_decode ?enc = Some ?rpc" using url_decode_enc[of ?rpc "[]"] by simp
  show ?thesis using body d u1 u2 by blast
qed

theorem build_rpc_body_correct_witness:
  "build_rpc_body True (ascii ''hi'') (ascii ''auto'') (ascii ''en'') VW_TRANSLATE_RPC_BODY_BYTES \<noteq> None"
proof -
  have "strlen (ascii ''hi'') \<le> VW_TRANSLATE_MAX_TEXT_BYTES" "lang_ok (ascii ''auto'')" "lang_ok (ascii ''en'')" by code_simp+
  from build_rpc_body_correct[OF this] show ?thesis by auto
qed

subsection \<open>The response buffer\<close>

lemma read_loop_bound: "2 \<le> n \<Longrightarrow> length (io_buf io) < n \<Longrightarrow> length (io_buf (read_loop n rs io)) < n"
  by (induction n rs io rule: read_loop.induct) (auto simp: Let_def split: read_result.splits)

lemma write_loop_buf: "io_buf (write_loop n ws io) = io_buf io \<and> io_overflow (write_loop n ws io) = io_overflow io"
  by (induction n ws io rule: write_loop.induct) (auto simp: Let_def split: write_result.splits)

lemma poll_in_buf: "io_buf (poll_in n ws h io) = io_buf io"
  by (auto simp: poll_in_def write_loop_buf split: option.splits)

lemma poll_loop_bound:
  "2 \<le> n \<Longrightarrow> length (io_buf io) < n \<Longrightarrow> length (io_buf (poll_loop dl n pl ps io)) < n"
  by (induction dl n pl ps io rule: poll_loop.induct)
    (auto simp: Let_def poll_in_buf read_loop_bound split: poll_result.splits option.splits)

section \<open>What the parsers return\<close>

lemma of_nat_u8_nonzero:
  assumes "0 < n" "n < 256"
  shows "(of_nat n :: u8) \<noteq> 0"
proof
  assume "(of_nat n :: u8) = 0"
  then have "unat (of_nat n :: u8) = 0" by simp
  then show False using assms unfolding unat_of_nat by simp
qed

lemma utf8_encode_nonzero:
  assumes "utf8_scalar n" "n \<noteq> 0"
  shows "0 \<notin> set (utf8_encode n)"
proof -
  have "n div 262144 \<le> 4" using assms(1) by (auto simp: utf8_scalar_def)
  moreover have "n < 0x800 \<Longrightarrow> n div 64 < 32" "n < 0x10000 \<Longrightarrow> n div 4096 < 16" by auto
  moreover have "n mod 64 < 64" "n div 64 mod 64 < 64" "n div 4096 mod 64 < 64" by simp_all
  ultimately have b: "n < 0x800 \<Longrightarrow> (of_nat (0xC0 + n div 64) :: u8) \<noteq> 0" "n < 0x10000 \<Longrightarrow> (of_nat (0xE0 + n div 4096) :: u8) \<noteq> 0"
    "(of_nat (0xF0 + n div 262144) :: u8) \<noteq> 0" "(of_nat (0x80 + n mod 64) :: u8) \<noteq> 0"
    "(of_nat (0x80 + n div 64 mod 64) :: u8) \<noteq> 0" "(of_nat (0x80 + n div 4096 mod 64) :: u8) \<noteq> 0"
    by (intro of_nat_u8_nonzero; simp)+
  have "n < 0x80 \<Longrightarrow> (of_nat n :: u8) \<noteq> 0" using assms(2) by (intro of_nat_u8_nonzero) auto
  then show ?thesis using b unfolding utf8_encode_def
    by (simp del: of_nat_add of_nat_numeral add: eq_commute[of 0])
qed

lemma append_utf8_scalar_ok:
  assumes "append_utf8_scalar code n dst = Some dst'" "0 \<notin> set dst"
  shows "0 \<notin> set dst' \<and> length dst' < n"
  using assms utf8_encode_nonzero[of "unat code"] unat_eq_zero[of code]
  by (auto simp: append_utf8_scalar_eq split: if_splits)

lemma simple_escape_nonzero: "simple_escape c = Some d \<Longrightarrow> d \<noteq> 0"
  by (auto simp: simple_escape_def split: if_splits)

lemma json_unescape_loop_ok:
  "json_unescape_loop s n dst = Some r \<Longrightarrow> 0 \<notin> set dst \<Longrightarrow> length dst < n \<Longrightarrow> 0 \<notin> set r \<and> length r < n"
proof (induction s n dst rule: json_unescape_loop.induct)
  case (2 raw src n dst)
  show ?case
  proof (cases "raw = 0x5C")
    case False
    then have "\<not> raw < 0x20" "\<not> n \<le> length dst + 1" and r: "json_unescape_loop src n (dst @ [raw]) = Some r"
      using 2(4) by (auto split: if_splits)
    moreover have "raw \<noteq> 0" using \<open>\<not> raw < 0x20\<close> by auto
    ultimately show ?thesis using 2(1)[OF _ False _ r] 2(5) by auto
  next
    case True
    then obtain c rest where src: "src = c # rest" using 2(4) by (cases src) auto
    show ?thesis
    proof (cases "simple_escape c")
      case (Some d)
      then have "\<not> n \<le> length dst + 1" "json_unescape_loop rest n (dst @ [d]) = Some r"
        using 2(4) True src by (auto split: if_splits)
      then show ?thesis using 2(3)[OF _ _ src Some] True 2(5) simple_escape_nonzero[OF Some] by auto
    next
      case None
      then obtain code k dst' where u: "c = 0x75" "unicode_escape rest = Some (code, k)" "append_utf8_scalar code n dst = Some dst'"
          "json_unescape_loop (drop k rest) n dst' = Some r"
        using 2(4) True src by (auto split: if_splits option.splits)
      then show ?thesis
        using 2(2)[OF _ _ src None u(1) u(2) refl u(3) u(4)] append_utf8_scalar_ok[OF u(3) 2(5)] True by auto
    qed
  qed
qed simp

lemma segments_loop_ok:
  "segments_loop p n out = Some r \<Longrightarrow> 0 \<notin> set out \<Longrightarrow> length out < n \<Longrightarrow> 0 \<notin> set r \<and> length r < n"
proof (induction p n out rule: segments_loop.induct)
  case (1 p n out)
  let ?p2 = "skip_space (tl (skip_space p))"
  show ?case
  proof (cases "c_get (skip_space p) 0 \<noteq> 0x5B")
    case True
    then show ?thesis using 1(2-4) by (subst (asm) segments_loop.simps) (simp add: Let_def)
  next
    case False
    obtain k chunk after where c: "c_get ?p2 0 = 0x22" "json_string_end (tl ?p2) = Some k"
        "json_unescape_string (tl ?p2) k (VW_TRANSLATE_MAX_TEXT_BYTES + 1) = Some chunk" "\<not> n \<le> length out + length chunk"
        "skip_segment_array (drop (k + 1) (tl ?p2)) False False 0 = Some after"
      and r: "(if c_get (skip_space after) 0 = 0x2C then segments_loop (tl (skip_space after)) n (out @ chunk) else Some (out @ chunk)) = Some r"
      using 1(2) False by (subst (asm) segments_loop.simps) (auto simp: Let_def split: if_splits option.splits)
    have ok: "0 \<notin> set (out @ chunk)" "length (out @ chunk) < n"
      using c(3,4) 1(3) json_unescape_loop_ok[of _ _ "[]" chunk] by (auto simp: json_unescape_string_def split: if_splits)
    show ?thesis
    proof (cases "c_get (skip_space after) 0 = 0x2C")
      case True
      then show ?thesis using 1(1)[OF refl _ refl _ c(2,3,4,5) refl True] False c(1) r ok by simp
    qed (use r ok in auto)
  qed
qed

lemma parse_segments_list_ok:
  "parse_segments_list p n = Some r \<Longrightarrow> 0 < n \<Longrightarrow> 0 \<notin> set r \<and> length r < n \<and> r \<noteq> []"
  using segments_loop_ok[of _ n "[]" r]
  by (auto simp: parse_segments_list_def Let_def split: if_splits option.splits)

lemma gtx_ok: "vw_translate_parse_gtx_response raw n = Some r \<Longrightarrow> 0 \<notin> set r \<and> length r < n \<and> r \<noteq> []"
  using parse_segments_list_ok by (fastforce simp: vw_translate_parse_gtx_response_def Let_def split: if_splits)

lemma rpc_ok: "vw_translate_parse_rpc_response mem raw n = Some r \<Longrightarrow> 0 \<notin> set r \<and> length r < n \<and> r \<noteq> []"
  using gtx_ok[of _ n r] parse_segments_list_ok[of _ n r]
  by (auto simp: vw_translate_parse_rpc_response_def rpc_segments_def rpc_canonical_def rpc_pattern_def
      split: if_splits option.splits)

lemma html_loop_ok:
  "html_loop s in_tag n dst = Some r \<Longrightarrow> 0 \<notin> set s \<Longrightarrow> 0 \<notin> set dst \<Longrightarrow> length dst < n \<Longrightarrow> 0 \<notin> set r \<and> length r < n"
proof (induction s in_tag n dst rule: html_loop.induct)
  case (2 c src in_tag n dst)
  show ?case
  proof (cases "c = 0x3C \<or> c = 0x3E \<or> in_tag")
    case True
    define tag where "tag = (if c = 0x3C then True else if c = 0x3E then False else in_tag)"
    have eq: "html_loop (c # src) in_tag n dst = html_loop src tag n dst" using True by (elim disjE) (simp_all add: tag_def)
    then show ?thesis using True 2(1-3,7-) unfolding tag_def by (cases "c = 0x3C"; cases "c = 0x3E") auto
  next
    case plain: False
    have dropped: "0 \<notin> set (drop k (c # src))" for k using 2(8) in_set_dropD by fastforce
    consider (named) v k where "c = 0x26" "named_entity (c # src) = Some (v, k)"
      | (numeric) code k where "c = 0x26" "named_entity (c # src) = None" "numeric_entity (c # src) = Some (code, k)"
      | (other) "(if c = 0x26 then named_entity (c # src) else None) = None" "(if c = 0x26 then numeric_entity (c # src) else None) = None"
      by (cases "c = 0x26"; cases "named_entity (c # src)"; cases "numeric_entity (c # src)") auto
    then show ?thesis
    proof cases
      case named
      have "v \<noteq> 0" using named(2) by (elim named_entity_Some) (auto simp: named_entities_def)
      moreover from named plain 2(7) have "\<not> n \<le> length dst + 1" "html_loop (drop k (c # src)) in_tag n (dst @ [v]) = Some r"
        by (auto split: if_splits)
      ultimately show ?thesis using 2(6)[of "(v, k)" v k] plain named dropped 2(9) by auto
    next
      case numeric
      from numeric plain 2(7) obtain dst' where a: "append_utf8_scalar code n dst = Some dst'"
          "html_loop (drop k (c # src)) in_tag n dst' = Some r"
        by (auto split: option.splits)
      then show ?thesis using 2(5)[of "(code, k)" code k] plain numeric dropped append_utf8_scalar_ok[OF a(1) 2(9)] by auto
    next
      case other
      with plain 2(7) have "\<not> n \<le> length dst + 1" "html_loop src in_tag n (dst @ [c]) = Some r"
        by (auto split: if_splits)
      then show ?thesis using 2(4) plain other 2(8,9) by auto
    qed
  qed
qed simp

lemma trim_right_ok: "set (trim_right s) \<subseteq> set s" "length (trim_right s) \<le> length s"
  unfolding trim_right_def using set_dropWhileD[of _ isspace "rev s"] length_dropWhile_le[of isspace "rev s"] by auto

lemma mobile_ok: "vw_translate_parse_mobile_response mem raw n = Some r \<Longrightarrow> 0 \<notin> set r \<and> length r < n \<and> r \<noteq> []"
proof -
  assume "vw_translate_parse_mobile_response mem raw n = Some r"
  then obtain s out where "vw_html_unescape s n = Some out" "r = trim_right out" "r \<noteq> []"
    by (auto simp: vw_translate_parse_mobile_response_def split: if_splits option.splits)
  moreover from this have "0 \<notin> set out \<and> length out < n"
    using html_loop_ok[of "c_str s" False n "[]" out] c_str_nonzero by (auto simp: vw_html_unescape_def split: if_splits)
  ultimately show ?thesis using trim_right_ok[of out] by auto
qed

section \<open>Translation\<close>

lemma http_request_cause: "ho_cause (http_request curl n1 n2 sys host path body q ct n dl) \<noteq> VW_TRANSLATE_FAILURE_NONE"
  by (simp add: http_request_def posix_http_request_def http_failed_def Let_def split_def split: option.splits)

lemma run_tier_Inl:
  assumes "run_tier curl env host path body q ct parse dl = Inl out"
  obtains raw where "parse raw = Some out" "te_response_us env \<le> dl" "te_parsed_us env \<le> dl"
    "remaining_timeout_ms (te_request_us env) dl \<noteq> 0"
  using assms by (auto simp: run_tier_def Let_def http_request_def http_failed_def split: if_splits option.splits)

lemma run_tier_Inr: "run_tier curl env host path body q ct parse dl = Inr (cause, st) \<Longrightarrow> cause \<noteq> VW_TRANSLATE_FAILURE_NONE"
  using http_request_cause by (auto simp: run_tier_def Let_def split: if_splits option.splits)

text \<open>What a caller may rely on: a result of a translation within \<open>deadline\<close>.\<close>

definition good_text :: "nat \<Rightarrow> bytes \<Rightarrow> bool" where
  "good_text n out \<longleftrightarrow> out \<noteq> [] \<and> length out < n \<and> 0 \<notin> set out"

fun translation_ok :: "nat \<Rightarrow> i64 \<Rightarrow> i64 \<Rightarrow> i64 \<Rightarrow> i64 \<Rightarrow> translation \<Rightarrow> bool" where
  "translation_ok n dl t1 t2 t3 r =
     (if tn_translated r then
        good_text n (tn_text r) \<and> tn_failure r = zero_failure
        \<and> (tn_tier r = VW_TRANSLATE_TIER_WEB_RPC \<and> t1 \<le> dl \<or> tn_tier r = VW_TRANSLATE_TIER_GTX \<and> t2 \<le> dl
           \<or> tn_tier r = VW_TRANSLATE_TIER_MOBILE_SCRAPE \<and> t3 \<le> dl)
      else
        tn_text r = [] \<and> tn_tier r = VW_TRANSLATE_TIER_NONE \<and> tf_cause (tn_failure r) \<noteq> VW_TRANSLATE_FAILURE_NONE
        \<and> (let tried = (tf_attempted_tiers (tn_failure r), tf_terminal_tier (tn_failure r)) in
             tried = (0, VW_TRANSLATE_TIER_NONE) \<and> tf_cause (tn_failure r) = VW_TRANSLATE_FAILURE_LOCAL
           \<or> (tried = (1, VW_TRANSLATE_TIER_WEB_RPC) \<or> tried = (3, VW_TRANSLATE_TIER_GTX))
               \<and> tf_cause (tn_failure r) = VW_TRANSLATE_FAILURE_DEADLINE
           \<or> tried = (7, VW_TRANSLATE_TIER_MOBILE_SCRAPE)))"

lemma tier_mobile_ok: "translation_ok n dl t1 t2 (te_parsed_us env) (tier_mobile curl mem env t sl tl_lang n dl lat)"
proof (cases "run_tier curl env (ascii ''translate.google.com'')
    (snprintf VW_TRANSLATE_MAX_URL_BYTES (ascii ''/m?sl='' @ sl @ ascii ''&tl='' @ tl_lang)) None (Some t) None
    (\<lambda>raw. vw_translate_parse_mobile_response (mem Alloc_Mobile) raw n) dl")
  case (Inl out)
  then show ?thesis
    by (elim run_tier_Inl) (use Inl mobile_ok in \<open>auto simp: tier_mobile_def translation_done_def good_text_def\<close>)
next
  case (Inr x)
  obtain cause st where x: "x = (cause, st)" by (cases x)
  show ?thesis
    using run_tier_Inr[OF Inr[unfolded x]] Inr by (simp add: tier_mobile_def translation_failed_def x)
qed

lemma tier_gtx_ok:
  "translation_ok n dl t1 (te_parsed_us env) (te_parsed_us env') (tier_gtx curl mem env env' t sl tl_lang n dl lat)"
proof (cases "run_tier curl env (ascii ''translate.googleapis.com'')
    (snprintf VW_TRANSLATE_MAX_URL_BYTES
      (ascii ''/translate_a/single?client=gtx&sl='' @ sl @ ascii ''&tl='' @ tl_lang @ ascii ''&dt=t''))
    None (Some t) None (\<lambda>raw. vw_translate_parse_gtx_response raw n) dl")
  case (Inl out)
  then show ?thesis
    by (elim run_tier_Inl) (use Inl gtx_ok in \<open>auto simp: tier_gtx_def translation_done_def good_text_def\<close>)
next
  case (Inr x)
  then show ?thesis
    using tier_mobile_ok by (auto simp: tier_gtx_def translation_failed_def simp del: translation_ok.simps split: prod.splits)
      (simp add: translation_failed_def)
qed

lemma tier_rpc_Inl:
  assumes "tier_rpc curl mem env t sl tl_lang n dl = Inl out"
  shows "good_text n out" "te_parsed_us env \<le> dl"
proof -
  obtain raw where "vw_translate_parse_rpc_response (mem Alloc_Payload) raw n = Some out" "te_parsed_us env \<le> dl"
    using assms by (auto simp: tier_rpc_def split: option.splits elim!: run_tier_Inl)
  then show "good_text n out" "te_parsed_us env \<le> dl" using rpc_ok by (auto simp: good_text_def)
qed

text \<open>
  Property C33. Whatever the network, the processes and the clock do, translating a text either
  gives a non-empty text without NUL that fits the buffer, the tier it came from and no
  failure, and was parsed within 800 ms; or it gives no text and no tier and a report in
  which the tiers were tried in order, all three unless the deadline passed or a local
  failure prevented the first.
\<close>

theorem vw_translate_text_detailed_contract:
  assumes "0 < out_size" "c_get t 0 \<noteq> 0"
  shows "translation_ok out_size (started_us + 800000) (te_parsed_us env1) (te_parsed_us env2) (te_parsed_us env3)
    (vw_translate_text_detailed curl mem started_us ended_us env1 env2 env3 t src_lang dst_lang out_size)"
proof -
  let ?sl = "if is_valid_lang_tag src_lang True then the src_lang else ascii ''auto''"
  let ?tl = "if is_valid_lang_tag dst_lang False then the dst_lang else ascii ''en''"
  let ?dl = "started_us + 800000"
  let ?lat = "elapsed_to_u32 ended_us started_us"
  have failed: "translation_ok out_size ?dl x y z (translation_failed VW_TRANSLATE_FAILURE_LOCAL VW_TRANSLATE_TIER_NONE 0 0 l)" for x y z l
    by (simp add: translation_failed_def)
  have dl: "started_us + int VW_TRANSLATE_TIMEOUT_MS * 1000 = ?dl" by (simp add: translate_limits)
  show ?thesis
  proof (cases "VW_TRANSLATE_MAX_TEXT_BYTES < strlen t \<or> vw_url_encode ?sl 32 = None \<or> vw_url_encode ?tl 32 = None \<or> \<not> mem Alloc_Buffers")
    case True
    then show ?thesis using assms failed
      unfolding vw_translate_text_detailed_def Let_def by (auto simp del: translation_ok.simps split: option.splits)
  next
    case False
    then obtain esl etl where e: "vw_url_encode ?sl 32 = Some esl" "vw_url_encode ?tl 32 = Some etl" by auto
    have gtx: "translation_ok out_size ?dl (te_parsed_us env1) (te_parsed_us env2) (te_parsed_us env3)
        (tier_gtx curl mem env2 env3 t esl etl out_size ?dl ?lat)" by (rule tier_gtx_ok)
    have eq: "vw_translate_text_detailed curl mem started_us ended_us env1 env2 env3 t src_lang dst_lang out_size =
      (case tier_rpc curl mem env1 t ?sl ?tl out_size ?dl of
         Inl out \<Rightarrow> translation_done out VW_TRANSLATE_TIER_WEB_RPC ?lat
       | Inr (cause, status) \<Rightarrow>
           if out_of_time cause env1 ?dl then translation_failed VW_TRANSLATE_FAILURE_DEADLINE VW_TRANSLATE_TIER_WEB_RPC 1 status ?lat
           else tier_gtx curl mem env2 env3 t esl etl out_size ?dl ?lat)"
      using False assms unfolding vw_translate_text_detailed_def Let_def dl e by simp
    show ?thesis
      unfolding eq using gtx tier_rpc_Inl
      by (cases "tier_rpc curl mem env1 t ?sl ?tl out_size ?dl")
        (auto simp: translation_done_def simp del: translation_ok.simps split: prod.splits, simp_all add: translation_failed_def)
  qed
qed

definition idle_run :: curl_run where
  "idle_run = \<lparr>cr_setup_ok = False, cr_polls = [], cr_wait = Wait_Failed, cr_ok_us = 0, cr_failed_us = 0\<rparr>"

definition idle_tier :: tier_env where
  "idle_tier = \<lparr>te_request_us = 0, te_spawn_us = 0, te_response_us = 0, te_parsed_us = 0, te_next_us = 0, te_system = (\<lambda>_ _. idle_run)\<rparr>"

theorem vw_translate_text_detailed_contract_witness:
  "translation_ok 100 800000 0 0 0
     (vw_translate_text_detailed (ascii ''curl'') (\<lambda>_. True) 0 5 idle_tier idle_tier idle_tier (ascii ''hi'') None None 100)"
  using vw_translate_text_detailed_contract[of 100 "ascii ''hi''" 0 idle_tier idle_tier idle_tier "ascii ''curl''" "\<lambda>_. True" 5 None None]
  by (simp add: c_get_def ascii_def idle_tier_def del: translation_ok.simps)

lemma split_status_length: "length (fst (split_status buf)) \<le> length buf"
  by (simp add: split_status_def Let_def)

text \<open>
  Property. A response is never written past the end of the buffer, however it arrives, and
  is only accepted when it is not empty, the process exited with status 0, the status of
  the provider is 2xx and the deadline had not passed.
\<close>

theorem posix_http_request_bounds:
  assumes "2 \<le> n" "r = posix_http_request curl now sys url body q ct n dl"
  shows "length (ho_response r) < n
    \<and> (ho_ok r \<longrightarrow> ho_response r \<noteq> [] \<and> 200 \<le> ho_status r \<and> ho_status r < 300 \<and> now < dl
        \<and> (\<exists>argv input. cr_wait (sys argv input) = Wait_Exited 0 \<and> cr_ok_us (sys argv input) \<le> dl))"
proof -
  have b: "length (fst (split_status (io_buf (poll_loop dl n pl ps
      \<lparr>io_in_open = i, io_out_open = True, io_written = 0, io_write_failed = False, io_overflow = False, io_buf = []\<rparr>)))) < n" for i pl ps
    by (rule order.strict_trans1[OF split_status_length poll_loop_bound[OF assms(1)]]) (use assms(1) in simp)
  have rem: "now < dl" if "remaining_timeout_ms now dl \<noteq> 0"
    using that by (auto simp: remaining_timeout_ms_def Let_def split: if_splits)
  note unf = posix_http_request_def Let_def split_def http_failed_def
  have len: "length (ho_response r) < n"
    unfolding assms(2) unf using b assms(1) by (simp split: if_split)
  let ?payload = "case body of Some b \<Rightarrow> Some b | None \<Rightarrow> q"
  let ?run = "sys (curl_argv curl (remaining_timeout_ms now dl) ct body q url) ?payload"
  have "ho_response r \<noteq> [] \<and> 200 \<le> ho_status r \<and> ho_status r < 300 \<and> remaining_timeout_ms now dl \<noteq> 0
      \<and> cr_wait ?run = Wait_Exited 0 \<and> cr_ok_us ?run \<le> dl" if "ho_ok r"
    using that unfolding assms(2) unf by (simp split: if_splits) auto
  then show ?thesis using len rem by blast
qed

definition demo_run :: curl_run where
  "demo_run = \<lparr>cr_setup_ok = True,
     cr_polls = [(10, Poll_Ready (Some [Read_Data (ascii ''ok'' @ [0x0A] @ ascii ''200''), Read_Eof]) None False)],
     cr_wait = Wait_Exited 0, cr_ok_us = 20, cr_failed_us = 20\<rparr>"

theorem posix_http_request_bounds_witness:
  "ho_response (posix_http_request (ascii ''curl'') 5 (\<lambda>_ _. demo_run) (ascii ''https://h/'') None None None 100 800000) = ascii ''ok''
    \<and> ho_status (posix_http_request (ascii ''curl'') 5 (\<lambda>_ _. demo_run) (ascii ''https://h/'') None None None 100 800000) < 300"
proof -
  let ?r = "posix_http_request (ascii ''curl'') 5 (\<lambda>_ _. demo_run) (ascii ''https://h/'') None None None 100 800000"
  have "ho_ok ?r" "ho_response ?r = ascii ''ok''" by code_simp+
  then show ?thesis using posix_http_request_bounds[OF _ refl, of 100 "ascii ''curl''" 5 "\<lambda>_ _. demo_run" "ascii ''https://h/''" None None None 800000] by simp
qed

end
