(* ===== verification/VW_Worker_Config.thy ===== *)
theory VW_Worker_Config
  imports VW_Types
begin

unbundle bit_operations_syntax

text \<open>
  \<^verbatim>\<open>worker/src/vw_worker_config.c\<close>: the command line of the worker and the search for model
  files.  Arguments and the strings of the configuration are the characters of C strings.
  The file system, the environment, the path of the executable and the language table of
  the whisper library are arguments; log output is left out.
\<close>

section \<open>The code\<close>

datatype vw_worker_backend = VW_WORKER_BACKEND_AUTO | VW_WORKER_BACKEND_GPU | VW_WORKER_BACKEND_CPU

record vw_worker_config =
  wc_model_path :: bytes
  wc_model_dir :: bytes
  wc_vad_model_path :: bytes
  wc_language :: bytes
  wc_n_threads :: int
  wc_sample_rate :: u32
  wc_pipe_name :: bytes
  wc_log_file :: bytes
  wc_logging_enabled :: bool
  wc_auth_token :: bytes
  wc_backend :: vw_worker_backend
  wc_gpu_device :: int

text \<open>
  The system: which paths can be opened, what \<^verbatim>\<open>/proc/self/exe\<close> points to, the environment
  variables and \<^verbatim>\<open>whisper_lang_id\<close>.
\<close>

record worker_system =
  ws_can_open :: "bytes \<Rightarrow> bool"
  ws_exe :: "bytes option"
  ws_xdg_data_home :: "bytes option"
  ws_home :: "bytes option"
  ws_lang_id :: "bytes \<Rightarrow> int"

definition vw_worker_config_file_exists :: "worker_system \<Rightarrow> bytes \<Rightarrow> bool" where
  "vw_worker_config_file_exists sys path \<longleftrightarrow> path \<noteq> [] \<and> ws_can_open sys path"

definition vw_worker_config_is_absolute_path :: "bytes \<Rightarrow> bool" where
  "vw_worker_config_is_absolute_path path \<longleftrightarrow> c_get path 0 = 0x2F"

definition is_separator :: "u8 \<Rightarrow> bool" where
  "is_separator c \<longleftrightarrow> c = 0x2F \<or> c = 0x5C"

fun basename_loop :: "bytes \<Rightarrow> bytes \<Rightarrow> bytes" where
  "basename_loop base [] = base"
| "basename_loop base (c # cursor) = basename_loop (if is_separator c then cursor else base) cursor"

definition vw_worker_config_basename :: "bytes \<Rightarrow> bytes" where
  "vw_worker_config_basename path = basename_loop path path"

text \<open>The index of the last separator, from the two calls of \<^verbatim>\<open>strrchr\<close>.\<close>

definition strrchr :: "bytes \<Rightarrow> u8 \<Rightarrow> nat option" where
  "strrchr s c = (let k = length (takeWhile (\<lambda>x. x \<noteq> c) (rev s)) in if k = length s then None else Some (length s - k - 1))"

definition last_separator :: "bytes \<Rightarrow> nat option" where
  "last_separator s =
     (case (strrchr s 0x2F, strrchr s 0x5C) of
        (Some i, Some j) \<Rightarrow> Some (if i > j then i else j)
      | (Some i, None) \<Rightarrow> Some i
      | (None, j) \<Rightarrow> j)"

definition vw_worker_config_get_executable_dir :: "worker_system \<Rightarrow> nat \<Rightarrow> bytes option" where
  "vw_worker_config_get_executable_dir sys out_size =
     (if out_size = 0 then None
      else case ws_exe sys of
          None \<Rightarrow> None
        | Some link \<Rightarrow>
            let executable_path = c_str (take (VW_PATH_MAX_BYTES - 1) link) in
            if take (VW_PATH_MAX_BYTES - 1) link = [] then None
            else case last_separator executable_path of
                None \<Rightarrow> None
              | Some slash \<Rightarrow>
                  let dir_length = (if slash = 0 then 1 else slash) in
                  if dir_length \<ge> out_size then None else Some (take dir_length executable_path))"

definition needs_separator :: "bytes \<Rightarrow> bool" where
  "needs_separator directory \<longleftrightarrow> \<not> is_separator (last directory)"

definition vw_worker_config_join_path :: "nat \<Rightarrow> bytes \<Rightarrow> bytes \<Rightarrow> bytes option" where
  "vw_worker_config_join_path out_size directory name =
     (if out_size = 0 \<or> directory = [] \<or> name = [] then None
      else if length directory + (if needs_separator directory then 1 else 0) + length name + 1 > out_size then None
      else Some (directory @ (if needs_separator directory then [0x2F] else []) @ name))"

fun token_loop :: "bytes \<Rightarrow> bytes option" where
  "token_loop (c1 # c2 # hex) =
     (case (hex_digit c1, hex_digit c2) of
        (Some hi, Some lo) \<Rightarrow>
          map_option ((#) (ucast (push_bit 4 (of_nat hi) OR (of_nat lo) :: u32))) (token_loop hex)
      | _ \<Rightarrow> None)"
| "token_loop _ = Some []"

definition vw_token_from_hex :: "bytes \<Rightarrow> bytes option" where
  "vw_token_from_hex hex = (if length hex \<noteq> VW_AUTH_TOKEN_BYTES * 2 then None else token_loop hex)"

definition k_vad_filename :: bytes where
  "k_vad_filename = ascii ''ggml-silero-vad.bin''"

definition vw_worker_config_vad_beside :: "worker_system \<Rightarrow> bytes option \<Rightarrow> nat \<Rightarrow> bytes option" where
  "vw_worker_config_vad_beside sys path out_size =
     (case path of
        None \<Rightarrow> None
      | Some p \<Rightarrow>
          (case last_separator p of
             None \<Rightarrow> None
           | Some slash \<Rightarrow>
               let dir_len = slash + 1 in
               if dir_len + (length k_vad_filename + 1) > out_size then None
               else let out = take dir_len p @ k_vad_filename in
               if vw_worker_config_file_exists sys out then Some out else None))"

definition vw_worker_config_vad_in_dir :: "worker_system \<Rightarrow> bytes \<Rightarrow> nat \<Rightarrow> bytes option" where
  "vw_worker_config_vad_in_dir sys dir out_size =
     (if dir = [] then None
      else if length dir + (if needs_separator dir then 1 else 0) + length k_vad_filename + 1 > out_size then None
      else let out = dir @ (if needs_separator dir then [0x2F] else []) @ k_vad_filename in
      if vw_worker_config_file_exists sys out then Some out else None)"

definition vw_worker_config_vad_in_install_dir :: "worker_system \<Rightarrow> nat \<Rightarrow> bytes option" where
  "vw_worker_config_vad_in_install_dir sys out_size =
     (case vw_worker_config_get_executable_dir sys VW_PATH_MAX_BYTES of
        None \<Rightarrow> None
      | Some executable_dir \<Rightarrow>
          (case vw_worker_config_join_path VW_PATH_MAX_BYTES executable_dir (ascii ''models'') of
             None \<Rightarrow> None
           | Some install_model_dir \<Rightarrow> vw_worker_config_vad_in_dir sys install_model_dir out_size))"

definition k_vad_candidates :: "bytes list" where
  "k_vad_candidates = [ascii ''models/ggml-silero-vad.bin'', ascii ''ggml-silero-vad.bin'',
     ascii ''../../../models/ggml-silero-vad.bin'', ascii ''../../models/ggml-silero-vad.bin'', ascii ''../models/ggml-silero-vad.bin'']"

definition vw_worker_config_resolve_vad_model_path ::
  "worker_system \<Rightarrow> vw_worker_config \<Rightarrow> bytes option \<Rightarrow> nat \<Rightarrow> bytes option" where
  "vw_worker_config_resolve_vad_model_path sys config effective_model_path out_size =
     (if out_size = 0 then None
      else if wc_vad_model_path config \<noteq> [] then snprintf out_size (wc_vad_model_path config)
      else case vw_worker_config_vad_beside sys effective_model_path out_size of
          Some out \<Rightarrow> Some out
        | None \<Rightarrow>
            (case vw_worker_config_vad_in_dir sys (wc_model_dir config) out_size of
               Some out \<Rightarrow> Some out
             | None \<Rightarrow>
                 (case vw_worker_config_vad_in_install_dir sys out_size of
                    Some out \<Rightarrow> Some out
                  | None \<Rightarrow>
                      (case find (vw_worker_config_file_exists sys) k_vad_candidates of
                         None \<Rightarrow> None
                       | Some candidate \<Rightarrow> snprintf out_size candidate))))"

definition vw_worker_config_init_defaults :: vw_worker_config where
  "vw_worker_config_init_defaults =
     \<lparr>wc_model_path = ascii ''models/ggml-tiny.bin'', wc_model_dir = [], wc_vad_model_path = [], wc_language = ascii ''en'',
       wc_n_threads = 4, wc_sample_rate = 16000, wc_pipe_name = [], wc_log_file = [], wc_logging_enabled = False,
       wc_auth_token = replicate VW_AUTH_TOKEN_BYTES 0, wc_backend = VW_WORKER_BACKEND_AUTO, wc_gpu_device = 0\<rparr>"

text \<open>\<^verbatim>\<open>strtol\<close> in base 10: the value, clamped to the range of a \<^verbatim>\<open>long\<close>, and whether all of the text was used.\<close>

definition strtol10 :: "bytes \<Rightarrow> int \<times> bool" where
  "strtol10 s =
     (let t = dropWhile isspace s;
          neg = (t \<noteq> [] \<and> hd t = 0x2D);
          u = (if t \<noteq> [] \<and> (hd t = 0x2D \<or> hd t = 0x2B) then tl t else t)
      in case u of [] \<Rightarrow> (0, False)
         | c # _ \<Rightarrow> if base_digit 10 c = None then (0, False)
             else let (v, r) = digits_value 10 0 u;
                      x = (if neg then - int v else int v)
                  in (min (max x INT64_MIN) INT64_MAX, r = []))"

definition parse_backend :: "bytes \<Rightarrow> vw_worker_backend option" where
  "parse_backend b =
     (if b = ascii ''auto'' then Some VW_WORKER_BACKEND_AUTO
      else if b = ascii ''gpu'' then Some VW_WORKER_BACKEND_GPU
      else if b = ascii ''cpu'' then Some VW_WORKER_BACKEND_CPU else None)"

text \<open>One option with its value; \<open>None\<close> when the value is refused.\<close>

definition set_option :: "worker_system \<Rightarrow> vw_worker_config \<Rightarrow> bytes \<Rightarrow> bytes \<Rightarrow> vw_worker_config option" where
  "set_option sys config opt v =
     (if opt = ascii ''--token'' then
        (case vw_token_from_hex v of None \<Rightarrow> None | Some t \<Rightarrow> Some (config\<lparr>wc_auth_token := t\<rparr>))
      else if opt = ascii ''--pipe'' then
        if length v \<ge> 256 then None else Some (config\<lparr>wc_pipe_name := v\<rparr>)
      else if opt = ascii ''--model'' then
        if length v \<ge> VW_PATH_MAX_BYTES then None else Some (config\<lparr>wc_model_path := v\<rparr>)
      else if opt = ascii ''--model-dir'' then
        if length v \<ge> VW_PATH_MAX_BYTES then None else Some (config\<lparr>wc_model_dir := v\<rparr>)
      else if opt = ascii ''--vad-model'' then
        if length v \<ge> VW_PATH_MAX_BYTES then None else Some (config\<lparr>wc_vad_model_path := v\<rparr>)
      else if opt = ascii ''--log-file'' then
        if length v \<ge> 512 then None else Some (config\<lparr>wc_log_file := v, wc_logging_enabled := True\<rparr>)
      else if opt = ascii ''--backend'' then
        (case parse_backend v of None \<Rightarrow> None | Some b \<Rightarrow> Some (config\<lparr>wc_backend := b\<rparr>))
      else if opt = ascii ''--gpu-device'' then
        (case strtol10 v of (n, all) \<Rightarrow>
           if \<not> all \<or> n < 0 \<or> n > 65535 then None else Some (config\<lparr>wc_gpu_device := n\<rparr>))
      else if opt = ascii ''--language'' then
        if v = [] \<or> length v \<ge> 16 then None
        else if v = ascii ''auto'' then None
        else if ws_lang_id sys v < 0 then None
        else Some (config\<lparr>wc_language := v\<rparr>)
      else if opt = ascii ''--n-threads'' then
        (case strtol10 v of (n, all) \<Rightarrow>
           if \<not> all then None else Some (config\<lparr>wc_n_threads := min 16 (max 1 n)\<rparr>))
      else None)"

definition takes_value :: "bytes \<Rightarrow> bool" where
  "takes_value opt \<longleftrightarrow> opt \<in> {ascii ''--token'', ascii ''--pipe'', ascii ''--model'', ascii ''--model-dir'', ascii ''--vad-model'',
     ascii ''--log-file'', ascii ''--backend'', ascii ''--gpu-device'', ascii ''--language'', ascii ''--n-threads''}"

text \<open>The arguments after the program name; the exit code and the configuration so far.\<close>

fun parse_args_loop :: "worker_system \<Rightarrow> vw_worker_config \<Rightarrow> bytes list \<Rightarrow> int \<times> vw_worker_config" where
  "parse_args_loop sys config [] = (0, config)"
| "parse_args_loop sys config (opt # args) =
     (if opt = ascii ''--enable-logging'' then parse_args_loop sys (config\<lparr>wc_logging_enabled := True\<rparr>) args
      else if \<not> takes_value opt then (2, config)
      else case args of
          [] \<Rightarrow> (2, config)
        | v # rest \<Rightarrow>
            (case set_option sys config opt v of
               None \<Rightarrow> (2, config)
             | Some config' \<Rightarrow> parse_args_loop sys config' rest))"

definition vw_worker_config_parse_args :: "worker_system \<Rightarrow> vw_worker_config \<Rightarrow> bytes list \<Rightarrow> int \<times> vw_worker_config" where
  "vw_worker_config_parse_args sys config argv = parse_args_loop sys config (tl argv)"

definition vw_worker_config_default_model_dir :: "worker_system \<Rightarrow> nat \<Rightarrow> bytes option" where
  "vw_worker_config_default_model_dir sys out_size =
     (if out_size = 0 then None
      else let tmp =
        (case ws_xdg_data_home sys of
           Some (c # xdg) \<Rightarrow> (c # xdg) @ ascii ''/vlc-whisper/models''
         | _ \<Rightarrow> (case ws_home sys of
               Some (c # home) \<Rightarrow> (c # home) @ ascii ''/.local/share/vlc-whisper/models''
             | _ \<Rightarrow> ascii ''/tmp/vlc-whisper/models''))
      in case snprintf 4096 tmp of None \<Rightarrow> None | Some t \<Rightarrow> snprintf out_size t)"

definition model_in_dir :: "worker_system \<Rightarrow> bytes \<Rightarrow> bytes \<Rightarrow> bytes option" where
  "model_in_dir sys dir filename =
     (case vw_worker_config_join_path VW_PATH_MAX_BYTES dir filename of
        None \<Rightarrow> None
      | Some candidate \<Rightarrow> if vw_worker_config_file_exists sys candidate then Some candidate else None)"

definition model_in_install_dir :: "worker_system \<Rightarrow> bytes \<Rightarrow> nat \<Rightarrow> bytes option" where
  "model_in_install_dir sys filename out_size =
     (case vw_worker_config_get_executable_dir sys VW_PATH_MAX_BYTES of None \<Rightarrow> None | Some executable_dir \<Rightarrow>
      case vw_worker_config_join_path VW_PATH_MAX_BYTES executable_dir (ascii ''models'') of None \<Rightarrow> None | Some install_model_dir \<Rightarrow>
      case vw_worker_config_join_path out_size install_model_dir filename of None \<Rightarrow> None | Some out \<Rightarrow>
      if vw_worker_config_file_exists sys out then Some out else None)"

definition vw_worker_config_resolve_model_path :: "worker_system \<Rightarrow> vw_worker_config \<Rightarrow> nat \<Rightarrow> bytes option" where
  "vw_worker_config_resolve_model_path sys config out_size =
     (if out_size = 0 \<or> wc_model_path config = [] then None
      else if vw_worker_config_file_exists sys (wc_model_path config) then snprintf out_size (wc_model_path config)
      else if vw_worker_config_is_absolute_path (wc_model_path config) then None
      else let filename = vw_worker_config_basename (wc_model_path config) in
      if filename = [] then None
      else case (if wc_model_dir config \<noteq> [] then model_in_dir sys (wc_model_dir config) filename else None) of
          Some candidate \<Rightarrow> snprintf out_size candidate
        | None \<Rightarrow>
            (case model_in_install_dir sys filename out_size of
               Some out \<Rightarrow> Some out
             | None \<Rightarrow>
                 (case vw_worker_config_default_model_dir sys VW_PATH_MAX_BYTES of
                    None \<Rightarrow> None
                  | Some default_dir \<Rightarrow>
                      (case model_in_dir sys default_dir filename of
                         None \<Rightarrow> None
                       | Some candidate \<Rightarrow> snprintf out_size candidate))))"

section \<open>The command line\<close>

text \<open>What the struct and the rest of the worker rely on.\<close>

definition config_ok :: "vw_worker_config \<Rightarrow> bool" where
  "config_ok c \<longleftrightarrow>
     length (wc_model_path c) < VW_PATH_MAX_BYTES \<and> length (wc_model_dir c) < VW_PATH_MAX_BYTES
     \<and> length (wc_vad_model_path c) < VW_PATH_MAX_BYTES \<and> length (wc_pipe_name c) < 256 \<and> length (wc_log_file c) < 512
     \<and> length (wc_auth_token c) = VW_AUTH_TOKEN_BYTES \<and> 1 \<le> wc_n_threads c \<and> wc_n_threads c \<le> 16
     \<and> 0 \<le> wc_gpu_device c \<and> wc_gpu_device c \<le> 65535 \<and> wc_language c \<noteq> [] \<and> length (wc_language c) < 16"

lemma token_loop_length: "token_loop s = Some t \<Longrightarrow> length t = length s div 2"
  by (induction s arbitrary: t rule: token_loop.induct) (auto split: option.splits)

lemma config_ok_defaults: "config_ok vw_worker_config_init_defaults"
  by (simp add: config_ok_def vw_worker_config_init_defaults_def ascii_def vw_limits)

lemma set_option_cases:
  assumes "set_option sys c opt v = Some c'"
  obtains t where "length t = VW_AUTH_TOKEN_BYTES" "c' = c\<lparr>wc_auth_token := t\<rparr>"
  | "length v < 256" "c' = c\<lparr>wc_pipe_name := v\<rparr>"
  | "length v < VW_PATH_MAX_BYTES"
      "c' = c\<lparr>wc_model_path := v\<rparr> \<or> c' = c\<lparr>wc_model_dir := v\<rparr> \<or> c' = c\<lparr>wc_vad_model_path := v\<rparr>"
  | "length v < 512" "c' = c\<lparr>wc_log_file := v, wc_logging_enabled := True\<rparr>"
  | b where "c' = c\<lparr>wc_backend := b\<rparr>"
  | n where "0 \<le> n" "n \<le> 65535" "c' = c\<lparr>wc_gpu_device := n\<rparr>"
  | "v \<noteq> []" "length v < 16" "v \<noteq> ascii ''auto''" "0 \<le> ws_lang_id sys v" "c' = c\<lparr>wc_language := v\<rparr>"
  | n where "c' = c\<lparr>wc_n_threads := min 16 (max 1 n)\<rparr>"
proof -
  have tok: "length t = VW_AUTH_TOKEN_BYTES" if "vw_token_from_hex v = Some t" for t
    using that token_loop_length[of v t] by (auto simp: vw_token_from_hex_def split: if_splits)
  show thesis
    using assms unfolding set_option_def
    by (simp split: if_split_asm option.split_asm prod.split_asm add: not_le not_less)
      (use that tok in blast)+
qed

lemma set_option_ok:
  assumes "set_option sys c opt v = Some c'" "config_ok c"
  shows "config_ok c'" and "wc_language c' = wc_language c \<or> 0 \<le> ws_lang_id sys (wc_language c') \<and> wc_language c' \<noteq> ascii ''auto''"
  by (rule set_option_cases[OF assms(1)]; use assms(2) in \<open>auto simp: config_ok_def\<close>)+

lemma parse_args_loop_ok:
  assumes "config_ok c"
  shows "config_ok (snd (parse_args_loop sys c args)) \<and> fst (parse_args_loop sys c args) \<in> {0, 2}
    \<and> (wc_language (snd (parse_args_loop sys c args)) = wc_language c
       \<or> 0 \<le> ws_lang_id sys (wc_language (snd (parse_args_loop sys c args))) \<and> wc_language (snd (parse_args_loop sys c args)) \<noteq> ascii ''auto'')"
  using assms
proof (induction sys c args rule: parse_args_loop.induct)
  case (2 sys c opt args)
  show ?case
  proof (cases "opt = ascii ''--enable-logging''")
    case True
    moreover have "config_ok (c\<lparr>wc_logging_enabled := True\<rparr>)" using 2(3) by (simp add: config_ok_def)
    ultimately show ?thesis using 2(1) by simp
  next
    case plain: False
    show ?thesis
    proof (cases "takes_value opt \<and> (\<exists>v rest c'. args = v # rest \<and> set_option sys c opt v = Some c')")
      case True
      then obtain v rest c' where *: "takes_value opt" "args = v # rest" "set_option sys c opt v = Some c'" by blast
      note ok = set_option_ok[OF *(3) 2(3)]
      have "parse_args_loop sys c (opt # args) = parse_args_loop sys c' rest" using plain * by simp
      with 2(2)[OF plain _ *(2,3) ok(1)] *(1) ok(2) show ?thesis by auto
    next
      case False
      then have "parse_args_loop sys c (opt # args) = (2, c)" using plain by (auto split: list.splits option.splits)
      then show ?thesis using 2(3) by simp
    qed
  qed
qed simp

text \<open>
  Property. Whatever the command line, parsing it ends with code 0 or 2, every field stays
  within its array and range, and the language is the default or one that the whisper
  library knows, never \<open>auto\<close>.
\<close>

theorem vw_worker_config_parse_args_ok:
  "config_ok (snd (vw_worker_config_parse_args sys vw_worker_config_init_defaults argv))
   \<and> fst (vw_worker_config_parse_args sys vw_worker_config_init_defaults argv) \<in> {0, 2}
   \<and> (wc_language (snd (vw_worker_config_parse_args sys vw_worker_config_init_defaults argv)) = ascii ''en''
      \<or> 0 \<le> ws_lang_id sys (wc_language (snd (vw_worker_config_parse_args sys vw_worker_config_init_defaults argv)))
        \<and> wc_language (snd (vw_worker_config_parse_args sys vw_worker_config_init_defaults argv)) \<noteq> ascii ''auto'')"
  using parse_args_loop_ok[OF config_ok_defaults, of sys "tl argv"]
  unfolding vw_worker_config_parse_args_def by (simp add: vw_worker_config_init_defaults_def)

section \<open>The search for model files\<close>

definition opt_list :: "'a option \<Rightarrow> 'a list" where
  "opt_list x = (case x of None \<Rightarrow> [] | Some y \<Rightarrow> [y])"

definition install_dir :: "worker_system \<Rightarrow> bytes option" where
  "install_dir sys = Option.bind (vw_worker_config_get_executable_dir sys VW_PATH_MAX_BYTES)
     (\<lambda>d. vw_worker_config_join_path VW_PATH_MAX_BYTES d (ascii ''models''))"

text \<open>The places where a model is looked for, in order; paths that are too long are left out.\<close>

definition model_candidates :: "worker_system \<Rightarrow> vw_worker_config \<Rightarrow> bytes list" where
  "model_candidates sys c =
     (let name = vw_worker_config_basename (wc_model_path c);
          join = (\<lambda>d. vw_worker_config_join_path VW_PATH_MAX_BYTES d name)
      in wc_model_path c #
         (if vw_worker_config_is_absolute_path (wc_model_path c) then []
          else opt_list (join (wc_model_dir c)) @ opt_list (Option.bind (install_dir sys) join)
            @ opt_list (Option.bind (vw_worker_config_default_model_dir sys VW_PATH_MAX_BYTES) join)))"

lemma join_path_length: "vw_worker_config_join_path n d s = Some p \<Longrightarrow> length p < n"
  by (auto simp: vw_worker_config_join_path_def split: if_splits)

lemma join_path_empty [simp]: "vw_worker_config_join_path n d [] = None" "vw_worker_config_join_path n [] s = None"
  by (simp_all add: vw_worker_config_join_path_def)

lemma snprintf_Some: "length s < n \<Longrightarrow> snprintf n s = Some s"
  by (simp add: snprintf_def)

text \<open>
  Property. The model path that the worker loads is the first existing file among the
  configured path and, when that is relative, the file of the same name in the per-user
  model directory, in the models directory of the installation and in the default model
  directory; if none exists there is none.
\<close>

theorem vw_worker_config_resolve_model_path_first:
  assumes "config_ok c" "wc_model_path c \<noteq> []"
  shows "vw_worker_config_resolve_model_path sys c VW_PATH_MAX_BYTES
    = find (vw_worker_config_file_exists sys) (model_candidates sys c)"
proof -
  let ?ex = "vw_worker_config_file_exists sys" and ?n = VW_PATH_MAX_BYTES
  let ?name = "vw_worker_config_basename (wc_model_path c)"
  have n: "?n \<noteq> 0" by (simp add: vw_limits)
  have fit: "length (wc_model_path c) < ?n" using assms(1) by (simp add: config_ok_def)
  have dir: "(case model_in_dir sys d ?name of None \<Rightarrow> x | Some p \<Rightarrow> snprintf ?n p)
      = (case find ?ex (opt_list (vw_worker_config_join_path ?n d ?name)) of None \<Rightarrow> x | Some p \<Rightarrow> Some p)" for d x
    by (auto simp: model_in_dir_def opt_list_def snprintf_Some join_path_length split: option.splits)
  have inst: "model_in_install_dir sys ?name ?n
      = find ?ex (opt_list (Option.bind (install_dir sys) (\<lambda>d. vw_worker_config_join_path ?n d ?name)))"
    by (auto simp: model_in_install_dir_def install_dir_def opt_list_def split: option.splits)
  have app: "find ?ex (xs @ ys) = (case find ?ex xs of None \<Rightarrow> find ?ex ys | Some p \<Rightarrow> Some p)" for xs ys
    by (induction xs) auto
  show ?thesis
  proof (cases "?ex (wc_model_path c) \<or> vw_worker_config_is_absolute_path (wc_model_path c)")
    case True
    then show ?thesis
      using assms(2) n fit
      by (auto simp: vw_worker_config_resolve_model_path_def model_candidates_def Let_def snprintf_Some)
  next
    case False
    show ?thesis
    proof (cases "?name = []")
      case True
      then show ?thesis
        using False n assms(2)
        by (auto simp: vw_worker_config_resolve_model_path_def model_candidates_def Let_def opt_list_def bind_eq_None_conv split: option.splits)
    next
      case name: False
      have first: "(case (if wc_model_dir c \<noteq> [] then model_in_dir sys (wc_model_dir c) ?name else None) of
            None \<Rightarrow> x | Some p \<Rightarrow> snprintf ?n p)
          = (case find ?ex (opt_list (vw_worker_config_join_path ?n (wc_model_dir c) ?name)) of None \<Rightarrow> x | Some p \<Rightarrow> Some p)" for x
        using dir[of x "wc_model_dir c"] by (simp add: opt_list_def)
      have last: "(case vw_worker_config_default_model_dir sys ?n of None \<Rightarrow> None
            | Some d \<Rightarrow> (case model_in_dir sys d ?name of None \<Rightarrow> None | Some p \<Rightarrow> snprintf ?n p))
          = find ?ex (opt_list (Option.bind (vw_worker_config_default_model_dir sys ?n) (\<lambda>d. vw_worker_config_join_path ?n d ?name)))"
        using dir[of None] by (simp add: opt_list_def split: option.split)
      show ?thesis
        using False name n assms(2)
        by (simp add: vw_worker_config_resolve_model_path_def model_candidates_def Let_def app first last inst cong: option.case_cong)
    qed
  qed
qed

text \<open>A relative model found in the model directory of the user.\<close>

definition sample_system :: worker_system where
  "sample_system = \<lparr>ws_can_open = (\<lambda>p. p = ascii ''/m/tiny.bin''), ws_exe = Some (ascii ''/opt/vw/worker''),
     ws_xdg_data_home = None, ws_home = Some (ascii ''/home/u''), ws_lang_id = (\<lambda>_. 0)\<rparr>"

definition sample_config :: vw_worker_config where
  "sample_config = vw_worker_config_init_defaults\<lparr>wc_model_path := ascii ''models/tiny.bin'', wc_model_dir := ascii ''/m''\<rparr>"

theorem vw_worker_config_resolve_model_path_first_witness:
  "vw_worker_config_resolve_model_path sample_system sample_config VW_PATH_MAX_BYTES = Some (ascii ''/m/tiny.bin'')"
proof -
  have "config_ok sample_config" "wc_model_path sample_config \<noteq> []" by code_simp+
  moreover have "find (vw_worker_config_file_exists sample_system) (model_candidates sample_system sample_config) = Some (ascii ''/m/tiny.bin'')"
    by code_simp
  ultimately show ?thesis using vw_worker_config_resolve_model_path_first[of sample_config sample_system] by simp
qed

section \<open>The search for the voice detector\<close>

definition vad_candidates :: "worker_system \<Rightarrow> vw_worker_config \<Rightarrow> bytes option \<Rightarrow> nat \<Rightarrow> bytes list" where
  "vad_candidates sys c model n =
     filter (\<lambda>p. length p < n)
       (opt_list (Option.bind model (\<lambda>p. map_option (\<lambda>i. take (i + 1) p @ k_vad_filename) (last_separator p)))
        @ opt_list (vw_worker_config_join_path (length (wc_model_dir c) + 21) (wc_model_dir c) k_vad_filename)
        @ opt_list (Option.bind (install_dir sys) (\<lambda>d. vw_worker_config_join_path (length d + 21) d k_vad_filename))
        @ k_vad_candidates)"

lemma last_separator_less: "last_separator p = Some i \<Longrightarrow> i < length p"
proof -
  have "strrchr p c = Some k \<Longrightarrow> k < length p" for c k
    by (cases p) (auto simp: strrchr_def Let_def split: if_splits)
  then show "last_separator p = Some i \<Longrightarrow> i < length p"
    by (auto simp: last_separator_def split: option.splits if_splits)
qed

lemma vad_in_dir_find:
  "vw_worker_config_vad_in_dir sys d n = find (vw_worker_config_file_exists sys)
     (filter (\<lambda>p. length p < n) (opt_list (vw_worker_config_join_path (length d + 21) d k_vad_filename)))"
  by (auto simp: vw_worker_config_vad_in_dir_def vw_worker_config_join_path_def opt_list_def k_vad_filename_def ascii_def Let_def)

text \<open>
  Without an explicit voice-detector path the first existing file is taken from:
  beside the loaded model, the model directory, the installation, and the compatibility
  paths; an explicit path is taken whether it exists or not.
\<close>

lemma vw_worker_config_resolve_vad_model_path_first:
  assumes "64 \<le> n"
  shows "vw_worker_config_resolve_vad_model_path sys c model n =
    (if wc_vad_model_path c \<noteq> [] then snprintf n (wc_vad_model_path c)
     else find (vw_worker_config_file_exists sys) (vad_candidates sys c model n))"
proof -
  let ?ex = "vw_worker_config_file_exists sys"
  have app: "find ?ex (xs @ ys) = (case find ?ex xs of None \<Rightarrow> find ?ex ys | Some p \<Rightarrow> Some p)" for xs ys
    by (induction xs) auto
  have beside: "vw_worker_config_vad_beside sys model n = find ?ex (filter (\<lambda>p. length p < n)
      (opt_list (Option.bind model (\<lambda>p. map_option (\<lambda>i. take (i + 1) p @ k_vad_filename) (last_separator p)))))"
    using last_separator_less
    by (force simp: vw_worker_config_vad_beside_def opt_list_def Let_def min_def Suc_le_eq split: option.splits)
  have inst: "vw_worker_config_vad_in_install_dir sys n = find ?ex (filter (\<lambda>p. length p < n)
      (opt_list (Option.bind (install_dir sys) (\<lambda>d. vw_worker_config_join_path (length d + 21) d k_vad_filename))))"
    by (auto simp: vw_worker_config_vad_in_install_dir_def install_dir_def vad_in_dir_find opt_list_def split: option.splits)
  have short: "length p < n" if "p \<in> set k_vad_candidates" for p
    using that assms by (auto simp: k_vad_candidates_def ascii_def)
  then have "filter (\<lambda>p. length p < n) k_vad_candidates = k_vad_candidates" by (simp add: filter_id_conv)
  moreover have "(case find ?ex k_vad_candidates of None \<Rightarrow> None | Some p \<Rightarrow> snprintf n p) = find ?ex k_vad_candidates"
  proof (cases "find ?ex k_vad_candidates")
    case (Some p)
    then have "p \<in> set k_vad_candidates" by (auto simp: find_Some_iff in_set_conv_nth)
    with short Some show ?thesis by (simp add: snprintf_def)
  qed simp
  ultimately show ?thesis
    using assms by (simp add: vw_worker_config_resolve_vad_model_path_def vad_candidates_def app beside inst vad_in_dir_find cong: option.case_cong)
qed

end
