(* ===== verification/VW_Ipc.thy ===== *)
theory VW_Ipc
  imports VW_Codec
begin

text \<open>
  The framed transport that the plugin and the worker share.  The connection and the
  platform behind \<^verbatim>\<open>vw_ipc_transport.h\<close> and \<^verbatim>\<open>vw_platform.h\<close> are tapes of answers:
  readings of the monotonic clock, outcomes of sending and receiving, of allocations and of
  the random source.  A tape that has run out answers with a failure.  \<open>nt_in\<close> is the byte
  stream from the peer; \<open>nt_sent\<close> collects the bytes handed to it and \<open>nt_events\<close> the
  resources released.
\<close>

section \<open>The connection\<close>

datatype recv_event = Recv_Bytes nat | Recv_Timeout | Recv_Fatal
datatype send_event = Send_Ok | Send_Fail nat
datatype resource_event = Pipe_Open | Pipe_Close | Proc_Spawn "bytes list" | Proc_Wait nat | Proc_Terminate | Proc_Close
  | Client_Alloc | Client_Free

record ipc_net =
  nt_clock :: "i64 list"
  nt_recv :: "recv_event list"
  nt_send :: "send_event list"
  nt_mem :: "bool list"
  nt_random :: "bytes option list"
  nt_in :: bytes
  nt_sent :: bytes
  nt_events :: "resource_event list"

definition take_clock :: "ipc_net \<Rightarrow> i64 \<times> ipc_net" where
  "take_clock n = (case nt_clock n of [] \<Rightarrow> (- 1, n) | t # ts \<Rightarrow> (t, n\<lparr>nt_clock := ts\<rparr>))"

definition take_mem :: "ipc_net \<Rightarrow> bool \<times> ipc_net" where
  "take_mem n = (case nt_mem n of [] \<Rightarrow> (False, n) | m # ms \<Rightarrow> (m, n\<lparr>nt_mem := ms\<rparr>))"

text \<open>\<^verbatim>\<open>vw_platform_get_random_bytes\<close> fills the whole buffer or fails.\<close>

definition take_random :: "nat \<Rightarrow> ipc_net \<Rightarrow> bytes option \<times> ipc_net" where
  "take_random len n =
     (case nt_random n of
        [] \<Rightarrow> (None, n)
      | r # rs \<Rightarrow> (map_option (\<lambda>bs. take len (bs @ replicate len 0)) r, n\<lparr>nt_random := rs\<rparr>))"

text \<open>A failed send may have put some of the bytes on the wire.\<close>

definition vw_ipc_send :: "bytes \<Rightarrow> ipc_net \<Rightarrow> bool \<times> ipc_net" where
  "vw_ipc_send bs n =
     (case nt_send n of
        [] \<Rightarrow> (False, n)
      | Send_Ok # es \<Rightarrow> (True, n\<lparr>nt_send := es, nt_sent := nt_sent n @ bs\<rparr>)
      | Send_Fail k # es \<Rightarrow> (False, n\<lparr>nt_send := es, nt_sent := nt_sent n @ take k bs\<rparr>))"

text \<open>\<^verbatim>\<open>send (header) && send (payload)\<close>.\<close>

definition send_parts :: "bytes \<Rightarrow> bytes \<Rightarrow> ipc_net \<Rightarrow> bool \<times> ipc_net" where
  "send_parts hdr payload n =
     (case vw_ipc_send hdr n of (ok, n) \<Rightarrow> if ok then vw_ipc_send payload n else (False, n))"

datatype recv_result = Got bytes | Got_Timeout | Got_Fatal

definition vw_ipc_receive :: "nat \<Rightarrow> ipc_net \<Rightarrow> recv_result \<times> ipc_net" where
  "vw_ipc_receive len n =
     (case nt_recv n of
        [] \<Rightarrow> (Got_Fatal, n)
      | Recv_Timeout # es \<Rightarrow> (Got_Timeout, n\<lparr>nt_recv := es\<rparr>)
      | Recv_Fatal # es \<Rightarrow> (Got_Fatal, n\<lparr>nt_recv := es\<rparr>)
      | Recv_Bytes k # es \<Rightarrow>
          let got = take (min k len) (nt_in n) in
          if got = [] then (Got_Fatal, n\<lparr>nt_recv := es\<rparr>)
          else (Got got, n\<lparr>nt_recv := es, nt_in := drop (length got) (nt_in n)\<rparr>))"

definition frame_header :: "vw_message_type \<Rightarrow> nat \<Rightarrow> u64 \<Rightarrow> vw_frame_header" where
  "frame_header type payload_len sequence =
     \<lparr>fh_magic = VW_PROTOCOL_MAGIC, fh_major = VW_PROTOCOL_VERSION_MAJOR, fh_type = msg_code type,
       fh_payload_length = of_nat payload_len, fh_sequence = sequence\<rparr>"

section \<open>Laws of the connection\<close>

lemma take_clock_simps [simp]:
  "nt_sent (snd (take_clock n)) = nt_sent n" "nt_in (snd (take_clock n)) = nt_in n"
  "nt_events (snd (take_clock n)) = nt_events n"
  by (simp_all add: take_clock_def split: list.splits)

lemma take_mem_simps [simp]:
  "nt_sent (snd (take_mem n)) = nt_sent n" "nt_in (snd (take_mem n)) = nt_in n"
  "nt_events (snd (take_mem n)) = nt_events n" "nt_clock (snd (take_mem n)) = nt_clock n"
  by (simp_all add: take_mem_def split: list.splits)

lemma take_random_simps [simp]:
  "nt_sent (snd (take_random k n)) = nt_sent n" "nt_in (snd (take_random k n)) = nt_in n"
  "nt_events (snd (take_random k n)) = nt_events n" "nt_clock (snd (take_random k n)) = nt_clock n"
  by (simp_all add: take_random_def split: list.splits)

lemma take_random_length: "take_random k n = (Some bs, n') \<Longrightarrow> length bs = k"
  by (auto simp: take_random_def split: list.splits)

lemma take_clock_shorter: "take_clock n = (t, n') \<Longrightarrow> 0 \<le> t \<Longrightarrow> length (nt_clock n') < length (nt_clock n)"
  by (auto simp: take_clock_def split: list.splits)

lemma take_clock_le: "take_clock n = (t, n') \<Longrightarrow> length (nt_clock n') \<le> length (nt_clock n)"
  by (auto simp: take_clock_def split: list.splits)

lemma vw_ipc_send_frame [simp]:
  "nt_in (snd (vw_ipc_send bs n)) = nt_in n" "nt_events (snd (vw_ipc_send bs n)) = nt_events n"
  "nt_clock (snd (vw_ipc_send bs n)) = nt_clock n"
  by (simp_all add: vw_ipc_send_def split: list.splits send_event.splits)

lemma vw_ipc_send_True: "vw_ipc_send bs n = (True, n') \<Longrightarrow> nt_sent n' = nt_sent n @ bs"
  by (auto simp: vw_ipc_send_def split: list.splits send_event.splits)

lemma send_parts_frame [simp]:
  "nt_in (snd (send_parts h p n)) = nt_in n" "nt_events (snd (send_parts h p n)) = nt_events n"
  "nt_clock (snd (send_parts h p n)) = nt_clock n"
  by (simp_all add: send_parts_def case_prod_beta)

lemma send_parts_True: "send_parts h p n = (True, n') \<Longrightarrow> nt_sent n' = nt_sent n @ h @ p"
  by (auto simp: send_parts_def dest!: vw_ipc_send_True split: prod.splits if_splits)

lemma vw_ipc_receive_laws:
  assumes "vw_ipc_receive len n = (r, n')"
  shows "nt_clock n' = nt_clock n" "nt_sent n' = nt_sent n" "nt_events n' = nt_events n"
    "(case r of Got bs \<Rightarrow> bs \<noteq> [] \<and> length bs \<le> len \<and> nt_in n = bs @ nt_in n' | _ \<Rightarrow> nt_in n' = nt_in n)"
  using assms by (auto simp: vw_ipc_receive_def Let_def append_take_drop_id min_def
      split: list.splits recv_event.splits if_splits)

section \<open>Streams of frames\<close>

text \<open>
  The specification of the wire: a message is a type and its payload bytes, and a stream
  numbers its messages.  \<open>parse_stream\<close> is the reader of the format in
  \<^verbatim>\<open>vw_protocol_types.h\<close>.
\<close>

type_synonym message = "vw_message_type \<times> bytes"

definition fits :: "message \<Rightarrow> bool" where
  "fits m \<longleftrightarrow> length (snd m) \<le> VW_MAX_PAYLOAD_BYTES"

text \<open>What the receiving side makes of a message: it decodes and validates.\<close>

definition accepted :: "message \<Rightarrow> bool" where
  "accepted m \<longleftrightarrow> (case vw_protocol_decode_payload (msg_code (fst m)) (snd m) of
      None \<Rightarrow> False | Some p \<Rightarrow> vw_protocol_validate_payload (msg_code (fst m)) p)"

definition frame_wire :: "u64 \<Rightarrow> message \<Rightarrow> bytes" where
  "frame_wire s m = header_image (frame_header (fst m) (length (snd m)) s) @ snd m"

primrec wire_stream :: "u64 \<Rightarrow> message list \<Rightarrow> bytes" where
  "wire_stream s [] = []"
| "wire_stream s (m # ms) = frame_wire s m @ wire_stream (s + 1) ms"

primrec numbered :: "u64 \<Rightarrow> message list \<Rightarrow> (vw_frame_header \<times> bytes) list" where
  "numbered s [] = []"
| "numbered s (m # ms) = (frame_header (fst m) (length (snd m)) s, snd m) # numbered (s + 1) ms"

function parse_stream :: "bytes \<Rightarrow> (vw_frame_header \<times> bytes) list option" where
  "parse_stream b =
     (if b = [] then Some []
      else case vw_protocol_decode_header b of
          None \<Rightarrow> None
        | Some h \<Rightarrow>
            let n = unat (fh_payload_length h) in
            if length b < 20 + n then None
            else map_option ((#) (h, take n (drop 20 b))) (parse_stream (drop (20 + n) b)))"
  by pat_completeness auto

termination parse_stream
  by (relation "measure length") auto

declare parse_stream.simps [simp del]

lemma wire_stream_snoc: "wire_stream s (ms @ [m]) = wire_stream s ms @ frame_wire (s + of_nat (length ms)) m"
  by (induction ms arbitrary: s) (simp_all add: ac_simps)

lemma wire_stream_append:
  "wire_stream s (ms @ ms') = wire_stream s ms @ wire_stream (s + of_nat (length ms)) ms'"
  by (induction ms arbitrary: s) (simp_all add: ac_simps)

lemma msg_code_range: "msg_code VW_MSG_HELLO \<le> msg_code t \<and> msg_code t \<le> msg_code VW_MSG_TRANSLATE_CTRL"
  by (cases t) (simp_all add: msg_code.simps)

lemma unat_payload_length: "k \<le> VW_MAX_PAYLOAD_BYTES \<Longrightarrow> unat (of_nat k :: u32) = k"
  by (simp add: unat_of_nat vw_limits)

lemma frame_header_valid: "k \<le> VW_MAX_PAYLOAD_BYTES \<Longrightarrow> vw_protocol_validate_header (Some (frame_header t k s))"
  using msg_code_range[of t]
  by (auto simp: vw_protocol_validate_header_def frame_header_def unat_payload_length not_less)

lemma decode_header_wire:
  "fits m \<Longrightarrow> vw_protocol_decode_header (frame_wire s m @ rest) = Some (frame_header (fst m) (length (snd m)) s)"
  by (simp add: vw_protocol_decode_header_def frame_wire_def header_of_header_image frame_header_valid fits_def)

lemma length_frame_wire [simp]: "length (frame_wire s m) = 20 + length (snd m)"
  by (simp add: frame_wire_def)

lemma parse_wire_stream: "list_all fits ms \<Longrightarrow> parse_stream (wire_stream s ms) = Some (numbered s ms)"
proof (induction ms arbitrary: s)
  case Nil
  then show ?case by (simp add: parse_stream.simps)
next
  case (Cons m ms)
  have f: "fits m" using Cons.prems by simp
  have l: "unat (fh_payload_length (frame_header (fst m) (length (snd m)) s)) = length (snd m)"
    using f by (simp add: frame_header_def unat_payload_length fits_def)
  have ne: "frame_wire s m @ wire_stream (s + 1) ms \<noteq> []"
    by (metis append_is_Nil_conv length_frame_wire length_0_conv add_is_0 zero_neq_numeral)
  have d: "drop 20 (frame_wire s m) = snd m"
    by (simp add: frame_wire_def)
  show ?case
    using Cons ne
    by (subst parse_stream.simps)
      (simp add: decode_header_wire[OF f] l Let_def d)
qed

section \<open>The contract of a sender\<close>

text \<open>
  \<open>framed\<close>: as long as the connection is usable, what was sent is a stream of messages
  numbered from 1, the sender's counter is the number of the last one, and every message has
  the property \<open>P\<close>.
\<close>

definition framed :: "(message \<Rightarrow> bool) \<Rightarrow> bool \<Rightarrow> u64 \<Rightarrow> bytes \<Rightarrow> bool" where
  "framed P alive s w \<longleftrightarrow> (alive \<longrightarrow> (\<exists>ms. w = wire_stream 1 ms \<and> s = of_nat (length ms) \<and> list_all P ms))"

lemma framed_dead [simp]: "framed P False s w"
  by (simp add: framed_def)

lemma framed_send:
  assumes "framed P True s w" "P m"
  shows "framed P True (s + 1) (w @ frame_wire (s + 1) m)"
proof -
  from assms(1) obtain ms where ms: "w = wire_stream 1 ms" "s = of_nat (length ms)" "list_all P ms"
    by (auto simp: framed_def)
  have "w @ frame_wire (s + 1) m = wire_stream 1 (ms @ [m])"
    using ms by (simp add: wire_stream_snoc ac_simps)
  moreover have "s + 1 = of_nat (length (ms @ [m]))" using ms by (simp add: ac_simps)
  moreover have "list_all P (ms @ [m])" using ms(3) assms(2) by simp
  ultimately show ?thesis unfolding framed_def by blast
qed

locale frame_sender =
  fixes step :: "'op \<Rightarrow> 's \<Rightarrow> 's"
    and ok :: "'op \<Rightarrow> bool"
    and inv :: "'s \<Rightarrow> bool"
    and alive :: "'s \<Rightarrow> bool"
    and counter :: "'s \<Rightarrow> u64"
    and sent :: "'s \<Rightarrow> bytes"
    and P :: "message \<Rightarrow> bool"
  assumes step_inv: "inv s \<Longrightarrow> ok x \<Longrightarrow> inv (step x s)"
    and step_framed: "inv s \<Longrightarrow> ok x \<Longrightarrow> framed P (alive s) (counter s) (sent s) \<Longrightarrow>
          framed P (alive (step x s)) (counter (step x s)) (sent (step x s))"
    and P_fits: "P m \<Longrightarrow> fits m"
begin

lemma run_framed:
  "inv s \<Longrightarrow> list_all ok xs \<Longrightarrow> framed P (alive s) (counter s) (sent s) \<Longrightarrow>
     inv (fold step xs s) \<and> framed P (alive (fold step xs s)) (counter (fold step xs s)) (sent (fold step xs s))"
  by (induction xs arbitrary: s) (simp_all add: step_inv step_framed)

lemma run_parses:
  assumes "inv s" "list_all ok xs" "framed P (alive s) (counter s) (sent s)" "alive (fold step xs s)"
  shows "\<exists>ms. parse_stream (sent (fold step xs s)) = Some (numbered 1 ms) \<and> list_all P ms
           \<and> counter (fold step xs s) = of_nat (length ms)"
proof -
  from run_framed[OF assms(1-3)] assms(4) obtain ms
    where ms: "sent (fold step xs s) = wire_stream 1 ms" "counter (fold step xs s) = of_nat (length ms)" "list_all P ms"
    by (auto simp: framed_def)
  from ms(3) have "list_all fits ms" by (metis P_fits list.pred_mono_strong)
  with ms show ?thesis using parse_wire_stream by metis
qed

end

end
