(* ===== verification/VW_Worker_Client.thy ===== *)
theory VW_Worker_Client
  imports VW_Ipc VW_Spsc_Queue
begin

unbundle bit_operations_syntax

text \<open>
  \<^verbatim>\<open>plugin/src/vw_worker_client.c\<close>: the plugin's end of the connection to the worker, over the
  transport of \<^verbatim>\<open>VW_Ipc\<close>.  Strings of the client are their characters.  A client whose
  \<open>cl_pipe\<close> is false has a \<^verbatim>\<open>NULL\<close> pipe handle.  Log output is left out.
\<close>

section \<open>State\<close>

definition VW_WORKER_CLIENT_RETRY_COUNT :: nat where "VW_WORKER_CLIENT_RETRY_COUNT = 40"
definition VW_HANDSHAKE_TIMEOUT_US :: int where "VW_HANDSHAKE_TIMEOUT_US = 5 * 1000 * 1000"

record vw_worker_client =
  cl_pipe :: bool
  cl_process :: bool
  cl_net :: ipc_net
  cl_session_id :: bytes
  cl_sequence :: u64
  cl_last_worker_sequence :: u64
  cl_worker_sequence_valid :: bool
  cl_session_active :: bool
  cl_worker_source_active :: bool
  cl_worker_capabilities :: u32
  cl_worker_protocol_minor :: u16
  cl_active_model_id :: bytes
  cl_active_source_url :: bytes
  cl_language :: bytes
  cl_translation_configured :: bool
  cl_translate_enabled :: bool
  cl_translate_source_lang :: bytes
  cl_translate_target_lang :: bytes
  cl_translate_mode :: u8

definition on_net :: "(ipc_net \<Rightarrow> 'a \<times> ipc_net) \<Rightarrow> vw_worker_client \<Rightarrow> 'a \<times> vw_worker_client" where
  "on_net f c = (case f (cl_net c) of (r, n) \<Rightarrow> (r, c\<lparr>cl_net := n\<rparr>))"

section \<open>Receiving\<close>

datatype recv_status = VW_IPC_RECV_OK | VW_IPC_RECV_TIMEOUT | VW_IPC_RECV_FATAL

definition recv_expired :: "bytes \<Rightarrow> recv_status" where
  "recv_expired got = (if got = [] then VW_IPC_RECV_TIMEOUT else VW_IPC_RECV_FATAL)"

function receive_loop :: "nat \<Rightarrow> i64 \<Rightarrow> bytes \<Rightarrow> ipc_net \<Rightarrow> (recv_status \<times> bytes) \<times> ipc_net" where
  "receive_loop len deadline_us got n =
     (if length got \<ge> len then ((VW_IPC_RECV_OK, got), n)
      else case take_clock n of (now_us, n1) \<Rightarrow>
        if now_us < 0 then ((VW_IPC_RECV_FATAL, got), n1)
        else if now_us \<ge> deadline_us then ((recv_expired got, got), n1)
        else (case vw_ipc_receive (len - length got) n1 of
            (Got bs, n2) \<Rightarrow> receive_loop len deadline_us (got @ bs) n2
          | (Got_Fatal, n2) \<Rightarrow> ((VW_IPC_RECV_FATAL, got), n2)
          | (Got_Timeout, n2) \<Rightarrow>
              (case take_clock n2 of (now2_us, n3) \<Rightarrow>
                 if now2_us \<ge> deadline_us then ((recv_expired got, got), n3)
                 else receive_loop len deadline_us got n3)))"
  by pat_completeness auto

termination receive_loop
proof (relation "measure (\<lambda>(_, _, _, n). length (nt_clock n))", goal_cases)
  case (2 len dl got n t n1 r n2 bs)
  then have "take_clock n = (t, n1)" "vw_ipc_receive (len - length got) n1 = (Got bs, n2)" "0 \<le> t"
    by auto
  then show ?case using take_clock_shorter[of n t n1] vw_ipc_receive_laws(1) by fastforce
next
  case (3 len dl got n t n1 r n2 t2 n3)
  then have "take_clock n = (t, n1)" "vw_ipc_receive (len - length got) n1 = (Got_Timeout, n2)" "0 \<le> t"
    "take_clock n2 = (t2, n3)"
    by auto
  then show ?case
    using take_clock_shorter[of n t n1] vw_ipc_receive_laws(1) take_clock_le[of n2 t2 n3] by fastforce
qed simp

declare receive_loop.simps [simp del]

definition receive_all :: "nat \<Rightarrow> i64 \<Rightarrow> ipc_net \<Rightarrow> (recv_status \<times> bytes) \<times> ipc_net" where
  "receive_all len deadline_us n = receive_loop len deadline_us [] n"

definition token_to_hex :: "bytes \<Rightarrow> bytes" where
  "token_to_hex tok = concat (map (\<lambda>b. [ascii ''0123456789abcdef'' ! unat (drop_bit 4 b),
      ascii ''0123456789abcdef'' ! unat (b AND 0x0F)]) tok)"

definition vw_worker_client_make_deadline :: "i64 \<Rightarrow> ipc_net \<Rightarrow> i64 option \<times> ipc_net" where
  "vw_worker_client_make_deadline duration_us n =
     (if duration_us < 0 then (None, n)
      else case take_clock n of (now_us, n) \<Rightarrow>
        if now_us < 0 \<or> duration_us > INT64_MAX - now_us then (None, n) else (Some (now_us + duration_us), n))"

definition vw_worker_client_drop_transport :: "vw_worker_client \<Rightarrow> vw_worker_client" where
  "vw_worker_client_drop_transport c =
     (if cl_pipe c
      then c\<lparr>cl_pipe := False, cl_session_active := False,
             cl_net := (cl_net c)\<lparr>nt_events := nt_events (cl_net c) @ [Pipe_Close]\<rparr>\<rparr>
      else c)"

section \<open>Sending\<close>

text \<open>
  The tail of the sending functions: take the next sequence number, send the header and, if
  that worked, the payload; drop the transport otherwise.
\<close>

definition send_message :: "vw_message_type \<Rightarrow> bytes \<Rightarrow> vw_worker_client \<Rightarrow> bool \<times> vw_worker_client" where
  "send_message type payload c =
     (let c = c\<lparr>cl_sequence := cl_sequence c + 1\<rparr> in
      case vw_protocol_encode_header (Some (frame_header type (length payload) (cl_sequence c))) 20 of
        None \<Rightarrow> (False, c)
      | Some hdr \<Rightarrow>
          (case on_net (send_parts hdr payload) c of (ok, c) \<Rightarrow>
             if ok then (True, c) else (False, vw_worker_client_drop_transport c)))"

text \<open>A control frame: both parts are attempted.\<close>

definition send_control_frame :: "vw_message_type \<Rightarrow> u16 \<Rightarrow> vw_worker_client \<Rightarrow> bool \<times> vw_worker_client" where
  "send_control_frame type reason c =
     (if \<not> cl_pipe c then (False, c)
      else case vw_protocol_encode_payload (msg_code type)
             (Some (P_CONTROL \<lparr>ct_session_id = cl_session_id c, ct_reason = reason\<rparr>)) 64 of
          None \<Rightarrow> (False, c)
        | Some payload \<Rightarrow>
            let c = c\<lparr>cl_sequence := cl_sequence c + 1\<rparr> in
            (case vw_protocol_encode_header (Some (frame_header type (length payload) (cl_sequence c))) 20 of
               None \<Rightarrow> (False, c)
             | Some hdr \<Rightarrow>
                 (case on_net (vw_ipc_send hdr) c of (ok1, c) \<Rightarrow>
                  case on_net (vw_ipc_send payload) c of (ok2, c) \<Rightarrow>
                    if ok1 \<and> ok2 then (True, c) else (False, vw_worker_client_drop_transport c))))"

section \<open>Launching and disconnecting\<close>

definition or_default :: "bytes option \<Rightarrow> bytes \<Rightarrow> bytes" where
  "or_default s d = (case s of Some t \<Rightarrow> if t \<noteq> [] then t else d | None \<Rightarrow> d)"

definition worker_argv :: "bytes \<Rightarrow> bytes \<Rightarrow> bytes \<Rightarrow> bytes option \<Rightarrow> bytes option \<Rightarrow> bytes option \<Rightarrow> int \<Rightarrow> int
    \<Rightarrow> bytes option \<Rightarrow> bool \<Rightarrow> bytes list" where
  "worker_argv executable_path endpoint_name auth_token model_path backend language n_threads gpu_device model_dir
       logging_enabled =
     [executable_path, ascii ''--pipe'', endpoint_name, ascii ''--token'', token_to_hex auth_token]
     @ (case model_path of Some m \<Rightarrow> [ascii ''--model'', m] | None \<Rightarrow> [])
     @ [ascii ''--backend'', or_default backend (ascii ''auto'')]
     @ (if gpu_device \<ge> 0 then [ascii ''--gpu-device'', dec_digits (nat gpu_device)] else [])
     @ [ascii ''--language'', or_default language (ascii ''en''),
        ascii ''--n-threads'', dec_digits (nat (if n_threads < 1 \<or> n_threads > 16 then 4 else n_threads))]
     @ (case model_dir of Some d \<Rightarrow> if d \<noteq> [] then [ascii ''--model-dir'', d] else [] | None \<Rightarrow> [])
     @ (if logging_enabled then [ascii ''--enable-logging''] else [])"

definition log_event :: "resource_event \<Rightarrow> ipc_net \<Rightarrow> ipc_net" where
  "log_event e n = n\<lparr>nt_events := nt_events n @ [e]\<rparr>"

text \<open>Waiting for the process, then terminating it or closing its handle.\<close>

definition end_process :: "nat \<Rightarrow> bool \<Rightarrow> ipc_net \<Rightarrow> ipc_net" where
  "end_process timeout_ms exited n =
     log_event (if exited then Proc_Close else Proc_Terminate) (log_event (Proc_Wait timeout_ms) n)"

definition vw_worker_client_disconnect :: "bool \<Rightarrow> vw_worker_client \<Rightarrow> ipc_net" where
  "vw_worker_client_disconnect exited c =
     (let n = cl_net c;
          n = (if cl_pipe c then log_event Pipe_Close n else n);
          n = (if cl_process c then end_process 5000 exited n else n)
      in log_event Client_Free n)"

definition client_hello :: "bytes \<Rightarrow> vw_msg_hello" where
  "client_hello auth_token = \<lparr>he_min_major = VW_PROTOCOL_VERSION_MAJOR, he_max_major = VW_PROTOCOL_VERSION_MAJOR,
     he_auth_token = auth_token, he_client_version_length = 5, he_client_version = Some (ascii ''1.6.0'')\<rparr>"

definition ack_ok :: "vw_msg_hello_ack \<Rightarrow> bool" where
  "ack_ok ack \<longleftrightarrow> vw_protocol_validate_payload (msg_code VW_MSG_HELLO_ACK) (Some (P_HELLO_ACK ack))
     \<and> ha_selected_major ack = VW_PROTOCOL_VERSION_MAJOR
     \<and> ha_capability_flags ack AND VW_CAPABILITY_PCM_S16LE_16K_MONO \<noteq> 0"

text \<open>Reading the payload a header announces; \<open>None\<close> when it cannot be read in full.\<close>

definition read_body :: "vw_frame_header \<Rightarrow> i64 \<Rightarrow> vw_worker_client \<Rightarrow> bytes option \<times> vw_worker_client" where
  "read_body h deadline_us c =
     (case on_net take_mem c of (mem, c) \<Rightarrow>
        if \<not> mem then (None, c)
        else case on_net (receive_all (unat (fh_payload_length h)) deadline_us) c of ((st, body), c) \<Rightarrow>
          if st = VW_IPC_RECV_OK then (Some body, c) else (None, c))"

definition read_hello_ack :: "i64 \<Rightarrow> vw_worker_client \<Rightarrow> bool \<times> vw_worker_client" where
  "read_hello_ack deadline_us c =
     (case on_net (receive_all 20 deadline_us) c of ((st, hdr), c) \<Rightarrow>
        if st \<noteq> VW_IPC_RECV_OK then (False, c)
        else case vw_protocol_decode_header hdr of
            None \<Rightarrow> (False, c)
          | Some h \<Rightarrow>
              if fh_type h \<noteq> msg_code VW_MSG_HELLO_ACK then (False, c)
              else if fh_payload_length h = 0 \<or> fh_payload_length h > 1024 then (False, c)
              else case read_body h deadline_us c of
                  (None, c) \<Rightarrow> (False, c)
                | (Some body, c) \<Rightarrow>
                    (case vw_protocol_decode_payload (msg_code VW_MSG_HELLO_ACK) body of
                       Some (Some (P_HELLO_ACK ack)) \<Rightarrow>
                         if \<not> ack_ok ack then (False, c)
                         else (fh_major h = VW_PROTOCOL_VERSION_MAJOR,
                               c\<lparr>cl_worker_capabilities := ha_capability_flags ack,
                                 cl_worker_protocol_minor := ha_selected_minor ack\<rparr>)
                     | _ \<Rightarrow> (False, c)))"

definition handshake :: "bytes \<Rightarrow> vw_worker_client \<Rightarrow> bool \<times> vw_worker_client" where
  "handshake auth_token c =
     (case vw_protocol_encode_payload (msg_code VW_MSG_HELLO) (Some (P_HELLO (client_hello auth_token))) 256 of
        None \<Rightarrow> (False, c)
      | Some payload \<Rightarrow>
          (case vw_protocol_encode_header (Some (frame_header VW_MSG_HELLO (length payload) 1)) 20 of
             None \<Rightarrow> (False, c)
           | Some hdr \<Rightarrow>
               (case on_net (send_parts hdr payload) c of (ok, c) \<Rightarrow>
                  if \<not> ok then (False, c)
                  else case on_net (vw_worker_client_make_deadline VW_HANDSHAKE_TIMEOUT_US) c of
                      (None, c) \<Rightarrow> (False, c)
                    | (Some deadline_us, c) \<Rightarrow> read_hello_ack deadline_us c)))"

fun connect_retry :: "nat \<Rightarrow> bool list \<Rightarrow> bool" where
  "connect_retry 0 answers = False"
| "connect_retry (Suc retries) [] = False"
| "connect_retry (Suc retries) (ok # answers) = (if ok then True else connect_retry retries answers)"

definition new_client :: "bool \<Rightarrow> bytes option \<Rightarrow> ipc_net \<Rightarrow> vw_worker_client" where
  "new_client process language n =
     \<lparr>cl_pipe = True, cl_process = process, cl_net = n, cl_session_id = replicate 16 0, cl_sequence = 1,
      cl_last_worker_sequence = 0, cl_worker_sequence_valid = False, cl_session_active = False,
      cl_worker_source_active = False, cl_worker_capabilities = 0, cl_worker_protocol_minor = 0,
      cl_active_model_id = [], cl_active_source_url = [],
      cl_language = snprintf_cut 16 (or_default language (ascii ''en'')),
      cl_translation_configured = False, cl_translate_enabled = False, cl_translate_source_lang = [],
      cl_translate_target_lang = [], cl_translate_mode = 0\<rparr>"

text \<open>
  The platform's answers to a launch: whether the process starts, the outcomes of the
  attempts to connect, and whether the process has ended when it is waited for.
\<close>

record launch_env =
  le_spawn :: bool
  le_connect :: "bool list"
  le_exited :: bool

text \<open>The result is the client, or the transport as the failed launch left it.\<close>

definition vw_worker_client_launch_and_connect_ex ::
  "launch_env \<Rightarrow> ipc_net \<Rightarrow> bytes option \<Rightarrow> bytes \<Rightarrow> bytes \<Rightarrow> bytes option \<Rightarrow> bytes option \<Rightarrow> bytes option
     \<Rightarrow> int \<Rightarrow> int \<Rightarrow> bytes option \<Rightarrow> bool \<Rightarrow> ipc_net + vw_worker_client" where
  "vw_worker_client_launch_and_connect_ex e n executable_path endpoint_name auth_token model_path backend language
       n_threads gpu_device model_dir logging_enabled =
     (let spawned = (executable_path \<noteq> None);
          release = (\<lambda>n. if spawned then end_process 1000 (le_exited e) n else n) in
      if spawned \<and> \<not> le_spawn e then Inl n
      else
        let n = (case executable_path of
                   Some exe \<Rightarrow> log_event (Proc_Spawn (worker_argv exe endpoint_name auth_token model_path backend
                     language n_threads gpu_device model_dir logging_enabled)) n
                 | None \<Rightarrow> n) in
        if \<not> connect_retry VW_WORKER_CLIENT_RETRY_COUNT (le_connect e) then Inl (release n)
        else case take_mem (log_event Pipe_Open n) of (mem, n) \<Rightarrow>
          if \<not> mem then Inl (release (log_event Pipe_Close n))
          else case handshake auth_token (new_client spawned language (log_event Client_Alloc n)) of (ok, c) \<Rightarrow>
            if ok then Inr c else Inl (vw_worker_client_disconnect (le_exited e) c))"

definition vw_worker_client_launch_and_connect ::
  "launch_env \<Rightarrow> ipc_net \<Rightarrow> bytes option \<Rightarrow> bytes \<Rightarrow> bytes \<Rightarrow> bytes option \<Rightarrow> ipc_net + vw_worker_client" where
  "vw_worker_client_launch_and_connect e n executable_path endpoint_name auth_token model_path =
     vw_worker_client_launch_and_connect_ex e n executable_path endpoint_name auth_token model_path
       (Some (ascii ''auto'')) (Some (ascii ''en'')) 4 (- 1) None False"

section \<open>Starting a session\<close>

definition start_message :: "vw_worker_client \<Rightarrow> i64 \<Rightarrow> bytes option \<Rightarrow> bytes option \<Rightarrow> vw_msg_start" where
  "start_message c timeline_origin_pts_us model_id source_url =
     \<lparr>st_session_id = cl_session_id c, st_timeline_origin_pts_us = timeline_origin_pts_us, st_sample_rate = 16000,
      st_channels = 1, st_sample_format = 1,
      st_model_id = nul_pad VW_MAX_MODEL_ID_BYTES (case model_id of Some m \<Rightarrow> m | None \<Rightarrow> []),
      st_language = nul_pad 16 (snprintf_cut 16 (if cl_language c \<noteq> [] then cl_language c else ascii ''en'')),
      st_source_kind = (if source_url \<noteq> None then 1 else 0),
      st_source_url_len = (case source_url of Some u \<Rightarrow> of_nat (length u) | None \<Rightarrow> 0),
      st_source_url = nul_pad VW_MAX_SOURCE_URL_BYTES (case source_url of Some u \<Rightarrow> u | None \<Rightarrow> [])\<rparr>"

definition activate :: "vw_msg_start \<Rightarrow> bool \<Rightarrow> vw_worker_client \<Rightarrow> vw_worker_client" where
  "activate start source_active c =
     c\<lparr>cl_worker_source_active := source_active, cl_session_active := True,
       cl_active_model_id := c_str (st_model_id start), cl_active_source_url := c_str (st_source_url start)\<rparr>"

text \<open>
  One round of the reply loop: \<open>Some\<close> is a return of the function, \<open>None\<close> goes on waiting.
\<close>

definition started_reply :: "i64 \<Rightarrow> vw_msg_start \<Rightarrow> vw_frame_header \<Rightarrow> vw_worker_client \<Rightarrow> bool option \<times> vw_worker_client" where
  "started_reply deadline_us start h c =
     (if cl_worker_sequence_valid c \<and> fh_sequence h \<le> cl_last_worker_sequence c
      then (Some False, vw_worker_client_drop_transport c)
      else
        let c = c\<lparr>cl_last_worker_sequence := fh_sequence h, cl_worker_sequence_valid := True\<rparr>;
            len = unat (fh_payload_length h) in
        if cl_worker_protocol_minor c \<ge> 6 \<and> len \<noteq> VW_MSG_STARTED_PAYLOAD_BYTES
        then (Some False, vw_worker_client_drop_transport c)
        else if len > 0 then
          (case read_body h deadline_us c of
             (None, c) \<Rightarrow> (Some False, vw_worker_client_drop_transport c)
           | (Some body, c) \<Rightarrow>
               (case vw_protocol_decode_payload (msg_code VW_MSG_STARTED) body of
                  Some (Some (P_STARTED m)) \<Rightarrow>
                    if len \<noteq> VW_MSG_STARTED_PAYLOAD_BYTES \<and> len \<noteq> 1
                      \<or> len = VW_MSG_STARTED_PAYLOAD_BYTES \<and> sd_session_id m \<noteq> cl_session_id c
                    then (Some False, vw_worker_client_drop_transport c)
                    else (Some True, activate start (sd_source_active m = 1) c)
                | _ \<Rightarrow> (Some False, vw_worker_client_drop_transport c)))
        else (Some True, activate start False c))"

definition translation_error :: "vw_msg_error \<Rightarrow> bool" where
  "translation_error err \<longleftrightarrow> er_error_code err = E_TRANSLATION_PROVIDER \<or> er_error_code err = E_TRANSLATION_TRANSPORT
     \<or> er_error_code err = E_TRANSLATION_PARSE \<or> er_error_code err = E_TRANSLATION_DEADLINE
     \<or> er_error_code err = E_TRANSLATION_LOCAL"

definition error_reply :: "i64 \<Rightarrow> vw_frame_header \<Rightarrow> vw_worker_client \<Rightarrow> bool option \<times> vw_worker_client" where
  "error_reply deadline_us h c =
     (if fh_payload_length h > 0 then
        (case read_body h deadline_us c of
           (None, c) \<Rightarrow> (Some False, vw_worker_client_drop_transport c)
         | (Some body, c) \<Rightarrow>
             (case vw_protocol_decode_payload (msg_code VW_MSG_ERROR) body of
                Some (Some (P_ERROR err)) \<Rightarrow>
                  if \<not> vw_protocol_validate_payload (msg_code VW_MSG_ERROR) (Some (P_ERROR err))
                  then (Some False, vw_worker_client_drop_transport c)
                  else if translation_error err \<and> er_recoverable err \<noteq> 0 \<and> er_session_id err \<noteq> cl_session_id c
                  then (None, c)
                  else if er_error_code err = E_SOURCE_OPEN \<and> er_recoverable err \<noteq> 0 then (None, c)
                  else (Some False, c)
              | _ \<Rightarrow> (Some False, vw_worker_client_drop_transport c)))
      else (Some False, c))"

definition start_step :: "i64 \<Rightarrow> vw_msg_start \<Rightarrow> vw_worker_client \<Rightarrow> bool option \<times> vw_worker_client" where
  "start_step deadline_us start c =
     (case on_net (receive_all 20 deadline_us) c of ((st, hdr), c) \<Rightarrow>
        if st \<noteq> VW_IPC_RECV_OK then (Some False, vw_worker_client_drop_transport c)
        else case vw_protocol_decode_header hdr of
            None \<Rightarrow> (Some False, vw_worker_client_drop_transport c)
          | Some h \<Rightarrow>
              if fh_type h = msg_code VW_MSG_STARTED then started_reply deadline_us start h c
              else if fh_type h = msg_code VW_MSG_ERROR then error_reply deadline_us h c
              else if fh_payload_length h > 0 then
                (case read_body h deadline_us c of
                   (None, c) \<Rightarrow> (Some False, vw_worker_client_drop_transport c)
                 | (Some _, c) \<Rightarrow> (None, c))
              else (None, c))"

text \<open>Receiving consumes a prefix of the stream and changes nothing else but the tapes.\<close>

lemma receive_loop_laws:
  assumes "receive_loop len dl got n = ((st, out), n')" "length got \<le> len"
  shows "(\<exists>bs. out = got @ bs \<and> nt_in n = bs @ nt_in n') \<and> length out \<le> len
    \<and> (st = VW_IPC_RECV_OK \<longleftrightarrow> length out = len) \<and> (st = VW_IPC_RECV_TIMEOUT \<longrightarrow> out = [])
    \<and> nt_sent n' = nt_sent n \<and> nt_events n' = nt_events n \<and> length (nt_clock n') \<le> length (nt_clock n)
    \<and> (st = VW_IPC_RECV_OK \<and> length got < len \<longrightarrow> length (nt_clock n') < length (nt_clock n))"
  using assms
proof (induction len dl got n arbitrary: st out n' rule: receive_loop.induct)
  case (1 len dl got n)
  show ?case
  proof (cases "length got \<ge> len")
    case True
    with "1.prems" show ?thesis by (auto simp: receive_loop.simps[of len dl got n])
  next
    case False
    obtain t n1 where t: "take_clock n = (t, n1)" by fastforce
    note tl = take_clock_simps[of n, unfolded t, simplified] take_clock_le[OF t]
    show ?thesis
    proof (cases "t < 0 \<or> t \<ge> dl")
      case True
      with "1.prems" False t tl show ?thesis
        by (auto simp: receive_loop.simps[of len dl got n] recv_expired_def split: if_splits)
    next
      case run: False
      then have lt: "length (nt_clock n1) < length (nt_clock n)" using take_clock_shorter[OF t] by simp
      obtain r n2 where r: "vw_ipc_receive (len - length got) n1 = (r, n2)" by fastforce
      note rl = vw_ipc_receive_laws[OF r]
      show ?thesis
      proof (cases r)
        case (Got bs)
        have eq: "receive_loop len dl (got @ bs) n2 = ((st, out), n')"
          using "1.prems"(1) False run t r Got by (simp add: receive_loop.simps[of len dl got n])
        have "length (got @ bs) \<le> len" using rl(4) Got False by auto
        from "1.IH"(1)[OF False t[symmetric] _ _ r[symmetric] Got eq this] run rl Got tl lt
        show ?thesis by auto
      next
        case Got_Timeout
        obtain t2 n3 where t2: "take_clock n2 = (t2, n3)" by fastforce
        note t2l = take_clock_simps[of n2, unfolded t2, simplified] take_clock_le[OF t2]
        show ?thesis
        proof (cases "t2 \<ge> dl")
          case True
          with "1.prems" False run t r Got_Timeout t2 tl t2l rl lt show ?thesis
            by (auto simp: receive_loop.simps[of len dl got n] recv_expired_def split: if_splits)
        next
          case F: False
          have eq: "receive_loop len dl got n3 = ((st, out), n')"
            using "1.prems"(1) False run t r Got_Timeout t2 F by (simp add: receive_loop.simps[of len dl got n])
          from "1.IH"(2)[OF False t[symmetric] _ _ r[symmetric] Got_Timeout t2[symmetric] F eq] run rl Got_Timeout tl lt t2l False
          show ?thesis by auto
        qed
      next
        case Got_Fatal
        with "1.prems" False run t r tl rl lt show ?thesis
          by (auto simp: receive_loop.simps[of len dl got n])
      qed
    qed
  qed
qed

lemma receive_all_laws:
  assumes "receive_all len dl n = ((st, out), n')"
  shows "nt_in n = out @ nt_in n'" "st = VW_IPC_RECV_OK \<longleftrightarrow> length out = len" "st = VW_IPC_RECV_TIMEOUT \<Longrightarrow> out = []"
    "nt_sent n' = nt_sent n" "nt_events n' = nt_events n" "length (nt_clock n') \<le> length (nt_clock n)"
    "st = VW_IPC_RECV_OK \<Longrightarrow> 0 < len \<Longrightarrow> length (nt_clock n') < length (nt_clock n)"
  using receive_loop_laws[of len dl "[]" n st out n'] assms by (auto simp: receive_all_def)

text \<open>
  \<open>still c c'\<close>: a step that sends nothing and keeps the identity of the session, the
  negotiated peer and the settings; it may close the pipe but not reopen it.
\<close>

definition clk :: "vw_worker_client \<Rightarrow> nat" where
  "clk c = length (nt_clock (cl_net c))"

text \<open>The pipe is closed at most once, and every closing is recorded.\<close>

definition pipe_once :: "vw_worker_client \<Rightarrow> vw_worker_client \<Rightarrow> bool" where
  "pipe_once c c' \<longleftrightarrow> (if cl_pipe c' = cl_pipe c then nt_events (cl_net c') = nt_events (cl_net c)
     else cl_pipe c \<and> nt_events (cl_net c') = nt_events (cl_net c) @ [Pipe_Close])"

lemma pipe_once_trans: "pipe_once a b \<Longrightarrow> pipe_once b c \<Longrightarrow> pipe_once a c"
  by (auto simp: pipe_once_def split: if_splits)

definition still :: "vw_worker_client \<Rightarrow> vw_worker_client \<Rightarrow> bool" where
  "still c c' \<longleftrightarrow> nt_sent (cl_net c') = nt_sent (cl_net c) \<and> cl_sequence c' = cl_sequence c
     \<and> (cl_pipe c' \<longrightarrow> cl_pipe c) \<and> cl_session_id c' = cl_session_id c \<and> cl_language c' = cl_language c
     \<and> cl_translation_configured c' = cl_translation_configured c \<and> cl_translate_enabled c' = cl_translate_enabled c
     \<and> cl_translate_source_lang c' = cl_translate_source_lang c
     \<and> cl_translate_target_lang c' = cl_translate_target_lang c \<and> cl_translate_mode c' = cl_translate_mode c
     \<and> cl_worker_capabilities c' = cl_worker_capabilities c
     \<and> cl_worker_protocol_minor c' = cl_worker_protocol_minor c \<and> cl_process c' = cl_process c \<and> clk c' \<le> clk c
     \<and> pipe_once c c'"

text \<open>\<open>quiet c c' bs\<close>: only the transport changed, by consuming \<open>bs\<close>.\<close>

definition quiet :: "vw_worker_client \<Rightarrow> vw_worker_client \<Rightarrow> bytes \<Rightarrow> bool" where
  "quiet c c' bs \<longleftrightarrow> c' = c\<lparr>cl_net := cl_net c'\<rparr> \<and> nt_in (cl_net c) = bs @ nt_in (cl_net c')
     \<and> nt_sent (cl_net c') = nt_sent (cl_net c) \<and> nt_events (cl_net c') = nt_events (cl_net c) \<and> clk c' \<le> clk c"

lemma still_refl [simp, intro]: "still c c"
  by (simp add: still_def pipe_once_def)

lemma still_trans: "still a b \<Longrightarrow> still b c \<Longrightarrow> still a c"
  by (auto simp: still_def intro: pipe_once_trans)

lemma quiet_fields:
  assumes "quiet c c' bs"
  shows "cl_pipe c' = cl_pipe c" "cl_session_id c' = cl_session_id c" "cl_sequence c' = cl_sequence c"
    "cl_last_worker_sequence c' = cl_last_worker_sequence c" "cl_worker_sequence_valid c' = cl_worker_sequence_valid c"
    "cl_session_active c' = cl_session_active c" "cl_worker_source_active c' = cl_worker_source_active c"
    "cl_worker_protocol_minor c' = cl_worker_protocol_minor c" "cl_active_model_id c' = cl_active_model_id c"
    "cl_active_source_url c' = cl_active_source_url c"
  using assms unfolding quiet_def by (cases c; cases c'; simp)+

lemma quiet_still: "quiet c c' bs \<Longrightarrow> still c c'"
  unfolding quiet_def still_def pipe_once_def by (cases c; cases c') auto

lemma quiet_trans: "quiet a b xs \<Longrightarrow> quiet b c ys \<Longrightarrow> quiet a c (xs @ ys)"
  unfolding quiet_def by (cases a; cases b; cases c) auto

lemma on_net_quiet:
  assumes "on_net f c = (r, c')" "nt_in (cl_net c) = bs @ nt_in (snd (f (cl_net c)))"
    "nt_sent (snd (f (cl_net c))) = nt_sent (cl_net c)" "nt_events (snd (f (cl_net c))) = nt_events (cl_net c)"
    "length (nt_clock (snd (f (cl_net c)))) \<le> length (nt_clock (cl_net c))"
  shows "quiet c c' bs" "r = fst (f (cl_net c))"
  using assms by (auto simp: on_net_def quiet_def clk_def split: prod.splits)

lemma quiet_mem: "on_net take_mem c = (r, c') \<Longrightarrow> quiet c c' []"
  by (rule on_net_quiet(1)) (auto simp: take_mem_def split: list.splits)

lemma quiet_clock: "on_net take_clock c = (r, c') \<Longrightarrow> quiet c c' []"
  by (rule on_net_quiet(1)) (auto simp: take_clock_def split: list.splits)

lemma quiet_random: "on_net (take_random k) c = (r, c') \<Longrightarrow> quiet c c' []"
  by (rule on_net_quiet(1)) (auto simp: take_random_def split: list.splits)

lemma quiet_deadline: "on_net (vw_worker_client_make_deadline d) c = (r, c') \<Longrightarrow> quiet c c' []"
  by (rule on_net_quiet(1))
    (auto simp: vw_worker_client_make_deadline_def take_clock_def split: list.splits prod.splits)

lemma quiet_receive:
  assumes "on_net (receive_all len dl) c = ((st, out), c')"
  shows "quiet c c' out" "st = VW_IPC_RECV_OK \<longleftrightarrow> length out = len" "st = VW_IPC_RECV_TIMEOUT \<Longrightarrow> out = []"
    "st = VW_IPC_RECV_OK \<Longrightarrow> 0 < len \<Longrightarrow> clk c' < clk c"
proof -
  obtain n' where n: "receive_all len dl (cl_net c) = ((st, out), n')" "c' = c\<lparr>cl_net := n'\<rparr>"
    using assms by (auto simp: on_net_def split: prod.splits)
  note l = receive_all_laws[OF n(1)]
  show "quiet c c' out" using l n(2) by (auto simp: quiet_def clk_def)
  show "st = VW_IPC_RECV_OK \<longleftrightarrow> length out = len" by (rule l(2))
  show "st = VW_IPC_RECV_TIMEOUT \<Longrightarrow> out = []" by (rule l(3))
  show "st = VW_IPC_RECV_OK \<Longrightarrow> 0 < len \<Longrightarrow> clk c' < clk c" using l(7) n(2) by (simp add: clk_def)
qed

lemma read_body_laws:
  assumes "read_body h dl c = (r, c')"
  shows "\<exists>bs. quiet c c' bs \<and> (case r of Some body \<Rightarrow> body = bs \<and> length body = unat (fh_payload_length h) | None \<Rightarrow> True)"
proof -
  obtain m c1 where m: "on_net take_mem c = (m, c1)" by fastforce
  obtain st out c2 where rc: "on_net (receive_all (unat (fh_payload_length h)) dl) c1 = ((st, out), c2)"
    by (metis surj_pair)
  show ?thesis
    using assms m rc quiet_mem[OF m] quiet_receive[OF rc] quiet_trans[OF quiet_mem[OF m] quiet_receive(1)[OF rc]]
    by (auto simp: read_body_def split: if_splits)
qed

lemma drop_still [simp, intro]: "still c (vw_worker_client_drop_transport c)"
  by (simp add: vw_worker_client_drop_transport_def still_def clk_def pipe_once_def)

lemma drop_fields [simp]:
  "cl_pipe (vw_worker_client_drop_transport c) = False"
  "cl_pipe c \<Longrightarrow> cl_session_active (vw_worker_client_drop_transport c) = False"
  by (simp_all add: vw_worker_client_drop_transport_def)

lemma still_activate [simp, intro]: "still c (activate st a c)"
  by (simp add: activate_def still_def clk_def pipe_once_def)

abbreviation noted :: "vw_frame_header \<Rightarrow> vw_worker_client \<Rightarrow> vw_worker_client" where
  "noted h c \<equiv> c\<lparr>cl_last_worker_sequence := fh_sequence h, cl_worker_sequence_valid := True\<rparr>"

lemma quiet_noted: "quiet c c' bs \<Longrightarrow> quiet (noted h c) (noted h c') bs"
  unfolding quiet_def clk_def by (cases c; cases c') auto

lemma still_noted [simp, intro]: "still c (noted h c)"
  by (simp add: still_def clk_def pipe_once_def)

text \<open>When a \<^verbatim>\<open>STARTED\<close> payload confirms the session of the client.\<close>

definition confirms :: "bytes \<Rightarrow> vw_worker_client \<Rightarrow> bool \<Rightarrow> bool" where
  "confirms bs c source_active \<longleftrightarrow>
     (if bs = [] then \<not> source_active
      else \<exists>m. vw_protocol_decode_payload (msg_code VW_MSG_STARTED) bs = Some (Some (P_STARTED m))
        \<and> source_active = (sd_source_active m = 1)
        \<and> (length bs = VW_MSG_STARTED_PAYLOAD_BYTES \<and> sd_session_id m = cl_session_id c \<or> length bs = 1))"

lemma started_reply_cases:
  assumes "started_reply dl st h c = (r, c')"
  obtains (lost) c1 where "still c c1" "cl_pipe c1 = cl_pipe c" "r = Some False" "c' = vw_worker_client_drop_transport c1"
  | (started) c1 bs a where "quiet (noted h c) c1 bs" "length bs = unat (fh_payload_length h)" "r = Some True"
      "c' = activate st a c1" "cl_worker_sequence_valid c \<Longrightarrow> cl_last_worker_sequence c < fh_sequence h"
      "cl_worker_protocol_minor c \<ge> 6 \<Longrightarrow> length bs = VW_MSG_STARTED_PAYLOAD_BYTES" "confirms bs c a"
proof -
  let ?len = "unat (fh_payload_length h)"
  obtain b c1 where b: "read_body h dl (noted h c) = (b, c1)" by fastforce
  from read_body_laws[OF b] obtain bs where bs: "quiet (noted h c) c1 bs"
    "case b of Some body \<Rightarrow> body = bs \<and> length body = ?len | None \<Rightarrow> True" by blast
  have s1: "still c c1" using still_trans[OF still_noted quiet_still[OF bs(1)]] .
  have p1: "cl_pipe c1 = cl_pipe c" "cl_session_id c1 = cl_session_id c" using quiet_fields(1,2)[OF bs(1)] by simp_all
  show thesis
  proof (cases "cl_worker_sequence_valid c \<and> fh_sequence h \<le> cl_last_worker_sequence c
      \<or> cl_worker_protocol_minor c \<ge> 6 \<and> ?len \<noteq> VW_MSG_STARTED_PAYLOAD_BYTES")
    case True
    then have "r = Some False \<and> (c' = vw_worker_client_drop_transport c \<or> c' = vw_worker_client_drop_transport (noted h c))"
      using assms
      by (cases "cl_worker_sequence_valid c \<and> fh_sequence h \<le> cl_last_worker_sequence c")
        (auto simp: started_reply_def Let_def)
    then show thesis using lost[of c] lost[of "noted h c"] still_noted by auto
  next
    case F: False
    show thesis
    proof (cases "?len > 0")
      case True
      show thesis
      proof (cases "\<exists>m. b = Some bs \<and> vw_protocol_decode_payload (msg_code VW_MSG_STARTED) bs = Some (Some (P_STARTED m))
          \<and> (?len = VW_MSG_STARTED_PAYLOAD_BYTES \<and> sd_session_id m = cl_session_id c \<or> ?len = 1)")
        case ok: True
        then obtain m where m: "b = Some bs" "vw_protocol_decode_payload (msg_code VW_MSG_STARTED) bs = Some (Some (P_STARTED m))"
          "?len = VW_MSG_STARTED_PAYLOAD_BYTES \<and> sd_session_id m = cl_session_id c \<or> ?len = 1" by blast
        have "r = Some True" "c' = activate st (sd_source_active m = 1) c1"
          using assms F True b m p1 by (auto simp: started_reply_def Let_def vw_limits)
        moreover have "confirms bs c (sd_source_active m = 1)"
          using m bs(2) True by (auto simp: confirms_def)
        ultimately show thesis using started[OF bs(1), of "sd_source_active m = 1"] F m(1) bs(2) by auto
      next
        case False
        then have "r = Some False" "c' = vw_worker_client_drop_transport c1"
          using assms F True b p1 bs(2)
          by (auto simp: started_reply_def Let_def split: option.splits vw_payload.splits if_splits)
        then show thesis using lost[OF s1] p1 by blast
      qed
    next
      case False
      have "r = Some True" "c' = activate st False (noted h c)"
        using assms F False by (auto simp: started_reply_def Let_def)
      moreover have "quiet (noted h c) (noted h c) []" by (simp add: quiet_def)
      moreover have "confirms [] c False" by (simp add: confirms_def)
      ultimately show thesis using started[of "noted h c" "[]" False] F False by auto
    qed
  qed
qed

lemma start_step_cases:
  assumes "start_step dl st c = (r, c')"
  obtains (lost) c1 where "still c c1" "cl_pipe c1 = cl_pipe c" "r = Some False" "c' = vw_worker_client_drop_transport c1"
  | (skip) h bs where "quiet c c' (header_image h @ bs)" "vw_protocol_validate_header (Some h)"
      "length bs = unat (fh_payload_length h)" "r = None" "clk c' < clk c"
  | (refused) h bs where "quiet c c' (header_image h @ bs)" "vw_protocol_validate_header (Some h)"
      "length bs = unat (fh_payload_length h)" "r = Some False" "fh_type h = msg_code VW_MSG_ERROR"
  | (started) h c1 bs a where "quiet (noted h c) c1 (header_image h @ bs)" "vw_protocol_validate_header (Some h)"
      "fh_type h = msg_code VW_MSG_STARTED"
      "length bs = unat (fh_payload_length h)" "r = Some True" "c' = activate st a c1"
      "cl_worker_sequence_valid c \<Longrightarrow> cl_last_worker_sequence c < fh_sequence h"
      "cl_worker_protocol_minor c \<ge> 6 \<Longrightarrow> length bs = VW_MSG_STARTED_PAYLOAD_BYTES" "confirms bs c a"
proof -
  obtain s out c1 where rc: "on_net (receive_all 20 dl) c = ((s, out), c1)" by (metis surj_pair)
  note q = quiet_receive[OF rc]
  note f = quiet_fields[OF q(1)]
  have l1: thesis if "r = Some False" "c' = vw_worker_client_drop_transport c2" "still c1 c2" "cl_pipe c2 = cl_pipe c1" for c2
    using that lost[OF still_trans[OF quiet_still[OF q(1)] that(3)]] f(1) by simp
  show thesis
  proof (cases "s = VW_IPC_RECV_OK \<and> vw_protocol_decode_header out \<noteq> None")
    case True
    then obtain h where h: "vw_protocol_decode_header out = Some h" and ok: "s = VW_IPC_RECV_OK" by blast
    have lt: "clk c1 < clk c" using q(4) ok by simp
    have len: "length out = 20" using q(2) ok by simp
    have v: "vw_protocol_validate_header (Some h)" and img: "out = header_image h"
      using h len by (auto simp: vw_protocol_decode_header_def Let_def header_image_of_bytes split: if_splits)
    show thesis
    proof (cases "fh_type h = msg_code VW_MSG_STARTED")
      case T: True
      then have sr: "started_reply dl st h c1 = (r, c')" using assms rc ok h by (simp add: start_step_def)
      then show thesis
      proof (cases rule: started_reply_cases)
        case (lost c2)
        then show thesis using l1 by blast
      next
        case (started c2 bs a)
        have "quiet (noted h c) c2 (header_image h @ bs)"
          using quiet_trans[OF quiet_noted[OF q(1)] started(1)] img by simp
        moreover have "confirms bs c a" using started(7) by (simp only: confirms_def f(2))
        ultimately show thesis using that(4)[of h c2 bs a] started(2-6) v T f by simp
      qed
    next
      case NT: False
      obtain b c2 where b: "read_body h dl c1 = (b, c2)" by fastforce
      from read_body_laws[OF b] obtain bs where bs: "quiet c1 c2 bs"
        "case b of Some body \<Rightarrow> body = bs \<and> length body = unat (fh_payload_length h) | None \<Rightarrow> True" by blast
      have q2: "quiet c c2 (header_image h @ bs)" using quiet_trans[OF q(1) bs(1)] img by simp
      have lt2: "clk c2 < clk c" using bs(1) lt by (simp add: quiet_def)
      have q1: "quiet c c1 (header_image h @ [])" using q(1) img by simp
      have d: thesis if "r = Some False" "c' = vw_worker_client_drop_transport c2"
        using that l1[of c2] quiet_still[OF bs(1)] quiet_fields(1)[OF bs(1)] by simp
      have z: "length ([] :: bytes) = unat (fh_payload_length h)" if "\<not> fh_payload_length h > 0"
        using that by (simp add: word_gt_0)
      show thesis
      proof (cases "fh_type h = msg_code VW_MSG_ERROR")
        case E: True
        have er: "error_reply dl h c1 = (r, c')" using assms rc ok h E NT by (simp add: start_step_def)
        have "r = Some False \<and> c' = vw_worker_client_drop_transport c2 \<or> (r = None \<or> r = Some False) \<and> c' = c2 \<and> b = Some bs"
          if "fh_payload_length h > 0"
          using er that b bs(2) by (auto simp: error_reply_def split: option.splits vw_payload.splits if_splits)
        moreover have "r = Some False \<and> c' = c1" if "\<not> fh_payload_length h > 0"
          using er that by (simp add: error_reply_def)
        ultimately show thesis
          using d skip[OF _ v] refused[OF _ v] q1 q2 z lt2 bs(2) E by (cases "fh_payload_length h > 0") auto
      next
        case E: False
        have ss: "(if fh_payload_length h > 0 then
            (case read_body h dl c1 of (None, c) \<Rightarrow> (Some False, vw_worker_client_drop_transport c) | (Some _, c) \<Rightarrow> (None, c))
          else (None, c1)) = (r, c')"
          using assms rc ok h E NT by (simp add: start_step_def)
        show thesis
        proof (cases "fh_payload_length h > 0")
          case True
          then have "r = Some False \<and> c' = vw_worker_client_drop_transport c2 \<or> r = None \<and> c' = c2 \<and> b = Some bs"
            using ss b bs(2) by (auto split: option.splits)
          then show thesis using d skip[OF _ v] q2 lt2 bs(2) by auto
        next
          case False
          then have "r = None" "c' = c1" using ss by simp_all
          then show thesis using skip[OF _ v z[OF False]] q1 lt by simp
        qed
      qed
    qed
  next
    case False
    then show thesis
      using assms rc l1[of c1] by (auto simp: start_step_def split: if_splits option.splits)
  qed
qed

lemma start_step_still:
  assumes "start_step dl st c = (r, c')"
  shows "still c c'" "r = None \<Longrightarrow> clk c' < clk c"
proof -
  from assms show "still c c'"
    by (cases rule: start_step_cases)
      (use still_trans drop_still quiet_still still_activate still_noted in blast)+
  from assms show "r = None \<Longrightarrow> clk c' < clk c" by (cases rule: start_step_cases) auto
qed

function start_loop :: "i64 \<Rightarrow> vw_msg_start \<Rightarrow> vw_worker_client \<Rightarrow> bool \<times> vw_worker_client" where
  "start_loop deadline_us start c =
     (case on_net take_clock c of (now_us, c1) \<Rightarrow>
        if now_us < deadline_us then
          (case start_step deadline_us start c1 of
             (Some r, c2) \<Rightarrow> (r, c2)
           | (None, c2) \<Rightarrow> start_loop deadline_us start c2)
        else (False, vw_worker_client_drop_transport c1))"
  by pat_completeness auto

termination start_loop
proof (relation "measure (\<lambda>(_, _, c). clk c)", goal_cases)
  case (2 dl st c t c1 r c2)
  then have "clk c2 < clk c1" "quiet c c1 []"
    using start_step_still(2)[of dl st c1 None c2] quiet_clock[of c t c1] by auto
  then show ?case by (simp add: quiet_def)
qed simp

declare start_loop.simps [simp del]

definition vw_worker_client_start_session ::
  "vw_worker_client \<Rightarrow> i64 \<Rightarrow> bytes option \<Rightarrow> bytes option \<Rightarrow> bool \<times> vw_worker_client" where
  "vw_worker_client_start_session c timeline_origin_pts_us model_id source_url =
     (if \<not> cl_pipe c then (False, c)
      else if (case model_id of Some m \<Rightarrow> length m \<ge> VW_MAX_MODEL_ID_BYTES | None \<Rightarrow> False) then (False, c)
      else
        let c = c\<lparr>cl_session_active := False, cl_worker_source_active := False\<rparr> in
        case on_net (take_random VW_SESSION_ID_BYTES) c of
          (None, c) \<Rightarrow> (False, c)
        | (Some sid, c) \<Rightarrow>
            let c = c\<lparr>cl_session_id := sid\<rparr>;
                start = start_message c timeline_origin_pts_us model_id source_url in
            if (case source_url of Some u \<Rightarrow> length u \<ge> VW_MAX_SOURCE_URL_BYTES | None \<Rightarrow> False) then (False, c)
            else
              (case vw_protocol_encode_payload (msg_code VW_MSG_START_SESSION) (Some (P_START start)) 2048 of
                 None \<Rightarrow> (False, c)
               | Some payload \<Rightarrow>
                   (case send_message VW_MSG_START_SESSION payload c of (ok, c) \<Rightarrow>
                      if \<not> ok then (False, c)
                      else case on_net (vw_worker_client_make_deadline 5000000) c of
                          (None, c) \<Rightarrow> (False, c)
                        | (Some deadline_us, c) \<Rightarrow> start_loop deadline_us start c)))"

section \<open>Sending during a session\<close>

text \<open>
  The rate is the bit pattern of a \<^verbatim>\<open>float\<close>: values that are not positive, and NaN, become 1;
  the rest is clamped to 0.05 and 16.
\<close>

definition effective_rate :: "u32 \<Rightarrow> u32" where
  "effective_rate playback_rate =
     (let eff_rate = (if \<not> f32_nan playback_rate \<and> \<not> f32_sign playback_rate
                          \<and> (f32_exp playback_rate \<noteq> 0 \<or> f32_man playback_rate \<noteq> 0)
                      then playback_rate else 0x3F800000) in
      if f32_finite eff_rate \<and> f32_val eff_rate < f32_val 0x3D4CCCCD then 0x3D4CCCCD
      else if \<not> f32_finite eff_rate \<or> f32_val eff_rate > 16 then 0x41800000
      else eff_rate)"

definition vw_worker_client_send_position_frame ::
  "vw_worker_client \<Rightarrow> i64 \<Rightarrow> i64 \<Rightarrow> u32 \<Rightarrow> u32 \<Rightarrow> bool \<times> vw_worker_client" where
  "vw_worker_client_send_position_frame c current_pts_us input_time_us playback_rate flags =
     (case vw_protocol_encode_payload (msg_code VW_MSG_POSITION)
         (Some (P_POSITION \<lparr>po_session_id = cl_session_id c, po_current_pts_us = current_pts_us,
            po_input_time_us = input_time_us, po_playback_rate = effective_rate playback_rate, po_flags = flags\<rparr>)) 64 of
        None \<Rightarrow> (False, c)
      | Some payload \<Rightarrow> send_message VW_MSG_POSITION payload c)"

definition translate_ctrl_message :: "vw_worker_client \<Rightarrow> bool \<Rightarrow> bytes option \<Rightarrow> bytes option \<Rightarrow> u8 \<Rightarrow> vw_msg_translate_ctrl" where
  "translate_ctrl_message c enabled source_lang target_lang mode =
     \<lparr>tc_session_id = cl_session_id c, tc_enabled = (if enabled then 1 else 0),
      tc_source_lang = nul_pad 16 (snprintf_cut 16 (case source_lang of Some s \<Rightarrow> s | None \<Rightarrow> ascii ''auto'')),
      tc_target_lang = nul_pad 16 (snprintf_cut 16 (case target_lang of Some s \<Rightarrow> s | None \<Rightarrow> ascii ''en'')),
      tc_mode = mode\<rparr>"

definition remember_translation :: "bool \<Rightarrow> bytes option \<Rightarrow> bytes option \<Rightarrow> u8 \<Rightarrow> vw_worker_client \<Rightarrow> vw_worker_client" where
  "remember_translation enabled source_lang target_lang mode c =
     c\<lparr>cl_translation_configured := True, cl_translate_enabled := enabled,
       cl_translate_source_lang := snprintf_cut 16 (case source_lang of Some s \<Rightarrow> s | None \<Rightarrow> ascii ''auto''),
       cl_translate_target_lang := snprintf_cut 16 (case target_lang of Some s \<Rightarrow> s | None \<Rightarrow> ascii ''en''),
       cl_translate_mode := mode\<rparr>"

definition vw_worker_client_send_translate_ctrl ::
  "vw_worker_client \<Rightarrow> bool \<Rightarrow> bytes option \<Rightarrow> bytes option \<Rightarrow> u8 \<Rightarrow> bool \<times> vw_worker_client" where
  "vw_worker_client_send_translate_ctrl c enabled source_lang target_lang mode =
     (if \<not> cl_pipe c then (False, c)
      else if cl_worker_capabilities c AND VW_CAPABILITY_TRANSLATION = 0 then
        (\<not> enabled, if \<not> enabled then remember_translation False source_lang target_lang mode c else c)
      else
        case vw_protocol_encode_payload (msg_code VW_MSG_TRANSLATE_CTRL)
            (Some (P_TRANSLATE_CTRL (translate_ctrl_message c enabled source_lang target_lang mode)))
            VW_MSG_TRANSLATE_CTRL_PAYLOAD_BYTES of
          None \<Rightarrow> (False, c)
        | Some payload \<Rightarrow>
            (case send_message VW_MSG_TRANSLATE_CTRL payload c of (ok, c) \<Rightarrow>
               if \<not> ok then (False, c)
               else (True, remember_translation enabled source_lang target_lang mode c)))"

text \<open>A seek in source mode: stop the session, start a new one, restore the translation settings.\<close>

definition restart_epoch :: "vw_worker_client \<Rightarrow> i64 \<Rightarrow> bool \<times> vw_worker_client" where
  "restart_epoch c current_pts_us =
     (let model_id = cl_active_model_id c; source_url = cl_active_source_url c;
          configured = cl_translation_configured c; enabled = cl_translate_enabled c;
          source_lang = cl_translate_source_lang c; target_lang = cl_translate_target_lang c;
          mode = cl_translate_mode c in
      case send_control_frame VW_MSG_STOP_SESSION VW_CTRL_REASON_SEEK_DISCONTINUITY c of (ok, c) \<Rightarrow>
        if \<not> ok then (False, c)
        else
          let c = c\<lparr>cl_session_active := False, cl_worker_source_active := False\<rparr> in
          case vw_worker_client_start_session c current_pts_us
              (if model_id \<noteq> [] then Some model_id else None) (Some source_url) of (ok, c) \<Rightarrow>
            if \<not> ok then (False, c)
            else if \<not> cl_worker_source_active c then (False, vw_worker_client_drop_transport c)
            else if configured \<and> cl_worker_capabilities c AND VW_CAPABILITY_TRANSLATION \<noteq> 0 then
              vw_worker_client_send_translate_ctrl c enabled (Some source_lang) (Some target_lang) mode
            else (True, c))"

definition vw_worker_client_send_position ::
  "vw_worker_client \<Rightarrow> i64 \<Rightarrow> i64 \<Rightarrow> u32 \<Rightarrow> u32 \<Rightarrow> bool \<times> vw_worker_client" where
  "vw_worker_client_send_position c current_pts_us input_time_us playback_rate flags =
     (if \<not> cl_pipe c \<or> \<not> cl_session_active c then (False, c)
      else if flags AND VW_POSITION_FLAG_SEEK \<noteq> 0 \<and> cl_worker_source_active c \<and> cl_active_source_url c \<noteq> [] then
        (case restart_epoch c current_pts_us of (ok, c) \<Rightarrow>
           if \<not> ok then (False, c)
           else vw_worker_client_send_position_frame c current_pts_us input_time_us playback_rate
                  (flags AND NOT VW_POSITION_FLAG_SEEK))
      else vw_worker_client_send_position_frame c current_pts_us input_time_us playback_rate flags)"

definition pcm_image :: "int list \<Rightarrow> bytes" where
  "pcm_image samples = concat (map (\<lambda>s. le_bytes 2 (nat (s mod 65536))) samples)"

definition vw_worker_client_send_audio :: "vw_worker_client \<Rightarrow> vw_audio_chunk \<Rightarrow> bool \<times> vw_worker_client" where
  "vw_worker_client_send_audio c chunk =
     (if \<not> cl_pipe c \<or> \<not> cl_session_active c then (False, c)
      else case vw_protocol_encode_payload (msg_code VW_MSG_AUDIO_PCM)
          (Some (P_AUDIO \<lparr>au_session_id = cl_session_id c, au_start_pts_us = ch_start_pts_us chunk,
             au_duration_us = ch_duration_us chunk, au_pcm_bytes = ch_bytes chunk,
             au_pcm_data = Some (pcm_image (ch_pcm chunk))\<rparr>)) (2 * 16384) of
          None \<Rightarrow> (False, c)
        | Some payload \<Rightarrow> send_message VW_MSG_AUDIO_PCM payload c)"

definition vw_worker_client_send_model_ctrl ::
  "vw_worker_client \<Rightarrow> u8 \<Rightarrow> bytes option \<Rightarrow> bool \<times> vw_worker_client" where
  "vw_worker_client_send_model_ctrl c action model_id =
     (if \<not> cl_pipe c then (False, c)
      else if (case model_id of Some m \<Rightarrow> length m \<ge> 32 | None \<Rightarrow> False) then (False, c)
      else case vw_protocol_encode_payload (msg_code VW_MSG_MODEL_CTRL)
          (Some (P_MODEL_CTRL \<lparr>mc_session_id = replicate VW_SESSION_ID_BYTES 0, mc_action = action,
             mc_model_id = nul_pad 32 (case model_id of Some m \<Rightarrow> m | None \<Rightarrow> [])\<rparr>)) 128 of
          None \<Rightarrow> (False, c)
        | Some payload \<Rightarrow> send_message VW_MSG_MODEL_CTRL payload c)"

definition vw_worker_client_stop_session :: "vw_worker_client \<Rightarrow> u16 \<Rightarrow> vw_worker_client" where
  "vw_worker_client_stop_session c reason =
     (if \<not> cl_pipe c \<or> \<not> cl_session_active c then c
      else case send_control_frame VW_MSG_STOP_SESSION (if reason = 0 then VW_CTRL_REASON_USER_STOP else reason) c of
          (ok, c) \<Rightarrow> if ok then c\<lparr>cl_session_active := False\<rparr> else c)"

definition vw_worker_client_pause_session :: "vw_worker_client \<Rightarrow> vw_worker_client" where
  "vw_worker_client_pause_session c =
     (if \<not> cl_pipe c \<or> \<not> cl_session_active c then c else snd (send_control_frame VW_MSG_PAUSE 1 c))"

definition vw_worker_client_resume_session :: "vw_worker_client \<Rightarrow> vw_worker_client" where
  "vw_worker_client_resume_session c =
     (if \<not> cl_pipe c \<or> \<not> cl_session_active c then c else snd (send_control_frame VW_MSG_RESUME 1 c))"

definition vw_worker_client_shutdown :: "vw_worker_client \<Rightarrow> vw_worker_client" where
  "vw_worker_client_shutdown c =
     (if \<not> cl_pipe c then c
      else
        let c = c\<lparr>cl_sequence := cl_sequence c + 1\<rparr> in
        case vw_protocol_encode_header (Some (frame_header VW_MSG_SHUTDOWN 0 (cl_sequence c))) 20 of
          None \<Rightarrow> c
        | Some hdr \<Rightarrow> snd (on_net (vw_ipc_send hdr) c))"

definition vw_worker_client_is_source_active :: "vw_worker_client \<Rightarrow> bool" where
  "vw_worker_client_is_source_active c \<longleftrightarrow> cl_session_active c \<and> cl_worker_source_active c"

section \<open>Receiving a frame\<close>

text \<open>
  \<^verbatim>\<open>vw_worker_recv_t\<close>: the decoded message, and the bytes written to the two text buffers with
  their terminators.
\<close>

record vw_worker_recv =
  wr_payload :: vw_payload
  wr_text_buf :: bytes
  wr_trans_text_buf :: bytes

definition own_caption :: "vw_caption_segment \<Rightarrow> vw_worker_recv" where
  "own_caption seg =
     (let txt_bytes = ptr_bytes (cs_text_utf8 seg) (unat (cs_text_bytes seg));
          seg = seg\<lparr>cs_text_utf8 := Some txt_bytes\<rparr> in
      if cs_translated_text_utf8 seg \<noteq> None \<and> cs_translated_text_bytes seg > 0 then
        let trans = ptr_bytes (cs_translated_text_utf8 seg) (unat (cs_translated_text_bytes seg)) in
        \<lparr>wr_payload = P_CAPTION (seg\<lparr>cs_translated_text_utf8 := Some trans\<rparr>),
         wr_text_buf = txt_bytes @ [0], wr_trans_text_buf = trans @ [0]\<rparr>
      else
        \<lparr>wr_payload = P_CAPTION (seg\<lparr>cs_translated_text_utf8 := None, cs_translated_text_bytes := 0\<rparr>),
         wr_text_buf = txt_bytes @ [0], wr_trans_text_buf = [0]\<rparr>)"

definition worker_message :: "vw_frame_header \<Rightarrow> bytes \<Rightarrow> vw_worker_recv option" where
  "worker_message h body =
     (if fh_type h \<in> msg_code ` {VW_MSG_CAPTION_SEGMENT, VW_MSG_STATUS, VW_MSG_ERROR, VW_MSG_MODEL_PROGRESS} then
        (case vw_protocol_decode_payload (fh_type h) body of
           Some (Some p) \<Rightarrow>
             if \<not> vw_protocol_validate_payload (fh_type h) (Some p) then None
             else (case p of
                 P_CAPTION seg \<Rightarrow> Some (own_caption seg)
               | _ \<Rightarrow> Some \<lparr>wr_payload = p, wr_text_buf = [], wr_trans_text_buf = []\<rparr>)
         | _ \<Rightarrow> None)
      else None)"

text \<open>One round of the loop: \<open>Some\<close> returns, \<open>None\<close> goes on within the same deadline.\<close>

definition discard_stale :: "vw_frame_header \<Rightarrow> vw_worker_client \<Rightarrow> (recv_status \<times> vw_worker_recv option) option \<times> vw_worker_client" where
  "discard_stale h c =
     (if fh_payload_length h > 0 then
        (case on_net take_mem c of (mem, c) \<Rightarrow>
           if \<not> mem then (Some (VW_IPC_RECV_FATAL, None), vw_worker_client_drop_transport c)
           else case on_net (vw_worker_client_make_deadline 3000000) c of
               (None, c) \<Rightarrow> (Some (VW_IPC_RECV_FATAL, None), vw_worker_client_drop_transport c)
             | (Some drain_deadline, c) \<Rightarrow>
                 (case on_net (receive_all (unat (fh_payload_length h)) drain_deadline) c of ((st, body), c) \<Rightarrow>
                    if st \<noteq> VW_IPC_RECV_OK then (Some (VW_IPC_RECV_FATAL, None), vw_worker_client_drop_transport c)
                    else (None, c)))
      else (None, c))"

definition accept_frame :: "vw_frame_header \<Rightarrow> vw_worker_client \<Rightarrow> (recv_status \<times> vw_worker_recv option) option \<times> vw_worker_client" where
  "accept_frame h c =
     (let c = c\<lparr>cl_last_worker_sequence := fh_sequence h, cl_worker_sequence_valid := True\<rparr> in
      case on_net (vw_worker_client_make_deadline 3000000) c of
        (None, c) \<Rightarrow> (Some (VW_IPC_RECV_FATAL, None), vw_worker_client_drop_transport c)
      | (Some payload_deadline_us, c) \<Rightarrow>
          (case (if fh_payload_length h > 0 then read_body h payload_deadline_us c else (Some [], c)) of
             (None, c) \<Rightarrow> (Some (VW_IPC_RECV_FATAL, None), vw_worker_client_drop_transport c)
           | (Some body, c) \<Rightarrow>
               (case worker_message h body of
                  Some out \<Rightarrow> (Some (VW_IPC_RECV_OK, Some out), c)
                | None \<Rightarrow> (None, c))))"

definition receive_step :: "i64 \<Rightarrow> vw_worker_client \<Rightarrow> (recv_status \<times> vw_worker_recv option) option \<times> vw_worker_client" where
  "receive_step deadline_us c =
     (case on_net (receive_all 20 deadline_us) c of ((st, hdr), c) \<Rightarrow>
        if st = VW_IPC_RECV_TIMEOUT then (Some (VW_IPC_RECV_TIMEOUT, None), c)
        else if st \<noteq> VW_IPC_RECV_OK then (Some (VW_IPC_RECV_FATAL, None), vw_worker_client_drop_transport c)
        else case vw_protocol_decode_header hdr of
            None \<Rightarrow> (Some (VW_IPC_RECV_FATAL, None), vw_worker_client_drop_transport c)
          | Some h \<Rightarrow>
              if \<not> vw_protocol_validate_header (Some h)
              then (Some (VW_IPC_RECV_FATAL, None), vw_worker_client_drop_transport c)
              else if cl_worker_sequence_valid c \<and> fh_sequence h \<le> cl_last_worker_sequence c then discard_stale h c
              else accept_frame h c)"

lemma discard_stale_cases:
  assumes "discard_stale h c = (r, c')"
  obtains (lost) c1 bs where "quiet c c1 bs" "r = Some (VW_IPC_RECV_FATAL, None)" "c' = vw_worker_client_drop_transport c1"
  | (drained) bs where "quiet c c' bs" "r = None" "length bs = unat (fh_payload_length h)"
proof (cases "fh_payload_length h > 0")
  case True
  obtain m c1 where m: "on_net take_mem c = (m, c1)" by fastforce
  obtain d c2 where d: "on_net (vw_worker_client_make_deadline 3000000) c1 = (d, c2)" by fastforce
  obtain st out c3 where rc: "on_net (receive_all (unat (fh_payload_length h)) (the d)) c2 = ((st, out), c3)"
    by (metis surj_pair)
  note q = quiet_mem[OF m] quiet_deadline[OF d] quiet_receive(1)[OF rc]
  have q2: "quiet c c2 []" and q3: "quiet c c3 out"
    using quiet_trans[OF q(1,2)] quiet_trans[OF quiet_trans[OF q(1,2)] q(3)] by simp_all
  show ?thesis
  proof (cases "m \<and> d \<noteq> None \<and> st = VW_IPC_RECV_OK")
    case ok: True
    then show ?thesis
      using assms True m d rc q3 drained[of out] quiet_receive(2)[OF rc] by (auto simp: discard_stale_def)
  next
    case False
    then show ?thesis
      using assms True m d rc lost[OF q(1)] lost[OF q2] lost[OF q3]
      by (auto simp: discard_stale_def split: if_splits option.splits)
  qed
next
  case False
  then show ?thesis using assms drained[of "[]"] by (auto simp: discard_stale_def quiet_def word_gt_0 split: if_splits)
qed

lemma accept_frame_cases:
  assumes "accept_frame h c = (r, c')"
  obtains (lost) c1 bs where "quiet (noted h c) c1 bs"
      "r = Some (VW_IPC_RECV_FATAL, None)" "c' = vw_worker_client_drop_transport c1"
  | (read) bs where "quiet (noted h c) c' bs"
      "length bs = unat (fh_payload_length h)"
      "r = (case worker_message h bs of Some out \<Rightarrow> Some (VW_IPC_RECV_OK, Some out) | None \<Rightarrow> None)"
proof -
  let ?c = "noted h c"
  obtain d c1 where d: "on_net (vw_worker_client_make_deadline 3000000) ?c = (d, c1)" by fastforce
  obtain b c2 where b: "(if fh_payload_length h > 0 then read_body h (the d) c1 else (Some [], c1)) = (b, c2)" by fastforce
  have "\<exists>bs. quiet c1 c2 bs \<and> (case b of Some body \<Rightarrow> body = bs \<and> length body = unat (fh_payload_length h) | None \<Rightarrow> True)"
    using b read_body_laws[of h "the d" c1 b c2] by (auto simp: quiet_def word_gt_0 split: if_splits)
  then obtain bs where bs: "quiet c1 c2 bs"
    "case b of Some body \<Rightarrow> body = bs \<and> length body = unat (fh_payload_length h) | None \<Rightarrow> True" by blast
  have q: "quiet ?c c1 []" "quiet ?c c2 bs" using quiet_deadline[OF d] quiet_trans[OF quiet_deadline[OF d] bs(1)] by simp_all
  have eq: "accept_frame h c = (case d of None \<Rightarrow> (Some (VW_IPC_RECV_FATAL, None), vw_worker_client_drop_transport c1)
      | Some _ \<Rightarrow> (case b of None \<Rightarrow> (Some (VW_IPC_RECV_FATAL, None), vw_worker_client_drop_transport c2)
         | Some body \<Rightarrow> (case worker_message h body of Some out \<Rightarrow> (Some (VW_IPC_RECV_OK, Some out), c2) | None \<Rightarrow> (None, c2))))"
    using d b by (auto simp: accept_frame_def split: option.splits)
  show ?thesis
    using assms eq q bs(2) lost[OF q(1)] lost[OF q(2)] read[of bs] by (auto split: option.splits)
qed

text \<open>
  What one round can do.  \<open>timeout\<close> leaves the stream where it was; \<open>lost\<close> closes the pipe;
  the other cases consume exactly one frame.
\<close>

lemma receive_step_cases:
  assumes "receive_step dl c = (r, c')"
  obtains (timeout) "quiet c c' []" "r = Some (VW_IPC_RECV_TIMEOUT, None)"
  | (lost) c1 where "still c c1" "cl_pipe c1 = cl_pipe c" "r = Some (VW_IPC_RECV_FATAL, None)" "c' = vw_worker_client_drop_transport c1"
  | (stale) h bs where "quiet c c' (header_image h @ bs)" "vw_protocol_validate_header (Some h)"
      "length bs = unat (fh_payload_length h)" "cl_worker_sequence_valid c" "fh_sequence h \<le> cl_last_worker_sequence c"
      "r = None" "clk c' < clk c"
  | (frame) h bs where "quiet (noted h c) c' (header_image h @ bs)"
      "vw_protocol_validate_header (Some h)" "length bs = unat (fh_payload_length h)"
      "cl_worker_sequence_valid c \<Longrightarrow> cl_last_worker_sequence c < fh_sequence h"
      "r = (case worker_message h bs of Some out \<Rightarrow> Some (VW_IPC_RECV_OK, Some out) | None \<Rightarrow> None)" "clk c' < clk c"
proof -
  obtain st out c1 where rc: "on_net (receive_all 20 dl) c = ((st, out), c1)" by (metis surj_pair)
  note q = quiet_receive[OF rc]
  have l1: thesis if "r = Some (VW_IPC_RECV_FATAL, None)" "c' = vw_worker_client_drop_transport c1"
    using that lost[OF quiet_still[OF q(1)]] quiet_fields(1)[OF q(1)] by blast
  show thesis
  proof (cases "st = VW_IPC_RECV_OK \<and> vw_protocol_decode_header out \<noteq> None")
    case True
    then obtain h where h: "vw_protocol_decode_header out = Some h" and ok: "st = VW_IPC_RECV_OK" by blast
    have lt: "clk c1 < clk c" using q(4) ok by simp
    have len: "length out = 20" using q(2) ok by simp
    have v: "vw_protocol_validate_header (Some h)" and img: "out = header_image h"
      using h len by (auto simp: vw_protocol_decode_header_def Let_def header_image_of_bytes split: if_splits)
    note f = quiet_fields[OF q(1)]
    show thesis
    proof (cases "cl_worker_sequence_valid c1 \<and> fh_sequence h \<le> cl_last_worker_sequence c1")
      case st: True
      then have ds: "discard_stale h c1 = (r, c')" using assms rc ok h v by (simp add: receive_step_def)
      then show thesis
      proof (cases rule: discard_stale_cases)
        case (lost c2 bs)
        then show thesis using that(2)[OF still_trans[OF quiet_still[OF q(1)] quiet_still[OF lost(1)]]]
          quiet_fields(1)[OF q(1)] quiet_fields(1)[OF lost(1)] by simp
      next
        case (drained bs)
        have "clk c' < clk c" using drained(1) lt by (simp add: quiet_def)
        then show thesis using stale[OF quiet_trans[OF q(1) drained(1), unfolded img] v drained(3)] st f drained(2) by simp
      qed
    next
      case fr: False
      then have af: "accept_frame h c1 = (r, c')" using assms rc ok h v by (auto simp: receive_step_def)
      have qu: "quiet (noted h c) (noted h c1) out" using quiet_noted[OF q(1)] .
      from af show thesis
      proof (cases rule: accept_frame_cases)
        case (lost c2 bs)
        have "still c c2" using still_trans[OF still_noted quiet_still[OF quiet_trans[OF qu lost(1)]]] .
        then show thesis using that(2)[of c2] quiet_fields(1)[OF qu] quiet_fields(1)[OF lost(1)] lost by simp
      next
        case (read bs)
        have "clk c' < clk c" using read(1) lt by (simp add: quiet_def clk_def)
        then show thesis using that(4)[OF quiet_trans[OF qu read(1), unfolded img] v read(2)] fr f read(3) by auto
      qed
    qed
  next
    case False
    then show thesis
      using assms rc q(1,3) timeout l1 by (auto simp: receive_step_def split: if_splits option.splits)
  qed
qed

function receive_frame_loop :: "i64 \<Rightarrow> vw_worker_client \<Rightarrow> (recv_status \<times> vw_worker_recv option) \<times> vw_worker_client" where
  "receive_frame_loop deadline_us c =
     (case on_net take_clock c of (now_us, c1) \<Rightarrow>
        if now_us < deadline_us then
          (case receive_step deadline_us c1 of
             (Some r, c2) \<Rightarrow> (r, c2)
           | (None, c2) \<Rightarrow> receive_frame_loop deadline_us c2)
        else ((VW_IPC_RECV_TIMEOUT, None), c1))"
  by pat_completeness auto

termination receive_frame_loop
proof (relation "measure (\<lambda>(_, c). clk c)", goal_cases)
  case (2 dl c t c1 r c2)
  then have s: "receive_step dl c1 = (None, c2)" and q: "quiet c c1 []" using quiet_clock[of c t c1] by auto
  from s have "clk c2 < clk c1" by (cases rule: receive_step_cases) auto
  with q show ?case by (simp add: quiet_def)
qed simp

declare receive_frame_loop.simps [simp del]

definition vw_worker_client_receive_frame ::
  "vw_worker_client \<Rightarrow> u32 \<Rightarrow> (recv_status \<times> vw_worker_recv option) \<times> vw_worker_client" where
  "vw_worker_client_receive_frame c timeout_us =
     (if \<not> cl_pipe c then ((VW_IPC_RECV_FATAL, None), c)
      else case on_net (vw_worker_client_make_deadline (int (unat timeout_us))) c of
          (None, c) \<Rightarrow> ((VW_IPC_RECV_FATAL, None), c)
        | (Some deadline_us, c) \<Rightarrow> receive_frame_loop deadline_us c)"

end
