(* ===== verification/VW_Worker_Client_Laws.thy ===== *)
theory VW_Worker_Client_Laws
  imports VW_Worker_Client
begin

text \<open>
  What the operations of the worker client do to its byte stream: every operation either sends
  whole numbered frames that fit the protocol, or drops the transport (\<^emph>\<open>advance\<close>); a received
  frame refines the abstract outcome of the reader; and the client as a whole is an instance of
  the frame sender interface of theory VW_Ipc.
\<close>

unbundle bit_operations_syntax

section \<open>What the client puts on the wire\<close>

lemma on_net_sends:
  "on_net (send_parts h p) c = (ok, c') \<Longrightarrow> \<exists>n. c' = c\<lparr>cl_net := n\<rparr> \<and> nt_in n = nt_in (cl_net c)
     \<and> nt_events n = nt_events (cl_net c) \<and> nt_clock n = nt_clock (cl_net c)
     \<and> (ok \<longrightarrow> nt_sent n = nt_sent (cl_net c) @ h @ p)"
  by (rule exI[of _ "snd (send_parts h p (cl_net c))"])
    (use send_parts_True[of h p "cl_net c"] in \<open>auto simp: on_net_def case_prod_beta prod_eq_iff\<close>)

lemma on_net_send:
  "on_net (vw_ipc_send h) c = (ok, c') \<Longrightarrow> \<exists>n. c' = c\<lparr>cl_net := n\<rparr> \<and> nt_in n = nt_in (cl_net c)
     \<and> nt_events n = nt_events (cl_net c) \<and> nt_clock n = nt_clock (cl_net c)
     \<and> (ok \<longrightarrow> nt_sent n = nt_sent (cl_net c) @ h)"
  by (rule exI[of _ "snd (vw_ipc_send h (cl_net c))"])
    (use vw_ipc_send_True[of h "cl_net c"] in \<open>auto simp: on_net_def case_prod_beta prod_eq_iff\<close>)

text \<open>\<open>sent c c' m\<close>: the message went out whole; \<open>failed c c'\<close>: the transport was dropped.\<close>

definition sent :: "vw_worker_client \<Rightarrow> vw_worker_client \<Rightarrow> message \<Rightarrow> bool" where
  "sent c c' m \<longleftrightarrow> (\<exists>n. c' = c\<lparr>cl_sequence := cl_sequence c + 1, cl_net := n\<rparr> \<and> nt_in n = nt_in (cl_net c)
     \<and> nt_events n = nt_events (cl_net c) \<and> nt_clock n = nt_clock (cl_net c)
     \<and> nt_sent n = nt_sent (cl_net c) @ frame_wire (cl_sequence c + 1) m)"

definition failed :: "vw_worker_client \<Rightarrow> vw_worker_client \<Rightarrow> bool" where
  "failed c c' \<longleftrightarrow> (\<exists>s n. c' = vw_worker_client_drop_transport (c\<lparr>cl_sequence := s, cl_net := n\<rparr>)
     \<and> nt_events n = nt_events (cl_net c) \<and> nt_in n = nt_in (cl_net c))"

lemma send_message_cases:
  assumes "send_message t body c = (ok, c')"
  obtains "ok" "sent c c' (t, body)" | "\<not> ok" "failed c c'"
proof -
  let ?c = "c\<lparr>cl_sequence := cl_sequence c + 1\<rparr>"
  let ?h = "header_image (frame_header t (length body) (cl_sequence c + 1))"
  obtain k c1 where k: "on_net (send_parts ?h body) ?c = (k, c1)" by fastforce
  from on_net_sends[OF k] obtain n where n: "c1 = ?c\<lparr>cl_net := n\<rparr>" "nt_in n = nt_in (cl_net c)"
    "nt_events n = nt_events (cl_net c)" "nt_clock n = nt_clock (cl_net c)"
    "k \<longrightarrow> nt_sent n = nt_sent (cl_net c) @ ?h @ body" by auto
  have eq: "(ok, c') = (if k then (True, c1) else (False, vw_worker_client_drop_transport c1))"
    using assms k by (simp add: send_message_def vw_protocol_encode_header_def)
  have "sent c c1 (t, body)" if k
    unfolding sent_def by (rule exI[of _ n]) (use n that in \<open>simp add: frame_wire_def\<close>)
  moreover have "failed c (vw_worker_client_drop_transport c1)"
    unfolding failed_def using n by (intro exI[of _ "cl_sequence c + 1"] exI[of _ n]) simp
  ultimately show thesis using eq that by (cases k) auto
qed

lemma send_control_frame_cases:
  assumes "send_control_frame t reason c = (ok, c')"
  obtains payload where "ok" "cl_pipe c" "sent c c' (t, payload)"
      "vw_protocol_encode_payload (msg_code t) (Some (P_CONTROL \<lparr>ct_session_id = cl_session_id c, ct_reason = reason\<rparr>)) 64 = Some payload"
  | "\<not> ok" "failed c c'" "cl_pipe c" | "\<not> ok" "c' = c"
proof (cases "cl_pipe c \<and> vw_protocol_encode_payload (msg_code t)
    (Some (P_CONTROL \<lparr>ct_session_id = cl_session_id c, ct_reason = reason\<rparr>)) 64 \<noteq> None")
  case True
  then obtain payload where p: "vw_protocol_encode_payload (msg_code t)
    (Some (P_CONTROL \<lparr>ct_session_id = cl_session_id c, ct_reason = reason\<rparr>)) 64 = Some payload" by blast
  let ?c = "c\<lparr>cl_sequence := cl_sequence c + 1\<rparr>"
  let ?h = "header_image (frame_header t (length payload) (cl_sequence c + 1))"
  obtain k1 c1 where k1: "on_net (vw_ipc_send ?h) ?c = (k1, c1)" by fastforce
  from on_net_send[OF k1] obtain n1 where n1: "c1 = ?c\<lparr>cl_net := n1\<rparr>" "nt_in n1 = nt_in (cl_net c)"
    "nt_events n1 = nt_events (cl_net c)" "nt_clock n1 = nt_clock (cl_net c)"
    "k1 \<longrightarrow> nt_sent n1 = nt_sent (cl_net c) @ ?h" by auto
  obtain k2 c2 where k2: "on_net (vw_ipc_send payload) c1 = (k2, c2)" by fastforce
  from on_net_send[OF k2] n1 obtain n2 where n2: "c2 = ?c\<lparr>cl_net := n2\<rparr>" "nt_in n2 = nt_in (cl_net c)"
    "nt_events n2 = nt_events (cl_net c)" "nt_clock n2 = nt_clock (cl_net c)"
    "k1 \<and> k2 \<longrightarrow> nt_sent n2 = nt_sent (cl_net c) @ ?h @ payload" by auto
  have eq: "(ok, c') = (if k1 \<and> k2 then (True, c2) else (False, vw_worker_client_drop_transport c2))"
    using assms True p k1 k2 by (simp add: send_control_frame_def vw_protocol_encode_header_def)
  have "sent c c2 (t, payload)" if "k1 \<and> k2"
    unfolding sent_def by (rule exI[of _ n2]) (use n2 that in \<open>simp add: frame_wire_def\<close>)
  moreover have "failed c (vw_worker_client_drop_transport c2)"
    unfolding failed_def using n2 by (intro exI[of _ "cl_sequence c + 1"] exI[of _ n2]) simp
  ultimately show thesis using eq that p True by (cases "k1 \<and> k2") auto
next
  case False
  then have "\<not> ok" "c' = c" using assms by (cases "cl_pipe c"; auto simp: send_control_frame_def)+
  then show thesis by (rule that(3))
qed

section \<open>The invariant of the client\<close>

definition sendable :: "message \<Rightarrow> bool" where
  "sendable m \<longleftrightarrow> fits m \<and> accepted m"

definition language_ok :: "bytes \<Rightarrow> bool \<Rightarrow> bool" where
  "language_ok lang allow_auto \<longleftrightarrow> 0 \<notin> set lang \<and> length lang < 16 \<and> is_valid_language_code (nul_pad 16 lang) allow_auto"

definition c_string_ok :: "nat \<Rightarrow> bytes \<Rightarrow> bool" where
  "c_string_ok n s \<longleftrightarrow> s \<noteq> [] \<and> 0 \<notin> set s \<and> length s < n"

definition client_inv :: "vw_worker_client \<Rightarrow> bool" where
  "client_inv c \<longleftrightarrow> length (cl_session_id c) = VW_SESSION_ID_BYTES \<and> language_ok (cl_language c) False
     \<and> (cl_session_active c \<longrightarrow> c_string_ok VW_MAX_MODEL_ID_BYTES (cl_active_model_id c)
          \<and> (cl_active_source_url c \<noteq> [] \<longrightarrow> c_string_ok VW_MAX_SOURCE_URL_BYTES (cl_active_source_url c)))
     \<and> (cl_translation_configured c \<longrightarrow> language_ok (cl_translate_source_lang c) True
          \<and> language_ok (cl_translate_target_lang c) False \<and> cl_translate_mode c \<le> 1)"

definition client_framed :: "vw_worker_client \<Rightarrow> bool" where
  "client_framed c \<longleftrightarrow> framed sendable (cl_pipe c) (cl_sequence c) (nt_sent (cl_net c))"

definition advance :: "vw_worker_client \<Rightarrow> vw_worker_client \<Rightarrow> bool" where
  "advance c c' \<longleftrightarrow> client_inv c' \<and> (client_framed c \<longrightarrow> client_framed c') \<and> pipe_once c c' \<and> cl_process c' = cl_process c"

lemma advance_trans: "advance a b \<Longrightarrow> advance b c \<Longrightarrow> advance a c"
  by (auto simp: advance_def intro: pipe_once_trans)

lemma advance_refl: "client_inv c \<Longrightarrow> advance c c"
  by (simp add: advance_def pipe_once_def)

lemma still_framed: "still c c' \<Longrightarrow> client_framed c \<Longrightarrow> client_framed c'"
  unfolding still_def client_framed_def framed_def by auto

lemma client_inv_net [simp]:
  "client_inv (c\<lparr>cl_net := n\<rparr>) = client_inv c" "client_inv (c\<lparr>cl_sequence := s\<rparr>) = client_inv c"
  by (simp_all add: client_inv_def)

lemma quiet_inv: "quiet c c' bs \<Longrightarrow> client_inv c' = client_inv c"
proof -
  assume "quiet c c' bs"
  then have "c' = c\<lparr>cl_net := cl_net c'\<rparr>" by (rule conjunct1[OF iffD1[OF quiet_def]])
  from arg_cong[OF this, of client_inv] show ?thesis unfolding client_inv_net .
qed

lemma quiet_advance: "quiet c c' bs \<Longrightarrow> client_inv c \<Longrightarrow> advance c c'"
  using quiet_inv[of c c' bs] quiet_still[of c c' bs] still_framed[of c c'] by (simp add: advance_def still_def)

lemma sent_advance:
  assumes "sent c c' m" "client_inv c" "cl_pipe c" "sendable m"
  shows "advance c c'"
proof -
  obtain n where n: "c' = c\<lparr>cl_sequence := cl_sequence c + 1, cl_net := n\<rparr>"
    "nt_sent n = nt_sent (cl_net c) @ frame_wire (cl_sequence c + 1) m" "nt_events n = nt_events (cl_net c)"
    using assms(1) by (auto simp: sent_def)
  show ?thesis
    using assms(2-4) n framed_send[of sendable "cl_sequence c" "nt_sent (cl_net c)" m]
    by (simp add: advance_def client_inv_def client_framed_def pipe_once_def)
qed

lemma drop_inv: "client_inv c \<Longrightarrow> client_inv (vw_worker_client_drop_transport c)"
  by (simp add: vw_worker_client_drop_transport_def client_inv_def)

lemma failed_advance: "failed c c' \<Longrightarrow> client_inv c \<Longrightarrow> advance c c'"
proof -
  assume "failed c c'" "client_inv c"
  then obtain s n where d: "c' = vw_worker_client_drop_transport (c\<lparr>cl_sequence := s, cl_net := n\<rparr>)"
    "nt_events n = nt_events (cl_net c)" by (auto simp: failed_def)
  have "pipe_once c c' \<and> cl_process c' = cl_process c"
    unfolding d(1) using d(2) by (simp add: pipe_once_def vw_worker_client_drop_transport_def)
  then show ?thesis using d(1) drop_inv \<open>client_inv c\<close> by (simp add: advance_def client_framed_def)
qed

lemma drop_advance: "client_inv c \<Longrightarrow> advance c (vw_worker_client_drop_transport c)"
  by (simp add: advance_def drop_inv client_framed_def) (simp add: pipe_once_def vw_worker_client_drop_transport_def)

section \<open>Every operation keeps the stream well formed\<close>

text \<open>An encoded canonical payload that validates is accepted by the peer.\<close>

lemma sendable_encode:
  assumes "vw_protocol_encode_payload (msg_code t) (Some p) sz = Some body" "wf_payload p" "canonical_payload p"
    "vw_protocol_validate_payload (msg_code t) (Some p)" "t \<noteq> VW_MSG_SHUTDOWN" "sz \<le> VW_MAX_PAYLOAD_BYTES"
    "length body \<le> sz"
  shows "sendable (t, body)"
proof -
  have "vw_protocol_decode_payload (msg_code t) body = Some (Some p)"
    by (rule decode_encode_payload[OF assms(2,3) _ assms(1)]) (simp add: assms(5))
  then show ?thesis using assms(4,6,7) by (simp add: sendable_def accepted_def fits_def)
qed

lemma encode_control_length:
  "vw_protocol_encode_payload (msg_code t) (Some (P_CONTROL p)) sz = Some body \<Longrightarrow> wf_payload (P_CONTROL p) \<Longrightarrow> length body \<le> sz"
  by (cases t) (auto simp: vw_protocol_encode_payload_def dest: encode_fixed_length)

lemma control_sendable:
  assumes "vw_protocol_encode_payload (msg_code t) (Some (P_CONTROL \<lparr>ct_session_id = sid, ct_reason = r\<rparr>)) 64 = Some body"
    "length sid = VW_SESSION_ID_BYTES" "t = VW_MSG_PAUSE \<and> r = 1 \<or> t = VW_MSG_RESUME \<and> r = 1
      \<or> t = VW_MSG_STOP_SESSION \<and> r \<in> {1, 2, 3}"
  shows "sendable (t, body)"
proof (rule sendable_encode[OF assms(1)])
  show "vw_protocol_validate_payload (msg_code t) (Some (P_CONTROL \<lparr>ct_session_id = sid, ct_reason = r\<rparr>))"
    using assms(3) by (auto simp: vw_protocol_validate_payload_def)
  show "length body \<le> 64" using encode_control_length[OF assms(1)] assms(2) by simp
qed (use assms in \<open>auto simp: vw_limits\<close>)

lemma control_advance:
  assumes "send_control_frame t r c = (ok, c')" "client_inv c"
    "t = VW_MSG_PAUSE \<and> r = 1 \<or> t = VW_MSG_RESUME \<and> r = 1 \<or> t = VW_MSG_STOP_SESSION \<and> r \<in> {1, 2, 3}"
  shows "advance c c'"
  using assms(1)
proof (cases rule: send_control_frame_cases)
  case (1 payload)
  have "sendable (t, payload)" using control_sendable[OF 1(4)] assms(2,3) by (simp add: client_inv_def)
  then show ?thesis using sent_advance[OF 1(3) assms(2) 1(2)] by blast
qed (use assms(2) in \<open>auto intro: failed_advance advance_refl\<close>)

text \<open>The clamped playback rate is always a positive finite number of at most 16.\<close>

lemma f32_val_pos: "\<not> f32_sign b \<Longrightarrow> f32_exp b \<noteq> 0 \<or> f32_man b \<noteq> 0 \<Longrightarrow> 0 < f32_val b"
  by (auto simp: f32_val_def)

lemma f32_consts:
  "f32_finite 0x3F800000" "f32_val 0x3F800000 = 1" "f32_finite 0x3D4CCCCD" "0 < f32_val 0x3D4CCCCD" "f32_val 0x3D4CCCCD < 1"
  "f32_finite 0x41800000" "f32_val 0x41800000 = 16"
  by (simp_all add: f32_finite_def f32_exp_def f32_val_def f32_man_def f32_sign_def pow2_def)

lemma effective_rate_range:
  "f32_finite (effective_rate r) \<and> 0 < f32_val (effective_rate r) \<and> f32_val (effective_rate r) \<le> 16"
proof -
  define q where "q = (if \<not> f32_nan r \<and> \<not> f32_sign r \<and> (f32_exp r \<noteq> 0 \<or> f32_man r \<noteq> 0) then r else 0x3F800000)"
  have "0 < f32_val q" using f32_val_pos[of r] f32_consts by (simp add: q_def)
  then show ?thesis
    using f32_consts by (auto simp: effective_rate_def q_def[symmetric] Let_def not_less)
qed

lemma position_sendable:
  assumes "vw_protocol_encode_payload (msg_code VW_MSG_POSITION) (Some (P_POSITION p)) 64 = Some body"
    "length (po_session_id p) = VW_SESSION_ID_BYTES" "- 10000000 \<le> po_current_pts_us p" "po_current_pts_us p \<le> 315360000000000"
    "- 1 \<le> po_input_time_us p" "po_input_time_us p \<le> 315360000000000"
    "po_playback_rate p = effective_rate r" "po_flags p AND NOT 3 = 0"
  shows "sendable (VW_MSG_POSITION, body)"
proof (rule sendable_encode[OF assms(1)])
  have "(1 OR 2 :: u32) = 3" by simp
  then show "vw_protocol_validate_payload (msg_code VW_MSG_POSITION) (Some (P_POSITION p))"
    using assms effective_rate_range[of r]
    by (simp add: vw_protocol_validate_payload_def validate_position_def not_less not_le)
  have w: "wf_payload (P_POSITION p)" using assms by (simp add: in_i64_def INT64_MIN_def INT64_MAX_def)
  then show "wf_payload (P_POSITION p)" .
  show "length body \<le> 64"
    using assms(1) encode_fixed_length(1)[OF _ w] by (auto simp: vw_protocol_encode_payload_def)
qed (simp_all add: vw_limits)

definition position_ok :: "i64 \<Rightarrow> i64 \<Rightarrow> u32 \<Rightarrow> bool" where
  "position_ok pts input flags \<longleftrightarrow> - 10000000 \<le> pts \<and> pts \<le> 315360000000000 \<and> - 1 \<le> input \<and> input \<le> 315360000000000
     \<and> flags AND NOT 3 = 0"

lemma position_frame_advance:
  assumes "vw_worker_client_send_position_frame c pts input rate flags = (ok, c')" "client_inv c" "cl_pipe c"
    "position_ok pts input flags"
  shows "advance c c'"
proof (cases "vw_protocol_encode_payload (msg_code VW_MSG_POSITION)
    (Some (P_POSITION \<lparr>po_session_id = cl_session_id c, po_current_pts_us = pts, po_input_time_us = input,
      po_playback_rate = effective_rate rate, po_flags = flags\<rparr>)) 64")
  case None
  then show ?thesis using assms advance_refl by (simp add: vw_worker_client_send_position_frame_def)
next
  case (Some body)
  then have s: "send_message VW_MSG_POSITION body c = (ok, c')"
    using assms(1) by (simp add: vw_worker_client_send_position_frame_def)
  have "sendable (VW_MSG_POSITION, body)"
    by (rule position_sendable[OF Some, of rate]) (use assms(2,4) in \<open>simp_all add: client_inv_def position_ok_def\<close>)
  with s show ?thesis
    using assms(2,3) by (cases rule: send_message_cases) (auto intro: sent_advance failed_advance)
qed

lemma message_advance:
  "send_message t body c = (ok, c') \<Longrightarrow> client_inv c \<Longrightarrow> cl_pipe c \<Longrightarrow> sendable (t, body) \<Longrightarrow> advance c c'"
  by (erule send_message_cases) (auto intro: sent_advance failed_advance)

lemma language_cut: "language_ok s a \<Longrightarrow> snprintf_cut 16 s = s"
  by (simp add: language_ok_def snprintf_cut_def)

lemma nul_pad_last: "length s < n \<Longrightarrow> nul_pad n s ! (n - 1) = 0"
  by (auto simp: nul_pad_def nth_append)

lemma language_padded: "language_ok s a \<Longrightarrow> length (nul_pad 16 s) = 16 \<and> nul_pad 16 s ! 15 = 0 \<and> nul_padded 16 (nul_pad 16 s)"
  using nul_pad_last[of s 16] by (simp add: language_ok_def nul_padded_nul_pad)

definition translation_ok :: "bytes option \<Rightarrow> bytes option \<Rightarrow> u8 \<Rightarrow> bool" where
  "translation_ok source_lang target_lang mode \<longleftrightarrow> mode \<le> 1
     \<and> (case source_lang of Some s \<Rightarrow> language_ok s True | None \<Rightarrow> True)
     \<and> (case target_lang of Some s \<Rightarrow> language_ok s False | None \<Rightarrow> True)"

lemma default_languages: "language_ok (ascii ''auto'') True" "language_ok (ascii ''en'') False"
  by code_simp+

lemma translation_langs:
  assumes "translation_ok s t m"
  shows "language_ok (snprintf_cut 16 (case s of Some s \<Rightarrow> s | None \<Rightarrow> ascii ''auto'')) True"
    "language_ok (snprintf_cut 16 (case t of Some s \<Rightarrow> s | None \<Rightarrow> ascii ''en'')) False"
  using assms default_languages by (auto simp: translation_ok_def language_cut split: option.splits)

lemma translate_sendable:
  assumes "vw_protocol_encode_payload (msg_code VW_MSG_TRANSLATE_CTRL)
      (Some (P_TRANSLATE_CTRL (translate_ctrl_message c e s t m))) VW_MSG_TRANSLATE_CTRL_PAYLOAD_BYTES = Some body"
    "client_inv c" "translation_ok s t m"
  shows "sendable (VW_MSG_TRANSLATE_CTRL, body)"
proof (rule sendable_encode[OF assms(1)])
  note l = translation_langs[OF assms(3)]
  note v = l[unfolded language_ok_def]
  note p = language_padded[OF l(1)] language_padded[OF l(2)]
  show w: "wf_payload (P_TRANSLATE_CTRL (translate_ctrl_message c e s t m))"
    using assms(2) p by (simp add: translate_ctrl_message_def client_inv_def)
  show "canonical_payload (P_TRANSLATE_CTRL (translate_ctrl_message c e s t m))"
    using p by (simp add: translate_ctrl_message_def)
  show "vw_protocol_validate_payload (msg_code VW_MSG_TRANSLATE_CTRL) (Some (P_TRANSLATE_CTRL (translate_ctrl_message c e s t m)))"
    using v assms(3)
    by (auto simp: vw_protocol_validate_payload_def validate_translate_ctrl_def translate_ctrl_message_def translation_ok_def not_less)
  show "length body \<le> VW_MSG_TRANSLATE_CTRL_PAYLOAD_BYTES"
    using assms(1) encode_fixed_length(3)[OF _ w] by (auto simp: vw_protocol_encode_payload_def)
qed (simp_all add: vw_limits)

lemma remember_inv:
  "client_inv c \<Longrightarrow> translation_ok s t m \<Longrightarrow> client_inv (remember_translation e s t m c)"
  using translation_langs[of s t m] by (simp add: client_inv_def remember_translation_def translation_ok_def)

lemma remember_advance: "client_inv c \<Longrightarrow> translation_ok s t m \<Longrightarrow> advance c (remember_translation e s t m c)"
  using remember_inv by (simp add: advance_def client_framed_def remember_translation_def pipe_once_def)

lemma translate_ctrl_advance:
  assumes "vw_worker_client_send_translate_ctrl c e s t m = (ok, c')" "client_inv c" "translation_ok s t m"
  shows "advance c c'"
proof (cases "cl_pipe c \<and> cl_worker_capabilities c AND VW_CAPABILITY_TRANSLATION \<noteq> 0")
  case True
  show ?thesis
  proof (cases "vw_protocol_encode_payload (msg_code VW_MSG_TRANSLATE_CTRL)
      (Some (P_TRANSLATE_CTRL (translate_ctrl_message c e s t m))) VW_MSG_TRANSLATE_CTRL_PAYLOAD_BYTES")
    case None
    then show ?thesis using assms True advance_refl by (simp add: vw_worker_client_send_translate_ctrl_def)
  next
    case (Some body)
    obtain k c1 where k: "send_message VW_MSG_TRANSLATE_CTRL body c = (k, c1)" by fastforce
    have a: "advance c c1" using message_advance[OF k assms(2) _ translate_sendable[OF Some assms(2,3)]] True by simp
    then have "advance c (remember_translation e s t m c1)"
      using advance_trans[OF a remember_advance[OF _ assms(3)]] by (simp add: advance_def)
    with a show ?thesis
      using assms(1) Some k True by (auto simp: vw_worker_client_send_translate_ctrl_def split: if_splits)
  qed
next
  case False
  then have "c' = c \<or> c' = remember_translation False s t m c"
    using assms(1) by (auto simp: vw_worker_client_send_translate_ctrl_def split: if_splits)
  then show ?thesis using assms advance_refl remember_advance by blast
qed

lemma length_pcm_image: "length (pcm_image s) = 2 * length s"
  by (induction s) (simp_all add: pcm_image_def)

definition chunk_ok :: "vw_audio_chunk \<Rightarrow> bool" where
  "chunk_ok ch \<longleftrightarrow> in_i64 (ch_start_pts_us ch) \<and> unat (ch_bytes ch) = 2 * length (ch_pcm ch)
     \<and> validate_audio \<lparr>au_session_id = replicate 16 0, au_start_pts_us = ch_start_pts_us ch, au_duration_us = ch_duration_us ch,
          au_pcm_bytes = ch_bytes ch, au_pcm_data = Some (pcm_image (ch_pcm ch))\<rparr>"

lemma audio_advance:
  assumes "vw_worker_client_send_audio c ch = (ok, c')" "client_inv c" "chunk_ok ch"
  shows "advance c c'"
proof -
  let ?p = "\<lparr>au_session_id = cl_session_id c, au_start_pts_us = ch_start_pts_us ch, au_duration_us = ch_duration_us ch,
          au_pcm_bytes = ch_bytes ch, au_pcm_data = Some (pcm_image (ch_pcm ch))\<rparr>"
  have v: "validate_audio ?p" using assms(3) unfolding chunk_ok_def validate_audio_def Let_def by (simp split: if_splits)
  have d: "in_i64 (ch_duration_us ch)"
    using v by (auto simp: validate_audio_def in_i64_def INT64_MIN_def INT64_MAX_def split: if_splits)
  show ?thesis
  proof (cases "cl_pipe c \<and> cl_session_active c \<and> vw_protocol_encode_payload (msg_code VW_MSG_AUDIO_PCM) (Some (P_AUDIO ?p)) (2 * 16384) \<noteq> None")
    case True
    then obtain body where b: "vw_protocol_encode_payload (msg_code VW_MSG_AUDIO_PCM) (Some (P_AUDIO ?p)) (2 * 16384) = Some body"
      by blast
    have "sendable (VW_MSG_AUDIO_PCM, body)"
    proof (rule sendable_encode[OF b])
      show "length body \<le> 2 * 16384"
        using b enc_all_length[of "2 * 16384" _ "[]" body]
        by (force simp: vw_protocol_encode_payload_def encode_audio_def split: if_splits)
    qed (use assms(2,3) v d in \<open>auto simp: client_inv_def chunk_ok_def length_pcm_image vw_protocol_validate_payload_def vw_limits\<close>)
    then show ?thesis
      using message_advance[of VW_MSG_AUDIO_PCM body c ok c'] assms b True by (simp add: vw_worker_client_send_audio_def)
  next
    case False
    then have "c' = c" using assms(1) by (cases "cl_pipe c \<and> cl_session_active c") (auto simp: vw_worker_client_send_audio_def)
    then show ?thesis using assms(2) advance_refl by simp
  qed
qed

lemma model_ctrl_advance:
  assumes "vw_worker_client_send_model_ctrl c action model_id = (ok, c')" "client_inv c" "action = 1 \<or> action = 2"
  shows "advance c c'"
proof -
  let ?m = "case model_id of Some m \<Rightarrow> m | None \<Rightarrow> []"
  let ?p = "\<lparr>mc_session_id = replicate VW_SESSION_ID_BYTES 0, mc_action = action, mc_model_id = nul_pad 32 ?m\<rparr>"
  let ?enc = "vw_protocol_encode_payload (msg_code VW_MSG_MODEL_CTRL) (Some (P_MODEL_CTRL ?p)) 128"
  have len: "(case model_id of Some m \<Rightarrow> length m \<ge> 32 | None \<Rightarrow> False) \<longleftrightarrow> length ?m \<ge> 32" by (simp split: option.splits)
  have eq: "(ok, c') = (if \<not> cl_pipe c \<or> length ?m \<ge> 32 then (False, c)
      else case ?enc of None \<Rightarrow> (False, c) | Some payload \<Rightarrow> send_message VW_MSG_MODEL_CTRL payload c)"
    using assms(1) unfolding vw_worker_client_send_model_ctrl_def len by (simp split: if_splits)
  show ?thesis
  proof (cases "cl_pipe c \<and> length ?m < 32 \<and> ?enc \<noteq> None")
    case True
    then obtain body where b: "?enc = Some body" by blast
    have w: "wf_payload (P_MODEL_CTRL ?p)" using True by simp
    have z: "nul_pad 32 ?m ! 31 = 0" using nul_pad_last[of ?m 32] True by simp
    have "sendable (VW_MSG_MODEL_CTRL, body)"
    proof (rule sendable_encode[OF b w])
      show "length body \<le> 128"
        using b encode_fixed_length(5)[OF _ w] by (auto simp: vw_protocol_encode_payload_def vw_limits)
    qed (use assms(3) z in \<open>auto simp: vw_protocol_validate_payload_def vw_limits\<close>)
    then show ?thesis
      using message_advance[of VW_MSG_MODEL_CTRL body c ok c'] assms(2) b True eq by simp
  next
    case False
    then have "c' = c" using eq by (auto simp: not_le split: if_splits)
    then show ?thesis using assms(2) advance_refl by simp
  qed
qed

definition start_ok :: "i64 \<Rightarrow> bytes option \<Rightarrow> bytes option \<Rightarrow> bool" where
  "start_ok origin model_id source_url \<longleftrightarrow> in_i64 origin
     \<and> (case model_id of Some m \<Rightarrow> m \<noteq> [] \<and> 0 \<notin> set m | None \<Rightarrow> False)
     \<and> (case source_url of Some u \<Rightarrow> u \<noteq> [] \<and> 0 \<notin> set u | None \<Rightarrow> True)"

lemma start_message_ok:
  assumes "start_ok origin (Some m) url" "length m < VW_MAX_MODEL_ID_BYTES" "client_inv c"
    "case url of Some u \<Rightarrow> length u < VW_MAX_SOURCE_URL_BYTES | None \<Rightarrow> True"
  shows "wf_payload (P_START (start_message c origin (Some m) url))"
    "canonical_payload (P_START (start_message c origin (Some m) url))"
    "vw_protocol_validate_payload (msg_code VW_MSG_START_SESSION) (Some (P_START (start_message c origin (Some m) url)))"
proof -
  let ?u = "case url of Some u \<Rightarrow> u | None \<Rightarrow> []"
  have l: "language_ok (cl_language c) False" using assms(3) by (simp add: client_inv_def)
  then have ne: "cl_language c \<noteq> []" by (auto simp: language_ok_def is_valid_language_code_def strnlen_def nul_pad_def)
  note p = language_padded[OF l]
  have u: "0 \<notin> set ?u" "length ?u < VW_MAX_SOURCE_URL_BYTES" using assms(1,4) by (auto simp: start_ok_def vw_limits split: option.splits)
  have m: "0 \<notin> set m" "m \<noteq> []" using assms(1) by (auto simp: start_ok_def)
  have ul: "unat (of_nat (length ?u) :: u16) = length ?u" using u(2) by (simp add: unat_of_nat vw_limits)
  have ue: "(case url of Some u \<Rightarrow> of_nat (length u) | None \<Rightarrow> 0) = (of_nat (length ?u) :: u16)" by (simp split: option.splits)
  have lo: "in_i64 origin" using assms(1) by (simp add: start_ok_def)
  have sm: "start_message c origin (Some m) url =
     \<lparr>st_session_id = cl_session_id c, st_timeline_origin_pts_us = origin, st_sample_rate = 16000,
      st_channels = 1, st_sample_format = 1, st_model_id = nul_pad VW_MAX_MODEL_ID_BYTES m,
      st_language = nul_pad 16 (cl_language c), st_source_kind = (if url \<noteq> None then 1 else 0),
      st_source_url_len = of_nat (length ?u), st_source_url = nul_pad VW_MAX_SOURCE_URL_BYTES ?u\<rparr>"
    using ne language_cut[OF l] ue by (simp add: start_message_def)
  show "wf_payload (P_START (start_message c origin (Some m) url))"
    unfolding sm using assms(2,3) lo p u(2) by (simp add: client_inv_def)
  show "canonical_payload (P_START (start_message c origin (Some m) url))"
    unfolding sm using p m u assms(2) ul by (simp add: nul_padded_nul_pad strnlen_nul_pad)
  show "vw_protocol_validate_payload (msg_code VW_MSG_START_SESSION) (Some (P_START (start_message c origin (Some m) url)))"
    unfolding sm using l m u assms(1,2) ul
    by (auto simp: vw_protocol_validate_payload_def validate_start_def language_ok_def vw_bounded_string_length_def
        strnlen_nul_pad start_ok_def vw_limits split: option.splits)
qed

text \<open>Waiting for the reply sends nothing; on success the session is the one in the request.\<close>

definition waited :: "vw_msg_start \<Rightarrow> vw_worker_client \<Rightarrow> vw_worker_client \<Rightarrow> bool" where
  "waited st c c' \<longleftrightarrow> still c c' \<and> (cl_session_active c' \<longrightarrow> cl_session_active c \<and> cl_active_model_id c' = cl_active_model_id c
       \<and> cl_active_source_url c' = cl_active_source_url c
     \<or> cl_active_model_id c' = c_str (st_model_id st) \<and> cl_active_source_url c' = c_str (st_source_url st))"

lemma waited_quiet: "quiet c c' bs \<Longrightarrow> waited st c c'"
  using quiet_still[of c c' bs] quiet_fields[of c c' bs] by (simp add: waited_def)

lemma waited_trans: "waited st a b \<Longrightarrow> waited st b c \<Longrightarrow> waited st a c"
  by (auto simp: waited_def intro: still_trans)

lemma waited_lost: "still c c1 \<Longrightarrow> cl_pipe c1 \<Longrightarrow> waited st c (vw_worker_client_drop_transport c1)"
  using still_trans[OF _ drop_still] by (auto simp: waited_def)

lemma start_step_waited:
  assumes "start_step dl st c = (r, c')" "cl_pipe c"
  shows "waited st c c'" "r = Some True \<Longrightarrow> cl_session_active c' \<and> cl_pipe c'" "r = None \<Longrightarrow> cl_pipe c'"
  using assms
  by (cases rule: start_step_cases;
      auto intro: waited_quiet waited_lost simp: quiet_fields activate_def waited_def still_trans[OF still_noted quiet_still]
        start_step_still dest: quiet_fields(1))+

lemma start_loop_waited:
  "start_loop dl st c = (ok, c') \<Longrightarrow> cl_pipe c \<Longrightarrow> waited st c c' \<and> (ok \<longrightarrow> cl_session_active c' \<and> cl_pipe c')"
proof (induction dl st c arbitrary: ok c' rule: start_loop.induct)
  case (1 dl st c)
  obtain t c1 where t: "on_net take_clock c = (t, c1)" by fastforce
  note q = quiet_clock[OF t]
  have p1: "cl_pipe c1" using quiet_fields(1)[OF q] "1.prems"(2) by simp
  note w1 = waited_quiet[OF q, of st]
  show ?case
  proof (cases "t < dl")
    case True
    obtain r c2 where s: "start_step dl st c1 = (r, c2)" by fastforce
    note w = start_step_waited[OF s p1]
    note w2 = waited_trans[OF w1 w(1)]
    show ?thesis
    proof (cases r)
      case None
      have "start_loop dl st c2 = (ok, c')"
        using "1.prems"(1) t True s None by (simp add: start_loop.simps[of dl st c])
      from "1.IH"[OF t[symmetric] True s[symmetric] None this w(3)[OF None]]
      show ?thesis using waited_trans[OF w2] by simp
    next
      case (Some b)
      then show ?thesis using "1.prems"(1) t True s w w2 by (auto simp: start_loop.simps[of dl st c])
    qed
  next
    case False
    then show ?thesis
      using "1.prems"(1) t waited_lost[OF quiet_still[OF q] p1, of st] by (auto simp: start_loop.simps[of dl st c])
  qed
qed

lemma c_str_nul_pad: "0 \<notin> set s \<Longrightarrow> c_str (nul_pad n s) = s"
  by (simp add: c_str_takeWhile nul_pad_def takeWhile_nz_nul_pad)

lemma waited_inv:
  assumes "waited st c c'" "client_inv c" "\<not> cl_session_active c"
    "c_string_ok VW_MAX_MODEL_ID_BYTES (c_str (st_model_id st))"
    "c_str (st_source_url st) \<noteq> [] \<longrightarrow> c_string_ok VW_MAX_SOURCE_URL_BYTES (c_str (st_source_url st))"
  shows "advance c c'"
  using assms still_framed[of c c'] by (auto simp: advance_def waited_def client_inv_def still_def)

text \<open>
  The stages of \<^verbatim>\<open>vw_worker_client_start_session\<close>: refused before anything was sent, or
  sent under a fresh session identifier.
\<close>

definition fresh_epoch :: "bytes \<Rightarrow> vw_worker_client \<Rightarrow> ipc_net \<Rightarrow> vw_worker_client" where
  "fresh_epoch sid c n = c\<lparr>cl_session_active := False, cl_worker_source_active := False, cl_net := n, cl_session_id := sid\<rparr>"

lemma start_session_cases:
  assumes "vw_worker_client_start_session c origin model url = (ok, c')"
  obtains (refused) "\<not> ok" "c' = c"
  | (no_random) n where "\<not> ok" "c' = c\<lparr>cl_session_active := False, cl_worker_source_active := False, cl_net := n\<rparr>"
      "nt_sent n = nt_sent (cl_net c)" "nt_in n = nt_in (cl_net c)" "nt_events n = nt_events (cl_net c)"
  | (unsent) sid n where "\<not> ok" "c' = fresh_epoch sid c n" "length sid = VW_SESSION_ID_BYTES"
      "nt_sent n = nt_sent (cl_net c)" "nt_in n = nt_in (cl_net c)" "nt_events n = nt_events (cl_net c)"
  | (lost) sid n where "\<not> ok" "failed (fresh_epoch sid c n) c'" "length sid = VW_SESSION_ID_BYTES"
      "nt_sent n = nt_sent (cl_net c)" "nt_in n = nt_in (cl_net c)" "nt_events n = nt_events (cl_net c)" "cl_pipe c"
  | (asked) sid n body c1 c2 where "length sid = VW_SESSION_ID_BYTES" "cl_pipe c"
      "nt_sent n = nt_sent (cl_net c)" "nt_in n = nt_in (cl_net c)" "nt_events n = nt_events (cl_net c)"
      "fst (take_random VW_SESSION_ID_BYTES (cl_net c)) = Some sid"
      "case model of Some m \<Rightarrow> length m < VW_MAX_MODEL_ID_BYTES | None \<Rightarrow> True"
      "case url of Some u \<Rightarrow> length u < VW_MAX_SOURCE_URL_BYTES | None \<Rightarrow> True"
      "vw_protocol_encode_payload (msg_code VW_MSG_START_SESSION)
         (Some (P_START (start_message (fresh_epoch sid c n) origin model url))) 2048 = Some body"
      "sent (fresh_epoch sid c n) c1 (VW_MSG_START_SESSION, body)" "quiet c1 c2 []"
      "\<not> ok \<and> c' = c2 \<or> (\<exists>dl. start_loop dl (start_message (fresh_epoch sid c n) origin model url) c2 = (ok, c'))"
proof (cases "cl_pipe c \<and> (case model of Some m \<Rightarrow> length m < VW_MAX_MODEL_ID_BYTES | None \<Rightarrow> True)")
  case False
  then have "\<not> ok \<and> c' = c"
    using assms by (auto simp: vw_worker_client_start_session_def not_le split: option.splits if_splits)
  then show thesis using refused by blast
next
  case True
  then have g: "cl_pipe c" "(case model of Some m \<Rightarrow> length m < VW_MAX_MODEL_ID_BYTES | None \<Rightarrow> True)"
    "\<not> (case model of Some m \<Rightarrow> length m \<ge> VW_MAX_MODEL_ID_BYTES | None \<Rightarrow> False)"
    by (auto split: option.splits)
  let ?c = "c\<lparr>cl_session_active := False, cl_worker_source_active := False\<rparr>"
  obtain r n where rn: "take_random VW_SESSION_ID_BYTES (cl_net c) = (r, n)" by fastforce
  have on: "on_net (take_random VW_SESSION_ID_BYTES) ?c = (r, ?c\<lparr>cl_net := n\<rparr>)" using rn by (simp add: on_net_def)
  have nn: "nt_sent n = nt_sent (cl_net c)" "nt_in n = nt_in (cl_net c)" "nt_events n = nt_events (cl_net c)"
    using take_random_simps[of VW_SESSION_ID_BYTES "cl_net c"] rn by simp_all
  show thesis
  proof (cases r)
    case None
    have "\<not> ok" "c' = ?c\<lparr>cl_net := n\<rparr>"
      using assms g on None by (auto simp: vw_worker_client_start_session_def Let_def)
    then show thesis using no_random[of n] nn by simp
  next
    case (Some sid)
    have len: "length sid = VW_SESSION_ID_BYTES" using take_random_length rn Some by simp
    let ?f = "fresh_epoch sid c n"
    have f: "?c\<lparr>cl_net := n, cl_session_id := sid\<rparr> = ?f" by (simp add: fresh_epoch_def)
    have eq: "(ok, c') = (if (case url of Some u \<Rightarrow> length u \<ge> VW_MAX_SOURCE_URL_BYTES | None \<Rightarrow> False) then (False, ?f)
       else (case vw_protocol_encode_payload (msg_code VW_MSG_START_SESSION)
           (Some (P_START (start_message ?f origin model url))) 2048 of
         None \<Rightarrow> (False, ?f)
       | Some payload \<Rightarrow>
           (case send_message VW_MSG_START_SESSION payload ?f of (ok, c) \<Rightarrow>
              if \<not> ok then (False, c)
              else case on_net (vw_worker_client_make_deadline 5000000) c of
                  (None, c) \<Rightarrow> (False, c)
                | (Some deadline_us, c) \<Rightarrow> start_loop deadline_us (start_message ?f origin model url) c)))"
      using assms g(1,3) on Some unfolding vw_worker_client_start_session_def Let_def fresh_epoch_def
      by (simp only: if_False not_True_eq_False prod.case option.case f)
    show thesis
    proof (cases "(case url of Some u \<Rightarrow> length u < VW_MAX_SOURCE_URL_BYTES | None \<Rightarrow> True) \<and>
        vw_protocol_encode_payload (msg_code VW_MSG_START_SESSION) (Some (P_START (start_message ?f origin model url))) 2048 \<noteq> None")
      case False
      then have "\<not> ok \<and> c' = ?f" using eq by (auto simp: not_le split: option.splits if_splits)
      then show thesis using unsent[of sid n] len nn by blast
    next
      case u: True
      then have u2: "\<not> (case url of Some u \<Rightarrow> length u \<ge> VW_MAX_SOURCE_URL_BYTES | None \<Rightarrow> False)"
        by (auto split: option.splits)
      from u obtain body where b: "vw_protocol_encode_payload (msg_code VW_MSG_START_SESSION)
          (Some (P_START (start_message ?f origin model url))) 2048 = Some body" by blast
      obtain k c1 where k: "send_message VW_MSG_START_SESSION body ?f = (k, c1)" by fastforce
      obtain d c2 where d: "on_net (vw_worker_client_make_deadline 5000000) c1 = (d, c2)" by fastforce
      from k show thesis
      proof (cases rule: send_message_cases)
        case 1
        have "\<not> ok \<and> c' = c2 \<or> (\<exists>dl. start_loop dl (start_message ?f origin model url) c2 = (ok, c'))"
          using eq u2 b k 1 d by (auto split: option.splits)
        then show thesis using asked[OF len g(1) nn _ g(2) conjunct1[OF u] b 1(2) quiet_deadline[OF d]] rn Some by simp
      next
        case 2
        then have "\<not> ok" "c' = c1" using eq u2 b k by auto
        then show thesis using lost[of sid n] 2 len nn g(1) by blast
      qed
    qed
  qed
qed

lemma fresh_epoch_inv: "client_inv c \<Longrightarrow> length sid = VW_SESSION_ID_BYTES \<Longrightarrow> client_inv (fresh_epoch sid c n)"
  by (simp add: fresh_epoch_def client_inv_def)

lemma fresh_epoch_advance:
  "client_inv c \<Longrightarrow> length sid = VW_SESSION_ID_BYTES \<Longrightarrow> nt_sent n = nt_sent (cl_net c) \<Longrightarrow>
     nt_events n = nt_events (cl_net c) \<Longrightarrow> advance c (fresh_epoch sid c n)"
  by (simp add: advance_def fresh_epoch_inv) (simp add: client_framed_def fresh_epoch_def pipe_once_def)

lemma encode_start_sz:
  "vw_protocol_encode_payload (msg_code VW_MSG_START_SESSION) (Some (P_START p)) sz = Some body \<Longrightarrow>
     length (st_session_id p) = 16 \<Longrightarrow> length body \<le> sz"
  using encode_start_length[of sz p body] by (simp add: vw_protocol_encode_payload_def)

text \<open>The request that was sent is acceptable, and so is any session it leads to.\<close>

lemma asked_ok:
  assumes "start_ok origin model url" "client_inv c" "length sid = VW_SESSION_ID_BYTES"
    "case model of Some m \<Rightarrow> length m < VW_MAX_MODEL_ID_BYTES | None \<Rightarrow> True"
    "case url of Some u \<Rightarrow> length u < VW_MAX_SOURCE_URL_BYTES | None \<Rightarrow> True"
    "vw_protocol_encode_payload (msg_code VW_MSG_START_SESSION)
       (Some (P_START (start_message (fresh_epoch sid c n) origin model url))) 2048 = Some body"
  shows "sendable (VW_MSG_START_SESSION, body)"
    "c_string_ok VW_MAX_MODEL_ID_BYTES (c_str (st_model_id (start_message (fresh_epoch sid c n) origin model url)))"
    "c_str (st_source_url (start_message (fresh_epoch sid c n) origin model url)) = (case url of Some u \<Rightarrow> u | None \<Rightarrow> [])"
    "c_str (st_source_url (start_message (fresh_epoch sid c n) origin model url)) \<noteq> [] \<longrightarrow>
       c_string_ok VW_MAX_SOURCE_URL_BYTES (c_str (st_source_url (start_message (fresh_epoch sid c n) origin model url)))"
proof -
  obtain m where m: "model = Some m" "m \<noteq> []" "0 \<notin> set m" "length m < VW_MAX_MODEL_ID_BYTES"
    using assms(1,4) by (auto simp: start_ok_def split: option.splits)
  note s = start_message_ok[OF assms(1)[unfolded m(1)] m(4) fresh_epoch_inv[OF assms(2,3)] assms(5), of n]
  show "sendable (VW_MSG_START_SESSION, body)"
    by (rule sendable_encode[OF assms(6)])
      (use s m(1) encode_start_sz[OF assms(6)] assms(3) in \<open>simp_all add: vw_limits start_message_def fresh_epoch_def\<close>)
  show "c_string_ok VW_MAX_MODEL_ID_BYTES (c_str (st_model_id (start_message (fresh_epoch sid c n) origin model url)))"
    using m by (simp add: start_message_def c_str_nul_pad c_string_ok_def)
  show u: "c_str (st_source_url (start_message (fresh_epoch sid c n) origin model url)) = (case url of Some u \<Rightarrow> u | None \<Rightarrow> [])"
    using assms(1) c_str_nul_pad[of "[]"] by (auto simp: start_message_def c_str_nul_pad start_ok_def split: option.splits)
  show "c_str (st_source_url (start_message (fresh_epoch sid c n) origin model url)) \<noteq> [] \<longrightarrow>
       c_string_ok VW_MAX_SOURCE_URL_BYTES (c_str (st_source_url (start_message (fresh_epoch sid c n) origin model url)))"
    unfolding u using assms(1,5) by (auto simp: c_string_ok_def start_ok_def split: option.splits)
qed

lemma start_session_advance:
  assumes "vw_worker_client_start_session c origin model url = (ok, c')" "client_inv c" "start_ok origin model url"
  shows "advance c c'" "ok \<Longrightarrow> cl_session_active c' \<and> cl_pipe c'"
proof -
  from assms(1) have "advance c c' \<and> (ok \<longrightarrow> cl_session_active c' \<and> cl_pipe c')"
  proof (cases rule: start_session_cases)
    case refused
    then show ?thesis using assms(2) advance_refl by simp
  next
    case (no_random n)
    then show ?thesis using assms(2) by (simp add: advance_def client_inv_def client_framed_def pipe_once_def)
  next
    case (unsent sid n)
    then show ?thesis using fresh_epoch_advance[OF assms(2)] by simp
  next
    case (lost sid n)
    show ?thesis
      using lost(1) advance_trans[OF fresh_epoch_advance[OF assms(2) lost(3,4,6)] failed_advance[OF lost(2) fresh_epoch_inv[OF assms(2) lost(3)]]]
      by simp
  next
    case (asked sid n body c1 c2)
    let ?f = "fresh_epoch sid c n"
    note o = asked_ok[OF assms(3,2) asked(1,7,8,9)]
    have pf: "cl_pipe ?f" "\<not> cl_session_active ?f" using asked(2) by (simp_all add: fresh_epoch_def)
    note a1 = sent_advance[OF asked(10) fresh_epoch_inv[OF assms(2) asked(1)] pf(1) o(1)]
    have i1: "client_inv c1" using a1 by (simp add: advance_def)
    note a2 = quiet_advance[OF asked(11) i1]
    note a = advance_trans[OF fresh_epoch_advance[OF assms(2) asked(1,3,5)] advance_trans[OF a1 a2]]
    have c1: "cl_pipe c1" "\<not> cl_session_active c1" using asked(10) pf by (auto simp: sent_def)
    have c2: "cl_pipe c2" "\<not> cl_session_active c2" "client_inv c2"
      using quiet_fields(1,6)[OF asked(11)] c1 a2 by (simp_all add: advance_def)
    from asked(12) show ?thesis
    proof
      assume "\<exists>dl. start_loop dl (start_message ?f origin model url) c2 = (ok, c')"
      then obtain dl where w: "start_loop dl (start_message ?f origin model url) c2 = (ok, c')" by blast
      from start_loop_waited[OF w c2(1)] show ?thesis
        using advance_trans[OF a waited_inv[OF _ c2(3,2) o(2,4)]] by blast
    qed (use a in simp)
  qed
  then show "advance c c'" "ok \<Longrightarrow> cl_session_active c' \<and> cl_pipe c'" by blast+
qed

lemma restart_epoch_advance:
  assumes "restart_epoch c pts = (ok, c')" "client_inv c" "cl_session_active c" "cl_active_source_url c \<noteq> []" "in_i64 pts"
  shows "advance c c'" "ok \<Longrightarrow> cl_session_active c' \<and> cl_pipe c'"
proof -
  let ?m = "cl_active_model_id c" and ?u = "cl_active_source_url c"
  obtain k1 c1 where k1: "send_control_frame VW_MSG_STOP_SESSION VW_CTRL_REASON_SEEK_DISCONTINUITY c = (k1, c1)" by fastforce
  let ?c1 = "c1\<lparr>cl_session_active := False, cl_worker_source_active := False\<rparr>"
  obtain k2 c2 where k2: "vw_worker_client_start_session ?c1 pts (Some ?m) (Some ?u) = (k2, c2)" by fastforce
  obtain k3 c3 where k3: "vw_worker_client_send_translate_ctrl c2 (cl_translate_enabled c) (Some (cl_translate_source_lang c))
      (Some (cl_translate_target_lang c)) (cl_translate_mode c) = (k3, c3)" by fastforce
  have inv: "?m \<noteq> []" "0 \<notin> set ?m" "0 \<notin> set ?u" using assms(2-4) by (auto simp: client_inv_def c_string_ok_def)
  have a1: "advance c c1" using control_advance[OF k1 assms(2)] by (simp add: vw_codes)
  then have a1': "advance c ?c1" by (simp add: advance_def client_inv_def client_framed_def pipe_once_def split: if_splits)
  have so: "start_ok pts (Some ?m) (Some ?u)" using inv assms(4,5) by (simp add: start_ok_def)
  have i1: "client_inv ?c1" using a1' by (simp add: advance_def)
  note s2 = start_session_advance[OF k2 i1 so]
  have i2: "client_inv c2" using s2(1) by (simp add: advance_def)
  note a2 = advance_trans[OF a1' s2(1)]
  have a3: "advance c c3" if "cl_translation_configured c"
  proof (rule advance_trans[OF a2 translate_ctrl_advance[OF k3 i2]])
    show "translation_ok (Some (cl_translate_source_lang c)) (Some (cl_translate_target_lang c)) (cl_translate_mode c)"
      using that assms(2) by (simp add: translation_ok_def client_inv_def)
  qed
  have ad: "advance c (vw_worker_client_drop_transport c2)" using advance_trans[OF a2 drop_advance[OF i2]] .
  have eq: "(ok, c') = (if \<not> k1 then (False, c1) else if \<not> k2 then (False, c2)
      else if \<not> cl_worker_source_active c2 then (False, vw_worker_client_drop_transport c2)
      else if cl_translation_configured c \<and> cl_worker_capabilities c2 AND VW_CAPABILITY_TRANSLATION \<noteq> 0 then (k3, c3)
      else (True, c2))"
    using assms(1) k2 k3 inv(1) unfolding restart_epoch_def Let_def k1 prod.case by (auto split: if_splits)
  show "advance c c'" using eq a1 a2 a3 ad by (auto split: if_splits)
  have act3: "cl_session_active c3 \<and> cl_pipe c3" if "k3" "cl_session_active c2" "cl_pipe c2"
    using k3 that
    by (auto simp: vw_worker_client_send_translate_ctrl_def remember_translation_def sent_def
        elim!: send_message_cases split: if_splits option.splits prod.splits)
  show "ok \<Longrightarrow> cl_session_active c' \<and> cl_pipe c'"
    using eq s2(2) act3 by (auto split: if_splits)
qed

lemma position_advance:
  assumes "vw_worker_client_send_position c pts input rate flags = (ok, c')" "client_inv c" "position_ok pts input flags"
  shows "advance c c'"
proof -
  have f: "position_ok pts input (flags AND NOT VW_POSITION_FLAG_SEEK)"
  proof -
    have "(flags AND NOT VW_POSITION_FLAG_SEEK) AND NOT 3 = (flags AND NOT 3) AND NOT VW_POSITION_FLAG_SEEK"
      by (simp only: ac_simps)
    then show ?thesis using assms(3) by (simp add: position_ok_def)
  qed
  have p: "in_i64 pts" using assms(3) by (simp add: position_ok_def in_i64_def INT64_MIN_def INT64_MAX_def)
  show ?thesis
  proof (cases "cl_pipe c \<and> cl_session_active c")
    case True
    show ?thesis
    proof (cases "flags AND VW_POSITION_FLAG_SEEK \<noteq> 0 \<and> cl_worker_source_active c \<and> cl_active_source_url c \<noteq> []")
      case seek: True
      obtain k c1 where k: "restart_epoch c pts = (k, c1)" by fastforce
      note r = restart_epoch_advance[OF k assms(2) conjunct2[OF True] conjunct2[OF conjunct2[OF seek]] p]
      show ?thesis
      proof (cases k)
        case K: True
        have i: "client_inv c1" using r(1) by (simp add: advance_def)
        have "vw_worker_client_send_position_frame c1 pts input rate (flags AND NOT VW_POSITION_FLAG_SEEK) = (ok, c')"
          using assms(1) True seek k K by (simp add: vw_worker_client_send_position_def)
        from position_frame_advance[OF this i _ f] r(2)[OF K] show ?thesis using advance_trans[OF r(1)] by blast
      next
        case False
        then show ?thesis using assms(1) True seek k r(1) by (auto simp: vw_worker_client_send_position_def)
      qed
    next
      case False
      then show ?thesis
        using assms True position_frame_advance[of c pts input rate flags ok c']
        by (auto simp: vw_worker_client_send_position_def split: if_splits)
    qed
  next
    case False
    then show ?thesis using assms advance_refl by (auto simp: vw_worker_client_send_position_def)
  qed
qed

section \<open>What receiving a frame means for the stream\<close>

text \<open>
  The specification is over the sequence of frames in the stream.  \<open>seen\<close> is the last
  sequence number taken from the worker; a frame is passed over when its number is not newer
  or when it is not one of the four messages for the plugin.
\<close>

definition seen :: "vw_worker_client \<Rightarrow> u64 option" where
  "seen c = (if cl_worker_sequence_valid c then Some (cl_last_worker_sequence c) else None)"

definition is_stale :: "u64 option \<Rightarrow> vw_frame_header \<Rightarrow> bool" where
  "is_stale l h \<longleftrightarrow> (case l of Some s \<Rightarrow> fh_sequence h \<le> s | None \<Rightarrow> False)"

fun passed_over :: "u64 option \<Rightarrow> (vw_frame_header \<times> bytes) list \<Rightarrow> bool" where
  "passed_over l [] = True"
| "passed_over l ((h, bs) # fs) =
     (if is_stale l h then passed_over l fs else worker_message h bs = None \<and> passed_over (Some (fh_sequence h)) fs)"

fun seen_after :: "u64 option \<Rightarrow> (vw_frame_header \<times> bytes) list \<Rightarrow> u64 option" where
  "seen_after l [] = l"
| "seen_after l ((h, bs) # fs) = seen_after (if is_stale l h then l else Some (fh_sequence h)) fs"

definition frame_bytes :: "(vw_frame_header \<times> bytes) list \<Rightarrow> bytes" where
  "frame_bytes fs = concat (map (\<lambda>(h, bs). header_image h @ bs) fs)"

definition whole_frame :: "vw_frame_header \<times> bytes \<Rightarrow> bool" where
  "whole_frame f \<longleftrightarrow> vw_protocol_validate_header (Some (fst f)) \<and> length (snd f) = unat (fh_payload_length (fst f))"

text \<open>How a call ends, on the rest of the stream after the frames passed over.\<close>

definition outcome :: "u64 option \<Rightarrow> bytes \<Rightarrow> recv_status \<times> vw_worker_recv option \<Rightarrow> vw_worker_client \<Rightarrow> bool" where
  "outcome l rest r c' \<longleftrightarrow>
     (case fst r of
        VW_IPC_RECV_OK \<Rightarrow> cl_pipe c' \<and> (\<exists>h bs m. whole_frame (h, bs) \<and> rest = header_image h @ bs @ nt_in (cl_net c')
           \<and> \<not> is_stale l h \<and> worker_message h bs = Some m \<and> snd r = Some m \<and> seen c' = Some (fh_sequence h))
      | VW_IPC_RECV_TIMEOUT \<Rightarrow> cl_pipe c' \<and> snd r = None \<and> rest = nt_in (cl_net c') \<and> seen c' = l
      | VW_IPC_RECV_FATAL \<Rightarrow> \<not> cl_pipe c' \<and> snd r = None)"

definition received :: "vw_worker_client \<Rightarrow> recv_status \<times> vw_worker_recv option \<Rightarrow> vw_worker_client \<Rightarrow> bool" where
  "received c r c' \<longleftrightarrow> (\<exists>fs rest. list_all whole_frame fs \<and> passed_over (seen c) fs
     \<and> nt_in (cl_net c) = frame_bytes fs @ rest \<and> outcome (seen_after (seen c) fs) rest r c')"

lemma frame_bytes_Cons [simp]: "frame_bytes ((h, bs) # fs) = header_image h @ bs @ frame_bytes fs" "frame_bytes [] = []"
  by (simp_all add: frame_bytes_def)

lemma client_inv_noted [simp]: "client_inv (noted h c) = client_inv c"
  by (simp add: client_inv_def)

lemma quiet_seen: "quiet c c' bs \<Longrightarrow> seen c' = seen c"
  by (simp add: seen_def quiet_fields)

lemma seen_noted [simp]: "seen (noted h c) = Some (fh_sequence h)"
  by (simp add: seen_def)

text \<open>A frame in front of a receive: passed over when it is stale, or noted and skipped.\<close>

lemma received_Cons:
  assumes "nt_in (cl_net c) = header_image h @ bs @ nt_in (cl_net c1)" "whole_frame (h, bs)"
    "if is_stale (seen c) h then seen c1 = seen c else worker_message h bs = None \<and> seen c1 = Some (fh_sequence h)"
    "received c1 r c'"
  shows "received c r c'"
proof -
  from assms(4) obtain fs rest where f: "list_all whole_frame fs" "passed_over (seen c1) fs"
    "nt_in (cl_net c1) = frame_bytes fs @ rest" "outcome (seen_after (seen c1) fs) rest r c'"
    by (auto simp: received_def)
  show ?thesis
    unfolding received_def
    by (rule exI[of _ "(h, bs) # fs"], rule exI[of _ rest]) (use f assms(1-3) in \<open>auto split: if_splits\<close>)
qed

lemma received_Nil: "outcome (seen c) (nt_in (cl_net c)) r c' \<Longrightarrow> received c r c'"
  unfolding received_def by (rule exI[of _ "[]"], rule exI[of _ "nt_in (cl_net c)"]) simp

lemma still_drop_inv: "still c c1 \<Longrightarrow> cl_pipe c1 \<Longrightarrow> client_inv c \<Longrightarrow> client_inv (vw_worker_client_drop_transport c1)"
  by (simp add: still_def client_inv_def vw_worker_client_drop_transport_def)

lemma receive_frame_loop_received:
  "receive_frame_loop dl c = (r, c') \<Longrightarrow> cl_pipe c \<Longrightarrow> received c r c' \<and> still c c' \<and> (client_inv c \<longrightarrow> client_inv c')"
proof (induction dl c arbitrary: r c' rule: receive_frame_loop.induct)
  case (1 dl c)
  obtain t c1 where t: "on_net take_clock c = (t, c1)" by fastforce
  note q = quiet_clock[OF t]
  have i1: "nt_in (cl_net c) = nt_in (cl_net c1)" using q by (simp add: quiet_def)
  note b = quiet_seen[OF q] quiet_inv[OF q] quiet_still[OF q] quiet_fields(1)[OF q]
  have p1: "cl_pipe c1" using b(4) "1.prems"(2) by simp
  have to: "received c r c' \<longleftrightarrow> received c1 r c'" for r c' using i1 b(1) by (simp add: received_def)
  show ?case
  proof (cases "t < dl")
    case True
    obtain s c2 where s: "receive_step dl c1 = (s, c2)" by fastforce
    have nxt: "receive_frame_loop dl c2 = (r, c')" if "s = None"
      using "1.prems"(1) t True s that by (simp add: receive_frame_loop.simps[of dl c])
    have stop: "(r, c') = (x, c2)" if "s = Some x" for x
      using "1.prems"(1) t True s that by (simp add: receive_frame_loop.simps[of dl c])
    note IH = "1.IH"[OF t[symmetric] True s[symmetric] _ nxt]
    from s have "received c1 r c' \<and> still c1 c' \<and> (client_inv c1 \<longrightarrow> client_inv c')"
    proof (cases rule: receive_step_cases)
      case timeout
      have "received c1 (VW_IPC_RECV_TIMEOUT, None) c2"
        by (rule received_Nil)
          (use quiet_seen[OF timeout(1)] quiet_fields(1)[OF timeout(1)] timeout(1) p1 in \<open>simp add: outcome_def quiet_def\<close>)
      then show ?thesis using stop[OF timeout(2)] quiet_still[OF timeout(1)] quiet_inv[OF timeout(1)] by simp
    next
      case (lost c3)
      have "received c1 (VW_IPC_RECV_FATAL, None) c2" using lost(4) by (intro received_Nil) (simp add: outcome_def)
      then show ?thesis
        using stop[OF lost(3)] lost(4) still_trans[OF lost(1) drop_still] still_drop_inv[OF lost(1)] lost(2) p1 by simp
    next
      case (stale h bs)
      have c2: "cl_pipe c2" using quiet_fields(1)[OF stale(1)] p1 by simp
      note ih = IH[OF stale(6) stale(6) c2]
      have "received c1 r c'"
        by (rule received_Cons[of c1 h bs c2])
          (use stale ih in \<open>auto simp: quiet_def[of c1] whole_frame_def is_stale_def quiet_seen[OF stale(1)] seen_def[of c1]\<close>)
      then show ?thesis using ih still_trans[OF quiet_still[OF stale(1)]] quiet_inv[OF stale(1)] by simp
    next
      case (frame h bs)
      have c2: "cl_pipe c2" using quiet_fields(1)[OF frame(1)] p1 by simp
      have st: "still c1 c2" using still_trans[OF still_noted quiet_still[OF frame(1)]] .
      have inv: "client_inv c2 = client_inv c1" using quiet_inv[OF frame(1)] by simp
      have sn: "seen c2 = Some (fh_sequence h)" using quiet_seen[OF frame(1)] by simp
      have ns: "\<not> is_stale (seen c1) h" using frame(4) by (auto simp: is_stale_def seen_def)
      have i2: "nt_in (cl_net c1) = header_image h @ bs @ nt_in (cl_net c2)" using frame(1) by (simp add: quiet_def)
      have wf: "whole_frame (h, bs)" using frame(2,3) by (simp add: whole_frame_def)
      show ?thesis
      proof (cases "worker_message h bs")
        case None
        then have n: "s = None" using frame(5) by simp
        note ih = IH[OF n n c2]
        have "received c1 r c'" by (rule received_Cons[OF i2 wf]) (use None sn ns ih in auto)
        then show ?thesis using ih still_trans[OF st] inv by simp
      next
        case (Some m)
        then have "(r, c') = ((VW_IPC_RECV_OK, Some m), c2)" using stop frame(5) by simp
        moreover have "received c1 (VW_IPC_RECV_OK, Some m) c2"
          by (rule received_Nil) (use Some i2 wf sn ns c2 in \<open>auto simp: outcome_def\<close>)
        ultimately show ?thesis using st inv by simp
      qed
    qed
    then show ?thesis using to still_trans[OF b(3)] b(2) by simp
  next
    case False
    have "received c (VW_IPC_RECV_TIMEOUT, None) c1"
      by (rule received_Nil) (use i1 p1 b(1) in \<open>simp add: outcome_def\<close>)
    then show ?thesis
      using "1.prems"(1) t False b by (auto simp: receive_frame_loop.simps[of dl c])
  qed
qed

section \<open>Runs of the client\<close>

datatype client_op =
    Op_start i64 "bytes option" "bytes option"
  | Op_position i64 i64 u32 u32
  | Op_audio vw_audio_chunk
  | Op_model_ctrl u8 "bytes option"
  | Op_translate_ctrl bool "bytes option" "bytes option" u8
  | Op_stop u16
  | Op_pause
  | Op_resume
  | Op_receive u32

fun client_step :: "client_op \<Rightarrow> vw_worker_client \<Rightarrow> vw_worker_client" where
  "client_step (Op_start origin model url) c = snd (vw_worker_client_start_session c origin model url)"
| "client_step (Op_position pts input rate flags) c = snd (vw_worker_client_send_position c pts input rate flags)"
| "client_step (Op_audio chunk) c = snd (vw_worker_client_send_audio c chunk)"
| "client_step (Op_model_ctrl action model) c = snd (vw_worker_client_send_model_ctrl c action model)"
| "client_step (Op_translate_ctrl enabled src dst mode) c = snd (vw_worker_client_send_translate_ctrl c enabled src dst mode)"
| "client_step (Op_stop reason) c = vw_worker_client_stop_session c reason"
| "client_step Op_pause c = vw_worker_client_pause_session c"
| "client_step Op_resume c = vw_worker_client_resume_session c"
| "client_step (Op_receive timeout_us) c = snd (vw_worker_client_receive_frame c timeout_us)"

text \<open>The arguments for which the worker accepts the message.\<close>

fun client_op_ok :: "client_op \<Rightarrow> bool" where
  "client_op_ok (Op_start origin model url) = start_ok origin model url"
| "client_op_ok (Op_position pts input rate flags) = position_ok pts input flags"
| "client_op_ok (Op_audio chunk) = chunk_ok chunk"
| "client_op_ok (Op_model_ctrl action model) = (action = 1 \<or> action = 2)"
| "client_op_ok (Op_translate_ctrl enabled src dst mode) = translation_ok src dst mode"
| "client_op_ok (Op_stop reason) = (reason = 0 \<or> reason = 1 \<or> reason = 2 \<or> reason = 3)"
| "client_op_ok _ = True"

lemma stop_advance:
  assumes "client_inv c" "reason = 0 \<or> reason = 1 \<or> reason = 2 \<or> reason = 3"
  shows "advance c (vw_worker_client_stop_session c reason)"
proof (cases "cl_pipe c \<and> cl_session_active c")
  case True
  let ?r = "if reason = 0 then VW_CTRL_REASON_USER_STOP else reason"
  obtain k c1 where k: "send_control_frame VW_MSG_STOP_SESSION ?r c = (k, c1)" by fastforce
  have "advance c c1" using control_advance[OF k assms(1)] assms(2) by (auto simp: vw_codes)
  then show ?thesis
    using True k by (auto simp: vw_worker_client_stop_session_def advance_def client_inv_def client_framed_def pipe_once_def)
next
  case False
  then show ?thesis using assms(1) advance_refl by (auto simp: vw_worker_client_stop_session_def)
qed

lemma pause_resume_advance:
  assumes "client_inv c"
  shows "advance c (vw_worker_client_pause_session c)" "advance c (vw_worker_client_resume_session c)"
  using assms advance_refl control_advance[of VW_MSG_PAUSE 1 c] control_advance[of VW_MSG_RESUME 1 c]
  by (auto simp: vw_worker_client_pause_session_def vw_worker_client_resume_session_def split: prod.splits)
    (metis prod.collapse)+

lemma receive_cases:
  assumes "vw_worker_client_receive_frame c timeout_us = (r, c')"
  obtains (closed) "\<not> cl_pipe c" "c' = c" "r = (VW_IPC_RECV_FATAL, None)"
  | (no_clock) "quiet c c' []" "r = (VW_IPC_RECV_FATAL, None)"
  | (ran) c1 where "cl_pipe c" "quiet c c1 []" "received c1 r c'" "still c1 c'" "client_inv c1 \<longrightarrow> client_inv c'"
proof (cases "cl_pipe c")
  case True
  obtain d c1 where d: "on_net (vw_worker_client_make_deadline (int (unat timeout_us))) c = (d, c1)" by fastforce
  note q = quiet_deadline[OF d]
  show thesis
  proof (cases d)
    case None
    then have "r = (VW_IPC_RECV_FATAL, None)" "c' = c1"
      using assms True d by (simp_all add: vw_worker_client_receive_frame_def)
    then show thesis using no_clock q by blast
  next
    case (Some dl)
    then have "receive_frame_loop dl c1 = (r, c')" using assms True d by (simp add: vw_worker_client_receive_frame_def)
    from receive_frame_loop_received[OF this] show thesis using ran[OF True q] quiet_fields(1)[OF q] True by simp
  qed
next
  case False
  then have "r = (VW_IPC_RECV_FATAL, None)" "c' = c" using assms by (simp_all add: vw_worker_client_receive_frame_def)
  then show thesis using closed False by blast
qed

lemma receive_advance:
  assumes "vw_worker_client_receive_frame c timeout_us = (r, c')" "client_inv c"
  shows "advance c c'"
  using assms(1)
proof (cases rule: receive_cases)
  case closed
  then show ?thesis using assms(2) advance_refl by simp
next
  case no_clock
  then show ?thesis using quiet_advance assms(2) by blast
next
  case (ran c1)
  note a = quiet_advance[OF ran(2) assms(2)]
  then have "advance c1 c'" using ran(4,5) still_framed[of c1 c'] by (simp add: advance_def still_def)
  then show ?thesis by (rule advance_trans[OF a])
qed

lemma client_step_advance:
  assumes "client_inv c" "client_op_ok x"
  shows "advance c (client_step x c)"
proof (cases x)
  case (Op_start o1 m u)
  then show ?thesis using start_session_advance(1)[OF _ assms(1)] assms(2) by (simp add: prod_eq_iff)
next
  case (Op_position a b r f)
  then show ?thesis using position_advance[OF _ assms(1)] assms(2) by (simp add: prod_eq_iff)
next
  case (Op_audio ch)
  then show ?thesis using audio_advance[OF _ assms(1)] assms(2) by (simp add: prod_eq_iff)
next
  case (Op_model_ctrl a m)
  then show ?thesis using model_ctrl_advance[OF _ assms(1)] assms(2) by (simp add: prod_eq_iff)
next
  case (Op_translate_ctrl e s d m)
  then show ?thesis using translate_ctrl_advance[OF _ assms(1)] assms(2) by (simp add: prod_eq_iff)
next
  case (Op_receive t)
  then show ?thesis using receive_advance[OF _ assms(1)] by (simp add: prod_eq_iff)
qed (use assms stop_advance pause_resume_advance in auto)

interpretation client: frame_sender client_step client_op_ok client_inv cl_pipe cl_sequence "\<lambda>c. nt_sent (cl_net c)" sendable
proof
  fix c x m
  show "client_inv c \<Longrightarrow> client_op_ok x \<Longrightarrow> client_inv (client_step x c)"
    using client_step_advance[of c x] by (simp add: advance_def)
  show "client_inv c \<Longrightarrow> client_op_ok x \<Longrightarrow> framed sendable (cl_pipe c) (cl_sequence c) (nt_sent (cl_net c)) \<Longrightarrow>
     framed sendable (cl_pipe (client_step x c)) (cl_sequence (client_step x c)) (nt_sent (cl_net (client_step x c)))"
    using client_step_advance[of c x] by (simp add: advance_def client_framed_def)
  show "sendable m \<Longrightarrow> fits m" by (simp add: sendable_def)
qed

section \<open>Launching\<close>

lemma hello_sendable:
  assumes "vw_protocol_encode_payload (msg_code VW_MSG_HELLO) (Some (P_HELLO (client_hello tok))) 256 = Some body"
    "length tok = VW_AUTH_TOKEN_BYTES"
  shows "sendable (VW_MSG_HELLO, body)"
proof (rule sendable_encode[OF assms(1)])
  show "length body \<le> 256"
    using assms(1) enc_all_length[of 256 _ "[]" body]
    by (force simp: vw_protocol_encode_payload_def encode_hello_def split: if_splits)
qed (use assms(2) in \<open>simp_all add: client_hello_def ascii_def vw_protocol_validate_payload_def vw_limits\<close>)

lemma read_hello_ack_laws:
  assumes "read_hello_ack dl c = (ok, c')"
  obtains c1 bs cap mi where "quiet c c1 bs"
    "c' = c1 \<and> \<not> ok \<or> c' = c1\<lparr>cl_worker_capabilities := cap, cl_worker_protocol_minor := mi\<rparr>"
proof -
  obtain st hdr c1 where r1: "on_net (receive_all 20 dl) c = ((st, hdr), c1)" by (metis surj_pair)
  note q1 = quiet_receive(1)[OF r1]
  obtain h where h: "h = the (vw_protocol_decode_header hdr)" by blast
  obtain b c3 where b: "read_body h dl c1 = (b, c3)" by fastforce
  from read_body_laws[OF b] obtain bs where "quiet c1 c3 bs" by blast
  note q3 = quiet_trans[OF q1 this]
  have "c' = c1 \<and> \<not> ok \<or> c' = c3 \<and> \<not> ok
      \<or> (\<exists>cap mi. c' = c3\<lparr>cl_worker_capabilities := cap, cl_worker_protocol_minor := mi\<rparr>)"
    using assms b r1 h by (auto simp: read_hello_ack_def split: if_splits option.splits vw_payload.splits)
  then show thesis using that[OF q1] that[OF q3] by blast
qed

text \<open>The handshake changes the transport and what is known about the peer, and sends one frame.\<close>

definition same_client :: "vw_worker_client \<Rightarrow> vw_worker_client \<Rightarrow> bool" where
  "same_client c c' \<longleftrightarrow> cl_pipe c' = cl_pipe c \<and> cl_process c' = cl_process c \<and> cl_sequence c' = cl_sequence c
     \<and> cl_session_id c' = cl_session_id c \<and> cl_language c' = cl_language c \<and> cl_session_active c' = cl_session_active c
     \<and> cl_translation_configured c' = cl_translation_configured c \<and> nt_events (cl_net c') = nt_events (cl_net c)"

lemma same_client_trans: "same_client a b \<Longrightarrow> same_client b c \<Longrightarrow> same_client a c"
  by (simp add: same_client_def)

lemma same_client_refl [simp]: "same_client c c"
  by (simp add: same_client_def)

lemma same_client_quiet: "quiet c c' bs \<Longrightarrow> same_client c c'"
  using quiet_fields[of c c' bs] quiet_still[of c c' bs] by (simp add: same_client_def still_def quiet_def)

lemma handshake_laws:
  assumes "handshake tok c = (ok, c')"
  shows "same_client c c'"
    "ok \<Longrightarrow> \<exists>body. vw_protocol_encode_payload (msg_code VW_MSG_HELLO) (Some (P_HELLO (client_hello tok))) 256 = Some body
       \<and> nt_sent (cl_net c') = nt_sent (cl_net c) @ frame_wire 1 (VW_MSG_HELLO, body)"
proof -
  have "same_client c c' \<and> (ok \<longrightarrow> (\<exists>body.
      vw_protocol_encode_payload (msg_code VW_MSG_HELLO) (Some (P_HELLO (client_hello tok))) 256 = Some body
       \<and> nt_sent (cl_net c') = nt_sent (cl_net c) @ frame_wire 1 (VW_MSG_HELLO, body)))"
  proof (cases "vw_protocol_encode_payload (msg_code VW_MSG_HELLO) (Some (P_HELLO (client_hello tok))) 256")
    case None
    then show ?thesis using assms by (simp add: handshake_def)
  next
    case (Some body)
    let ?h = "header_image (frame_header VW_MSG_HELLO (length body) 1)"
    obtain k c1 where k: "on_net (send_parts ?h body) c = (k, c1)" by fastforce
    from on_net_sends[OF k] obtain n where n: "c1 = c\<lparr>cl_net := n\<rparr>" "nt_events n = nt_events (cl_net c)"
      "k \<longrightarrow> nt_sent n = nt_sent (cl_net c) @ ?h @ body" by blast
    obtain d c2 where d: "on_net (vw_worker_client_make_deadline VW_HANDSHAKE_TIMEOUT_US) c1 = (d, c2)" by fastforce
    obtain a c3 where a: "read_hello_ack (the d) c2 = (a, c3)" by fastforce
    have eq: "(ok, c') = (if \<not> k then (False, c1) else case d of None \<Rightarrow> (False, c2) | Some _ \<Rightarrow> (a, c3))"
      using assms Some k d a by (auto simp: handshake_def vw_protocol_encode_header_def split: option.splits)
    have s1: "same_client c c1" using n(1,2) by (simp add: same_client_def)
    note q = quiet_deadline[OF d]
    note s2 = same_client_trans[OF s1 same_client_quiet[OF q]]
    from a obtain c4 bs cap mi where r: "quiet c2 c4 bs"
      "c3 = c4 \<and> \<not> a \<or> c3 = c4\<lparr>cl_worker_capabilities := cap, cl_worker_protocol_minor := mi\<rparr>"
      by (rule read_hello_ack_laws)
    have s3: "same_client c c3"
      using same_client_trans[OF s2 same_client_quiet[OF r(1)]] r(2) by (auto simp: same_client_def)
    have "nt_sent (cl_net c3) = nt_sent n" using q r n(1) by (auto simp: quiet_def)
    then have w: "k \<longrightarrow> nt_sent (cl_net c3) = nt_sent (cl_net c) @ frame_wire 1 (VW_MSG_HELLO, body)"
      using n(3) by (simp add: frame_wire_def)
    show ?thesis using eq s1 s2 s3 w Some by (auto split: if_splits option.splits)
  qed
  then show "same_client c c'"
    "ok \<Longrightarrow> \<exists>body. vw_protocol_encode_payload (msg_code VW_MSG_HELLO) (Some (P_HELLO (client_hello tok))) 256 = Some body
       \<and> nt_sent (cl_net c') = nt_sent (cl_net c) @ frame_wire 1 (VW_MSG_HELLO, body)" by blast+
qed

lemma launch_client:
  assumes "vw_worker_client_launch_and_connect_ex e n exe ep tok model backend language threads gpu dir logging = Inr c"
    "nt_sent n = []" "length tok = VW_AUTH_TOKEN_BYTES" "language_ok (or_default language (ascii ''en'')) False"
  shows "client_inv c" "client_framed c" "cl_pipe c"
proof -
  from assms(1) obtain m where m: "handshake tok (new_client (exe \<noteq> None) language m) = (True, c)" "nt_sent m = nt_sent n"
    by (auto simp: vw_worker_client_launch_and_connect_ex_def Let_def log_event_def take_mem_def
        split: if_splits prod.splits option.splits list.splits)
  note h = handshake_laws[OF m(1)]
  show "client_inv c" "cl_pipe c"
    using h(1) assms(4) language_cut[OF assms(4)]
    by (simp_all add: same_client_def new_client_def client_inv_def vw_limits)
  from h(2) obtain body where b: "vw_protocol_encode_payload (msg_code VW_MSG_HELLO) (Some (P_HELLO (client_hello tok))) 256 = Some body"
    "nt_sent (cl_net c) = frame_wire 1 (VW_MSG_HELLO, body)" using m(2) assms(2) by (auto simp: new_client_def)
  have "framed sendable True (0 + 1) ([] @ frame_wire (0 + 1) (VW_MSG_HELLO, body))"
    by (rule framed_send[where P = sendable, OF _ hello_sendable[OF b(1) assms(3)]])
      (auto simp: framed_def intro: exI[of _ "[]"])
  then show "client_framed c"
    using h(1) b(2) by (simp add: client_framed_def same_client_def new_client_def)
qed

end
