(* ===== verification/VW_Worker_Client_Props.thy ===== *)
theory VW_Worker_Client_Props
  imports VW_Worker_Client_Laws
begin

text \<open>
  The properties of the worker client: the stream it writes, the frames it accepts, the
  confirmed start of a session, the handles it owns, and the new epoch a seek opens.
\<close>

unbundle bit_operations_syntax


text \<open>Receiving when the bytes are there, for evaluating examples.\<close>

lemma receive_all_ready:
  assumes "nt_clock n = t # ts" "0 \<le> t" "t < dl" "nt_recv n = Recv_Bytes k # es" "len \<le> k" "0 < len"
    "nt_in n = bs @ rest" "length bs = len"
  shows "receive_all len dl n = ((VW_IPC_RECV_OK, bs), n\<lparr>nt_clock := ts, nt_recv := es, nt_in := rest\<rparr>)"
proof -
  have "bs \<noteq> []" using assms(6,8) by auto
  then show ?thesis
    using assms unfolding receive_all_def
    by (simp add: receive_loop.simps[of len dl "[]" n] receive_loop.simps[of len dl bs] take_clock_def vw_ipc_receive_def Let_def)
qed

text \<open>A sample environment in which the worker answers the greeting.\<close>

definition sample_ack :: bytes where
  "sample_ack = [1, 0, 6, 0, 0x19, 0, 0, 0, 0, 0]"

definition sample_net :: ipc_net where
  "sample_net = \<lparr>nt_clock = [0, 0, 0, 0], nt_recv = [Recv_Bytes 20, Recv_Bytes 10],
     nt_send = [Send_Ok, Send_Ok, Send_Ok, Send_Ok, Send_Ok, Send_Ok], nt_mem = [True, True], nt_random = [],
     nt_in = frame_wire 1 (VW_MSG_HELLO_ACK, sample_ack), nt_sent = [], nt_events = []\<rparr>"

definition sample_env :: launch_env where
  "sample_env = \<lparr>le_spawn = True, le_connect = [False, True], le_exited = True\<rparr>"

definition sample_launch :: "ipc_net + vw_worker_client" where
  "sample_launch = vw_worker_client_launch_and_connect_ex sample_env sample_net (Some (ascii ''worker'')) (ascii ''pipe'')
     (replicate 32 1) None None (Some (ascii ''en'')) 4 (- 1) None False"

definition sample_client :: vw_worker_client where
  "sample_client = (case sample_launch of Inr c \<Rightarrow> c | Inl n \<Rightarrow> new_client False None n)"

definition sample_ops :: "client_op list" where
  "sample_ops = [Op_model_ctrl 1 (Some (ascii ''tiny'')), Op_pause]"

lemma sample_hello: "\<exists>body. vw_protocol_encode_payload (msg_code VW_MSG_HELLO) (Some (P_HELLO (client_hello (replicate 32 1)))) 256 = Some body"
  by (simp add: vw_protocol_encode_payload_def encode_hello_def client_hello_def enc_all_eq ascii_def ptr_bytes_def)

definition sample_ack_msg :: vw_msg_hello_ack where
  "sample_ack_msg = \<lparr>ha_selected_major = 1, ha_selected_minor = 6, ha_capability_flags = 25, ha_worker_version_length = 0,
     ha_worker_version = Some []\<rparr>"

lemma sample_decode:
  "vw_protocol_decode_payload (msg_code VW_MSG_HELLO_ACK) sample_ack = Some (Some (P_HELLO_ACK sample_ack_msg))"
  "ack_ok sample_ack_msg"
  by code_simp+

lemma sample_header:
  "vw_protocol_decode_header (header_image (frame_header VW_MSG_HELLO_ACK 10 1)) = Some (frame_header VW_MSG_HELLO_ACK 10 1)"
  by (simp add: vw_protocol_decode_header_def header_of_header_image frame_header_valid vw_limits)

definition sample_result :: "bytes \<Rightarrow> ipc_net \<Rightarrow> vw_worker_client" where
  "sample_result body n = (new_client True (Some (ascii ''en'')) (n\<lparr>nt_clock := [0], nt_recv := [], nt_mem := [],
     nt_send := [Send_Ok, Send_Ok, Send_Ok, Send_Ok], nt_in := [],
     nt_sent := header_image (frame_header VW_MSG_HELLO (length body) 1) @ body\<rparr>))
     \<lparr>cl_worker_capabilities := 25, cl_worker_protocol_minor := 6\<rparr>"

lemma sample_handshake:
  assumes b: "vw_protocol_encode_payload (msg_code VW_MSG_HELLO) (Some (P_HELLO (client_hello (replicate 32 1)))) 256 = Some body"
  shows "handshake (replicate 32 1) (new_client True (Some (ascii ''en'')) (sample_net\<lparr>nt_mem := [True], nt_events := ev\<rparr>))
    = (True, sample_result body (sample_net\<lparr>nt_events := ev\<rparr>))"
proof -
  let ?h = "header_image (frame_header VW_MSG_HELLO_ACK 10 1)"
  have r: "receive_all 20 5000000 n = ((VW_IPC_RECV_OK, ?h), n\<lparr>nt_clock := [0, 0], nt_recv := [Recv_Bytes 10], nt_in := sample_ack\<rparr>)"
    if "nt_clock n = [0, 0, 0]" "nt_recv n = [Recv_Bytes 20, Recv_Bytes 10]" "nt_in n = ?h @ sample_ack" for n
    by (rule receive_all_ready[where t = 0 and k = 20]) (use that in simp_all)
  have r2: "receive_all 10 5000000 n = ((VW_IPC_RECV_OK, sample_ack), n\<lparr>nt_clock := [0], nt_recv := [], nt_in := []\<rparr>)"
    if "nt_clock n = [0, 0]" "nt_recv n = [Recv_Bytes 10]" "nt_in n = sample_ack" for n
    by (rule receive_all_ready[where t = 0 and k = 10]) (use that in \<open>simp_all add: sample_ack_def\<close>)
  have f: "fh_type (frame_header VW_MSG_HELLO_ACK 10 1) = msg_code VW_MSG_HELLO_ACK"
    "fh_payload_length (frame_header VW_MSG_HELLO_ACK 10 1) = 10" "fh_major (frame_header VW_MSG_HELLO_ACK 10 1) = 1"
    by (simp_all add: frame_header_def vw_limits)
  have l: "length sample_ack = 10" by (simp add: sample_ack_def)
  show ?thesis
    using b sample_decode
    by (simp add: handshake_def on_net_def send_parts_def vw_ipc_send_def sample_net_def new_client_def
        vw_protocol_encode_header_def vw_worker_client_make_deadline_def take_clock_def VW_HANDSHAKE_TIMEOUT_US_def
        INT64_MAX_def read_hello_ack_def read_body_def frame_wire_def r r2 l sample_header f take_mem_def vw_limits
        sample_result_def sample_ack_msg_def)
qed

lemma sample_launch_ok: "sample_launch = Inr sample_client"
  "\<exists>body ev. sample_client = sample_result body (sample_net\<lparr>nt_events := ev\<rparr>)"
proof -
  obtain body where b: "vw_protocol_encode_payload (msg_code VW_MSG_HELLO) (Some (P_HELLO (client_hello (replicate 32 1)))) 256 = Some body"
    using sample_hello by blast
  have c: "connect_retry VW_WORKER_CLIENT_RETRY_COUNT [False, True]" by code_simp
  have n: "take_mem (log_event x (log_event y sample_net)) = (True, sample_net\<lparr>nt_mem := [True], nt_events := [y, x]\<rparr>)" for x y
    by (simp add: sample_net_def log_event_def take_mem_def)
  have l: "log_event Client_Alloc (sample_net\<lparr>nt_mem := [True], nt_events := [y, x]\<rparr>)
      = sample_net\<lparr>nt_mem := [True], nt_events := [y, x, Client_Alloc]\<rparr>" for x y
    by (simp add: log_event_def)
  have "\<exists>ev. sample_launch = Inr (sample_result body (sample_net\<lparr>nt_events := ev\<rparr>))"
    unfolding sample_launch_def vw_worker_client_launch_and_connect_ex_def
    using c by (simp add: sample_env_def n l sample_handshake[OF b]) blast
  then obtain ev where e: "sample_launch = Inr (sample_result body (sample_net\<lparr>nt_events := ev\<rparr>))" by blast
  then have "sample_client = sample_result body (sample_net\<lparr>nt_events := ev\<rparr>)" unfolding sample_client_def e by simp
  then show "\<exists>body ev. sample_client = sample_result body (sample_net\<lparr>nt_events := ev\<rparr>)" "sample_launch = Inr sample_client"
    using e by (blast, simp only:)
qed

lemma sample_run: "cl_pipe (fold client_step sample_ops sample_client) \<and> cl_sequence (fold client_step sample_ops sample_client) = 2"
proof -
  obtain body ev where c: "sample_client = sample_result body (sample_net\<lparr>nt_events := ev\<rparr>)" using sample_launch_ok(2) by blast
  obtain b where b: "vw_protocol_encode_payload (msg_code VW_MSG_MODEL_CTRL)
      (Some (P_MODEL_CTRL \<lparr>mc_session_id = replicate VW_SESSION_ID_BYTES 0, mc_action = 1,
         mc_model_id = nul_pad 32 (ascii ''tiny'')\<rparr>)) 128 = Some b"
    by (simp add: vw_protocol_encode_payload_def encode_model_ctrl_def enc_all_eq vw_limits ascii_def)
  have "length (ascii ''tiny'') < 32" by (simp add: ascii_def)
  then show ?thesis
    unfolding sample_ops_def c
    by (simp add: vw_worker_client_send_model_ctrl_def b send_message_def Let_def vw_protocol_encode_header_def on_net_def
        send_parts_def vw_ipc_send_def sample_result_def new_client_def vw_worker_client_pause_session_def)
qed


section \<open>Delivering what the worker sends\<close>

lemma validated_caption:
  assumes "validate_caption p"
  shows "unat (cs_text_bytes p) \<le> VW_MAX_TEXT_BYTES" "unat (cs_translated_text_bytes p) \<le> VW_MAX_TEXT_BYTES"
  using assms by (auto simp: validate_caption_def Let_def not_less word_gt_0 split: if_splits)

lemma worker_message_bounds:
  assumes "worker_message h bs = Some m"
  shows "length (wr_text_buf m) \<le> VW_MAX_TEXT_BYTES + 1 \<and> length (wr_trans_text_buf m) \<le> VW_MAX_TEXT_BYTES + 1"
proof -
  obtain t where t: "fh_type h = msg_code t" "t \<in> {VW_MSG_CAPTION_SEGMENT, VW_MSG_STATUS, VW_MSG_ERROR, VW_MSG_MODEL_PROGRESS}"
    using assms by (auto simp: worker_message_def split: if_splits)
  from assms obtain p where p: "vw_protocol_validate_payload (msg_code t) (Some p)"
    "m = (case p of P_CAPTION seg \<Rightarrow> own_caption seg | _ \<Rightarrow> \<lparr>wr_payload = p, wr_text_buf = [], wr_trans_text_buf = []\<rparr>)"
    by (auto simp: worker_message_def t(1) split: if_splits option.splits vw_payload.splits)
  show ?thesis
  proof (cases p)
    case (P_CAPTION seg)
    then have "validate_caption seg" using p(1) t(2) by (auto simp: vw_protocol_validate_payload_def)
    from validated_caption[OF this] P_CAPTION p(2) show ?thesis
      using length_ptr_bytes[of "cs_text_utf8 seg" "unat (cs_text_bytes seg)"]
        length_ptr_bytes[of "cs_translated_text_utf8 seg" "unat (cs_translated_text_bytes seg)"]
      by (auto simp: own_caption_def Let_def)
  qed (use p(2) in simp_all)
qed

text \<open>
  Property C14.  Receiving refines a filter on the stream of frames.  A call either reports a lost
  transport, with the pipe closed unless only the clock failed; or it reports a timeout and has consumed a
  whole number of frames, all of them stale or not meant for the plugin; or it consumes, after
  such frames, one more whole frame, newer than everything taken before, and delivers exactly
  its decoded and validated message, whose texts fit their buffers.
\<close>
theorem vw_worker_client_receive_frame_refines:
  assumes "vw_worker_client_receive_frame c timeout_us = ((st, out), c')" "cl_pipe c"
  shows "(case st of
     VW_IPC_RECV_FATAL \<Rightarrow> out = None \<and> (\<not> cl_pipe c' \<or> nt_in (cl_net c') = nt_in (cl_net c))
   | VW_IPC_RECV_TIMEOUT \<Rightarrow> out = None \<and> cl_pipe c' \<and> (\<exists>fs. list_all whole_frame fs \<and> passed_over (seen c) fs
        \<and> nt_in (cl_net c) = frame_bytes fs @ nt_in (cl_net c') \<and> seen c' = seen_after (seen c) fs)
   | VW_IPC_RECV_OK \<Rightarrow> cl_pipe c' \<and> (\<exists>fs h bs m. list_all whole_frame (fs @ [(h, bs)]) \<and> passed_over (seen c) fs
        \<and> nt_in (cl_net c) = frame_bytes fs @ header_image h @ bs @ nt_in (cl_net c')
        \<and> \<not> is_stale (seen_after (seen c) fs) h \<and> seen c' = Some (fh_sequence h)
        \<and> out = Some m \<and> worker_message h bs = Some m
        \<and> length (wr_text_buf m) \<le> VW_MAX_TEXT_BYTES + 1 \<and> length (wr_trans_text_buf m) \<le> VW_MAX_TEXT_BYTES + 1))"
  using assms(1)
proof (cases rule: receive_cases)
  case closed
  then show ?thesis using assms(2) by simp
next
  case no_clock
  then show ?thesis by (simp add: quiet_def)
next
  case (ran c1)
  have i: "nt_in (cl_net c) = nt_in (cl_net c1)" "seen c1 = seen c" using ran(2) quiet_seen[OF ran(2)] by (simp_all add: quiet_def)
  from ran(3) obtain fs rest where f: "list_all whole_frame fs" "passed_over (seen c) fs" "nt_in (cl_net c) = frame_bytes fs @ rest"
    "outcome (seen_after (seen c) fs) rest (st, out) c'"
    by (auto simp: received_def i)
  show ?thesis
  proof (cases st)
    case VW_IPC_RECV_OK
    with f(4) obtain h bs m where o: "cl_pipe c'" "whole_frame (h, bs)" "rest = header_image h @ bs @ nt_in (cl_net c')"
      "\<not> is_stale (seen_after (seen c) fs) h" "worker_message h bs = Some m" "out = Some m" "seen c' = Some (fh_sequence h)"
      by (auto simp: outcome_def)
    have "list_all whole_frame (fs @ [(h, bs)]) \<and> passed_over (seen c) fs
        \<and> nt_in (cl_net c) = frame_bytes fs @ header_image h @ bs @ nt_in (cl_net c')
        \<and> \<not> is_stale (seen_after (seen c) fs) h \<and> seen c' = Some (fh_sequence h)
        \<and> out = Some m \<and> worker_message h bs = Some m
        \<and> length (wr_text_buf m) \<le> VW_MAX_TEXT_BYTES + 1 \<and> length (wr_trans_text_buf m) \<le> VW_MAX_TEXT_BYTES + 1"
      using f o worker_message_bounds[OF o(5)] by simp
    with o(1) show ?thesis unfolding VW_IPC_RECV_OK recv_status.case by blast
  qed (use f in \<open>auto simp: outcome_def\<close>)
qed

text \<open>A sample: a status frame that is not newer, then a model progress frame.\<close>

definition sample_progress :: bytes where
  "sample_progress = replicate 16 0 @ [1, 50] @ [5, 0, 0, 0, 0, 0, 0, 0] @ [10, 0, 0, 0, 0, 0, 0, 0] @ replicate 32 0"

definition sample_listener :: vw_worker_client where
  "sample_listener = new_client False None
     \<lparr>nt_clock = [0, 0, 0, 0, 0], nt_recv = [Recv_Bytes 20, Recv_Bytes 66], nt_send = [], nt_mem = [True], nt_random = [],
      nt_in = header_image (frame_header VW_MSG_MODEL_PROGRESS 66 2) @ sample_progress, nt_sent = [], nt_events = []\<rparr>"

lemma sample_progress_message:
  "\<exists>m. worker_message (frame_header VW_MSG_MODEL_PROGRESS 66 2) sample_progress = Some m"
proof -
  have d: "vw_protocol_decode_payload (msg_code VW_MSG_MODEL_PROGRESS) sample_progress = Some (Some (P_MODEL_PROGRESS
    \<lparr>mp_session_id = replicate 16 0, mp_stage = 1, mp_pct = 50, mp_bytes_done = 5, mp_bytes_total = 10, mp_model_id = replicate 32 0\<rparr>))"
    by code_simp
  show ?thesis
    using d by (simp add: worker_message_def frame_header_def vw_protocol_validate_payload_def validate_model_progress_def)
qed

lemma sample_listener_run:
  "\<exists>m c'. vw_worker_client_receive_frame sample_listener 100 = ((VW_IPC_RECV_OK, Some m), c')"
proof -
  let ?h = "frame_header VW_MSG_MODEL_PROGRESS 66 2"
  obtain m where m: "worker_message ?h sample_progress = Some m" using sample_progress_message by blast
  have r: "receive_all 20 100 n = ((VW_IPC_RECV_OK, header_image ?h), n\<lparr>nt_clock := [0, 0], nt_recv := [Recv_Bytes 66], nt_in := sample_progress\<rparr>)"
    if "nt_clock n = [0, 0, 0]" "nt_recv n = [Recv_Bytes 20, Recv_Bytes 66]" "nt_in n = header_image ?h @ sample_progress" for n
    by (rule receive_all_ready[where t = 0 and k = 20]) (use that in simp_all)
  have r2: "receive_all 66 3000000 n = ((VW_IPC_RECV_OK, sample_progress), n\<lparr>nt_clock := [], nt_recv := [], nt_in := []\<rparr>)"
    if "nt_clock n = [0]" "nt_recv n = [Recv_Bytes 66]" "nt_in n = sample_progress" for n
    by (rule receive_all_ready[where t = 0 and k = 66]) (use that in \<open>simp_all add: sample_progress_def\<close>)
  have v: "vw_protocol_validate_header (Some ?h)" by (rule frame_header_valid) (simp add: vw_limits)
  have d: "vw_protocol_decode_header (header_image ?h) = Some ?h"
    by (simp add: vw_protocol_decode_header_def header_of_header_image v)
  have f: "fh_payload_length ?h = 66" by (simp add: frame_header_def)
  show ?thesis
    by (simp add: vw_worker_client_receive_frame_def sample_listener_def new_client_def on_net_def
        vw_worker_client_make_deadline_def take_clock_def INT64_MAX_def receive_frame_loop.simps receive_step_def r r2 d v f
        accept_frame_def read_body_def take_mem_def m)
qed

theorem vw_worker_client_receive_frame_refines_witness:
  "\<exists>m c' fs h bs. vw_worker_client_receive_frame sample_listener 100 = ((VW_IPC_RECV_OK, Some m), c') \<and> cl_pipe sample_listener
     \<and> nt_in (cl_net sample_listener) = frame_bytes fs @ header_image h @ bs @ nt_in (cl_net c')
     \<and> worker_message h bs = Some m"
proof -
  obtain m c' where r: "vw_worker_client_receive_frame sample_listener 100 = ((VW_IPC_RECV_OK, Some m), c')"
    using sample_listener_run by blast
  have p: "cl_pipe sample_listener" by (simp add: sample_listener_def new_client_def)
  from vw_worker_client_receive_frame_refines[OF r p] r p show ?thesis by auto
qed

section \<open>Session confirmation\<close>

lemma start_loop_confirmed:
  "start_loop dl st c = (True, c') \<Longrightarrow> cl_pipe c \<Longrightarrow> \<exists>pre h bs. nt_in (cl_net c) = pre @ header_image h @ bs @ nt_in (cl_net c')
     \<and> fh_type h = msg_code VW_MSG_STARTED \<and> length bs = unat (fh_payload_length h)
     \<and> (cl_worker_protocol_minor c \<ge> 6 \<longrightarrow> length bs = VW_MSG_STARTED_PAYLOAD_BYTES)
     \<and> confirms bs c (cl_worker_source_active c')"
proof (induction dl st c arbitrary: c' rule: start_loop.induct)
  case (1 dl st c)
  obtain t c1 where t: "on_net take_clock c = (t, c1)" by fastforce
  note q = quiet_clock[OF t]
  have i1: "nt_in (cl_net c) = nt_in (cl_net c1)" using q by (simp add: quiet_def)
  note f = quiet_fields[OF q]
  have cf: "confirms bs c1 a = confirms bs c a" for bs a by (simp only: confirms_def f(2))
  have p1: "cl_pipe c1" using f(1) "1.prems"(2) by simp
  have lt: "t < dl" using "1.prems"(1) t by (simp add: start_loop.simps[of dl st c] split: if_splits)
  obtain r c2 where s: "start_step dl st c1 = (r, c2)" by fastforce
  have e: "(case r of Some r \<Rightarrow> (r, c2) | None \<Rightarrow> start_loop dl st c2) = (True, c')"
    using "1.prems"(1) t lt s by (simp add: start_loop.simps[of dl st c] split: option.splits)
  from s show ?case
  proof (cases rule: start_step_cases)
    case (skip h bs)
    have l: "start_loop dl st c2 = (True, c')" using e skip(4) by simp
    have "cl_pipe c2" using quiet_fields(1)[OF skip(1)] p1 by simp
    from "1.IH"[OF t[symmetric] lt s[symmetric] skip(4) l this] obtain pre h' bs' where
      x: "nt_in (cl_net c2) = pre @ header_image h' @ bs' @ nt_in (cl_net c')" "fh_type h' = msg_code VW_MSG_STARTED"
      "length bs' = unat (fh_payload_length h')" "cl_worker_protocol_minor c2 \<ge> 6 \<longrightarrow> length bs' = VW_MSG_STARTED_PAYLOAD_BYTES"
      "confirms bs' c2 (cl_worker_source_active c')" by blast
    have "nt_in (cl_net c) = (header_image h @ bs @ pre) @ header_image h' @ bs' @ nt_in (cl_net c')"
      using i1 skip(1) x(1) by (simp add: quiet_def)
    moreover have "confirms bs' c (cl_worker_source_active c')"
      using x(5) by (simp only: confirms_def f(2) quiet_fields(2)[OF skip(1)])
    ultimately show ?thesis using x(2-4) f(8) quiet_fields(8)[OF skip(1)] by metis
  next
    case (started h c3 bs a)
    have "c' = activate st a c3" using e started(5,6) by simp
    then have "nt_in (cl_net c) = [] @ header_image h @ bs @ nt_in (cl_net c')" "cl_worker_source_active c' = a"
      using started(1) i1 by (simp_all add: activate_def quiet_def)
    then show ?thesis
      by (intro exI[of _ "[]"] exI[of _ h] exI[of _ bs]) (use started(3,4,8,9) f(8) cf in simp)
  qed (use e in simp_all)
qed

text \<open>
  Property C15.  A session counts as started only when the worker said so for this very session: a
  successful start has drawn a fresh random identifier, sent exactly one frame, the request
  with that identifier, and has read a confirmation from the stream, which carries the
  identifier unless the peer speaks a protocol older than minor version 6.
\<close>
theorem vw_worker_client_start_session_confirmed:
  assumes "vw_worker_client_start_session c origin model url = (True, c')" "client_inv c" "start_ok origin model url"
  shows "cl_session_active c' \<and> fst (take_random VW_SESSION_ID_BYTES (cl_net c)) = Some (cl_session_id c')
    \<and> cl_sequence c' = cl_sequence c + 1
    \<and> (\<exists>body st. nt_sent (cl_net c') = nt_sent (cl_net c) @ frame_wire (cl_sequence c + 1) (VW_MSG_START_SESSION, body)
         \<and> vw_protocol_decode_payload (msg_code VW_MSG_START_SESSION) body = Some (Some (P_START st))
         \<and> st_session_id st = cl_session_id c')
    \<and> (\<exists>pre h bs. nt_in (cl_net c) = pre @ header_image h @ bs @ nt_in (cl_net c') \<and> fh_type h = msg_code VW_MSG_STARTED
         \<and> confirms bs c' (cl_worker_source_active c')
         \<and> (cl_worker_protocol_minor c \<ge> 6 \<longrightarrow> length bs = VW_MSG_STARTED_PAYLOAD_BYTES))"
  using assms(1)
proof (cases rule: start_session_cases)
  case (asked sid n body c1 c2)
  let ?f = "fresh_epoch sid c n"
  let ?st = "start_message ?f origin model url"
  obtain dl where w: "start_loop dl ?st c2 = (True, c')" using asked(12) by auto
  have s: "c1 = ?f\<lparr>cl_sequence := cl_sequence c + 1, cl_net := cl_net c1\<rparr>" "nt_in (cl_net c1) = nt_in (cl_net c)"
    "nt_sent (cl_net c1) = nt_sent (cl_net c) @ frame_wire (cl_sequence c + 1) (VW_MSG_START_SESSION, body)"
    using asked(3,4,10) by (auto simp: sent_def fresh_epoch_def)
  have f1: "cl_pipe c1" "cl_session_id c1 = sid" "cl_sequence c1 = cl_sequence c + 1" "cl_worker_protocol_minor c1 = cl_worker_protocol_minor c"
    using asked(2,10) by (auto simp: sent_def fresh_epoch_def)
  note q = quiet_fields[OF asked(11)]
  have p2: "cl_pipe c2" using q(1) f1(1) by simp
  have wt: "waited ?st c2 c'" "cl_session_active c'" using start_loop_waited[OF w p2] by simp_all
  have k: "nt_sent (cl_net c') = nt_sent (cl_net c1)" "cl_sequence c' = cl_sequence c1" "cl_session_id c' = sid"
    using wt(1) asked(11) q f1 by (auto simp: waited_def still_def quiet_def)
  from start_loop_confirmed[OF w p2] obtain pre h bs where
    x: "nt_in (cl_net c2) = pre @ header_image h @ bs @ nt_in (cl_net c')" "fh_type h = msg_code VW_MSG_STARTED"
      "cl_worker_protocol_minor c2 \<ge> 6 \<longrightarrow> length bs = VW_MSG_STARTED_PAYLOAD_BYTES" "confirms bs c2 (cl_worker_source_active c')"
    by blast
  have cf: "confirms bs c' (cl_worker_source_active c')"
    using x(4) by (simp only: confirms_def k(3) q(2) f1(2))
  have i: "nt_in (cl_net c) = pre @ header_image h @ bs @ nt_in (cl_net c')" using x(1) s(2) asked(11) by (simp add: quiet_def)
  obtain m where m: "model = Some m" using assms(3) by (auto simp: start_ok_def split: option.splits)
  have "vw_protocol_decode_payload (msg_code VW_MSG_START_SESSION) body = Some (Some (P_START ?st))"
    using decode_encode_payload[OF start_message_ok(1,2)[OF assms(3)[unfolded m] _ fresh_epoch_inv[OF assms(2) asked(1)] asked(8)] _ asked(9)[unfolded m]]
      asked(7) m by simp
  moreover have "st_session_id ?st = cl_session_id c'" using k(3) by (simp add: start_message_def fresh_epoch_def)
  ultimately show ?thesis
    using wt(2) asked(6) k f1 s(3) i x(2,3) cf q(8) by auto
qed simp_all

lemma encode_start_total:
  assumes "length (st_session_id p) = 16" "1141 \<le> sz"
  shows "\<exists>bs. encode_start sz p = Some bs"
proof -
  have "\<exists>m l u. m \<le> 63 \<and> l \<le> 15 \<and> u \<le> 1023 \<and> encode_start sz p =
      enc_all sz ([st_session_id p, enc_i64 (st_timeline_origin_pts_us p), enc_u32 (st_sample_rate p), enc_u16 (st_channels p),
           enc_u16 (st_sample_format p), enc_u16 (of_nat m), take m (st_model_id p), enc_u16 (of_nat l), take l (st_language p),
           enc_u16 (st_source_kind p), enc_u16 (of_nat u)] @ (if u > 0 then [take u (st_source_url p)] else [])) []"
    unfolding encode_start_def Let_def vw_limits
    by (intro exI conjI, rule_tac [4] refl) (auto simp: min_def)
  then obtain m l u where "m \<le> 63" "l \<le> 15" "u \<le> 1023" "encode_start sz p =
      enc_all sz ([st_session_id p, enc_i64 (st_timeline_origin_pts_us p), enc_u32 (st_sample_rate p), enc_u16 (st_channels p),
           enc_u16 (st_sample_format p), enc_u16 (of_nat m), take m (st_model_id p), enc_u16 (of_nat l), take l (st_language p),
           enc_u16 (st_source_kind p), enc_u16 (of_nat u)] @ (if u > 0 then [take u (st_source_url p)] else [])) []" by blast
  then show ?thesis using assms by (auto simp: enc_all_eq split: if_splits)
qed

definition sample_starter :: vw_worker_client where
  "sample_starter = (new_client False None
     \<lparr>nt_clock = [0, 0, 0, 0], nt_recv = [Recv_Bytes 20, Recv_Bytes 17], nt_send = [Send_Ok, Send_Ok], nt_mem = [True],
      nt_random = [Some (replicate 16 7)],
      nt_in = header_image (frame_header VW_MSG_STARTED 17 2) @ replicate 16 7 @ [1], nt_sent = [], nt_events = []\<rparr>)
     \<lparr>cl_worker_protocol_minor := 6\<rparr>"

lemma sample_starter_inv: "client_inv sample_starter \<and> start_ok 0 (Some (ascii ''tiny'')) None"
proof -
  have "language_ok (cl_language (new_client False None n)) False" for n
    by (simp add: new_client_def or_default_def language_cut[OF default_languages(2)] default_languages(2))
  then show ?thesis
    by (simp add: client_inv_def sample_starter_def start_ok_def in_i64_def INT64_MIN_def INT64_MAX_def ascii_def)
      (simp add: new_client_def vw_limits)
qed

lemma sample_started_reply:
  fixes c :: vw_worker_client
  assumes "nt_clock (cl_net c) = [0, 0, 0]" "nt_recv (cl_net c) = [Recv_Bytes 20, Recv_Bytes 17]"
    "nt_in (cl_net c) = header_image (frame_header VW_MSG_STARTED 17 2) @ replicate 16 7 @ [1]" "nt_mem (cl_net c) = [True]"
    "cl_session_id c = replicate 16 7" "\<not> cl_worker_sequence_valid c"
  shows "start_loop 5000000 st c = (True, activate st True (c\<lparr>cl_last_worker_sequence := 2, cl_worker_sequence_valid := True,
     cl_net := (cl_net c)\<lparr>nt_mem := [], nt_clock := [], nt_recv := [], nt_in := []\<rparr>\<rparr>))"
proof -
  let ?h = "frame_header VW_MSG_STARTED 17 2" and ?b = "replicate 16 7 @ [1] :: bytes"
  have r: "receive_all 20 5000000 n = ((VW_IPC_RECV_OK, header_image ?h), n\<lparr>nt_clock := [0], nt_recv := [Recv_Bytes 17], nt_in := ?b\<rparr>)"
    if "nt_clock n = [0, 0]" "nt_recv n = [Recv_Bytes 20, Recv_Bytes 17]" "nt_in n = header_image ?h @ ?b" for n
    by (rule receive_all_ready[where t = 0 and k = 20]) (use that in simp_all)
  have r2: "receive_all 17 5000000 n = ((VW_IPC_RECV_OK, ?b), n\<lparr>nt_clock := [], nt_recv := [], nt_in := []\<rparr>)"
    if "nt_clock n = [0]" "nt_recv n = [Recv_Bytes 17]" "nt_in n = ?b" for n
    by (rule receive_all_ready[where t = 0 and k = 17]) (use that in simp_all)
  have d: "vw_protocol_decode_header (header_image ?h) = Some ?h"
    by (simp add: vw_protocol_decode_header_def header_of_header_image frame_header_valid vw_limits)
  have f: "fh_payload_length ?h = 17" "fh_type ?h = msg_code VW_MSG_STARTED" "fh_sequence ?h = 2" by (simp_all add: frame_header_def)
  have b: "vw_protocol_decode_payload (msg_code VW_MSG_STARTED) ?b = Some (Some (P_STARTED \<lparr>sd_session_id = replicate 16 7, sd_source_active = 1\<rparr>))"
    by code_simp
  show ?thesis
    using assms
    by (simp add: on_net_def take_clock_def start_loop.simps[of _ _ c] start_step_def r r2 d f started_reply_def read_body_def take_mem_def b vw_limits)
qed

lemma sample_starter_run:
  "\<exists>c'. vw_worker_client_start_session sample_starter 0 (Some (ascii ''tiny'')) None = (True, c')"
proof -
  obtain body where e: "vw_protocol_encode_payload (msg_code VW_MSG_START_SESSION) (Some (P_START (start_message
      (fresh_epoch (replicate 16 7) sample_starter (cl_net sample_starter\<lparr>nt_random := []\<rparr>)) 0 (Some (ascii ''tiny'')) None))) 2048 = Some body"
    using encode_start_total[of "start_message (fresh_epoch (replicate 16 7) sample_starter (cl_net sample_starter\<lparr>nt_random := []\<rparr>)) 0 (Some (ascii ''tiny'')) None" 2048]
    by (auto simp: vw_protocol_encode_payload_def start_message_def fresh_epoch_def)
  have l: "length (ascii ''tiny'') < VW_MAX_MODEL_ID_BYTES" by (simp add: ascii_def vw_limits)
  show ?thesis
    using e l
    by (simp add: vw_worker_client_start_session_def sample_starter_def new_client_def fresh_epoch_def on_net_def take_random_def vw_limits
        send_message_def vw_protocol_encode_header_def send_parts_def vw_ipc_send_def vw_worker_client_make_deadline_def
        take_clock_def INT64_MAX_def sample_started_reply)
qed

theorem vw_worker_client_start_session_confirmed_witness:
  "\<exists>c'. vw_worker_client_start_session sample_starter 0 (Some (ascii ''tiny'')) None = (True, c')
     \<and> client_inv sample_starter \<and> start_ok 0 (Some (ascii ''tiny'')) None
     \<and> fst (take_random VW_SESSION_ID_BYTES (cl_net sample_starter)) = Some (cl_session_id c') \<and> cl_sequence c' = 2"
proof -
  obtain c' where r: "vw_worker_client_start_session sample_starter 0 (Some (ascii ''tiny'')) None = (True, c')"
    using sample_starter_run by blast
  have s: "cl_sequence sample_starter = 1" by (simp add: sample_starter_def new_client_def)
  from vw_worker_client_start_session_confirmed[OF r] r sample_starter_inv s show ?thesis by auto
qed

section \<open>Resources\<close>

definition occurrences :: "(resource_event \<Rightarrow> bool) \<Rightarrow> resource_event list \<Rightarrow> nat" where
  "occurrences P es = length (filter P es)"

text \<open>Everything acquired is released, once.\<close>

definition balanced :: "resource_event list \<Rightarrow> bool" where
  "balanced es \<longleftrightarrow>
     occurrences (\<lambda>e. e = Pipe_Open) es = occurrences (\<lambda>e. e = Pipe_Close) es
     \<and> occurrences (\<lambda>e. \<exists>a. e = Proc_Spawn a) es = occurrences (\<lambda>e. e = Proc_Terminate \<or> e = Proc_Close) es
     \<and> occurrences (\<lambda>e. e = Client_Alloc) es = occurrences (\<lambda>e. e = Client_Free) es"

lemma client_run_advance: "client_inv c \<Longrightarrow> list_all client_op_ok ops \<Longrightarrow> advance c (fold client_step ops c)"
proof (induction ops arbitrary: c)
  case Nil
  then show ?case by (simp add: advance_refl)
next
  case (Cons x ops)
  have a: "advance c (client_step x c)" using client_step_advance[of c x] Cons.prems by simp
  then have "client_inv (client_step x c)" by (simp add: advance_def)
  from Cons.IH[OF this] Cons.prems(2) show ?case using advance_trans[OF a] by simp
qed

lemma launch_events:
  assumes "nt_events n = []"
  shows "case vw_worker_client_launch_and_connect_ex e n exe ep tok model backend language threads gpu dir logging of
      Inl n' \<Rightarrow> balanced (nt_events n')
    | Inr c \<Rightarrow> cl_pipe c \<and> cl_process c = (exe \<noteq> None)
        \<and> (\<exists>argv. nt_events (cl_net c) = (if exe \<noteq> None then [Proc_Spawn argv] else []) @ [Pipe_Open, Client_Alloc])"
proof -
  define argv where "argv = (case exe of Some x \<Rightarrow> worker_argv x ep tok model backend language threads gpu dir logging | None \<Rightarrow> [])"
  define n1 where "n1 = (case exe of Some x \<Rightarrow> log_event (Proc_Spawn argv) n | None \<Rightarrow> n)"
  have e1: "nt_events n1 = (if exe \<noteq> None then [Proc_Spawn argv] else [])"
    using assms by (simp add: n1_def log_event_def split: option.splits)
  obtain m n2 where m: "take_mem (log_event Pipe_Open n1) = (m, n2)" by fastforce
  have e2: "nt_events n2 = nt_events n1 @ [Pipe_Open]"
    using take_mem_simps(3)[of "log_event Pipe_Open n1", unfolded m] by (simp add: log_event_def)
  obtain k c where k: "handshake tok (new_client (exe \<noteq> None) language (log_event Client_Alloc n2)) = (k, c)" by fastforce
  have h: "cl_pipe c" "cl_process c = (exe \<noteq> None)" "nt_events (cl_net c) = nt_events n2 @ [Client_Alloc]"
    using handshake_laws(1)[OF k] by (simp_all add: same_client_def new_client_def log_event_def)
  have eq: "vw_worker_client_launch_and_connect_ex e n exe ep tok model backend language threads gpu dir logging =
     (if exe \<noteq> None \<and> \<not> le_spawn e then Inl n
      else if \<not> connect_retry VW_WORKER_CLIENT_RETRY_COUNT (le_connect e) then
        Inl (if exe \<noteq> None then end_process 1000 (le_exited e) n1 else n1)
      else if \<not> m then Inl (if exe \<noteq> None then end_process 1000 (le_exited e) (log_event Pipe_Close n2) else log_event Pipe_Close n2)
      else if k then Inr c else Inl (vw_worker_client_disconnect (le_exited e) c))"
    using m k unfolding vw_worker_client_launch_and_connect_ex_def Let_def n1_def argv_def by (cases exe) simp_all
  show ?thesis
    unfolding eq using assms e1 e2 h
    by (auto simp: balanced_def occurrences_def end_process_def log_event_def vw_worker_client_disconnect_def Let_def)
qed

text \<open>
  Property.  Nothing is leaked and nothing is released twice.  However a launch fails, and
  whatever operations follow a successful one before the client is disconnected, every pipe
  that was opened is closed once, the client is freed once, and a spawned process is closed or
  terminated once.
\<close>
theorem vw_worker_client_no_leak:
  assumes "nt_events n = []" "nt_sent n = []" "length tok = VW_AUTH_TOKEN_BYTES"
    "language_ok (or_default language (ascii ''en'')) False" "list_all client_op_ok ops"
  shows "balanced (case vw_worker_client_launch_and_connect_ex e n exe ep tok model backend language threads gpu dir logging of
      Inl n' \<Rightarrow> nt_events n'
    | Inr c \<Rightarrow> nt_events (vw_worker_client_disconnect exited (fold client_step ops c)))"
proof (cases "vw_worker_client_launch_and_connect_ex e n exe ep tok model backend language threads gpu dir logging")
  case (Inl n')
  then show ?thesis using launch_events[OF assms(1), where e = e and exe = exe and ep = ep and tok = tok and model = model and backend = backend
      and language = language and threads = threads and gpu = gpu and dir = dir and logging = logging] by simp
next
  case (Inr c)
  let ?c = "fold client_step ops c"
  obtain argv where l: "cl_pipe c" "cl_process c = (exe \<noteq> None)"
    "nt_events (cl_net c) = (if exe \<noteq> None then [Proc_Spawn argv] else []) @ [Pipe_Open, Client_Alloc]"
    using launch_events[OF assms(1), where e = e and exe = exe and ep = ep and tok = tok and model = model and backend = backend
      and language = language and threads = threads and gpu = gpu and dir = dir and logging = logging] Inr by auto
  have "advance c ?c" using client_run_advance[OF launch_client(1)[OF Inr assms(2-4)] assms(5)] .
  then have p: "pipe_once c ?c" "cl_process ?c = (exe \<noteq> None)" using l(2) by (simp_all add: advance_def)
  then show ?thesis
    using Inr l
    by (cases "cl_pipe ?c"; cases exe)
      (simp_all add: Let_def balanced_def occurrences_def end_process_def log_event_def vw_worker_client_disconnect_def pipe_once_def)
qed

theorem vw_worker_client_no_leak_witness:
  "sample_launch = Inr sample_client \<and> list_all client_op_ok sample_ops
   \<and> balanced (nt_events (vw_worker_client_disconnect False (fold client_step sample_ops sample_client)))"
proof -
  have l: "language_ok (or_default (Some (ascii ''en'')) (ascii ''en'')) False" by code_simp
  have o: "list_all client_op_ok sample_ops" by (simp add: sample_ops_def)
  have n: "nt_events sample_net = []" "nt_sent sample_net = []" "length (replicate 32 (1 :: u8)) = VW_AUTH_TOKEN_BYTES"
    by (simp_all add: sample_net_def vw_limits)
  from vw_worker_client_no_leak[OF n l o, where e = sample_env and exe = "Some (ascii ''worker'')" and ep = "ascii ''pipe''"
      and model = None and backend = None and threads = 4 and gpu = "- 1" and dir = None and logging = False and exited = False]
  show ?thesis using sample_launch_ok(1) o by (simp add: sample_launch_def)
qed

section \<open>Seeking\<close>

lemma sent_fields:
  assumes "sent c c' m"
  shows "cl_sequence c' = cl_sequence c + 1" "cl_session_id c' = cl_session_id c" "cl_pipe c' = cl_pipe c"
    "cl_worker_source_active c' = cl_worker_source_active c" "cl_session_active c' = cl_session_active c"
    "cl_worker_capabilities c' = cl_worker_capabilities c"
    "nt_sent (cl_net c') = nt_sent (cl_net c) @ frame_wire (cl_sequence c + 1) m"
  using assms by (auto simp: sent_def)

lemma start_session_sends:
  assumes "vw_worker_client_start_session c origin model url = (True, c')" "client_inv c" "start_ok origin model url"
  obtains body st where "nt_sent (cl_net c') = nt_sent (cl_net c) @ frame_wire (cl_sequence c + 1) (VW_MSG_START_SESSION, body)"
    "vw_protocol_decode_payload (msg_code VW_MSG_START_SESSION) body = Some (Some (P_START st))"
    "st_session_id st = cl_session_id c'" "cl_sequence c' = cl_sequence c + 1" "cl_worker_capabilities c' = cl_worker_capabilities c"
  using assms(1)
proof (cases rule: start_session_cases)
  case (asked sid n body c1 c2)
  let ?f = "fresh_epoch sid c n"
  let ?st = "start_message ?f origin model url"
  obtain dl where w: "start_loop dl ?st c2 = (True, c')" using asked(12) by auto
  have s: "nt_sent (cl_net c1) = nt_sent (cl_net c) @ frame_wire (cl_sequence c + 1) (VW_MSG_START_SESSION, body)"
    "cl_pipe c1" "cl_session_id c1 = sid" "cl_sequence c1 = cl_sequence c + 1" "cl_worker_capabilities c1 = cl_worker_capabilities c"
    using asked(2,3,10) by (auto simp: sent_def fresh_epoch_def)
  have p2: "cl_pipe c2" using quiet_fields(1)[OF asked(11)] s(2) by simp
  have "still c1 c'" using still_trans[OF quiet_still[OF asked(11)]] start_loop_waited[OF w p2] by (simp add: waited_def)
  then have k: "nt_sent (cl_net c') = nt_sent (cl_net c1)" "cl_sequence c' = cl_sequence c1" "cl_session_id c' = sid"
    "cl_worker_capabilities c' = cl_worker_capabilities c1" using s(3) by (simp_all add: still_def)
  obtain m where m: "model = Some m" using assms(3) by (auto simp: start_ok_def split: option.splits)
  have d: "vw_protocol_decode_payload (msg_code VW_MSG_START_SESSION) body = Some (Some (P_START ?st))"
    using decode_encode_payload[OF start_message_ok(1,2)[OF assms(3)[unfolded m] _ fresh_epoch_inv[OF assms(2) asked(1)] asked(8)] _ asked(9)[unfolded m]]
      asked(7) m by simp
  show ?thesis using that[OF _ d] k s by (simp add: start_message_def fresh_epoch_def)
qed simp_all

lemma translate_ctrl_sends:
  assumes "vw_worker_client_send_translate_ctrl c e s t m = (True, c')" "cl_worker_capabilities c AND VW_CAPABILITY_TRANSLATION \<noteq> 0"
  obtains body c1 where "sent c c1 (VW_MSG_TRANSLATE_CTRL, body)" "c' = remember_translation e s t m c1"
  using assms
  by (auto simp: vw_worker_client_send_translate_ctrl_def elim!: send_message_cases split: if_splits option.splits prod.splits)

text \<open>The frames of a new epoch, up to the position.\<close>

definition epoch_frames :: "vw_worker_client \<Rightarrow> bytes \<Rightarrow> bytes \<Rightarrow> bytes \<Rightarrow> message list" where
  "epoch_frames c stop start translate = [(VW_MSG_STOP_SESSION, stop), (VW_MSG_START_SESSION, start)]
     @ (if cl_translation_configured c \<and> cl_worker_capabilities c AND VW_CAPABILITY_TRANSLATION \<noteq> 0
        then [(VW_MSG_TRANSLATE_CTRL, translate)] else [])"

lemma restart_epoch_stages:
  assumes "restart_epoch c pts = (True, c0)" "cl_active_model_id c \<noteq> []"
  obtains c1 c2 where "send_control_frame VW_MSG_STOP_SESSION VW_CTRL_REASON_SEEK_DISCONTINUITY c = (True, c1)"
    "vw_worker_client_start_session (c1\<lparr>cl_session_active := False, cl_worker_source_active := False\<rparr>) pts
       (Some (cl_active_model_id c)) (Some (cl_active_source_url c)) = (True, c2)" "cl_worker_source_active c2"
    "if cl_translation_configured c \<and> cl_worker_capabilities c2 AND VW_CAPABILITY_TRANSLATION \<noteq> 0
     then vw_worker_client_send_translate_ctrl c2 (cl_translate_enabled c) (Some (cl_translate_source_lang c))
       (Some (cl_translate_target_lang c)) (cl_translate_mode c) = (True, c0)
     else c0 = c2"
  using assms by (auto simp: restart_epoch_def Let_def split: if_splits prod.splits)

lemma restart_epoch_sends:
  assumes "restart_epoch c pts = (True, c0)" "client_inv c" "cl_session_active c" "cl_active_source_url c \<noteq> []" "in_i64 pts"
  obtains stop start translate st where
    "nt_sent (cl_net c0) = nt_sent (cl_net c) @ wire_stream (cl_sequence c + 1) (epoch_frames c stop start translate)"
    "cl_sequence c0 = cl_sequence c + of_nat (length (epoch_frames c stop start translate))"
    "vw_protocol_decode_payload (msg_code VW_MSG_STOP_SESSION) stop = Some (Some (P_CONTROL
       \<lparr>ct_session_id = cl_session_id c, ct_reason = VW_CTRL_REASON_SEEK_DISCONTINUITY\<rparr>))"
    "vw_protocol_decode_payload (msg_code VW_MSG_START_SESSION) start = Some (Some (P_START st))"
    "st_session_id st = cl_session_id c0" "cl_session_active c0" "cl_worker_source_active c0"
proof -
  let ?m = "cl_active_model_id c" and ?u = "cl_active_source_url c"
  have inv: "?m \<noteq> []" "0 \<notin> set ?m" "0 \<notin> set ?u" "length (cl_session_id c) = VW_SESSION_ID_BYTES"
    using assms(2-4) by (auto simp: client_inv_def c_string_ok_def)
  from assms(1) inv(1) obtain c1 c2 where
    k1: "send_control_frame VW_MSG_STOP_SESSION VW_CTRL_REASON_SEEK_DISCONTINUITY c = (True, c1)" and
    k2: "vw_worker_client_start_session (c1\<lparr>cl_session_active := False, cl_worker_source_active := False\<rparr>) pts (Some ?m) (Some ?u) = (True, c2)" and
    sa: "cl_worker_source_active c2" and
    k3: "if cl_translation_configured c \<and> cl_worker_capabilities c2 AND VW_CAPABILITY_TRANSLATION \<noteq> 0
       then vw_worker_client_send_translate_ctrl c2 (cl_translate_enabled c) (Some (cl_translate_source_lang c))
         (Some (cl_translate_target_lang c)) (cl_translate_mode c) = (True, c0)
       else c0 = c2"
    by (rule restart_epoch_stages)
  from k1 obtain stop where s1: "sent c c1 (VW_MSG_STOP_SESSION, stop)"
    "vw_protocol_encode_payload (msg_code VW_MSG_STOP_SESSION) (Some (P_CONTROL \<lparr>ct_session_id = cl_session_id c,
       ct_reason = VW_CTRL_REASON_SEEK_DISCONTINUITY\<rparr>)) 64 = Some stop" by (cases rule: send_control_frame_cases) auto
  note f1 = sent_fields[OF s1(1)]
  have d1: "vw_protocol_decode_payload (msg_code VW_MSG_STOP_SESSION) stop = Some (Some (P_CONTROL
       \<lparr>ct_session_id = cl_session_id c, ct_reason = VW_CTRL_REASON_SEEK_DISCONTINUITY\<rparr>))"
    by (rule decode_encode_payload[OF _ _ _ s1(2)]) (use inv(4) in simp_all)
  let ?c1 = "c1\<lparr>cl_session_active := False, cl_worker_source_active := False\<rparr>"
  have i1: "client_inv ?c1" using control_advance[OF k1 assms(2)] by (simp add: advance_def vw_codes client_inv_def)
  have so: "start_ok pts (Some ?m) (Some ?u)" using inv assms(4,5) by (simp add: start_ok_def)
  from k2 i1 so obtain start st where s2:
    "nt_sent (cl_net c2) = nt_sent (cl_net ?c1) @ frame_wire (cl_sequence ?c1 + 1) (VW_MSG_START_SESSION, start)"
    "vw_protocol_decode_payload (msg_code VW_MSG_START_SESSION) start = Some (Some (P_START st))"
    "st_session_id st = cl_session_id c2" "cl_sequence c2 = cl_sequence ?c1 + 1" "cl_worker_capabilities c2 = cl_worker_capabilities ?c1"
    by (rule start_session_sends)
  have act: "cl_session_active c2" using start_session_advance(2)[OF k2 i1 so] by simp
  have cap: "cl_worker_capabilities c2 = cl_worker_capabilities c" using s2(5) f1(6) by simp
  show thesis
  proof (cases "cl_translation_configured c \<and> cl_worker_capabilities c AND VW_CAPABILITY_TRANSLATION \<noteq> 0")
    case True
    then obtain tr c3 where t: "sent c2 c3 (VW_MSG_TRANSLATE_CTRL, tr)" "c0 = remember_translation (cl_translate_enabled c)
        (Some (cl_translate_source_lang c)) (Some (cl_translate_target_lang c)) (cl_translate_mode c) c3"
      using k3 cap translate_ctrl_sends by (metis (no_types, lifting))
    note f3 = sent_fields[OF t(1)]
    show thesis
      by (rule that[of stop start tr st])
        (use True f1 s2 f3 t(2) d1 act sa in \<open>simp_all add: epoch_frames_def remember_translation_def ac_simps\<close>)
  next
    case False
    then have c0: "c0 = c2" and ef: "epoch_frames c stop start [] = [(VW_MSG_STOP_SESSION, stop), (VW_MSG_START_SESSION, start)]"
      using k3 cap by (auto simp: epoch_frames_def)
    show thesis
      by (rule that[of stop start "[]" st]) (use c0 f1 s2 d1 act sa in \<open>simp_all add: ef ac_simps\<close>)
  qed
qed

text \<open>
  Property C16.  A seek in source mode starts a new caption epoch in the documented order: when the
  call succeeds, it has sent a stop for the old session, the start of a new one, the
  translation settings if there were any and the worker knows them, and then the position,
  under the new session and without the seek flag; and the worker has confirmed source mode.
\<close>
theorem vw_worker_client_seek_epoch:
  assumes "vw_worker_client_send_position c pts input rate flags = (True, c')" "client_inv c" "position_ok pts input flags"
    "flags AND VW_POSITION_FLAG_SEEK \<noteq> 0" "cl_worker_source_active c" "cl_active_source_url c \<noteq> []"
  shows "cl_session_active c' \<and> cl_worker_source_active c' \<and> (\<exists>stop start translate position st po.
      nt_sent (cl_net c') = nt_sent (cl_net c)
        @ wire_stream (cl_sequence c + 1) (epoch_frames c stop start translate @ [(VW_MSG_POSITION, position)])
      \<and> vw_protocol_decode_payload (msg_code VW_MSG_STOP_SESSION) stop = Some (Some (P_CONTROL
           \<lparr>ct_session_id = cl_session_id c, ct_reason = VW_CTRL_REASON_SEEK_DISCONTINUITY\<rparr>))
      \<and> vw_protocol_decode_payload (msg_code VW_MSG_START_SESSION) start = Some (Some (P_START st))
      \<and> st_session_id st = cl_session_id c'
      \<and> vw_protocol_decode_payload (msg_code VW_MSG_POSITION) position = Some (Some (P_POSITION po))
      \<and> po_session_id po = cl_session_id c' \<and> po_current_pts_us po = pts \<and> po_flags po = flags AND NOT VW_POSITION_FLAG_SEEK)"
proof -
  obtain k0 c0 where k: "restart_epoch c pts = (k0, c0)" by fastforce
  have e: "cl_session_active c" "restart_epoch c pts = (True, c0)"
    "vw_worker_client_send_position_frame c0 pts input rate (flags AND NOT VW_POSITION_FLAG_SEEK) = (True, c')"
    using assms(1,4-6) k by (auto simp: vw_worker_client_send_position_def split: if_splits)
  have p: "in_i64 pts" "in_i64 input" using assms(3) by (simp_all add: position_ok_def in_i64_def INT64_MIN_def INT64_MAX_def)
  from e(2) assms(2) e(1) assms(6) p(1) obtain stop start translate st where s:
    "nt_sent (cl_net c0) = nt_sent (cl_net c) @ wire_stream (cl_sequence c + 1) (epoch_frames c stop start translate)"
    "cl_sequence c0 = cl_sequence c + of_nat (length (epoch_frames c stop start translate))"
    "vw_protocol_decode_payload (msg_code VW_MSG_STOP_SESSION) stop = Some (Some (P_CONTROL
       \<lparr>ct_session_id = cl_session_id c, ct_reason = VW_CTRL_REASON_SEEK_DISCONTINUITY\<rparr>))"
    "vw_protocol_decode_payload (msg_code VW_MSG_START_SESSION) start = Some (Some (P_START st))"
    "st_session_id st = cl_session_id c0" "cl_session_active c0" "cl_worker_source_active c0"
    by (rule restart_epoch_sends)
  let ?po = "\<lparr>po_session_id = cl_session_id c0, po_current_pts_us = pts, po_input_time_us = input,
      po_playback_rate = effective_rate rate, po_flags = flags AND NOT VW_POSITION_FLAG_SEEK\<rparr>"
  from e(3) obtain pos where pos: "vw_protocol_encode_payload (msg_code VW_MSG_POSITION) (Some (P_POSITION ?po)) 64 = Some pos"
    "send_message VW_MSG_POSITION pos c0 = (True, c')"
    by (auto simp: vw_worker_client_send_position_frame_def split: option.splits)
  from pos(2) have "sent c0 c' (VW_MSG_POSITION, pos)" by (cases rule: send_message_cases) auto
  note f = sent_fields[OF this]
  have "length (cl_session_id c0) = VW_SESSION_ID_BYTES"
    using restart_epoch_advance(1)[OF e(2) assms(2) e(1) assms(6) p(1)] by (simp add: advance_def client_inv_def)
  then have d: "vw_protocol_decode_payload (msg_code VW_MSG_POSITION) pos = Some (Some (P_POSITION ?po))"
    by (intro decode_encode_payload[OF _ _ _ pos(1)]) (use p in simp_all)
  have w: "nt_sent (cl_net c') = nt_sent (cl_net c)
      @ wire_stream (cl_sequence c + 1) (epoch_frames c stop start translate @ [(VW_MSG_POSITION, pos)])"
    using f(7) s(1,2) by (simp add: wire_stream_append ac_simps)
  show ?thesis using f s w d by fastforce
qed

definition sample_seeker :: vw_worker_client where
  "sample_seeker = sample_starter\<lparr>cl_session_active := True, cl_worker_source_active := True, cl_active_model_id := ascii ''tiny'',
     cl_active_source_url := ascii ''a.mkv'', cl_net := (cl_net sample_starter)\<lparr>nt_send := replicate 6 Send_Ok\<rparr>\<rparr>"

text \<open>Operations on a working transport, for evaluating examples.\<close>

lemma send_message_works:
  assumes "nt_send (cl_net c) = Send_Ok # Send_Ok # es"
  shows "\<exists>w. send_message t b c = (True, c\<lparr>cl_sequence := cl_sequence c + 1, cl_net := (cl_net c)\<lparr>nt_send := es, nt_sent := w\<rparr>\<rparr>)"
  using assms by (auto simp: send_message_def vw_protocol_encode_header_def on_net_def send_parts_def vw_ipc_send_def)

lemma control_works:
  assumes "nt_send (cl_net c) = Send_Ok # Send_Ok # es" "cl_pipe c" "length (cl_session_id c) = 16"
  shows "\<exists>w. send_control_frame VW_MSG_STOP_SESSION r c =
     (True, c\<lparr>cl_sequence := cl_sequence c + 1, cl_net := (cl_net c)\<lparr>nt_send := es, nt_sent := w\<rparr>\<rparr>)"
proof -
  obtain b where "vw_protocol_encode_payload (msg_code VW_MSG_STOP_SESSION)
      (Some (P_CONTROL \<lparr>ct_session_id = cl_session_id c, ct_reason = r\<rparr>)) 64 = Some b"
    using assms(3) by (auto simp: vw_protocol_encode_payload_def encode_control_def enc_all_eq)
  then show ?thesis
    using assms by (auto simp: send_control_frame_def vw_protocol_encode_header_def on_net_def vw_ipc_send_def)
qed

lemma position_works:
  assumes "nt_send (cl_net c) = Send_Ok # Send_Ok # es" "length (cl_session_id c) = 16"
  shows "fst (vw_worker_client_send_position_frame c pts input rate flags)"
proof -
  obtain b where "vw_protocol_encode_payload (msg_code VW_MSG_POSITION) (Some (P_POSITION
      \<lparr>po_session_id = cl_session_id c, po_current_pts_us = pts, po_input_time_us = input,
       po_playback_rate = effective_rate rate, po_flags = flags\<rparr>)) 64 = Some b"
    using assms(2) by (auto simp: vw_protocol_encode_payload_def encode_position_def enc_all_eq)
  moreover obtain w where "send_message VW_MSG_POSITION b c = (True, w)" using send_message_works[OF assms(1)] by blast
  ultimately show ?thesis by (simp add: vw_worker_client_send_position_frame_def)
qed

lemma start_works:
  assumes "nt_send (cl_net c) = Send_Ok # Send_Ok # es" "cl_pipe c" "nt_random (cl_net c) = [Some (replicate 16 7)]"
    "nt_clock (cl_net c) = [0, 0, 0, 0]" "nt_recv (cl_net c) = [Recv_Bytes 20, Recv_Bytes 17]"
    "nt_in (cl_net c) = header_image (frame_header VW_MSG_STARTED 17 2) @ replicate 16 7 @ [1]" "nt_mem (cl_net c) = [True]"
    "\<not> cl_worker_sequence_valid c" "length m < 64" "case url of Some u \<Rightarrow> length u < 1024 | None \<Rightarrow> True"
  shows "\<exists>c'. vw_worker_client_start_session c pts (Some m) url = (True, c') \<and> cl_worker_source_active c'
     \<and> nt_send (cl_net c') = es \<and> cl_session_id c' = replicate 16 7 \<and> cl_translation_configured c' = cl_translation_configured c
     \<and> cl_worker_capabilities c' = cl_worker_capabilities c"
proof -
  let ?f = "fresh_epoch (replicate 16 7) c ((cl_net c)\<lparr>nt_random := []\<rparr>)"
  obtain body where b: "vw_protocol_encode_payload (msg_code VW_MSG_START_SESSION) (Some (P_START (start_message ?f pts (Some m) url))) 2048 = Some body"
    using encode_start_total[of "start_message ?f pts (Some m) url" 2048]
    by (auto simp: vw_protocol_encode_payload_def start_message_def fresh_epoch_def)
  have f: "nt_send (cl_net ?f) = Send_Ok # Send_Ok # es" using assms(1) by (simp add: fresh_epoch_def)
  obtain w where w: "send_message VW_MSG_START_SESSION body ?f =
      (True, ?f\<lparr>cl_sequence := cl_sequence ?f + 1, cl_net := (cl_net ?f)\<lparr>nt_send := es, nt_sent := w\<rparr>\<rparr>)"
    using send_message_works[OF f] by blast
  have u: "\<not> (case url of Some u \<Rightarrow> VW_MAX_SOURCE_URL_BYTES \<le> length u | None \<Rightarrow> False)"
    using assms(10) by (simp add: vw_limits split: option.splits)
  show ?thesis
    using assms b w u
    by (simp add: vw_worker_client_start_session_def on_net_def take_random_def vw_limits fresh_epoch_def
        vw_worker_client_make_deadline_def take_clock_def INT64_MAX_def sample_started_reply activate_def Let_def)
qed

lemma sample_seeker_run:
  "\<exists>c'. vw_worker_client_send_position sample_seeker 1000 1000 0x3F800000 1 = (True, c')"
proof -
  have l: "length (ascii ''tiny'') < 64" "length (ascii ''a.mkv'') < 1024" "ascii ''tiny'' \<noteq> []" "ascii ''a.mkv'' \<noteq> []"
    by (simp_all add: ascii_def)
  have s: "nt_send (cl_net sample_seeker) = Send_Ok # Send_Ok # [Send_Ok, Send_Ok, Send_Ok, Send_Ok]" "cl_pipe sample_seeker"
    "length (cl_session_id sample_seeker) = 16" "\<not> cl_translation_configured sample_seeker" "cl_session_active sample_seeker"
    "cl_worker_source_active sample_seeker" "cl_active_model_id sample_seeker = ascii ''tiny''"
    "cl_active_source_url sample_seeker = ascii ''a.mkv''"
    by (simp_all add: sample_seeker_def sample_starter_def new_client_def numeral_eq_Suc)
  obtain w where w: "send_control_frame VW_MSG_STOP_SESSION VW_CTRL_REASON_SEEK_DISCONTINUITY sample_seeker =
     (True, sample_seeker\<lparr>cl_sequence := cl_sequence sample_seeker + 1,
       cl_net := (cl_net sample_seeker)\<lparr>nt_send := [Send_Ok, Send_Ok, Send_Ok, Send_Ok], nt_sent := w\<rparr>\<rparr>)"
    using control_works[OF s(1-3)] by blast
  let ?c1 = "sample_seeker\<lparr>cl_sequence := cl_sequence sample_seeker + 1, cl_net := (cl_net sample_seeker)\<lparr>nt_send := [Send_Ok, Send_Ok, Send_Ok, Send_Ok], nt_sent := w\<rparr>,
     cl_session_active := False, cl_worker_source_active := False\<rparr>"
  have "\<exists>c'. vw_worker_client_start_session ?c1 1000 (Some (ascii ''tiny'')) (Some (ascii ''a.mkv'')) = (True, c') \<and> cl_worker_source_active c'
     \<and> nt_send (cl_net c') = [Send_Ok, Send_Ok] \<and> cl_session_id c' = replicate 16 7
     \<and> cl_translation_configured c' = cl_translation_configured ?c1 \<and> cl_worker_capabilities c' = cl_worker_capabilities ?c1"
    by (rule start_works) (use l in \<open>simp_all add: sample_seeker_def sample_starter_def new_client_def\<close>)
  then obtain c2 where c2: "vw_worker_client_start_session ?c1 1000 (Some (ascii ''tiny'')) (Some (ascii ''a.mkv'')) = (True, c2)"
    "cl_worker_source_active c2" "nt_send (cl_net c2) = [Send_Ok, Send_Ok]" "cl_session_id c2 = replicate 16 7" by blast
  have r: "restart_epoch sample_seeker 1000 = (True, c2)"
    using w c2(1,2) l s by (simp add: restart_epoch_def)
  have "fst (vw_worker_client_send_position_frame c2 1000 1000 0x3F800000 0)"
    by (rule position_works[where es = "[]"]) (use c2 in simp_all)
  then obtain c3 where "vw_worker_client_send_position_frame c2 1000 1000 0x3F800000 0 = (True, c3)" by (metis prod.collapse)
  then show ?thesis
    by (simp add: vw_worker_client_send_position_def vw_codes r s l)
qed

theorem vw_worker_client_seek_epoch_witness:
  "\<exists>c'. vw_worker_client_send_position sample_seeker 1000 1000 0x3F800000 1 = (True, c') \<and> client_inv sample_seeker
     \<and> position_ok 1000 1000 1 \<and> (1 :: u32) AND VW_POSITION_FLAG_SEEK \<noteq> 0 \<and> cl_worker_source_active sample_seeker
     \<and> cl_active_source_url sample_seeker \<noteq> [] \<and> cl_worker_source_active c'"
proof -
  obtain c' where r: "vw_worker_client_send_position sample_seeker 1000 1000 0x3F800000 1 = (True, c')" using sample_seeker_run by blast
  have i: "client_inv sample_seeker"
    using sample_starter_inv
    by (simp add: sample_seeker_def client_inv_def c_string_ok_def ascii_def vw_limits sample_starter_def new_client_def)
  have p: "position_ok 1000 1000 1" "(1 :: u32) AND VW_POSITION_FLAG_SEEK \<noteq> 0" by (simp_all add: position_ok_def vw_codes)
  have s: "cl_worker_source_active sample_seeker" "cl_active_source_url sample_seeker \<noteq> []" by (simp_all add: sample_seeker_def ascii_def)
  from vw_worker_client_seek_epoch[OF r i p s] r i p s show ?thesis by blast
qed

end
