(* ===== verification/VW_Whisper_Engine.thy ===== *)
theory VW_Whisper_Engine
  imports VW_Worker_Config
begin

text \<open>
  \<^verbatim>\<open>worker/src/vw_whisper_engine.c\<close>: the wrapper of the whisper library.  The library is a
  parameter: what a run returns (\<open>whisper_out\<close>), which devices exist, and the numbers of the
  languages it knows.  The context's segments are part of the engine's state because the
  accessors read them from it.
\<close>

section \<open>State\<close>

text \<open>Times in units of 10 ms, the bit pattern of the no-speech probability, and the text.\<close>

record whisper_raw =
  wr_t0 :: i64
  wr_t1 :: i64
  wr_no_speech_prob :: u32
  wr_text :: "bytes option"

record whisper_out =
  wo_result :: int
  wo_segments :: "whisper_raw list"
  wo_started_us :: i64
  wo_ended_us :: i64
  wo_realloc :: "bool list"

record vw_whisper_segment =
  ws_t0_us :: i64
  ws_t1_us :: i64
  ws_no_speech_prob :: u32
  ws_text_utf8 :: bytes

record vw_whisper_engine =
  en_segments :: "whisper_raw list"
  en_last_text :: bytes
  en_last_text_bytes :: nat
  en_language :: bytes
  en_n_threads :: int
  en_last_inference_us :: u64
  en_total_inference_us :: u64
  en_gpu_active :: bool

section \<open>Operations\<close>

text \<open>The devices of the library: whether each is a GPU and whether it can be initialised.\<close>

fun gpu_usable :: "int \<Rightarrow> (bool \<times> bool) list \<Rightarrow> bool" where
  "gpu_usable remaining [] = False"
| "gpu_usable remaining ((gpu, init_ok) # devs) =
     (if gpu then if remaining = 0 then init_ok else gpu_usable (remaining - 1) devs
      else gpu_usable remaining devs)"

record engine_env =
  ee_context :: bool
  ee_devices :: "(bool \<times> bool) list"
  ee_engine_alloc :: bool
  ee_text_alloc :: bool
  ee_warmup_segments :: "whisper_raw list"

definition vw_whisper_engine_init :: "engine_env \<Rightarrow> bytes \<Rightarrow> vw_worker_backend \<Rightarrow> int \<Rightarrow> vw_whisper_engine option" where
  "vw_whisper_engine_init env model_path backend gpu_device =
     (if model_path = [] then None
      else
        let use_gpu = (backend \<noteq> VW_WORKER_BACKEND_CPU);
            device = (if gpu_device \<ge> 0 then gpu_device else 0) in
        if \<not> ee_context env then None
        else
          let gpu_active = (use_gpu \<and> gpu_usable device (ee_devices env)) in
          if \<not> ee_engine_alloc env then None
          else if \<not> ee_text_alloc env then None
          else Some \<lparr>en_segments = ee_warmup_segments env, en_last_text = [], en_last_text_bytes = 2048,
                 en_language = ascii ''en'', en_n_threads = 4, en_last_inference_us = 0, en_total_inference_us = 0,
                 en_gpu_active = gpu_active\<rparr>)"

definition vw_whisper_engine_is_gpu_active :: "vw_whisper_engine option \<Rightarrow> bool" where
  "vw_whisper_engine_is_gpu_active engine \<longleftrightarrow> (case engine of None \<Rightarrow> False | Some e \<Rightarrow> en_gpu_active e)"

definition vw_whisper_engine_set_language ::
  "(bytes \<Rightarrow> int) \<Rightarrow> vw_whisper_engine \<Rightarrow> bytes \<Rightarrow> bool \<times> vw_whisper_engine" where
  "vw_whisper_engine_set_language lang_id engine language =
     (if language = [] then (False, engine)
      else if language = ascii ''auto'' then (False, engine)
      else if length language \<ge> 16 then (False, engine)
      else if lang_id language < 0 then (False, engine)
      else (True, engine\<lparr>en_language := language\<rparr>))"

definition vw_whisper_engine_set_n_threads :: "vw_whisper_engine \<Rightarrow> int \<Rightarrow> vw_whisper_engine" where
  "vw_whisper_engine_set_n_threads engine n_threads =
     (let n = (if n_threads < 1 then 1 else n_threads);
          n = (if n > 16 then 16 else n)
      in engine\<lparr>en_n_threads := n\<rparr>)"

text \<open>
  The concatenation of the segment texts: the text so far, the capacity of its buffer and the
  outcomes of reallocating it.
\<close>

fun text_loop :: "bool list \<Rightarrow> bytes \<Rightarrow> nat \<Rightarrow> bytes option list \<Rightarrow> bool \<times> bytes \<times> nat" where
  "text_loop al written cap [] = (True, written, cap)"
| "text_loop al written cap (txt # segs) =
     (case txt of
        None \<Rightarrow> text_loop al written cap segs
      | Some t \<Rightarrow>
          if t = [] then text_loop al written cap segs
          else
            let needs_space = (written \<noteq> [] \<and> last written \<noteq> 0x20 \<and> hd t \<noteq> 0x20);
                extra = (if needs_space then 1 else 0);
                added = (if needs_space then written @ [0x20] else written) @ t in
            if length written + length t + extra + 2 \<ge> cap then
              (case al of
                 True # al' \<Rightarrow> text_loop al' added (cap * 2 + length t + extra + 2) segs
               | _ \<Rightarrow> (False, written, cap))
            else text_loop al added cap segs)"

definition vw_whisper_engine_transcribe_pcm ::
  "whisper_out \<Rightarrow> vw_whisper_engine \<Rightarrow> nat \<Rightarrow> bool \<times> vw_whisper_engine" where
  "vw_whisper_engine_transcribe_pcm out engine sample_count =
     (if sample_count = 0 then (False, engine)
      else
        let elapsed = wo_ended_us out - wo_started_us out;
            elapsed = (of_int (if elapsed < 0 then 0 else elapsed) :: u64);
            engine = engine\<lparr>en_segments := wo_segments out, en_last_inference_us := elapsed,
              en_total_inference_us :=
                (if - 1 - en_total_inference_us engine < elapsed then - 1 else en_total_inference_us engine + elapsed)\<rparr> in
        if wo_result out \<noteq> 0 then (False, engine)
        else case text_loop (wo_realloc out) [] (en_last_text_bytes engine) (map wr_text (wo_segments out)) of
            (ok, txt, cap) \<Rightarrow> (ok, engine\<lparr>en_last_text := txt, en_last_text_bytes := cap\<rparr>))"

definition vw_whisper_engine_get_text :: "vw_whisper_engine option \<Rightarrow> bytes" where
  "vw_whisper_engine_get_text engine = (case engine of None \<Rightarrow> [] | Some e \<Rightarrow> en_last_text e)"

definition vw_whisper_engine_get_segment_count :: "vw_whisper_engine option \<Rightarrow> nat" where
  "vw_whisper_engine_get_segment_count engine = (case engine of None \<Rightarrow> 0 | Some e \<Rightarrow> length (en_segments e))"

definition vw_whisper_engine_get_total_inference_us :: "vw_whisper_engine option \<Rightarrow> u64" where
  "vw_whisper_engine_get_total_inference_us engine = (case engine of None \<Rightarrow> 0 | Some e \<Rightarrow> en_total_inference_us e)"

definition vw_whisper_engine_get_segment :: "vw_whisper_engine option \<Rightarrow> int \<Rightarrow> vw_whisper_segment option" where
  "vw_whisper_engine_get_segment engine index =
     (case engine of
        None \<Rightarrow> None
      | Some e \<Rightarrow>
          if index < 0 then None
          else if index \<ge> int (length (en_segments e)) then None
          else let r = en_segments e ! nat index in
            Some \<lparr>ws_t0_us = wr_t0 r * 10000, ws_t1_us = wr_t1 r * 10000,
              ws_no_speech_prob = wr_no_speech_prob r,
              ws_text_utf8 = (case wr_text r of Some t \<Rightarrow> t | None \<Rightarrow> [])\<rparr>)"

end
