(* ===== verification/VW_Model_Catalog.thy ===== *)
theory VW_Model_Catalog
  imports VW_Types
begin

text \<open>
  \<^verbatim>\<open>worker/include/vw_model_catalog.h\<close>: the models the worker can download.
\<close>

record vw_model_catalog_entry =
  ce_id :: bytes
  ce_filename :: bytes
  ce_url :: bytes
  ce_sha256_hex :: bytes
  ce_bytes :: u64
  ce_multilingual :: bool

definition catalog_entry :: "string \<Rightarrow> string \<Rightarrow> string \<Rightarrow> string \<Rightarrow> u64 \<Rightarrow> bool \<Rightarrow> vw_model_catalog_entry" where
  "catalog_entry i f u h n m =
     \<lparr>ce_id = ascii i, ce_filename = ascii f, ce_url = ascii u, ce_sha256_hex = ascii h, ce_bytes = n, ce_multilingual = m\<rparr>"

definition kVWModelCatalogEntries :: "vw_model_catalog_entry list" where
  "kVWModelCatalogEntries =
     [catalog_entry ''tiny.en'' ''ggml-tiny.en.bin'' ''https://huggingface.co/ggerganov/whisper.cpp/resolve/main/ggml-tiny.en.bin''
        ''921e4cf8686fdd993dcd081a5da5b6c365bfde1162e72b08d75ac75289920b1f'' 77704715 False,
      catalog_entry ''tiny'' ''ggml-tiny.bin'' ''https://huggingface.co/ggerganov/whisper.cpp/resolve/main/ggml-tiny.bin''
        ''be07e048e1e599ad46341c8d2a135645097a538221678b7acdd1b1919c6e1b21'' 77691713 True,
      catalog_entry ''base.en'' ''ggml-base.en.bin'' ''https://huggingface.co/ggerganov/whisper.cpp/resolve/main/ggml-base.en.bin''
        ''a03779c86df3323075f5e796cb2ce5029f00ec8869eee3fdfb897afe36c6d002'' 147964211 False,
      catalog_entry ''base'' ''ggml-base.bin'' ''https://huggingface.co/ggerganov/whisper.cpp/resolve/main/ggml-base.bin''
        ''60ed5bc3dd14eea856493d334349b405782ddcaf0028d4b5df4088345fba2efe'' 147951465 True,
      catalog_entry ''small'' ''ggml-small.bin'' ''https://huggingface.co/ggerganov/whisper.cpp/resolve/main/ggml-small.bin''
        ''1be3a9b2063867b937e64e2ec7483364a79917e157fa98c5d94b5c1fffea987b'' 487601967 True,
      catalog_entry ''medium'' ''ggml-medium.bin'' ''https://huggingface.co/ggerganov/whisper.cpp/resolve/main/ggml-medium.bin''
        ''6c14d5adee5f86394037b4e4e8b59f1673b6cee10e3cf0b11bbdbee79c156208'' 1533763059 True,
      catalog_entry ''large'' ''ggml-large-v3.bin'' ''https://huggingface.co/ggerganov/whisper.cpp/resolve/main/ggml-large-v3.bin''
        ''64d182b440b98d5203c4f9bd541544d84c605196c4f7b845dfa11fb23594d1e2'' 3095033483 True]"

definition vw_model_catalog_count :: nat where
  "vw_model_catalog_count = length kVWModelCatalogEntries"

definition vw_model_catalog_find :: "bytes option \<Rightarrow> vw_model_catalog_entry option" where
  "vw_model_catalog_find i =
     (case i of None \<Rightarrow> None | Some s \<Rightarrow> List.find (\<lambda>e. ce_id e = s) kVWModelCatalogEntries)"

end
