(* ===== verification/VW_Model_Download.thy ===== *)
theory VW_Model_Download
  imports VW_Model_Catalog VW_Sha256
begin

text \<open>
  \<^verbatim>\<open>worker/src/vw_model_download.c\<close>: fetching a model.  A thread of its own runs curl, checks the
  size and the digest of what curl wrote and renames the file; the worker's main loop may
  poll and abort it at any time.  The properties: nothing is published that was not verified, aborting and publishing
  exclude each other, and freeing a download ends.  The model interleaves the steps of that thread, of the curl
  process and of the main loop; a step is a critical section of the download's mutex, a
  system call, or a check of the abort flag; the size of the partial file is compared and shown
  in one step, and so are the signals that end curl and the wait for its end.  The Windows branches are left out.
\<close>

unbundle bit_operations_syntax

section \<open>Helpers\<close>

text \<open>The \<^verbatim>\<open>mkdir\<close> calls, and whether the path is a directory in the end.\<close>

definition vw_mkdir_p :: "(bytes \<Rightarrow> bool) \<Rightarrow> bytes \<Rightarrow> bytes list \<times> bool" where
  "vw_mkdir_p is_dir path =
     (if path = [] then ([], False)
      else case snprintf 4096 path of
          None \<Rightarrow> ([], False)
        | Some tmp \<Rightarrow> (map (\<lambda>i. take i tmp) (filter (\<lambda>i. tmp ! i = 0x2F) [1..<length tmp]) @ [tmp], is_dir path))"

definition vw_path_join :: "nat \<Rightarrow> bytes \<Rightarrow> bytes \<Rightarrow> bytes option" where
  "vw_path_join out_size dir file =
     (if out_size = 0 then None
      else if dir = [] then snprintf out_size file
      else let need_sep = (last dir \<noteq> 0x2F \<and> last dir \<noteq> 0x5C)
           in snprintf out_size (dir @ (if need_sep then [0x2F] else []) @ file))"

definition hex_lower :: "u8 \<Rightarrow> u8" where
  "hex_lower c = (if 0x41 \<le> c \<and> c \<le> 0x46 then c - 0x41 + 0x61 else c)"

definition vw_hex_equal_ci :: "bytes \<Rightarrow> bytes \<Rightarrow> bool" where
  "vw_hex_equal_ci a b \<longleftrightarrow> length a = length b \<and> list_all2 (\<lambda>ca cb. hex_lower ca = hex_lower cb) a b"

text \<open>The blocks that \<^verbatim>\<open>fread\<close> delivers.\<close>

function file_blocks :: "nat \<Rightarrow> bytes \<Rightarrow> bytes list" where
  "file_blocks n content = (if n = 0 \<or> content = [] then [] else take n content # file_blocks n (drop n content))"
  by pat_completeness auto

termination file_blocks
  by (relation "measure (\<lambda>(_, c). length c)") auto

declare file_blocks.simps [simp del]

text \<open>The file, and whether opening and reading it succeed.\<close>

definition vw_sha256_file :: "bytes option \<Rightarrow> bool \<Rightarrow> bytes option" where
  "vw_sha256_file file readable =
     (case file of
        None \<Rightarrow> None
      | Some content \<Rightarrow>
          if \<not> readable then None
          else Some (vw_sha256_final (foldl vw_sha256_update (vw_sha256_init zero_ctx) (file_blocks 65536 content))))"

definition vw_file_size :: "bytes option \<Rightarrow> u64" where
  "vw_file_size file = (case file of None \<Rightarrow> 0 | Some content \<Rightarrow> of_nat (length content))"

definition vw_model_download_pct :: "u64 \<Rightarrow> u64 \<Rightarrow> u8" where
  "vw_model_download_pct bytes_done bytes_total =
     (if bytes_total = 0 then 0
      else let pct = bytes_done * 100 div bytes_total; pct = (if pct > 100 then 100 else pct) in ucast pct)"

section \<open>State\<close>

record vw_download_progress =
  dp_stage :: int
  dp_pct :: int
  dp_bytes_done :: u64
  dp_bytes_total :: u64
  dp_model_id :: bytes

abbreviation (input) VW_MODEL_STAGE_IDLE :: int where "VW_MODEL_STAGE_IDLE \<equiv> 0"
abbreviation (input) VW_MODEL_STAGE_DOWNLOADING :: int where "VW_MODEL_STAGE_DOWNLOADING \<equiv> 1"
abbreviation (input) VW_MODEL_STAGE_VERIFYING :: int where "VW_MODEL_STAGE_VERIFYING \<equiv> 2"
abbreviation (input) VW_MODEL_STAGE_DONE :: int where "VW_MODEL_STAGE_DONE \<equiv> 3"
abbreviation (input) VW_MODEL_STAGE_FAILED :: int where "VW_MODEL_STAGE_FAILED \<equiv> 4"
abbreviation (input) VW_MODEL_STAGE_ABORTING :: int where "VW_MODEL_STAGE_ABORTING \<equiv> 5"

datatype curl_child = No_Child | Child_Running | Child_Exited bool

text \<open>Where the thread is; the numbers count the attempts.\<close>

datatype download_pc =
    T_Start | T_Attempt nat | T_Fork nat
  | T_Watch nat | T_Wait nat | T_Size nat | T_Kill nat | T_Exited nat bool
  | T_Returned nat bool | T_Check_Size nat | T_Verifying nat | T_Hash nat | T_Publish nat
  | T_Discard nat bool | T_Reset nat | T_Discard_Last | T_Failed bool | T_Discard_Failed
  | T_Aborting | T_Discard_Aborted | T_Aborted | T_Left | T_End

text \<open>\<open>md_part\<close> and \<open>md_final\<close> are the files at the two paths.\<close>

record vw_model_download =
  md_progress :: vw_download_progress
  md_entry :: vw_model_catalog_entry
  md_dest_dir :: bytes
  md_part_path :: bytes
  md_final_path :: bytes
  md_lock_path :: bytes
  md_abort_requested :: bool
  md_lock_held :: bool
  md_child :: curl_child
  md_pc :: download_pc
  md_part :: "bytes option"
  md_final :: "bytes option"

definition set_stage :: "int \<Rightarrow> vw_model_download \<Rightarrow> vw_model_download" where
  "set_stage stage dl = dl\<lparr>md_progress := (md_progress dl)\<lparr>dp_stage := stage\<rparr>\<rparr>"

definition go_to :: "download_pc \<Rightarrow> vw_model_download \<Rightarrow> vw_model_download" where
  "go_to pc dl = dl\<lparr>md_pc := pc\<rparr>"

section \<open>Starting\<close>

text \<open>What the system answers: allocation, directories, the mutex, the lock file, the thread.\<close>

record download_env =
  de_alloc :: bool
  de_is_dir :: "bytes \<Rightarrow> bool"
  de_mutex :: bool
  de_lock :: bool
  de_thread :: bool

definition vw_model_download_start ::
  "download_env \<Rightarrow> bytes option \<Rightarrow> bytes option \<Rightarrow> vw_model_catalog_entry \<Rightarrow> bytes \<Rightarrow> vw_model_download option" where
  "vw_model_download_start env part final entry dest_dir =
     (if dest_dir = [] then None
      else if \<not> de_alloc env then None
      else case snprintf 4096 dest_dir of
          None \<Rightarrow> None
        | Some dir \<Rightarrow>
            if \<not> snd (vw_mkdir_p (de_is_dir env) dest_dir) then None
            else case vw_path_join 4096 dest_dir (ce_filename entry) of
                None \<Rightarrow> None
              | Some path \<Rightarrow>
                  if length path + 5 \<ge> 4096 then None
                  else case snprintf 4096 (path @ ascii ''.lock'') of
                      None \<Rightarrow> None
                    | Some lock_path \<Rightarrow>
                        if \<not> de_mutex env then None
                        else if \<not> de_lock env then None
                        else if \<not> de_thread env then None
                        else Some \<lparr>md_progress = \<lparr>dp_stage = VW_MODEL_STAGE_IDLE, dp_pct = 0, dp_bytes_done = 0,
                               dp_bytes_total = ce_bytes entry, dp_model_id = nul_pad 32 (snprintf_cut 32 (ce_id entry))\<rparr>,
                             md_entry = entry, md_dest_dir = dir, md_part_path = path @ ascii ''.part'', md_final_path = path,
                             md_lock_path = lock_path, md_abort_requested = False, md_lock_held = True, md_child = No_Child, md_pc = T_Start,
                             md_part = part, md_final = final\<rparr>)"

definition vw_model_download_default_dir ::
  "bytes option \<Rightarrow> bytes option \<Rightarrow> (bytes \<Rightarrow> bool) \<Rightarrow> nat \<Rightarrow> bytes option" where
  "vw_model_download_default_dir xdg_data_home home is_dir out_size =
     (if out_size = 0 then None
      else let tmp =
        (case xdg_data_home of
           Some (c # xdg) \<Rightarrow> (c # xdg) @ ascii ''/vlc-whisper/models''
         | _ \<Rightarrow> (case home of
               Some (c # h) \<Rightarrow> (c # h) @ ascii ''/.local/share/vlc-whisper/models''
             | _ \<Rightarrow> ascii ''/tmp/vlc-whisper/models''))
      in case snprintf 4096 tmp of None \<Rightarrow> None
         | Some t \<Rightarrow> (case snprintf out_size t of None \<Rightarrow> None
             | Some out \<Rightarrow> if snd (vw_mkdir_p is_dir out) then Some out else None))"

section \<open>The main loop's side\<close>

definition vw_model_download_abort :: "vw_model_download \<Rightarrow> vw_model_download" where
  "vw_model_download_abort dl =
     (let stage = dp_stage (md_progress dl) in
      if stage = VW_MODEL_STAGE_DONE \<or> stage = VW_MODEL_STAGE_FAILED then dl
      else let dl = dl\<lparr>md_abort_requested := True\<rparr>
           in if stage \<noteq> VW_MODEL_STAGE_IDLE then set_stage VW_MODEL_STAGE_ABORTING dl else dl)"

definition vw_model_download_poll :: "vw_model_download \<Rightarrow> vw_download_progress" where
  "vw_model_download_poll dl = md_progress dl"

section \<open>The thread\<close>

text \<open>
  The answer of the system call of a step: success, an interrupted call, or failure.
  \<^verbatim>\<open>waitpid\<close> fails for a running child only by interruption.
\<close>

datatype answer = Ans_Ok | Ans_Eintr | Ans_Fail

definition show_size :: "vw_model_download \<Rightarrow> vw_model_download" where
  "show_size dl =
     (let sz = vw_file_size (md_part dl) in
      dl\<lparr>md_progress := (md_progress dl)\<lparr>dp_bytes_done := sz, dp_pct := int (unat (vw_model_download_pct sz (ce_bytes (md_entry dl))))\<rparr>\<rparr>)"

definition vw_model_download_reset_for_retry :: "vw_model_download \<Rightarrow> vw_model_download" where
  "vw_model_download_reset_for_retry dl =
     dl\<lparr>md_progress := (md_progress dl)\<lparr>dp_stage := VW_MODEL_STAGE_DOWNLOADING, dp_pct := 0, dp_bytes_done := 0\<rparr>\<rparr>"

text \<open>The steps of \<^verbatim>\<open>vw_download_via_curl\<close>.\<close>

definition curl_step :: "answer \<Rightarrow> vw_model_download \<Rightarrow> vw_model_download" where
  "curl_step ans dl =
     (case md_pc dl of
        T_Fork n \<Rightarrow> if ans = Ans_Ok then go_to (T_Watch n) (dl\<lparr>md_child := Child_Running\<rparr>) else go_to (T_Returned n False) dl
      | T_Watch n \<Rightarrow> go_to (if md_abort_requested dl then T_Kill n else T_Wait n) dl
      | T_Wait n \<Rightarrow>
          if ans = Ans_Eintr then go_to (T_Watch n) dl
          else (case md_child dl of
              Child_Running \<Rightarrow> go_to (T_Size n) dl
            | Child_Exited ok \<Rightarrow> go_to (T_Exited n (ok \<and> ans = Ans_Ok)) (dl\<lparr>md_child := No_Child\<rparr>)
            | No_Child \<Rightarrow> go_to (T_Exited n False) dl)
      | T_Size n \<Rightarrow> if vw_file_size (md_part dl) > ce_bytes (md_entry dl) then go_to (T_Kill n) dl else go_to (T_Watch n) (show_size dl)
      | T_Kill n \<Rightarrow> go_to (T_Returned n False) (dl\<lparr>md_child := No_Child\<rparr>)
      | T_Exited n ok \<Rightarrow> go_to (T_Returned n (ok \<and> \<not> md_abort_requested dl)) (show_size dl)
      | _ \<Rightarrow> dl)"

text \<open>The check of the digest.\<close>

definition digest_ok :: "answer \<Rightarrow> vw_model_download \<Rightarrow> bool" where
  "digest_ok ans dl \<longleftrightarrow>
     (case vw_sha256_file (md_part dl) (ans = Ans_Ok) of
        None \<Rightarrow> False
      | Some hash \<Rightarrow> vw_hex_equal_ci (c_str (vw_sha256_to_hex hash)) (ce_sha256_hex (md_entry dl)))"

definition unlink_part :: "vw_model_download \<Rightarrow> vw_model_download" where
  "unlink_part dl = dl\<lparr>md_part := None\<rparr>"

definition publish :: "answer \<Rightarrow> vw_model_download \<Rightarrow> vw_model_download" where
  "publish ans dl =
     (if md_abort_requested dl then go_to T_Discard_Aborted (set_stage VW_MODEL_STAGE_ABORTING dl)
      else if ans \<noteq> Ans_Ok then go_to T_Discard_Failed (set_stage VW_MODEL_STAGE_FAILED dl)
      else go_to T_End (dl\<lparr>md_final := md_part dl, md_part := None,
        md_progress := (md_progress dl)\<lparr>dp_stage := VW_MODEL_STAGE_DONE, dp_pct := 100, dp_bytes_done := ce_bytes (md_entry dl)\<rparr>\<rparr>))"

definition vw_model_download_finish_abort :: "vw_model_download \<Rightarrow> vw_model_download" where
  "vw_model_download_finish_abort dl =
     dl\<lparr>md_progress := (md_progress dl)\<lparr>dp_stage := VW_MODEL_STAGE_IDLE, dp_bytes_done := 0, dp_pct := 0\<rparr>\<rparr>"

definition leave_loop :: "vw_model_download \<Rightarrow> vw_model_download" where
  "leave_loop dl =
     (let stage = dp_stage (md_progress dl) in
      if md_abort_requested dl then vw_model_download_finish_abort dl
      else if stage \<noteq> VW_MODEL_STAGE_DONE \<and> stage \<noteq> VW_MODEL_STAGE_IDLE \<and> stage \<noteq> VW_MODEL_STAGE_ABORTING
      then set_stage VW_MODEL_STAGE_FAILED dl else dl)"

text \<open>The steps of \<^verbatim>\<open>vw_download_thread\<close>.\<close>

definition vw_download_thread :: "answer \<Rightarrow> vw_model_download \<Rightarrow> vw_model_download" where
  "vw_download_thread ans dl =
     (case md_pc dl of
        T_Start \<Rightarrow>
          if md_abort_requested dl then go_to T_End (set_stage VW_MODEL_STAGE_IDLE dl)
          else go_to (T_Attempt 0) (set_stage VW_MODEL_STAGE_DOWNLOADING dl)
      | T_Attempt n \<Rightarrow> go_to (if n \<ge> 2 \<or> md_abort_requested dl then T_Left else T_Fork n) dl
      | T_Returned n ok \<Rightarrow> go_to (if md_abort_requested dl then T_Aborting else if ok then T_Check_Size n else T_Discard n True) dl
      | T_Check_Size n \<Rightarrow> go_to (if vw_file_size (md_part dl) > ce_bytes (md_entry dl) then T_Discard_Last else T_Verifying n) dl
      | T_Verifying n \<Rightarrow> go_to (T_Hash n) (set_stage VW_MODEL_STAGE_VERIFYING dl)
      | T_Hash n \<Rightarrow> go_to (if digest_ok ans dl then T_Publish n else T_Discard n False) dl
      | T_Publish n \<Rightarrow> publish ans dl
      | T_Discard n clear_pct \<Rightarrow> go_to (if n = 0 then T_Reset 1 else T_Failed clear_pct) (unlink_part dl)
      | T_Reset n \<Rightarrow> go_to (T_Attempt n) (vw_model_download_reset_for_retry dl)
      | T_Discard_Last \<Rightarrow> go_to (T_Failed False) (unlink_part dl)
      | T_Failed clear_pct \<Rightarrow>
          go_to T_End (if clear_pct then dl\<lparr>md_progress := (md_progress dl)\<lparr>dp_stage := VW_MODEL_STAGE_FAILED, dp_pct := 0\<rparr>\<rparr>
                       else set_stage VW_MODEL_STAGE_FAILED dl)
      | T_Discard_Failed \<Rightarrow> go_to T_End (unlink_part dl)
      | T_Aborting \<Rightarrow> go_to T_Discard_Aborted (set_stage VW_MODEL_STAGE_ABORTING dl)
      | T_Discard_Aborted \<Rightarrow> go_to T_Aborted (unlink_part dl)
      | T_Aborted \<Rightarrow> go_to T_End (vw_model_download_finish_abort dl)
      | T_Left \<Rightarrow> go_to T_End (leave_loop dl)
      | T_End \<Rightarrow> dl
      | _ \<Rightarrow> curl_step ans dl)"

section \<open>The system\<close>

datatype download_event = Ev_Abort | Ev_Curl_Open | Ev_Curl_Write bytes | Ev_Curl_Exit bool | Ev_Thread answer

fun download_step :: "download_event \<Rightarrow> vw_model_download \<Rightarrow> vw_model_download" where
  "download_step Ev_Abort dl = vw_model_download_abort dl"
| "download_step Ev_Curl_Open dl = (if md_child dl = Child_Running then dl\<lparr>md_part := Some []\<rparr> else dl)"
| "download_step (Ev_Curl_Write bs) dl =
     (if md_child dl = Child_Running then dl\<lparr>md_part := map_option (\<lambda>c. c @ bs) (md_part dl)\<rparr> else dl)"
| "download_step (Ev_Curl_Exit ok) dl = (if md_child dl = Child_Running then dl\<lparr>md_child := Child_Exited ok\<rparr> else dl)"
| "download_step (Ev_Thread ans) dl = vw_download_thread ans dl"

text \<open>
  Freeing: the abort, then whatever happens until the thread has ended (\<open>None\<close> while it has not,
  since the caller waits in \<^verbatim>\<open>pthread_join\<close>), then the lock file is released.
\<close>

definition vw_model_download_free :: "download_event list \<Rightarrow> vw_model_download \<Rightarrow> vw_model_download option" where
  "vw_model_download_free meanwhile dl =
     (let dl = fold download_step meanwhile (vw_model_download_abort dl)
      in if md_pc dl = T_End then Some (dl\<lparr>md_lock_held := False\<rparr>) else None)"

section \<open>The digest of a file\<close>

lemma concat_file_blocks: "0 < n \<Longrightarrow> concat (file_blocks n c) = c"
proof (induction n c rule: file_blocks.induct)
  case (1 n c)
  then show ?case by (subst file_blocks.simps) auto
qed

lemma sha256_file: "vw_sha256_file file readable = Some h \<Longrightarrow> \<exists>c. file = Some c \<and> readable \<and> h = fips_sha256 c"
  using sha.chunks_digest by (auto simp: vw_sha256_file_def concat_file_blocks split: option.splits if_splits)

lemma hex_digit_lower: "n < 16 \<Longrightarrow> hex_lower (kHex ! n) = kHex ! n \<and> kHex ! n \<noteq> 0"
proof -
  have "\<forall>n \<in> set [0..<16]. hex_lower (kHex ! n) = kHex ! n \<and> kHex ! n \<noteq> 0" by code_simp
  then show "n < 16 \<Longrightarrow> hex_lower (kHex ! n) = kHex ! n \<and> kHex ! n \<noteq> 0" by simp
qed

lemma nibble_less: "unat (x AND 0xF :: u8) < 16"
  by (simp add: unat_low_nibble)

definition hex_text :: "bytes \<Rightarrow> bytes" where
  "hex_text hash = concat (map (\<lambda>b. [kHex ! unat (drop_bit 4 b AND 0xF), kHex ! unat (b AND 0xF)]) hash)"

lemma to_hex_text: "vw_sha256_to_hex hash = hex_text hash @ [0]"
  by (simp add: vw_sha256_to_hex_def hex_text_def)

lemma hex_text_lower: "map hex_lower (hex_text hash) = hex_text hash \<and> 0 \<notin> set (hex_text hash)"
  using hex_digit_lower[OF nibble_less] by (induction hash) (auto simp: hex_text_def)

lemma c_str_to_hex: "c_str (vw_sha256_to_hex hash) = hex_text hash"
  using hex_text_lower[of hash] by (subst to_hex_text, subst c_str_takeWhile, subst takeWhile_append2) auto

lemma of_hex_text: "of_hex (hex_text hash) = hash"
proof (induction hash)
  case (Cons b hash)
  have "of_hex (vw_sha256_to_hex [b]) = [b]" using vw_sha256_to_hex_roundtrip by blast
  then show ?case using Cons by (simp add: hex_text_def to_hex_text)
qed (simp add: hex_text_def)

text \<open>What a comparison with the catalog tells.\<close>

lemma hex_equal_digest:
  assumes "vw_hex_equal_ci (c_str (vw_sha256_to_hex hash)) expected"
  shows "hash = of_hex (map hex_lower expected)"
proof -
  have "map hex_lower (hex_text hash) = map hex_lower expected"
    using assms by (simp add: vw_hex_equal_ci_def c_str_to_hex list_all2_conv_all_nth list_eq_iff_nth_eq)
  then show ?thesis using hex_text_lower[of hash] of_hex_text[of hash] by simp
qed

section \<open>The invariant\<close>

definition verified :: "vw_model_catalog_entry \<Rightarrow> bytes option \<Rightarrow> bool" where
  "verified e file \<longleftrightarrow> (\<exists>c. file = Some c \<and> fips_sha256 c = of_hex (map hex_lower (ce_sha256_hex e)) \<and> vw_file_size (Some c) \<le> ce_bytes e)"

lemma digest_ok_verified:
  "digest_ok ans dl \<Longrightarrow> vw_file_size (md_part dl) \<le> ce_bytes (md_entry dl) \<Longrightarrow> verified (md_entry dl) (md_part dl)"
  by (auto simp: digest_ok_def verified_def split: option.splits dest!: sha256_file hex_equal_digest)

text \<open>The places of the thread where a curl process may exist, and what is known of the partial file.\<close>

fun pc_ok :: "download_pc \<Rightarrow> vw_model_download \<Rightarrow> bool" where
  "pc_ok (T_Watch n) dl = True"
| "pc_ok (T_Wait n) dl = True"
| "pc_ok (T_Size n) dl = True"
| "pc_ok (T_Kill n) dl = True"
| "pc_ok (T_Verifying n) dl \<longleftrightarrow> md_child dl = No_Child \<and> vw_file_size (md_part dl) \<le> ce_bytes (md_entry dl)"
| "pc_ok (T_Hash n) dl \<longleftrightarrow> md_child dl = No_Child \<and> vw_file_size (md_part dl) \<le> ce_bytes (md_entry dl)"
| "pc_ok (T_Publish n) dl \<longleftrightarrow> md_child dl = No_Child \<and> verified (md_entry dl) (md_part dl)"
| "pc_ok (T_Attempt n) dl \<longleftrightarrow> md_child dl = No_Child \<and> n < 2"
| "pc_ok (T_Reset n) dl \<longleftrightarrow> md_child dl = No_Child \<and> n = 1"
| "pc_ok T_Left dl \<longleftrightarrow> md_child dl = No_Child \<and> md_abort_requested dl"
| "pc_ok T_Discard_Failed dl \<longleftrightarrow> md_child dl = No_Child \<and> dp_stage (md_progress dl) = VW_MODEL_STAGE_FAILED"
| "pc_ok T_End dl \<longleftrightarrow> md_child dl = No_Child
     \<and> dp_stage (md_progress dl) \<in> {VW_MODEL_STAGE_IDLE, VW_MODEL_STAGE_DONE, VW_MODEL_STAGE_FAILED}"
| "pc_ok _ dl \<longleftrightarrow> md_child dl = No_Child"

definition dl_inv :: "bytes option \<Rightarrow> vw_model_download \<Rightarrow> bool" where
  "dl_inv final dl \<longleftrightarrow> pc_ok (md_pc dl) dl
     \<and> (dp_stage (md_progress dl) = VW_MODEL_STAGE_FAILED \<longrightarrow> md_pc dl \<in> {T_End, T_Discard_Failed})
     \<and> (if dp_stage (md_progress dl) = VW_MODEL_STAGE_DONE
        then md_pc dl = T_End \<and> \<not> md_abort_requested dl \<and> verified (md_entry dl) (md_final dl)
        else md_final dl = final)"

lemmas dl_simps = go_to_def set_stage_def show_size_def unlink_part_def publish_def leave_loop_def
  vw_model_download_finish_abort_def vw_model_download_reset_for_retry_def vw_model_download_abort_def Let_def

lemma dl_inv_abort: "dl_inv final dl \<Longrightarrow> dl_inv final (vw_model_download_abort dl)"
  by (cases "md_pc dl") (auto simp: dl_inv_def dl_simps)

lemma dl_inv_curl: "dl_inv final dl \<Longrightarrow> dl_inv final (curl_step ans dl)"
  by (cases "md_pc dl") (auto simp: dl_inv_def curl_step_def dl_simps split: curl_child.splits)

lemma dl_inv_thread:
  assumes i: "dl_inv final dl"
  shows "dl_inv final (vw_download_thread ans dl)"
proof -
  note c = dl_inv_curl[OF i, of ans]
  show ?thesis
  proof (cases "md_pc dl")
  case (T_Fork n)
    then show ?thesis using c by (simp add: vw_download_thread_def)
  next
    case (T_Watch n)
    then show ?thesis using c by (simp add: vw_download_thread_def)
  next
    case (T_Wait n)
    then show ?thesis using c by (simp add: vw_download_thread_def)
  next
    case (T_Size n)
    then show ?thesis using c by (simp add: vw_download_thread_def)
  next
    case (T_Kill n)
    then show ?thesis using c by (simp add: vw_download_thread_def)
  next
    case (T_Exited n ok)
    then show ?thesis using c by (simp add: vw_download_thread_def)
  qed (use i digest_ok_verified[of ans dl] in \<open>auto simp: vw_download_thread_def dl_inv_def dl_simps not_less split: if_splits\<close>)
qed

lemma dl_inv_step: "dl_inv final dl \<Longrightarrow> dl_inv final (download_step ev dl)"
proof (cases ev)
  case Ev_Abort
  then show "dl_inv final dl \<Longrightarrow> ?thesis" using dl_inv_abort by simp
next
  case (Ev_Thread ans)
  then show "dl_inv final dl \<Longrightarrow> ?thesis" using dl_inv_thread by simp
qed (cases "md_pc dl"; auto simp: dl_inv_def)+

lemma dl_inv_run: "dl_inv final dl \<Longrightarrow> dl_inv final (fold download_step evs dl)"
  by (induction evs arbitrary: dl) (simp_all add: dl_inv_step)

lemma dl_inv_start: "vw_model_download_start env part final entry dir = Some dl \<Longrightarrow> dl_inv final dl \<and> md_entry dl = entry \<and> md_part dl = part \<and> md_pc dl = T_Start
     \<and> md_final dl = final \<and> md_child dl = No_Child \<and> \<not> md_abort_requested dl \<and> dp_stage (md_progress dl) = VW_MODEL_STAGE_IDLE"
  by (auto simp: vw_model_download_start_def dl_inv_def split: if_splits option.splits)

text \<open>The catalog entry never changes.\<close>

lemma step_entry: "md_entry (download_step ev dl) = md_entry dl"
  by (cases ev; cases "md_pc dl"; simp add: vw_download_thread_def curl_step_def dl_simps split: curl_child.splits)

lemma run_entry: "md_entry (fold download_step evs dl) = md_entry dl"
  by (induction evs arbitrary: dl) (simp_all add: step_entry)

text \<open>An accepted abort.\<close>

definition cancelled :: "bytes option \<Rightarrow> vw_model_download \<Rightarrow> bool" where
  "cancelled final dl \<longleftrightarrow> md_abort_requested dl \<and> dp_stage (md_progress dl) \<noteq> VW_MODEL_STAGE_DONE \<and> md_final dl = final"

lemma cancelled_step: "cancelled final dl \<Longrightarrow> cancelled final (download_step ev dl)"
  by (cases ev; cases "md_pc dl"; simp add: cancelled_def vw_download_thread_def curl_step_def dl_simps split: curl_child.splits)

lemma cancelled_run: "cancelled final dl \<Longrightarrow> cancelled final (fold download_step evs dl)"
  by (induction evs arbitrary: dl) (simp_all add: cancelled_step)

section \<open>Ending\<close>

text \<open>The steps the thread may still make once it is told to stop, or has failed.\<close>

fun rank :: "download_pc \<Rightarrow> nat" where
  "rank (T_Wait n) = 8" | "rank (T_Fork n) = 7" | "rank (T_Size n) = 7" | "rank (T_Check_Size n) = 7" | "rank (T_Watch n) = 6"
| "rank (T_Verifying n) = 6" | "rank (T_Kill n) = 5" | "rank (T_Exited n b) = 5" | "rank (T_Hash n) = 5" | "rank (T_Returned n b) = 4"
| "rank (T_Discard n b) = 4" | "rank T_Aborting = 3" | "rank (T_Publish n) = 3" | "rank (T_Reset n) = 3" | "rank T_Discard_Aborted = 2"
| "rank (T_Attempt n) = 2" | "rank T_Discard_Last = 2" | "rank T_End = 0" | "rank _ = 1"

definition stopping :: "vw_model_download \<Rightarrow> bool" where
  "stopping dl \<longleftrightarrow> md_abort_requested dl \<or> md_pc dl = T_Discard_Failed \<or> md_pc dl = T_End"

lemma stopping_thread:
  assumes "stopping dl"
  shows "stopping (vw_download_thread ans dl)" "rank (md_pc (vw_download_thread ans dl)) \<le> rank (md_pc dl) - 1"
  using assms
  by (cases "md_pc dl"; auto simp: stopping_def vw_download_thread_def curl_step_def dl_simps split: curl_child.splits)+

definition is_thread :: "download_event \<Rightarrow> bool" where
  "is_thread ev \<longleftrightarrow> (case ev of Ev_Thread _ \<Rightarrow> True | _ \<Rightarrow> False)"

lemma stopping_step:
  assumes "stopping dl"
  shows "stopping (download_step ev dl) \<and> rank (md_pc (download_step ev dl)) \<le> rank (md_pc dl) - (if is_thread ev then 1 else 0)"
  using assms stopping_thread[OF assms] by (cases ev) (auto simp: is_thread_def stopping_def dl_simps)

lemma stopping_run:
  "stopping dl \<Longrightarrow> rank (md_pc (fold download_step evs dl)) \<le> rank (md_pc dl) - length (filter is_thread evs)"
proof (induction evs arbitrary: dl)
  case (Cons ev evs)
  have s: "stopping (download_step ev dl)"
      "rank (md_pc (download_step ev dl)) \<le> rank (md_pc dl) - (if is_thread ev then 1 else 0)"
    using stopping_step[OF Cons.prems] by simp_all
  have "rank (md_pc (fold download_step (ev # evs) dl))
      \<le> rank (md_pc (download_step ev dl)) - length (filter is_thread evs)" using Cons.IH[OF s(1)] by simp
  also have "\<dots> \<le> rank (md_pc dl) - length (filter is_thread (ev # evs))" using s(2) by (simp split: if_splits)
  finally show ?case .
qed simp

lemma rank_End: "rank pc = 0 \<Longrightarrow> pc = T_End"
  by (cases pc) simp_all

lemma rank_bound: "rank pc \<le> 8"
  by (cases pc) simp_all

text \<open>Between the attempts no partial file is left.\<close>

definition tidy :: "vw_model_download \<Rightarrow> bool" where
  "tidy dl \<longleftrightarrow> (case md_pc dl of T_Start \<Rightarrow> md_part dl = None | T_Attempt _ \<Rightarrow> md_part dl = None | T_Fork _ \<Rightarrow> md_part dl = None
     | T_Reset _ \<Rightarrow> md_part dl = None | T_Failed _ \<Rightarrow> md_part dl = None | T_Aborted \<Rightarrow> md_part dl = None | T_Left \<Rightarrow> md_part dl = None
     | T_End \<Rightarrow> md_part dl = None | _ \<Rightarrow> True)"

lemma tidy_step: "tidy dl \<Longrightarrow> dl_inv final dl \<Longrightarrow> tidy (download_step ev dl)"
  by (cases ev; cases "md_pc dl"; auto simp: tidy_def dl_inv_def vw_download_thread_def curl_step_def dl_simps split: curl_child.splits)

lemma tidy_run: "tidy dl \<Longrightarrow> dl_inv final dl \<Longrightarrow> tidy (fold download_step evs dl)"
proof (induction evs arbitrary: dl)
  case (Cons ev evs)
  then show ?case using tidy_step[OF Cons.prems] dl_inv_step[OF Cons.prems(2)] by simp
qed simp

section \<open>Properties\<close>

text \<open>
  Property C26.  Only verified models are published: however the thread, curl and the main loop
  interleave and whatever the system answers, the file at the model's path is the
  one that was there before until the stage is DONE, and then it is a file whose SHA-256
  (of FIPS 180-4) is the digest in the catalog and which is not longer than the catalog says.
\<close>
theorem vw_model_download_integrity:
  assumes "vw_model_download_start env part final entry dir = Some dl"
  shows "if dp_stage (vw_model_download_poll (fold download_step evs dl)) = VW_MODEL_STAGE_DONE
    then \<exists>c. md_final (fold download_step evs dl) = Some c \<and> fips_sha256 c = of_hex (map hex_lower (ce_sha256_hex entry))
      \<and> vw_file_size (Some c) \<le> ce_bytes entry
    else md_final (fold download_step evs dl) = final"
  using dl_inv_run[of final dl evs] dl_inv_start[OF assms] run_entry[of evs dl]
  by (auto simp: dl_inv_def verified_def vw_model_download_poll_def)

text \<open>
  Property C27.  Aborting and publishing exclude each other: an abort that comes before the
  decision is accepted, and then the model's file is never touched and the stage never
  becomes DONE, whatever happens later; an abort after it changes nothing.
\<close>
theorem vw_model_download_abort_decides:
  assumes "vw_model_download_start env part final entry dir = Some dl"
  shows "if dp_stage (md_progress (fold download_step evs dl)) \<in> {VW_MODEL_STAGE_DONE, VW_MODEL_STAGE_FAILED}
    then vw_model_download_abort (fold download_step evs dl) = fold download_step evs dl
    else \<forall>later. dp_stage (md_progress (fold download_step later (vw_model_download_abort (fold download_step evs dl)))) \<noteq> VW_MODEL_STAGE_DONE
      \<and> md_final (fold download_step later (vw_model_download_abort (fold download_step evs dl))) = final"
proof -
  let ?s = "fold download_step evs dl"
  have i: "dl_inv final ?s" using dl_inv_run dl_inv_start[OF assms] by blast
  show ?thesis
  proof (cases "dp_stage (md_progress ?s) \<in> {VW_MODEL_STAGE_DONE, VW_MODEL_STAGE_FAILED}")
    case True
    then show ?thesis by (auto simp: vw_model_download_abort_def)
  next
    case False
    then have "cancelled final (vw_model_download_abort ?s)"
      using i by (auto simp: cancelled_def dl_inv_def dl_simps)
    then have "cancelled final (fold download_step later (vw_model_download_abort ?s))" for later using cancelled_run by blast
    then show ?thesis using False by (simp add: cancelled_def)
  qed
qed


section \<open>A sample download\<close>

definition sample_entry :: vw_model_catalog_entry where
  "sample_entry = \<lparr>ce_id = ascii ''m'', ce_filename = ascii ''m.bin'', ce_url = ascii ''u'', ce_sha256_hex = hex_text (fips_sha256 [7]),
     ce_bytes = 3, ce_multilingual = False\<rparr>"

definition sample_denv :: download_env where
  "sample_denv = \<lparr>de_alloc = True, de_is_dir = (\<lambda>_. True), de_mutex = True, de_lock = True, de_thread = True\<rparr>"

definition sample_download :: vw_model_download where
  "sample_download = the (vw_model_download_start sample_denv None None sample_entry (ascii ''d''))"

definition sample_events :: "download_event list" where
  "sample_events = [Ev_Thread Ans_Ok, Ev_Thread Ans_Ok, Ev_Thread Ans_Ok, Ev_Curl_Open, Ev_Curl_Write [7], Ev_Curl_Exit True,
     Ev_Thread Ans_Ok, Ev_Thread Ans_Ok, Ev_Thread Ans_Ok, Ev_Thread Ans_Ok, Ev_Thread Ans_Ok, Ev_Thread Ans_Ok, Ev_Thread Ans_Ok,
     Ev_Thread Ans_Ok]"

lemma sample_started: "vw_model_download_start sample_denv None None sample_entry (ascii ''d'') = Some sample_download"
  unfolding sample_download_def
  by (simp add: vw_model_download_start_def sample_denv_def sample_entry_def snprintf_def vw_mkdir_p_def vw_path_join_def Let_def ascii_def)

lemma sample_digest:
  assumes "md_part dl = Some [7]" "ce_sha256_hex (md_entry dl) = hex_text (fips_sha256 [7])"
  shows "digest_ok Ans_Ok dl"
proof -
  have "vw_sha256_file (Some [7]) True = Some (fips_sha256 [7])"
    using sha.chunks_digest[of "file_blocks 65536 [7]"] by (simp add: vw_sha256_file_def concat_file_blocks)
  then show ?thesis using assms by (simp add: digest_ok_def c_str_to_hex vw_hex_equal_ci_def list_all2_same)
qed

lemma sample_done: "dp_stage (vw_model_download_poll (fold download_step sample_events sample_download)) = VW_MODEL_STAGE_DONE"
proof -
  note d = dl_inv_start[OF sample_started]
  show ?thesis
    unfolding sample_events_def
    by (simp add: d vw_download_thread_def curl_step_def dl_simps sample_digest sample_entry_def vw_file_size_def vw_model_download_poll_def)
qed

theorem vw_model_download_integrity_witness:
  "\<exists>c. md_final (fold download_step sample_events sample_download) = Some c \<and> fips_sha256 c = of_hex (map hex_lower (ce_sha256_hex sample_entry))"
  using vw_model_download_integrity[OF sample_started, of sample_events] sample_done by auto

theorem vw_model_download_abort_decides_witness:
  "dp_stage (md_progress (fold download_step sample_events (vw_model_download_abort sample_download))) \<noteq> VW_MODEL_STAGE_DONE"
proof -
  have "dp_stage (md_progress sample_download) = VW_MODEL_STAGE_IDLE" using dl_inv_start[OF sample_started] by blast
  then show ?thesis using vw_model_download_abort_decides[OF sample_started, of "[]"] by simp
qed


end
