(* ===== verification/VW_Worker_Io.thy ===== *)
theory VW_Worker_Io
  imports VW_Ipc VW_Worker_Queue VW_Audio_Buffer VW_Segment_Builder VW_Vad VW_Translate_Async VW_Whisper_Engine VW_Model_Download
begin

text \<open>
  \<^verbatim>\<open>worker/src/vw_worker.c\<close> with \<^verbatim>\<open>worker/include/vw_worker_translation_diag_override.h\<close>, which
  the build compiles into it: the worker's session loop, its reader thread and its replies.
  It composes the queue, the audio buffer, the VAD, the engine, the segment builder, the
  translation pipeline and the codec of the other theories.

  The environment is part of the state as tapes of answers: the connection (\<open>wk_net\<close>), what
  each whisper run returns, the source decoder, the downloader, allocations, and the schedule of
  the other threads.  The main loop consults the schedule wherever it reads something another
  thread may write; each element of the schedule is the batch of steps the reader and the
  translation threads made since the last time.  A schedule that has run out means that the
  connection breaks.  A reader step handles a whole frame: between reading its first byte
  and queueing the frame the reader touches nothing that the main loop can see.
\<close>

unbundle bit_operations_syntax

section \<open>State\<close>

definition VW_AUDIO_SAMPLE_RATE :: nat where "VW_AUDIO_SAMPLE_RATE = 16000"
definition VW_LIVE_STARTUP_SAMPLES :: nat where "VW_LIVE_STARTUP_SAMPLES = 32000"
definition VW_WINDOW_SAMPLES :: nat where "VW_WINDOW_SAMPLES = 128000"
definition VW_LIVE_HOP_SAMPLES :: nat where "VW_LIVE_HOP_SAMPLES = 16000"
definition VW_LOCAL_FALLBACK_HOP_SAMPLES :: nat where "VW_LOCAL_FALLBACK_HOP_SAMPLES = 32000"
definition VW_LIVE_EDGE_HOLDBACK_US :: int where "VW_LIVE_EDGE_HOLDBACK_US = 500000"
definition VW_LOOKAHEAD_CHUNK_SAMPLES :: nat where "VW_LOOKAHEAD_CHUNK_SAMPLES = 32000"
definition VW_LOOKAHEAD_BUFFER_SAMPLES :: nat where "VW_LOOKAHEAD_BUFFER_SAMPLES = 960000"
definition VW_WORKER_FRAME_QUEUE_CAPACITY :: nat where "VW_WORKER_FRAME_QUEUE_CAPACITY = 512"
definition lead_target_us :: int where "lead_target_us = 30000000"

lemmas worker_limits = VW_AUDIO_SAMPLE_RATE_def VW_LIVE_STARTUP_SAMPLES_def VW_WINDOW_SAMPLES_def
  VW_LIVE_HOP_SAMPLES_def VW_LOCAL_FALLBACK_HOP_SAMPLES_def VW_LIVE_EDGE_HOLDBACK_US_def
  VW_LOOKAHEAD_CHUNK_SAMPLES_def VW_LOOKAHEAD_BUFFER_SAMPLES_def VW_WORKER_FRAME_QUEUE_CAPACITY_def lead_target_us_def

datatype background = Bg_Reader | Bg_Take | Bg_Complete nat translate_outcome

datatype source_read = Src_Ok "int list" i64 | Src_Again | Src_Eof | Src_Error

record worker_tapes =
  tp_schedule :: "background list list"
  tp_whisper :: "whisper_out list"
  tp_alloc :: "bool list"
  tp_opens :: "bool list"
  tp_seeks :: "bool list"
  tp_reads :: "source_read list"
  tp_starts :: "bool list"
  tp_polls :: "vw_download_progress option list"

text \<open>The reader thread: its sequence filter, and whether it is still running.\<close>

record worker_reader =
  rd_alive :: bool
  rd_seq_valid :: bool
  rd_last_sequence :: u64

text \<open>
  The variables of \<^verbatim>\<open>vw_worker_run\<close>.  \<open>wk_flight\<close> are the jobs the translation threads hold.
  \<open>wk_diag_registered\<close> and \<open>wk_diag_failed\<close> are the static state of the diagnostics header.
\<close>

record vw_worker =
  wk_config :: vw_worker_config
  wk_lang_id :: "bytes \<Rightarrow> int"
  wk_vad :: "(nat \<Rightarrow> silero) option"
  wk_vad_calls :: nat
  wk_tapes :: worker_tapes
  wk_net :: ipc_net
  wk_reader :: worker_reader
  wk_queue :: vw_worker_queue
  wk_running :: bool
  wk_fatal_exit :: bool
  wk_authenticated :: bool
  wk_engine :: "vw_whisper_engine option"
  wk_dl_dir_ready :: bool
  wk_model_dl :: bool
  wk_last_stage :: int
  wk_last_progress_send_us :: i64
  wk_audio_buf :: vw_audio_buffer
  wk_builder :: vw_segment_builder
  wk_session_id :: bytes
  wk_session_active :: bool
  wk_paused :: bool
  wk_live_progressive_mode :: bool
  wk_live_next_inference_samples :: nat
  wk_sequence :: u64
  wk_source_decoder :: bool
  wk_source_mode :: bool
  wk_source_eof :: bool
  wk_seek_failed_pending :: bool
  wk_current_playback_pts_us :: i64
  wk_last_playback_pts_us :: i64
  wk_decoded_pts_us :: i64
  wk_translate_enabled :: bool
  wk_translate_src_lang :: bytes
  wk_translate_dst_lang :: bytes
  wk_translate_mode :: u8
  wk_translator :: "vw_translate_async option"
  wk_flight :: "vw_translate_job list"
  wk_diag_registered :: bool
  wk_diag_failed :: bool

text \<open>\<^verbatim>\<open>atomic_store (&fatal_exit, true); atomic_store (&running, false)\<close>.\<close>

definition set_fatal :: "vw_worker \<Rightarrow> vw_worker" where
  "set_fatal w = w\<lparr>wk_fatal_exit := True, wk_running := False\<rparr>"

definition or_fatal :: "bool \<times> vw_worker \<Rightarrow> vw_worker" where
  "or_fatal r = (if fst r then snd r else set_fatal (snd r))"

section \<open>The reader thread\<close>

definition verify_token_constant_time :: "bytes \<Rightarrow> bytes \<Rightarrow> bool" where
  "verify_token_constant_time token_a token_b \<longleftrightarrow>
     fold (\<lambda>i diff. diff OR (token_a ! i XOR token_b ! i)) [0..<VW_AUTH_TOKEN_BYTES] 0 = 0"

text \<open>Reading \<open>len\<close> bytes; \<open>None\<close> is a fatal error.  The reader goes on after timeouts.\<close>

function reader_read :: "nat \<Rightarrow> bytes \<Rightarrow> ipc_net \<Rightarrow> bytes option \<times> ipc_net" where
  "reader_read len got n =
     (if length got \<ge> len then (Some got, n)
      else case vw_ipc_receive (len - length got) n of
          (Got bs, n') \<Rightarrow> reader_read len (got @ bs) n'
        | (Got_Timeout, n') \<Rightarrow> reader_read len got n'
        | (Got_Fatal, n') \<Rightarrow> (None, n'))"
  by pat_completeness auto

termination reader_read
  by (relation "measure (\<lambda>(_, _, n). length (nt_recv n))")
    (auto simp: vw_ipc_receive_def Let_def split: list.splits recv_event.splits if_splits)

declare reader_read.simps [simp del]

definition wk_io :: "(ipc_net \<Rightarrow> 'a \<times> ipc_net) \<Rightarrow> vw_worker \<Rightarrow> 'a \<times> vw_worker" where
  "wk_io f w = (case f (wk_net w) of (r, n) \<Rightarrow> (r, w\<lparr>wk_net := n\<rparr>))"

definition queue_push :: "u16 \<Rightarrow> bytes option \<Rightarrow> u32 \<Rightarrow> vw_worker \<Rightarrow> vw_worker" where
  "queue_push type payload payload_len w =
     (case vw_worker_queue_push (Some (wk_queue w)) type payload payload_len of
        (_, Some q) \<Rightarrow> w\<lparr>wk_queue := q\<rparr> | (_, None) \<Rightarrow> w)"

definition reader_fatal :: "vw_worker \<Rightarrow> vw_worker" where
  "reader_fatal w =
     queue_push (msg_code VW_MSG_SHUTDOWN) None 0 (set_fatal (w\<lparr>wk_reader := (wk_reader w)\<lparr>rd_alive := False\<rparr>\<rparr>))"

text \<open>A frame with a new sequence number: read its payload and queue it.\<close>

definition reader_accept :: "vw_frame_header \<Rightarrow> vw_worker \<Rightarrow> vw_worker" where
  "reader_accept h w =
     (let w = w\<lparr>wk_reader := (wk_reader w)\<lparr>rd_seq_valid := True, rd_last_sequence := fh_sequence h\<rparr>\<rparr> in
      if fh_payload_length h > 0 then
        (case wk_io take_mem w of (mem, w) \<Rightarrow>
           if \<not> mem then reader_fatal w
           else case wk_io (reader_read (unat (fh_payload_length h)) []) w of
               (None, w) \<Rightarrow> reader_fatal w
             | (Some body, w) \<Rightarrow> queue_push (fh_type h) (Some body) (fh_payload_length h) w)
      else queue_push (fh_type h) None 0 w)"

definition reader_frame :: "vw_worker \<Rightarrow> vw_worker" where
  "reader_frame w =
     (case wk_io (reader_read 20 []) w of
        (None, w) \<Rightarrow> reader_fatal w
      | (Some hdr, w) \<Rightarrow>
          (case vw_protocol_decode_header hdr of
             None \<Rightarrow> reader_fatal w
           | Some h \<Rightarrow>
               if \<not> vw_protocol_validate_header (Some h) then reader_fatal w
               else if rd_seq_valid (wk_reader w) \<and> fh_sequence h \<le> rd_last_sequence (wk_reader w) then
                 (case wk_io (reader_read (unat (fh_payload_length h)) []) w of
                    (None, w) \<Rightarrow> reader_fatal w
                  | (Some _, w) \<Rightarrow> w)
               else reader_accept h w))"

definition vw_worker_reader_main :: "vw_worker \<Rightarrow> vw_worker" where
  "vw_worker_reader_main w =
     (if \<not> rd_alive (wk_reader w) then w
      else if \<not> wk_running w then w\<lparr>wk_reader := (wk_reader w)\<lparr>rd_alive := False\<rparr>\<rparr>
      else reader_frame w)"

section \<open>The schedule\<close>

definition bg_take :: "vw_worker \<Rightarrow> vw_worker" where
  "bg_take w =
     (case wk_translator w of
        None \<Rightarrow> w
      | Some a \<Rightarrow>
          if length (wk_flight w) \<ge> VW_TRANSLATE_ASYNC_ACTIVE_BUDGET then w
          else (case take_job a of
              None \<Rightarrow> w
            | Some (job, a') \<Rightarrow> w\<lparr>wk_translator := Some a', wk_flight := wk_flight w @ [job]\<rparr>))"

definition bg_complete :: "nat \<Rightarrow> translate_outcome \<Rightarrow> vw_worker \<Rightarrow> vw_worker" where
  "bg_complete i out w =
     (case wk_translator w of
        None \<Rightarrow> w
      | Some a \<Rightarrow>
          if i \<ge> length (wk_flight w) then w
          else w\<lparr>wk_translator := Some (complete_job a (wk_flight w ! i) (run_job (wk_flight w ! i) out)),
                 wk_flight := remove_at i (wk_flight w)\<rparr>)"

fun background_step :: "background \<Rightarrow> vw_worker \<Rightarrow> vw_worker" where
  "background_step Bg_Reader w = vw_worker_reader_main w"
| "background_step Bg_Take w = bg_take w"
| "background_step (Bg_Complete i out) w = bg_complete i out w"

definition sched :: "vw_worker \<Rightarrow> vw_worker" where
  "sched w =
     (case tp_schedule (wk_tapes w) of
        [] \<Rightarrow> reader_fatal w
      | b # bs \<Rightarrow> fold background_step b (w\<lparr>wk_tapes := (wk_tapes w)\<lparr>tp_schedule := bs\<rparr>\<rparr>))"

section \<open>Sending\<close>

text \<open>
  The guard of the diagnostics header: after a failed diagnostic nothing is sent any more.
  \<open>send_frame\<close> is the tail of the sending functions.
\<close>

definition guarded_ipc_send :: "bytes \<Rightarrow> vw_worker \<Rightarrow> bool \<times> vw_worker" where
  "guarded_ipc_send bs w =
     (if wk_diag_registered w \<and> wk_diag_failed w then (False, w) else wk_io (vw_ipc_send bs) w)"

definition send_both :: "bytes \<Rightarrow> bytes \<Rightarrow> vw_worker \<Rightarrow> bool \<times> vw_worker" where
  "send_both hdr payload w =
     (case guarded_ipc_send hdr w of (ok, w) \<Rightarrow> if ok then guarded_ipc_send payload w else (False, w))"

definition send_frame :: "vw_message_type \<Rightarrow> bytes \<Rightarrow> vw_worker \<Rightarrow> bool \<times> vw_worker" where
  "send_frame type payload w =
     (let w = w\<lparr>wk_sequence := wk_sequence w + 1\<rparr> in
      case vw_protocol_encode_header (Some (frame_header type (length payload) (wk_sequence w))) 20 of
        None \<Rightarrow> (False, w)
      | Some hdr \<Rightarrow> send_both hdr payload w)"

definition send_payload :: "vw_message_type \<Rightarrow> vw_payload \<Rightarrow> nat \<Rightarrow> vw_worker \<Rightarrow> bool \<times> vw_worker" where
  "send_payload type p buffer_size w =
     (case vw_protocol_encode_payload (msg_code type) (Some p) buffer_size of
        None \<Rightarrow> (False, w)
      | Some payload \<Rightarrow> send_frame type payload w)"

definition send_error :: "bytes \<Rightarrow> u32 \<Rightarrow> u8 \<Rightarrow> bytes \<Rightarrow> vw_worker \<Rightarrow> bool \<times> vw_worker" where
  "send_error session_id code recoverable msg w =
     send_payload VW_MSG_ERROR (P_ERROR \<lparr>er_session_id = session_id, er_error_code = code, er_recoverable = recoverable,
       er_message = nul_pad VW_MAX_ERROR_MSG_BYTES (snprintf_cut VW_MAX_ERROR_MSG_BYTES msg)\<rparr>) 512 w"

definition vw_worker_send_model_progress ::
  "bytes \<Rightarrow> u8 \<Rightarrow> u8 \<Rightarrow> u64 \<Rightarrow> u64 \<Rightarrow> bytes \<Rightarrow> vw_worker \<Rightarrow> bool \<times> vw_worker" where
  "vw_worker_send_model_progress session_id stage pct bytes_done bytes_total model_id w =
     send_payload VW_MSG_MODEL_PROGRESS (P_MODEL_PROGRESS \<lparr>mp_session_id = session_id, mp_stage = stage, mp_pct = pct,
       mp_bytes_done = bytes_done, mp_bytes_total = bytes_total, mp_model_id = nul_pad 32 (snprintf_cut 32 model_id)\<rparr>)
       VW_MSG_MODEL_PROGRESS_PAYLOAD_BYTES w"

definition status_message :: "bytes \<Rightarrow> bool \<Rightarrow> bool \<Rightarrow> vw_worker \<Rightarrow> vw_msg_status" where
  "status_message session_id session_active paused w =
     (let queued_audio_us = vw_worker_queue_get_queued_audio_us (Some (wk_queue w))
            + of_nat (vw_audio_buffer_get_available (Some (wk_audio_buf w)) * 1000000 div VW_AUDIO_SAMPLE_RATE) in
      \<lparr>ss_session_id = session_id,
       ss_state = (if \<not> session_active then 0 else if paused then 2 else 1),
       ss_queued_audio_us = sint queued_audio_us,
       ss_inference_us = sint (vw_whisper_engine_get_total_inference_us (wk_engine w)),
       ss_dropped_audio_us = sint (vw_worker_queue_get_dropped_audio_us (Some (wk_queue w))),
       ss_resolved_backend = nul_pad 16
         (if wc_backend (wk_config w) = VW_WORKER_BACKEND_CPU \<or> wk_engine w = None
             \<or> \<not> vw_whisper_engine_is_gpu_active (wk_engine w)
          then ascii ''cpu'' else ascii ''gpu'')\<rparr>)"

definition vw_worker_send_status :: "bytes \<Rightarrow> bool \<Rightarrow> bool \<Rightarrow> vw_worker \<Rightarrow> bool \<times> vw_worker" where
  "vw_worker_send_status session_id session_active paused w =
     (let w = sched w in
      send_payload VW_MSG_STATUS (P_STATUS (status_message session_id session_active paused w)) 64 w)"

definition vw_worker_send_caption_segment :: "vw_caption_segment \<Rightarrow> vw_worker \<Rightarrow> bool \<times> vw_worker" where
  "vw_worker_send_caption_segment seg w =
     send_payload VW_MSG_CAPTION_SEGMENT (P_CAPTION seg) (VW_CAPTION_SEGMENT_FIXED_BYTES + VW_MAX_TEXT_BYTES * 2 + 64) w"

text \<open>The current session's status, and giving up when it cannot be sent.\<close>

definition report_status :: "vw_worker \<Rightarrow> vw_worker" where
  "report_status w = or_fatal (vw_worker_send_status (wk_session_id w) (wk_session_active w) (wk_paused w) w)"

definition report_error :: "bytes \<Rightarrow> u32 \<Rightarrow> u8 \<Rightarrow> bytes \<Rightarrow> vw_worker \<Rightarrow> vw_worker" where
  "report_error session_id code recoverable msg w = or_fatal (send_error session_id code recoverable msg w)"

section \<open>Translation diagnostics\<close>

definition vw_worker_translation_diag_mark_transport_failed :: "vw_worker \<Rightarrow> vw_worker" where
  "vw_worker_translation_diag_mark_transport_failed w =
     (let w = w\<lparr>wk_diag_failed := True\<rparr> in if wk_diag_registered w then set_fatal w else w)"

fun vw_worker_translation_cause_name :: "vw_translate_failure_cause \<Rightarrow> bytes" where
  "vw_worker_translation_cause_name VW_TRANSLATE_FAILURE_PROVIDER = ascii ''provider''"
| "vw_worker_translation_cause_name VW_TRANSLATE_FAILURE_TRANSPORT = ascii ''transport''"
| "vw_worker_translation_cause_name VW_TRANSLATE_FAILURE_PARSE = ascii ''parse''"
| "vw_worker_translation_cause_name VW_TRANSLATE_FAILURE_DEADLINE = ascii ''deadline''"
| "vw_worker_translation_cause_name VW_TRANSLATE_FAILURE_LOCAL = ascii ''local''"
| "vw_worker_translation_cause_name VW_TRANSLATE_FAILURE_NONE = ascii ''unknown''"

definition vw_worker_translation_tier_name :: "u8 \<Rightarrow> bytes" where
  "vw_worker_translation_tier_name tier =
     (if tier = 1 then ascii ''rpc'' else if tier = 2 then ascii ''gtx'' else if tier = 3 then ascii ''mobile''
      else ascii ''none'')"

fun vw_worker_translation_error_code :: "vw_translate_failure_cause \<Rightarrow> u32" where
  "vw_worker_translation_error_code VW_TRANSLATE_FAILURE_PROVIDER = E_TRANSLATION_PROVIDER"
| "vw_worker_translation_error_code VW_TRANSLATE_FAILURE_TRANSPORT = E_TRANSLATION_TRANSPORT"
| "vw_worker_translation_error_code VW_TRANSLATE_FAILURE_PARSE = E_TRANSLATION_PARSE"
| "vw_worker_translation_error_code VW_TRANSLATE_FAILURE_DEADLINE = E_TRANSLATION_DEADLINE"
| "vw_worker_translation_error_code _ = E_TRANSLATION_LOCAL"

text \<open>\<^verbatim>\<open>%02x\<close> of a byte.\<close>

definition hex02 :: "u8 \<Rightarrow> bytes" where
  "hex02 b = [ascii ''0123456789abcdef'' ! unat (drop_bit 4 b), ascii ''0123456789abcdef'' ! unat (b AND 0x0F)]"

definition diag_detail :: "vw_translate_async_result \<Rightarrow> bytes" where
  "diag_detail result =
     (let latency_us = unat (cs_translation_latency_us (tr_segment result)); f = tr_failure result in
      ascii ''segment='' @ dec_digits (unat (cs_segment_id (tr_segment result)))
      @ ascii '' cause='' @ vw_worker_translation_cause_name (tf_cause f)
      @ ascii '' tier='' @ vw_worker_translation_tier_name (tf_terminal_tier f)
      @ ascii '' attempts=0x'' @ hex02 (tf_attempted_tiers f)
      @ (if tf_provider_status f \<noteq> 0 then ascii '' status='' @ dec_digits (unat (tf_provider_status f)) else [])
      @ ascii '' latency_ms='' @ dec_digits (latency_us div 1000) @ [0x2E] @ pad0 3 (dec_digits (latency_us mod 1000)))"

definition vw_worker_translation_diag_build :: "vw_translate_async_result \<Rightarrow> (u32 \<times> bytes) option" where
  "vw_worker_translation_diag_build result =
     (if tr_success result \<or> \<not> tr_attempted result \<or> tf_cause (tr_failure result) = VW_TRANSLATE_FAILURE_NONE then None
      else case snprintf VW_MAX_ERROR_MSG_BYTES (diag_detail result) of
          None \<Rightarrow> None
        | Some out \<Rightarrow> Some (vw_worker_translation_error_code (tf_cause (tr_failure result)), out))"

definition vw_worker_translation_diag_send :: "u32 \<Rightarrow> bytes \<Rightarrow> vw_worker \<Rightarrow> bool \<times> vw_worker" where
  "vw_worker_translation_diag_send code detail w = send_error (wk_session_id w) code 1 detail w"

definition vw_worker_translation_diag_prepare_local_rejection :: "vw_caption_segment \<Rightarrow> vw_translate_async_result" where
  "vw_worker_translation_diag_prepare_local_rejection segment =
     zero_result\<lparr>tr_segment := segment\<lparr>cs_translation_attempted := True, cs_translation_tier := VW_TRANSLATE_TIER_NONE,
         cs_translation_latency_us := 0\<rparr>,
       tr_attempted := True, tr_success := False,
       tr_failure := zero_failure\<lparr>tf_cause := VW_TRANSLATE_FAILURE_LOCAL\<rparr>\<rparr>"

definition vw_worker_translation_diag_report_local_rejection :: "vw_caption_segment \<Rightarrow> vw_worker \<Rightarrow> bool \<times> vw_worker" where
  "vw_worker_translation_diag_report_local_rejection segment w =
     (case vw_worker_translation_diag_build (vw_worker_translation_diag_prepare_local_rejection segment) of
        None \<Rightarrow> (False, w)
      | Some (code, detail) \<Rightarrow> vw_worker_translation_diag_send code detail w)"

definition vw_worker_deliver_translation :: "vw_translate_async_result \<Rightarrow> vw_worker \<Rightarrow> vw_worker" where
  "vw_worker_deliver_translation translated w =
     (if \<not> wk_session_active w \<or> cs_session_id (tr_segment translated) \<noteq> wk_session_id w then w
      else or_fatal (vw_worker_send_caption_segment (tr_segment translated) w))"

definition vw_worker_translation_diag_deliver :: "vw_translate_async_result \<Rightarrow> vw_worker \<Rightarrow> vw_worker" where
  "vw_worker_translation_diag_deliver result w =
     (let active_session = (wk_session_active w \<and> cs_session_id (tr_segment result) = wk_session_id w) in
      case (if active_session then vw_worker_translation_diag_build result else None) of
        None \<Rightarrow> vw_worker_deliver_translation result w
      | Some (code, detail) \<Rightarrow>
          (case vw_worker_translation_diag_send code detail w of (ok, w) \<Rightarrow>
             if \<not> ok then set_fatal (vw_worker_translation_diag_mark_transport_failed w)
             else vw_worker_deliver_translation result w))"

definition vw_worker_translation_diag_register_transport_state :: "vw_worker \<Rightarrow> vw_worker" where
  "vw_worker_translation_diag_register_transport_state w =
     (if wk_diag_registered w then w else w\<lparr>wk_diag_registered := True, wk_diag_failed := False\<rparr>)"

definition vw_worker_translate_async_try_deliver_scoped :: "vw_translate_async \<Rightarrow> vw_worker \<Rightarrow> bool \<times> vw_worker" where
  "vw_worker_translate_async_try_deliver_scoped async w =
     (let w = vw_worker_translation_diag_register_transport_state w in
      if wk_diag_failed w then (False, set_fatal w)
      else case vw_translate_async_try_deliver async of
          (None, async') \<Rightarrow> (False, w\<lparr>wk_translator := Some async'\<rparr>)
        | (Some result, async') \<Rightarrow>
            (True, vw_worker_translation_diag_deliver result (w\<lparr>wk_translator := Some async'\<rparr>)))"

definition vw_worker_translate_async_submit_scoped ::
  "vw_translate_async \<Rightarrow> vw_caption_segment \<Rightarrow> vw_worker \<Rightarrow> bool \<times> vw_worker" where
  "vw_worker_translate_async_submit_scoped async segment w =
     (if wk_diag_registered w \<and> wk_diag_failed w then (True, w)
      else case vw_translate_async_submit async segment (Some (wk_translate_src_lang w)) (Some (wk_translate_dst_lang w)) of
          (True, async') \<Rightarrow> (True, w\<lparr>wk_translator := Some async'\<rparr>)
        | (False, async') \<Rightarrow>
            (case vw_worker_translation_diag_report_local_rejection segment (w\<lparr>wk_translator := Some async'\<rparr>) of
               (ok, w) \<Rightarrow> if ok then (False, w) else (True, vw_worker_translation_diag_mark_transport_failed w)))"

section \<open>What the operations leave alone\<close>

text \<open>
  Sending only concerns \<open>wk_net\<close>, the counter, the two flags and the diagnostics flag; the other
  threads only concern the connection, the queue, the flags, the translator and the schedule.
  \<open>rest\<close> and \<open>outer\<close> blank out these fields.
\<close>

definition zero_net :: ipc_net where
  "zero_net = \<lparr>nt_clock = [], nt_recv = [], nt_send = [], nt_mem = [], nt_random = [], nt_in = [], nt_sent = [], nt_events = []\<rparr>"

definition zero_queue :: vw_worker_queue where
  "zero_queue = \<lparr>wq_slots = [], wq_capacity = 0, wq_head = 0, wq_tail = 0, wq_dropped_audio_us = 0, wq_queued_audio_us = 0\<rparr>"

definition zero_tapes :: worker_tapes where
  "zero_tapes = \<lparr>tp_schedule = [], tp_whisper = [], tp_alloc = [], tp_opens = [], tp_seeks = [], tp_reads = [], tp_starts = [], tp_polls = []\<rparr>"

definition rest :: "vw_worker \<Rightarrow> vw_worker" where
  "rest w = w\<lparr>wk_net := zero_net, wk_sequence := 0, wk_fatal_exit := False, wk_running := False, wk_diag_failed := False\<rparr>"

lemma rest_fields:
  assumes "rest w' = rest w"
  shows "wk_config w' = wk_config w"
    "wk_lang_id w' = wk_lang_id w"
    "wk_vad w' = wk_vad w"
    "wk_vad_calls w' = wk_vad_calls w"
    "wk_tapes w' = wk_tapes w"
    "wk_reader w' = wk_reader w"
    "wk_queue w' = wk_queue w"
    "wk_authenticated w' = wk_authenticated w"
    "wk_engine w' = wk_engine w"
    "wk_dl_dir_ready w' = wk_dl_dir_ready w"
    "wk_model_dl w' = wk_model_dl w"
    "wk_last_stage w' = wk_last_stage w"
    "wk_last_progress_send_us w' = wk_last_progress_send_us w"
    "wk_audio_buf w' = wk_audio_buf w"
    "wk_builder w' = wk_builder w"
    "wk_session_id w' = wk_session_id w"
    "wk_session_active w' = wk_session_active w"
    "wk_paused w' = wk_paused w"
    "wk_live_progressive_mode w' = wk_live_progressive_mode w"
    "wk_live_next_inference_samples w' = wk_live_next_inference_samples w"
    "wk_source_decoder w' = wk_source_decoder w"
    "wk_source_mode w' = wk_source_mode w"
    "wk_source_eof w' = wk_source_eof w"
    "wk_seek_failed_pending w' = wk_seek_failed_pending w"
    "wk_current_playback_pts_us w' = wk_current_playback_pts_us w"
    "wk_last_playback_pts_us w' = wk_last_playback_pts_us w"
    "wk_decoded_pts_us w' = wk_decoded_pts_us w"
    "wk_translate_enabled w' = wk_translate_enabled w"
    "wk_translate_src_lang w' = wk_translate_src_lang w"
    "wk_translate_dst_lang w' = wk_translate_dst_lang w"
    "wk_translate_mode w' = wk_translate_mode w"
    "wk_translator w' = wk_translator w"
    "wk_flight w' = wk_flight w"
    "wk_diag_registered w' = wk_diag_registered w"
  using arg_cong[OF assms, of wk_config]
    arg_cong[OF assms, of wk_lang_id]
    arg_cong[OF assms, of wk_vad]
    arg_cong[OF assms, of wk_vad_calls]
    arg_cong[OF assms, of wk_tapes]
    arg_cong[OF assms, of wk_reader]
    arg_cong[OF assms, of wk_queue]
    arg_cong[OF assms, of wk_authenticated]
    arg_cong[OF assms, of wk_engine]
    arg_cong[OF assms, of wk_dl_dir_ready]
    arg_cong[OF assms, of wk_model_dl]
    arg_cong[OF assms, of wk_last_stage]
    arg_cong[OF assms, of wk_last_progress_send_us]
    arg_cong[OF assms, of wk_audio_buf]
    arg_cong[OF assms, of wk_builder]
    arg_cong[OF assms, of wk_session_id]
    arg_cong[OF assms, of wk_session_active]
    arg_cong[OF assms, of wk_paused]
    arg_cong[OF assms, of wk_live_progressive_mode]
    arg_cong[OF assms, of wk_live_next_inference_samples]
    arg_cong[OF assms, of wk_source_decoder]
    arg_cong[OF assms, of wk_source_mode]
    arg_cong[OF assms, of wk_source_eof]
    arg_cong[OF assms, of wk_seek_failed_pending]
    arg_cong[OF assms, of wk_current_playback_pts_us]
    arg_cong[OF assms, of wk_last_playback_pts_us]
    arg_cong[OF assms, of wk_decoded_pts_us]
    arg_cong[OF assms, of wk_translate_enabled]
    arg_cong[OF assms, of wk_translate_src_lang]
    arg_cong[OF assms, of wk_translate_dst_lang]
    arg_cong[OF assms, of wk_translate_mode]
    arg_cong[OF assms, of wk_translator]
    arg_cong[OF assms, of wk_flight]
    arg_cong[OF assms, of wk_diag_registered]
  by (simp_all add: rest_def)

definition outer :: "vw_worker \<Rightarrow> vw_worker" where
  "outer w = w\<lparr>wk_net := zero_net, wk_reader := \<lparr>rd_alive = False, rd_seq_valid = False, rd_last_sequence = 0\<rparr>, wk_queue := zero_queue, wk_fatal_exit := False, wk_running := False, wk_translator := None, wk_flight := [], wk_tapes := zero_tapes\<rparr>"

lemma outer_fields:
  assumes "outer w' = outer w"
  shows "wk_config w' = wk_config w"
    "wk_lang_id w' = wk_lang_id w"
    "wk_vad w' = wk_vad w"
    "wk_vad_calls w' = wk_vad_calls w"
    "wk_authenticated w' = wk_authenticated w"
    "wk_engine w' = wk_engine w"
    "wk_dl_dir_ready w' = wk_dl_dir_ready w"
    "wk_model_dl w' = wk_model_dl w"
    "wk_last_stage w' = wk_last_stage w"
    "wk_last_progress_send_us w' = wk_last_progress_send_us w"
    "wk_audio_buf w' = wk_audio_buf w"
    "wk_builder w' = wk_builder w"
    "wk_session_id w' = wk_session_id w"
    "wk_session_active w' = wk_session_active w"
    "wk_paused w' = wk_paused w"
    "wk_live_progressive_mode w' = wk_live_progressive_mode w"
    "wk_live_next_inference_samples w' = wk_live_next_inference_samples w"
    "wk_sequence w' = wk_sequence w"
    "wk_source_decoder w' = wk_source_decoder w"
    "wk_source_mode w' = wk_source_mode w"
    "wk_source_eof w' = wk_source_eof w"
    "wk_seek_failed_pending w' = wk_seek_failed_pending w"
    "wk_current_playback_pts_us w' = wk_current_playback_pts_us w"
    "wk_last_playback_pts_us w' = wk_last_playback_pts_us w"
    "wk_decoded_pts_us w' = wk_decoded_pts_us w"
    "wk_translate_enabled w' = wk_translate_enabled w"
    "wk_translate_src_lang w' = wk_translate_src_lang w"
    "wk_translate_dst_lang w' = wk_translate_dst_lang w"
    "wk_translate_mode w' = wk_translate_mode w"
    "wk_diag_registered w' = wk_diag_registered w"
    "wk_diag_failed w' = wk_diag_failed w"
  using arg_cong[OF assms, of wk_config]
    arg_cong[OF assms, of wk_lang_id]
    arg_cong[OF assms, of wk_vad]
    arg_cong[OF assms, of wk_vad_calls]
    arg_cong[OF assms, of wk_authenticated]
    arg_cong[OF assms, of wk_engine]
    arg_cong[OF assms, of wk_dl_dir_ready]
    arg_cong[OF assms, of wk_model_dl]
    arg_cong[OF assms, of wk_last_stage]
    arg_cong[OF assms, of wk_last_progress_send_us]
    arg_cong[OF assms, of wk_audio_buf]
    arg_cong[OF assms, of wk_builder]
    arg_cong[OF assms, of wk_session_id]
    arg_cong[OF assms, of wk_session_active]
    arg_cong[OF assms, of wk_paused]
    arg_cong[OF assms, of wk_live_progressive_mode]
    arg_cong[OF assms, of wk_live_next_inference_samples]
    arg_cong[OF assms, of wk_sequence]
    arg_cong[OF assms, of wk_source_decoder]
    arg_cong[OF assms, of wk_source_mode]
    arg_cong[OF assms, of wk_source_eof]
    arg_cong[OF assms, of wk_seek_failed_pending]
    arg_cong[OF assms, of wk_current_playback_pts_us]
    arg_cong[OF assms, of wk_last_playback_pts_us]
    arg_cong[OF assms, of wk_decoded_pts_us]
    arg_cong[OF assms, of wk_translate_enabled]
    arg_cong[OF assms, of wk_translate_src_lang]
    arg_cong[OF assms, of wk_translate_dst_lang]
    arg_cong[OF assms, of wk_translate_mode]
    arg_cong[OF assms, of wk_diag_registered]
    arg_cong[OF assms, of wk_diag_failed]
  by (simp_all add: outer_def)

lemma rest_set_fatal [simp]: "rest (set_fatal w) = rest w"
  by (simp add: rest_def set_fatal_def)

lemma rest_or_fatal [simp]: "rest (or_fatal r) = rest (snd r)"
  by (simp add: or_fatal_def)

lemma rest_guarded_send [simp]: "rest (snd (guarded_ipc_send bs w)) = rest w"
  by (simp add: guarded_ipc_send_def wk_io_def rest_def split: prod.splits)

lemma rest_send_both [simp]: "rest (snd (send_both hdr payload w)) = rest w"
proof -
  obtain ok w1 where g: "guarded_ipc_send hdr w = (ok, w1)" by fastforce
  then have "rest w1 = rest w" using rest_guarded_send[of hdr w] by simp
  then show ?thesis using g by (simp add: send_both_def)
qed

lemma rest_send_frame [simp]: "rest (snd (send_frame type payload w)) = rest w"
proof -
  have "rest (w\<lparr>wk_sequence := s\<rparr>) = rest w" for s by (simp add: rest_def)
  then show ?thesis by (simp add: send_frame_def Let_def split: option.splits)
qed

lemma rest_send_payload [simp]: "rest (snd (send_payload type p n w)) = rest w"
  by (simp add: send_payload_def split: option.splits)

lemma rest_send_error [simp]: "rest (snd (send_error sid code r msg w)) = rest w"
  by (simp add: send_error_def)

lemma rest_report_error [simp]: "rest (report_error sid code r msg w) = rest w"
  by (simp add: report_error_def)

lemma rest_send_model_progress [simp]: "rest (snd (vw_worker_send_model_progress sid st pct d t m w)) = rest w"
  by (simp add: vw_worker_send_model_progress_def)

lemma rest_send_caption [simp]: "rest (snd (vw_worker_send_caption_segment seg w)) = rest w"
  by (simp add: vw_worker_send_caption_segment_def)

lemma rest_deliver_translation [simp]: "rest (vw_worker_deliver_translation r w) = rest w"
  by (simp add: vw_worker_deliver_translation_def)

lemma rest_mark_failed [simp]: "rest (vw_worker_translation_diag_mark_transport_failed w) = rest w"
proof -
  have "rest (w\<lparr>wk_diag_failed := b\<rparr>) = rest w" for b by (simp add: rest_def)
  then show ?thesis by (simp add: vw_worker_translation_diag_mark_transport_failed_def Let_def)
qed

lemma rest_diag_deliver [simp]: "rest (vw_worker_translation_diag_deliver r w) = rest w"
  by (simp add: vw_worker_translation_diag_deliver_def vw_worker_translation_diag_send_def Let_def case_prod_beta
      split: option.splits)

lemma rest_report_local [simp]: "rest (snd (vw_worker_translation_diag_report_local_rejection seg w)) = rest w"
  by (simp add: vw_worker_translation_diag_report_local_rejection_def vw_worker_translation_diag_send_def split: option.splits)

lemma outer_set_fatal [simp]: "outer (set_fatal w) = outer w"
  by (simp add: outer_def set_fatal_def)

lemma outer_io [simp]: "outer (snd (wk_io f w)) = outer w"
  by (simp add: wk_io_def outer_def split: prod.splits)

lemma outer_queue_push [simp]: "outer (queue_push t p n w) = outer w"
  by (simp add: queue_push_def outer_def split: prod.splits option.splits)

lemma outer_reader [simp]: "outer (w\<lparr>wk_reader := r\<rparr>) = outer w"
  by (simp add: outer_def)

lemma outer_reader_fatal [simp]: "outer (reader_fatal w) = outer w"
  by (simp add: reader_fatal_def)

lemma outer_io_eq: "wk_io f w = (r, w') \<Longrightarrow> outer w' = outer w"
  using outer_io[of f w] by simp

lemma outer_reader_accept [simp]: "outer (reader_accept h w) = outer w"
  by (auto simp: reader_accept_def Let_def dest!: outer_io_eq split: prod.splits option.splits)

lemma outer_reader_main [simp]: "outer (vw_worker_reader_main w) = outer w"
  by (auto simp: vw_worker_reader_main_def reader_frame_def dest!: outer_io_eq split: prod.splits option.splits)

lemma outer_background [simp]: "outer (background_step b w) = outer w"
  by (cases b) (auto simp: bg_take_def bg_complete_def outer_def[of "w\<lparr>wk_translator := _, wk_flight := _\<rparr>"] outer_def[of w]
      split: option.splits)

lemma outer_sched [simp]: "outer (sched w) = outer w"
proof -
  have "outer (fold background_step bs v) = outer v" for bs v by (induction bs arbitrary: v) simp_all
  moreover have "outer (w\<lparr>wk_tapes := t\<rparr>) = outer w" for t by (simp add: outer_def)
  ultimately show ?thesis by (simp add: sched_def split: list.splits)
qed

lemmas rest_simps [simp] = rest_fields[OF rest_set_fatal] rest_fields[OF rest_or_fatal] rest_fields[OF rest_send_error]
  rest_fields[OF rest_report_error] rest_fields[OF rest_send_model_progress] rest_fields[OF rest_send_caption]
  rest_fields[OF rest_send_payload] rest_fields[OF rest_deliver_translation] rest_fields[OF rest_mark_failed]
  rest_fields[OF rest_diag_deliver] rest_fields[OF rest_report_local]

lemmas sched_fields [simp] = outer_fields[OF outer_sched]

end
