(* ===== verification/VW_Worker.thy ===== *)
theory VW_Worker
  imports VW_Worker_Io
begin

text \<open>
  \<^verbatim>\<open>worker/src/vw_worker.c\<close>, second part: inference, the handlers of the messages and the
  main loop, over the replies and the schedule of theory VW_Worker_Io.
\<close>

unbundle bit_operations_syntax

lemma tapes_io [simp]: "wk_tapes (snd (wk_io f w)) = wk_tapes w"
  by (simp add: wk_io_def split: prod.splits)

lemma tapes_io_eq: "wk_io f w = (r, w') \<Longrightarrow> wk_tapes w' = wk_tapes w"
  using tapes_io[of f w] by simp

lemma tapes_queue_push [simp]: "wk_tapes (queue_push t p n w) = wk_tapes w"
  by (simp add: queue_push_def split: prod.splits option.splits)

lemma tapes_reader_fatal [simp]: "wk_tapes (reader_fatal w) = wk_tapes w"
  by (simp add: reader_fatal_def set_fatal_def)

lemma tapes_background [simp]: "wk_tapes (background_step b w) = wk_tapes w"
  by (cases b) (auto simp: vw_worker_reader_main_def reader_frame_def reader_accept_def Let_def bg_take_def bg_complete_def
      dest!: tapes_io_eq split: prod.splits option.splits)

lemma tapes_background_fold [simp]: "wk_tapes (fold background_step bs w) = wk_tapes w"
  by (induction bs arbitrary: w) simp_all

lemma tapes_sched: "wk_tapes (sched w) = (wk_tapes w)\<lparr>tp_schedule := tl (tp_schedule (wk_tapes w))\<rparr>"
  by (cases "wk_tapes w") (simp add: sched_def split: list.splits)

lemma sched_exhausted:
  assumes "tp_schedule (wk_tapes w) = []"
  shows "\<not> wk_running (sched w)" "wk_translator (sched w) = wk_translator w"
  using assms by (simp_all add: sched_def reader_fatal_def set_fatal_def queue_push_def split: prod.splits option.splits)

lemma tapes_try_deliver [simp]: "wk_tapes (snd (vw_worker_translate_async_try_deliver_scoped a w)) = wk_tapes w"
  by (simp add: vw_worker_translate_async_try_deliver_scoped_def Let_def rest_fields[OF rest_diag_deliver]
      rest_fields[OF rest_set_fatal] vw_worker_translation_diag_register_transport_state_def split: prod.splits option.splits)

lemma try_deliver_shrinks:
  assumes "vw_worker_translate_async_try_deliver_scoped a w = (True, w')"
  shows "\<exists>a'. wk_translator w' = Some a' \<and> ta_result_count a' < ta_result_count a"
proof -
  obtain r a' where d: "vw_translate_async_try_deliver a = (Some r, a')"
    "wk_translator w' = Some a'"
    using assms by (auto simp: vw_worker_translate_async_try_deliver_scoped_def Let_def rest_fields[OF rest_diag_deliver]
        split: prod.splits option.splits if_splits)
  then obtain i where i: "vw_translate_async_find_next_result_locked a = Some i" "a' = vw_translate_async_remove_result_locked a i"
    by (auto simp: vw_translate_async_try_deliver_def Let_def split: option.splits if_splits)
  have "0 < ta_result_count a"
    using i(1) by (cases "ta_result_count a") (simp_all add: vw_translate_async_find_next_result_locked_def)
  then show ?thesis using d(2) i(2) by (simp add: vw_translate_async_remove_result_locked_def)
qed

section \<open>Delivering translations\<close>

text \<open>The loop \<^verbatim>\<open>while (vw_translate_async_try_deliver (...)) {}\<close>.\<close>

function deliver_loop :: "vw_worker \<Rightarrow> vw_worker" where
  "deliver_loop w =
     (let w1 = sched w in
      case wk_translator w1 of
        None \<Rightarrow> w1
      | Some async \<Rightarrow>
          (case vw_worker_translate_async_try_deliver_scoped async w1 of (again, w2) \<Rightarrow>
             if again then deliver_loop w2 else w2))"
  by pat_completeness auto

termination deliver_loop
proof (relation "measures [\<lambda>w. length (tp_schedule (wk_tapes w)), \<lambda>w. case wk_translator w of None \<Rightarrow> 0 | Some a \<Rightarrow> ta_result_count a]",
    goal_cases)
  case (2 w w1 a again w2)
  then have d: "vw_worker_translate_async_try_deliver_scoped a w1 = (True, w2)" and a: "wk_translator w1 = Some a" and w1: "w1 = sched w"
    by auto
  have t: "wk_tapes w2 = wk_tapes w1" using tapes_try_deliver[of a w1] d by simp
  show ?case
  proof (cases "tp_schedule (wk_tapes w)")
    case Nil
    with try_deliver_shrinks[OF d] a w1 t sched_exhausted(2)[OF Nil] show ?thesis by (auto simp: tapes_sched)
  next
    case Cons
    then show ?thesis using t w1 by (simp add: tapes_sched)
  qed
qed simp

declare deliver_loop.simps [simp del]

definition deliver_translations :: "vw_worker \<Rightarrow> vw_worker" where
  "deliver_translations w = (if wk_translator w = None then w else deliver_loop w)"

function vw_worker_drain_translation :: "vw_worker \<Rightarrow> vw_worker" where
  "vw_worker_drain_translation w =
     (let w1 = sched w in
      if \<not> wk_running w1 then w1
      else case wk_translator w1 of
          None \<Rightarrow> w1
        | Some async \<Rightarrow>
            if \<not> vw_translate_async_has_pending async then w1
            else vw_worker_drain_translation (snd (vw_worker_translate_async_try_deliver_scoped async w1)))"
  by pat_completeness auto

termination vw_worker_drain_translation
proof (relation "measure (\<lambda>w. length (tp_schedule (wk_tapes w)))", goal_cases)
  case (2 w w1 a)
  then have "tp_schedule (wk_tapes w) \<noteq> []" using sched_exhausted(1) by blast
  with 2 show ?case by (auto simp: tapes_sched)
qed simp

declare vw_worker_drain_translation.simps [simp del]

section \<open>Inference\<close>

definition next_vad :: "vw_worker \<Rightarrow> silero option \<times> vw_worker" where
  "next_vad w = (map_option (\<lambda>v. v (wk_vad_calls w)) (wk_vad w), w\<lparr>wk_vad_calls := wk_vad_calls w + 1\<rparr>)"

definition transcribe :: "nat \<Rightarrow> vw_worker \<Rightarrow> bool \<times> vw_worker" where
  "transcribe n w =
     (case (wk_engine w, tp_whisper (wk_tapes w)) of
        (Some e, out # outs) \<Rightarrow>
          (case vw_whisper_engine_transcribe_pcm out e n of (ok, e') \<Rightarrow>
             (ok, w\<lparr>wk_engine := Some e', wk_tapes := (wk_tapes w)\<lparr>tp_whisper := outs\<rparr>\<rparr>))
      | _ \<Rightarrow> (False, w))"

definition engine_segments :: "vw_whisper_engine option \<Rightarrow> vw_whisper_segment list" where
  "engine_segments engine =
     List.map_filter (\<lambda>i. vw_whisper_engine_get_segment engine (int i)) [0..<vw_whisper_engine_get_segment_count engine]"

text \<open>\<^verbatim>\<open>no_speech_prob >= 0.60f\<close>.\<close>

definition no_speech :: "vw_whisper_segment \<Rightarrow> bool" where
  "no_speech seg \<longleftrightarrow> \<not> f32_nan (ws_no_speech_prob seg) \<and> f32_val (ws_no_speech_prob seg) \<ge> f32_val 0x3F19999A"

definition push_hypothesis :: "i64 \<Rightarrow> vw_whisper_segment \<Rightarrow> vw_worker \<Rightarrow> vw_worker" where
  "push_hypothesis window_pts_us seg w =
     (case vw_segment_builder_push_hypothesis (wk_builder w) (tp_alloc (wk_tapes w)) (Some (ws_text_utf8 seg))
         (vw_saturating_add_i64 window_pts_us (ws_t0_us seg)) (vw_saturating_add_i64 window_pts_us (ws_t1_us seg)) of
        (_, b, al) \<Rightarrow> w\<lparr>wk_builder := b, wk_tapes := (wk_tapes w)\<lparr>tp_alloc := al\<rparr>\<rparr>)"

text \<open>The hypotheses of the last run, except those with too little speech or held back.\<close>

definition push_segments :: "(vw_whisper_segment \<Rightarrow> bool) \<Rightarrow> i64 \<Rightarrow> vw_worker \<Rightarrow> vw_worker" where
  "push_segments hold window_pts_us w =
     fold (\<lambda>seg w. if no_speech seg then w else if hold seg then w else push_hypothesis window_pts_us seg w)
       (engine_segments (wk_engine w)) w"

definition drain_audio :: "nat \<Rightarrow> vw_worker \<Rightarrow> vw_worker" where
  "drain_audio n w = w\<lparr>wk_audio_buf := vw_audio_buffer_drain (wk_audio_buf w) n\<rparr>"

lemma drain_audio_count: "ab_count (wk_audio_buf (drain_audio n w)) = ab_count (wk_audio_buf w) - n"
  by (simp add: drain_audio_def vw_audio_buffer_drain_def vw_audio_buffer_advance_pts_def Let_def)

text \<open>\<open>inner\<close>: inference only concerns the VAD, the engine, the builder, the buffer and two tapes.\<close>

definition inner :: "vw_worker \<Rightarrow> vw_worker" where
  "inner w = w\<lparr>wk_vad_calls := 0, wk_engine := None, wk_builder := sample_builder, wk_audio_buf := sample_buffer,
     wk_tapes := (wk_tapes w)\<lparr>tp_whisper := [], tp_alloc := []\<rparr>\<rparr>"

lemma push_hypothesis_audio [simp]: "wk_audio_buf (push_hypothesis t seg w) = wk_audio_buf w"
  by (simp add: push_hypothesis_def split: prod.splits)

lemma push_segments_audio [simp]: "wk_audio_buf (push_segments hold t w) = wk_audio_buf w"
proof -
  have "wk_audio_buf (fold (\<lambda>seg w. if no_speech seg then w else if hold seg then w else push_hypothesis t seg w) ss v)
      = wk_audio_buf v" for ss v
    by (induction ss arbitrary: v) simp_all
  then show ?thesis by (simp add: push_segments_def)
qed

lemma transcribe_audio [simp]: "wk_audio_buf (snd (transcribe n w)) = wk_audio_buf w"
  by (simp add: transcribe_def split: option.splits list.splits prod.splits)

lemma next_vad_audio [simp]: "wk_audio_buf (snd (next_vad w)) = wk_audio_buf w"
  by (simp add: next_vad_def)

function flush_loop :: "vw_worker \<Rightarrow> bool \<times> vw_worker" where
  "flush_loop w =
     (if ab_count (wk_audio_buf w) = 0 then (True, w)
      else case vw_audio_buffer_get_samples (wk_audio_buf w) VW_CHUNK_MAX_SAMPLES of (pcm, pts) \<Rightarrow>
        if pcm = [] then (True, w)
        else case next_vad w of (vad, w1) \<Rightarrow>
          (case vw_vad_find_chunk_boundary vad pcm True of
             None \<Rightarrow> (False, w1)
           | Some (cut_samples, drain_samples) \<Rightarrow>
               if cut_samples = 0 \<and> drain_samples = 0 then (False, w1)
               else if drain_samples > 0 then flush_loop (drain_audio drain_samples w1)
               else case transcribe cut_samples w1 of (ok, w2) \<Rightarrow>
                 if \<not> ok then (False, w2)
                 else flush_loop (drain_audio cut_samples (push_segments (\<lambda>_. False) (case pts of Some t \<Rightarrow> t | None \<Rightarrow> 0) w2))))"
  by pat_completeness auto

termination flush_loop
proof (relation "measure (\<lambda>w. ab_count (wk_audio_buf w))", goal_cases)
  case (2 w pcm pts vad w1 b cut dr)
  then have "wk_audio_buf w1 = wk_audio_buf w" using next_vad_audio[of w] by (metis snd_conv)
  with 2 show ?case by (simp add: drain_audio_count)
next
  case (3 w pcm pts vad w1 b cut dr ok w2)
  then have "wk_audio_buf w1 = wk_audio_buf w" "wk_audio_buf w2 = wk_audio_buf w1"
    using next_vad_audio[of w] transcribe_audio[of cut w1] by (metis snd_conv)+
  with 3 show ?case by (simp add: drain_audio_count)
qed simp

declare flush_loop.simps [simp del]

definition vw_worker_flush_audio_tail :: "vw_worker \<Rightarrow> bool \<times> vw_worker" where
  "vw_worker_flush_audio_tail w = (if wk_engine w = None then (False, w) else flush_loop w)"

section \<open>Emitting captions\<close>

lemma submit_scoped_fields [simp]:
  "wk_builder (snd (vw_worker_translate_async_submit_scoped a seg w)) = wk_builder w"
  "wk_tapes (snd (vw_worker_translate_async_submit_scoped a seg w)) = wk_tapes w"
  by (simp_all add: vw_worker_translate_async_submit_scoped_def case_prod_beta split: bool.splits)

text \<open>The cue as it leaves the builder: under the session, and not translated yet.\<close>

definition stamp_segment :: "vw_caption_segment \<Rightarrow> vw_worker \<Rightarrow> vw_caption_segment" where
  "stamp_segment seg w =
     seg\<lparr>cs_session_id := wk_session_id w, cs_translated_text_utf8 := None, cs_translated_text_bytes := 0,
       cs_translation_attempted := False, cs_translation_tier := VW_TRANSLATE_TIER_NONE, cs_translation_latency_us := 0\<rparr>"

definition has_text :: "vw_caption_segment \<Rightarrow> bool" where
  "has_text seg \<longleftrightarrow> (case cs_text_utf8 seg of None \<Rightarrow> False | Some t \<Rightarrow> c_get t 0 \<noteq> 0)"

text \<open>
  \<^verbatim>\<open>translate_enabled && translator && text && submit (...)\<close>: whether the pipeline took the cue.
\<close>

definition submit_segment :: "vw_caption_segment \<Rightarrow> vw_worker \<Rightarrow> bool \<times> vw_worker" where
  "submit_segment seg w =
     (if wk_translate_enabled w \<and> wk_translator w \<noteq> None \<and> has_text seg then
        let w = sched w in
        case wk_translator w of
          None \<Rightarrow> (False, w)
        | Some async \<Rightarrow> vw_worker_translate_async_submit_scoped async seg w
      else (False, w))"

lemma submit_segment_builder [simp]: "wk_builder (snd (submit_segment seg w)) = wk_builder w"
  by (simp add: submit_segment_def Let_def split: option.splits)

lemma pop_builder_count:
  "vw_segment_builder_pop b = Some (seg, b') \<Longrightarrow> sb_count b' < sb_count b"
  by (auto simp: vw_segment_builder_pop_def Let_def split: if_splits)

function vw_worker_emit_tail_segments :: "vw_worker \<Rightarrow> bool \<times> vw_worker" where
  "vw_worker_emit_tail_segments w =
     (case vw_segment_builder_pop (wk_builder w) of
        None \<Rightarrow> (True, w)
      | Some (seg, b) \<Rightarrow>
          let w = w\<lparr>wk_builder := b\<rparr>; seg = stamp_segment seg w in
          case submit_segment seg w of (taken, w1) \<Rightarrow>
            if taken then vw_worker_emit_tail_segments w1
            else case vw_worker_send_caption_segment (seg\<lparr>cs_translation_attempted := wk_translate_enabled w\<rparr>) w1 of
                (ok, w2) \<Rightarrow> if ok then vw_worker_emit_tail_segments w2 else (False, w2))"
  by pat_completeness auto

termination vw_worker_emit_tail_segments
proof (relation "measure (\<lambda>w. sb_count (wk_builder w))", goal_cases)
  case (2 w r seg b wb sg taken w1)
  then have "wk_builder w1 = b" "vw_segment_builder_pop (wk_builder w) = Some (seg, b)"
    by (auto simp: prod_eq_iff)
  then show ?case using pop_builder_count by simp
next
  case (3 w r seg b wb sg taken w1 ok w2)
  then have "wk_builder w1 = b" "wk_builder w2 = wk_builder w1" "vw_segment_builder_pop (wk_builder w) = Some (seg, b)"
    by (auto simp: prod_eq_iff)
  then show ?case using pop_builder_count by simp
qed simp

declare vw_worker_emit_tail_segments.simps [simp del]

text \<open>The loop at the end of an iteration: a cue that cannot be sent does not end it.\<close>

definition emit_segment :: "vw_caption_segment \<Rightarrow> vw_worker \<Rightarrow> vw_worker" where
  "emit_segment seg w =
     (if wk_translate_enabled w \<and> wk_translator w \<noteq> None \<and> has_text seg then
        (case submit_segment seg w of (taken, w1) \<Rightarrow>
           if taken then w1
           else or_fatal (vw_worker_send_caption_segment (seg\<lparr>cs_translation_attempted := True\<rparr>) w1))
      else or_fatal (vw_worker_send_caption_segment seg w))"

lemma emit_segment_builder [simp]: "wk_builder (emit_segment seg w) = wk_builder w"
  by (simp add: emit_segment_def case_prod_beta)

function emit_segments :: "vw_worker \<Rightarrow> vw_worker" where
  "emit_segments w =
     (case vw_segment_builder_pop (wk_builder w) of
        None \<Rightarrow> w
      | Some (seg, b) \<Rightarrow> let w = w\<lparr>wk_builder := b\<rparr> in emit_segments (emit_segment (stamp_segment seg w) w))"
  by pat_completeness auto

termination emit_segments
  by (relation "measure (\<lambda>w. sb_count (wk_builder w))") (auto dest: pop_builder_count)

declare emit_segments.simps [simp del]

section \<open>Sessions\<close>

text \<open>Clearing the window: buffer, builder and the next target of the live mode.\<close>

definition startup_samples :: "vw_worker \<Rightarrow> nat" where
  "startup_samples w = (if wk_live_progressive_mode w then VW_LIVE_STARTUP_SAMPLES else VW_WINDOW_SAMPLES)"

definition clear_window :: "vw_worker \<Rightarrow> vw_worker" where
  "clear_window w =
     w\<lparr>wk_audio_buf := vw_audio_buffer_clear (wk_audio_buf w), wk_live_next_inference_samples := startup_samples w,
       wk_builder := vw_segment_builder_clear (wk_builder w)\<rparr>"

definition invalidate_translations :: "vw_worker \<Rightarrow> vw_worker" where
  "invalidate_translations w = w\<lparr>wk_translator := map_option vw_translate_async_invalidate (wk_translator w)\<rparr>"

definition source_open :: "vw_worker \<Rightarrow> bool \<times> vw_worker" where
  "source_open w =
     (case tp_opens (wk_tapes w) of
        [] \<Rightarrow> (False, w) | r # rs \<Rightarrow> (r, w\<lparr>wk_tapes := (wk_tapes w)\<lparr>tp_opens := rs\<rparr>\<rparr>))"

definition source_seek :: "vw_worker \<Rightarrow> bool \<times> vw_worker" where
  "source_seek w =
     (case tp_seeks (wk_tapes w) of
        [] \<Rightarrow> (False, w) | r # rs \<Rightarrow> (r, w\<lparr>wk_tapes := (wk_tapes w)\<lparr>tp_seeks := rs\<rparr>\<rparr>))"

text \<open>The loop that discards the pending cues of the old session.\<close>

function discard_pending :: "vw_segment_builder \<Rightarrow> vw_segment_builder" where
  "discard_pending b = (case vw_segment_builder_pop b of None \<Rightarrow> b | Some (_, b') \<Rightarrow> discard_pending b')"
  by pat_completeness auto

termination discard_pending
  by (relation "measure sb_count") (auto dest: pop_builder_count)

declare discard_pending.simps [simp del]

definition abandon_session :: "vw_worker \<Rightarrow> vw_worker" where
  "abandon_session w =
     w\<lparr>wk_source_decoder := False, wk_audio_buf := vw_audio_buffer_clear (wk_audio_buf w), wk_live_progressive_mode := False,
       wk_live_next_inference_samples := VW_WINDOW_SAMPLES, wk_builder := discard_pending (wk_builder w),
       wk_session_active := False\<rparr>"

definition begin_session :: "vw_msg_start \<Rightarrow> vw_worker \<Rightarrow> vw_worker" where
  "begin_session start w =
     (let live = (st_source_kind start = 0);
          w = w\<lparr>wk_session_id := st_session_id start, wk_session_active := True, wk_paused := False,
                wk_live_progressive_mode := live,
                wk_live_next_inference_samples := (if live then VW_LIVE_STARTUP_SAMPLES else VW_WINDOW_SAMPLES),
                wk_source_eof := False, wk_seek_failed_pending := False,
                wk_current_playback_pts_us := st_timeline_origin_pts_us start, wk_last_playback_pts_us := - 1,
                wk_decoded_pts_us := st_timeline_origin_pts_us start,
                wk_audio_buf := vw_audio_buffer_clear (wk_audio_buf w),
                wk_builder := vw_segment_builder_clear (wk_builder w)\<rparr>;
          w = invalidate_translations w
      in if wk_source_decoder w then w\<lparr>wk_source_decoder := False, wk_source_mode := False\<rparr> else w)"

text \<open>Opening the source; \<open>False\<close> when the failure could not be reported.\<close>

definition start_source :: "vw_msg_start \<Rightarrow> vw_worker \<Rightarrow> bool \<times> vw_worker" where
  "start_source start w =
     (if st_source_url_len start > 0 \<and> c_get (st_source_url start) 0 \<noteq> 0 then
        (case source_open w of (opened, w) \<Rightarrow>
           if opened then
             let origin = st_timeline_origin_pts_us start;
                 w = w\<lparr>wk_source_decoder := True, wk_source_mode := True, wk_source_eof := False,
                       wk_current_playback_pts_us := origin, wk_last_playback_pts_us := origin, wk_decoded_pts_us := origin\<rparr> in
             if origin > 0 then
               (case source_seek w of (ok, w) \<Rightarrow>
                  (True, if ok then w else w\<lparr>wk_source_decoder := False, wk_source_mode := False\<rparr>))
             else (True, w)
           else
             (case send_error (st_session_id start) E_SOURCE_OPEN 1
                 (ascii ''Failed to open source MRL; falling back to live PCM stream'')
                 (w\<lparr>wk_source_mode := False, wk_source_eof := False\<rparr>) of (ok, w) \<Rightarrow>
                if ok then (True, w) else (False, set_fatal w)))
      else (True, w\<lparr>wk_source_mode := False, wk_source_eof := False\<rparr>))"

text \<open>The STARTED frame: its header goes out even if the payload could not be encoded.\<close>

definition send_started :: "vw_msg_start \<Rightarrow> vw_worker \<Rightarrow> bool \<times> vw_worker" where
  "send_started start w =
     (let payload = (case vw_protocol_encode_payload (msg_code VW_MSG_STARTED) (Some (P_STARTED
            \<lparr>sd_session_id = st_session_id start, sd_source_active = (if wk_source_mode w then 1 else 0)\<rparr>))
            VW_MSG_STARTED_PAYLOAD_BYTES of Some b \<Rightarrow> b | None \<Rightarrow> []);
          w = w\<lparr>wk_sequence := wk_sequence w + 1\<rparr> in
      case vw_protocol_encode_header (Some (frame_header VW_MSG_STARTED (length payload) (wk_sequence w))) 20 of
        None \<Rightarrow> (False, w)
      | Some hdr \<Rightarrow>
          (case guarded_ipc_send hdr w of (ok, w) \<Rightarrow>
             if ok \<and> length payload > 0 then guarded_ipc_send payload w else (ok, w)))"

definition set_language :: "bytes \<Rightarrow> vw_worker \<Rightarrow> bool \<times> vw_worker" where
  "set_language language w =
     (case wk_engine w of
        None \<Rightarrow> (False, w)
      | Some e \<Rightarrow>
          (case vw_whisper_engine_set_language (wk_lang_id w) e language of (ok, e') \<Rightarrow> (ok, w\<lparr>wk_engine := Some e'\<rparr>)))"

definition on_start :: "vw_msg_start \<Rightarrow> vw_worker \<Rightarrow> vw_worker" where
  "on_start start w =
     (if wk_session_active w \<and> wk_session_id w = st_session_id start then
        report_error (wk_session_id w) E_INTERNAL 1 (ascii ''Session already active'') w
      else
        let w = (if wk_session_active w then abandon_session w else w) in
        if st_sample_rate start \<noteq> 16000 then
          report_error (st_session_id start) E_AUDIO_FORMAT 1 (ascii ''Unsupported sample rate (expected 16000)'') w
        else if wk_engine w = None then
          report_error (st_session_id start) E_MODEL_MISSING 0 (ascii ''Whisper model file missing or invalid'') w
        else case set_language (c_str (st_language start)) w of (ok, w) \<Rightarrow>
          if \<not> ok then report_error (st_session_id start) E_INTERNAL 1 (ascii ''Invalid session transcription language'') w
          else case start_source start (begin_session start w) of (ok, w) \<Rightarrow>
            if \<not> ok then w
            else case send_started start w of (ok, w) \<Rightarrow>
              if \<not> ok then set_fatal w
              else or_fatal (vw_worker_send_status (st_session_id start) (wk_session_active w) (wk_paused w) w))"

section \<open>Positions\<close>

definition source_ready :: "vw_worker \<Rightarrow> bool" where
  "source_ready w \<longleftrightarrow> wk_source_mode w \<and> wk_source_decoder w"

definition position_paused :: "vw_msg_position \<Rightarrow> vw_worker \<Rightarrow> vw_worker" where
  "position_paused pos w =
     (let requested_pts_us = po_current_pts_us pos; w = w\<lparr>wk_paused := \<not> wk_paused w\<rparr> in
      if wk_paused w then clear_window w
      else if source_ready w \<and> requested_pts_us \<ge> 0 then
        (case source_seek w of (ok, w) \<Rightarrow>
           if ok then clear_window (w\<lparr>wk_current_playback_pts_us := requested_pts_us, wk_decoded_pts_us := requested_pts_us,
                  wk_last_playback_pts_us := requested_pts_us, wk_source_eof := False\<rparr>)
           else w)
      else w)"

definition follow_position :: "vw_msg_position \<Rightarrow> vw_worker \<Rightarrow> vw_worker" where
  "follow_position pos w =
     (let requested_pts_us = po_current_pts_us pos;
          seek_flag = (po_flags pos AND VW_POSITION_FLAG_SEEK \<noteq> 0);
          backward_jump = (wk_last_playback_pts_us w \<ge> 0
             \<and> requested_pts_us < vw_saturating_sub_i64 (wk_last_playback_pts_us w) 500000);
          forward_past_decoded = (requested_pts_us > vw_saturating_add_i64 (wk_decoded_pts_us w) 1000000);
          requires_seek = (seek_flag \<or> (backward_jump \<or> forward_past_decoded)
             \<and> requested_pts_us \<noteq> wk_last_playback_pts_us w \<and> (\<not> wk_seek_failed_pending w \<or> seek_flag));
          w = (if requires_seek then
                 (case source_seek w of (ok, w) \<Rightarrow>
                    if \<not> ok then w\<lparr>wk_seek_failed_pending := \<not> seek_flag\<rparr>
                    else clear_window ((invalidate_translations (w\<lparr>wk_seek_failed_pending := False\<rparr>))
                      \<lparr>wk_current_playback_pts_us := requested_pts_us, wk_decoded_pts_us := requested_pts_us,
                       wk_source_eof := False\<rparr>))
               else w)
      in if \<not> requires_seek \<or> wk_current_playback_pts_us w = requested_pts_us
         then w\<lparr>wk_current_playback_pts_us := requested_pts_us, wk_last_playback_pts_us := requested_pts_us\<rparr> else w)"

definition on_position :: "vw_msg_position \<Rightarrow> vw_worker \<Rightarrow> vw_worker" where
  "on_position pos w =
     (if \<not> wk_session_active w \<or> po_session_id pos \<noteq> wk_session_id w then w
      else
        let is_pos_paused = (po_flags pos AND VW_POSITION_FLAG_PAUSED \<noteq> 0) in
        case (if is_pos_paused \<noteq> wk_paused w then
                let w = position_paused pos w
                in vw_worker_send_status (wk_session_id w) (wk_session_active w) (wk_paused w) w
              else (True, w)) of (ok, w) \<Rightarrow>
          if \<not> ok then set_fatal w
          else if source_ready w then follow_position pos w
          else w\<lparr>wk_current_playback_pts_us := po_current_pts_us pos\<rparr>)"

section \<open>Audio\<close>

text \<open>The payload read as an array of \<^verbatim>\<open>int16_t\<close>.\<close>

fun pcm16_of :: "bytes \<Rightarrow> int list" where
  "pcm16_of (a # b # bs) = sint (ucast a OR push_bit 8 (ucast b) :: 16 word) # pcm16_of bs"
| "pcm16_of _ = []"

text \<open>Transcribing one live window; \<open>True\<close> when the engine failed and the worker gives up.\<close>

definition live_inference :: "rat list \<Rightarrow> i64 \<Rightarrow> vw_worker \<Rightarrow> bool \<times> vw_worker" where
  "live_inference pcm window_pts_us w =
     (let read_cnt = length pcm;
          growing_live_window = (wk_live_progressive_mode w \<and> read_cnt < VW_WINDOW_SAMPLES);
          read_duration_us = int (read_cnt * 1000000 div VW_AUDIO_SAMPLE_RATE) in
      if read_cnt > 0 \<and> wk_engine w \<noteq> None then
        (case next_vad w of (vad, w) \<Rightarrow>
           if vw_vad_detect_speech vad pcm then
             (case transcribe read_cnt w of (ok, w) \<Rightarrow>
                if ok then (False, push_segments (\<lambda>seg. growing_live_window
                       \<and> ws_t1_us seg > read_duration_us - VW_LIVE_EDGE_HOLDBACK_US) window_pts_us w)
                else (True, set_fatal (snd (send_error (wk_session_id w) E_INTERNAL 0 (ascii ''Whisper inference failed'') w))))
           else (False, w))
      else (False, w))"

text \<open>One pass of the loop: \<open>True\<close> goes on.\<close>

definition live_pass :: "vw_worker \<Rightarrow> bool \<times> vw_worker" where
  "live_pass w =
     (let buffered_samples = ab_count (wk_audio_buf w);
          requested_samples = (if buffered_samples < VW_WINDOW_SAMPLES then buffered_samples else VW_WINDOW_SAMPLES) in
      case vw_audio_buffer_get_samples (wk_audio_buf w) requested_samples of (pcm, pts) \<Rightarrow>
        case live_inference pcm (case pts of Some t \<Rightarrow> t | None \<Rightarrow> 0) w of (failed, w) \<Rightarrow>
          if failed then (False, w)
          else if wk_live_progressive_mode w \<and> length pcm < VW_WINDOW_SAMPLES then
            let next_target = length pcm + VW_LIVE_HOP_SAMPLES;
                w = sched (w\<lparr>wk_live_next_inference_samples :=
                  (if next_target < VW_WINDOW_SAMPLES then next_target else VW_WINDOW_SAMPLES)\<rparr>)
            in (False, if wk_running w then report_status w else w)
          else
            let w = sched w in
            if \<not> wk_running w then (False, w)
            else (True, report_status (drain_audio
              (if wk_live_progressive_mode w then VW_LIVE_HOP_SAMPLES else VW_LOCAL_FALLBACK_HOP_SAMPLES)
              (w\<lparr>wk_live_next_inference_samples := VW_WINDOW_SAMPLES\<rparr>))))"

abbreviation schedule_left :: "vw_worker \<Rightarrow> nat" where
  "schedule_left w \<equiv> length (tp_schedule (wk_tapes w))"

lemma schedule_push_hypothesis [simp]: "tp_schedule (wk_tapes (push_hypothesis t seg w)) = tp_schedule (wk_tapes w)"
  by (simp add: push_hypothesis_def split: prod.splits)

lemma schedule_push_segments [simp]: "tp_schedule (wk_tapes (push_segments hold t w)) = tp_schedule (wk_tapes w)"
proof -
  have "tp_schedule (wk_tapes (fold (\<lambda>seg w. if no_speech seg then w else if hold seg then w else push_hypothesis t seg w) ss v))
      = tp_schedule (wk_tapes v)" for ss v
    by (induction ss arbitrary: v) simp_all
  then show ?thesis by (simp add: push_segments_def)
qed

lemma schedule_transcribe [simp]: "tp_schedule (wk_tapes (snd (transcribe n w))) = tp_schedule (wk_tapes w)"
  by (simp add: transcribe_def split: option.splits list.splits prod.splits)

lemma schedule_live_inference [simp]: "tp_schedule (wk_tapes (snd (live_inference pcm t w))) = tp_schedule (wk_tapes w)"
  by (simp add: live_inference_def next_vad_def Let_def case_prod_beta)

lemma schedule_send_status [simp]:
  "tp_schedule (wk_tapes (snd (vw_worker_send_status sid act p w))) = tl (tp_schedule (wk_tapes w))"
  by (simp add: vw_worker_send_status_def Let_def tapes_sched)

lemma schedule_report_status [simp]: "tp_schedule (wk_tapes (report_status w)) = tl (tp_schedule (wk_tapes w))"
  by (simp add: report_status_def)

lemma live_pass_schedule:
  assumes "live_pass w = (True, w')"
  shows "schedule_left w' < schedule_left w"
proof -
  obtain pcm pts where g: "vw_audio_buffer_get_samples (wk_audio_buf w) (if ab_count (wk_audio_buf w) < VW_WINDOW_SAMPLES
      then ab_count (wk_audio_buf w) else VW_WINDOW_SAMPLES) = (pcm, pts)" by fastforce
  obtain failed w1 where l: "live_inference pcm (case pts of Some t \<Rightarrow> t | None \<Rightarrow> 0) w = (failed, w1)" by fastforce
  have s: "tp_schedule (wk_tapes w1) = tp_schedule (wk_tapes w)" using schedule_live_inference l by (metis snd_conv)
  have r: "wk_running (sched w1)" "schedule_left w' = schedule_left (sched w1) - 1"
    using assms g l by (auto simp: live_pass_def Let_def drain_audio_def split: if_splits)
  then have "tp_schedule (wk_tapes w) \<noteq> []" using s sched_exhausted(1)[of w1] by auto
  then show ?thesis using r(2) s by (simp add: tapes_sched)
qed

function live_loop :: "vw_worker \<Rightarrow> vw_worker" where
  "live_loop w =
     (if ab_count (wk_audio_buf w) < wk_live_next_inference_samples w then w
      else case live_pass w of (again, w') \<Rightarrow> if again then live_loop w' else w')"
  by pat_completeness auto

termination live_loop
  by (relation "measure schedule_left") (auto simp: live_pass_schedule[OF sym])

declare live_loop.simps [simp del]

definition on_audio :: "vw_msg_audio \<Rightarrow> vw_worker \<Rightarrow> vw_worker" where
  "on_audio audio w =
     (if \<not> wk_session_active w \<or> wk_paused w \<or> wk_source_mode w \<or> au_session_id audio \<noteq> wk_session_id w then w
      else
        let sample_count = unat (au_pcm_bytes audio) div 2; pts_us = au_start_pts_us audio in
        if pts_us < 0 \<or> pts_us > 315360000000000 then clear_window w
        else case au_pcm_data audio of
            None \<Rightarrow> w
          | Some data \<Rightarrow>
              if sample_count = 0 then w
              else (case vw_audio_buffer_append_s16le (Some (wk_audio_buf w)) (Some (pcm16_of data)) sample_count pts_us of
                  (_, Some buf) \<Rightarrow> live_loop (w\<lparr>wk_audio_buf := buf\<rparr>)
                | (_, None) \<Rightarrow> w))"

section \<open>Pause, resume and stop\<close>

definition on_pause :: "vw_msg_control \<Rightarrow> vw_worker \<Rightarrow> vw_worker" where
  "on_pause ctrl w =
     (if \<not> wk_session_active w then w
      else if ct_session_id ctrl \<noteq> wk_session_id w then w
      else report_status (invalidate_translations (clear_window (w\<lparr>wk_paused := True\<rparr>))))"

definition on_resume :: "vw_msg_control \<Rightarrow> vw_worker \<Rightarrow> vw_worker" where
  "on_resume ctrl w =
     (if \<not> wk_session_active w then w
      else if ct_session_id ctrl \<noteq> wk_session_id w then w
      else
        let w = w\<lparr>wk_paused := False\<rparr>;
            w = (if source_ready w \<and> wk_current_playback_pts_us w \<ge> 0 then
                   (case source_seek w of (ok, w) \<Rightarrow>
                      if ok then invalidate_translations (clear_window (w\<lparr>wk_decoded_pts_us := wk_current_playback_pts_us w,
                          wk_last_playback_pts_us := wk_current_playback_pts_us w, wk_source_eof := False\<rparr>))
                      else w)
                 else w)
        in report_status w)"

text \<open>Transcribing and sending what the buffer still holds.\<close>

definition flush_tail :: "string \<Rightarrow> vw_worker \<Rightarrow> bool \<times> vw_worker" where
  "flush_tail msg w =
     (case vw_worker_flush_audio_tail w of (flushed, w) \<Rightarrow>
        if \<not> flushed then (False, set_fatal (snd (send_error (wk_session_id w) E_INTERNAL 0 (ascii msg) w)))
        else (case vw_worker_emit_tail_segments w of (ok, w) \<Rightarrow> (ok, if ok then w else set_fatal w)))"

definition end_session :: "vw_worker \<Rightarrow> vw_worker" where
  "end_session w =
     (let w = w\<lparr>wk_session_active := False, wk_seek_failed_pending := False, wk_last_playback_pts_us := - 1\<rparr>;
          w = (if wk_source_decoder w then w\<lparr>wk_source_decoder := False, wk_source_mode := False\<rparr> else w)
      in invalidate_translations (clear_window (w\<lparr>wk_live_progressive_mode := False\<rparr>)))"

definition on_stop :: "vw_msg_control \<Rightarrow> vw_worker \<Rightarrow> vw_worker" where
  "on_stop ctrl w =
     (if ct_session_id ctrl \<noteq> wk_session_id w then w
      else
        let w = (if ct_reason ctrl = VW_CTRL_REASON_MEDIA_END \<and> \<not> wk_source_mode w \<and> ab_count (wk_audio_buf w) > 0
                 then snd (flush_tail ''MEDIA_END tail inference failed'' w) else w);
            w = (if wk_translator w \<noteq> None \<and> wk_session_active w \<and> ct_reason ctrl \<noteq> VW_CTRL_REASON_SEEK_DISCONTINUITY
                 then vw_worker_drain_translation w else w);
            w = sched (end_session w)
        in if wk_running w then or_fatal (vw_worker_send_status (wk_session_id w) False False w) else w)"

definition on_shutdown :: "vw_worker \<Rightarrow> vw_worker" where
  "on_shutdown w =
     (let w = (if wk_session_active w \<and> \<not> wk_source_mode w \<and> ab_count (wk_audio_buf w) > 0
               then (case flush_tail ''SHUTDOWN tail inference failed'' w of (ok, w) \<Rightarrow> if ok then report_status w else w)
               else w);
          w = (if wk_translator w \<noteq> None \<and> wk_session_active w then vw_worker_drain_translation w else w);
          w = (if wk_source_decoder w then w\<lparr>wk_source_decoder := False, wk_source_mode := False\<rparr> else w)
      in w\<lparr>wk_running := False\<rparr>)"

definition on_translate_ctrl :: "vw_msg_translate_ctrl \<Rightarrow> vw_worker \<Rightarrow> vw_worker" where
  "on_translate_ctrl ctrl w =
     (if tc_session_id ctrl \<noteq> wk_session_id w then w
      else invalidate_translations (w\<lparr>wk_translate_enabled := (tc_enabled ctrl \<noteq> 0),
        wk_translate_src_lang := snprintf_cut 16 (c_str (tc_source_lang ctrl)),
        wk_translate_dst_lang := snprintf_cut 16 (c_str (tc_target_lang ctrl)), wk_translate_mode := tc_mode ctrl\<rparr>))"

section \<open>Model downloads\<close>

definition download_poll :: "vw_worker \<Rightarrow> vw_download_progress option \<times> vw_worker" where
  "download_poll w =
     (case tp_polls (wk_tapes w) of
        [] \<Rightarrow> (None, w) | r # rs \<Rightarrow> (r, w\<lparr>wk_tapes := (wk_tapes w)\<lparr>tp_polls := rs\<rparr>\<rparr>))"

definition download_start :: "vw_worker \<Rightarrow> bool \<times> vw_worker" where
  "download_start w =
     (case tp_starts (wk_tapes w) of
        [] \<Rightarrow> (False, w) | r # rs \<Rightarrow> (r, w\<lparr>wk_tapes := (wk_tapes w)\<lparr>tp_starts := rs\<rparr>\<rparr>))"

definition download_busy :: "vw_download_progress option \<Rightarrow> bool" where
  "download_busy cur \<longleftrightarrow> (case cur of None \<Rightarrow> False
     | Some p \<Rightarrow> dp_stage p = VW_MODEL_STAGE_DOWNLOADING \<or> dp_stage p = VW_MODEL_STAGE_VERIFYING \<or> dp_stage p = VW_MODEL_STAGE_ABORTING)"

definition report_progress :: "bytes \<Rightarrow> int \<Rightarrow> int \<Rightarrow> u64 \<Rightarrow> u64 \<Rightarrow> bytes \<Rightarrow> vw_worker \<Rightarrow> vw_worker" where
  "report_progress session_id stage pct bytes_done bytes_total model_id w =
     or_fatal (vw_worker_send_model_progress session_id (of_int stage) (of_int pct) bytes_done bytes_total model_id w)"

definition on_download :: "bytes \<Rightarrow> bytes \<Rightarrow> vw_worker \<Rightarrow> vw_worker" where
  "on_download progress_session req_id w =
     (case vw_model_catalog_find (Some req_id) of
        None \<Rightarrow> report_progress progress_session VW_MODEL_STAGE_FAILED 0 0 0 req_id w
      | Some entry \<Rightarrow>
          if \<not> wk_dl_dir_ready w then report_progress progress_session VW_MODEL_STAGE_FAILED 0 0 0 req_id w
          else case (if wk_model_dl w then download_poll w else (None, w)) of (cur, w) \<Rightarrow>
            if download_busy cur then report_progress progress_session VW_MODEL_STAGE_FAILED 0 0 0 req_id w
            else
              let w = (if wk_model_dl w then w\<lparr>wk_model_dl := False, wk_last_stage := - 1\<rparr> else w) in
              case download_start w of (started, w) \<Rightarrow>
                if started then w\<lparr>wk_model_dl := True\<rparr>
                else report_progress progress_session VW_MODEL_STAGE_FAILED 0 0 0 (ce_id entry) w)"

definition on_model_ctrl :: "vw_msg_model_ctrl \<Rightarrow> vw_worker \<Rightarrow> vw_worker" where
  "on_model_ctrl ctrl w =
     (let progress_session = (if wk_session_active w then wk_session_id w else mc_session_id ctrl) in
      if mc_action ctrl = 1 then on_download progress_session (c_str (mc_model_id ctrl)) w
      else if mc_action ctrl = 2 then
        (if wk_model_dl w then w else report_progress progress_session VW_MODEL_STAGE_IDLE 0 0 0 [] w)
      else w)"

definition poll_download :: "vw_worker \<Rightarrow> vw_worker" where
  "poll_download w =
     (if \<not> wk_model_dl w then w
      else case download_poll w of
          (None, w) \<Rightarrow> w
        | (Some prog, w) \<Rightarrow>
            (case wk_io take_clock w of (now_us, w) \<Rightarrow>
               let prev_stage = wk_last_stage w;
                   should_send = (dp_stage prog \<noteq> prev_stage
                     \<or> download_busy (Some prog) \<and> now_us - wk_last_progress_send_us w \<ge> 1000000);
                   w = (if should_send then
                          (report_progress (if wk_session_active w then wk_session_id w else replicate VW_SESSION_ID_BYTES 0)
                             (dp_stage prog) (dp_pct prog) (dp_bytes_done prog) (dp_bytes_total prog) (dp_model_id prog) w)
                            \<lparr>wk_last_stage := dp_stage prog, wk_last_progress_send_us := now_us\<rparr>
                        else w)
               in if dp_stage prog = VW_MODEL_STAGE_DONE \<or> dp_stage prog = VW_MODEL_STAGE_FAILED
                    \<or> dp_stage prog = VW_MODEL_STAGE_IDLE \<and> prev_stage = VW_MODEL_STAGE_ABORTING
                    \<or> dp_stage prog = VW_MODEL_STAGE_IDLE
                        \<and> (prev_stage = VW_MODEL_STAGE_DOWNLOADING \<or> prev_stage = VW_MODEL_STAGE_VERIFYING)
                  then w\<lparr>wk_model_dl := False, wk_last_stage := - 1\<rparr> else w))"

section \<open>Frames\<close>

datatype flow = Flow_Next | Flow_Continue | Flow_Break

definition worker_ack :: vw_msg_hello_ack where
  "worker_ack = \<lparr>ha_selected_major = VW_PROTOCOL_VERSION_MAJOR, ha_selected_minor = VW_PROTOCOL_VERSION_MINOR,
     ha_capability_flags = VW_CAPABILITY_PCM_S16LE_16K_MONO OR VW_CAPABILITY_SOURCE_MODE OR VW_CAPABILITY_TRANSLATION,
     ha_worker_version_length = 5, ha_worker_version = Some (ascii ''1.6.0'')\<rparr>"

definition on_hello :: "vw_msg_hello \<Rightarrow> vw_worker \<Rightarrow> flow \<times> vw_worker" where
  "on_hello hello w =
     (if he_min_major hello > VW_PROTOCOL_VERSION_MAJOR \<or> he_max_major hello < VW_PROTOCOL_VERSION_MAJOR then
        (Flow_Break, (snd (send_error (replicate VW_SESSION_ID_BYTES 0) E_PROTOCOL_VERSION 0
          (ascii ''No compatible protocol major'') w))\<lparr>wk_fatal_exit := True\<rparr>)
      else if \<not> verify_token_constant_time (wc_auth_token (wk_config w)) (he_auth_token hello) then
        (Flow_Break, w\<lparr>wk_fatal_exit := True\<rparr>)
      else
        let w = w\<lparr>wk_authenticated := True\<rparr> in
        case vw_protocol_encode_payload (msg_code VW_MSG_HELLO_ACK) (Some (P_HELLO_ACK worker_ack)) 256 of
          None \<Rightarrow> (Flow_Break, w\<lparr>wk_fatal_exit := True\<rparr>)
        | Some ack_payload \<Rightarrow>
            (case vw_protocol_encode_header (Some (frame_header VW_MSG_HELLO_ACK (length ack_payload) 1)) 20 of
               None \<Rightarrow> (Flow_Break, w\<lparr>wk_fatal_exit := True\<rparr>)
             | Some ack_hdr \<Rightarrow>
                 (case send_both ack_hdr ack_payload w of (ok, w) \<Rightarrow>
                    if ok then (Flow_Continue, w) else (Flow_Break, set_fatal w))))"

text \<open>The \<^verbatim>\<open>switch\<close> over the message types.\<close>

definition dispatch :: "vw_message_type option \<Rightarrow> vw_payload option \<Rightarrow> vw_worker \<Rightarrow> vw_worker" where
  "dispatch type payload w =
     (case (type, payload) of
        (Some VW_MSG_START_SESSION, Some (P_START start)) \<Rightarrow> on_start start w
      | (Some VW_MSG_POSITION, Some (P_POSITION pos)) \<Rightarrow> on_position pos w
      | (Some VW_MSG_AUDIO_PCM, Some (P_AUDIO audio)) \<Rightarrow> on_audio audio w
      | (Some VW_MSG_PAUSE, Some (P_CONTROL ctrl)) \<Rightarrow> on_pause ctrl w
      | (Some VW_MSG_RESUME, Some (P_CONTROL ctrl)) \<Rightarrow> on_resume ctrl w
      | (Some VW_MSG_STOP_SESSION, Some (P_CONTROL ctrl)) \<Rightarrow> on_stop ctrl w
      | (Some VW_MSG_TRANSLATE_CTRL, Some (P_TRANSLATE_CTRL ctrl)) \<Rightarrow> on_translate_ctrl ctrl w
      | (Some VW_MSG_MODEL_CTRL, Some (P_MODEL_CTRL ctrl)) \<Rightarrow> on_model_ctrl ctrl w
      | (Some VW_MSG_SHUTDOWN, _) \<Rightarrow> on_shutdown w
      | _ \<Rightarrow> w)"

definition bad_start_audio :: "vw_payload option option \<Rightarrow> bytes option" where
  "bad_start_audio decoded =
     (case decoded of
        Some (Some (P_START start)) \<Rightarrow>
          if st_sample_rate start \<noteq> 16000 \<or> st_channels start \<noteq> 1 \<or> st_sample_format start \<noteq> 1
          then Some (st_session_id start) else None
      | _ \<Rightarrow> None)"

definition handle_frame :: "vw_worker_frame \<Rightarrow> vw_worker \<Rightarrow> flow \<times> vw_worker" where
  "handle_frame f w =
     (let decoded = (case wf_payload f of None \<Rightarrow> None
            | Some b \<Rightarrow> vw_protocol_decode_payload (wf_type f) (take (unat (wf_payload_len f)) b));
          valid = (case decoded of None \<Rightarrow> False | Some p \<Rightarrow> vw_protocol_validate_payload (wf_type f) p);
          payload = (case decoded of None \<Rightarrow> None | Some p \<Rightarrow> p);
          empty_shutdown = (wf_type f = msg_code VW_MSG_SHUTDOWN \<and> wf_payload_len f = 0) in
      if \<not> valid \<and> wk_authenticated w \<and> wf_type f = msg_code VW_MSG_START_SESSION \<and> bad_start_audio decoded \<noteq> None then
        (case send_error (the (bad_start_audio decoded)) E_AUDIO_FORMAT 1
            (ascii ''Unsupported audio format (expected 16kHz mono S16LE)'') w of (ok, w) \<Rightarrow>
           if ok then (Flow_Continue, w) else (Flow_Break, w\<lparr>wk_fatal_exit := True\<rparr>))
      else if \<not> valid \<and> \<not> empty_shutdown then (Flow_Break, w\<lparr>wk_fatal_exit := True\<rparr>)
      else if \<not> wk_authenticated w then
        (case payload of
           Some (P_HELLO hello) \<Rightarrow>
             if wf_type f \<noteq> msg_code VW_MSG_HELLO then (Flow_Break, w\<lparr>wk_fatal_exit := True\<rparr>) else on_hello hello w
         | _ \<Rightarrow> (Flow_Break, w\<lparr>wk_fatal_exit := True\<rparr>))
      else (Flow_Next, dispatch (msg_type_of (wf_type f)) payload w))"

section \<open>Decoding ahead of playback\<close>

definition lookahead_due :: "vw_worker \<Rightarrow> bool" where
  "lookahead_due w \<longleftrightarrow> wk_session_active w \<and> wk_source_mode w \<and> wk_source_decoder w \<and> \<not> wk_paused w \<and> \<not> wk_source_eof w
     \<and> wk_decoded_pts_us w < vw_saturating_add_i64 (wk_current_playback_pts_us w) lead_target_us"

definition source_next :: "vw_worker \<Rightarrow> source_read \<times> vw_worker" where
  "source_next w =
     (case tp_reads (wk_tapes w) of
        [] \<Rightarrow> (Src_Error, w) | r # rs \<Rightarrow> (r, w\<lparr>wk_tapes := (wk_tapes w)\<lparr>tp_reads := rs\<rparr>\<rparr>))"

text \<open>One pass over the look-ahead buffer: \<open>True\<close> goes on.\<close>

definition chunk_pass :: "vw_worker \<Rightarrow> bool \<times> vw_worker" where
  "chunk_pass w =
     (case vw_audio_buffer_get_samples (wk_audio_buf w) VW_CHUNK_MAX_SAMPLES of (pcm, pts) \<Rightarrow>
        if pcm = [] then (False, w)
        else case next_vad w of (vad, w) \<Rightarrow>
          (case vw_vad_find_chunk_boundary vad pcm (wk_source_eof w) of
             None \<Rightarrow> (False, w)
           | Some (cut_samples, drain_samples) \<Rightarrow>
               if drain_samples > 0 then (True, drain_audio drain_samples w)
               else if cut_samples > 0 then
                 (case transcribe cut_samples w of (ok, w) \<Rightarrow>
                    if \<not> ok then (False, set_fatal (snd (send_error (wk_session_id w) E_INTERNAL 0
                      (ascii ''Whisper inference failed'') w)))
                    else
                      let w = sched (push_segments (\<lambda>_. False) (case pts of Some t \<Rightarrow> t | None \<Rightarrow> 0) w) in
                      if \<not> wk_running w then (False, w)
                      else (True, report_status (drain_audio cut_samples w)))
               else (False, w)))"

lemma report_status_audio [simp]: "wk_audio_buf (report_status w) = wk_audio_buf w"
  by (simp add: report_status_def vw_worker_send_status_def Let_def)

lemma chunk_pass_count:
  assumes "chunk_pass w = (True, w')"
  shows "ab_count (wk_audio_buf w') < ab_count (wk_audio_buf w)"
proof -
  obtain pcm pts where g: "vw_audio_buffer_get_samples (wk_audio_buf w) VW_CHUNK_MAX_SAMPLES = (pcm, pts)" by fastforce
  obtain vad w1 where v: "next_vad w = (vad, w1)" by fastforce
  have a: "wk_audio_buf w1 = wk_audio_buf w" using next_vad_audio[of w] v by simp
  have ne: "pcm \<noteq> []" using assms g by (auto simp: chunk_pass_def)
  then have c: "0 < ab_count (wk_audio_buf w)" using g by (auto simp: vw_audio_buffer_get_samples_def split: if_splits)
  obtain cut dr where b: "vw_vad_find_chunk_boundary vad pcm (wk_source_eof w1) = Some (cut, dr)"
    using assms g v ne by (auto simp: chunk_pass_def split: option.splits)
  show ?thesis
  proof (cases "dr > 0")
    case True
    then show ?thesis using assms g v ne b a c by (auto simp: chunk_pass_def drain_audio_count)
  next
    case False
    then have "0 < cut" "ab_count (wk_audio_buf w') = ab_count (wk_audio_buf w) - cut"
      using assms g v ne b a
      by (auto simp: chunk_pass_def drain_audio_count Let_def case_prod_beta split: if_splits)
    then show ?thesis using c by simp
  qed
qed

function chunk_loop :: "vw_worker \<Rightarrow> vw_worker" where
  "chunk_loop w =
     (if ab_count (wk_audio_buf w) \<ge> VW_CHUNK_MIN_SAMPLES \<or> (wk_source_eof w \<and> ab_count (wk_audio_buf w) > 0) then
        (case chunk_pass w of (again, w') \<Rightarrow> if again then chunk_loop w' else w')
      else w)"
  by pat_completeness auto

termination chunk_loop
  by (relation "measure (\<lambda>w. ab_count (wk_audio_buf w))") (auto simp: chunk_pass_count[OF sym])

declare chunk_loop.simps [simp del]

definition source_failed :: "vw_worker \<Rightarrow> vw_worker" where
  "source_failed w =
     (let w = report_error (wk_session_id w) E_INTERNAL 0 (ascii ''Source decoder read failed'') w in
      invalidate_translations (w\<lparr>wk_session_active := False, wk_source_eof := True, wk_source_decoder := False, wk_source_mode := False,
        wk_audio_buf := vw_audio_buffer_clear (wk_audio_buf w), wk_builder := vw_segment_builder_clear (wk_builder w)\<rparr>))"

definition look_ahead :: "vw_worker \<Rightarrow> flow \<times> vw_worker" where
  "look_ahead w =
     (if \<not> lookahead_due w then (Flow_Next, w)
      else case source_next w of (read, w) \<Rightarrow>
        (case read of
           Src_Ok samples chunk_pts_us \<Rightarrow>
             let samples = take VW_LOOKAHEAD_CHUNK_SAMPLES samples in
             if samples = [] then (Flow_Next, w)
             else
               let actual_pts = (if chunk_pts_us \<ge> 0 then chunk_pts_us else wk_decoded_pts_us w);
                   w = (case vw_audio_buffer_append_s16le (Some (wk_audio_buf w)) (Some samples) (length samples) actual_pts of
                          (_, Some buf) \<Rightarrow> w\<lparr>wk_audio_buf := buf\<rparr> | (_, None) \<Rightarrow> w)
               in (Flow_Next, chunk_loop (w\<lparr>wk_decoded_pts_us := actual_pts + int (length samples * 1000000 div 16000)\<rparr>))
         | Src_Eof \<Rightarrow>
             (case vw_worker_flush_audio_tail (w\<lparr>wk_source_eof := True\<rparr>) of (flushed, w) \<Rightarrow>
                if \<not> flushed then
                  (Flow_Break, set_fatal (snd (send_error (wk_session_id w) E_INTERNAL 0 (ascii ''Source tail inference failed'') w)))
                else (Flow_Next, report_status w))
         | Src_Error \<Rightarrow> (Flow_Next, source_failed w)
         | Src_Again \<Rightarrow> (Flow_Next, w)))"

section \<open>The main loop\<close>

text \<open>What follows a handled frame in the same iteration.\<close>

definition finish_iteration :: "vw_worker \<Rightarrow> flow \<times> vw_worker" where
  "finish_iteration w =
     (case look_ahead (poll_download (deliver_translations w)) of (flow, w) \<Rightarrow>
        if flow = Flow_Break then (Flow_Break, w)
        else (Flow_Next, deliver_translations (emit_segments w)))"

text \<open>
  The inner waiting loop: \<open>None\<close> leaves the main loop, \<open>Some None\<close> is a wake-up without a
  frame.
\<close>

function wait_frame :: "vw_worker \<Rightarrow> vw_worker_frame option option \<times> vw_worker" where
  "wait_frame w =
     (let w1 = sched w in
      if \<not> wk_running w1 then (None, w1)
      else case worker_pop (wk_queue w1) of
          Some (frame, q) \<Rightarrow> (Some (Some frame), w1\<lparr>wk_queue := q\<rparr>)
        | None \<Rightarrow>
            if (case wk_translator w1 of None \<Rightarrow> False | Some a \<Rightarrow> vw_translate_async_has_result a)
               \<or> lookahead_due w1 \<or> wk_model_dl w1
            then (Some None, w1) else wait_frame w1)"
  by pat_completeness auto

termination wait_frame
proof (relation "measure schedule_left", goal_cases)
  case (2 w w1)
  then have "tp_schedule (wk_tapes w) \<noteq> []" using sched_exhausted(1) by blast
  with 2 show ?case by (simp add: tapes_sched)
qed simp

declare wait_frame.simps [simp del]

definition iteration :: "vw_worker \<Rightarrow> flow \<times> vw_worker" where
  "iteration w =
     (case wait_frame w of
        (None, w) \<Rightarrow> (Flow_Break, w)
      | (Some frame, w) \<Rightarrow>
          let w = sched w in
          if \<not> wk_running w then (Flow_Break, w)
          else case frame of
              None \<Rightarrow> finish_iteration w
            | Some f \<Rightarrow>
                (case handle_frame f w of (flow, w) \<Rightarrow>
                   if flow = Flow_Next then finish_iteration w else (flow, w)))"

end
