(* ===== verification/VW_Worker_Laws.thy ===== *)
theory VW_Worker_Laws
  imports VW_Worker
begin

text \<open>
  What the operations of the worker may do, for the properties of theory VW_Worker_Props: relations
  between the states before and after (\<open>wstep\<close>: the frames sent, \<open>wrel\<close>: an operation within a
  session, \<open>wlax\<close>: one that may end it, \<open>handled\<close>: a message handler) and a lemma for every
  operation of the main loop.
\<close>

unbundle bit_operations_syntax

section \<open>What an operation may do\<close>

text \<open>
  A message of the worker: it fits a frame, and a caption carries the session identifier
  \<open>sid\<close> in its session field (none is allowed when \<open>sid\<close> is \<open>None\<close>).
\<close>

definition caption_of :: "bytes \<Rightarrow> bytes \<Rightarrow> bool" where
  "caption_of s body \<longleftrightarrow> take VW_SESSION_ID_BYTES body = s"

definition msg_ok :: "bytes option \<Rightarrow> message \<Rightarrow> bool" where
  "msg_ok sid m \<longleftrightarrow> fits m \<and> (fst m = VW_MSG_CAPTION_SEGMENT \<longrightarrow> (case sid of None \<Rightarrow> False | Some s \<Rightarrow> caption_of s (snd m)))"

abbreviation sent_bytes :: "vw_worker \<Rightarrow> bytes" where
  "sent_bytes w \<equiv> nt_sent (wk_net w)"

text \<open>The messages sent between two states.\<close>

definition emitted :: "(message \<Rightarrow> bool) \<Rightarrow> vw_worker \<Rightarrow> vw_worker \<Rightarrow> bool" where
  "emitted P w w' \<longleftrightarrow> (\<exists>ms. sent_bytes w' = sent_bytes w @ wire_stream (wk_sequence w + 1) ms
     \<and> wk_sequence w' = wk_sequence w + of_nat (length ms) \<and> list_all P ms)"

text \<open>
  \<open>wstep\<close>: the schedule only gets shorter, the fatal flag stays, and without it what was sent
  are whole, numbered frames.
\<close>

definition wstep :: "bytes option \<Rightarrow> vw_worker \<Rightarrow> vw_worker \<Rightarrow> bool" where
  "wstep sid w w' \<longleftrightarrow> schedule_left w' \<le> schedule_left w \<and> (wk_fatal_exit w \<longrightarrow> wk_fatal_exit w')
     \<and> (\<not> wk_fatal_exit w' \<longrightarrow> emitted (msg_ok sid) w w')"

lemma emitted_trans: "emitted P w w1 \<Longrightarrow> emitted P w1 w2 \<Longrightarrow> emitted P w w2"
proof -
  assume "emitted P w w1" "emitted P w1 w2"
  then obtain ms ns where
    "sent_bytes w1 = sent_bytes w @ wire_stream (wk_sequence w + 1) ms" "wk_sequence w1 = wk_sequence w + of_nat (length ms)"
    "list_all P ms" "sent_bytes w2 = sent_bytes w1 @ wire_stream (wk_sequence w1 + 1) ns"
    "wk_sequence w2 = wk_sequence w1 + of_nat (length ns)" "list_all P ns"
    unfolding emitted_def by blast
  then show ?thesis
    unfolding emitted_def by (intro exI[of _ "ms @ ns"]) (simp add: wire_stream_append ac_simps)
qed

lemma emitted_none: "sent_bytes w' = sent_bytes w \<Longrightarrow> wk_sequence w' = wk_sequence w \<Longrightarrow> emitted P w w'"
  unfolding emitted_def by (intro exI[of _ "[]"]) simp

lemma emitted_mono: "emitted P w w' \<Longrightarrow> (\<And>m. P m \<Longrightarrow> Q m) \<Longrightarrow> emitted Q w w'"
  unfolding emitted_def by (metis list.pred_mono_strong)

lemma msg_ok_mono: "msg_ok None m \<Longrightarrow> msg_ok sid m"
  by (simp add: msg_ok_def)

lemma wstep_refl [simp]: "wstep sid w w"
  by (simp add: wstep_def emitted_none)

lemma wstep_trans: "wstep sid w w1 \<Longrightarrow> wstep sid w1 w2 \<Longrightarrow> wstep sid w w2"
  unfolding wstep_def using emitted_trans by fastforce

lemma wstep_mono: "wstep None w w' \<Longrightarrow> wstep sid w w'"
  unfolding wstep_def using emitted_mono msg_ok_mono by blast

lemma wstep_fatal: "wk_fatal_exit w' \<Longrightarrow> schedule_left w' \<le> schedule_left w \<Longrightarrow> wstep sid w w'"
  by (simp add: wstep_def)

text \<open>
  \<open>wrel\<close>: an operation within a session.  It keeps the session, the authentication and the
  registration of the diagnostics, and touches the audio and the cues only in a session.
\<close>

definition reg :: "vw_worker \<Rightarrow> bool" where
  "reg w \<longleftrightarrow> wk_translator w = None \<or> wk_diag_registered w"

definition wrel :: "bytes option \<Rightarrow> vw_worker \<Rightarrow> vw_worker \<Rightarrow> bool" where
  "wrel sid w w' \<longleftrightarrow> wstep sid w w' \<and> wk_session_id w' = wk_session_id w \<and> wk_session_active w' = wk_session_active w
     \<and> wk_authenticated w' = wk_authenticated w \<and> (reg w \<longrightarrow> reg w') \<and> (wk_translator w = None \<longrightarrow> wk_translator w' = None)
     \<and> (\<not> wk_session_active w \<longrightarrow> wk_audio_buf w' = wk_audio_buf w \<and> wk_builder w' = wk_builder w)"

lemma wrel_refl [simp]: "wrel sid w w"
  by (simp add: wrel_def)

lemma wrel_trans: "wrel sid w w1 \<Longrightarrow> wrel sid w1 w2 \<Longrightarrow> wrel sid w w2"
  unfolding wrel_def using wstep_trans by (metis (no_types, lifting))

lemma wrel_mono: "wrel None w w' \<Longrightarrow> wrel sid w w'"
  unfolding wrel_def using wstep_mono by blast

text \<open>Assignments to other variables.\<close>

lemma wrel_quiet:
  assumes "sent_bytes w' = sent_bytes w" "wk_sequence w' = wk_sequence w" "wk_fatal_exit w' = wk_fatal_exit w"
    "tp_schedule (wk_tapes w') = tp_schedule (wk_tapes w)" "wk_session_id w' = wk_session_id w"
    "wk_session_active w' = wk_session_active w" "wk_authenticated w' = wk_authenticated w"
    "wk_translator w' = None \<longleftrightarrow> wk_translator w = None" "wk_diag_registered w \<longrightarrow> wk_diag_registered w'"
    "\<not> wk_session_active w \<Longrightarrow> wk_audio_buf w' = wk_audio_buf w" "\<not> wk_session_active w \<Longrightarrow> wk_builder w' = wk_builder w"
  shows "wrel sid w w'"
  using assms by (auto simp: wrel_def wstep_def reg_def emitted_none)

section \<open>The other threads\<close>

lemma wrel_set_fatal: "wrel sid w (set_fatal w)"
  by (simp add: wrel_def wstep_def set_fatal_def reg_def)

lemma wrel_queue_push: "wrel sid w (queue_push t p n w)"
  by (rule wrel_quiet) (simp_all add: queue_push_def split: prod.splits option.splits)

lemma wrel_io:
  assumes "wk_io f w = (r, w')" "\<And>n. nt_sent (snd (f n)) = nt_sent n"
  shows "wrel sid w w'"
proof -
  have "w' = w\<lparr>wk_net := snd (f (wk_net w))\<rparr>" using assms(1) by (auto simp: wk_io_def split: prod.splits)
  then show ?thesis by (intro wrel_quiet) (simp_all add: assms(2))
qed

lemma wrel_reader_fatal: "wrel sid w (reader_fatal w)"
proof -
  let ?w = "w\<lparr>wk_reader := (wk_reader w)\<lparr>rd_alive := False\<rparr>\<rparr>"
  have "wrel sid w ?w" by (rule wrel_quiet) simp_all
  then show ?thesis
    unfolding reader_fatal_def using wrel_trans[OF _ wrel_trans[OF wrel_set_fatal wrel_queue_push]] by blast
qed

lemma reader_read_sent: "nt_sent (snd (reader_read len got n)) = nt_sent n"
proof (induction len got n rule: reader_read.induct)
  case (1 len got n)
  show ?case
  proof (cases "length got \<ge> len")
    case True
    then show ?thesis by (subst reader_read.simps) simp
  next
    case False
    obtain r n' where r: "vw_ipc_receive (len - length got) n = (r, n')" by fastforce
    have s: "nt_sent n' = nt_sent n" using vw_ipc_receive_laws(2)[OF r] .
    show ?thesis
      using 1 False r s by (subst reader_read.simps) (auto split: recv_result.splits)
  qed
qed

lemma wrel_reader_accept: "wrel sid w (reader_accept h w)"
proof -
  let ?w = "w\<lparr>wk_reader := (wk_reader w)\<lparr>rd_seq_valid := True, rd_last_sequence := fh_sequence h\<rparr>\<rparr>"
  have 1: "wrel sid w ?w" by (rule wrel_quiet) simp_all
  obtain m w1 where m: "wk_io take_mem ?w = (m, w1)" by fastforce
  have 2: "wrel sid w w1" using wrel_trans[OF 1 wrel_io[OF m]] by simp
  obtain b w2 where b: "wk_io (reader_read (unat (fh_payload_length h)) []) w1 = (b, w2)" by fastforce
  have 3: "wrel sid w w2" using wrel_trans[OF 2 wrel_io[OF b]] reader_read_sent by simp
  show ?thesis
    using wrel_trans[OF 1 wrel_queue_push] wrel_trans[OF 2 wrel_reader_fatal] wrel_trans[OF 3 wrel_reader_fatal]
      wrel_trans[OF 3 wrel_queue_push] m b
    by (auto simp: reader_accept_def Let_def split: option.splits)
qed

lemma wrel_reader_main: "wrel sid w (vw_worker_reader_main w)"
proof -
  have 0: "wrel sid w (w\<lparr>wk_reader := r\<rparr>)" for r by (rule wrel_quiet) simp_all
  obtain hd w1 where r: "wk_io (reader_read 20 []) w = (hd, w1)" by fastforce
  have 1: "wrel sid w w1" using wrel_io[OF r] reader_read_sent by simp
  have 2: "wrel sid w w2" if "wk_io (reader_read k []) w1 = (b, w2)" for b w2 k
    using wrel_trans[OF 1 wrel_io[OF that]] reader_read_sent by simp
  show ?thesis
    using 0 r 1 2 wrel_trans[OF 1 wrel_reader_fatal] wrel_trans[OF 1 wrel_reader_accept] wrel_trans[OF 2 wrel_reader_fatal]
    by (auto simp: vw_worker_reader_main_def reader_frame_def split: option.splits prod.splits)
qed

lemma wrel_background: "wrel sid w (background_step b w)"
proof (cases b)
  case Bg_Reader
  then show ?thesis by (simp add: wrel_reader_main)
next
  case Bg_Take
  then show ?thesis by (auto simp: bg_take_def intro!: wrel_quiet split: option.splits)
next
  case (Bg_Complete i out)
  then show ?thesis by (auto simp: bg_complete_def intro!: wrel_quiet split: option.splits)
qed

lemma wrel_sched: "wrel sid w (sched w)"
proof (cases "tp_schedule (wk_tapes w)")
  case Nil
  then show ?thesis by (simp add: sched_def wrel_reader_fatal)
next
  case (Cons b bs)
  have f: "wrel sid v (fold background_step b v)" for v
  proof (induction b arbitrary: v)
    case (Cons x b)
    then show ?case using wrel_trans[OF wrel_background[of sid v x] Cons.IH] by simp
  qed simp
  let ?w = "w\<lparr>wk_tapes := (wk_tapes w)\<lparr>tp_schedule := bs\<rparr>\<rparr>"
  have "wrel sid w ?w" using Cons by (simp add: wrel_def wstep_def reg_def emitted_none)
  with f[of ?w] show ?thesis using Cons wrel_trans by (auto simp: sched_def)
qed

section \<open>Sending\<close>

lemma guarded_send_True:
  "guarded_ipc_send bs w = (True, w') \<Longrightarrow> sent_bytes w' = sent_bytes w @ bs \<and> wk_sequence w' = wk_sequence w \<and> wk_fatal_exit w' = wk_fatal_exit w"
  by (auto simp: guarded_ipc_send_def wk_io_def dest!: vw_ipc_send_True split: if_splits prod.splits)

lemma guarded_send_flags:
  "wk_fatal_exit (snd (guarded_ipc_send bs w)) = wk_fatal_exit w" "wk_running (snd (guarded_ipc_send bs w)) = wk_running w"
  by (simp_all add: guarded_ipc_send_def wk_io_def split: prod.splits)

lemma send_both_flags:
  "wk_fatal_exit (snd (send_both h p w)) = wk_fatal_exit w" "wk_running (snd (send_both h p w)) = wk_running w"
  by (simp_all add: send_both_def case_prod_beta guarded_send_flags)

lemma send_frame_flags:
  "wk_fatal_exit (snd (send_frame t b w)) = wk_fatal_exit w" "wk_running (snd (send_frame t b w)) = wk_running w"
  by (simp_all add: send_frame_def Let_def send_both_flags split: option.splits)

lemma send_payload_flags [simp]:
  "wk_fatal_exit (snd (send_payload t p n w)) = wk_fatal_exit w" "wk_running (snd (send_payload t p n w)) = wk_running w"
  by (simp_all add: send_payload_def send_frame_flags split: option.splits)

lemma encode_header_image: "vw_protocol_encode_header (Some h) 20 = Some b \<Longrightarrow> b = header_image h"
  by (simp add: vw_protocol_encode_header_def split: if_splits)

lemma send_frame_True:
  assumes "send_frame t b w = (True, w')" "P (t, b)"
  shows "emitted P w w'"
proof -
  let ?w = "w\<lparr>wk_sequence := wk_sequence w + 1\<rparr>"
  obtain hdr where h: "vw_protocol_encode_header (Some (frame_header t (length b) (wk_sequence w + 1))) 20 = Some hdr"
    and s: "send_both hdr b ?w = (True, w')"
    using assms(1) by (auto simp: send_frame_def Let_def split: option.splits)
  obtain w1 where "guarded_ipc_send hdr ?w = (True, w1)" "guarded_ipc_send b w1 = (True, w')"
    using s by (auto simp: send_both_def split: prod.splits if_splits)
  then have "sent_bytes w' = sent_bytes w @ hdr @ b" "wk_sequence w' = wk_sequence w + 1"
    by (auto dest!: guarded_send_True)
  then show ?thesis
    unfolding emitted_def using assms(2) encode_header_image[OF h]
    by (intro exI[of _ "[(t, b)]"]) (simp add: frame_wire_def)
qed

lemma wrel_send_payload:
  assumes "send_payload t p n w = (ok, w')" "\<And>b. vw_protocol_encode_payload (msg_code t) (Some p) n = Some b \<Longrightarrow> msg_ok sid (t, b)"
  shows "ok \<Longrightarrow> wrel sid w w'" "wrel sid w (set_fatal w')"
proof -
  have r: "rest w' = rest w" "wk_fatal_exit w' = wk_fatal_exit w"
    using rest_send_payload[of t p n w] send_payload_flags(1)[of t p n w] assms(1) by simp_all
  note f = rest_fields[OF r(1)]
  show "wrel sid w w'" if ok: "ok"
  proof -
    obtain b where b: "vw_protocol_encode_payload (msg_code t) (Some p) n = Some b" "send_frame t b w = (True, w')"
      using assms(1) ok by (auto simp: send_payload_def split: option.splits)
    have "emitted (msg_ok sid) w w'" using send_frame_True[OF b(2)] assms(2)[OF b(1)] by blast
    then show ?thesis using f r(2) by (simp add: wrel_def wstep_def reg_def)
  qed
  show "wrel sid w (set_fatal w')"
    using f by (simp add: wrel_def wstep_def reg_def set_fatal_def)
qed

lemma wrel_or_fatal_payload:
  assumes "\<And>b. vw_protocol_encode_payload (msg_code t) (Some p) n = Some b \<Longrightarrow> msg_ok sid (t, b)"
  shows "wrel sid w (or_fatal (send_payload t p n w))"
proof -
  obtain ok w' where s: "send_payload t p n w = (ok, w')" by fastforce
  show ?thesis using wrel_send_payload[OF s assms] s by (simp add: or_fatal_def)
qed

subsection \<open>Each message fits\<close>

lemma encode_fits:
  assumes "vw_protocol_encode_payload (msg_code t) (Some p) n = Some b"
    "(t, p) \<in> {VW_MSG_ERROR} \<times> range P_ERROR \<union> {VW_MSG_STATUS} \<times> range P_STATUS \<union> {VW_MSG_MODEL_PROGRESS} \<times> range P_MODEL_PROGRESS
       \<union> {VW_MSG_STARTED} \<times> range P_STARTED \<union> {VW_MSG_HELLO_ACK} \<times> range P_HELLO_ACK \<union> {VW_MSG_CAPTION_SEGMENT} \<times> range P_CAPTION"
  shows "length b \<le> n"
  using assms
  by (auto simp: vw_protocol_encode_payload_def encode_error_def encode_status_def encode_model_progress_def encode_started_def
      encode_hello_ack_def encode_caption_def enc_all_eq Option.bind_eq_Some_conv split: if_splits)

lemma error_ok: "vw_protocol_encode_payload (msg_code VW_MSG_ERROR) (Some (P_ERROR p)) 512 = Some b \<Longrightarrow> msg_ok sid (VW_MSG_ERROR, b)"
  using encode_fits[of VW_MSG_ERROR "P_ERROR p" 512 b] by (simp add: msg_ok_def fits_def vw_limits)

lemma status_ok: "vw_protocol_encode_payload (msg_code VW_MSG_STATUS) (Some (P_STATUS p)) 64 = Some b \<Longrightarrow> msg_ok sid (VW_MSG_STATUS, b)"
  using encode_fits[of VW_MSG_STATUS "P_STATUS p" 64 b] by (simp add: msg_ok_def fits_def vw_limits)

lemma progress_ok:
  "vw_protocol_encode_payload (msg_code VW_MSG_MODEL_PROGRESS) (Some (P_MODEL_PROGRESS p)) VW_MSG_MODEL_PROGRESS_PAYLOAD_BYTES = Some b
     \<Longrightarrow> msg_ok sid (VW_MSG_MODEL_PROGRESS, b)"
  using encode_fits[of VW_MSG_MODEL_PROGRESS "P_MODEL_PROGRESS p" VW_MSG_MODEL_PROGRESS_PAYLOAD_BYTES b]
  by (simp add: msg_ok_def fits_def vw_limits)

lemma caption_ok:
  assumes "vw_protocol_encode_payload (msg_code VW_MSG_CAPTION_SEGMENT) (Some (P_CAPTION p))
      (VW_CAPTION_SEGMENT_FIXED_BYTES + VW_MAX_TEXT_BYTES * 2 + 64) = Some b" "length (cs_session_id p) = VW_SESSION_ID_BYTES"
  shows "msg_ok (Some (cs_session_id p)) (VW_MSG_CAPTION_SEGMENT, b)"
proof -
  have "take VW_SESSION_ID_BYTES b = cs_session_id p"
    using assms by (auto simp: vw_protocol_encode_payload_def encode_caption_def enc_all_eq Option.bind_eq_Some_conv split: if_splits)
  then show ?thesis
    using encode_fits[OF assms(1)] by (simp add: msg_ok_def fits_def caption_of_def vw_limits)
qed

lemma wrel_send_error:
  "send_error s c r m w = (ok, w') \<Longrightarrow> ok \<Longrightarrow> wrel sid w w'" "send_error s c r m w = (ok, w') \<Longrightarrow> wrel sid w (set_fatal w')"
  unfolding send_error_def using wrel_send_payload error_ok by blast+

lemma wrel_report_error: "wrel sid w (report_error s c r m w)"
  unfolding report_error_def send_error_def using wrel_or_fatal_payload error_ok by blast

lemma wrel_give_up: "wrel sid w (set_fatal (snd (send_error s c r m w)))"
  using wrel_send_error(2)[OF prod.collapse[symmetric]] .

lemma wrel_report_progress: "wrel sid w (report_progress s st pct d t m w)"
  unfolding report_progress_def vw_worker_send_model_progress_def using wrel_or_fatal_payload progress_ok by blast

lemma wrel_send_status:
  assumes "vw_worker_send_status s act p w = (ok, w')"
  shows "ok \<Longrightarrow> wrel sid w w'" "wrel sid w (set_fatal w')"
proof -
  have e: "send_payload VW_MSG_STATUS (P_STATUS (status_message s act p (sched w))) 64 (sched w) = (ok, w')"
    using assms by (simp add: vw_worker_send_status_def Let_def)
  have m: "vw_protocol_encode_payload (msg_code VW_MSG_STATUS) (Some (P_STATUS (status_message s act p (sched w)))) 64 = Some b
      \<Longrightarrow> msg_ok sid (VW_MSG_STATUS, b)" for b by (rule status_ok)
  show "wrel sid w w'" if ok: "ok" by (rule wrel_trans[OF wrel_sched wrel_send_payload(1)[OF e m ok]])
  show "wrel sid w (set_fatal w')" by (rule wrel_trans[OF wrel_sched wrel_send_payload(2)[OF e m]])
qed

lemma wrel_status: "wrel sid w (or_fatal (vw_worker_send_status s act p w))"
proof -
  obtain ok w' where e: "vw_worker_send_status s act p w = (ok, w')" by fastforce
  show ?thesis using wrel_send_status[OF e] e by (simp add: or_fatal_def)
qed

lemma wrel_report_status: "wrel sid w (report_status w)"
  unfolding report_status_def by (rule wrel_status)

text \<open>A caption under the current session.\<close>

lemma wrel_send_caption:
  assumes "vw_worker_send_caption_segment seg w = (ok, w')" "cs_session_id seg = s" "length s = VW_SESSION_ID_BYTES"
  shows "ok \<Longrightarrow> wrel (Some s) w w'" "wrel (Some s) w (set_fatal w')"
proof -
  have m: "vw_protocol_encode_payload (msg_code VW_MSG_CAPTION_SEGMENT) (Some (P_CAPTION seg))
      (VW_CAPTION_SEGMENT_FIXED_BYTES + VW_MAX_TEXT_BYTES * 2 + 64) = Some b \<Longrightarrow> msg_ok (Some s) (VW_MSG_CAPTION_SEGMENT, b)" for b
    using caption_ok assms(2,3) by blast
  note e = assms(1)[unfolded vw_worker_send_caption_segment_def]
  show "wrel (Some s) w w'" if ok: "ok" by (rule wrel_send_payload(1)[OF e m ok])
  show "wrel (Some s) w (set_fatal w')" by (rule wrel_send_payload(2)[OF e m])
qed

lemma wrel_caption:
  assumes "cs_session_id seg = s" "length s = VW_SESSION_ID_BYTES"
  shows "wrel (Some s) w (or_fatal (vw_worker_send_caption_segment seg w))"
proof -
  obtain ok w' where e: "vw_worker_send_caption_segment seg w = (ok, w')" by fastforce
  show ?thesis using wrel_send_caption[OF e assms] e by (simp add: or_fatal_def)
qed

section \<open>Translations\<close>

definition sid_of :: "vw_worker \<Rightarrow> bytes option" where
  "sid_of w = (if wk_session_active w then Some (wk_session_id w) else None)"

lemma wrel_sid: "wrel sid w w' \<Longrightarrow> sid_of w' = sid_of w"
  by (simp add: wrel_def sid_of_def)

lemma wrel_deliver_translation:
  assumes "length (wk_session_id w) = VW_SESSION_ID_BYTES"
  shows "wrel (sid_of w) w (vw_worker_deliver_translation r w)"
  using assms wrel_caption[of "tr_segment r" "wk_session_id w" w]
  by (auto simp: vw_worker_deliver_translation_def sid_of_def)

lemma wrel_mark_failed: "wrel sid w (set_fatal (vw_worker_translation_diag_mark_transport_failed w))"
  by (simp add: wrel_def wstep_def reg_def set_fatal_def vw_worker_translation_diag_mark_transport_failed_def Let_def)

lemma wrel_diag_deliver:
  assumes "length (wk_session_id w) = VW_SESSION_ID_BYTES"
  shows "wrel (sid_of w) w (vw_worker_translation_diag_deliver r w)"
proof -
  have d: "wrel (sid_of w) w (vw_worker_deliver_translation r w)" using wrel_deliver_translation[OF assms] .
  have s: "wrel (sid_of w) w (if \<not> ok then set_fatal (vw_worker_translation_diag_mark_transport_failed w1)
      else vw_worker_deliver_translation r w1)"
    if "vw_worker_translation_diag_send c m w = (ok, w1)" for c m ok w1
  proof (cases ok)
    case True
    then have q: "wrel (sid_of w) w w1" using that wrel_send_error(1) by (simp add: vw_worker_translation_diag_send_def)
    then have "wk_session_id w1 = wk_session_id w" by (simp add: wrel_def)
    then have "wrel (sid_of w1) w1 (vw_worker_deliver_translation r w1)" using wrel_deliver_translation assms by simp
    then show ?thesis using True wrel_trans[OF q] wrel_sid[OF q] by simp
  next
    case False
    have q: "rest w1 = rest w" using that rest_send_error by (metis snd_conv vw_worker_translation_diag_send_def)
    show ?thesis
      using False rest_fields[OF q]
      by (simp add: wrel_def wstep_def reg_def set_fatal_def vw_worker_translation_diag_mark_transport_failed_def Let_def)
  qed
  show ?thesis
    using d s by (auto simp: vw_worker_translation_diag_deliver_def Let_def split: option.splits prod.splits)
qed

lemma wrel_register: "wrel sid w (vw_worker_translation_diag_register_transport_state w)"
  by (rule wrel_quiet) (simp_all add: vw_worker_translation_diag_register_transport_state_def)

lemma wrel_try_deliver:
  assumes "wk_translator w = Some a" "length (wk_session_id w) = VW_SESSION_ID_BYTES"
  shows "wrel (sid_of w) w (snd (vw_worker_translate_async_try_deliver_scoped a w))
    \<and> wk_diag_registered (snd (vw_worker_translate_async_try_deliver_scoped a w))"
proof -
  let ?w = "vw_worker_translation_diag_register_transport_state w"
  have r: "wrel (sid_of w) w ?w" "wk_diag_registered ?w" "wk_translator ?w = Some a"
    using wrel_register assms(1) by (simp_all add: vw_worker_translation_diag_register_transport_state_def)
  have t: "wrel (sid_of w) w (?w\<lparr>wk_translator := Some a'\<rparr>)" for a'
    by (rule wrel_trans[OF r(1)], rule wrel_quiet) (simp_all add: r)
  have d: "wrel (sid_of w) w (vw_worker_translation_diag_deliver x (?w\<lparr>wk_translator := Some a'\<rparr>))" for x a'
  proof -
    have "wk_session_id ?w = wk_session_id w" using r(1) by (simp add: wrel_def)
    then have "wrel (sid_of (?w\<lparr>wk_translator := Some a'\<rparr>)) (?w\<lparr>wk_translator := Some a'\<rparr>)
        (vw_worker_translation_diag_deliver x (?w\<lparr>wk_translator := Some a'\<rparr>))"
      using assms(2) by (intro wrel_diag_deliver) simp
    then show ?thesis using wrel_trans[OF t] wrel_sid[OF t] by simp
  qed
  show ?thesis
    using r t d wrel_trans[OF r(1) wrel_set_fatal]
    by (auto simp: vw_worker_translate_async_try_deliver_scoped_def Let_def split: prod.splits option.splits)
qed

definition sid_ok :: "vw_worker \<Rightarrow> bool" where
  "sid_ok w \<longleftrightarrow> length (wk_session_id w) = VW_SESSION_ID_BYTES"

lemma wrel_sid_ok: "wrel sid w w' \<Longrightarrow> sid_ok w' = sid_ok w"
  by (simp add: wrel_def sid_ok_def)

text \<open>Chaining steps that refer to the session of their own start state.\<close>

lemma wrel_chain:
  assumes "wrel (sid_of w) w w1" "sid_ok w" "sid_ok w1 \<Longrightarrow> wrel (sid_of w1) w1 w2"
  shows "wrel (sid_of w) w w2"
  using assms wrel_trans wrel_sid wrel_sid_ok by metis

lemma wrel_deliver_loop:
  "sid_ok w \<Longrightarrow> wrel (sid_of w) w (deliver_loop w) \<and> reg (deliver_loop w)"
proof (induction w rule: deliver_loop.induct)
  case (1 w)
  let ?w1 = "sched w"
  have s: "wrel (sid_of w) w ?w1" by (rule wrel_sched)
  have ok1: "sid_ok ?w1" using wrel_sid_ok[OF s] 1(2) by simp
  show ?case
  proof (cases "wk_translator ?w1")
    case None
    then show ?thesis using s by (subst (1 2) deliver_loop.simps) (simp add: Let_def reg_def)
  next
    case (Some a)
    obtain again w2 where d: "vw_worker_translate_async_try_deliver_scoped a ?w1 = (again, w2)" by fastforce
    have t: "wrel (sid_of ?w1) ?w1 w2" "wk_diag_registered w2"
      using wrel_try_deliver[OF Some ok1[unfolded sid_ok_def]] d by simp_all
    have w2: "wrel (sid_of w) w w2" using wrel_chain[OF s 1(2)] t(1) by blast
    show ?thesis
    proof (cases again)
      case True
      have ih: "wrel (sid_of w2) w2 (deliver_loop w2) \<and> reg (deliver_loop w2)"
        using 1(1)[OF refl Some d[symmetric] True] wrel_sid_ok[OF w2] 1(2) by blast
      have "wrel (sid_of w) w (deliver_loop w2)" using wrel_chain[OF w2 1(2)] ih by blast
      then show ?thesis using ih Some d True by (subst (1 2) deliver_loop.simps) (simp add: Let_def)
    next
      case False
      then show ?thesis using w2 t(2) Some d by (subst (1 2) deliver_loop.simps) (simp add: Let_def reg_def)
    qed
  qed
qed

lemma wrel_deliver_translations:
  "sid_ok w \<Longrightarrow> wrel (sid_of w) w (deliver_translations w) \<and> reg (deliver_translations w)"
  using wrel_deliver_loop by (auto simp: deliver_translations_def reg_def)

lemma wrel_drain: "sid_ok w \<Longrightarrow> wrel (sid_of w) w (vw_worker_drain_translation w)"
proof (induction w rule: vw_worker_drain_translation.induct)
  case (1 w)
  let ?w1 = "sched w"
  have s: "wrel (sid_of w) w ?w1" by (rule wrel_sched)
  have ok1: "sid_ok ?w1" using wrel_sid_ok[OF s] 1(2) by simp
  show ?case
  proof (cases "wk_running ?w1 \<and> (\<exists>a. wk_translator ?w1 = Some a \<and> vw_translate_async_has_pending a)")
    case True
    then obtain a where a: "wk_translator ?w1 = Some a" "vw_translate_async_has_pending a" "wk_running ?w1" by blast
    let ?w2 = "snd (vw_worker_translate_async_try_deliver_scoped a ?w1)"
    have "wrel (sid_of ?w1) ?w1 ?w2" using wrel_try_deliver[OF a(1) ok1[unfolded sid_ok_def]] by simp
    then have w2: "wrel (sid_of w) w ?w2" using wrel_chain[OF s 1(2)] by blast
    have "wrel (sid_of ?w2) ?w2 (vw_worker_drain_translation ?w2)"
      using 1(1)[OF refl _ a(1)] a(2,3) wrel_sid_ok[OF w2] 1(2) by blast
    then have "wrel (sid_of w) w (vw_worker_drain_translation ?w2)" using wrel_chain[OF w2 1(2)] by blast
    then show ?thesis using a by (subst vw_worker_drain_translation.simps) (simp add: Let_def)
  next
    case False
    then show ?thesis using s by (subst vw_worker_drain_translation.simps) (auto simp: Let_def split: option.splits)
  qed
qed

section \<open>Captions\<close>

lemma wrel_submit_scoped:
  assumes "vw_worker_translate_async_submit_scoped a seg w = (taken, w')" "wk_translator w = Some a" "wk_diag_registered w"
  shows "wrel sid w w'"
proof -
  have t: "wrel sid w (w\<lparr>wk_translator := Some a'\<rparr>)" for a' by (rule wrel_quiet) (simp_all add: assms(2))
  obtain k a' where s: "vw_translate_async_submit a seg (Some (wk_translate_src_lang w)) (Some (wk_translate_dst_lang w)) = (k, a')"
    by fastforce
  let ?w = "w\<lparr>wk_translator := Some a'\<rparr>"
  obtain ok w1 where r: "vw_worker_translation_diag_report_local_rejection seg ?w = (ok, w1)" by fastforce
  have rel: "ok \<Longrightarrow> wrel sid ?w w1" and bad: "wrel sid ?w (vw_worker_translation_diag_mark_transport_failed w1)"
  proof -
    show "wrel sid ?w w1" if ok: "ok"
      using r ok wrel_send_error(1)
      by (auto simp: vw_worker_translation_diag_report_local_rejection_def vw_worker_translation_diag_send_def split: option.splits)
    have "rest w1 = rest ?w" using rest_report_local[of seg ?w] r by simp
    note f = rest_fields[OF this]
    show "wrel sid ?w (vw_worker_translation_diag_mark_transport_failed w1)"
      using f assms(3)
      by (simp add: wrel_def wstep_def reg_def set_fatal_def vw_worker_translation_diag_mark_transport_failed_def Let_def)
  qed
  show ?thesis
    using assms(1) s r t wrel_trans[OF t rel] wrel_trans[OF t bad]
    by (auto simp: vw_worker_translate_async_submit_scoped_def split: if_splits bool.splits)
qed

lemma wrel_submit_segment:
  assumes "submit_segment seg w = (taken, w')" "reg w"
  shows "wrel sid w w'"
proof (cases "wk_translate_enabled w \<and> wk_translator w \<noteq> None \<and> has_text seg")
  case True
  have r: "wk_diag_registered (sched w)" using True assms(2) by (auto simp: reg_def)
  show ?thesis
    using assms(1) True wrel_sched[of sid w] wrel_trans[OF wrel_sched wrel_submit_scoped[OF _ _ r]]
    by (auto simp: submit_segment_def Let_def split: option.splits)
next
  case False
  then show ?thesis using assms(1) by (auto simp: submit_segment_def)
qed

lemma stamp_session [simp]: "cs_session_id (stamp_segment seg w) = wk_session_id w"
  by (simp add: stamp_segment_def)

lemma wrel_emit_segment:
  assumes "reg w" "sid_ok w" "cs_session_id seg = wk_session_id w"
  shows "wrel (Some (wk_session_id w)) w (emit_segment seg w)"
proof -
  obtain taken w1 where s: "submit_segment seg w = (taken, w1)" by fastforce
  have r: "wrel (Some (wk_session_id w)) w w1" using wrel_submit_segment[OF s assms(1)] .
  have c: "wrel (Some (wk_session_id w)) v (or_fatal (vw_worker_send_caption_segment (seg\<lparr>cs_translation_attempted := b\<rparr>) v))" for b v
    using wrel_caption[of "seg\<lparr>cs_translation_attempted := b\<rparr>" "wk_session_id w" v] assms(2,3) by (simp add: sid_ok_def)
  have d: "wrel (Some (wk_session_id w)) w (or_fatal (vw_worker_send_caption_segment seg w))"
    using wrel_caption[of seg "wk_session_id w" w] assms(2,3) by (simp add: sid_ok_def)
  show ?thesis using s r d wrel_trans[OF r c] by (simp add: emit_segment_def)
qed

text \<open>Taking a cue from the builder in a session.\<close>

lemma wrel_builder: "wk_session_active w \<Longrightarrow> wrel sid w (w\<lparr>wk_builder := b\<rparr>)"
  by (rule wrel_quiet) simp_all

lemma wrel_emit_segments:
  "reg w \<Longrightarrow> sid_ok w \<Longrightarrow> wk_session_active w \<Longrightarrow> wrel (Some (wk_session_id w)) w (emit_segments w)"
proof (induction w rule: emit_segments.induct)
  case (1 w)
  show ?case
  proof (cases "vw_segment_builder_pop (wk_builder w)")
    case None
    then show ?thesis by (subst emit_segments.simps) simp
  next
    case (Some r)
    then obtain seg b where p: "vw_segment_builder_pop (wk_builder w) = Some (seg, b)" by (cases r) auto
    let ?w = "w\<lparr>wk_builder := b\<rparr>"
    let ?e = "emit_segment (stamp_segment seg ?w) ?w"
    have b: "wrel (Some (wk_session_id w)) w ?w" using wrel_builder 1(4) .
    have "wrel (Some (wk_session_id w)) ?w ?e"
      using wrel_emit_segment[of ?w "stamp_segment seg ?w"] 1(2,3) by (simp add: reg_def sid_ok_def)
    then have e: "wrel (Some (wk_session_id w)) w ?e" using wrel_trans[OF b] by blast
    then have "reg ?e" "sid_ok ?e" "wk_session_active ?e" "wk_session_id ?e = wk_session_id w"
      using 1(2-4) by (simp_all add: wrel_def sid_ok_def)
    then have "wrel (Some (wk_session_id w)) ?e (emit_segments ?e)" using 1(1)[OF p refl refl] by simp
    then show ?thesis using p wrel_trans[OF e] by (subst emit_segments.simps) (simp add: Let_def)
  qed
qed

lemma wrel_emit_tail:
  "reg w \<Longrightarrow> sid_ok w \<Longrightarrow> wk_session_active w \<Longrightarrow> vw_worker_emit_tail_segments w = (ok, w') \<Longrightarrow>
     wrel (Some (wk_session_id w)) w (if ok then w' else set_fatal w')"
proof (induction w arbitrary: ok w' rule: vw_worker_emit_tail_segments.induct)
  case (1 w)
  let ?s = "Some (wk_session_id w)"
  show ?case
  proof (cases "vw_segment_builder_pop (wk_builder w)")
    case None
    then show ?thesis using 1(6) by (subst (asm) vw_worker_emit_tail_segments.simps) simp
  next
    case (Some r)
    then obtain seg b where p: "vw_segment_builder_pop (wk_builder w) = Some (seg, b)" by (cases r) auto
    let ?w = "w\<lparr>wk_builder := b\<rparr>" let ?g = "stamp_segment seg (w\<lparr>wk_builder := b\<rparr>)"
    let ?c = "?g\<lparr>cs_translation_attempted := wk_translate_enabled (w\<lparr>wk_builder := b\<rparr>)\<rparr>"
    obtain taken w1 where s: "submit_segment ?g ?w = (taken, w1)" by fastforce
    have b: "wrel ?s w ?w" using wrel_builder 1(5) .
    have "reg ?w" using 1(3) by (simp add: reg_def)
    then have e: "wrel ?s w w1" using wrel_trans[OF b wrel_submit_segment[OF s]] by blast
    have k1: "reg w1" "sid_ok w1" "wk_session_active w1" "wk_session_id w1 = wk_session_id w"
      using e 1(3-5) by (simp_all add: wrel_def sid_ok_def)
    obtain k w2 where c: "vw_worker_send_caption_segment ?c w1 = (k, w2)" by fastforce
    have cs: "cs_session_id ?c = wk_session_id w" by simp
    note cap = wrel_send_caption[OF c cs 1(4)[unfolded sid_ok_def]]
    have eq: "vw_worker_emit_tail_segments w = (if taken then vw_worker_emit_tail_segments w1
        else if k then vw_worker_emit_tail_segments w2 else (False, w2))"
      using p s c by (subst vw_worker_emit_tail_segments.simps) (simp add: Let_def)
    consider "taken" | "\<not> taken" "k" | "\<not> taken" "\<not> k" by blast
    then show ?thesis
    proof cases
      case 1
      then show ?thesis using "1.IH"(1)[OF p refl refl refl s[symmetric] 1 k1(1-3), of ok w'] "1.prems"(4) eq k1(4) wrel_trans[OF e] by simp
    next
      case 2
      have e2: "wrel ?s w w2" using wrel_trans[OF e cap(1)[OF 2(2)]] .
      then have "reg w2" "sid_ok w2" "wk_session_active w2" "wk_session_id w2 = wk_session_id w"
        using 1(3-5) by (simp_all add: wrel_def sid_ok_def)
      then show ?thesis using "1.IH"(2)[OF p refl refl refl s[symmetric] 2(1) c[symmetric] 2(2), of ok w'] 2 "1.prems"(4) eq wrel_trans[OF e2] by simp
    next
      case 3
      then show ?thesis using "1.prems"(4) eq wrel_trans[OF e cap(2)] by simp
    qed
  qed
qed

section \<open>Inference\<close>

lemma wrel_next_vad: "next_vad w = (v, w') \<Longrightarrow> wrel sid w w'"
  by (rule wrel_quiet) (auto simp: next_vad_def)

lemma wrel_transcribe: "transcribe n w = (ok, w') \<Longrightarrow> wrel sid w w'"
  by (rule wrel_quiet) (auto simp: transcribe_def split: option.splits list.splits prod.splits)

lemma wrel_push_hypothesis: "wk_session_active w \<Longrightarrow> wrel sid w (push_hypothesis t seg w)"
  by (rule wrel_quiet) (simp_all add: push_hypothesis_def split: prod.splits)

lemma wrel_active: "wrel sid w w' \<Longrightarrow> wk_session_active w \<Longrightarrow> wk_session_active w'"
  by (simp add: wrel_def)

lemma wrel_push_segments:
  assumes "wk_session_active w"
  shows "wrel sid w (push_segments hold t w)"
proof -
  have "wrel sid v (fold (\<lambda>seg w. if no_speech seg then w else if hold seg then w else push_hypothesis t seg w) ss v)"
    if "wk_session_active v" for ss v
    using that
  proof (induction ss arbitrary: v)
    case (Cons seg ss)
    let ?v = "if no_speech seg then v else if hold seg then v else push_hypothesis t seg v"
    have r: "wrel sid v ?v" using wrel_push_hypothesis[OF Cons.prems] by simp
    then show ?case using wrel_trans[OF r Cons.IH] wrel_active[OF r Cons.prems] by simp
  qed simp
  then show ?thesis using assms by (simp add: push_segments_def)
qed

lemma wrel_drain_audio: "wk_session_active w \<Longrightarrow> wrel sid w (drain_audio n w)"
  by (rule wrel_quiet) (simp_all add: drain_audio_def)

lemma wrel_flush_loop:
  "wk_session_active w \<Longrightarrow> flush_loop w = (ok, w') \<Longrightarrow> wrel sid w w'"
proof (induction w arbitrary: ok w' rule: flush_loop.induct)
  case (1 w)
  obtain pcm pts where g: "vw_audio_buffer_get_samples (wk_audio_buf w) VW_CHUNK_MAX_SAMPLES = (pcm, pts)" by fastforce
  obtain vad w1 where v: "next_vad w = (vad, w1)" by fastforce
  have r1: "wrel sid w w1" using wrel_next_vad[OF v] .
  have a1: "wk_session_active w1" using wrel_active[OF r1 1(3)] .
  show ?case
  proof (cases "ab_count (wk_audio_buf w) = 0 \<or> pcm = []")
    case True
    then show ?thesis using 1(4) g by (subst (asm) flush_loop.simps) (auto split: if_splits)
  next
    case False
    show ?thesis
    proof (cases "vw_vad_find_chunk_boundary vad pcm True")
      case None
      then show ?thesis using 1(4) g v False r1 by (subst (asm) flush_loop.simps) simp
    next
      case (Some b)
      then obtain cut dr where b: "vw_vad_find_chunk_boundary vad pcm True = Some (cut, dr)" by (cases b) auto
      consider "cut = 0" "dr = 0" | "0 < dr" | "0 < cut" "dr = 0" by auto
      then show ?thesis
      proof cases
        case 1
        then show ?thesis using "1.prems"(2) g v False b r1 by (subst (asm) flush_loop.simps) simp
      next
        case 2
        have r2: "wrel sid w (drain_audio dr w1)" using wrel_trans[OF r1 wrel_drain_audio[OF a1]] .
        have "flush_loop (drain_audio dr w1) = (ok, w')"
          using "1.prems"(2) g v False b 2 by (subst (asm) flush_loop.simps) simp
        then show ?thesis
          using "1.IH"(1)[OF _ g[symmetric] _ v[symmetric] b refl _ 2] False 2 wrel_active[OF r2 "1.prems"(1)] wrel_trans[OF r2]
          by blast
      next
        case 3
        obtain k w2 where t: "transcribe cut w1 = (k, w2)" by fastforce
        have r2: "wrel sid w w2" using wrel_trans[OF r1 wrel_transcribe[OF t]] .
        let ?p = "push_segments (\<lambda>_. False) (case pts of Some t \<Rightarrow> t | None \<Rightarrow> 0) w2"
        have r3: "wrel sid w ?p" using wrel_trans[OF r2 wrel_push_segments] wrel_active[OF r2 "1.prems"(1)] by blast
        have r4: "wrel sid w (drain_audio cut ?p)" using wrel_trans[OF r3 wrel_drain_audio] wrel_active[OF r3 "1.prems"(1)] by blast
        have eq: "(if k then flush_loop (drain_audio cut ?p) else (False, w2)) = (ok, w')"
          using "1.prems"(2) g v False b 3 t by (subst (asm) flush_loop.simps) (simp split: if_splits)
        show ?thesis
        proof (cases k)
          case True
          have "\<not> (cut = 0 \<and> dr = 0)" "\<not> 0 < dr" using 3 by simp_all
          then show ?thesis
            using "1.IH"(2)[OF _ g[symmetric] _ v[symmetric] b refl _ _ t[symmetric], of ok w'] False True eq
              wrel_active[OF r4 "1.prems"(1)] wrel_trans[OF r4] by simp
        next
          case False
          then show ?thesis using eq r2 by simp
        qed
      qed
    qed
  qed
qed

lemma wrel_flush_tail_audio:
  "wk_session_active w \<Longrightarrow> vw_worker_flush_audio_tail w = (ok, w') \<Longrightarrow> wrel sid w w'"
  using wrel_flush_loop by (auto simp: vw_worker_flush_audio_tail_def split: if_splits)

lemma wrel_flush_tail:
  assumes "flush_tail msg w = (ok, w')" "wk_session_active w" "reg w" "sid_ok w"
  shows "wrel (sid_of w) w w'"
proof -
  obtain k w1 where f: "vw_worker_flush_audio_tail w = (k, w1)" by fastforce
  have r: "wrel (sid_of w) w w1" using wrel_flush_tail_audio[OF assms(2) f] .
  then have k1: "reg w1" "sid_ok w1" "wk_session_active w1" "sid_of w = Some (wk_session_id w1)"
    using assms(2-4) by (simp_all add: wrel_def sid_ok_def sid_of_def)
  obtain e w2 where e: "vw_worker_emit_tail_segments w1 = (e, w2)" by fastforce
  have "wrel (sid_of w) w1 (if e then w2 else set_fatal w2)" using wrel_emit_tail[OF k1(1-3) e] k1(4) by simp
  then show ?thesis
    using assms(1) f e wrel_trans[OF r] wrel_trans[OF r wrel_give_up] by (auto simp: flush_tail_def split: if_splits)
qed

lemma wrel_live_inference:
  assumes "live_inference pcm t w = (failed, w')" "wk_session_active w"
  shows "wrel sid w w'"
proof -
  obtain vad w1 where v: "next_vad w = (vad, w1)" by fastforce
  obtain k w2 where tr: "transcribe (length pcm) w1 = (k, w2)" by fastforce
  have r1: "wrel sid w w1" using wrel_next_vad[OF v] .
  have r2: "wrel sid w w2" using wrel_trans[OF r1 wrel_transcribe[OF tr]] .
  have r3: "wrel sid w (push_segments h t w2)" for h
    using wrel_trans[OF r2 wrel_push_segments] wrel_active[OF r2 assms(2)] by blast
  show ?thesis
    using assms(1) v tr r1 r3 wrel_trans[OF r2 wrel_give_up] by (auto simp: live_inference_def Let_def split: if_splits)
qed

lemma wrel_live_target: "wrel sid w (w\<lparr>wk_live_next_inference_samples := n\<rparr>)"
  by (rule wrel_quiet) simp_all

lemma wrel_live_pass:
  assumes "live_pass w = (again, w')" "wk_session_active w"
  shows "wrel sid w w'"
proof -
  obtain pcm pts where g: "vw_audio_buffer_get_samples (wk_audio_buf w) (if ab_count (wk_audio_buf w) < VW_WINDOW_SAMPLES
      then ab_count (wk_audio_buf w) else VW_WINDOW_SAMPLES) = (pcm, pts)" by fastforce
  obtain failed w1 where l: "live_inference pcm (case pts of Some t \<Rightarrow> t | None \<Rightarrow> 0) w = (failed, w1)" by fastforce
  have r1: "wrel sid w w1" using wrel_live_inference[OF l assms(2)] .
  have r2: "wrel sid w (sched (w1\<lparr>wk_live_next_inference_samples := n\<rparr>))" for n
    using wrel_trans[OF r1 wrel_trans[OF wrel_live_target wrel_sched]] .
  have r3: "wrel sid w (sched w1)" using wrel_trans[OF r1 wrel_sched] .
  have r4: "wrel sid w (drain_audio k ((sched w1)\<lparr>wk_live_next_inference_samples := n\<rparr>))" for k n
    using wrel_trans[OF wrel_trans[OF r3 wrel_live_target] wrel_drain_audio] wrel_active[OF wrel_trans[OF r3 wrel_live_target] assms(2)]
    by blast
  show ?thesis
    using assms(1) g l r1 r2 r3 wrel_trans[OF r2 wrel_report_status] wrel_trans[OF r4 wrel_report_status]
    by (auto simp: live_pass_def Let_def split: if_splits)
qed

lemma wrel_live_loop: "wk_session_active w \<Longrightarrow> wrel sid w (live_loop w)"
proof (induction w rule: live_loop.induct)
  case (1 w)
  obtain again w' where p: "live_pass w = (again, w')" by fastforce
  have r: "wrel sid w w'" using wrel_live_pass[OF p 1(2)] .
  show ?case
    using 1(1)[OF _ p[symmetric]] p r wrel_active[OF r 1(2)] wrel_trans[OF r]
    by (subst live_loop.simps) auto
qed

section \<open>Handlers within a session\<close>

lemma wrel_clear_window: "wk_session_active w \<Longrightarrow> wrel sid w (clear_window w)"
  by (rule wrel_quiet) (simp_all add: clear_window_def)

lemma wrel_invalidate: "wrel sid w (invalidate_translations w)"
  by (rule wrel_quiet) (simp_all add: invalidate_translations_def)

lemma wrel_source_seek: "source_seek w = (ok, w') \<Longrightarrow> wrel sid w w'"
  by (rule wrel_quiet) (auto simp: source_seek_def split: list.splits)

text \<open>Assignments to the variables of playback.\<close>

lemma wrel_assign:
  "wrel sid w (w\<lparr>wk_paused := b\<rparr>)"
  "wrel sid w (w\<lparr>wk_seek_failed_pending := b\<rparr>)"
  "wrel sid w (w\<lparr>wk_current_playback_pts_us := t\<rparr>)"
  "wrel sid w (w\<lparr>wk_current_playback_pts_us := t, wk_last_playback_pts_us := u\<rparr>)"
  "wrel sid w (w\<lparr>wk_current_playback_pts_us := t, wk_decoded_pts_us := d, wk_source_eof := b\<rparr>)"
  "wrel sid w (w\<lparr>wk_current_playback_pts_us := t, wk_decoded_pts_us := d, wk_last_playback_pts_us := u, wk_source_eof := b\<rparr>)"
  "wrel sid w (w\<lparr>wk_decoded_pts_us := d, wk_last_playback_pts_us := u, wk_source_eof := b\<rparr>)"
  "wrel sid w (w\<lparr>wk_source_decoder := b, wk_source_mode := c\<rparr>)"
  "wrel sid w (w\<lparr>wk_running := b\<rparr>)"
  "wrel sid w (w\<lparr>wk_source_eof := b\<rparr>)"
  "wrel sid w (w\<lparr>wk_decoded_pts_us := d\<rparr>)"
  "wrel sid w (w\<lparr>wk_model_dl := b\<rparr>)"
  "wrel sid w (w\<lparr>wk_model_dl := b, wk_last_stage := k\<rparr>)"
  "wrel sid w (w\<lparr>wk_last_stage := k, wk_last_progress_send_us := t\<rparr>)"
  by (rule wrel_quiet; simp)+

lemma wrel_clear_after:
  assumes "wrel sid w w1" "wk_session_active w"
  shows "wrel sid w (clear_window w1)"
  using wrel_trans[OF assms(1) wrel_clear_window] wrel_active[OF assms] by blast

lemma wrel_position_paused:
  assumes "wk_session_active w"
  shows "wrel sid w (position_paused pos w)"
proof -
  let ?w = "w\<lparr>wk_paused := \<not> wk_paused w\<rparr>"
  have r0: "wrel sid w ?w" by (rule wrel_assign)
  obtain ok w1 where s: "source_seek ?w = (ok, w1)" by fastforce
  have r1: "wrel sid w w1" using wrel_trans[OF r0 wrel_source_seek[OF s]] .
  show ?thesis
    using s r0 r1 wrel_clear_after[OF r0 assms] wrel_clear_after[OF wrel_trans[OF r1 wrel_assign(6)] assms]
    by (auto simp: position_paused_def Let_def)
qed

lemma wrel_follow_position:
  assumes "wk_session_active w"
  shows "wrel sid w (follow_position pos w)"
proof -
  obtain ok w1 where s: "source_seek w = (ok, w1)" by fastforce
  have r1: "wrel sid w w1" using wrel_source_seek[OF s] .
  have f: "wrel sid w (w1\<lparr>wk_seek_failed_pending := b\<rparr>)" for b using wrel_trans[OF r1 wrel_assign(2)] .
  have c: "wrel sid w (clear_window ((invalidate_translations (w1\<lparr>wk_seek_failed_pending := b\<rparr>))
      \<lparr>wk_current_playback_pts_us := t, wk_decoded_pts_us := d, wk_source_eof := e\<rparr>))" for b t d e
    using wrel_clear_after[OF wrel_trans[OF wrel_trans[OF f wrel_invalidate] wrel_assign(5)] assms] .
  show ?thesis
    using s f c wrel_trans[OF f wrel_assign(4)] wrel_trans[OF c wrel_assign(4)] wrel_assign(4)
    by (simp add: follow_position_def Let_def)
qed

lemma wrel_on_position: "wrel sid w (on_position pos w)"
proof (cases "wk_session_active w \<and> po_session_id pos = wk_session_id w")
  case True
  then have a: "wk_session_active w" by simp
  let ?p = "position_paused pos w"
  have p: "wrel sid w ?p" using wrel_position_paused[OF a] .
  obtain ok w1 where s: "vw_worker_send_status (wk_session_id ?p) (wk_session_active ?p) (wk_paused ?p) ?p = (ok, w1)" by fastforce
  have ok: "ok \<Longrightarrow> wrel sid w w1" "wrel sid w (set_fatal w1)"
    using wrel_trans[OF p wrel_send_status(1)[OF s]] wrel_trans[OF p wrel_send_status(2)[OF s]] by blast+
  have "wrel sid w (follow_position pos w1)" if "ok"
    using wrel_trans[OF ok(1)[OF that] wrel_follow_position] wrel_active[OF ok(1)[OF that] a] by blast
  then show ?thesis
    using True s ok wrel_follow_position[OF a] wrel_assign(3) wrel_trans[OF ok(1) wrel_assign(3)]
    by (auto simp: on_position_def Let_def)
next
  case False
  then show ?thesis by (auto simp: on_position_def)
qed

lemma wrel_on_audio: "wrel sid w (on_audio audio w)"
proof (cases "wk_session_active w")
  case True
  have b: "wrel sid w (live_loop (w\<lparr>wk_audio_buf := buf\<rparr>))" for buf
    using wrel_trans[OF wrel_quiet wrel_live_loop, of "w\<lparr>wk_audio_buf := buf\<rparr>" w] True by simp
  show ?thesis
    using True b wrel_clear_window[OF True] by (auto simp: on_audio_def Let_def split: option.splits prod.splits)
next
  case False
  then show ?thesis by (simp add: on_audio_def)
qed

lemma wrel_on_pause: "wrel sid w (on_pause ctrl w)"
  using wrel_trans[OF wrel_trans[OF wrel_clear_after[OF wrel_assign(1)] wrel_invalidate] wrel_report_status]
  by (auto simp: on_pause_def)

lemma wrel_on_resume: "wrel sid w (on_resume ctrl w)"
proof (cases "wk_session_active w \<and> ct_session_id ctrl = wk_session_id w")
  case True
  then have a: "wk_session_active w" by simp
  let ?w = "w\<lparr>wk_paused := False\<rparr>"
  have r0: "wrel sid w ?w" by (rule wrel_assign)
  obtain ok w1 where s: "source_seek ?w = (ok, w1)" by fastforce
  have r1: "wrel sid w w1" using wrel_trans[OF r0 wrel_source_seek[OF s]] .
  have r2: "wrel sid w (invalidate_translations (clear_window (w1\<lparr>wk_decoded_pts_us := d, wk_last_playback_pts_us := u, wk_source_eof := b\<rparr>)))" for d u b
    using wrel_trans[OF wrel_clear_after[OF wrel_trans[OF r1 wrel_assign(7)] a] wrel_invalidate] .
  show ?thesis
    using True s wrel_trans[OF r0 wrel_report_status] wrel_trans[OF r1 wrel_report_status] wrel_trans[OF r2 wrel_report_status]
    by (auto simp: on_resume_def Let_def)
next
  case False
  then show ?thesis by (auto simp: on_resume_def)
qed

lemma wrel_on_translate_ctrl: "wrel sid w (on_translate_ctrl ctrl w)"
  by (rule wrel_quiet) (simp_all add: on_translate_ctrl_def invalidate_translations_def)

section \<open>Steps that may end the session\<close>

text \<open>Without a session there is no audio to transcribe and no cue to send.\<close>

definition clean :: "vw_worker \<Rightarrow> bool" where
  "clean w \<longleftrightarrow> wk_session_active w \<or> ab_count (wk_audio_buf w) = 0 \<and> vw_segment_builder_pop (wk_builder w) = None"

definition wlax :: "bytes option \<Rightarrow> vw_worker \<Rightarrow> vw_worker \<Rightarrow> bool" where
  "wlax sid w w' \<longleftrightarrow> wstep sid w w' \<and> wk_session_id w' = wk_session_id w \<and> (wk_session_active w' \<longrightarrow> wk_session_active w)
     \<and> wk_authenticated w' = wk_authenticated w \<and> (reg w \<longrightarrow> reg w') \<and> (clean w \<longrightarrow> clean w')"

lemma wrel_lax: "wrel sid w w' \<Longrightarrow> wlax sid w w'"
  by (auto simp: wrel_def wlax_def clean_def)

lemma wlax_refl [simp]: "wlax sid w w"
  by (simp add: wlax_def)

lemma wlax_trans: "wlax sid w w1 \<Longrightarrow> wlax sid w1 w2 \<Longrightarrow> wlax sid w w2"
  unfolding wlax_def using wstep_trans by metis

text \<open>The sender's own session is good for any state that still has it.\<close>

lemma wrel_own: "wrel (sid_of w) w w' \<Longrightarrow> wrel (Some (wk_session_id w)) w w'"
  by (auto simp: sid_of_def intro: wrel_mono split: if_splits)

lemma wlax_own: "wlax (sid_of w) w w' \<Longrightarrow> wlax (Some (wk_session_id w)) w w'"
  by (auto simp: wlax_def sid_of_def intro: wstep_mono split: if_splits)

lemma clear_empty [simp]:
  "ab_count (vw_audio_buffer_clear buf) = 0" "vw_segment_builder_pop (vw_segment_builder_clear b) = None"
  by (simp_all add: vw_audio_buffer_clear_def vw_segment_builder_clear_def vw_segment_builder_pop_def)

lemma wlax_quiet:
  assumes "sent_bytes w' = sent_bytes w" "wk_sequence w' = wk_sequence w" "wk_fatal_exit w' = wk_fatal_exit w"
    "tp_schedule (wk_tapes w') = tp_schedule (wk_tapes w)" "wk_session_id w' = wk_session_id w"
    "\<not> wk_session_active w'" "wk_authenticated w' = wk_authenticated w"
    "wk_translator w' = None \<longleftrightarrow> wk_translator w = None" "wk_diag_registered w' = wk_diag_registered w" "clean w'"
  shows "wlax sid w w'"
  using assms by (auto simp: wlax_def wstep_def reg_def emitted_none)

lemma wlax_end_session: "wlax sid w (end_session w)"
  by (rule wlax_quiet) (simp_all add: end_session_def invalidate_translations_def clear_window_def clean_def Let_def)

lemma wlax_on_stop:
  assumes "wk_session_active w \<longrightarrow> reg w" "sid_ok w" "clean w"
  shows "wlax (sid_of w) w (on_stop ctrl w)"
proof (cases "ct_session_id ctrl = wk_session_id w")
  case True
  define w1 where "w1 = (if ct_reason ctrl = VW_CTRL_REASON_MEDIA_END \<and> \<not> wk_source_mode w \<and> ab_count (wk_audio_buf w) > 0
                 then snd (flush_tail ''MEDIA_END tail inference failed'' w) else w)"
  have r1: "wrel (sid_of w) w w1"
  proof (cases "ct_reason ctrl = VW_CTRL_REASON_MEDIA_END \<and> \<not> wk_source_mode w \<and> ab_count (wk_audio_buf w) > 0")
    case True
    then have a: "wk_session_active w" using assms(3) by (simp add: clean_def)
    show ?thesis using True wrel_flush_tail[OF prod.collapse[symmetric] a] a assms by (simp add: w1_def)
  qed (auto simp: w1_def)
  define w2 where "w2 = (if wk_translator w1 \<noteq> None \<and> wk_session_active w1 \<and> ct_reason ctrl \<noteq> VW_CTRL_REASON_SEEK_DISCONTINUITY
                 then vw_worker_drain_translation w1 else w1)"
  have r2: "wrel (sid_of w) w w2" using wrel_chain[OF r1 assms(2)] wrel_drain wrel_refl by (simp add: w2_def)
  have r3: "wlax (sid_of w) w (sched (end_session w2))"
    using wlax_trans[OF wlax_trans[OF wrel_lax[OF r2] wlax_end_session] wrel_lax[OF wrel_sched]] .
  have eq: "on_stop ctrl w = (let v = sched (end_session w2) in
      if wk_running v then or_fatal (vw_worker_send_status (wk_session_id v) False False v) else v)"
    unfolding on_stop_def Let_def w1_def[symmetric] w2_def[symmetric] by (simp only: True not_True_eq_False if_False simp_thms)
  show ?thesis unfolding eq Let_def using r3 wlax_trans[OF r3 wrel_lax[OF wrel_status]] by simp
qed (simp add: on_stop_def)

lemma wrel_on_shutdown:
  assumes "wk_session_active w \<longrightarrow> reg w" "sid_ok w"
  shows "wrel (sid_of w) w (on_shutdown w)"
proof -
  define w1 where "w1 = (if wk_session_active w \<and> \<not> wk_source_mode w \<and> ab_count (wk_audio_buf w) > 0
               then (case flush_tail ''SHUTDOWN tail inference failed'' w of (ok, w) \<Rightarrow> if ok then report_status w else w)
               else w)"
  have r1: "wrel (sid_of w) w w1"
  proof (cases "wk_session_active w")
    case True
    obtain ok v where f: "flush_tail ''SHUTDOWN tail inference failed'' w = (ok, v)" by fastforce
    have "wrel (sid_of w) w v" using wrel_flush_tail[OF f True] True assms by blast
    then show ?thesis using f wrel_trans[OF _ wrel_report_status] by (simp add: w1_def)
  qed (simp add: w1_def)
  define w2 where "w2 = (if wk_translator w1 \<noteq> None \<and> wk_session_active w1 then vw_worker_drain_translation w1 else w1)"
  have r2: "wrel (sid_of w) w w2" using wrel_chain[OF r1 assms(2)] wrel_drain wrel_refl by (simp add: w2_def)
  have r3: "wrel (sid_of w) w (if wk_source_decoder w2 then w2\<lparr>wk_source_decoder := False, wk_source_mode := False\<rparr> else w2)"
    using r2 wrel_trans[OF r2 wrel_assign(8)] by simp
  have "on_shutdown w = (if wk_source_decoder w2 then w2\<lparr>wk_source_decoder := False, wk_source_mode := False\<rparr> else w2)\<lparr>wk_running := False\<rparr>"
    unfolding on_shutdown_def Let_def w1_def[symmetric] w2_def[symmetric] by (rule refl)
  then show ?thesis using wrel_trans[OF r3 wrel_assign(9)] by simp
qed

section \<open>Downloads\<close>

lemma wrel_download:
  "download_poll w = (r, w') \<Longrightarrow> wrel sid w w'" "download_start w = (b, w') \<Longrightarrow> wrel sid w w'"
  by (rule wrel_quiet; auto simp: download_poll_def download_start_def split: list.splits)+

lemma wrel_on_download: "wrel sid w (on_download s req w)"
proof -
  obtain cur w1 where p: "(if wk_model_dl w then download_poll w else (None, w)) = (cur, w1)" by fastforce
  have r1: "wrel sid w w1" using p wrel_download(1) by (auto split: if_splits)
  let ?v = "if wk_model_dl w1 then w1\<lparr>wk_model_dl := False, wk_last_stage := - 1\<rparr> else w1"
  have r2: "wrel sid w ?v" using r1 wrel_trans[OF r1 wrel_assign(13)] by simp
  obtain started w2 where d: "download_start ?v = (started, w2)" by fastforce
  have r3: "wrel sid w w2" using wrel_trans[OF r2 wrel_download(2)[OF d]] .
  show ?thesis
    unfolding on_download_def p Let_def prod.case d
    using wrel_report_progress wrel_trans[OF r1 wrel_report_progress] wrel_trans[OF r3 wrel_assign(12)] wrel_trans[OF r3 wrel_report_progress]
    by (simp split: option.split)
qed

lemma wrel_on_model_ctrl: "wrel sid w (on_model_ctrl ctrl w)"
  by (simp add: on_model_ctrl_def Let_def wrel_on_download wrel_report_progress)

lemma wrel_poll_download: "wrel sid w (poll_download w)"
proof (cases "wk_model_dl w")
  case True
  obtain prog w1 where p: "download_poll w = (prog, w1)" by fastforce
  have r1: "wrel sid w w1" using wrel_download(1)[OF p] .
  show ?thesis
  proof (cases prog)
    case None
    then show ?thesis using True p r1 by (simp add: poll_download_def)
  next
    case (Some pr)
    obtain now w2 where c: "wk_io take_clock w1 = (now, w2)" by fastforce
    have r2: "wrel sid w w2" using wrel_trans[OF r1 wrel_io[OF c]] by simp
    let ?send = "dp_stage pr \<noteq> wk_last_stage w2 \<or> download_busy (Some pr) \<and> now - wk_last_progress_send_us w2 \<ge> 1000000"
    let ?v = "if ?send then (report_progress (if wk_session_active w2 then wk_session_id w2 else replicate VW_SESSION_ID_BYTES 0)
                             (dp_stage pr) (dp_pct pr) (dp_bytes_done pr) (dp_bytes_total pr) (dp_model_id pr) w2)
                            \<lparr>wk_last_stage := dp_stage pr, wk_last_progress_send_us := now\<rparr> else w2"
    have r3: "wrel sid w ?v"
      using r2 wrel_trans[OF wrel_trans[OF r2 wrel_report_progress] wrel_assign(14)] by simp
    show ?thesis
      unfolding poll_download_def p Some Let_def prod.case option.case c
      using True r3 wrel_trans[OF r3 wrel_assign(13)] by presburger
  qed
qed (simp add: poll_download_def)

section \<open>Looking ahead\<close>

lemma wrel_chunk_pass:
  assumes "chunk_pass w = (again, w')" "wk_session_active w"
  shows "wrel sid w w'"
proof -
  obtain pcm pts where g: "vw_audio_buffer_get_samples (wk_audio_buf w) VW_CHUNK_MAX_SAMPLES = (pcm, pts)" by fastforce
  obtain vad w1 where v: "next_vad w = (vad, w1)" by fastforce
  have r1: "wrel sid w w1" using wrel_next_vad[OF v] .
  have a1: "wk_session_active w1" using wrel_active[OF r1 assms(2)] .
  have d: "wrel sid w (drain_audio k w1)" for k using wrel_trans[OF r1 wrel_drain_audio[OF a1]] .
  show ?thesis
  proof (cases "vw_vad_find_chunk_boundary vad pcm (wk_source_eof w1)")
    case None
    then show ?thesis using assms(1) g v r1 by (auto simp: chunk_pass_def split: if_splits)
  next
    case (Some b)
    then obtain cut dr where b: "vw_vad_find_chunk_boundary vad pcm (wk_source_eof w1) = Some (cut, dr)" by (cases b) auto
    obtain k w2 where t: "transcribe cut w1 = (k, w2)" by fastforce
    have r2: "wrel sid w w2" using wrel_trans[OF r1 wrel_transcribe[OF t]] .
    let ?p = "sched (push_segments (\<lambda>_. False) (case pts of Some t \<Rightarrow> t | None \<Rightarrow> 0) w2)"
    have r3: "wrel sid w ?p"
      using wrel_trans[OF wrel_trans[OF r2 wrel_push_segments] wrel_sched] wrel_active[OF r2 assms(2)] by blast
    have r4: "wrel sid w (report_status (drain_audio cut ?p))"
      using wrel_trans[OF wrel_trans[OF r3 wrel_drain_audio] wrel_report_status] wrel_active[OF r3 assms(2)] by blast
    show ?thesis
      using assms(1) g v b t r1 d r3 r4 wrel_trans[OF r2 wrel_give_up]
      by (auto simp: chunk_pass_def Let_def split: if_splits)
  qed
qed

lemma wrel_chunk_loop: "wk_session_active w \<Longrightarrow> wrel sid w (chunk_loop w)"
proof (induction w rule: chunk_loop.induct)
  case (1 w)
  obtain again w' where p: "chunk_pass w = (again, w')" by fastforce
  have r: "wrel sid w w'" using wrel_chunk_pass[OF p 1(2)] .
  show ?case
    using 1(1)[OF _ p[symmetric]] p r wrel_active[OF r 1(2)] wrel_trans[OF r]
    by (subst chunk_loop.simps) auto
qed

lemma wrel_source_next: "source_next w = (r, w') \<Longrightarrow> wrel sid w w'"
  by (rule wrel_quiet) (auto simp: source_next_def split: list.splits)

lemma wlax_source_failed: "wlax sid w (source_failed w)"
proof -
  let ?w = "report_error (wk_session_id w) E_INTERNAL 0 (ascii ''Source decoder read failed'') w"
  have "wlax sid ?w (source_failed w)"
    unfolding source_failed_def Let_def by (rule wlax_quiet) (simp_all add: invalidate_translations_def clean_def)
  then show ?thesis using wlax_trans[OF wrel_lax[OF wrel_report_error]] by blast
qed

lemma wrel_look_ahead_read:
  assumes "wk_session_active w"
  shows "wrel sid w (chunk_loop ((case vw_audio_buffer_append_s16le (Some (wk_audio_buf w)) s n t of
      (_, Some buf) \<Rightarrow> w\<lparr>wk_audio_buf := buf\<rparr> | (_, None) \<Rightarrow> w)\<lparr>wk_decoded_pts_us := d\<rparr>))"
proof -
  have "wrel sid w (chunk_loop (v\<lparr>wk_decoded_pts_us := d\<rparr>))" if "wrel sid w v" for v
    using wrel_trans[OF wrel_trans[OF that wrel_assign(11)] wrel_chunk_loop] wrel_active[OF that assms] by simp
  moreover have "wrel sid w (w\<lparr>wk_audio_buf := b\<rparr>)" for b by (rule wrel_quiet) (simp_all add: assms)
  ultimately show ?thesis by (auto split: prod.split option.split)
qed

lemma wlax_look_ahead:
  assumes "look_ahead w = (flow, w')"
  shows "wlax sid w w'"
proof (cases "lookahead_due w")
  case True
  then have a: "wk_session_active w" by (simp add: lookahead_due_def)
  obtain rd w1 where s: "source_next w = (rd, w1)" by fastforce
  have r1: "wrel sid w w1" using wrel_source_next[OF s] .
  note a1 = wrel_active[OF r1 a]
  show ?thesis
  proof (cases rd)
    case (Src_Ok samples t)
    have "w' = w1 \<or> (\<exists>x n u d. w' = chunk_loop ((case vw_audio_buffer_append_s16le (Some (wk_audio_buf w1)) x n u of
      (_, Some buf) \<Rightarrow> w1\<lparr>wk_audio_buf := buf\<rparr> | (_, None) \<Rightarrow> w1)\<lparr>wk_decoded_pts_us := d\<rparr>))"
      using assms True s Src_Ok unfolding look_ahead_def Let_def by (auto split: if_splits)
    then show ?thesis using wrel_lax[OF r1] wrel_lax[OF wrel_trans[OF r1 wrel_look_ahead_read[OF a1]]] by metis
  next
    case Src_Again
    then show ?thesis using assms True s wrel_lax[OF r1] by (simp add: look_ahead_def)
  next
    case Src_Eof
    let ?w = "w1\<lparr>wk_source_eof := True\<rparr>"
    have r2: "wrel sid w ?w" using wrel_trans[OF r1 wrel_assign(10)] .
    obtain ok w2 where f: "vw_worker_flush_audio_tail ?w = (ok, w2)" by fastforce
    have r3: "wrel sid w w2" using wrel_trans[OF r2 wrel_flush_tail_audio[OF wrel_active[OF r2 a] f]] .
    show ?thesis
      using assms True s Src_Eof f wrel_lax[OF wrel_trans[OF r3 wrel_give_up]] wrel_lax[OF wrel_trans[OF r3 wrel_report_status]]
      by (auto simp: look_ahead_def split: if_splits)
  next
    case Src_Error
    then show ?thesis using assms True s wlax_trans[OF wrel_lax[OF r1] wlax_source_failed] by (auto simp: look_ahead_def)
  qed
next
  case False
  then show ?thesis using assms by (simp add: look_ahead_def)
qed

section \<open>The end of an iteration\<close>

lemma wlax_chain:
  assumes "wlax (Some s) w w1" "wk_session_id w = s" "wk_session_id w1 = s \<Longrightarrow> wlax (Some (wk_session_id w1)) w1 w2"
  shows "wlax (Some s) w w2"
proof -
  have "wk_session_id w1 = s" using assms(1,2) by (simp add: wlax_def)
  then show ?thesis using wlax_trans[OF assms(1)] assms(3) by simp
qed

lemma wlax_deliver:
  "sid_ok w \<Longrightarrow> wlax (Some (wk_session_id w)) w (deliver_translations w) \<and> reg (deliver_translations w)"
  using wrel_deliver_translations wrel_lax[OF wrel_own] by blast

lemma wlax_emit_segments:
  assumes "clean w" "reg w" "sid_ok w"
  shows "wlax (Some (wk_session_id w)) w (emit_segments w)"
proof (cases "wk_session_active w")
  case True
  then show ?thesis using wrel_lax[OF wrel_emit_segments[OF assms(2,3)]] by blast
next
  case False
  then have "emit_segments w = w" using assms(1) by (subst emit_segments.simps) (simp add: clean_def)
  then show ?thesis by simp
qed

lemma wlax_sid_ok: "wlax sid w w' \<Longrightarrow> sid_ok w' = sid_ok w"
  by (simp add: wlax_def sid_ok_def)

lemma wlax_finish:
  assumes "finish_iteration w = (flow, w')" "clean w" "sid_ok w"
  shows "wlax (Some (wk_session_id w)) w w'" "reg w'"
proof -
  let ?s = "Some (wk_session_id w)"
  let ?w1 = "poll_download (deliver_translations w)"
  have r1: "wlax ?s w ?w1" "reg ?w1"
    using wlax_trans[OF _ wrel_lax[OF wrel_poll_download]] wlax_deliver[OF assms(3)] wrel_poll_download[of None "deliver_translations w"]
    by (auto simp: wrel_def)
  obtain fl w2 where l: "look_ahead ?w1 = (fl, w2)" by fastforce
  have r2: "wlax ?s w w2" "reg w2"
    using wlax_trans[OF r1(1) wlax_look_ahead[OF l]] wlax_look_ahead[OF l, of None] r1(2) by (auto simp: wlax_def)
  have k2: "clean w2" "sid_ok w2" "wk_session_id w2 = wk_session_id w" using r2 assms(2,3) by (simp_all add: wlax_def sid_ok_def)
  have r3: "wlax ?s w (emit_segments w2)"
    using wlax_chain[OF r2(1) refl wlax_emit_segments[OF k2(1) r2(2) k2(2)]] by blast
  then have k3: "sid_ok (emit_segments w2)" using wlax_sid_ok assms(3) by blast
  have r4: "wlax ?s w (deliver_translations (emit_segments w2))" "reg (deliver_translations (emit_segments w2))"
    using wlax_chain[OF r3 refl] wlax_deliver[OF k3] by blast+
  show "wlax ?s w w'" "reg w'"
    using assms(1) l r2 r4 by (auto simp: finish_iteration_def split: if_splits)
qed

section \<open>Starting a session\<close>

lemma wstep_quiet:
  "sent_bytes w' = sent_bytes w \<Longrightarrow> wk_sequence w' = wk_sequence w \<Longrightarrow> wk_fatal_exit w' = wk_fatal_exit w \<Longrightarrow>
     tp_schedule (wk_tapes w') = tp_schedule (wk_tapes w) \<Longrightarrow> wstep sid w w'"
  by (simp add: wstep_def emitted_none)

lemma wrel_wstep: "wrel sid w w' \<Longrightarrow> wstep sid w w'"
  by (simp add: wrel_def)

text \<open>
  What a handler leaves: everything sent carries the identifier of the session it leaves, and
  the state is clean.
\<close>

definition handled :: "vw_worker \<Rightarrow> vw_worker \<Rightarrow> bool" where
  "handled w w' \<longleftrightarrow> wstep (Some (wk_session_id w')) w w' \<and> clean w' \<and> sid_ok w' \<and> wk_authenticated w' = wk_authenticated w"

lemma handled_trans:
  assumes "handled w w1" "wrel None w1 w2"
  shows "handled w w2"
  using assms wstep_trans[OF _ wrel_wstep[OF wrel_mono[OF assms(2)]], of "Some (wk_session_id w1)" w]
    wrel_lax[OF assms(2)]
  by (auto simp: handled_def wrel_def wlax_def sid_ok_def)

lemma handled_lax:
  assumes "wlax (Some (wk_session_id w)) w w'" "clean w" "sid_ok w"
  shows "handled w w'"
  using assms by (simp add: handled_def wlax_def sid_ok_def)

lemma handled_refl: "clean w \<Longrightarrow> sid_ok w \<Longrightarrow> handled w w"
  by (simp add: handled_def)

text \<open>Assignments that begin or abandon a session.\<close>

lemma handled_quiet:
  assumes "handled w w1" "sent_bytes w2 = sent_bytes w1" "wk_sequence w2 = wk_sequence w1" "wk_fatal_exit w2 = wk_fatal_exit w1"
    "tp_schedule (wk_tapes w2) = tp_schedule (wk_tapes w1)" "wk_authenticated w2 = wk_authenticated w1" "clean w2"
    "wk_session_id w2 = wk_session_id w1"
  shows "handled w w2"
  using assms wstep_trans[OF _ wstep_quiet[OF assms(2-5)], of "Some (wk_session_id w1)" w] by (auto simp: handled_def sid_ok_def)

lemma discard_pending_empty: "vw_segment_builder_pop (discard_pending b) = None"
proof (induction b rule: discard_pending.induct)
  case (1 b)
  then show ?case by (subst discard_pending.simps) (auto split: option.splits)
qed

lemma abandon_fields [simp]:
  "wk_net (abandon_session w) = wk_net w" "wk_sequence (abandon_session w) = wk_sequence w"
  "wk_fatal_exit (abandon_session w) = wk_fatal_exit w" "wk_tapes (abandon_session w) = wk_tapes w"
  "wk_authenticated (abandon_session w) = wk_authenticated w" "wk_session_id (abandon_session w) = wk_session_id w"
  "clean (abandon_session w)"
  by (simp_all add: abandon_session_def clean_def discard_pending_empty)

lemma wrel_set_language: "set_language l w = (ok, w') \<Longrightarrow> wrel sid w w'"
  by (rule wrel_quiet) (auto simp: set_language_def split: option.splits prod.splits)

text \<open>From the old session, which has sent nothing in this step, to the new one.\<close>

lemma begin_fields [simp]:
  "wk_net (begin_session start w) = wk_net w" "wk_sequence (begin_session start w) = wk_sequence w"
  "wk_fatal_exit (begin_session start w) = wk_fatal_exit w" "wk_tapes (begin_session start w) = wk_tapes w"
  "wk_authenticated (begin_session start w) = wk_authenticated w" "wk_session_id (begin_session start w) = st_session_id start"
  "wk_session_active (begin_session start w)" "clean (begin_session start w)"
  by (simp_all add: begin_session_def clean_def Let_def invalidate_translations_def)

lemma handled_begin:
  assumes "wstep None w w1" "wk_authenticated w1 = wk_authenticated w" "length (st_session_id start) = VW_SESSION_ID_BYTES"
  shows "handled w (begin_session start w1)"
proof -
  have "wstep None w (begin_session start w1)" by (rule wstep_trans[OF assms(1) wstep_quiet]) simp_all
  then show ?thesis using assms(2,3) wstep_mono by (simp add: handled_def sid_ok_def)
qed

lemma wrel_source_open: "source_open w = (ok, w') \<Longrightarrow> wrel sid w w'"
  by (rule wrel_quiet) (auto simp: source_open_def split: list.splits)

lemma wrel_source_flags:
  "wrel sid w (w\<lparr>wk_source_mode := b, wk_source_eof := c\<rparr>)"
  "wrel sid w (w\<lparr>wk_source_decoder := a, wk_source_mode := b, wk_source_eof := c, wk_current_playback_pts_us := t,
     wk_last_playback_pts_us := u, wk_decoded_pts_us := d\<rparr>)"
  by (rule wrel_quiet; simp)+

lemma wrel_start_source:
  assumes "start_source start w = (ok, w')"
  shows "wrel sid w w'"
proof (cases "st_source_url_len start > 0 \<and> c_get (st_source_url start) 0 \<noteq> 0")
  case True
  obtain opened w1 where o: "source_open w = (opened, w1)" by fastforce
  have r1: "wrel sid w w1" using wrel_source_open[OF o] .
  show ?thesis
  proof (cases opened)
    case True
    let ?o = "st_timeline_origin_pts_us start"
    let ?v = "w1\<lparr>wk_source_decoder := True, wk_source_mode := True, wk_source_eof := False,
      wk_current_playback_pts_us := ?o, wk_last_playback_pts_us := ?o, wk_decoded_pts_us := ?o\<rparr>"
    have r2: "wrel sid w ?v" using wrel_trans[OF r1 wrel_source_flags(2)] .
    obtain k w2 where s: "source_seek ?v = (k, w2)" by fastforce
    have r3: "wrel sid w w2" using wrel_trans[OF r2 wrel_source_seek[OF s]] .
    show ?thesis
      using assms \<open>_ \<and> _\<close> o True s r2 r3 wrel_trans[OF r3 wrel_assign(8)]
      by (auto simp: start_source_def Let_def split: if_splits)
  next
    case False
    let ?v = "w1\<lparr>wk_source_mode := False, wk_source_eof := False\<rparr>"
    have r2: "wrel sid w ?v" using wrel_trans[OF r1 wrel_source_flags(1)] .
    obtain k w2 where s: "send_error (st_session_id start) E_SOURCE_OPEN 1
                 (ascii ''Failed to open source MRL; falling back to live PCM stream'') ?v = (k, w2)" by fastforce
    have "wrel sid w (if k then w2 else set_fatal w2)"
      using wrel_trans[OF r2 wrel_send_error(1)[OF s]] wrel_trans[OF r2 wrel_send_error(2)[OF s]] by simp
    then show ?thesis using assms \<open>_ \<and> _\<close> o False s by (auto simp: start_source_def split: if_splits)
  qed
next
  case False
  then show ?thesis using assms wrel_source_flags(1) by (auto simp: start_source_def)
qed

lemma started_ok:
  "vw_protocol_encode_payload (msg_code VW_MSG_STARTED) (Some (P_STARTED p)) VW_MSG_STARTED_PAYLOAD_BYTES = Some b
     \<Longrightarrow> msg_ok sid (VW_MSG_STARTED, b)"
  using encode_fits[of VW_MSG_STARTED "P_STARTED p" VW_MSG_STARTED_PAYLOAD_BYTES b] by (simp add: msg_ok_def fits_def vw_limits)

lemma rest_guarded_eq: "guarded_ipc_send bs w = (ok, w') \<Longrightarrow> rest w' = rest w"
  by (metis rest_guarded_send snd_conv)

lemma wrel_send_started:
  assumes "send_started start w = (ok, w')"
  shows "wrel sid w (if ok then w' else set_fatal w')"
proof -
  define b where "b = (case vw_protocol_encode_payload (msg_code VW_MSG_STARTED) (Some (P_STARTED
            \<lparr>sd_session_id = st_session_id start, sd_source_active = (if wk_source_mode w then 1 else 0)\<rparr>))
            VW_MSG_STARTED_PAYLOAD_BYTES of Some b \<Rightarrow> b | None \<Rightarrow> [])"
  have m: "msg_ok sid (VW_MSG_STARTED, b)"
    using started_ok by (auto simp: b_def msg_ok_def fits_def split: option.split)
  let ?w = "w\<lparr>wk_sequence := wk_sequence w + 1\<rparr>"
  have eq: "send_started start w = (case vw_protocol_encode_header (Some (frame_header VW_MSG_STARTED (length b) (wk_sequence w + 1))) 20 of
        None \<Rightarrow> (False, ?w)
      | Some hdr \<Rightarrow>
          (case guarded_ipc_send hdr ?w of (ok, w) \<Rightarrow>
             if ok \<and> length b > 0 then guarded_ipc_send b w else (ok, w)))"
    unfolding send_started_def Let_def b_def[symmetric] by simp
  show ?thesis
  proof (cases ok)
    case True
    obtain hdr w1 where h: "vw_protocol_encode_header (Some (frame_header VW_MSG_STARTED (length b) (wk_sequence w + 1))) 20 = Some hdr"
      "guarded_ipc_send hdr ?w = (True, w1)" "(if b \<noteq> [] then guarded_ipc_send b w1 else (True, w1)) = (True, w')"
      using assms True unfolding eq by (auto split: option.splits if_splits prod.splits)
    have s1: "rest w1 = rest ?w" "sent_bytes w1 = sent_bytes w @ hdr" "wk_sequence w1 = wk_sequence w + 1" "wk_fatal_exit w1 = wk_fatal_exit w"
      using rest_guarded_eq[OF h(2)] guarded_send_True[OF h(2)] by simp_all
    have s2: "rest w' = rest w1" "sent_bytes w' = sent_bytes w1 @ b" "wk_sequence w' = wk_sequence w1" "wk_fatal_exit w' = wk_fatal_exit w1"
      using rest_guarded_eq[of b w1] guarded_send_True[of b w1 w'] h(3) by (auto split: if_splits)
    have "emitted (msg_ok sid) w w'"
      unfolding emitted_def using s1 s2 m encode_header_image[OF h(1)]
      by (intro exI[of _ "[(VW_MSG_STARTED, b)]"]) (simp add: frame_wire_def)
    then show ?thesis using s1(4) s2(4) True rest_fields[OF s2(1)] rest_fields[OF s1(1)] by (simp add: wrel_def wstep_def reg_def)
  next
    case False
    have "rest w' = rest ?w"
      using assms unfolding eq by (auto split: option.splits if_splits prod.splits dest!: rest_guarded_eq)
    then show ?thesis using False rest_fields[of w' ?w] by (simp add: wrel_def wstep_def reg_def set_fatal_def)
  qed
qed

lemma handled_on_start:
  assumes "clean w" "sid_ok w" "length (st_session_id start) = VW_SESSION_ID_BYTES"
  shows "handled w (on_start start w)"
proof (cases "wk_session_active w \<and> wk_session_id w = st_session_id start")
  case True
  then show ?thesis
    using handled_trans[OF handled_refl[OF assms(1,2)] wrel_report_error] by (simp add: on_start_def)
next
  case False
  define w1 where "w1 = (if wk_session_active w then abandon_session w else w)"
  have h1: "handled w w1" using handled_quiet[OF handled_refl[OF assms(1,2)]] assms by (simp add: w1_def handled_refl)
  have q1: "wstep None w w1" "wk_authenticated w1 = wk_authenticated w" by (simp_all add: w1_def wstep_quiet)
  have err: "handled w (report_error s c r m w1)" for s c r m using handled_trans[OF h1 wrel_report_error] .
  obtain k w2 where l: "set_language (c_str (st_language start)) w1 = (k, w2)" by fastforce
  have r2: "wrel None w1 w2" using wrel_set_language[OF l] .
  have h2: "handled w w2" using handled_trans[OF h1 r2] .
  have "wstep None w w2" "wk_authenticated w2 = wk_authenticated w"
    using wstep_trans[OF q1(1) wrel_wstep[OF r2]] q1(2) r2 by (simp_all add: wrel_def)
  then have h3: "handled w (begin_session start w2)" using handled_begin assms(3) by blast
  obtain k3 w3 where s: "start_source start (begin_session start w2) = (k3, w3)" by fastforce
  have h4: "handled w w3" using handled_trans[OF h3 wrel_start_source[OF s]] .
  obtain k4 w4 where t: "send_started start w3 = (k4, w4)" by fastforce
  have h5: "handled w (if k4 then w4 else set_fatal w4)" using handled_trans[OF h4 wrel_send_started[OF t]] .
  have h6: "handled w (or_fatal (vw_worker_send_status (st_session_id start) (wk_session_active w4) (wk_paused w4) w4))" if ok: "k4"
    using handled_trans[OF h5 wrel_status] ok by simp
  show ?thesis
    unfolding on_start_def Let_def w1_def[symmetric]
    using False l s t err handled_trans[OF h2 wrel_report_error] h4 h5 h6 by (auto split: if_splits)
qed

section \<open>Before authentication\<close>

text \<open>Nothing is under way: no session, no download, no translation.\<close>

definition fresh :: "vw_worker \<Rightarrow> bool" where
  "fresh w \<longleftrightarrow> \<not> wk_session_active w \<and> \<not> wk_model_dl w \<and> wk_flight w = []
     \<and> (case wk_translator w of None \<Rightarrow> True | Some a \<Rightarrow> ta_job_count a = 0 \<and> ta_result_count a = 0)"

text \<open>The reader thread sends nothing and leaves the translations alone.\<close>

definition reader_only :: "vw_worker \<Rightarrow> vw_worker \<Rightarrow> bool" where
  "reader_only w w' \<longleftrightarrow> sent_bytes w' = sent_bytes w \<and> wk_translator w' = wk_translator w \<and> wk_flight w' = wk_flight w"

lemma reader_only_trans: "reader_only w w1 \<Longrightarrow> reader_only w1 w2 \<Longrightarrow> reader_only w w2"
  by (simp add: reader_only_def)

lemma reader_only_io: "wk_io f w = (r, w') \<Longrightarrow> (\<And>n. nt_sent (snd (f n)) = nt_sent n) \<Longrightarrow> reader_only w w'"
  by (auto simp: reader_only_def wk_io_def split: prod.splits) (metis snd_conv)

lemma reader_only_push: "reader_only w (queue_push t p n w)"
  by (simp add: reader_only_def queue_push_def split: prod.splits option.splits)

lemma reader_only_state: "reader_only w (w\<lparr>wk_reader := r\<rparr>)"
  by (simp add: reader_only_def)

lemma reader_only_fatal: "reader_only w (reader_fatal w)"
  by (simp add: reader_only_def reader_fatal_def set_fatal_def queue_push_def split: prod.splits option.splits)

lemma reader_only_accept: "reader_only w (reader_accept h w)"
proof -
  let ?w = "w\<lparr>wk_reader := (wk_reader w)\<lparr>rd_seq_valid := True, rd_last_sequence := fh_sequence h\<rparr>\<rparr>"
  obtain m w1 where m: "wk_io take_mem ?w = (m, w1)" by fastforce
  have 2: "reader_only w w1" using reader_only_trans[OF reader_only_state reader_only_io[OF m]] by simp
  obtain b w2 where b: "wk_io (reader_read (unat (fh_payload_length h)) []) w1 = (b, w2)" by fastforce
  have 3: "reader_only w w2" using reader_only_trans[OF 2 reader_only_io[OF b]] reader_read_sent by simp
  show ?thesis
    using reader_only_trans[OF reader_only_state reader_only_push] reader_only_trans[OF 2 reader_only_fatal]
      reader_only_trans[OF 3 reader_only_fatal] reader_only_trans[OF 3 reader_only_push] m b
    by (auto simp: reader_accept_def Let_def split: option.splits)
qed

lemma reader_only_main: "reader_only w (vw_worker_reader_main w)"
proof -
  obtain hd w1 where r: "wk_io (reader_read 20 []) w = (hd, w1)" by fastforce
  have 1: "reader_only w w1" using reader_only_io[OF r] reader_read_sent by simp
  have 2: "reader_only w w2" if "wk_io (reader_read k []) w1 = (b, w2)" for b w2 k
    using reader_only_trans[OF 1 reader_only_io[OF that]] reader_read_sent by simp
  show ?thesis
    using reader_only_state r 1 2 reader_only_trans[OF 1 reader_only_fatal] reader_only_trans[OF 1 reader_only_accept]
      reader_only_trans[OF 2 reader_only_fatal] reader_only_def[of w w]
    by (auto simp: vw_worker_reader_main_def reader_frame_def split: option.splits prod.splits)
qed

lemma fresh_background:
  assumes "fresh w"
  shows "fresh (background_step b w)" "sent_bytes (background_step b w) = sent_bytes w"
proof -
  have r: "fresh (vw_worker_reader_main w)" "sent_bytes (vw_worker_reader_main w) = sent_bytes w"
    using assms reader_only_main[of w] outer_fields[OF outer_reader_main[of w]] by (simp_all add: fresh_def reader_only_def)
  have t: "bg_take w = w" "bg_complete i out w = w" for i out
    using assms by (auto simp: bg_take_def bg_complete_def fresh_def take_job_def split: option.splits)
  show "fresh (background_step b w)" "sent_bytes (background_step b w) = sent_bytes w"
    using assms r t by (cases b; simp)+
qed

lemma fresh_sched:
  assumes "fresh w"
  shows "fresh (sched w)" "sent_bytes (sched w) = sent_bytes w"
proof -
  have f: "fresh v \<Longrightarrow> fresh (fold background_step bs v) \<and> sent_bytes (fold background_step bs v) = sent_bytes v" for bs v
    by (induction bs arbitrary: v) (simp_all add: fresh_background)
  have e: "fresh (reader_fatal w)" "sent_bytes (reader_fatal w) = sent_bytes w"
    using assms reader_only_fatal[of w] outer_fields[OF outer_reader_fatal[of w]] by (simp_all add: fresh_def reader_only_def)
  have "fresh (w\<lparr>wk_tapes := t\<rparr>)" for t using assms by (simp add: fresh_def)
  then show "fresh (sched w)" "sent_bytes (sched w) = sent_bytes w"
    using e f[of "w\<lparr>wk_tapes := _\<rparr>"] by (simp_all add: sched_def split: list.splits)
qed

lemma fresh_wait:
  assumes "fresh w" "wait_frame w = (r, w')"
  shows "fresh w' \<and> sent_bytes w' = sent_bytes w \<and> outer w' = outer w \<and> r \<noteq> Some None"
  using assms
proof (induction w arbitrary: r w' rule: wait_frame.induct)
  case (1 w)
  have s: "fresh (sched w)" "sent_bytes (sched w) = sent_bytes w" using fresh_sched[OF 1(2)] by simp_all
  have n: "\<not> lookahead_due (sched w)" "\<not> wk_model_dl (sched w)"
      "\<not> (case wk_translator (sched w) of None \<Rightarrow> False | Some a \<Rightarrow> vw_translate_async_has_result a)"
    using s(1) by (auto simp: fresh_def lookahead_due_def vw_translate_async_has_result_def
        vw_translate_async_find_next_result_locked_def split: option.splits)
  show ?case
  proof (cases "wk_running (sched w)")
    case True
    show ?thesis
    proof (cases "worker_pop (wk_queue (sched w))")
      case None
      have "wait_frame (sched w) = (r, w')" using 1(3) True None n by (subst (asm) wait_frame.simps) (auto simp: Let_def)
      then show ?thesis using 1(1)[OF refl _ None] True n s by simp
    next
      case (Some p)
      then obtain f q where p: "worker_pop (wk_queue (sched w)) = Some (f, q)" by (cases p) auto
      have "fresh ((sched w)\<lparr>wk_queue := q\<rparr>)" "outer ((sched w)\<lparr>wk_queue := q\<rparr>) = outer w"
        using s(1) outer_sched[of w] by (simp_all add: fresh_def outer_def)
      then show ?thesis using 1(3) True p s by (subst (asm) wait_frame.simps) (auto simp: Let_def)
    qed
  next
    case False
    then show ?thesis using 1(3) s by (subst (asm) wait_frame.simps) (auto simp: Let_def)
  qed
qed

lemma wrel_wait:
  "wait_frame w = (r, w') \<Longrightarrow> wrel sid w w'"
proof (induction w arbitrary: r w' rule: wait_frame.induct)
  case (1 w)
  have s: "wrel sid w (sched w)" by (rule wrel_sched)
  have q: "wrel sid w ((sched w)\<lparr>wk_queue := q\<rparr>)" for q
    by (rule wrel_trans[OF s], rule wrel_quiet) simp_all
  consider "w' = sched w" | q where "w' = (sched w)\<lparr>wk_queue := q\<rparr>" | "wrel sid (sched w) w'"
    using 1(1)[OF refl] 1(2)[unfolded wait_frame.simps[of w]] by (auto simp: Let_def split: if_splits option.splits prod.splits)
  then show ?case using s q wrel_trans[OF s] by cases auto
qed

end
