(* ===== verification/VW_Worker_Run.thy ===== *)
theory VW_Worker_Run
  imports VW_Worker
begin

text \<open>
  \<^verbatim>\<open>worker/src/vw_worker.c\<close>, third part: \<^verbatim>\<open>vw_worker_run\<close> as a whole, from listening to the exit
  code.  What the process is given by the system (allocations, the library, the
  threads, how the reader's last read ends) is the record \<open>worker_env\<close>.
\<close>

section \<open>The environment\<close>

record worker_env =
  we_system :: worker_system
  we_force_cpu :: "bytes option"
  we_listen :: bool
  we_window_alloc :: bool
  we_engine :: "bytes \<Rightarrow> engine_env"
  we_vad :: "bytes \<Rightarrow> (nat \<Rightarrow> silero) option"
  we_mkdir :: "bytes \<Rightarrow> bool"
  we_buffer_alloc :: "bool \<times> bool"
  we_builder_alloc :: "bool \<times> bool"
  we_queue_alloc :: "bool \<times> bool \<times> bool"
  we_translator :: bool
  we_reader :: bool
  we_discard_alloc :: bool
  we_last_read_fails :: bool
  we_net :: ipc_net
  we_tapes :: worker_tapes

section \<open>Starting\<close>

definition effective_model_path :: "worker_env \<Rightarrow> vw_worker_config \<Rightarrow> bytes" where
  "effective_model_path env config =
     (case vw_worker_config_resolve_model_path (we_system env) config VW_PATH_MAX_BYTES of
        Some p \<Rightarrow> p | None \<Rightarrow> wc_model_path config)"

definition load_engine :: "worker_env \<Rightarrow> vw_worker_config \<Rightarrow> vw_whisper_engine option" where
  "load_engine env config =
     (let path = effective_model_path env config;
          effective_backend = (if we_force_cpu env = Some (ascii ''1'') then VW_WORKER_BACKEND_CPU else wc_backend config);
          effective_language = (if wc_language config \<noteq> [] then wc_language config else ascii ''en'') in
      case vw_whisper_engine_init (we_engine env path) path effective_backend (wc_gpu_device config) of
        None \<Rightarrow> None
      | Some e \<Rightarrow>
          (case vw_whisper_engine_set_language (ws_lang_id (we_system env)) e effective_language of (ok, e) \<Rightarrow>
             if \<not> ok then None else Some (vw_whisper_engine_set_n_threads e (wc_n_threads config))))"

definition load_vad :: "worker_env \<Rightarrow> vw_worker_config \<Rightarrow> (nat \<Rightarrow> silero) option" where
  "load_vad env config =
     (case vw_worker_config_resolve_vad_model_path (we_system env) config (Some (effective_model_path env config)) VW_PATH_MAX_BYTES of
        None \<Rightarrow> None | Some path \<Rightarrow> we_vad env path)"

text \<open>The variables before the loop, and the reader's first allocation.\<close>

definition worker_init ::
  "worker_env \<Rightarrow> vw_worker_config \<Rightarrow> vw_audio_buffer \<Rightarrow> vw_segment_builder \<Rightarrow> vw_worker_queue \<Rightarrow> vw_worker" where
  "worker_init env config buf builder queue =
     \<lparr>wk_config = config, wk_lang_id = ws_lang_id (we_system env), wk_vad = load_vad env config, wk_vad_calls = 0,
      wk_tapes = we_tapes env, wk_net = (we_net env)\<lparr>nt_sent := []\<rparr>,
      wk_reader = \<lparr>rd_alive = we_discard_alloc env, rd_seq_valid = False, rd_last_sequence = 0\<rparr>,
      wk_queue = queue, wk_running = we_discard_alloc env, wk_fatal_exit = (\<not> we_discard_alloc env), wk_authenticated = False,
      wk_engine = load_engine env config,
      wk_dl_dir_ready = (wc_model_dir config \<noteq> [] \<or> vw_model_download_default_dir (ws_xdg_data_home (we_system env)) (ws_home (we_system env)) (we_mkdir env) VW_PATH_MAX_BYTES \<noteq> None),
      wk_model_dl = False, wk_last_stage = - 1, wk_last_progress_send_us = 0, wk_audio_buf = buf, wk_builder = builder,
      wk_session_id = replicate VW_SESSION_ID_BYTES 0, wk_session_active = False, wk_paused = False,
      wk_live_progressive_mode = False, wk_live_next_inference_samples = VW_WINDOW_SAMPLES, wk_sequence = 1,
      wk_source_decoder = False, wk_source_mode = False, wk_source_eof = False, wk_seek_failed_pending = False,
      wk_current_playback_pts_us = 0, wk_last_playback_pts_us = - 1, wk_decoded_pts_us = 0,
      wk_translate_enabled = False, wk_translate_src_lang = ascii ''auto'', wk_translate_dst_lang = ascii ''en'',
      wk_translate_mode = 1, wk_translator = vw_translate_async_create (we_translator env), wk_flight = [],
      wk_diag_registered = False, wk_diag_failed = False\<rparr>"

section \<open>Running\<close>

partial_function (option) main_loop :: "vw_worker \<Rightarrow> vw_worker option" where
  "main_loop w = (case iteration w of (flow, w') \<Rightarrow> if flow = Flow_Break then Some w' else main_loop w')"

text \<open>Joining the reader: a read that is still under way may end with an error.\<close>

definition join_reader :: "bool \<Rightarrow> vw_worker \<Rightarrow> vw_worker" where
  "join_reader last_read_fails w =
     (let w = w\<lparr>wk_running := False\<rparr> in
      if rd_alive (wk_reader w) \<and> last_read_fails then reader_fatal w else vw_worker_reader_main w)"

definition exit_code :: "vw_worker \<Rightarrow> int" where
  "exit_code w = (if wk_fatal_exit w \<or> \<not> wk_authenticated w then 1 else 0)"

text \<open>The exit code and the bytes written; \<open>None\<close> is a run that does not end.\<close>

definition vw_worker_run :: "worker_env \<Rightarrow> vw_worker_config option \<Rightarrow> (int \<times> bytes) option" where
  "vw_worker_run env config_opt =
     (case config_opt of
        None \<Rightarrow> Some (1, [])
      | Some config \<Rightarrow>
          if \<not> we_listen env then Some (1, [])
          else if \<not> we_window_alloc env then Some (1, [])
          else case (vw_audio_buffer_create (fst (we_buffer_alloc env)) (snd (we_buffer_alloc env)) VW_LOOKAHEAD_BUFFER_SAMPLES,
              vw_segment_builder_create (fst (we_builder_alloc env)) (snd (we_builder_alloc env))) of
              (Some buf, Some builder) \<Rightarrow>
                (case vw_worker_queue_create (fst (we_queue_alloc env)) (fst (snd (we_queue_alloc env)))
                    (snd (snd (we_queue_alloc env))) VW_WORKER_FRAME_QUEUE_CAPACITY of
                   None \<Rightarrow> Some (1, [])
                 | Some queue \<Rightarrow>
                     if \<not> we_reader env then Some (1, [])
                     else case main_loop (worker_init env config buf builder queue) of
                         None \<Rightarrow> None
                       | Some w \<Rightarrow>
                           let w = join_reader (we_last_read_fails env) w in Some (exit_code w, nt_sent (wk_net w)))
            | _ \<Rightarrow> Some (1, []))"

end
