(* ===== verification/VW_Worker_Props.thy ===== *)
theory VW_Worker_Props
  imports VW_Worker_Laws VW_Worker_Run
begin

text \<open>
  Properties of the worker: the invariant of its main loop, the frames it writes,
  authentication, the session of every caption, and that a run ends.
\<close>

unbundle bit_operations_syntax

section \<open>Frames\<close>

lemma wrel_fatal_rest: "rest w' = rest w \<Longrightarrow> wk_fatal_exit w' \<Longrightarrow> wrel sid w w'"
  using rest_fields[of w' w] by (simp add: wrel_def wstep_def reg_def)

lemma rest_fatal_flag [simp]: "rest (w\<lparr>wk_fatal_exit := b\<rparr>) = rest w"
  by (simp add: rest_def)

lemma decoded_start:
  assumes "vw_protocol_decode_payload t b = Some (Some (P_START start))"
  shows "length (st_session_id start) = VW_SESSION_ID_BYTES"
proof -
  obtain m where m: "msg_type_of t = Some m" using assms by (auto simp: vw_protocol_decode_payload_def split: option.splits)
  have "\<exists>r. decode_start b = Some (start, r)"
    using assms m by (cases m) (auto simp: vw_protocol_decode_payload_def finish_def split: option.splits if_splits)
  then show ?thesis using decode_start_wf by force
qed

lemma handled_rel: "wrel (sid_of w) w w' \<Longrightarrow> clean w \<Longrightarrow> sid_ok w \<Longrightarrow> handled w w'"
  using handled_lax wlax_own wrel_lax by blast

lemma handled_dispatch:
  assumes "clean w" "sid_ok w" "wk_session_active w \<longrightarrow> reg w"
    "\<And>start. payload = Some (P_START start) \<Longrightarrow> length (st_session_id start) = VW_SESSION_ID_BYTES"
  shows "handled w (dispatch t payload w)"
proof -
  note h = handled_rel[OF _ assms(1,2)]
  have stop: "handled w (on_stop ctrl w)" for ctrl using handled_lax[OF wlax_own[OF wlax_on_stop]] assms by blast
  have shut: "handled w (on_shutdown w)" using h[OF wrel_on_shutdown] assms by blast
  have start: "handled w (on_start s w)" if "payload = Some (P_START s)" for s using handled_on_start assms that by blast
  show ?thesis
    using stop shut start h[OF wrel_on_position] h[OF wrel_on_audio] h[OF wrel_on_pause] h[OF wrel_on_resume]
      h[OF wrel_on_translate_ctrl] h[OF wrel_on_model_ctrl] handled_refl[OF assms(1,2)]
    by (auto simp: dispatch_def split: option.split vw_message_type.split vw_payload.split)
qed

lemma handle_frame_authenticated:
  assumes "handle_frame f w = (flow, w')" "wk_authenticated w" "clean w" "sid_ok w" "wk_session_active w \<longrightarrow> reg w"
  shows "flow = Flow_Next \<Longrightarrow> handled w w'" "flow \<noteq> Flow_Next \<Longrightarrow> wrel sid w w'"
proof -
  define decoded where "decoded = (case wf_payload f of None \<Rightarrow> None
            | Some b \<Rightarrow> vw_protocol_decode_payload (wf_type f) (take (unat (wf_payload_len f)) b))"
  define payload where "payload = (case decoded of None \<Rightarrow> None | Some p \<Rightarrow> p)"
  have st: "length (st_session_id start) = VW_SESSION_ID_BYTES" if "payload = Some (P_START start)" for start
    using that decoded_start by (auto simp: payload_def decoded_def split: option.splits)
  have d: "handled w (dispatch t payload w)" for t using handled_dispatch[OF assms(3-5) st] by blast
  obtain k w1 where e: "send_error (the (bad_start_audio decoded)) E_AUDIO_FORMAT 1
            (ascii ''Unsupported audio format (expected 16kHz mono S16LE)'') w = (k, w1)" by fastforce
  have r: "rest w1 = rest w" using rest_send_error e by (metis snd_conv)
  have b: "wrel sid w (w1\<lparr>wk_fatal_exit := True\<rparr>)" "wrel sid w (w\<lparr>wk_fatal_exit := True\<rparr>)"
    using wrel_fatal_rest r by simp_all
  note u = assms(1)[unfolded handle_frame_def Let_def decoded_def[symmetric] payload_def[symmetric] e prod.case]
  show "handled w w'" if "flow = Flow_Next" using u d that assms(2) by (auto split: if_splits)
  show "wrel sid w w'" if "flow \<noteq> Flow_Next"
    using u b wrel_send_error(1)[OF e] that assms(2) by (auto split: if_splits)
qed

lemma on_hello_continue:
  assumes "on_hello hello w = (flow, w')" "\<not> wk_fatal_exit w'"
  shows "flow = Flow_Continue \<and> rest w' = rest (w\<lparr>wk_authenticated := True\<rparr>) \<and> wk_sequence w' = wk_sequence w \<and> wk_fatal_exit w' = wk_fatal_exit w
     \<and> (\<exists>ack. vw_protocol_encode_payload (msg_code VW_MSG_HELLO_ACK) (Some (P_HELLO_ACK worker_ack)) 256 = Some ack
         \<and> sent_bytes w' = sent_bytes w @ frame_wire 1 (VW_MSG_HELLO_ACK, ack))
     \<and> verify_token_constant_time (wc_auth_token (wk_config w)) (he_auth_token hello)
     \<and> he_min_major hello \<le> VW_PROTOCOL_VERSION_MAJOR \<and> VW_PROTOCOL_VERSION_MAJOR \<le> he_max_major hello"
proof -
  let ?w = "w\<lparr>wk_authenticated := True\<rparr>"
  obtain ack hdr where a: "vw_protocol_encode_payload (msg_code VW_MSG_HELLO_ACK) (Some (P_HELLO_ACK worker_ack)) 256 = Some ack"
    "vw_protocol_encode_header (Some (frame_header VW_MSG_HELLO_ACK (length ack) 1)) 20 = Some hdr"
    "send_both hdr ack ?w = (True, w')" "flow = Flow_Continue"
    "verify_token_constant_time (wc_auth_token (wk_config w)) (he_auth_token hello)"
    "he_min_major hello \<le> VW_PROTOCOL_VERSION_MAJOR" "VW_PROTOCOL_VERSION_MAJOR \<le> he_max_major hello"
    using assms by (auto simp: on_hello_def Let_def set_fatal_def not_less split: if_splits option.splits prod.splits)
  obtain w1 where s: "guarded_ipc_send hdr ?w = (True, w1)" "guarded_ipc_send ack w1 = (True, w')"
    using a(3) by (auto simp: send_both_def split: prod.splits if_splits)
  have "sent_bytes w' = sent_bytes w @ hdr @ ack" "wk_sequence w' = wk_sequence w" "wk_fatal_exit w' = wk_fatal_exit w"
    using guarded_send_True[OF s(1)] guarded_send_True[OF s(2)] by simp_all
  moreover have "rest w' = rest ?w" using rest_guarded_eq[OF s(2)] rest_guarded_eq[OF s(1)] by simp
  ultimately show ?thesis using a encode_header_image[OF a(2)] by (simp add: frame_wire_def)
qed

lemma handle_frame_unauthenticated:
  assumes "handle_frame f w = (flow, w')" "\<not> wk_authenticated w" "\<not> wk_fatal_exit w'"
  obtains hello b where "on_hello hello w = (flow, w')" "wf_type f = msg_code VW_MSG_HELLO" "wf_payload f = Some b"
    "vw_protocol_decode_payload (wf_type f) (take (unat (wf_payload_len f)) b) = Some (Some (P_HELLO hello))"
  using assms by (auto simp: handle_frame_def Let_def split: if_splits option.splits vw_payload.splits)

lemma handle_frame_fatal:
  assumes "handle_frame f w = (flow, w')" "\<not> wk_authenticated w"
  shows "rest w' = rest w \<or> rest w' = rest (w\<lparr>wk_authenticated := True\<rparr>)" "flow \<noteq> Flow_Next" 
proof -
  have h: "(rest v' = rest w \<or> rest v' = rest (w\<lparr>wk_authenticated := True\<rparr>)) \<and> fl \<noteq> Flow_Next"
    if "on_hello hello w = (fl, v')" for hello fl v'
    using that by (auto simp: on_hello_def Let_def split: if_splits option.splits prod.splits) (metis rest_send_both snd_conv)+
  show "rest w' = rest w \<or> rest w' = rest (w\<lparr>wk_authenticated := True\<rparr>)" "flow \<noteq> Flow_Next"
    using assms h by (auto simp: handle_frame_def Let_def split: if_splits option.splits vw_payload.splits)
qed

section \<open>The invariant of the main loop\<close>

lemma wrel_clean: "wrel sid w w' \<Longrightarrow> clean w \<Longrightarrow> clean w'"
  by (auto simp: wrel_def clean_def)

text \<open>An iteration after authentication.\<close>

lemma handled_finish:
  assumes "handled w w1" "finish_iteration w1 = (flow, w')"
  shows "handled w w' \<and> reg w'"
proof -
  have k: "clean w1" "sid_ok w1" using assms(1) by (simp_all add: handled_def)
  have f: "wlax (Some (wk_session_id w1)) w1 w'" "reg w'"
    using wlax_finish[OF assms(2) k] by blast+
  then show ?thesis
    using assms(1) wstep_trans[of "Some (wk_session_id w1)" w w1 w'] by (auto simp: handled_def wlax_def sid_ok_def)
qed

lemma wait_schedule:
  "wait_frame w = (Some r, w') \<Longrightarrow> schedule_left w' < schedule_left w"
proof (induction w arbitrary: r w' rule: wait_frame.induct)
  case (1 w)
  have "tp_schedule (wk_tapes w) = [] \<Longrightarrow> \<not> wk_running (sched w)" using sched_exhausted(1) .
  then have l: "wk_running (sched w) \<Longrightarrow> schedule_left (sched w) < schedule_left w"
    by (cases "tp_schedule (wk_tapes w)") (simp_all add: tapes_sched)
  have "wk_running (sched w)" using 1(2) by (subst (asm) wait_frame.simps) (auto simp: Let_def split: if_splits)
  moreover have "tp_schedule (wk_tapes w') = tp_schedule (wk_tapes (sched w)) \<or> schedule_left w' < schedule_left (sched w)"
    using 1(1)[OF refl] 1(2)[unfolded wait_frame.simps[of w]] by (auto simp: Let_def split: if_splits option.splits prod.splits)
  ultimately show ?case using l by auto
qed

lemma iteration_cases:
  assumes "iteration w = (flow, w')"
  obtains (stop) "wrel None w w'" "flow = Flow_Break"
  | (idle) w2 where "wrel None w w2" "schedule_left w2 < schedule_left w" "finish_iteration w2 = (flow, w')"
  | (frame) f w2 fl w3 where "wrel None w w2" "schedule_left w2 < schedule_left w" "handle_frame f w2 = (fl, w3)"
      "fl = Flow_Next \<Longrightarrow> finish_iteration w3 = (flow, w')" "fl \<noteq> Flow_Next \<Longrightarrow> w' = w3 \<and> flow = fl"
proof -
  obtain r w1 where wt: "wait_frame w = (r, w1)" by fastforce
  let ?w2 = "sched w1"
  have r1: "wrel None w w1" using wrel_wait[OF wt] .
  have r2: "wrel None w ?w2" using wrel_trans[OF r1 wrel_sched] .
  have l: "schedule_left ?w2 < schedule_left w" if "r = Some x" for x using wait_schedule[of w x w1] wt that by (simp add: tapes_sched)
  show thesis
  proof (cases "r \<noteq> None \<and> wk_running ?w2")
    case False
    then show thesis using stop r1 r2 assms wt by (auto simp: iteration_def Let_def split: option.splits if_splits)
  next
    case True
    then obtain fr where r: "r = Some fr" "wk_running ?w2" by blast
    show thesis
    proof (cases fr)
      case None
      then show thesis using idle[OF r2 l[OF r(1)]] assms wt r by (simp add: iteration_def Let_def)
    next
      case (Some f)
      obtain fl w3 where h: "handle_frame f ?w2 = (fl, w3)" by fastforce
      have e: "(if fl = Flow_Next then finish_iteration w3 else (fl, w3)) = (flow, w')"
        using assms wt r Some h by (simp add: iteration_def Let_def)
      show thesis by (rule frame[OF r2 l[OF r(1)] h]) (use e in simp_all)
    qed
  qed
qed

lemma handled_after:
  assumes "wrel None w w2" "handled w2 w'"
  shows "handled w w'"
  using assms wstep_trans[OF wrel_wstep[OF wrel_mono[OF assms(1)]], of "Some (wk_session_id w')"]
  by (simp add: handled_def wrel_def)

text \<open>What holds between iterations, and what an iteration does after authentication.\<close>

definition settled :: "vw_worker \<Rightarrow> bool" where
  "settled w \<longleftrightarrow> clean w \<and> sid_ok w \<and> (wk_session_active w \<longrightarrow> reg w)"

lemma settled_rel: "wrel sid w w' \<Longrightarrow> settled w \<Longrightarrow> settled w'"
  using wrel_clean[of sid w w'] wrel_sid_ok[of sid w w'] by (auto simp: settled_def wrel_def)

lemma settled_refl: "settled w \<Longrightarrow> handled w w"
  by (simp add: settled_def handled_refl)

lemma handle_frame_settled:
  assumes "handle_frame f w = (fl, w3)" "\<not> wk_authenticated w" "settled w"
  shows "settled w3"
proof -
  have "settled w3" if "rest w3 = rest v" "settled v" for v
    using that(2) rest_fields[OF that(1)] by (simp add: settled_def clean_def sid_ok_def reg_def)
  moreover have "settled (w\<lparr>wk_authenticated := True\<rparr>)" using assms(3) by (simp add: settled_def clean_def sid_ok_def reg_def)
  ultimately show ?thesis using handle_frame_fatal(1)[OF assms(1,2)] assms(3) by blast
qed

lemma finish_settled: "handled w w1 \<Longrightarrow> finish_iteration w1 = (flow, w') \<Longrightarrow> settled w'"
  using handled_finish[of w w1 flow w'] by (simp add: settled_def handled_def)

lemma iteration_settled:
  assumes "iteration w = (flow, w')" "settled w"
  shows "settled w'"
  using assms(1)
proof (cases rule: iteration_cases)
  case stop
  then show ?thesis using settled_rel assms(2) by blast
next
  case (idle w2)
  then show ?thesis using finish_settled[OF settled_refl] settled_rel[OF idle(1) assms(2)] by blast
next
  case (frame f w2 fl w3)
  have s2: "settled w2" using settled_rel[OF frame(1) assms(2)] .
  show ?thesis
  proof (cases "wk_authenticated w2")
    case True
    note h = handle_frame_authenticated[OF frame(3) True]
    show ?thesis
    proof (cases "fl = Flow_Next")
      case True
      then show ?thesis using finish_settled[OF h(1) frame(4)] s2 by (simp add: settled_def)
    next
      case False
      then show ?thesis using settled_rel[OF h(2)] frame(5) s2 by (auto simp: settled_def)
    qed
  next
    case False
    then show ?thesis using handle_frame_settled[OF frame(3) False s2] handle_frame_fatal(2)[OF frame(3) False] frame(5) by simp
  qed
qed

lemma iteration_authenticated:
  assumes "iteration w = (flow, w')" "wk_authenticated w" "settled w"
  shows "handled w w'"
  using assms(1)
proof (cases rule: iteration_cases)
  case stop
  then show ?thesis using handled_trans[OF settled_refl[OF assms(3)]] by blast
next
  case (idle w2)
  then show ?thesis using handled_finish[OF handled_trans[OF settled_refl[OF assms(3)]]] by blast
next
  case (frame f w2 fl w3)
  have s2: "settled w2" "wk_authenticated w2" using settled_rel[OF frame(1) assms(3)] frame(1) assms(2) by (simp_all add: wrel_def)
  note h = handle_frame_authenticated[OF frame(3) s2(2)]
  show ?thesis
  proof (cases "fl = Flow_Next")
    case True
    then have "handled w w3" using handled_after[OF frame(1) h(1)] s2(1) by (simp add: settled_def)
    then show ?thesis using handled_finish[OF _ frame(4)] True by blast
  next
    case False
    then have "handled w2 w3" using handled_trans[OF settled_refl[OF s2(1)] h(2)] s2(1) by (simp add: settled_def)
    then show ?thesis using handled_after[OF frame(1)] frame(5) False by blast
  qed
qed

text \<open>An iteration before authentication: a good HELLO is answered, everything else is fatal.\<close>

definition greeting :: "vw_worker_frame \<Rightarrow> vw_msg_hello \<Rightarrow> bool" where
  "greeting f hello \<longleftrightarrow> wf_type f = msg_code VW_MSG_HELLO \<and> (\<exists>b. wf_payload f = Some b
     \<and> vw_protocol_decode_payload (wf_type f) (take (unat (wf_payload_len f)) b) = Some (Some (P_HELLO hello)))"

lemma fresh_outer: "fresh w \<Longrightarrow> wk_flight w' = wk_flight w \<Longrightarrow> wk_translator w' = wk_translator w \<Longrightarrow>
    wk_session_active w' = wk_session_active w \<Longrightarrow> wk_model_dl w' = wk_model_dl w \<Longrightarrow> fresh w'"
  by (simp add: fresh_def)

lemma iteration_unauthenticated:
  assumes "iteration w = (flow, w')" "\<not> wk_authenticated w" "fresh w" "\<not> wk_fatal_exit w'"
  shows "fresh w' \<and> ((\<not> wk_authenticated w' \<and> flow = Flow_Break \<and> sent_bytes w' = sent_bytes w \<and> wk_sequence w' = wk_sequence w)
     \<or> (wk_authenticated w' \<and> flow = Flow_Continue \<and> wk_sequence w' = wk_sequence w
         \<and> (\<exists>ack. vw_protocol_encode_payload (msg_code VW_MSG_HELLO_ACK) (Some (P_HELLO_ACK worker_ack)) 256 = Some ack
              \<and> sent_bytes w' = sent_bytes w @ frame_wire 1 (VW_MSG_HELLO_ACK, ack))))"
proof -
  obtain r w1 where wt: "wait_frame w = (r, w1)" by fastforce
  let ?w2 = "sched w1"
  have f1: "fresh w1" "sent_bytes w1 = sent_bytes w" "outer w1 = outer w" "r \<noteq> Some None" using fresh_wait[OF assms(3) wt] by simp_all
  have f2: "fresh ?w2" "sent_bytes ?w2 = sent_bytes w" using fresh_sched[OF f1(1)] f1(2) by simp_all
  note o = outer_fields[OF f1(3)]
  have q: "wk_sequence ?w2 = wk_sequence w" "wk_authenticated ?w2 = wk_authenticated w" "wk_sequence w1 = wk_sequence w"
      "wk_authenticated w1 = wk_authenticated w" using o by simp_all
  show ?thesis
  proof (cases "\<exists>f. r = Some (Some f) \<and> wk_running ?w2")
    case False
    then show ?thesis using assms(1,2) wt f1 f2 q by (auto simp: iteration_def Let_def split: option.splits if_splits)
  next
    case True
    then obtain f where f: "r = Some (Some f)" "wk_running ?w2" by blast
    obtain fl w3 where h: "handle_frame f ?w2 = (fl, w3)" by fastforce
    have u: "\<not> wk_authenticated ?w2" using q assms(2) by simp
    have fl: "fl \<noteq> Flow_Next" using handle_frame_fatal(2)[OF h u] .
    have e: "w' = w3" "flow = fl" using assms(1) wt f h fl by (simp_all add: iteration_def Let_def)
    obtain hello b where g: "on_hello hello ?w2 = (fl, w3)"
      using handle_frame_unauthenticated[OF h u] assms(4) e by metis
    note c = on_hello_continue[OF g assms(4)[unfolded e]]
    then have rest: "rest w3 = rest (?w2\<lparr>wk_authenticated := True\<rparr>)" by blast
    have "fresh w3" by (rule fresh_outer[OF f2(1)]) (simp_all add: rest_fields[OF rest])
    moreover have "wk_authenticated w3" by (simp add: rest_fields[OF rest])
    ultimately show ?thesis using c e q f2(2) by simp
  qed
qed

section \<open>The interface of a sender\<close>

text \<open>
  The number of the last frame: the counter starts at the one of HELLO\_ACK, which has not been
  sent before authentication.
\<close>

definition last_frame :: "vw_worker \<Rightarrow> u64" where
  "last_frame w = (if wk_authenticated w then wk_sequence w else 0)"

text \<open>The first frame is the answer to HELLO.\<close>

definition greeted :: "bytes \<Rightarrow> bool" where
  "greeted out \<longleftrightarrow> (\<exists>ack r. vw_protocol_encode_payload (msg_code VW_MSG_HELLO_ACK) (Some (P_HELLO_ACK worker_ack)) 256 = Some ack
     \<and> out = frame_wire 1 (VW_MSG_HELLO_ACK, ack) @ r)"

definition winv :: "vw_worker \<Rightarrow> bool" where
  "winv w \<longleftrightarrow> settled w \<and> (wk_session_active w \<longrightarrow> wk_authenticated w)
     \<and> (wk_fatal_exit w \<or> (if wk_authenticated w then greeted (sent_bytes w) else fresh w \<and> sent_bytes w = [] \<and> wk_sequence w = 1))"

lemma handle_frame_fatal_kept:
  assumes "handle_frame f w = (flow, w')" "\<not> wk_authenticated w" "wk_fatal_exit w"
  shows "wk_fatal_exit w'"
proof (rule ccontr)
  assume n: "\<not> wk_fatal_exit w'"
  obtain hello b where "on_hello hello w = (flow, w')" using handle_frame_unauthenticated[OF assms(1,2) n] .
  then show False using on_hello_continue[OF _ n] assms(3) n by blast
qed

text \<open>Every iteration but the last uses up part of the schedule.\<close>

lemma handled_step: "handled w w' \<Longrightarrow> schedule_left w' \<le> schedule_left w \<and> (wk_fatal_exit w \<longrightarrow> wk_fatal_exit w')"
  by (simp add: handled_def wstep_def)

lemma iteration_step:
  assumes "iteration w = (flow, w')" "settled w"
  shows "(flow = Flow_Break \<or> schedule_left w' < schedule_left w) \<and> (wk_fatal_exit w \<longrightarrow> wk_fatal_exit w')"
  using assms(1)
proof (cases rule: iteration_cases)
  case stop
  then show ?thesis by (auto simp: wrel_def wstep_def)
next
  case (idle w2)
  have "handled w2 w'" using handled_finish[OF settled_refl idle(3)] settled_rel[OF idle(1) assms(2)] by blast
  then show ?thesis using handled_step[of w2 w'] idle(1,2) by (auto simp: wrel_def wstep_def)
next
  case (frame f w2 fl w3)
  have s2: "settled w2" "wk_fatal_exit w \<longrightarrow> wk_fatal_exit w2"
    using settled_rel[OF frame(1) assms(2)] frame(1) by (simp_all add: wrel_def wstep_def)
  show ?thesis
  proof (cases "wk_authenticated w2")
    case True
    note h = handle_frame_authenticated[OF frame(3) True]
    have "handled w2 w'"
    proof (cases "fl = Flow_Next")
      case True
      then show ?thesis using handled_finish[OF h(1) frame(4)] s2 by (simp add: settled_def)
    next
      case False
      then show ?thesis using handled_trans[OF settled_refl[OF s2(1)] h(2)] frame(5) s2 by (simp add: settled_def)
    qed
    then show ?thesis using handled_step[of w2 w'] frame(2) s2(2) by auto
  next
    case False
    have e: "w' = w3" "flow = fl" using handle_frame_fatal(2)[OF frame(3) False] frame(5) by simp_all
    have "wk_tapes w3 = wk_tapes w2"
      using handle_frame_fatal(1)[OF frame(3) False] rest_fields(5)[of w3 w2] rest_fields(5)[of w3 "w2\<lparr>wk_authenticated := True\<rparr>"]
      by auto
    then show ?thesis using e frame(2) s2(2) handle_frame_fatal_kept[OF frame(3) False] by auto
  qed
qed

lemma rest_active: "rest w' = rest w \<Longrightarrow> wk_session_active w' = wk_session_active w"
  by (rule rest_fields)

lemma iteration_active:
  assumes "iteration w = (flow, w')" "settled w" "wk_session_active w \<longrightarrow> wk_authenticated w" "wk_session_active w'"
  shows "wk_authenticated w'"
  using assms(1)
proof (cases rule: iteration_cases)
  case stop
  then show ?thesis using assms(3,4) by (simp add: wrel_def)
next
  case (idle w2)
  have s: "settled w2" using settled_rel[OF idle(1) assms(2)] .
  have "wlax (Some (wk_session_id w2)) w2 w'" using wlax_finish(1)[OF idle(3)] s by (simp add: settled_def)
  then show ?thesis using assms(3,4) idle(1) by (simp add: wrel_def wlax_def)
next
  case (frame f w2 fl w3)
  show ?thesis
  proof (cases "wk_authenticated w2")
    case True
    then have "handled w w'" using iteration_authenticated[OF assms(1) _ assms(2)] frame(1) by (simp add: wrel_def)
    then show ?thesis using True frame(1) by (simp add: handled_def wrel_def)
  next
    case False
    have e: "w' = w3" using handle_frame_fatal(2)[OF frame(3) False] frame(5) by simp
    have "\<not> wk_session_active w2" using False assms(3) frame(1) by (simp add: wrel_def)
    then have "\<not> wk_session_active w3" using handle_frame_fatal(1)[OF frame(3) False]
      rest_active[of w3 w2] rest_active[of w3 "w2\<lparr>wk_authenticated := True\<rparr>"] by auto
    then show ?thesis using assms(4) e by simp
  qed
qed

lemma emitted_framed:
  assumes "emitted (msg_ok sid) w w'" "framed fits True (wk_sequence w) (sent_bytes w)"
  shows "framed fits True (wk_sequence w') (sent_bytes w')"
proof -
  obtain ms ns where "sent_bytes w = wire_stream 1 ns" "wk_sequence w = of_nat (length ns)" "list_all fits ns"
    "sent_bytes w' = sent_bytes w @ wire_stream (wk_sequence w + 1) ms"
    "wk_sequence w' = wk_sequence w + of_nat (length ms)" "list_all (msg_ok sid) ms"
    using assms unfolding framed_def emitted_def by blast
  moreover from this(6) have "list_all fits ms" by (rule list.pred_mono_strong) (simp add: msg_ok_def)
  ultimately show ?thesis
    unfolding framed_def by (intro impI exI[of _ "ns @ ms"]) (simp add: wire_stream_append ac_simps)
qed

lemma ack_fits:
  "vw_protocol_encode_payload (msg_code VW_MSG_HELLO_ACK) (Some (P_HELLO_ACK worker_ack)) 256 = Some ack \<Longrightarrow> fits (VW_MSG_HELLO_ACK, ack)"
  using encode_fits[of VW_MSG_HELLO_ACK "P_HELLO_ACK worker_ack" 256 ack] by (simp add: fits_def vw_limits)

lemma iteration_inv:
  assumes "winv w" "iteration w = (flow, w')"
  shows "winv w'"
proof -
  have s: "settled w" using assms(1) by (simp add: winv_def)
  have s': "settled w'" using iteration_settled[OF assms(2) s] .
  have a: "wk_session_active w' \<longrightarrow> wk_authenticated w'" using iteration_active[OF assms(2) s] assms(1) by (simp add: winv_def)
  show ?thesis
  proof (cases "wk_fatal_exit w'")
    case True
    then show ?thesis using s' a by (simp add: winv_def)
  next
    case False
    then have nf: "\<not> wk_fatal_exit w" using iteration_step[OF assms(2) s] by blast
    show ?thesis
    proof (cases "wk_authenticated w")
      case True
      have h: "handled w w'" using iteration_authenticated[OF assms(2) True s] .
      then obtain ms where "sent_bytes w' = sent_bytes w @ wire_stream (wk_sequence w + 1) ms"
        using False by (auto simp: handled_def wstep_def emitted_def)
      then have "greeted (sent_bytes w')" using assms(1) nf True unfolding winv_def greeted_def by auto
      then show ?thesis using s' a h True by (simp add: winv_def handled_def)
    next
      case unauth: False
      have "fresh w" "sent_bytes w = []" "wk_sequence w = 1" using assms(1) nf unauth by (simp_all add: winv_def)
      then show ?thesis
        using iteration_unauthenticated[OF assms(2) unauth _ False] s' a by (auto simp: winv_def greeted_def)
    qed
  qed
qed

lemma iteration_framed:
  assumes "winv w" "iteration w = (flow, w')" "framed fits (\<not> wk_fatal_exit w) (last_frame w) (sent_bytes w)"
  shows "framed fits (\<not> wk_fatal_exit w') (last_frame w') (sent_bytes w')"
proof (cases "wk_fatal_exit w'")
  case False
  have s: "settled w" using assms(1) by (simp add: winv_def)
  have nf: "\<not> wk_fatal_exit w" using iteration_step[OF assms(2) s] False by blast
  show ?thesis
  proof (cases "wk_authenticated w")
    case True
    have h: "handled w w'" using iteration_authenticated[OF assms(2) True s] .
    then show ?thesis
      using emitted_framed[of "Some (wk_session_id w')" w w'] assms(3) False nf True
      by (simp add: handled_def wstep_def last_frame_def)
  next
    case unauth: False
    have f: "fresh w" "sent_bytes w = []" "wk_sequence w = 1" using assms(1) nf unauth by (simp_all add: winv_def)
    have fr: "framed fits True 1 (frame_wire 1 (VW_MSG_HELLO_ACK, ack))"
      if "vw_protocol_encode_payload (msg_code VW_MSG_HELLO_ACK) (Some (P_HELLO_ACK worker_ack)) 256 = Some ack" for ack
      unfolding framed_def using ack_fits[OF that] by (intro impI exI[of _ "[(VW_MSG_HELLO_ACK, ack)]"]) simp
    show ?thesis
      using iteration_unauthenticated[OF assms(2) unauth f(1) False] f fr assms(3) False nf unauth by (auto simp: last_frame_def)
  qed
qed simp

interpretation worker_frames: frame_sender "\<lambda>(_ :: nat) w. snd (iteration w)" "\<lambda>_. True" winv
    "\<lambda>w. \<not> wk_fatal_exit w" last_frame sent_bytes fits
proof unfold_locales
  show "winv (snd (iteration s))" if "winv s" for s using iteration_inv[OF that prod.collapse[symmetric]] .
  show "framed fits (\<not> wk_fatal_exit (snd (iteration s))) (last_frame (snd (iteration s))) (sent_bytes (snd (iteration s)))"
    if "winv s" "framed fits (\<not> wk_fatal_exit s) (last_frame s) (sent_bytes s)" for s
    using iteration_framed[OF that(1) prod.collapse[symmetric] that(2)] .
qed

section \<open>The whole run\<close>

lemma main_loop_ends:
  "winv w \<Longrightarrow> \<exists>w' n. main_loop w = Some w' \<and> w' = fold (\<lambda>(_ :: nat) w. snd (iteration w)) (replicate n 0) w"
proof (induction "schedule_left w" arbitrary: w rule: less_induct)
  case less
  obtain flow w1 where i: "iteration w = (flow, w1)" by fastforce
  have s: "settled w" using less(2) by (simp add: winv_def)
  show ?case
  proof (cases "flow = Flow_Break")
    case True
    then have "main_loop w = Some w1 \<and> w1 = fold (\<lambda>(_ :: nat) w. snd (iteration w)) (replicate (Suc 0) 0) w"
      using i by (subst main_loop.simps) simp
    then show ?thesis by blast
  next
    case False
    have "schedule_left w1 < schedule_left w" using iteration_step[OF i s] False by blast
    then obtain w' n where r: "main_loop w1 = Some w'" "w' = fold (\<lambda>(_ :: nat) w. snd (iteration w)) (replicate n 0) w1"
      using less(1) iteration_inv[OF less(2) i] by blast
    have "main_loop w = Some w'" using i False r(1) by (subst main_loop.simps) simp
    moreover have "w' = fold (\<lambda>(_ :: nat) w. snd (iteration w)) (replicate (Suc n) 0) w"
      using r(2) i by simp
    ultimately show ?thesis by blast
  qed
qed

lemma worker_init_inv:
  assumes "vw_audio_buffer_create b1 b2 n = Some buf" "vw_segment_builder_create c1 c2 = Some builder"
  shows "winv (worker_init env config buf builder queue)"
    "framed fits (\<not> wk_fatal_exit (worker_init env config buf builder queue)) (last_frame (worker_init env config buf builder queue))
       (sent_bytes (worker_init env config buf builder queue))"
proof -
  have "ab_count buf = 0" "sb_count builder = 0"
    using assms by (auto simp: vw_audio_buffer_create_def vw_segment_builder_create_def split: if_splits)
  moreover have "case vw_translate_async_create k of None \<Rightarrow> True | Some a \<Rightarrow> ta_job_count a = 0 \<and> ta_result_count a = 0" for k
    by (simp add: vw_translate_async_create_def)
  ultimately show "winv (worker_init env config buf builder queue)"
    by (simp add: winv_def settled_def clean_def sid_ok_def fresh_def worker_init_def vw_segment_builder_pop_def)
  show "framed fits (\<not> wk_fatal_exit (worker_init env config buf builder queue)) (last_frame (worker_init env config buf builder queue))
       (sent_bytes (worker_init env config buf builder queue))"
    unfolding framed_def by (intro impI exI[of _ "[]"]) (simp add: worker_init_def last_frame_def)
qed

lemma join_reader_laws:
  "sent_bytes (join_reader b w) = sent_bytes w" "wk_authenticated (join_reader b w) = wk_authenticated w"
  "wk_fatal_exit w \<Longrightarrow> wk_fatal_exit (join_reader b w)"
proof -
  let ?w = "w\<lparr>wk_running := False\<rparr>"
  have r: "wrel None w (reader_fatal ?w)" "wrel None w (vw_worker_reader_main ?w)"
    using wrel_trans[OF wrel_assign(9) wrel_reader_fatal] wrel_trans[OF wrel_assign(9) wrel_reader_main] by blast+
  have s: "sent_bytes (reader_fatal ?w) = sent_bytes w" "sent_bytes (vw_worker_reader_main ?w) = sent_bytes w"
    using reader_only_fatal[of ?w] reader_only_main[of ?w] by (simp_all add: reader_only_def)
  show "sent_bytes (join_reader b w) = sent_bytes w" using s by (simp add: join_reader_def Let_def)
  show "wk_authenticated (join_reader b w) = wk_authenticated w" using r by (simp add: join_reader_def Let_def wrel_def)
  show "wk_fatal_exit (join_reader b w)" if "wk_fatal_exit w"
    using r that by (simp add: join_reader_def Let_def wrel_def wstep_def)
qed

lemma first_frame:
  assumes "wire_stream 1 ms = frame_wire 1 m @ r" "list_all fits ms" "fits m"
  obtains ms' where "ms = m # ms'"
proof (cases ms)
  case Nil
  then show thesis using assms(1) length_frame_wire[of 1 m] by (metis append_is_Nil_conv length_0_conv add_is_0 wire_stream.simps(1) zero_neq_numeral)
next
  case (Cons k ks)
  have f: "fits k" "frame_wire 1 k @ wire_stream (1 + 1) ks = frame_wire 1 m @ r" using assms Cons by simp_all
  have "frame_header (fst k) (length (snd k)) 1 = frame_header (fst m) (length (snd m)) 1"
    using decode_header_wire[OF f(1), of 1 "wire_stream (1 + 1) ks"] decode_header_wire[OF assms(3), of 1 r] f(2) by simp
  then have h: "fst k = fst m" "(of_nat (length (snd k)) :: u32) = of_nat (length (snd m))"
    by (auto simp: frame_header_def dest: arg_cong[of _ _ msg_type_of])
  have "length (snd k) = length (snd m)"
    using h(2) f(1) assms(3) unat_payload_length unfolding fits_def by metis
  then have "snd k = snd m" using f(2) h(1) by (simp add: frame_wire_def)
  then show thesis using that[of ks] Cons h(1) by (simp add: prod_eq_iff)
qed

text \<open>A run fails at once or is one of the main loop.\<close>

lemma run_cases:
  obtains (early) "vw_worker_run env config = Some (1, [])"
  | (loop) c buf builder queue b1 b2 n c1 c2 where "vw_audio_buffer_create b1 b2 n = Some buf" "vw_segment_builder_create c1 c2 = Some builder"
      "vw_worker_run env config = map_option (\<lambda>w. let w = join_reader (we_last_read_fails env) w in (exit_code w, sent_bytes w))
         (main_loop (worker_init env c buf builder queue))"
proof (cases "vw_worker_run env config = Some (1, [])")
  case False
  then obtain c buf builder queue where
    "config = Some c" "vw_audio_buffer_create (fst (we_buffer_alloc env)) (snd (we_buffer_alloc env)) VW_LOOKAHEAD_BUFFER_SAMPLES = Some buf"
    "vw_segment_builder_create (fst (we_builder_alloc env)) (snd (we_builder_alloc env)) = Some builder"
    "vw_worker_queue_create (fst (we_queue_alloc env)) (fst (snd (we_queue_alloc env)))
                    (snd (snd (we_queue_alloc env))) VW_WORKER_FRAME_QUEUE_CAPACITY = Some queue" "we_reader env" "we_listen env" "we_window_alloc env"
    by (auto simp: vw_worker_run_def split: option.splits if_splits)
  then show thesis
    by (intro loop[where c = c and queue = queue]) (auto simp: vw_worker_run_def Let_def split: option.split)
qed

text \<open>
  Property C8.  A run of the worker ends whatever the peer, the system and the other threads do,
  as long as the schedule of the other threads is finite: the main loop, with all the loops in
  it, is left after finitely many steps and the process returns an exit code, 0 or 1.
\<close>
theorem vw_worker_run_ends:
  "\<exists>code out. vw_worker_run env config = Some (code, out) \<and> (code = 0 \<or> code = 1)"
proof (cases rule: run_cases[of env config])
  case (loop c buf builder queue b1 b2 n c1 c2)
  obtain w where "main_loop (worker_init env c buf builder queue) = Some w"
    using main_loop_ends[OF worker_init_inv(1)[OF loop(1,2)]] by blast
  then show ?thesis using loop(3) by (simp add: Let_def exit_code_def)
qed simp

lemma main_loop_stream:
  assumes "winv w" "framed fits (\<not> wk_fatal_exit w) (last_frame w) (sent_bytes w)" "main_loop w = Some w'"
    "exit_code (join_reader b w') = 0"
  shows "\<exists>ack ms. parse_stream (sent_bytes w') = Some (numbered 1 ((VW_MSG_HELLO_ACK, ack) # ms))
     \<and> vw_protocol_encode_payload (msg_code VW_MSG_HELLO_ACK) (Some (P_HELLO_ACK worker_ack)) 256 = Some ack"
proof -
  obtain n where n: "w' = fold (\<lambda>(_ :: nat) w. snd (iteration w)) (replicate n 0) w" using main_loop_ends[OF assms(1)] assms(3) by auto
  have ok: "\<not> wk_fatal_exit w'" "wk_authenticated w'"
    using assms(4) join_reader_laws[where b = b and w = w'] by (auto simp: exit_code_def split: if_splits)
  have t: "list_all (\<lambda>_ :: nat. True) (replicate n 0)" by (simp add: list_all_length)
  have r: "winv w'" "framed fits True (last_frame w') (sent_bytes w')"
    using worker_frames.run_framed[OF assms(1) t assms(2)] ok n by simp_all
  obtain ms where ms: "sent_bytes w' = wire_stream 1 ms" "list_all fits ms" using r(2) by (auto simp: framed_def)
  have "greeted (sent_bytes w')" using r(1) ok by (simp add: winv_def)
  then obtain ack s where a: "vw_protocol_encode_payload (msg_code VW_MSG_HELLO_ACK) (Some (P_HELLO_ACK worker_ack)) 256 = Some ack"
    "wire_stream 1 ms = frame_wire 1 (VW_MSG_HELLO_ACK, ack) @ s" using ms(1) by (auto simp: greeted_def)
  obtain ms' where m: "ms = (VW_MSG_HELLO_ACK, ack) # ms'" using first_frame[OF a(2) ms(2) ack_fits[OF a(1)]] .
  then show ?thesis
    using parse_wire_stream[OF ms(2), of 1] ms(1) a(1) by metis
qed

text \<open>
  Property C7.  What the worker writes on the pipe: a run that ends with exit code 0 has written
  whole frames with consecutive sequence numbers, beginning with 1, and the first of
  them is HELLO\_ACK, whatever the peer sent and however the threads interleaved.
\<close>
theorem vw_worker_run_stream:
  assumes "vw_worker_run env config = Some (0, out)"
  shows "\<exists>ack ms. parse_stream out = Some (numbered 1 ((VW_MSG_HELLO_ACK, ack) # ms))
    \<and> vw_protocol_encode_payload (msg_code VW_MSG_HELLO_ACK) (Some (P_HELLO_ACK worker_ack)) 256 = Some ack"
proof (cases rule: run_cases[of env config])
  case (loop c buf builder queue b1 b2 n c1 c2)
  note i = worker_init_inv[OF loop(1,2), of env c queue]
  obtain w where w: "main_loop (worker_init env c buf builder queue) = Some w" using main_loop_ends[OF i(1)] by blast
  then have "exit_code (join_reader (we_last_read_fails env) w) = 0" "out = sent_bytes w"
    using loop(3) assms by (simp_all add: Let_def join_reader_laws(1))
  then show ?thesis using main_loop_stream[OF i w] by blast
qed (use assms in simp)

section \<open>Reachable states\<close>

text \<open>The states at the top of the main loop.\<close>

inductive reachable :: "worker_env \<Rightarrow> vw_worker_config \<Rightarrow> vw_worker \<Rightarrow> bool" for env config where
  started: "vw_audio_buffer_create b1 b2 VW_LOOKAHEAD_BUFFER_SAMPLES = Some buf \<Longrightarrow> vw_segment_builder_create c1 c2 = Some builder \<Longrightarrow>
     vw_worker_queue_create q1 q2 q3 VW_WORKER_FRAME_QUEUE_CAPACITY = Some queue \<Longrightarrow>
     reachable env config (worker_init env config buf builder queue)"
| iterated: "reachable env config w \<Longrightarrow> iteration w = (flow, w') \<Longrightarrow> flow \<noteq> Flow_Break \<Longrightarrow> reachable env config w'"

lemma reachable_inv: "reachable env config w \<Longrightarrow> winv w"
  by (induction rule: reachable.induct) (blast intro: worker_init_inv(1) iteration_inv)+

text \<open>
  Property C11.  In every state of the main loop, an active session belongs to an authenticated peer, and
  without a session the worker holds no audio and no cue: nothing of a session survives its
  end.
\<close>
theorem reachable_session:
  assumes "reachable env config w"
  shows "if wk_session_active w then wk_authenticated w
         else vw_audio_buffer_get_available (Some (wk_audio_buf w)) = 0 \<and> vw_segment_builder_pop (wk_builder w) = None"
  using reachable_inv[OF assms] by (auto simp: winv_def settled_def clean_def vw_audio_buffer_get_available_def vw_audio_buffer_get_count_def)

section \<open>Captions\<close>

text \<open>
  Property C10.  Captions never leak into another session: what an iteration of the main loop
  sends (live cues, the tail of a session, finished translations) are whole frames, and every caption
  among them carries the identifier of the session the iteration leaves, so after START of a new session
  none of the old one is sent.
\<close>
theorem iteration_captions:
  assumes "reachable env config w" "iteration w = (flow, w')" "\<not> wk_fatal_exit w'"
  shows "\<exists>ms. nt_sent (wk_net w') = nt_sent (wk_net w) @ wire_stream (last_frame w + 1) ms
     \<and> list_all (\<lambda>(t, body). if t = VW_MSG_CAPTION_SEGMENT then take VW_SESSION_ID_BYTES body = wk_session_id w' else True) ms"
proof -
  have i: "winv w" "settled w" "\<not> wk_fatal_exit w"
    using reachable_inv[OF assms(1)] iteration_step[OF assms(2)] assms(3) by (auto simp: winv_def)
  have cap: "list_all (\<lambda>(t, body). if t = VW_MSG_CAPTION_SEGMENT then take VW_SESSION_ID_BYTES body = wk_session_id w' else True) ms"
    if "list_all (msg_ok (Some (wk_session_id w'))) ms" for ms
    using that by (rule list.pred_mono_strong) (auto simp: msg_ok_def caption_of_def)
  show ?thesis
  proof (cases "wk_authenticated w")
    case True
    have "emitted (msg_ok (Some (wk_session_id w'))) w w'"
      using iteration_authenticated[OF assms(2) True i(2)] assms(3) by (simp add: handled_def wstep_def)
    then show ?thesis using True cap unfolding emitted_def last_frame_def by (simp only: if_True) blast
  next
    case False
    have "fresh w" using i False by (simp add: winv_def)
    then consider "sent_bytes w' = sent_bytes w" | ack where "sent_bytes w' = sent_bytes w @ frame_wire 1 (VW_MSG_HELLO_ACK, ack)"
      using iteration_unauthenticated[OF assms(2) False _ assms(3)] by blast
    then show ?thesis
    proof cases
      case 1
      then show ?thesis by (intro exI[of _ "[]"]) simp
    next
      case (2 ack)
      then show ?thesis using False by (intro exI[of _ "[(VW_MSG_HELLO_ACK, ack)]"]) (simp add: last_frame_def)
    qed
  qed
qed

section \<open>Authentication\<close>

lemma or_fold_zero:
  "fold (\<lambda>i diff. diff OR f i) is (d :: u8) = 0 \<longleftrightarrow> d = 0 \<and> (\<forall>i\<in>set is. f i = 0)"
  by (induction "is" arbitrary: d) (auto simp: or_eq_0_iff)

lemma verify_token_iff:
  assumes "length a = VW_AUTH_TOKEN_BYTES" "length b = VW_AUTH_TOKEN_BYTES"
  shows "verify_token_constant_time a b \<longleftrightarrow> a = b"
proof -
  have "x = y" if "x XOR y = 0" for x y :: u8
  proof -
    have "x XOR (x XOR y) = y" by (simp add: xor.assoc[symmetric])
    with that show ?thesis by simp
  qed
  then have "(a ! i XOR b ! i = 0) = (a ! i = b ! i)" for i by auto
  then show ?thesis using assms by (auto simp: verify_token_constant_time_def or_fold_zero list_eq_iff_nth_eq)
qed

lemma decoded_hello:
  assumes "vw_protocol_decode_payload t b = Some (Some (P_HELLO hello))"
  shows "length (he_auth_token hello) = VW_AUTH_TOKEN_BYTES"
proof -
  obtain m where m: "msg_type_of t = Some m" using assms by (auto simp: vw_protocol_decode_payload_def split: option.splits)
  have "\<exists>r. decode_hello b = Some (hello, r)"
    using assms m by (cases m) (auto simp: vw_protocol_decode_payload_def finish_def split: option.splits if_splits)
  then show ?thesis using decode_struct_wf(1) by force
qed

lemma handle_frame_break:
  assumes "handle_frame f w = (flow, w')" "\<not> wk_authenticated w" "wk_fatal_exit w'" "\<not> wk_fatal_exit w"
  shows "flow = Flow_Break"
  using assms send_both_flags(1)[of _ _ "w\<lparr>wk_authenticated := True\<rparr>"]
  by (auto simp: handle_frame_def on_hello_def Let_def split: if_splits option.splits vw_payload.splits prod.splits) (metis snd_conv)+

text \<open>
  Property C9.  Authentication: while the peer is not authenticated, a frame
  either makes the worker give up, with no session begun, or it is a HELLO that carries the worker's token
  (all of its bytes) and a range of major versions with the worker's in it; then the
  worker answers HELLO\_ACK with sequence number 1 and is authenticated.
\<close>
theorem handle_frame_authentication:
  assumes "\<not> wk_authenticated w" "\<not> wk_fatal_exit w" "handle_frame f w = (flow, w')"
    "length (wc_auth_token (wk_config w)) = VW_AUTH_TOKEN_BYTES"
  shows "wk_session_active w' = wk_session_active w
    \<and> (flow = Flow_Break \<and> wk_fatal_exit w'
       \<or> flow = Flow_Continue \<and> wk_authenticated w'
         \<and> (\<exists>hello b ack. wf_type f = msg_code VW_MSG_HELLO \<and> wf_payload f = Some b
              \<and> vw_protocol_decode_payload (wf_type f) (take (unat (wf_payload_len f)) b) = Some (Some (P_HELLO hello))
              \<and> he_auth_token hello = wc_auth_token (wk_config w)
              \<and> he_min_major hello \<le> VW_PROTOCOL_VERSION_MAJOR \<and> VW_PROTOCOL_VERSION_MAJOR \<le> he_max_major hello
              \<and> nt_sent (wk_net w') = nt_sent (wk_net w) @ frame_wire 1 (VW_MSG_HELLO_ACK, ack)))"
proof -
  have s: "wk_session_active w' = wk_session_active w"
    using handle_frame_fatal(1)[OF assms(3,1)] rest_active[of w' w] rest_active[of w' "w\<lparr>wk_authenticated := True\<rparr>"] by auto
  show ?thesis
  proof (cases "wk_fatal_exit w'")
    case True
    then show ?thesis using s handle_frame_break[OF assms(3,1) True assms(2)] by blast
  next
    case False
    obtain hello b where h: "on_hello hello w = (flow, w')" "wf_type f = msg_code VW_MSG_HELLO" "wf_payload f = Some b"
      "vw_protocol_decode_payload (wf_type f) (take (unat (wf_payload_len f)) b) = Some (Some (P_HELLO hello))"
      using handle_frame_unauthenticated[OF assms(3,1) False] .
    note c = on_hello_continue[OF h(1) False]
    have "he_auth_token hello = wc_auth_token (wk_config w)"
      using c verify_token_iff[OF assms(4) decoded_hello[OF h(4)]] by simp
    moreover have "wk_authenticated w'" using c rest_fields(8)[of w' "w\<lparr>wk_authenticated := True\<rparr>"] by simp
    ultimately show ?thesis using c h s by blast
  qed
qed

section \<open>A sample run\<close>

definition demo_config :: vw_worker_config where
  "demo_config = \<lparr>wc_model_path = [], wc_model_dir = [], wc_vad_model_path = [], wc_language = [], wc_n_threads = 4,
     wc_sample_rate = 16000, wc_pipe_name = ascii ''p'', wc_log_file = [], wc_logging_enabled = False,
     wc_auth_token = replicate 32 1, wc_backend = VW_WORKER_BACKEND_CPU, wc_gpu_device = 0\<rparr>"

definition demo_hello :: bytes where
  "demo_hello = [1, 0, 1, 0] @ replicate 32 1 @ [0, 0]"

definition demo_net :: ipc_net where
  "demo_net = \<lparr>nt_clock = [], nt_recv = [Recv_Bytes 20, Recv_Bytes 38, Recv_Bytes 20], nt_send = [Send_Ok, Send_Ok], nt_mem = [True],
     nt_random = [], nt_in = frame_wire 1 (VW_MSG_HELLO, demo_hello) @ frame_wire 2 (VW_MSG_SHUTDOWN, []), nt_sent = [], nt_events = []\<rparr>"

definition demo_env :: worker_env where
  "demo_env = \<lparr>we_system = \<lparr>ws_can_open = (\<lambda>_. False), ws_exe = None, ws_xdg_data_home = None, ws_home = None, ws_lang_id = (\<lambda>_. 0)\<rparr>,
     we_force_cpu = None, we_listen = True, we_window_alloc = True,
     we_engine = (\<lambda>_. \<lparr>ee_context = False, ee_devices = [], ee_engine_alloc = True, ee_text_alloc = True, ee_warmup_segments = []\<rparr>),
     we_vad = (\<lambda>_. None), we_mkdir = (\<lambda>_. True), we_buffer_alloc = (True, True), we_builder_alloc = (True, True),
     we_queue_alloc = (True, True, True), we_translator = False, we_reader = True, we_discard_alloc = True,
     we_last_read_fails = False, we_net = demo_net, we_tapes = zero_tapes\<lparr>tp_schedule := [[Bg_Reader], [], [Bg_Reader], [], []]\<rparr>\<rparr>"

definition demo_buffer :: vw_audio_buffer where
  "demo_buffer = the (vw_audio_buffer_create True True VW_LOOKAHEAD_BUFFER_SAMPLES)"

definition demo_builder :: vw_segment_builder where
  "demo_builder = the (vw_segment_builder_create True True)"

definition demo_queue :: vw_worker_queue where
  "demo_queue = the (vw_worker_queue_create True True True VW_WORKER_FRAME_QUEUE_CAPACITY)"

definition demo_worker :: vw_worker where
  "demo_worker = worker_init demo_env demo_config demo_buffer demo_builder demo_queue"

lemma demo_created:
  "vw_audio_buffer_create True True VW_LOOKAHEAD_BUFFER_SAMPLES = Some demo_buffer"
  "vw_segment_builder_create True True = Some demo_builder"
  "vw_worker_queue_create True True True VW_WORKER_FRAME_QUEUE_CAPACITY = Some demo_queue"
  by (simp_all add: demo_buffer_def demo_builder_def demo_queue_def vw_audio_buffer_create_def vw_segment_builder_create_def
      vw_worker_queue_create_def worker_limits)

lemma demo_reachable: "reachable demo_env demo_config demo_worker"
  unfolding demo_worker_def by (rule started[OF demo_created])

text \<open>The first frame is the greeting.\<close>

lemma reader_read_ready:
  assumes "nt_recv n = Recv_Bytes k # es" "nt_in n = bs @ r" "length bs = k" "0 < k"
  shows "reader_read k [] n = (Some bs, n\<lparr>nt_recv := es, nt_in := r\<rparr>)"
proof -
  have "vw_ipc_receive k n = (Got bs, n\<lparr>nt_recv := es, nt_in := r\<rparr>)"
    using assms by (auto simp: vw_ipc_receive_def Let_def)
  then show ?thesis
    using assms(3,4) by (subst reader_read.simps) (auto simp: reader_read.simps)
qed

definition demo_frame :: vw_worker_frame where
  "demo_frame = \<lparr>wf_type = msg_code VW_MSG_HELLO, wf_payload_len = 38, wf_payload = Some demo_hello\<rparr>"

definition demo_read :: vw_worker where
  "demo_read = demo_worker\<lparr>wk_tapes := zero_tapes\<lparr>tp_schedule := [[], [Bg_Reader], [], []]\<rparr>,
     wk_net := demo_net\<lparr>nt_recv := [Recv_Bytes 20], nt_in := frame_wire 2 (VW_MSG_SHUTDOWN, []), nt_mem := []\<rparr>,
     wk_reader := \<lparr>rd_alive = True, rd_seq_valid = True, rd_last_sequence = 1\<rparr>,
     wk_queue := snd (worker_push demo_queue demo_frame)\<rparr>"

lemma demo_hello_length: "length demo_hello = 38"
  by (simp add: demo_hello_def)

lemma demo_header:
  "vw_protocol_decode_header (header_image (frame_header VW_MSG_HELLO 38 1)) = Some (frame_header VW_MSG_HELLO 38 1)"
  "vw_protocol_validate_header (Some (frame_header VW_MSG_HELLO 38 1))"
  using decode_header_wire[of "(VW_MSG_HELLO, demo_hello)" 1 "[]"] frame_header_valid[of 38 VW_MSG_HELLO 1]
  by (auto simp: vw_protocol_decode_header_def frame_header_valid header_of_header_image vw_limits)

lemma demo_sched: "sched demo_worker = demo_read"
proof -
  let ?h = "frame_header VW_MSG_HELLO 38 1"
  have r1: "reader_read 20 [] n = (Some (header_image ?h), n\<lparr>nt_recv := [Recv_Bytes 38, Recv_Bytes 20],
      nt_in := demo_hello @ frame_wire 2 (VW_MSG_SHUTDOWN, [])\<rparr>)"
    if "nt_recv n = [Recv_Bytes 20, Recv_Bytes 38, Recv_Bytes 20]"
      "nt_in n = frame_wire 1 (VW_MSG_HELLO, demo_hello) @ frame_wire 2 (VW_MSG_SHUTDOWN, [])" for n
    by (rule reader_read_ready) (use that in \<open>simp_all add: frame_wire_def demo_hello_length\<close>)
  have r2: "reader_read 38 [] n = (Some demo_hello, n\<lparr>nt_recv := [Recv_Bytes 20], nt_in := frame_wire 2 (VW_MSG_SHUTDOWN, [])\<rparr>)"
    if "nt_recv n = [Recv_Bytes 38, Recv_Bytes 20]" "nt_in n = demo_hello @ frame_wire 2 (VW_MSG_SHUTDOWN, [])" for n
    by (rule reader_read_ready) (use that in \<open>simp_all add: demo_hello_length\<close>)
  have l: "unat (fh_payload_length ?h) = 38" "0 < fh_payload_length ?h" "fh_type ?h = msg_code VW_MSG_HELLO" "fh_sequence ?h = 1"
    "fh_payload_length ?h = 38"
    by (simp_all add: frame_header_def)
  show ?thesis
    by (simp add: sched_def demo_worker_def worker_init_def demo_env_def zero_tapes_def vw_worker_reader_main_def reader_frame_def
        wk_io_def demo_net_def r1 demo_header reader_accept_def l take_mem_def r2 queue_push_def vw_worker_queue_push_def
        demo_read_def demo_frame_def split: prod.split)
qed

lemma demo_pop: "\<exists>q. worker_pop (wk_queue demo_read) = Some (demo_frame, q)"
  by (simp add: demo_read_def demo_queue_def vw_worker_queue_create_def worker_push_def Let_def put_frame_def worker_pop_def
      worker_limits)

definition demo_queued :: vw_worker where
  "demo_queued = demo_read\<lparr>wk_queue := snd (the (worker_pop (wk_queue demo_read)))\<rparr>"

lemma demo_flags:
  "wk_running demo_worker" "\<not> wk_fatal_exit demo_worker" "\<not> wk_authenticated demo_worker" "wk_config demo_worker = demo_config"
  "wk_diag_registered demo_worker = False" "wk_sequence demo_worker = 1" "\<not> wk_session_active demo_worker"
  by (simp_all add: demo_worker_def worker_init_def demo_env_def)

lemma demo_wait: "wait_frame demo_worker = (Some (Some demo_frame), demo_queued)"
proof -
  have "wk_running demo_read" by (simp add: demo_read_def demo_flags)
  then show ?thesis
    using demo_pop by (subst wait_frame.simps) (auto simp: Let_def demo_sched demo_queued_def)
qed

definition demo_ready :: vw_worker where
  "demo_ready = demo_queued\<lparr>wk_tapes := zero_tapes\<lparr>tp_schedule := [[Bg_Reader], [], []]\<rparr>\<rparr>"

lemma demo_sched2: "sched demo_queued = demo_ready"
  by (simp add: sched_def demo_queued_def demo_read_def demo_ready_def zero_tapes_def)

definition demo_greeting :: vw_msg_hello where
  "demo_greeting = \<lparr>he_min_major = 1, he_max_major = 1, he_auth_token = replicate 32 1, he_client_version_length = 0,
     he_client_version = Some []\<rparr>"

lemma demo_decode:
  "vw_protocol_decode_payload (msg_code VW_MSG_HELLO) demo_hello = Some (Some (P_HELLO demo_greeting))"
  "vw_protocol_validate_payload (msg_code VW_MSG_HELLO) (Some (P_HELLO demo_greeting))"
  by code_simp+

lemma demo_ack:
  obtains ack where "vw_protocol_encode_payload (msg_code VW_MSG_HELLO_ACK) (Some (P_HELLO_ACK worker_ack)) 256 = Some ack"
    "vw_protocol_encode_header (Some (frame_header VW_MSG_HELLO_ACK (length ack) 1)) 20 = Some (header_image (frame_header VW_MSG_HELLO_ACK (length ack) 1))"
proof -
  obtain ack where a: "vw_protocol_encode_payload (msg_code VW_MSG_HELLO_ACK) (Some (P_HELLO_ACK worker_ack)) 256 = Some ack"
    by (cases "vw_protocol_encode_payload (msg_code VW_MSG_HELLO_ACK) (Some (P_HELLO_ACK worker_ack)) 256") (code_simp, blast)
  have "length ack \<le> VW_MAX_PAYLOAD_BYTES" using ack_fits[OF a] by (simp add: fits_def)
  then show thesis using that[OF a] by (simp add: vw_protocol_encode_header_def frame_header_valid)
qed

text \<open>The state after the greeting has been answered.\<close>

definition demo_greeted :: "bytes \<Rightarrow> vw_worker" where
  "demo_greeted ack = demo_ready\<lparr>wk_authenticated := True, wk_net := (wk_net demo_ready)\<lparr>nt_send := [],
     nt_sent := frame_wire 1 (VW_MSG_HELLO_ACK, ack)\<rparr>\<rparr>"

lemma demo_frame_handled:
  "\<exists>ack. handle_frame demo_frame demo_ready = (Flow_Continue, demo_greeted ack)"
proof -
  obtain ack where a: "vw_protocol_encode_payload (msg_code VW_MSG_HELLO_ACK) (Some (P_HELLO_ACK worker_ack)) 256 = Some ack"
    "vw_protocol_encode_header (Some (frame_header VW_MSG_HELLO_ACK (length ack) 1)) 20 = Some (header_image (frame_header VW_MSG_HELLO_ACK (length ack) 1))"
    by (rule demo_ack)
  have v: "verify_token_constant_time (wc_auth_token demo_config) (he_auth_token demo_greeting)"
    using verify_token_iff[of "wc_auth_token demo_config" "he_auth_token demo_greeting"]
    by (simp add: demo_config_def demo_greeting_def vw_limits)
  have f: "wk_config demo_ready = demo_config" "\<not> wk_authenticated demo_ready" "\<not> wk_fatal_exit demo_ready"
    "wk_diag_registered demo_ready = False" "nt_send (wk_net demo_ready) = [Send_Ok, Send_Ok]" "nt_sent (wk_net demo_ready) = []"
    by (simp_all add: demo_ready_def demo_queued_def demo_read_def demo_flags demo_net_def)
  have m: "he_min_major demo_greeting = 1" "he_max_major demo_greeting = 1" "VW_PROTOCOL_VERSION_MAJOR = 1"
    by (simp_all add: demo_greeting_def VW_PROTOCOL_VERSION_MAJOR_def)
  have "on_hello demo_greeting demo_ready = (Flow_Continue, demo_greeted ack)"
    using a v f m by (simp add: on_hello_def Let_def send_both_def guarded_ipc_send_def wk_io_def vw_ipc_send_def demo_greeted_def frame_wire_def)
  then show ?thesis
    using demo_decode f demo_hello_length by (intro exI[of _ ack]) (simp add: handle_frame_def demo_frame_def Let_def)
qed

lemma demo_iteration: "\<exists>ack. iteration demo_worker = (Flow_Continue, demo_greeted ack)"
proof -
  have "wk_running demo_ready" by (simp add: demo_ready_def demo_queued_def demo_read_def demo_flags)
  then show ?thesis
    using demo_frame_handled by (auto simp: iteration_def demo_wait demo_sched2 Let_def)
qed

lemma demo_greeted_flags: "\<not> wk_fatal_exit (demo_greeted ack)"
  by (simp add: demo_greeted_def demo_ready_def demo_queued_def demo_read_def demo_flags)

theorem reachable_session_witness:
  "reachable demo_env demo_config demo_worker \<and> vw_audio_buffer_get_available (Some (wk_audio_buf demo_worker)) = 0
   \<and> vw_segment_builder_pop (wk_builder demo_worker) = None"
  using reachable_session[OF demo_reachable] demo_reachable demo_flags(7) by simp

theorem iteration_captions_witness:
  "\<exists>w. iteration demo_worker = (Flow_Continue, w)
     \<and> (\<exists>ms. nt_sent (wk_net w) = nt_sent (wk_net demo_worker) @ wire_stream (last_frame demo_worker + 1) ms)"
proof -
  obtain w where w: "iteration demo_worker = (Flow_Continue, w)" "\<not> wk_fatal_exit w" using demo_iteration demo_greeted_flags by blast
  show ?thesis using iteration_captions[OF demo_reachable w] w(1) by blast
qed

theorem handle_frame_authentication_witness:
  "\<exists>w ack. handle_frame demo_frame demo_ready = (Flow_Continue, w) \<and> wk_authenticated w
     \<and> nt_sent (wk_net w) = nt_sent (wk_net demo_ready) @ frame_wire 1 (VW_MSG_HELLO_ACK, ack)"
proof -
  obtain w where w: "handle_frame demo_frame demo_ready = (Flow_Continue, w)" using demo_frame_handled by blast
  have f: "wk_config demo_ready = demo_config" "\<not> wk_authenticated demo_ready" "\<not> wk_fatal_exit demo_ready"
    by (simp_all add: demo_ready_def demo_queued_def demo_read_def demo_flags)
  have "length (wc_auth_token (wk_config demo_ready)) = VW_AUTH_TOKEN_BYTES" by (simp add: f demo_config_def vw_limits)
  from handle_frame_authentication[OF f(2,3) w this] w show ?thesis by auto
qed

text \<open>The second frame is SHUTDOWN.\<close>

definition demo_bye :: vw_worker_frame where
  "demo_bye = \<lparr>wf_type = msg_code VW_MSG_SHUTDOWN, wf_payload_len = 0, wf_payload = None\<rparr>"

definition demo_asked :: "bytes \<Rightarrow> vw_worker" where
  "demo_asked ack = (demo_greeted ack)\<lparr>wk_tapes := zero_tapes\<lparr>tp_schedule := [[], []]\<rparr>,
     wk_net := (wk_net (demo_greeted ack))\<lparr>nt_recv := [], nt_in := []\<rparr>,
     wk_reader := \<lparr>rd_alive = True, rd_seq_valid = True, rd_last_sequence = 2\<rparr>,
     wk_queue := snd (worker_push (wk_queue (demo_greeted ack)) demo_bye)\<rparr>"

lemma demo_greeted_fields:
  "wk_running (demo_greeted ack)" "wk_authenticated (demo_greeted ack)" "\<not> wk_session_active (demo_greeted ack)"
  "wk_tapes (demo_greeted ack) = zero_tapes\<lparr>tp_schedule := [[Bg_Reader], [], []]\<rparr>"
  "wk_reader (demo_greeted ack) = \<lparr>rd_alive = True, rd_seq_valid = True, rd_last_sequence = 1\<rparr>"
  "nt_recv (wk_net (demo_greeted ack)) = [Recv_Bytes 20]" "nt_in (wk_net (demo_greeted ack)) = frame_wire 2 (VW_MSG_SHUTDOWN, [])"
  "nt_sent (wk_net (demo_greeted ack)) = frame_wire 1 (VW_MSG_HELLO_ACK, ack)"
  "wk_translator (demo_greeted ack) = None" "\<not> wk_model_dl (demo_greeted ack)" "\<not> wk_source_decoder (demo_greeted ack)"
  "\<not> wk_diag_registered (demo_greeted ack)"
  "wk_builder (demo_greeted ack) = demo_builder"
  by (simp_all add: demo_greeted_def demo_ready_def demo_queued_def demo_read_def demo_flags demo_net_def
      demo_worker_def worker_init_def demo_env_def vw_translate_async_create_def)

lemma demo_bye_header:
  "vw_protocol_decode_header (header_image (frame_header VW_MSG_SHUTDOWN 0 2)) = Some (frame_header VW_MSG_SHUTDOWN 0 2)"
  "vw_protocol_validate_header (Some (frame_header VW_MSG_SHUTDOWN 0 2))"
  by (simp_all add: vw_protocol_decode_header_def frame_header_valid header_of_header_image vw_limits)

lemma demo_sched3: "sched (demo_greeted ack) = demo_asked ack"
proof -
  let ?h = "frame_header VW_MSG_SHUTDOWN 0 2"
  have r1: "reader_read 20 [] n = (Some (header_image ?h), n\<lparr>nt_recv := [], nt_in := []\<rparr>)"
    if "nt_recv n = [Recv_Bytes 20]" "nt_in n = frame_wire 2 (VW_MSG_SHUTDOWN, [])" for n
    by (rule reader_read_ready) (use that in \<open>simp_all add: frame_wire_def\<close>)
  have l: "fh_payload_length ?h = 0" "fh_type ?h = msg_code VW_MSG_SHUTDOWN" "fh_sequence ?h = 2" "\<not> (2 :: u64) \<le> 1"
    by (simp_all add: frame_header_def word_le_nat_alt)
  show ?thesis
    by (simp add: sched_def demo_greeted_fields zero_tapes_def vw_worker_reader_main_def reader_frame_def
        wk_io_def r1 demo_bye_header reader_accept_def l queue_push_def vw_worker_queue_push_def
        demo_asked_def demo_bye_def split: prod.split)
qed

lemma demo_bye_queue:
  "\<exists>q. worker_pop (wk_queue (demo_asked ack)) = Some (demo_bye, q)"
proof -
  obtain q where q: "wk_queue (demo_greeted ack) = q" "wq_head q = 1" "wq_tail q = 1" "wq_capacity q = 512" "length (wq_slots q) = 512"
    by (simp add: demo_greeted_def demo_ready_def demo_queued_def demo_read_def demo_queue_def vw_worker_queue_create_def worker_push_def
        Let_def put_frame_def worker_pop_def worker_limits)
  then show ?thesis
    by (simp add: demo_asked_def worker_push_def Let_def put_frame_def worker_pop_def)
qed

definition demo_last :: "bytes \<Rightarrow> vw_worker" where
  "demo_last ack = (demo_asked ack)\<lparr>wk_queue := snd (the (worker_pop (wk_queue (demo_asked ack)))),
     wk_tapes := zero_tapes\<lparr>tp_schedule := [[]]\<rparr>, wk_running := False\<rparr>"

lemma demo_asked_fields:
  "wk_running (demo_asked ack)" "wk_authenticated (demo_asked ack)" "\<not> wk_session_active (demo_asked ack)"
  "wk_translator (demo_asked ack) = None" "\<not> wk_model_dl (demo_asked ack)" "\<not> wk_source_decoder (demo_asked ack)"
  "vw_segment_builder_pop (wk_builder (demo_asked ack)) = None"
  by (simp_all add: demo_asked_def demo_greeted_fields demo_builder_def vw_segment_builder_create_def vw_segment_builder_pop_def)

lemma demo_wait2:
  "wait_frame (demo_greeted ack) = (Some (Some demo_bye), (demo_asked ack)\<lparr>wk_queue := snd (the (worker_pop (wk_queue (demo_asked ack))))\<rparr>)"
  using demo_bye_queue[of ack] demo_asked_fields(1)[of ack] by (subst wait_frame.simps) (auto simp: Let_def demo_sched3)

lemma demo_iteration2: "iteration (demo_greeted ack) = (Flow_Next, demo_last ack)"
proof -
  let ?w = "(demo_asked ack)\<lparr>wk_queue := snd (the (worker_pop (wk_queue (demo_asked ack))))\<rparr>"
  let ?v = "?w\<lparr>wk_tapes := zero_tapes\<lparr>tp_schedule := [[]]\<rparr>\<rparr>"
  have s: "sched ?w = ?v" by (simp add: sched_def demo_asked_def zero_tapes_def)
  have h: "handle_frame demo_bye ?v = (Flow_Next, demo_last ack)"
    by (simp add: handle_frame_def demo_bye_def Let_def demo_asked_fields dispatch_def on_shutdown_def demo_last_def)
  have f: "finish_iteration (demo_last ack) = (Flow_Next, demo_last ack)"
    by (simp add: finish_iteration_def deliver_translations_def poll_download_def look_ahead_def lookahead_due_def
        emit_segments.simps demo_last_def demo_asked_fields)
  show ?thesis by (simp add: iteration_def demo_wait2 s h f Let_def demo_asked_fields)
qed

lemma demo_iteration3: "iteration (demo_last ack) = (Flow_Break, (demo_last ack)\<lparr>wk_tapes := zero_tapes\<rparr>)"
  by (simp add: iteration_def wait_frame.simps Let_def sched_def demo_last_def zero_tapes_def)

lemma demo_run: "\<exists>ack. vw_worker_run demo_env (Some demo_config) = Some (0, frame_wire 1 (VW_MSG_HELLO_ACK, ack))"
proof -
  obtain ack where i: "iteration demo_worker = (Flow_Continue, demo_greeted ack)" using demo_iteration by blast
  let ?w = "(demo_last ack)\<lparr>wk_tapes := zero_tapes\<rparr>"
  have m: "main_loop demo_worker = Some ?w"
    by (simp add: main_loop.simps i demo_iteration2 demo_iteration3)
  have "exit_code (join_reader False ?w) = 0 \<and> sent_bytes (join_reader False ?w) = frame_wire 1 (VW_MSG_HELLO_ACK, ack)"
    by (simp add: join_reader_def Let_def vw_worker_reader_main_def exit_code_def demo_last_def demo_asked_def demo_greeted_fields
        demo_greeted_flags)
  moreover have "vw_worker_run demo_env (Some demo_config) = map_option (\<lambda>w. let w = join_reader False w in (exit_code w, sent_bytes w)) (main_loop demo_worker)"
    using demo_created by (simp add: vw_worker_run_def demo_worker_def Let_def demo_env_def split: option.split)
  ultimately have "vw_worker_run demo_env (Some demo_config) = Some (0, frame_wire 1 (VW_MSG_HELLO_ACK, ack))" using m by (simp add: Let_def)
  then show ?thesis by blast
qed

theorem vw_worker_run_stream_witness:
  "\<exists>out ack ms. vw_worker_run demo_env (Some demo_config) = Some (0, out)
     \<and> parse_stream out = Some (numbered 1 ((VW_MSG_HELLO_ACK, ack) # ms))"
proof -
  obtain out where r: "vw_worker_run demo_env (Some demo_config) = Some (0, out)" using demo_run by blast
  show ?thesis using vw_worker_run_stream[OF r] r by blast
qed

end
