(* ===== verification/VW_Plugin_Paths.thy ===== *)
theory VW_Plugin_Paths
  imports VW_Worker_Config VW_Model_Catalog
begin

unbundle bit_operations_syntax

text \<open>
  \<^verbatim>\<open>plugin/src/vw_whisper_module.c\<close>, first part: where the plugin looks for the worker and for the
  models.  The system's answers are the loader's name of the plugin, the name of the
  executable, two environment variables and the files that exist.
\<close>

record plugin_system =
  sy_dli_fname :: "bytes option"
  sy_exe :: "bytes option"
  sy_xdg_data_home :: "bytes option"
  sy_home :: "bytes option"
  sy_exists :: "bytes \<Rightarrow> bool"

section \<open>Names\<close>

definition vw_plugin_get_model_dir :: "plugin_system \<Rightarrow> nat \<Rightarrow> bytes option" where
  "vw_plugin_get_model_dir sy out_size =
     (if out_size = 0 then None
      else let tmp = snprintf_cut 4096
        (case sy_xdg_data_home sy of
           Some (c # xdg) \<Rightarrow> (c # xdg) @ ascii ''/vlc-whisper/models''
         | _ \<Rightarrow> (case sy_home sy of
               Some (c # h) \<Rightarrow> (c # h) @ ascii ''/.local/share/vlc-whisper/models''
             | _ \<Rightarrow> ascii ''/tmp/vlc-whisper/models''))
      in Some (snprintf_cut out_size tmp))"

definition kMap :: "(bytes \<times> bytes) list" where
  "kMap = [(ascii ''tiny.en'', ascii ''ggml-tiny.en.bin''), (ascii ''tiny'', ascii ''ggml-tiny.bin''),
     (ascii ''base.en'', ascii ''ggml-base.en.bin''), (ascii ''base'', ascii ''ggml-base.bin''),
     (ascii ''small'', ascii ''ggml-small.bin''), (ascii ''medium'', ascii ''ggml-medium.bin''),
     (ascii ''large'', ascii ''ggml-large-v3.bin'')]"

definition vw_plugin_catalog_filename :: "bytes option \<Rightarrow> bytes option" where
  "vw_plugin_catalog_filename i =
     (case i of None \<Rightarrow> None | Some s \<Rightarrow> map_option snd (List.find (\<lambda>e. fst e = s) kMap))"

definition vw_plugin_catalog_id_from_path :: "bytes \<Rightarrow> bytes" where
  "vw_plugin_catalog_id_from_path path =
     (if path = [] then ascii ''tiny''
      else let base = (case last_separator path of None \<Rightarrow> path | Some i \<Rightarrow> drop (i + 1) path)
           in case List.find (\<lambda>e. base = snd e) kMap of Some e \<Rightarrow> fst e | None \<Rightarrow> ascii ''tiny'')"

section \<open>Searching\<close>

definition dir_of :: "bytes \<Rightarrow> bytes" where
  "dir_of path = (case last_separator path of None \<Rightarrow> [] | Some i \<Rightarrow> take i path)"

fun probe_names :: "(bytes \<Rightarrow> bool) \<Rightarrow> bytes \<Rightarrow> bytes list \<Rightarrow> nat \<Rightarrow> bytes option" where
  "probe_names exists dir [] out_size = None"
| "probe_names exists dir (name # names) out_size =
     (if length dir + 1 + length name + 1 > out_size then probe_names exists dir names out_size
      else if exists (dir @ [0x2F] @ name) then Some (dir @ [0x2F] @ name)
      else probe_names exists dir names out_size)"

fun probe_up :: "(bytes \<Rightarrow> bool) \<Rightarrow> bytes \<Rightarrow> nat list \<Rightarrow> bytes list \<Rightarrow> nat \<Rightarrow> bytes option" where
  "probe_up exists dir [] names out_size = None"
| "probe_up exists dir (up # ups) names out_size =
     (let anc = (dir_of ^^ up) dir in
      if anc = [] then probe_up exists dir ups names out_size
      else case probe_names exists anc names out_size of
          Some p \<Rightarrow> Some p
        | None \<Rightarrow> probe_up exists dir ups names out_size)"

definition vw_plugin_probe_ancestors :: "(bytes \<Rightarrow> bool) \<Rightarrow> bytes \<Rightarrow> nat \<Rightarrow> bytes list \<Rightarrow> nat \<Rightarrow> bytes option" where
  "vw_plugin_probe_ancestors exists file_path max_up names out_size =
     (if file_path = [] then None
      else if dir_of file_path = [] then None
      else probe_up exists (dir_of file_path) [0..<max_up + 1] names out_size)"

text \<open>The plugin's directory and four ancestors, then the directory of the executable.\<close>

definition probe_installed :: "plugin_system \<Rightarrow> bytes list \<Rightarrow> nat \<Rightarrow> bytes option" where
  "probe_installed sy names out_size =
     (case (case sy_dli_fname sy of
              Some (c # f) \<Rightarrow> vw_plugin_probe_ancestors (sy_exists sy) (c # f) 4 names out_size
            | _ \<Rightarrow> None) of
        Some p \<Rightarrow> Some p
      | None \<Rightarrow>
          (case sy_exe sy of
             None \<Rightarrow> None
           | Some link \<Rightarrow>
               if take 4095 link = [] then None
               else vw_plugin_probe_ancestors (sy_exists sy) (c_str (take 4095 link)) 0 names out_size))"

definition vw_plugin_resolve_worker_path :: "plugin_system \<Rightarrow> nat \<Rightarrow> bytes option" where
  "vw_plugin_resolve_worker_path sy out_size =
     probe_installed sy [ascii ''vlc-whisper-worker'', ascii ''vlc-whisper-worker-cpu''] out_size"

definition vw_plugin_resolve_cpu_worker_path :: "plugin_system \<Rightarrow> nat \<Rightarrow> bytes option" where
  "vw_plugin_resolve_cpu_worker_path sy out_size = probe_installed sy [ascii ''vlc-whisper-worker-cpu''] out_size"

definition model_files :: "bytes list" where
  "model_files = [ascii ''ggml-tiny.bin'', ascii ''ggml-tiny.en.bin'', ascii ''ggml-base.bin'', ascii ''ggml-base.en.bin'',
     ascii ''ggml-small.bin'', ascii ''ggml-medium.bin'', ascii ''ggml-large-v3.bin'']"

definition model_names :: "bytes list" where
  "model_names = concat (map (\<lambda>f. [f, ascii ''models/'' @ f]) model_files)"

definition vw_plugin_resolve_model_path :: "plugin_system \<Rightarrow> nat \<Rightarrow> bytes option" where
  "vw_plugin_resolve_model_path sy out_size =
     (case probe_installed sy model_names out_size of
        Some p \<Rightarrow> Some p
      | None \<Rightarrow>
          (case vw_plugin_get_model_dir sy VW_PATH_MAX_BYTES of
             None \<Rightarrow> None
           | Some dir \<Rightarrow>
               map_option (snprintf_cut out_size)
                 (List.find (sy_exists sy) (map (\<lambda>f. snprintf_cut (VW_PATH_MAX_BYTES + 64) (dir @ [0x2F] @ f)) model_files))))"

section \<open>What the search finds\<close>

text \<open>The candidates of a search, in order.\<close>

definition candidates :: "bytes \<Rightarrow> nat \<Rightarrow> bytes list \<Rightarrow> bytes list" where
  "candidates file_path max_up names =
     concat (map (\<lambda>dir. map (\<lambda>name. dir @ [0x2F] @ name) names)
       (filter (\<lambda>dir. dir \<noteq> []) (map (\<lambda>up. (dir_of ^^ (up + 1)) file_path) [0..<max_up + 1])))"

lemma find_append: "List.find P (xs @ ys) = (case List.find P xs of Some x \<Rightarrow> Some x | None \<Rightarrow> List.find P ys)"
  by (induction xs) auto

lemma probe_names_find:
  "probe_names exists dir names n = List.find exists (filter (\<lambda>p. length p < n) (map (\<lambda>name. dir @ [0x2F] @ name) names))"
  by (induction exists dir names n rule: probe_names.induct) (auto simp: not_less)

lemma probe_up_find:
  "probe_up exists dir ups names n = List.find exists (filter (\<lambda>p. length p < n)
     (concat (map (\<lambda>dir. map (\<lambda>name. dir @ [0x2F] @ name) names) (filter (\<lambda>dir. dir \<noteq> []) (map (\<lambda>up. (dir_of ^^ up) dir) ups)))))"
  by (induction exists dir ups names n rule: probe_up.induct) (auto simp: probe_names_find find_append Let_def split: option.splits)

lemma dir_of_Nil [simp]: "dir_of [] = []"
  by (simp add: dir_of_def last_separator_def strrchr_def)

lemma dir_of_funpow_Nil [simp]: "(dir_of ^^ n) [] = []"
  by (induction n) simp_all

lemma probe_ancestors_find:
  "vw_plugin_probe_ancestors exists file_path max_up names n
     = List.find exists (filter (\<lambda>p. length p < n) (candidates file_path max_up names))"
proof -
  have e: "(\<lambda>up. (dir_of ^^ (up + 1)) file_path) = (\<lambda>up. (dir_of ^^ up) (dir_of file_path))"
    by (simp add: funpow_swap1 fun_eq_iff)
  show ?thesis
  proof (cases "dir_of file_path = []")
    case True
    then have "candidates file_path max_up names = []" unfolding candidates_def e by (simp add: filter_False)
    then show ?thesis using True by (simp add: vw_plugin_probe_ancestors_def)
  next
    case False
    then have "file_path \<noteq> []" by auto
    then show ?thesis using False unfolding candidates_def e by (simp add: vw_plugin_probe_ancestors_def probe_up_find)
  qed
qed

end
