(* ===== verification/VW_Plugin_State.thy ===== *)
theory VW_Plugin_State
  imports VW_Plugin_Paths VW_Worker_Client VW_Caption_Presenter VW_Benchmark VW_Audio_Capture
begin

text \<open>
  \<^verbatim>\<open>plugin/src/vw_whisper_module.c\<close>: the audio filter module.  One record holds the fields of
  \<^verbatim>\<open>vw_plugin_sys_t\<close> and the local variables of the sender thread.  The queue, the reset flag
  and the playback rate, which the module shares with its capture object by pointer, are
  those of \<open>ps_capture\<close>.

  What the outside world answers comes from a list of moments, each a complete view of the
  outside: the clock, VLC's settings, objects and input, the files, the outcome of a launch.
  Every place where the code asks takes the next moment, and the audio callbacks that happened
  in between run first.  When the list has run out, the module is being closed.  Log output is
  left out.
\<close>

unbundle bit_operations_syntax

section \<open>The outside\<close>

record vlc_config =
  cf_worker_path :: "bytes option"
  cf_model_path :: "bytes option"
  cf_backend :: "bytes option"
  cf_language :: "bytes option"
  cf_model_download :: "bytes option"
  cf_threads :: int
  cf_logging :: bool
  cf_gpu_device :: "int option"
  cf_translate_enabled :: bool
  cf_translate_from :: "bytes option"
  cf_translate_to :: "bytes option"
  cf_translate_mode :: int
  cf_show_paused :: bool

text \<open>A block of audio; no format when the codec is not supported.\<close>

record audio_block =
  bl_format :: "vw_audio_format option"
  bl_pcm :: "u32 list option"
  bl_nb_samples :: nat
  bl_pts :: i64
  bl_rate :: u32
  bl_channels :: u32
  bl_discontinuity :: bool

text \<open>
  \<open>mo_uri\<close> is the address of the current item, if there is an item with one; \<open>mo_rate\<close> is the
  bit pattern of the rate variable of the input.
\<close>

record moment =
  mo_running :: bool
  mo_clock :: i64
  mo_config :: vlc_config
  mo_system :: plugin_system
  mo_vlc :: vlc_env
  mo_vlc2 :: vlc_env
  mo_input_paused :: bool
  mo_uri :: "bytes option"
  mo_position :: "i64 option"
  mo_rate :: "u32 option"
  mo_launch :: launch_env
  mo_net :: ipc_net
  mo_exited :: bool
  mo_report :: report_env
  mo_io :: "bool \<times> bool"
  mo_blocks :: "audio_block list"

datatype config_put = Put_Psz string bytes | Put_Int string int

section \<open>State\<close>

abbreviation (input) VW_INPUT_JUMP_DISCONTINUITY_US :: int where "VW_INPUT_JUMP_DISCONTINUITY_US \<equiv> 5000000"
abbreviation (input) VW_PTS_JUMP_THRESHOLD_US :: int where "VW_PTS_JUMP_THRESHOLD_US \<equiv> 500000"
abbreviation (input) VW_MAX_WORKER_RESPAWNS :: u32 where "VW_MAX_WORKER_RESPAWNS \<equiv> 3"
abbreviation (input) VW_MODEL_ACTION_DOWNLOAD :: u8 where "VW_MODEL_ACTION_DOWNLOAD \<equiv> 1"
abbreviation (input) VW_MODEL_ACTION_ABORT :: u8 where "VW_MODEL_ACTION_ABORT \<equiv> 2"

text \<open>The settings the sender has last seen: the fields \<^verbatim>\<open>cfg_*\<close> and the two times around them.\<close>

record cfg_snapshot =
  sn_worker_path :: bytes
  sn_model_path :: bytes
  sn_backend :: bytes
  sn_language :: bytes
  sn_model_download :: bytes
  sn_threads :: int
  sn_logging :: bool
  sn_translate_enabled :: bool
  sn_translate_from :: bytes
  sn_translate_to :: bytes
  sn_translate_mode :: int
  sn_valid :: bool
  sn_last_poll_us :: i64
  sn_last_respawn_attempt_us :: i64

text \<open>The local variables of \<^verbatim>\<open>vw_plugin_sender_main\<close>.\<close>

record sender_locals =
  lo_paused :: bool
  lo_last_pause_poll_us :: i64
  lo_last_position_us :: i64
  lo_paused_position_us :: i64
  lo_current_position_us :: i64
  lo_last_playback_rate :: u32
  lo_last_source_seek_us :: i64

record session_counters =
  nc_chunks_sent :: u64
  nc_frames_received :: u32
  nc_segments_received :: u32
  nc_status_received :: u32
  nc_errors_received :: u32

record vw_plugin =
  pl_moments :: "moment list"
  pl_attached :: bool
  pl_vlc_log :: "vlc_event list"
  pl_puts :: "config_put list"
  pl_past :: "ipc_net list"
  ps_capture :: vw_audio_capture
  ps_client :: "vw_worker_client option"
  ps_presenter :: vw_caption_presenter
  ps_pipe_name :: bytes
  ps_auth_token :: bytes
  ps_worker_path :: bytes
  ps_sender_started :: bool
  ps_worker_dead :: bool
  ps_discontinuity_pending :: bool
  ps_resume_pts_us :: i64
  ps_source_mode_active :: bool
  ps_session_active :: bool
  ps_paused_preview :: vw_paused_preview_state
  ps_invalid_pts_pending :: bool
  ps_last_pts_was_invalid :: bool
  ps_counters :: session_counters
  ps_respawn_count :: u32
  ps_benchmark :: vw_benchmark
  ps_model_path :: bytes
  ps_active_source_url :: bytes
  ps_model_download_id :: bytes
  ps_cfg :: cfg_snapshot
  ps_local :: sender_locals

section \<open>The audio callback\<close>

text \<open>
  \<^verbatim>\<open>None\<close> is the undefined conversion of a NaN sample.  The block itself is returned to VLC as
  it is.  \<^verbatim>\<open>VLC_TS_0\<close> is 1.
\<close>

definition vw_plugin_filter :: "audio_block \<Rightarrow> vw_plugin \<Rightarrow> vw_plugin option" where
  "vw_plugin_filter block w =
     (case bl_format block of
        None \<Rightarrow> Some w
      | Some fmt \<Rightarrow>
          let input = \<lparr>ai_pcm_data = bl_pcm block, ai_frame_count = bl_nb_samples block, ai_pts_us = bl_pts block,
                ai_format = fmt, ai_sample_rate = bl_rate block, ai_channels = bl_channels block\<rparr>;
              cap = ps_capture w; pts = bl_pts block in
          if \<not> (pts \<ge> 1 \<and> pts \<ge> 0 \<and> pts \<le> 315360000000000) then Some (w\<lparr>ps_last_pts_was_invalid := True\<rparr>)
          else if ps_last_pts_was_invalid w then
            Some (w\<lparr>ps_capture := cap\<lparr>ac_resample_acc := 0, ac_sample_remainder := 0, ac_resample_source_rate := 0\<rparr>,
              ps_invalid_pts_pending := True, ps_last_pts_was_invalid := False\<rparr>)
          else
            let diff = pts - ac_last_pts_us cap;
                is_flagged = bl_discontinuity block;
                is_forward_seek = (diff \<ge> VW_INPUT_JUMP_DISCONTINUITY_US);
                is_backward_seek = (diff < - VW_PTS_JUMP_THRESHOLD_US);
                w = (if ac_last_pts_us cap > 0 then
                       (if is_backward_seek \<or> (is_forward_seek \<and> is_flagged) \<or> diff \<ge> VW_INPUT_JUMP_DISCONTINUITY_US
                        then w\<lparr>ps_discontinuity_pending := True\<rparr> else w)
                     else if is_flagged then w\<lparr>ps_discontinuity_pending := True\<rparr> else w);
                cap = cap\<lparr>ac_last_pts_us := pts\<rparr>;
                w = w\<lparr>ps_capture := cap\<rparr> in
            if (case ac_playback_rate cap of Some r \<Rightarrow> f32_above_4 r | None \<Rightarrow> False) then Some w
            else if ps_source_mode_active w then Some w
            else (case vw_audio_capture_process_block (Some cap) (Some input) of
                Some (_, Some cap') \<Rightarrow> Some (w\<lparr>ps_capture := cap'\<rparr>)
              | Some (_, None) \<Rightarrow> Some w
              | None \<Rightarrow> None))"

text \<open>
  A callback after the module was detached passes its block on; a block whose conversion is
  undefined is left out of the runs considered.
\<close>

definition run_callback :: "audio_block \<Rightarrow> vw_plugin \<Rightarrow> vw_plugin" where
  "run_callback block w =
     (if \<not> pl_attached w then w else case vw_plugin_filter block w of Some w' \<Rightarrow> w' | None \<Rightarrow> w)"

section \<open>Asking the outside\<close>

definition no_config :: vlc_config where
  "no_config = \<lparr>cf_worker_path = None, cf_model_path = None, cf_backend = None, cf_language = None,
     cf_model_download = None, cf_threads = 0, cf_logging = False, cf_gpu_device = None, cf_translate_enabled = False,
     cf_translate_from = None, cf_translate_to = None, cf_translate_mode = 0, cf_show_paused = False\<rparr>"

definition no_vlc :: vlc_env where
  "no_vlc = \<lparr>ve_chain = [], ve_register = (\<lambda>_. - 1), ve_mdate = 0, ve_translate_mode = 0, ve_subpicture_New = False,
     ve_region_New = False, ve_text_segment_New = False\<rparr>"

definition no_net :: ipc_net where
  "no_net = \<lparr>nt_clock = [], nt_recv = [], nt_send = [], nt_mem = [], nt_random = [], nt_in = [], nt_sent = [], nt_events = []\<rparr>"

definition no_system :: plugin_system where
  "no_system = \<lparr>sy_dli_fname = None, sy_exe = None, sy_xdg_data_home = None, sy_home = None, sy_exists = (\<lambda>_. False)\<rparr>"

definition no_report :: report_env where
  "no_report = \<lparr>re_xdg_runtime_dir = None, re_tmpdir = None, re_uid = 0, re_stat = (\<lambda>_. None), re_lstat = (\<lambda>_. None),
     re_access = (\<lambda>_. False), re_mkdir = (\<lambda>_. Mkdir_Failed), re_chmod = (\<lambda>_. False)\<rparr>"

definition no_moment :: moment where
  "no_moment = \<lparr>mo_running = False, mo_clock = - 1, mo_config = no_config, mo_system = no_system, mo_vlc = no_vlc,
     mo_vlc2 = no_vlc, mo_input_paused = False, mo_uri = None, mo_position = None, mo_rate = None,
     mo_launch = \<lparr>le_spawn = False, le_connect = [], le_exited = True\<rparr>, mo_net = no_net, mo_exited = True,
     mo_report = no_report, mo_io = (False, False), mo_blocks = []\<rparr>"

definition now :: "vw_plugin \<Rightarrow> moment \<times> vw_plugin" where
  "now w = (case pl_moments w of
       [] \<Rightarrow> (no_moment, w)
     | m # ms \<Rightarrow> (m, fold run_callback (mo_blocks m) (w\<lparr>pl_moments := ms\<rparr>)))"

text \<open>The sender's own reads and writes of the parts of its state.\<close>

definition call :: "(vw_worker_client \<Rightarrow> 'a \<times> vw_worker_client) \<Rightarrow> 'a \<Rightarrow> vw_plugin \<Rightarrow> 'a \<times> vw_plugin" where
  "call f none w =
     (case ps_client w of None \<Rightarrow> (none, w) | Some c \<Rightarrow> (case f c of (r, c') \<Rightarrow> (r, w\<lparr>ps_client := Some c'\<rparr>)))"

definition present :: "(vw_caption_presenter \<Rightarrow> 'a presenter_result) \<Rightarrow> vw_plugin \<Rightarrow> 'a \<times> vw_plugin" where
  "present f w =
     (case f (ps_presenter w) of (r, p, es) \<Rightarrow> (r, w\<lparr>ps_presenter := p, pl_vlc_log := pl_vlc_log w @ es\<rparr>))"

definition put :: "config_put \<Rightarrow> vw_plugin \<Rightarrow> vw_plugin" where
  "put x w = w\<lparr>pl_puts := pl_puts w @ [x]\<rparr>"

definition bench :: "(vw_benchmark \<Rightarrow> vw_benchmark) \<Rightarrow> vw_plugin \<Rightarrow> vw_plugin" where
  "bench f w = w\<lparr>ps_benchmark := f (ps_benchmark w)\<rparr>"

definition loc :: "(sender_locals \<Rightarrow> sender_locals) \<Rightarrow> vw_plugin \<Rightarrow> vw_plugin" where
  "loc f w = w\<lparr>ps_local := f (ps_local w)\<rparr>"

definition cfg :: "(cfg_snapshot \<Rightarrow> cfg_snapshot) \<Rightarrow> vw_plugin \<Rightarrow> vw_plugin" where
  "cfg f w = w\<lparr>ps_cfg := f (ps_cfg w)\<rparr>"

definition tally :: "(session_counters \<Rightarrow> session_counters) \<Rightarrow> vw_plugin \<Rightarrow> vw_plugin" where
  "tally f w = w\<lparr>ps_counters := f (ps_counters w)\<rparr>"

text \<open>\<^verbatim>\<open>vw_plugin_find_input\<close>; the caller gets a reference.\<close>

fun find_input_child :: "vlc_object option list \<Rightarrow> nat option" where
  "find_input_child [] = None"
| "find_input_child (None # cs) = find_input_child cs"
| "find_input_child (Some c # cs) = (if ob_type c = Some ''input'' then Some (ob_addr c) else find_input_child cs)"

fun vw_plugin_find_input :: "vlc_node list \<Rightarrow> nat option \<times> vlc_event list" where
  "vw_plugin_find_input [] = (None, [])"
| "vw_plugin_find_input (n # ns) =
     (let cur = nd_self n; a = ob_addr cur in
      if ob_type cur = Some ''input'' then (Some a, [Hold a])
      else case nd_children n of
          None \<Rightarrow> vw_plugin_find_input ns
        | Some cs \<Rightarrow>
            (case find_input_child cs of
               Some v \<Rightarrow> (Some v, [List_Children a, Hold v, List_Release a])
             | None \<Rightarrow>
                 (case vw_plugin_find_input ns of (r, es) \<Rightarrow> (r, [List_Children a, List_Release a] @ es))))"

definition find_input :: "moment \<Rightarrow> vw_plugin \<Rightarrow> nat option \<times> vw_plugin" where
  "find_input m w =
     (case vw_plugin_find_input (ve_chain (mo_vlc m)) of (r, es) \<Rightarrow> (r, w\<lparr>pl_vlc_log := pl_vlc_log w @ es\<rparr>))"

definition release_input :: "nat option \<Rightarrow> vw_plugin \<Rightarrow> vw_plugin" where
  "release_input input w = (case input of None \<Rightarrow> w | Some a \<Rightarrow> w\<lparr>pl_vlc_log := pl_vlc_log w @ [Release a]\<rparr>)"

definition vw_plugin_input_position_us :: "moment \<Rightarrow> nat option \<Rightarrow> i64" where
  "vw_plugin_input_position_us m input =
     (if input = None then - 1 else case mo_position m of Some t \<Rightarrow> t | None \<Rightarrow> - 1)"

end
