(* ===== verification/VW_Plugin_Worker.thy ===== *)
theory VW_Plugin_Worker
  imports VW_Plugin_State
begin

text \<open>
The plugin's sender thread, first part: launching and respawning the worker, and following the settings.
\<close>

unbundle bit_operations_syntax

section \<open>Launching the worker\<close>

definition is_local_source :: "bytes \<Rightarrow> bool" where
  "is_local_source uri \<longleftrightarrow> take 7 uri = ascii ''file://'' \<or> take 1 uri = ascii ''/''
     \<or> (length uri \<ge> 3 \<and> uri ! 1 = 0x3A \<and> (uri ! 2 = 0x5C \<or> uri ! 2 = 0x2F))"

definition has_capability :: "u32 \<Rightarrow> vw_plugin \<Rightarrow> bool" where
  "has_capability cap w \<longleftrightarrow> (case ps_client w of None \<Rightarrow> False | Some c \<Rightarrow> cl_worker_capabilities c AND cap \<noteq> 0)"

definition local_uri :: "moment \<Rightarrow> bytes option" where
  "local_uri m = (case mo_uri m of Some uri \<Rightarrow> if is_local_source uri then Some uri else None | None \<Rightarrow> None)"

record launch_args =
  la_model_path :: "bytes option"
  la_backend :: "bytes option"
  la_language :: "bytes option"
  la_threads :: int
  la_gpu :: int
  la_model_dir :: "bytes option"
  la_logging :: bool

text \<open>Each launch gets a connection of its own; what a failed launch leaves joins the past ones.\<close>

definition launch :: "bytes option \<Rightarrow> launch_args \<Rightarrow> vw_plugin \<Rightarrow> vw_plugin" where
  "launch exe a w =
     (case now w of (m, w) \<Rightarrow>
      case vw_worker_client_launch_and_connect_ex (mo_launch m) ((mo_net m)\<lparr>nt_sent := [], nt_events := []\<rparr>) exe
          (ps_pipe_name w) (ps_auth_token w) (la_model_path a) (la_backend a) (la_language a) (la_threads a) (la_gpu a)
          (la_model_dir a) (la_logging a) of
        Inl n \<Rightarrow> w\<lparr>ps_client := None, pl_past := pl_past w @ [n]\<rparr>
      | Inr c \<Rightarrow> w\<lparr>ps_client := Some c\<rparr>)"

definition is_cpu_worker :: "bytes \<Rightarrow> bool" where
  "is_cpu_worker path =
     (let name = (case last_separator path of Some i \<Rightarrow> drop (i + 1) path | None \<Rightarrow> path)
      in name = ascii ''vlc-whisper-worker-cpu'' \<or> name = ascii ''vlc-whisper-worker-cpu.exe'')"

definition vw_plugin_launch_with_auto_retry :: "launch_args \<Rightarrow> bool \<Rightarrow> vw_plugin \<Rightarrow> vw_plugin" where
  "vw_plugin_launch_with_auto_retry a worker_path_was_configured w =
     (let worker_path = ps_worker_path w;
          w = launch (if worker_path \<noteq> [] then Some worker_path else None) a w;
          is_auto = (or_default (la_backend a) (ascii ''auto'') = ascii ''auto'') in
      if ps_client w \<noteq> None then w
      else if \<not> is_auto \<or> worker_path_was_configured then w
      else if is_cpu_worker worker_path then w
      else case now w of (m, w) \<Rightarrow>
        (case vw_plugin_resolve_cpu_worker_path (mo_system m) VW_PATH_MAX_BYTES of
           None \<Rightarrow> w
         | Some cpu_path \<Rightarrow> if cpu_path = [] \<or> cpu_path = worker_path then w else launch (Some cpu_path) a w))"

text \<open>The arguments of a launch, from the settings of a moment.\<close>

definition launch_args_of :: "moment \<Rightarrow> vw_plugin \<Rightarrow> launch_args" where
  "launch_args_of m w =
     (let c = mo_config m; model_dir = or_default (vw_plugin_get_model_dir (mo_system m) VW_PATH_MAX_BYTES) [] in
      \<lparr>la_model_path = (if ps_model_path w \<noteq> [] then Some (ps_model_path w) else None), la_backend = cf_backend c,
       la_language = cf_language c, la_threads = cf_threads c,
       la_gpu = (case cf_gpu_device c of Some d \<Rightarrow> d | None \<Rightarrow> - 1),
       la_model_dir = (if model_dir \<noteq> [] then Some model_dir else None), la_logging = cf_logging c\<rparr>)"

section \<open>Respawning\<close>

definition vw_plugin_send_model_request :: "bytes \<Rightarrow> vw_plugin \<Rightarrow> bool \<times> vw_plugin" where
  "vw_plugin_send_model_request request w =
     (if ps_client w = None \<or> request = [] then (False, w)
      else
        let action = (if request = ascii ''abort'' then VW_MODEL_ACTION_ABORT else VW_MODEL_ACTION_DOWNLOAD);
            model_id = (if action = VW_MODEL_ACTION_ABORT then [] else request) in
        case call (\<lambda>c. vw_worker_client_send_model_ctrl c action (Some model_id)) False w of (ok, w) \<Rightarrow>
          if \<not> ok then (False, w)
          else
            let w = put (Put_Psz ''whisper-model-download'' []) w;
                w = put (Put_Int ''whisper-model-progress'' 0) w;
                w = put (Put_Psz ''whisper-model-status''
                      (ascii (if action = VW_MODEL_ACTION_ABORT then ''aborting'' else ''downloading''))) w;
                w = w\<lparr>ps_model_download_id := (if action = VW_MODEL_ACTION_DOWNLOAD then snprintf_cut 40 model_id else [])\<rparr>
            in (True, cfg (\<lambda>s. s\<lparr>sn_model_download := []\<rparr>) w))"

definition clear_progress :: "vw_plugin \<Rightarrow> vw_plugin" where
  "clear_progress w = snd (present vw_caption_presenter_clear_model_progress w)"

definition blank :: "vw_plugin \<Rightarrow> vw_plugin" where
  "blank w = (case now w of (m, w) \<Rightarrow> snd (present (vw_caption_presenter_blank (mo_vlc m)) w))"

text \<open>Disconnecting the client, if there is one.\<close>

definition disconnect :: "vw_plugin \<Rightarrow> vw_plugin" where
  "disconnect w =
     (case ps_client w of
        None \<Rightarrow> w
      | Some _ \<Rightarrow>
          (case now w of (m, w) \<Rightarrow>
             case ps_client w of
               None \<Rightarrow> w
             | Some c \<Rightarrow> w\<lparr>ps_client := None, pl_past := pl_past w @ [vw_worker_client_disconnect (mo_exited m) c]\<rparr>))"

definition drop_worker :: "vw_plugin \<Rightarrow> vw_plugin" where
  "drop_worker w =
     (if ps_client w = None then w
      else disconnect
        (if ps_model_download_id w \<noteq> []
         then clear_progress (put (Put_Psz ''whisper-model-status'' (ascii ''failed:worker'')) (w\<lparr>ps_model_download_id := []\<rparr>))
         else w))"

text \<open>Starting a session and noting its mode.\<close>

definition start_session :: "bytes option \<Rightarrow> vw_plugin \<Rightarrow> bool \<times> vw_plugin" where
  "start_session source_url w =
     (case call (\<lambda>c. vw_worker_client_start_session c 0 (Some (vw_plugin_catalog_id_from_path (ps_model_path w))) source_url)
         False w of (started, w) \<Rightarrow>
       (started, w\<lparr>ps_session_active := started,
          ps_source_mode_active := started \<and> (case ps_client w of Some c \<Rightarrow> vw_worker_client_is_source_active c | None \<Rightarrow> False)\<rparr>))"

definition send_translation :: "vw_plugin \<Rightarrow> bool \<times> vw_plugin" where
  "send_translation w =
     (let s = ps_cfg w in
      call (\<lambda>c. vw_worker_client_send_translate_ctrl c (sn_translate_enabled s) (Some (sn_translate_from s))
        (Some (sn_translate_to s)) (word_of_int (sn_translate_mode s))) False w)"

definition begin_benchmark :: "vw_plugin \<Rightarrow> vw_plugin" where
  "begin_benchmark w =
     (case now w of (m, w) \<Rightarrow>
       bench (\<lambda>b. snd (vw_benchmark_begin (mo_report m) (mo_io m) (Some (vw_plugin_catalog_id_from_path (ps_model_path w)))
         (Some (sn_backend (ps_cfg w))) (mo_clock m) b)) w)"

definition set_source_url :: "bytes option \<Rightarrow> vw_plugin \<Rightarrow> vw_plugin" where
  "set_source_url url w =
     w\<lparr>ps_active_source_url := (case url of Some u \<Rightarrow> snprintf_cut VW_PATH_MAX_BYTES u | None \<Rightarrow> [])\<rparr>"

definition resolve_worker :: "moment \<Rightarrow> vw_plugin \<Rightarrow> vw_plugin" where
  "resolve_worker m w =
     (if ps_worker_path w \<noteq> [] then w
      else w\<lparr>ps_worker_path := or_default (vw_plugin_resolve_worker_path (mo_system m) VW_PATH_MAX_BYTES)
        (ascii ''vlc-whisper-worker'')\<rparr>)"

text \<open>The second half of \<^verbatim>\<open>vw_plugin_respawn_worker\<close>: the session of a fresh worker.\<close>

definition restart_session :: "bool \<Rightarrow> vw_plugin \<Rightarrow> bool \<times> vw_plugin" where
  "restart_session paused w =
     (case now w of (m, w) \<Rightarrow>
      case find_input m w of (input, w) \<Rightarrow>
        let source_url = (if input \<noteq> None \<and> has_capability VW_CAPABILITY_SOURCE_MODE w then local_uri m else None);
            w = release_input input w;
            w = blank w in
        case start_session source_url w of (started, w) \<Rightarrow>
          let w = set_source_url source_url w in
          if \<not> started then (False, w)
          else
            let w = snd (send_translation w);
                w = (if be_active (ps_benchmark w) then w else begin_benchmark w);
                w = (if paused then snd (call (\<lambda>c. ((), vw_worker_client_pause_session c)) () w) else w)
            in (True, tally (\<lambda>n. n\<lparr>nc_chunks_sent := 0, nc_frames_received := 0, nc_segments_received := 0\<rparr>) w))"

definition vw_plugin_respawn_worker :: "bool \<Rightarrow> bool \<Rightarrow> vw_plugin \<Rightarrow> bool \<times> vw_plugin" where
  "vw_plugin_respawn_worker paused transport_recovery w =
     (let w = w\<lparr>ps_paused_preview := vw_paused_preview_state_reset_session (ps_paused_preview w)\<rparr> in
      if transport_recovery \<and> ps_respawn_count w \<ge> VW_MAX_WORKER_RESPAWNS then (False, w)
      else
        let w = (if transport_recovery then w\<lparr>ps_respawn_count := ps_respawn_count w + 1\<rparr> else w);
            w = drop_worker w;
            w = w\<lparr>ps_worker_dead := False\<rparr> in
        case now w of (m, w) \<Rightarrow>
          let w = resolve_worker m w;
              w = vw_plugin_launch_with_auto_retry (launch_args_of m w) (sn_worker_path (ps_cfg w) \<noteq> []) w in
          if ps_client w = None then (False, w) else restart_session paused w)"

definition vw_plugin_activate_downloaded_model :: "bytes \<Rightarrow> bool \<Rightarrow> vw_plugin \<Rightarrow> bool \<times> vw_plugin" where
  "vw_plugin_activate_downloaded_model model_id paused w =
     (if model_id = [] then (False, w)
      else case vw_plugin_catalog_filename (Some model_id) of
          None \<Rightarrow> (False, w)
        | Some filename \<Rightarrow>
            (case now w of (m, w) \<Rightarrow>
               case vw_plugin_get_model_dir (mo_system m) VW_PATH_MAX_BYTES of
                 None \<Rightarrow> (False, w)
               | Some model_dir \<Rightarrow>
                   (case snprintf VW_PATH_MAX_BYTES (model_dir @ [0x2F] @ filename) of
                      None \<Rightarrow> (False, w)
                    | Some model_path \<Rightarrow>
                        if \<not> sy_exists (mo_system m) model_path then (False, w)
                        else
                          let w = put (Put_Psz ''model-path'' model_path) w;
                              w = w\<lparr>ps_model_path := model_path\<rparr>;
                              w = cfg (\<lambda>s. s\<lparr>sn_model_path := model_path\<rparr>) w;
                              w = clear_progress w
                          in vw_plugin_respawn_worker paused False w)))"

section \<open>Following the settings\<close>

definition opt_bytes :: "bytes option \<Rightarrow> bytes" where
  "opt_bytes s = (case s of Some b \<Rightarrow> b | None \<Rightarrow> [])"

definition clamp_threads :: "int \<Rightarrow> int" where
  "clamp_threads thr = (if thr < 1 \<or> thr > 16 then 4 else thr)"

text \<open>A failed \<^verbatim>\<open>MODEL_CTRL\<close> counts as a dead worker.\<close>

definition relay_model_request :: "bytes \<Rightarrow> vw_plugin \<Rightarrow> vw_plugin" where
  "relay_model_request request w =
     (case vw_plugin_send_model_request request w of (ok, w) \<Rightarrow>
        if ok then w
        else put (Put_Psz ''whisper-model-status'' (ascii ''failed:worker'')) (w\<lparr>ps_worker_dead := True\<rparr>))"

text \<open>Translation settings that cannot be sent are switched off; the result says whether they were sent.\<close>

definition relay_translation :: "vw_plugin \<Rightarrow> bool \<times> vw_plugin" where
  "relay_translation w =
     (if ps_client w \<noteq> None \<and> ps_session_active w then
        (case send_translation w of (ok, w) \<Rightarrow>
           if ok then (True, w)
           else (False, put (Put_Int ''whisper-translate-enabled'' 0)
                  (if has_capability VW_CAPABILITY_TRANSLATION w then w\<lparr>ps_worker_dead := True\<rparr> else w)))
      else (True, w))"

definition first_snapshot :: "i64 \<Rightarrow> vw_plugin \<Rightarrow> vw_plugin" where
  "first_snapshot cfg_now_us w =
     (case now w of (m, w) \<Rightarrow>
        let c = mo_config m;
            w = cfg (\<lambda>s. s\<lparr>sn_worker_path := snprintf_cut VW_PATH_MAX_BYTES (opt_bytes (cf_worker_path c)),
                  sn_model_path := snprintf_cut VW_PATH_MAX_BYTES (opt_bytes (cf_model_path c)),
                  sn_backend := snprintf_cut 16 (or_default (cf_backend c) (ascii ''auto'')),
                  sn_language := snprintf_cut 16 (or_default (cf_language c) (ascii ''en'')),
                  sn_threads := clamp_threads (cf_threads c),
                  sn_model_download := snprintf_cut 40 (opt_bytes (cf_model_download c)),
                  sn_translate_enabled := cf_translate_enabled c,
                  sn_translate_from := snprintf_cut 16 (or_default (cf_translate_from c) (ascii ''auto'')),
                  sn_translate_to := snprintf_cut 16 (or_default (cf_translate_to c) (ascii ''en'')),
                  sn_translate_mode := (if cf_translate_mode c = 0 then 0 else 1)\<rparr>) w in
        case relay_translation w of (ok, w) \<Rightarrow>
          let w = (if ok then w else cfg (\<lambda>s. s\<lparr>sn_translate_enabled := False\<rparr>) w);
              w = cfg (\<lambda>s. s\<lparr>sn_logging := cf_logging c, sn_last_poll_us := cfg_now_us, sn_valid := True\<rparr>) w
          in if sn_model_download (ps_cfg w) \<noteq> [] then relay_model_request (sn_model_download (ps_cfg w)) w else w)"

definition poll_translation :: "vlc_config \<Rightarrow> vw_plugin \<Rightarrow> vw_plugin" where
  "poll_translation c w =
     (let s = ps_cfg w;
          from = or_default (cf_translate_from c) (ascii ''auto'');
          to = or_default (cf_translate_to c) (ascii ''en'');
          mode = (if cf_translate_mode c = 0 then 0 else 1) in
      if cf_translate_enabled c \<noteq> sn_translate_enabled s \<or> from \<noteq> sn_translate_from s \<or> to \<noteq> sn_translate_to s
        \<or> mode \<noteq> sn_translate_mode s
      then snd (relay_translation
        (cfg (\<lambda>s. s\<lparr>sn_translate_enabled := cf_translate_enabled c, sn_translate_from := snprintf_cut 16 from,
           sn_translate_to := snprintf_cut 16 to, sn_translate_mode := mode\<rparr>) w))
      else w)"

text \<open>The language to compare: \<^verbatim>\<open>auto\<close> is rejected and the previous one kept.\<close>

definition language_setting :: "vlc_config \<Rightarrow> vw_plugin \<Rightarrow> bytes" where
  "language_setting c w =
     (let raw = or_default (cf_language c) (ascii ''en'') in if raw = ascii ''auto'' then sn_language (ps_cfg w) else raw)"

definition config_differs :: "vlc_config \<Rightarrow> vw_plugin \<Rightarrow> bool" where
  "config_differs c w \<longleftrightarrow>
     (let s = ps_cfg w in
      opt_bytes (cf_worker_path c) \<noteq> sn_worker_path s \<or> opt_bytes (cf_model_path c) \<noteq> sn_model_path s
      \<or> or_default (cf_backend c) (ascii ''auto'') \<noteq> sn_backend s \<or> language_setting c w \<noteq> sn_language s
      \<or> clamp_threads (cf_threads c) \<noteq> sn_threads s \<or> cf_logging c \<noteq> sn_logging s)"

definition poll_model_request :: "vlc_config \<Rightarrow> vw_plugin \<Rightarrow> vw_plugin" where
  "poll_model_request c w =
     (let dl = opt_bytes (cf_model_download c) in
      if dl = sn_model_download (ps_cfg w) then w
      else if dl \<noteq> [] then relay_model_request dl w
      else cfg (\<lambda>s. s\<lparr>sn_model_download := snprintf_cut 40 dl\<rparr>) w)"

definition adopt_config :: "vlc_config \<Rightarrow> vw_plugin \<Rightarrow> vw_plugin" where
  "adopt_config c w =
     (let w = cfg (\<lambda>s. s\<lparr>sn_worker_path := snprintf_cut VW_PATH_MAX_BYTES (opt_bytes (cf_worker_path c)),
                sn_model_path := snprintf_cut VW_PATH_MAX_BYTES (opt_bytes (cf_model_path c)),
                sn_backend := snprintf_cut 16 (or_default (cf_backend c) (ascii ''auto'')),
                sn_language := snprintf_cut 16 (language_setting c w),
                sn_threads := clamp_threads (cf_threads c), sn_logging := cf_logging c\<rparr>) w;
          w = (case cf_worker_path c of
                 Some (x # xs) \<Rightarrow> if length (x # xs) < VW_PATH_MAX_BYTES then w\<lparr>ps_worker_path := x # xs\<rparr> else w
               | _ \<Rightarrow> w\<lparr>ps_worker_path := []\<rparr>)
      in case cf_model_path c of
           None \<Rightarrow> w
         | Some mp \<Rightarrow>
             if mp \<noteq> [] \<and> length mp < VW_PATH_MAX_BYTES then w\<lparr>ps_model_path := mp\<rparr>
             else if mp = [] then w\<lparr>ps_model_path := []\<rparr> else w)"

text \<open>
  The poll of the settings.  \<^verbatim>\<open>respawn_in_progress\<close> is only written by the sender around the
  respawn of this poll, so it is always false when it is read.
\<close>

definition poll_config :: "i64 \<Rightarrow> vw_plugin \<Rightarrow> vw_plugin" where
  "poll_config cfg_now_us w =
     (case now (cfg (\<lambda>s. s\<lparr>sn_last_poll_us := cfg_now_us\<rparr>) w) of (m, w) \<Rightarrow>
        let c = mo_config m;
            w = poll_translation c w;
            differs = config_differs c w;
            w = poll_model_request c w in
        if differs then
          case now (adopt_config c w) of (m, w) \<Rightarrow>
            snd (vw_plugin_respawn_worker (lo_paused (ps_local w)) False
              (cfg (\<lambda>s. s\<lparr>sn_last_respawn_attempt_us := mo_clock m\<rparr>) w))
        else w)"

definition follow_config :: "vw_plugin \<Rightarrow> vw_plugin" where
  "follow_config w =
     (case now w of (m, w) \<Rightarrow>
        let cfg_now_us = mo_clock m in
        if \<not> sn_valid (ps_cfg w) then first_snapshot cfg_now_us w
        else if cfg_now_us - sn_last_poll_us (ps_cfg w) \<ge> 2000000 then poll_config cfg_now_us w
        else w)"

end
