(* ===== verification/VW_Plugin_Sender.thy ===== *)
theory VW_Plugin_Sender
  imports VW_Plugin_Worker
begin

text \<open>
The plugin's sender thread, second part: following the input, seeking, forwarding audio, the messages of the worker, and the loop.
\<close>

unbundle bit_operations_syntax

section \<open>Following the input\<close>

text \<open>
  A rate read from VLC is a finite \<^verbatim>\<open>float\<close>.  The comparisons are with \<^verbatim>\<open>0.05f\<close>, \<^verbatim>\<open>0.02f\<close> and 1.
\<close>

definition polled_rate :: "moment \<Rightarrow> u32" where
  "polled_rate m = (case mo_rate m of Some r \<Rightarrow> if f32_val r > f32_val 0x3D4CCCCD then r else 0x3F800000 | None \<Rightarrow> 0x3F800000)"

definition rate_changed :: "u32 \<Rightarrow> u32 \<Rightarrow> bool" where
  "rate_changed r old \<longleftrightarrow> \<bar>rne 24 (f32_val r - f32_val old)\<bar> > f32_val 0x3CA3D70A"

definition seek_threshold_us :: "u32 \<Rightarrow> int" where
  "seek_threshold_us r = (if f32_val r > 1 then trunc0 (rne 24 (5000000 * rne 24 (f32_val r * 3 / 2))) else 5000000)"

definition set_rate :: "u32 \<Rightarrow> vw_plugin \<Rightarrow> vw_plugin" where
  "set_rate r w = w\<lparr>ps_capture := (ps_capture w)\<lparr>ac_playback_rate := Some r\<rparr>\<rparr>"

text \<open>
  Popping until the queue is empty.  Callbacks may push in between; every round uses up a
  moment or, when there is none left, a chunk, so that the fuel is enough.
\<close>

definition queue_of :: "vw_plugin \<Rightarrow> vw_spsc_queue option" where
  "queue_of w = ac_queue (ps_capture w)"

definition pop_chunk :: "vw_plugin \<Rightarrow> vw_audio_chunk option \<times> vw_plugin" where
  "pop_chunk w =
     (case now w of (m, w) \<Rightarrow>
        case vw_spsc_queue_pop (queue_of w) True of (chunk, q) \<Rightarrow>
          (chunk, w\<lparr>ps_capture := (ps_capture w)\<lparr>ac_queue := q\<rparr>\<rparr>))"

definition drain_fuel :: "vw_plugin \<Rightarrow> nat" where
  "drain_fuel w = length (pl_moments w) + (case queue_of w of Some q \<Rightarrow> sq_capacity_chunks q | None \<Rightarrow> 0) + 1"

fun drain_loop :: "nat \<Rightarrow> vw_plugin \<Rightarrow> vw_plugin" where
  "drain_loop 0 w = w"
| "drain_loop (Suc n) w = (case pop_chunk w of (None, w) \<Rightarrow> w | (Some _, w) \<Rightarrow> drain_loop n w)"

definition drain_queue :: "vw_plugin \<Rightarrow> vw_plugin" where
  "drain_queue w = drain_loop (drain_fuel w) w"

text \<open>Another item is played: the session is restarted for it.\<close>

definition media_swap :: "moment \<Rightarrow> vw_plugin \<Rightarrow> vw_plugin" where
  "media_swap m w =
     (if \<not> has_capability VW_CAPABILITY_SOURCE_MODE w then w
      else case mo_uri m of
          None \<Rightarrow> w
        | Some raw_uri \<Rightarrow>
            let normalized_uri = (if length raw_uri < VW_MAX_SOURCE_URL_BYTES \<and> is_local_source raw_uri then raw_uri else []) in
            if normalized_uri = ps_active_source_url w then w
            else
              let w = loc (\<lambda>l. l\<lparr>lo_last_source_seek_us := - 1\<rparr>) w;
                  w = bench vw_benchmark_reset_live_clock w;
                  w = w\<lparr>ps_paused_preview := vw_paused_preview_state_reset_session (ps_paused_preview w)\<rparr>;
                  w = blank w;
                  w = snd (call (\<lambda>c. ((), vw_worker_client_stop_session c VW_CTRL_REASON_MEDIA_END)) () w);
                  w = drain_queue w;
                  w = set_source_url (Some normalized_uri) w in
              case start_session (if normalized_uri \<noteq> [] then Some normalized_uri else None) w of (started, w) \<Rightarrow>
                if started then loc (\<lambda>l. l\<lparr>lo_last_position_us := - 1, lo_paused_position_us := - 1\<rparr>) w else w)"

definition send_position :: "i64 \<Rightarrow> u32 \<Rightarrow> u32 \<Rightarrow> vw_plugin \<Rightarrow> bool \<times> vw_plugin" where
  "send_position pos_us rate flags w = call (\<lambda>c. vw_worker_client_send_position c pos_us pos_us rate flags) False w"

definition paused_flag :: "bool \<Rightarrow> u32" where
  "paused_flag b = (if b then VW_POSITION_FLAG_PAUSED else 0)"

text \<open>The position is reported; \<open>False\<close> when the worker is found dead.\<close>

definition report_position :: "i64 \<Rightarrow> u32 \<Rightarrow> bool \<Rightarrow> vw_plugin \<Rightarrow> bool \<times> vw_plugin" where
  "report_position position_us rate held w =
     (if position_us \<ge> 0 \<and> ps_session_active w then
        (case send_position position_us rate (paused_flag held) (loc (\<lambda>l. l\<lparr>lo_current_position_us := position_us\<rparr>) w) of
           (ok, w) \<Rightarrow> if ok then (True, w) else (False, w\<lparr>ps_worker_dead := True\<rparr>))
      else (True, w))"

definition report_rate_and_position :: "i64 \<Rightarrow> u32 \<Rightarrow> bool \<Rightarrow> vw_plugin \<Rightarrow> bool \<times> vw_plugin" where
  "report_rate_and_position position_us rate held w =
     (if rate_changed rate (lo_last_playback_rate (ps_local w)) then
        (case report_position position_us rate held (loc (\<lambda>l. l\<lparr>lo_last_source_seek_us := - 1\<rparr>) (blank w)) of (ok, w) \<Rightarrow>
           (ok, loc (\<lambda>l. l\<lparr>lo_last_playback_rate := rate\<rparr>) w))
      else report_position position_us rate held w)"

definition signal_seek :: "i64 \<Rightarrow> vw_plugin \<Rightarrow> vw_plugin" where
  "signal_seek target_us w = w\<lparr>ps_discontinuity_pending := True, ps_resume_pts_us := target_us\<rparr>"

definition check_paused_seek :: "bool \<Rightarrow> i64 \<Rightarrow> vw_plugin \<Rightarrow> vw_plugin" where
  "check_paused_seek now_paused position_us w =
     (let l = ps_local w; paused_position_us = lo_paused_position_us l in
      if now_paused \<noteq> lo_paused l then
        (if now_paused then loc (\<lambda>l. l\<lparr>lo_paused_position_us := (if position_us \<ge> 0 then position_us else - 1)\<rparr>) w
         else
           let w = (if paused_position_us \<ge> 0 \<and> position_us \<ge> 0
                       \<and> (position_us - paused_position_us \<ge> VW_INPUT_JUMP_DISCONTINUITY_US
                          \<or> paused_position_us - position_us > VW_PTS_JUMP_THRESHOLD_US)
                    then signal_seek position_us w else w)
           in loc (\<lambda>l. l\<lparr>lo_paused_position_us := - 1\<rparr>) w)
      else if now_paused \<and> position_us \<ge> 0 \<and> paused_position_us < 0
      then loc (\<lambda>l. l\<lparr>lo_paused_position_us := position_us\<rparr>) w
      else w)"

definition check_position_jump :: "bool \<Rightarrow> i64 \<Rightarrow> u32 \<Rightarrow> vw_plugin \<Rightarrow> vw_plugin" where
  "check_position_jump now_paused position_us rate w =
     (let l = ps_local w; last_position_us = lo_last_position_us l; paused_position_us = lo_paused_position_us l;
          known = (position_us \<ge> 0 \<and> last_position_us \<ge> 0);
          is_pos_forward_seek = (known \<and> position_us - last_position_us \<ge> seek_threshold_us rate);
          is_pos_backward_seek = (known \<and> last_position_us - position_us > VW_PTS_JUMP_THRESHOLD_US);
          is_paused_seek = (now_paused \<and> paused_position_us \<ge> 0 \<and> position_us \<ge> 0
            \<and> (position_us - paused_position_us > VW_PTS_JUMP_THRESHOLD_US
               \<or> paused_position_us - position_us > VW_PTS_JUMP_THRESHOLD_US));
          w = (if is_pos_forward_seek \<or> is_pos_backward_seek \<or> is_paused_seek then
                 let w = signal_seek position_us w
                 in if is_paused_seek then loc (\<lambda>l. l\<lparr>lo_paused_position_us := position_us\<rparr>) w else w
               else w)
      in if position_us \<ge> 0 then loc (\<lambda>l. l\<lparr>lo_last_position_us := position_us\<rparr>) w else w)"

text \<open>What a pass of the loop knows of the input.\<close>

record input_view =
  iv_alive :: bool
  iv_paused :: bool
  iv_show_paused :: bool
  iv_preview :: bool
  iv_position_us :: i64

definition poll_input :: "bool \<Rightarrow> vw_plugin \<Rightarrow> input_view \<times> vw_plugin" where
  "poll_input show_paused w =
     (case now w of (m, w) \<Rightarrow>
      case find_input m w of (input, w) \<Rightarrow>
        let now_paused = (input \<noteq> None \<and> mo_input_paused m);
            playback_rate = (if input \<noteq> None then polled_rate m else 0x3F800000);
            w = (if input \<noteq> None then media_swap m (set_rate playback_rate w) else w);
            (m', w) = now w;
            position_us = vw_plugin_input_position_us m' input;
            preview = (now_paused \<and> show_paused \<and> ps_source_mode_active w) in
        case report_rate_and_position position_us playback_rate (now_paused \<and> \<not> preview) w of (ok, w) \<Rightarrow>
          let view = \<lparr>iv_alive = ok, iv_paused = now_paused, iv_show_paused = show_paused, iv_preview = preview,
                iv_position_us = position_us\<rparr>;
              w = (if ok then check_position_jump now_paused position_us playback_rate (check_paused_seek now_paused position_us w)
                   else w)
          in (view, release_input input w))"

text \<open>The input is polled every 100 ms.\<close>

definition watch_input :: "vw_plugin \<Rightarrow> input_view \<times> vw_plugin" where
  "watch_input w =
     (case now w of (m, w) \<Rightarrow>
      case now w of (m', w) \<Rightarrow>
        let show_paused = cf_show_paused (mo_config m); paused = lo_paused (ps_local w); now_us = mo_clock m' in
        if now_us - lo_last_pause_poll_us (ps_local w) \<ge> 100000
        then poll_input show_paused (loc (\<lambda>l. l\<lparr>lo_last_pause_poll_us := now_us\<rparr>) w)
        else (\<lparr>iv_alive = True, iv_paused = paused, iv_show_paused = show_paused,
                iv_preview = (paused \<and> show_paused \<and> ps_source_mode_active w), iv_position_us = - 1\<rparr>, w))"

definition pause_or_resume :: "input_view \<Rightarrow> vw_plugin \<Rightarrow> vw_plugin" where
  "pause_or_resume view w =
     (if iv_paused view = lo_paused (ps_local w) then w
      else
        let w =
          (if iv_paused view then
             (if iv_preview view then
                (case vw_paused_preview_capture_target True (iv_position_us view) of
                   Some target_us \<Rightarrow> signal_seek target_us (loc (\<lambda>l. l\<lparr>lo_current_position_us := target_us\<rparr>) w)
                 | None \<Rightarrow> w)
              else snd (call (\<lambda>c. ((), vw_worker_client_pause_session c)) () (blank w)))
           else
             snd (call (\<lambda>c. ((), vw_worker_client_resume_session c)) ()
               (blank (w\<lparr>ps_paused_preview := vw_paused_preview_state_reset_session (ps_paused_preview w)\<rparr>))))
        in loc (\<lambda>l. l\<lparr>lo_paused := iv_paused view\<rparr>) w)"

section \<open>Discontinuities\<close>

definition live_epoch :: "i64 \<Rightarrow> vw_plugin \<Rightarrow> vw_plugin" where
  "live_epoch seek_target_us w =
     (let w = snd (call (\<lambda>c. ((), vw_worker_client_stop_session c VW_CTRL_REASON_SEEK_DISCONTINUITY)) () w);
          w = loc (\<lambda>l. l\<lparr>lo_last_position_us := - 1, lo_paused_position_us := - 1,
                lo_current_position_us := (if seek_target_us \<ge> 0 then seek_target_us else lo_current_position_us l),
                lo_last_source_seek_us := - 1\<rparr>) w in
      if ps_client w = None then w
      else case start_session None w of (started, w) \<Rightarrow>
        if started then
          let w = snd (send_translation w)
          in if seek_target_us \<ge> 0
             then snd (send_position seek_target_us (lo_last_playback_rate (ps_local w)) (paused_flag (lo_paused (ps_local w))) w)
             else w
        else w)"

definition source_seek :: "i64 \<Rightarrow> bool \<Rightarrow> vw_plugin \<Rightarrow> vw_plugin" where
  "source_seek seek_target_us preview w =
     (if seek_target_us \<ge> 0 then
        (case send_position seek_target_us (lo_last_playback_rate (ps_local w))
             (ucast (vw_paused_preview_seek_flags (lo_paused (ps_local w)) preview))
             (loc (\<lambda>l. l\<lparr>lo_last_source_seek_us := seek_target_us\<rparr>) w) of (ok, w) \<Rightarrow>
           if ok then w else w\<lparr>ps_worker_dead := True\<rparr>)
      else w)"

definition handle_discontinuity :: "bool \<Rightarrow> vw_plugin \<Rightarrow> vw_plugin" where
  "handle_discontinuity show_paused w =
     (case now w of (m, w) \<Rightarrow>
        if \<not> ps_discontinuity_pending w then w
        else
          let current = lo_current_position_us (ps_local w);
              seek_target_us = (if current \<ge> 0 then current else ps_resume_pts_us w);
              w = w\<lparr>ps_discontinuity_pending := False\<rparr>;
              is_source_mode = ps_source_mode_active w;
              preview = (lo_paused (ps_local w) \<and> is_source_mode \<and> show_paused);
              w = (if preview then w\<lparr>ps_paused_preview := vw_paused_preview_arm (ps_paused_preview w)\<rparr>
                   else let w = blank w in w\<lparr>ps_paused_preview := vw_paused_preview_state_reset_session (ps_paused_preview w)\<rparr>);
              w = bench vw_benchmark_reset_live_clock w;
              w = drain_queue w;
              w = w\<lparr>ps_capture := (ps_capture w)\<lparr>ac_reset_pending := Some True\<rparr>\<rparr>
          in if is_source_mode then source_seek seek_target_us preview w else live_epoch seek_target_us w)"

definition drain_invalid :: "vw_plugin \<Rightarrow> vw_plugin" where
  "drain_invalid w =
     (case now w of (m, w) \<Rightarrow>
        if ps_invalid_pts_pending w then
          case now (drain_queue w) of (m, w) \<Rightarrow> w\<lparr>ps_invalid_pts_pending := False\<rparr>
        else w)"

section \<open>Forwarding audio\<close>

fun forward_loop :: "nat \<Rightarrow> bool \<Rightarrow> bool \<Rightarrow> vw_plugin \<Rightarrow> bool \<times> vw_plugin" where
  "forward_loop 0 discard sent_any w = (sent_any, w)"
| "forward_loop (Suc n) discard sent_any w =
     (case pop_chunk w of
        (None, w) \<Rightarrow> (sent_any, w)
      | (Some chunk, w) \<Rightarrow>
          if discard then forward_loop n discard sent_any w
          else
            let w = tally (\<lambda>k. k\<lparr>nc_chunks_sent := nc_chunks_sent k + 1\<rparr>) w in
            case call (\<lambda>c. vw_worker_client_send_audio c chunk) False w of (ok, w) \<Rightarrow>
              if \<not> ok then (sent_any, w\<lparr>ps_worker_dead := True\<rparr>)
              else case now w of (m, w) \<Rightarrow>
                forward_loop n discard True
                  (bench (\<lambda>b. vw_benchmark_record_audio b (ch_start_pts_us chunk) (ch_duration_us chunk) (mo_clock m)) w))"

definition forward_audio :: "vw_plugin \<Rightarrow> bool \<times> vw_plugin" where
  "forward_audio w =
     forward_loop (drain_fuel w) (lo_paused (ps_local w) \<or> ps_source_mode_active w \<or> \<not> ps_session_active w) False w"

section \<open>Frames from the worker\<close>

definition note_shown :: "bool \<Rightarrow> vw_plugin \<Rightarrow> vw_plugin" where
  "note_shown rendered w =
     (if rendered then (case now w of (m, w) \<Rightarrow> bench (\<lambda>b. vw_benchmark_record_caption_sent b (mo_clock m)) w)
      else bench (\<lambda>b. vw_benchmark_record_caption_filtered b False False True) w)"

definition show_caption :: "bool \<Rightarrow> bool \<Rightarrow> vw_caption_segment \<Rightarrow> vw_plugin \<Rightarrow> vw_plugin" where
  "show_caption is_source_mode show_paused seg w =
     (if \<not> lo_paused (ps_local w) then
        (case now w of (m, w) \<Rightarrow>
         case present (\<lambda>p. vw_caption_presenter_show_segment (mo_vlc m) (mo_vlc2 m) p seg
             (lo_current_position_us (ps_local w)) is_source_mode) w of (ok, w) \<Rightarrow> note_shown ok w)
      else if is_source_mode \<and> show_paused \<and> fst (vw_paused_preview_take (ps_paused_preview w)) then
        (case now (w\<lparr>ps_paused_preview := snd (vw_paused_preview_take (ps_paused_preview w))\<rparr>) of (m, w) \<Rightarrow>
         case present (\<lambda>p. vw_caption_presenter_show_paused (mo_vlc m) p seg) w of (ok, w) \<Rightarrow> note_shown ok w)
      else bench (\<lambda>b. vw_benchmark_record_caption_filtered b True False False) w)"

definition stale_caption :: "bool \<Rightarrow> vw_caption_segment \<Rightarrow> vw_plugin \<Rightarrow> bool" where
  "stale_caption is_source_mode seg w \<longleftrightarrow>
     (case ps_client w of Some c \<Rightarrow> cs_session_id seg \<noteq> cl_session_id c | None \<Rightarrow> True)
     \<or> is_source_mode \<and> lo_last_source_seek_us (ps_local w) \<ge> 0 \<and> cs_start_pts_us seg < lo_last_source_seek_us (ps_local w)"

definition on_caption :: "bool \<Rightarrow> bool \<Rightarrow> vw_caption_segment \<Rightarrow> vw_plugin \<Rightarrow> vw_plugin" where
  "on_caption is_source_mode show_paused seg w =
     (if stale_caption is_source_mode seg w then bench (\<lambda>b. vw_benchmark_record_caption_filtered b False True False) w
      else case now (tally (\<lambda>k. k\<lparr>nc_segments_received := nc_segments_received k + 1\<rparr>) w) of (m, w) \<Rightarrow>
        let w = bench (\<lambda>b. vw_benchmark_record_caption_received b seg (mo_clock m) is_source_mode) w;
            w = (if cs_translation_attempted seg
                 then bench (\<lambda>b. vw_benchmark_record_translation b (cs_translation_tier seg) (cs_translation_latency_us seg)
                        (cs_translated_text_bytes seg > 0)) w
                 else w)
        in show_caption is_source_mode show_paused seg w)"

definition on_status :: "vw_msg_status \<Rightarrow> vw_plugin \<Rightarrow> vw_plugin" where
  "on_status status w =
     (let w = tally (\<lambda>k. k\<lparr>nc_status_received := nc_status_received k + 1\<rparr>) w;
          w = bench (\<lambda>b. vw_benchmark_update_status b status) w;
          backend = c_str (ss_resolved_backend status) in
      if backend \<noteq> [] then put (Put_Psz ''whisper-backend-active'' backend) w else w)"

definition on_progress :: "vw_msg_model_progress \<Rightarrow> vw_plugin \<Rightarrow> vw_plugin" where
  "on_progress progress w =
     (let stage = mp_stage progress; model_id = c_str (mp_model_id progress);
          w = put (Put_Int ''whisper-model-progress'' (int (unat (mp_pct progress)))) w;
          w = put (Put_Psz ''whisper-model-status'' (snprintf_cut 80 (ascii (stage_name stage) @ ascii '':'' @ model_id))) w;
          w = (if stage = 0 then clear_progress w
               else case now w of (m, w) \<Rightarrow>
                 snd (present (\<lambda>p. vw_caption_presenter_show_model_progress (mo_vlc m) p progress) w));
          w = (if stage = 4 then (clear_progress w)\<lparr>ps_model_download_id := []\<rparr> else w) in
      if stage = 3 \<and> ps_model_download_id w = model_id then
        (case vw_plugin_activate_downloaded_model model_id (lo_paused (ps_local w))
             ((clear_progress w)\<lparr>ps_model_download_id := []\<rparr>) of (ok, w) \<Rightarrow>
           if ok then w else clear_progress (put (Put_Psz ''whisper-model-status'' (ascii ''failed:activation'')) w))
      else w)"

definition on_error :: "vw_msg_error \<Rightarrow> vw_plugin \<Rightarrow> vw_plugin" where
  "on_error err w =
     (let w = tally (\<lambda>k. k\<lparr>nc_errors_received := nc_errors_received k + 1\<rparr>) w in
      if er_recoverable err = 0 then w\<lparr>ps_worker_dead := True\<rparr> else w)"

text \<open>
  Translation diagnostics are taken out before the other messages are looked at
  (\<^verbatim>\<open>vw_translation_failure_module_override.h\<close>).
\<close>

definition vw_plugin_record_translation_error :: "vw_msg_error \<Rightarrow> vw_benchmark \<Rightarrow> bool \<times> vw_benchmark" where
  "vw_plugin_record_translation_error err b =
     (if er_recoverable err = 0 \<or> \<not> translation_error err then (False, b)
      else (True, snd (vw_benchmark_record_translation_failure b (er_error_code err) (Some (c_str (er_message err))))))"

definition on_frame :: "bool \<Rightarrow> bool \<Rightarrow> vw_payload \<Rightarrow> vw_plugin \<Rightarrow> vw_plugin" where
  "on_frame is_source_mode show_paused payload w =
     (let count = (\<lambda>w. bench vw_benchmark_record_frame (tally (\<lambda>k. k\<lparr>nc_frames_received := nc_frames_received k + 1\<rparr>) w)) in
      case payload of
        P_CAPTION seg \<Rightarrow> on_caption is_source_mode show_paused seg (count w)
      | P_STATUS status \<Rightarrow> on_status status (count w)
      | P_MODEL_PROGRESS progress \<Rightarrow> on_progress progress (count w)
      | P_ERROR err \<Rightarrow>
          (case vw_plugin_record_translation_error err (ps_benchmark w) of (handled, b) \<Rightarrow>
             if handled then count (tally (\<lambda>k. k\<lparr>nc_errors_received := nc_errors_received k + 1\<rparr>) (w\<lparr>ps_benchmark := b\<rparr>))
             else on_error err (count w))
      | _ \<Rightarrow> count w)"

definition receive_fatal :: "vw_plugin \<Rightarrow> vw_plugin" where
  "receive_fatal w =
     clear_progress (put (Put_Psz ''whisper-model-status'' (ascii ''failed:worker''))
       (w\<lparr>ps_worker_dead := True, ps_model_download_id := []\<rparr>))"

definition flush_pending :: "bool \<Rightarrow> vw_plugin \<Rightarrow> vw_plugin" where
  "flush_pending is_source_mode w =
     (let p = ps_presenter w; current = lo_current_position_us (ps_local w) in
      if pr_has_pending p \<and> \<not> lo_paused (ps_local w)
        \<and> (\<not> is_source_mode \<or> current < 0 \<or> cs_start_pts_us (pr_pending_segment p) \<le> current + 100000)
      then (case now w of (m, w) \<Rightarrow>
        snd (present (\<lambda>p. vw_caption_presenter_flush (mo_vlc m) (mo_vlc2 m) p current is_source_mode) w))
      else w)"

definition flush_benchmark :: "vw_plugin \<Rightarrow> vw_plugin" where
  "flush_benchmark w =
     (case now w of (m, w) \<Rightarrow> bench (\<lambda>b. fst (vw_benchmark_flush_if_due (mo_io m) b (mo_clock m))) w)"

section \<open>The sender thread\<close>

text \<open>One pass with a worker that is connected, from the forwarding of audio on.\<close>

definition exchange :: "bool \<Rightarrow> vw_plugin \<Rightarrow> vw_plugin" where
  "exchange show_paused w =
     (let is_source_mode = ps_source_mode_active w in
      case forward_audio w of (sent_any, w) \<Rightarrow>
        if ps_worker_dead w then w
        else case call (\<lambda>c. vw_worker_client_receive_frame c (if sent_any then 5000 else 20000)) (VW_IPC_RECV_FATAL, None) w of
            ((status, frame), w) \<Rightarrow>
              if status = VW_IPC_RECV_FATAL then receive_fatal w
              else
                let w = (case frame of Some r \<Rightarrow> on_frame is_source_mode show_paused (wr_payload r) w | None \<Rightarrow> w)
                in flush_benchmark (flush_pending is_source_mode w))"

definition serve :: "vw_plugin \<Rightarrow> vw_plugin" where
  "serve w =
     (case watch_input w of (view, w) \<Rightarrow>
        if \<not> iv_alive view then w
        else exchange (iv_show_paused view)
               (drain_invalid (handle_discontinuity (iv_show_paused view) (pause_or_resume view w))))"

text \<open>Without a worker: try again every ten seconds.\<close>

definition idle :: "vw_plugin \<Rightarrow> vw_plugin" where
  "idle w =
     (case now w of (m, w) \<Rightarrow>
        if mo_clock m - sn_last_respawn_attempt_us (ps_cfg w) \<ge> 10000000
        then snd (vw_plugin_respawn_worker (lo_paused (ps_local w)) False
               (cfg (\<lambda>s. s\<lparr>sn_last_respawn_attempt_us := mo_clock m\<rparr>) w))
        else w)"

text \<open>The first result is false when the loop is left.\<close>

definition sender_pass :: "vw_plugin \<Rightarrow> bool \<times> vw_plugin" where
  "sender_pass w =
     (let w = follow_config w in
      if ps_worker_dead w then
        (case vw_plugin_respawn_worker (lo_paused (ps_local w)) True w of (ok, w) \<Rightarrow>
           if ok then (True, bench vw_benchmark_reset_live_clock (loc (\<lambda>l. l\<lparr>lo_last_source_seek_us := - 1\<rparr>) w))
           else (False, w))
      else if ps_client w = None then (True, idle w)
      else (True, serve w))"

definition sender_start :: "vw_plugin \<Rightarrow> vw_plugin" where
  "sender_start w =
     (case (if has_capability VW_CAPABILITY_SOURCE_MODE w then
              (case now w of (m, w) \<Rightarrow>
               case find_input m w of (input, w) \<Rightarrow>
                 let url = (if input \<noteq> None then local_uri m else None);
                     w = (if url \<noteq> None then set_source_url url w else w)
                 in (url, release_input input w))
            else (None, w)) of (source_url, w) \<Rightarrow>
      case start_session source_url w of (started, w) \<Rightarrow>
        if started then begin_benchmark w else w)"

text \<open>The loop, with fuel for the passes: a pass takes at least one moment for \<^verbatim>\<open>sender_running\<close>.\<close>

fun sender_loop :: "nat \<Rightarrow> vw_plugin \<Rightarrow> vw_plugin" where
  "sender_loop 0 w = w"
| "sender_loop (Suc n) w =
     (case now w of (m, w) \<Rightarrow>
        if \<not> mo_running m then w
        else case sender_pass w of (go_on, w) \<Rightarrow> if go_on then sender_loop n w else w)"

definition initial_locals :: sender_locals where
  "initial_locals = \<lparr>lo_paused = False, lo_last_pause_poll_us = 0, lo_last_position_us = - 1, lo_paused_position_us = - 1,
     lo_current_position_us = - 1, lo_last_playback_rate = 0x3F800000, lo_last_source_seek_us = - 1\<rparr>"

definition vw_plugin_sender_main :: "vw_plugin \<Rightarrow> vw_plugin" where
  "vw_plugin_sender_main w =
     (let w = (sender_start w)\<lparr>ps_local := initial_locals\<rparr> in sender_loop (length (pl_moments w) + 1) w)"

end
