(* ===== verification/VW_Plugin.thy ===== *)
theory VW_Plugin
  imports VW_Plugin_Sender
begin

text \<open>
Opening and closing the plugin, and the life of a filter instance.
\<close>

unbundle bit_operations_syntax

section \<open>Opening\<close>

record open_env =
  oe_alloc :: bool
  oe_queue_alloc :: "bool \<times> bool"
  oe_endpoint_random :: "bytes option"
  oe_runtime_dir :: "bytes option"
  oe_stat :: "bytes \<Rightarrow> file_stat option"
  oe_euid :: nat
  oe_auth_random :: "bytes option"
  oe_thread :: bool

text \<open>\<^verbatim>\<open>S_IWGRP | S_IWOTH\<close> is octal 022.\<close>

definition runtime_dir :: "open_env \<Rightarrow> bytes" where
  "runtime_dir e =
     (case oe_runtime_dir e of
        Some d \<Rightarrow>
          if take 1 d = ascii ''/'' \<and> (case oe_stat e d of
               Some st \<Rightarrow> st_is_dir st \<and> st_uid st = oe_euid e \<and> st_mode st AND 18 = 0 | None \<Rightarrow> False)
          then d else ascii ''/tmp''
      | None \<Rightarrow> ascii ''/tmp'')"

definition endpoint_name :: "open_env \<Rightarrow> bytes \<Rightarrow> bytes" where
  "endpoint_name e endpoint_random =
     (let endpoint_hex = token_to_hex endpoint_random;
          name = runtime_dir e @ ascii ''/vlc-whisper-'' @ endpoint_hex @ ascii ''.sock'' in
      if length name \<ge> 108 then snprintf_cut 256 (ascii ''/tmp/vlc-whisper-'' @ endpoint_hex @ ascii ''.sock'')
      else snprintf_cut 256 name)"

definition initial_capture :: "vw_spsc_queue \<Rightarrow> vw_audio_capture" where
  "initial_capture q =
     \<lparr>ac_target_sample_rate = VW_AUDIO_TARGET_RATE, ac_target_channels = 1, ac_sample_remainder = 0, ac_last_pts_us = 0,
      ac_total_samples_processed = 0, ac_total_input_frames = 0, ac_resample_acc = 0, ac_resample_source_rate = 0,
      ac_reset_pending = Some False, ac_queue = Some q, ac_playback_rate = Some 0x3F800000\<rparr>"

definition initial_presenter :: vw_caption_presenter where
  "initial_presenter =
     \<lparr>pr_filter_ctx = True, pr_held_vout = None, pr_spu_channel_id = - 1, pr_spu_channel_registered = False,
      pr_model_progress_held_vout = None, pr_model_progress_channel_id = - 1, pr_model_progress_channel_registered = False,
      pr_has_pending = False,
      pr_pending_segment = \<lparr>cs_session_id = replicate 16 0, cs_segment_id = 0, cs_start_pts_us = 0, cs_end_pts_us = 0,
        cs_is_final = False, cs_text_utf8 = None, cs_text_bytes = 0, cs_translated_text_utf8 = None, cs_translated_text_bytes = 0,
        cs_translation_attempted = False, cs_translation_latency_us = 0, cs_translation_tier = 0\<rparr>\<rparr>"

definition initial_cfg :: "bool \<Rightarrow> cfg_snapshot" where
  "initial_cfg logging = \<lparr>sn_worker_path = [], sn_model_path = [], sn_backend = [], sn_language = [], sn_model_download = [],
     sn_threads = 4, sn_logging = logging, sn_translate_enabled = False, sn_translate_from = [], sn_translate_to = [],
     sn_translate_mode = 0, sn_valid = False, sn_last_poll_us = 0, sn_last_respawn_attempt_us = 0\<rparr>"

text \<open>A configured path that does not fit refuses to open; without one the path is searched for.\<close>

definition configured_path :: "bytes option \<Rightarrow> bytes option \<Rightarrow> bytes option" where
  "configured_path configured found =
     (case configured of
        Some (c # cs) \<Rightarrow> if length (c # cs) \<ge> VW_PATH_MAX_BYTES then None else Some (c # cs)
      | _ \<Rightarrow> Some (opt_bytes found))"

definition opened :: "moment list \<Rightarrow> vw_spsc_queue \<Rightarrow> bytes \<Rightarrow> bytes \<Rightarrow> bytes \<Rightarrow> bytes \<Rightarrow> bool \<Rightarrow> vw_plugin" where
  "opened ms q pipe_name auth_token worker_path model_path logging =
     \<lparr>pl_moments = ms, pl_attached = False, pl_vlc_log = [], pl_puts = [], pl_past = [], ps_capture = initial_capture q,
      ps_client = None, ps_presenter = initial_presenter, ps_pipe_name = pipe_name, ps_auth_token = auth_token,
      ps_worker_path = worker_path, ps_sender_started = False, ps_worker_dead = False, ps_discontinuity_pending = False,
      ps_resume_pts_us = - 1, ps_source_mode_active = False, ps_session_active = False,
      ps_paused_preview = \<lparr>pp_pending = False\<rparr>, ps_invalid_pts_pending = False, ps_last_pts_was_invalid = False,
      ps_counters = \<lparr>nc_chunks_sent = 0, nc_frames_received = 0, nc_segments_received = 0, nc_status_received = 0, nc_errors_received = 0\<rparr>,
      ps_respawn_count = 0, ps_benchmark = zero_benchmark, ps_model_path = model_path, ps_active_source_url = [],
      ps_model_download_id = [], ps_cfg = initial_cfg logging, ps_local = initial_locals\<rparr>"

definition vw_plugin_open :: "open_env \<Rightarrow> moment list \<Rightarrow> vw_plugin option" where
  "vw_plugin_open e moments = do {
     _ \<leftarrow> if oe_alloc e then Some () else None;
     q \<leftarrow> vw_spsc_queue_create (fst (oe_queue_alloc e)) (snd (oe_queue_alloc e)) 16;
     endpoint_random \<leftarrow> oe_endpoint_random e;
     let (m, ms) = (case moments of [] \<Rightarrow> (no_moment, []) | m # ms \<Rightarrow> (m, ms));
     let c = mo_config m;
     worker_path \<leftarrow> configured_path (cf_worker_path c) (vw_plugin_resolve_worker_path (mo_system m) VW_PATH_MAX_BYTES);
     model_path \<leftarrow> configured_path (cf_model_path c) (vw_plugin_resolve_model_path (mo_system m) VW_PATH_MAX_BYTES);
     auth_token \<leftarrow> oe_auth_random e;
     let w = opened ms q (endpoint_name e endpoint_random) auth_token worker_path model_path (cf_logging c);
     let w = vw_plugin_launch_with_auto_retry (launch_args_of m w) (opt_bytes (cf_worker_path c) \<noteq> []) w;
     Some (w\<lparr>ps_sender_started := oe_thread e, pl_attached := True\<rparr>)
   }"

section \<open>Closing\<close>

text \<open>
  Closing as \<^verbatim>\<open>plugin/include/vw_plugin_log_scope_override.h\<close> redefines it: the audio still queued
  is sent, the session ends with \<^verbatim>\<open>MEDIA_END\<close>, and the captions that still come are shown.
\<close>

fun vw_plugin_drain_close_audio :: "nat \<Rightarrow> vw_plugin \<Rightarrow> vw_plugin" where
  "vw_plugin_drain_close_audio 0 w = w"
| "vw_plugin_drain_close_audio (Suc n) w =
     (case pop_chunk w of
        (None, w) \<Rightarrow> w
      | (Some chunk, w) \<Rightarrow>
          (case call (\<lambda>c. vw_worker_client_send_audio c chunk) False w of (ok, w) \<Rightarrow>
             if \<not> ok then w
             else case now (tally (\<lambda>k. k\<lparr>nc_chunks_sent := nc_chunks_sent k + 1\<rparr>) w) of (m, w) \<Rightarrow>
               vw_plugin_drain_close_audio n
                 (bench (\<lambda>b. vw_benchmark_record_audio b (ch_start_pts_us chunk) (ch_duration_us chunk) (mo_clock m)) w)))"

definition vw_close_join :: "vw_plugin \<Rightarrow> vw_plugin" where
  "vw_close_join w =
     (case ps_client w of
        None \<Rightarrow> w
      | Some c \<Rightarrow> if \<not> cl_session_active c \<or> vw_worker_client_is_source_active c then w
                  else vw_plugin_drain_close_audio (drain_fuel w) w)"

definition tail_caption :: "bool \<Rightarrow> bool \<Rightarrow> vw_caption_segment \<Rightarrow> vw_plugin \<Rightarrow> bool \<times> vw_plugin" where
  "tail_caption source_active filter_ctx seg w =
     (case now (tally (\<lambda>k. k\<lparr>nc_segments_received := nc_segments_received k + 1\<rparr>) w) of (m, w) \<Rightarrow>
        let w = bench (\<lambda>b. vw_benchmark_record_caption_received b seg (mo_clock m) source_active) w;
            w = (if cs_translation_attempted seg
                 then bench (\<lambda>b. vw_benchmark_record_translation b (cs_translation_tier seg) (cs_translation_latency_us seg)
                        (cs_translated_text_bytes seg > 0)) w
                 else w) in
        case present (\<lambda>p. vw_caption_presenter_show_segment (mo_vlc m) (mo_vlc2 m) (p\<lparr>pr_filter_ctx := filter_ctx\<rparr>) seg (- 1) False) w of
          (ok, w) \<Rightarrow>
            (ok, if ok then bench (\<lambda>b. vw_benchmark_record_caption_sent b (mo_clock m)) w
                 else bench (\<lambda>b. vw_benchmark_record_caption_filtered b False False True) w))"

definition tail_frame :: "bool \<Rightarrow> bool \<Rightarrow> vw_payload \<Rightarrow> vw_plugin \<Rightarrow> bool \<times> vw_plugin" where
  "tail_frame source_active filter_ctx payload w =
     (let counted = (\<lambda>w. bench vw_benchmark_record_frame (tally (\<lambda>k. k\<lparr>nc_frames_received := nc_frames_received k + 1\<rparr>) w)) in
      case payload of
        P_CAPTION seg \<Rightarrow>
          (if (case ps_client w of Some c \<Rightarrow> cs_session_id seg \<noteq> cl_session_id c | None \<Rightarrow> True) then (False, counted w)
           else tail_caption source_active filter_ctx seg (counted w))
      | P_STATUS status \<Rightarrow>
          (False, bench (\<lambda>b. vw_benchmark_update_status b status)
             (tally (\<lambda>k. k\<lparr>nc_status_received := nc_status_received k + 1\<rparr>) (counted w)))
      | P_ERROR err \<Rightarrow>
          (False, counted (tally (\<lambda>k. k\<lparr>nc_errors_received := nc_errors_received k + 1\<rparr>)
             (bench (\<lambda>b. snd (vw_plugin_record_translation_error err b)) w)))
      | _ \<Rightarrow> (False, counted w))"

fun tail_loop :: "nat \<Rightarrow> i64 \<Rightarrow> bool \<Rightarrow> bool \<Rightarrow> bool \<Rightarrow> vw_plugin \<Rightarrow> bool \<times> vw_plugin" where
  "tail_loop 0 deadline_us source_active filter_ctx received w = (received, w)"
| "tail_loop (Suc n) deadline_us source_active filter_ctx received w =
     (case now w of (m, w) \<Rightarrow>
        let now_us = mo_clock m in
        if now_us < 0 \<or> now_us \<ge> deadline_us then (received, w)
        else
          let remaining_us = deadline_us - now_us;
              timeout_us = (if remaining_us < 250000 then word_of_int remaining_us else 250000) in
          case call (\<lambda>c. vw_worker_client_receive_frame c timeout_us) (VW_IPC_RECV_FATAL, None) w of ((status, frame), w) \<Rightarrow>
            if status = VW_IPC_RECV_FATAL then (received, w)
            else case frame of
                None \<Rightarrow> tail_loop n deadline_us source_active filter_ctx received w
              | Some r \<Rightarrow>
                  (case tail_frame source_active filter_ctx (wr_payload r) w of (shown, w) \<Rightarrow>
                     tail_loop n deadline_us source_active filter_ctx (received \<or> shown) w))"

definition vw_plugin_presenter_release_preserving_caption :: "vw_caption_presenter \<Rightarrow> unit presenter_result" where
  "vw_plugin_presenter_release_preserving_caption p =
     (case vw_caption_presenter_clear_model_progress p of (_, p, es) \<Rightarrow>
        ((), p\<lparr>pr_has_pending := False, pr_held_vout := None, pr_filter_ctx := False, pr_spu_channel_id := - 1,
           pr_spu_channel_registered := False\<rparr>,
         es @ (case pr_held_vout p of Some v \<Rightarrow> [Release v] | None \<Rightarrow> [])))"

definition show_tail :: "bool \<Rightarrow> vw_plugin \<Rightarrow> vw_plugin" where
  "show_tail filter_ctx w =
     (case now w of (m, w) \<Rightarrow>
        let w = snd (present (\<lambda>p. vw_caption_presenter_flush (mo_vlc m) (mo_vlc2 m) (p\<lparr>pr_filter_ctx := filter_ctx\<rparr>) (- 1) False) w)
        in snd (present vw_plugin_presenter_release_preserving_caption w))"

definition vw_plugin_stop_session_scoped :: "bool \<Rightarrow> vw_plugin \<Rightarrow> vw_plugin" where
  "vw_plugin_stop_session_scoped filter_ctx w =
     (let source_active = (case ps_client w of Some c \<Rightarrow> vw_worker_client_is_source_active c | None \<Rightarrow> False);
          w = snd (call (\<lambda>c. ((), vw_worker_client_stop_session c VW_CTRL_REASON_MEDIA_END)) () w);
          w = snd (call (\<lambda>c. ((), vw_worker_client_shutdown c)) () w) in
      case now w of (m, w) \<Rightarrow>
        let started_us = mo_clock m in
        case (if started_us < 0 then (False, w)
              else tail_loop (length (pl_moments w) + 1) (started_us + 120000000) source_active filter_ctx False w) of
          (received, w) \<Rightarrow> if received then show_tail filter_ctx w else w)"

definition finalize_benchmark :: "vw_plugin \<Rightarrow> vw_plugin" where
  "finalize_benchmark w =
     (if be_active (ps_benchmark w)
      then case now w of (m, w) \<Rightarrow> bench (\<lambda>b. fst (vw_benchmark_finalize (mo_io m) b (mo_clock m))) w
      else w)"

definition vw_plugin_close :: "vw_plugin \<Rightarrow> vw_plugin" where
  "vw_plugin_close w =
     (let w = w\<lparr>pl_attached := False\<rparr>;
          w = (if ps_sender_started w then vw_close_join w else w);
          filter_ctx = pr_filter_ctx (ps_presenter w);
          (m, w) = now w;
          w = snd (present (vw_caption_presenter_clear (mo_vlc m)) w);
          w = (if ps_client w = None then w
               else disconnect
                 (if ps_worker_dead w then snd (call (\<lambda>c. ((), vw_worker_client_shutdown c)) () w)
                  else vw_plugin_stop_session_scoped filter_ctx w))
      in finalize_benchmark w)"

text \<open>The life of a filter instance: opened, run until VLC stops the sender, closed.\<close>

definition vw_plugin_life :: "open_env \<Rightarrow> moment list \<Rightarrow> vw_plugin option" where
  "vw_plugin_life e moments =
     map_option (\<lambda>w. vw_plugin_close (if ps_sender_started w then vw_plugin_sender_main w else w)) (vw_plugin_open e moments)"

end
