(* ===== verification/VW_Plugin_Laws.thy ===== *)
theory VW_Plugin_Laws
  imports VW_Plugin VW_Worker_Client_Props
begin

text \<open>
What every operation of the plugin respects: a relation between states that every single access to the outside, the client and the presenter respects.
\<close>

unbundle bit_operations_syntax

section \<open>What an operation of the module is made of\<close>

text \<open>The part of the state that is shared with the outside; everything else is bookkeeping.\<close>

definition core :: "vw_plugin \<Rightarrow> moment list \<times> bool \<times> vlc_event list \<times> ipc_net list \<times> vw_worker_client option \<times> vw_caption_presenter" where
  "core w = (pl_moments w, pl_attached w, pl_vlc_log w, pl_past w, ps_client w, ps_presenter w)"

definition client_move :: "vw_worker_client \<Rightarrow> vw_worker_client \<Rightarrow> bool" where
  "client_move c c' \<longleftrightarrow> c' = vw_worker_client_shutdown c \<or> (\<exists>x. c' = client_step x c)"

definition presenter_move :: "vw_caption_presenter \<Rightarrow> vw_caption_presenter \<Rightarrow> vlc_event list \<Rightarrow> bool" where
  "presenter_move p p' es \<longleftrightarrow> snd (vw_plugin_presenter_release_preserving_caption p) = (p', es)
     \<or> (\<exists>b x. presenter_step (p\<lparr>pr_filter_ctx := b\<rparr>) x = (p', es))"

text \<open>A relation that every single access respects is respected by every operation.\<close>

locale plugin_relation =
  fixes R :: "vw_plugin \<Rightarrow> vw_plugin \<Rightarrow> bool"
  assumes plain: "core w' = core w \<Longrightarrow> R w w'"
    and trans: "R w1 w2 \<Longrightarrow> R w2 w3 \<Longrightarrow> R w1 w3"
    and moment: "pl_moments w = m # ms \<Longrightarrow> R w (w\<lparr>pl_moments := ms\<rparr>)"
    and client: "ps_client w = Some c \<Longrightarrow> client_move c c' \<Longrightarrow> R w (w\<lparr>ps_client := Some c'\<rparr>)"
    and presenter: "presenter_move (ps_presenter w) p es \<Longrightarrow> R w (w\<lparr>ps_presenter := p, pl_vlc_log := pl_vlc_log w @ es\<rparr>)"
    and launched: "ps_client w = None \<Longrightarrow> R w (launch exe a w)"
    and disconnected: "R w (disconnect w)"
    and with_input: "find_input m w = (input, w1) \<Longrightarrow> R w1 w2 \<Longrightarrow> R w (release_input input w2)"
begin

lemma refl: "R w w"
  by (rule plain) simp

lemma then_plain: "R w w1 \<Longrightarrow> core w2 = core w1 \<Longrightarrow> R w w2"
  using trans plain by blast

end

lemma core_simps [simp]:
  "core (put x w) = core w" "core (bench f w) = core w" "core (loc g w) = core w" "core (cfg h w) = core w"
  "core (tally k w) = core w" "core (set_rate r w) = core w" "core (set_source_url u w) = core w"
  "core (signal_seek t w) = core w" "core (resolve_worker m w) = core w"
  by (simp_all add: core_def put_def bench_def loc_def cfg_def tally_def set_rate_def set_source_url_def signal_seek_def resolve_worker_def)

lemma core_updates [simp]:
  "core (w\<lparr>ps_capture := a\<rparr>) = core w" "core (w\<lparr>ps_worker_path := b\<rparr>) = core w" "core (w\<lparr>ps_worker_dead := c\<rparr>) = core w"
  "core (w\<lparr>ps_discontinuity_pending := c\<rparr>) = core w" "core (w\<lparr>ps_resume_pts_us := d\<rparr>) = core w"
  "core (w\<lparr>ps_source_mode_active := c\<rparr>) = core w" "core (w\<lparr>ps_session_active := c\<rparr>) = core w"
  "core (w\<lparr>ps_paused_preview := e\<rparr>) = core w" "core (w\<lparr>ps_invalid_pts_pending := c\<rparr>) = core w"
  "core (w\<lparr>ps_respawn_count := f\<rparr>) = core w" "core (w\<lparr>ps_benchmark := g\<rparr>) = core w" "core (w\<lparr>ps_model_path := b\<rparr>) = core w"
  "core (w\<lparr>ps_model_download_id := b\<rparr>) = core w" "core (w\<lparr>ps_last_pts_was_invalid := c\<rparr>) = core w" "core (w\<lparr>ps_local := h\<rparr>) = core w"
  by (simp_all add: core_def)

lemma core_filter: "vw_plugin_filter b w = Some w' \<Longrightarrow> core w' = core w"
  by (clarsimp simp: vw_plugin_filter_def Let_def split: option.split_asm if_split_asm prod.split_asm)

lemma core_callback [simp]: "core (run_callback b w) = core w"
  by (auto simp: run_callback_def core_filter split: option.splits)

lemma core_callbacks [simp]: "core (fold run_callback bs w) = core w"
  by (induction bs arbitrary: w) simp_all

lemma core_fields: "core w' = core w \<Longrightarrow> ps_client w' = ps_client w \<and> ps_presenter w' = ps_presenter w \<and> pl_vlc_log w' = pl_vlc_log w
    \<and> pl_past w' = pl_past w \<and> pl_moments w' = pl_moments w \<and> pl_attached w' = pl_attached w"
  by (simp add: core_def)

lemma core_adopt [simp]: "core (adopt_config c w) = core w"
  by (auto simp: adopt_config_def Let_def split: option.splits list.splits)

context plugin_relation
begin

lemma now_rel: "now w = (m, w') \<Longrightarrow> R w w'"
proof (cases "pl_moments w")
  case (Cons x xs)
  then show "now w = (m, w') \<Longrightarrow> R w w'"
    using then_plain[OF moment[OF Cons], of w'] by (auto simp: now_def)
qed (auto simp: now_def refl)

lemma call_rel:
  assumes "call f d w = (r, w')" "\<And>c. client_move c (snd (f c))"
  shows "R w w'"
proof (cases "ps_client w")
  case (Some c)
  then have "w' = w\<lparr>ps_client := Some (snd (f c))\<rparr>" using assms(1) by (auto simp: call_def split: prod.splits)
  then show ?thesis using client[OF Some assms(2)] by simp
qed (use assms(1) in \<open>simp add: call_def refl\<close>)

lemma present_rel:
  assumes "present f w = (r, w')" "\<And>p. \<exists>b x. snd (f p) = presenter_step (p\<lparr>pr_filter_ctx := b\<rparr>) x"
  shows "R w w'"
proof -
  obtain b x where x: "snd (f (ps_presenter w)) = presenter_step ((ps_presenter w)\<lparr>pr_filter_ctx := b\<rparr>) x" using assms(2) by blast
  obtain q es where e: "f (ps_presenter w) = (r, q, es)" "w' = w\<lparr>ps_presenter := q, pl_vlc_log := pl_vlc_log w @ es\<rparr>"
    using assms(1) by (auto simp: present_def split: prod.splits)
  then have "presenter_move (ps_presenter w) q es" using x unfolding presenter_move_def by auto
  then show ?thesis using e(2) presenter by simp
qed

lemma now_then: "R w0 w \<Longrightarrow> now w = (m, w') \<Longrightarrow> R w0 w'"
  using trans now_rel by blast

lemma call_then: "R w0 w \<Longrightarrow> call f d w = (r, w') \<Longrightarrow> (\<And>c. client_move c (snd (f c))) \<Longrightarrow> R w0 w'"
  by (rule trans, assumption, rule call_rel)

lemma present_then: "R w0 w \<Longrightarrow> present f w = (r, w') \<Longrightarrow> (\<And>p. \<exists>b x. snd (f p) = presenter_step (p\<lparr>pr_filter_ctx := b\<rparr>) x) \<Longrightarrow> R w0 w'"
  by (rule trans, assumption, rule present_rel)

end

lemma moves [simp, intro]:
  "client_move c (snd (vw_worker_client_start_session c o1 m u))" "client_move c (snd (vw_worker_client_send_position c p i r fl))"
  "client_move c (snd (vw_worker_client_send_audio c ch))" "client_move c (snd (vw_worker_client_send_model_ctrl c act mo))"
  "client_move c (snd (vw_worker_client_send_translate_ctrl c en sl tl' md))" "client_move c (vw_worker_client_stop_session c rs)"
  "client_move c (vw_worker_client_pause_session c)" "client_move c (vw_worker_client_resume_session c)"
  "client_move c (snd (vw_worker_client_receive_frame c tm))" "client_move c (vw_worker_client_shutdown c)"
  unfolding client_move_def
  using client_step.simps by metis+

lemma ctx_id: "p\<lparr>pr_filter_ctx := pr_filter_ctx p\<rparr> = p"
  by simp

lemma presents [simp, intro]:
  "\<exists>b x. snd (vw_caption_presenter_show_segment e1 e2 p sg t md) = presenter_step (p\<lparr>pr_filter_ctx := b\<rparr>) x"
  "\<exists>b x. snd (vw_caption_presenter_flush e1 e2 p t md) = presenter_step (p\<lparr>pr_filter_ctx := b\<rparr>) x"
  "\<exists>b x. snd (vw_caption_presenter_show_segment e1 e2 (p\<lparr>pr_filter_ctx := c\<rparr>) sg t md) = presenter_step (p\<lparr>pr_filter_ctx := b\<rparr>) x"
  "\<exists>b x. snd (vw_caption_presenter_flush e1 e2 (p\<lparr>pr_filter_ctx := c\<rparr>) t md) = presenter_step (p\<lparr>pr_filter_ctx := b\<rparr>) x"
  "\<exists>b x. snd (vw_caption_presenter_show_paused e1 p sg) = presenter_step (p\<lparr>pr_filter_ctx := b\<rparr>) x"
  "\<exists>b x. snd (vw_caption_presenter_show_model_progress e1 p pr) = presenter_step (p\<lparr>pr_filter_ctx := b\<rparr>) x"
  "\<exists>b x. snd (vw_caption_presenter_clear_model_progress p) = presenter_step (p\<lparr>pr_filter_ctx := b\<rparr>) x"
  "\<exists>b x. snd (vw_caption_presenter_blank e1 p) = presenter_step (p\<lparr>pr_filter_ctx := b\<rparr>) x"
  "\<exists>b x. snd (vw_caption_presenter_clear e1 p) = presenter_step (p\<lparr>pr_filter_ctx := b\<rparr>) x"
  using presenter_step.simps ctx_id by metis+

context plugin_relation
begin

lemma now_snd: "R w0 w \<Longrightarrow> R w0 (snd (now w))"
  using now_then[OF _ prod.collapse[symmetric]] .

lemma call_snd: "R w0 w \<Longrightarrow> (\<And>c. client_move c (snd (f c))) \<Longrightarrow> R w0 (snd (call f d w))"
  by (rule call_then[OF _ prod.collapse[symmetric]])

lemma present_snd: "R w0 w \<Longrightarrow> (\<And>p. \<exists>b x. snd (f p) = presenter_step (p\<lparr>pr_filter_ctx := b\<rparr>) x) \<Longrightarrow> R w0 (snd (present f w))"
  by (rule present_then[OF _ prod.collapse[symmetric]])

lemma clear_progress_rel: "R w0 w \<Longrightarrow> R w0 (clear_progress w)"
  unfolding clear_progress_def by (rule present_snd) auto

lemma blank_rel: "R w0 w \<Longrightarrow> R w0 (blank w)"
  unfolding blank_def by (auto split: prod.split intro: present_snd now_then)

lemma disconnect_rel: "R w0 w \<Longrightarrow> R w0 (disconnect w)"
  using trans disconnected by blast

lemma drop_worker_rel: "R w0 w \<Longrightarrow> R w0 (drop_worker w)"
  unfolding drop_worker_def by (auto intro!: disconnect_rel clear_progress_rel elim: then_plain)

lemma start_session_rel: "R w0 w \<Longrightarrow> start_session u w = (ok, w') \<Longrightarrow> R w0 w'"
  unfolding start_session_def by (auto split: prod.splits intro: then_plain[OF call_then])

lemma send_translation_rel: "R w0 w \<Longrightarrow> send_translation w = (ok, w') \<Longrightarrow> R w0 w'"
  unfolding send_translation_def Let_def by (rule call_then) auto

lemma begin_benchmark_rel: "R w0 w \<Longrightarrow> R w0 (begin_benchmark w)"
  unfolding begin_benchmark_def by (auto split: prod.split intro: then_plain[OF now_then])

lemma launch_rel: "R w0 w \<Longrightarrow> ps_client w = None \<Longrightarrow> R w0 (launch exe a w)"
  using trans launched by blast

lemma input_rel: "R w0 w \<Longrightarrow> find_input m w = (input, w1) \<Longrightarrow> R w1 w2 \<Longrightarrow> R w0 (release_input input w2)"
  using trans with_input by blast

end

lemma client_now [simp]: "now w = (m, w') \<Longrightarrow> ps_client w' = ps_client w"
  using core_fields[OF core_callbacks] by (auto simp: now_def split: list.splits)

lemma disconnect_client [simp]: "ps_client (disconnect w) = None"
  by (auto simp: disconnect_def split: option.splits prod.splits)

lemma drop_worker_client [simp]: "ps_client (drop_worker w) = None"
  by (simp add: drop_worker_def)

lemma core_client [simp]: "ps_client (resolve_worker m w) = ps_client w"
  by (simp add: resolve_worker_def)

context plugin_relation
begin

lemma retry_rel:
  assumes r: "R w0 w" "ps_client w = None"
  shows "R w0 (vw_plugin_launch_with_auto_retry a configured w)"
proof -
  define w1 where "w1 = launch (if ps_worker_path w \<noteq> [] then Some (ps_worker_path w) else None) a w"
  obtain m w2 where m: "now w1 = (m, w2)" by fastforce
  have r1: "R w0 w1" unfolding w1_def by (rule launch_rel[OF r])
  have r2: "R w0 w2" by (rule now_then[OF r1 m])
  have "R w0 (launch exe a w2)" if "ps_client w1 = None" for exe
    by (rule launch_rel[OF r2]) (use client_now[OF m] that in simp)
  then show ?thesis
    unfolding vw_plugin_launch_with_auto_retry_def Let_def w1_def[symmetric] m prod.case
    using r1 r2 by (auto split: option.split)
qed

lemma restart_session_rel: "R w0 w \<Longrightarrow> restart_session paused w = (ok, w') \<Longrightarrow> R w0 w'"
proof -
  assume r: "R w0 w" and e: "restart_session paused w = (ok, w')"
  obtain m w1 where m: "now w = (m, w1)" by fastforce
  obtain input w2 where i: "find_input m w1 = (input, w2)" by fastforce
  define w3 where "w3 = blank (release_input input w2)"
  define url where "url = (if input \<noteq> None \<and> has_capability VW_CAPABILITY_SOURCE_MODE w2 then local_uri m else None)"
  obtain started w4 where s: "start_session url w3 = (started, w4)" by fastforce
  have "R w0 w3" unfolding w3_def by (rule blank_rel[OF input_rel[OF now_then[OF r m] i refl]])
  then have r4: "R w0 (set_source_url url w4)" by (rule then_plain[OF start_session_rel[OF _ s]]) simp
  define w5 where "w5 = snd (send_translation (set_source_url url w4))"
  define w6 where "w6 = (if be_active (ps_benchmark w5) then w5 else begin_benchmark w5)"
  have "R w0 w6" unfolding w6_def w5_def using send_translation_rel[OF r4 prod.collapse[symmetric]] begin_benchmark_rel by auto
  then have r7: "R w0 (if paused then snd (call (\<lambda>c. ((), vw_worker_client_pause_session c)) () w6) else w6)"
    by (auto intro: call_snd)
  have "w' = (if started then tally (\<lambda>n. n\<lparr>nc_chunks_sent := 0, nc_frames_received := 0, nc_segments_received := 0\<rparr>)
      (if paused then snd (call (\<lambda>c. ((), vw_worker_client_pause_session c)) () w6) else w6) else set_source_url url w4)"
    using e unfolding restart_session_def m i prod.case Let_def url_def[symmetric] w3_def[symmetric] s w5_def[symmetric] w6_def[symmetric]
    by (auto split: if_splits)
  then show "R w0 w'" using r4 then_plain[OF r7] by (simp split: if_splits)
qed

lemma respawn_rel: "R w0 w \<Longrightarrow> vw_plugin_respawn_worker paused rec w = (ok, w') \<Longrightarrow> R w0 w'"
proof -
  assume r: "R w0 w" and e: "vw_plugin_respawn_worker paused rec w = (ok, w')"
  define w1 where "w1 = w\<lparr>ps_paused_preview := vw_paused_preview_state_reset_session (ps_paused_preview w)\<rparr>"
  define w2 where "w2 = drop_worker (if rec then w1\<lparr>ps_respawn_count := ps_respawn_count w1 + 1\<rparr> else w1)"
  obtain m w3 where m: "now (w2\<lparr>ps_worker_dead := False\<rparr>) = (m, w3)" by fastforce
  define w4 where "w4 = resolve_worker m w3"
  define w5 where "w5 = vw_plugin_launch_with_auto_retry (launch_args_of m w4) (sn_worker_path (ps_cfg w4) \<noteq> []) w4"
  have r1: "R w0 w1" by (rule then_plain[OF r]) (simp add: w1_def)
  have "R w0 w2" unfolding w2_def by (rule drop_worker_rel) (rule then_plain[OF r1], simp)
  then have "R w0 w3" by (rule now_then[OF then_plain m]) simp
  moreover have "ps_client w3 = None" using client_now[OF m] by (simp add: w2_def)
  ultimately have "R w0 w4" "ps_client w4 = None" unfolding w4_def using then_plain by simp_all
  then have r5: "R w0 w5" unfolding w5_def by (rule retry_rel)
  have "(ok, w') = (if rec \<and> ps_respawn_count w1 \<ge> VW_MAX_WORKER_RESPAWNS then (False, w1)
      else if ps_client w5 = None then (False, w5) else restart_session paused w5)"
    using e unfolding vw_plugin_respawn_worker_def Let_def w1_def[symmetric] w2_def[symmetric] m prod.case w4_def[symmetric] w5_def[symmetric]
    by simp
  then show "R w0 w'" using r1 r5 restart_session_rel[OF r5, of paused ok w'] by (auto split: if_splits)
qed

lemma respawn_snd: "R w0 w \<Longrightarrow> R w0 (snd (vw_plugin_respawn_worker paused rec w))"
  by (rule respawn_rel[OF _ prod.collapse[symmetric]])

lemma model_request_rel:
  assumes r: "R w0 w" and e: "vw_plugin_send_model_request q w = (ok, w')"
  shows "R w0 w'"
proof -
  define act where "act = (if q = ascii ''abort'' then VW_MODEL_ACTION_ABORT else VW_MODEL_ACTION_DOWNLOAD)"
  define i where "i = (if act = VW_MODEL_ACTION_ABORT then [] else q)"
  obtain k w1 where c: "call (\<lambda>c. vw_worker_client_send_model_ctrl c act (Some i)) False w = (k, w1)" by fastforce
  have r1: "R w0 w1" by (rule call_then[OF r c]) auto
  have "w' = w \<or> core w' = core w1"
    using e unfolding vw_plugin_send_model_request_def Let_def act_def[symmetric] i_def[symmetric] c prod.case
    by (simp split: if_split_asm; clarsimp)
  then show ?thesis using r then_plain[OF r1] by blast
qed

lemma relay_model_rel:
  assumes "R w0 w" shows "R w0 (relay_model_request q w)"
proof -
  obtain ok w1 where e: "vw_plugin_send_model_request q w = (ok, w1)" by fastforce
  show ?thesis unfolding relay_model_request_def e prod.case by (rule then_plain[OF model_request_rel[OF assms e]]) simp
qed

lemma relay_translation_rel:
  assumes r: "R w0 w" and e: "relay_translation w = (ok, w')"
  shows "R w0 w'"
proof -
  obtain k w1 where t: "send_translation w = (k, w1)" by fastforce
  have "w' = w \<or> core w' = core w1"
    using e unfolding relay_translation_def t prod.case by (simp split: if_split_asm; clarsimp)
  then show ?thesis using r then_plain[OF send_translation_rel[OF r t]] by blast
qed

lemma activate_rel: "R w0 w \<Longrightarrow> vw_plugin_activate_downloaded_model i paused w = (ok, w') \<Longrightarrow> R w0 w'"
proof -
  assume r: "R w0 w" and e: "vw_plugin_activate_downloaded_model i paused w = (ok, w')"
  obtain m w1 where m: "now w = (m, w1)" by fastforce
  have r1: "R w0 w1" by (rule now_then[OF r m])
  have "R w0 (clear_progress (cfg g (put x w1\<lparr>ps_model_path := q\<rparr>)))" for g x q
    by (rule clear_progress_rel, rule then_plain[OF r1]) simp
  then have a: "vw_plugin_respawn_worker paused False (clear_progress (cfg g (put x w1\<lparr>ps_model_path := q\<rparr>))) = (ok, w') \<Longrightarrow> R w0 w'"
    for g x q using respawn_rel by blast
  show "R w0 w'" using e r r1 a unfolding vw_plugin_activate_downloaded_model_def Let_def m prod.case
    by (auto split: if_splits option.splits)
qed

lemma first_snapshot_rel:
  assumes r: "R w0 w"
  shows "R w0 (first_snapshot t w)"
proof -
  obtain m w1 where m: "now w = (m, w1)" by fastforce
  have c: "R w0 (cfg g w1)" for g by (rule then_plain[OF now_then[OF r m]]) simp
  have "\<exists>g h k. first_snapshot t w = (case relay_translation (cfg g w1) of (ok, w2) \<Rightarrow>
      let w3 = cfg k (if ok then w2 else cfg h w2)
      in if sn_model_download (ps_cfg w3) \<noteq> [] then relay_model_request (sn_model_download (ps_cfg w3)) w3 else w3)"
    unfolding first_snapshot_def m prod.case Let_def by (rule exI)+ (rule HOL.refl)
  then obtain g h k where e: "first_snapshot t w = (case relay_translation (cfg g w1) of (ok, w2) \<Rightarrow>
      let w3 = cfg k (if ok then w2 else cfg h w2)
      in if sn_model_download (ps_cfg w3) \<noteq> [] then relay_model_request (sn_model_download (ps_cfg w3)) w3 else w3)" by blast
  obtain ok w2 where t: "relay_translation (cfg g w1) = (ok, w2)" by fastforce
  have "R w0 (cfg k (if ok then w2 else cfg h w2))" by (rule then_plain[OF relay_translation_rel[OF c t]]) simp
  then show ?thesis unfolding e t prod.case Let_def using relay_model_rel by simp
qed

lemma poll_config_rel: "R w0 w \<Longrightarrow> R w0 (poll_config t w)"
proof -
  assume r: "R w0 w"
  obtain m w1 where m: "now (cfg (\<lambda>s. s\<lparr>sn_last_poll_us := t\<rparr>) w) = (m, w1)" by fastforce
  have r1: "R w0 w1" by (rule now_then[OF then_plain[OF r] m]) simp
  define w2 where "w2 = poll_translation (mo_config m) w1"
  have r2: "R w0 w2" unfolding w2_def poll_translation_def Let_def
    using r1 by (auto intro: relay_translation_rel[OF then_plain[OF r1] prod.collapse[symmetric]])
  define w3 where "w3 = poll_model_request (mo_config m) w2"
  have r3: "R w0 w3" unfolding w3_def poll_model_request_def Let_def
    using r2 by (auto intro: relay_model_rel then_plain[OF r2])
  obtain m' w4 where m': "now (adopt_config (mo_config m) w3) = (m', w4)" by fastforce
  have r4: "R w0 w4" by (rule now_then[OF then_plain[OF r3] m']) simp
  have "R w0 (snd (vw_plugin_respawn_worker q False (cfg g w4)))" for q g by (rule respawn_snd, rule then_plain[OF r4]) simp
  then show "R w0 (poll_config t w)"
    unfolding poll_config_def m prod.case Let_def w2_def[symmetric] w3_def[symmetric] m' using r3 by simp
qed

lemma follow_config_rel:
  assumes "R w0 w" shows "R w0 (follow_config w)"
proof -
  obtain m w1 where m: "now w = (m, w1)" by fastforce
  have "R w0 w1" by (rule now_then[OF assms m])
  then show ?thesis unfolding follow_config_def m prod.case Let_def using first_snapshot_rel poll_config_rel by simp
qed

end

context plugin_relation
begin

lemma pop_rel: "R w0 w \<Longrightarrow> pop_chunk w = (ch, w') \<Longrightarrow> R w0 w'"
proof -
  assume r: "R w0 w" and e: "pop_chunk w = (ch, w')"
  obtain m w1 where m: "now w = (m, w1)" by fastforce
  have "core w' = core w1" using e by (auto simp: pop_chunk_def m split: prod.splits)
  then show "R w0 w'" using then_plain[OF now_then[OF r m]] by blast
qed

lemma drain_loop_rel: "R w0 w \<Longrightarrow> R w0 (drain_loop n w)"
proof (induction n arbitrary: w)
  case (Suc n)
  obtain ch w1 where p: "pop_chunk w = (ch, w1)" by fastforce
  have "R w0 w1" by (rule pop_rel[OF Suc.prems p])
  then show ?case using Suc.IH by (simp add: p split: option.split)
qed simp

lemma drain_rel: "R w0 w \<Longrightarrow> R w0 (drain_queue w)"
  unfolding drain_queue_def by (rule drain_loop_rel)

lemma media_swap_rel: assumes r: "R w0 w" shows "R w0 (media_swap m w)"
proof -
  define n where "n u = (if length u < VW_MAX_SOURCE_URL_BYTES \<and> is_local_source u then u else [])" for u
  define w1 where "w1 = blank ((bench vw_benchmark_reset_live_clock (loc (\<lambda>l. l\<lparr>lo_last_source_seek_us := - 1\<rparr>) w))
      \<lparr>ps_paused_preview := vw_paused_preview_state_reset_session (ps_paused_preview (bench vw_benchmark_reset_live_clock (loc (\<lambda>l. l\<lparr>lo_last_source_seek_us := - 1\<rparr>) w)))\<rparr>)"
  define w2 where "w2 = drain_queue (snd (call (\<lambda>c. ((), vw_worker_client_stop_session c VW_CTRL_REASON_MEDIA_END)) () w1))"
  have "R w0 w1" unfolding w1_def by (rule blank_rel[OF then_plain[OF r]]) simp
  then have r2: "R w0 w2" unfolding w2_def by (intro drain_rel call_snd) auto
  have "R w0 (case start_session u (set_source_url v w2) of (started, w) \<Rightarrow>
      if started then loc (\<lambda>l. l\<lparr>lo_last_position_us := - 1, lo_paused_position_us := - 1\<rparr>) w else w)" for u v
  proof -
    obtain k w3 where k: "start_session u (set_source_url v w2) = (k, w3)" by fastforce
    have "R w0 w3" by (rule start_session_rel[OF then_plain[OF r2] k]) simp
    then show ?thesis using then_plain by (simp add: k)
  qed
  then show ?thesis
    unfolding media_swap_def Let_def n_def[symmetric] w1_def[symmetric] w2_def[symmetric] using r by (auto split: option.split)
qed

lemma report_position_rel:
  assumes r: "R w0 w" and e: "report_position p q h w = (ok, w')"
  shows "R w0 w'"
proof -
  obtain k w1 where k: "send_position p q (paused_flag h) (loc (\<lambda>l. l\<lparr>lo_current_position_us := p\<rparr>) w) = (k, w1)" by fastforce
  have "R w0 w1" by (rule call_then[OF then_plain[OF r] k[unfolded send_position_def]]) auto
  moreover have "w' = w \<or> core w' = core w1" using e unfolding report_position_def k prod.case by (auto split: if_splits)
  ultimately show ?thesis using r then_plain by blast
qed

lemma report_rate_rel:
  assumes r: "R w0 w" and e: "report_rate_and_position p q h w = (ok, w')"
  shows "R w0 w'"
proof -
  obtain k w1 where k: "report_position p q h (loc (\<lambda>l. l\<lparr>lo_last_source_seek_us := - 1\<rparr>) (blank w)) = (k, w1)" by fastforce
  have "R w0 w1" by (rule report_position_rel[OF then_plain[OF blank_rel[OF r]] k]) simp
  then show ?thesis using e r report_position_rel[OF r] then_plain unfolding report_rate_and_position_def k prod.case
    by (auto split: if_splits)
qed

end

lemma core_checks [simp]: "core (check_paused_seek b p w) = core w" "core (check_position_jump b p q w) = core w"
  by (simp_all add: check_paused_seek_def check_position_jump_def Let_def)

context plugin_relation
begin

lemma poll_input_rel:
  assumes r: "R w0 w" and e: "poll_input sp w = (view, w')"
  shows "R w0 w'"
proof -
  obtain m w1 where m: "now w = (m, w1)" by fastforce
  obtain input w2 where i: "find_input m w1 = (input, w2)" by fastforce
  define rate where "rate = (if input \<noteq> None then polled_rate m else 0x3F800000)"
  define w3 where "w3 = (if input \<noteq> None then media_swap m (set_rate rate w2) else w2)"
  obtain m' w4 where m': "now w3 = (m', w4)" by fastforce
  have "R w2 (set_rate rate w2)" by (rule plain) simp
  then have "R w2 w3" unfolding w3_def using refl media_swap_rel by auto
  then have r4: "R w2 w4" by (rule now_then[OF _ m'])
  define p where "p = vw_plugin_input_position_us m' input"
  define q where "q = (input \<noteq> None \<and> mo_input_paused m)"
  define h where "h = (q \<and> \<not> (q \<and> sp \<and> ps_source_mode_active w4))"
  obtain ok w5 where x: "report_rate_and_position p rate h w4 = (ok, w5)" by fastforce
  define w6 where "w6 = (if ok then check_position_jump q p rate (check_paused_seek q p w5) else w5)"
  have x2: "core w6 = core w5" by (simp add: w6_def)
  have x3: "w' = release_input input w6"
    using e unfolding poll_input_def m i prod.case Let_def rate_def[symmetric] w3_def[symmetric] m' p_def[symmetric] q_def[symmetric]
      h_def[symmetric] x w6_def[symmetric] by simp
  have "R w2 w6" by (rule then_plain[OF report_rate_rel[OF r4 x] x2])
  then show ?thesis unfolding x3 by (rule input_rel[OF now_then[OF r m] i])
qed

lemma watch_input_rel:
  assumes r: "R w0 w" and e: "watch_input w = (view, w')"
  shows "R w0 w'"
proof -
  obtain m w1 where m: "now w = (m, w1)" by fastforce
  obtain m' w2 where m': "now w1 = (m', w2)" by fastforce
  have r2: "R w0 w2" by (rule now_then[OF now_then[OF r m] m'])
  have "R w0 (loc g w2)" for g by (rule then_plain[OF r2]) simp
  then show ?thesis using e r2 poll_input_rel unfolding watch_input_def m m' prod.case Let_def by (metis prod.inject)
qed

lemma pause_or_resume_rel: assumes r: "R w0 w" shows "R w0 (pause_or_resume view w)"
proof -
  have a: "R w0 (loc g (snd (call (\<lambda>c. ((), vw_worker_client_pause_session c)) () (blank w))))" for g
    by (rule then_plain[OF call_snd[OF blank_rel[OF r]]]) auto
  have b: "R w0 (loc g (snd (call (\<lambda>c. ((), vw_worker_client_resume_session c)) () (blank (w\<lparr>ps_paused_preview := x\<rparr>)))))" for g x
    by (rule then_plain[OF call_snd[OF blank_rel[OF then_plain[OF r]]]]) auto
  have c: "R w0 (loc g (signal_seek t (loc h w)))" "R w0 (loc g w)" for g t h by (rule then_plain[OF r], simp)+
  show ?thesis unfolding pause_or_resume_def Let_def using r a b c by (auto split: option.split)
qed

lemma send_position_snd: "R w0 w \<Longrightarrow> R w0 (snd (send_position p q fl w))"
  unfolding send_position_def by (rule call_snd) auto

lemma live_epoch_rel: assumes r: "R w0 w" shows "R w0 (live_epoch t w)"
proof -
  define w1 where "w1 = loc (\<lambda>l. l\<lparr>lo_last_position_us := - 1, lo_paused_position_us := - 1,
      lo_current_position_us := (if t \<ge> 0 then t else lo_current_position_us l), lo_last_source_seek_us := - 1\<rparr>)
    (snd (call (\<lambda>c. ((), vw_worker_client_stop_session c VW_CTRL_REASON_SEEK_DISCONTINUITY)) () w))"
  have r1: "R w0 w1" unfolding w1_def by (rule then_plain[OF call_snd[OF r]]) auto
  obtain k w2 where k: "start_session None w1 = (k, w2)" by fastforce
  have r2: "R w0 w2" by (rule start_session_rel[OF r1 k])
  then have "R w0 (snd (send_translation w2))" by (rule send_translation_rel[OF _ prod.collapse[symmetric]])
  then show ?thesis unfolding live_epoch_def Let_def w1_def[symmetric] k prod.case using r1 r2 send_position_snd by auto
qed

lemma source_seek_rel: assumes r: "R w0 w" shows "R w0 (source_seek t b w)"
proof -
  obtain ok w1 where k: "send_position t (lo_last_playback_rate (ps_local w)) (ucast (vw_paused_preview_seek_flags (lo_paused (ps_local w)) b))
      (loc (\<lambda>l. l\<lparr>lo_last_source_seek_us := t\<rparr>) w) = (ok, w1)" by fastforce
  have "R w0 w1" by (rule call_then[OF then_plain[OF r] k[unfolded send_position_def]]) auto
  then have "R w0 w1" "R w0 (w1\<lparr>ps_worker_dead := True\<rparr>)" using then_plain[of w0 w1 "w1\<lparr>ps_worker_dead := True\<rparr>"] by simp_all
  then show ?thesis unfolding source_seek_def k prod.case using r by simp
qed

lemma discontinuity_rel: assumes r: "R w0 w" shows "R w0 (handle_discontinuity sp w)"
proof -
  obtain m w1 where m: "now w = (m, w1)" by fastforce
  have r1: "R w0 w1" by (rule now_then[OF r m])
  define w2 where "w2 = w1\<lparr>ps_discontinuity_pending := False\<rparr>"
  have r2: "R w0 w2" unfolding w2_def by (rule then_plain[OF r1]) simp
  have a: "R w0 (drain_queue (bench vw_benchmark_reset_live_clock (w2\<lparr>ps_paused_preview := x\<rparr>)))" for x
    by (rule drain_rel[OF then_plain[OF r2]]) simp
  have b: "R w0 (drain_queue (bench vw_benchmark_reset_live_clock ((blank w2)\<lparr>ps_paused_preview := x\<rparr>)))" for x
    by (rule drain_rel[OF then_plain[OF blank_rel[OF r2]]]) simp
  show ?thesis unfolding handle_discontinuity_def m prod.case Let_def w2_def[symmetric]
    using r1 source_seek_rel[OF then_plain[OF a]] source_seek_rel[OF then_plain[OF b]] live_epoch_rel[OF then_plain[OF a]] live_epoch_rel[OF then_plain[OF b]]
    by simp
qed

lemma drain_invalid_rel: assumes r: "R w0 w" shows "R w0 (drain_invalid w)"
proof -
  obtain m w1 where m: "now w = (m, w1)" by fastforce
  have r1: "R w0 w1" by (rule now_then[OF r m])
  obtain m' w2 where m': "now (drain_queue w1) = (m', w2)" by fastforce
  have "R w0 w2" by (rule now_then[OF drain_rel[OF r1] m'])
  then show ?thesis unfolding drain_invalid_def m m' prod.case using r1 then_plain by simp
qed

lemma forward_loop_rel: "R w0 w \<Longrightarrow> forward_loop n d s w = (s', w') \<Longrightarrow> R w0 w'"
proof (induction n arbitrary: s w)
  case (Suc n)
  obtain ch w1 where p: "pop_chunk w = (ch, w1)" by fastforce
  have r1: "R w0 w1" by (rule pop_rel[OF Suc.prems(1) p])
  show ?case
  proof (cases "ch = None \<or> d")
    case True
    then show ?thesis using Suc.prems(2) Suc.IH r1 by (auto simp: p split: option.splits)
  next
    case False
    then obtain c where c: "ch = Some c" "\<not> d" by (cases ch) auto
    obtain ok w2 where k: "call (\<lambda>x. vw_worker_client_send_audio x c) False (tally (\<lambda>k. k\<lparr>nc_chunks_sent := nc_chunks_sent k + 1\<rparr>) w1) = (ok, w2)"
      by fastforce
    have r2: "R w0 w2" by (rule call_then[OF then_plain[OF r1] k]) auto
    obtain m w3 where m: "now w2 = (m, w3)" by fastforce
    have "R w0 (bench f w3)" for f by (rule then_plain[OF now_then[OF r2 m]]) simp
    then show ?thesis using Suc.prems(2) c r2 Suc.IH then_plain[OF r2, of "w2\<lparr>ps_worker_dead := True\<rparr>"]
      by (simp add: p k m Let_def split: if_splits) blast
  qed
qed simp

lemma note_shown_rel: assumes r: "R w0 w" shows "R w0 (note_shown ok w)"
proof -
  obtain m w1 where m: "now w = (m, w1)" by fastforce
  show ?thesis unfolding note_shown_def m prod.case using then_plain[OF r] then_plain[OF now_then[OF r m]] by simp
qed

lemma show_caption_rel: assumes r: "R w0 w" shows "R w0 (show_caption s sp seg w)"
proof -
  obtain m w1 where m: "now w = (m, w1)" by fastforce
  obtain m' w2 where m': "now (w\<lparr>ps_paused_preview := snd (vw_paused_preview_take (ps_paused_preview w))\<rparr>) = (m', w2)" by fastforce
  have r1: "R w0 w1" by (rule now_then[OF r m])
  have r2: "R w0 w2" by (rule now_then[OF then_plain[OF r] m']) simp
  have a: "present (\<lambda>p. vw_caption_presenter_show_segment e e' p seg t s) w1 = (ok, w3) \<Longrightarrow> R w0 w3" for e e' t ok w3
    by (erule present_then[OF r1]) auto
  have b: "present (\<lambda>p. vw_caption_presenter_show_paused e p seg) w2 = (ok, w3) \<Longrightarrow> R w0 w3" for e ok w3
    by (erule present_then[OF r2]) auto
  show ?thesis unfolding show_caption_def m m' prod.case using a b note_shown_rel then_plain[OF r] by (auto split: prod.split)
qed

lemma on_caption_rel: assumes r: "R w0 w" shows "R w0 (on_caption s sp seg w)"
proof -
  obtain m w1 where m: "now (tally (\<lambda>k. k\<lparr>nc_segments_received := nc_segments_received k + 1\<rparr>) w) = (m, w1)" by fastforce
  have "R w0 w1" by (rule now_then[OF then_plain[OF r] m]) simp
  then have "R w0 (bench f w1)" "R w0 (bench g (bench f w1))" for f g by (auto elim: then_plain)
  then show ?thesis unfolding on_caption_def m prod.case Let_def using show_caption_rel then_plain[OF r] by simp
qed

lemma on_progress_rel: assumes r: "R w0 w" shows "R w0 (on_progress pr w)"
proof -
  define w1 where "w1 = put (Put_Psz ''whisper-model-status'' (snprintf_cut 80 (ascii (stage_name (mp_stage pr)) @ ascii '':'' @ c_str (mp_model_id pr))))
      (put (Put_Int ''whisper-model-progress'' (int (unat (mp_pct pr)))) w)"
  have r1: "R w0 w1" unfolding w1_def by (rule then_plain[OF r]) simp
  obtain m v where m: "now w1 = (m, v)" by fastforce
  define w2 where "w2 = (if mp_stage pr = 0 then clear_progress w1
      else snd (present (\<lambda>p. vw_caption_presenter_show_model_progress (mo_vlc m) p pr) v))"
  have r2: "R w0 w2" unfolding w2_def
    by (cases "mp_stage pr = 0") (simp_all add: clear_progress_rel[OF r1] present_snd[OF now_then[OF r1 m] presents(6)])
  define w3 where "w3 = (if mp_stage pr = 4 then (clear_progress w2)\<lparr>ps_model_download_id := []\<rparr> else w2)"
  have r3: "R w0 w3" unfolding w3_def using r2 then_plain[OF clear_progress_rel[OF r2]] by auto
  have "R w0 ((clear_progress w3)\<lparr>ps_model_download_id := []\<rparr>)" by (rule then_plain[OF clear_progress_rel[OF r3]]) simp
  then have a: "vw_plugin_activate_downloaded_model i b ((clear_progress w3)\<lparr>ps_model_download_id := []\<rparr>) = (ok, w4) \<Longrightarrow> R w0 w4"
    for i b ok w4 by (rule activate_rel)
  have "vw_plugin_activate_downloaded_model i b ((clear_progress w3)\<lparr>ps_model_download_id := []\<rparr>) = (ok, w4) \<Longrightarrow> R w0 (clear_progress (put x w4))"
    for i b ok w4 x by (rule clear_progress_rel, drule a, erule then_plain) simp
  with a show ?thesis unfolding on_progress_def Let_def w1_def[symmetric] m prod.case w2_def[symmetric] w3_def[symmetric]
    using r3 by (auto split: prod.split)
qed

lemma on_frame_rel: assumes r: "R w0 w" shows "R w0 (on_frame s sp pl w)"
proof -
  have c: "R w0 (bench f (tally g w))" for f g by (rule then_plain[OF r]) simp
  have "core (on_status st v) = core v" "core (on_error er v) = core v" for st er v
    by (simp_all add: on_status_def on_error_def Let_def)
  then have "R w0 (on_status st (bench f (tally g w)))" "R w0 (on_error er (bench f (tally g w)))" for st er f g
    using then_plain[OF c] by simp_all
  moreover have "R w0 (bench f (tally g (tally h (w\<lparr>ps_benchmark := b\<rparr>))))" for f g h b by (rule then_plain[OF r]) simp
  ultimately show ?thesis unfolding on_frame_def Let_def
    using c on_caption_rel on_progress_rel by (auto split: vw_payload.split prod.split)
qed

lemma exchange_rel: assumes r: "R w0 w" shows "R w0 (exchange sp w)"
proof -
  obtain s w1 where f: "forward_audio w = (s, w1)" by fastforce
  have r1: "R w0 w1" by (rule forward_loop_rel[OF r f[unfolded forward_audio_def]])
  obtain st fr w2 where k: "call (\<lambda>c. vw_worker_client_receive_frame c (if s then 5000 else 20000)) (VW_IPC_RECV_FATAL, None) w1 = ((st, fr), w2)"
    by (metis surj_pair)
  have r2: "R w0 w2" by (rule call_then[OF r1 k]) auto
  have a: "R w0 (receive_fatal w2)" unfolding receive_fatal_def by (rule clear_progress_rel[OF then_plain[OF r2]]) simp
  have fl: "R w0 v \<Longrightarrow> R w0 (flush_pending b v)" for v b
    unfolding flush_pending_def Let_def by (auto split: prod.split intro!: present_snd elim: now_then)
  have fb: "R w0 (flush_benchmark v)" if v: "R w0 v" for v
  proof -
    obtain m v' where m: "now v = (m, v')" by fastforce
    show ?thesis unfolding flush_benchmark_def m prod.case by (rule then_plain[OF now_then[OF v m]]) simp
  qed
  show ?thesis unfolding exchange_def Let_def f k prod.case using r1 r2 a fl fb on_frame_rel by (auto split: option.split)
qed

lemma serve_rel: assumes r: "R w0 w" shows "R w0 (serve w)"
proof -
  obtain v w1 where v: "watch_input w = (v, w1)" by fastforce
  have "R w0 w1" by (rule watch_input_rel[OF r v])
  then show ?thesis unfolding serve_def v prod.case
    using exchange_rel drain_invalid_rel discontinuity_rel pause_or_resume_rel by simp
qed

lemma idle_rel: assumes r: "R w0 w" shows "R w0 (idle w)"
proof -
  obtain m w1 where m: "now w = (m, w1)" by fastforce
  have r1: "R w0 w1" by (rule now_then[OF r m])
  show ?thesis unfolding idle_def m prod.case using r1 respawn_snd[OF then_plain[OF r1]] by simp
qed

lemma sender_pass_rel: assumes r: "R w0 w" and e: "sender_pass w = (go, w')" shows "R w0 w'"
proof -
  define w1 where "w1 = follow_config w"
  have r1: "R w0 w1" unfolding w1_def by (rule follow_config_rel[OF r])
  obtain ok w2 where k: "vw_plugin_respawn_worker (lo_paused (ps_local w1)) True w1 = (ok, w2)" by fastforce
  have r2: "R w0 w2" by (rule respawn_rel[OF r1 k])
  show ?thesis using e unfolding sender_pass_def Let_def w1_def[symmetric] k prod.case
    using r2 then_plain[OF r2] idle_rel[OF r1] serve_rel[OF r1] by (auto split: if_splits)
qed

lemma sender_loop_rel: "R w0 w \<Longrightarrow> R w0 (sender_loop n w)"
proof (induction n arbitrary: w)
  case (Suc n)
  obtain m w1 where m: "now w = (m, w1)" by fastforce
  obtain go w2 where g: "sender_pass w1 = (go, w2)" by fastforce
  have r1: "R w0 w1" by (rule now_then[OF Suc.prems m])
  then show ?case using Suc.IH sender_pass_rel[OF r1 g] by (simp add: m g)
qed simp

lemma sender_start_rel: assumes r: "R w0 w" shows "R w0 (sender_start w)"
proof -
  obtain m w1 where m: "now w = (m, w1)" by fastforce
  obtain input w2 where i: "find_input m w1 = (input, w2)" by fastforce
  define url where "url = (if input \<noteq> None then local_uri m else None)"
  define v' where "v' = release_input input (if url \<noteq> None then set_source_url url w2 else w2)"
  have a: "R w0 v'" unfolding v'_def by (rule input_rel[OF now_then[OF r m] i]) (rule plain, simp)
  define v where "v = (if has_capability VW_CAPABILITY_SOURCE_MODE w then v' else w)"
  define u where "u = (if has_capability VW_CAPABILITY_SOURCE_MODE w then url else None)"
  have v: "R w0 v" using r a by (simp add: v_def)
  have e: "sender_start w = (case start_session u v of (started, w) \<Rightarrow> if started then begin_benchmark w else w)"
    unfolding sender_start_def m prod.case i Let_def url_def[symmetric] v'_def[symmetric] u_def v_def by simp
  obtain k w3 where k: "start_session u v = (k, w3)" by fastforce
  have "R w0 w3" by (rule start_session_rel[OF v k])
  then show ?thesis using begin_benchmark_rel by (simp add: e k)
qed

lemma sender_main_rel: assumes r: "R w0 w" shows "R w0 (vw_plugin_sender_main w)"
  unfolding vw_plugin_sender_main_def Let_def
  by (rule sender_loop_rel, rule then_plain[OF sender_start_rel[OF r]]) simp

end

end
