(* ===== verification/VW_Plugin_Accounts.thy ===== *)
theory VW_Plugin_Accounts
  imports VW_Plugin_Laws
begin

text \<open>
Instances of the relation: worker processes and connections, references to VLC objects, and the moments that bound the loops.
\<close>

unbundle bit_operations_syntax

section \<open>A client closes its pipe at most once\<close>

text \<open>Unlike \<^const>\<open>advance\<close> this holds whatever the arguments of the operations are.\<close>

definition kept :: "vw_worker_client \<Rightarrow> vw_worker_client \<Rightarrow> bool" where
  "kept c c' \<longleftrightarrow> pipe_once c c' \<and> cl_process c' = cl_process c"

lemma kept_trans: "kept a b \<Longrightarrow> kept b c \<Longrightarrow> kept a c"
  by (auto simp: kept_def intro: pipe_once_trans)

lemma kept_same: "cl_pipe c' = cl_pipe c \<Longrightarrow> cl_process c' = cl_process c \<Longrightarrow> nt_events (cl_net c') = nt_events (cl_net c) \<Longrightarrow> kept c c'"
  by (simp add: kept_def pipe_once_def)

lemma kept_refl [simp]: "kept c c"
  by (simp add: kept_same)

lemma kept_still: "still c c' \<Longrightarrow> kept c c'"
  by (simp add: kept_def still_def)

lemma kept_quiet: "quiet c c' bs \<Longrightarrow> kept c c'"
  by (rule kept_still[OF quiet_still])

lemma kept_sent: "sent c c' m \<Longrightarrow> kept c c'"
  by (auto simp: sent_def intro: kept_same)

lemma kept_failed: "failed c c' \<Longrightarrow> kept c c'"
  by (auto simp: failed_def kept_def pipe_once_def vw_worker_client_drop_transport_def)

lemma kept_drop: "kept c (vw_worker_client_drop_transport c)"
  by (rule kept_still) simp

lemma kept_control: "send_control_frame t r c = (ok, c') \<Longrightarrow> kept c c'"
  by (erule send_control_frame_cases) (auto intro: kept_sent kept_failed)

lemma kept_message: "send_message t body c = (ok, c') \<Longrightarrow> kept c c'"
  by (erule send_message_cases) (auto intro: kept_sent kept_failed)

lemma kept_remember: "kept c (remember_translation e s t m c)"
  by (rule kept_same) (simp_all add: remember_translation_def)

lemma kept_position_frame: "vw_worker_client_send_position_frame c pts input rate flags = (ok, c') \<Longrightarrow> kept c c'"
  by (auto simp: vw_worker_client_send_position_frame_def Let_def split: option.splits if_splits intro: kept_message)

lemma kept_translate: "vw_worker_client_send_translate_ctrl c e s t m = (ok, c') \<Longrightarrow> kept c c'"
  by (auto simp: vw_worker_client_send_translate_ctrl_def Let_def split: option.splits if_splits prod.splits
      intro: kept_remember kept_trans[OF kept_message kept_remember] dest: kept_message)

lemma kept_audio: "vw_worker_client_send_audio c ch = (ok, c') \<Longrightarrow> kept c c'"
  by (auto simp: vw_worker_client_send_audio_def Let_def split: option.splits if_splits intro: kept_message)

lemma kept_model: "vw_worker_client_send_model_ctrl c a m = (ok, c') \<Longrightarrow> kept c c'"
  by (auto simp: vw_worker_client_send_model_ctrl_def Let_def split: option.splits if_splits intro: kept_message)

lemma kept_fresh: "nt_events n = nt_events (cl_net c) \<Longrightarrow> kept c (fresh_epoch sid c n)"
  by (rule kept_same) (simp_all add: fresh_epoch_def)

lemma kept_start:
  assumes "vw_worker_client_start_session c origin model url = (ok, c')"
  shows "kept c c'"
  using assms
proof (cases rule: start_session_cases)
  case (no_random n)
  then show ?thesis by (auto intro: kept_same)
next
  case (unsent sid n)
  then show ?thesis by (simp add: kept_fresh)
next
  case (lost sid n)
  then show ?thesis by (auto intro: kept_trans[OF kept_fresh kept_failed])
next
  case (asked sid n body c1 c2)
  have k: "kept c c2" by (rule kept_trans[OF kept_fresh[OF asked(5)] kept_trans[OF kept_sent[OF asked(10)] kept_quiet[OF asked(11)]]])
  have p: "cl_pipe c2" using asked(2,10) quiet_fields(1)[OF asked(11)] by (auto simp: sent_def fresh_epoch_def)
  from asked(12) show ?thesis
  proof
    assume "\<exists>dl. start_loop dl (start_message (fresh_epoch sid c n) origin model url) c2 = (ok, c')"
    then show ?thesis using start_loop_waited[OF _ p] kept_trans[OF k kept_still] by (auto simp: waited_def)
  qed (use k in simp)
qed simp

lemma kept_restart: "restart_epoch c pts = (ok, c') \<Longrightarrow> kept c c'"
proof -
  assume e: "restart_epoch c pts = (ok, c')"
  obtain k1 c1 where k1: "send_control_frame VW_MSG_STOP_SESSION VW_CTRL_REASON_SEEK_DISCONTINUITY c = (k1, c1)" by fastforce
  let ?c1 = "c1\<lparr>cl_session_active := False, cl_worker_source_active := False\<rparr>"
  have a: "kept c c1" "kept c ?c1" using kept_control[OF k1] kept_trans[OF kept_control[OF k1] kept_same[of ?c1 c1]] by simp_all
  have b: "vw_worker_client_start_session ?c1 o1 m u = (k, c2) \<Longrightarrow> kept c c2" for o1 m u k c2
    by (rule kept_trans[OF a(2) kept_start])
  show ?thesis using e a b kept_trans[OF b kept_drop] kept_trans[OF b kept_translate]
    unfolding restart_epoch_def Let_def k1 prod.case by (auto split: if_splits prod.splits)
qed

lemma kept_position: "vw_worker_client_send_position c pts input rate flags = (ok, c') \<Longrightarrow> kept c c'"
  by (auto simp: vw_worker_client_send_position_def Let_def split: if_splits prod.splits
      intro: kept_position_frame kept_restart kept_trans[OF kept_restart kept_position_frame])

lemma kept_receive: "vw_worker_client_receive_frame c t = (r, c') \<Longrightarrow> kept c c'"
  by (erule receive_cases) (auto intro: kept_quiet kept_trans[OF kept_quiet kept_still])

lemma kept_stop: "kept c (vw_worker_client_stop_session c reason)"
proof -
  obtain k c1 where k: "send_control_frame VW_MSG_STOP_SESSION (if reason = 0 then VW_CTRL_REASON_USER_STOP else reason) c = (k, c1)" by fastforce
  have "kept c (c1\<lparr>cl_session_active := False, cl_worker_source_active := False\<rparr>)"
    by (rule kept_trans[OF kept_control[OF k] kept_same]) simp_all
  moreover have "kept c (c1\<lparr>cl_session_active := False\<rparr>)"
    by (rule kept_trans[OF kept_control[OF k] kept_same]) simp_all
  ultimately show ?thesis using kept_control[OF k] by (simp add: vw_worker_client_stop_session_def Let_def k split: if_splits)
qed

lemma kept_shutdown: "kept c (vw_worker_client_shutdown c)"
proof -
  let ?c = "c\<lparr>cl_sequence := cl_sequence c + 1\<rparr>"
  have "kept c (snd (on_net (vw_ipc_send hdr) ?c))" for hdr
  proof -
    obtain k c1 where k: "on_net (vw_ipc_send hdr) ?c = (k, c1)" by fastforce
    from on_net_send[OF k] show ?thesis unfolding k by (auto intro: kept_same)
  qed
  moreover have "kept c ?c" by (rule kept_same) simp_all
  ultimately show ?thesis by (simp add: vw_worker_client_shutdown_def Let_def split: option.split)
qed

lemma kept_move: "client_move c c' \<Longrightarrow> kept c c'"
  unfolding client_move_def
proof (elim disjE exE)
  show "c' = vw_worker_client_shutdown c \<Longrightarrow> kept c c'" using kept_shutdown by simp
next
  fix x assume "c' = client_step x c"
  then show "kept c c'"
    using kept_stop kept_control
    by (cases x) (auto simp: vw_worker_client_pause_session_def vw_worker_client_resume_session_def
        intro: kept_start[OF prod.collapse[symmetric]] kept_position[OF prod.collapse[symmetric]] kept_audio[OF prod.collapse[symmetric]]
          kept_model[OF prod.collapse[symmetric]] kept_translate[OF prod.collapse[symmetric]] kept_receive[OF prod.collapse[symmetric]] kept_control[OF prod.collapse[symmetric]]
        split: prod.splits)
qed

section \<open>Closing, for every relation\<close>

context plugin_relation
begin

lemma close_audio_rel: "R w0 w \<Longrightarrow> R w0 (vw_plugin_drain_close_audio n w)"
proof (induction n arbitrary: w)
  case (Suc n)
  obtain ch w1 where p: "pop_chunk w = (ch, w1)" by fastforce
  have r1: "R w0 w1" by (rule pop_rel[OF Suc.prems p])
  show ?case
  proof (cases ch)
    case (Some c)
    obtain ok w2 where k: "call (\<lambda>x. vw_worker_client_send_audio x c) False w1 = (ok, w2)" by fastforce
    have r2: "R w0 w2" by (rule call_then[OF r1 k]) auto
    obtain m w3 where m: "now (tally (\<lambda>k. k\<lparr>nc_chunks_sent := nc_chunks_sent k + 1\<rparr>) w2) = (m, w3)" by fastforce
    have "R w0 w3" by (rule now_then[OF then_plain[OF r2] m]) simp
    then have "R w0 (bench f w3)" for f by (rule then_plain) simp
    then show ?thesis using r2 Suc.IH by (simp add: p Some k m)
  qed (simp add: p r1)
qed simp

lemma close_join_rel: "R w0 w \<Longrightarrow> R w0 (vw_close_join w)"
  unfolding vw_close_join_def using close_audio_rel by (simp split: option.split)

lemma tail_caption_rel:
  assumes r: "R w0 w" and e: "tail_caption s b seg w = (ok, w')"
  shows "R w0 w'"
proof -
  obtain m w1 where m: "now (tally (\<lambda>k. k\<lparr>nc_segments_received := nc_segments_received k + 1\<rparr>) w) = (m, w1)" by fastforce
  have r1: "R w0 w1" by (rule now_then[OF then_plain[OF r] m]) simp
  define w2 where "w2 = (let w = bench (\<lambda>b. vw_benchmark_record_caption_received b seg (mo_clock m) s) w1 in
      if cs_translation_attempted seg
      then bench (\<lambda>b. vw_benchmark_record_translation b (cs_translation_tier seg) (cs_translation_latency_us seg)
             (cs_translated_text_bytes seg > 0)) w else w)"
  have r2: "R w0 w2" by (rule then_plain[OF r1]) (simp add: w2_def Let_def)
  obtain k w3 where k: "present (\<lambda>p. vw_caption_presenter_show_segment (mo_vlc m) (mo_vlc2 m) (p\<lparr>pr_filter_ctx := b\<rparr>) seg (- 1) False) w2 = (k, w3)"
    by fastforce
  have r3: "R w0 w3" by (rule present_then[OF r2 k]) auto
  have "core w' = core w3"
    using e unfolding tail_caption_def m prod.case Let_def w2_def[unfolded Let_def, symmetric] k by auto
  then show ?thesis by (rule then_plain[OF r3])
qed

lemma tail_frame_rel: "R w0 w \<Longrightarrow> tail_frame s b pl w = (ok, w') \<Longrightarrow> R w0 w'"
proof -
  assume r: "R w0 w" and e: "tail_frame s b pl w = (ok, w')"
  have c: "R w0 (bench f (tally g w))" for f g by (rule then_plain[OF r]) simp
  have d: "core w' = core w \<Longrightarrow> R w0 w'" by (rule then_plain[OF r])
  show "R w0 w'" using e d tail_caption_rel[OF c] unfolding tail_frame_def Let_def
    by (cases pl) (auto split: if_splits)
qed

lemma tail_loop_rel: "R w0 w \<Longrightarrow> tail_loop n dl s b got w = (got', w') \<Longrightarrow> R w0 w'"
proof (induction n arbitrary: got w)
  case (Suc n)
  obtain m w1 where m: "now w = (m, w1)" by fastforce
  have r1: "R w0 w1" by (rule now_then[OF Suc.prems(1) m])
  define tm :: u32 where "tm = (if dl - mo_clock m < 250000 then word_of_int (dl - mo_clock m) else 250000)"
  obtain st fr w2 where k: "call (\<lambda>c. vw_worker_client_receive_frame c tm) (VW_IPC_RECV_FATAL, None) w1 = ((st, fr), w2)"
    by (metis surj_pair)
  have r2: "R w0 w2" by (rule call_then[OF r1 k]) auto
  have f: "R w0 w3" if "tail_frame s b q w2 = (sh, w3)" for q sh w3 using tail_frame_rel[OF r2 that] .
  have e: "(got', w') = (if mo_clock m < 0 \<or> mo_clock m \<ge> dl then (got, w1) else if st = VW_IPC_RECV_FATAL then (got, w2)
      else case fr of None \<Rightarrow> tail_loop n dl s b got w2
        | Some r \<Rightarrow> (case tail_frame s b (wr_payload r) w2 of (sh, w3) \<Rightarrow> tail_loop n dl s b (got \<or> sh) w3))"
    using Suc.prems(2) unfolding tail_loop.simps m prod.case Let_def tm_def[symmetric] k by simp
  show ?case
  proof (cases fr)
    case None
    then show ?thesis using e r1 r2 Suc.IH[OF r2] by (auto split: if_splits)
  next
    case (Some r)
    obtain sh w3 where t: "tail_frame s b (wr_payload r) w2 = (sh, w3)" by fastforce
    show ?thesis using e r1 r2 Suc.IH[OF f[OF t]] by (auto simp: Some t split: if_splits)
  qed
qed simp

lemma show_tail_rel: assumes r: "R w0 w" shows "R w0 (show_tail b w)"
proof -
  obtain m w1 where m: "now w = (m, w1)" by fastforce
  define w2 where "w2 = snd (present (\<lambda>p. vw_caption_presenter_flush (mo_vlc m) (mo_vlc2 m) (p\<lparr>pr_filter_ctx := b\<rparr>) (- 1) False) w1)"
  have r2: "R w0 w2" unfolding w2_def by (rule present_snd[OF now_then[OF r m]]) auto
  obtain p es where p: "vw_plugin_presenter_release_preserving_caption (ps_presenter w2) = ((), p, es)"
    by (metis prod_cases3 unit.exhaust)
  have "presenter_move (ps_presenter w2) p es" by (simp add: presenter_move_def p)
  from trans[OF r2 presenter[OF this]] show ?thesis
    unfolding show_tail_def m prod.case Let_def w2_def[symmetric] by (simp add: present_def p)
qed

lemma stop_scoped_rel: assumes r: "R w0 w" shows "R w0 (vw_plugin_stop_session_scoped b w)"
proof -
  define s where "s = (case ps_client w of Some c \<Rightarrow> vw_worker_client_is_source_active c | None \<Rightarrow> False)"
  define w1 where "w1 = snd (call (\<lambda>c. ((), vw_worker_client_shutdown c)) ()
      (snd (call (\<lambda>c. ((), vw_worker_client_stop_session c VW_CTRL_REASON_MEDIA_END)) () w)))"
  have r1: "R w0 w1" unfolding w1_def by (rule call_snd[OF call_snd[OF r]]) auto
  obtain m w2 where m: "now w1 = (m, w2)" by fastforce
  have r2: "R w0 w2" by (rule now_then[OF r1 m])
  obtain got w3 where t: "tail_loop (length (pl_moments w2) + 1) (mo_clock m + 120000000) s b False w2 = (got, w3)" by fastforce
  have r3: "R w0 w3" by (rule tail_loop_rel[OF r2 t])
  show ?thesis
    unfolding vw_plugin_stop_session_scoped_def Let_def s_def[symmetric] w1_def[symmetric] m prod.case t
    using r2 r3 show_tail_rel[OF r3] by simp
qed

lemma finalize_rel: assumes r: "R w0 w" shows "R w0 (finalize_benchmark w)"
proof -
  obtain m w1 where m: "now w = (m, w1)" by fastforce
  show ?thesis unfolding finalize_benchmark_def m prod.case using r then_plain[OF now_then[OF r m]] by simp
qed

lemma close_rel:
  assumes r: "R w0 (w\<lparr>pl_attached := False\<rparr>)"
  shows "R w0 (vw_plugin_close w)"
proof -
  define w1 where "w1 = (if ps_sender_started w then vw_close_join (w\<lparr>pl_attached := False\<rparr>) else w\<lparr>pl_attached := False\<rparr>)"
  have r1: "R w0 w1" using r close_join_rel[OF r] by (simp add: w1_def)
  obtain m w2 where m: "now w1 = (m, w2)" by fastforce
  define b where "b = pr_filter_ctx (ps_presenter w1)"
  define w3 where "w3 = snd (present (vw_caption_presenter_clear (mo_vlc m)) w2)"
  have r3: "R w0 w3" unfolding w3_def by (rule present_snd[OF now_then[OF r1 m]]) auto
  have r4: "R w0 (snd (call (\<lambda>c. ((), vw_worker_client_shutdown c)) () w3))" by (rule call_snd[OF r3]) auto
  show ?thesis
    unfolding vw_plugin_close_def Let_def
    using r1 r3 disconnect_rel[OF r4] disconnect_rel[OF stop_scoped_rel[OF r3, of b]]
    by (auto simp: w1_def[symmetric] m w3_def[symmetric] b_def[symmetric] intro!: finalize_rel)
qed

end

section \<open>Worker processes and connections\<close>

definition releasable :: "vw_worker_client \<Rightarrow> bool" where
  "releasable c \<longleftrightarrow> (\<forall>exited. balanced (nt_events (vw_worker_client_disconnect exited c)))"

definition accounted :: "vw_plugin \<Rightarrow> bool" where
  "accounted w \<longleftrightarrow> list_all (\<lambda>n. balanced (nt_events n)) (pl_past w) \<and> (case ps_client w of Some c \<Rightarrow> releasable c | None \<Rightarrow> True)"

lemma disconnect_events:
  "nt_events (vw_worker_client_disconnect exited c) = nt_events (cl_net c) @ (if cl_pipe c then [Pipe_Close] else [])
     @ (if cl_process c then [Proc_Wait 5000, if exited then Proc_Close else Proc_Terminate] else []) @ [Client_Free]"
  by (simp add: vw_worker_client_disconnect_def Let_def log_event_def end_process_def)

lemma releasable_kept: "releasable c \<Longrightarrow> kept c c' \<Longrightarrow> releasable c'"
proof -
  assume "releasable c" and k: "kept c c'"
  have "nt_events (vw_worker_client_disconnect exited c') = nt_events (vw_worker_client_disconnect exited c)" for exited
    using k by (auto simp: disconnect_events kept_def pipe_once_def split: if_split_asm)
  with \<open>releasable c\<close> show ?thesis by (simp add: releasable_def)
qed

lemma launch_releasable:
  assumes "nt_events n = []"
    "vw_worker_client_launch_and_connect_ex e n exe ep tok model backend language threads gpu dir logging = Inr c"
  shows "releasable c"
proof -
  obtain argv where "cl_pipe c" "cl_process c = (exe \<noteq> None)"
    "nt_events (cl_net c) = (if exe \<noteq> None then [Proc_Spawn argv] else []) @ [Pipe_Open, Client_Alloc]"
    using launch_events[OF assms(1), where e = e and exe = exe and ep = ep and tok = tok and model = model and backend = backend
      and language = language and threads = threads and gpu = gpu and dir = dir and logging = logging] assms(2) by auto
  then show ?thesis
    unfolding releasable_def disconnect_events balanced_def occurrences_def by (cases exe) simp_all
qed

lemma now_frame: "now w = (m, w') \<Longrightarrow> pl_past w' = pl_past w \<and> ps_client w' = ps_client w \<and> ps_presenter w' = ps_presenter w
    \<and> pl_vlc_log w' = pl_vlc_log w \<and> pl_attached w' = pl_attached w \<and> pl_moments w' = tl (pl_moments w)"
proof (cases "pl_moments w")
  case (Cons x xs)
  assume "now w = (m, w')"
  then have "w' = fold run_callback (mo_blocks x) (w\<lparr>pl_moments := xs\<rparr>)" by (auto simp: now_def Cons)
  then have "core w' = core (w\<lparr>pl_moments := xs\<rparr>)" by simp
  from core_fields[OF this] show ?thesis by (simp add: Cons)
qed (simp add: now_def)

lemma launch_accounts:
  assumes "nt_events n = []"
  shows "case vw_worker_client_launch_and_connect_ex e n exe ep tok model backend language threads gpu dir logging of
      Inl n' \<Rightarrow> balanced (nt_events n') | Inr c \<Rightarrow> releasable c"
proof (cases "vw_worker_client_launch_and_connect_ex e n exe ep tok model backend language threads gpu dir logging")
  case (Inl n')
  with launch_events[OF assms, where e = e and exe = exe and ep = ep and tok = tok and model = model and backend = backend
      and language = language and threads = threads and gpu = gpu and dir = dir and logging = logging] show ?thesis by simp
next
  case (Inr c)
  with launch_releasable[OF assms Inr] show ?thesis by simp
qed

lemma launch_accounted: "accounted w \<Longrightarrow> ps_client w = None \<Longrightarrow> accounted (launch exe a w)"
proof -
  assume a: "accounted w" "ps_client w = None"
  obtain m w1 where m: "now w = (m, w1)" by fastforce
  define n where "n = (mo_net m)\<lparr>nt_sent := [], nt_events := []\<rparr>"
  define l where "l = vw_worker_client_launch_and_connect_ex (mo_launch m) n exe (ps_pipe_name w1) (ps_auth_token w1)
      (la_model_path a) (la_backend a) (la_language a) (la_threads a) (la_gpu a) (la_model_dir a) (la_logging a)"
  have l: "case l of Inl n' \<Rightarrow> balanced (nt_events n') | Inr c \<Rightarrow> releasable c"
    unfolding l_def by (rule launch_accounts) (simp add: n_def)
  show "accounted (launch exe a w)"
    unfolding launch_def m prod.case n_def[symmetric] l_def[symmetric]
    using a now_frame[OF m] l by (cases l) (simp_all add: accounted_def)
qed

lemma disconnect_accounted: "accounted w \<Longrightarrow> accounted (disconnect w)"
proof -
  assume a: "accounted w"
  obtain m w1 where m: "now w = (m, w1)" by fastforce
  show "accounted (disconnect w)"
    using a now_frame[OF m] unfolding disconnect_def m prod.case
    by (auto simp: accounted_def releasable_def split: option.splits)
qed

lemma input_frame: "find_input m w = (input, w1) \<Longrightarrow> pl_past w1 = pl_past w \<and> ps_client w1 = ps_client w \<and> pl_moments w1 = pl_moments w"
  by (auto simp: find_input_def split: prod.splits)

lemma release_frame [simp]: "pl_past (release_input i w) = pl_past w" "ps_client (release_input i w) = ps_client w"
  "pl_moments (release_input i w) = pl_moments w" "ps_presenter (release_input i w) = ps_presenter w"
  by (simp_all add: release_input_def split: option.splits)

interpretation accounting: plugin_relation "\<lambda>w w'. accounted w \<longrightarrow> accounted w'"
proof
  show "accounted w \<longrightarrow> accounted w'" if "core w' = core w" for w w'
    using core_fields[OF that] by (simp add: accounted_def)
  show "accounted w \<longrightarrow> accounted (w\<lparr>ps_client := Some c'\<rparr>)" if "ps_client w = Some c" "client_move c c'" for w c c'
    using that releasable_kept[OF _ kept_move[OF that(2)]] by (simp add: accounted_def)
  show "accounted w \<longrightarrow> accounted (launch exe a w)" if "ps_client w = None" for w exe a
    using launch_accounted[OF _ that] by blast
  show "accounted w \<longrightarrow> accounted (disconnect w)" for w using disconnect_accounted by blast
  show "accounted w \<longrightarrow> accounted (release_input input w2)"
    if "find_input m w = (input, w1)" "accounted w1 \<longrightarrow> accounted w2" for m w input w1 w2
    using that(2) input_frame[OF that(1)] by (simp add: accounted_def)
qed (auto simp: accounted_def)

section \<open>Moments\<close>

lemma now_moments: "now w = (m, w') \<Longrightarrow> length (pl_moments w') \<le> length (pl_moments w)"
  using now_frame[of w m w'] by simp

lemma launch_moments: "length (pl_moments (launch exe a w)) \<le> length (pl_moments w)"
proof -
  obtain m w1 where m: "now w = (m, w1)" by fastforce
  show ?thesis using now_moments[OF m] unfolding launch_def m prod.case by (simp split: sum.splits)
qed

lemma disconnect_moments: "length (pl_moments (disconnect w)) \<le> length (pl_moments w)"
proof -
  obtain m w1 where m: "now w = (m, w1)" by fastforce
  show ?thesis using now_moments[OF m] unfolding disconnect_def m prod.case by (simp split: option.splits)
qed

interpretation progress: plugin_relation "\<lambda>w w'. length (pl_moments w') \<le> length (pl_moments w)"
proof
  show "length (pl_moments w') \<le> length (pl_moments w)" if "core w' = core w" for w w'
    using core_fields[OF that] by simp
qed (auto simp: launch_moments disconnect_moments dest: input_frame)

section \<open>References to VLC objects\<close>

text \<open>The tracker only becomes more permissive when more references are held and more channels are registered.\<close>

lemma track_frame:
  "track (h, l, r) e = Some (h', l', r') \<Longrightarrow> r \<subseteq> s \<Longrightarrow> \<exists>s'. track (h + m, l, s) e = Some (h' + m, l', s') \<and> r' \<subseteq> s'"
proof (cases e)
  case (Release a)
  have "a \<in># h - {#a#} \<Longrightarrow> a \<in># h + m - {#a#}" unfolding count_greater_zero_iff[symmetric] by simp
  moreover assume "track (h, l, r) e = Some (h', l', r')" "r \<subseteq> s"
  ultimately show ?thesis using Release by (auto split: if_split_asm)
qed (auto split: if_split_asm)

lemma track_all_frame:
  "track_all (h, l, r) es = Some (h', l', r') \<Longrightarrow> r \<subseteq> s \<Longrightarrow> \<exists>s'. track_all (h + m, l, s) es = Some (h' + m, l', s') \<and> r' \<subseteq> s'"
proof (induction es arbitrary: h l r s)
  case (Cons e es)
  obtain h1 l1 r1 where t: "track (h, l, r) e = Some (h1, l1, r1)" "track_all (h1, l1, r1) es = Some (h', l', r')"
    using Cons.prems(1) by (auto split: option.splits)
  obtain s1 where s1: "track (h + m, l, s) e = Some (h1 + m, l1, s1)" "r1 \<subseteq> s1" using track_frame[OF t(1) Cons.prems(2)] by blast
  from Cons.IH[OF t(2) s1(2)] show ?case by (simp add: s1(1))
qed auto

lemma chan_ok_mono: "chan_ok p r \<Longrightarrow> r \<subseteq> s \<Longrightarrow> chan_ok p s"
  unfolding chan_ok_def using slot_ok_mono by blast

lemma chan_ok_context [simp]: "chan_ok (p\<lparr>pr_filter_ctx := b\<rparr>) r = chan_ok p r" "held_refs (p\<lparr>pr_filter_ctx := b\<rparr>) = held_refs p"
  by (simp_all add: chan_ok_def held_refs_def)

text \<open>\<open>m\<close>: the references the module itself holds at this point.\<close>

definition tracked :: "nat multiset \<Rightarrow> vw_plugin \<Rightarrow> bool" where
  "tracked m w \<longleftrightarrow> (\<exists>r. track_all ({#}, {#}, {}) (pl_vlc_log w) = Some (held_refs (ps_presenter w) + m, {#}, r) \<and> chan_ok (ps_presenter w) r)"

lemma release_preserving_track:
  assumes "chan_ok p r" "snd (vw_plugin_presenter_release_preserving_caption p) = (p', es)"
  shows "\<exists>r'. track_all (held_refs p, l, r) es = Some (held_refs p', l, r') \<and> chan_ok p' r' \<and> held_refs p' = {#}"
proof -
  obtain p1 es1 where c: "vw_caption_presenter_clear_model_progress p = ((), p1, es1)" by (metis prod_cases3 unit.exhaust)
  from clear_progress_track[OF assms(1), of p1 es1 l] c obtain r1 where
    r1: "track_all (held_refs p, l, r) es1 = Some (held_refs p1, l, r1)" "chan_ok p1 r1" by auto
  have mp: "pr_model_progress_held_vout p1 = None" "\<not> pr_model_progress_channel_registered p1"
    using c by (auto simp: vw_caption_presenter_clear_model_progress_def)
  have res: "p' = p1\<lparr>pr_has_pending := False, pr_held_vout := None, pr_filter_ctx := False, pr_spu_channel_id := - 1,
      pr_spu_channel_registered := False\<rparr>"
    "es = es1 @ (case pr_held_vout p1 of None \<Rightarrow> [] | Some w \<Rightarrow> [Release w])"
    using assms(2) c by (auto simp: vw_plugin_presenter_release_preserving_caption_def split: option.splits)
  have h: "held_refs p' = {#}" "chan_ok p' q" for q using mp by (simp_all add: res(1) held_refs_def chan_ok_def)
  have "\<exists>r'. track_all (held_refs p1, l, r1) (case pr_held_vout p1 of None \<Rightarrow> [] | Some w \<Rightarrow> [Release w]) = Some ({#}, l, r')"
    using mp by (cases "pr_held_vout p1") (simp_all add: held_refs_def)
  with h r1 show ?thesis unfolding res(2) by (auto simp: track_all_append)
qed

lemma move_track:
  assumes "chan_ok p r" "presenter_move p p' es"
  shows "\<exists>r'. track_all (held_refs p, l, r) es = Some (held_refs p', l, r') \<and> chan_ok p' r'"
  using assms(2) release_preserving_track[OF assms(1), of p' es l] presenter_step_track[of "p\<lparr>pr_filter_ctx := _\<rparr>" r _ p' es l] assms(1)
  unfolding presenter_move_def by auto

lemma move_tracked:
  assumes "tracked m w" "presenter_move (ps_presenter w) p es"
  shows "tracked m (w\<lparr>ps_presenter := p, pl_vlc_log := pl_vlc_log w @ es\<rparr>)"
proof -
  obtain r where r: "track_all ({#}, {#}, {}) (pl_vlc_log w) = Some (held_refs (ps_presenter w) + m, {#}, r)" "chan_ok (ps_presenter w) r"
    using assms(1) by (auto simp: tracked_def)
  from move_track[OF r(2) assms(2), of "{#}"] obtain r' where
    r': "track_all (held_refs (ps_presenter w), {#}, r) es = Some (held_refs p, {#}, r')" "chan_ok p r'" by blast
  from track_all_frame[OF r'(1) subset_refl, of m] obtain s where
    s: "track_all (held_refs (ps_presenter w) + m, {#}, r) es = Some (held_refs p + m, {#}, s)" "r' \<subseteq> s" by blast
  then show ?thesis using r(1) chan_ok_mono[OF r'(2) s(2)] by (auto simp: tracked_def track_all_append)
qed

lemma find_input_track:
  "vw_plugin_find_input ns = (v, es) \<Longrightarrow> track_all (h, l, r) es = Some (opt_refs v + h, l, r)"
proof (induction ns arbitrary: v es)
  case (Cons n ns)
  obtain v' es' where w: "vw_plugin_find_input ns = (v', es')" by force
  show ?case using Cons.prems Cons.IH[OF w] w by (cases "ob_type (nd_self n) = Some ''input''"; cases "nd_children n";
      cases "find_input_child (the (nd_children n))") (auto simp: Let_def track_all_append opt_refs_def split: option.splits)
qed simp

lemma release_tracked:
  assumes "tracked (add_mset a m) w"
  shows "tracked m (w\<lparr>pl_vlc_log := pl_vlc_log w @ [Release a]\<rparr>)"
proof -
  let ?p = "ps_presenter w"
  obtain r where r: "track_all ({#}, {#}, {}) (pl_vlc_log w) = Some (held_refs ?p + add_mset a m, {#}, r)" "chan_ok ?p r"
    using assms by (auto simp: tracked_def)
  show ?thesis
  proof (cases "a \<in># held_refs ?p + m")
    case True
    then show ?thesis using r by (auto simp: tracked_def track_all_append)
  next
    case False
    then have "pr_held_vout ?p \<noteq> Some a" "pr_model_progress_held_vout ?p \<noteq> Some a" by (auto simp: held_refs_def)
    then have "chan_ok ?p {x \<in> r. fst x \<noteq> a}" using r(2) by (simp add: chan_ok_def slot_ok_filter)
    then show ?thesis using r(1) False by (auto simp: tracked_def track_all_append)
  qed
qed

lemma find_tracked:
  assumes "tracked m w" "find_input mo w = (input, w')"
  shows "tracked (opt_refs input + m) w'"
proof -
  obtain v es where f: "vw_plugin_find_input (ve_chain (mo_vlc mo)) = (v, es)" by fastforce
  have e: "input = v" "w' = w\<lparr>pl_vlc_log := pl_vlc_log w @ es\<rparr>" using assms(2) by (simp_all add: find_input_def f)
  show ?thesis using assms(1) find_input_track[OF f] unfolding e tracked_def by (auto simp: track_all_append ac_simps)
qed

lemma input_tracked:
  assumes "tracked m w" "find_input mo w = (input, w1)" "\<forall>k. tracked k w1 \<longrightarrow> tracked k w2"
  shows "tracked m (release_input input w2)"
  using find_tracked[OF assms(1,2)] assms(3) release_tracked
  by (cases input) (auto simp: release_input_def)

lemma launch_core: "pl_vlc_log (launch exe a w) = pl_vlc_log w \<and> ps_presenter (launch exe a w) = ps_presenter w"
proof -
  obtain m w1 where m: "now w = (m, w1)" by fastforce
  show ?thesis using now_frame[OF m] unfolding launch_def m prod.case by (simp split: sum.splits)
qed

lemma disconnect_core: "pl_vlc_log (disconnect w) = pl_vlc_log w \<and> ps_presenter (disconnect w) = ps_presenter w"
proof -
  obtain m w1 where m: "now w = (m, w1)" by fastforce
  show ?thesis using now_frame[OF m] unfolding disconnect_def m prod.case by (simp split: option.splits)
qed

interpretation references: plugin_relation "\<lambda>w w'. \<forall>m. tracked m w \<longrightarrow> tracked m w'"
proof
  show "\<forall>m. tracked m w \<longrightarrow> tracked m w'" if "core w' = core w" for w w'
    using core_fields[OF that] by (simp add: tracked_def)
  show "\<forall>m. tracked m w \<longrightarrow> tracked m (w\<lparr>ps_presenter := p, pl_vlc_log := pl_vlc_log w @ es\<rparr>)"
    if "presenter_move (ps_presenter w) p es" for w p es
    using move_tracked[OF _ that] by blast
  show "\<forall>m. tracked m w \<longrightarrow> tracked m (release_input input w2)"
    if "find_input mo w = (input, w1)" "\<forall>m. tracked m w1 \<longrightarrow> tracked m w2" for mo w input w1 w2
    using input_tracked[OF _ that] by blast
qed (auto simp: tracked_def launch_core disconnect_core)

section \<open>What closing leaves\<close>

lemma held_now: "now w = (m, w') \<Longrightarrow> ps_presenter w' = ps_presenter w"
  using now_frame by blast

lemma held_call [simp]: "ps_presenter (snd (call f d w)) = ps_presenter w"
  by (simp add: call_def split: option.splits prod.splits)

lemma held_bench [simp]: "ps_presenter (bench f w) = ps_presenter w" "ps_presenter (tally g w) = ps_presenter w"
  by (simp_all add: bench_def tally_def)

text \<open>A caption that was not taken leaves the presenter without references, if it had none.\<close>

lemma show_held: "vw_caption_presenter_show_segment e1 e2 p seg t md = (False, p', es) \<Longrightarrow> p' = p"
  by (auto simp: vw_caption_presenter_show_segment_def split: option.splits prod.splits)

lemma tail_caption_held:
  assumes "tail_caption s b seg w = (ok, w')" "\<not> ok"
  shows "held_refs (ps_presenter w') = held_refs (ps_presenter w)"
proof -
  obtain m w1 where m: "now (tally (\<lambda>k. k\<lparr>nc_segments_received := nc_segments_received k + 1\<rparr>) w) = (m, w1)" by fastforce
  define w2 where "w2 = (let w = bench (\<lambda>b. vw_benchmark_record_caption_received b seg (mo_clock m) s) w1 in
      if cs_translation_attempted seg
      then bench (\<lambda>b. vw_benchmark_record_translation b (cs_translation_tier seg) (cs_translation_latency_us seg)
             (cs_translated_text_bytes seg > 0)) w else w)"
  have p: "ps_presenter w2 = ps_presenter w" using held_now[OF m] by (simp add: w2_def Let_def)
  obtain q es where k: "vw_caption_presenter_show_segment (mo_vlc m) (mo_vlc2 m) ((ps_presenter w2)\<lparr>pr_filter_ctx := b\<rparr>) seg (- 1) False = (False, q, es)"
    and q: "ps_presenter w' = q"
    using assms unfolding tail_caption_def m prod.case Let_def w2_def[unfolded Let_def, symmetric] present_def
    by (auto split: prod.split_asm)
  show ?thesis using show_held[OF k] p q by simp
qed

lemma tail_frame_held:
  assumes "tail_frame s b pl w = (ok, w')" "\<not> ok"
  shows "held_refs (ps_presenter w') = held_refs (ps_presenter w)"
  using assms tail_caption_held[of s b _ _ ok w'] unfolding tail_frame_def Let_def
  by (cases pl) (auto split: if_split_asm)

lemma tail_loop_keeps: "tail_loop n dl s b got w = (got', w') \<Longrightarrow> got \<Longrightarrow> got'"
proof (induction n arbitrary: got w)
  case (Suc n)
  then show ?case by (auto simp: Let_def split: prod.split_asm if_split_asm option.split_asm)
qed simp

lemma tail_loop_held:
  "tail_loop n dl s b got w = (got', w') \<Longrightarrow> \<not> got' \<Longrightarrow> held_refs (ps_presenter w') = held_refs (ps_presenter w)"
proof (induction n arbitrary: got w)
  case (Suc n)
  obtain m w1 where m: "now w = (m, w1)" by fastforce
  define tm :: u32 where "tm = (if dl - mo_clock m < 250000 then word_of_int (dl - mo_clock m) else 250000)"
  obtain st fr w2 where k: "call (\<lambda>c. vw_worker_client_receive_frame c tm) (VW_IPC_RECV_FATAL, None) w1 = ((st, fr), w2)"
    by (metis surj_pair)
  have p: "ps_presenter w1 = ps_presenter w" "ps_presenter w2 = ps_presenter w"
    using held_now[OF m] held_call[of "\<lambda>c. vw_worker_client_receive_frame c tm" "(VW_IPC_RECV_FATAL, None)" w1] k by simp_all
  have e: "(got', w') = (if mo_clock m < 0 \<or> mo_clock m \<ge> dl then (got, w1) else if st = VW_IPC_RECV_FATAL then (got, w2)
      else case fr of None \<Rightarrow> tail_loop n dl s b got w2
        | Some r \<Rightarrow> (case tail_frame s b (wr_payload r) w2 of (sh, w3) \<Rightarrow> tail_loop n dl s b (got \<or> sh) w3))"
    using Suc.prems(1) unfolding tail_loop.simps m prod.case Let_def tm_def[symmetric] k by simp
  show ?case
  proof (cases fr)
    case None
    then show ?thesis using e p Suc.IH[of got w2] Suc.prems(2) by (auto split: if_split_asm)
  next
    case (Some r)
    obtain sh w3 where t: "tail_frame s b (wr_payload r) w2 = (sh, w3)" by fastforce
    show ?thesis
    proof (cases "mo_clock m < 0 \<or> mo_clock m \<ge> dl \<or> st = VW_IPC_RECV_FATAL")
      case False
      then have l: "tail_loop n dl s b (got \<or> sh) w3 = (got', w')" using e by (simp add: Some t)
      have "\<not> sh" using l tail_loop_keeps Suc.prems(2) by blast
      then show ?thesis using Suc.IH[OF l Suc.prems(2)] tail_frame_held[OF t] p by simp
    qed (use e p in \<open>auto split: if_split_asm\<close>)
  qed
qed simp

section \<open>The queue under the audio callbacks\<close>

definition sound_queue :: "vw_spsc_queue \<Rightarrow> vw_spsc_queue \<Rightarrow> bool" where
  "sound_queue q q' \<longleftrightarrow> (spsc_inv q \<longrightarrow> spsc_inv q') \<and> sq_capacity_chunks q' = sq_capacity_chunks q"

lemma sound_refl [simp]: "sound_queue q q"
  by (simp add: sound_queue_def)

lemma sound_trans: "sound_queue a b \<Longrightarrow> sound_queue b c \<Longrightarrow> sound_queue a c"
  by (simp add: sound_queue_def)

lemma sound_push: "sound_queue q (snd (spsc_push q c))"
  by (simp add: sound_queue_def spsc_push_inv spsc_capacity_const)

lemma sound_emit: "sound_queue (cl_queue st) (cl_queue (emit_sample tr m st))"
  by (simp add: emit_sample_def Let_def sound_push)

lemma sound_while: "emit_while input tr i acc st = Some (acc', st') \<Longrightarrow> sound_queue (cl_queue st) (cl_queue st')"
proof (induction input tr i acc st rule: emit_while.induct)
  case (1 input tr i acc st)
  then show ?case using sound_trans[OF sound_emit]
    by (subst (asm) (2) emit_while.simps) (auto split: if_split_asm option.split_asm)
qed

lemma sound_frames: "frame_loop input tr is acc st = Some (acc', st') \<Longrightarrow> sound_queue (cl_queue st) (cl_queue st')"
proof (induction "is" arbitrary: acc st)
  case (Cons i "is")
  then show ?case using sound_trans[OF sound_while] by (auto split: option.split_asm)
qed simp

lemma sound_convert: "convert_block input tr q cap = Some cap' \<Longrightarrow> \<exists>q'. ac_queue cap' = Some q' \<and> sound_queue q q'"
  using sound_frames sound_trans[OF sound_frames sound_push]
  by (fastforce simp: convert_block_def Let_def split: bind_split_asm if_split_asm prod.split_asm)

lemma sound_process:
  assumes "vw_audio_capture_process_block (Some cap) (Some input) = Some (ok, Some cap')" "ac_queue cap = Some q"
  shows "\<exists>q'. ac_queue cap' = Some q' \<and> sound_queue q q'"
proof -
  have a: "ac_queue (apply_reset cap) = Some q" "ac_queue (apply_source_rate r t (apply_reset cap)) = Some q" for r t
    using assms(2) by (simp_all add: apply_reset_def apply_source_rate_def)
  show ?thesis using assms a sound_convert[of input _ q _ cap'] unfolding vw_audio_capture_process_block_def Let_def
    by (auto split: if_split_asm option.split_asm)
qed

definition queue_sound :: "vw_plugin \<Rightarrow> vw_plugin \<Rightarrow> bool" where
  "queue_sound w w' \<longleftrightarrow> (\<forall>q. queue_of w = Some q \<longrightarrow> (\<exists>q'. queue_of w' = Some q' \<and> sound_queue q q'))"

lemma queue_sound_same: "queue_of w' = queue_of w \<Longrightarrow> queue_sound w w'"
  by (simp add: queue_sound_def)

lemma queue_sound_trans: "queue_sound a b \<Longrightarrow> queue_sound b c \<Longrightarrow> queue_sound a c"
  unfolding queue_sound_def using sound_trans by blast

lemma queue_sound_filter: "vw_plugin_filter b w = Some w' \<Longrightarrow> queue_sound w w'"
  using sound_process
  by (fastforce simp: vw_plugin_filter_def queue_sound_def queue_of_def Let_def split: option.split_asm if_split_asm prod.split_asm)

lemma queue_sound_callback: "queue_sound w (run_callback b w)"
  using queue_sound_filter queue_sound_same by (auto simp: run_callback_def split: option.splits)

lemma queue_sound_callbacks: "queue_sound w (fold run_callback bs w)"
proof (induction bs arbitrary: w)
  case (Cons b bs)
  then show ?case using queue_sound_trans[OF queue_sound_callback Cons.IH] by simp
qed (simp add: queue_sound_same)

lemma queue_sound_now: "now w = (m, w') \<Longrightarrow> queue_sound w w'"
  using queue_sound_trans[OF queue_sound_same queue_sound_callbacks, of "w\<lparr>pl_moments := _\<rparr>" w]
  by (auto simp: now_def queue_of_def queue_sound_same split: list.splits)

section \<open>The fuel of the loops over the queue\<close>

text \<open>\<open>room w\<close> bounds the chunks that can still be popped.\<close>

definition room :: "vw_plugin \<Rightarrow> nat" where
  "room w = (case queue_of w of None \<Rightarrow> 0
     | Some q \<Rightarrow> if pl_moments w = [] then spsc_len q else length (pl_moments w) + sq_capacity_chunks q)"

definition queue_ready :: "vw_plugin \<Rightarrow> bool" where
  "queue_ready w \<longleftrightarrow> (case queue_of w of None \<Rightarrow> False | Some q \<Rightarrow> spsc_inv q)"

lemma room_fuel: "room w < drain_fuel w"
  using spsc_len_le by (auto simp: room_def drain_fuel_def less_Suc_eq_le split: option.splits)

lemma pop_len:
  assumes "spsc_inv q" "spsc_pop q = Some (c, q')"
  shows "spsc_inv q' \<and> sq_capacity_chunks q' = sq_capacity_chunks q \<and> spsc_len q = Suc (spsc_len q')"
proof -
  have "spsc_len q \<noteq> 0" using assms spsc_empty_iff[OF assms(1)] by (auto simp: spsc_pop_def Let_def split: if_splits)
  then obtain x xs where x: "spsc_contents q = x # xs" unfolding spsc_contents_def
    by (metis length_ring_slice list.exhaust list.size(3))
  have l: "length (spsc_contents p) = spsc_len p" for p by (simp add: spsc_contents_def)
  from spsc_pop_cases[OF assms(1) x] assms(2) show ?thesis
    using spsc_capacity_const(2)[OF assms(2)] l[of q] l[of q'] x by auto
qed

lemma ready_sound: "queue_ready w \<Longrightarrow> queue_sound w w' \<Longrightarrow> queue_ready w'"
  by (auto simp: queue_ready_def queue_sound_def sound_queue_def split: option.splits)

lemma now_room:
  assumes "now w = (m, w')" "queue_ready w"
  shows "queue_ready w'" "pl_moments w \<noteq> [] \<Longrightarrow> room w' < room w" "pl_moments w = [] \<Longrightarrow> w' = w"
proof -
  have t: "pl_moments w' = tl (pl_moments w)" using now_frame[OF assms(1)] by blast
  show "queue_ready w'" using ready_sound[OF assms(2) queue_sound_now[OF assms(1)]] .
  show "pl_moments w = [] \<Longrightarrow> w' = w" using assms(1) by (simp add: now_def)
  obtain q q' where q: "queue_of w = Some q" "queue_of w' = Some q'" "sq_capacity_chunks q' = sq_capacity_chunks q"
    using assms(2) queue_sound_now[OF assms(1)] by (auto simp: queue_ready_def queue_sound_def sound_queue_def split: option.splits)
  show "pl_moments w \<noteq> [] \<Longrightarrow> room w' < room w"
    using t q spsc_len_le[of q'] by (cases "pl_moments w") (auto simp: room_def less_Suc_eq_le)
qed

lemma room_le: "now w = (m, w') \<Longrightarrow> queue_ready w \<Longrightarrow> room w' \<le> room w"
  using now_room[of w m w'] by (cases "pl_moments w = []") simp_all

lemma pop_room:
  assumes "pop_chunk w = (Some c, w')" "queue_ready w"
  shows "queue_ready w' \<and> room w' < room w"
proof -
  obtain m w1 where m: "now w = (m, w1)" by fastforce
  note n = now_room[OF m assms(2)]
  obtain q where q: "queue_of w1 = Some q" "spsc_inv q" using n(1) by (auto simp: queue_ready_def split: option.splits)
  obtain q' where p: "spsc_pop q = Some (c, q')" "queue_of w' = Some q'" "pl_moments w' = pl_moments w1"
    using assms(1) q(1) by (auto simp: pop_chunk_def m vw_spsc_queue_pop_def queue_of_def split: option.splits prod.splits)
  note l = pop_len[OF q(2) p(1)]
  have r: "room w' \<le> room w1" using p q l by (simp add: room_def)
  show ?thesis
  proof (cases "pl_moments w = []")
    case True
    then have "room w' < room w1" using n(3) p q l by (simp add: room_def)
    then show ?thesis using p(2) l n(3) True by (simp add: queue_ready_def)
  next
    case False
    then show ?thesis using n(2) r p(2) l by (simp add: queue_ready_def)
  qed
qed

lemma drain_loop_empties:
  "queue_ready w \<Longrightarrow> room w < n \<Longrightarrow> \<exists>w1. pop_chunk w1 = (None, drain_loop n w)"
proof (induction n arbitrary: w)
  case (Suc n)
  obtain ch w1 where p: "pop_chunk w = (ch, w1)" by fastforce
  show ?case
  proof (cases ch)
    case (Some c)
    have "queue_ready w1 \<and> room w1 < room w" using pop_room Some p Suc.prems(1) by simp
    then show ?thesis using Suc.IH[of w1] Suc.prems(2) by (simp add: p Some)
  qed (use p in auto)
qed simp

lemma room_same: "queue_of w' = queue_of w \<Longrightarrow> pl_moments w' = pl_moments w \<Longrightarrow> room w' = room w \<and> queue_ready w' = queue_ready w"
  by (cases "queue_of w") (simp_all add: room_def queue_ready_def)

lemma call_queue: "call f d w = (r, w') \<Longrightarrow> queue_of w' = queue_of w \<and> pl_moments w' = pl_moments w"
  by (auto simp: call_def queue_of_def split: option.splits prod.splits)

lemma forward_loop_fuel:
  "queue_ready w \<Longrightarrow> room w < n \<Longrightarrow> room w < k \<Longrightarrow> forward_loop n d s w = forward_loop k d s w"
proof (induction n arbitrary: k s w)
  case (Suc n)
  obtain j where j: "k = Suc j" using Suc.prems(3) by (cases k) auto
  obtain ch w1 where p: "pop_chunk w = (ch, w1)" by fastforce
  show ?case
  proof (cases ch)
    case (Some c)
    have r1: "queue_ready w1 \<and> room w1 < room w" using pop_room Some p Suc.prems(1) by simp
    show ?thesis
    proof (cases d)
      case True
      then show ?thesis using Suc.IH[of w1 j s] r1 Suc.prems(2,3) by (simp add: p Some j)
    next
      case False
      define w2 where "w2 = tally (\<lambda>k. k\<lparr>nc_chunks_sent := nc_chunks_sent k + 1\<rparr>) w1"
      obtain ok w3 where k3: "call (\<lambda>x. vw_worker_client_send_audio x c) False w2 = (ok, w3)" by fastforce
      obtain m w4 where m: "now w3 = (m, w4)" by fastforce
      define w5 where "w5 = bench (\<lambda>b. vw_benchmark_record_audio b (ch_start_pts_us c) (ch_duration_us c) (mo_clock m)) w4"
      have "room w2 = room w1 \<and> queue_ready w2 = queue_ready w1"
        by (rule room_same) (simp_all add: w2_def tally_def queue_of_def)
      moreover have "room w3 = room w2 \<and> queue_ready w3 = queue_ready w2" using call_queue[OF k3] room_same by blast
      ultimately have r4: "queue_ready w4" "room w4 < room w" using room_le[OF m] now_room(1)[OF m] r1 by simp_all
      have "room w5 = room w4 \<and> queue_ready w5 = queue_ready w4"
        by (rule room_same) (simp_all add: w5_def bench_def queue_of_def)
      then have "forward_loop n d True w5 = forward_loop j d True w5"
        using Suc.IH[of w5 j True] r4 Suc.prems(2,3) by (simp add: j)
      then show ?thesis using False by (simp add: p Some j k3[unfolded w2_def] m w5_def)
    qed
  qed (simp add: p j)
qed simp

section \<open>The fuel of the sender thread\<close>

text \<open>The loop as it is written, without fuel.\<close>

inductive sender_runs :: "vw_plugin \<Rightarrow> vw_plugin \<Rightarrow> bool" where
  stopped: "now w = (m, w1) \<Longrightarrow> \<not> mo_running m \<Longrightarrow> sender_runs w w1"
| left: "now w = (m, w1) \<Longrightarrow> mo_running m \<Longrightarrow> sender_pass w1 = (False, w2) \<Longrightarrow> sender_runs w w2"
| again: "now w = (m, w1) \<Longrightarrow> mo_running m \<Longrightarrow> sender_pass w1 = (True, w2) \<Longrightarrow> sender_runs w2 w3 \<Longrightarrow> sender_runs w w3"

inductive_cases sender_runs_cases: "sender_runs w w'"

lemma sender_runs_loop: "sender_runs w w' \<Longrightarrow> length (pl_moments w) < n \<Longrightarrow> sender_loop n w = w'"
proof (induction arbitrary: n rule: sender_runs.induct)
  case (stopped w m w1)
  then show ?case by (cases n) simp_all
next
  case (left w m w1 w2)
  then show ?case by (cases n) simp_all
next
  case (again w m w1 w2 w3)
  obtain k where k: "n = Suc k" using again.prems by (cases n) auto
  have "pl_moments w \<noteq> []" using again.hyps(1,2) by (auto simp: now_def no_moment_def)
  then have "length (pl_moments w1) < length (pl_moments w)" using now_frame[OF again.hyps(1)] by simp
  moreover have "length (pl_moments w2) \<le> length (pl_moments w1)" using progress.sender_pass_rel[OF _ again.hyps(3), of w1] by simp
  ultimately show ?case using again.IH[of k] again.prems again.hyps by (simp add: k)
qed

lemma sender_loop_runs: "length (pl_moments w) < n \<Longrightarrow> sender_runs w (sender_loop n w)"
proof (induction n arbitrary: w)
  case (Suc n)
  obtain m w1 where m: "now w = (m, w1)" by fastforce
  obtain go w2 where g: "sender_pass w1 = (go, w2)" by fastforce
  show ?case
  proof (cases "mo_running m \<and> go")
    case True
    have "pl_moments w \<noteq> []" using m True by (auto simp: now_def no_moment_def)
    then have "length (pl_moments w1) < length (pl_moments w)" using now_frame[OF m] by simp
    moreover have "length (pl_moments w2) \<le> length (pl_moments w1)" using progress.sender_pass_rel[OF _ g, of w1] by simp
    ultimately have "sender_runs w2 (sender_loop n w2)" using Suc.IH Suc.prems by simp
    then show ?thesis using again[OF m] g True by (simp add: m)
  next
    case False
    then show ?thesis using stopped[OF m] left[OF m] g by (cases "mo_running m") (simp_all add: m)
  qed
qed simp

section \<open>A whole life\<close>

lemma opened_accounted: "accounted (opened ms q a b c d e)" "tracked {#} (opened ms q a b c d e)" "ps_client (opened ms q a b c d e) = None"
  by (simp_all add: opened_def accounted_def tracked_def initial_presenter_def held_refs_def chan_ok_def)

lemma open_good:
  assumes "vw_plugin_open e ms = Some w"
  shows "accounted w \<and> tracked {#} w"
proof -
  obtain ms' q a b c d l m x y where w: "w = (vw_plugin_launch_with_auto_retry (launch_args_of m (opened ms' q a b c d l)) x
      (opened ms' q a b c d l))\<lparr>ps_sender_started := y, pl_attached := True\<rparr>"
    using assms unfolding vw_plugin_open_def Let_def by (auto split: bind_split_asm if_split_asm prod.split_asm)
  let ?o = "opened ms' q a b c d l"
  have "accounted (vw_plugin_launch_with_auto_retry (launch_args_of m ?o) x ?o)"
    using accounting.retry_rel[OF accounting.refl opened_accounted(3)] opened_accounted(1) by blast
  moreover have "tracked {#} (vw_plugin_launch_with_auto_retry (launch_args_of m ?o) x ?o)"
    using references.retry_rel[OF references.refl opened_accounted(3)] opened_accounted(2) by blast
  ultimately show ?thesis by (simp add: w accounted_def tracked_def)
qed

lemma held_finalize [simp]: "ps_presenter (finalize_benchmark w) = ps_presenter w" "ps_client (finalize_benchmark w) = ps_client w"
proof -
  obtain m w1 where m: "now w = (m, w1)" by fastforce
  show "ps_presenter (finalize_benchmark w) = ps_presenter w" "ps_client (finalize_benchmark w) = ps_client w"
    unfolding finalize_benchmark_def m prod.case using now_frame[OF m] by (simp_all add: bench_def)
qed

lemma held_show_tail: "held_refs (ps_presenter (show_tail b w)) = {#}"
proof -
  obtain m w1 where m: "now w = (m, w1)" by fastforce
  define w2 where "w2 = snd (present (\<lambda>p. vw_caption_presenter_flush (mo_vlc m) (mo_vlc2 m) (p\<lparr>pr_filter_ctx := b\<rparr>) (- 1) False) w1)"
  obtain q es where q: "vw_plugin_presenter_release_preserving_caption (ps_presenter w2) = ((), q, es)" by (metis prod_cases3 unit.exhaust)
  have "held_refs q = {#}" using q
    by (auto simp: vw_plugin_presenter_release_preserving_caption_def vw_caption_presenter_clear_model_progress_def held_refs_def)
  then show ?thesis unfolding show_tail_def m prod.case Let_def w2_def[symmetric] by (simp add: present_def q)
qed

lemma held_stop_scoped:
  assumes "held_refs (ps_presenter w) = {#}"
  shows "held_refs (ps_presenter (vw_plugin_stop_session_scoped b w)) = {#}"
proof -
  define s where "s = (case ps_client w of Some c \<Rightarrow> vw_worker_client_is_source_active c | None \<Rightarrow> False)"
  define w1 where "w1 = snd (call (\<lambda>c. ((), vw_worker_client_shutdown c)) ()
      (snd (call (\<lambda>c. ((), vw_worker_client_stop_session c VW_CTRL_REASON_MEDIA_END)) () w)))"
  obtain m w2 where m: "now w1 = (m, w2)" by fastforce
  obtain got w3 where t: "tail_loop (length (pl_moments w2) + 1) (mo_clock m + 120000000) s b False w2 = (got, w3)" by fastforce
  have h: "ps_presenter w2 = ps_presenter w" using held_now[OF m] by (simp add: w1_def)
  have "\<not> got \<Longrightarrow> held_refs (ps_presenter w3) = {#}" using tail_loop_held[OF t] h assms by simp
  then show ?thesis
    unfolding vw_plugin_stop_session_scoped_def Let_def s_def[symmetric] w1_def[symmetric] m prod.case t
    using h assms held_show_tail by simp
qed

lemma close_leaves: "ps_client (vw_plugin_close w) = None \<and> held_refs (ps_presenter (vw_plugin_close w)) = {#}"
proof -
  define w1 where "w1 = (if ps_sender_started w then vw_close_join (w\<lparr>pl_attached := False\<rparr>) else w\<lparr>pl_attached := False\<rparr>)"
  obtain m w2 where m: "now w1 = (m, w2)" by fastforce
  define b where "b = pr_filter_ctx (ps_presenter w1)"
  define w3 where "w3 = snd (present (vw_caption_presenter_clear (mo_vlc m)) w2)"
  have h3: "held_refs (ps_presenter w3) = {#}"
    by (auto simp: w3_def present_def vw_caption_presenter_clear_def vw_caption_presenter_clear_model_progress_def
        vw_caption_presenter_blank_def held_refs_def Let_def split: prod.splits option.splits)
  show ?thesis
    unfolding vw_plugin_close_def Let_def
    using h3 held_stop_scoped[OF h3, of b] disconnect_core
    by (auto simp: w1_def[symmetric] m w3_def[symmetric] b_def[symmetric])
qed

lemma main_good: "accounted w \<Longrightarrow> accounted (vw_plugin_sender_main w)" "tracked {#} w \<Longrightarrow> tracked {#} (vw_plugin_sender_main w)"
  using accounting.sender_main_rel[OF accounting.refl] references.sender_main_rel[OF references.refl] by blast+

lemma tracked_detached: "tracked m (w\<lparr>pl_attached := b\<rparr>) = tracked m w"
  by (simp add: tracked_def)

lemma close_good: "accounted w \<Longrightarrow> accounted (vw_plugin_close w)" "tracked {#} w \<Longrightarrow> tracked {#} (vw_plugin_close w)"
proof -
  show "accounted w \<Longrightarrow> accounted (vw_plugin_close w)"
    using accounting.close_rel[OF accounting.refl] by (simp add: accounted_def)
  show "tracked {#} w \<Longrightarrow> tracked {#} (vw_plugin_close w)"
    using references.close_rel[OF references.refl, of w] by (simp only: tracked_detached)
qed

end
