(* ===== verification/VW_Plugin_Props.thy ===== *)
theory VW_Plugin_Props
  imports VW_Plugin_Accounts
begin

text \<open>
Properties of the plugin: its respawn budget, the settings, what reaches the worker and the screen, the audio callback, and a whole life.
\<close>

unbundle bit_operations_syntax

section \<open>What the operations leave alone\<close>

text \<open>The bookkeeping that only the sender writes.\<close>

definition sender_view :: "vw_plugin \<Rightarrow> cfg_snapshot \<times> sender_locals \<times> u32 \<times> bool \<times> vw_paused_preview_state \<times> session_counters" where
  "sender_view w = (ps_cfg w, ps_local w, ps_respawn_count w, ps_worker_dead w, ps_paused_preview w, ps_counters w)"

lemma view_filter: "vw_plugin_filter b w = Some w' \<Longrightarrow> sender_view w' = sender_view w"
  by (clarsimp simp: vw_plugin_filter_def Let_def sender_view_def split: option.split_asm if_split_asm prod.split_asm)

lemma view_callback: "sender_view (run_callback b w) = sender_view w"
  by (simp add: run_callback_def view_filter split: option.split)

lemma view_callbacks: "sender_view (fold run_callback bs w) = sender_view w"
  by (induction bs arbitrary: w) (simp_all add: view_callback)

lemma view_now: "now w = (m, w') \<Longrightarrow> sender_view w' = sender_view w"
proof (cases "pl_moments w")
  case (Cons x xs)
  assume "now w = (m, w')"
  then have "w' = fold run_callback (mo_blocks x) (w\<lparr>pl_moments := xs\<rparr>)" by (auto simp: now_def Cons)
  then show ?thesis using view_callbacks[of "mo_blocks x" "w\<lparr>pl_moments := xs\<rparr>"] by (simp add: sender_view_def)
qed (simp add: now_def)

lemma view_fields: "sender_view w' = sender_view w \<Longrightarrow> ps_cfg w' = ps_cfg w \<and> ps_local w' = ps_local w
    \<and> ps_respawn_count w' = ps_respawn_count w \<and> ps_worker_dead w' = ps_worker_dead w
    \<and> ps_paused_preview w' = ps_paused_preview w \<and> ps_counters w' = ps_counters w"
  by (simp add: sender_view_def)

lemma view_call: "sender_view (snd (call f d w)) = sender_view w"
  by (simp add: call_def sender_view_def split: option.split prod.split)

lemma view_present: "sender_view (snd (present f w)) = sender_view w"
  by (simp add: present_def sender_view_def split: prod.split)

lemma view_blank: "sender_view (blank w) = sender_view w"
proof -
  obtain m w1 where m: "now w = (m, w1)" by fastforce
  show ?thesis unfolding blank_def m prod.case using view_now[OF m] by (simp add: view_present)
qed

section \<open>The respawn budget\<close>

text \<open>The number of respawns and whether the worker is thought dead.\<close>

definition budget :: "vw_plugin \<Rightarrow> u32 \<times> bool" where
  "budget w = (ps_respawn_count w, ps_worker_dead w)"

lemma budget_view: "sender_view w' = sender_view w \<Longrightarrow> budget w' = budget w"
  by (simp add: sender_view_def budget_def)

lemma budget_simps [simp]:
  "budget (put x w) = budget w" "budget (bench f w) = budget w" "budget (loc g w) = budget w" "budget (cfg h w) = budget w"
  "budget (tally k w) = budget w" "budget (set_source_url u w) = budget w" "budget (resolve_worker m w) = budget w"
  "budget (release_input i w) = budget w" "budget (w\<lparr>ps_session_active := a, ps_source_mode_active := b\<rparr>) = budget w"
  "budget (w\<lparr>ps_client := c\<rparr>) = budget w" "budget (w\<lparr>ps_client := c, pl_past := p\<rparr>) = budget w"
  "budget (w\<lparr>ps_model_download_id := i'\<rparr>) = budget w"
  by (simp_all add: budget_def put_def bench_def loc_def cfg_def tally_def set_source_url_def resolve_worker_def release_input_def split: option.split)

lemma budget_now: "now w = (m, w') \<Longrightarrow> budget w' = budget w"
  by (rule budget_view[OF view_now])

lemma budget_blank [simp]: "budget (blank w) = budget w"
  by (rule budget_view[OF view_blank])

lemma budget_call: "call f d w = (r, w') \<Longrightarrow> budget w' = budget w"
  using budget_view[OF view_call, of f d w] by simp

lemma budget_launch [simp]: "budget (launch exe a w) = budget w"
proof -
  obtain m w1 where m: "now w = (m, w1)" by fastforce
  show ?thesis unfolding launch_def m prod.case using budget_now[OF m] by (simp split: sum.split)
qed

lemma budget_retry [simp]: "budget (vw_plugin_launch_with_auto_retry a b w) = budget w"
proof -
  define w1 where "w1 = launch (if ps_worker_path w \<noteq> [] then Some (ps_worker_path w) else None) a w"
  obtain m w2 where m: "now w1 = (m, w2)" by fastforce
  have "budget w1 = budget w" "budget w2 = budget w" using budget_now[OF m] by (simp_all add: w1_def)
  then show ?thesis unfolding vw_plugin_launch_with_auto_retry_def Let_def w1_def[symmetric] m prod.case by (simp split: option.split)
qed

lemma budget_disconnect [simp]: "budget (disconnect w) = budget w"
proof -
  obtain m w1 where m: "now w = (m, w1)" by fastforce
  show ?thesis unfolding disconnect_def m prod.case using budget_now[OF m] by (simp split: option.split)
qed

lemma budget_drop [simp]: "budget (drop_worker w) = budget w"
  by (simp add: drop_worker_def clear_progress_def budget_view[OF view_present])

lemma budget_start: "start_session u w = (ok, w') \<Longrightarrow> budget w' = budget w \<and> ps_session_active w' = ok"
  unfolding start_session_def by (auto split: prod.splits dest!: budget_call)

lemma budget_send [simp]: "budget (snd (send_translation w)) = budget w"
  unfolding send_translation_def Let_def by (rule budget_view[OF view_call])

lemma budget_begin [simp]: "budget (begin_benchmark w) = budget w"
proof -
  obtain m w1 where m: "now w = (m, w1)" by fastforce
  show ?thesis unfolding begin_benchmark_def m prod.case using budget_now[OF m] by simp
qed

lemma budget_restart:
  assumes e: "restart_session paused w = (ok, w')"
  shows "budget w' = budget w"
proof -
  obtain m w1 where m: "now w = (m, w1)" by fastforce
  obtain input w2 where i: "find_input m w1 = (input, w2)" by fastforce
  have b2: "budget w2 = budget w" using i budget_now[OF m] by (auto simp: find_input_def budget_def split: prod.splits)
  define w3 where "w3 = blank (release_input input w2)"
  define url where "url = (if input \<noteq> None \<and> has_capability VW_CAPABILITY_SOURCE_MODE w2 then local_uri m else None)"
  obtain started w4 where s: "start_session url w3 = (started, w4)" by fastforce
  have b4: "budget w4 = budget w" using budget_start[OF s] b2 by (simp add: w3_def)
  define w5 where "w5 = snd (send_translation (set_source_url url w4))"
  define w6 where "w6 = (if be_active (ps_benchmark w5) then w5 else begin_benchmark w5)"
  have b6: "budget w6 = budget w" using b4 by (simp add: w6_def w5_def)
  have b7: "budget (snd (call (\<lambda>c. ((), vw_worker_client_pause_session c)) () w6)) = budget w"
    using budget_view[OF view_call] b6 by metis
  have "w' = (if started then tally (\<lambda>n. n\<lparr>nc_chunks_sent := 0, nc_frames_received := 0, nc_segments_received := 0\<rparr>)
      (if paused then snd (call (\<lambda>c. ((), vw_worker_client_pause_session c)) () w6) else w6) else set_source_url url w4)"
    using e unfolding restart_session_def m i prod.case Let_def url_def[symmetric] w3_def[symmetric] s w5_def[symmetric] w6_def[symmetric]
    by (auto split: if_splits)
  then show ?thesis using b4 b6 b7 by simp
qed

text \<open>
  Property C17.  Respawns after the death of the transport are limited to three, each is counted
  once, and respawns for a change of the settings are not counted; a respawn beyond the limit
  leaves everything outside as it is, and any other one ends with the worker no longer thought
  dead.
\<close>
theorem vw_plugin_respawn_worker_budget:
  "case vw_plugin_respawn_worker paused transport_recovery w of (ok, w') \<Rightarrow>
     (if transport_recovery \<and> ps_respawn_count w \<ge> VW_MAX_WORKER_RESPAWNS
      then \<not> ok \<and> core w' = core w \<and> ps_respawn_count w' = ps_respawn_count w
      else \<not> ps_worker_dead w' \<and> ps_respawn_count w' = ps_respawn_count w + (if transport_recovery then 1 else 0))"
proof -
  define w1 where "w1 = w\<lparr>ps_paused_preview := vw_paused_preview_state_reset_session (ps_paused_preview w)\<rparr>"
  define w2 where "w2 = drop_worker (if transport_recovery then w1\<lparr>ps_respawn_count := ps_respawn_count w1 + 1\<rparr> else w1)"
  obtain m w3 where m: "now (w2\<lparr>ps_worker_dead := False\<rparr>) = (m, w3)" by fastforce
  define w4 where "w4 = resolve_worker m w3"
  define w5 where "w5 = vw_plugin_launch_with_auto_retry (launch_args_of m w4) (sn_worker_path (ps_cfg w4) \<noteq> []) w4"
  obtain ok w6 where r: "restart_session paused w5 = (ok, w6)" by fastforce
  have "budget w2 = budget (if transport_recovery then w1\<lparr>ps_respawn_count := ps_respawn_count w1 + 1\<rparr> else w1)"
    unfolding w2_def by simp
  then have "ps_respawn_count w2 = ps_respawn_count w + (if transport_recovery then 1 else 0)" by (simp add: budget_def w1_def split: if_splits)
  moreover have "budget w5 = budget (w2\<lparr>ps_worker_dead := False\<rparr>)" using budget_now[OF m] by (simp add: w5_def w4_def)
  moreover have "budget w6 = budget w5" by (rule budget_restart[OF r])
  ultimately have "budget w5 = (ps_respawn_count w + (if transport_recovery then 1 else 0), False)"
    "budget w6 = (ps_respawn_count w + (if transport_recovery then 1 else 0), False)" by (simp_all add: budget_def)
  then show ?thesis
    unfolding vw_plugin_respawn_worker_def Let_def w1_def[symmetric] w2_def[symmetric] m prod.case w4_def[symmetric] w5_def[symmetric] r
    by (simp add: budget_def w1_def)
qed

section \<open>The settings\<close>

lemma cut_id: "snprintf_cut n s \<noteq> s \<longleftrightarrow> n \<noteq> 0 \<and> length s \<ge> n \<or> n = 0 \<and> s \<noteq> []"
  by (cases n) (auto simp: snprintf_cut_def not_less_eq_eq)

lemma adopt_cfg: "ps_cfg (adopt_config c w) = (ps_cfg w)\<lparr>sn_worker_path := snprintf_cut VW_PATH_MAX_BYTES (opt_bytes (cf_worker_path c)),
    sn_model_path := snprintf_cut VW_PATH_MAX_BYTES (opt_bytes (cf_model_path c)),
    sn_backend := snprintf_cut 16 (or_default (cf_backend c) (ascii ''auto'')), sn_language := snprintf_cut 16 (language_setting c w),
    sn_threads := clamp_threads (cf_threads c), sn_logging := cf_logging c\<rparr>"
  by (simp add: adopt_config_def Let_def cfg_def split: option.split list.split)

text \<open>
  Property C20.  After the settings were adopted, the next poll finds no difference, unless a
  setting is too long for its field: then every poll finds one, and the worker is restarted
  every two seconds although nothing changed.
\<close>
theorem adopt_config_settles:
  "config_differs c (adopt_config c w) \<longleftrightarrow>
     length (opt_bytes (cf_worker_path c)) \<ge> VW_PATH_MAX_BYTES \<or> length (opt_bytes (cf_model_path c)) \<ge> VW_PATH_MAX_BYTES
     \<or> length (or_default (cf_backend c) (ascii ''auto'')) \<ge> 16 \<or> length (or_default (cf_language c) (ascii ''en'')) \<ge> 16"
proof -
  have p: "VW_PATH_MAX_BYTES \<noteq> 0" by (simp add: vw_limits)
  have c: "snprintf_cut n s = s \<longleftrightarrow> \<not> length s \<ge> n" if "n \<noteq> 0" for n and s :: bytes using cut_id[of n s] that by blast
  have l: "language_setting c (adopt_config c w) \<noteq> snprintf_cut 16 (language_setting c w) \<longleftrightarrow> length (or_default (cf_language c) (ascii ''en'')) \<ge> 16"
  proof (cases "or_default (cf_language c) (ascii ''en'') = ascii ''auto''")
    case True
    then show ?thesis by (simp add: language_setting_def adopt_cfg Let_def ascii_def)
  next
    case False
    then show ?thesis using c[of 16 "or_default (cf_language c) (ascii ''en'')"] by (simp add: language_setting_def Let_def eq_commute[of _ "snprintf_cut _ _"])
  qed
  show ?thesis
    using l unfolding config_differs_def Let_def adopt_cfg
    by (simp add: eq_commute[of _ "snprintf_cut _ _"] c[OF p] c del: One_nat_def)
qed

section \<open>What reaches the worker and the screen\<close>

lemma pop_view: "pop_chunk w = (ch, w') \<Longrightarrow> sender_view w' = sender_view w \<and> ps_client w' = ps_client w"
proof -
  assume e: "pop_chunk w = (ch, w')"
  obtain m w1 where m: "now w = (m, w1)" by fastforce
  show ?thesis using e view_now[OF m] now_frame[OF m] by (auto simp: pop_chunk_def m sender_view_def split: prod.splits)
qed

lemma forward_discards:
  "forward_loop n True s w = (s', w') \<Longrightarrow> s' = s \<and> ps_client w' = ps_client w \<and> sender_view w' = sender_view w"
proof (induction n arbitrary: s w)
  case (Suc n)
  obtain ch w1 where p: "pop_chunk w = (ch, w1)" by fastforce
  note v = pop_view[OF p]
  show ?case using Suc.prems Suc.IH[of s w1] v by (cases ch) (simp_all add: p)
qed simp


lemma note_shown_presenter: "ps_presenter (note_shown ok w) = ps_presenter w \<and> pl_vlc_log (note_shown ok w) = pl_vlc_log w
    \<and> ps_paused_preview (note_shown ok w) = ps_paused_preview w"
proof -
  obtain m w1 where m: "now w = (m, w1)" by fastforce
  show ?thesis unfolding note_shown_def m prod.case using now_frame[OF m] view_fields[OF view_now[OF m]] by (simp add: bench_def)
qed


section \<open>The audio callback\<close>


section \<open>A request without a worker\<close>

lemma client_sound_now: "now w = (m, w') \<Longrightarrow> ps_client w' = ps_client w \<and> ps_cfg w' = ps_cfg w \<and> ps_respawn_count w' = ps_respawn_count w"
  using view_fields[OF view_now] client_now by blast

text \<open>
  Property C22.  A request to download or abort that is seen while there is no worker is treated
  as the death of a worker: it uses up a respawn, and when none is left the sender thread ends,
  although only settings were changed.
\<close>
theorem model_request_without_worker:
  assumes "ps_client w = None" "sn_valid (ps_cfg w)" "ps_respawn_count w \<ge> VW_MAX_WORKER_RESPAWNS"
    "pl_moments w = m1 # m2 # ms" "mo_clock m1 - sn_last_poll_us (ps_cfg w) \<ge> 2000000"
    "opt_bytes (cf_model_download (mo_config m2)) \<noteq> []"
    "opt_bytes (cf_model_download (mo_config m2)) \<noteq> sn_model_download (ps_cfg w)"
    "\<not> config_differs (mo_config m2) w"
  shows "fst (sender_pass w) = False"
proof -
  let ?c = "mo_config m2"
  obtain w1 where w1: "now w = (m1, w1)" "pl_moments w1 = m2 # ms"
    using assms(4) now_frame[of w m1] by (auto simp: now_def)
  have f1: "ps_client w1 = None" "ps_cfg w1 = ps_cfg w" "ps_respawn_count w1 = ps_respawn_count w" using client_sound_now[OF w1(1)] assms(1) by simp_all
  define v where "v = cfg (\<lambda>s. s\<lparr>sn_last_poll_us := mo_clock m1\<rparr>) w1"
  have "pl_moments v = m2 # ms" by (simp add: v_def cfg_def w1(2))
  then obtain w2 where w2: "now v = (m2, w2)" by (auto simp: now_def)
  have f2: "ps_client w2 = None" "ps_cfg w2 = (ps_cfg w)\<lparr>sn_last_poll_us := mo_clock m1\<rparr>" "ps_respawn_count w2 = ps_respawn_count w"
    using client_sound_now[OF w2] f1 by (simp_all add: v_def cfg_def)
  define w3 where "w3 = poll_translation ?c w2"
  have f3: "ps_client w3 = None" "ps_respawn_count w3 = ps_respawn_count w" "sn_model_download (ps_cfg w3) = sn_model_download (ps_cfg w)"
    using f2 by (simp_all add: w3_def poll_translation_def relay_translation_def Let_def cfg_def)
  have d3: "config_differs ?c w3 = config_differs ?c w"
    using f2 by (simp add: w3_def poll_translation_def relay_translation_def Let_def cfg_def config_differs_def language_setting_def)
  define w4 where "w4 = poll_model_request ?c w3"
  have f4: "ps_worker_dead w4" "ps_respawn_count w4 = ps_respawn_count w"
    using f3 assms(6,7) by (simp_all add: w4_def poll_model_request_def relay_model_request_def vw_plugin_send_model_request_def Let_def put_def)
  have "follow_config w = w4"
    unfolding follow_config_def w1(1) prod.case Let_def poll_config_def
    using f1 assms(2,5,8) d3 by (simp add: v_def[symmetric] w2 w3_def[symmetric] w4_def)
  then show ?thesis
    using f4 assms(3) by (simp add: sender_pass_def Let_def vw_plugin_respawn_worker_def)
qed

definition sample_idle :: vw_plugin where
  "sample_idle = (opened [no_moment\<lparr>mo_clock := 2000000\<rparr>, no_moment\<lparr>mo_config := no_config\<lparr>cf_model_download := Some (ascii ''tiny'')\<rparr>\<rparr>]
       sample_queue [] [] [] [] False)
     \<lparr>ps_respawn_count := 3, ps_cfg := (initial_cfg False)\<lparr>sn_valid := True, sn_backend := ascii ''auto'', sn_language := ascii ''en''\<rparr>\<rparr>"

theorem model_request_without_worker_witness:
  "ps_client sample_idle = None \<and> \<not> ps_worker_dead sample_idle \<and> fst (sender_pass sample_idle) = False"
proof -
  let ?c = "no_config\<lparr>cf_model_download := Some (ascii ''tiny'')\<rparr>"
  have "\<not> config_differs ?c sample_idle"
    by (simp add: config_differs_def sample_idle_def opened_def initial_cfg_def no_config_def opt_bytes_def or_default_def
        language_setting_def clamp_threads_def ascii_def)
  then have "fst (sender_pass sample_idle) = False"
    by (intro model_request_without_worker[of sample_idle "no_moment\<lparr>mo_clock := 2000000\<rparr>" "no_moment\<lparr>mo_config := ?c\<rparr>" "[]"])
      (simp_all add: sample_idle_def opened_def initial_cfg_def opt_bytes_def ascii_def)
  then show ?thesis by (simp add: sample_idle_def opened_def)
qed

section \<open>A whole life\<close>

text \<open>
  Property C4.  However long the plugin lived and whatever VLC, the workers and the system did:
  when it is closed there is no client, and for every launch it ever made, every pipe that was
  opened was closed, every worker process was closed or terminated, and every client was
  freed, once each.
\<close>
theorem vw_plugin_life_resources:
  "case vw_plugin_life e moments of
     None \<Rightarrow> True
   | Some w \<Rightarrow> ps_client w = None \<and> list_all (\<lambda>n. balanced (nt_events n)) (pl_past w)"
proof (cases "vw_plugin_open e moments")
  case (Some w)
  define w1 where "w1 = (if ps_sender_started w then vw_plugin_sender_main w else w)"
  have "accounted w1" using open_good[OF Some] main_good(1) by (simp add: w1_def)
  then have "accounted (vw_plugin_close w1)" by (rule close_good)
  then show ?thesis using close_leaves[of w1] by (simp add: vw_plugin_life_def Some w1_def accounted_def)
qed (simp add: vw_plugin_life_def)



section \<open>The two catalogs\<close>

lemma catalog_pairs: "kMap = map (\<lambda>e. (ce_id e, ce_filename e)) kVWModelCatalogEntries"
  by code_simp

lemma separator_after:
  assumes "0x2F \<notin> set f" "0x5C \<notin> set f"
  shows "last_separator (dir @ 0x2F # f) = Some (length dir)"
proof -
  have t: "takeWhile (\<lambda>x. x \<noteq> 0x2F) (rev (dir @ 0x2F # f)) = rev f"
    using assms(1) by (simp add: takeWhile_append2) (subst takeWhile_append2, auto)
  have b: "takeWhile (\<lambda>x. x \<noteq> 0x5C) (rev (dir @ 0x2F # f)) = rev f @ 0x2F # takeWhile (\<lambda>x. x \<noteq> 0x5C) (rev dir)"
    using takeWhile_append2[of "rev f" "\<lambda>x. x \<noteq> 0x5C" "0x2F # rev dir"] assms(2) by auto
  have "strrchr (dir @ 0x2F # f) 0x2F = Some (length dir)" unfolding strrchr_def t by simp
  moreover have "case strrchr (dir @ 0x2F # f) 0x5C of None \<Rightarrow> True | Some j \<Rightarrow> j \<le> length dir"
    unfolding strrchr_def b by (simp add: Let_def)
  ultimately show ?thesis by (auto simp: last_separator_def split: option.splits)
qed

lemma find_pairs: "map_option snd (List.find (\<lambda>e. fst e = s) (map (\<lambda>e. (f e, g e)) es)) = map_option g (List.find (\<lambda>e. f e = s) es)"
  by (induction es) auto

lemma catalog_files: "list_all (\<lambda>e. 0x2F \<notin> set (ce_filename e) \<and> 0x5C \<notin> set (ce_filename e)
    \<and> List.find (\<lambda>k. ce_filename e = snd k) kMap = Some (ce_id e, ce_filename e)) kVWModelCatalogEntries"
  by code_simp

text \<open>
  Property C23.  The plugin's table of models is the worker's catalog, and a path that ends in the
  file of a model is announced to the worker under the identifier of this model.
\<close>
theorem vw_plugin_catalog_agrees:
  "vw_plugin_catalog_filename i = map_option ce_filename (vw_model_catalog_find i)
   \<and> list_all (\<lambda>e. \<forall>dir. vw_plugin_catalog_id_from_path (dir @ 0x2F # ce_filename e) = ce_id e) kVWModelCatalogEntries"
proof
  show "vw_plugin_catalog_filename i = map_option ce_filename (vw_model_catalog_find i)"
    by (cases i) (simp_all add: vw_plugin_catalog_filename_def vw_model_catalog_find_def catalog_pairs find_pairs)
  show "list_all (\<lambda>e. \<forall>dir. vw_plugin_catalog_id_from_path (dir @ 0x2F # ce_filename e) = ce_id e) kVWModelCatalogEntries"
    using catalog_files by (rule list.pred_mono_strong) (simp add: vw_plugin_catalog_id_from_path_def separator_after)
qed

end
