(* ===== verification/Spec2Isabelle.thy ===== *)
theory Spec2Isabelle
  imports VW_Codec VW_Spsc_Queue VW_Audio_Capture VW_Caption_Presenter VW_Benchmark
    VW_Audio_Buffer VW_Worker_Queue VW_Sha256 VW_Hallucination VW_Segment_Builder VW_Vad
    VW_Translate_Async VW_Translate VW_Worker_Config VW_Worker_Client_Props
    VW_Worker_Props VW_Plugin_Props
begin

text \<open>
  \<^bold>\<open>A verification library for vlc-whisper.\<close>

  The program captions what VLC plays.  A plugin inside VLC (\<^verbatim>\<open>src/plugin\<close>) converts the
  decoded audio to 16 kHz mono chunks, queues them for a sender thread, and shows the
  captions it gets back; a worker process (\<^verbatim>\<open>src/worker\<close>) buffers the audio, cuts it in
  pauses, transcribes it, turns the hypotheses into cues and optionally translates them;
  both talk in frames of a wire protocol (\<^verbatim>\<open>src/protocol\<close>).

  \<^bold>\<open>Correspondence with the source.\<close>  Definitions keep the names of the C functions, and
  a definition whose name is not a C name translates a part of the function that the
  manifest gives for it.  C structs are records, enums datatypes, fixed-width integers
  words where they wrap and integers where the code relies on them not wrapping, pointers
  to text optional byte lists, failing calls options or booleans, threads and callbacks
  steps of a relation.  Library calls (VLC, whisper, Silero, the file system, the network,
  allocation) are arguments.

  \<^item> \<^verbatim>\<open>VW_Prelude\<close>: byte lists, C strings, little-endian integers, rings as slices, the
    interfaces \<open>fifo_source\<close> and \<open>bounded_fifo\<close> of the queues.
  \<^item> \<^verbatim>\<open>VW_Types\<close>, \<^verbatim>\<open>VW_Util\<close>, \<^verbatim>\<open>VW_Validate\<close>, \<^verbatim>\<open>VW_Codec\<close>: \<^verbatim>\<open>protocol/\<close>.  Encoding
    and decoding are inverse for every message type, decoded messages have their C type,
    valid messages fit a frame, the UTF-8 scanner accepts exactly the encodings of
    sequences of Unicode scalar values.
  \<^item> \<^verbatim>\<open>VW_Spsc_Queue\<close>: \<^verbatim>\<open>plugin/src/vw_queue.c\<close>, as a sequential queue and as an
    interleaving of atomic accesses in which a load may return any value not older than
    the last one seen.
  \<^item> \<^verbatim>\<open>VW_Ieee\<close>, \<^verbatim>\<open>VW_Audio_Capture\<close>: \<^verbatim>\<open>plugin/src/vw_audio_capture.c\<close> with the rounding of
    its floating-point samples; the callback implements an exact rational resampler.
  \<^item> \<^verbatim>\<open>VW_Caption_Presenter\<close>: \<^verbatim>\<open>plugin/src/vw_caption_presenter.c\<close>; VLC calls are events,
    and a checker of reference counts and channels accepts every sequence of operations.
  \<^item> \<^verbatim>\<open>VW_Benchmark\<close>: \<^verbatim>\<open>plugin/src/vw_benchmark.c\<close>, its counters, report and paths.
  \<^item> \<^verbatim>\<open>VW_Audio_Buffer\<close>, \<^verbatim>\<open>VW_Worker_Queue\<close>, \<^verbatim>\<open>VW_Vad\<close>, \<^verbatim>\<open>VW_Segment_Builder\<close>,
    \<^verbatim>\<open>VW_Hallucination\<close>, \<^verbatim>\<open>VW_Sha256\<close>: the worker's files of the same names.
  \<^item> \<^verbatim>\<open>VW_Translate_Types\<close>, \<^verbatim>\<open>VW_Translate_Async\<close>: the translation pipeline; for every
    interleaving of its threads, results come out once, in submission order, and the
    pipeline drains.
  \<^item> \<^verbatim>\<open>VW_Text_Codec\<close>, \<^verbatim>\<open>VW_Translate\<close>: \<^verbatim>\<open>worker/src/vw_translate.c\<close>, its escapes, its
    response parsers, the curl child process and the fallback tiers; the system calls are
    arguments, and the contract holds for all their answers.
  \<^item> \<^verbatim>\<open>VW_Worker_Config\<close>: \<^verbatim>\<open>worker/src/vw_worker_config.c\<close>, the command line and the search
    for the model files.
  \<^item> \<^verbatim>\<open>VW_Ipc\<close>: the transport as tapes of answers, streams of numbered frames, and the
    interface \<open>frame_sender\<close> of a component that writes one.
  \<^item> \<^verbatim>\<open>VW_Worker_Client\<close>, \<^verbatim>\<open>VW_Worker_Client_Laws\<close>, \<^verbatim>\<open>VW_Worker_Client_Props\<close>:
    \<^verbatim>\<open>plugin/src/vw_worker_client.c\<close>; the client is an instance of \<open>frame_sender\<close>, its reader
    refines a filter on frames, sessions are confirmed and handles released once.
  \<^item> \<^verbatim>\<open>VW_Whisper_Engine\<close>, \<^verbatim>\<open>VW_Model_Catalog\<close>: the wrapper of the whisper library and the
    list of models.
  \<^item> \<^verbatim>\<open>VW_Model_Download\<close>: \<^verbatim>\<open>worker/src/vw_model_download.c\<close>, the download thread, its curl
    process and the main loop as interleaved steps; only verified models are published,
    aborting and publishing exclude each other, and freeing a download ends.
  \<^item> \<^verbatim>\<open>VW_Worker_Io\<close>, \<^verbatim>\<open>VW_Worker\<close>, \<^verbatim>\<open>VW_Worker_Run\<close>: \<^verbatim>\<open>worker/src/vw_worker.c\<close>.  One record
    holds the variables of \<^verbatim>\<open>vw_worker_run\<close>; the reader thread and the translation threads run
    where the main loop looks at what they write, in batches given by a schedule; each
    message has a handler, and \<open>iteration\<close> is one pass of the main loop.
  \<^item> \<^verbatim>\<open>VW_Worker_Laws\<close>, \<^verbatim>\<open>VW_Worker_Props\<close>: what each of these operations may send and change;
    the main loop is the second instance of \<open>frame_sender\<close>, only a peer with the token gets a
    session, captions carry the session they belong to, and a run ends.
  \<^item> \<^verbatim>\<open>VW_Plugin_Paths\<close>, \<^verbatim>\<open>VW_Plugin_State\<close>, \<^verbatim>\<open>VW_Plugin_Worker\<close>, \<^verbatim>\<open>VW_Plugin_Sender\<close>,
    \<^verbatim>\<open>VW_Plugin\<close>: \<^verbatim>\<open>plugin/src/vw_whisper_module.c\<close> with the headers that redefine some of its
    calls.  One record holds \<^verbatim>\<open>vw_plugin_sys_t\<close> and the variables of the sender thread; what the
    outside answers comes from a list of moments, and the audio callbacks run whenever the
    sender takes one.
  \<^item> \<^verbatim>\<open>VW_Plugin_Laws\<close>, \<^verbatim>\<open>VW_Plugin_Accounts\<close>, \<^verbatim>\<open>VW_Plugin_Props\<close>: the interface
    \<open>plugin_relation\<close> of a relation that every single access respects, and its instances.  Over
    a whole life of the plugin workers, connections and VLC references are released once, the
    sender ends, and captions and audio pass only where they may.

  \<^bold>\<open>Bounds and fuel.\<close>  Loops are structural recursions or functions with a termination
  proof.  Where a loop of the code is bounded by a capacity (the gap-closing loop of the
  completion ring) the capacity is the fuel and a lemma shows that it is never used up.
  Loops that wait for the transport consume the tape of clock readings, which is their
  measure; an exhausted tape reads as a failing clock, a case the code handles.  The worker's
  main loop is a partial function, and a theorem shows that it returns: every iteration but
  the last uses up part of the schedule of the other threads, and a schedule that has run out
  is a broken connection.  The plugin's sender loop has the number of moments as fuel, which is
  never used up, and its loops over the audio queue the moments and the capacity of the queue.

  \<^bold>\<open>Not modelled.\<close>  The VLC module descriptor, logging, process and socket handling,
  the Windows branches, and the wrappers of the FFmpeg and Media Foundation libraries.
\<close>

unbundle bit_operations_syntax

section \<open>The command line between plugin and worker\<close>

lemma hex_digit_of_nibble:
  assumes "n < 16"
  shows "hex_digit (ascii ''0123456789abcdef'' ! n) = Some n"
proof -
  have "list_all (\<lambda>n. hex_digit (ascii ''0123456789abcdef'' ! n) = Some n) [0..<16]" by code_simp
  then show ?thesis using assms by (simp add: list_all_iff)
qed

lemma nibbles_byte:
  fixes b :: u8
  shows "(ucast (push_bit 4 (of_nat (unat (drop_bit 4 b))) OR of_nat (unat (b AND 0x0F)) :: u32) :: u8) = b"
proof (rule bit_word_eqI)
  fix i assume "i < LENGTH(8)"
  then have "i = 0 \<or> i = 1 \<or> i = 2 \<or> i = 3 \<or> i = 4 \<or> i = 5 \<or> i = 6 \<or> i = 7" by auto
  then show "bit (ucast (push_bit 4 (of_nat (unat (drop_bit 4 b))) OR of_nat (unat (b AND 0x0F)) :: u32) :: u8) i = bit b i"
    by (elim disjE) (simp_all add: bit_simps of_nat_unat unsigned_of_nat)
qed

lemma token_loop_hex: "token_loop (token_to_hex tok) = Some tok"
proof (induction tok)
  case Nil
  show ?case by (simp add: token_to_hex_def)
next
  case (Cons b tok)
  have "unat b < 16 * 16" by (rule order.strict_trans2[OF unsigned_less]) simp
  then have "unat b div 16 < 16" by (rule less_mult_imp_div_less)
  then have "unat (drop_bit 4 b) < 16" "unat (b AND 0x0F) < 16"
    using word_and_le1[of b "0x0F"] by (simp_all add: drop_bit_eq_div unat_div word_le_nat_alt)
  then show ?case using Cons by (simp add: token_to_hex_def hex_digit_of_nibble nibbles_byte[simplified])
qed

lemma length_token_to_hex: "length (token_to_hex tok) = 2 * length tok"
  by (induction tok) (simp_all add: token_to_hex_def)

lemma token_roundtrip: "length tok = VW_AUTH_TOKEN_BYTES \<Longrightarrow> vw_token_from_hex (token_to_hex tok) = Some tok"
  by (simp add: vw_token_from_hex_def token_loop_hex length_token_to_hex)

lemma base_digit_decimal: "is_digit c \<Longrightarrow> base_digit 10 c = Some (unat c - 48)"
  unfolding base_digit_def hex_digit_def is_digit_def by (auto simp: word_le_nat_alt)

lemma digits_value_decimal:
  "list_all is_digit s \<Longrightarrow> digits_value 10 v s = (foldl (\<lambda>a c. 10 * a + (unat c - 48)) v s, [])"
  by (induction s arbitrary: v) (simp_all add: base_digit_decimal mult.commute)

lemma strtol_dec_digits:
  assumes "int n \<le> INT64_MAX"
  shows "strtol10 (dec_digits n) = (int n, True)"
proof -
  obtain d ds where d: "dec_digits n = d # ds" by (cases "dec_digits n") (auto simp: dec_digits.simps[of n] split: if_splits)
  with dec_digits_are_digits[of n] have g: "is_digit d" by simp
  then have "\<not> isspace d" "d \<noteq> 0x2D" "d \<noteq> 0x2B"
    by (auto simp: is_digit_def isspace_def word_le_nat_alt)
  moreover have "digits_value 10 0 (d # ds) = (n, [])"
    using digits_value_decimal[OF dec_digits_are_digits[of n], of 0] of_digits_dec_digits[of n] by (simp add: d of_digits_def)
  ultimately show ?thesis
    using base_digit_decimal[OF g] assms unfolding strtol10_def d by (simp add: Let_def INT64_MIN_def)
qed

lemma parse_option:
  "parse_args_loop sys c (ascii ''--pipe'' # v # r) =
     (if length v \<ge> 256 then (2, c) else parse_args_loop sys (c\<lparr>wc_pipe_name := v\<rparr>) r)"
  "parse_args_loop sys c (ascii ''--token'' # v # r) =
     (case vw_token_from_hex v of None \<Rightarrow> (2, c) | Some t \<Rightarrow> parse_args_loop sys (c\<lparr>wc_auth_token := t\<rparr>) r)"
  "parse_args_loop sys c (ascii ''--model'' # v # r) =
     (if length v \<ge> VW_PATH_MAX_BYTES then (2, c) else parse_args_loop sys (c\<lparr>wc_model_path := v\<rparr>) r)"
  "parse_args_loop sys c (ascii ''--model-dir'' # v # r) =
     (if length v \<ge> VW_PATH_MAX_BYTES then (2, c) else parse_args_loop sys (c\<lparr>wc_model_dir := v\<rparr>) r)"
  "parse_args_loop sys c (ascii ''--backend'' # v # r) =
     (case parse_backend v of None \<Rightarrow> (2, c) | Some b \<Rightarrow> parse_args_loop sys (c\<lparr>wc_backend := b\<rparr>) r)"
  "parse_args_loop sys c (ascii ''--gpu-device'' # v # r) =
     (case strtol10 v of (n, all) \<Rightarrow> if \<not> all \<or> n < 0 \<or> n > 65535 then (2, c) else parse_args_loop sys (c\<lparr>wc_gpu_device := n\<rparr>) r)"
  "parse_args_loop sys c (ascii ''--language'' # v # r) =
     (if v = [] \<or> length v \<ge> 16 \<or> v = ascii ''auto'' \<or> ws_lang_id sys v < 0 then (2, c)
      else parse_args_loop sys (c\<lparr>wc_language := v\<rparr>) r)"
  "parse_args_loop sys c (ascii ''--n-threads'' # v # r) =
     (case strtol10 v of (n, all) \<Rightarrow> if \<not> all then (2, c) else parse_args_loop sys (c\<lparr>wc_n_threads := min 16 (max 1 n)\<rparr>) r)"
  "parse_args_loop sys c (ascii ''--enable-logging'' # r) = parse_args_loop sys (c\<lparr>wc_logging_enabled := True\<rparr>) r"
  by (simp_all add: takes_value_def set_option_def ascii_def split: option.splits prod.splits)

declare parse_args_loop.simps(2) [simp del]

text \<open>
  Property C12.  The worker understands the command line the plugin gives it: for values in the
  ranges both sides document, parsing succeeds and the configuration holds exactly the
  endpoint, the token, the model, the backend, the device, the language, the number of
  threads (4 for a number out of range), the model directory and the logging switch that were
  asked for, and the defaults for what was not.
\<close>

theorem worker_argv_understood:
  assumes "length tok = VW_AUTH_TOKEN_BYTES" "length ep < 256" "parse_backend (or_default backend (ascii ''auto'')) = Some b"
    "length (or_default language (ascii ''en'')) < 16" "or_default language (ascii ''en'') \<noteq> ascii ''auto''"
    "0 \<le> ws_lang_id sys (or_default language (ascii ''en''))" "gpu \<le> 65535"
    "case model of Some m \<Rightarrow> length m < VW_PATH_MAX_BYTES | None \<Rightarrow> True"
    "case dir of Some d \<Rightarrow> length d < VW_PATH_MAX_BYTES | None \<Rightarrow> True"
  shows "vw_worker_config_parse_args sys vw_worker_config_init_defaults
      (worker_argv exe ep tok model backend language threads gpu dir logging) =
    (0, vw_worker_config_init_defaults\<lparr>wc_pipe_name := ep, wc_auth_token := tok,
       wc_model_path := (case model of Some m \<Rightarrow> m | None \<Rightarrow> wc_model_path vw_worker_config_init_defaults),
       wc_backend := b, wc_gpu_device := max 0 gpu, wc_language := or_default language (ascii ''en''),
       wc_n_threads := (if 1 \<le> threads \<and> threads \<le> 16 then threads else 4),
       wc_model_dir := (case dir of Some d \<Rightarrow> d | None \<Rightarrow> []), wc_logging_enabled := logging\<rparr>)"
proof -
  have l: "or_default language (ascii ''en'') \<noteq> []" by (simp add: or_default_def ascii_def split: option.splits)
  define th where "th = (if threads < 1 \<or> 16 < threads then 4 else threads)"
  have th: "1 \<le> th" "th \<le> 16" "(if 1 \<le> threads \<and> threads \<le> 16 then threads else 4) = th" by (auto simp: th_def)
  have t: "strtol10 (dec_digits (nat th)) = (th, True)"
    by (subst strtol_dec_digits) (use th in \<open>auto simp: INT64_MAX_def\<close>)
  have g: "0 \<le> gpu \<Longrightarrow> strtol10 (dec_digits (nat gpu)) = (gpu, True)"
    by (subst strtol_dec_digits) (use assms(7) in \<open>auto simp: INT64_MAX_def\<close>)
  have m: "parse_args_loop sys c ((case model of Some m \<Rightarrow> [ascii ''--model'', m] | None \<Rightarrow> []) @ r) =
      parse_args_loop sys (c\<lparr>wc_model_path := (case model of Some m \<Rightarrow> m | None \<Rightarrow> wc_model_path c)\<rparr>) r" for c r
    using assms(8) by (cases model) (simp_all add: parse_option)
  have d: "parse_args_loop sys c ((case dir of Some d \<Rightarrow> if d \<noteq> [] then [ascii ''--model-dir'', d] else [] | None \<Rightarrow> []) @ r) =
      parse_args_loop sys (c\<lparr>wc_model_dir := (case dir of Some d \<Rightarrow> d | None \<Rightarrow> [])\<rparr>) r" if "wc_model_dir c = []" for c r
    using assms(9) that by (cases c; cases dir) (simp_all add: parse_option)
  have gp: "parse_args_loop sys c ((if gpu \<ge> 0 then [ascii ''--gpu-device'', dec_digits (nat gpu)] else []) @ r) =
      parse_args_loop sys (c\<lparr>wc_gpu_device := max 0 gpu\<rparr>) r" if "wc_gpu_device c = 0" for c r
    using assms(7) g that by (cases c) (auto simp: parse_option)
  have lg: "parse_args_loop sys c (if logging then [ascii ''--enable-logging''] else []) = (0, c\<lparr>wc_logging_enabled := logging\<rparr>)"
    if "\<not> wc_logging_enabled c" for c
    using that parse_option(9)[of sys c "[]"] by (cases c) simp
  show ?thesis
    unfolding vw_worker_config_parse_args_def worker_argv_def th_def[symmetric] th(3)
    using th(1,2) assms(6)
    by (simp add: parse_option m gp d lg token_roundtrip t l assms(1-5) vw_worker_config_init_defaults_def not_le min_def max_def split: option.splits)
qed

theorem worker_argv_understood_witness:
  "(let sys = \<lparr>ws_can_open = (\<lambda>_. False), ws_exe = None, ws_xdg_data_home = None, ws_home = None, ws_lang_id = (\<lambda>_. 0)\<rparr> in
    vw_worker_config_parse_args sys vw_worker_config_init_defaults
      (worker_argv (ascii ''worker'') (ascii ''pipe'') (replicate 32 0xAB) None (Some (ascii ''gpu'')) (Some (ascii ''de'')) 99 1 None True) =
    (0, vw_worker_config_init_defaults\<lparr>wc_pipe_name := ascii ''pipe'', wc_auth_token := replicate 32 0xAB,
       wc_backend := VW_WORKER_BACKEND_GPU, wc_gpu_device := 1, wc_language := ascii ''de'', wc_logging_enabled := True\<rparr>))"
proof -
  let ?sys = "\<lparr>ws_can_open = (\<lambda>_. False), ws_exe = None, ws_xdg_data_home = None, ws_home = None, ws_lang_id = (\<lambda>_. 0)\<rparr>"
  have h: "length (replicate 32 (0xAB :: u8)) = VW_AUTH_TOKEN_BYTES" "length (ascii ''pipe'') < 256"
    "parse_backend (or_default (Some (ascii ''gpu'')) (ascii ''auto'')) = Some VW_WORKER_BACKEND_GPU"
    "length (or_default (Some (ascii ''de'')) (ascii ''en'')) < 16" "or_default (Some (ascii ''de'')) (ascii ''en'') \<noteq> ascii ''auto''"
    "0 \<le> ws_lang_id ?sys (or_default (Some (ascii ''de'')) (ascii ''en''))"
    by (simp_all add: or_default_def parse_backend_def ascii_def vw_limits)
  from worker_argv_understood[OF h, of 1 None None "ascii ''worker''" 99 True] show ?thesis
    by (simp add: or_default_def ascii_def Let_def vw_worker_config_init_defaults_def)
qed

end
